(* ===== verification/P4P_Prelude.thy ===== *)
theory P4P_Prelude
  imports Main "HOL-Library.Word" "HOL-Library.List_Lexorder" "HOL-Library.Char_ord"
begin

unbundle bit_operations_syntax

text \<open>
  What the component theories share: the error values of the model, the sum monad that
  threads them, the parts of the C and C++ libraries the sources use (decimal conversion,
  \<open>strtoul\<close>, \<open>memcmp\<close>, C strings) and the reading of a byte buffer as a list of bits,
  most significant bit of the first byte first, which is how IP prefixes are compared.
\<close>

named_theorems p4p_err \<open>facts that evaluate the error monad\<close>
named_theorems p4p_bits \<open>facts on the bits of byte buffers\<close>
named_theorems p4p_map \<open>lookup laws of the ordered maps\<close>

section \<open>Errors as values\<close>

text \<open>
  A C++ exception is the constructor of its class with its message; \<open>Assertion_Failed\<close> is
  a failed \<open>assert\<close>; \<open>Undefined_Behaviour\<close> is an access the language gives no meaning to
  (an index past the end of a buffer or vector, a null pointer that is followed). \<open>Deadlock\<close> is a thread that waits for a lock it holds itself.
  \<open>P4PProtocolError\<close> stands for the class of that name and its subclasses, with the message, except for
  \<open>P4PProtocolConnectionError\<close>, for which the client has a handler of its own. Where the sources call
  \<open>rand ()\<close> the model takes the values from a finite list, and \<open>Out_Of_Draws\<close> says that the list was
  too short: it is no behaviour of the program.
\<close>

datatype p4p_error =
    Runtime_Error string
  | Invalid_Argument string
  | Range_Error string
  | Assertion_Failed
  | Undefined_Behaviour
  | Deadlock
  | P4PProtocolError string
  | P4PProtocolConnectionError string
  | Out_Of_Draws

type_synonym 'a result = "p4p_error + 'a"

definition bindE :: "'a result \<Rightarrow> ('a \<Rightarrow> 'b result) \<Rightarrow> 'b result" where
  "bindE m f = (case m of Inl e \<Rightarrow> Inl e | Inr x \<Rightarrow> f x)"

definition assertE :: "bool \<Rightarrow> unit result" where
  "assertE b = (if b then Inr () else Inl Assertion_Failed)"

text \<open>Reading a vector or buffer by index, where the access is unchecked in the source.\<close>

definition nthE :: "'a list \<Rightarrow> nat \<Rightarrow> 'a result" where
  "nthE xs i = (if i < length xs then Inr (xs ! i) else Inl Undefined_Behaviour)"

lemma bindE_simps [simp, p4p_err]:
  "bindE (Inl e) f = Inl e"
  "bindE (Inr x) f = f x"
  by (simp_all add: bindE_def)

lemma bindE_eq_Inr: "bindE m f = Inr y \<longleftrightarrow> (\<exists>x. m = Inr x \<and> f x = Inr y)"
  by (cases m) auto

lemma bindE_assoc: "bindE (bindE m f) g = bindE m (\<lambda>x. bindE (f x) g)"
  by (cases m) auto

lemma assertE_simps [simp, p4p_err]: "assertE True = Inr ()" "assertE False = Inl Assertion_Failed"
  by (simp_all add: assertE_def)

lemma nthE_Inr [simp]: "i < length xs \<Longrightarrow> nthE xs i = Inr (xs ! i)"
  by (simp add: nthE_def)

lemma nthE_Inl [simp]: "length xs \<le> i \<Longrightarrow> nthE xs i = Inl Undefined_Behaviour"
  by (simp add: nthE_def)

section \<open>Machine integers\<close>

type_synonym u8 = "8 word"
type_synonym u32 = "32 word"

text \<open>\<open>USHRT_MAX\<close>, \<open>UINT_MAX\<close>, \<open>ULONG_MAX\<close> and \<open>INT_MAX\<close> of the LP64 platforms the code targets.\<close>

abbreviation (input) USHRT_MAX :: nat where "USHRT_MAX \<equiv> 65535"
abbreviation (input) UINT_MAX :: nat where "UINT_MAX \<equiv> 4294967295"
abbreviation (input) ULONG_MAX :: nat where "ULONG_MAX \<equiv> 18446744073709551615"
abbreviation (input) INT_MAX :: int where "INT_MAX \<equiv> 2147483647"

text \<open>Conversion of an unsigned value to \<open>unsigned short\<close>.\<close>

definition to_ushort :: "nat \<Rightarrow> nat" where
  "to_ushort n = n mod 65536"

lemma to_ushort_le: "to_ushort n \<le> USHRT_MAX"
  by (simp add: to_ushort_def)

lemma to_ushort_id: "n \<le> USHRT_MAX \<Longrightarrow> to_ushort n = n"
  by (simp add: to_ushort_def)

section \<open>Characters and decimal numbers\<close>

text \<open>\<open>isspace\<close> and \<open>isdigit\<close> of the C locale.\<close>

definition c_isspace :: "char \<Rightarrow> bool" where
  "c_isspace c \<longleftrightarrow> c \<in> {CHR 0x20, CHR 0x09, CHR 0x0A, CHR 0x0B, CHR 0x0C, CHR 0x0D}"

definition c_isdigit :: "char \<Rightarrow> bool" where
  "c_isdigit c \<longleftrightarrow> 48 \<le> (of_char c :: nat) \<and> (of_char c :: nat) \<le> 57"

definition digit_val :: "char \<Rightarrow> nat" where
  "digit_val c = of_char c - 48"

definition digit_char :: "nat \<Rightarrow> char" where
  "digit_char n = char_of (n + 48)"

lemma of_char_digit_char: "n < 10 \<Longrightarrow> (of_char (digit_char n) :: nat) = n + 48"
  by (simp add: digit_char_def)

lemma digit_char_isdigit [simp]: "n < 10 \<Longrightarrow> c_isdigit (digit_char n)"
  by (simp add: c_isdigit_def of_char_digit_char)

lemma digit_val_digit_char [simp]: "n < 10 \<Longrightarrow> digit_val (digit_char n) = n"
  by (simp add: digit_val_def of_char_digit_char)

lemma digit_not_space: "c_isdigit c \<Longrightarrow> \<not> c_isspace c"
  by (auto simp: c_isdigit_def c_isspace_def)

text \<open>\<open>operator<<\<close> of an unsigned number, and the value of a digit sequence.\<close>

fun show_nat :: "nat \<Rightarrow> string" where
  "show_nat n = (if n < 10 then [digit_char n] else show_nat (n div 10) @ [digit_char (n mod 10)])"

declare show_nat.simps [simp del]

definition digits_val :: "string \<Rightarrow> nat" where
  "digits_val ds = foldl (\<lambda>v c. 10 * v + digit_val c) 0 ds"

lemma show_nat_nonempty [simp]: "show_nat n \<noteq> []"
  by (subst show_nat.simps) simp

lemma show_nat_digits: "c \<in> set (show_nat n) \<Longrightarrow> c_isdigit c"
proof (induction n rule: show_nat.induct)
  case (1 n)
  then show ?case by (subst (asm) show_nat.simps) (auto split: if_splits)
qed

lemma digits_val_show_nat [simp]: "digits_val (show_nat n) = n"
proof (induction n rule: show_nat.induct)
  case (1 n)
  show ?case
  proof (cases "n < 10")
    case True
    then show ?thesis by (subst show_nat.simps) (simp add: digits_val_def)
  next
    case False
    with 1 have "digits_val (show_nat (n div 10)) = n div 10" by blast
    with False show ?thesis by (subst show_nat.simps) (simp add: digits_val_def)
  qed
qed

lemma takeWhile_digits_show_nat:
  "rest = [] \<or> \<not> c_isdigit (hd rest) \<Longrightarrow> takeWhile c_isdigit (show_nat n @ rest) = show_nat n"
  using show_nat_digits by (cases rest) (auto simp: takeWhile_append takeWhile_eq_all_conv)

lemma dropWhile_digits_show_nat:
  "rest = [] \<or> \<not> c_isdigit (hd rest) \<Longrightarrow> dropWhile c_isdigit (show_nat n @ rest) = rest"
  using show_nat_digits by (cases rest) (auto simp: dropWhile_append)

lemma hd_show_nat_digit: "c_isdigit (hd (show_nat n @ rest))"
  using show_nat_digits [of "hd (show_nat n)" n] by simp

text \<open>The characters of a \<open>std::string\<close> as a C string ends at the first NUL.\<close>

definition c_str :: "string \<Rightarrow> string" where
  "c_str s = takeWhile (\<lambda>c. c \<noteq> CHR 0x00) s"

text \<open>
  \<open>strtoul(s, &end, 10)\<close>: the value and the rest of the string. White space, a sign and
  digits are consumed; without digits nothing is consumed and the value is 0; a value that
  does not fit is \<open>ULONG_MAX\<close>; a minus sign negates the result in unsigned arithmetic.
\<close>

definition skip_sign :: "string \<Rightarrow> bool \<times> string" where
  "skip_sign s = (case s of
       c # cs \<Rightarrow> if c = CHR ''-'' then (True, cs) else if c = CHR ''+'' then (False, cs) else (False, s)
     | [] \<Rightarrow> (False, s))"

definition strtoul :: "string \<Rightarrow> nat \<times> string" where
  "strtoul s =
     (let (neg, t) = skip_sign (dropWhile c_isspace s); ds = takeWhile c_isdigit t; v = digits_val ds
      in if ds = [] then (0, s)
         else (if v > ULONG_MAX then ULONG_MAX
               else if neg \<and> v > 0 then ULONG_MAX + 1 - v else v,
               dropWhile c_isdigit t))"

lemma skip_sign_digit: "c_isdigit (hd s) \<Longrightarrow> skip_sign s = (False, s)"
  by (auto simp: skip_sign_def c_isdigit_def split: list.splits)

lemma strtoul_show_nat:
  assumes "n \<le> ULONG_MAX"
  shows "strtoul (show_nat n) = (n, [])"
proof -
  have d: "c_isdigit (hd (show_nat n))" using hd_show_nat_digit [of n "[]"] by simp
  then have "dropWhile c_isspace (show_nat n) = show_nat n"
    by (cases "show_nat n") (auto dest: digit_not_space)
  moreover have "takeWhile c_isdigit (show_nat n) = show_nat n" "dropWhile c_isdigit (show_nat n) = []"
    using takeWhile_digits_show_nat [of "[]" n] dropWhile_digits_show_nat [of "[]" n] by simp_all
  ultimately show ?thesis
    using assms d by (simp add: strtoul_def skip_sign_digit Let_def del: takeWhile_eq_all_conv dropWhile_eq_Nil_conv)
qed

section \<open>Byte buffers\<close>

text \<open>\<open>memcmp\<close> on buffers of one length: the sign of the first difference of unsigned bytes.\<close>

fun memcmp :: "u8 list \<Rightarrow> u8 list \<Rightarrow> int" where
  "memcmp [] [] = 0"
| "memcmp [] (y # ys) = - 1"
| "memcmp (x # xs) [] = 1"
| "memcmp (x # xs) (y # ys) = (if x < y then - 1 else if y < x then 1 else memcmp xs ys)"

lemma memcmp_eq_0 [simp]: "memcmp xs ys = 0 \<longleftrightarrow> xs = ys"
  by (induction xs ys rule: memcmp.induct) auto

lemma memcmp_antisym: "memcmp xs ys < 0 \<longleftrightarrow> 0 < memcmp ys xs"
  by (induction xs ys rule: memcmp.induct) auto

lemma memcmp_trans: "memcmp xs ys < 0 \<Longrightarrow> memcmp ys zs < 0 \<Longrightarrow> memcmp xs zs < 0"
proof (induction xs ys arbitrary: zs rule: memcmp.induct)
  case (4 x xs y ys)
  then show ?case by (cases zs) (auto split: if_splits)
next
  case (2 y ys)
  then show ?case by (cases zs) auto
qed auto

text \<open>The bits of a byte, and of a buffer, from the most significant one.\<close>

definition byte_bits :: "u8 \<Rightarrow> bool list" where
  "byte_bits w = map (\<lambda>j. bit w (7 - j)) [0..<8]"

definition bits_of :: "u8 list \<Rightarrow> bool list" where
  "bits_of bs = concat (map byte_bits bs)"

lemma length_byte_bits [simp]: "length (byte_bits w) = 8"
  by (simp add: byte_bits_def)

lemma nth_byte_bits [p4p_bits]: "j < 8 \<Longrightarrow> byte_bits w ! j = bit w (7 - j)"
  by (simp add: byte_bits_def)

lemma byte_bits_inj: "byte_bits v = byte_bits w \<longleftrightarrow> v = w"
proof
  assume eq: "byte_bits v = byte_bits w"
  show "v = w"
  proof (rule bit_word_eqI)
    fix n :: nat assume "n < LENGTH(8)"
    then show "bit v n \<longleftrightarrow> bit w n"
      using arg_cong [OF eq, of "\<lambda>bs. bs ! (7 - n)"] by (simp add: p4p_bits)
  qed
qed simp

lemma bits_of_simps [simp]: "bits_of [] = []" "bits_of (b # bs) = byte_bits b @ bits_of bs"
  by (simp_all add: bits_of_def)

lemma bits_of_append: "bits_of (as @ bs) = bits_of as @ bits_of bs"
  by (simp add: bits_of_def)

lemma length_bits_of [simp]: "length (bits_of bs) = 8 * length bs"
  by (induction bs) auto

lemma nth_bits_of [p4p_bits]:
  "k < 8 * length bs \<Longrightarrow> bits_of bs ! k = bit (bs ! (k div 8)) (7 - k mod 8)"
proof (induction bs arbitrary: k)
  case (Cons b bs)
  show ?case
  proof (cases "k < 8")
    case True
    then show ?thesis by (simp add: nth_append nth_byte_bits)
  next
    case False
    then have "k div 8 = Suc ((k - 8) div 8)" and "(k - 8) mod 8 = k mod 8"
      by (simp_all add: le_div_geq le_mod_geq)
    with False Cons show ?thesis by (simp add: nth_append)
  qed
qed simp

lemma take_bits_of [p4p_bits]: "take (8 * n) (bits_of bs) = bits_of (take n bs)"
proof (induction bs arbitrary: n)
  case (Cons b bs)
  then show ?case by (cases n) auto
qed simp

lemma drop_bits_of [p4p_bits]: "drop (8 * n) (bits_of bs) = bits_of (drop n bs)"
proof (induction bs arbitrary: n)
  case (Cons b bs)
  then show ?case by (cases n) auto
qed simp

lemma bits_of_inj: "length as = length bs \<Longrightarrow> bits_of as = bits_of bs \<longleftrightarrow> as = bs"
  by (induction as bs rule: list_induct2) (auto simp: byte_bits_inj)

section \<open>Lists\<close>

lemma take_eq_nth_iff:
  "n \<le> length xs \<Longrightarrow> n \<le> length ys \<Longrightarrow> take n xs = take n ys \<longleftrightarrow> (\<forall>i<n. xs ! i = ys ! i)"
  by (auto simp: list_eq_iff_nth_eq)

lemma take_Suc_eq_iff:
  "n < length xs \<Longrightarrow> n < length ys \<Longrightarrow>
   take (Suc n) xs = take (Suc n) ys \<longleftrightarrow> take n xs = take n ys \<and> xs ! n = ys ! n"
  by (simp add: take_Suc_conv_app_nth)

end
