(* ===== verification/IP_Addr.thy ===== *)
theory IP_Addr
  imports P4P_Prelude
begin

unbundle bit_operations_syntax

text \<open>
  \<open>common/cpp/src/include/p4p/ip_addr.h\<close> and \<open>common/cpp/src/lib/ip_addr.cpp\<close>: the value class
  \<open>IPPrefix\<close>, its constructors from raw bytes and from text, the normalisation that clears the
  bits beyond the prefix length, the comparison operators and the stream operators.
  \<open>getaddrinfo\<close> and \<open>getnameinfo\<close> are arguments of the definitions that call them. The
  constructor from text does not initialise the address union before it copies the address, so
  the previous contents of that storage are an argument too.
\<close>

section \<open>The value class and its helpers\<close>

text \<open>\<open>AF_UNSPEC\<close>, \<open>AF_INET\<close> and \<open>AF_INET6\<close> as Linux defines them.\<close>

abbreviation (input) AF_UNSPEC :: int where "AF_UNSPEC \<equiv> 0"
abbreviation (input) AF_INET :: int where "AF_INET \<equiv> 2"
abbreviation (input) AF_INET6 :: int where "AF_INET6 \<equiv> 10"

datatype ip_prefix = IPPrefix (get_family: int) (get_address: "u8 list") (get_length: nat)

definition IPPrefix_default :: ip_prefix where
  "IPPrefix_default = IPPrefix AF_UNSPEC (replicate 16 0) 0"

abbreviation IPPrefix_INVALID :: ip_prefix where
  "IPPrefix_INVALID \<equiv> IPPrefix_default"

text \<open>
  \<open>buf[i] &= (0xFF << (8 - bits % 8))\<close> is computed on \<open>int\<close> and stored back in a byte; the
  bytes after it are set to zero.
\<close>

definition mask_byte :: "u8 \<Rightarrow> nat \<Rightarrow> u8" where
  "mask_byte b bits = ucast ((ucast b :: 32 word) AND push_bit (8 - bits mod 8) 0xFF)"

definition mask_bits :: "u8 list \<Rightarrow> nat \<Rightarrow> nat \<Rightarrow> u8 list" where
  "mask_bits buf len bits =
     (let i = bits div 8 in
      if i \<ge> len then buf
      else take i buf @ [mask_byte (buf ! i) bits] @ replicate (len - (i + 1)) 0 @ drop len buf)"

definition get_addr_size :: "int \<Rightarrow> nat" where
  "get_addr_size family =
     (if family = AF_UNSPEC then 0 else if family = AF_INET then 4
      else if family = AF_INET6 then 16 else USHRT_MAX)"

definition normalize_addr :: "int \<Rightarrow> u8 list \<Rightarrow> nat \<Rightarrow> u8 list" where
  "normalize_addr family address plen =
     (if family = AF_INET then mask_bits address 4 plen
      else if family = AF_INET6 then mask_bits address 16 plen
      else address)"

section \<open>Constructors\<close>

text \<open>
  \<open>IPPrefix(int family, const void* address, unsigned short length)\<close>. A null address is
  \<open>None\<close>; a buffer shorter than the family's address is read past its end.
\<close>

definition IPPrefix_raw :: "int \<Rightarrow> u8 list option \<Rightarrow> nat \<Rightarrow> ip_prefix result" where
  "IPPrefix_raw family address plen =
     (let addr_size = get_addr_size family in
      if addr_size = USHRT_MAX then Inl (Runtime_Error ''Invalid address family'')
      else let blen = min plen (addr_size * 8) in
        (case address of
           None \<Rightarrow> Inr (IPPrefix family (replicate 16 0) blen)
         | Some src \<Rightarrow>
             if length src < addr_size then Inl Undefined_Behaviour
             else Inr (IPPrefix family
                    (normalize_addr family (take addr_size src @ replicate (16 - addr_size) 0) blen)
                    blen)))"

text \<open>\<open>std::string::rfind(c)\<close>.\<close>

definition rfind :: "char \<Rightarrow> string \<Rightarrow> nat option" where
  "rfind c s = (if c \<in> set s then Some (length s - 1 - length (takeWhile (\<lambda>x. x \<noteq> c) (rev s))) else None)"

text \<open>
  The constructor from text first splits the address part from the prefix length; \<open>None\<close> is
  the early return of \<open>INVALID\<close> when the length is not a number. \<open>strtoul\<close>'s result is
  converted to \<open>unsigned short\<close>.
\<close>

definition split_address :: "string \<Rightarrow> nat \<Rightarrow> (string \<times> nat) option" where
  "split_address address plen =
     (case rfind (CHR ''/'') address of
        Some slash \<Rightarrow>
          if slash < length address - 1 then
            (let (v, errptr) = strtoul (c_str (drop (slash + 1) address)) in
             if errptr \<noteq> [] then None else Some (take slash address, to_ushort v))
          else Some (take slash address, USHRT_MAX)
      | None \<Rightarrow> Some (address, plen))"

definition IPPrefix_text ::
    "(string \<Rightarrow> (int \<times> u8 list) option) \<Rightarrow> u8 list \<Rightarrow> string \<Rightarrow> nat \<Rightarrow> ip_prefix" where
  "IPPrefix_text getaddrinfo uninit address plen =
     (case split_address address plen of
        None \<Rightarrow> IPPrefix_INVALID
      | Some (addrpart, plen') \<Rightarrow>
          (case getaddrinfo (c_str addrpart) of
             None \<Rightarrow> IPPrefix_INVALID
           | Some (family, bytes) \<Rightarrow>
               if family = AF_INET \<or> family = AF_INET6 then
                 (let n = get_addr_size family; blen = min plen' (n * 8) in
                  IPPrefix family (normalize_addr family (take n bytes @ drop n uninit) blen) blen)
               else IPPrefix_INVALID))"

section \<open>Comparison\<close>

definition compare_dst :: "ip_prefix \<Rightarrow> ip_prefix \<Rightarrow> int" where
  "compare_dst p q =
     (if get_family p \<noteq> get_family q then get_family p - get_family q
      else if get_length p \<noteq> get_length q then int (get_length p) - int (get_length q)
      else memcmp (get_address p) (get_address q))"

instantiation ip_prefix :: linorder
begin

definition less_ip_prefix :: "ip_prefix \<Rightarrow> ip_prefix \<Rightarrow> bool" where
  "less_ip_prefix p q \<longleftrightarrow> compare_dst p q < 0"

definition less_eq_ip_prefix :: "ip_prefix \<Rightarrow> ip_prefix \<Rightarrow> bool" where
  "less_eq_ip_prefix p q \<longleftrightarrow> \<not> compare_dst q p < 0"

instance
proof
  have eq0: "compare_dst p q = 0 \<longleftrightarrow> p = q" for p q
    by (cases p; cases q) (auto simp: compare_dst_def)
  have anti: "compare_dst p q < 0 \<longleftrightarrow> 0 < compare_dst q p" for p q
    by (auto simp: compare_dst_def memcmp_antisym)
  have trans: "compare_dst p q < 0 \<Longrightarrow> compare_dst q r < 0 \<Longrightarrow> compare_dst p r < 0" for p q r
    by (auto simp: compare_dst_def split: if_splits intro: memcmp_trans)
  have antisymD: "p = q" if "\<not> compare_dst q p < 0" "\<not> compare_dst p q < 0" for p q
    using that eq0 [of p q] anti [of p q] anti [of q p] by linarith
  fix x y z :: ip_prefix
  show "(x < y) = (x \<le> y \<and> \<not> y \<le> x)"
    using anti [of x y] anti [of y x] by (auto simp: less_ip_prefix_def less_eq_ip_prefix_def)
  show "x \<le> x"
    using eq0 [of x x] by (simp add: less_eq_ip_prefix_def)
  show "x \<le> y \<Longrightarrow> y \<le> z \<Longrightarrow> x \<le> z"
    using trans [of z x y] trans [of y z x] antisymD [of x y] by (auto simp: less_eq_ip_prefix_def)
  show "x \<le> y \<Longrightarrow> y \<le> x \<Longrightarrow> x = y"
    using antisymD by (auto simp: less_eq_ip_prefix_def)
  show "x \<le> y \<or> y \<le> x"
    using anti [of x y] by (auto simp: less_eq_ip_prefix_def)
qed

end

text \<open>\<open>operator==\<close> and \<open>operator!=\<close> compare by \<open>compare_dst\<close> too.\<close>

definition ip_eq :: "ip_prefix \<Rightarrow> ip_prefix \<Rightarrow> bool" where
  "ip_eq p q \<longleftrightarrow> compare_dst p q = 0"

lemma ip_eq_iff [simp]: "ip_eq p q \<longleftrightarrow> p = q"
  by (cases p; cases q) (auto simp: ip_eq_def compare_dst_def)

section \<open>Stream operators\<close>

definition get_address_text :: "(int \<Rightarrow> u8 list \<Rightarrow> string option) \<Rightarrow> ip_prefix \<Rightarrow> string result" where
  "get_address_text getnameinfo p =
     (if get_family p = AF_INET \<or> get_family p = AF_INET6 then
        (case getnameinfo (get_family p) (take (get_addr_size (get_family p)) (get_address p)) of
           None \<Rightarrow> Inl (Runtime_Error ''illegal state: failed to convert address to text: '')
         | Some buf \<Rightarrow> Inr buf)
      else Inl (Invalid_Argument ''attempted to convert invalid address to string''))"

definition print_ip_prefix :: "(int \<Rightarrow> u8 list \<Rightarrow> string option) \<Rightarrow> ip_prefix \<Rightarrow> string result" where
  "print_ip_prefix getnameinfo p =
     bindE (get_address_text getnameinfo p) (\<lambda>s.
       if get_length p < get_addr_size (get_family p) * 8
       then Inr (s @ ''/'' @ show_nat (get_length p)) else Inr s)"

text \<open>\<open>operator>>\<close>: one white-space delimited token; \<open>None\<close> when the stream ends up failed.\<close>

definition read_ip_prefix ::
    "(string \<Rightarrow> (int \<times> u8 list) option) \<Rightarrow> u8 list \<Rightarrow> string \<Rightarrow> (ip_prefix \<times> string) option" where
  "read_ip_prefix getaddrinfo uninit is =
     (let s = takeWhile (\<lambda>c. \<not> c_isspace c) (dropWhile c_isspace is);
          rest = dropWhile (\<lambda>c. \<not> c_isspace c) (dropWhile c_isspace is)
      in if s = [] then None
         else let rhs = IPPrefix_text getaddrinfo uninit s USHRT_MAX in
              if ip_eq rhs IPPrefix_INVALID then None else Some (rhs, rest))"

section \<open>Normalisation\<close>

text \<open>A prefix as the raw constructor leaves it.\<close>

definition wf_ip_prefix :: "ip_prefix \<Rightarrow> bool" where
  "wf_ip_prefix p \<longleftrightarrow>
     length (get_address p) = 16 \<and> get_addr_size (get_family p) \<noteq> USHRT_MAX \<and>
     get_length p \<le> get_addr_size (get_family p) * 8 \<and>
     (\<forall>k. get_length p \<le> k \<and> k < 128 \<longrightarrow> \<not> bits_of (get_address p) ! k)"

text \<open>The network bits of a prefix.\<close>

definition net_bits :: "ip_prefix \<Rightarrow> bool list" where
  "net_bits p = take (get_length p) (bits_of (get_address p))"

lemma bit_mask_byte: "j < 8 \<Longrightarrow> bit (mask_byte b bits) j \<longleftrightarrow> bit b j \<and> 8 - bits mod 8 \<le> j"
proof -
  have ff: "bit (0xFF :: 32 word) m \<longleftrightarrow> m < 8" for m
  proof -
    have "(0xFF :: 32 word) = mask 8" by (simp add: mask_eq_exp_minus_1)
    then have "bit (0xFF :: 32 word) m = bit (mask 8 :: 32 word) m" by (rule arg_cong)
    then show ?thesis unfolding bit_mask_iff by auto
  qed
  show "j < 8 \<Longrightarrow> bit (mask_byte b bits) j \<longleftrightarrow> bit b j \<and> 8 - bits mod 8 \<le> j"
    unfolding mask_byte_def bit_unsigned_iff bit_and_iff bit_push_bit_iff ff by auto
qed

lemma length_mask_bits [simp]: "len \<le> length buf \<Longrightarrow> length (mask_bits buf len bits) = length buf"
  by (auto simp: mask_bits_def Let_def)

lemma nth_mask_bits:
  assumes "len \<le> length buf" and "i < length buf"
  shows "mask_bits buf len bits ! i =
    (if i < bits div 8 \<or> len \<le> i then buf ! i
     else if i = bits div 8 then mask_byte (buf ! i) bits else 0)"
  using assms by (auto simp: mask_bits_def Let_def nth_append nth_Cons' min_def)

lemma drop_mask_bits: "len \<le> length buf \<Longrightarrow> drop len (mask_bits buf len bits) = drop len buf"
  by (rule nth_equalityI) (auto simp: nth_mask_bits)

lemma bits_mask_bits:
  assumes "len \<le> length buf" and "k < 8 * length buf"
  shows "bits_of (mask_bits buf len bits) ! k \<longleftrightarrow> bits_of buf ! k \<and> (k < bits \<or> 8 * len \<le> k)"
proof -
  let ?i = "k div 8" and ?j = "k mod 8"
  have k: "k = 8 * ?i + ?j" and b: "bits = 8 * (bits div 8) + bits mod 8" by simp_all
  have i: "?i < length buf" using assms(2) by simp
  have j: "?j < 8" "bits mod 8 < 8" by simp_all
  have "bits_of (mask_bits buf len bits) ! k = bit (mask_bits buf len bits ! ?i) (7 - ?j)"
    using assms by (simp add: nth_bits_of)
  also have "\<dots> \<longleftrightarrow> bit (buf ! ?i) (7 - ?j) \<and> (?i < bits div 8 \<or> len \<le> ?i \<or> (?i = bits div 8 \<and> ?j < bits mod 8))"
    using j by (auto simp: nth_mask_bits [OF assms(1) i] bit_mask_byte)
  also have "(?i < bits div 8 \<or> len \<le> ?i \<or> (?i = bits div 8 \<and> ?j < bits mod 8)) \<longleftrightarrow> k < bits \<or> 8 * len \<le> k"
    using k b j by linarith
  finally show ?thesis using assms(2) by (simp add: nth_bits_of)
qed

lemma length_normalize_addr [simp]:
  "length a = 16 \<Longrightarrow> length (normalize_addr f a l) = 16"
  by (simp add: normalize_addr_def)

lemma bits_normalize_addr:
  assumes "length a = 16" and "k < 128"
  shows "bits_of (normalize_addr f a l) ! k \<longleftrightarrow>
    bits_of a ! k \<and> (k < l \<or> \<not> (f = AF_INET \<and> k < 32 \<or> f = AF_INET6))"
  using assms by (auto simp: normalize_addr_def bits_mask_bits)

lemma bits_replicate_0: "k < 8 * n \<Longrightarrow> \<not> bits_of (replicate n 0) ! k"
  by (simp add: nth_bits_of)

lemma bits_padded:
  assumes "n \<le> length src" and "n \<le> 16" and "k < 128"
  shows "bits_of (take n src @ replicate (16 - n) 0) ! k \<longleftrightarrow> k < 8 * n \<and> bits_of src ! k"
  using assms by (auto simp: bits_of_append nth_append bits_replicate_0 take_bits_of [symmetric])

lemma get_addr_size_le: "get_addr_size f \<noteq> USHRT_MAX \<Longrightarrow> get_addr_size f \<le> 16"
  by (auto simp: get_addr_size_def split: if_splits)

lemma size_family: "get_addr_size f \<noteq> USHRT_MAX \<Longrightarrow> f = AF_UNSPEC \<or> f = AF_INET \<or> f = AF_INET6"
  by (auto simp: get_addr_size_def split: if_splits)

lemma IPPrefix_raw_Some:
  assumes "IPPrefix_raw f (Some src) l = Inr p"
  shows "get_addr_size f \<noteq> USHRT_MAX" and "get_addr_size f \<le> length src"
    and "p = IPPrefix f (normalize_addr f (take (get_addr_size f) src @ replicate (16 - get_addr_size f) 0)
               (min l (get_addr_size f * 8))) (min l (get_addr_size f * 8))"
  using assms by (auto simp: IPPrefix_raw_def Let_def split: if_splits)

lemma bits_IPPrefix_raw:
  assumes p: "IPPrefix_raw f (Some src) l = Inr p" and k: "k < 128"
  shows "bits_of (get_address p) ! k \<longleftrightarrow> k < get_length p \<and> bits_of src ! k"
proof -
  let ?n = "get_addr_size f"
  note r = IPPrefix_raw_Some [OF p]
  have n: "?n \<le> 16" using get_addr_size_le r(1) .
  have "bits_of (get_address p) ! k \<longleftrightarrow> k < 8 * ?n \<and> bits_of src ! k \<and>
      (k < min l (?n * 8) \<or> \<not> (f = AF_INET \<and> k < 32 \<or> f = AF_INET6))"
    using n k r by (simp add: bits_normalize_addr bits_padded)
  also have "\<dots> \<longleftrightarrow> k < get_length p \<and> bits_of src ! k"
    using k r(3) size_family [OF r(1)] by (auto simp: get_addr_size_def)
  finally show ?thesis .
qed

lemma IPPrefix_raw_wf:
  assumes "IPPrefix_raw f src l = Inr p"
  shows "wf_ip_prefix p"
proof (cases src)
  case None
  with assms show ?thesis
    by (auto simp: IPPrefix_raw_def wf_ip_prefix_def Let_def bits_replicate_0 split: if_splits)
next
  case (Some s)
  with assms have p: "IPPrefix_raw f (Some s) l = Inr p" by simp
  note r = IPPrefix_raw_Some [OF p]
  have "length (get_address p) = 16"
    using r get_addr_size_le [OF r(1)] by simp
  moreover have "get_family p = f" "get_length p \<le> get_addr_size f * 8" using r by simp_all
  ultimately show ?thesis
    using r(1) bits_IPPrefix_raw [OF p] by (simp add: wf_ip_prefix_def)
qed

lemma wf_ip_prefix_eqI:
  assumes p: "wf_ip_prefix p" and q: "wf_ip_prefix q"
    and fam: "get_family p = get_family q" and len: "get_length p = get_length q"
    and net: "net_bits p = net_bits q"
  shows "p = q"
proof -
  have "bits_of (get_address p) ! k = bits_of (get_address q) ! k" if "k < 128" for k
  proof (cases "k < get_length p")
    case True
    then have "bits_of (get_address p) ! k = net_bits p ! k" "bits_of (get_address q) ! k = net_bits q ! k"
      using len by (simp_all add: net_bits_def)
    with net show ?thesis by simp
  next
    case False
    with that p q len show ?thesis by (auto simp: wf_ip_prefix_def)
  qed
  then have "bits_of (get_address p) = bits_of (get_address q)"
    using p q by (intro nth_equalityI) (auto simp: wf_ip_prefix_def)
  then have "get_address p = get_address q"
    using p q by (simp add: bits_of_inj wf_ip_prefix_def)
  with fam len show ?thesis by (simp add: ip_prefix.expand)
qed

lemma length_net_bits [simp]:
  "wf_ip_prefix p \<Longrightarrow> length (net_bits p) = get_length p"
  using get_addr_size_le [of "get_family p"] by (simp add: wf_ip_prefix_def net_bits_def)

lemma net_bits_raw:
  assumes "IPPrefix_raw f (Some src) l = Inr p"
  shows "net_bits p = take (get_length p) (bits_of src)"
proof (rule nth_equalityI)
  note wf = IPPrefix_raw_wf [OF assms] and r = IPPrefix_raw_Some [OF assms]
  have le: "get_length p \<le> 128" "get_length p \<le> 8 * length src"
    using r get_addr_size_le [OF r(1)] by auto
  with wf show "length (net_bits p) = length (take (get_length p) (bits_of src))" by simp
  fix k assume "k < length (net_bits p)"
  with wf le show "net_bits p ! k = take (get_length p) (bits_of src) ! k"
    using bits_IPPrefix_raw [OF assms, of k] by (simp add: net_bits_def)
qed

lemma IPPrefix_text_cases:
  obtains (invalid) "IPPrefix_text gai u s l = IPPrefix_INVALID"
  | (valid) addrpart l' f bytes where "split_address s l = Some (addrpart, l')"
      "gai (c_str addrpart) = Some (f, bytes)" "f = AF_INET \<or> f = AF_INET6"
      "IPPrefix_text gai u s l = (let n = get_addr_size f; m = min l' (n * 8) in
         IPPrefix f (normalize_addr f (take n bytes @ drop n u) m) m)"
proof (cases "split_address s l")
  case None
  then show ?thesis using invalid by (simp add: IPPrefix_text_def)
next
  case (Some al)
  obtain a l' where al: "al = (a, l')" by fastforce
  show ?thesis
  proof (cases "gai (c_str a)")
    case None
    with Some al show ?thesis using invalid by (simp add: IPPrefix_text_def)
  next
    case (Some fb)
    obtain f bytes where "fb = (f, bytes)" by fastforce
    with Some \<open>split_address s l = Some al\<close> al show ?thesis
      using invalid valid [of a l' f bytes] by (cases "f = AF_INET \<or> f = AF_INET6") (simp_all add: IPPrefix_text_def)
  qed
qed

lemma rfind_append_notin:
  assumes "c \<notin> set t"
  shows "rfind c (s @ c # t) = Some (length s)"
proof -
  have "takeWhile (\<lambda>x. x \<noteq> c) (rev (s @ c # t)) = rev t"
    using assms by (auto simp: takeWhile_append takeWhile_eq_all_conv)
  then show ?thesis by (simp add: rfind_def)
qed

lemma rfind_None [simp]: "c \<notin> set s \<Longrightarrow> rfind c s = None"
  by (simp add: rfind_def)

lemma slash_notin_show_nat: "CHR ''/'' \<notin> set (show_nat n)"
  using show_nat_digits [of "CHR ''/''" n] by (auto simp: c_isdigit_def)

lemma c_str_show_nat [simp]: "c_str (show_nat n) = show_nat n"
proof -
  have "c \<noteq> CHR 0x00" if "c \<in> set (show_nat n)" for c
    using show_nat_digits [OF that] by (auto simp: c_isdigit_def)
  then show ?thesis by (auto simp: c_str_def takeWhile_eq_all_conv)
qed

lemma split_address_slash:
  assumes "n \<le> ULONG_MAX"
  shows "split_address (s @ CHR ''/'' # show_nat n) l = Some (s, to_ushort n)"
  using assms rfind_append_notin [OF slash_notin_show_nat, of s n]
  by (simp add: split_address_def strtoul_show_nat Let_def)

lemma split_address_plain: "CHR ''/'' \<notin> set s \<Longrightarrow> split_address s l = Some (s, l)"
  by (simp add: split_address_def)

lemma token_append:
  assumes "s \<noteq> []" and "\<forall>c\<in>set s. \<not> c_isspace c" and "rest = [] \<or> c_isspace (hd rest)"
  shows "dropWhile c_isspace (s @ rest) = s @ rest"
    and "takeWhile (\<lambda>c. \<not> c_isspace c) (s @ rest) = s"
    and "dropWhile (\<lambda>c. \<not> c_isspace c) (s @ rest) = rest"
  using assms by (cases s; cases rest; auto simp: takeWhile_append dropWhile_append)+

lemma normalize_addr_wf_id:
  assumes "wf_ip_prefix p"
  shows "normalize_addr (get_family p) (get_address p) (get_length p) = get_address p"
proof -
  have len: "length (get_address p) = 16" using assms by (simp add: wf_ip_prefix_def)
  have "bits_of (normalize_addr (get_family p) (get_address p) (get_length p)) = bits_of (get_address p)"
    using assms len by (intro nth_equalityI) (auto simp: bits_normalize_addr wf_ip_prefix_def)
  then show ?thesis using len by (simp add: bits_of_inj)
qed

section \<open>Properties\<close>

text \<open>
  Two prefixes built from raw bytes compare equal exactly when they have the same
  family, the same (clipped) length and the same bits up to that length: whatever the caller
  passed beyond the prefix length is irrelevant.
\<close>
theorem ip_eq_iff_net_bits:
  assumes p: "IPPrefix_raw f (Some a) l = Inr p" and q: "IPPrefix_raw g (Some b) m = Inr q"
  shows "ip_eq p q \<longleftrightarrow> f = g \<and> get_length p = get_length q \<and>
           take (get_length p) (bits_of a) = take (get_length q) (bits_of b)"
proof -
  have "ip_eq p q \<longleftrightarrow> f = g \<and> get_length p = get_length q \<and> net_bits p = net_bits q"
    using wf_ip_prefix_eqI [OF IPPrefix_raw_wf [OF p] IPPrefix_raw_wf [OF q]]
      IPPrefix_raw_Some(3) [OF p] IPPrefix_raw_Some(3) [OF q] by auto
  then show ?thesis by (simp add: net_bits_raw [OF p] net_bits_raw [OF q])
qed

text \<open>
  The text of a prefix is one token, and reading it back gives the prefix and leaves the rest
  of the stream, provided the resolver reads back the numeric text it wrote and the storage the
  result is built in is zero beyond the address (the constructor does not clear it).
\<close>
definition resolves :: "(int \<Rightarrow> u8 list \<Rightarrow> string option) \<Rightarrow> (string \<Rightarrow> (int \<times> u8 list) option) \<Rightarrow> ip_prefix \<Rightarrow> bool" where
  "resolves getnameinfo getaddrinfo p \<longleftrightarrow>
     (\<exists>t. getnameinfo (get_family p) (take (get_addr_size (get_family p)) (get_address p)) = Some t \<and>
          getaddrinfo t = Some (get_family p, take (get_addr_size (get_family p)) (get_address p)) \<and>
          t \<noteq> [] \<and> (\<forall>c\<in>set t. \<not> c_isspace c \<and> c \<noteq> CHR ''/'' \<and> c \<noteq> CHR 0x00))"

lemma print_read_ip_prefix:
  assumes wf: "wf_ip_prefix p" and fam: "get_family p = AF_INET \<or> get_family p = AF_INET6"
    and res: "resolves getnameinfo getaddrinfo p" and u: "u = replicate 16 0" and rest: "rest = [] \<or> c_isspace (hd rest)"
  shows "\<exists>s. print_ip_prefix getnameinfo p = Inr s \<and> s \<noteq> [] \<and> (\<forall>c\<in>set s. \<not> c_isspace c) \<and>
    read_ip_prefix getaddrinfo u (s @ rest) = Some (p, rest)"
proof -
  obtain t where gni: "getnameinfo (get_family p) (take (get_addr_size (get_family p)) (get_address p)) = Some t"
    and gai: "getaddrinfo t = Some (get_family p, take (get_addr_size (get_family p)) (get_address p))"
    and t: "t \<noteq> []" "\<forall>c\<in>set t. \<not> c_isspace c \<and> c \<noteq> CHR ''/'' \<and> c \<noteq> CHR 0x00"
    using res by (auto simp: resolves_def)
  let ?n = "get_addr_size (get_family p)"
  define s where "s = (if get_length p < ?n * 8 then t @ ''/'' @ show_nat (get_length p) else t)"
  have n: "?n = 4 \<or> ?n = 16" using fam by (auto simp: get_addr_size_def)
  have pr: "print_ip_prefix getnameinfo p = Inr s"
    using fam gni by (auto simp: print_ip_prefix_def get_address_text_def s_def)
  have ts: "CHR ''/'' \<notin> set t" "c_str t = t"
    using t by (auto simp: c_str_def takeWhile_eq_all_conv)
  have le: "get_length p \<le> ?n * 8" using wf by (simp add: wf_ip_prefix_def)
  have split: "\<exists>l'. split_address s USHRT_MAX = Some (t, l') \<and> min l' (?n * 8) = get_length p"
  proof (cases "get_length p < ?n * 8")
    case True
    then have "get_length p \<le> ULONG_MAX" "to_ushort (get_length p) = get_length p"
      using n by (auto simp: to_ushort_def)
    with True show ?thesis by (auto simp: s_def split_address_slash)
  next
    case False
    with le n show ?thesis by (auto simp: s_def split_address_plain ts)
  qed
  have addr: "take ?n (get_address p) @ drop ?n u = get_address p"
  proof -
    have "drop ?n (get_address p) = drop ?n u"
    proof (cases "?n = 16")
      case False
      with n fam have f: "?n = 4" by simp
      have "bits_of (drop 4 (get_address p)) = bits_of (drop 4 u)"
        using wf u f le by (intro nth_equalityI)
          (auto simp: wf_ip_prefix_def bits_replicate_0 drop_bits_of [symmetric])
      with wf u f show ?thesis by (simp add: bits_of_inj wf_ip_prefix_def)
    qed (use wf u in \<open>simp add: wf_ip_prefix_def\<close>)
    then show ?thesis by (metis append_take_drop_id)
  qed
  have from_text: "IPPrefix_text getaddrinfo u s USHRT_MAX = p"
    using split fam gai ts addr normalize_addr_wf_id [OF wf]
    by (auto simp: IPPrefix_text_def Let_def ip_prefix.expand)
  have sp: "s \<noteq> []" "\<forall>c\<in>set s. \<not> c_isspace c"
    using t digit_not_space [OF show_nat_digits] by (auto simp: s_def c_isspace_def)
  have "p \<noteq> IPPrefix_INVALID" using fam by (auto simp: IPPrefix_default_def)
  then have "read_ip_prefix getaddrinfo u (s @ rest) = Some (p, rest)"
    using from_text sp by (simp add: read_ip_prefix_def token_append [OF sp rest] Let_def)
  with pr sp show ?thesis by blast
qed

text \<open>
  The constructor from text leaves the storage beyond an IPv4 address as it found it,
  and the comparison reads all sixteen bytes: the same text read twice gives two prefixes that
  compare equal only if that storage happened to hold the same bytes.
\<close>
theorem IPPrefix_text_uninitialised:
  assumes gai: "getaddrinfo (c_str s) = Some (AF_INET, bytes)" "length bytes = 4" and s: "CHR ''/'' \<notin> set s"
    and u: "length u = 16" "length v = 16"
  shows "ip_eq (IPPrefix_text getaddrinfo u s l) (IPPrefix_text getaddrinfo v s l) \<longleftrightarrow> drop 4 u = drop 4 v"
proof -
  have "drop 4 (mask_bits (bytes @ drop 4 w) 4 m) = drop 4 w" if "length w = 16" for w m
    using that gai(2) by (simp add: drop_mask_bits)
  then have "mask_bits (bytes @ drop 4 u) 4 m = mask_bits (bytes @ drop 4 v) 4 m \<longleftrightarrow> drop 4 u = drop 4 v" for m
    using u by metis
  then show ?thesis
    using gai s by (simp add: IPPrefix_text_def split_address_plain get_addr_size_def normalize_addr_def Let_def)
qed

text \<open>
  The prefix length of a text is taken modulo 65536 before it is clipped to the
  address size, so a length that is out of range can come out as a shorter prefix.
\<close>
theorem IPPrefix_text_length:
  assumes gai: "getaddrinfo (c_str s) = Some (f, bytes)" and f: "f = AF_INET \<or> f = AF_INET6"
    and n: "n \<le> ULONG_MAX"
  shows "get_length (IPPrefix_text getaddrinfo u (s @ ''/'' @ show_nat n) l) = min (n mod 65536) (get_addr_size f * 8)"
  using gai f split_address_slash [OF n, of s l]
  by (simp add: IPPrefix_text_def Let_def to_ushort_def)

end
