(* ===== verification/Patricia.thy ===== *)
theory Patricia
  imports IP_Addr "HOL-Library.Multiset" "HOL-Library.Sublist"
begin

unbundle bit_operations_syntax

text \<open>
  \<open>common/cpp/src/include/p4p/detail/patricia.h\<close> and \<open>common/cpp/src/lib/patricia.cpp\<close>: the Patricia
  trie that holds IP prefixes. A \<open>patricia_node_t\<close> is a constructor \<open>Node\<close> of a tree, which
  carries the address of the node so that a pointer to it can be kept across updates; a null
  pointer is \<open>Null\<close>. The parent pointers are the crumbs of a zipper: a node reached from the head
  is a subtree together with the list of its ancestors, nearest first. A prefix is a value: its
  reference count (memory management) has no counterpart.
  Reads past the end of an address buffer and writes past the end of a search stack are
  \<open>Undefined_Behaviour\<close>; failed \<open>assert\<close>s are \<open>Assertion_Failed\<close>.
\<close>

section \<open>Prefixes\<close>

record prefix_t =
  pfx_family :: int
  pfx_bitlen :: nat
  pfx_add :: "u8 list"

text \<open>\<open>BIT_TEST (addr[i >> 3], 0x80 >> (i & 0x07))\<close>.\<close>

definition test_bit :: "u8 list \<Rightarrow> nat \<Rightarrow> bool result" where
  "test_bit addr i = bindE (nthE addr (i div 8)) (\<lambda>b. Inr (b AND drop_bit (i mod 8) 0x80 \<noteq> 0))"

definition comp_with_mask :: "u8 list \<Rightarrow> u8 list \<Rightarrow> nat \<Rightarrow> bool result" where
  "comp_with_mask addr dest msk =
     (let n = msk div 8; m = push_bit (8 - msk mod 8) (- 1 :: 32 word) in
      if length addr < n \<or> length dest < n then Inl Undefined_Behaviour
      else if memcmp (take n addr) (take n dest) = 0 then
        (if msk mod 8 = 0 then Inr True
         else bindE (nthE addr n) (\<lambda>x. bindE (nthE dest n) (\<lambda>y.
                Inr ((ucast x AND m) = (ucast y AND m)))))
      else Inr False)"

text \<open>\<open>New_Prefix\<close>: \<open>None\<close> is the null pointer returned for an unknown family.\<close>

definition New_Prefix :: "int \<Rightarrow> u8 list \<Rightarrow> int \<Rightarrow> prefix_t option result" where
  "New_Prefix family dest bitlen =
     (if family = AF_INET6 \<or> family = AF_INET then
        (let n = (if family = AF_INET6 then 16 else 4);
             default_bitlen = (if family = AF_INET6 then 128 else 32) in
         if length dest < n then Inl Undefined_Behaviour
         else Inr (Some \<lparr>pfx_family = family,
                         pfx_bitlen = to_ushort (nat (if bitlen \<ge> 0 then bitlen else default_bitlen)),
                         pfx_add = take n dest\<rparr>))
      else Inr None)"

section \<open>Nodes and trees\<close>

datatype 'd pnode =
    Null
  | Node (node_addr: nat) (node_bit: nat) (node_prefix: "prefix_t option") (node_data: "'d option")
      (node_l: "'d pnode") (node_r: "'d pnode")

record 'd patricia_tree =
  head :: "'d pnode"
  maxbits :: nat
  num_active_node :: int
  next_addr :: nat

abbreviation (input) PATRICIA_MAXBITS :: nat where "PATRICIA_MAXBITS \<equiv> 128"

definition New_Patricia :: "nat \<Rightarrow> 'd patricia_tree result" where
  "New_Patricia mb = bindE (assertE (mb \<le> PATRICIA_MAXBITS)) (\<lambda>_.
     Inr \<lparr>head = Null, maxbits = mb, num_active_node = 0, next_addr = 0\<rparr>)"

text \<open>Pushing on a stack of \<open>PATRICIA_MAXBITS + 1\<close> entries.\<close>

definition push_stack :: "'a \<Rightarrow> 'a list \<Rightarrow> 'a list result" where
  "push_stack x st = (if length st < PATRICIA_MAXBITS + 1 then Inr (x # st) else Inl Undefined_Behaviour)"

section \<open>Searching\<close>

fun search_exact_loop :: "u8 list \<Rightarrow> nat \<Rightarrow> 'd pnode \<Rightarrow> 'd pnode result" where
  "search_exact_loop addr bitlen Null = Inr Null"
| "search_exact_loop addr bitlen (Node a b p d l r) =
     (if b < bitlen then
        bindE (test_bit addr b) (\<lambda>t.
          if t then search_exact_loop addr bitlen r else search_exact_loop addr bitlen l)
      else Inr (Node a b p d l r))"

definition patricia_search_exact :: "'d patricia_tree \<Rightarrow> prefix_t option \<Rightarrow> 'd pnode result" where
  "patricia_search_exact patricia pfx = (case pfx of None \<Rightarrow> Inl Assertion_Failed | Some pf \<Rightarrow>
     bindE (assertE (pfx_bitlen pf \<le> maxbits patricia)) (\<lambda>_.
     bindE (search_exact_loop (pfx_add pf) (pfx_bitlen pf) (head patricia)) (\<lambda>node.
       case node of
         Null \<Rightarrow> Inr Null
       | Node a b p d l r \<Rightarrow>
           (case p of
              None \<Rightarrow> Inr Null
            | Some q \<Rightarrow>
                if b > pfx_bitlen pf then Inr Null
                else bindE (assertE (b = pfx_bitlen pf)) (\<lambda>_.
                     bindE (assertE (b = pfx_bitlen q)) (\<lambda>_.
                     bindE (comp_with_mask (pfx_add q) (pfx_add pf) (pfx_bitlen pf)) (\<lambda>c.
                       Inr (if c then node else Null))))))))"

fun search_best_loop :: "u8 list \<Rightarrow> nat \<Rightarrow> 'd pnode \<Rightarrow> 'd pnode list \<Rightarrow> ('d pnode \<times> 'd pnode list) result" where
  "search_best_loop addr bitlen Null st = Inr (Null, st)"
| "search_best_loop addr bitlen (Node a b p d l r) st =
     (if b < bitlen then
        bindE (if p \<noteq> None then push_stack (Node a b p d l r) st else Inr st) (\<lambda>st'.
        bindE (test_bit addr b) (\<lambda>t.
          if t then search_best_loop addr bitlen r st' else search_best_loop addr bitlen l st'))
      else Inr (Node a b p d l r, st))"

fun search_best_pop :: "prefix_t \<Rightarrow> 'd pnode list \<Rightarrow> 'd pnode result" where
  "search_best_pop pf [] = Inr Null"
| "search_best_pop pf (n # st) =
     (case n of
        Node _ _ (Some q) _ _ _ \<Rightarrow>
          bindE (comp_with_mask (pfx_add q) (pfx_add pf) (pfx_bitlen q)) (\<lambda>c.
            if c then Inr n else search_best_pop pf st)
      | _ \<Rightarrow> Inl Undefined_Behaviour)"

definition patricia_search_best2 :: "'d patricia_tree \<Rightarrow> prefix_t option \<Rightarrow> bool \<Rightarrow> 'd pnode result" where
  "patricia_search_best2 patricia pfx inclusive = (case pfx of None \<Rightarrow> Inl Assertion_Failed | Some pf \<Rightarrow>
     bindE (assertE (pfx_bitlen pf \<le> maxbits patricia)) (\<lambda>_.
     bindE (search_best_loop (pfx_add pf) (pfx_bitlen pf) (head patricia) []) (\<lambda>(node, st).
     bindE (if inclusive \<and> node \<noteq> Null \<and> node_prefix node \<noteq> None then push_stack node st else Inr st) (\<lambda>st'.
       search_best_pop pf st'))))"

definition patricia_search_best :: "'d patricia_tree \<Rightarrow> prefix_t option \<Rightarrow> 'd pnode result" where
  "patricia_search_best patricia pfx = patricia_search_best2 patricia pfx True"

section \<open>Insertion\<close>

text \<open>
  One ancestor of the node in focus: its own fields, whether the focus is its right child, and
  its other child.
\<close>

datatype 'd crumb = Crumb (c_addr: nat) (c_bit: nat) (c_prefix: "prefix_t option") (c_data: "'d option")
  (c_right: bool) (c_sibling: "'d pnode")

fun plug :: "'d crumb \<Rightarrow> 'd pnode \<Rightarrow> 'd pnode" where
  "plug (Crumb a b p d rt s) n = (if rt then Node a b p d s n else Node a b p d n s)"

fun plug_all :: "'d crumb list \<Rightarrow> 'd pnode \<Rightarrow> 'd pnode" where
  "plug_all [] n = n"
| "plug_all (c # cs) n = plug_all cs (plug c n)"

text \<open>\<open>node->bit < patricia->maxbits && BIT_TEST (...)\<close>.\<close>

definition branch_bit :: "nat \<Rightarrow> u8 list \<Rightarrow> nat \<Rightarrow> bool result" where
  "branch_bit mb addr b = (if b < mb then test_bit addr b else Inr False)"

fun lookup_loop :: "nat \<Rightarrow> u8 list \<Rightarrow> nat \<Rightarrow> 'd pnode \<Rightarrow> 'd crumb list \<Rightarrow> ('d pnode \<times> 'd crumb list) result" where
  "lookup_loop mb addr bitlen Null cs = Inl Assertion_Failed"
| "lookup_loop mb addr bitlen (Node a b p d l r) cs =
     (if b < bitlen \<or> p = None then
        bindE (branch_bit mb addr b) (\<lambda>t.
          if t then (if r = Null then Inr (Node a b p d l r, cs)
                     else lookup_loop mb addr bitlen r (Crumb a b p d True l # cs))
          else (if l = Null then Inr (Node a b p d l r, cs)
                else lookup_loop mb addr bitlen l (Crumb a b p d False r # cs)))
      else Inr (Node a b p d l r, cs))"

text \<open>The loop that looks for the first set bit of a non-zero byte, from the most significant.\<close>

definition first_bit :: "u8 \<Rightarrow> nat" where
  "first_bit r = length (takeWhile (\<lambda>j. r AND drop_bit j 0x80 = 0) [0..<8])"

function differ_loop :: "u8 list \<Rightarrow> u8 list \<Rightarrow> nat \<Rightarrow> nat \<Rightarrow> nat \<Rightarrow> nat result" where
  "differ_loop addr test_addr check_bit i differ =
     (if i * 8 < check_bit then
        bindE (nthE addr i) (\<lambda>x. bindE (nthE test_addr i) (\<lambda>y.
          if x XOR y = 0 then differ_loop addr test_addr check_bit (i + 1) ((i + 1) * 8)
          else bindE (assertE (first_bit (x XOR y) < 8)) (\<lambda>_. Inr (i * 8 + first_bit (x XOR y)))))
      else Inr differ)"
  by pat_completeness auto
termination
  by (relation "measure (\<lambda>(a, t, c, i, d). c - i)") auto

declare differ_loop.simps [simp del]

definition differ_bit :: "u8 list \<Rightarrow> u8 list \<Rightarrow> nat \<Rightarrow> nat result" where
  "differ_bit addr test_addr check_bit =
     bindE (differ_loop addr test_addr check_bit 0 0) (\<lambda>df. Inr (if df > check_bit then check_bit else df))"

text \<open>\<open>while (parent && parent->bit >= differ_bit)\<close>.\<close>

fun climb :: "nat \<Rightarrow> 'd pnode \<Rightarrow> 'd crumb list \<Rightarrow> 'd pnode \<times> 'd crumb list" where
  "climb df n [] = (n, [])"
| "climb df n (c # cs) = (if c_bit c \<ge> df then climb df (plug c n) cs else (n, c # cs))"

text \<open>
  The five ways the new prefix is put at the node the climb stopped at: found, glue node reused,
  new child, new parent, new glue node with two children. The result is the subtree that replaces
  the node, the address of the prefix's node and the number of nodes allocated.
\<close>

definition lookup_insert ::
    "nat \<Rightarrow> prefix_t \<Rightarrow> u8 list \<Rightarrow> nat \<Rightarrow> nat \<Rightarrow> 'd pnode \<Rightarrow> ('d pnode \<times> nat \<times> nat) result" where
  "lookup_insert mb pfx test_addr df fresh node =
     (let addr = pfx_add pfx; bitlen = pfx_bitlen pfx;
          new_node = Node fresh bitlen (Some pfx) None Null Null in
      case node of
        Null \<Rightarrow> Inl Undefined_Behaviour
      | Node a b p d l r \<Rightarrow>
          if df = bitlen \<and> b = bitlen then
            (if p \<noteq> None then Inr (node, a, 0)
             else bindE (assertE (d = None)) (\<lambda>_. Inr (Node a b (Some pfx) d l r, a, 0)))
          else if b = df then
            bindE (branch_bit mb addr b) (\<lambda>t.
              if t then bindE (assertE (r = Null)) (\<lambda>_. Inr (Node a b p d l new_node, fresh, 1))
              else bindE (assertE (l = Null)) (\<lambda>_. Inr (Node a b p d new_node r, fresh, 1)))
          else if bitlen = df then
            bindE (branch_bit mb test_addr bitlen) (\<lambda>t.
              Inr (if t then Node fresh bitlen (Some pfx) None Null node
                   else Node fresh bitlen (Some pfx) None node Null, fresh, 1))
          else
            bindE (branch_bit mb addr df) (\<lambda>t.
              Inr (if t then Node (fresh + 1) df None None node new_node
                   else Node (fresh + 1) df None None new_node node, fresh, 2)))"

definition patricia_lookup :: "'d patricia_tree \<Rightarrow> prefix_t option \<Rightarrow> ('d patricia_tree \<times> nat) result" where
  "patricia_lookup patricia pfx = (case pfx of None \<Rightarrow> Inl Assertion_Failed | Some pf \<Rightarrow>
     bindE (assertE (pfx_bitlen pf \<le> maxbits patricia)) (\<lambda>_.
     if head patricia = Null then
       Inr (patricia\<lparr>head := Node (next_addr patricia) (pfx_bitlen pf) (Some pf) None Null Null,
                     num_active_node := num_active_node patricia + 1,
                     next_addr := next_addr patricia + 1\<rparr>, next_addr patricia)
     else
       bindE (lookup_loop (maxbits patricia) (pfx_add pf) (pfx_bitlen pf) (head patricia) []) (\<lambda>(node, cs).
       case node_prefix node of
         None \<Rightarrow> Inl Assertion_Failed
       | Some q \<Rightarrow>
           bindE (differ_bit (pfx_add pf) (pfx_add q) (min (node_bit node) (pfx_bitlen pf))) (\<lambda>df.
             let (node', cs') = climb df node cs in
             bindE (lookup_insert (maxbits patricia) pf (pfx_add q) df (next_addr patricia) node') (\<lambda>(sub, ptr, n).
               Inr (patricia\<lparr>head := plug_all cs' sub,
                             num_active_node := num_active_node patricia + int n,
                             next_addr := next_addr patricia + n\<rparr>, ptr))))))"

section \<open>Removal\<close>

text \<open>The node a pointer refers to, with its ancestors.\<close>

fun locate :: "nat \<Rightarrow> 'd pnode \<Rightarrow> 'd crumb list \<Rightarrow> ('d pnode \<times> 'd crumb list) option" where
  "locate ptr Null cs = None"
| "locate ptr (Node a b p d l r) cs =
     (if a = ptr then Some (Node a b p d l r, cs)
      else case locate ptr l (Crumb a b p d False r # cs) of
             Some z \<Rightarrow> Some z
           | None \<Rightarrow> locate ptr r (Crumb a b p d True l # cs))"

definition patricia_remove :: "'d patricia_tree \<Rightarrow> nat \<Rightarrow> 'd patricia_tree result" where
  "patricia_remove patricia ptr = (case locate ptr (head patricia) [] of
       None \<Rightarrow> Inl Undefined_Behaviour
     | Some (Null, cs) \<Rightarrow> Inl Undefined_Behaviour
     | Some (Node a b p d l r, cs) \<Rightarrow>
         if r \<noteq> Null \<and> l \<noteq> Null then Inr (patricia\<lparr>head := plug_all cs (Node a b None None l r)\<rparr>)
         else if r = Null \<and> l = Null then
           (case cs of
              [] \<Rightarrow> Inr (patricia\<lparr>head := Null, num_active_node := num_active_node patricia - 1\<rparr>)
            | parent # cs' \<Rightarrow>
                if c_prefix parent \<noteq> None then
                  Inr (patricia\<lparr>head := plug_all cs' (plug parent Null),
                                num_active_node := num_active_node patricia - 1\<rparr>)
                else if c_sibling parent = Null then Inl Undefined_Behaviour
                else Inr (patricia\<lparr>head := plug_all cs' (c_sibling parent),
                                   num_active_node := num_active_node patricia - 2\<rparr>))
         else
           (let child = (if r \<noteq> Null then r else l) in
            Inr (patricia\<lparr>head := plug_all cs child, num_active_node := num_active_node patricia - 1\<rparr>)))"

section \<open>Walking\<close>

text \<open>
  \<open>PATRICIA_WALK\<close>: the nodes that carry a prefix, in the order the macro visits them. The measure
  counts the nodes still to be visited.
\<close>

fun pnode_size :: "'d pnode \<Rightarrow> nat" where
  "pnode_size Null = 0"
| "pnode_size (Node a b p d l r) = Suc (pnode_size l + pnode_size r)"

lemma neq_Null_size: "n \<noteq> Null \<longleftrightarrow> 0 < pnode_size n"
  by (cases n) auto

function walk_loop :: "'d pnode \<Rightarrow> 'd pnode list \<Rightarrow> 'd pnode list result" where
  "walk_loop Null st = Inr []"
| "walk_loop (Node a b p d l r) st =
     bindE (if l \<noteq> Null then
              (if r \<noteq> Null then
                 (if length st < PATRICIA_MAXBITS + 1 then walk_loop l (r # st) else Inl Undefined_Behaviour)
               else walk_loop l st)
            else if r \<noteq> Null then walk_loop r st
            else (case st of n # st' \<Rightarrow> walk_loop n st' | [] \<Rightarrow> Inr []))
       (\<lambda>ns. Inr (if p \<noteq> None then Node a b p d l r # ns else ns))"
  by pat_completeness auto
termination
  by (relation "measure (\<lambda>(n, st). pnode_size n + sum_list (map pnode_size st))")
    (auto simp: neq_Null_size)

fun patricia_walk_inorder :: "'d pnode \<Rightarrow> (prefix_t \<times> 'd option) list" where
  "patricia_walk_inorder Null = []"
| "patricia_walk_inorder (Node a b p d l r) =
     patricia_walk_inorder l @ (case p of None \<Rightarrow> [] | Some q \<Rightarrow> [(q, d)]) @ patricia_walk_inorder r"

section \<open>Destruction\<close>

text \<open>
  The loop of \<open>Clear_Patricia\<close>, with the count of active nodes as an argument: a node without a
  prefix must have no data, every node is deleted once, and the count has to end at zero.
\<close>

function clear_loop :: "'d pnode \<Rightarrow> 'd pnode list \<Rightarrow> int \<Rightarrow> int result" where
  "clear_loop Null st cnt = Inr cnt"
| "clear_loop (Node a b p d l r) st cnt =
     bindE (assertE (p \<noteq> None \<or> d = None)) (\<lambda>_.
       if l \<noteq> Null then
         (if r \<noteq> Null then
            (if length st < PATRICIA_MAXBITS + 1 then clear_loop l (r # st) (cnt - 1) else Inl Undefined_Behaviour)
          else clear_loop l st (cnt - 1))
       else if r \<noteq> Null then clear_loop r st (cnt - 1)
       else (case st of n # st' \<Rightarrow> clear_loop n st' (cnt - 1) | [] \<Rightarrow> Inr (cnt - 1)))"
  by pat_completeness auto
termination
  by (relation "measure (\<lambda>(n, st, cnt). pnode_size n + sum_list (map pnode_size st))")
    (auto simp: neq_Null_size)

definition Clear_Patricia :: "'d patricia_tree \<Rightarrow> unit result" where
  "Clear_Patricia patricia =
     bindE (if head patricia \<noteq> Null then clear_loop (head patricia) [] (num_active_node patricia)
            else Inr (num_active_node patricia))
       (\<lambda>cnt. assertE (cnt = 0))"

end
