(* ===== verification/Patricia_Bits.thy ===== *)
theory Patricia_Bits
  imports Patricia
begin

unbundle bit_operations_syntax

text \<open>
  What the byte and bit manipulation of \<open>patricia.cpp\<close> computes, in terms of the list of bits of an
  address: the bit test, the masked comparison and the search for the first differing bit.
\<close>

section \<open>Longest common prefix\<close>

fun lcp :: "'a list \<Rightarrow> 'a list \<Rightarrow> nat" where
  "lcp (x # xs) (y # ys) = (if x = y then Suc (lcp xs ys) else 0)"
| "lcp _ _ = 0"

lemma lcp_iff: "n \<le> lcp xs ys \<longleftrightarrow> n \<le> length xs \<and> n \<le> length ys \<and> take n xs = take n ys"
proof (induction xs ys arbitrary: n rule: lcp.induct)
  case (1 x xs y ys)
  then show ?case by (cases n) auto
qed auto

lemma lcp_le: "lcp xs ys \<le> length xs" "lcp xs ys \<le> length ys" "take (lcp xs ys) xs = take (lcp xs ys) ys"
  using lcp_iff [of "lcp xs ys" xs ys] by simp_all

lemma lcp_nth: "i < lcp xs ys \<Longrightarrow> xs ! i = ys ! i"
  using lcp_le(3) [of xs ys] by (metis nth_take)

lemma lcp_take_le: "n \<le> lcp xs ys \<Longrightarrow> take n xs = take n ys"
  by (simp add: lcp_iff)

lemma lcp_eqI:
  assumes "n < length xs" "n < length ys" "take n xs = take n ys" "xs ! n \<noteq> ys ! n"
  shows "lcp xs ys = n"
proof -
  have "n \<le> lcp xs ys" using assms by (simp add: lcp_iff)
  moreover have "\<not> Suc n \<le> lcp xs ys" using assms(4) lcp_nth [of n xs ys] by auto
  ultimately show ?thesis by simp
qed

lemma lcp_take_min:
  assumes "m \<le> length xs" "n \<le> length ys"
  shows "lcp (take m xs) (take n ys) = min (min m n) (lcp xs ys)"
proof (rule order_antisym)
  have "lcp (take m xs) (take n ys) \<le> lcp xs ys"
    using lcp_le [of "take m xs" "take n ys"] assms by (simp add: lcp_iff min_def split: if_splits)
  moreover have "lcp (take m xs) (take n ys) \<le> m" "lcp (take m xs) (take n ys) \<le> n"
    using lcp_le [of "take m xs" "take n ys"] assms by auto
  ultimately show "lcp (take m xs) (take n ys) \<le> min (min m n) (lcp xs ys)" by simp
  let ?k = "min (min m n) (lcp xs ys)"
  have "take ?k xs = take ?k ys" by (rule lcp_take_le) simp
  moreover have "min ?k m = ?k" "min ?k n = ?k" by simp_all
  ultimately show "?k \<le> lcp (take m xs) (take n ys)"
    using assms by (simp only: lcp_iff take_take length_take) auto
qed

section \<open>Testing a bit\<close>

lemma bit_0x80: "bit (drop_bit j 0x80 :: u8) n \<longleftrightarrow> j + n = 7"
proof -
  have "bit ((2 :: u8) ^ 7) m \<longleftrightarrow> m = 7" for m
    unfolding bit_exp_iff by auto
  moreover have "(0x80 :: u8) = 2 ^ 7" by simp
  ultimately have "bit (0x80 :: u8) m \<longleftrightarrow> m = 7" for m by metis
  then show ?thesis by (simp add: bit_drop_bit_eq)
qed

lemma and_0x80: "j < 8 \<Longrightarrow> (b :: u8) AND drop_bit j 0x80 = 0 \<longleftrightarrow> \<not> bit b (7 - j)"
proof
  assume j: "j < 8" and "b AND drop_bit j 0x80 = 0"
  then have "\<not> bit (b AND drop_bit j 0x80) (7 - j)" by simp
  with j show "\<not> bit b (7 - j)" unfolding bit_and_iff bit_0x80 by simp
next
  assume j: "j < 8" and nb: "\<not> bit b (7 - j)"
  show "b AND drop_bit j 0x80 = 0"
  proof (rule bit_word_eqI)
    fix n
    have "j + n = 7 \<Longrightarrow> n = 7 - j" by simp
    with nb show "bit (b AND drop_bit j 0x80) n = bit 0 n"
      unfolding bit_and_iff bit_0x80 by auto
  qed
qed

lemma test_bit_Inr [simp]: "i < 8 * length addr \<Longrightarrow> test_bit addr i = Inr (bits_of addr ! i)"
proof -
  assume i: "i < 8 * length addr"
  then have "i div 8 < length addr" by simp
  with i show ?thesis by (simp add: test_bit_def and_0x80 nth_bits_of)
qed

section \<open>Comparing under a mask\<close>

lemma masked_byte_eq:
  fixes x y :: u8
  assumes "k < 8"
  shows "(ucast x AND push_bit (8 - k) (- 1 :: 32 word)) = (ucast y AND push_bit (8 - k) (- 1))
    \<longleftrightarrow> take k (byte_bits x) = take k (byte_bits y)" (is "?L = ?R")
proof -
  have "?L \<longleftrightarrow> (\<forall>n<32. (bit x n \<and> 8 - k \<le> n) = (bit y n \<and> 8 - k \<le> n))"
    unfolding bit_eq_iff [where ?'a = "32 word"] bit_and_iff bit_push_bit_iff bit_unsigned_iff by auto
  also have "\<dots> \<longleftrightarrow> (\<forall>n<8. 8 - k \<le> n \<longrightarrow> bit x n = bit y n)"
  proof -
    have big: "\<not> bit w n" if "8 \<le> n" for w :: u8 and n
      using that bit_imp_le_length [of w n] by auto
    show ?thesis
    proof
      assume *: "\<forall>n<8. 8 - k \<le> n \<longrightarrow> bit x n = bit y n"
      show "\<forall>n<32. (bit x n \<and> 8 - k \<le> n) = (bit y n \<and> 8 - k \<le> n)"
      proof (intro allI impI)
        fix n :: nat
        show "(bit x n \<and> 8 - k \<le> n) = (bit y n \<and> 8 - k \<le> n)"
          using * big [of n x] big [of n y] by (cases "n < 8") auto
      qed
    next
      assume *: "\<forall>n<32. (bit x n \<and> 8 - k \<le> n) = (bit y n \<and> 8 - k \<le> n)"
      show "\<forall>n<8. 8 - k \<le> n \<longrightarrow> bit x n = bit y n"
      proof (intro allI impI)
        fix n :: nat assume "n < 8" "8 - k \<le> n"
        with *[rule_format, of n] show "bit x n = bit y n" by simp
      qed
    qed
  qed
  also have "\<dots> \<longleftrightarrow> (\<forall>j<k. bit x (7 - j) = bit y (7 - j))"
  proof
    assume *: "\<forall>j<k. bit x (7 - j) = bit y (7 - j)"
    show "\<forall>n<8. 8 - k \<le> n \<longrightarrow> bit x n = bit y n"
    proof (intro allI impI)
      fix n :: nat assume "n < 8" "8 - k \<le> n"
      then have "7 - n < k" "7 - (7 - n) = n" using assms by auto
      with * show "bit x n = bit y n" by metis
    qed
  qed (use assms in auto)
  also have "\<dots> \<longleftrightarrow> ?R"
    using assms by (simp add: take_eq_nth_iff nth_byte_bits)
  finally show ?thesis .
qed

lemma take_bits_split:
  assumes "m div 8 < length a"
  shows "take m (bits_of a) = bits_of (take (m div 8) a) @ take (m mod 8) (byte_bits (a ! (m div 8)))"
proof -
  have "take m (bits_of a) = take (8 * (m div 8) + m mod 8) (bits_of a)" by simp
  also have "\<dots> = bits_of (take (m div 8) a) @ take (m mod 8) (bits_of (drop (m div 8) a))"
    by (simp only: take_add take_bits_of drop_bits_of)
  also have "drop (m div 8) a = a ! (m div 8) # drop (Suc (m div 8)) a"
    using assms by (simp add: Cons_nth_drop_Suc)
  finally show ?thesis by (simp add: less_imp_le)
qed

lemma comp_with_mask_Inr:
  assumes "m \<le> 8 * length a" "m \<le> 8 * length d"
  shows "comp_with_mask a d m = Inr (take m (bits_of a) = take m (bits_of d))"
proof (cases "m mod 8 = 0")
  case True
  then have m: "m = 8 * (m div 8)" by presburger
  then have "take m (bits_of a) = bits_of (take (m div 8) a)" "take m (bits_of d) = bits_of (take (m div 8) d)"
    by (metis take_bits_of)+
  moreover have "m div 8 \<le> length a" "m div 8 \<le> length d" using assms by auto
  ultimately show ?thesis
    using True by (auto simp: comp_with_mask_def Let_def bits_of_inj)
next
  case False
  have lt: "m div 8 < length a" "m div 8 < length d"
    using assms False by (auto simp: less_mult_imp_div_less le_less mult.commute)
  show ?thesis
    using lt False masked_byte_eq [of "m mod 8" "a ! (m div 8)" "d ! (m div 8)"]
    by (auto simp: comp_with_mask_def Let_def take_bits_split bits_of_inj)
qed

section \<open>The first differing bit\<close>

lemma length_takeWhile_less: "\<exists>x\<in>set xs. \<not> P x \<Longrightarrow> length (takeWhile P xs) < length xs"
  by (induction xs) auto

lemma first_bit_spec:
  assumes "r \<noteq> 0"
  shows "first_bit r < 8" "bit r (7 - first_bit r)" "j < first_bit r \<Longrightarrow> \<not> bit r (7 - j)"
proof -
  let ?P = "\<lambda>j. r AND drop_bit j 0x80 = 0"
  obtain n where n: "bit r n" "n < 8"
  proof -
    have "\<exists>n<8. bit r n"
    proof (rule ccontr)
      assume "\<not> (\<exists>n<8. bit r n)"
      then have "r = 0" by (intro bit_word_eqI) auto
      with assms show False by simp
    qed
    then show thesis using that by blast
  qed
  then have ex: "\<exists>j\<in>set [0..<8]. \<not> ?P j"
    by (intro bexI [of _ "7 - n"]) (auto simp: and_0x80)
  then show lt: "first_bit r < 8"
    unfolding first_bit_def using length_takeWhile_less [OF ex] by simp
  then have "\<not> ?P ([0..<8] ! first_bit r)"
    unfolding first_bit_def by (intro nth_length_takeWhile) simp
  with lt show "bit r (7 - first_bit r)" by (simp add: and_0x80)
  assume j: "j < first_bit r"
  then have "?P (takeWhile ?P [0..<8] ! j)" using nth_mem set_takeWhileD by (fastforce simp: first_bit_def)
  with j lt have "?P j" by (simp add: first_bit_def takeWhile_nth)
  with j lt show "\<not> bit r (7 - j)" by (simp add: and_0x80)
qed

lemma xor_byte_0: "(x :: u8) XOR y = 0 \<longleftrightarrow> x = y"
  by (metis xor.assoc xor_self_eq xor.right_neutral xor.left_neutral)

lemma nth_differ_byte:
  fixes x y :: u8
  assumes "x \<noteq> y"
  shows "first_bit (x XOR y) < 8" "take (first_bit (x XOR y)) (byte_bits x) = take (first_bit (x XOR y)) (byte_bits y)"
    "byte_bits x ! first_bit (x XOR y) \<noteq> byte_bits y ! first_bit (x XOR y)"
proof -
  let ?j = "first_bit (x XOR y)"
  have "x XOR y \<noteq> 0" using assms by (simp add: xor_byte_0)
  note f = first_bit_spec [OF this]
  show j: "?j < 8" by (rule f(1))
  show "take ?j (byte_bits x) = take ?j (byte_bits y)"
    using f(3) j by (auto simp: take_eq_nth_iff nth_byte_bits bit_xor_iff)
  show "byte_bits x ! ?j \<noteq> byte_bits y ! ?j"
    using f(2) j by (simp add: nth_byte_bits bit_xor_iff)
qed

lemma lcp_bits_byte:
  assumes "i < length a" "i < length t" "take i a = take i t" "a ! i \<noteq> t ! i"
  shows "lcp (bits_of a) (bits_of t) = 8 * i + first_bit (a ! i XOR t ! i)"
proof (rule lcp_eqI)
  let ?j = "first_bit (a ! i XOR t ! i)"
  note d = nth_differ_byte [OF assms(4)]
  have m: "(8 * i + ?j) div 8 = i" "(8 * i + ?j) mod 8 = ?j" using d(1) by auto
  show l: "8 * i + ?j < length (bits_of a)" "8 * i + ?j < length (bits_of t)"
    using assms d(1) by (simp_all add: less_eq_Suc_le)
  show "take (8 * i + ?j) (bits_of a) = take (8 * i + ?j) (bits_of t)"
    using take_bits_split [of "8 * i + ?j" a] take_bits_split [of "8 * i + ?j" t] assms d(1,2)
    by (simp add: m)
  show "bits_of a ! (8 * i + ?j) \<noteq> bits_of t ! (8 * i + ?j)"
    using l d by (simp add: nth_bits_of m nth_byte_bits)
qed

lemma differ_loop_spec:
  assumes "c \<le> 8 * length a" "c \<le> 8 * length t" "take i a = take i t"
  shows "\<exists>r. differ_loop a t c i (8 * i) = Inr r \<and> min r c = min c (lcp (bits_of a) (bits_of t))"
  using assms
proof (induction "c - i" arbitrary: i rule: less_induct)
  case less
  show ?case
  proof (cases "i * 8 < c")
    case False
    have "take (8 * i) (bits_of a) = take (8 * i) (bits_of t)"
      using less.prems by (simp add: take_bits_of)
    then have "take c (take (8 * i) (bits_of a)) = take c (take (8 * i) (bits_of t))" by simp
    then have "take c (bits_of a) = take c (bits_of t)" using False by (simp add: min_def)
    then have "c \<le> lcp (bits_of a) (bits_of t)" using less.prems by (simp add: lcp_iff)
    with False show ?thesis by (subst differ_loop.simps) auto
  next
    case True
    then have i: "i < length a" "i < length t" using less.prems by auto
    show ?thesis
    proof (cases "a ! i = t ! i")
      case True': True
      then have "take (Suc i) a = take (Suc i) t"
        using less.prems i by (simp add: take_Suc_conv_app_nth)
      then have "\<exists>r. differ_loop a t c (Suc i) (8 * Suc i) = Inr r \<and> min r c = min c (lcp (bits_of a) (bits_of t))"
        using less.hyps [of "Suc i"] less.prems True by auto
      with True True' i show ?thesis by (subst differ_loop.simps) (simp add: mult.commute)
    next
      case False
      have "differ_loop a t c i (8 * i) = Inr (i * 8 + first_bit (a ! i XOR t ! i))"
        using True i False nth_differ_byte(1) [OF False]
        by (subst differ_loop.simps) (simp add: xor_byte_0)
      moreover have "i * 8 + first_bit (a ! i XOR t ! i) = lcp (bits_of a) (bits_of t)"
        using lcp_bits_byte [OF i less.prems(3) False] by simp
      ultimately show ?thesis by (auto simp: min.commute)
    qed
  qed
qed

lemma differ_bit_Inr:
  assumes "c \<le> 8 * length a" "c \<le> 8 * length t"
  shows "differ_bit a t c = Inr (min c (lcp (bits_of a) (bits_of t)))"
proof -
  obtain r where "differ_loop a t c 0 0 = Inr r" "min r c = min c (lcp (bits_of a) (bits_of t))"
    using differ_loop_spec [OF assms, of 0] by auto
  then show ?thesis by (auto simp: differ_bit_def min_def split: if_splits)
qed

end
