(* ===== verification/Patricia_Inv.thy ===== *)
theory Patricia_Inv
  imports Patricia_Bits
begin

text \<open>
  The invariant of the trie and what it gives for the zipper: every node has a label, the first
  \<open>bit\<close> bits that all prefixes below it share; a child's label continues the parent's with the
  branching bit; a node without a prefix (a glue node) has two children.
\<close>

section \<open>Keys, cells and the invariant\<close>

definition wf_prefix :: "prefix_t \<Rightarrow> bool" where
  "wf_prefix q \<longleftrightarrow> pfx_bitlen q \<le> 8 * length (pfx_add q)"

definition pkey :: "prefix_t \<Rightarrow> bool list" where
  "pkey q = take (pfx_bitlen q) (bits_of (pfx_add q))"

lemma length_pkey [simp]: "wf_prefix q \<Longrightarrow> length (pkey q) = pfx_bitlen q"
  by (simp add: wf_prefix_def pkey_def)

fun wf_node :: "nat \<Rightarrow> bool list \<Rightarrow> 'd pnode \<Rightarrow> bool" where
  "wf_node m L Null = True"
| "wf_node m L (Node a b p d l r) =
     (b \<le> m \<and>
      (\<exists>K. length K = b \<and> prefix L K \<and>
        (case p of None \<Rightarrow> l \<noteq> Null \<and> r \<noteq> Null \<and> d = None | Some q \<Rightarrow> wf_prefix q \<and> pkey q = K) \<and>
        wf_node m (K @ [False]) l \<and> wf_node m (K @ [True]) r))"

fun cells :: "'d pnode \<Rightarrow> (nat \<times> prefix_t option \<times> 'd option) multiset" where
  "cells Null = {#}"
| "cells (Node a b p d l r) = add_mset (a, p, d) (cells l + cells r)"

definition keys :: "'d pnode \<Rightarrow> bool list set" where
  "keys n = {pkey q | a q d. (a, Some q, d) \<in># cells n}"

lemma keysI [intro]: "(a, Some q, d) \<in># cells n \<Longrightarrow> pkey q \<in> keys n"
  by (auto simp: keys_def)

lemma keys_simps [simp]:
  "keys Null = {}"
  "keys (Node a b None d l r) = keys l \<union> keys r"
  "keys (Node a b (Some q) d l r) = insert (pkey q) (keys l \<union> keys r)"
  by (auto simp: keys_def)

lemma keys_Node: "keys (Node a b p d l r) = (case p of None \<Rightarrow> {} | Some q \<Rightarrow> {pkey q}) \<union> keys l \<union> keys r"
  by (cases p) auto

lemma cells_eq_empty [simp]: "cells n = {#} \<longleftrightarrow> n = Null"
  by (cases n) auto

lemma wf_node_weaken: "wf_node m L n \<Longrightarrow> prefix L' L \<Longrightarrow> wf_node m L' n"
  by (cases n) (auto intro: prefix_order.trans)

lemma wf_node_prefix: "wf_node m L n \<Longrightarrow> k \<in> keys n \<Longrightarrow> prefix L k"
proof (induction n arbitrary: L)
  case (Node a b p d l r)
  then obtain K where K: "prefix L K" "wf_node m (K @ [False]) l" "wf_node m (K @ [True]) r"
    "k = K \<or> k \<in> keys l \<or> k \<in> keys r"
    by (auto simp: keys_Node split: option.splits)
  have "prefix L (K @ [x])" for x using K(1) by (simp add: prefix_prefix)
  then have "wf_node m L l" "wf_node m L r" using K(2,3) by (blast intro: wf_node_weaken)+
  with Node.IH K(1,4) show ?case by blast
qed simp

lemma wf_node_length: "wf_node m L n \<Longrightarrow> k \<in> keys n \<Longrightarrow> length k \<le> m"
  by (induction n arbitrary: L) (auto simp: keys_Node split: option.splits)

lemma wf_node_keys_nonempty: "wf_node m L n \<Longrightarrow> n \<noteq> Null \<Longrightarrow> keys n \<noteq> {}"
  by (induction n arbitrary: L) (auto simp: keys_Node split: option.splits)

lemma wf_node_bit: "wf_node m L n \<Longrightarrow> n \<noteq> Null \<Longrightarrow> length L \<le> node_bit n \<and> node_bit n \<le> m"
  by (cases n) (auto dest: prefix_length_le)

lemma keys_wf_prefix: "wf_node m L n \<Longrightarrow> (a, Some q, d) \<in># cells n \<Longrightarrow> wf_prefix q"
  by (induction n arbitrary: L) (auto split: option.splits)

lemma prefix_both_sides: "prefix (K @ [False]) k \<Longrightarrow> prefix (K @ [True]) k \<Longrightarrow> False"
  by (auto simp: prefix_def)

lemma cells_unique:
  assumes "wf_node m L n" "(a, Some q, d) \<in># cells n" "(a', Some q', d') \<in># cells n" "pkey q = pkey q'"
  shows "(a, q, d) = (a', q', d')"
  using assms
proof (induction n arbitrary: L)
  case (Node x b p e l r)
  from Node.prems(1) obtain K where K: "length K = b" "wf_node m (K @ [False]) l" "wf_node m (K @ [True]) r"
    and "case p of None \<Rightarrow> l \<noteq> Null \<and> r \<noteq> Null \<and> e = None | Some q \<Rightarrow> wf_prefix q \<and> pkey q = K"
    by (simp only: wf_node.simps) blast
  then have root: "p = Some z \<Longrightarrow> pkey z = K" for z by simp
  have l: "prefix (K @ [False]) k" if "k \<in> keys l" for k using K(2) that by (rule wf_node_prefix)
  have r: "prefix (K @ [True]) k" if "k \<in> keys r" for k using K(3) that by (rule wf_node_prefix)
  have nl: "K \<notin> keys l" and nr: "K \<notin> keys r" using l [of K] r [of K] by (auto dest: prefix_length_le)
  have lr: "k \<notin> keys r" if "k \<in> keys l" for k using l r that prefix_both_sides by blast
  let ?k = "pkey q"
  have s: "(a, Some q, d) = (x, p, e) \<and> ?k = K \<or> (a, Some q, d) \<in># cells l \<and> ?k \<in> keys l \<or>
      (a, Some q, d) \<in># cells r \<and> ?k \<in> keys r"
    using Node.prems(2) root by auto
  have s': "(a', Some q', d') = (x, p, e) \<and> ?k = K \<or> (a', Some q', d') \<in># cells l \<and> ?k \<in> keys l \<or>
      (a', Some q', d') \<in># cells r \<and> ?k \<in> keys r"
    using Node.prems(3,4) root by auto
  show ?case
    using s s' nl nr lr Node.IH(1) [OF K(2) _ _ Node.prems(4)] Node.IH(2) [OF K(3) _ _ Node.prems(4)] by auto
qed simp

section \<open>The zipper\<close>

fun ctx_cells :: "'d crumb list \<Rightarrow> (nat \<times> prefix_t option \<times> 'd option) multiset" where
  "ctx_cells [] = {#}"
| "ctx_cells (Crumb a b p d rt s # cs) = add_mset (a, p, d) (cells s + ctx_cells cs)"

lemma cells_plug [simp]: "cells (plug c n) = ctx_cells [c] + cells n"
  by (cases c) auto

lemma ctx_cells_Cons: "ctx_cells (c # cs) = ctx_cells [c] + ctx_cells cs"
  by (cases c) auto

lemma cells_plug_all: "cells (plug_all cs n) = ctx_cells cs + cells n"
proof (induction cs arbitrary: n)
  case (Cons c cs)
  then show ?case by (simp add: ctx_cells_Cons [of c cs] del: ctx_cells.simps)
qed simp

lemma plug_not_Null [simp]: "plug c n \<noteq> Null"
  by (cases c) auto

lemma plug_all_Null: "plug_all cs n = Null \<longleftrightarrow> cs = [] \<and> n = Null"
  by (induction cs arbitrary: n) auto

lemma plug_all_append [simp]: "plug_all (cs @ ds) n = plug_all ds (plug_all cs n)"
  by (induction cs arbitrary: n) auto

lemma node_bit_plug [simp]: "node_bit (plug c n) = c_bit c"
  by (cases c) auto

lemma keys_plug_all: "k \<in> keys n \<Longrightarrow> k \<in> keys (plug_all cs n)"
  by (auto simp: keys_def cells_plug_all)

text \<open>
  A subtree of a well-formed tree is well-formed under some label, and can be replaced by any
  other one that is (an empty one only below a node that has a prefix of its own).
\<close>

lemma prefix_sides: "prefix (K @ [x]) k \<Longrightarrow> prefix (K @ [\<not> x]) k \<Longrightarrow> False"
  by (auto simp: prefix_def)

lemma wf_plug_all:
  assumes "wf_node m L (plug_all cs y)"
  shows "\<exists>L'. wf_node m L' y \<and> prefix L L' \<and> (cs = [] \<longrightarrow> L' = L) \<and>
    (cs \<noteq> [] \<longrightarrow> length L' = Suc (c_bit (hd cs))) \<and>
    (\<forall>y'. y' \<noteq> Null \<or> cs = [] \<or> c_prefix (hd cs) \<noteq> None \<longrightarrow> wf_node m L' y' \<longrightarrow> wf_node m L (plug_all cs y')) \<and>
    (\<forall>k\<in>keys (plug_all cs y). prefix L' k \<longrightarrow> k \<in> keys y)"
  using assms
proof (induction cs arbitrary: y)
  case (Cons c cs)
  from Cons.IH [of "plug c y"] Cons.prems obtain L1 where L1: "wf_node m L1 (plug c y)" "prefix L L1"
    "\<And>y'. y' \<noteq> Null \<Longrightarrow> wf_node m L1 y' \<Longrightarrow> wf_node m L (plug_all cs y')"
    "\<And>k. k \<in> keys (plug_all cs (plug c y)) \<Longrightarrow> prefix L1 k \<Longrightarrow> k \<in> keys (plug c y)"
    by auto
  obtain a b p d rt s where c: "c = Crumb a b p d rt s" by (cases c)
  from L1(1) c obtain K where K: "length K = b" "prefix L1 K" "b \<le> m" "wf_node m (K @ [rt]) y" "wf_node m (K @ [\<not> rt]) s"
    "case p of None \<Rightarrow> s \<noteq> Null \<and> y \<noteq> Null \<and> d = None | Some q \<Rightarrow> wf_prefix q \<and> pkey q = K"
    by (cases rt) (auto split: option.splits)
  have "wf_node m L (plug_all (c # cs) y')" if "y' \<noteq> Null \<or> p \<noteq> None" "wf_node m (K @ [rt]) y'" for y'
  proof -
    have "wf_node m L1 (plug c y')"
      using that K c by (cases rt) (auto split: option.splits)
    then show ?thesis using L1(3) by simp
  qed
  moreover have "prefix L (K @ [rt])" using L1(2) K(2) by (meson prefix_order.trans prefix_snoc)
  moreover have "k \<in> keys y" if k: "k \<in> keys (plug_all (c # cs) y)" "prefix (K @ [rt]) k" for k
  proof -
    have "prefix L1 k" using k(2) K(2) by (meson prefix_order.trans append_prefixD)
    then have "k \<in> keys (plug c y)" using L1(4) k(1) by simp
    then have "k = K \<or> k \<in> keys s \<or> k \<in> keys y"
      using K(6) by (auto simp: c keys_Node split: option.splits if_splits)
    then show ?thesis
      using k(2) wf_node_prefix [OF K(5)] prefix_sides [of K rt k] by (auto dest: prefix_length_le)
  qed
  ultimately show ?case
    using K c by (intro exI [of _ "K @ [rt]"]) auto
qed auto

text \<open>Where the climb stops.\<close>

lemma climb_spec:
  "\<exists>ds1 ds2. cs = ds1 @ ds2 \<and> climb df x cs = (plug_all ds1 x, ds2) \<and>
     (\<forall>c\<in>set ds1. df \<le> c_bit c) \<and> (ds2 \<noteq> [] \<longrightarrow> c_bit (hd ds2) < df)"
proof (induction cs arbitrary: x)
  case (Cons c cs)
  show ?case
  proof (cases "df \<le> c_bit c")
    case True
    obtain ds1 ds2 where "cs = ds1 @ ds2" "climb df (plug c x) cs = (plug_all ds1 (plug c x), ds2)"
      "\<forall>c\<in>set ds1. df \<le> c_bit c" "ds2 \<noteq> [] \<longrightarrow> c_bit (hd ds2) < df"
      using Cons.IH by blast
    with True show ?thesis by (intro exI [of _ "c # ds1"] exI [of _ ds2]) auto
  next
    case False
    then show ?thesis by (intro exI [of _ "[]"] exI [of _ "c # cs"]) auto
  qed
qed auto

lemma node_bit_plug_all: "cs \<noteq> [] \<Longrightarrow> node_bit (plug_all cs x) = c_bit (last cs)"
  by (induction cs arbitrary: x) auto

end
