(* ===== verification/Patricia_Correct.thy ===== *)
theory Patricia_Correct
  imports Patricia_Inv
begin

text \<open>
  Correctness of the operations of the trie: searching for a prefix, searching for the best
  match, inserting and removing, each on trees that satisfy the invariant.
\<close>

section \<open>Common prefixes with labels\<close>

lemma lcp_append:
  "lcp A (K @ S) = (if lcp A K < length K then lcp A K else length K + lcp (drop (length K) A) S)"
  by (induction A K rule: lcp.induct) auto

lemma lcp_diverged:
  assumes "prefix K k" "lcp A K < length K"
  shows "lcp A k = lcp A K"
  using assms by (auto simp: prefix_def lcp_append)

lemma lcp_other_side:
  assumes "prefix (K @ [\<not> A ! length K]) k" "length K < length A" "\<not> lcp A K < length K"
  shows "lcp A k = length K"
  using assms by (auto simp: prefix_def lcp_append Cons_nth_drop_Suc [symmetric])

lemma lcp_same_side:
  assumes "prefix (K @ [A ! length K]) k" "length K < length A" "\<not> lcp A K < length K"
  shows "Suc (length K) \<le> lcp A k"
  using assms by (auto simp: prefix_def lcp_append Cons_nth_drop_Suc [symmetric])

lemma lcp_key_le: "lcp A K \<le> length K"
  by (rule lcp_le)

text \<open>The label of a node and what it says about the keys on the two sides.\<close>

lemma wf_Node_label:
  assumes "wf_node m L (Node a b p d l r)"
  obtains K where "length K = b" "prefix L K" "b \<le> m" "wf_node m (K @ [False]) l" "wf_node m (K @ [True]) r"
    "p = None \<Longrightarrow> l \<noteq> Null \<and> r \<noteq> Null \<and> d = None" "\<And>q. p = Some q \<Longrightarrow> wf_prefix q \<and> pkey q = K \<and> pfx_bitlen q = b"
    "\<And>k. k \<in> keys l \<Longrightarrow> prefix (K @ [False]) k" "\<And>k. k \<in> keys r \<Longrightarrow> prefix (K @ [True]) k"
    "\<And>k. k \<in> keys (Node a b p d l r) \<Longrightarrow> prefix K k"
proof -
  from assms obtain K where K: "length K = b" "prefix L K" "b \<le> m" "wf_node m (K @ [False]) l" "wf_node m (K @ [True]) r"
    and p: "case p of None \<Rightarrow> l \<noteq> Null \<and> r \<noteq> Null \<and> d = None | Some q \<Rightarrow> wf_prefix q \<and> pkey q = K"
    by (simp only: wf_node.simps) blast
  have "wf_node m K (Node a b p d l r)" using K p by auto
  then have all: "prefix K k" if "k \<in> keys (Node a b p d l r)" for k using that by (rule wf_node_prefix)
  have q: "wf_prefix q \<and> pkey q = K \<and> pfx_bitlen q = b" if "p = Some q" for q
    using p that K(1) length_pkey [of q] by auto
  show thesis
    using K p q all wf_node_prefix [OF K(4)] wf_node_prefix [OF K(5)] by (intro that [of K]) auto
qed

lemma glue_below_max:
  assumes "wf_node m L (Node a b p d l r)" and "b < bitlen \<or> p = None" and "bitlen \<le> m"
  shows "b < m"
proof (cases "p = None")
  case True
  obtain K where "length K = b" "l \<noteq> Null" "wf_node m (K @ [False]) l"
    using assms(1) True by (elim wf_Node_label) blast
  then show ?thesis using wf_node_bit [of m "K @ [False]" l] by simp
qed (use assms in auto)

section \<open>Insertion: where the descent ends\<close>

lemma lookup_loop_spec:
  assumes "wf_node m L n" "n \<noteq> Null" "m \<le> 8 * length addr" "bitlen \<le> m" and mb: "m \<le> mb"
  shows "\<exists>x ds a b q d l r. lookup_loop mb addr bitlen n cs = Inr (x, ds @ cs) \<and> n = plug_all ds x \<and>
    x = Node a b (Some q) d l r \<and>
    (\<forall>k\<in>keys n. min bitlen (lcp (bits_of addr) k) \<le> min bitlen (lcp (bits_of addr) (pkey q)))"
  using assms(1-4)
proof (induction n arbitrary: L cs)
  case (Node a b p d l r)
  let ?A = "bits_of addr"
  define t where "t = ?A ! b"
  define c where "c = (if t then r else l)"
  obtain K where K: "length K = b" "wf_node m (K @ [False]) l" "wf_node m (K @ [True]) r"
    "p = None \<Longrightarrow> l \<noteq> Null \<and> r \<noteq> Null" "\<And>q. p = Some q \<Longrightarrow> pkey q = K"
    "\<And>k. k \<in> keys l \<Longrightarrow> prefix (K @ [False]) k" "\<And>k. k \<in> keys r \<Longrightarrow> prefix (K @ [True]) k"
    "\<And>k. k \<in> keys (Node a b p d l r) \<Longrightarrow> prefix K k"
    using Node.prems(1) by (elim wf_Node_label) blast
  have side: "prefix (K @ [\<not> t]) k \<or> k = K \<or> k \<in> keys c" if "k \<in> keys (Node a b p d l r)" for k
    using that K(5-7) by (cases t) (auto simp: keys_Node c_def split: option.splits)
  show ?case
  proof (cases "b < bitlen \<or> p = None")
    case False
    then obtain q where q: "p = Some q" "pkey q = K" using K(5) by blast
    have "min bitlen (lcp ?A k) \<le> min bitlen (lcp ?A K)" if "k \<in> keys (Node a b p d l r)" for k
      using lcp_diverged [OF K(8) [OF that], of ?A] False K(1) lcp_key_le [of ?A K]
      by (cases "lcp ?A K < length K") auto
    with q False show ?thesis by (intro exI [of _ "Node a b p d l r"] exI [of _ "[]"]) auto
  next
    case True
    have bm: "b < m" by (rule glue_below_max [OF Node.prems(1) True Node.prems(4)])
    then have bA: "b < 8 * length addr" using Node.prems(3) by simp
    have br: "branch_bit mb addr b = Inr t" using bm bA mb by (simp add: branch_bit_def t_def)
    show ?thesis
    proof (cases "c = Null")
      case cN: True
      then have "p \<noteq> None" using K(4) by (auto simp: c_def split: if_splits)
      then obtain q where q: "p = Some q" "pkey q = K" using K(5) by blast
      have "lcp ?A k \<le> lcp ?A K" if "k \<in> keys (Node a b p d l r)" for k
        using side [OF that] cN lcp_diverged [OF K(8) [OF that], of ?A] lcp_other_side [of K ?A k] K(1) bA
          lcp_key_le [of ?A K] by (cases "lcp ?A K < length K") (auto simp: t_def)
      then have "min bitlen (lcp ?A k) \<le> min bitlen (lcp ?A K)" if "k \<in> keys (Node a b p d l r)" for k
        using that by (meson min.mono order_refl)
      with True br cN q show ?thesis
        by (intro exI [of _ "Node a b p d l r"] exI [of _ "[]"]) (auto simp: c_def split: if_splits)
    next
      case False
      define cr where "cr = Crumb a b p d t (if t then l else r)"
      have "\<exists>x ds a' b' q d' l' r'. lookup_loop mb addr bitlen c (cr # cs) = Inr (x, ds @ cr # cs) \<and>
          c = plug_all ds x \<and> x = Node a' b' (Some q) d' l' r' \<and>
          (\<forall>k\<in>keys c. min bitlen (lcp ?A k) \<le> min bitlen (lcp ?A (pkey q)))"
      proof (cases t)
        case True
        then show ?thesis using Node.IH(2) [OF K(3)] False Node.prems(3,4) by (auto simp: c_def)
      next
        case False
        then show ?thesis using Node.IH(1) [OF K(2)] \<open>c \<noteq> Null\<close> Node.prems(3,4) by (auto simp: c_def)
      qed
      then obtain x ds a' b' q d' l' r' where x: "lookup_loop mb addr bitlen c (cr # cs) = Inr (x, ds @ cr # cs)"
        "c = plug_all ds x" "x = Node a' b' (Some q) d' l' r'"
        "\<forall>k\<in>keys c. min bitlen (lcp ?A k) \<le> min bitlen (lcp ?A (pkey q))"
        by blast
      have qc: "pkey q \<in> keys c" unfolding x(2) by (rule keys_plug_all) (simp add: x(3))
      then have qK: "prefix (K @ [t]) (pkey q)" using K(6,7) by (cases t) (auto simp: c_def)
      have "min bitlen (lcp ?A k) \<le> min bitlen (lcp ?A (pkey q))" if "k \<in> keys (Node a b p d l r)" for k
      proof (cases "k \<in> keys c")
        case False
        then have k: "prefix (K @ [\<not> t]) k \<or> k = K" using side [OF that] by blast
        have "lcp ?A k \<le> lcp ?A (pkey q)"
        proof (cases "lcp ?A K < length K")
          case True
          have "prefix K (pkey q)" using qK by (meson append_prefixD)
          then show ?thesis using lcp_diverged [OF _ True, of "pkey q"] lcp_diverged [OF K(8) [OF that] True] by simp
        next
          case False
          have "lcp ?A k \<le> length K"
            using k lcp_other_side [of K ?A k] False bA K(1) lcp_key_le [of ?A K] by (auto simp: t_def)
          then show ?thesis using lcp_same_side [of K ?A "pkey q"] qK bA K(1) False by (simp add: t_def)
        qed
        then show ?thesis by (meson min.mono order_refl)
      qed (use x(4) in blast)
      moreover have "lookup_loop mb addr bitlen (Node a b p d l r) cs = Inr (x, (ds @ [cr]) @ cs)"
        using True br False x(1) by (auto simp: c_def cr_def split: if_splits)
      moreover have "Node a b p d l r = plug_all (ds @ [cr]) x"
        using x(2) by (simp add: cr_def c_def split: if_splits)
      ultimately show ?thesis using x(3) by blast
    qed
  qed
qed simp

section \<open>Insertion: what is put at the node the climb stops at\<close>

lemma branch_bit_Inr: "b < mb \<Longrightarrow> b < 8 * length addr \<Longrightarrow> branch_bit mb addr b = Inr (bits_of addr ! b)"
  by (simp add: branch_bit_def)

lemma wf_leaf: "wf_prefix pf \<Longrightarrow> pfx_bitlen pf \<le> m \<Longrightarrow> prefix L (pkey pf) \<Longrightarrow>
    wf_node m L (Node a (pfx_bitlen pf) (Some pf) d Null Null)"
  by auto

lemma prefix_snoc_nth: "n < length k \<Longrightarrow> take n k = K \<Longrightarrow> prefix (K @ [k ! n]) k"
  by (metis take_Suc_conv_app_nth take_is_prefix)

text \<open>
  The node the climb stops at shares \<open>df\<close> bits with the new key, all its keys share at most that,
  and its own bit is not below \<open>df\<close>. The entry is added, or found when it is there.
\<close>

definition ents :: "'d pnode \<Rightarrow> (nat \<times> prefix_t option \<times> 'd option) multiset" where
  "ents n = filter_mset (\<lambda>(a, p, d). p \<noteq> None) (cells n)"

abbreviation addrs :: "'d pnode \<Rightarrow> nat multiset" where
  "addrs n \<equiv> image_mset fst (cells n)"

definition inserted :: "prefix_t \<Rightarrow> nat \<Rightarrow> 'd pnode \<Rightarrow> 'd pnode \<Rightarrow> nat \<Rightarrow> nat \<Rightarrow> bool" where
  "inserted pf fresh n n' ptr k \<longleftrightarrow>
     (if pkey pf \<in> keys n then n' = n \<and> k = 0 \<and> (\<exists>q d. (ptr, Some q, d) \<in># cells n \<and> pkey q = pkey pf)
      else ents n' = add_mset (ptr, Some pf, None) (ents n) \<and> addrs n' = addrs n + mset [fresh..<fresh + k] \<and>
           ptr \<in># addrs n')"

lemma lookup_insert_spec:
  assumes wf: "wf_node m L (Node a b p d l r)" and L: "prefix L (pkey pf)" "length L \<le> df"
    and pf: "wf_prefix pf" "pfx_bitlen pf \<le> m" and mb: "m \<le> mb"
    and q: "wf_prefix q" "pkey q \<in> keys (Node a b p d l r)"
    and df: "df = lcp (pkey pf) (pkey q)" "df \<le> b" "\<forall>k\<in>keys (Node a b p d l r). lcp (pkey pf) k \<le> df"
  shows "\<exists>y ptr k. lookup_insert mb pf (pfx_add q) df fresh (Node a b p d l r) = Inr (y, ptr, k) \<and>
    wf_node m L y \<and> y \<noteq> Null \<and> inserted pf fresh (Node a b p d l r) y ptr k"
proof -
  let ?k = "pkey pf" and ?q = "pkey q" and ?n = "Node a b p d l r"
  obtain K where K: "length K = b" "prefix L K" "b \<le> m" "wf_node m (K @ [False]) l" "wf_node m (K @ [True]) r"
    "p = None \<Longrightarrow> l \<noteq> Null \<and> r \<noteq> Null \<and> d = None" "\<And>q. p = Some q \<Longrightarrow> wf_prefix q \<and> pkey q = K"
    "\<And>k. k \<in> keys l \<Longrightarrow> prefix (K @ [False]) k" "\<And>k. k \<in> keys r \<Longrightarrow> prefix (K @ [True]) k"
    "\<And>k. k \<in> keys ?n \<Longrightarrow> prefix K k"
    using wf by (elim wf_Node_label) blast
  have wfK: "wf_node m K ?n" using wf K by (auto split: option.splits)
  have lk: "length ?k = pfx_bitlen pf" using pf by simp
  have dfk: "df \<le> length ?k" using df(1) lcp_le by metis
  have Kq: "prefix K ?q" using K(10) q(2) .
  have tk: "take df ?k = take df K"
    using df(1,2) K(1) Kq lcp_le(3) [of ?k ?q] by (auto simp: prefix_def)
  have kb: "?k ! i = bits_of (pfx_add pf) ! i" "i < 8 * length (pfx_add pf)" if "i < length ?k" for i
    using that pf by (auto simp: pkey_def wf_prefix_def)
  consider (found) "df = pfx_bitlen pf" "b = pfx_bitlen pf"
    | (child) "b = df" "df < pfx_bitlen pf"
    | (parent) "df = pfx_bitlen pf" "df < b"
    | (glue) "df < pfx_bitlen pf" "df < b"
    using dfk df(2) lk by linarith
  then show ?thesis
  proof cases
    case found
    then have kK: "?k = K" using tk lk K(1) by simp
    show ?thesis
    proof (cases p)
      case (Some z)
      then have "pkey z = ?k" using K(7) kK by simp
      with Some found wf show ?thesis by (auto simp: lookup_insert_def inserted_def)
    next
      case None
      have nk: "?k \<notin> keys ?n"
        using None K(8) [of ?k] K(9) [of ?k] kK by (auto dest: prefix_length_le)
      have "lookup_insert mb pf (pfx_add q) df fresh ?n = Inr (Node a b (Some pf) d l r, a, 0)"
        using None found K(6) by (simp add: lookup_insert_def)
      moreover have "wf_node m L (Node a b (Some pf) d l r)"
        using K pf kK found by auto
      ultimately show ?thesis using None nk K(6) by (auto simp: inserted_def ents_def)
    qed
  next
    case child
    have kK: "take b ?k = K" using tk child K(1) by simp
    have bk: "b < length ?k" using child lk by simp
    have side: "prefix (K @ [?k ! b]) ?k" using prefix_snoc_nth [OF bk kK] .
    have none: "(if ?k ! b then r else l) = Null"
    proof (rule ccontr)
      assume ne: "(if ?k ! b then r else l) \<noteq> Null"
      have "wf_node m (K @ [?k ! b]) (if ?k ! b then r else l)" using K(4,5) by auto
      then obtain k' where k': "k' \<in> keys (if ?k ! b then r else l)"
        using ne wf_node_keys_nonempty by blast
      then have "prefix (K @ [?k ! b]) k'" "k' \<in> keys ?n"
        using K(8,9) by (auto simp: keys_Node split: if_splits)
      moreover have "\<not> lcp ?k K < length K"
        using kK K(1) bk by (simp add: lcp_iff linorder_not_less)
      ultimately have "Suc (length K) \<le> lcp ?k k'" using lcp_same_side [of K ?k k'] K(1) bk by simp
      with df(3) \<open>k' \<in> keys ?n\<close> child K(1) show False by fastforce
    qed
    have nk: "?k \<notin> keys ?n"
    proof
      assume "?k \<in> keys ?n"
      then have "lcp ?k ?k \<le> df" using df(3) by blast
      moreover have "length ?k \<le> lcp ?k ?k" by (simp add: lcp_iff)
      ultimately show False using bk child by simp
    qed
    have br: "branch_bit mb (pfx_add pf) b = Inr (?k ! b)"
      using kb [OF bk] bk lk pf(2) mb by (simp add: branch_bit_Inr)
    let ?new = "Node fresh (pfx_bitlen pf) (Some pf) None Null Null"
    have leaf: "wf_node m (K @ [?k ! b]) ?new" using pf side by auto
    show ?thesis
    proof (cases "?k ! b")
      case True
      have "lookup_insert mb pf (pfx_add q) df fresh ?n = Inr (Node a b p d l ?new, fresh, 1)"
        using True none br child by (simp add: lookup_insert_def)
      moreover have "wf_node m L (Node a b p d l ?new)"
        using K leaf True none by (auto split: option.splits)
      ultimately show ?thesis using nk True none by (auto simp: inserted_def ents_def)
    next
      case False
      have "lookup_insert mb pf (pfx_add q) df fresh ?n = Inr (Node a b p d ?new r, fresh, 1)"
        using False none br child by (simp add: lookup_insert_def)
      moreover have "wf_node m L (Node a b p d ?new r)"
        using K leaf False none by (auto split: option.splits)
      ultimately show ?thesis using nk False none by (auto simp: inserted_def ents_def)
    qed
  next
    case parent
    have kK: "?k = take df K" using tk parent lk by simp
    have dK: "df < length K" using parent K(1) by simp
    have nk: "?k \<notin> keys ?n"
      using K(1) K(10) [of ?k, THEN prefix_length_le] parent lk by auto
    have dq: "df < length ?q" using dK prefix_length_le [OF Kq] by simp
    have "?q ! df = K ! df" using Kq dK by (auto simp: prefix_def nth_append)
    moreover have "df < 8 * length (pfx_add q)" "?q ! df = bits_of (pfx_add q) ! df"
      using dq q(1) by (auto simp: pkey_def wf_prefix_def)
    ultimately have br: "branch_bit mb (pfx_add q) (pfx_bitlen pf) = Inr (K ! df)"
      using parent K(3) mb by (simp add: branch_bit_Inr)
    have "prefix (?k @ [K ! df]) K" using prefix_snoc_nth [OF dK] kK by simp
    then have sub: "wf_node m (?k @ [K ! df]) ?n" using wfK by (rule wf_node_weaken [rotated])
    let ?y = "if K ! df then Node fresh (pfx_bitlen pf) (Some pf) None Null ?n
              else Node fresh (pfx_bitlen pf) (Some pf) None ?n Null"
    have "lookup_insert mb pf (pfx_add q) df fresh ?n = Inr (?y, fresh, 1)"
      using br parent by (simp add: lookup_insert_def)
    moreover have "wf_node m L ?y"
      using sub L pf by (cases "K ! df") auto
    ultimately show ?thesis using nk by (auto simp: inserted_def ents_def)
  next
    case glue
    have dk: "df < length ?k" "df < length K" using glue lk K(1) by simp_all
    have dq: "df < length ?q" using dk(2) prefix_length_le [OF Kq] by simp
    have qK: "?q ! df = K ! df" using Kq dk by (auto simp: prefix_def nth_append)
    have neq: "?k ! df \<noteq> K ! df"
    proof
      assume "?k ! df = K ! df"
      with qK have "take (Suc df) ?k = take (Suc df) ?q"
        using dk dq df(1) lcp_le(3) [of ?k ?q] by (simp add: take_Suc_conv_app_nth)
      then have "Suc df \<le> lcp ?k ?q" using dk dq by (simp add: lcp_iff)
      with df(1) show False by simp
    qed
    have nk: "?k \<notin> keys ?n"
    proof
      assume "?k \<in> keys ?n"
      then have "prefix K ?k" by (rule K(10))
      then show False using neq dk(2) by (auto simp: prefix_def nth_append)
    qed
    let ?G = "take df ?k" and ?new = "Node fresh (pfx_bitlen pf) (Some pf) None Null Null"
    have "prefix (?G @ [?k ! df]) ?k" using prefix_snoc_nth [OF dk(1)] by simp
    then have leaf: "wf_node m (?G @ [?k ! df]) ?new" using pf by auto
    have "prefix (?G @ [K ! df]) K" using prefix_snoc_nth [OF dk(2)] tk by simp
    then have sub: "wf_node m (?G @ [K ! df]) ?n" using wfK by (rule wf_node_weaken [rotated])
    have br: "branch_bit mb (pfx_add pf) df = Inr (?k ! df)"
      using kb [OF dk(1)] dk lk pf(2) mb by (simp add: branch_bit_Inr)
    have LG: "prefix L ?G" using L by (auto simp: prefix_def)
    let ?y = "if ?k ! df then Node (fresh + 1) df None None ?n ?new else Node (fresh + 1) df None None ?new ?n"
    have "lookup_insert mb pf (pfx_add q) df fresh ?n = Inr (?y, fresh, 2)"
      using br glue by (simp add: lookup_insert_def)
    moreover have "wf_node m L ?y"
      using sub leaf LG dk glue K(3) neq
      by (cases "?k ! df") (auto intro!: exI [of _ ?G] simp del: wf_node.simps(2) simp: wf_node.simps(2) [of _ _ _ df])
    ultimately show ?thesis using nk by (auto simp: inserted_def ents_def numeral_2_eq_2 simp del: mset_upt)
  qed
qed

section \<open>Insertion on trees\<close>

text \<open>
  The invariant of a tree: \<open>w\<close> bounds the bit lengths stored in it (32 while only IPv4 prefixes
  are stored), addresses are distinct and below the allocator's, and the node count is right.
\<close>

definition tree_inv :: "nat \<Rightarrow> 'd patricia_tree \<Rightarrow> bool" where
  "tree_inv w T \<longleftrightarrow> w \<le> maxbits T \<and> maxbits T \<le> PATRICIA_MAXBITS \<and> wf_node w [] (head T) \<and>
     (\<forall>a. count (addrs (head T)) a \<le> 1) \<and> (\<forall>a\<in>#addrs (head T). a < next_addr T) \<and>
     num_active_node T = int (size (cells (head T)))"

lemmas tree_invI = tree_inv_def [THEN iffD2, OF conjI, OF _ conjI, OF _ _ conjI, OF _ _ _ conjI, OF _ _ _ _ conjI]

lemma tree_invD:
  assumes "tree_inv w T"
  shows "w \<le> maxbits T" "maxbits T \<le> PATRICIA_MAXBITS" "wf_node w [] (head T)"
    "\<forall>a. count (addrs (head T)) a \<le> 1" "\<forall>a\<in>#addrs (head T). a < next_addr T"
    "num_active_node T = int (size (cells (head T)))"
  using assms unfolding tree_inv_def by blast+

text \<open>What an insertion does to a tree, seen from outside.\<close>

definition tree_inserted :: "prefix_t \<Rightarrow> 'd patricia_tree \<Rightarrow> 'd patricia_tree \<Rightarrow> nat \<Rightarrow> bool" where
  "tree_inserted pf T T' ptr \<longleftrightarrow>
     (if pkey pf \<in> keys (head T)
      then T' = T \<and> (\<exists>q d. (ptr, Some q, d) \<in># cells (head T) \<and> pkey q = pkey pf)
      else ents (head T') = add_mset (ptr, Some pf, None) (ents (head T)))"

lemma size_cells_addrs: "size (cells n) = size (addrs n)"
  by simp

lemma count_fresh:
  assumes "\<forall>a. count M a \<le> 1" "\<forall>a\<in>#M. a < f"
  shows "\<forall>a. count (M + mset [f..<f + k]) a \<le> 1" "\<forall>a\<in>#M + mset [f..<f + k]. a < f + k"
proof -
  show "\<forall>a. count (M + mset [f..<f + k]) a \<le> 1"
  proof
    fix a
    show "count (M + mset [f..<f + k]) a \<le> 1"
    proof (cases "a < f")
      case True
      then have "count (mset [f..<f + k]) a = 0" by (simp add: count_mset count_list_0_iff)
      with assms(1) show ?thesis by simp
    next
      case False
      then have "count M a = 0" using assms(2) by (meson count_inI)
      moreover have "count (mset [f..<f + k]) a \<le> 1" 
        using distinct_upt [of f "f + k"] unfolding distinct_count_atmost_1 by auto
      ultimately show ?thesis by simp
    qed
  qed
qed (use assms in auto)

lemma tree_inserted_ctx:
  assumes "inserted pf f y y' ptr k" "pkey pf \<in> keys (plug_all cs y) \<Longrightarrow> pkey pf \<in> keys y"
  shows "if pkey pf \<in> keys (plug_all cs y)
    then y' = y \<and> k = 0 \<and> (\<exists>q d. (ptr, Some q, d) \<in># cells (plug_all cs y) \<and> pkey q = pkey pf)
    else ents (plug_all cs y') = add_mset (ptr, Some pf, None) (ents (plug_all cs y))"
    and "addrs (plug_all cs y') = addrs (plug_all cs y) + mset [f..<f + k]"
proof -
  have "pkey pf \<in> keys (plug_all cs y) \<longleftrightarrow> pkey pf \<in> keys y"
    using assms(2) keys_plug_all by blast
  then show "if pkey pf \<in> keys (plug_all cs y)
    then y' = y \<and> k = 0 \<and> (\<exists>q d. (ptr, Some q, d) \<in># cells (plug_all cs y) \<and> pkey q = pkey pf)
    else ents (plug_all cs y') = add_mset (ptr, Some pf, None) (ents (plug_all cs y))"
    using assms(1) by (auto simp: inserted_def ents_def cells_plug_all split: if_splits)
  show "addrs (plug_all cs y') = addrs (plug_all cs y) + mset [f..<f + k]"
    using assms(1) by (auto simp: inserted_def cells_plug_all split: if_splits)
qed

lemma patricia_lookup_spec:
  assumes inv: "tree_inv w T" and pf: "wf_prefix pf" "pfx_bitlen pf \<le> w" "w \<le> 8 * length (pfx_add pf)"
  shows "\<exists>T' ptr. patricia_lookup T (Some pf) = Inr (T', ptr) \<and> tree_inv w T' \<and> maxbits T' = maxbits T \<and>
    tree_inserted pf T T' ptr"
proof (cases "head T = Null")
  case True
  have "patricia_lookup T (Some pf) = Inr (T\<lparr>head := Node (next_addr T) (pfx_bitlen pf) (Some pf) None Null Null,
      num_active_node := num_active_node T + 1, next_addr := next_addr T + 1\<rparr>, next_addr T)"
    using True inv pf by (simp add: patricia_lookup_def tree_inv_def)
  with True inv pf show ?thesis
    by (auto simp: tree_inv_def tree_inserted_def ents_def)
next
  case False
  let ?A = "bits_of (pfx_add pf)" and ?k = "pkey pf" and ?mb = "maxbits T" and ?f = "next_addr T"
  have I: "w \<le> ?mb" "wf_node w [] (head T)" using inv by (simp_all add: tree_inv_def)
  have lk: "length ?k = pfx_bitlen pf" using pf by simp
  obtain x ds a b q d l r where x: "lookup_loop ?mb (pfx_add pf) (pfx_bitlen pf) (head T) [] = Inr (x, ds)"
      "head T = plug_all ds x" "x = Node a b (Some q) d l r"
      "\<forall>k\<in>keys (head T). min (pfx_bitlen pf) (lcp ?A k) \<le> min (pfx_bitlen pf) (lcp ?A (pkey q))"
    using lookup_loop_spec [OF I(2) False pf(3,2) I(1), of "[]"] by auto
  have qc: "(a, Some q, d) \<in># cells (head T)" by (simp add: x(2,3) cells_plug_all)
  have q: "wf_prefix q" "pfx_bitlen q = b"
  proof -
    show "wf_prefix q" by (rule keys_wf_prefix [OF I(2) qc])
    obtain L where "wf_node w L x" using wf_plug_all [of w "[]" ds x] I(2) x(2) by auto
    then show "pfx_bitlen q = b" unfolding x(3) by (elim wf_Node_label) blast
  qed
  have lcpk: "lcp ?k k = min (pfx_bitlen pf) (lcp ?A k)" for k
    using lcp_take_min [of "pfx_bitlen pf" ?A "length k" k] pf(1) lcp_le(2) [of ?A k]
    by (simp add: pkey_def wf_prefix_def)
  define df where "df = lcp ?k (pkey q)"
  have dfle: "df \<le> b" "df \<le> pfx_bitlen pf" using lcp_le [of ?k "pkey q"] q lk by (simp_all add: df_def)
  have diff: "differ_bit (pfx_add pf) (pfx_add q) (min b (pfx_bitlen pf)) = Inr df"
  proof -
    have "differ_bit (pfx_add pf) (pfx_add q) (min b (pfx_bitlen pf)) =
        Inr (min (min b (pfx_bitlen pf)) (lcp ?A (bits_of (pfx_add q))))"
      using pf q by (intro differ_bit_Inr) (auto simp: wf_prefix_def)
    also have "min (min b (pfx_bitlen pf)) (lcp ?A (bits_of (pfx_add q))) = df"
      using lcp_take_min [of "pfx_bitlen pf" ?A "pfx_bitlen q" "bits_of (pfx_add q)"] pf(1) q
      by (simp add: df_def pkey_def wf_prefix_def min.commute min.left_commute)
    finally show ?thesis .
  qed
  obtain ds1 ds2 where cl: "ds = ds1 @ ds2" "climb df x ds = (plug_all ds1 x, ds2)"
      "\<forall>c\<in>set ds1. df \<le> c_bit c" "ds2 \<noteq> [] \<longrightarrow> c_bit (hd ds2) < df"
    using climb_spec by blast
  define y where "y = plug_all ds1 x"
  have hd: "head T = plug_all ds2 y" using x(2) cl(1) by (simp add: y_def)
  have yb: "df \<le> node_bit y"
    using cl(3) dfle x(3) by (cases "ds1 = []") (auto simp: y_def node_bit_plug_all)
  have qy: "pkey q \<in> keys y" unfolding y_def by (rule keys_plug_all) (simp add: x(3))
  obtain L where L: "wf_node w L y" "ds2 = [] \<longrightarrow> L = []" "ds2 \<noteq> [] \<longrightarrow> length L = Suc (c_bit (hd ds2))"
      "\<And>y'. y' \<noteq> Null \<Longrightarrow> wf_node w L y' \<Longrightarrow> wf_node w [] (plug_all ds2 y')"
      "\<And>k. k \<in> keys (plug_all ds2 y) \<Longrightarrow> prefix L k \<Longrightarrow> k \<in> keys y"
    using wf_plug_all [of w "[]" ds2 y] I(2) hd by auto
  have Ldf: "length L \<le> df" using L(2,3) cl(4) by (cases "ds2 = []") auto
  have "prefix L (pkey q)" using L(1) qy by (rule wf_node_prefix)
  then have Lk: "prefix L ?k"
    using Ldf lcp_take_le [of "length L" ?k "pkey q"] by (metis df_def prefix_def append_eq_conv_conj take_is_prefix)
  obtain a' b' p' d' l' r' where y: "y = Node a' b' p' d' l' r'"
    using x(3) by (cases y) (auto simp: y_def plug_all_Null)
  have ky: "\<forall>k\<in>keys y. lcp ?k k \<le> df"
    using x(4) hd keys_plug_all [of _ y ds2] by (auto simp: lcpk df_def)
  obtain y' ptr n where ins: "lookup_insert ?mb pf (pfx_add q) df ?f y = Inr (y', ptr, n)" "wf_node w L y'" "y' \<noteq> Null"
      "inserted pf ?f y y' ptr n"
    using lookup_insert_spec [of w L a' b' p' d' l' r' pf df ?mb q ?f] L(1) Lk Ldf pf I(1) q(1) qy df_def yb ky
    unfolding y by auto
  have low: "?k \<in> keys y" if "?k \<in> keys (plug_all ds2 y)" using L(5) that Lk by blast
  note ctx = tree_inserted_ctx [of pf ?f y y' ptr n ds2, OF ins(4) low, folded hd]
  let ?T = "T\<lparr>head := plug_all ds2 y', num_active_node := num_active_node T + int n, next_addr := ?f + n\<rparr>"
  have run: "patricia_lookup T (Some pf) = Inr (?T, ptr)"
    using inv pf False x(1,3) diff cl(2) ins(1) by (simp add: patricia_lookup_def tree_inv_def y_def)
  have "tree_inv w ?T"
  proof (rule tree_invI)
    have "addrs (head ?T) = addrs (head T) + mset [?f..<?f + n]" using ctx(2) by simp
    then show "\<forall>a. count (addrs (head ?T)) a \<le> 1" "\<forall>a\<in>#addrs (head ?T). a < next_addr ?T"
      using count_fresh [OF tree_invD(4,5) [OF inv], of n] by simp_all
    show "num_active_node ?T = int (size (cells (head ?T)))"
      using arg_cong [where f = size, OF ctx(2)] tree_invD(6) [OF inv] by simp
  qed (use tree_invD [OF inv] L(4) [OF ins(3,2)] in simp_all)
  moreover have "tree_inserted pf T ?T ptr"
    using ctx(1) hd by (auto simp: tree_inserted_def split: if_splits)
  ultimately show ?thesis using run by auto
qed

end
