(* ===== verification/Patricia_Search.thy ===== *)
theory Patricia_Search
  imports Patricia_Correct
begin

text \<open>
  Searching, removing and walking: each operation of the trie against the multiset of entries it
  holds. The search stack of \<open>PATRICIA_MAXBITS + 1\<close> entries is shown never to overflow, and no
  byte outside an address is read.
\<close>

section \<open>The subtree of a length and an address\<close>

lemma search_exact_loop_spec:
  assumes "wf_node m L n" "bitlen \<le> 8 * length addr"
  shows "\<exists>x L'. search_exact_loop addr bitlen n = Inr x \<and> wf_node m L' x \<and> set_mset (cells x) \<subseteq> set_mset (cells n) \<and>
    (x \<noteq> Null \<longrightarrow> bitlen \<le> node_bit x) \<and>
    (\<forall>k\<in>keys n. bitlen \<le> length k \<longrightarrow> take bitlen k = take bitlen (bits_of addr) \<longrightarrow> k \<in> keys x)"
  using assms
proof (induction n arbitrary: L)
  case (Node a b p d l r)
  let ?A = "bits_of addr"
  obtain K where K: "length K = b" "wf_node m (K @ [False]) l" "wf_node m (K @ [True]) r"
    "\<And>q. p = Some q \<Longrightarrow> pkey q = K"
    "\<And>k. k \<in> keys l \<Longrightarrow> prefix (K @ [False]) k" "\<And>k. k \<in> keys r \<Longrightarrow> prefix (K @ [True]) k"
    using Node.prems(1) by (elim wf_Node_label) blast
  show ?case
  proof (cases "b < bitlen")
    case False
    with Node.prems show ?thesis by (intro exI [of _ "Node a b p d l r"] exI [of _ L]) auto
  next
    case True
    then have t: "test_bit addr b = Inr (?A ! b)" using Node.prems(2) by simp
    define c where "c = (if ?A ! b then r else l)"
    have "\<exists>x L'. search_exact_loop addr bitlen c = Inr x \<and> wf_node m L' x \<and> set_mset (cells x) \<subseteq> set_mset (cells c) \<and>
        (x \<noteq> Null \<longrightarrow> bitlen \<le> node_bit x) \<and>
        (\<forall>k\<in>keys c. bitlen \<le> length k \<longrightarrow> take bitlen k = take bitlen ?A \<longrightarrow> k \<in> keys x)"
      using Node.IH(1) [OF K(2) Node.prems(2)] Node.IH(2) [OF K(3) Node.prems(2)] by (simp add: c_def)
    then obtain x L' where x: "search_exact_loop addr bitlen c = Inr x" "wf_node m L' x" "set_mset (cells x) \<subseteq> set_mset (cells c)"
        "x \<noteq> Null \<longrightarrow> bitlen \<le> node_bit x"
        "\<And>k. k \<in> keys c \<Longrightarrow> bitlen \<le> length k \<Longrightarrow> take bitlen k = take bitlen ?A \<Longrightarrow> k \<in> keys x"
      by blast
    have "k \<in> keys x" if k: "k \<in> keys (Node a b p d l r)" "bitlen \<le> length k" "take bitlen k = take bitlen ?A" for k
    proof -
      have kb: "k ! b = ?A ! b" using k(2,3) True by (metis nth_take)
      have "k \<noteq> K" using k(2) True K(1) by auto
      then have "k \<in> keys l \<or> k \<in> keys r" using k(1) K(4) by (auto simp: keys_Node split: option.splits)
      moreover have "k ! b = s" if "prefix (K @ [s]) k" for s using that K(1) by (auto simp: prefix_def nth_append)
      ultimately have "k \<in> keys c" using K(5,6) kb by (auto simp: c_def)
      then show ?thesis using k x(5) by blast
    qed
    moreover have "set_mset (cells x) \<subseteq> set_mset (cells (Node a b p d l r))"
      using x(3) by (auto simp: c_def split: if_splits)
    ultimately show ?thesis using True t x(1,2,4) by (intro exI [of _ x] exI [of _ L']) (auto simp: c_def split: if_splits)
  qed
qed auto

text \<open>The result of a search: a null pointer, or a node with an entry of the tree.\<close>

fun node_entry :: "'d pnode \<Rightarrow> (nat \<times> prefix_t \<times> 'd option) option" where
  "node_entry (Node a b (Some q) d l r) = Some (a, q, d)"
| "node_entry n = None"

lemma node_entry_cells: "node_entry n = Some (a, q, d) \<Longrightarrow> (a, Some q, d) \<in># cells n"
  by (cases n rule: node_entry.cases) auto

definition found_exact :: "bool list \<Rightarrow> 'd pnode \<Rightarrow> 'd pnode \<Rightarrow> bool" where
  "found_exact k n x \<longleftrightarrow>
     (if k \<in> keys n then \<exists>a q d. node_entry x = Some (a, q, d) \<and> (a, Some q, d) \<in># cells n \<and> pkey q = k
      else x = Null)"

lemma wf_root_key:
  assumes "wf_node m L (Node a b p d l r)" "k \<in> keys (Node a b p d l r)" "length k \<le> b"
  shows "\<exists>q. p = Some q \<and> pkey q = k"
proof -
  obtain K where K: "length K = b" "\<And>k. k \<in> keys l \<Longrightarrow> prefix (K @ [False]) k" "\<And>k. k \<in> keys r \<Longrightarrow> prefix (K @ [True]) k"
    using assms(1) by (elim wf_Node_label) blast
  have "k \<notin> keys l \<union> keys r" using K(1) K(2,3) [of k, THEN prefix_length_le] assms(3) by auto
  then show ?thesis using assms(2) unfolding keys_Node by (cases p) auto
qed

lemma patricia_search_exact_spec:
  assumes inv: "tree_inv w T" and pf: "wf_prefix pf" "pfx_bitlen pf \<le> maxbits T"
  shows "\<exists>x. patricia_search_exact T (Some pf) = Inr x \<and> found_exact (pkey pf) (head T) x"
proof -
  let ?k = "pkey pf"
  have len: "pfx_bitlen pf \<le> 8 * length (pfx_add pf)" using pf(1) by (simp add: wf_prefix_def)
  obtain x L where x: "search_exact_loop (pfx_add pf) (pfx_bitlen pf) (head T) = Inr x" "wf_node w L x"
      "set_mset (cells x) \<subseteq> set_mset (cells (head T))" "x \<noteq> Null \<longrightarrow> pfx_bitlen pf \<le> node_bit x"
      and all: "\<forall>k\<in>keys (head T). pfx_bitlen pf \<le> length k \<longrightarrow>
        take (pfx_bitlen pf) k = take (pfx_bitlen pf) (bits_of (pfx_add pf)) \<longrightarrow> k \<in> keys x"
    using search_exact_loop_spec [OF tree_invD(3) [OF inv] len] by blast
  have sub: "?k \<in> keys x" if "?k \<in> keys (head T)"
    using bspec [OF all that] pf(1) length_pkey [OF pf(1)] by (simp add: pkey_def)
  show ?thesis
  proof (cases x)
    case Null
    then show ?thesis using x(1) sub pf by (auto simp: patricia_search_exact_def found_exact_def)
  next
    case (Node a b p d l r)
    obtain K where K: "length K = b" "\<And>q. p = Some q \<Longrightarrow> wf_prefix q \<and> pkey q = K \<and> pfx_bitlen q = b"
      using x(2) unfolding Node by (elim wf_Node_label) blast
    have le: "pfx_bitlen pf \<le> b" using x(4) Node by simp
    have root: "\<exists>q. p = Some q \<and> pkey q = ?k" if "?k \<in> keys (head T)"
      using sub [OF that] x(2) le length_pkey [OF pf(1)] unfolding Node by (intro wf_root_key) auto
    show ?thesis
    proof (cases p)
      case None
      then show ?thesis using root x(1) Node pf by (auto simp: patricia_search_exact_def found_exact_def)
    next
      case (Some q)
      have q: "wf_prefix q" "pkey q = K" "pfx_bitlen q = b" using K(2) Some by auto
      have cmp: "comp_with_mask (pfx_add q) (pfx_add pf) (pfx_bitlen pf) = Inr (K = ?k)" if "b = pfx_bitlen pf"
        using that q pf by (subst comp_with_mask_Inr) (auto simp: wf_prefix_def pkey_def)
      have inn: "(a, Some q, d) \<in># cells (head T)" using x(3) Node Some by auto
      have "patricia_search_exact T (Some pf) = Inr (if b = pfx_bitlen pf \<and> K = ?k then x else Null)"
        using x(1) Node Some q le cmp pf by (auto simp: patricia_search_exact_def)
      moreover have "b = pfx_bitlen pf \<and> K = ?k" if "?k \<in> keys (head T)"
        using root [OF that] Some q K(1) length_pkey [OF pf(1)] by auto
      ultimately show ?thesis
        using inn keysI [OF inn] q Node Some by (auto simp: found_exact_def)
    qed
  qed
qed

section \<open>Longest prefix match\<close>

text \<open>
  The stack of a best-match search holds nodes of the tree that carry a prefix, the longest on
  top; \<open>stack_ok\<close> says so for the part of the tree below \<open>n\<close>.
\<close>

definition stack_ok :: "'d pnode \<Rightarrow> 'd pnode list \<Rightarrow> bool" where
  "stack_ok n st \<longleftrightarrow>
     (\<forall>x\<in>set st. \<exists>a q d. node_entry x = Some (a, q, d) \<and> (a, Some q, d) \<in># cells n \<and> pfx_bitlen q = node_bit x) \<and>
     sorted_wrt (\<lambda>x y. node_bit y < node_bit x) st"

lemma search_best_loop_spec:
  assumes "wf_node m L n" "bitlen \<le> 8 * length addr" "bitlen \<le> PATRICIA_MAXBITS" "length st \<le> length L"
    and "length L \<le> bitlen"
  shows "\<exists>x L' st'. search_best_loop addr bitlen n st = Inr (x, st' @ st) \<and> wf_node m L' x \<and>
    set_mset (cells x) \<subseteq> set_mset (cells n) \<and> (x \<noteq> Null \<longrightarrow> bitlen \<le> node_bit x) \<and>
    stack_ok n st' \<and> (\<forall>y\<in>set st'. length L \<le> node_bit y \<and> node_bit y < bitlen) \<and>
    length (st' @ st) \<le> bitlen \<and>
    (\<forall>k\<in>keys n. prefix k (bits_of addr) \<longrightarrow>
       k \<in> keys x \<or> (\<exists>y\<in>set st'. \<exists>a q d. node_entry y = Some (a, q, d) \<and> pkey q = k))"
  using assms
proof (induction n arbitrary: L st)
  case (Node a b p d l r)
  let ?A = "bits_of addr" and ?n = "Node a b p d l r"
  obtain K where K: "length K = b" "prefix L K" "wf_node m (K @ [False]) l" "wf_node m (K @ [True]) r"
    "\<And>q. p = Some q \<Longrightarrow> wf_prefix q \<and> pkey q = K \<and> pfx_bitlen q = b"
    "\<And>k. k \<in> keys l \<Longrightarrow> prefix (K @ [False]) k" "\<And>k. k \<in> keys r \<Longrightarrow> prefix (K @ [True]) k"
    using Node.prems(1) by (elim wf_Node_label) blast
  have Lb: "length L \<le> b" using prefix_length_le [OF K(2)] K(1) by simp
  show ?case
  proof (cases "b < bitlen")
    case False
    then show ?thesis using Node.prems
      by (intro exI [of _ ?n] exI [of _ L] exI [of _ "[]"]) (auto simp: stack_ok_def)
  next
    case True
    have t: "test_bit addr b = Inr (?A ! b)" using True Node.prems(2) by simp
    define c where "c = (if ?A ! b then r else l)"
    define here where "here = (if p = None then [] else [?n])"
    have push: "(if p \<noteq> None then push_stack ?n st else Inr st) = Inr (here @ st)"
      using Node.prems(3,4) Lb True by (simp add: push_stack_def here_def)
    have run: "search_best_loop addr bitlen ?n st = search_best_loop addr bitlen c (here @ st)"
      using True t push by (simp add: c_def)
    have wfc: "wf_node m (K @ [?A ! b]) c" using K(3,4) by (simp add: c_def)
    have "length (here @ st) \<le> length (K @ [?A ! b])" "length (K @ [?A ! b]) \<le> bitlen"
      using Node.prems(4) Lb K(1) True by (simp_all add: here_def)
    with Node.IH wfc Node.prems(2,3) have "\<exists>x L' st'. search_best_loop addr bitlen c (here @ st) = Inr (x, st' @ here @ st) \<and>
        wf_node m L' x \<and> set_mset (cells x) \<subseteq> set_mset (cells c) \<and> (x \<noteq> Null \<longrightarrow> bitlen \<le> node_bit x) \<and>
        stack_ok c st' \<and> (\<forall>y\<in>set st'. length (K @ [?A ! b]) \<le> node_bit y \<and> node_bit y < bitlen) \<and>
        length (st' @ here @ st) \<le> bitlen \<and>
        (\<forall>k\<in>keys c. prefix k ?A \<longrightarrow>
          k \<in> keys x \<or> (\<exists>y\<in>set st'. \<exists>a q d. node_entry y = Some (a, q, d) \<and> pkey q = k))"
      unfolding c_def by (cases "?A ! b") (simp_all only: if_True if_False)
    then obtain x L' st' where x: "search_best_loop addr bitlen c (here @ st) = Inr (x, st' @ here @ st)"
        "wf_node m L' x" "set_mset (cells x) \<subseteq> set_mset (cells c)" "x \<noteq> Null \<longrightarrow> bitlen \<le> node_bit x"
        "stack_ok c st'" "\<forall>y\<in>set st'. b < node_bit y \<and> node_bit y < bitlen"
        "length (st' @ here @ st) \<le> bitlen"
        "\<And>k. k \<in> keys c \<Longrightarrow> prefix k ?A \<Longrightarrow>
          k \<in> keys x \<or> (\<exists>y\<in>set st'. \<exists>a q d. node_entry y = Some (a, q, d) \<and> pkey q = k)"
      using K(1) by (auto simp: less_eq_Suc_le)
    have sub: "set_mset (cells c) \<subseteq> set_mset (cells ?n)" by (auto simp: c_def)
    have ok: "stack_ok ?n (st' @ here)"
      using x(5,6) sub K(5) unfolding stack_ok_def here_def
      by (auto simp: sorted_wrt_append) (blast | fastforce)+
    have "k \<in> keys x \<or> (\<exists>y\<in>set (st' @ here). \<exists>a q d. node_entry y = Some (a, q, d) \<and> pkey q = k)"
      if k: "k \<in> keys ?n" "prefix k ?A" for k
    proof (cases "k \<in> keys c")
      case True
      then show ?thesis using x(8) [OF True k(2)] unfolding set_append bex_Un by blast
    next
      case False
      have "k ! b = ?A ! b" if "b < length k" using k(2) that by (auto simp: prefix_def nth_append)
      moreover have "k ! b = s \<and> b < length k" if "prefix (K @ [s]) k" for s
        using that K(1) by (auto simp: prefix_def nth_append)
      ultimately have "k \<notin> keys l \<union> keys r" using False K(6,7) by (cases "?A ! b") (auto simp: c_def)
      then obtain q where "p = Some q" "pkey q = k" using k(1) by (auto simp: keys_Node split: option.splits)
      then show ?thesis by (auto simp: here_def)
    qed
    moreover have "\<forall>y\<in>set (st' @ here). length L \<le> node_bit y \<and> node_bit y < bitlen"
      using x(6) Lb True by (auto simp: here_def)
    ultimately show ?thesis
      using run x(1,2,3,4,7) ok sub by (intro exI [of _ x] exI [of _ L'] exI [of _ "st' @ here"]) auto
  qed
qed (auto simp: stack_ok_def)

text \<open>Popping the stack finds the topmost node whose prefix covers the address.\<close>

lemma search_best_pop_spec:
  assumes "\<forall>x\<in>set st. \<exists>a q d. node_entry x = Some (a, q, d) \<and> wf_prefix q \<and> pfx_bitlen q \<le> 8 * length (pfx_add pf)"
  shows "search_best_pop pf st = Inr (case find (\<lambda>x. \<exists>a q d. node_entry x = Some (a, q, d) \<and>
    prefix (pkey q) (bits_of (pfx_add pf))) st of None \<Rightarrow> Null | Some x \<Rightarrow> x)"
  using assms
proof (induction st)
  case (Cons x st)
  then obtain a q d where x: "node_entry x = Some (a, q, d)" "wf_prefix q" "pfx_bitlen q \<le> 8 * length (pfx_add pf)"
    by auto
  then obtain b l r where n: "x = Node a b (Some q) d l r" by (cases x rule: node_entry.cases) auto
  have "comp_with_mask (pfx_add q) (pfx_add pf) (pfx_bitlen q) = Inr (pkey q = take (pfx_bitlen q) (bits_of (pfx_add pf)))"
    using x by (simp add: comp_with_mask_Inr wf_prefix_def pkey_def)
  moreover have "pkey q = take (pfx_bitlen q) (bits_of (pfx_add pf)) \<longleftrightarrow> prefix (pkey q) (bits_of (pfx_add pf))"
    using length_pkey [OF x(2)] by (metis append_eq_conv_conj prefix_def take_is_prefix)
  ultimately show ?case using Cons n by simp
qed simp

text \<open>
  The answer of a best-match search: an entry whose prefix covers the address and is at least as
  long as every other entry that does, or a null pointer when there is none.
\<close>

definition longest_match :: "bool list \<Rightarrow> 'd pnode \<Rightarrow> 'd pnode \<Rightarrow> bool" where
  "longest_match A n x \<longleftrightarrow>
     (if \<exists>k\<in>keys n. prefix k A
      then \<exists>a q d. node_entry x = Some (a, q, d) \<and> (a, Some q, d) \<in># cells n \<and> prefix (pkey q) A \<and>
             (\<forall>k\<in>keys n. prefix k A \<longrightarrow> length k \<le> pfx_bitlen q)
      else x = Null)"

lemma find_sorted_best:
  assumes "stack_ok n st" "wf_node m [] n"
    "\<And>k. k \<in> keys n \<Longrightarrow> prefix k A \<Longrightarrow> \<exists>y\<in>set st. \<exists>a q d. node_entry y = Some (a, q, d) \<and> pkey q = k"
  shows "longest_match A n (case find (\<lambda>x. \<exists>a q d. node_entry x = Some (a, q, d) \<and> prefix (pkey q) A) st of
    None \<Rightarrow> Null | Some x \<Rightarrow> x)"
proof -
  let ?P = "\<lambda>x. \<exists>a q d. node_entry x = Some (a, q, d) \<and> prefix (pkey q) A"
  show ?thesis
  proof (cases "find ?P st")
    case None
    then have "\<not> (\<exists>k\<in>keys n. prefix k A)" using assms(3) unfolding find_None_iff by blast
    with None show ?thesis by (simp add: longest_match_def)
  next
    case (Some x)
    then obtain i where i: "i < length st" "?P (st ! i)" "x = st ! i" "\<And>j. j < i \<Longrightarrow> \<not> ?P (st ! j)"
      unfolding find_Some_iff by blast
    obtain a q d where x: "node_entry x = Some (a, q, d)" "(a, Some q, d) \<in># cells n" "pfx_bitlen q = node_bit x" "prefix (pkey q) A"
      using assms(1) i(1,2,3) nth_mem [OF i(1)] unfolding stack_ok_def by fastforce
    have "length k \<le> pfx_bitlen q" if k: "k \<in> keys n" "prefix k A" for k
    proof -
      obtain y a' q' d' where y: "y \<in> set st" "node_entry y = Some (a', q', d')" "pkey q' = k" using assms(3) k by blast
      then obtain j where j: "j < length st" "st ! j = y" by (auto simp: in_set_conv_nth)
      have "i \<le> j" using i(4) [of j] j y k(2) by (meson not_le)
      then have "node_bit y \<le> node_bit x"
        using assms(1) i(1,3) j by (cases "i = j") (auto simp: stack_ok_def sorted_wrt_iff_nth_less less_imp_le)
      moreover have "(a', Some q', d') \<in># cells n \<and> pfx_bitlen q' = node_bit y"
        using assms(1) y(1,2) unfolding stack_ok_def by fastforce
      moreover from this have "length k = pfx_bitlen q'" using keys_wf_prefix [OF assms(2)] y(3) length_pkey by blast
      ultimately show ?thesis using x(3) by simp
    qed
    with Some x show ?thesis unfolding longest_match_def by auto
  qed
qed

lemma patricia_search_best_spec:
  assumes inv: "tree_inv w T" and pf: "wf_prefix pf" "pfx_bitlen pf \<le> maxbits T"
    and short: "\<forall>k\<in>keys (head T). length k \<le> pfx_bitlen pf"
  shows "\<exists>x. patricia_search_best T (Some pf) = Inr x \<and> longest_match (bits_of (pfx_add pf)) (head T) x"
proof -
  let ?A = "bits_of (pfx_add pf)" and ?n = "head T"
  have len: "pfx_bitlen pf \<le> 8 * length (pfx_add pf)" using pf(1) by (simp add: wf_prefix_def)
  have max: "pfx_bitlen pf \<le> PATRICIA_MAXBITS" using pf(2) tree_invD(2) [OF inv] by simp
  have wf: "wf_node w [] ?n" using inv by (rule tree_invD)
  obtain x L st where x: "search_best_loop (pfx_add pf) (pfx_bitlen pf) ?n [] = Inr (x, st)" "wf_node w L x"
    "set_mset (cells x) \<subseteq> set_mset (cells ?n)" "x \<noteq> Null \<longrightarrow> pfx_bitlen pf \<le> node_bit x"
    "stack_ok ?n st" "\<forall>y\<in>set st. node_bit y < pfx_bitlen pf" "length st \<le> pfx_bitlen pf"
    "\<forall>k\<in>keys ?n. prefix k ?A \<longrightarrow> k \<in> keys x \<or> (\<exists>y\<in>set st. \<exists>a q d. node_entry y = Some (a, q, d) \<and> pkey q = k)"
    using search_best_loop_spec [OF wf len max, of "[]"] by auto
  define top where "top = (if x \<noteq> Null \<and> node_prefix x \<noteq> None then [x] else [])"
  have push: "(if True \<and> x \<noteq> Null \<and> node_prefix x \<noteq> None then push_stack x st else Inr st) = Inr (top @ st)"
    using x(7) max by (simp add: top_def push_stack_def)
  have x_root: "\<exists>a q d. top = [x] \<and> node_entry x = Some (a, q, d) \<and> pkey q = k" if k: "k \<in> keys x" for k
  proof -
    obtain a b p d l r where n: "x = Node a b p d l r" using k by (cases x) auto
    have "k \<in> keys ?n" using k x(3) by (auto simp: keys_def)
    then have "length k \<le> b" using short x(4) n by fastforce
    then show ?thesis using wf_root_key [of w L a b p d l r k] k x(2) n by (auto simp: top_def)
  qed
  have ok: "stack_ok ?n (top @ st)"
  proof (cases "top = []")
    case False
    then obtain a b q d l r where n: "top = [x]" "x = Node a b (Some q) d l r"
      by (cases x) (auto simp: top_def split: if_splits)
    have "pfx_bitlen q = b" using x(2) unfolding n(2) by (elim wf_Node_label) blast
    then show ?thesis using x(3-6) n unfolding stack_ok_def by auto
  qed (use x(5) in simp)
  have run: "patricia_search_best T (Some pf) = search_best_pop pf (top @ st)"
    using pf(2) x(1) push by (simp add: patricia_search_best_def patricia_search_best2_def)
  have cover: "\<exists>y\<in>set (top @ st). \<exists>a q d. node_entry y = Some (a, q, d) \<and> pkey q = k"
    if "k \<in> keys ?n" "prefix k ?A" for k
    using x(8) that x_root [of k] by fastforce
  have "\<exists>a q d. node_entry y = Some (a, q, d) \<and> wf_prefix q \<and> pfx_bitlen q \<le> 8 * length (pfx_add pf)"
    if y: "y \<in> set (top @ st)" for y
  proof -
    obtain a q d where q: "node_entry y = Some (a, q, d)" "(a, Some q, d) \<in># cells ?n"
      using ok y unfolding stack_ok_def by blast
    have "wf_prefix q" using keys_wf_prefix [OF wf q(2)] .
    moreover have "pfx_bitlen q \<le> pfx_bitlen pf" using short keysI [OF q(2)] length_pkey [OF calculation] by auto
    ultimately show ?thesis using q(1) len by auto
  qed
  with run search_best_pop_spec [of "top @ st" pf] find_sorted_best [OF ok wf cover] show ?thesis by simp
qed

section \<open>Removal\<close>

lemma locate_spec:
  "locate ptr n cs = None \<Longrightarrow> ptr \<notin># addrs n"
  "locate ptr n cs = Some (x, es) \<Longrightarrow> \<exists>ds b p d l r. es = ds @ cs \<and> n = plug_all ds x \<and> x = Node ptr b p d l r"
proof (induction n arbitrary: cs x es)
  case (Node a b p d l r)
  {
    case 1
    then show ?case using Node.IH by (auto split: if_splits option.splits)
  next
    case 2
    then consider "a = ptr" "x = Node a b p d l r" "es = cs"
      | "locate ptr l (Crumb a b p d False r # cs) = Some (x, es)"
      | "locate ptr r (Crumb a b p d True l # cs) = Some (x, es)"
      by (auto split: if_splits option.splits)
    then show ?case
    proof cases
      case 2
      then obtain ds b' p' d' l' r' where "es = ds @ Crumb a b p d False r # cs" "l = plug_all ds x" "x = Node ptr b' p' d' l' r'"
        using Node.IH(2) by blast
      then show ?thesis by (intro exI [of _ "ds @ [Crumb a b p d False r]"]) auto
    next
      case 3
      then obtain ds b' p' d' l' r' where "es = ds @ Crumb a b p d True l # cs" "r = plug_all ds x" "x = Node ptr b' p' d' l' r'"
        using Node.IH(4) by blast
      then show ?thesis by (intro exI [of _ "ds @ [Crumb a b p d True l]"]) auto
    qed auto
  }
qed auto

text \<open>Removing an entry leaves the others as they are and releases one or two nodes or none.\<close>

definition tree_removed :: "nat \<times> prefix_t option \<times> 'd option \<Rightarrow> 'd patricia_tree \<Rightarrow> 'd patricia_tree \<Rightarrow> bool" where
  "tree_removed e T T' \<longleftrightarrow> add_mset e (ents (head T')) = ents (head T) \<and> addrs (head T') \<subseteq># addrs (head T)"

lemma addrs_sub_inv:
  assumes "tree_inv w T" "wf_node w [] n" "addrs n \<subseteq># addrs (head T)"
  shows "tree_inv w (T\<lparr>head := n, num_active_node := int (size (cells n))\<rparr>)"
proof (rule tree_invI)
  show "\<forall>a. count (addrs (head (T\<lparr>head := n, num_active_node := int (size (cells n))\<rparr>))) a \<le> 1"
    using tree_invD(4) [OF assms(1)] assms(3) by (auto simp: subseteq_mset_def intro: order_trans)
  show "\<forall>a\<in>#addrs (head (T\<lparr>head := n, num_active_node := int (size (cells n))\<rparr>)).
      a < next_addr (T\<lparr>head := n, num_active_node := int (size (cells n))\<rparr>)"
  proof
    fix a
    assume "a \<in># addrs (head (T\<lparr>head := n, num_active_node := int (size (cells n))\<rparr>))"
    then have "a \<in># addrs (head T)" using mset_subset_eqD [OF assms(3)] by simp
    then show "a < next_addr (T\<lparr>head := n, num_active_node := int (size (cells n))\<rparr>)"
      using tree_invD(5) [OF assms(1)] by auto
  qed
qed (use tree_invD [OF assms(1)] assms in simp_all)

lemma addr_unique:
  assumes "tree_inv w T" "(a, p, d) \<in># cells (head T)" "(a, p', d') \<in># cells (head T)"
  shows "(a, p, d) = (a, p', d')"
proof (rule ccontr)
  assume ne: "(a, p, d) \<noteq> (a, p', d')"
  obtain M where M: "cells (head T) = add_mset (a, p, d) M" using assms(2) by (rule mset_add)
  with assms(3) ne obtain N where "M = add_mset (a, p', d') N" by (auto intro: mset_add)
  with M have "count (addrs (head T)) a = Suc (Suc (count (image_mset fst N) a))" by simp
  with tree_invD(4) [OF assms(1)] show False by (metis Suc_le_mono le_zero_eq nat.distinct(1) One_nat_def)
qed

lemma patricia_remove_cells:
  assumes wf: "wf_node w [] (head T)" and cnt: "num_active_node T = int (size (cells (head T)))"
    and x: "locate ptr (head T) [] = Some (Node ptr b (Some q) d l r, cs)" "head T = plug_all cs (Node ptr b (Some q) d l r)"
  shows "\<exists>n. patricia_remove T ptr = Inr (T\<lparr>head := n, num_active_node := int (size (cells n))\<rparr>) \<and> wf_node w [] n \<and>
    add_mset (ptr, Some q, d) (ents n) = ents (head T) \<and> addrs n \<subseteq># addrs (head T)"
proof -
  let ?x = "Node ptr b (Some q) d l r"
  obtain L where L: "wf_node w L ?x" "\<And>y. y \<noteq> Null \<or> cs = [] \<or> c_prefix (hd cs) \<noteq> None \<Longrightarrow> wf_node w L y \<Longrightarrow> wf_node w [] (plug_all cs y)"
    using wf_plug_all [of w "[]" cs ?x] wf x(2) by auto
  obtain K where K: "length K = b" "prefix L K" "b \<le> w" "wf_node w (K @ [False]) l" "wf_node w (K @ [True]) r"
    using L(1) by (elim wf_Node_label) blast
  have child: "wf_node w L l" "wf_node w L r" using K by (auto intro: wf_node_weaken prefix_prefix)
  have cells: "cells (head T) = ctx_cells cs + cells ?x" by (simp add: x(2) cells_plug_all)
  show ?thesis
  proof (cases "l = Null \<and> r = Null")
    case False
    define y where "y = (if l \<noteq> Null \<and> r \<noteq> Null then Node ptr b None None l r else if r \<noteq> Null then r else l)"
    have "wf_node w L (Node ptr b None None l r)" if "l \<noteq> Null \<and> r \<noteq> Null" using that K by auto
    then have "wf_node w L y" "y \<noteq> Null" using child False by (auto simp: y_def)
    then have "wf_node w [] (plug_all cs y)" using L(2) by blast
    moreover have "patricia_remove T ptr = Inr (T\<lparr>head := plug_all cs y, num_active_node := int (size (cells (plug_all cs y)))\<rparr>)"
      using False x(1) cnt by (auto simp: patricia_remove_def y_def cells cells_plug_all)
    ultimately show ?thesis
      using False by (intro exI [of _ "plug_all cs y"]) (auto simp: y_def ents_def cells cells_plug_all)
  next
    case leaf: True
    show ?thesis
    proof (cases "cs = [] \<or> c_prefix (hd cs) \<noteq> None")
      case True
      have "wf_node w [] (plug_all cs Null)" using L(2) [of Null] True by auto
      moreover have "patricia_remove T ptr = Inr (T\<lparr>head := plug_all cs Null, num_active_node := int (size (cells (plug_all cs Null)))\<rparr>)"
        using True leaf x(1) cnt by (auto simp: patricia_remove_def cells cells_plug_all split: list.splits)
      ultimately show ?thesis
        using leaf by (intro exI [of _ "plug_all cs Null"]) (auto simp: ents_def cells cells_plug_all)
    next
      case False
      then obtain c cs' where c: "cs = c # cs'" "c_prefix c = None" by (cases cs) auto
      obtain a b' d' rt s where cr: "c = Crumb a b' None d' rt s" using c(2) by (cases c) auto
      obtain L1 where L1: "wf_node w L1 (plug c ?x)" "\<And>y. y \<noteq> Null \<Longrightarrow> wf_node w L1 y \<Longrightarrow> wf_node w [] (plug_all cs' y)"
        using wf_plug_all [of w "[]" cs' "plug c ?x"] wf x(2) c(1) by auto
      have s: "wf_node w L1 s" "s \<noteq> Null"
        using L1(1) by (auto simp: cr split: if_splits intro: wf_node_weaken prefix_prefix)
      then have "wf_node w [] (plug_all cs' s)" using L1(2) by blast
      moreover have "patricia_remove T ptr = Inr (T\<lparr>head := plug_all cs' s, num_active_node := int (size (cells (plug_all cs' s)))\<rparr>)"
        using leaf x(1) cnt c s(2) by (simp add: patricia_remove_def cells cells_plug_all cr)
      ultimately show ?thesis
        using leaf by (intro exI [of _ "plug_all cs' s"]) (auto simp: ents_def cells cells_plug_all c(1) cr)
    qed
  qed
qed

lemma patricia_remove_spec:
  assumes inv: "tree_inv w T" and e: "(ptr, Some q, d) \<in># cells (head T)"
  shows "\<exists>T'. patricia_remove T ptr = Inr T' \<and> tree_inv w T' \<and> maxbits T' = maxbits T \<and> next_addr T' = next_addr T \<and>
    tree_removed (ptr, Some q, d) T T'"
proof -
  have "ptr \<in># addrs (head T)" using e by force
  then obtain x cs where loc: "locate ptr (head T) [] = Some (x, cs)" using locate_spec(1) by fastforce
  obtain b p' d' l r where x: "head T = plug_all cs x" "x = Node ptr b p' d' l r"
    using locate_spec(2) [OF loc] by auto
  have "(ptr, p', d') \<in># cells (head T)" by (simp add: x cells_plug_all)
  then have eq: "(ptr, p', d') = (ptr, Some q, d)" by (rule addr_unique [OF inv _ e])
  obtain n where "patricia_remove T ptr = Inr (T\<lparr>head := n, num_active_node := int (size (cells n))\<rparr>)" "wf_node w [] n"
      "add_mset (ptr, Some q, d) (ents n) = ents (head T)" "addrs n \<subseteq># addrs (head T)"
    using patricia_remove_cells [OF tree_invD(3,6) [OF inv]] loc x eq by fastforce
  then show ?thesis using addrs_sub_inv [OF inv] by (auto simp: tree_removed_def)
qed

section \<open>Walking\<close>

text \<open>The nodes with a prefix, a node before its left and its right subtree.\<close>

fun preorder_nodes :: "'d pnode \<Rightarrow> 'd pnode list" where
  "preorder_nodes Null = []"
| "preorder_nodes (Node a b p d l r) =
     (if p \<noteq> None then [Node a b p d l r] else []) @ preorder_nodes l @ preorder_nodes r"

fun walk_ok :: "nat \<Rightarrow> 'd pnode list \<Rightarrow> bool" where
  "walk_ok m [] = True"
| "walk_ok m (n # st) = (n \<noteq> Null \<and> (\<exists>L. wf_node m L n \<and> length st \<le> length L) \<and> walk_ok m st)"

lemma walk_ok_children:
  assumes "m \<le> PATRICIA_MAXBITS" "walk_ok m (Node a b p d l r # st)"
  shows "length st < PATRICIA_MAXBITS + 1" "l \<noteq> Null \<Longrightarrow> walk_ok m (l # st)" "r \<noteq> Null \<Longrightarrow> walk_ok m (r # st)"
    "l \<noteq> Null \<Longrightarrow> r \<noteq> Null \<Longrightarrow> walk_ok m (l # r # st)" "walk_ok m st"
proof -
  from assms(2) obtain L where L: "wf_node m L (Node a b p d l r)" "length st \<le> length L" "walk_ok m st"
    by (auto simp del: wf_node.simps)
  obtain K where K: "length K = b" "prefix L K" "b \<le> m" "wf_node m (K @ [False]) l" "wf_node m (K @ [True]) r"
    using L(1) by (elim wf_Node_label) blast
  have le: "length st \<le> b" using L(2) prefix_length_le [OF K(2)] K(1) by simp
  then show "length st < PATRICIA_MAXBITS + 1" using K(3) assms(1) by simp
  show "walk_ok m (l # st)" if "l \<noteq> Null" using that K le L(3) by (auto intro!: exI [of _ "K @ [False]"])
  show r: "walk_ok m (r # st)" if "r \<noteq> Null" using that K le L(3) by (auto intro!: exI [of _ "K @ [True]"])
  show "walk_ok m (l # r # st)" if "l \<noteq> Null" "r \<noteq> Null"
    using that K le r by (auto intro!: exI [of _ "K @ [False]"])
  show "walk_ok m st" by (rule L(3))
qed

lemma walk_loop_preorder:
  "m \<le> PATRICIA_MAXBITS \<Longrightarrow> walk_ok m (n # st) \<Longrightarrow> walk_loop n st = Inr (concat (map preorder_nodes (n # st)))"
proof (induction n st rule: walk_loop.induct)
  case (2 a b p d l r st)
  note w = walk_ok_children [OF 2(5,6)]
  show ?case
  proof (cases "l = Null"; cases "r = Null")
    assume "l = Null" "r = Null"
    then show ?thesis using 2(4) [OF _ _ _ 2(5)] w(5) by (cases st) auto
  next
    assume "l = Null" "r \<noteq> Null"
    then show ?thesis using 2(3) [OF _ _ 2(5)] w by simp
  next
    assume "l \<noteq> Null" "r = Null"
    then show ?thesis using 2(2) [OF _ _ 2(5)] w by simp
  next
    assume "l \<noteq> Null" "r \<noteq> Null"
    then show ?thesis using 2(1) [OF _ _ _ 2(5)] w by simp
  qed
qed auto

lemma mset_preorder: "mset (map (\<lambda>n. (node_addr n, node_prefix n, node_data n)) (preorder_nodes n)) = ents n"
  by (induction n) (auto simp: ents_def)

lemma patricia_walk_spec:
  assumes "tree_inv w T"
  shows "walk_loop (head T) [] = Inr (preorder_nodes (head T))"
proof (cases "head T")
  case (Node a b p d l r)
  then have "walk_ok w [head T]" using tree_invD(3) [OF assms] by (auto simp del: wf_node.simps)
  then show ?thesis using walk_loop_preorder [of w "head T" "[]"] tree_invD(1,2) [OF assms] by simp
qed simp

text \<open>Destruction visits the same nodes, glue nodes included, and its assertions hold.\<close>

lemma clear_loop_count:
  "m \<le> PATRICIA_MAXBITS \<Longrightarrow> walk_ok m (n # st) \<Longrightarrow>
     clear_loop n st cnt = Inr (cnt - int (sum_list (map pnode_size (n # st))))"
proof (induction n st cnt rule: clear_loop.induct)
  case (2 a b p d l r st cnt)
  have glue: "p \<noteq> None \<or> d = None" using 2(6) by (auto split: option.splits)
  note w = walk_ok_children [OF 2(5,6)]
  show ?case
  proof (cases "l = Null"; cases "r = Null")
    assume "l = Null" "r = Null"
    then show ?thesis using 2(4) [OF _ _ _ 2(5)] glue 2(6) by (cases st) auto
  next
    assume "l = Null" "r \<noteq> Null"
    then show ?thesis using 2(3) [OF _ _ 2(5)] w glue by simp
  next
    assume "l \<noteq> Null" "r = Null"
    then show ?thesis using 2(2) [OF _ _ 2(5)] w glue by simp
  next
    assume "l \<noteq> Null" "r \<noteq> Null"
    then show ?thesis using 2(1) [OF _ _ _ 2(5)] w glue by simp
  qed
qed auto

lemma pnode_size_cells: "pnode_size n = size (cells n)"
  by (induction n) auto

lemma Clear_Patricia_spec:
  assumes "tree_inv w T"
  shows "Clear_Patricia T = Inr ()"
proof (cases "head T")
  case (Node a b p d l r)
  then have "walk_ok w [head T]" using tree_invD(3) [OF assms] by (auto simp del: wf_node.simps)
  then show ?thesis
    using clear_loop_count [of w "head T" "[]" "num_active_node T"] tree_invD(1,2,6) [OF assms]
    by (auto simp: Clear_Patricia_def pnode_size_cells)
qed (use tree_invD(6) [OF assms] in \<open>simp add: Clear_Patricia_def\<close>)

lemma patricia_walk_inorder_ents:
  "mset (map (\<lambda>(q, d). (Some q, d)) (patricia_walk_inorder n)) = image_mset snd (ents n)"
  by (induction n) (auto simp: ents_def split: option.splits)

end
