(* ===== verification/Std_Map.thy ===== *)
theory Std_Map
  imports P4P_Prelude
begin

text \<open>
  The ordered associative containers of the C++ library. A \<open>std::map\<close> is the list of its
  entries in key order, so that iteration order is part of the model; \<open>find\<close> is the
  library's \<open>map_of\<close>. The locale \<open>assoc_container\<close> is the contract the components rely on,
  and the sorted lists satisfy it.
\<close>

type_synonym ('k, 'v) smap = "('k \<times> 'v) list"

definition smap_find :: "('k, 'v) smap \<Rightarrow> 'k \<Rightarrow> 'v option" where
  "smap_find m k = map_of m k"

text \<open>\<open>m[k] = v\<close>.\<close>

fun smap_put :: "'k::linorder \<Rightarrow> 'v \<Rightarrow> ('k, 'v) smap \<Rightarrow> ('k, 'v) smap" where
  "smap_put k v [] = [(k, v)]"
| "smap_put k v ((k', v') # m) =
     (if k < k' then (k, v) # (k', v') # m
      else if k = k' then (k, v) # m
      else (k', v') # smap_put k v m)"

text \<open>\<open>m.insert(make_pair(k, v))\<close>: no effect on an existing key; the flag says whether it inserted.\<close>

definition smap_insert :: "'k::linorder \<Rightarrow> 'v \<Rightarrow> ('k, 'v) smap \<Rightarrow> ('k, 'v) smap \<times> bool" where
  "smap_insert k v m = (case smap_find m k of None \<Rightarrow> (smap_put k v m, True) | Some _ \<Rightarrow> (m, False))"

definition smap_erase :: "'k \<Rightarrow> ('k, 'v) smap \<Rightarrow> ('k, 'v) smap" where
  "smap_erase k m = filter (\<lambda>e. fst e \<noteq> k) m"

definition smap_inv :: "('k::linorder, 'v) smap \<Rightarrow> bool" where
  "smap_inv m \<longleftrightarrow> sorted_wrt (<) (map fst m)"

lemma smap_inv_simps [simp]:
  "smap_inv []"
  "smap_inv ((k, v) # m) \<longleftrightarrow> (\<forall>k'\<in>fst ` set m. k < k') \<and> smap_inv m"
  by (auto simp: smap_inv_def)

lemma smap_inv_distinct: "smap_inv m \<Longrightarrow> distinct (map fst m)"
  by (simp add: smap_inv_def strict_sorted_iff)

lemma smap_find_Nil [simp, p4p_map]: "smap_find [] k = None"
  by (simp add: smap_find_def)

lemma smap_find_None_iff: "smap_find m k = None \<longleftrightarrow> k \<notin> fst ` set m"
  by (simp add: smap_find_def map_of_eq_None_iff)

lemma smap_find_Some_iff: "smap_inv m \<Longrightarrow> smap_find m k = Some v \<longleftrightarrow> (k, v) \<in> set m"
  by (simp add: smap_find_def smap_inv_distinct)

lemma keys_smap_put [simp]: "fst ` set (smap_put k v m) = insert k (fst ` set m)"
  by (induction m rule: smap_put.induct) auto

lemma smap_inv_put [simp, intro]: "smap_inv m \<Longrightarrow> smap_inv (smap_put k v m)"
  by (induction m rule: smap_put.induct) auto

lemma smap_find_put [simp, p4p_map]:
  "smap_inv m \<Longrightarrow> smap_find (smap_put k v m) k' = (if k' = k then Some v else smap_find m k')"
proof (induction m)
  case (Cons e m)
  then show ?case by (cases e) (auto simp: smap_find_def map_of_eq_None_iff)
qed (simp add: smap_find_def)

lemma set_smap_erase: "set (smap_erase k m) = {e \<in> set m. fst e \<noteq> k}"
  by (auto simp: smap_erase_def)

lemma smap_inv_erase [simp, intro]: "smap_inv m \<Longrightarrow> smap_inv (smap_erase k m)"
  by (induction m) (auto simp: smap_erase_def)

lemma smap_find_erase [simp, p4p_map]:
  "smap_find (smap_erase k m) k' = (if k' = k then None else smap_find m k')"
  by (induction m) (auto simp: smap_find_def smap_erase_def)

lemma smap_inv_insert [simp, intro]: "smap_inv m \<Longrightarrow> smap_inv (fst (smap_insert k v m))"
  by (auto simp: smap_insert_def split: option.splits)

lemma smap_find_insert [p4p_map]:
  "smap_inv m \<Longrightarrow> smap_find (fst (smap_insert k v m)) k' =
     (if k' = k \<and> smap_find m k = None then Some v else smap_find m k')"
  by (auto simp: smap_insert_def split: option.splits)

lemma snd_smap_insert [simp]: "snd (smap_insert k v m) \<longleftrightarrow> smap_find m k = None"
  by (auto simp: smap_insert_def split: option.splits)

lemma smap_eqI:
  assumes "smap_inv m" and "smap_inv n" and "\<And>k. smap_find m k = smap_find n k"
  shows "m = n"
proof -
  have eq: "set m = set n"
  proof (rule set_eqI)
    fix e
    show "e \<in> set m \<longleftrightarrow> e \<in> set n"
      using assms smap_find_Some_iff [of m "fst e" "snd e"] smap_find_Some_iff [of n "fst e" "snd e"] by simp
  qed
  have d: "distinct (map fst m)" "distinct (map fst n)" and s: "sorted (map fst m)" "sorted (map fst n)"
    using assms by (simp_all add: smap_inv_distinct smap_inv_def strict_sorted_iff)
  have "inj_on fst (set m \<union> set n)"
    using d(1) eq by (simp add: distinct_map)
  then show ?thesis
    using d s eq by (intro map_sorted_distinct_set_unique) (auto simp: distinct_map)
qed

text \<open>The contract of an associative container.\<close>

locale assoc_container =
  fixes cempty :: "'c"
    and cfind :: "'c \<Rightarrow> 'k \<Rightarrow> 'v option"
    and cput :: "'k \<Rightarrow> 'v \<Rightarrow> 'c \<Rightarrow> 'c"
    and cerase :: "'k \<Rightarrow> 'c \<Rightarrow> 'c"
    and cinv :: "'c \<Rightarrow> bool"
  assumes find_empty: "cfind cempty k = None"
    and find_put: "cinv m \<Longrightarrow> cfind (cput k v m) k' = (if k' = k then Some v else cfind m k')"
    and find_erase: "cinv m \<Longrightarrow> cfind (cerase k m) k' = (if k' = k then None else cfind m k')"
    and inv_empty: "cinv cempty"
    and inv_put: "cinv m \<Longrightarrow> cinv (cput k v m)"
    and inv_erase: "cinv m \<Longrightarrow> cinv (cerase k m)"
begin

lemma put_put_find: "cinv m \<Longrightarrow> cfind (cput k v (cput k w m)) k' = cfind (cput k v m) k'"
  by (simp add: find_put inv_put)

lemma erase_put_find: "cinv m \<Longrightarrow> cfind m k = None \<Longrightarrow> cfind (cerase k (cput k v m)) k' = cfind m k'"
  by (simp add: find_put find_erase inv_put)

lemma put_commute_find:
  "cinv m \<Longrightarrow> k \<noteq> l \<Longrightarrow> cfind (cput k v (cput l w m)) k' = cfind (cput l w (cput k v m)) k'"
  by (simp add: find_put inv_put)

end

interpretation smap: assoc_container "[]" smap_find smap_put smap_erase smap_inv
  by unfold_locales auto

lemma smap_erase_put:
  assumes "smap_inv m" and "smap_find m k = None"
  shows "smap_erase k (smap_put k v m) = m"
  using assms by (intro smap_eqI) (auto simp: smap.erase_put_find)

lemma smap_put_put: "smap_inv m \<Longrightarrow> smap_put k v (smap_put k w m) = smap_put k v m"
  by (intro smap_eqI) (auto simp: smap.put_put_find)

lemma smap_put_commute:
  "smap_inv m \<Longrightarrow> k \<noteq> l \<Longrightarrow> smap_put k v (smap_put l w m) = smap_put l w (smap_put k v m)"
  by (intro smap_eqI) (auto simp: smap.put_commute_find)

end
