(* ===== verification/Patricia_Trie.thy ===== *)
theory Patricia_Trie
  imports Patricia_Search Std_Map
begin

text \<open>
  \<open>common/cpp/src/include/p4p/detail/patricia_trie.h\<close>: the class \<open>PatriciaTrie<T>\<close>, a table from
  IP prefixes to values with longest-prefix lookup. A node's data pointer refers to the key of the
  value cache that holds the value, so it is the value itself; two pointers are equal exactly when
  the values are, since the keys of a map are distinct. The cache counts the entries of each value
  in an \<open>unsigned int\<close>.
\<close>

record 'v patricia_trie =
  tree :: "'v patricia_tree"
  val_cache :: "('v, u32) smap"

abbreviation (input) MAX_PREFIX_BITLEN :: nat where "MAX_PREFIX_BITLEN \<equiv> 128"

definition PatriciaTrie :: "'v patricia_trie result" where
  "PatriciaTrie = bindE (New_Patricia MAX_PREFIX_BITLEN) (\<lambda>t. Inr \<lparr>tree = t, val_cache = []\<rparr>)"

definition make_key :: "ip_prefix \<Rightarrow> prefix_t option result" where
  "make_key p = New_Prefix (get_family p) (get_address p) (int (get_length p))"

text \<open>\<open>node->data = val\<close> for the node at an address.\<close>

fun set_data :: "nat \<Rightarrow> 'd \<Rightarrow> 'd pnode \<Rightarrow> 'd pnode" where
  "set_data ptr v Null = Null"
| "set_data ptr v (Node a b p d l r) =
     Node a b p (if a = ptr then Some v else d) (set_data ptr v l) (set_data ptr v r)"

text \<open>\<open>insert(make_pair(val, 0))\<close> and the increment of the reference count.\<close>

definition cache_ref :: "'v::linorder \<Rightarrow> ('v, u32) smap \<Rightarrow> ('v, u32) smap" where
  "cache_ref v c = smap_put v ((case smap_find c v of None \<Rightarrow> 0 | Some n \<Rightarrow> n) + 1) c"

definition cache_unref :: "'v::linorder \<Rightarrow> ('v, u32) smap \<Rightarrow> ('v, u32) smap result" where
  "cache_unref v c = (case smap_find c v of
       None \<Rightarrow> Inl Undefined_Behaviour
     | Some n \<Rightarrow> Inr (if n - 1 = 0 then smap_erase v c else smap_put v (n - 1) c))"

text \<open>\<open>*(const T* )node->data\<close>.\<close>

definition node_val :: "'v pnode \<Rightarrow> 'v result" where
  "node_val n = (case node_data n of None \<Rightarrow> Inl Undefined_Behaviour | Some v \<Rightarrow> Inr v)"

text \<open>Inserting a prefix that is already known not to be there, and pointing its node to the value.\<close>

definition trie_insert :: "'v::linorder patricia_trie \<Rightarrow> prefix_t option \<Rightarrow> 'v \<Rightarrow> 'v patricia_trie result" where
  "trie_insert t p v =
     bindE (patricia_lookup (tree t) p) (\<lambda>(tr, ptr).
       Inr (t\<lparr>tree := tr\<lparr>head := set_data ptr v (head tr)\<rparr>, val_cache := cache_ref v (val_cache t)\<rparr>))"

definition trie_add :: "'v::linorder patricia_trie \<Rightarrow> ip_prefix \<Rightarrow> 'v \<Rightarrow> ('v patricia_trie \<times> bool) result" where
  "trie_add t pfx v =
     bindE (make_key pfx) (\<lambda>p.
     bindE (patricia_search_exact (tree t) p) (\<lambda>node.
       if node \<noteq> Null then bindE (node_val node) (\<lambda>v'. Inr (t, v = v'))
       else bindE (trie_insert t p v) (\<lambda>t'. Inr (t', True))))"

definition trie_remove :: "'v::linorder patricia_trie \<Rightarrow> ip_prefix \<Rightarrow> 'v \<Rightarrow> ('v patricia_trie \<times> bool) result" where
  "trie_remove t pfx v =
     bindE (make_key pfx) (\<lambda>p.
     bindE (patricia_search_exact (tree t) p) (\<lambda>node.
       if node = Null then Inr (t, False)
       else bindE (node_val node) (\<lambda>v'.
         if v' \<noteq> v then Inr (t, False)
         else bindE (patricia_remove (tree t) (node_addr node)) (\<lambda>tr.
              bindE (cache_unref v (val_cache t)) (\<lambda>c. Inr (\<lparr>tree = tr, val_cache = c\<rparr>, True))))))"

fun remove_nodes :: "'v patricia_tree \<Rightarrow> 'v pnode list \<Rightarrow> 'v patricia_tree result" where
  "remove_nodes tr [] = Inr tr"
| "remove_nodes tr (n # ns) = bindE (patricia_remove tr (node_addr n)) (\<lambda>tr'. remove_nodes tr' ns)"

definition trie_remove_val :: "'v::linorder patricia_trie \<Rightarrow> 'v \<Rightarrow> ('v patricia_trie \<times> bool) result" where
  "trie_remove_val t v =
     (case smap_find (val_cache t) v of
        None \<Rightarrow> Inr (t, False)
      | Some _ \<Rightarrow>
          bindE (walk_loop (head (tree t)) []) (\<lambda>ns.
          bindE (remove_nodes (tree t) (filter (\<lambda>n. node_data n = Some v) ns)) (\<lambda>tr.
            Inr (\<lparr>tree = tr, val_cache = smap_erase v (val_cache t)\<rparr>, True))))"

definition trie_clear :: "'v::linorder patricia_trie \<Rightarrow> 'v patricia_trie result" where
  "trie_clear t = bindE (Clear_Patricia (tree t)) (\<lambda>_. PatriciaTrie)"

text \<open>The value found, or a null pointer, and the matching prefix when the caller asks for it.\<close>

definition trie_lookup :: "'v::linorder patricia_trie \<Rightarrow> ip_prefix \<Rightarrow> bool \<Rightarrow> ('v option \<times> ip_prefix option) result" where
  "trie_lookup t address want =
     bindE (make_key address) (\<lambda>p.
     bindE (patricia_search_best (tree t) p) (\<lambda>node.
       if node = Null then Inr (None, None)
       else (case node_prefix node of
           None \<Rightarrow> Inl Undefined_Behaviour
         | Some q \<Rightarrow>
             if want then bindE (IPPrefix_raw (pfx_family q) (Some (pfx_add q)) (pfx_bitlen q)) (\<lambda>r.
               Inr (node_data node, Some r))
             else Inr (node_data node, None))))"

definition has_prefixes :: "'v::linorder patricia_trie \<Rightarrow> 'v \<Rightarrow> bool" where
  "has_prefixes t v \<longleftrightarrow> smap_find (val_cache t) v \<noteq> None"

text \<open>The prefix of a node as an \<open>IPPrefix\<close>; a node of another family is passed over.\<close>

definition node_ip :: "'v pnode \<Rightarrow> ip_prefix list result" where
  "node_ip n = (case node_prefix n of
       None \<Rightarrow> Inl Undefined_Behaviour
     | Some q \<Rightarrow>
         if pfx_family q = AF_INET \<or> pfx_family q = AF_INET6
         then bindE (IPPrefix_raw (pfx_family q) (Some (pfx_add q)) (pfx_bitlen q)) (\<lambda>r. Inr [r])
         else Inr [])"

fun get_prefixes_loop :: "'v \<Rightarrow> 'v pnode list \<Rightarrow> ip_prefix list result" where
  "get_prefixes_loop v [] = Inr []"
| "get_prefixes_loop v (n # ns) =
     bindE (node_val n) (\<lambda>v'.
     bindE (if v' \<noteq> v then Inr [] else node_ip n) (\<lambda>rs.
     bindE (get_prefixes_loop v ns) (\<lambda>rest. Inr (rs @ rest))))"

definition get_prefixes :: "'v::linorder patricia_trie \<Rightarrow> 'v \<Rightarrow> ip_prefix list result" where
  "get_prefixes t v = bindE (walk_loop (head (tree t)) []) (get_prefixes_loop v)"

text \<open>
  \<open>enumerate\<close>: the values asked for (all of them when the caller's vector is empty), each with its
  prefixes in walking order; a value listed twice gets its prefixes at its last position.
\<close>

fun val_to_idx :: "('v::linorder \<times> 'b) list \<Rightarrow> nat \<Rightarrow> ('v, nat) smap \<Rightarrow> ('v, nat) smap" where
  "val_to_idx [] i m = m"
| "val_to_idx ((v, b) # rs) i m = val_to_idx rs (i + 1) (smap_put v i m)"

fun enumerate_loop ::
    "('v::linorder, nat) smap \<Rightarrow> 'v pnode list \<Rightarrow> ('v \<times> ip_prefix list) list \<Rightarrow> ('v \<times> ip_prefix list) list result" where
  "enumerate_loop idx [] res = Inr res"
| "enumerate_loop idx (n # ns) res =
     bindE (node_val n) (\<lambda>v.
     case smap_find idx v of
       None \<Rightarrow> enumerate_loop idx ns res
     | Some i \<Rightarrow> bindE (node_ip n) (\<lambda>rs.
         enumerate_loop idx ns (res[i := (fst (res ! i), snd (res ! i) @ rs)])))"

definition trie_enumerate ::
    "'v::linorder patricia_trie \<Rightarrow> ('v \<times> ip_prefix list) list \<Rightarrow> ('v \<times> ip_prefix list) list result" where
  "trie_enumerate t res =
     (let res' = (if res = [] then map (\<lambda>e. (fst e, [])) (val_cache t) else res) in
      bindE (walk_loop (head (tree t)) []) (\<lambda>ns. enumerate_loop (val_to_idx res' 0 []) ns res'))"

definition enumerate_values :: "'v::linorder patricia_trie \<Rightarrow> 'v list" where
  "enumerate_values t = map fst (val_cache t)"

fun copy_loop :: "'v::linorder pnode list \<Rightarrow> 'v patricia_trie \<Rightarrow> 'v patricia_trie result" where
  "copy_loop [] t = Inr t"
| "copy_loop (n # ns) t =
     (case node_prefix n of
        None \<Rightarrow> Inl Undefined_Behaviour
      | Some q \<Rightarrow>
          bindE (New_Prefix (pfx_family q) (pfx_add q) (int (pfx_bitlen q))) (\<lambda>p.
          bindE (node_val n) (\<lambda>v.
          bindE (trie_insert t p v) (\<lambda>t'. copy_loop ns t'))))"

definition copy_from :: "'v::linorder patricia_trie \<Rightarrow> 'v patricia_trie \<Rightarrow> 'v patricia_trie result" where
  "copy_from t rhs =
     bindE (trie_clear t) (\<lambda>t0.
     bindE (walk_loop (head (tree rhs)) []) (\<lambda>ns. copy_loop ns t0))"

end
