(* ===== verification/Trie_Spec.thy ===== *)
theory Trie_Spec
  imports Patricia_Trie
begin

text \<open>
  What \<open>PatriciaTrie\<close> promises: a trie that holds prefixes of one address family is a finite map
  from network bits to values. Every operation is shown to refine the corresponding operation on
  that map, to keep the invariant of the tree and of the reference counts, and to end without an
  assertion failure or an access out of bounds.
\<close>

section \<open>The invariant and the abstract map\<close>

abbreviation tents :: "'v patricia_trie \<Rightarrow> (nat \<times> prefix_t option \<times> 'v option) multiset" where
  "tents t \<equiv> ents (head (tree t))"

abbreviation fam_bits :: "int \<Rightarrow> nat" where
  "fam_bits fam \<equiv> get_addr_size fam * 8"

definition fam_prefix :: "int \<Rightarrow> prefix_t \<Rightarrow> bool" where
  "fam_prefix fam q \<longleftrightarrow> pfx_family q = fam \<and> length (pfx_add q) = get_addr_size fam \<and> pfx_bitlen q \<le> fam_bits fam"

definition is_ip_family :: "int \<Rightarrow> bool" where
  "is_ip_family fam \<longleftrightarrow> fam = AF_INET \<or> fam = AF_INET6"

text \<open>The values of the entries, with their multiplicity, and the cache that counts them.\<close>

definition vals :: "(nat \<times> prefix_t option \<times> 'v option) multiset \<Rightarrow> 'v multiset" where
  "vals E = image_mset (\<lambda>(a, p, d). the d) E"

definition cache_ok :: "'v::linorder multiset \<Rightarrow> ('v, u32) smap \<Rightarrow> bool" where
  "cache_ok V c \<longleftrightarrow> smap_inv c \<and> size V \<le> UINT_MAX \<and>
     (\<forall>v. smap_find c v = (if v \<in># V then Some (of_nat (count V v)) else None))"

definition trie_inv :: "int \<Rightarrow> 'v::linorder patricia_trie \<Rightarrow> bool" where
  "trie_inv fam t \<longleftrightarrow> is_ip_family fam \<and> tree_inv (fam_bits fam) (tree t) \<and> maxbits (tree t) = MAX_PREFIX_BITLEN \<and>
     (\<forall>(a, p, d)\<in>#tents t. \<exists>q v. p = Some q \<and> d = Some v \<and> fam_prefix fam q) \<and>
     cache_ok (vals (tents t)) (val_cache t)"

definition trie_map :: "'v patricia_trie \<Rightarrow> bool list \<rightharpoonup> 'v" where
  "trie_map t = map_of (map (\<lambda>n. (pkey (the (node_prefix n)), the (node_data n))) (preorder_nodes (head (tree t))))"

lemma trie_invD:
  assumes "trie_inv fam t"
  shows "is_ip_family fam" "tree_inv (fam_bits fam) (tree t)" "maxbits (tree t) = MAX_PREFIX_BITLEN"
    "\<And>a p d. (a, p, d) \<in># tents t \<Longrightarrow> \<exists>q v. p = Some q \<and> d = Some v \<and> fam_prefix fam q"
    "cache_ok (vals (tents t)) (val_cache t)"
  using assms unfolding trie_inv_def by blast+

lemma ents_cells: "(a, p, d) \<in># ents n \<longleftrightarrow> (a, p, d) \<in># cells n \<and> p \<noteq> None"
  by (simp add: ents_def)

lemma keys_ents: "k \<in> keys n \<longleftrightarrow> (\<exists>a q d. (a, Some q, d) \<in># ents n \<and> pkey q = k)"
  by (auto simp: keys_def ents_cells)

lemma set_preorder:
  "n' \<in> set (preorder_nodes n) \<Longrightarrow> (node_addr n', node_prefix n', node_data n') \<in># ents n"
  "(a, p, d) \<in># ents n \<Longrightarrow> \<exists>n'\<in>set (preorder_nodes n). (node_addr n', node_prefix n', node_data n') = (a, p, d)"
proof -
  have "set_mset (ents n) = (\<lambda>n. (node_addr n, node_prefix n, node_data n)) ` set (preorder_nodes n)"
    by (metis (no_types) mset_preorder set_map set_mset_mset)
  then show "n' \<in> set (preorder_nodes n) \<Longrightarrow> (node_addr n', node_prefix n', node_data n') \<in># ents n"
    "(a, p, d) \<in># ents n \<Longrightarrow> \<exists>n'\<in>set (preorder_nodes n). (node_addr n', node_prefix n', node_data n') = (a, p, d)"
    by auto
qed

lemma entry_unique:
  assumes "trie_inv fam t" "(a, Some q, d) \<in># tents t" "(a', Some q', d') \<in># tents t" "pkey q = pkey q'"
  shows "a = a' \<and> q = q' \<and> d = d'"
  using cells_unique [OF tree_invD(3) [OF trie_invD(2) [OF assms(1)]]] assms(2-4) by (fastforce simp: ents_cells)

lemma trie_map_iff:
  assumes "trie_inv fam t"
  shows "trie_map t k = Some v \<longleftrightarrow> (\<exists>a q. (a, Some q, Some v) \<in># tents t \<and> pkey q = k)"
proof -
  let ?f = "\<lambda>n. (pkey (the (node_prefix n)), the (node_data n))" and ?ns = "preorder_nodes (head (tree t))"
  have mem: "(k, v) \<in> set (map ?f ?ns) \<longleftrightarrow> (\<exists>a q. (a, Some q, Some v) \<in># tents t \<and> pkey q = k)" for k v
  proof
    assume "(k, v) \<in> set (map ?f ?ns)"
    then obtain n where n: "n \<in> set ?ns" "pkey (the (node_prefix n)) = k" "the (node_data n) = v" by auto
    from trie_invD(4) [OF assms set_preorder(1) [OF n(1)]] set_preorder(1) [OF n(1)]
    show "\<exists>a q. (a, Some q, Some v) \<in># tents t \<and> pkey q = k" using n(2,3) by (metis option.sel)
  next
    assume "\<exists>a q. (a, Some q, Some v) \<in># tents t \<and> pkey q = k"
    then obtain a q where e: "(a, Some q, Some v) \<in># tents t" "pkey q = k" by blast
    from set_preorder(2) [OF e(1)] e(2) show "(k, v) \<in> set (map ?f ?ns)" by force
  qed
  have "trie_map t k = Some v" if "(k, v) \<in> set (map ?f ?ns)"
  proof -
    have "trie_map t k \<noteq> None" using that unfolding trie_map_def map_of_eq_None_iff by force
    then obtain v' where v': "trie_map t k = Some v'" by blast
    then have "(k, v') \<in> set (map ?f ?ns)" unfolding trie_map_def by (rule map_of_SomeD)
    with that v' show ?thesis unfolding mem using entry_unique [OF assms] by blast
  qed
  moreover have "(k, v) \<in> set (map ?f ?ns)" if "trie_map t k = Some v"
    using that unfolding trie_map_def by (rule map_of_SomeD)
  ultimately show ?thesis unfolding mem by blast
qed

lemma trie_map_eqI:
  assumes "trie_inv fam t" "\<And>k v. g k = Some v \<longleftrightarrow> (\<exists>a q. (a, Some q, Some v) \<in># tents t \<and> pkey q = k)"
  shows "trie_map t = g"
proof
  fix k
  show "trie_map t k = g k"
    using trie_map_iff [OF assms(1), of k] assms(2) [of k] by (metis option.exhaust)
qed

lemma trie_map_None:
  assumes "trie_inv fam t"
  shows "trie_map t k = None \<longleftrightarrow> k \<notin> keys (head (tree t))"
proof -
  have "k \<in> keys (head (tree t)) \<longleftrightarrow> (\<exists>v. trie_map t k = Some v)"
    unfolding keys_ents trie_map_iff [OF assms] using trie_invD(4) [OF assms] by blast
  then show ?thesis by (metis not_Some_eq)
qed

text \<open>The number of entries is the size of the map.\<close>

lemma count_le_image: "count M x \<le> count (image_mset f M) (f x)"
  by (induction M) auto

lemma size_tents:
  assumes "trie_inv fam t"
  shows "size (tents t) = card (dom (trie_map t))"
proof -
  note T = trie_invD(2) [OF assms]
  have c1: "count (tents t) e \<le> 1" for e
  proof -
    have "count (tents t) e \<le> count (cells (head (tree t))) e" by (simp add: ents_def)
    also have "\<dots> \<le> count (addrs (head (tree t))) (fst e)" by (rule count_le_image)
    finally show ?thesis using tree_invD(4) [OF T] by (meson le_trans)
  qed
  have "size (tents t) = card (set_mset (tents t))"
  proof -
    have "mset_set (set_mset (tents t)) = tents t"
      using c1 by (intro multiset_eqI) (metis One_nat_def count_eq_zero_iff count_mset_set(1,3) finite_set_mset le_Suc_eq le_zero_eq)
    then show ?thesis by (metis size_mset_set)
  qed
  also have "\<dots> = card ((\<lambda>(a, p, d). pkey (the p)) ` set_mset (tents t))"
  proof (rule card_image [symmetric], rule inj_onI)
    fix e e'
    assume "e \<in># tents t" "e' \<in># tents t" "(case e of (a, p, d) \<Rightarrow> pkey (the p)) = (case e' of (a, p, d) \<Rightarrow> pkey (the p))"
    moreover obtain a p d a' p' d' where ee: "e = (a, p, d)" "e' = (a', p', d')" by (cases e; cases e') auto
    moreover obtain q q' where "p = Some q" "p' = Some q'" using calculation(1,2) trie_invD(4) [OF assms] unfolding ee by blast
    ultimately show "e = e'" using entry_unique [OF assms, of a q d a' q' d'] by simp
  qed
  also have "(\<lambda>(a, p, d). pkey (the p)) ` set_mset (tents t) = dom (trie_map t)"
    using trie_invD(4) [OF assms] by (force simp: dom_def trie_map_iff [OF assms])
  finally show ?thesis .
qed

section \<open>Keys and data pointers\<close>

text \<open>
  What the trie needs of a prefix: a sixteen-byte buffer and a length that fits the family. The
  bytes beyond the length do not matter, so the addresses built from text qualify.
\<close>

definition ip_shape :: "ip_prefix \<Rightarrow> bool" where
  "ip_shape p \<longleftrightarrow> length (get_address p) = 16 \<and> get_length p \<le> fam_bits (get_family p)"

lemma wf_ip_shape: "wf_ip_prefix p \<Longrightarrow> ip_shape p"
  by (simp add: wf_ip_prefix_def ip_shape_def)

lemma length_net_bits_shape: "ip_shape p \<Longrightarrow> is_ip_family (get_family p) \<Longrightarrow> length (net_bits p) = get_length p"
  by (auto simp: ip_shape_def net_bits_def is_ip_family_def get_addr_size_def)

lemma make_key_spec:
  assumes "ip_shape p" "get_family p = fam" "is_ip_family fam"
  shows "\<exists>pf. make_key p = Inr (Some pf) \<and> fam_prefix fam pf \<and> wf_prefix pf \<and> pfx_bitlen pf = get_length p \<and>
    pkey pf = net_bits p \<and> bits_of (pfx_add pf) = take (fam_bits fam) (bits_of (get_address p))"
proof -
  let ?pf = "\<lparr>pfx_family = fam, pfx_bitlen = get_length p, pfx_add = take (get_addr_size fam) (get_address p)\<rparr>"
  have len: "length (get_address p) = 16" "get_length p \<le> fam_bits fam" using assms by (auto simp: ip_shape_def)
  have n: "get_addr_size fam = 4 \<or> get_addr_size fam = 16" "get_addr_size fam = (if fam = AF_INET6 then 16 else 4)"
    using assms(3) by (auto simp: is_ip_family_def get_addr_size_def)
  have "make_key p = Inr (Some ?pf)"
    using assms len n by (auto simp: make_key_def New_Prefix_def is_ip_family_def to_ushort_def)
  moreover have "bits_of (pfx_add ?pf) = take (fam_bits fam) (bits_of (get_address p))"
    by (simp add: take_bits_of [symmetric] mult.commute)
  moreover have "pkey ?pf = net_bits p" using calculation(2) len by (simp add: pkey_def net_bits_def min_def)
  ultimately show ?thesis using len n by (auto simp: fam_prefix_def wf_prefix_def)
qed

lemma fam_prefix_wf: "fam_prefix fam q \<Longrightarrow> wf_prefix q"
  by (simp add: fam_prefix_def wf_prefix_def)

lemma set_data_Null [simp]: "set_data ptr v n = Null \<longleftrightarrow> n = Null"
  by (cases n) auto

lemma cells_set_data:
  "cells (set_data ptr v n) = image_mset (\<lambda>(a, p, d). (a, p, if a = ptr then Some v else d)) (cells n)"
  by (induction n) auto

lemma wf_set_data:
  "wf_node m L n \<Longrightarrow> (\<And>p d. (ptr, p, d) \<in># cells n \<Longrightarrow> p \<noteq> None) \<Longrightarrow> wf_node m L (set_data ptr v n)"
proof (induction n arbitrary: L)
  case (Node a b p d l r)
  then obtain K where K: "length K = b" "prefix L K" "b \<le> m" "wf_node m (K @ [False]) l" "wf_node m (K @ [True]) r"
    "p = None \<Longrightarrow> l \<noteq> Null \<and> r \<noteq> Null \<and> d = None" "\<And>q. p = Some q \<Longrightarrow> wf_prefix q \<and> pkey q = K"
    by (elim wf_Node_label) blast
  have "p' \<noteq> None" if "(ptr, p', d') \<in># cells l \<or> (ptr, p', d') \<in># cells r" for p' d'
    using Node.prems(2) [of p' d'] that by auto
  then have "wf_node m (K @ [False]) (set_data ptr v l)" "wf_node m (K @ [True]) (set_data ptr v r)"
    using Node.IH(1) [OF K(4)] Node.IH(2) [OF K(5)] by blast+
  moreover have "a = ptr \<Longrightarrow> p \<noteq> None" using Node.prems(2) [of p d] by auto
  ultimately show ?case using K by (auto split: option.splits)
qed simp

lemma ents_set_data:
  "ents (set_data ptr v n) = image_mset (\<lambda>(a, p, d). (a, p, if a = ptr then Some v else d)) (ents n)"
  by (induction n) (auto simp: ents_def)

lemma addrs_set_data: "addrs (set_data ptr v n) = addrs n"
  unfolding cells_set_data by (simp add: image_mset.compositionality comp_def case_prod_beta)

lemma size_cells_set_data: "size (cells (set_data ptr v n)) = size (cells n)"
  by (simp add: cells_set_data)

text \<open>Setting the data of a fresh entry changes that entry and no other.\<close>

lemma tree_set_data:
  assumes inv: "tree_inv w T" and e: "ents (head T) = add_mset (ptr, Some pf, None) E"
  shows "tree_inv w (T\<lparr>head := set_data ptr v (head T)\<rparr>)" "ents (set_data ptr v (head T)) = add_mset (ptr, Some pf, Some v) E"
proof -
  have mem: "(ptr, Some pf, None) \<in># cells (head T)" using e by (metis ents_cells union_single_eq_member)
  then have "p \<noteq> None" if "(ptr, p, d) \<in># cells (head T)" for p d using addr_unique [OF inv that] by blast
  then show "tree_inv w (T\<lparr>head := set_data ptr v (head T)\<rparr>)"
    using inv wf_set_data [OF tree_invD(3) [OF inv], of ptr v]
    by (simp add: tree_inv_def addrs_set_data size_cells_set_data del: multiset.set_map)
  have "count (image_mset fst (ents (head T))) ptr \<le> count (addrs (head T)) ptr"
    by (metis ents_def image_mset_subseteq_mono mset_subset_eq_count multiset_filter_subset)
  also have "\<dots> \<le> 1" using tree_invD(4) [OF inv] by blast
  finally have "count (image_mset fst E) ptr = 0" by (simp add: e)
  then have "\<forall>(a, p, d)\<in>#E. a \<noteq> ptr" by (force simp: count_eq_zero_iff)
  then have "image_mset (\<lambda>(a, p, d). (a, p, if a = ptr then Some v else d)) E = image_mset id E"
    by (intro image_mset_cong) auto
  then show "ents (set_data ptr v (head T)) = add_mset (ptr, Some pf, Some v) E"
    by (simp add: ents_set_data e)
qed

section \<open>The reference counts\<close>

lemma cache_ok_ref:
  assumes "cache_ok V c" "size V < UINT_MAX"
  shows "cache_ok (add_mset v V) (cache_ref v c)"
  using assms by (auto simp: cache_ok_def cache_ref_def add.commute not_in_iff split: if_splits)

lemma of_nat_u32_0: "n \<le> UINT_MAX \<Longrightarrow> (of_nat n :: u32) = 0 \<longleftrightarrow> n = 0"
  by (auto simp: word_of_nat_eq_0_iff dest: dvd_imp_le)

lemma cache_ok_unref:
  assumes "cache_ok (add_mset v V) c"
  shows "\<exists>c'. cache_unref v c = Inr c' \<and> cache_ok V c'"
proof -
  have "count V v \<le> size V" by (rule count_le_size)
  then have "(of_nat (count V v) :: u32) = 0 \<longleftrightarrow> count V v = 0"
    using assms by (intro of_nat_u32_0) (auto simp: cache_ok_def)
  then have z: "(of_nat (count V v) :: u32) = 0 \<longleftrightarrow> v \<notin># V" by (simp add: not_in_iff)
  have c: "smap_inv c" "size V \<le> UINT_MAX" "smap_find c v = Some (of_nat (count V v) + 1)"
    "\<And>x. x \<noteq> v \<Longrightarrow> smap_find c x = (if x \<in># V then Some (of_nat (count V x)) else None)"
    using assms by (auto simp: cache_ok_def add.commute)
  then show ?thesis
    using z by (auto simp: cache_ok_def cache_unref_def)
qed

lemma cache_ok_find: "cache_ok V c \<Longrightarrow> smap_find c v \<noteq> None \<longleftrightarrow> v \<in># V"
  by (simp add: cache_ok_def)

end
