(* ===== verification/Trie_Ops.thy ===== *)
theory Trie_Ops
  imports Trie_Spec
begin

text \<open>
  The operations of \<open>PatriciaTrie\<close> as operations on the map from network bits to values.
\<close>

section \<open>Adding and removing entries\<close>

lemma tents_add:
  assumes inv: "trie_inv fam t" and new: "tents t' = add_mset (ptr, Some pf, Some v) (tents t)"
    and tr: "tree_inv (fam_bits fam) (tree t')" "maxbits (tree t') = MAX_PREFIX_BITLEN"
    and pf: "fam_prefix fam pf" and c: "val_cache t' = cache_ref v (val_cache t)"
    and room: "card (dom (trie_map t)) < UINT_MAX"
  shows "trie_inv fam t'" "pkey pf \<notin> keys (head (tree t)) \<Longrightarrow> trie_map t' = (trie_map t)(pkey pf \<mapsto> v)"
proof -
  have "size (vals (tents t)) < UINT_MAX" using room size_tents [OF inv] by (simp add: vals_def)
  then have "cache_ok (vals (tents t')) (val_cache t')"
    using cache_ok_ref [OF trie_invD(5) [OF inv]] c new by (simp add: vals_def)
  then show inv': "trie_inv fam t'"
    using trie_invD(1,4) [OF inv] tr pf new by (fastforce simp: trie_inv_def)
  show "trie_map t' = (trie_map t)(pkey pf \<mapsto> v)" if k: "pkey pf \<notin> keys (head (tree t))"
  proof (rule trie_map_eqI [OF inv'])
    fix k v'
    have "trie_map t (pkey pf) = None" using k by (simp add: trie_map_None [OF inv])
    then show "((trie_map t)(pkey pf \<mapsto> v)) k = Some v' \<longleftrightarrow> (\<exists>a q. (a, Some q, Some v') \<in># tents t' \<and> pkey q = k)"
      using trie_map_iff [OF inv, of k v'] by (cases "k = pkey pf") (auto simp: new)
  qed
qed

lemma trie_insert_spec:
  assumes inv: "trie_inv fam t" and pf: "fam_prefix fam pf" "pkey pf \<notin> keys (head (tree t))"
    and room: "card (dom (trie_map t)) < UINT_MAX"
  shows "\<exists>t'. trie_insert t (Some pf) v = Inr t' \<and> trie_inv fam t' \<and> trie_map t' = (trie_map t)(pkey pf \<mapsto> v) \<and>
    (\<exists>ptr. tents t' = add_mset (ptr, Some pf, Some v) (tents t))"
proof -
  note T = trie_invD(2) [OF inv]
  obtain T' ptr where T': "patricia_lookup (tree t) (Some pf) = Inr (T', ptr)" "tree_inv (fam_bits fam) T'"
      "maxbits T' = maxbits (tree t)" "tree_inserted pf (tree t) T' ptr"
    using patricia_lookup_spec [OF T fam_prefix_wf [OF pf(1)]] pf(1) by (auto simp: fam_prefix_def)
  have e: "ents (head T') = add_mset (ptr, Some pf, None) (tents t)"
    using T'(4) pf(2) by (simp add: tree_inserted_def)
  let ?t = "t\<lparr>tree := T'\<lparr>head := set_data ptr v (head T')\<rparr>, val_cache := cache_ref v (val_cache t)\<rparr>"
  have "trie_insert t (Some pf) v = Inr ?t" by (simp add: trie_insert_def T'(1))
  moreover have "tents ?t = add_mset (ptr, Some pf, Some v) (tents t)" using tree_set_data(2) [OF T'(2) e] by simp
  ultimately show ?thesis
    using tents_add [OF inv, of ?t ptr pf v] tree_set_data(1) [OF T'(2) e] T'(3) trie_invD(3) [OF inv] pf room by auto
qed

lemma search_key:
  assumes inv: "trie_inv fam t" and pf: "fam_prefix fam pf"
  shows "\<exists>n. patricia_search_exact (tree t) (Some pf) = Inr n \<and>
    (case trie_map t (pkey pf) of
       None \<Rightarrow> n = Null \<and> pkey pf \<notin> keys (head (tree t))
     | Some v \<Rightarrow> n \<noteq> Null \<and> node_data n = Some v \<and> (\<exists>q. node_prefix n = Some q \<and> pkey q = pkey pf \<and>
         (node_addr n, Some q, Some v) \<in># tents t))"
proof -
  note T = trie_invD(2) [OF inv]
  have "pfx_bitlen pf \<le> maxbits (tree t)" using tree_invD(1) [OF T] pf by (simp add: fam_prefix_def)
  from patricia_search_exact_spec [OF T fam_prefix_wf [OF pf] this]
  obtain n where n: "patricia_search_exact (tree t) (Some pf) = Inr n" "found_exact (pkey pf) (head (tree t)) n" by blast
  show ?thesis
  proof (cases "trie_map t (pkey pf)")
    case None
    then have "pkey pf \<notin> keys (head (tree t))" by (simp add: trie_map_None [OF inv])
    with None n show ?thesis by (auto simp: found_exact_def)
  next
    case (Some v)
    then have "pkey pf \<in> keys (head (tree t))" using trie_map_None [OF inv, of "pkey pf"] by auto
    with n(2) obtain a q d where e: "node_entry n = Some (a, q, d)" "(a, Some q, d) \<in># cells (head (tree t))" "pkey q = pkey pf"
      by (auto simp: found_exact_def)
    then have m: "(a, Some q, d) \<in># tents t" by (simp add: ents_cells)
    then obtain v' where v': "d = Some v'" using trie_invD(4) [OF inv] by blast
    then have "trie_map t (pkey pf) = Some v'" using m e(3) by (auto simp: trie_map_iff [OF inv])
    moreover have "n \<noteq> Null \<and> node_data n = d \<and> node_prefix n = Some q \<and> node_addr n = a"
      using e(1) by (cases n rule: node_entry.cases) auto
    ultimately show ?thesis using n(1) Some e(3) m v' by auto
  qed
qed

lemma trie_add_spec:
  assumes inv: "trie_inv fam t" and p: "ip_shape p" "get_family p = fam"
    and room: "card (dom (trie_map t)) < UINT_MAX"
  shows "\<exists>t' r. trie_add t p v = Inr (t', r) \<and> trie_inv fam t' \<and>
    (case trie_map t (net_bits p) of
       None \<Rightarrow> r \<and> trie_map t' = (trie_map t)(net_bits p \<mapsto> v)
     | Some v' \<Rightarrow> t' = t \<and> r = (v = v'))"
proof -
  obtain pf where pf: "make_key p = Inr (Some pf)" "fam_prefix fam pf" "pkey pf = net_bits p"
    using make_key_spec [OF p trie_invD(1) [OF inv]] by blast
  obtain n where n: "patricia_search_exact (tree t) (Some pf) = Inr n"
     "case trie_map t (pkey pf) of
       None \<Rightarrow> n = Null \<and> pkey pf \<notin> keys (head (tree t))
     | Some v \<Rightarrow> n \<noteq> Null \<and> node_data n = Some v \<and> (\<exists>q. node_prefix n = Some q \<and> pkey q = pkey pf \<and>
         (node_addr n, Some q, Some v) \<in># tents t)"
    using search_key [OF inv pf(2)] by blast
  show ?thesis
  proof (cases "trie_map t (net_bits p)")
    case None
    then show ?thesis using n trie_insert_spec [OF inv pf(2) _ room, of v] pf by (auto simp: trie_add_def)
  next
    case (Some v')
    then show ?thesis using n pf inv by (auto simp: trie_add_def node_val_def)
  qed
qed

lemma tents_remove:
  assumes inv: "trie_inv fam t" and rem: "tents t = add_mset (ptr, Some q, Some v) (tents t')"
    and tr: "tree_inv (fam_bits fam) (tree t')" "maxbits (tree t') = MAX_PREFIX_BITLEN"
    and c: "cache_ok (vals (tents t')) (val_cache t')"
  shows "trie_inv fam t'" "trie_map t' = (trie_map t)(pkey q := None)"
proof -
  show inv': "trie_inv fam t'"
    using trie_invD(1,4) [OF inv] tr c rem by (fastforce simp: trie_inv_def)
  have gone: "pkey q' \<noteq> pkey q" if "(a, Some q', Some v') \<in># tents t'" for a q' v'
  proof
    assume eq: "pkey q' = pkey q"
    have "(ptr, Some q, Some v) = (a, Some q', Some v')"
      using entry_unique [OF inv, of ptr q "Some v" a q' "Some v'"] rem that eq by simp
    then have "2 \<le> count (tents t) (ptr, Some q, Some v)" using that rem by (simp add: Suc_le_eq)
    also have "\<dots> \<le> count (cells (head (tree t))) (ptr, Some q, Some v)" by (simp add: ents_def)
    also have "\<dots> \<le> count (addrs (head (tree t))) (fst (ptr, Some q, Some v))" by (rule count_le_image)
    finally show False using tree_invD(4) [OF trie_invD(2) [OF inv]] by (metis One_nat_def Suc_1 not_less_eq_eq order_trans)
  qed
  show "trie_map t' = (trie_map t)(pkey q := None)"
  proof (rule trie_map_eqI [OF inv'])
    fix k v'
    show "((trie_map t)(pkey q := None)) k = Some v' \<longleftrightarrow> (\<exists>a q. (a, Some q, Some v') \<in># tents t' \<and> pkey q = k)"
      using trie_map_iff [OF inv, of k v'] gone by (cases "k = pkey q") (auto simp: rem)
  qed
qed

lemma trie_remove_spec:
  assumes inv: "trie_inv fam t" and p: "ip_shape p" "get_family p = fam"
  shows "\<exists>t' r. trie_remove t p v = Inr (t', r) \<and> trie_inv fam t' \<and> r = (trie_map t (net_bits p) = Some v) \<and>
    trie_map t' = (if r then (trie_map t)(net_bits p := None) else trie_map t)"
proof -
  obtain pf where pf: "make_key p = Inr (Some pf)" "fam_prefix fam pf" "pkey pf = net_bits p"
    using make_key_spec [OF p trie_invD(1) [OF inv]] by blast
  obtain n where n: "patricia_search_exact (tree t) (Some pf) = Inr n"
     "case trie_map t (pkey pf) of
       None \<Rightarrow> n = Null \<and> pkey pf \<notin> keys (head (tree t))
     | Some v \<Rightarrow> n \<noteq> Null \<and> node_data n = Some v \<and> (\<exists>q. node_prefix n = Some q \<and> pkey q = pkey pf \<and>
         (node_addr n, Some q, Some v) \<in># tents t)"
    using search_key [OF inv pf(2)] by blast
  show ?thesis
  proof (cases "trie_map t (net_bits p) = Some v")
    case False
    then show ?thesis using n pf inv by (auto simp: trie_remove_def node_val_def split: option.splits)
  next
    case True
    then obtain q where q: "n \<noteq> Null" "node_data n = Some v" "pkey q = net_bits p" "(node_addr n, Some q, Some v) \<in># tents t"
      using n(2) pf(3) by auto
    then have "(node_addr n, Some q, Some v) \<in># cells (head (tree t))" by (simp add: ents_cells)
    from patricia_remove_spec [OF trie_invD(2) [OF inv] this]
    obtain T' where T': "patricia_remove (tree t) (node_addr n) = Inr T'" "tree_inv (fam_bits fam) T'" "maxbits T' = maxbits (tree t)"
        "tents t = add_mset (node_addr n, Some q, Some v) (ents (head T'))"
      by (auto simp: tree_removed_def)
    obtain c where c: "cache_unref v (val_cache t) = Inr c" "cache_ok (vals (ents (head T'))) c"
      using cache_ok_unref [of v "vals (ents (head T'))" "val_cache t"] trie_invD(5) [OF inv] T'(4) by (auto simp: vals_def)
    let ?t = "\<lparr>tree = T', val_cache = c\<rparr>"
    have "trie_remove t p v = Inr (?t, True)" using n(1) pf(1) q T'(1) c(1) by (simp add: trie_remove_def node_val_def)
    then show ?thesis
      using tents_remove [OF inv, of "node_addr n" q v ?t] T' c(2) trie_invD(3) [OF inv] q(3) True by auto
  qed
qed

text \<open>Removing every entry of a value.\<close>

lemma remove_nodes_spec:
  assumes "tree_inv w T" "mset (map (\<lambda>n. (node_addr n, node_prefix n, node_data n)) ns) \<subseteq># ents (head T)"
  shows "\<exists>T'. remove_nodes T ns = Inr T' \<and> tree_inv w T' \<and> maxbits T' = maxbits T \<and>
    ents (head T) = ents (head T') + mset (map (\<lambda>n. (node_addr n, node_prefix n, node_data n)) ns)"
  using assms
proof (induction ns arbitrary: T)
  case (Cons n ns)
  let ?e = "(node_addr n, node_prefix n, node_data n)"
  have e: "?e \<in># ents (head T)" using Cons.prems(2) by (simp add: insert_subset_eq_iff)
  then obtain q where q: "node_prefix n = Some q" "(node_addr n, Some q, node_data n) \<in># cells (head T)"
    by (auto simp: ents_cells)
  obtain T1 where T1: "patricia_remove T (node_addr n) = Inr T1" "tree_inv w T1" "maxbits T1 = maxbits T"
      "ents (head T) = add_mset ?e (ents (head T1))"
    using patricia_remove_spec [OF Cons.prems(1) q(2)] q(1) unfolding tree_removed_def by metis
  then have "mset (map (\<lambda>n. (node_addr n, node_prefix n, node_data n)) ns) \<subseteq># ents (head T1)"
    using Cons.prems(2) by simp
  from Cons.IH [OF T1(2) this] obtain T' where "remove_nodes T1 ns = Inr T'" "tree_inv w T'" "maxbits T' = maxbits T1"
      "ents (head T1) = ents (head T') + mset (map (\<lambda>n. (node_addr n, node_prefix n, node_data n)) ns)"
    by blast
  with T1 show ?case by simp
qed auto

lemma vals_ran:
  assumes inv: "trie_inv fam t"
  shows "v \<in># vals (tents t) \<longleftrightarrow> v \<in> ran (trie_map t)"
proof -
  have "v \<in># vals (tents t) \<longleftrightarrow> (\<exists>a q. (a, Some q, Some v) \<in># tents t)"
    using trie_invD(4) [OF inv] by (force simp: vals_def)
  then show ?thesis by (auto simp: ran_def trie_map_iff [OF inv])
qed

lemma has_prefixes_spec: "trie_inv fam t \<Longrightarrow> has_prefixes t v \<longleftrightarrow> v \<in> ran (trie_map t)"
  using cache_ok_find [OF trie_invD(5)] vals_ran by (metis has_prefixes_def)

lemma trie_remove_val_spec:
  assumes inv: "trie_inv fam t"
  shows "\<exists>t' r. trie_remove_val t v = Inr (t', r) \<and> trie_inv fam t' \<and> r = (v \<in> ran (trie_map t)) \<and>
    trie_map t' = (\<lambda>k. if trie_map t k = Some v then None else trie_map t k)"
proof -
  note ran = vals_ran [OF inv, of v]
  show ?thesis
  proof (cases "v \<in># vals (tents t)")
    case False
    then have "smap_find (val_cache t) v = None" using cache_ok_find [OF trie_invD(5) [OF inv]] by blast
    moreover have "trie_map t = (\<lambda>k. if trie_map t k = Some v then None else trie_map t k)"
      using False ran by (auto simp: ran_def)
    ultimately show ?thesis using inv ran False by (auto simp: trie_remove_val_def)
  next
    case True
    let ?ns = "filter (\<lambda>n. node_data n = Some v) (preorder_nodes (head (tree t)))"
      and ?cell = "\<lambda>n. (node_addr n, node_prefix n, node_data n)"
    have ms: "mset (map ?cell ?ns) = filter_mset (\<lambda>(a, p, d). d = Some v) (tents t)"
      by (simp add: mset_preorder [symmetric] filter_mset_image_mset comp_def)
    then have "mset (map ?cell ?ns) \<subseteq># tents t" by simp
    from remove_nodes_spec [OF trie_invD(2) [OF inv] this] obtain T' where
      T': "remove_nodes (tree t) ?ns = Inr T'" "tree_inv (fam_bits fam) T'" "maxbits T' = maxbits (tree t)"
        "tents t = ents (head T') + mset (map ?cell ?ns)"
      by blast
    then have e': "ents (head T') = filter_mset (\<lambda>(a, p, d). d \<noteq> Some v) (tents t)"
      using ms multiset_partition [of "tents t" "\<lambda>(a, p, d). d = Some v"] by (simp add: case_prod_unfold add.commute)
    let ?t = "\<lparr>tree = T', val_cache = smap_erase v (val_cache t)\<rparr>"
    have run: "trie_remove_val t v = Inr (?t, True)"
      using True cache_ok_find [OF trie_invD(5) [OF inv], of v] patricia_walk_spec [OF trie_invD(2) [OF inv]] T'(1)
      by (auto simp: trie_remove_val_def)
    have vals': "vals (ents (head T')) = filter_mset (\<lambda>x. x \<noteq> v) (vals (tents t))"
      unfolding vals_def e' filter_mset_image_mset
      using trie_invD(4) [OF inv] by (intro arg_cong [where f = "image_mset _"] filter_mset_cong) fastforce+
    then have "cache_ok (vals (ents (head T'))) (smap_erase v (val_cache t))"
      using trie_invD(5) [OF inv] order_trans [OF size_filter_mset_lesseq [of "\<lambda>x. x \<noteq> v" "vals (tents t)"]]
      by (simp add: cache_ok_def)
    then have inv': "trie_inv fam ?t"
      using trie_invD(1,3,4) [OF inv] T'(2,3) e' by (fastforce simp: trie_inv_def)
    have "trie_map ?t = (\<lambda>k. if trie_map t k = Some v then None else trie_map t k)"
    proof (rule trie_map_eqI [OF inv'])
      fix k v'
      have "(if trie_map t k = Some v then None else trie_map t k) = Some v' \<longleftrightarrow> trie_map t k = Some v' \<and> v' \<noteq> v" by auto
      then show "(if trie_map t k = Some v then None else trie_map t k) = Some v' \<longleftrightarrow>
          (\<exists>a q. (a, Some q, Some v') \<in># tents ?t \<and> pkey q = k)"
        by (auto simp: e' trie_map_iff [OF inv])
    qed
    with run inv' ran True show ?thesis by auto
  qed
qed

section \<open>A new trie\<close>

lemma PatriciaTrie_spec:
  assumes "is_ip_family fam"
  shows "\<exists>t. PatriciaTrie = Inr t \<and> trie_inv fam t \<and> trie_map t = Map.empty"
  using assms
  by (auto simp: PatriciaTrie_def New_Patricia_def trie_inv_def tree_inv_def trie_map_def ents_def cache_ok_def vals_def
      is_ip_family_def get_addr_size_def)

lemma trie_clear_spec:
  assumes "trie_inv fam t"
  shows "\<exists>t'. trie_clear t = Inr t' \<and> trie_inv fam t' \<and> trie_map t' = Map.empty"
  using PatriciaTrie_spec [OF trie_invD(1) [OF assms]] Clear_Patricia_spec [OF trie_invD(2) [OF assms]]
  by (auto simp: trie_clear_def)

section \<open>Longest prefix match\<close>

text \<open>The reference: try the prefixes of the address from the longest down.\<close>

fun lpm_from :: "(bool list \<rightharpoonup> 'v) \<Rightarrow> bool list \<Rightarrow> nat \<Rightarrow> (bool list \<times> 'v) option" where
  "lpm_from m A 0 = map_option (Pair []) (m [])"
| "lpm_from m A (Suc n) = (case m (take (Suc n) A) of Some v \<Rightarrow> Some (take (Suc n) A, v) | None \<Rightarrow> lpm_from m A n)"

definition lpm :: "(bool list \<rightharpoonup> 'v) \<Rightarrow> bool list \<Rightarrow> (bool list \<times> 'v) option" where
  "lpm m A = lpm_from m A (length A)"

lemma lpm_from_None: "lpm_from m A n = None \<longleftrightarrow> (\<forall>i\<le>n. m (take i A) = None)"
  by (induction n) (auto split: option.splits simp: le_Suc_eq)

lemma lpm_from_Some:
  "j \<le> n \<Longrightarrow> m (take j A) = Some v \<Longrightarrow> (\<forall>i\<le>n. j < i \<longrightarrow> m (take i A) = None) \<Longrightarrow> lpm_from m A n = Some (take j A, v)"
proof (induction n)
  case (Suc n)
  then show ?case by (cases "j = Suc n") (auto split: option.splits)
qed auto

lemma lpm_None: "(\<And>k. prefix k A \<Longrightarrow> m k = None) \<Longrightarrow> lpm m A = None"
  by (simp add: lpm_def lpm_from_None take_is_prefix)

lemma lpm_Some:
  assumes "prefix k A" "m k = Some v" "\<And>k'. prefix k' A \<Longrightarrow> m k' \<noteq> None \<Longrightarrow> length k' \<le> length k"
  shows "lpm m A = Some (k, v)"
proof -
  have k: "take (length k) A = k" "length k \<le> length A" using assms(1) by (auto simp: prefix_def)
  have "m (take i A) = None" if "i \<le> length A" "length k < i" for i
    using assms(3) [OF take_is_prefix [of i A]] that by (cases "m (take i A)") auto
  then show ?thesis using lpm_from_Some [of "length k" "length A" m A v] k assms(2) by (simp add: lpm_def)
qed

lemma lpm_from_SomeD: "lpm_from m A n = Some (k, v) \<Longrightarrow>
    \<exists>j\<le>n. k = take j A \<and> m k = Some v \<and> (\<forall>i\<le>n. j < i \<longrightarrow> m (take i A) = None)"
proof (induction n)
  case (Suc n)
  show ?case
  proof (cases "m (take (Suc n) A)")
    case None
    with Suc obtain j where "j \<le> n" "k = take j A" "m k = Some v" "\<forall>i\<le>n. j < i \<longrightarrow> m (take i A) = None" by auto
    with None show ?thesis by (intro exI [of _ j]) (auto simp: le_Suc_eq)
  next
    case (Some w)
    with Suc show ?thesis by (intro exI [of _ "Suc n"]) auto
  qed
qed auto

lemma prefix_take: "prefix k A \<Longrightarrow> take (length k) A = k \<and> length k \<le> length A"
  by (auto simp: prefix_def)

lemma lpm_NoneD:
  assumes "lpm m A = None" "prefix k A"
  shows "m k = None"
proof -
  have "\<forall>i\<le>length A. m (take i A) = None" using assms(1) by (simp add: lpm_def lpm_from_None)
  then have "m (take (length k) A) = None" using prefix_take [OF assms(2)] by blast
  then show ?thesis using prefix_take [OF assms(2)] by simp
qed

lemma lpm_SomeD:
  assumes "lpm m A = Some (k, v)"
  shows "prefix k A" "m k = Some v" "\<And>k'. prefix k' A \<Longrightarrow> m k' \<noteq> None \<Longrightarrow> length k' \<le> length k"
proof -
  obtain j where j: "j \<le> length A" "k = take j A" "m k = Some v" "\<forall>i\<le>length A. j < i \<longrightarrow> m (take i A) = None"
    using lpm_from_SomeD [OF assms [unfolded lpm_def]] by blast
  show "prefix k A" "m k = Some v" using j by (simp_all add: take_is_prefix)
  show "length k' \<le> length k" if k': "prefix k' A" "m k' \<noteq> None" for k'
  proof (rule ccontr)
    assume "\<not> length k' \<le> length k"
    then have "j < length k'" "length k' \<le> length A" using j(1,2) prefix_take [OF k'(1)] by simp_all
    then have "m (take (length k') A) = None" using j(4) by blast
    then show False using prefix_take [OF k'(1)] k'(2) by simp
  qed
qed

text \<open>The \<open>IPPrefix\<close> of an entry.\<close>

definition prefix_ip :: "prefix_t \<Rightarrow> ip_prefix" where
  "prefix_ip q = (case IPPrefix_raw (pfx_family q) (Some (pfx_add q)) (pfx_bitlen q) of Inr r \<Rightarrow> r | Inl e \<Rightarrow> IPPrefix_INVALID)"

lemma prefix_ip_spec:
  assumes "fam_prefix fam q" "is_ip_family fam"
  shows "IPPrefix_raw (pfx_family q) (Some (pfx_add q)) (pfx_bitlen q) = Inr (prefix_ip q)"
    "wf_ip_prefix (prefix_ip q)" "get_family (prefix_ip q) = fam" "net_bits (prefix_ip q) = pkey q"
proof -
  have n: "get_addr_size fam \<noteq> USHRT_MAX" using assms(2) by (auto simp: is_ip_family_def get_addr_size_def)
  then obtain r where r: "IPPrefix_raw (pfx_family q) (Some (pfx_add q)) (pfx_bitlen q) = Inr r" "get_family r = fam" "get_length r = pfx_bitlen q"
    using assms(1) by (auto simp: IPPrefix_raw_def fam_prefix_def Let_def)
  then show "IPPrefix_raw (pfx_family q) (Some (pfx_add q)) (pfx_bitlen q) = Inr (prefix_ip q)"
    "wf_ip_prefix (prefix_ip q)" "get_family (prefix_ip q) = fam" "net_bits (prefix_ip q) = pkey q"
    using IPPrefix_raw_wf [OF r(1)] net_bits_raw [OF r(1)] by (simp_all add: prefix_ip_def pkey_def)
qed

lemma trie_lookup_spec:
  assumes inv: "trie_inv fam t" and p: "ip_shape p" "get_family p = fam"
    and short: "\<And>k. k \<in> dom (trie_map t) \<Longrightarrow> length k \<le> get_length p"
  shows "case lpm (trie_map t) (net_bits p) of
      None \<Rightarrow> trie_lookup t p want = Inr (None, None)
    | Some (k, v) \<Rightarrow> \<exists>r. wf_ip_prefix r \<and> get_family r = fam \<and> net_bits r = k \<and>
        trie_lookup t p want = Inr (Some v, if want then Some r else None)"
proof -
  note T = trie_invD(2) [OF inv] and dom = trie_map_None [OF inv]
  obtain pf where pf: "make_key p = Inr (Some pf)" "fam_prefix fam pf" "wf_prefix pf" "pfx_bitlen pf = get_length p" "pkey pf = net_bits p"
    using make_key_spec [OF p trie_invD(1) [OF inv]] by blast
  let ?A = "bits_of (pfx_add pf)" and ?n = "head (tree t)"
  have short': "length k \<le> pfx_bitlen pf" if "k \<in> keys ?n" for k
    using short [of k] that dom [of k] pf(4) by (auto simp: domIff)
  have pre: "prefix k ?A \<longleftrightarrow> prefix k (net_bits p)" if "k \<in> keys ?n" for k
  proof -
    have "net_bits p = take (pfx_bitlen pf) ?A" using pf(5) by (simp add: pkey_def)
    then show ?thesis using short' [OF that] by (auto simp: prefix_def) (metis append_eq_conv_conj append_take_drop_id take_take min.absorb1)
  qed
  have "pfx_bitlen pf \<le> maxbits (tree t)" using tree_invD(1) [OF T] pf(2) by (simp add: fam_prefix_def)
  with patricia_search_best_spec [OF T pf(3)] short' obtain n where
    n: "patricia_search_best (tree t) (Some pf) = Inr n" "longest_match ?A ?n n" by blast
  show ?thesis
  proof (cases "\<exists>k\<in>keys ?n. prefix k ?A")
    case False
    then have "trie_map t k = None" if "prefix k (net_bits p)" for k using that pre dom by blast
    then have "lpm (trie_map t) (net_bits p) = None" by (rule lpm_None)
    moreover have "n = Null" using n(2) False by (simp add: longest_match_def)
    ultimately show ?thesis using n(1) pf(1) by (simp add: trie_lookup_def)
  next
    case True
    with n(2) obtain a q d where q: "node_entry n = Some (a, q, d)" "(a, Some q, d) \<in># cells ?n" "prefix (pkey q) ?A"
        "\<forall>k\<in>keys ?n. prefix k ?A \<longrightarrow> length k \<le> pfx_bitlen q"
      by (auto simp: longest_match_def)
    then have e: "(a, Some q, d) \<in># tents t" by (simp add: ents_cells)
    then obtain v where v: "d = Some v" "fam_prefix fam q" using trie_invD(4) [OF inv] by blast
    have "trie_map t (pkey q) = Some v" using e v(1) by (auto simp: trie_map_iff [OF inv])
    moreover have "length (pkey q) = pfx_bitlen q" using fam_prefix_wf [OF v(2)] by simp
    ultimately have "lpm (trie_map t) (net_bits p) = Some (pkey q, v)"
      using q(3,4) pre keysI [OF q(2)] dom by (intro lpm_Some) auto
    moreover have "n \<noteq> Null \<and> node_data n = d \<and> node_prefix n = Some q"
      using q(1) by (cases n rule: node_entry.cases) auto
    ultimately show ?thesis
      using n(1) pf(1) v(1) prefix_ip_spec [OF v(2) trie_invD(1) [OF inv]] by (auto simp: trie_lookup_def)
  qed
qed

lemma trie_lookup_host:
  assumes inv: "trie_inv fam t" and p: "ip_shape p" "get_family p = fam" "get_length p = fam_bits fam"
  shows "case lpm (trie_map t) (net_bits p) of
      None \<Rightarrow> trie_lookup t p want = Inr (None, None)
    | Some (k, v) \<Rightarrow> \<exists>r. wf_ip_prefix r \<and> get_family r = fam \<and> net_bits r = k \<and>
        trie_lookup t p want = Inr (Some v, if want then Some r else None)"
proof (rule trie_lookup_spec [OF inv p(1,2)])
  show "length k \<le> get_length p" if "k \<in> dom (trie_map t)" for k
    using wf_node_length [OF tree_invD(3) [OF trie_invD(2) [OF inv]], of k] that trie_map_None [OF inv, of k] p(3)
    by (auto simp: domIff)
qed

end
