(* ===== verification/Trie_List.thy ===== *)
theory Trie_List
  imports Trie_Ops
begin

text \<open>
  Listing and copying: the prefixes of a value, the enumeration of all values and the copy of a
  trie, on tries of one address family.
\<close>

section \<open>Listing prefixes\<close>

text \<open>The nodes of a walk as the other operations see them: an entry each, keys distinct.\<close>

abbreviation node_key :: "'v pnode \<Rightarrow> bool list" where "node_key n \<equiv> pkey (the (node_prefix n))"

lemma preorder_keys: "node_key ` set (preorder_nodes n) = keys n"
  by (induction n) (auto simp: keys_Node image_Un split: option.splits)

lemma distinct_preorder_keys: "wf_node m L n \<Longrightarrow> distinct (map node_key (preorder_nodes n))"
proof (induction n arbitrary: L)
  case (Node a b p d l r)
  then obtain K where K: "wf_node m (K @ [False]) l" "wf_node m (K @ [True]) r" "\<And>q. p = Some q \<Longrightarrow> pkey q = K"
      "\<And>k. k \<in> keys l \<Longrightarrow> prefix (K @ [False]) k" "\<And>k. k \<in> keys r \<Longrightarrow> prefix (K @ [True]) k"
    by (elim wf_Node_label) blast
  have "keys l \<inter> keys r = {}" using K(4,5) prefix_both_sides by blast
  moreover have "K \<notin> keys l" "K \<notin> keys r" using K(4) [of K] K(5) [of K] by (auto dest: prefix_length_le)
  ultimately show ?case using Node.IH K(1-3) by (auto simp: preorder_keys)
qed simp

definition entry_node :: "int \<Rightarrow> 'v pnode \<Rightarrow> bool" where
  "entry_node fam n \<longleftrightarrow> (\<exists>q v. node_prefix n = Some q \<and> node_data n = Some v \<and> fam_prefix fam q)"

lemma trie_entry_nodes:
  assumes "trie_inv fam t"
  shows "walk_loop (head (tree t)) [] = Inr (preorder_nodes (head (tree t)))"
    "\<forall>n\<in>set (preorder_nodes (head (tree t))). entry_node fam n"
    "distinct (map node_key (preorder_nodes (head (tree t))))"
proof -
  show "walk_loop (head (tree t)) [] = Inr (preorder_nodes (head (tree t)))"
    by (rule patricia_walk_spec [OF trie_invD(2) [OF assms]])
  show "\<forall>n\<in>set (preorder_nodes (head (tree t))). entry_node fam n"
    using set_preorder(1) trie_invD(4) [OF assms] by (fastforce simp: entry_node_def)
  show "distinct (map node_key (preorder_nodes (head (tree t))))"
    by (rule distinct_preorder_keys [OF tree_invD(3) [OF trie_invD(2) [OF assms]]])
qed

definition val_prefixes :: "'v \<Rightarrow> 'v pnode list \<Rightarrow> ip_prefix list" where
  "val_prefixes v ns = map (\<lambda>n. prefix_ip (the (node_prefix n))) (filter (\<lambda>n. node_data n = Some v) ns)"

lemma node_ip_spec: "entry_node fam n \<Longrightarrow> is_ip_family fam \<Longrightarrow> node_ip n = Inr [prefix_ip (the (node_prefix n))]"
  using prefix_ip_spec(1) by (fastforce simp: entry_node_def node_ip_def is_ip_family_def fam_prefix_def)

lemma get_prefixes_loop_spec:
  "is_ip_family fam \<Longrightarrow> \<forall>n\<in>set ns. entry_node fam n \<Longrightarrow> get_prefixes_loop v ns = Inr (val_prefixes v ns)"
proof (induction ns)
  case (Cons n ns)
  then obtain v' where "node_data n = Some v'" by (auto simp: entry_node_def)
  with Cons node_ip_spec [of fam n] show ?case by (auto simp: val_prefixes_def node_val_def)
qed (simp add: val_prefixes_def)

lemma val_prefixes_set:
  assumes inv: "trie_inv fam t"
  shows "set (val_prefixes v (preorder_nodes (head (tree t)))) =
      {r. wf_ip_prefix r \<and> get_family r = fam \<and> trie_map t (net_bits r) = Some v}"
    and "distinct (val_prefixes v (preorder_nodes (head (tree t))))"
proof -
  let ?ns = "preorder_nodes (head (tree t))" and ?ip = "\<lambda>n. prefix_ip (the (node_prefix n))"
  note nodes = trie_entry_nodes [OF inv]
  have ip: "wf_ip_prefix (?ip n)" "get_family (?ip n) = fam" "net_bits (?ip n) = node_key n" if "n \<in> set ?ns" for n
    using nodes(2) that prefix_ip_spec(2-4) [OF _ trie_invD(1) [OF inv]] by (fastforce simp: entry_node_def)+
  have tm: "trie_map t k = Some v \<longleftrightarrow> (\<exists>n\<in>set ?ns. node_key n = k \<and> node_data n = Some v)" for k
  proof -
    have "(\<exists>n\<in>set ?ns. node_key n = k \<and> node_data n = Some v) \<longleftrightarrow> (\<exists>a q. (a, Some q, Some v) \<in># tents t \<and> pkey q = k)"
    proof
      assume "\<exists>n\<in>set ?ns. node_key n = k \<and> node_data n = Some v"
      then obtain n q where n: "n \<in> set ?ns" "node_key n = k" "node_data n = Some v" "node_prefix n = Some q"
        using nodes(2) unfolding entry_node_def by blast
      from set_preorder(1) [OF n(1)] n(2-4) show "\<exists>a q. (a, Some q, Some v) \<in># tents t \<and> pkey q = k" by auto
    next
      assume "\<exists>a q. (a, Some q, Some v) \<in># tents t \<and> pkey q = k"
      then obtain a q where e: "(a, Some q, Some v) \<in># tents t" "pkey q = k" by blast
      from set_preorder(2) [OF e(1)] obtain n where "n \<in> set ?ns" "node_prefix n = Some q" "node_data n = Some v" by auto
      with e(2) show "\<exists>n\<in>set ?ns. node_key n = k \<and> node_data n = Some v" by (intro bexI [of _ n]) auto
    qed
    then show ?thesis by (simp add: trie_map_iff [OF inv])
  qed
  have "r = ?ip n" if "wf_ip_prefix r" "get_family r = fam" "net_bits r = node_key n" "n \<in> set ?ns" for r n
    using that ip [OF that(4)] length_net_bits [of r] length_net_bits [of "?ip n"] by (intro wf_ip_prefix_eqI) auto
  note uniq = this
  show "set (val_prefixes v ?ns) = {r. wf_ip_prefix r \<and> get_family r = fam \<and> trie_map t (net_bits r) = Some v}"
  proof (intro set_eqI iffI)
    fix r
    assume "r \<in> set (val_prefixes v ?ns)"
    then show "r \<in> {r. wf_ip_prefix r \<and> get_family r = fam \<and> trie_map t (net_bits r) = Some v}"
      using ip by (auto simp: val_prefixes_def tm)
  next
    fix r
    assume r: "r \<in> {r. wf_ip_prefix r \<and> get_family r = fam \<and> trie_map t (net_bits r) = Some v}"
    then obtain n where n: "n \<in> set ?ns" "node_key n = net_bits r" "node_data n = Some v" by (auto simp: tm)
    then have "r = ?ip n" using r uniq [of r n] by simp
    then show "r \<in> set (val_prefixes v ?ns)" using n by (simp add: val_prefixes_def)
  qed
  have "inj_on ?ip (set ?ns)"
    using nodes(3) ip(3) by (intro inj_onI) (metis distinct_map inj_on_def)
  moreover have "distinct ?ns" using nodes(3) by (simp add: distinct_map)
  ultimately show "distinct (val_prefixes v ?ns)"
    by (auto simp: val_prefixes_def distinct_map intro: inj_on_subset)
qed

lemma get_prefixes_spec:
  assumes inv: "trie_inv fam t"
  shows "\<exists>rs. get_prefixes t v = Inr rs \<and> distinct rs \<and>
    set rs = {r. wf_ip_prefix r \<and> get_family r = fam \<and> trie_map t (net_bits r) = Some v}"
  using trie_entry_nodes(1) [OF inv] get_prefixes_loop_spec [OF trie_invD(1) [OF inv] trie_entry_nodes(2) [OF inv], of v]
    val_prefixes_set [OF inv, of v]
  by (simp add: get_prefixes_def)

text \<open>Enumerating: each value of the caller's vector gets the prefixes that map to it.\<close>

lemma val_to_idx_inv: "smap_inv m \<Longrightarrow> smap_inv (val_to_idx rs i m)"
  by (induction rs i m rule: val_to_idx.induct) auto

lemma val_to_idx_other:
  "smap_inv m \<Longrightarrow> v \<notin> fst ` set rs \<Longrightarrow> smap_find (val_to_idx rs i m) v = smap_find m v"
  by (induction rs i m rule: val_to_idx.induct) auto

lemma val_to_idx_nth:
  "smap_inv m \<Longrightarrow> distinct (map fst rs) \<Longrightarrow> j < length rs \<Longrightarrow> smap_find (val_to_idx rs i m) (fst (rs ! j)) = Some (i + j)"
proof (induction rs i m arbitrary: j rule: val_to_idx.induct)
  case (2 u b rs i m)
  then show ?case by (cases j) (auto simp: val_to_idx_other)
qed auto

lemma val_to_idx_find:
  assumes "distinct (map fst rs)"
  shows "smap_find (val_to_idx rs 0 []) v = Some i \<longleftrightarrow> i < length rs \<and> fst (rs ! i) = v"
proof (cases "v \<in> fst ` set rs")
  case True
  then obtain j where "j < length rs" "fst (rs ! j) = v" by (auto simp: in_set_conv_nth)
  moreover from this have "smap_find (val_to_idx rs 0 []) v = Some j" using val_to_idx_nth [of "[]" rs j 0] assms by auto
  ultimately show ?thesis
    using assms nth_eq_iff_index_eq [of "map fst rs" i j] by (metis length_map nth_map option.inject val_to_idx_nth smap_inv_simps(1) add_0)
next
  case False
  then show ?thesis using val_to_idx_other [of "[]" v rs 0] by auto
qed

lemma enumerate_loop_spec:
  assumes "is_ip_family fam" "\<forall>n\<in>set ns. entry_node fam n" "distinct (map fst res)"
    and "\<And>v i. smap_find idx v = Some i \<longleftrightarrow> i < length res \<and> fst (res ! i) = v"
  shows "enumerate_loop idx ns res = Inr (map (\<lambda>(v, ps). (v, ps @ val_prefixes v ns)) res)"
  using assms(2-)
proof (induction ns arbitrary: res)
  case (Cons n ns)
  then obtain v where v: "node_data n = Some v" by (auto simp: entry_node_def)
  let ?r = "prefix_ip (the (node_prefix n))"
  show ?case
  proof (cases "smap_find idx v")
    case None
    then have "fst e \<noteq> v" if "e \<in> set res" for e
      using that Cons.prems(3) [of v] by (metis in_set_conv_nth not_Some_eq)
    then have "map (\<lambda>(w, ps). (w, ps @ val_prefixes w ns)) res = map (\<lambda>(w, ps). (w, ps @ val_prefixes w (n # ns))) res"
      using v by (intro map_cong) (force simp: val_prefixes_def)+
    then show ?thesis using Cons None v by (simp add: node_val_def)
  next
    case (Some i)
    let ?res = "res[i := (fst (res ! i), snd (res ! i) @ [?r])]"
    have i: "i < length res" "fst (res ! i) = v" using Some Cons.prems(3) by blast+
    have f: "map fst ?res = map fst res" using i by (simp add: map_update) (metis length_map list_update_id nth_map)
    then have fst: "fst (?res ! j) = fst (res ! j)" if "j < length res" for j using that by (metis length_map length_list_update nth_map)
    have "enumerate_loop idx ns ?res = Inr (map (\<lambda>(v, ps). (v, ps @ val_prefixes v ns)) ?res)"
      using Cons.prems f fst by (intro Cons.IH) auto
    moreover have "map (\<lambda>(v, ps). (v, ps @ val_prefixes v ns)) ?res = map (\<lambda>(v, ps). (v, ps @ val_prefixes v (n # ns))) res"
    proof (rule nth_equalityI)
      fix j
      assume "j < length (map (\<lambda>(v, ps). (v, ps @ val_prefixes v ns)) ?res)"
      then have j: "j < length res" by simp
      have "fst (res ! j) = v \<longleftrightarrow> j = i"
        using i j Cons.prems(2) by (metis distinct_conv_nth length_map nth_map)
      then show "map (\<lambda>(v, ps). (v, ps @ val_prefixes v ns)) ?res ! j = map (\<lambda>(v, ps). (v, ps @ val_prefixes v (n # ns))) res ! j"
        using j v by (cases "res ! j"; cases "res ! i") (auto simp: nth_list_update val_prefixes_def)
    qed simp
    ultimately show ?thesis
      using Some v node_ip_spec [OF _ assms(1), of n] Cons.prems(1) by (simp add: node_val_def)
  qed
qed (simp add: val_prefixes_def)

lemma cache_keys:
  assumes "trie_inv fam t"
  shows "distinct (map fst (val_cache t))" "set (enumerate_values t) = ran (trie_map t)"
proof -
  have "smap_inv (val_cache t)" using trie_invD(5) [OF assms] by (simp add: cache_ok_def)
  then show "distinct (map fst (val_cache t))" by (rule smap_inv_distinct)
  show "set (enumerate_values t) = ran (trie_map t)"
    using smap_find_None_iff [of "val_cache t"] cache_ok_find [OF trie_invD(5) [OF assms]] vals_ran [OF assms]
    by (auto simp: enumerate_values_def image_iff)
qed

lemma trie_enumerate_spec:
  assumes inv: "trie_inv fam t" and res: "distinct (map fst res)"
  defines "res' \<equiv> if res = [] then map (\<lambda>v. (v, [])) (enumerate_values t) else res"
  shows "\<exists>f. (\<forall>v. get_prefixes t v = Inr (f v)) \<and> trie_enumerate t res = Inr (map (\<lambda>(v, ps). (v, ps @ f v)) res')"
proof -
  note nodes = trie_entry_nodes [OF inv]
  have res'_eq: "(if res = [] then map (\<lambda>e. (fst e, [])) (val_cache t) else res) = res'"
    by (simp add: res'_def enumerate_values_def comp_def)
  have d: "distinct (map fst res')" using res cache_keys(1) [OF inv] by (auto simp: res'_def enumerate_values_def comp_def)
  have idx: "smap_find (val_to_idx res' 0 []) v = Some i \<longleftrightarrow> i < length res' \<and> fst (res' ! i) = v" for v i
    by (rule val_to_idx_find [OF d])
  show ?thesis
    using nodes(1) get_prefixes_loop_spec [OF trie_invD(1) [OF inv] nodes(2)]
      enumerate_loop_spec [OF trie_invD(1) [OF inv] nodes(2) d idx]
    by (intro exI [of _ "\<lambda>v. val_prefixes v (preorder_nodes (head (tree t)))"])
      (auto simp: trie_enumerate_def get_prefixes_def res'_eq Let_def)
qed

section \<open>Copying\<close>

lemma New_Prefix_same: "fam_prefix fam q \<Longrightarrow> is_ip_family fam \<Longrightarrow> New_Prefix (pfx_family q) (pfx_add q) (int (pfx_bitlen q)) = Inr (Some q)"
  by (auto simp: New_Prefix_def fam_prefix_def is_ip_family_def get_addr_size_def to_ushort_def)

lemma copy_loop_spec:
  assumes "trie_inv fam t" "\<forall>n\<in>set ns. entry_node fam n" "distinct (map node_key ns)"
    "node_key ` set ns \<inter> dom (trie_map t) = {}" "card (dom (trie_map t)) + length ns \<le> UINT_MAX"
  shows "\<exists>t'. copy_loop ns t = Inr t' \<and> trie_inv fam t' \<and>
    trie_map t' = trie_map t ++ map_of (map (\<lambda>n. (node_key n, the (node_data n))) ns)"
  using assms
proof (induction ns arbitrary: t)
  case (Cons n ns)
  then obtain q v where n: "node_prefix n = Some q" "node_data n = Some v" "fam_prefix fam q" by (auto simp: entry_node_def)
  have "pkey q \<notin> keys (head (tree t))" using Cons.prems(4) n(1) trie_map_None [OF Cons.prems(1)] by (auto simp: domIff)
  moreover have "card (dom (trie_map t)) < UINT_MAX" using Cons.prems(5) by simp
  ultimately obtain t1 where t1: "trie_insert t (Some q) v = Inr t1" "trie_inv fam t1" "trie_map t1 = (trie_map t)(pkey q \<mapsto> v)"
    using trie_insert_spec [OF Cons.prems(1) n(3)] by blast
  have "finite (dom (trie_map t))" by (simp add: trie_map_def finite_dom_map_of)
  then have "card (dom (trie_map t1)) + length ns \<le> UINT_MAX" using Cons.prems(5) by (simp add: t1(3) card_insert_if)
  moreover have "node_key ` set ns \<inter> dom (trie_map t1) = {}" using Cons.prems(3,4) n(1) by (auto simp: t1(3))
  ultimately have "\<exists>t'. copy_loop ns t1 = Inr t' \<and> trie_inv fam t' \<and>
      trie_map t' = trie_map t1 ++ map_of (map (\<lambda>n. (node_key n, the (node_data n))) ns)"
    using Cons.prems(2,3) t1(2) by (intro Cons.IH) auto
  moreover have "(trie_map t)(pkey q \<mapsto> v) ++ map_of (map (\<lambda>n. (node_key n, the (node_data n))) ns) =
      trie_map t ++ map_of (map (\<lambda>n. (node_key n, the (node_data n))) (n # ns))"
  proof -
    have "pkey q \<notin> dom (map_of (map (\<lambda>n. (node_key n, the (node_data n))) ns))"
      using Cons.prems(3) n(1) by (auto simp: dom_map_of_conv_image_fst)
    then show ?thesis using n by (simp add: map_add_upd_left)
  qed
  moreover have "copy_loop (n # ns) t = copy_loop ns t1"
    using n t1 New_Prefix_same [OF n(3) trie_invD(1) [OF Cons.prems(1)]] by (simp add: node_val_def)
  ultimately show ?case unfolding t1(3) by metis
qed auto

lemma copy_from_spec:
  assumes t: "trie_inv fam t" and rhs: "trie_inv fam rhs"
  shows "\<exists>t'. copy_from t rhs = Inr t' \<and> trie_inv fam t' \<and> trie_map t' = trie_map rhs"
proof -
  obtain t0 where t0: "trie_clear t = Inr t0" "trie_inv fam t0" "trie_map t0 = Map.empty" using trie_clear_spec [OF t] by blast
  let ?ns = "preorder_nodes (head (tree rhs))"
  note nodes = trie_entry_nodes [OF rhs]
  have "length ?ns = size (tents rhs)" by (simp add: mset_preorder [symmetric])
  also have "\<dots> \<le> UINT_MAX" using trie_invD(5) [OF rhs] by (simp add: cache_ok_def vals_def)
  finally show ?thesis
    using copy_loop_spec [OF t0(2) nodes(2,3)] t0 nodes(1) by (simp add: copy_from_def trie_map_def [of rhs])
qed

end
