(* ===== verification/Prefix_Table.thy ===== *)
theory Prefix_Table
  imports Trie_List
begin

text \<open>
  The contract the PID maps rely on: a table from IP prefixes of one address family to values,
  with longest-prefix lookup. The operations may fail with an error value; the laws say that they
  do not, and what they do to the map the table stands for. \<open>PatriciaTrie\<close> satisfies the contract
  for IPv4 and for IPv6.
\<close>

text \<open>A sequence of additions, as a loader performs it, whatever the table.\<close>

fun add_all :: "('t \<Rightarrow> ip_prefix \<Rightarrow> 'v \<Rightarrow> ('t \<times> bool) result) \<Rightarrow> 't \<Rightarrow> (ip_prefix \<times> 'v) list \<Rightarrow> 't result" where
  "add_all add t [] = Inr t"
| "add_all add t ((p, v) # es) = bindE (add t p v) (\<lambda>(t', r). add_all add t' es)"

locale prefix_table =
  fixes fam :: int
    and tinv :: "'t \<Rightarrow> bool"
    and tmap :: "'t \<Rightarrow> bool list \<rightharpoonup> 'v"
    and tnew :: "'t result"
    and tadd :: "'t \<Rightarrow> ip_prefix \<Rightarrow> 'v \<Rightarrow> ('t \<times> bool) result"
    and tremove :: "'t \<Rightarrow> ip_prefix \<Rightarrow> 'v \<Rightarrow> ('t \<times> bool) result"
    and tlookup :: "'t \<Rightarrow> ip_prefix \<Rightarrow> bool \<Rightarrow> ('v option \<times> ip_prefix option) result"
  assumes family_law: "is_ip_family fam"
    and new_law: "\<exists>t. tnew = Inr t \<and> tinv t \<and> tmap t = Map.empty"
    and finite_law: "tinv t \<Longrightarrow> finite (dom (tmap t))"
    and add_law: "tinv t \<Longrightarrow> ip_shape p \<Longrightarrow> get_family p = fam \<Longrightarrow> card (dom (tmap t)) < UINT_MAX \<Longrightarrow>
      \<exists>t' r. tadd t p v = Inr (t', r) \<and> tinv t' \<and>
        (case tmap t (net_bits p) of
           None \<Rightarrow> r \<and> tmap t' = (tmap t)(net_bits p \<mapsto> v)
         | Some v' \<Rightarrow> t' = t \<and> r = (v = v'))"
    and remove_law: "tinv t \<Longrightarrow> ip_shape p \<Longrightarrow> get_family p = fam \<Longrightarrow>
      \<exists>t' r. tremove t p v = Inr (t', r) \<and> tinv t' \<and> r = (tmap t (net_bits p) = Some v) \<and>
        tmap t' = (if r then (tmap t)(net_bits p := None) else tmap t)"
    and lookup_law: "tinv t \<Longrightarrow> ip_shape p \<Longrightarrow> get_family p = fam \<Longrightarrow>
      (\<And>k. k \<in> dom (tmap t) \<Longrightarrow> length k \<le> get_length p) \<Longrightarrow>
      (case lpm (tmap t) (net_bits p) of
         None \<Rightarrow> tlookup t p want = Inr (None, None)
       | Some (k, v) \<Rightarrow> \<exists>r. wf_ip_prefix r \<and> get_family r = fam \<and> net_bits r = k \<and>
           tlookup t p want = Inr (Some v, if want then Some r else None))"
begin

text \<open>Removing what was just added restores the map.\<close>

lemma add_remove:
  assumes "tinv t" "ip_shape p" "get_family p = fam" "card (dom (tmap t)) < UINT_MAX" "tmap t (net_bits p) = None"
  shows "\<exists>t1 t2. tadd t p v = Inr (t1, True) \<and> tremove t1 p v = Inr (t2, True) \<and> tinv t2 \<and> tmap t2 = tmap t"
proof -
  obtain t1 where t1: "tadd t p v = Inr (t1, True)" "tinv t1" "tmap t1 = (tmap t)(net_bits p \<mapsto> v)"
    using add_law [OF assms(1-4), of v] assms(5) by auto
  then show ?thesis using remove_law [OF t1(2) assms(2,3), of v] assms(5) by (auto simp: fun_upd_idem)
qed

text \<open>The first value of a prefix is kept.\<close>

lemma add_all_spec:
  assumes "tinv t" "\<forall>(p, v)\<in>set es. ip_shape p \<and> get_family p = fam"
    and "card (dom (tmap t)) + length es \<le> UINT_MAX"
  shows "\<exists>t'. add_all tadd t es = Inr t' \<and> tinv t' \<and> tmap t' = map_of (map (\<lambda>(p, v). (net_bits p, v)) es) ++ tmap t"
  using assms
proof (induction es arbitrary: t)
  case (Cons e es)
  obtain p v where e: "e = (p, v)" by (cases e)
  have p: "ip_shape p" "get_family p = fam" "card (dom (tmap t)) < UINT_MAX" using Cons.prems e by auto
  obtain t1 r where t1: "tadd t p v = Inr (t1, r)" "tinv t1"
      "case tmap t (net_bits p) of None \<Rightarrow> tmap t1 = (tmap t)(net_bits p \<mapsto> v) | Some v' \<Rightarrow> t1 = t"
    using add_law [OF Cons.prems(1) p, of v] by (auto split: option.splits)
  have dom: "card (dom (tmap t1)) \<le> Suc (card (dom (tmap t)))"
    using t1(3) finite_law [OF Cons.prems(1)] by (auto simp: card_insert_if split: option.splits)
  have m: "m ++ tmap t1 = m(net_bits p \<mapsto> v) ++ tmap t" for m
    using t1(3) by (cases "tmap t (net_bits p)") (auto simp: map_add_def split: option.splits)
  obtain t' where "add_all tadd t1 es = Inr t'" "tinv t'" "tmap t' = map_of (map (\<lambda>(p, v). (net_bits p, v)) es) ++ tmap t1"
    using Cons.IH [OF t1(2)] Cons.prems(2,3) dom by fastforce
  then show ?case using t1(1) m e by (auto simp: fun_upd_def)
qed simp

text \<open>Looking an address up in what was loaded.\<close>

lemma load_lookup:
  assumes "\<forall>(p, v)\<in>set es. ip_shape p \<and> get_family p = fam \<and> get_length p \<le> get_length a" "length es \<le> UINT_MAX"
    and "ip_shape a" "get_family a = fam"
  shows "\<exists>t0 t. tnew = Inr t0 \<and> add_all tadd t0 es = Inr t \<and> tinv t \<and>
    (\<exists>out. tlookup t a want = Inr (map_option snd (lpm (map_of (map (\<lambda>(p, v). (net_bits p, v)) es)) (net_bits a)), out))"
proof -
  let ?m = "map_of (map (\<lambda>(p, v). (net_bits p, v)) es)"
  obtain t0 where t0: "tnew = Inr t0" "tinv t0" "tmap t0 = Map.empty" using new_law by blast
  obtain t where t: "add_all tadd t0 es = Inr t" "tinv t" "tmap t = ?m"
    using add_all_spec [OF t0(2), of es] assms(1,2) t0(3) by auto
  have "length k \<le> get_length a" if k: "k \<in> dom (tmap t)" for k
  proof -
    obtain p v where "(p, v) \<in> set es" "k = net_bits p" using k by (auto simp: t(3) dom_map_of_conv_image_fst)
    then show ?thesis using assms(1) length_net_bits_shape [of p] family_law by auto
  qed
  from lookup_law [OF t(2) assms(3,4) this, of want] show ?thesis
    using t0(1) t by (auto split: option.splits)
qed

end

lemma finite_trie_map: "finite (dom (trie_map t))"
  by (simp add: trie_map_def finite_dom_map_of)

interpretation v4: prefix_table AF_INET "trie_inv AF_INET" trie_map PatriciaTrie trie_add trie_remove trie_lookup
  by unfold_locales
    ((simp add: is_ip_family_def; fail) | rule PatriciaTrie_spec trie_add_spec trie_remove_spec trie_lookup_spec finite_trie_map; simp add: is_ip_family_def)+

interpretation v6: prefix_table AF_INET6 "trie_inv AF_INET6" trie_map PatriciaTrie trie_add trie_remove trie_lookup
  by unfold_locales
    ((simp add: is_ip_family_def; fail) | rule PatriciaTrie_spec trie_add_spec trie_remove_spec trie_lookup_spec finite_trie_map; simp add: is_ip_family_def)+

end
