(* ===== verification/Trie_Properties.thy ===== *)
theory Trie_Properties
  imports Prefix_Table
begin

text \<open>
  The properties of the trie: sequences of operations against the reference map, longest-prefix
  lookup, listing, copying, destruction, and what happens outside the conditions under which the
  trie is correct.
\<close>

section \<open>Sequences of operations\<close>

datatype 'v trie_op = Op_add ip_prefix 'v | Op_remove ip_prefix 'v | Op_remove_val 'v | Op_clear

fun trie_step :: "'v::linorder patricia_trie \<Rightarrow> 'v trie_op \<Rightarrow> ('v patricia_trie \<times> bool) result" where
  "trie_step t (Op_add p v) = trie_add t p v"
| "trie_step t (Op_remove p v) = trie_remove t p v"
| "trie_step t (Op_remove_val v) = trie_remove_val t v"
| "trie_step t Op_clear = bindE (trie_clear t) (\<lambda>t'. Inr (t', True))"

fun trie_run :: "'v::linorder patricia_trie \<Rightarrow> 'v trie_op list \<Rightarrow> ('v patricia_trie \<times> bool list) result" where
  "trie_run t [] = Inr (t, [])"
| "trie_run t (op # ops) =
     bindE (trie_step t op) (\<lambda>(t', r). bindE (trie_run t' ops) (\<lambda>(t'', rs). Inr (t'', r # rs)))"

text \<open>The reference: the same operations on a map from network bits to values.\<close>

fun map_step :: "(bool list \<rightharpoonup> 'v) \<Rightarrow> 'v trie_op \<Rightarrow> (bool list \<rightharpoonup> 'v) \<times> bool" where
  "map_step m (Op_add p v) =
     (case m (net_bits p) of None \<Rightarrow> (m(net_bits p \<mapsto> v), True) | Some v' \<Rightarrow> (m, v = v'))"
| "map_step m (Op_remove p v) =
     (if m (net_bits p) = Some v then (m(net_bits p := None), True) else (m, False))"
| "map_step m (Op_remove_val v) = (\<lambda>k. if m k = Some v then None else m k, v \<in> ran m)"
| "map_step m Op_clear = (Map.empty, True)"

fun map_run :: "(bool list \<rightharpoonup> 'v) \<Rightarrow> 'v trie_op list \<Rightarrow> (bool list \<rightharpoonup> 'v) \<times> bool list" where
  "map_run m [] = (m, [])"
| "map_run m (op # ops) =
     (let (m', r) = map_step m op; (m'', rs) = map_run m' ops in (m'', r # rs))"

fun op_ok :: "int \<Rightarrow> 'v trie_op \<Rightarrow> bool" where
  "op_ok fam (Op_add p v) = (ip_shape p \<and> get_family p = fam)"
| "op_ok fam (Op_remove p v) = (ip_shape p \<and> get_family p = fam)"
| "op_ok fam op = True"

lemma trie_step_spec:
  assumes inv: "trie_inv fam t" and op: "op_ok fam op" and room: "card (dom (trie_map t)) < UINT_MAX"
  shows "\<exists>t' r. trie_step t op = Inr (t', r) \<and> trie_inv fam t' \<and> map_step (trie_map t) op = (trie_map t', r) \<and>
    card (dom (trie_map t')) \<le> Suc (card (dom (trie_map t)))"
proof -
  have "\<exists>t' r. trie_step t op = Inr (t', r) \<and> trie_inv fam t' \<and> map_step (trie_map t) op = (trie_map t', r)"
  proof (cases op)
    case (Op_add p v)
    then obtain t' r where "trie_add t p v = Inr (t', r)" "trie_inv fam t'"
        "case trie_map t (net_bits p) of None \<Rightarrow> r \<and> trie_map t' = (trie_map t)(net_bits p \<mapsto> v) | Some v' \<Rightarrow> t' = t \<and> r = (v = v')"
      using trie_add_spec [OF inv _ _ room, of p v] op by auto
    then show ?thesis using Op_add by (auto split: option.splits)
  next
    case (Op_remove p v)
    then show ?thesis using trie_remove_spec [OF inv, of p v] op by auto
  next
    case (Op_remove_val v)
    then show ?thesis using trie_remove_val_spec [OF inv, of v] by auto
  next
    case Op_clear
    then show ?thesis using trie_clear_spec [OF inv] by auto
  qed
  then obtain t' r where s: "trie_step t op = Inr (t', r)" "trie_inv fam t'" "map_step (trie_map t) op = (trie_map t', r)"
    by blast
  have "card (dom (fst (map_step m op))) \<le> Suc (card (dom m))" if fin: "finite (dom m)" for m
  proof (cases op)
    case (Op_add p v)
    then show ?thesis using fin by (auto simp: card_insert_if split: option.splits)
  next
    case (Op_remove p v)
    then show ?thesis using fin by (auto simp: card_Diff_singleton_if)
  next
    case (Op_remove_val v)
    have "dom (\<lambda>k. if m k = Some v then None else m k) \<subseteq> dom m" by (auto split: if_splits)
    then show ?thesis using card_mono [OF fin] Op_remove_val by (metis fst_conv le_SucI map_step.simps(3))
  qed simp
  from this [OF finite_trie_map, of t] s show ?thesis by auto
qed

lemma trie_run_spec:
  assumes "trie_inv fam t" "\<forall>op\<in>set ops. op_ok fam op" "card (dom (trie_map t)) + length ops \<le> UINT_MAX"
  shows "\<exists>t' rs. trie_run t ops = Inr (t', rs) \<and> trie_inv fam t' \<and> map_run (trie_map t) ops = (trie_map t', rs)"
  using assms
proof (induction ops arbitrary: t)
  case (Cons op ops)
  then have "op_ok fam op" "card (dom (trie_map t)) < UINT_MAX" by auto
  from trie_step_spec [OF Cons.prems(1) this] obtain t1 r where t1: "trie_step t op = Inr (t1, r)" "trie_inv fam t1"
      "map_step (trie_map t) op = (trie_map t1, r)" "card (dom (trie_map t1)) \<le> Suc (card (dom (trie_map t)))"
    by blast
  with Cons.prems(2,3) Cons.IH [OF t1(2)] obtain t2 rs where "trie_run t1 ops = Inr (t2, rs)" "trie_inv fam t2"
      "map_run (trie_map t1) ops = (trie_map t2, rs)"
    by auto
  with t1 show ?case by simp
qed auto

lemma trie_run_new:
  fixes ops :: "'v::linorder trie_op list"
  assumes "is_ip_family fam" "\<forall>op\<in>set ops. op_ok fam op" "length ops \<le> UINT_MAX"
  shows "\<exists>t0 t rs. PatriciaTrie = Inr t0 \<and> trie_run t0 ops = Inr (t, rs) \<and> trie_inv fam t \<and>
    map_run Map.empty ops = (trie_map t, rs)"
proof -
  obtain t0 :: "'v patricia_trie" where t0: "PatriciaTrie = Inr t0" "trie_inv fam t0" "trie_map t0 = Map.empty"
    using PatriciaTrie_spec [OF assms(1)] by blast
  with trie_run_spec [OF t0(2) assms(2)] assms(3) show ?thesis by auto
qed

text \<open>Example prefixes for the witnesses: 10.0.0.0/8, 10.0.0.0/24 and the address 10.0.0.1.\<close>

definition ex_net8 :: ip_prefix where "ex_net8 = IPPrefix AF_INET (10 # replicate 15 0) 8"
definition ex_net24 :: ip_prefix where "ex_net24 = IPPrefix AF_INET (10 # replicate 15 0) 24"
definition ex_addr :: ip_prefix where "ex_addr = IPPrefix AF_INET (10 # 0 # 0 # 1 # replicate 12 0) 32"

lemma ex_prefix_family [simp]: "get_family ex_net8 = AF_INET" "get_family ex_net24 = AF_INET" "get_family ex_addr = AF_INET"
  "get_length ex_net8 = 8" "get_length ex_net24 = 24" "get_length ex_addr = 32"
  by (simp_all add: ex_net8_def ex_net24_def ex_addr_def)

lemma ex_prefix_wf [simp]: "wf_ip_prefix ex_net8" "wf_ip_prefix ex_net24" "wf_ip_prefix ex_addr"
proof -
  have z: "\<not> bits_of (as @ replicate n 0) ! k" if "8 * length as \<le> k" "k < 8 * length as + 8 * n" for as n k
    using that by (simp add: bits_of_append nth_append bits_replicate_0)
  show "wf_ip_prefix ex_net8" "wf_ip_prefix ex_net24"
    using z [of "[10]" _ 15] by (auto simp: wf_ip_prefix_def ex_net8_def ex_net24_def get_addr_size_def)
  show "wf_ip_prefix ex_addr"
    using z [of "[10, 0, 0, 1]" _ 12] by (auto simp: wf_ip_prefix_def ex_addr_def get_addr_size_def)
qed

lemma is_ip_family_v4 [simp]: "is_ip_family AF_INET" "is_ip_family 2"
  by (simp_all add: is_ip_family_def)

lemma ex_prefix_shape [simp]: "ip_shape ex_net8" "ip_shape ex_net24" "ip_shape ex_addr"
  by (simp_all add: wf_ip_shape)

section \<open>Properties\<close>

text \<open>
  Property C1. From a new trie, any sequence of additions, removals, removals of a whole value and
  clearings on prefixes of one address family runs to its end without an assertion failure, an
  access out of bounds or a reference-count overflow, answers every operation as the reference map
  does, and leaves a trie that stands for the map the reference ends with.
\<close>
theorem trie_run_refines_map:
  assumes "fam = AF_INET \<or> fam = AF_INET6" "\<forall>op\<in>set ops. op_ok fam op" "length ops \<le> UINT_MAX"
  shows "\<exists>t0 t rs. PatriciaTrie = Inr t0 \<and> trie_run t0 ops = Inr (t, rs) \<and> trie_inv fam t \<and>
    map_run Map.empty ops = (trie_map t, rs)"
  using trie_run_new assms by (simp add: is_ip_family_def)

theorem trie_run_refines_map_witness:
  "\<exists>t0 t rs. PatriciaTrie = Inr t0 \<and>
     trie_run t0 [Op_add ex_net8 (1::int), Op_add ex_net24 2, Op_remove_val 1, Op_remove ex_net24 2] = Inr (t, rs) \<and>
     trie_inv 2 t \<and>
     map_run Map.empty [Op_add ex_net8 (1::int), Op_add ex_net24 2, Op_remove_val 1, Op_remove ex_net24 2] = (trie_map t, rs)"
  by (rule trie_run_refines_map) simp_all

text \<open>
  Property C2. Looking up an address in a trie built by any sequence of operations returns the
  value of the longest stored prefix that contains it and that prefix itself, or a null pointer
  when there is none; this holds for every query at least as long as every stored prefix, and in
  particular for every host address.
\<close>
theorem trie_lookup_longest_match:
  assumes fam: "fam = AF_INET \<or> fam = AF_INET6" and ops: "\<forall>op\<in>set ops. op_ok fam op" "length ops \<le> UINT_MAX"
    and a: "ip_shape a" "get_family a = fam" "get_length a = get_addr_size fam * 8"
    and run: "PatriciaTrie = Inr t0" "trie_run t0 ops = Inr (t, rs)"
  shows "case lpm (fst (map_run Map.empty ops)) (net_bits a) of
      None \<Rightarrow> trie_lookup t a want = Inr (None, None)
    | Some (k, v) \<Rightarrow> \<exists>r. wf_ip_prefix r \<and> get_family r = fam \<and> net_bits r = k \<and>
        trie_lookup t a want = Inr (Some v, if want then Some r else None)"
proof -
  have fam': "is_ip_family fam" using fam by (simp add: is_ip_family_def)
  from trie_run_new [OF this ops] obtain t0' t' rs' where "PatriciaTrie = Inr t0'" "trie_run t0' ops = Inr (t', rs')"
      "trie_inv fam t'" "map_run Map.empty ops = (trie_map t', rs')"
    by blast
  moreover have "t0' = t0" using run(1) calculation(1) by (metis sum.inject(2))
  ultimately have t: "trie_inv fam t" "fst (map_run Map.empty ops) = trie_map t" using run(2) by simp_all
  from trie_lookup_host [OF t(1) a, of want] t(2) show ?thesis by simp
qed

lemma ex_bits: "net_bits ex_net8 = take 8 (net_bits ex_addr)" "net_bits ex_net24 = take 24 (net_bits ex_addr)"
  "length (net_bits ex_addr) = 32"
proof -
  have "take (8 * 1) (bits_of (10 # replicate 15 0)) = take (8 * 1) (bits_of (10 # 0 # 0 # 1 # replicate 12 0))"
    "take (8 * 3) (bits_of (10 # replicate 15 0)) = take (8 * 3) (bits_of (10 # 0 # 0 # 1 # replicate 12 0))"
    unfolding take_bits_of by (simp_all add: numeral_3_eq_3 eval_nat_numeral)
  then show "net_bits ex_net8 = take 8 (net_bits ex_addr)" "net_bits ex_net24 = take 24 (net_bits ex_addr)"
    by (simp_all add: net_bits_def ex_net8_def ex_net24_def ex_addr_def)
qed simp

theorem trie_lookup_longest_match_witness:
  "\<exists>t0 t rs r. PatriciaTrie = Inr t0 \<and> trie_run t0 [Op_add ex_net8 (1::int), Op_add ex_net24 2] = Inr (t, rs) \<and>
     trie_lookup t ex_addr True = Inr (Some 2, Some r) \<and> net_bits r = net_bits ex_net24"
proof -
  let ?ops = "[Op_add ex_net8 (1::int), Op_add ex_net24 2]"
  have ok: "\<forall>op\<in>set ?ops. op_ok AF_INET op" "length ?ops \<le> UINT_MAX" by simp_all
  obtain t0 t rs where run: "PatriciaTrie = Inr t0" "trie_run t0 ?ops = Inr (t, rs)"
    using trie_run_new [OF is_ip_family_v4(1) ok] by blast
  have ne: "net_bits ex_net8 \<noteq> net_bits ex_net24"
  proof
    assume "net_bits ex_net8 = net_bits ex_net24"
    then have "length (net_bits ex_net8) = length (net_bits ex_net24)" by (rule arg_cong)
    then show False by simp
  qed
  have m: "fst (map_run Map.empty ?ops) = [net_bits ex_net8 \<mapsto> 1, net_bits ex_net24 \<mapsto> 2]" using ne by simp
  have "lpm (fst (map_run Map.empty ?ops)) (net_bits ex_addr) = Some (net_bits ex_net24, 2)"
    unfolding m using ne ex_bits by (intro lpm_Some) (auto simp: take_is_prefix split: if_splits)
  with trie_lookup_longest_match [OF _ ok ex_prefix_shape(3) ex_prefix_family(3) _ run, of True]
  show ?thesis using run by (auto simp: get_addr_size_def)
qed

text \<open>
  For a trie of one address family, the prefixes reported for a value are exactly the
  prefixes that map to it, each once; a value is reported as having prefixes exactly when it is a
  value of the map; and the enumeration lists the values of the map with those prefixes.
\<close>
theorem trie_listing_exact:
  assumes inv: "trie_inv fam t"
  shows "\<exists>f es. (\<forall>v. get_prefixes t v = Inr (f v) \<and> distinct (f v) \<and>
        set (f v) = {r. wf_ip_prefix r \<and> get_family r = fam \<and> trie_map t (net_bits r) = Some v}) \<and>
      (\<forall>v. has_prefixes t v \<longleftrightarrow> v \<in> ran (trie_map t)) \<and>
      trie_enumerate t [] = Inr es \<and> distinct (map fst es) \<and> set es = {(v, f v) | v. v \<in> ran (trie_map t)}"
proof -
  obtain f where f: "\<forall>v. get_prefixes t v = Inr (f v)"
      "trie_enumerate t [] = Inr (map (\<lambda>(v, ps). (v, ps @ f v)) (map (\<lambda>v. (v, [])) (enumerate_values t)))"
    using trie_enumerate_spec [OF inv, of "[]"] by auto
  let ?es = "map (\<lambda>v. (v, f v)) (enumerate_values t)"
  have e: "trie_enumerate t [] = Inr ?es" using f(2) by (simp add: comp_def)
  have d: "distinct (map fst ?es)" "set ?es = {(v, f v) | v. v \<in> ran (trie_map t)}"
    using cache_keys [OF inv] by (auto simp: comp_def enumerate_values_def)
  have "get_prefixes t v = Inr (f v) \<and> distinct (f v) \<and>
      set (f v) = {r. wf_ip_prefix r \<and> get_family r = fam \<and> trie_map t (net_bits r) = Some v}" for v
    using get_prefixes_spec [OF inv, of v] f(1) by auto
  with has_prefixes_spec [OF inv] e d show ?thesis by blast
qed

text \<open>The trie the witnesses use: 10.0.0.0/8 has the value 7.\<close>

lemma ex_trie:
  obtains t where "trie_inv AF_INET t" "trie_map t = [net_bits ex_net8 \<mapsto> (7::int)]"
proof -
  obtain t0 :: "int patricia_trie" where t0: "trie_inv AF_INET t0" "trie_map t0 = Map.empty"
    using PatriciaTrie_spec [OF is_ip_family_v4(1)] by blast
  from trie_add_spec [OF t0(1) ex_prefix_shape(1) ex_prefix_family(1), of 7] t0(2) show thesis using that by auto
qed

text \<open>
  Copying a trie gives a trie that stands for the same map and satisfies the
  invariant, with reference counts of its own; what the target held before is gone.
\<close>
theorem trie_copy_from_same_map:
  assumes "trie_inv fam t" "trie_inv fam rhs"
  shows "\<exists>t'. copy_from t rhs = Inr t' \<and> trie_inv fam t' \<and> trie_map t' = trie_map rhs"
  by (rule copy_from_spec [OF assms])

section \<open>Outside the conditions\<close>

text \<open>
  A best-match search compares a node on the whole of the node's own length, so a
  query shorter than the stored prefixes can be answered with a longer one: in a trie that holds
  only 10.0.0.0/24, looking up 10.0.0.0/8 returns the /24, although it does not contain the query.
\<close>
theorem trie_lookup_overlong:
  "\<exists>t0 t1 r. PatriciaTrie = Inr t0 \<and> trie_add t0 ex_net24 (5::int) = Inr (t1, True) \<and>
     trie_lookup t1 ex_net8 True = Inr (Some 5, Some r) \<and> get_length r = 24"
proof -
  let ?a = "[10, 0, 0, 0] :: u8 list"
  let ?q = "\<lambda>n. \<lparr>pfx_family = 2, pfx_bitlen = n, pfx_add = ?a\<rparr>"
  have key: "make_key ex_net24 = Inr (Some (?q 24))" "make_key ex_net8 = Inr (Some (?q 8))"
    by (simp_all add: make_key_def New_Prefix_def ex_net24_def ex_net8_def to_ushort_def numeral_3_eq_3)
  let ?t0 = "\<lparr>tree = \<lparr>head = Null, maxbits = 128, num_active_node = 0, next_addr = 0\<rparr>, val_cache = []\<rparr> :: int patricia_trie"
  let ?n = "Node 0 24 (Some (?q 24)) (Some 5) Null Null :: int pnode"
  let ?t1 = "\<lparr>tree = \<lparr>head = ?n, maxbits = 128, num_active_node = 1, next_addr = 1\<rparr>, val_cache = [(5, 1)]\<rparr> :: int patricia_trie"
  have new: "PatriciaTrie = Inr ?t0" by (simp add: PatriciaTrie_def New_Patricia_def)
  have add: "trie_add ?t0 ex_net24 5 = Inr (?t1, True)"
    by (simp add: trie_add_def key patricia_search_exact_def trie_insert_def patricia_lookup_def cache_ref_def)
  have "comp_with_mask ?a ?a 24 = Inr True" by (subst comp_with_mask_Inr) simp_all
  then have best: "patricia_search_best (tree ?t1) (Some (?q 8)) = Inr ?n"
    by (simp add: patricia_search_best_def patricia_search_best2_def push_stack_def)
  obtain r where "IPPrefix_raw 2 (Some ?a) 24 = Inr r" "get_length r = 24"
    by (simp add: IPPrefix_raw_def get_addr_size_def)
  then have "trie_lookup ?t1 ex_net8 True = Inr (Some 5, Some r)"
    using best by (simp add: trie_lookup_def key)
  with new add \<open>get_length r = 24\<close> show ?thesis by blast
qed

text \<open>
  Looking up the invalid address, the value the \<open>IPPrefix\<close> constructor gives for a text
  it cannot parse, is an assertion failure and not a failed lookup: no prefix is built for it.
\<close>
theorem trie_lookup_invalid_aborts:
  "trie_lookup t IPPrefix_INVALID want = Inl Assertion_Failed"
  by (simp add: trie_lookup_def make_key_def New_Prefix_def IPPrefix_default_def patricia_search_best_def patricia_search_best2_def)

text \<open>
  The trie does not look at the address family: after 10.0.0.0/8, the IPv6 prefix
  0a00::/8, which has the same first bits, is refused as already there with another value.
\<close>
theorem trie_families_collide:
  "\<exists>t0 t1. PatriciaTrie = Inr t0 \<and> trie_add t0 ex_net8 (1::int) = Inr (t1, True) \<and>
     trie_add t1 (IPPrefix AF_INET6 (10 # replicate 15 0) 8) 2 = Inr (t1, False)"
proof -
  let ?q4 = "\<lparr>pfx_family = 2, pfx_bitlen = 8, pfx_add = [10, 0, 0, 0]\<rparr>"
  let ?q6 = "\<lparr>pfx_family = 10, pfx_bitlen = 8, pfx_add = 10 # replicate 15 0\<rparr>"
  have key: "make_key ex_net8 = Inr (Some ?q4)" "make_key (IPPrefix AF_INET6 (10 # replicate 15 0) 8) = Inr (Some ?q6)"
    by (simp_all add: make_key_def New_Prefix_def ex_net8_def to_ushort_def numeral_3_eq_3)
  let ?t0 = "\<lparr>tree = \<lparr>head = Null, maxbits = 128, num_active_node = 0, next_addr = 0\<rparr>, val_cache = []\<rparr> :: int patricia_trie"
  let ?n = "Node 0 8 (Some ?q4) (Some 1) Null Null :: int pnode"
  let ?t1 = "\<lparr>tree = \<lparr>head = ?n, maxbits = 128, num_active_node = 1, next_addr = 1\<rparr>, val_cache = [(1, 1)]\<rparr> :: int patricia_trie"
  have new: "PatriciaTrie = Inr ?t0" by (simp add: PatriciaTrie_def New_Patricia_def)
  have add: "trie_add ?t0 ex_net8 1 = Inr (?t1, True)"
    by (simp add: trie_add_def key patricia_search_exact_def trie_insert_def patricia_lookup_def cache_ref_def)
  have "take (8 * 1) (bits_of [10, 0, 0, 0]) = take (8 * 1) (bits_of (10 # replicate 15 0))"
    unfolding take_bits_of by simp
  then have "comp_with_mask [10, 0, 0, 0] (10 # replicate 15 0) 8 = Inr True" by (subst comp_with_mask_Inr) simp_all
  then have "trie_add ?t1 (IPPrefix AF_INET6 (10 # replicate 15 0) 8) 2 = Inr (?t1, False)"
    by (simp add: trie_add_def key patricia_search_exact_def node_val_def)
  with new add show ?thesis by blast
qed

text \<open>
  Looking up an IPv4 address in a trie that holds an IPv6 prefix longer than 32 bits
  compares past the four bytes the IPv4 key has room for.
\<close>
theorem trie_mixed_families_overread:
  "\<exists>t0 t1. PatriciaTrie = Inr t0 \<and> trie_add t0 (IPPrefix AF_INET6 (10 # replicate 15 0) 64) (1::int) = Inr (t1, True) \<and>
     trie_lookup t1 ex_addr want = Inl Undefined_Behaviour"
proof -
  let ?q4 = "\<lparr>pfx_family = 2, pfx_bitlen = 32, pfx_add = [10, 0, 0, 1]\<rparr>"
  let ?q6 = "\<lparr>pfx_family = 10, pfx_bitlen = 64, pfx_add = 10 # replicate 15 0\<rparr>"
  have key: "make_key ex_addr = Inr (Some ?q4)" "make_key (IPPrefix AF_INET6 (10 # replicate 15 0) 64) = Inr (Some ?q6)"
    by (simp_all add: make_key_def New_Prefix_def ex_addr_def to_ushort_def numeral_3_eq_3)
  let ?t0 = "\<lparr>tree = \<lparr>head = Null, maxbits = 128, num_active_node = 0, next_addr = 0\<rparr>, val_cache = []\<rparr> :: int patricia_trie"
  let ?n = "Node 0 64 (Some ?q6) (Some 1) Null Null :: int pnode"
  let ?t1 = "\<lparr>tree = \<lparr>head = ?n, maxbits = 128, num_active_node = 1, next_addr = 1\<rparr>, val_cache = [(1, 1)]\<rparr> :: int patricia_trie"
  have new: "PatriciaTrie = Inr ?t0" by (simp add: PatriciaTrie_def New_Patricia_def)
  have add: "trie_add ?t0 (IPPrefix AF_INET6 (10 # replicate 15 0) 64) 1 = Inr (?t1, True)"
    by (simp add: trie_add_def key patricia_search_exact_def trie_insert_def patricia_lookup_def cache_ref_def)
  have "comp_with_mask (10 # replicate 15 0) [10, 0, 0, 1] 64 = Inl Undefined_Behaviour" by (simp add: comp_with_mask_def)
  then have "trie_lookup ?t1 ex_addr want = Inl Undefined_Behaviour"
    by (simp add: trie_lookup_def key patricia_search_best_def patricia_search_best2_def push_stack_def)
  with new add show ?thesis by blast
qed

end
