(* ===== verification/PID_Type.thy ===== *)
theory PID_Type
  imports P4P_Prelude
begin

text \<open>
  \<open>common/cpp/src/include/p4p/pid.h\<close> and \<open>common/cpp/src/lib/pid.cpp\<close>: the value class \<open>PID\<close>,
  its ordering (the order of every \<open>std::map\<close> and \<open>std::set\<close> keyed by PIDs), its hash and its
  text form \<open>num.i.isp\<close> or \<open>num.e.isp\<close>.
\<close>

datatype pid = PID (get_isp: string) (get_num: u32) (get_external: bool)

definition PID_DEFAULT :: pid where "PID_DEFAULT = PID ''pid.p4p'' 0 False"
definition PID_INVALID :: pid where "PID_INVALID = PID ''invalid.p4p'' 0 True"

definition is_default :: "pid \<Rightarrow> bool" where "is_default p \<longleftrightarrow> p = PID_DEFAULT"
definition is_invalid :: "pid \<Rightarrow> bool" where "is_invalid p \<longleftrightarrow> p = PID_INVALID"

instantiation pid :: linorder
begin

definition less_pid :: "pid \<Rightarrow> pid \<Rightarrow> bool" where
  "less_pid p q \<longleftrightarrow>
     (if get_external p \<noteq> get_external q then get_external p < get_external q
      else get_num p < get_num q \<or> get_num p = get_num q \<and> get_isp p < get_isp q)"

definition less_eq_pid :: "pid \<Rightarrow> pid \<Rightarrow> bool" where
  "less_eq_pid p q \<longleftrightarrow> p < q \<or> p = q"

instance
proof
  fix x y z :: pid
  show "(x < y) = (x \<le> y \<and> \<not> y \<le> x)"
    by (auto simp: less_eq_pid_def less_pid_def)
  show "x \<le> x"
    by (simp add: less_eq_pid_def)
  show "x \<le> y \<Longrightarrow> y \<le> z \<Longrightarrow> x \<le> z"
    unfolding less_eq_pid_def less_pid_def by (auto split: if_splits intro: less_trans)
  show "x \<le> y \<Longrightarrow> y \<le> x \<Longrightarrow> x = y"
    by (auto simp: less_eq_pid_def less_pid_def split: if_splits)
  show "x \<le> y \<or> y \<le> x"
    by (cases x; cases y) (auto simp: less_eq_pid_def less_pid_def)
qed

end

text \<open>The member operators: equality and inequality by components, and \<open>operator>\<close> by swapping.\<close>

definition pid_eq :: "pid \<Rightarrow> pid \<Rightarrow> bool" where
  "pid_eq p q \<longleftrightarrow> get_external p = get_external q \<and> get_num p = get_num q \<and> get_isp p = get_isp q"

definition pid_gt :: "pid \<Rightarrow> pid \<Rightarrow> bool" where
  "pid_gt p q \<longleftrightarrow> q < p"

lemma pid_eq_iff [simp]: "pid_eq p q \<longleftrightarrow> p = q"
  by (auto simp: pid_eq_def pid.expand)

definition hash_value :: "pid \<Rightarrow> nat" where
  "hash_value p = unat (get_num p)"

section \<open>Text form\<close>

definition print_pid :: "pid \<Rightarrow> string" where
  "print_pid p = show_nat (unat (get_num p)) @ (if get_external p then ''.e.'' else ''.i.'') @ get_isp p"

text \<open>
  \<open>is >> num\<close> for an \<open>unsigned int\<close>: leading white space, an optional sign and digits; no digits
  or a value above \<open>UINT_MAX\<close> fails the stream, a minus sign negates in unsigned arithmetic.
\<close>

definition extract_uint :: "string \<Rightarrow> (u32 \<times> string) option" where
  "extract_uint is =
     (let (neg, t) = skip_sign (dropWhile c_isspace is); ds = takeWhile c_isdigit t; v = digits_val ds
      in if ds = [] \<or> v > UINT_MAX then None
         else Some (if neg then - of_nat v else of_nat v, dropWhile c_isdigit t))"

text \<open>
  \<open>is.getline(ext_buf, 2, '.')\<close>: at most one character before the delimiter, which is extracted;
  nothing extracted, or a second character that is not the delimiter, fails the stream.
\<close>

definition getline2 :: "string \<Rightarrow> (string \<times> string) option" where
  "getline2 is = (case is of
       [] \<Rightarrow> None
     | c # cs \<Rightarrow>
         if c = CHR ''.'' then Some ([], cs)
         else (case cs of
                 [] \<Rightarrow> Some ([c], [])
               | d # ds \<Rightarrow> if d = CHR ''.'' then Some ([c], ds) else None))"

text \<open>\<open>is >> isp\<close>: the next white-space delimited token.\<close>

definition extract_token :: "string \<Rightarrow> (string \<times> string) option" where
  "extract_token is =
     (let t = dropWhile c_isspace is; tok = takeWhile (\<lambda>c. \<not> c_isspace c) t
      in if tok = [] then None else Some (tok, dropWhile (\<lambda>c. \<not> c_isspace c) t))"

definition read_pid :: "string \<Rightarrow> (pid \<times> string) option" where
  "read_pid is =
     (case extract_uint is of
        None \<Rightarrow> None
      | Some (num, s1) \<Rightarrow>
          (case s1 of
             [] \<Rightarrow> None
           | c # s2 \<Rightarrow>
               if c \<noteq> CHR ''.'' then None
               else (case getline2 s2 of
                       None \<Rightarrow> None
                     | Some (ext_buf, s3) \<Rightarrow>
                         if ext_buf = ''i'' \<or> ext_buf = ''e'' then
                           (case extract_token s3 of
                              None \<Rightarrow> None
                            | Some (isp, s4) \<Rightarrow> Some (PID isp num (ext_buf = ''e''), s4))
                         else None)))"

lemma extract_uint_show:
  assumes "rest = [] \<or> \<not> c_isdigit (hd rest)"
  shows "extract_uint (show_nat (unat (w :: u32)) @ rest) = Some (w, rest)"
proof -
  let ?s = "show_nat (unat w) @ rest"
  have d: "c_isdigit (hd ?s)" by (rule hd_show_nat_digit)
  have "dropWhile c_isspace ?s = ?s"
    using digit_not_space [OF d] by (cases ?s) auto
  moreover have "unat w < 2 ^ LENGTH(32)" by (rule unsigned_less)
  then have "unat w \<le> UINT_MAX" by simp
  ultimately show ?thesis
    using assms skip_sign_digit [OF d]
    by (simp add: extract_uint_def Let_def takeWhile_digits_show_nat dropWhile_digits_show_nat)
qed

lemma extract_token_append:
  assumes "s \<noteq> []" and "\<forall>c\<in>set s. \<not> c_isspace c" and "rest = [] \<or> c_isspace (hd rest)"
  shows "extract_token (s @ rest) = Some (s, rest)"
  using assms by (cases s; cases rest) (auto simp: extract_token_def Let_def takeWhile_append dropWhile_append)

lemma extract_token_Some:
  "extract_token s = Some (t, rest) \<Longrightarrow> t \<noteq> [] \<and> (\<forall>c\<in>set t. \<not> c_isspace c)"
  by (auto simp: extract_token_def Let_def split: if_splits dest: set_takeWhileD)

lemma read_pid_print:
  assumes "get_isp p \<noteq> []" and "\<forall>c\<in>set (get_isp p). \<not> c_isspace c"
    and "rest = [] \<or> c_isspace (hd rest)"
  shows "read_pid (print_pid p @ rest) = Some (p, rest)"
proof -
  have u: "extract_uint (print_pid p @ rest) =
      Some (get_num p, (if get_external p then ''.e.'' else ''.i.'') @ get_isp p @ rest)"
    using extract_uint_show [of "(if get_external p then ''.e.'' else ''.i.'') @ get_isp p @ rest" "get_num p"]
    by (auto simp: print_pid_def c_isdigit_def)
  show ?thesis
    using extract_token_append [OF assms] u
    by (cases p) (auto simp: read_pid_def getline2_def)
qed

section \<open>Properties\<close>

text \<open>
  Reading never invents the external flag and never yields an ISP name that could not
  be printed: every PID read from a stream has a non-empty ISP name without white space, so it can
  be printed and read back.
\<close>
theorem read_pid_reprintable:
  assumes "read_pid s = Some (p, rest)"
  shows "read_pid (print_pid p) = Some (p, [])"
proof -
  have "get_isp p \<noteq> [] \<and> (\<forall>c\<in>set (get_isp p). \<not> c_isspace c)"
  proof -
    obtain s3 s4 where "extract_token s3 = Some (get_isp p, s4)"
      using assms by (auto simp: read_pid_def split: option.splits list.splits if_splits)
    then show ?thesis by (rule extract_token_Some)
  qed
  then show ?thesis using read_pid_print [of p "[]"] by simp
qed

end
