(* ===== verification/PID_Matrix.thy ===== *)
theory PID_Matrix
  imports PID_Type Std_Map
begin

text \<open>
  \<open>common/cpp/src/include/p4p/detail/pid_matrix_generic.h\<close>: a matrix indexed by PIDs, as a map of
  rows. Rows and entries are made on demand by \<open>set\<close>; reading an absent one throws \<open>range_error\<close>.
\<close>

type_synonym 't pid_row = "(pid, 't) smap"
type_synonym 't pid_matrix = "(pid, 't pid_row) smap"

definition get_srcs :: "'t pid_matrix \<Rightarrow> pid list" where
  "get_srcs m = map fst m"

definition has_row :: "'t pid_matrix \<Rightarrow> pid \<Rightarrow> bool" where
  "has_row m src \<longleftrightarrow> smap_find m src \<noteq> None"

definition get_row :: "'t pid_matrix \<Rightarrow> pid \<Rightarrow> 't pid_row result" where
  "get_row m src = (case smap_find m src of
       None \<Rightarrow> Inl (Range_Error ''invalid source PID'')
     | Some row \<Rightarrow> Inr row)"

definition get_entry :: "'t pid_row \<Rightarrow> pid \<Rightarrow> (pid \<times> 't) result" where
  "get_entry row dst = (case smap_find row dst of
       None \<Rightarrow> Inl (Range_Error ''invalid destination PID'')
     | Some v \<Rightarrow> Inr (dst, v))"

text \<open>\<open>get_row_make\<close> and \<open>get_entry_make\<close>: the row and the entry are inserted when absent, then assigned.\<close>

definition get_row_make :: "'t pid_matrix \<Rightarrow> pid \<Rightarrow> 't pid_matrix \<times> 't pid_row" where
  "get_row_make m src = (case smap_find m src of
       None \<Rightarrow> (smap_put src [] m, [])
     | Some row \<Rightarrow> (m, row))"

definition set_entry :: "'t pid_matrix \<Rightarrow> pid \<Rightarrow> pid \<Rightarrow> 't \<Rightarrow> 't pid_matrix" where
  "set_entry m i j v = (let (m', row) = get_row_make m i in smap_put i (smap_put j v row) m')"

definition get_value :: "'t pid_matrix \<Rightarrow> pid \<Rightarrow> pid \<Rightarrow> 't result" where
  "get_value m i j = bindE (get_row m i) (\<lambda>row. bindE (get_entry row j) (\<lambda>e. Inr (snd e)))"

definition matrix_inv :: "'t pid_matrix \<Rightarrow> bool" where
  "matrix_inv m \<longleftrightarrow> smap_inv m \<and> (\<forall>(src, row)\<in>set m. smap_inv row)"

lemma matrix_inv_row: "matrix_inv m \<Longrightarrow> smap_find m src = Some row \<Longrightarrow> smap_inv row"
  by (auto simp: matrix_inv_def smap_find_Some_iff)

lemma set_entry_put:
  assumes "matrix_inv m"
  shows "set_entry m i j v = smap_put i (smap_put j v (case smap_find m i of None \<Rightarrow> [] | Some row \<Rightarrow> row)) m"
  using assms by (auto simp: set_entry_def get_row_make_def matrix_inv_def smap_put_put split: option.splits)

lemma matrix_inv_set_entry: "matrix_inv m \<Longrightarrow> matrix_inv (set_entry m i j v)"
proof -
  assume m: "matrix_inv m"
  let ?row = "smap_put j v (case smap_find m i of None \<Rightarrow> [] | Some row \<Rightarrow> row)"
  have s: "smap_inv (smap_put i ?row m)" using m by (auto simp: matrix_inv_def)
  have r: "smap_inv ?row" using matrix_inv_row [OF m] by (auto split: option.splits)
  have "smap_inv row" if "(src, row) \<in> set (smap_put i ?row m)" for src row
  proof -
    have "smap_find (smap_put i ?row m) src = Some row" using that s by (simp add: smap_find_Some_iff)
    then show ?thesis using m r matrix_inv_row [OF m] by (auto simp: matrix_inv_def split: if_splits)
  qed
  then show "matrix_inv (set_entry m i j v)" using s by (auto simp: matrix_inv_def set_entry_put [OF m])
qed

lemma get_value_eq:
  "get_value m i j = (case smap_find m i of
       None \<Rightarrow> Inl (Range_Error ''invalid source PID'')
     | Some row \<Rightarrow> (case smap_find row j of
         None \<Rightarrow> Inl (Range_Error ''invalid destination PID'')
       | Some v \<Rightarrow> Inr v))"
  by (auto simp: get_value_def get_row_def get_entry_def split: option.splits)

text \<open>
  Setting an entry of a PID matrix is visible at that pair of PIDs and at no other
  pair: every other read gives what it gave before, except that a destination missing from a row
  that did not exist is now reported as such; and the matrix stays a map of maps.
\<close>
theorem matrix_get_set:
  assumes "matrix_inv m"
  shows "matrix_inv (set_entry m i j v) \<and>
    get_value (set_entry m i j v) i' j' =
      (if i' = i \<and> j' = j then Inr v
       else if i' = i \<and> \<not> has_row m i then Inl (Range_Error ''invalid destination PID'')
       else get_value m i' j')"
proof -
  have s: "smap_inv m" using assms by (simp add: matrix_inv_def)
  have r: "smap_inv (case smap_find m i of None \<Rightarrow> [] | Some row \<Rightarrow> row)"
    using matrix_inv_row [OF assms] by (auto split: option.splits)
  have one: "smap_find [(j, v)] j' = (if j' = j then Some v else None)" by (simp add: smap_find_def)
  have "get_value (set_entry m i j v) i' j' =
      (if i' = i \<and> j' = j then Inr v
       else if i' = i \<and> \<not> has_row m i then Inl (Range_Error ''invalid destination PID'')
       else get_value m i' j')"
    using s r one by (cases "i' = i"; cases "smap_find m i") (simp_all add: set_entry_put [OF assms] get_value_eq has_row_def)
  with matrix_inv_set_entry [OF assms] show ?thesis by blast
qed

end
