(* ===== verification/PID_Prefixes.thy ===== *)
theory PID_Prefixes
  imports Std_Map IP_Addr PID_Type
begin

text \<open>
  \<open>common/cpp/src/include/p4p/protocol-portal/pid_prefixes.h\<close>: a PID with its set of prefixes, in the order of the set.
  It is what the portal protocol delivers and what the PID map of an ISP is built from.
\<close>

record pid_prefixes =
  pp_pid :: pid
  pp_prefixes :: "(ip_prefix, unit) smap"

definition PIDPrefixes :: "pid \<Rightarrow> pid_prefixes" where
  "PIDPrefixes p = \<lparr>pp_pid = p, pp_prefixes = []\<rparr>"

definition add_prefix :: "pid_prefixes \<Rightarrow> ip_prefix \<Rightarrow> pid_prefixes" where
  "add_prefix pp p = pp\<lparr>pp_prefixes := fst (smap_insert p () (pp_prefixes pp))\<rparr>"

definition remove_prefix :: "pid_prefixes \<Rightarrow> ip_prefix \<Rightarrow> pid_prefixes" where
  "remove_prefix pp p = pp\<lparr>pp_prefixes := smap_erase p (pp_prefixes pp)\<rparr>"

definition num_prefixes :: "pid_prefixes \<Rightarrow> nat" where
  "num_prefixes pp = length (pp_prefixes pp)"

end
