(* ===== verification/ISP_Maps.thy ===== *)
theory ISP_Maps
  imports Trie_Properties PID_Matrix PID_Prefixes
begin

text \<open>
  \<open>common/cpp/src/lib/isp_pidmap.cpp\<close>, \<open>isp_pdistancemap.cpp\<close>, \<open>isp.cpp\<close> and \<open>isp_manager.cpp\<close>: what a
  client keeps of an ISP, the map from prefixes to PID indexes and the matrix of distances between
  PIDs. The portal server and the file system are arguments of the loading operations: they give a
  reply or a failure, as the exceptions and error codes of the sources distinguish them. The clock
  is an argument too. Locks are held for whole operations, so the operations are atomic here.
\<close>

section \<open>Data sources\<close>

abbreviation (input) ERR_UNKNOWN_PID :: int where "ERR_UNKNOWN_PID \<equiv> - 1"
abbreviation (input) ERR_INVALID_ARG :: int where "ERR_INVALID_ARG \<equiv> - 2"
abbreviation (input) ERR_CONNECTION_FAILURE :: int where "ERR_CONNECTION_FAILURE \<equiv> - 3"
abbreviation (input) ERR_PROTOCOL_FAILURE :: int where "ERR_PROTOCOL_FAILURE \<equiv> - 4"
abbreviation (input) ERR_FILE_OPEN_FAILED :: int where "ERR_FILE_OPEN_FAILED \<equiv> - 5"
abbreviation (input) ERR_FILE_READ_FAILED :: int where "ERR_FILE_READ_FAILED \<equiv> - 6"

datatype 'a portal_reply = Connection_Error | Protocol_Error | Reply (reply_ttl: nat) (reply_version: nat) (reply_data: 'a)

datatype 'a file_reply = Open_Failed | Read_Failed | File_Data 'a

section \<open>The PID map\<close>

text \<open>The constructors leave \<open>m_intraisp_pids\<close> without a value until the first load.\<close>

record isp_pidmap =
  pm_proto :: "(string \<times> nat) option"
  pm_filename :: string
  pm_trie :: "int patricia_trie"
  pm_pids :: "pid list"
  pm_intraisp_pids :: "nat option"
  pm_lastUpdate :: int
  pm_ttl :: int
  pm_version :: string

abbreviation (input) PIDMAP_DEFAULT_TTL :: int where "PIDMAP_DEFAULT_TTL \<equiv> 2 * 24 * 60 * 60"

definition ISPPIDMap :: "isp_pidmap result" where
  "ISPPIDMap = bindE PatriciaTrie (\<lambda>t. Inr
     \<lparr>pm_proto = None, pm_filename = [], pm_trie = t, pm_pids = [], pm_intraisp_pids = None,
      pm_lastUpdate = 0, pm_ttl = PIDMAP_DEFAULT_TTL, pm_version = []\<rparr>)"

definition pm_setDataSourceServer :: "isp_pidmap \<Rightarrow> string \<Rightarrow> nat \<Rightarrow> isp_pidmap" where
  "pm_setDataSourceServer m addr port = m\<lparr>pm_proto := Some (addr, port), pm_filename := []\<rparr>"

definition pm_setDataSourceFile :: "isp_pidmap \<Rightarrow> string \<Rightarrow> isp_pidmap" where
  "pm_setDataSourceFile m filename = m\<lparr>pm_filename := filename, pm_proto := None\<rparr>"

definition ISPPIDMap_server :: "string \<Rightarrow> nat \<Rightarrow> isp_pidmap result" where
  "ISPPIDMap_server addr port = bindE ISPPIDMap (\<lambda>m. Inr (pm_setDataSourceServer m addr port))"

definition ISPPIDMap_file :: "string \<Rightarrow> isp_pidmap result" where
  "ISPPIDMap_file filename = bindE ISPPIDMap (\<lambda>m. Inr (pm_setDataSourceFile m filename))"

definition pm_getPortalAddr :: "isp_pidmap \<Rightarrow> string" where
  "pm_getPortalAddr m = (case pm_proto m of Some (addr, port) \<Rightarrow> addr | None \<Rightarrow> [])"

definition pm_getPortalPort :: "isp_pidmap \<Rightarrow> nat" where
  "pm_getPortalPort m = (case pm_proto m of Some (addr, port) \<Rightarrow> port | None \<Rightarrow> 0)"

definition pm_lookup :: "isp_pidmap \<Rightarrow> ip_prefix \<Rightarrow> bool \<Rightarrow> (int \<times> ip_prefix option) result" where
  "pm_lookup m addr want = bindE (trie_lookup (pm_trie m) addr want) (\<lambda>(v, out).
     Inr (case v of Some i \<Rightarrow> i | None \<Rightarrow> ERR_UNKNOWN_PID, out))"

definition getPIDInfo :: "isp_pidmap \<Rightarrow> int \<Rightarrow> pid" where
  "getPIDInfo m i = (if i < 0 \<or> length (pm_pids m) \<le> nat i then PID_INVALID else pm_pids m ! nat i)"

fun pid_index :: "pid list \<Rightarrow> pid \<Rightarrow> int \<Rightarrow> int" where
  "pid_index [] p i = ERR_UNKNOWN_PID"
| "pid_index (q # qs) p i = (if pid_eq q p then i else pid_index qs p (i + 1))"

definition getPIDIndex :: "isp_pidmap \<Rightarrow> pid \<Rightarrow> int" where
  "getPIDIndex m p = pid_index (pm_pids m) p 0"

definition listPIDs :: "isp_pidmap \<Rightarrow> pid list" where
  "listPIDs m = pm_pids m"

text \<open>The two counts; reading the first before a load is a read of an indeterminate value.\<close>

definition getNumPIDs :: "isp_pidmap \<Rightarrow> (nat \<times> nat) result" where
  "getNumPIDs m = (case pm_intraisp_pids m of
       None \<Rightarrow> Inl Undefined_Behaviour
     | Some n \<Rightarrow> Inr (n, length (pm_pids m)))"

text \<open>The loop that builds the new trie and counts the PIDs inside the ISP.\<close>

fun build_trie :: "nat \<Rightarrow> pid_prefixes list \<Rightarrow> int patricia_trie \<Rightarrow> nat \<Rightarrow> (int patricia_trie \<times> nat) result" where
  "build_trie i [] t n = Inr (t, n)"
| "build_trie i (pp # pps) t n =
     bindE (add_all trie_add t (map (\<lambda>e. (fst e, int i)) (pp_prefixes pp))) (\<lambda>t'.
       build_trie (i + 1) pps t' (if \<not> get_external (pp_pid pp) then n + 1 else n))"

text \<open>What the data source gives: an error code, or the entries with their time to live and version.\<close>

definition pm_fetch ::
    "(string \<Rightarrow> nat \<Rightarrow> 'a portal_reply) \<Rightarrow> (string \<Rightarrow> 'a file_reply) \<Rightarrow> int \<Rightarrow> (string \<times> nat) option \<Rightarrow> string \<Rightarrow>
     int + 'a \<times> int \<times> string" where
  "pm_fetch portal file default_ttl proto filename = (case proto of
       Some (addr, port) \<Rightarrow>
         (case portal addr port of
            Connection_Error \<Rightarrow> Inl ERR_CONNECTION_FAILURE
          | Protocol_Error \<Rightarrow> Inl ERR_PROTOCOL_FAILURE
          | Reply t v d \<Rightarrow> Inr (d, int t, show_nat v))
     | None \<Rightarrow>
         (case file filename of
            Open_Failed \<Rightarrow> Inl ERR_FILE_OPEN_FAILED
          | Read_Failed \<Rightarrow> Inl ERR_FILE_READ_FAILED
          | File_Data d \<Rightarrow> Inr (d, default_ttl, [])))"

definition pm_loadP4PInfo ::
    "(string \<Rightarrow> nat \<Rightarrow> pid_prefixes list portal_reply) \<Rightarrow> (string \<Rightarrow> pid_prefixes list file_reply) \<Rightarrow> int \<Rightarrow>
     isp_pidmap \<Rightarrow> (isp_pidmap \<times> int) result" where
  "pm_loadP4PInfo portal file now m =
     (case pm_fetch portal file PIDMAP_DEFAULT_TTL (pm_proto m) (pm_filename m) of
        Inl rc \<Rightarrow> Inr (m, rc)
      | Inr (pps, ttl, version) \<Rightarrow>
          bindE PatriciaTrie (\<lambda>t0.
          bindE (build_trie 0 pps t0 0) (\<lambda>(t, n).
          bindE (Clear_Patricia (tree (pm_trie m))) (\<lambda>_.
            Inr (m\<lparr>pm_trie := t, pm_pids := map pp_pid pps, pm_intraisp_pids := Some n,
                   pm_lastUpdate := now, pm_ttl := ttl, pm_version := version\<rparr>, 0)))))"

section \<open>The distance map\<close>

record isp_pdistmap =
  dm_proto :: "(string \<times> nat) option"
  dm_filename :: string
  dm_pdists :: "int list list"
  dm_lastUpdate :: int
  dm_ttl :: int
  dm_version :: string

abbreviation (input) PDIST_DEFAULT_TTL :: int where "PDIST_DEFAULT_TTL \<equiv> 2 * 60 * 60"

definition ISPPDistanceMap :: isp_pdistmap where
  "ISPPDistanceMap = \<lparr>dm_proto = None, dm_filename = [], dm_pdists = [], dm_lastUpdate = 0,
     dm_ttl = PDIST_DEFAULT_TTL, dm_version = []\<rparr>"

definition dm_setDataSourceServer :: "isp_pdistmap \<Rightarrow> string \<Rightarrow> nat \<Rightarrow> isp_pdistmap" where
  "dm_setDataSourceServer m addr port = m\<lparr>dm_proto := Some (addr, port), dm_filename := []\<rparr>"

definition dm_setDataSourceFile :: "isp_pdistmap \<Rightarrow> string \<Rightarrow> isp_pdistmap" where
  "dm_setDataSourceFile m filename = m\<lparr>dm_filename := filename, dm_proto := None\<rparr>"

definition getPDistance :: "isp_pdistmap \<Rightarrow> int \<Rightarrow> int \<Rightarrow> int" where
  "getPDistance m src dst =
     (if src < 0 \<or> length (dm_pdists m) \<le> nat src then ERR_UNKNOWN_PID
      else if dst < 0 \<or> length (dm_pdists m ! nat src) \<le> nat dst then ERR_UNKNOWN_PID
      else dm_pdists m ! nat src ! nat dst)"

text \<open>The code returned and the row, when the vector of the caller is filled.\<close>

definition getPDistances :: "isp_pdistmap \<Rightarrow> int \<Rightarrow> int \<times> int list option" where
  "getPDistances m src =
     (if src < 0 \<or> length (dm_pdists m) \<le> nat src then (ERR_UNKNOWN_PID, None)
      else (0, Some (dm_pdists m ! nat src)))"

text \<open>An \<open>unsigned int\<close> distance stored in an \<open>int\<close>; a pair absent from the reply is \<open>INT_MAX\<close>.\<close>

definition pdist_entry :: "u32 pid_matrix \<Rightarrow> pid \<Rightarrow> pid \<Rightarrow> int" where
  "pdist_entry dists p q = (case get_value dists p q of
       Inr d \<Rightarrow> sint d
     | Inl _ \<Rightarrow> INT_MAX)"

definition dm_loadP4PInfo ::
    "(string \<Rightarrow> nat \<Rightarrow> u32 pid_matrix portal_reply) \<Rightarrow> (string \<Rightarrow> u32 pid_matrix file_reply) \<Rightarrow> int \<Rightarrow>
     pid list \<Rightarrow> isp_pdistmap \<Rightarrow> isp_pdistmap \<times> int" where
  "dm_loadP4PInfo portal file now index_to_pid m =
     (case pm_fetch portal file PDIST_DEFAULT_TTL (dm_proto m) (dm_filename m) of
        Inl rc \<Rightarrow> (m, rc)
      | Inr (dists, ttl, version) \<Rightarrow>
          (m\<lparr>dm_pdists := map (\<lambda>p. map (\<lambda>q. pdist_entry dists p q) index_to_pid) index_to_pid,
             dm_lastUpdate := now, dm_ttl := ttl, dm_version := version\<rparr>, 0))"

section \<open>ISPs and their manager\<close>

record isp =
  m_pidmap :: isp_pidmap
  m_pdistmap :: isp_pdistmap

definition isp_loadP4PInfo ::
    "(string \<Rightarrow> nat \<Rightarrow> pid_prefixes list portal_reply) \<Rightarrow> (string \<Rightarrow> pid_prefixes list file_reply) \<Rightarrow>
     (string \<Rightarrow> nat \<Rightarrow> u32 pid_matrix portal_reply) \<Rightarrow> (string \<Rightarrow> u32 pid_matrix file_reply) \<Rightarrow> int \<Rightarrow>
     isp \<Rightarrow> (isp \<times> int) result" where
  "isp_loadP4PInfo lportal lfile dportal dfile now s =
     bindE (pm_loadP4PInfo lportal lfile now (m_pidmap s)) (\<lambda>(pm, rc).
       if rc \<noteq> 0 then Inr (s\<lparr>m_pidmap := pm\<rparr>, rc)
       else let (dm, rc') = dm_loadP4PInfo dportal dfile now (listPIDs pm) (m_pdistmap s) in
         Inr (s\<lparr>m_pidmap := pm, m_pdistmap := dm\<rparr>, rc'))"

definition ISP_default :: "isp result" where
  "ISP_default = bindE ISPPIDMap (\<lambda>pm. Inr \<lparr>m_pidmap = pm, m_pdistmap = ISPPDistanceMap\<rparr>)"

definition ISP_files :: "string \<Rightarrow> string \<Rightarrow> isp result" where
  "ISP_files pidmapFile pdistFile = bindE (ISPPIDMap_file pidmapFile) (\<lambda>pm.
     Inr \<lparr>m_pidmap = pm, m_pdistmap = dm_setDataSourceFile ISPPDistanceMap pdistFile\<rparr>)"

definition ISP_servers :: "string \<Rightarrow> nat \<Rightarrow> string \<Rightarrow> nat \<Rightarrow> isp result" where
  "ISP_servers laddr lport daddr dport = bindE (ISPPIDMap_server laddr lport) (\<lambda>pm.
     Inr \<lparr>m_pidmap = pm, m_pdistmap = dm_setDataSourceServer ISPPDistanceMap daddr dport\<rparr>)"

definition isp_setDataSourceServer :: "isp \<Rightarrow> string \<Rightarrow> nat \<Rightarrow> isp" where
  "isp_setDataSourceServer s addr port =
     s\<lparr>m_pidmap := pm_setDataSourceServer (m_pidmap s) addr port,
       m_pdistmap := dm_setDataSourceServer (m_pdistmap s) addr port\<rparr>"

definition isp_setDataSourceFile :: "isp \<Rightarrow> string \<Rightarrow> string \<Rightarrow> isp" where
  "isp_setDataSourceFile s pidmapFile pdistFile =
     s\<lparr>m_pidmap := pm_setDataSourceFile (m_pidmap s) pidmapFile,
       m_pdistmap := dm_setDataSourceFile (m_pdistmap s) pdistFile\<rparr>"

text \<open>The manager: a map from names to ISPs; the flag says whether the operation took effect.\<close>

type_synonym 'i isp_manager = "(string, 'i) smap"

definition addISP :: "'i isp_manager \<Rightarrow> string \<Rightarrow> 'i \<Rightarrow> 'i isp_manager \<times> 'i option" where
  "addISP m name i = (case smap_find m name of
       Some _ \<Rightarrow> (m, None)
     | None \<Rightarrow> (fst (smap_insert name i m), Some i))"

definition getISP :: "'i isp_manager \<Rightarrow> string \<Rightarrow> 'i option" where
  "getISP m name = smap_find m name"

definition removeISP :: "'i isp_manager \<Rightarrow> string \<Rightarrow> 'i isp_manager \<times> bool" where
  "removeISP m name = (case smap_find m name of
       None \<Rightarrow> (m, False)
     | Some _ \<Rightarrow> (smap_erase name m, True))"

definition listISPs :: "'i isp_manager \<Rightarrow> 'i list \<Rightarrow> 'i list" where
  "listISPs m out = out @ map snd m"

end
