(* ===== verification/Swarm_State.thy ===== *)
theory Swarm_State
  imports ISP_Maps
begin

text \<open>
  \<open>common/cpp/src/lib/swarm_state.cpp\<close>: counters of a swarm for each PID. The unsigned counters are
  words; a \<open>float\<close> is a type \<open>'f\<close> of which only the operations are known, so that no law of exact
  arithmetic is assumed, and \<open>i2f\<close> is the conversion of an \<open>int\<close> to it.
\<close>

record 'f pid_state =
  num_seeds :: u32
  num_leechers :: u32
  upload_cap :: 'f
  download_cap :: 'f
  upload_rate :: 'f
  download_rate :: 'f
  num_active_peers :: u32

type_synonym 'f swarm_state = "'f pid_state list"

definition PIDState :: "'f::zero pid_state" where
  "PIDState = \<lparr>num_seeds = 0, num_leechers = 0, upload_cap = 0, download_cap = 0, upload_rate = 0, download_rate = 0,
     num_active_peers = 0\<rparr>"

definition SwarmState :: "nat \<Rightarrow> 'f::zero swarm_state" where
  "SwarmState num_pids = replicate num_pids PIDState"

definition sw_isValid :: "'f swarm_state \<Rightarrow> int \<Rightarrow> bool" where
  "sw_isValid s pid \<longleftrightarrow> 0 \<le> pid \<and> nat pid < length s"

text \<open>The shape of the accessors: a value for an unknown PID, else one of the field.\<close>

definition sw_get :: "('f pid_state \<Rightarrow> 'a) \<Rightarrow> 'a \<Rightarrow> 'f swarm_state \<Rightarrow> int \<Rightarrow> 'a" where
  "sw_get field err s pid = (if \<not> sw_isValid s pid then err else field (s ! nat pid))"

definition sw_set :: "('f pid_state \<Rightarrow> 'f pid_state) \<Rightarrow> 'f swarm_state \<Rightarrow> int \<Rightarrow> 'f swarm_state \<times> int" where
  "sw_set upd s pid = (if \<not> sw_isValid s pid then (s, ERR_UNKNOWN_PID) else (s[nat pid := upd (s ! nat pid)], 0))"

definition sw_getNumPIDs :: "'f swarm_state \<Rightarrow> nat" where
  "sw_getNumPIDs s = length s"

definition getNumSeeds :: "'f swarm_state \<Rightarrow> int \<Rightarrow> int" where
  "getNumSeeds = sw_get (\<lambda>p. sint (num_seeds p)) ERR_UNKNOWN_PID"

definition setNumSeeds :: "'f swarm_state \<Rightarrow> int \<Rightarrow> int \<Rightarrow> 'f swarm_state \<times> int" where
  "setNumSeeds s pid v = sw_set (\<lambda>p. p\<lparr>num_seeds := of_int v\<rparr>) s pid"

definition getNumLeechers :: "'f swarm_state \<Rightarrow> int \<Rightarrow> int" where
  "getNumLeechers = sw_get (\<lambda>p. sint (num_leechers p)) ERR_UNKNOWN_PID"

definition setNumLeechers :: "'f swarm_state \<Rightarrow> int \<Rightarrow> int \<Rightarrow> 'f swarm_state \<times> int" where
  "setNumLeechers s pid v = sw_set (\<lambda>p. p\<lparr>num_leechers := of_int v\<rparr>) s pid"

definition getUploadCapacity :: "(int \<Rightarrow> 'f) \<Rightarrow> 'f swarm_state \<Rightarrow> int \<Rightarrow> 'f" where
  "getUploadCapacity i2f = sw_get upload_cap (i2f ERR_UNKNOWN_PID)"

definition setUploadCapacity :: "'f swarm_state \<Rightarrow> int \<Rightarrow> 'f \<Rightarrow> 'f swarm_state \<times> int" where
  "setUploadCapacity s pid v = sw_set (\<lambda>p. p\<lparr>upload_cap := v\<rparr>) s pid"

definition getDownloadCapacity :: "(int \<Rightarrow> 'f) \<Rightarrow> 'f swarm_state \<Rightarrow> int \<Rightarrow> 'f" where
  "getDownloadCapacity i2f = sw_get download_cap (i2f ERR_UNKNOWN_PID)"

definition setDownloadCapacity :: "'f swarm_state \<Rightarrow> int \<Rightarrow> 'f \<Rightarrow> 'f swarm_state \<times> int" where
  "setDownloadCapacity s pid v = sw_set (\<lambda>p. p\<lparr>download_cap := v\<rparr>) s pid"

definition getUploadRate :: "(int \<Rightarrow> 'f) \<Rightarrow> 'f swarm_state \<Rightarrow> int \<Rightarrow> 'f" where
  "getUploadRate i2f = sw_get upload_rate (i2f ERR_UNKNOWN_PID)"

definition setUploadRate :: "'f swarm_state \<Rightarrow> int \<Rightarrow> 'f \<Rightarrow> 'f swarm_state \<times> int" where
  "setUploadRate s pid v = sw_set (\<lambda>p. p\<lparr>upload_rate := v\<rparr>) s pid"

text \<open>The source reads the capacity here.\<close>

definition getDownloadRate :: "(int \<Rightarrow> 'f) \<Rightarrow> 'f swarm_state \<Rightarrow> int \<Rightarrow> 'f" where
  "getDownloadRate i2f = sw_get download_cap (i2f ERR_UNKNOWN_PID)"

definition setDownloadRate :: "'f swarm_state \<Rightarrow> int \<Rightarrow> 'f \<Rightarrow> 'f swarm_state \<times> int" where
  "setDownloadRate s pid v = sw_set (\<lambda>p. p\<lparr>download_rate := v\<rparr>) s pid"

definition getNumActivePeers :: "'f swarm_state \<Rightarrow> int \<Rightarrow> int" where
  "getNumActivePeers = sw_get (\<lambda>p. sint (num_active_peers p)) ERR_UNKNOWN_PID"

definition setNumActivePeers :: "'f swarm_state \<Rightarrow> int \<Rightarrow> int \<Rightarrow> 'f swarm_state \<times> int" where
  "setNumActivePeers s pid v = sw_set (\<lambda>p. p\<lparr>num_active_peers := of_int v\<rparr>) s pid"

text \<open>The change of seeds is added to the upload capacity, as the source has it.\<close>

record 'f swarm_change =
  change_seeds :: int
  change_leechers :: int
  change_uploadcap :: 'f
  change_downloadcap :: 'f
  change_uploadrate :: 'f
  change_downloadrate :: 'f
  change_active_peers :: int

definition pid_state_update :: "(int \<Rightarrow> 'f) \<Rightarrow> 'f::plus swarm_change \<Rightarrow> 'f pid_state \<Rightarrow> 'f pid_state" where
  "pid_state_update i2f c p = \<lparr>
     num_seeds = num_seeds p,
     num_leechers = num_leechers p + of_int (change_leechers c),
     upload_cap = (upload_cap p + i2f (change_seeds c)) + change_uploadcap c,
     download_cap = download_cap p + change_downloadcap c,
     upload_rate = upload_rate p + change_uploadrate c,
     download_rate = download_rate p + change_downloadrate c,
     num_active_peers = num_active_peers p + of_int (change_active_peers c)\<rparr>"

definition swarm_update :: "(int \<Rightarrow> 'f) \<Rightarrow> 'f::plus swarm_state \<Rightarrow> int \<Rightarrow> 'f swarm_change \<Rightarrow> 'f swarm_state \<times> int" where
  "swarm_update i2f s pid c = sw_set (pid_state_update i2f c) s pid"

section \<open>Accessors\<close>

lemma sw_get_set:
  "sw_get field err (fst (sw_set upd s pid)) pid' =
     (if pid' = pid \<and> sw_isValid s pid then field (upd (s ! nat pid)) else sw_get field err s pid')"
  by (auto simp: sw_get_def sw_set_def sw_isValid_def)

lemma sw_set_code: "snd (sw_set upd s pid) = (if sw_isValid s pid then 0 else ERR_UNKNOWN_PID)"
  by (simp add: sw_set_def)

lemma sw_set_length [simp]: "length (fst (sw_set upd s pid)) = length s"
  by (simp add: sw_set_def)

lemma sint_of_int_u32: "- (2 ^ 31) \<le> v \<Longrightarrow> v < 2 ^ 31 \<Longrightarrow> sint (of_int v :: u32) = v"
  by (simp add: sint_sbintrunc' signed_take_bit_int_eq_self)

lemmas sw_defs = getNumSeeds_def setNumSeeds_def getNumLeechers_def setNumLeechers_def getUploadCapacity_def setUploadCapacity_def
  getDownloadCapacity_def setDownloadCapacity_def getUploadRate_def setUploadRate_def getDownloadRate_def setDownloadRate_def
  getNumActivePeers_def setNumActivePeers_def

text \<open>
  Setting a counter of a PID of the swarm is seen by its getter at that PID, for every
  value of an \<open>int\<close>, leaves the other PIDs and the other counters alone, and for a PID outside the swarm
  changes nothing and returns the error the getter returns too.
\<close>
theorem swarm_get_set:
  assumes "- (2 ^ 31) \<le> v" "v < 2 ^ 31" "setNumLeechers s pid v = (s', rc)"
  shows "(if sw_isValid s pid then rc = 0 \<and> getNumLeechers s' pid = v else rc = ERR_UNKNOWN_PID \<and> s' = s \<and> getNumLeechers s pid = ERR_UNKNOWN_PID) \<and>
    (\<forall>pid'. pid' \<noteq> pid \<longrightarrow> getNumLeechers s' pid' = getNumLeechers s pid') \<and>
    (\<forall>pid'. getNumSeeds s' pid' = getNumSeeds s pid' \<and> getNumActivePeers s' pid' = getNumActivePeers s pid' \<and>
       getUploadCapacity i2f s' pid' = getUploadCapacity i2f s pid' \<and> getDownloadCapacity i2f s' pid' = getDownloadCapacity i2f s pid')"
proof -
  have s': "s' = fst (setNumLeechers s pid v)" "rc = snd (setNumLeechers s pid v)" using assms(3) by auto
  show ?thesis unfolding s'
    using sint_of_int_u32 [OF assms(1,2)] by (auto simp: sw_defs sw_get_set sw_set_code) (auto simp: sw_get_def sw_set_def)
qed

text \<open>
  \<open>update\<close> never changes the number of seeds of any PID, whatever change it is given:
  \<open>swarm_state.cpp\<close> adds the change of seeds to the upload capacity.
\<close>
lemma swarm_update_seeds:
  "getNumSeeds (fst (swarm_update i2f s pid c)) pid' = getNumSeeds s pid' \<and>
   (sw_isValid s pid \<longrightarrow> getUploadCapacity i2f (fst (swarm_update i2f s pid c)) pid =
      getUploadCapacity i2f s pid + i2f (change_seeds c) + change_uploadcap c)"
  by (auto simp: sw_defs swarm_update_def sw_get_set pid_state_update_def) (simp_all add: sw_get_def)

text \<open>
  The download rate is lost: after \<open>setDownloadRate\<close> the getter still gives the download
  capacity, for every swarm state and value.
\<close>
lemma swarm_download_rate_lost:
  "getDownloadRate i2f (fst (setDownloadRate s pid v)) pid = getDownloadCapacity i2f s pid"
  by (auto simp: sw_defs sw_get_set) (simp add: sw_get_def)

end
