(* ===== verification/Random_Access_Set.thy ===== *)
theory Random_Access_Set
  imports Std_Map "HOL-Library.Multiset"
begin

text \<open>
  \<open>common/cpp/src/include/p4p/detail/random_access_set.h\<close>: a vector without duplicates with a map
  from elements to their positions. The comparator of the map is given by the function \<open>key\<close> it
  compares by; two elements are the same to the container when their keys are. The value \<open>npos\<close> is
  \<open>None\<close>. An index outside the vector is \<open>Undefined_Behaviour\<close>.
\<close>

record ('a, 'k) random_access_set =
  m_vec_index :: "('k, nat) smap"
  m_vec :: "'a list"

definition ras_empty :: "('a, 'k) random_access_set" where
  "ras_empty = \<lparr>m_vec_index = [], m_vec = []\<rparr>"

definition ras_find :: "('a \<Rightarrow> 'k) \<Rightarrow> ('a, 'k) random_access_set \<Rightarrow> 'a \<Rightarrow> nat option" where
  "ras_find key s v = smap_find (m_vec_index s) (key v)"

definition ras_push_back ::
    "('a \<Rightarrow> 'k::linorder) \<Rightarrow> ('a, 'k) random_access_set \<Rightarrow> 'a \<Rightarrow> ('a, 'k) random_access_set \<times> bool" where
  "ras_push_back key s v =
     (if ras_find key s v \<noteq> None then (s, False)
      else (\<lparr>m_vec_index = smap_put (key v) (length (m_vec s @ [v]) - 1) (m_vec_index s), m_vec = m_vec s @ [v]\<rparr>, True))"

definition ras_pop_back :: "('a \<Rightarrow> 'k::linorder) \<Rightarrow> ('a, 'k) random_access_set \<Rightarrow> ('a, 'k) random_access_set" where
  "ras_pop_back key s =
     (if m_vec s = [] then s
      else \<lparr>m_vec_index = smap_erase (key (last (m_vec s))) (m_vec_index s), m_vec = butlast (m_vec s)\<rparr>)"

definition ras_swap ::
    "('a \<Rightarrow> 'k::linorder) \<Rightarrow> ('a, 'k) random_access_set \<Rightarrow> nat \<Rightarrow> nat \<Rightarrow> ('a, 'k) random_access_set result" where
  "ras_swap key s i j =
     bindE (nthE (m_vec s) i) (\<lambda>x.
     bindE (nthE (m_vec s) j) (\<lambda>y.
       Inr \<lparr>m_vec_index = smap_put (key y) i (smap_put (key x) j (m_vec_index s)),
            m_vec = (m_vec s)[i := y, j := x]\<rparr>))"

definition ras_erase ::
    "('a \<Rightarrow> 'k::linorder) \<Rightarrow> ('a, 'k) random_access_set \<Rightarrow> 'a \<Rightarrow> (('a, 'k) random_access_set \<times> bool) result" where
  "ras_erase key s v = (case ras_find key s v of
       None \<Rightarrow> Inr (s, False)
     | Some i \<Rightarrow> bindE (ras_swap key s i (length (m_vec s) - 1)) (\<lambda>s'. Inr (ras_pop_back key s', True)))"

text \<open>The map gives the position of every element, and of nothing else.\<close>

definition ras_inv :: "('a \<Rightarrow> 'k::linorder) \<Rightarrow> ('a, 'k) random_access_set \<Rightarrow> bool" where
  "ras_inv key s \<longleftrightarrow> smap_inv (m_vec_index s) \<and>
     (\<forall>x i. smap_find (m_vec_index s) x = Some i \<longleftrightarrow> i < length (m_vec s) \<and> key (m_vec s ! i) = x)"

lemma ras_invD:
  assumes "ras_inv key s"
  shows "smap_inv (m_vec_index s)"
    "smap_find (m_vec_index s) x = Some i \<longleftrightarrow> i < length (m_vec s) \<and> key (m_vec s ! i) = x"
  using assms by (auto simp: ras_inv_def)

lemma ras_distinct: "ras_inv key s \<Longrightarrow> distinct (map key (m_vec s))"
  unfolding distinct_conv_nth
  by (metis length_map nth_map option.inject ras_invD(2))

lemma ras_find_None: "ras_inv key s \<Longrightarrow> ras_find key s v = None \<longleftrightarrow> key v \<notin> key ` set (m_vec s)"
  using ras_invD(2) [of key s "key v"] unfolding ras_find_def
  by (metis (no_types, lifting) image_iff in_set_conv_nth not_None_eq)

lemma ras_find_Some: "ras_inv key s \<Longrightarrow> ras_find key s v = Some i \<longleftrightarrow> i < length (m_vec s) \<and> key (m_vec s ! i) = key v"
  by (simp add: ras_find_def ras_invD(2))

lemma ras_inv_empty: "ras_inv key ras_empty"
  by (simp add: ras_inv_def ras_empty_def)

lemma ras_push_back_spec:
  assumes inv: "ras_inv key s"
  shows "ras_inv key (fst (ras_push_back key s v))"
    and "snd (ras_push_back key s v) \<longleftrightarrow> key v \<notin> key ` set (m_vec s)"
    and "m_vec (fst (ras_push_back key s v)) = (if key v \<in> key ` set (m_vec s) then m_vec s else m_vec s @ [v])"
proof -
  have f: "ras_find key s v = None \<longleftrightarrow> key v \<notin> key ` set (m_vec s)" by (rule ras_find_None [OF inv])
  then show "snd (ras_push_back key s v) \<longleftrightarrow> key v \<notin> key ` set (m_vec s)"
    "m_vec (fst (ras_push_back key s v)) = (if key v \<in> key ` set (m_vec s) then m_vec s else m_vec s @ [v])"
    by (auto simp: ras_push_back_def)
  show "ras_inv key (fst (ras_push_back key s v))"
  proof (cases "key v \<in> key ` set (m_vec s)")
    case False
    then have new: "i < length (m_vec s) \<Longrightarrow> key (m_vec s ! i) \<noteq> key v" for i by (metis image_eqI nth_mem)
    show ?thesis
      using False f inv new ras_invD(2) [OF inv]
      by (auto simp: ras_push_back_def ras_inv_def nth_append less_Suc_eq)
  qed (use f inv in \<open>simp add: ras_push_back_def\<close>)
qed

lemma ras_pop_back_spec:
  assumes inv: "ras_inv key s"
  shows "ras_inv key (ras_pop_back key s)" and "m_vec (ras_pop_back key s) = butlast (m_vec s)"
proof -
  show "m_vec (ras_pop_back key s) = butlast (m_vec s)" by (simp add: ras_pop_back_def)
  show "ras_inv key (ras_pop_back key s)"
  proof (cases "m_vec s = []")
    case False
    have last: "i < length (m_vec s) \<Longrightarrow> key (m_vec s ! i) = key (last (m_vec s)) \<longleftrightarrow> i = length (m_vec s) - 1" for i
      using False nth_eq_iff_index_eq [OF ras_distinct [OF inv], of i "length (m_vec s) - 1"] by (simp add: last_conv_nth)
    have "smap_find (smap_erase (key (last (m_vec s))) (m_vec_index s)) x = Some i \<longleftrightarrow>
        i < length (m_vec s) - 1 \<and> key (m_vec s ! i) = x" for x i
      using ras_invD(2) [OF inv, of x i] last [of i] False by (auto simp: less_diff_conv)
    then show ?thesis
      using False ras_invD(1) [OF inv] by (auto simp: ras_pop_back_def ras_inv_def nth_butlast)
  qed (use inv in \<open>simp add: ras_pop_back_def\<close>)
qed

lemma ras_swap_spec:
  assumes inv: "ras_inv key s" and ij: "i < length (m_vec s)" "j < length (m_vec s)"
  shows "\<exists>s'. ras_swap key s i j = Inr s' \<and> ras_inv key s' \<and> m_vec s' = (m_vec s)[i := m_vec s ! j, j := m_vec s ! i]"
proof -
  let ?v = "m_vec s" and ?k = "\<lambda>n. key (m_vec s ! n)"
  let ?idx = "smap_put (?k j) i (smap_put (?k i) j (m_vec_index s))"
  have d: "n < length ?v \<Longrightarrow> m < length ?v \<Longrightarrow> ?k n = ?k m \<longleftrightarrow> n = m" for n m
    using nth_eq_iff_index_eq [OF ras_distinct [OF inv], of n m] by simp
  have "smap_find ?idx x = Some n \<longleftrightarrow> n < length ?v \<and> key (?v[i := ?v ! j, j := ?v ! i] ! n) = x" for x n
  proof (cases "n < length ?v")
    case True
    show ?thesis
      using ras_invD(1) [OF inv] ras_invD(2) [OF inv, of x n] True ij d [of n i] d [of n j] d [of i j] d [of j i]
      by (auto simp: nth_list_update)
  next
    case False
    then show ?thesis using ras_invD(1) [OF inv] ras_invD(2) [OF inv, of x n] ij by auto
  qed
  then show ?thesis using ij ras_invD(1) [OF inv] by (simp add: ras_swap_def ras_inv_def)
qed

lemma butlast_swap_last:
  assumes "i < length v"
  defines "w \<equiv> v[i := v ! (length v - 1), length v - 1 := v ! i]"
  shows "w = butlast w @ [v ! i]" and "mset v = add_mset (v ! i) (mset (butlast w))"
proof -
  have ne: "w \<noteq> []" "length w = length v" using assms by (auto simp: w_def)
  have "last w = w ! (length v - 1)" using ne by (simp add: last_conv_nth)
  also have "\<dots> = v ! i" using assms(1) by (simp add: w_def)
  finally show w: "w = butlast w @ [v ! i]" using ne(1) by (metis append_butlast_last_id)
  have "mset v = mset w" using assms(1) mset_swap [of "length v - 1" v i] by (simp add: w_def)
  also have "\<dots> = add_mset (v ! i) (mset (butlast w))" by (subst w) simp
  finally show "mset v = add_mset (v ! i) (mset (butlast w))" .
qed

lemma ras_ops_erase:
  assumes inv: "ras_inv key s"
  shows "\<exists>s' r. ras_erase key s v = Inr (s', r) \<and> ras_inv key s' \<and> r = (key v \<in> key ` set (m_vec s)) \<and>
       mset (m_vec s') = filter_mset (\<lambda>x. key x \<noteq> key v) (mset (m_vec s))"
proof (cases "ras_find key s v")
  case None
  then have n: "key v \<notin> key ` set (m_vec s)" by (simp add: ras_find_None [OF inv])
  then have "filter_mset (\<lambda>x. key x \<noteq> key v) (mset (m_vec s)) = mset (m_vec s)"
    by (metis (mono_tags, lifting) filter_True image_eqI mset_filter)
  with None n inv show ?thesis by (auto simp: ras_erase_def)
next
  case (Some i)
  then have i: "i < length (m_vec s)" "key (m_vec s ! i) = key v" by (simp_all add: ras_find_Some [OF inv])
  let ?n = "length (m_vec s) - 1" and ?w = "(m_vec s)[i := m_vec s ! (length (m_vec s) - 1), length (m_vec s) - 1 := m_vec s ! i]"
  have n: "?n < length (m_vec s)" using i(1) by simp
  obtain s' where s': "ras_swap key s i ?n = Inr s'" "ras_inv key s'" "m_vec s' = ?w" using ras_swap_spec [OF inv i(1) n] by blast
  note m = butlast_swap_last(2) [OF i(1)] and w = butlast_swap_last(1) [OF i(1)]
  have "distinct (map key (butlast ?w @ [m_vec s ! i]))" using ras_distinct [OF s'(2)] s'(3) w by metis
  then have "\<forall>x\<in>#mset (butlast ?w). key x \<noteq> key v" using i(2) by (fastforce simp: image_iff)
  then have "filter_mset (\<lambda>x. key x \<noteq> key v) (mset (m_vec s)) = mset (butlast ?w)"
    unfolding m using i(2) by (simp add: mset_filter [symmetric] del: mset_filter)
  moreover have "key v \<in> key ` set (m_vec s)" using i by (metis image_eqI nth_mem)
  ultimately show ?thesis
    using Some s' ras_pop_back_spec [OF s'(2)] by (auto simp: ras_erase_def)
qed

text \<open>
  A random-access set keeps the position of every element and of nothing else under
  each of its operations; pushing adds an element unless one with the same key is there, erasing
  removes the element with that key and no other and never leaves the vector's bounds.
\<close>
theorem random_access_set_ops:
  assumes inv: "ras_inv key s"
  shows "ras_inv key (fst (ras_push_back key s v)) \<and>
    mset (m_vec (fst (ras_push_back key s v))) =
      (if key v \<in> key ` set (m_vec s) then mset (m_vec s) else add_mset v (mset (m_vec s))) \<and>
    (\<exists>s' r. ras_erase key s v = Inr (s', r) \<and> ras_inv key s' \<and> r = (key v \<in> key ` set (m_vec s)) \<and>
       mset (m_vec s') = filter_mset (\<lambda>x. key x \<noteq> key v) (mset (m_vec s)))"
  using ras_push_back_spec [OF inv, of v] ras_ops_erase [OF inv, of v] by auto

end
