(* ===== verification/Peer_Distribution.thy ===== *)
theory Peer_Distribution
  imports Swarm_State Random_Access_Set
begin

text \<open>
  \<open>common/cpp/src/lib/perisp_peer_distribution.cpp\<close> and \<open>peer_distribution_manager.cpp\<close>: the peers of a
  swarm, grouped by their PID in the view of each ISP. Peers and ISPs are named by their addresses; the
  objects are in the stores \<open>ps\<close> and \<open>isps\<close>. Public operations are taken as atomic steps; \<open>rand ()\<close>
  is an argument.
\<close>

section \<open>Peers\<close>

text \<open>The state of \<open>P4PPeerBase\<close> and what its virtual functions return.\<close>

record 'f peer =
  p_addr :: ip_prefix
  p_seeder :: bool
  p_upload :: 'f
  p_download :: 'f
  home_isp :: nat
  home_pid :: int

definition setHome :: "'f peer \<Rightarrow> nat \<Rightarrow> int \<Rightarrow> 'f peer" where
  "setHome p i pid = p\<lparr>home_isp := i, home_pid := pid\<rparr>"

record 'f peer_stats =
  is_seed :: bool
  st_upload_cap :: 'f
  st_download_cap :: 'f
  st_upload_rate :: 'f
  st_download_rate :: 'f
  st_active_peers :: int

definition PeerStats :: "'f::zero peer \<Rightarrow> 'f peer_stats" where
  "PeerStats p = \<lparr>is_seed = p_seeder p, st_upload_cap = p_upload p, st_download_cap = p_download p,
     st_upload_rate = 0, st_download_rate = 0, st_active_peers = 0\<rparr>"

definition stats_change :: "'f peer_stats \<Rightarrow> 'f swarm_change" where
  "stats_change st = \<lparr>change_seeds = (if is_seed st then 1 else 0), change_leechers = (if is_seed st then 0 else 1),
     change_uploadcap = st_upload_cap st, change_downloadcap = st_download_cap st, change_uploadrate = st_upload_rate st,
     change_downloadrate = st_download_rate st, change_active_peers = st_active_peers st\<rparr>"

section \<open>The view of an ISP\<close>

record 'f peer_view =
  m_peer_to_pid :: "(nat, int) smap"
  m_pid_peers :: "(nat, nat) random_access_set list"
  m_swarm_state :: "'f swarm_state"

definition PerISPPeerDistribution :: "'f peer_view" where
  "PerISPPeerDistribution = \<lparr>m_peer_to_pid = [], m_pid_peers = [], m_swarm_state = []\<rparr>"

text \<open>The first peer allocates the tables, with an entry more than there are PIDs for peers without one.\<close>

definition view_alloc :: "nat \<Rightarrow> 'f::zero peer_view \<Rightarrow> 'f peer_view" where
  "view_alloc num_total v = (if m_peer_to_pid v = []
     then v\<lparr>m_swarm_state := SwarmState num_total, m_pid_peers := replicate (num_total + 1) ras_empty\<rparr> else v)"

text \<open>The entry of a PID; a negative PID has the last one. \<open>back ()\<close> of an empty vector is undefined.\<close>

definition pid_slot :: "'f peer_view \<Rightarrow> int \<Rightarrow> nat" where
  "pid_slot v pid = (if pid < 0 then length (m_pid_peers v) - 1 else nat pid)"

definition addPeerInternal :: "(int \<Rightarrow> 'f) \<Rightarrow> nat \<Rightarrow> 'f::{zero,plus} peer_view \<Rightarrow> nat \<Rightarrow> int \<Rightarrow> 'f peer_stats \<Rightarrow> ('f peer_view \<times> bool) result" where
  "addPeerInternal i2f num_total v0 peer pid0 stats =
     (let v = view_alloc num_total v0;
          pid = (if 0 \<le> pid0 \<and> length (m_pid_peers v) \<noteq> 0 \<and> length (m_pid_peers v) - 1 \<le> nat pid0 then ERR_UNKNOWN_PID else pid0);
          (m, inserted) = smap_insert peer pid (m_peer_to_pid v) in
      if \<not> inserted then Inr (v, False)
      else bindE (nthE (m_pid_peers v) (pid_slot v pid)) (\<lambda>s.
        let v1 = v\<lparr>m_peer_to_pid := m, m_pid_peers := (m_pid_peers v)[pid_slot v pid := fst (ras_push_back id s peer)]\<rparr> in
        Inr (if 0 \<le> pid then v1\<lparr>m_swarm_state := fst (swarm_update i2f (m_swarm_state v) pid (stats_change stats))\<rparr> else v1, True)))"

definition view_addPeer :: "(int \<Rightarrow> 'f) \<Rightarrow> nat \<Rightarrow> (nat \<Rightarrow> 'f peer) \<Rightarrow> 'f::{zero,plus} peer_view \<Rightarrow> nat \<Rightarrow> int \<Rightarrow> ('f peer_view \<times> bool) result" where
  "view_addPeer i2f num_total ps v peer pid = addPeerInternal i2f num_total v peer pid (PeerStats (ps peer))"

definition view_removePeer :: "'f peer_view \<Rightarrow> nat \<Rightarrow> ('f peer_view \<times> bool) result" where
  "view_removePeer v peer = (case smap_find (m_peer_to_pid v) peer of
       None \<Rightarrow> Inr (v, False)
     | Some pid \<Rightarrow>
         let m = smap_erase peer (m_peer_to_pid v) in
         bindE (nthE (m_pid_peers v) (pid_slot v pid)) (\<lambda>s.
         bindE (ras_erase id s peer) (\<lambda>(s', b).
           Inr (if m = [] then v\<lparr>m_peer_to_pid := m, m_swarm_state := [], m_pid_peers := []\<rparr>
                else v\<lparr>m_peer_to_pid := m, m_pid_peers := (m_pid_peers v)[pid_slot v pid := s']\<rparr>, True))))"

definition view_updatePeerStats :: "(int \<Rightarrow> 'f) \<Rightarrow> 'f::plus peer_view \<Rightarrow> nat \<Rightarrow> bool \<Rightarrow> 'f swarm_change \<Rightarrow> 'f peer_view \<times> bool" where
  "view_updatePeerStats i2f v peer is_seed_changed c = (case smap_find (m_peer_to_pid v) peer of
       None \<Rightarrow> (v, False)
     | Some pid \<Rightarrow>
         (v\<lparr>m_swarm_state := fst (swarm_update i2f (m_swarm_state v) pid
              (c\<lparr>change_seeds := (if is_seed_changed then 1 else 0), change_leechers := (if is_seed_changed then - 1 else 0)\<rparr>))\<rparr>, True))"

definition getSwarmState :: "'f peer_view \<Rightarrow> 'f swarm_state" where
  "getSwarmState v = m_swarm_state v"

text \<open>The queries; with no entries a negative PID becomes an index that is out of range.\<close>

definition view_listPIDPeers :: "'f peer_view \<Rightarrow> int \<Rightarrow> nat list \<Rightarrow> nat list \<times> bool" where
  "view_listPIDPeers v pid out =
     (if m_pid_peers v = [] \<or> length (m_pid_peers v) \<le> pid_slot v pid then (out, False)
      else (out @ m_vec (m_pid_peers v ! pid_slot v pid), True))"

definition view_listPIDs :: "'f peer_view \<Rightarrow> int list \<Rightarrow> nat list \<Rightarrow> nat list" where
  "view_listPIDs v pids out = foldl (\<lambda>o' i. fst (view_listPIDPeers v i o')) out pids"

definition view_listIntraISPPeers :: "isp \<Rightarrow> 'f peer_view \<Rightarrow> nat list \<Rightarrow> nat list result" where
  "view_listIntraISPPeers s v out = bindE (getNumPIDs (m_pidmap s)) (\<lambda>(n, total). Inr (view_listPIDs v (map int [0..<n]) out))"

definition view_listExternalPeers :: "isp \<Rightarrow> 'f peer_view \<Rightarrow> nat list \<Rightarrow> nat list result" where
  "view_listExternalPeers s v out = bindE (getNumPIDs (m_pidmap s)) (\<lambda>(n, total). Inr (view_listPIDs v (map int [n..<total]) out))"

definition view_getRandomPeer :: "nat \<Rightarrow> 'f peer_view \<Rightarrow> int \<Rightarrow> nat option" where
  "view_getRandomPeer rnd v pid =
     (if m_pid_peers v = [] \<or> length (m_pid_peers v) \<le> pid_slot v pid then None
      else let s = m_vec (m_pid_peers v ! pid_slot v pid) in
        if s = [] then None else Some (s ! (rnd mod length s)))"

definition view_getRandomPeer_pids :: "nat \<Rightarrow> nat \<Rightarrow> 'f peer_view \<Rightarrow> int list \<Rightarrow> nat option" where
  "view_getRandomPeer_pids rnd rnd' v pids =
     (if pids = [] then None else view_getRandomPeer rnd' v (pids ! (rnd mod length pids)))"

definition view_getNumPeers :: "'f peer_view \<Rightarrow> int \<Rightarrow> int" where
  "view_getNumPeers v pid =
     (if m_pid_peers v = [] \<or> length (m_pid_peers v) \<le> pid_slot v pid then - 1
      else int (length (m_vec (m_pid_peers v ! pid_slot v pid))))"

text \<open>Rebuilding the view from the peers of the manager, after the PID map has changed.\<close>

definition isp_lookup :: "isp \<Rightarrow> ip_prefix \<Rightarrow> bool \<Rightarrow> (int \<times> ip_prefix option) result" where
  "isp_lookup s addr want = pm_lookup (m_pidmap s) addr want"

definition isp_total_pids :: "isp \<Rightarrow> nat" where
  "isp_total_pids s = length (listPIDs (m_pidmap s))"

fun add_from_manager ::
    "(int \<Rightarrow> 'f) \<Rightarrow> (nat \<Rightarrow> isp) \<Rightarrow> nat \<Rightarrow> (nat, 'f peer_stats) smap \<Rightarrow> 'f::{zero,plus} peer_view \<Rightarrow> (nat \<Rightarrow> 'f peer) \<Rightarrow>
     ('f peer_view \<times> (nat \<Rightarrow> 'f peer)) result" where
  "add_from_manager i2f isps i [] v ps = Inr (v, ps)"
| "add_from_manager i2f isps i ((peer, stats) # es) v ps =
     bindE (isp_lookup (isps i) (p_addr (ps peer)) False) (\<lambda>(pid0, out).
       let pid = (if pid0 < 0 then ERR_UNKNOWN_PID else pid0) in
       bindE (addPeerInternal i2f (isp_total_pids (isps i)) v peer pid stats) (\<lambda>(v', b).
         add_from_manager i2f isps i es v'
           (if home_isp (ps peer) = i then ps(peer := setHome (ps peer) i pid) else ps)))"

definition addPeersFromManager ::
    "(int \<Rightarrow> 'f) \<Rightarrow> (nat \<Rightarrow> isp) \<Rightarrow> nat \<Rightarrow> (nat, 'f peer_stats) smap \<Rightarrow> 'f::{zero,plus} peer_view \<Rightarrow> (nat \<Rightarrow> 'f peer) \<Rightarrow>
     ('f peer_view \<times> (nat \<Rightarrow> 'f peer)) result" where
  "addPeersFromManager i2f isps i peers v ps =
     add_from_manager i2f isps i peers (v\<lparr>m_peer_to_pid := [], m_pid_peers := [], m_swarm_state := []\<rparr>) ps"

section \<open>The manager of the views\<close>

record 'f peer_dist_manager =
  m_views :: "(nat, 'f peer_view) smap"
  m_peers :: "(nat, 'f peer_stats) smap"

definition PeerDistributionManager :: "'f peer_dist_manager" where
  "PeerDistributionManager = \<lparr>m_views = [], m_peers = []\<rparr>"

text \<open>The loop over the views: the candidate for the home is an ISP, a PID of it and the length of its prefix.\<close>

type_synonym home = "nat \<times> int \<times> nat"

definition home_update :: "isp \<Rightarrow> nat \<Rightarrow> int \<Rightarrow> ip_prefix option \<Rightarrow> home \<Rightarrow> home result" where
  "home_update s i pid matching home =
     (if pid < 0 then Inr home
      else bindE (getNumPIDs (m_pidmap s)) (\<lambda>(intra, total).
        let len = get_length (case matching of Some q \<Rightarrow> q | None \<Rightarrow> IPPrefix_default) in
        Inr (if int intra \<le> pid then home
             else if len < snd (snd home) then home
             else (i, pid, len))))"

fun add_to_views ::
    "(int \<Rightarrow> 'f) \<Rightarrow> (nat \<Rightarrow> isp) \<Rightarrow> (nat \<Rightarrow> 'f peer) \<Rightarrow> nat \<Rightarrow> (nat, 'f::{zero,plus} peer_view) smap \<Rightarrow> home \<Rightarrow>
     ((nat, 'f peer_view) smap \<times> home) result" where
  "add_to_views i2f isps ps peer [] home = Inr ([], home)"
| "add_to_views i2f isps ps peer ((i, v) # vs) home =
     bindE (isp_lookup (isps i) (p_addr (ps peer)) True) (\<lambda>(pid, matching).
     bindE (view_addPeer i2f (isp_total_pids (isps i)) ps v peer (if pid < 0 then ERR_UNKNOWN_PID else pid)) (\<lambda>(v', b).
     bindE (home_update (isps i) i pid matching home) (\<lambda>home'.
     bindE (add_to_views i2f isps ps peer vs home') (\<lambda>(vs', home'').
       Inr ((i, v') # vs', home'')))))"

definition pdm_addPeer ::
    "(int \<Rightarrow> 'f) \<Rightarrow> (nat \<Rightarrow> isp) \<Rightarrow> (nat \<Rightarrow> 'f peer) \<Rightarrow> 'f::{zero,plus} peer_dist_manager \<Rightarrow> nat \<Rightarrow>
     ('f peer_dist_manager \<times> (nat \<Rightarrow> 'f peer) \<times> bool) result" where
  "pdm_addPeer i2f isps ps d peer =
     (let (peers, inserted) = smap_insert peer (PeerStats (ps peer)) (m_peers d) in
      if \<not> inserted then Inr (d, ps, False)
      else bindE (add_to_views i2f isps ps peer (m_views d) (0, ERR_UNKNOWN_PID, 0)) (\<lambda>(vs, (i, pid, len)).
        Inr (d\<lparr>m_views := vs, m_peers := peers\<rparr>, if i \<noteq> 0 then ps(peer := setHome (ps peer) i pid) else ps, True)))"

fun remove_from_views :: "nat \<Rightarrow> (nat, 'f peer_view) smap \<Rightarrow> (nat, 'f peer_view) smap result" where
  "remove_from_views peer [] = Inr []"
| "remove_from_views peer ((i, v) # vs) =
     bindE (view_removePeer v peer) (\<lambda>(v', b). bindE (remove_from_views peer vs) (\<lambda>vs'. Inr ((i, v') # vs')))"

definition pdm_removePeer :: "'f peer_dist_manager \<Rightarrow> nat \<Rightarrow> ('f peer_dist_manager \<times> bool) result" where
  "pdm_removePeer d peer = bindE (remove_from_views peer (m_views d)) (\<lambda>vs.
     Inr (d\<lparr>m_views := vs, m_peers := smap_erase peer (m_peers d)\<rparr>, smap_find (m_peers d) peer \<noteq> None))"

definition pdm_updatePeerStats :: "(int \<Rightarrow> 'f) \<Rightarrow> (nat \<Rightarrow> 'f peer) \<Rightarrow> 'f::{zero,plus,minus} peer_dist_manager \<Rightarrow> nat \<Rightarrow> 'f peer_dist_manager \<times> bool" where
  "pdm_updatePeerStats i2f ps d peer = (case smap_find (m_peers d) peer of
       None \<Rightarrow> (d, False)
     | Some prev \<Rightarrow>
         let new = PeerStats (ps peer);
             c = \<lparr>change_seeds = 0, change_leechers = 0,
                  change_uploadcap = st_upload_cap new - st_upload_cap prev, change_downloadcap = st_download_cap new - st_download_cap prev,
                  change_uploadrate = st_upload_rate new - st_upload_rate prev, change_downloadrate = st_download_rate new - st_download_rate prev,
                  change_active_peers = st_active_peers new - st_active_peers prev\<rparr> in
         (d\<lparr>m_peers := smap_put peer new (m_peers d),
            m_views := map (\<lambda>(i, v). (i, fst (view_updatePeerStats i2f v peer (is_seed new \<noteq> is_seed prev) c))) (m_views d)\<rparr>, True))"

definition pdm_addISP :: "'f peer_dist_manager \<Rightarrow> nat \<Rightarrow> 'f peer_dist_manager \<times> bool" where
  "pdm_addISP d i = (case smap_find (m_views d) i of
       Some _ \<Rightarrow> (d, False)
     | None \<Rightarrow> (d\<lparr>m_views := fst (smap_insert i PerISPPeerDistribution (m_views d))\<rparr>, True))"

definition pdm_removeISP :: "'f peer_dist_manager \<Rightarrow> nat \<Rightarrow> 'f peer_dist_manager" where
  "pdm_removeISP d i = (case smap_find (m_views d) i of None \<Rightarrow> d | Some _ \<Rightarrow> d\<lparr>m_views := smap_erase i (m_views d)\<rparr>)"

abbreviation (input) ERR_INVALID_ISP_CODE :: int where "ERR_INVALID_ISP_CODE \<equiv> - 102"

definition pdm_updatePeerDistribution ::
    "(int \<Rightarrow> 'f) \<Rightarrow> (nat \<Rightarrow> isp) \<Rightarrow> (nat \<Rightarrow> 'f peer) \<Rightarrow> 'f::{zero,plus} peer_dist_manager \<Rightarrow> nat \<Rightarrow>
     ('f peer_dist_manager \<times> (nat \<Rightarrow> 'f peer) \<times> int) result" where
  "pdm_updatePeerDistribution i2f isps ps d i = (case smap_find (m_views d) i of
       None \<Rightarrow> Inr (d, ps, ERR_INVALID_ISP_CODE)
     | Some v \<Rightarrow> bindE (addPeersFromManager i2f isps i (m_peers d) v ps) (\<lambda>(v', ps').
         Inr (d\<lparr>m_views := smap_put i v' (m_views d)\<rparr>, ps', 0)))"

definition getISPViewInternal :: "'f peer_dist_manager \<Rightarrow> nat \<Rightarrow> 'f peer_view option" where
  "getISPViewInternal d i = smap_find (m_views d) i"

definition pdm_getSwarmState :: "'f peer_dist_manager \<Rightarrow> nat \<Rightarrow> 'f swarm_state" where
  "pdm_getSwarmState d i = (case getISPViewInternal d i of None \<Rightarrow> [] | Some v \<Rightarrow> getSwarmState v)"

definition pdm_listPIDPeers :: "'f peer_dist_manager \<Rightarrow> nat \<Rightarrow> int \<Rightarrow> nat list \<Rightarrow> nat list \<times> bool" where
  "pdm_listPIDPeers d i pid out = (case getISPViewInternal d i of None \<Rightarrow> (out, False) | Some v \<Rightarrow> view_listPIDPeers v pid out)"

definition pdm_listIntraISPPeers :: "(nat \<Rightarrow> isp) \<Rightarrow> 'f peer_dist_manager \<Rightarrow> nat \<Rightarrow> nat list \<Rightarrow> (nat list \<times> bool) result" where
  "pdm_listIntraISPPeers isps d i out = (case getISPViewInternal d i of None \<Rightarrow> Inr (out, False)
     | Some v \<Rightarrow> bindE (view_listIntraISPPeers (isps i) v out) (\<lambda>out'. Inr (out', True)))"

definition pdm_listExternalPeers :: "(nat \<Rightarrow> isp) \<Rightarrow> 'f peer_dist_manager \<Rightarrow> nat \<Rightarrow> nat list \<Rightarrow> (nat list \<times> bool) result" where
  "pdm_listExternalPeers isps d i out = (case getISPViewInternal d i of None \<Rightarrow> Inr (out, False)
     | Some v \<Rightarrow> bindE (view_listExternalPeers (isps i) v out) (\<lambda>out'. Inr (out', True)))"

definition pdm_getRandomPeer :: "nat \<Rightarrow> 'f peer_dist_manager \<Rightarrow> nat \<Rightarrow> int \<Rightarrow> nat option" where
  "pdm_getRandomPeer rnd d i pid = (case getISPViewInternal d i of None \<Rightarrow> None | Some v \<Rightarrow> view_getRandomPeer rnd v pid)"

definition pdm_getNumPeers :: "'f peer_dist_manager \<Rightarrow> nat \<Rightarrow> int \<Rightarrow> int" where
  "pdm_getNumPeers d i pid = (case getISPViewInternal d i of None \<Rightarrow> - 1 | Some v \<Rightarrow> view_getNumPeers v pid)"

declare getISPViewInternal_def [simp]

end
