(* ===== verification/Selection_Helper.thy ===== *)
theory Selection_Helper
  imports Peer_Distribution
begin

text \<open>
  \<open>common/cpp/src/lib/pid_peer_selection_helper.cpp\<close>: random choice of peers of a PID without
  repetition, over the view of an ISP that stays locked meanwhile. A PID with few peers has its peers
  copied and taken out of the copy; of a PID with many the peers chosen are remembered and the draw is
  repeated until it gives another. The values of \<open>rand ()\<close> are a list the operations consume.
\<close>

datatype strategy = ST_UNKNOWN | ST_COPY | ST_NOCOPY

record pid_info =
  numPeers :: int
  strategy :: strategy
  candidates :: "nat list"
  selected :: "nat option set"

record 'f selection_helper =
  h_isp_peers :: "'f peer_view"
  h_total_peers :: u32
  m_pidinfo :: "pid_info list"

definition PIDInfo :: "int \<Rightarrow> pid_info" where
  "PIDInfo n = \<lparr>numPeers = n, strategy = ST_UNKNOWN, candidates = [], selected = {}\<rparr>"

definition PIDPeerSelectionHelper :: "'f peer_view \<Rightarrow> nat \<Rightarrow> u32 \<Rightarrow> 'f selection_helper" where
  "PIDPeerSelectionHelper v num_pids num_total_peers = \<lparr>h_isp_peers = v, h_total_peers = num_total_peers,
     m_pidinfo = map (\<lambda>i. PIDInfo (view_getNumPeers v (int i))) [0..<num_pids] @ [PIDInfo (view_getNumPeers v ERR_UNKNOWN_PID)]\<rparr>"

fun draw :: "nat list \<Rightarrow> (nat \<times> nat list) result" where
  "draw [] = Inl Out_Of_Draws"
| "draw (r # rs) = Inr (r, rs)"

text \<open>Taking the element at an index out of a vector: the last one replaces it.\<close>

definition pop_at :: "'a list \<Rightarrow> nat \<Rightarrow> 'a \<times> 'a list" where
  "pop_at xs i = (xs ! i, butlast (xs[i := last xs]))"

text \<open>The strategy is fixed at the first selection; the flag is false when the PID is invalid.\<close>

definition choose_strategy :: "'f peer_view \<Rightarrow> u32 \<Rightarrow> int \<Rightarrow> pid_info \<Rightarrow> pid_info \<times> bool" where
  "choose_strategy v total_peers pid info =
     (if strategy info \<noteq> ST_UNKNOWN then (info, True)
      else if numPeers info < 0 then (info, False)
      else if unat (4 * total_peers) < nat (numPeers info) then (info\<lparr>strategy := ST_NOCOPY\<rparr>, True)
      else let (cs, ok) = view_listPIDPeers v pid (candidates info) in
        (info\<lparr>strategy := ST_COPY, candidates := cs\<rparr>, ok))"

text \<open>The loop that draws until the peer is new; each turn takes a value of the source.\<close>

fun nocopy_loop :: "'f peer_view \<Rightarrow> int \<Rightarrow> nat option set \<Rightarrow> nat list \<Rightarrow> (nat option \<times> nat list) result" where
  "nocopy_loop v pid sel [] = Inl Out_Of_Draws"
| "nocopy_loop v pid sel (r # rs) =
     (let peer = view_getRandomPeer r v pid in if peer \<in> sel then nocopy_loop v pid sel rs else Inr (peer, rs))"

definition pid_idx :: "'f selection_helper \<Rightarrow> int \<Rightarrow> int" where
  "pid_idx h pid = (if pid = ERR_UNKNOWN_PID then int (length (m_pidinfo h)) - 1 else pid)"

definition pidinfo_at :: "'f selection_helper \<Rightarrow> int \<Rightarrow> pid_info result" where
  "pidinfo_at h i = (if i < 0 then Inl Undefined_Behaviour else nthE (m_pidinfo h) (nat i))"

definition set_info :: "'f selection_helper \<Rightarrow> int \<Rightarrow> pid_info \<Rightarrow> 'f selection_helper" where
  "set_info h i info = h\<lparr>m_pidinfo := (m_pidinfo h)[nat i := info]\<rparr>"

definition selectPeer :: "'f selection_helper \<Rightarrow> int \<Rightarrow> nat list \<Rightarrow> (nat option \<times> 'f selection_helper \<times> nat list) result" where
  "selectPeer h pid rs = bindE (pidinfo_at h (pid_idx h pid)) (\<lambda>info0.
     let (info, ok) = choose_strategy (h_isp_peers h) (h_total_peers h) pid info0 in
     if \<not> ok then Inr (None, set_info h (pid_idx h pid) info, rs)
     else if strategy info = ST_COPY then
       (if candidates info = [] then Inr (None, set_info h (pid_idx h pid) info, rs)
        else bindE (draw rs) (\<lambda>(r, rs').
          let (peer, cs) = pop_at (candidates info) (r mod length (candidates info)) in
          Inr (Some peer, set_info h (pid_idx h pid) (info\<lparr>candidates := cs, numPeers := numPeers info - 1\<rparr>), rs')))
     else bindE (nocopy_loop (h_isp_peers h) pid (selected info) rs) (\<lambda>(peer, rs').
       Inr (peer, set_info h (pid_idx h pid) (info\<lparr>selected := insert peer (selected info), numPeers := numPeers info - 1\<rparr>), rs')))"

fun sum_peers :: "'f selection_helper \<Rightarrow> int list \<Rightarrow> int result" where
  "sum_peers h [] = Inr 0"
| "sum_peers h (pid # pids) = bindE (pidinfo_at h pid) (\<lambda>info. bindE (sum_peers h pids) (\<lambda>s. Inr (numPeers info + s)))"

fun pick_pid :: "'f selection_helper \<Rightarrow> int list \<Rightarrow> int \<Rightarrow> int result" where
  "pick_pid h [] coin = Inl Undefined_Behaviour"
| "pick_pid h [pid] coin = Inr pid"
| "pick_pid h (pid # q # pids) coin = bindE (pidinfo_at h pid) (\<lambda>info.
     if coin - numPeers info < 0 then Inr pid else pick_pid h (q # pids) (coin - numPeers info))"

definition selectPeer_pids :: "'f selection_helper \<Rightarrow> int list \<Rightarrow> nat list \<Rightarrow> (nat option \<times> 'f selection_helper \<times> nat list) result" where
  "selectPeer_pids h pids rs = bindE (sum_peers h pids) (\<lambda>s.
     if s \<le> 0 then Inr (None, h, rs)
     else bindE (draw rs) (\<lambda>(r, rs'). bindE (pick_pid h pids (int r mod s)) (\<lambda>pid. selectPeer h pid rs')))"

text \<open>
  The loops of the selection algorithms that add peers until they have \<open>m\<close> or there is no candidate;
  \<open>sel\<close> is the call of the helper.
\<close>

primrec fill_from ::
    "('h \<Rightarrow> nat list \<Rightarrow> (nat option \<times> 'h \<times> nat list) result) \<Rightarrow> nat \<Rightarrow> 'h \<Rightarrow> nat list \<Rightarrow> nat list \<Rightarrow>
     ('h \<times> nat list \<times> nat list) result" where
  "fill_from sel 0 h out rs = Inr (h, out, rs)"
| "fill_from sel (Suc m) h out rs = bindE (sel h rs) (\<lambda>(res, h', rs').
     case res of None \<Rightarrow> Inr (h', out, rs') | Some p \<Rightarrow> fill_from sel m h' (out @ [p]) rs')"

lemma nocopy_loop_shrinks: "nocopy_loop v pid sel rs = Inr (p, rs') \<Longrightarrow> length rs' < length rs"
  by (induction v pid sel rs rule: nocopy_loop.induct) (fastforce simp: Let_def split: if_splits)+

lemma selectPeer_shrinks:
  assumes run: "selectPeer h pid rs = Inr (Some p, h', rs')"
  shows "length rs' < length rs"
proof -
  obtain info0 where i0: "pidinfo_at h (pid_idx h pid) = Inr info0" using run by (auto simp: selectPeer_def bindE_eq_Inr)
  obtain info ok where c: "choose_strategy (h_isp_peers h) (h_total_peers h) pid info0 = (info, ok)" by fastforce
  note R = run [unfolded selectPeer_def i0 bindE_simps Let_def c case_prod_conv]
  show ?thesis
  proof (cases "strategy info = ST_COPY")
    case True
    then show ?thesis using R by (cases rs) (auto split: if_splits prod.splits)
  next
    case False
    then show ?thesis using R nocopy_loop_shrinks [of "h_isp_peers h" pid "selected info" rs _ rs'] by (auto simp: bindE_eq_Inr split: if_splits)
  qed
qed

text \<open>The loop over the home PID, which skips the peer that asks; every turn uses up a draw.\<close>

function intrapid_loop ::
    "nat \<Rightarrow> int \<Rightarrow> nat \<Rightarrow> 'f selection_helper \<Rightarrow> nat list \<Rightarrow> nat list \<Rightarrow> ('f selection_helper \<times> nat list \<times> nat list) result" where
  "intrapid_loop self pid m h out rs =
     (if m = 0 then Inr (h, out, rs)
      else case selectPeer h pid rs of
        Inl e \<Rightarrow> Inl e
      | Inr (res, h', rs') \<Rightarrow> (case res of
          None \<Rightarrow> Inr (h', out, rs')
        | Some p \<Rightarrow> if p = self then intrapid_loop self pid m h' out rs'
            else intrapid_loop self pid (m - 1) h' (out @ [p]) rs'))"
  by pat_completeness auto
termination
  by (relation "measure (\<lambda>(self, pid, m, h, out, rs). length rs)") (auto dest: selectPeer_shrinks)

declare intrapid_loop.simps [simp del]

end
