(* ===== verification/ISP_Properties.thy ===== *)
theory ISP_Properties
  imports ISP_Maps
begin

text \<open>
  What loading gives a client: the PID of an address is that of the longest prefix, the indexes and
  the PIDs correspond, the distances are those of the reply, and a failed load changes nothing.
\<close>

section \<open>Loading as one sequence of additions\<close>

fun pidmap_entries :: "nat \<Rightarrow> pid_prefixes list \<Rightarrow> (ip_prefix \<times> int) list" where
  "pidmap_entries i [] = []"
| "pidmap_entries i (pp # pps) = map (\<lambda>e. (fst e, int i)) (pp_prefixes pp) @ pidmap_entries (i + 1) pps"

lemma add_all_append: "add_all add t (xs @ ys) = bindE (add_all add t xs) (\<lambda>t'. add_all add t' ys)"
proof (induction xs arbitrary: t)
  case (Cons x xs)
  obtain p v where "x = (p, v)" by (cases x)
  with Cons show ?case by (cases "add t p v") auto
qed simp

lemma build_trie_eq:
  "build_trie i pps t n = bindE (add_all trie_add t (pidmap_entries i pps)) (\<lambda>t'.
     Inr (t', n + length (filter (\<lambda>pp. \<not> get_external (pp_pid pp)) pps)))"
proof (induction pps arbitrary: i t n)
  case (Cons pp pps)
  show ?case
    by (cases "add_all trie_add t (map (\<lambda>e. (fst e, int i)) (pp_prefixes pp))") (auto simp: add_all_append Cons)
qed simp

lemma pidmap_entries_mem:
  "(p, j) \<in> set (pidmap_entries i pps) \<longleftrightarrow>
     (\<exists>k<length pps. j = int (i + k) \<and> p \<in> fst ` set (pp_prefixes (pps ! k)))"
proof (induction pps arbitrary: i)
  case (Cons pp pps)
  have "(\<exists>k<length (pp # pps). j = int (i + k) \<and> p \<in> fst ` set (pp_prefixes ((pp # pps) ! k))) \<longleftrightarrow>
      j = int i \<and> p \<in> fst ` set (pp_prefixes pp) \<or>
      (\<exists>k<length pps. j = int (Suc i + k) \<and> p \<in> fst ` set (pp_prefixes (pps ! k)))"
    by (simp add: Ex_less_Suc2 algebra_simps)
  with Cons [of "Suc i"] show ?case by auto
qed simp

definition prefixes_ok :: "int \<Rightarrow> pid_prefixes list \<Rightarrow> bool" where
  "prefixes_ok fam pps \<longleftrightarrow> (\<forall>pp\<in>set pps. \<forall>p\<in>fst ` set (pp_prefixes pp). ip_shape p \<and> get_family p = fam) \<and>
     sum_list (map num_prefixes pps) \<le> UINT_MAX"

lemma length_pidmap_entries: "length (pidmap_entries i pps) = sum_list (map num_prefixes pps)"
  by (induction pps arbitrary: i) (auto simp: num_prefixes_def)

lemma prefixes_ok_entries:
  assumes "prefixes_ok fam pps"
  shows "\<forall>(p, j)\<in>set (pidmap_entries i pps). ip_shape p \<and> get_family p = fam"
  using assms nth_mem by (fastforce simp: prefixes_ok_def pidmap_entries_mem)

lemma trie_load:
  assumes "is_ip_family fam" "trie_inv fam t" "\<forall>(p, v)\<in>set es. ip_shape p \<and> get_family p = fam"
    "card (dom (trie_map t)) + length es \<le> UINT_MAX"
  shows "\<exists>t'. add_all trie_add t es = Inr t' \<and> trie_inv fam t' \<and>
    trie_map t' = map_of (map (\<lambda>(p, v). (net_bits p, v)) es) ++ trie_map t"
  using assms v4.add_all_spec [of t es] v6.add_all_spec [of t es] by (auto simp: is_ip_family_def)

text \<open>The state after a load that got a reply.\<close>

definition pm_invariant :: "int \<Rightarrow> isp_pidmap \<Rightarrow> bool" where
  "pm_invariant fam m \<longleftrightarrow> trie_inv fam (pm_trie m) \<and>
     (\<forall>i\<in>ran (trie_map (pm_trie m)). 0 \<le> i \<and> nat i < length (pm_pids m))"

lemma pm_load_spec:
  assumes inv: "pm_invariant fam m" and pps: "prefixes_ok fam pps"
    and fetch: "pm_fetch portal file PIDMAP_DEFAULT_TTL (pm_proto m) (pm_filename m) = Inr (pps, ttl, version)"
  shows "\<exists>m'. pm_loadP4PInfo portal file now m = Inr (m', 0) \<and> pm_invariant fam m' \<and> pm_pids m' = map pp_pid pps \<and>
    pm_intraisp_pids m' = Some (length (filter (\<lambda>p. \<not> get_external p) (pm_pids m'))) \<and>
    pm_lastUpdate m' = now \<and> pm_ttl m' = ttl \<and> pm_version m' = version \<and>
    pm_proto m' = pm_proto m \<and> pm_filename m' = pm_filename m \<and>
    trie_map (pm_trie m') = map_of (map (\<lambda>(p, i). (net_bits p, i)) (pidmap_entries 0 pps))"
proof -
  let ?es = "pidmap_entries 0 pps"
  have old: "trie_inv fam (pm_trie m)" and fam: "is_ip_family fam"
    using inv trie_invD(1) by (auto simp: pm_invariant_def)
  obtain t0 :: "int patricia_trie" where t0: "PatriciaTrie = Inr t0" "trie_inv fam t0" "trie_map t0 = Map.empty"
    using PatriciaTrie_spec [OF fam] by blast
  have "card (dom (trie_map t0)) + length ?es \<le> UINT_MAX"
    using pps by (simp add: t0(3) length_pidmap_entries prefixes_ok_def)
  then obtain t where t: "add_all trie_add t0 ?es = Inr t" "trie_inv fam t"
      "trie_map t = map_of (map (\<lambda>(p, i). (net_bits p, i)) ?es)"
    using trie_load [OF fam t0(2) prefixes_ok_entries [OF pps]] t0(3) by auto
  have rng: "0 \<le> i \<and> nat i < length pps" if i: "i \<in> ran (trie_map t)" for i
  proof -
    obtain p where "(p, i) \<in> set ?es" using i t(3) by (auto simp: ran_def dest!: map_of_SomeD)
    then show ?thesis by (auto simp: pidmap_entries_mem)
  qed
  have n: "length (filter (\<lambda>pp. \<not> get_external (pp_pid pp)) pps) = length (filter (\<lambda>p. \<not> get_external p) (map pp_pid pps))"
    by (simp add: filter_map comp_def)
  show ?thesis
    unfolding pm_loadP4PInfo_def t0(1)
    using fetch t(1) Clear_Patricia_spec [OF trie_invD(2) [OF old]] t(2,3) rng n
    by (simp add: build_trie_eq pm_invariant_def)
qed

lemma ISPPIDMap_invariant:
  assumes "is_ip_family fam"
  shows "\<exists>m. ISPPIDMap = Inr m \<and> pm_invariant fam m"
proof -
  obtain t :: "int patricia_trie" where t: "PatriciaTrie = Inr t" "trie_inv fam t" "trie_map t = Map.empty"
    using PatriciaTrie_spec [OF assms] by blast
  show ?thesis unfolding ISPPIDMap_def t(1) using t(2,3) by (simp add: pm_invariant_def)
qed

section \<open>Properties of the PID map\<close>

text \<open>
  Property C6. After a portal server or a file gave a PID map whose prefixes are of one address
  family, loading succeeds, and the index returned for any host address is that of a PID of the
  map that has a prefix containing the address, no PID of the map having a longer one; the unknown
  PID is returned exactly when no prefix of the map contains the address.
\<close>
theorem pidmap_lookup_best_pid:
  assumes inv: "pm_invariant fam m" and pps: "prefixes_ok fam pps"
    and fetch: "pm_fetch portal file PIDMAP_DEFAULT_TTL (pm_proto m) (pm_filename m) = Inr (pps, ttl, version)"
    and a: "ip_shape a" "get_family a = fam" "get_length a = get_addr_size fam * 8"
  shows "\<exists>m' i out. pm_loadP4PInfo portal file now m = Inr (m', 0) \<and> pm_lookup m' a want = Inr (i, out) \<and>
    (if \<exists>pp\<in>set pps. \<exists>p\<in>fst ` set (pp_prefixes pp). prefix (net_bits p) (net_bits a)
     then 0 \<le> i \<and> nat i < length pps \<and> getPIDInfo m' i = pp_pid (pps ! nat i) \<and>
       (\<exists>p\<in>fst ` set (pp_prefixes (pps ! nat i)). prefix (net_bits p) (net_bits a) \<and>
          (\<forall>pp\<in>set pps. \<forall>q\<in>fst ` set (pp_prefixes pp). prefix (net_bits q) (net_bits a) \<longrightarrow> get_length q \<le> get_length p))
     else i = ERR_UNKNOWN_PID)"
proof -
  let ?es = "pidmap_entries 0 pps"
  let ?tm = "map_of (map (\<lambda>(p, i). (net_bits p, i)) ?es)"
  obtain m' where m': "pm_loadP4PInfo portal file now m = Inr (m', 0)" "trie_inv fam (pm_trie m')"
      "pm_pids m' = map pp_pid pps" "trie_map (pm_trie m') = ?tm"
    using pm_load_spec [OF inv pps fetch, of now] by (auto simp: pm_invariant_def)
  have lk: "case lpm ?tm (net_bits a) of None \<Rightarrow> trie_lookup (pm_trie m') a want = Inr (None, None)
      | Some (k, v) \<Rightarrow> \<exists>r. trie_lookup (pm_trie m') a want = Inr (Some v, if want then Some r else None)"
    using trie_lookup_host [OF m'(2) a, of want] m'(4) by (auto split: option.splits)
  have len: "length (net_bits p) = get_length p" if "pp \<in> set pps" "p \<in> fst ` set (pp_prefixes pp)" for pp p
    using that pps trie_invD(1) [OF m'(2)] by (intro length_net_bits_shape) (auto simp: prefixes_ok_def)
  have dom: "?tm k \<noteq> None \<longleftrightarrow> (\<exists>pp\<in>set pps. \<exists>p\<in>fst ` set (pp_prefixes pp). net_bits p = k)" for k
  proof -
    have "?tm k \<noteq> None \<longleftrightarrow> (\<exists>p j. (p, j) \<in> set ?es \<and> net_bits p = k)"
      by (force simp: map_of_eq_None_iff)
    also have "\<dots> \<longleftrightarrow> (\<exists>i<length pps. \<exists>p\<in>fst ` set (pp_prefixes (pps ! i)). net_bits p = k)"
      by (auto simp: pidmap_entries_mem)
    also have "\<dots> \<longleftrightarrow> (\<exists>pp\<in>set pps. \<exists>p\<in>fst ` set (pp_prefixes pp). net_bits p = k)"
      by (metis in_set_conv_nth)
    finally show ?thesis .
  qed
  show ?thesis
  proof (cases "lpm ?tm (net_bits a)")
    case None
    then have "\<not> (\<exists>pp\<in>set pps. \<exists>p\<in>fst ` set (pp_prefixes pp). prefix (net_bits p) (net_bits a))"
      using lpm_NoneD [OF None] dom by blast
    moreover have "pm_lookup m' a want = Inr (ERR_UNKNOWN_PID, None)" using lk None by (simp add: pm_lookup_def)
    ultimately show ?thesis using m'(1) by auto
  next
    case (Some kv)
    obtain k i where kv: "kv = (k, i)" by (cases kv)
    note best = lpm_SomeD [OF Some [unfolded kv]]
    obtain p where p: "(p, i) \<in> set ?es" "net_bits p = k" using best(2) by (auto dest!: map_of_SomeD)
    then obtain n where n: "n < length pps" "i = int n" "p \<in> fst ` set (pp_prefixes (pps ! n))"
      by (auto simp: pidmap_entries_mem)
    have "get_length q \<le> get_length p" if q: "pp \<in> set pps" "q \<in> fst ` set (pp_prefixes pp)" "prefix (net_bits q) (net_bits a)" for pp q
      using best(3) [OF q(3)] dom [of "net_bits q"] q len [OF q(1,2)] len [OF nth_mem [OF n(1)] n(3)] p(2) by auto
    moreover obtain out where "pm_lookup m' a want = Inr (i, out)" using lk Some kv by (auto simp: pm_lookup_def)
    moreover have "getPIDInfo m' i = pp_pid (pps ! nat i)" using n m'(3) by (simp add: getPIDInfo_def)
    moreover have "prefix (net_bits p) (net_bits a)" using best(1) p(2) by simp
    ultimately show ?thesis
      using m'(1) n nth_mem [OF n(1)] by (intro exI [of _ m'] exI [of _ i] exI [of _ out]) auto
  qed
qed

text \<open>A PID map as a portal might send it: an external PID with 10.0.0.0/8 and an internal one with 10.0.0.0/24.\<close>

definition ex_ext :: pid where "ex_ext = PID ''isp.net'' 1 True"
definition ex_int :: pid where "ex_int = PID ''isp.net'' 2 False"

definition ex_reply :: "pid_prefixes list" where
  "ex_reply = [add_prefix (PIDPrefixes ex_ext) ex_net8, add_prefix (PIDPrefixes ex_int) ex_net24]"

lemma ex_reply_eq: "ex_reply = [\<lparr>pp_pid = ex_ext, pp_prefixes = [(ex_net8, ())]\<rparr>, \<lparr>pp_pid = ex_int, pp_prefixes = [(ex_net24, ())]\<rparr>]"
  by (simp add: ex_reply_def add_prefix_def PIDPrefixes_def smap_insert_def)

lemma ex_reply_ok: "prefixes_ok AF_INET ex_reply"
  by (simp add: prefixes_ok_def ex_reply_eq num_prefixes_def)

lemma ex_server:
  obtains m where "ISPPIDMap_server ''portal'' 6671 = Inr m" "pm_invariant AF_INET m" "pm_proto m = Some (''portal'', 6671)"
proof -
  obtain m0 where m0: "ISPPIDMap = Inr m0" "pm_invariant AF_INET m0" using ISPPIDMap_invariant [OF is_ip_family_v4(1)] by blast
  show thesis
    by (rule that [of "pm_setDataSourceServer m0 ''portal'' 6671"])
      (use m0(2) in \<open>simp_all add: ISPPIDMap_server_def m0(1) pm_setDataSourceServer_def pm_invariant_def\<close>)
qed

theorem pidmap_lookup_best_pid_witness:
  "\<exists>m m' i out. ISPPIDMap_server ''portal'' 6671 = Inr m \<and>
     pm_loadP4PInfo (\<lambda>a p. Reply 60 3 ex_reply) (\<lambda>f. Open_Failed) 1000 m = Inr (m', 0) \<and>
     pm_lookup m' ex_addr False = Inr (i, out) \<and> 0 \<le> i \<and> getPIDInfo m' i = pp_pid (ex_reply ! nat i)"
proof -
  obtain m where m: "ISPPIDMap_server ''portal'' 6671 = Inr m" "pm_invariant AF_INET m" "pm_proto m = Some (''portal'', 6671)"
    by (rule ex_server)
  have fetch: "pm_fetch (\<lambda>a p. Reply 60 3 ex_reply) (\<lambda>f. Open_Failed) PIDMAP_DEFAULT_TTL (pm_proto m) (pm_filename m) =
      Inr (ex_reply, 60, show_nat 3)" by (simp add: pm_fetch_def m(3))
  have cov: "\<exists>pp\<in>set ex_reply. \<exists>p\<in>fst ` set (pp_prefixes pp). prefix (net_bits p) (net_bits ex_addr)"
    by (simp add: ex_reply_eq ex_bits(1) take_is_prefix)
  have len: "get_length ex_addr = get_addr_size AF_INET * 8" by (simp add: get_addr_size_def)
  obtain m' i out where "pm_loadP4PInfo (\<lambda>a p. Reply 60 3 ex_reply) (\<lambda>f. Open_Failed) 1000 m = Inr (m', 0)"
      "pm_lookup m' ex_addr False = Inr (i, out)" "0 \<le> i" "getPIDInfo m' i = pp_pid (ex_reply ! nat i)"
    using pidmap_lookup_best_pid [OF m(2) ex_reply_ok fetch ex_prefix_shape(3) ex_prefix_family(3) len, of 1000 False]
    unfolding if_P [OF cov] by blast
  with m(1) show ?thesis by blast
qed

lemma pid_index_spec:
  "pid_index qs p i = (if p \<in> set qs then i + int (length (takeWhile (\<lambda>q. q \<noteq> p) qs)) else ERR_UNKNOWN_PID)"
  by (induction qs p i rule: pid_index.induct) auto

text \<open>
  Indexes and PIDs correspond: the index of a PID is that of its first occurrence, the
  PID at that index is the PID asked for, and a PID that is not in the map has no index; a PID map
  without duplicates is a bijection between PIDs and indexes.
\<close>
theorem pid_index_info:
  "(if p \<in> set (pm_pids m)
    then 0 \<le> getPIDIndex m p \<and> nat (getPIDIndex m p) < length (pm_pids m) \<and> getPIDInfo m (getPIDIndex m p) = p \<and>
      (\<forall>j<nat (getPIDIndex m p). pm_pids m ! j \<noteq> p)
    else getPIDIndex m p = ERR_UNKNOWN_PID) \<and>
   (distinct (pm_pids m) \<longrightarrow> (\<forall>j<length (pm_pids m). getPIDIndex m (getPIDInfo m (int j)) = int j))"
proof -
  have idx: "0 \<le> getPIDIndex m q \<and> nat (getPIDIndex m q) < length (pm_pids m) \<and> getPIDInfo m (getPIDIndex m q) = q \<and>
      (\<forall>j<nat (getPIDIndex m q). pm_pids m ! j \<noteq> q)" if q: "q \<in> set (pm_pids m)" for q
  proof -
    let ?n = "length (takeWhile (\<lambda>x. x \<noteq> q) (pm_pids m))"
    have n: "?n < length (pm_pids m)" using q by (metis (mono_tags, lifting) length_takeWhile_less)
    then have "pm_pids m ! ?n = q" using nth_length_takeWhile by blast
    moreover have "pm_pids m ! j \<noteq> q" if "j < ?n" for j
      using that nth_mem [OF that] set_takeWhileD by (metis (mono_tags, lifting) takeWhile_nth)
    ultimately show ?thesis using q n by (simp add: getPIDIndex_def pid_index_spec getPIDInfo_def)
  qed
  have "getPIDIndex m (getPIDInfo m (int j)) = int j" if "distinct (pm_pids m)" "j < length (pm_pids m)" for j
  proof -
    have "getPIDInfo m (int j) = pm_pids m ! j" using that(2) by (simp add: getPIDInfo_def)
    moreover have "nat (getPIDIndex m (pm_pids m ! j)) = j" "0 \<le> getPIDIndex m (pm_pids m ! j)"
      using idx [OF nth_mem [OF that(2)]] that nth_eq_iff_index_eq [OF that(1) _ that(2)]
      by (auto simp: getPIDInfo_def split: if_splits)
    ultimately show ?thesis by simp
  qed
  with idx show ?thesis by (simp add: getPIDIndex_def pid_index_spec)
qed

text \<open>
  The documentation says that the PIDs inside the ISP have the indexes below the count
  of such PIDs. Indexes follow the order of the reply instead: with a reply that lists an external
  PID first, the count is one and the PID at index zero is external.
\<close>
theorem intraisp_indexes_not_first:
  "\<exists>m m'. ISPPIDMap_server ''portal'' 6671 = Inr m \<and>
     pm_loadP4PInfo (\<lambda>a p. Reply 60 3 ex_reply) (\<lambda>f. Open_Failed) 1000 m = Inr (m', 0) \<and>
     getNumPIDs m' = Inr (1, 2) \<and> get_external (getPIDInfo m' 0)"
proof -
  obtain m where m: "ISPPIDMap_server ''portal'' 6671 = Inr m" "pm_invariant AF_INET m" "pm_proto m = Some (''portal'', 6671)"
    by (rule ex_server)
  have fetch: "pm_fetch (\<lambda>a p. Reply 60 3 ex_reply) (\<lambda>f. Open_Failed) PIDMAP_DEFAULT_TTL (pm_proto m) (pm_filename m) =
      Inr (ex_reply, 60, show_nat 3)" by (simp add: pm_fetch_def m(3))
  obtain m' where m': "pm_loadP4PInfo (\<lambda>a p. Reply 60 3 ex_reply) (\<lambda>f. Open_Failed) 1000 m = Inr (m', 0)"
      "pm_pids m' = map pp_pid ex_reply" "pm_intraisp_pids m' = Some (length (filter (\<lambda>p. \<not> get_external p) (pm_pids m')))"
    using pm_load_spec [OF m(2) ex_reply_ok fetch, of 1000] by blast
  have "getNumPIDs m' = Inr (1, 2)" "get_external (getPIDInfo m' 0)"
    using m'(2,3) by (simp_all add: getNumPIDs_def getPIDInfo_def ex_reply_eq ex_ext_def ex_int_def)
  with m(1) m'(1) show ?thesis by blast
qed

text \<open>
  The count of PIDs inside the ISP is read before it has a value when a map is asked
  for its counts before its first successful load, whichever constructor made it.
\<close>
theorem getNumPIDs_before_load:
  assumes "ISPPIDMap = Inr m \<or> ISPPIDMap_server addr port = Inr m \<or> ISPPIDMap_file filename = Inr m"
  shows "getNumPIDs m = Inl Undefined_Behaviour"
  using assms
  by (auto simp: getNumPIDs_def ISPPIDMap_server_def ISPPIDMap_file_def ISPPIDMap_def bindE_eq_Inr pm_setDataSourceServer_def
      pm_setDataSourceFile_def)

section \<open>Properties of the distance map and of the ISP\<close>

text \<open>
  Property C28. When both maps of an ISP load, the distance between two PIDs by index is the entry
  of the reply for the PIDs at these indexes as a signed value, \<open>INT_MAX\<close> when the reply has none,
  and an index outside the PID map is reported as unknown: the distances are those of the PIDs the
  new map has, whatever was loaded before.
\<close>
theorem isp_load_distances:
  assumes inv: "pm_invariant fam (m_pidmap s)" and pps: "prefixes_ok fam pps"
    and lf: "pm_fetch lportal lfile PIDMAP_DEFAULT_TTL (pm_proto (m_pidmap s)) (pm_filename (m_pidmap s)) = Inr (pps, ttl, ver)"
    and df: "pm_fetch dportal dfile PDIST_DEFAULT_TTL (dm_proto (m_pdistmap s)) (dm_filename (m_pdistmap s)) = Inr (dists, ttl', ver')"
  shows "\<exists>s'. isp_loadP4PInfo lportal lfile dportal dfile now s = Inr (s', 0) \<and> listPIDs (m_pidmap s') = map pp_pid pps \<and>
    (\<forall>i j. getPDistance (m_pdistmap s') i j =
      (if 0 \<le> i \<and> nat i < length pps \<and> 0 \<le> j \<and> nat j < length pps
       then (case get_value dists (getPIDInfo (m_pidmap s') i) (getPIDInfo (m_pidmap s') j) of
               Inr d \<Rightarrow> sint d | Inl e \<Rightarrow> INT_MAX)
       else ERR_UNKNOWN_PID))"
proof -
  obtain pm where pm: "pm_loadP4PInfo lportal lfile now (m_pidmap s) = Inr (pm, 0)" "pm_pids pm = map pp_pid pps"
    using pm_load_spec [OF inv pps lf, of now] by blast
  obtain dm where d: "dm_loadP4PInfo dportal dfile now (listPIDs pm) (m_pdistmap s) = (dm, 0)"
    "dm_pdists dm = map (\<lambda>p. map (\<lambda>q. pdist_entry dists p q) (listPIDs pm)) (listPIDs pm)"
    using df by (simp add: dm_loadP4PInfo_def)
  let ?s = "s\<lparr>m_pidmap := pm, m_pdistmap := dm\<rparr>"
  have "isp_loadP4PInfo lportal lfile dportal dfile now s = Inr (?s, 0)"
    using pm(1) d(1) by (simp add: isp_loadP4PInfo_def)
  moreover have "getPDistance dm i j =
      (if 0 \<le> i \<and> nat i < length pps \<and> 0 \<le> j \<and> nat j < length pps
       then (case get_value dists (getPIDInfo pm i) (getPIDInfo pm j) of Inr d \<Rightarrow> sint d | Inl e \<Rightarrow> INT_MAX)
       else ERR_UNKNOWN_PID)" for i j
    using pm(2) by (auto simp: getPDistance_def d(2) listPIDs_def getPIDInfo_def pdist_entry_def)
  ultimately show ?thesis using pm(2) by (intro exI [of _ ?s]) (simp add: listPIDs_def)
qed

theorem isp_load_distances_witness:
  "\<exists>s s'. ISP_servers ''portal'' 6671 ''portal'' 6671 = Inr s \<and>
     isp_loadP4PInfo (\<lambda>a p. Reply 60 3 ex_reply) (\<lambda>f. Open_Failed)
       (\<lambda>a p. Reply 60 3 (set_entry [] ex_ext ex_int 7)) (\<lambda>f. Open_Failed) 1000 s = Inr (s', 0) \<and>
     getPDistance (m_pdistmap s') 0 1 = 7 \<and> getPDistance (m_pdistmap s') 1 0 = INT_MAX \<and> getPDistance (m_pdistmap s') 0 2 = - 1"
proof -
  obtain m where m: "ISPPIDMap_server ''portal'' 6671 = Inr m" "pm_invariant AF_INET m" "pm_proto m = Some (''portal'', 6671)"
    by (rule ex_server)
  let ?s = "\<lparr>m_pidmap = m, m_pdistmap = dm_setDataSourceServer ISPPDistanceMap ''portal'' 6671\<rparr>"
  let ?d = "set_entry [] ex_ext ex_int (7::u32)"
  have s: "ISP_servers ''portal'' 6671 ''portal'' 6671 = Inr ?s" by (simp add: ISP_servers_def m(1))
  have lf: "pm_fetch (\<lambda>a p. Reply 60 3 ex_reply) (\<lambda>f. Open_Failed) PIDMAP_DEFAULT_TTL (pm_proto (m_pidmap ?s)) (pm_filename (m_pidmap ?s)) =
      Inr (ex_reply, 60, show_nat 3)" by (simp add: pm_fetch_def m(3))
  have df: "pm_fetch (\<lambda>a p. Reply 60 3 ?d) (\<lambda>f. Open_Failed) PDIST_DEFAULT_TTL (dm_proto (m_pdistmap ?s)) (dm_filename (m_pdistmap ?s)) =
      Inr (?d, 60, show_nat 3)" by (simp add: pm_fetch_def dm_setDataSourceServer_def)
  have inv: "pm_invariant AF_INET (m_pidmap ?s)" using m(2) by simp
  from isp_load_distances [OF inv ex_reply_ok lf df, of 1000] obtain s' where
    s': "isp_loadP4PInfo (\<lambda>a p. Reply 60 3 ex_reply) (\<lambda>f. Open_Failed) (\<lambda>a p. Reply 60 3 ?d) (\<lambda>f. Open_Failed) 1000 ?s = Inr (s', 0)"
      "listPIDs (m_pidmap s') = map pp_pid ex_reply"
      "\<forall>i j. getPDistance (m_pdistmap s') i j =
        (if 0 \<le> i \<and> nat i < length ex_reply \<and> 0 \<le> j \<and> nat j < length ex_reply
         then (case get_value ?d (getPIDInfo (m_pidmap s') i) (getPIDInfo (m_pidmap s') j) of
                 Inr d \<Rightarrow> sint d | Inl e \<Rightarrow> INT_MAX)
         else ERR_UNKNOWN_PID)"
    by blast
  have info: "getPIDInfo (m_pidmap s') 0 = ex_ext" "getPIDInfo (m_pidmap s') 1 = ex_int"
    using s'(2) by (simp_all add: getPIDInfo_def listPIDs_def ex_reply_eq)
  have len: "length ex_reply = 2" by (simp add: ex_reply_eq)
  have ne: "ex_ext \<noteq> ex_int" by (simp add: ex_ext_def ex_int_def)
  have "getPDistance (m_pdistmap s') 0 1 = 7" "getPDistance (m_pdistmap s') 1 0 = INT_MAX" "getPDistance (m_pdistmap s') 0 2 = - 1"
    using s'(3) info len ne by (simp_all add: get_value_eq set_entry_def get_row_make_def smap_find_def)
  with s s'(1) show ?thesis by blast
qed

text \<open>
  A load that fails says why and leaves what was loaded: a failure to get the PID map
  changes nothing, a failure to get the distances leaves the distance map as it was (beside the new
  PID map), and no failure has the code of success.
\<close>
theorem isp_load_failure:
  assumes inv: "pm_invariant fam (m_pidmap s)"
    and lf: "pm_fetch lportal lfile PIDMAP_DEFAULT_TTL (pm_proto (m_pidmap s)) (pm_filename (m_pidmap s)) = lr"
    and df: "pm_fetch dportal dfile PDIST_DEFAULT_TTL (dm_proto (m_pdistmap s)) (dm_filename (m_pdistmap s)) = dr"
  shows "(case lr of
      Inl rc \<Rightarrow> rc \<noteq> 0 \<and> isp_loadP4PInfo lportal lfile dportal dfile now s = Inr (s, rc)
    | Inr (pps, ttl, ver) \<Rightarrow> prefixes_ok fam pps \<longrightarrow> (case dr of
        Inl rc \<Rightarrow> rc \<noteq> 0 \<and> (\<exists>pm. isp_loadP4PInfo lportal lfile dportal dfile now s = Inr (s\<lparr>m_pidmap := pm\<rparr>, rc) \<and> pm_pids pm = map pp_pid pps)
      | Inr x \<Rightarrow> \<exists>s'. isp_loadP4PInfo lportal lfile dportal dfile now s = Inr (s', 0)))"
proof -
  have rc: "rc \<noteq> 0" if "pm_fetch p f t pr fn = Inl rc" for p :: "string \<Rightarrow> nat \<Rightarrow> 'x portal_reply" and f t pr fn rc
    using that by (auto simp: pm_fetch_def split: option.splits portal_reply.splits file_reply.splits)
  show ?thesis
  proof (cases lr)
    case (Inl e)
    then show ?thesis using lf rc [of lportal] by (auto simp: isp_loadP4PInfo_def pm_loadP4PInfo_def)
  next
    case (Inr x)
    obtain pps ttl ver where x: "x = (pps, ttl, ver)" by (cases x)
    show ?thesis
    proof (cases "prefixes_ok fam pps")
      case True
      with pm_load_spec [OF inv True, of lportal lfile ttl ver now] lf Inr x obtain pm where
        "pm_loadP4PInfo lportal lfile now (m_pidmap s) = Inr (pm, 0)" "pm_pids pm = map pp_pid pps" by blast
      then show ?thesis using Inr x df rc [of dportal]
        by (cases dr) (auto simp: isp_loadP4PInfo_def dm_loadP4PInfo_def case_prod_unfold)
    qed (use Inr x in simp)
  qed
qed

text \<open>
  The manager of ISPs is a map from names: a name can be added once and then answers
  with the ISP that was added, other names are not affected, and removing a name that was added
  restores the collection.
\<close>
theorem isp_manager_map:
  assumes "smap_inv m"
  shows "(snd (addISP m name i) = None \<longleftrightarrow> getISP m name \<noteq> None) \<and> smap_inv (fst (addISP m name i)) \<and>
    (\<forall>n. getISP (fst (addISP m name i)) n = (if n = name \<and> getISP m name = None then Some i else getISP m n)) \<and>
    (snd (removeISP m name) \<longleftrightarrow> getISP m name \<noteq> None) \<and>
    (\<forall>n. getISP (fst (removeISP m name)) n = (if n = name then None else getISP m n)) \<and>
    (getISP m name = None \<longrightarrow> removeISP (fst (addISP m name i)) name = (m, True))"
proof -
  have "smap_find m name = None \<longrightarrow> smap_erase name (smap_put name i m) = m"
    using smap_erase_put [OF assms] by blast
  then show ?thesis
    using assms by (auto simp: addISP_def getISP_def removeISP_def smap_insert_def smap.find_put split: option.splits)
qed

end
