(* ===== verification/Peer_Properties.thy ===== *)
theory Peer_Properties
  imports Peer_Distribution ISP_Properties
begin

text \<open>
  The two tables of a view agree, under every operation, and a view rebuilt from the manager has every
  peer at the PID its address is looked up to. What goes wrong is the statistics: removing a peer does
  not take its counters away, and a peer that becomes a leecher again is counted down.
\<close>

section \<open>Views\<close>

definition view_tables :: "'f peer_view \<Rightarrow> bool" where
  "view_tables v \<longleftrightarrow> smap_inv (m_peer_to_pid v) \<and> (\<forall>k<length (m_pid_peers v). ras_inv id (m_pid_peers v ! k)) \<and>
     length (m_pid_peers v) = length (m_swarm_state v) + 1 \<and>
     (\<forall>p pid. smap_find (m_peer_to_pid v) p = Some pid \<longrightarrow> pid = - 1 \<or> 0 \<le> pid \<and> nat pid < length (m_swarm_state v)) \<and>
     (\<forall>k<length (m_pid_peers v). \<forall>p. p \<in> set (m_vec (m_pid_peers v ! k)) \<longleftrightarrow>
        (\<exists>pid. smap_find (m_peer_to_pid v) p = Some pid \<and> pid_slot v pid = k))"

text \<open>A view without peers has no tables; between their allocation and the first insertion they are empty.\<close>

definition view_inv :: "'f peer_view \<Rightarrow> bool" where
  "view_inv v \<longleftrightarrow> (if m_peer_to_pid v = [] then m_pid_peers v = [] \<and> m_swarm_state v = [] else view_tables v)"

lemma view_tablesD:
  assumes "view_tables v"
  shows "smap_inv (m_peer_to_pid v)" "k < length (m_pid_peers v) \<Longrightarrow> ras_inv id (m_pid_peers v ! k)"
    "length (m_pid_peers v) = length (m_swarm_state v) + 1"
    "smap_find (m_peer_to_pid v) p = Some pid \<Longrightarrow> pid = - 1 \<or> 0 \<le> pid \<and> nat pid < length (m_swarm_state v)"
    "k < length (m_pid_peers v) \<Longrightarrow> p \<in> set (m_vec (m_pid_peers v ! k)) \<longleftrightarrow> (\<exists>pid. smap_find (m_peer_to_pid v) p = Some pid \<and> pid_slot v pid = k)"
  using assms by (auto simp: view_tables_def)

lemma view_alloc_tables:
  assumes "view_inv v"
  shows "view_tables (view_alloc n v)" "m_peer_to_pid (view_alloc n v) = m_peer_to_pid v"
proof -
  let ?e = "ras_empty :: (nat, nat) random_access_set"
  have "(?e # replicate n ?e) ! k = ?e" if "k < Suc n" for k
    using that nth_replicate [of k "Suc n" ?e] by simp
  moreover have "m_vec ?e = []" by (simp add: ras_empty_def)
  ultimately show "view_tables (view_alloc n v)"
    using assms ras_inv_empty [of "id :: nat \<Rightarrow> nat"]
    by (cases "m_peer_to_pid v = []") (simp_all add: view_alloc_def view_inv_def view_tables_def SwarmState_def)
qed (simp add: view_alloc_def)

lemma pid_slot_less: "view_tables v \<Longrightarrow> pid = - 1 \<or> 0 \<le> pid \<and> nat pid < length (m_swarm_state v) \<Longrightarrow> pid_slot v pid < length (m_pid_peers v)"
  by (auto simp: pid_slot_def view_tables_def)

text \<open>Where the tables have the peer: the PID itself if the view has it, else the entry for unknown PIDs.\<close>

definition clamp_pid :: "nat \<Rightarrow> int \<Rightarrow> int" where
  "clamp_pid n pid = (if 0 \<le> pid \<and> nat pid < n then pid else ERR_UNKNOWN_PID)"

lemma view_insert_tables:
  assumes T: "view_tables v" and new: "smap_find (m_peer_to_pid v) peer = None"
    and pid: "pid = - 1 \<or> 0 \<le> pid \<and> nat pid < length (m_swarm_state v)" and sw: "length sw = length (m_swarm_state v)"
  defines "k \<equiv> pid_slot v pid"
  defines "v' \<equiv> v\<lparr>m_peer_to_pid := smap_put peer pid (m_peer_to_pid v),
      m_pid_peers := (m_pid_peers v)[k := fst (ras_push_back id (m_pid_peers v ! k) peer)], m_swarm_state := sw\<rparr>"
  shows "view_tables v'"
proof -
  have k: "k < length (m_pid_peers v)" using pid_slot_less [OF T pid] by (simp add: k_def)
  note R = view_tablesD(2) [OF T k] and I = view_tablesD(1) [OF T]
  have slot: "pid_slot v' q = pid_slot v q" for q by (simp add: v'_def pid_slot_def)
  have "peer \<notin> set (m_vec (m_pid_peers v ! k))" using view_tablesD(5) [OF T k, of peer] new by simp
  then have vec: "m_vec (fst (ras_push_back id (m_pid_peers v ! k) peer)) = m_vec (m_pid_peers v ! k) @ [peer]"
    using ras_push_back_spec(3) [OF R, of peer] by simp
  have "p \<in> set (m_vec (m_pid_peers v' ! j)) \<longleftrightarrow> (\<exists>q. smap_find (m_peer_to_pid v') p = Some q \<and> pid_slot v' q = j)"
    if "j < length (m_pid_peers v)" for j p
    using view_tablesD(5) [OF T that, of p] vec k new I slot by (cases "j = k") (auto simp: v'_def k_def)
  moreover have "ras_inv id (m_pid_peers v' ! j)" if "j < length (m_pid_peers v)" for j
    using view_tablesD(2) [OF T that] ras_push_back_spec(1) [OF R] that by (cases "j = k") (simp_all add: v'_def)
  moreover have "q = - 1 \<or> 0 \<le> q \<and> nat q < length (m_swarm_state v)" if "smap_find (m_peer_to_pid v') p = Some q" for p q
    using that view_tablesD(4) [OF T, of p q] pid I by (auto simp: v'_def split: if_splits)
  ultimately show ?thesis using I view_tablesD(3) [OF T] sw by (simp add: view_tables_def v'_def)
qed

lemma smap_put_not_Nil [simp]: "smap_put k x m \<noteq> []"
proof
  assume "smap_put k x m = []"
  then have "insert k (fst ` set m) = {}" unfolding keys_smap_put [of k x m, symmetric] by simp
  then show False by simp
qed

lemma view_alloc_id: "m_peer_to_pid v \<noteq> [] \<Longrightarrow> view_alloc n v = v"
  by (simp add: view_alloc_def)

lemma swarm_update_length: "length (fst (swarm_update i2f s pid c)) = length s"
  by (simp add: swarm_update_def)

lemma view_same_swarm: "v\<lparr>m_peer_to_pid := a, m_pid_peers := b, m_swarm_state := m_swarm_state v\<rparr> = v\<lparr>m_peer_to_pid := a, m_pid_peers := b\<rparr>"
  by (cases v) simp

lemma addPeerInternal_spec:
  fixes v :: "'f::{zero,plus} peer_view"
  assumes inv: "view_inv v" and pid: "- 1 \<le> pid" and n: "n = length (m_swarm_state (view_alloc tot v))"
  shows "\<exists>v'. addPeerInternal i2f tot v peer pid st = Inr (v', smap_find (m_peer_to_pid v) peer = None) \<and> view_inv v' \<and>
    m_peer_to_pid v' = (if smap_find (m_peer_to_pid v) peer = None then smap_put peer (clamp_pid n pid) (m_peer_to_pid v) else m_peer_to_pid v) \<and>
    length (m_swarm_state v') = n"
proof -
  let ?V = "view_alloc tot v" and ?q = "clamp_pid n pid"
  note T = view_alloc_tables [OF inv, of tot]
  have q: "?q = - 1 \<or> 0 \<le> ?q \<and> nat ?q < length (m_swarm_state ?V)" by (simp add: clamp_pid_def n)
  have len: "length (m_pid_peers ?V) = n + 1" using view_tablesD(3) [OF T(1)] n by simp
  have pq: "(if 0 \<le> pid \<and> length (m_pid_peers ?V) \<noteq> 0 \<and> length (m_pid_peers ?V) - 1 \<le> nat pid then - 1 else pid) = ?q"
    using pid by (auto simp: clamp_pid_def len)
  show ?thesis
  proof (cases "smap_find (m_peer_to_pid v) peer")
    case (Some x)
    then have "m_peer_to_pid v \<noteq> []" by auto
    then have "?V = v" by (rule view_alloc_id)
    with Some T pq inv n show ?thesis by (simp add: addPeerInternal_def Let_def smap_insert_def split: prod.splits)
  next
    case None
    let ?k = "pid_slot ?V ?q"
    let ?sw = "if 0 \<le> ?q then fst (swarm_update i2f (m_swarm_state ?V) ?q (stats_change st)) else m_swarm_state ?V"
    let ?v = "?V\<lparr>m_peer_to_pid := smap_put peer ?q (m_peer_to_pid ?V),
      m_pid_peers := (m_pid_peers ?V)[?k := fst (ras_push_back id (m_pid_peers ?V ! ?k) peer)], m_swarm_state := ?sw\<rparr>"
    have k: "?k < length (m_pid_peers ?V)" by (rule pid_slot_less [OF T(1) q])
    have sw: "length ?sw = length (m_swarm_state ?V)" by (simp add: swarm_update_length)
    have "view_tables ?v" using view_insert_tables [OF T(1) _ q sw, of peer] None T(2) by simp
    then have "view_inv ?v" by (simp add: view_inv_def)
    moreover have "addPeerInternal i2f tot v peer pid st = Inr (?v, True)"
      unfolding addPeerInternal_def Let_def pq
      using None T(2) k by (cases "0 \<le> ?q") (simp_all add: smap_insert_def view_same_swarm)
    ultimately show ?thesis using None T(2) sw n by simp
  qed
qed

lemma view_erase_tables:
  assumes T: "view_tables v" and old: "smap_find (m_peer_to_pid v) peer = Some pid"
    and s': "ras_inv id s'" "set (m_vec s') = set (m_vec (m_pid_peers v ! pid_slot v pid)) - {peer}"
  shows "view_tables (v\<lparr>m_peer_to_pid := smap_erase peer (m_peer_to_pid v), m_pid_peers := (m_pid_peers v)[pid_slot v pid := s']\<rparr>)"
proof -
  let ?k = "pid_slot v pid"
  let ?v = "v\<lparr>m_peer_to_pid := smap_erase peer (m_peer_to_pid v), m_pid_peers := (m_pid_peers v)[?k := s']\<rparr>"
  have k: "?k < length (m_pid_peers v)" using pid_slot_less [OF T view_tablesD(4) [OF T old]] .
  note I = view_tablesD(1) [OF T]
  have slot: "pid_slot ?v q = pid_slot v q" for q by (simp add: pid_slot_def)
  have "p \<in> set (m_vec (m_pid_peers ?v ! j)) \<longleftrightarrow> (\<exists>q. smap_find (m_peer_to_pid ?v) p = Some q \<and> pid_slot ?v q = j)"
    if "j < length (m_pid_peers v)" for j p
    using view_tablesD(5) [OF T that, of p] s'(2) k old slot by (cases "j = ?k"; cases "p = peer") auto
  moreover have "ras_inv id (m_pid_peers ?v ! j)" if "j < length (m_pid_peers v)" for j
    using view_tablesD(2) [OF T that] s'(1) that by (cases "j = ?k") simp_all
  ultimately show ?thesis using I view_tablesD(3,4) [OF T] by (simp add: view_tables_def)
qed

lemma view_removePeer_spec:
  assumes inv: "view_inv v"
  shows "\<exists>v'. view_removePeer v peer = Inr (v', smap_find (m_peer_to_pid v) peer \<noteq> None) \<and> view_inv v' \<and>
    m_peer_to_pid v' = smap_erase peer (m_peer_to_pid v)"
proof (cases "smap_find (m_peer_to_pid v) peer")
  case None
  then have "smap_erase peer (m_peer_to_pid v) = m_peer_to_pid v"
    by (auto simp: smap_erase_def smap_find_None_iff filter_id_conv)
  with None inv show ?thesis by (simp add: view_removePeer_def)
next
  case (Some pid)
  then have ne: "m_peer_to_pid v \<noteq> []" by auto
  then have T: "view_tables v" using inv by (simp add: view_inv_def)
  have k: "pid_slot v pid < length (m_pid_peers v)" using pid_slot_less [OF T view_tablesD(4) [OF T Some]] .
  let ?s = "m_pid_peers v ! pid_slot v pid" and ?m = "smap_erase peer (m_peer_to_pid v)"
  obtain s' b where s': "ras_erase id ?s peer = Inr (s', b)" "ras_inv id s'" "mset (m_vec s') = filter_mset (\<lambda>x. id x \<noteq> id peer) (mset (m_vec ?s))"
    using ras_ops_erase [OF view_tablesD(2) [OF T k], of peer] by blast
  have "set (m_vec s') = set (m_vec ?s) - {peer}" using arg_cong [OF s'(3), of set_mset] by auto
  note E = view_erase_tables [OF T Some s'(2) this]
  show ?thesis
    using Some k s'(1) E by (cases "?m = []") (auto simp: view_removePeer_def Let_def view_inv_def)
qed

lemma view_swarm_tables:
  "length sw = length (m_swarm_state v) \<Longrightarrow> view_tables (v\<lparr>m_swarm_state := sw\<rparr>) = view_tables v"
  by (simp add: view_tables_def pid_slot_def)

lemma view_updatePeerStats_spec:
  assumes inv: "view_inv v"
  shows "view_inv (fst (view_updatePeerStats i2f v peer b c))" "m_peer_to_pid (fst (view_updatePeerStats i2f v peer b c)) = m_peer_to_pid v"
proof -
  show "m_peer_to_pid (fst (view_updatePeerStats i2f v peer b c)) = m_peer_to_pid v"
    by (simp add: view_updatePeerStats_def split: option.splits)
  show "view_inv (fst (view_updatePeerStats i2f v peer b c))"
  proof (cases "smap_find (m_peer_to_pid v) peer")
    case (Some pid)
    then have "m_peer_to_pid v \<noteq> []" by auto
    with Some inv show ?thesis by (simp add: view_updatePeerStats_def view_inv_def view_swarm_tables swarm_update_length)
  qed (use inv in \<open>simp add: view_updatePeerStats_def\<close>)
qed

section \<open>The manager\<close>

text \<open>Views with agreeing tables whose peers satisfy \<open>P\<close>.\<close>

definition view_ok :: "(nat \<Rightarrow> bool) \<Rightarrow> 'f peer_view \<Rightarrow> bool" where
  "view_ok P v \<longleftrightarrow> view_inv v \<and> (\<forall>p. smap_find (m_peer_to_pid v) p \<noteq> None \<longrightarrow> P p)"

definition views_ok :: "(nat \<Rightarrow> bool) \<Rightarrow> (nat, 'f peer_view) smap \<Rightarrow> bool" where
  "views_ok P vs \<longleftrightarrow> (\<forall>e\<in>set vs. view_ok P (snd e))"

abbreviation known :: "'f peer_dist_manager \<Rightarrow> nat \<Rightarrow> bool" where
  "known d p \<equiv> smap_find (m_peers d) p \<noteq> None"

definition pdm_inv :: "'f peer_dist_manager \<Rightarrow> bool" where
  "pdm_inv d \<longleftrightarrow> smap_inv (m_views d) \<and> smap_inv (m_peers d) \<and> views_ok (known d) (m_views d)"

lemma views_ok_simps [simp]: "views_ok P []" "views_ok P (e # vs) \<longleftrightarrow> view_ok P (snd e) \<and> views_ok P vs"
  by (auto simp: views_ok_def)

lemma view_ok_mono: "view_ok P v \<Longrightarrow> (\<And>p. P p \<Longrightarrow> Q p) \<Longrightarrow> view_ok Q v"
  by (simp add: view_ok_def)

lemma views_ok_mono: "views_ok P vs \<Longrightarrow> (\<And>p. P p \<Longrightarrow> Q p) \<Longrightarrow> views_ok Q vs"
  unfolding views_ok_def using view_ok_mono by blast

lemma views_ok_find: "views_ok P vs \<Longrightarrow> smap_find vs i = Some v \<Longrightarrow> view_ok P v"
  unfolding views_ok_def smap_find_def by (fastforce dest: map_of_SomeD)

lemma views_ok_put: "views_ok P vs \<Longrightarrow> view_ok P v \<Longrightarrow> views_ok P (smap_put i v vs)"
  by (induction i v vs rule: smap_put.induct) auto

lemma view_inv_map: "view_inv v \<Longrightarrow> smap_inv (m_peer_to_pid v)"
  by (auto simp: view_inv_def view_tables_def split: if_splits)

lemma view_addPeer_ok:
  assumes ok: "view_ok P v" and pid: "- 1 \<le> pid" and run: "view_addPeer i2f tot ps v peer pid = Inr (v', b)"
  shows "view_ok (\<lambda>p. p = peer \<or> P p) v'"
proof -
  have inv: "view_inv v" using ok by (simp add: view_ok_def)
  from addPeerInternal_spec [OF inv pid refl, of i2f tot peer "PeerStats (ps peer)"] run view_inv_map [OF inv] ok
  show ?thesis by (auto simp: view_addPeer_def view_ok_def)
qed

lemma add_to_views_ok:
  assumes "add_to_views i2f isps ps peer vs home = Inr (vs', home')" "views_ok P vs"
  shows "map fst vs' = map fst vs \<and> views_ok (\<lambda>p. p = peer \<or> P p) vs'"
  using assms
proof (induction vs arbitrary: home vs' home')
  case (Cons e vs)
  obtain i v where e: "e = (i, v)" by (cases e)
  obtain pid out v' b h1 vs1 where r: "view_addPeer i2f (isp_total_pids (isps i)) ps v peer (if pid < 0 then - 1 else pid) = Inr (v', b)"
      "add_to_views i2f isps ps peer vs h1 = Inr (vs1, home')" "vs' = (i, v') # vs1"
    using Cons.prems(1) unfolding e by (auto simp: bindE_eq_Inr)
  have "- 1 \<le> (if pid < 0 then - 1 else pid)" by simp
  with view_addPeer_ok [OF _ this r(1)] Cons.IH [OF r(2)] Cons.prems(2) show ?case by (simp add: r(3) e)
qed simp

lemma remove_from_views_ok:
  assumes "views_ok P vs"
  shows "\<exists>vs'. remove_from_views peer vs = Inr vs' \<and> map fst vs' = map fst vs \<and> views_ok (\<lambda>p. p \<noteq> peer \<and> P p) vs'"
  using assms
proof (induction vs)
  case (Cons e vs)
  obtain i v where e: "e = (i, v)" by (cases e)
  have v: "view_inv v" "view_ok P v" using Cons.prems e by (simp_all add: view_ok_def)
  obtain v' b where v': "view_removePeer v peer = Inr (v', b)" "view_inv v'" "m_peer_to_pid v' = smap_erase peer (m_peer_to_pid v)"
    using view_removePeer_spec [OF v(1), of peer] by blast
  then have "view_ok (\<lambda>p. p \<noteq> peer \<and> P p) v'" using v(2) by (simp add: view_ok_def)
  with Cons v'(1) show ?case by (auto simp: e)
qed simp

lemma smap_inv_keys: "map fst m' = map fst m \<Longrightarrow> smap_inv m' = smap_inv m"
  by (simp add: smap_inv_def)

lemma pdm_addPeer_inv:
  assumes inv: "pdm_inv d" and run: "pdm_addPeer i2f isps ps d peer = Inr (d', ps', b)"
  shows "pdm_inv d'"
proof (cases "smap_find (m_peers d) peer")
  case None
  then obtain vs h where vs: "add_to_views i2f isps ps peer (m_views d) (0, - 1, 0) = Inr (vs, h)"
      "d' = d\<lparr>m_views := vs, m_peers := smap_put peer (PeerStats (ps peer)) (m_peers d)\<rparr>"
    using run by (auto simp: pdm_addPeer_def smap_insert_def bindE_eq_Inr)
  have A: "map fst vs = map fst (m_views d)" "views_ok (\<lambda>p. p = peer \<or> known d p) vs"
    using add_to_views_ok [OF vs(1), of "known d"] inv by (simp_all add: pdm_inv_def)
  have "views_ok (known d') vs" by (rule views_ok_mono [OF A(2)]) (use inv in \<open>auto simp: vs(2) pdm_inv_def\<close>)
  then show ?thesis using inv smap_inv_keys [OF A(1)] by (simp add: pdm_inv_def vs(2))
qed (use assms in \<open>auto simp: pdm_addPeer_def smap_insert_def\<close>)

lemma pdm_removePeer_spec:
  assumes inv: "pdm_inv d"
  shows "\<exists>d'. pdm_removePeer d peer = Inr (d', known d peer) \<and> pdm_inv d' \<and> \<not> known d' peer \<and>
    (\<forall>i v. smap_find (m_views d') i = Some v \<longrightarrow> smap_find (m_peer_to_pid v) peer = None)"
proof -
  obtain vs where vs: "remove_from_views peer (m_views d) = Inr vs" "map fst vs = map fst (m_views d)" "views_ok (\<lambda>p. p \<noteq> peer \<and> known d p) vs"
    using remove_from_views_ok [of "known d" "m_views d" peer] inv by (auto simp: pdm_inv_def)
  let ?d = "d\<lparr>m_views := vs, m_peers := smap_erase peer (m_peers d)\<rparr>"
  have "views_ok (known ?d) vs" by (rule views_ok_mono [OF vs(3)]) auto
  then have "pdm_inv ?d" using inv smap_inv_keys [OF vs(2)] by (simp add: pdm_inv_def)
  moreover have "smap_find (m_peer_to_pid v) peer = None" if "smap_find vs i = Some v" for i v
    using views_ok_find [OF vs(3) that] unfolding view_ok_def by blast
  ultimately show ?thesis using vs(1) by (auto simp: pdm_removePeer_def)
qed

lemma pdm_updatePeerStats_inv:
  assumes inv: "pdm_inv d"
  shows "pdm_inv (fst (pdm_updatePeerStats i2f ps d peer))"
proof (cases "smap_find (m_peers d) peer")
  case (Some prev)
  have ok: "view_ok (known d) (fst (view_updatePeerStats i2f v peer b c))" if "view_ok (known d) v" for v b c
    using that view_updatePeerStats_spec [of v] by (auto simp: view_ok_def)
  let ?d = "fst (pdm_updatePeerStats i2f ps d peer)"
  obtain b c where d: "?d = d\<lparr>m_peers := smap_put peer (PeerStats (ps peer)) (m_peers d),
      m_views := map (\<lambda>(i, v). (i, fst (view_updatePeerStats i2f v peer b c))) (m_views d)\<rparr>"
    using Some by (auto simp: pdm_updatePeerStats_def Let_def)
  have "views_ok (known d) (m_views ?d)" using inv ok by (auto simp: d views_ok_def pdm_inv_def)
  then have "views_ok (known ?d) (m_views ?d)" by (rule views_ok_mono) (use inv in \<open>auto simp: d pdm_inv_def\<close>)
  moreover have "map fst (m_views ?d) = map fst (m_views d)" by (auto simp: d)
  ultimately show ?thesis using inv smap_inv_keys [of "m_views ?d" "m_views d"] by (simp add: pdm_inv_def d)
qed (use inv in \<open>simp add: pdm_updatePeerStats_def\<close>)

section \<open>Rebuilding a view\<close>

definition lookup_pid :: "(nat \<Rightarrow> isp) \<Rightarrow> (nat \<Rightarrow> 'f peer) \<Rightarrow> nat \<Rightarrow> nat \<Rightarrow> int" where
  "lookup_pid isps ps i p = (case isp_lookup (isps i) (p_addr (ps p)) False of
       Inl e \<Rightarrow> ERR_UNKNOWN_PID | Inr (pid, out) \<Rightarrow> if pid < 0 then ERR_UNKNOWN_PID else pid)"

definition lookups_return :: "(nat \<Rightarrow> isp) \<Rightarrow> (nat \<Rightarrow> 'f peer) \<Rightarrow> nat \<Rightarrow> nat set \<Rightarrow> bool" where
  "lookups_return isps ps i A \<longleftrightarrow> (\<forall>p\<in>A. \<exists>r. isp_lookup (isps i) (p_addr (ps p)) False = Inr r)"

definition rehome :: "(nat \<Rightarrow> isp) \<Rightarrow> (nat \<Rightarrow> 'f peer) \<Rightarrow> nat \<Rightarrow> nat \<Rightarrow> 'f peer" where
  "rehome isps ps i p = (if home_isp (ps p) = i then setHome (ps p) i (lookup_pid isps ps i p) else ps p)"

lemma lookup_pid_ge: "- 1 \<le> lookup_pid isps ps i p"
  by (auto simp: lookup_pid_def split: sum.splits)

lemma add_from_manager_spec:
  fixes v :: "'f::{zero,plus} peer_view"
  assumes "view_inv v" "distinct (map fst es)" "\<forall>p\<in>fst ` set es. smap_find (m_peer_to_pid v) p = None"
    "lookups_return isps ps i (fst ` set es)" "m_peer_to_pid v = [] \<or> length (m_swarm_state v) = isp_total_pids (isps i)"
  shows "\<exists>v' ps'. add_from_manager i2f isps i es v ps = Inr (v', ps') \<and> view_inv v' \<and>
    (\<forall>p. smap_find (m_peer_to_pid v') p =
       (if p \<in> fst ` set es then Some (clamp_pid (isp_total_pids (isps i)) (lookup_pid isps ps i p)) else smap_find (m_peer_to_pid v) p)) \<and>
    ps' = (\<lambda>p. if p \<in> fst ` set es then rehome isps ps i p else ps p)"
  using assms
proof (induction es arbitrary: v ps)
  case (Cons e es)
  obtain peer st where e: "e = (peer, st)" by (cases e)
  let ?tot = "isp_total_pids (isps i)" and ?pid = "lookup_pid isps ps i peer"
  let ?ps = "ps(peer := rehome isps ps i peer)"
  obtain pid0 out where lk: "isp_lookup (isps i) (p_addr (ps peer)) False = Inr (pid0, out)"
    using Cons.prems(4) e by (force simp: lookups_return_def)
  then have pid: "(if pid0 < 0 then - 1 else pid0) = ?pid" by (simp add: lookup_pid_def)
  have n: "?tot = length (m_swarm_state (view_alloc ?tot v))"
    using Cons.prems(5) by (auto simp: view_alloc_def SwarmState_def)
  have new: "smap_find (m_peer_to_pid v) peer = None" using Cons.prems(3) e by simp
  obtain v1 where v1: "addPeerInternal i2f ?tot v peer ?pid st = Inr (v1, True)" "view_inv v1"
      "m_peer_to_pid v1 = smap_put peer (clamp_pid ?tot ?pid) (m_peer_to_pid v)" "length (m_swarm_state v1) = ?tot"
    using addPeerInternal_spec [OF Cons.prems(1) lookup_pid_ge n, of i2f peer isps ps i peer st] new by auto
  have step: "add_from_manager i2f isps i (e # es) v ps = add_from_manager i2f isps i es v1 ?ps"
    using lk pid v1(1) by (simp add: e rehome_def Let_def)
  have nin: "peer \<notin> fst ` set es" using Cons.prems(2) e by simp
  have same: "lookup_pid isps ?ps i p = lookup_pid isps ps i p" "rehome isps ?ps i p = rehome isps ps i p" if "p \<noteq> peer" for p
    using that by (simp_all add: lookup_pid_def rehome_def)
  have "\<exists>v' ps'. add_from_manager i2f isps i es v1 ?ps = Inr (v', ps') \<and> view_inv v' \<and>
    (\<forall>p. smap_find (m_peer_to_pid v') p =
       (if p \<in> fst ` set es then Some (clamp_pid ?tot (lookup_pid isps ?ps i p)) else smap_find (m_peer_to_pid v1) p)) \<and>
    ps' = (\<lambda>p. if p \<in> fst ` set es then rehome isps ?ps i p else ?ps p)"
  proof (rule Cons.IH [OF v1(2)])
    show "distinct (map fst es)" using Cons.prems(2) by simp
    show "\<forall>p\<in>fst ` set es. smap_find (m_peer_to_pid v1) p = None"
      using Cons.prems(3) nin view_inv_map [OF Cons.prems(1)] by (auto simp: v1(3))
    show "lookups_return isps ?ps i (fst ` set es)" using Cons.prems(4) nin by (auto simp: lookups_return_def)
  qed (use v1(4) in simp)
  then obtain v' ps' where "add_from_manager i2f isps i es v1 ?ps = Inr (v', ps')" "view_inv v'"
    "\<forall>p. smap_find (m_peer_to_pid v') p =
       (if p \<in> fst ` set es then Some (clamp_pid ?tot (lookup_pid isps ?ps i p)) else smap_find (m_peer_to_pid v1) p)"
    "ps' = (\<lambda>p. if p \<in> fst ` set es then rehome isps ?ps i p else ?ps p)" by blast
  moreover have "(if p \<in> fst ` set es then rehome isps ?ps i p else ?ps p) = (if p \<in> fst ` set (e # es) then rehome isps ps i p else ps p)" for p
    using same nin e by (cases "p = peer") auto
  moreover have "(if p \<in> fst ` set es then Some (clamp_pid ?tot (lookup_pid isps ?ps i p)) else smap_find (m_peer_to_pid v1) p) =
      (if p \<in> fst ` set (e # es) then Some (clamp_pid ?tot (lookup_pid isps ps i p)) else smap_find (m_peer_to_pid v) p)" for p
    using same nin e view_inv_map [OF Cons.prems(1)] by (cases "p = peer") (auto simp: v1(3))
  ultimately show ?case unfolding step by auto
qed simp

lemma view_inv_cleared: "view_inv (v\<lparr>m_peer_to_pid := [], m_pid_peers := [], m_swarm_state := []\<rparr>)"
  by (simp add: view_inv_def)

lemma addPeersFromManager_spec:
  fixes v :: "'f::{zero,plus} peer_view"
  assumes "smap_inv peers" "lookups_return isps ps i (fst ` set peers)"
  shows "\<exists>v' ps'. addPeersFromManager i2f isps i peers v ps = Inr (v', ps') \<and> view_inv v' \<and>
    (\<forall>p. smap_find (m_peer_to_pid v') p =
       (if p \<in> fst ` set peers then Some (clamp_pid (isp_total_pids (isps i)) (lookup_pid isps ps i p)) else None)) \<and>
    ps' = (\<lambda>p. if p \<in> fst ` set peers then rehome isps ps i p else ps p)"
proof -
  let ?v = "v\<lparr>m_peer_to_pid := [], m_pid_peers := [], m_swarm_state := []\<rparr>"
  have "smap_find (m_peer_to_pid ?v) p = None" for p by simp
  with add_from_manager_spec [OF view_inv_cleared [of v] smap_inv_distinct [OF assms(1)] _ assms(2), of i2f]
  show ?thesis unfolding addPeersFromManager_def by auto
qed

lemma add_from_manager_lookups:
  "add_from_manager i2f isps i es v ps = Inr r \<Longrightarrow> distinct (map fst es) \<Longrightarrow> lookups_return isps ps i (fst ` set es)"
proof (induction es arbitrary: v ps)
  case (Cons e es)
  obtain peer st where e: "e = (peer, st)" by (cases e)
  obtain pid0 out v' b where r: "isp_lookup (isps i) (p_addr (ps peer)) False = Inr (pid0, out)"
      "add_from_manager i2f isps i es v' (if home_isp (ps peer) = i then ps(peer := setHome (ps peer) i (if pid0 < 0 then - 1 else pid0)) else ps) = Inr r"
    using Cons.prems(1) unfolding e by (auto simp: bindE_eq_Inr Let_def)
  from Cons.IH [OF r(2)] Cons.prems(2) r(1) show ?case by (auto simp: lookups_return_def e split: if_splits)
qed (simp add: lookups_return_def)

lemma pdm_updatePeerDistribution_inv:
  assumes inv: "pdm_inv d" and run: "pdm_updatePeerDistribution i2f isps ps d i = Inr (d', ps', rc)"
  shows "pdm_inv d'"
proof (cases "smap_find (m_views d) i")
  case (Some v)
  then obtain v' where v': "addPeersFromManager i2f isps i (m_peers d) v ps = Inr (v', ps')" "d' = d\<lparr>m_views := smap_put i v' (m_views d)\<rparr>"
    using run by (auto simp: pdm_updatePeerDistribution_def bindE_eq_Inr)
  have I: "smap_inv (m_peers d)" "smap_inv (m_views d)" "views_ok (known d) (m_views d)" using inv by (simp_all add: pdm_inv_def)
  have "lookups_return isps ps i (fst ` set (m_peers d))"
    using add_from_manager_lookups [OF v'(1) [unfolded addPeersFromManager_def] smap_inv_distinct [OF I(1)]] .
  from addPeersFromManager_spec [OF I(1) this, of i2f v] v'(1) have "view_ok (known d) v'"
    by (auto simp: view_ok_def smap_find_None_iff)
  with I(3) have "views_ok (known d) (smap_put i v' (m_views d))" by (rule views_ok_put)
  then show ?thesis using I by (simp add: pdm_inv_def v'(2))
qed (use inv run in \<open>auto simp: pdm_updatePeerDistribution_def\<close>)

lemma pdm_addISP_inv: "pdm_inv d \<Longrightarrow> pdm_inv (fst (pdm_addISP d i))"
proof -
  assume inv: "pdm_inv d"
  then have I: "smap_inv (m_views d)" "views_ok (known d) (m_views d)" by (simp_all add: pdm_inv_def)
  have new: "view_ok (known d) PerISPPeerDistribution" by (simp add: view_ok_def view_inv_def PerISPPeerDistribution_def)
  have "views_ok (known d) (smap_put i PerISPPeerDistribution (m_views d))" using I(2) new by (rule views_ok_put)
  then show ?thesis using inv by (auto simp: pdm_addISP_def smap_insert_def pdm_inv_def split: option.splits)
qed

lemma pdm_removeISP_inv: "pdm_inv d \<Longrightarrow> pdm_inv (pdm_removeISP d i)"
  by (auto simp: pdm_removeISP_def pdm_inv_def views_ok_def set_smap_erase split: option.splits)

section \<open>Reachable managers\<close>

text \<open>Any sequence of the public operations, the peers and the PID maps changing in any way between them.\<close>

inductive pdm_reach :: "(int \<Rightarrow> 'f::{zero,plus,minus}) \<Rightarrow> 'f peer_dist_manager \<Rightarrow> bool" for i2f where
  reach_new: "pdm_reach i2f PeerDistributionManager"
| reach_addPeer: "pdm_reach i2f d \<Longrightarrow> pdm_addPeer i2f isps ps d peer = Inr (d', ps', b) \<Longrightarrow> pdm_reach i2f d'"
| reach_removePeer: "pdm_reach i2f d \<Longrightarrow> pdm_removePeer d peer = Inr (d', b) \<Longrightarrow> pdm_reach i2f d'"
| reach_stats: "pdm_reach i2f d \<Longrightarrow> pdm_reach i2f (fst (pdm_updatePeerStats i2f ps d peer))"
| reach_addISP: "pdm_reach i2f d \<Longrightarrow> pdm_reach i2f (fst (pdm_addISP d i))"
| reach_removeISP: "pdm_reach i2f d \<Longrightarrow> pdm_reach i2f (pdm_removeISP d i)"
| reach_update: "pdm_reach i2f d \<Longrightarrow> pdm_updatePeerDistribution i2f isps ps d i = Inr (d', ps', rc) \<Longrightarrow> pdm_reach i2f d'"

lemma pdm_reach_inv: "pdm_reach i2f d \<Longrightarrow> pdm_inv d"
proof (induction rule: pdm_reach.induct)
  case reach_new
  show ?case by (simp add: PeerDistributionManager_def pdm_inv_def)
next
  case (reach_removePeer d peer d' b)
  then show ?case using pdm_removePeer_spec [of d peer] by auto
qed (auto intro: pdm_addPeer_inv pdm_updatePeerStats_inv pdm_addISP_inv pdm_removeISP_inv pdm_updatePeerDistribution_inv)

text \<open>
  Property C17. In every state the manager of peer distributions can reach, the two tables of each view
  agree: the peers listed for a PID are the peers mapped to it, each once, as many as \<open>getNumPeers\<close> says,
  and every one of them is a peer the manager knows.
\<close>
theorem peer_views_agree:
  assumes "pdm_reach i2f d" "smap_find (m_views d) i = Some v" "0 \<le> pid" "nat pid < length (m_swarm_state v)"
  shows "\<exists>ps. pdm_listPIDPeers d i pid [] = (ps, True) \<and> distinct ps \<and> int (length ps) = pdm_getNumPeers d i pid \<and>
    set ps = {p. smap_find (m_peer_to_pid v) p = Some pid} \<and> (\<forall>p\<in>set ps. smap_find (m_peers d) p \<noteq> None)"
proof -
  have ok: "view_ok (known d) v" using pdm_reach_inv [OF assms(1)] views_ok_find [OF _ assms(2)] by (simp add: pdm_inv_def)
  have "m_peer_to_pid v \<noteq> []" using ok assms(4) by (auto simp: view_ok_def view_inv_def)
  then have T: "view_tables v" using ok by (simp add: view_ok_def view_inv_def)
  have k: "pid_slot v pid = nat pid" "nat pid < length (m_pid_peers v)" using assms(3,4) view_tablesD(3) [OF T] by (simp_all add: pid_slot_def)
  let ?ps = "m_vec (m_pid_peers v ! nat pid)"
  have slot: "pid_slot v q = nat pid \<longleftrightarrow> q = pid" if "smap_find (m_peer_to_pid v) p = Some q" for p q
    using view_tablesD(4) [OF T that] view_tablesD(3) [OF T] assms(3,4) by (auto simp: pid_slot_def)
  have set: "set ?ps = {p. smap_find (m_peer_to_pid v) p = Some pid}" using view_tablesD(5) [OF T k(2)] slot by auto
  have "distinct ?ps" using ras_distinct [OF view_tablesD(2) [OF T k(2)]] by simp
  moreover have "\<forall>p\<in>set ?ps. known d p" using ok set by (auto simp: view_ok_def)
  ultimately show ?thesis using assms(2) k set by (auto simp: pdm_listPIDPeers_def view_listPIDPeers_def pdm_getNumPeers_def view_getNumPeers_def)
qed

text \<open>An ISP with one PID, inside the ISP, that has 10.0.0.0/8.\<close>

lemma ex_isp:
  obtains s r where "isp_lookup s ex_addr False = Inr (0, None)" "isp_lookup s ex_addr True = Inr (0, Some r)" "get_length r = 8"
    "isp_total_pids s = 1" "getNumPIDs (m_pidmap s) = Inr (1, 1)"
proof -
  obtain t0 :: "int patricia_trie" where t0: "PatriciaTrie = Inr t0" "trie_inv AF_INET t0" "trie_map t0 = Map.empty"
    using PatriciaTrie_spec [OF is_ip_family_v4(1)] by blast
  have "\<forall>(p, v)\<in>set [(ex_net8, 0::int)]. ip_shape p \<and> get_family p = AF_INET" using ex_prefix_shape by simp
  then obtain t :: "int patricia_trie" where t: "trie_inv AF_INET t" "trie_map t = [net_bits ex_net8 \<mapsto> 0]"
    using trie_load [OF is_ip_family_v4(1) t0(2), of "[(ex_net8, 0)]"] t0(3) by auto
  let ?pm = "\<lparr>pm_proto = None, pm_filename = [], pm_trie = t, pm_pids = [ex_int], pm_intraisp_pids = Some 1,
      pm_lastUpdate = 0, pm_ttl = 60, pm_version = []\<rparr>"
  let ?s = "\<lparr>m_pidmap = ?pm, m_pdistmap = ISPPDistanceMap\<rparr>"
  have lpm: "lpm (trie_map t) (net_bits ex_addr) = Some (net_bits ex_net8, 0)"
    using ex_bits t(2) by (intro lpm_Some) (auto simp: take_is_prefix split: if_splits)
  have lk: "\<exists>r. wf_ip_prefix r \<and> get_family r = AF_INET \<and> net_bits r = net_bits ex_net8 \<and>
      trie_lookup t ex_addr want = Inr (Some 0, if want then Some r else None)" for want
    using trie_lookup_host [OF t(1) ex_prefix_shape(3), of want] lpm by (auto simp: get_addr_size_def)
  obtain r where r: "net_bits r = net_bits ex_net8" "wf_ip_prefix r" "get_family r = AF_INET" "trie_lookup t ex_addr True = Inr (Some 0, Some r)"
    using lk [of True] by auto
  have "get_length r = 8" using arg_cong [OF r(1), of length] r(2) by simp
  show thesis
    by (rule that [of ?s r]) (use lk [of False] r(4) \<open>get_length r = 8\<close> in \<open>auto simp: isp_lookup_def pm_lookup_def isp_total_pids_def listPIDs_def getNumPIDs_def\<close>)
qed

definition ex_peers :: "bool \<Rightarrow> nat \<Rightarrow> int peer" where
  "ex_peers seeder = (\<lambda>p. \<lparr>p_addr = ex_addr, p_seeder = seeder, p_upload = 0, p_download = 0, home_isp = 0, home_pid = - 1\<rparr>)"

definition ex_view :: "int peer_view" where
  "ex_view = \<lparr>m_peer_to_pid = [(21, 0)], m_pid_peers = [\<lparr>m_vec_index = [(21, 0)], m_vec = [21]\<rparr>, ras_empty],
     m_swarm_state = [PIDState\<lparr>upload_cap := 1\<rparr>]\<rparr>"

definition ex_pdm :: "int peer_dist_manager" where
  "ex_pdm = \<lparr>m_views = [(5, ex_view)], m_peers = [(21, PeerStats (ex_peers True 21))]\<rparr>"

definition ex_homed :: "nat \<Rightarrow> int peer" where
  "ex_homed = (ex_peers True)(21 := setHome (ex_peers True 21) 5 0)"

lemma ex_pdm_add:
  assumes s: "isp_lookup s ex_addr False = Inr (0, None)" "isp_lookup s ex_addr True = Inr (0, Some r)" "get_length r = 8"
    "isp_total_pids s = 1" "getNumPIDs (m_pidmap s) = Inr (1, 1)"
  shows "pdm_addPeer id (\<lambda>i. s) (ex_peers True) (fst (pdm_addISP PeerDistributionManager 5)) 21 = Inr (ex_pdm, ex_homed, True)"
  by (simp add: pdm_addPeer_def pdm_addISP_def PeerDistributionManager_def smap_insert_def PerISPPeerDistribution_def
      s ex_peers_def view_addPeer_def addPeerInternal_def view_alloc_def Let_def SwarmState_def pid_slot_def swarm_update_def sw_set_def
      sw_isValid_def stats_change_def PeerStats_def pid_state_update_def PIDState_def ras_push_back_def ras_find_def ras_empty_def setHome_def
      ex_pdm_def ex_view_def ex_homed_def numeral_2_eq_2 home_update_def)

lemma ex_pdm_reach: "pdm_reach id ex_pdm"
proof -
  obtain s r where s: "isp_lookup s ex_addr False = Inr (0, None)" "isp_lookup s ex_addr True = Inr (0, Some r)" "get_length r = 8"
    "isp_total_pids s = 1" "getNumPIDs (m_pidmap s) = Inr (1, 1)" by (rule ex_isp)
  from reach_addPeer [OF reach_addISP [OF reach_new] ex_pdm_add [OF s]] show ?thesis .
qed

lemma ex_pdm_view: "smap_find (m_views ex_pdm) 5 = Some ex_view"
  by (simp add: ex_pdm_def smap_find_def)

theorem peer_views_agree_witness:
  "\<exists>ps. pdm_listPIDPeers ex_pdm 5 0 [] = (ps, True) \<and> distinct ps \<and> int (length ps) = pdm_getNumPeers ex_pdm 5 0 \<and> set ps = {21}"
proof -
  have "{p. smap_find (m_peer_to_pid ex_view) p = Some 0} = {21}" by (auto simp: ex_view_def smap_find_def)
  with peer_views_agree [OF ex_pdm_reach ex_pdm_view, of 0] show ?thesis by (auto simp: ex_view_def)
qed

section \<open>The operations of the manager\<close>

text \<open>
  Property C26. Rebuilding the view of an ISP the manager has, when the addresses of its peers can be
  looked up, succeeds: the view then has exactly the peers the manager knows, each at the PID its
  address is looked up to in the ISP's current PID map (or without a PID), the home PID of the peers
  whose home the ISP is follows, and nothing else changes.
\<close>
theorem update_distribution_rebuilds:
  assumes "pdm_reach i2f d" "smap_find (m_views d) i = Some v" "lookups_return isps ps i (fst ` set (m_peers d))"
  shows "\<exists>d' v'. pdm_updatePeerDistribution i2f isps ps d i =
      Inr (d', \<lambda>p. if p \<in> fst ` set (m_peers d) then rehome isps ps i p else ps p, 0) \<and>
    m_peers d' = m_peers d \<and> smap_find (m_views d') i = Some v' \<and>
    (\<forall>p. smap_find (m_peer_to_pid v') p =
       (if p \<in> fst ` set (m_peers d) then Some (clamp_pid (isp_total_pids (isps i)) (lookup_pid isps ps i p)) else None)) \<and>
    (\<forall>j. j \<noteq> i \<longrightarrow> smap_find (m_views d') j = smap_find (m_views d) j)"
proof -
  have I: "smap_inv (m_peers d)" "smap_inv (m_views d)" using pdm_reach_inv [OF assms(1)] by (simp_all add: pdm_inv_def)
  from addPeersFromManager_spec [OF I(1) assms(3), of i2f v] obtain v' where
    "addPeersFromManager i2f isps i (m_peers d) v ps = Inr (v', \<lambda>p. if p \<in> fst ` set (m_peers d) then rehome isps ps i p else ps p)"
    "\<forall>p. smap_find (m_peer_to_pid v') p =
       (if p \<in> fst ` set (m_peers d) then Some (clamp_pid (isp_total_pids (isps i)) (lookup_pid isps ps i p)) else None)" by blast
  then show ?thesis using assms(2) I(2) by (auto simp: pdm_updatePeerDistribution_def)
qed

theorem update_distribution_rebuilds_witness:
  "\<exists>isps d' ps' v'. pdm_updatePeerDistribution id isps (ex_peers False) ex_pdm 5 = Inr (d', ps', 0) \<and>
     smap_find (m_views d') 5 = Some v' \<and> smap_find (m_peer_to_pid v') 21 = Some 0"
proof -
  obtain s r where s: "isp_lookup s ex_addr False = Inr (0, None)" "isp_total_pids s = 1" by (rule ex_isp)
  have lr: "lookups_return (\<lambda>i. s) (ex_peers False) 5 (fst ` set (m_peers ex_pdm))"
    using s(1) by (simp add: lookups_return_def ex_peers_def)
  have pid: "clamp_pid (isp_total_pids s) (lookup_pid (\<lambda>i. s) (ex_peers False) 5 21) = 0"
    using s by (simp add: clamp_pid_def lookup_pid_def ex_peers_def)
  from update_distribution_rebuilds [OF ex_pdm_reach ex_pdm_view lr] obtain d' v' where
    r: "pdm_updatePeerDistribution id (\<lambda>i. s) (ex_peers False) ex_pdm 5 =
      Inr (d', \<lambda>p. if p \<in> fst ` set (m_peers ex_pdm) then rehome (\<lambda>i. s) (ex_peers False) 5 p else ex_peers False p, 0)"
      "smap_find (m_views d') 5 = Some v'"
      "\<forall>p. smap_find (m_peer_to_pid v') p =
       (if p \<in> fst ` set (m_peers ex_pdm) then Some (clamp_pid (isp_total_pids s) (lookup_pid (\<lambda>i. s) (ex_peers False) 5 p)) else None)" by blast
  have "smap_find (m_peer_to_pid v') 21 = Some 0" using r(3) pid by (simp add: ex_pdm_def)
  with r show ?thesis by blast
qed

text \<open>
  Removing a peer always succeeds, says whether the peer was known, and leaves it in no
  view and not in the manager.
\<close>
theorem remove_peer_everywhere:
  assumes "pdm_reach i2f d"
  shows "\<exists>d'. pdm_removePeer d peer = Inr (d', smap_find (m_peers d) peer \<noteq> None) \<and> smap_find (m_peers d') peer = None \<and>
    (\<forall>i v. smap_find (m_views d') i = Some v \<longrightarrow> smap_find (m_peer_to_pid v) peer = None)"
  using pdm_removePeer_spec [OF pdm_reach_inv [OF assms], of peer] by auto

section \<open>The statistics\<close>

lemma remove_from_views_swarm:
  assumes "remove_from_views peer vs = Inr vs'" "smap_find vs' i = Some v'" "m_peer_to_pid v' \<noteq> []"
  shows "\<exists>v. smap_find vs i = Some v \<and> m_swarm_state v' = m_swarm_state v"
  using assms
proof (induction vs arbitrary: vs')
  case (Cons e vs)
  obtain j v where e: "e = (j, v)" by (cases e)
  obtain v1 b vs1 where r: "view_removePeer v peer = Inr (v1, b)" "remove_from_views peer vs = Inr vs1" "vs' = (j, v1) # vs1"
    using Cons.prems(1) unfolding e by (auto simp: bindE_eq_Inr)
  have "m_peer_to_pid v1 \<noteq> [] \<Longrightarrow> m_swarm_state v1 = m_swarm_state v"
    using r(1) by (auto simp: view_removePeer_def Let_def bindE_eq_Inr split: option.splits if_splits)
  with Cons.IH [OF r(2)] Cons.prems(2,3) show ?case by (auto simp: e r(3) smap_find_def split: if_splits)
qed simp

text \<open>
  Removing a peer does not change the counters of the swarm: in a view that still has
  peers, every counter is what it was, the removed peer included.
\<close>
theorem remove_peer_keeps_counters:
  assumes "pdm_removePeer d peer = Inr (d', b)" "smap_find (m_views d') i = Some v'" "m_peer_to_pid v' \<noteq> []"
  shows "pdm_getSwarmState d' i = pdm_getSwarmState d i"
proof -
  obtain vs where vs: "remove_from_views peer (m_views d) = Inr vs" "m_views d' = vs"
    using assms(1) by (auto simp: pdm_removePeer_def bindE_eq_Inr)
  obtain v where "smap_find (m_views d) i = Some v" "m_swarm_state v' = m_swarm_state v"
    using remove_from_views_swarm [OF vs(1) _ assms(3)] assms(2) vs(2) by blast
  then show ?thesis using assms(2) by (simp add: pdm_getSwarmState_def getSwarmState_def)
qed

definition ex_pdm2 :: "int peer_dist_manager" where
  "ex_pdm2 = \<lparr>m_views = [(5, \<lparr>m_peer_to_pid = [(21, 0), (22, 0)], m_pid_peers = [\<lparr>m_vec_index = [(21, 0), (22, 1)], m_vec = [21, 22]\<rparr>, ras_empty],
     m_swarm_state = [PIDState\<lparr>num_leechers := 2\<rparr>]\<rparr>)], m_peers = [(21, PeerStats (ex_peers False 21)), (22, PeerStats (ex_peers False 22))]\<rparr>"

definition ex_pdm1 :: "int peer_dist_manager" where
  "ex_pdm1 = \<lparr>m_views = [(5, \<lparr>m_peer_to_pid = [(21, 0)], m_pid_peers = [\<lparr>m_vec_index = [(21, 0)], m_vec = [21]\<rparr>, ras_empty],
     m_swarm_state = [PIDState\<lparr>num_leechers := 2\<rparr>]\<rparr>)], m_peers = [(21, PeerStats (ex_peers False 21))]\<rparr>"

text \<open>
  Whenever the seeder status of a peer changes, in either direction, the number of
  leechers of its PID goes down by one, modulo \<open>2 ^ 32\<close>: a seeder that becomes a leecher again is
  counted as a leecher lost.
\<close>
theorem seed_change_counts_down:
  assumes "smap_find (m_peers d) peer = Some prev" "is_seed prev \<noteq> p_seeder (ps peer)" and "smap_find (m_views d) i = Some v" "smap_find (m_peer_to_pid v) peer = Some pid" "0 \<le> pid" "nat pid < length (m_swarm_state v)"
  shows "num_leechers (pdm_getSwarmState (fst (pdm_updatePeerStats i2f ps d peer)) i ! nat pid) = num_leechers (pdm_getSwarmState d i ! nat pid) - 1"
proof -
  have map: "smap_find (map (\<lambda>(i, v). (i, f v)) m) i = map_option f (smap_find m i)" for f and m :: "(nat, 'a peer_view) smap"
    by (induction m) (auto simp: smap_find_def)
  have "is_seed (PeerStats (ps peer)) \<noteq> is_seed prev" using assms(2) by (simp add: PeerStats_def)
  then show ?thesis using assms(1,3-6)
    by (simp add: pdm_updatePeerStats_def Let_def pdm_getSwarmState_def map getSwarmState_def view_updatePeerStats_def swarm_update_def sw_set_def
        sw_isValid_def pid_state_update_def)
qed

section \<open>The home of a peer\<close>

text \<open>An ISP whose PID map has the address in a PID inside the ISP, with the length of the matching prefix.\<close>

definition home_candidate :: "(nat \<Rightarrow> isp) \<Rightarrow> ip_prefix \<Rightarrow> home \<Rightarrow> bool" where
  "home_candidate isps addr h = (case h of (i, pid, len) \<Rightarrow>
     (case (isp_lookup (isps i) addr True, getNumPIDs (m_pidmap (isps i))) of
        (Inr (pid', q), Inr (intra, tot)) \<Rightarrow> pid = pid' \<and> 0 \<le> pid \<and> pid < int intra \<and>
          len = get_length (case q of Some q \<Rightarrow> q | None \<Rightarrow> IPPrefix_default)
      | _ \<Rightarrow> False))"

lemma home_update_cases:
  assumes "isp_lookup (isps i) addr True = Inr (pid, q)" "home_update (isps i) i pid q h = Inr h1"
  shows "h1 = h \<and> (\<forall>pid len. home_candidate isps addr (i, pid, len) \<longrightarrow> len < snd (snd h)) \<or>
     fst h1 = i \<and> home_candidate isps addr h1 \<and> snd (snd h) \<le> snd (snd h1) \<and> (\<forall>pid len. home_candidate isps addr (i, pid, len) \<longrightarrow> len = snd (snd h1))"
proof (cases "pid < 0")
  case True
  then show ?thesis using assms by (auto simp: home_update_def home_candidate_def split: sum.splits)
next
  case False
  then obtain n t where n: "getNumPIDs (m_pidmap (isps i)) = Inr (n, t)"
    using assms(2) by (auto simp: home_update_def bindE_eq_Inr)
  have c: "home_candidate isps addr (i, p, len) \<longleftrightarrow> p = pid \<and> pid < int n \<and> len = get_length (case q of Some q \<Rightarrow> q | None \<Rightarrow> IPPrefix_default)" for p len
    using False assms(1) n by (auto simp: home_candidate_def)
  show ?thesis
    using False assms(2) n c by (auto simp: home_update_def Let_def split: if_splits)
qed

lemma add_to_views_home:
  assumes "add_to_views i2f isps ps peer vs h = Inr (vs', h')"
  shows "h' = h \<and> (\<forall>i pid len. i \<in> fst ` set vs \<and> home_candidate isps (p_addr (ps peer)) (i, pid, len) \<longrightarrow> len < snd (snd h)) \<or>
    fst h' \<in> fst ` set vs \<and> home_candidate isps (p_addr (ps peer)) h' \<and> snd (snd h) \<le> snd (snd h') \<and>
      (\<forall>i pid len. i \<in> fst ` set vs \<and> home_candidate isps (p_addr (ps peer)) (i, pid, len) \<longrightarrow> len \<le> snd (snd h'))"
  using assms
proof (induction vs arbitrary: h vs')
  case (Cons e vs)
  obtain i v where e: "e = (i, v)" by (cases e)
  obtain pid q h1 vs1 where r: "isp_lookup (isps i) (p_addr (ps peer)) True = Inr (pid, q)" "home_update (isps i) i pid q h = Inr h1"
      "add_to_views i2f isps ps peer vs h1 = Inr (vs1, h')"
    using Cons.prems unfolding e by (auto simp: bindE_eq_Inr)
  note U = home_update_cases [of isps i, OF r(1,2)] and IH = Cons.IH [OF r(3)]
  have in_e: "j \<in> fst ` set (e # vs) \<longleftrightarrow> j = i \<or> j \<in> fst ` set vs" for j by (auto simp: e)
  from U show ?case
  proof
    assume "h1 = h \<and> (\<forall>pid len. home_candidate isps (p_addr (ps peer)) (i, pid, len) \<longrightarrow> len < snd (snd h))"
    then show ?thesis using IH unfolding in_e by (meson less_imp_le less_le_trans)
  next
    assume A: "fst h1 = i \<and> home_candidate isps (p_addr (ps peer)) h1 \<and> snd (snd h) \<le> snd (snd h1) \<and>
      (\<forall>pid len. home_candidate isps (p_addr (ps peer)) (i, pid, len) \<longrightarrow> len = snd (snd h1))"
    have "snd (snd h1) \<le> snd (snd h') \<and> home_candidate isps (p_addr (ps peer)) h' \<and> (fst h' = i \<or> fst h' \<in> fst ` set vs) \<and>
      (\<forall>j pid len. j \<in> fst ` set vs \<and> home_candidate isps (p_addr (ps peer)) (j, pid, len) \<longrightarrow> len \<le> snd (snd h'))"
      using IH A by (elim disjE) (simp_all add: less_imp_le)
    moreover from this A have "len \<le> snd (snd h')" if "home_candidate isps (p_addr (ps peer)) (i, pid, len)" for pid len
      using that by metis
    ultimately show ?thesis using A unfolding in_e by (intro disjI2) (meson order_trans)
  qed
qed simp



end
