(* ===== verification/Selection_Spec.thy ===== *)
theory Selection_Spec
  imports Selection_Helper Peer_Properties
begin

text \<open>
  What a selection helper promises: a peer it gives was left in the PID and is not left afterwards, and it
  gives none only when none is left. The loops of the selection algorithms use no more than this, so they
  are proved in the locale \<open>peer_source\<close>, which the two selection operations of the helper instantiate.
\<close>

section \<open>The peers left\<close>

text \<open>The view was built with the PID map the ISP has now.\<close>

definition view_fresh :: "nat \<Rightarrow> 'f peer_view \<Rightarrow> bool" where
  "view_fresh n v \<longleftrightarrow> view_tables v \<and> length (m_swarm_state v) = n"

definition slot_peers :: "'f peer_view \<Rightarrow> nat \<Rightarrow> nat list" where
  "slot_peers v k = m_vec (m_pid_peers v ! k)"

definition left_in :: "'f peer_view \<Rightarrow> nat \<Rightarrow> pid_info \<Rightarrow> nat set" where
  "left_in v k info = (case strategy info of
       ST_UNKNOWN \<Rightarrow> set (slot_peers v k)
     | ST_COPY \<Rightarrow> set (candidates info)
     | ST_NOCOPY \<Rightarrow> {p \<in> set (slot_peers v k). Some p \<notin> selected info})"

definition info_ok :: "'f peer_view \<Rightarrow> nat \<Rightarrow> pid_info \<Rightarrow> bool" where
  "info_ok v k info \<longleftrightarrow> numPeers info = int (card (left_in v k info)) \<and> left_in v k info \<subseteq> set (slot_peers v k) \<and>
     (strategy info = ST_UNKNOWN \<longrightarrow> candidates info = [] \<and> selected info = {}) \<and> (strategy info = ST_COPY \<longrightarrow> distinct (candidates info)) \<and>
     (strategy info = ST_NOCOPY \<longrightarrow> slot_peers v k \<noteq> [])"

definition helper_inv :: "nat \<Rightarrow> 'f selection_helper \<Rightarrow> bool" where
  "helper_inv n h \<longleftrightarrow> view_fresh n (h_isp_peers h) \<and> length (m_pidinfo h) = n + 1 \<and>
     (\<forall>k\<le>n. info_ok (h_isp_peers h) k (m_pidinfo h ! k))"

definition left_at :: "'f selection_helper \<Rightarrow> nat \<Rightarrow> nat set" where
  "left_at h k = left_in (h_isp_peers h) k (m_pidinfo h ! k)"

definition slot_of :: "nat \<Rightarrow> int \<Rightarrow> nat" where
  "slot_of n pid = (if pid = ERR_UNKNOWN_PID then n else nat pid)"

lemma view_freshD:
  assumes "view_fresh n v"
  shows "view_tables v" "length (m_pid_peers v) = n + 1" "k \<le> n \<Longrightarrow> distinct (slot_peers v k)"
    "k \<le> n \<Longrightarrow> p \<in> set (slot_peers v k) \<longleftrightarrow> (\<exists>pid. smap_find (m_peer_to_pid v) p = Some pid \<and> pid_slot v pid = k)"
proof -
  show T: "view_tables v" and L: "length (m_pid_peers v) = n + 1" using assms view_tablesD(3) by (auto simp: view_fresh_def)
  show "k \<le> n \<Longrightarrow> distinct (slot_peers v k)" using ras_distinct view_tablesD(2) [OF T, of k] L by (fastforce simp: slot_peers_def)
  show "k \<le> n \<Longrightarrow> p \<in> set (slot_peers v k) \<longleftrightarrow> (\<exists>pid. smap_find (m_peer_to_pid v) p = Some pid \<and> pid_slot v pid = k)"
    using view_tablesD(5) [OF T, of k p] L by (simp add: slot_peers_def)
qed

lemma slots_disjoint: "view_fresh n v \<Longrightarrow> k \<le> n \<Longrightarrow> j \<le> n \<Longrightarrow> p \<in> set (slot_peers v k) \<Longrightarrow> p \<in> set (slot_peers v j) \<Longrightarrow> k = j"
  by (auto simp: view_freshD(4))

lemma fresh_queries:
  assumes "view_fresh n v" "- 1 \<le> pid" "pid < int n"
  shows "view_listPIDPeers v pid out = (out @ slot_peers v (slot_of n pid), True)"
    "view_getNumPeers v pid = int (length (slot_peers v (slot_of n pid)))"
    "view_getRandomPeer r v pid = (let s = slot_peers v (slot_of n pid) in if s = [] then None else Some (s ! (r mod length s)))"
proof -
  have s: "pid_slot v pid = slot_of n pid" "slot_of n pid < length (m_pid_peers v)" "m_pid_peers v \<noteq> []"
    using assms view_freshD(2) [OF assms(1)] by (auto simp: pid_slot_def slot_of_def)
  then show "view_listPIDPeers v pid out = (out @ slot_peers v (slot_of n pid), True)"
    "view_getNumPeers v pid = int (length (slot_peers v (slot_of n pid)))"
    "view_getRandomPeer r v pid = (let s = slot_peers v (slot_of n pid) in if s = [] then None else Some (s ! (r mod length s)))"
    by (simp_all add: view_listPIDPeers_def view_getNumPeers_def view_getRandomPeer_def slot_peers_def Let_def)
qed

lemma helper_start:
  assumes "view_fresh n v"
  shows "helper_inv n (PIDPeerSelectionHelper v n tot)" "k \<le> n \<Longrightarrow> left_at (PIDPeerSelectionHelper v n tot) k = set (slot_peers v k)"
proof -
  let ?h = "PIDPeerSelectionHelper v n tot"
  have i: "m_pidinfo ?h ! k = PIDInfo (int (length (slot_peers v k)))" if "k \<le> n" for k
    using that fresh_queries(2) [OF assms, of "int k"] fresh_queries(2) [OF assms, of "- 1"]
    by (cases "k = n") (auto simp: PIDPeerSelectionHelper_def nth_append slot_of_def)
  have f: "h_isp_peers ?h = v" "length (m_pidinfo ?h) = n + 1" by (simp_all add: PIDPeerSelectionHelper_def)
  show "k \<le> n \<Longrightarrow> left_at ?h k = set (slot_peers v k)" by (simp add: left_at_def left_in_def i f) (simp add: PIDInfo_def)
  show "helper_inv n ?h"
    using assms view_freshD(3) [OF assms] by (simp add: helper_inv_def info_ok_def left_in_def i f) (simp add: PIDInfo_def distinct_card)
qed

section \<open>The selection from a PID\<close>

lemma pop_at_spec:
  assumes "i < length xs" "distinct xs"
  shows "fst (pop_at xs i) = xs ! i" "set (snd (pop_at xs i)) = set xs - {xs ! i}" "distinct (snd (pop_at xs i))"
proof -
  let ?ys = "xs[i := last xs]"
  have ne: "xs \<noteq> []" using assms(1) by auto
  have l: "last ?ys = last xs" using ne assms(1) by (simp add: last_list_update)
  have "mset (butlast ?ys) + {#last ?ys#} = mset ?ys"
    using append_butlast_last_id [of ?ys] ne by (metis list_update_nonempty mset.simps(1,2) mset_append)
  then have m: "mset (butlast ?ys) = mset xs - {#xs ! i#}" using l assms(1) by (simp add: mset_update)
  show "fst (pop_at xs i) = xs ! i" by (simp add: pop_at_def)
  have "mset (snd (pop_at xs i)) = mset (remove1 (xs ! i) xs)" using m by (simp add: pop_at_def)
  then show "set (snd (pop_at xs i)) = set xs - {xs ! i}" "distinct (snd (pop_at xs i))"
    using assms(2) by (metis set_mset_mset set_remove1_eq, metis distinct_remove1 mset_eq_imp_distinct_iff)
qed

lemma choose_strategy_spec:
  assumes "view_fresh n v" "- 1 \<le> pid" "pid < int n" "info_ok v (slot_of n pid) info"
  obtains info' where "choose_strategy v tot pid info = (info', True)" "info_ok v (slot_of n pid) info'"
    "left_in v (slot_of n pid) info' = left_in v (slot_of n pid) info" "numPeers info' = numPeers info" "strategy info' \<noteq> ST_UNKNOWN"
    "strategy info \<noteq> ST_UNKNOWN \<Longrightarrow> info' = info"
proof (cases "strategy info = ST_UNKNOWN")
  case True
  let ?k = "slot_of n pid"
  have k: "?k \<le> n" using assms(2,3) by (auto simp: slot_of_def)
  have c: "candidates info = []" using assms(4) True by (simp add: info_ok_def)
  show thesis
  proof (cases "unat (4 * tot) < nat (numPeers info)")
    case many: True
    then have ne: "slot_peers v ?k \<noteq> []" using True assms(4) by (auto simp: info_ok_def left_in_def)
    show thesis
      by (rule that [of "info\<lparr>strategy := ST_NOCOPY\<rparr>"])
        (use True many ne assms(4) in \<open>simp_all add: choose_strategy_def info_ok_def left_in_def\<close>)
  next
    case few: False
    let ?i = "info\<lparr>strategy := ST_COPY, candidates := slot_peers v ?k\<rparr>"
    have "choose_strategy v tot pid info = (?i, True)"
      using True few assms(4) c fresh_queries(1) [OF assms(1-3)] by (simp add: choose_strategy_def info_ok_def)
    then show thesis
      by (rule that [of ?i]) (use True assms(4) view_freshD(3) [OF assms(1) k] in \<open>simp_all add: info_ok_def left_in_def\<close>)
  qed
next
  case False
  show thesis by (rule that [of info]) (use False assms in \<open>simp_all add: choose_strategy_def\<close>)
qed

lemma nocopy_loop_spec:
  "nocopy_loop v pid sel rs = Inr (p, rs') \<Longrightarrow> p \<notin> sel \<and> length rs' < length rs \<and> (\<exists>r\<in>set rs. p = view_getRandomPeer r v pid)"
  by (induction v pid sel rs rule: nocopy_loop.induct) (fastforce simp: Let_def split: if_splits)+

lemma nocopy_loop_returns:
  "r \<in> set rs \<Longrightarrow> view_getRandomPeer r v pid \<notin> sel \<Longrightarrow> \<exists>p rs'. nocopy_loop v pid sel rs = Inr (p, rs')"
  by (induction v pid sel rs rule: nocopy_loop.induct) (auto simp: Let_def)

lemma helper_infoD:
  assumes "helper_inv n h" "- 1 \<le> pid" "pid < int n"
  shows "pid_idx h pid = int (slot_of n pid)" "slot_of n pid \<le> n"
    "pidinfo_at h (int (slot_of n pid)) = Inr (m_pidinfo h ! slot_of n pid)"
    "info_ok (h_isp_peers h) (slot_of n pid) (m_pidinfo h ! slot_of n pid)" "view_fresh n (h_isp_peers h)"
  using assms by (auto simp: helper_inv_def pid_idx_def slot_of_def pidinfo_at_def)

text \<open>Replacing the information on a PID.\<close>

lemma set_info_inv:
  assumes "helper_inv n h" "k \<le> n" "info_ok (h_isp_peers h) k info"
  shows "helper_inv n (set_info h (int k) info)" "h_isp_peers (set_info h (int k) info) = h_isp_peers h"
    "j \<le> n \<Longrightarrow> left_at (set_info h (int k) info) j = (if j = k then left_in (h_isp_peers h) k info else left_at h j)"
  using assms by (auto simp: helper_inv_def set_info_def left_at_def nth_list_update)

text \<open>A selection takes a peer that was left out of its PID, or gives none because none was left.\<close>

definition takes :: "nat \<Rightarrow> nat \<Rightarrow> 'f selection_helper \<Rightarrow> nat option \<Rightarrow> 'f selection_helper \<Rightarrow> bool" where
  "takes n k h res h' \<longleftrightarrow> helper_inv n h' \<and> h_isp_peers h' = h_isp_peers h \<and>
     (\<forall>j\<le>n. j \<noteq> k \<longrightarrow> left_at h' j = left_at h j) \<and>
     (case res of None \<Rightarrow> left_at h k = {} \<and> left_at h' k = {} | Some p \<Rightarrow> p \<in> left_at h k \<and> left_at h' k = left_at h k - {p})"

lemma info_ok_copy:
  fixes r :: nat
  assumes "info_ok v k info" "strategy info = ST_COPY" "candidates info \<noteq> []"
  defines "i \<equiv> r mod length (candidates info)"
  defines "info' \<equiv> info\<lparr>candidates := snd (pop_at (candidates info) i), numPeers := numPeers info - 1\<rparr>"
  shows "info_ok v k info'" "candidates info ! i \<in> left_in v k info" "left_in v k info' = left_in v k info - {candidates info ! i}"
proof -
  have i: "i < length (candidates info)" using assms(3) by (simp add: i_def)
  have d: "distinct (candidates info)" using assms(1,2) by (simp add: info_ok_def)
  note P = pop_at_spec [OF i d]
  show mem: "candidates info ! i \<in> left_in v k info" using i assms(2) by (simp add: left_in_def)
  show L: "left_in v k info' = left_in v k info - {candidates info ! i}" using P(2) assms(2) by (simp add: left_in_def info'_def)
  have "finite (left_in v k info)" using assms(2) by (simp add: left_in_def)
  then have "int (card (left_in v k info')) = numPeers info'"
    using mem assms(1) card_gt_0_iff [of "left_in v k info"] unfolding L by (auto simp: info_ok_def info'_def)
  moreover have "strategy info' = ST_COPY" "distinct (candidates info')" using assms(2) P(3) by (simp_all add: info'_def)
  ultimately show "info_ok v k info'" using assms(1) L by (auto simp: info_ok_def)
qed

lemma info_ok_nocopy:
  assumes "info_ok v k info" "strategy info = ST_NOCOPY" "p \<in> set (slot_peers v k)" "Some p \<notin> selected info"
  defines "info' \<equiv> info\<lparr>selected := insert (Some p) (selected info), numPeers := numPeers info - 1\<rparr>"
  shows "info_ok v k info'" "p \<in> left_in v k info" "left_in v k info' = left_in v k info - {p}"
proof -
  show mem: "p \<in> left_in v k info" using assms by (simp add: left_in_def)
  show L: "left_in v k info' = left_in v k info - {p}" using assms(2) by (auto simp: left_in_def info'_def)
  have "finite (left_in v k info)" using assms(2) by (simp add: left_in_def)
  then have "int (card (left_in v k info')) = numPeers info'"
    using mem assms(1) card_gt_0_iff [of "left_in v k info"] unfolding L by (auto simp: info_ok_def info'_def)
  moreover have "strategy info' = ST_NOCOPY" using assms(2) by (simp add: info'_def)
  moreover have "slot_peers v k \<noteq> []" using assms(3) by auto
  ultimately show "info_ok v k info'" using assms(1) L by (auto simp: info_ok_def)
qed

lemma selectPeer_takes:
  assumes inv: "helper_inv n h" and pid: "- 1 \<le> pid" "pid < int n" and run: "selectPeer h pid rs = Inr (res, h', rs')"
  shows "takes n (slot_of n pid) h res h'" "res = None \<Longrightarrow> rs' = rs"
proof -
  let ?k = "slot_of n pid" and ?v = "h_isp_peers h"
  note H = helper_infoD [OF inv pid]
  obtain info where c: "choose_strategy ?v (h_total_peers h) pid (m_pidinfo h ! ?k) = (info, True)" "info_ok ?v ?k info"
      "left_in ?v ?k info = left_at h ?k" "strategy info \<noteq> ST_UNKNOWN"
    using choose_strategy_spec [OF H(5) pid H(4)] unfolding left_at_def by metis
  note S = set_info_inv [OF inv H(2)]
  have "takes n ?k h res h' \<and> (res = None \<longrightarrow> rs' = rs)"
  proof (cases "strategy info = ST_COPY")
    case True
    show ?thesis
    proof (cases "candidates info = []")
      case e: True
      with True c H run have "res = None" "h' = set_info h (int ?k) info" "rs' = rs" by (simp_all add: selectPeer_def)
      moreover have "left_in ?v ?k info = {}" using True e by (simp add: left_in_def)
      ultimately show ?thesis using S [OF c(2)] c(3) by (auto simp: takes_def H(2))
    next
      case False
      with True c H run obtain r where r: "rs = r # rs'" "res = Some (candidates info ! (r mod length (candidates info)))"
          "h' = set_info h (int ?k) (info\<lparr>candidates := snd (pop_at (candidates info) (r mod length (candidates info))), numPeers := numPeers info - 1\<rparr>)"
        by (cases rs) (auto simp: selectPeer_def pop_at_def)
      note I = info_ok_copy [OF c(2) True False, of r]
      show ?thesis using S [OF I(1)] I(2,3) c(3) H(2) by (simp add: takes_def r)
    qed
  next
    case False
    then have st: "strategy info = ST_NOCOPY" using c(4) by (cases "strategy info") simp_all
    with c H run obtain sel where r: "nocopy_loop ?v pid (selected info) rs = Inr (res, rs')"
        "h' = set_info h (int ?k) (info\<lparr>selected := insert res (selected info), numPeers := numPeers info - 1\<rparr>)"
      by (auto simp: selectPeer_def bindE_eq_Inr)
    note N = nocopy_loop_spec [OF r(1)]
    show ?thesis
    proof -
      have "slot_peers ?v ?k \<noteq> []" using c(2) st by (simp add: info_ok_def)
      then obtain i where i: "res = Some (slot_peers ?v ?k ! i)" "i < length (slot_peers ?v ?k)"
        using N fresh_queries(3) [OF H(5) pid] by (auto simp: Let_def)
      then have p: "slot_peers ?v ?k ! i \<in> set (slot_peers ?v ?k)" "Some (slot_peers ?v ?k ! i) \<notin> selected info" using N by auto
      note I = info_ok_nocopy [OF c(2) st p]
      show ?thesis using S [OF I(1)] I(2,3) c(3) H(2) N by (simp add: takes_def r(2) i(1))
    qed
  qed
  then show "takes n ?k h res h'" "res = None \<Longrightarrow> rs' = rs" by blast+
qed

text \<open>It returns whenever a draw hits a peer that is left, and any draw does when the PID is small.\<close>

lemma selectPeer_returns:
  assumes inv: "helper_inv n h" and pid: "- 1 \<le> pid" "pid < int n"
    and r: "r \<in> set rs" "slot_peers (h_isp_peers h) (slot_of n pid) ! (r mod length (slot_peers (h_isp_peers h) (slot_of n pid))) \<in> left_at h (slot_of n pid)"
  shows "\<exists>p h' rs'. selectPeer h pid rs = Inr (Some p, h', rs')"
proof -
  let ?k = "slot_of n pid" and ?v = "h_isp_peers h"
  note H = helper_infoD [OF inv pid]
  obtain info where c: "choose_strategy ?v (h_total_peers h) pid (m_pidinfo h ! ?k) = (info, True)" "info_ok ?v ?k info"
      "left_in ?v ?k info = left_at h ?k" "strategy info \<noteq> ST_UNKNOWN"
    using choose_strategy_spec [OF H(5) pid H(4)] unfolding left_at_def by metis
  show ?thesis
  proof (cases "strategy info = ST_COPY")
    case True
    then have "candidates info \<noteq> []" using r(2) c(3) by (auto simp: left_in_def)
    with True c H r(1) show ?thesis by (cases rs) (auto simp: selectPeer_def pop_at_def)
  next
    case False
    then have st: "strategy info = ST_NOCOPY" using c(4) by (cases "strategy info") simp_all
    have ne: "slot_peers ?v ?k \<noteq> []" using c(2) st by (simp add: info_ok_def)
    have "view_getRandomPeer r ?v pid \<notin> selected info"
      using r(2) c(3) st ne fresh_queries(3) [OF H(5) pid, of r] by (auto simp: Let_def left_in_def)
    from nocopy_loop_returns [OF r(1) this] obtain p rs' where p: "nocopy_loop ?v pid (selected info) rs = Inr (p, rs')" by blast
    with nocopy_loop_spec [OF p] ne fresh_queries(3) [OF H(5) pid] obtain q where "p = Some q" by (auto simp: Let_def)
    with p st c H show ?thesis by (auto simp: selectPeer_def)
  qed
qed

section \<open>The selection from several PIDs\<close>

text \<open>The peers left that have a PID, and those of given PIDs.\<close>

definition all_left :: "nat \<Rightarrow> 'f selection_helper \<Rightarrow> nat set" where
  "all_left n h = (\<Union>k\<in>{..<n}. left_at h k)"

definition pids_left :: "int list \<Rightarrow> 'f selection_helper \<Rightarrow> nat set" where
  "pids_left pids h = (\<Union>pid\<in>set pids. left_at h (nat pid))"

lemma left_at_sub: "helper_inv n h \<Longrightarrow> k \<le> n \<Longrightarrow> left_at h k \<subseteq> set (slot_peers (h_isp_peers h) k)"
  by (simp add: helper_inv_def left_at_def info_ok_def)

lemma left_at_disjoint: "helper_inv n h \<Longrightarrow> k \<le> n \<Longrightarrow> j \<le> n \<Longrightarrow> p \<in> left_at h k \<Longrightarrow> p \<in> left_at h j \<Longrightarrow> k = j"
  using left_at_sub [of n h] slots_disjoint [of n "h_isp_peers h" k j p] by (auto simp: helper_inv_def subset_iff)

lemma takes_left:
  assumes T: "takes n k h (Some p) h'" and "helper_inv n h" "k \<le> n" "j \<le> n"
  shows "left_at h' j = left_at h j - {p}"
  using assms left_at_disjoint [of n h k j p] by (cases "j = k") (auto simp: takes_def)

lemma takes_all:
  assumes "takes n k h (Some p) h'" "helper_inv n h" "k < n"
  shows "all_left n h' = all_left n h - {p}" "p \<in> all_left n h"
proof -
  show "all_left n h' = all_left n h - {p}" using takes_left [OF assms(1,2)] assms(3) by (auto simp: all_left_def)
  show "p \<in> all_left n h" using assms(1,3) by (auto simp: takes_def all_left_def)
qed

lemma takes_none:
  assumes "takes n k h None h'" "k \<le> n" "j \<le> n"
  shows "left_at h' j = left_at h j"
  using assms by (cases "j = k") (auto simp: takes_def)

lemma pidinfo_at_left:
  assumes "helper_inv n h" "0 \<le> pid" "pid < int n"
  shows "\<exists>info. pidinfo_at h pid = Inr info \<and> numPeers info = int (card (left_at h (nat pid)))"
  using helper_infoD(3,4) [OF assms(1), of pid] assms(2,3) by (auto simp: slot_of_def info_ok_def left_at_def)

lemma pid_le: "set pids \<subseteq> {0..<int n} \<Longrightarrow> pid \<in> set pids \<Longrightarrow> nat pid < n"
  by (auto simp: subset_iff nat_less_iff dest!: bspec)

lemma sum_peers_spec:
  assumes "helper_inv n h" "set pids \<subseteq> {0..<int n}"
  shows "sum_peers h pids = Inr (\<Sum>pid\<leftarrow>pids. int (card (left_at h (nat pid))))"
  using assms(2)
proof (induction pids)
  case (Cons pid pids)
  then show ?case using pidinfo_at_left [OF assms(1), of pid] by auto
qed simp

lemma pick_pid_spec:
  assumes "helper_inv n h" "set pids \<subseteq> {0..<int n}" "0 \<le> coin" "coin < (\<Sum>pid\<leftarrow>pids. int (card (left_at h (nat pid))))"
  shows "\<exists>pid\<in>set pids. pick_pid h pids coin = Inr pid \<and> left_at h (nat pid) \<noteq> {}"
  using assms
proof (induction h pids coin rule: pick_pid.induct)
  case (3 h pid q pids coin)
  obtain info where i: "pidinfo_at h pid = Inr info" "numPeers info = int (card (left_at h (nat pid)))"
    using pidinfo_at_left [OF 3(2), of pid] 3(3) by auto
  show ?case
  proof (cases "coin - numPeers info < 0")
    case True
    then show ?thesis using i 3(4) by auto
  next
    case False
    then show ?thesis using 3(1) [OF False 3(2)] 3(3,5) i by auto
  qed
qed auto

lemma selectPeer_pids_takes:
  assumes inv: "helper_inv n h" and pids: "set pids \<subseteq> {0..<int n}" and run: "selectPeer_pids h pids rs = Inr (res, h', rs')"
  shows "res = None \<and> h' = h \<and> pids_left pids h = {} \<or> (\<exists>pid\<in>set pids. \<exists>p. res = Some p \<and> takes n (nat pid) h res h')"
proof -
  let ?s = "\<Sum>pid\<leftarrow>pids. int (card (left_at h (nat pid)))"
  note S = sum_peers_spec [OF inv pids]
  show ?thesis
  proof (cases "?s \<le> 0")
    case True
    then have "card (left_at h (nat pid)) = 0" if "pid \<in> set pids" for pid
      using that sum_list_nonneg_eq_0_iff [of "map (\<lambda>pid. int (card (left_at h (nat pid)))) pids"] sum_list_nonneg [of "map (\<lambda>pid. int (card (left_at h (nat pid)))) pids"]
      by fastforce
    moreover have "finite (left_at h (nat pid))" if "pid \<in> set pids" for pid
      using finite_subset [OF left_at_sub [OF inv less_imp_le [OF pid_le [OF pids that]]]] by simp
    ultimately have "pids_left pids h = {}" by (auto simp: pids_left_def)
    with True run S show ?thesis by (auto simp: selectPeer_pids_def)
  next
    case False
    then obtain r rs1 where r: "rs = r # rs1" using run S by (cases rs) (auto simp: selectPeer_pids_def)
    have "0 \<le> int r mod ?s" "int r mod ?s < ?s" using False by simp_all
    from pick_pid_spec [OF inv pids this] obtain pid where
      p: "pid \<in> set pids" "pick_pid h pids (int r mod ?s) = Inr pid" "left_at h (nat pid) \<noteq> {}" by blast
    have b: "- 1 \<le> pid" "pid < int n" and sl: "slot_of n pid = nat pid" using p(1) pids by (auto simp: slot_of_def)
    have "selectPeer h pid rs1 = Inr (res, h', rs')" using run S False p r by (simp add: selectPeer_pids_def)
    from selectPeer_takes(1) [OF inv b this] sl have T: "takes n (nat pid) h res h'" by simp
    with p(3) have "res \<noteq> None" by (auto simp: takes_def)
    with T p(1) show ?thesis by blast
  qed
qed

section \<open>The contract of the loops\<close>

text \<open>
  \<open>avail\<close> are the peers that were not given out, \<open>mine\<close> those of them that \<open>sel\<close> chooses from.
\<close>

locale peer_source =
  fixes sel :: "'h \<Rightarrow> nat list \<Rightarrow> (nat option \<times> 'h \<times> nat list) result"
    and ok :: "'h \<Rightarrow> bool" and avail :: "'h \<Rightarrow> nat set" and mine :: "'h \<Rightarrow> nat set"
  assumes mine_avail: "ok h \<Longrightarrow> mine h \<subseteq> avail h"
    and sel_Some: "ok h \<Longrightarrow> sel h rs = Inr (Some p, h', rs') \<Longrightarrow> ok h' \<and> p \<in> mine h \<and> avail h' = avail h - {p} \<and> mine h' = mine h - {p}"
    and sel_None: "ok h \<Longrightarrow> sel h rs = Inr (None, h', rs') \<Longrightarrow> ok h' \<and> mine h = {} \<and> avail h' = avail h \<and> mine h' = {}"
begin

lemma fill_from_spec:
  assumes "ok h" "fill_from sel m h out rs = Inr (h', out', rs')"
  shows "\<exists>ps. out' = out @ ps \<and> distinct ps \<and> set ps \<subseteq> mine h \<and> avail h' = avail h - set ps \<and> mine h' = mine h - set ps \<and>
    ok h' \<and> length ps \<le> m \<and> (length ps = m \<or> mine h' = {})"
  using assms
proof (induction m arbitrary: h out rs)
  case (Suc m)
  obtain res h1 rs1 where s: "sel h rs = Inr (res, h1, rs1)" using Suc.prems(2) by (auto simp: bindE_eq_Inr)
  show ?case
  proof (cases res)
    case None
    with s Suc.prems sel_None [OF Suc.prems(1), of rs h1 rs1] show ?thesis by (intro exI [of _ "[]"]) auto
  next
    case (Some p)
    note P = sel_Some [OF Suc.prems(1) s [unfolded Some]]
    from P Suc.prems(2) s Some have "fill_from sel m h1 (out @ [p]) rs1 = Inr (h', out', rs')" by simp
    from Suc.IH [OF _ this] P obtain ps where
      "out' = out @ [p] @ ps" "distinct ps" "set ps \<subseteq> mine h1" "avail h' = avail h1 - set ps" "mine h' = mine h1 - set ps"
      "ok h'" "length ps \<le> m" "length ps = m \<or> mine h' = {}" by auto
    with P show ?thesis by (intro exI [of _ "p # ps"]) auto
  qed
qed (auto intro: exI [of _ "[]"])

end

interpretation one_pid: peer_source "\<lambda>h. selectPeer h pid" "\<lambda>h. helper_inv n h \<and> 0 \<le> pid \<and> pid < int n"
  "all_left n" "\<lambda>h. left_at h (nat pid)" for n pid
proof (unfold_locales, goal_cases)
  case (1 h)
  then have "nat pid \<in> {..<n}" by (simp add: nat_less_iff)
  then show ?case by (auto simp: all_left_def)
next
  case (2 h rs p h' rs')
  then have k: "nat pid < n" and T: "takes n (nat pid) h (Some p) h'"
    using selectPeer_takes(1) [of n h pid rs "Some p" h' rs'] by (auto simp: slot_of_def)
  from takes_all [OF T _ k] 2 T show ?case by (auto simp: takes_def)
next
  case (3 h rs h' rs')
  then have k: "nat pid \<le> n" and T: "takes n (nat pid) h None h'"
    using selectPeer_takes(1) [of n h pid rs None h' rs'] by (auto simp: slot_of_def)
  from takes_none [OF T k] 3 T show ?case by (auto simp: takes_def all_left_def)
qed

interpretation many_pids: peer_source "\<lambda>h. selectPeer_pids h pids" "\<lambda>h. helper_inv n h \<and> set pids \<subseteq> {0..<int n}"
  "all_left n" "pids_left pids" for n pids
proof (unfold_locales, goal_cases)
  case (1 h)
  then have "nat pid < n" if "pid \<in> set pids" for pid using pid_le that by blast
  then show ?case by (auto simp: all_left_def pids_left_def)
next
  case (2 h rs p h' rs')
  then obtain pid where p: "pid \<in> set pids" "takes n (nat pid) h (Some p) h'"
    using selectPeer_pids_takes [of n h pids rs "Some p" h' rs'] by auto
  then have k: "nat pid < n" using 2 pid_le by blast
  have "left_at h' (nat pid) = left_at h (nat pid) - {p}" if "pid \<in> set pids" for pid
    using takes_left [OF p(2) _ less_imp_le [OF k] less_imp_le [OF pid_le [OF _ that]]] 2 by blast
  then have "pids_left pids h' = pids_left pids h - {p}" by (auto simp: pids_left_def)
  with takes_all [OF p(2) _ k] 2 p show ?case by (auto simp: takes_def pids_left_def)
next
  case (3 h rs h' rs')
  then show ?case using selectPeer_pids_takes [of n h pids rs None h' rs'] by auto
qed

text \<open>The loop over the home PID gives out other peers than the one that asks, who may be used up.\<close>

lemma intrapid_loop_spec:
  assumes "helper_inv n h" "0 \<le> pid" "pid < int n" "intrapid_loop self pid m h out rs = Inr (h', out', rs')"
  shows "\<exists>ps sk. out' = out @ ps \<and> distinct ps \<and> self \<notin> set ps \<and> sk \<subseteq> {self} \<and> set ps \<subseteq> left_at h (nat pid) \<and>
    all_left n h' = all_left n h - set ps - sk \<and> helper_inv n h' \<and>
    length ps \<le> m \<and> (length ps = m \<or> left_at h' (nat pid) = {})"
  using assms
proof (induction self pid m h out rs rule: intrapid_loop.induct)
  case (1 self pid m h out rs)
  note unfold = intrapid_loop.simps [of self pid m h out rs]
  show ?case
  proof (cases "m = 0")
    case True
    with 1 unfold show ?thesis by (intro exI [of _ "[]"] exI [of _ "{}"]) simp
  next
    case False
    with 1 unfold obtain res h1 rs1 where s: "selectPeer h pid rs = Inr (res, h1, rs1)"
      by (cases "selectPeer h pid rs") auto
    have sl: "slot_of n pid = nat pid" "nat pid \<le> n" "nat pid < n" using 1(4,5) by (auto simp: slot_of_def)
    have T: "takes n (nat pid) h res h1" using selectPeer_takes(1) [OF 1(3) _ 1(5) s] 1(4) sl by simp
    have inv1: "helper_inv n h1" "h_isp_peers h1 = h_isp_peers h" using T by (simp_all add: takes_def)
    show ?thesis
    proof (cases res)
      case None
      with False 1 unfold s T takes_none [OF T [unfolded None] sl(2)] show ?thesis
        by (intro exI [of _ "[]"] exI [of _ "{}"]) (auto simp: takes_def all_left_def)
    next
      case (Some p)
      note A = takes_all [OF T [unfolded Some] 1(3) sl(3)] and L = takes_left [OF T [unfolded Some] 1(3) sl(2) sl(2)]
      have mem: "p \<in> left_at h (nat pid)" using T Some by (simp add: takes_def)
      show ?thesis
      proof (cases "p = self")
        case True
        with False Some s unfold 1(6) have "intrapid_loop self pid m h1 out rs1 = Inr (h', out', rs')" by simp
        from 1(1) [OF False s refl refl Some True inv1(1) 1(4,5) this] obtain ps sk where
          "out' = out @ ps" "distinct ps" "self \<notin> set ps" "sk \<subseteq> {self}" "set ps \<subseteq> left_at h1 (nat pid)"
          "all_left n h' = all_left n h1 - set ps - sk" "helper_inv n h'"
          "length ps \<le> m" "length ps = m \<or> left_at h' (nat pid) = {}" by blast
        with A L inv1 True show ?thesis by (intro exI [of _ ps] exI [of _ "{self}"]) auto
      next
        case other: False
        with False Some s unfold 1(6) have "intrapid_loop self pid (m - 1) h1 (out @ [p]) rs1 = Inr (h', out', rs')" by simp
        from 1(2) [OF False s refl refl Some other inv1(1) 1(4,5) this] obtain ps sk where
          "out' = out @ [p] @ ps" "distinct ps" "self \<notin> set ps" "sk \<subseteq> {self}" "set ps \<subseteq> left_at h1 (nat pid)"
          "all_left n h' = all_left n h1 - set ps - sk" "helper_inv n h'"
          "length ps \<le> m - 1" "length ps = m - 1 \<or> left_at h' (nat pid) = {}" by auto
        with A L inv1 other mem False show ?thesis by (intro exI [of _ "p # ps"] exI [of _ sk]) auto
      qed
    qed
  qed
qed

section \<open>Sequences of selections\<close>

inductive helper_run :: "'f peer_view \<Rightarrow> nat \<Rightarrow> u32 \<Rightarrow> 'f selection_helper \<Rightarrow> nat list \<Rightarrow> bool" for v n tot where
  start: "helper_run v n tot (PIDPeerSelectionHelper v n tot) []"
| one: "helper_run v n tot h ps \<Longrightarrow> - 1 \<le> pid \<Longrightarrow> pid < int n \<Longrightarrow> selectPeer h pid rs = Inr (res, h', rs') \<Longrightarrow>
    helper_run v n tot h' (ps @ (case res of None \<Rightarrow> [] | Some p \<Rightarrow> [p]))"
| many: "helper_run v n tot h ps \<Longrightarrow> set pids \<subseteq> {0..<int n} \<Longrightarrow> selectPeer_pids h pids rs = Inr (res, h', rs') \<Longrightarrow>
    helper_run v n tot h' (ps @ (case res of None \<Rightarrow> [] | Some p \<Rightarrow> [p]))"

lemma helper_run_step:
  assumes "helper_inv n h" "k \<le> n" "takes n k h res h'" "\<forall>j\<le>n. left_at h j = set (slot_peers v j) - set ps" "distinct ps" "h_isp_peers h = v"
  defines "ps' \<equiv> ps @ (case res of None \<Rightarrow> [] | Some p \<Rightarrow> [p])"
  shows "helper_inv n h' \<and> h_isp_peers h' = v \<and> distinct ps' \<and> (\<forall>j\<le>n. left_at h' j = set (slot_peers v j) - set ps')"
proof (cases res)
  case None
  then have "left_at h' j = left_at h j" if "j \<le> n" for j using takes_none [OF _ assms(2) that] assms(3) by blast
  with None assms show ?thesis by (simp add: takes_def)
next
  case (Some p)
  have L: "left_at h' j = left_at h j - {p}" if "j \<le> n" for j using takes_left [OF _ assms(1,2) that] assms(3) Some by blast
  have "p \<notin> set ps" using Some assms(2,3,4) by (auto simp: takes_def)
  with Some L assms show ?thesis by (auto simp: takes_def)
qed

lemma helper_run_inv:
  assumes "helper_run v n tot h ps" "view_fresh n v"
  shows "helper_inv n h \<and> h_isp_peers h = v \<and> distinct ps \<and> (\<forall>j\<le>n. left_at h j = set (slot_peers v j) - set ps)"
  using assms
proof (induction rule: helper_run.induct)
  case start
  then show ?case using helper_start(1) [of n v tot] helper_start(2) [of n v _ tot] by (simp add: PIDPeerSelectionHelper_def)
next
  case (one h ps pid rs res h' rs')
  then show ?case using helper_run_step [of n h "slot_of n pid" res h' v ps] selectPeer_takes(1) [of n h pid rs res h' rs'] helper_infoD(2) [of n h pid]
    by blast
next
  case (many h ps pids rs res h' rs')
  then have "res = None \<and> h' = h \<or> (\<exists>pid\<in>set pids. takes n (nat pid) h res h')"
    using selectPeer_pids_takes [of n h pids rs res h' rs'] by auto
  then show ?case
  proof
    assume "\<exists>pid\<in>set pids. takes n (nat pid) h res h'"
    then show ?thesis using many helper_run_step [of n h _ res h' v ps] less_imp_le [OF pid_le] by blast
  qed (use many in auto)
qed

end
