(* ===== verification/Guidance_Options.thy ===== *)
theory Guidance_Options
  imports Complex_Main P4P_Prelude "HOL-Library.Product_Lexorder"
begin

text \<open>
  \<open>common/cpp/src/lib/peering_guidance_matrix_opts.cpp\<close>: the options of a guidance matrix and their
  order, by which matrices are shared. A \<open>double\<close> or \<open>float\<close> is the rational number it stands for;
  infinities and NaN are not modelled. Where the sources compute with doubles the model takes the rounding
  of a result to a double as an argument.
\<close>

type_synonym double = rat

datatype opt_type = OPT_LOCATION_ONLY | OPT_FILESHARING_MATCHING | OPT_STREAMING_SSM | OPT_STREAMING_SSMCM

fun opt_rank :: "opt_type \<Rightarrow> nat" where
  "opt_rank OPT_LOCATION_ONLY = 0"
| "opt_rank OPT_FILESHARING_MATCHING = 1"
| "opt_rank OPT_STREAMING_SSM = 2"
| "opt_rank OPT_STREAMING_SSMCM = 3"

record pgm_options =
  m_opttype :: opt_type
  m_matching_uses_swarm_state :: bool
  m_overload_protection_factor :: double
  m_use_optengine_ttl :: bool
  m_recompute_interval :: int
  m_streamingdependent_channelrate :: double
  m_intrapid_pct :: double
  m_intraisp_pct :: double

definition PeeringGuidanceMatrixOptions :: pgm_options where
  "PeeringGuidanceMatrixOptions = \<lparr>m_opttype = OPT_FILESHARING_MATCHING, m_matching_uses_swarm_state = False,
     m_overload_protection_factor = 0, m_use_optengine_ttl = True, m_recompute_interval = 5 * 60,
     m_streamingdependent_channelrate = 48000, m_intrapid_pct = 3 / 4, m_intraisp_pct = 9 / 10\<rparr>"

definition setLocationSelectionPercentage :: "pgm_options \<Rightarrow> double \<Rightarrow> double \<Rightarrow> pgm_options" where
  "setLocationSelectionPercentage opts intrapid_pct intraisp_pct = opts\<lparr>
     m_intrapid_pct := (if intrapid_pct < 0 \<or> intrapid_pct > intraisp_pct then m_intrapid_pct opts else intrapid_pct),
     m_intraisp_pct := (if intraisp_pct < intrapid_pct \<or> intraisp_pct > 99 / 100 then m_intraisp_pct opts else intraisp_pct)\<rparr>"

definition LocationOnly :: "double \<Rightarrow> double \<Rightarrow> pgm_options" where
  "LocationOnly intrapid_pct intraisp_pct =
     (setLocationSelectionPercentage (PeeringGuidanceMatrixOptions\<lparr>m_opttype := OPT_LOCATION_ONLY, m_use_optengine_ttl := False\<rparr>)
        intrapid_pct intraisp_pct)\<lparr>m_recompute_interval := 0\<rparr>"

definition FilesharingGeneric :: pgm_options where
  "FilesharingGeneric = PeeringGuidanceMatrixOptions\<lparr>m_recompute_interval := 7 * 24 * 60 * 60\<rparr>"

definition FilesharingSwarmDependent :: pgm_options where
  "FilesharingSwarmDependent = PeeringGuidanceMatrixOptions\<lparr>m_matching_uses_swarm_state := True, m_overload_protection_factor := 3 / 2\<rparr>"

definition StreamingSwarmDependent :: "double \<Rightarrow> opt_type \<Rightarrow> pgm_options" where
  "StreamingSwarmDependent channel_rate opt_type = PeeringGuidanceMatrixOptions\<lparr>m_opttype := opt_type, m_matching_uses_swarm_state := True,
     m_overload_protection_factor := 3 / 2, m_streamingdependent_channelrate := channel_rate\<rparr>"

definition isSwarmDependent :: "pgm_options \<Rightarrow> bool" where
  "isSwarmDependent opts = (if m_matching_uses_swarm_state opts then True else if m_overload_protection_factor opts > 0 then True else False)"

text \<open>\<open>operator==\<close> compares three of the fields, \<open>operator<\<close> six.\<close>

definition opts_eq :: "pgm_options \<Rightarrow> pgm_options \<Rightarrow> bool" where
  "opts_eq a b \<longleftrightarrow> m_opttype a = m_opttype b \<and> m_matching_uses_swarm_state a = m_matching_uses_swarm_state b \<and>
     m_overload_protection_factor a = m_overload_protection_factor b"

definition opts_less :: "pgm_options \<Rightarrow> pgm_options \<Rightarrow> bool" where
  "opts_less a b =
     (if opt_rank (m_opttype a) < opt_rank (m_opttype b) then True
      else if opt_rank (m_opttype a) > opt_rank (m_opttype b) then False
      else if m_matching_uses_swarm_state a < m_matching_uses_swarm_state b then True
      else if m_matching_uses_swarm_state a > m_matching_uses_swarm_state b then False
      else if m_overload_protection_factor a < m_overload_protection_factor b then True
      else if m_overload_protection_factor a > m_overload_protection_factor b then False
      else if m_streamingdependent_channelrate a < m_streamingdependent_channelrate b then True
      else if m_streamingdependent_channelrate a > m_streamingdependent_channelrate b then False
      else if m_intrapid_pct a < m_intrapid_pct b then True
      else if m_intrapid_pct a > m_intrapid_pct b then False
      else if m_intraisp_pct a < m_intraisp_pct b then True
      else if m_intraisp_pct a > m_intraisp_pct b then False
      else False)"

definition opts_greater :: "pgm_options \<Rightarrow> pgm_options \<Rightarrow> bool" where
  "opts_greater a b = opts_less b a"

section \<open>The order is that of a key\<close>

type_synonym opts_key = "nat \<times> bool \<times> double \<times> double \<times> double \<times> double"

definition opts_key :: "pgm_options \<Rightarrow> opts_key" where
  "opts_key a = (opt_rank (m_opttype a), m_matching_uses_swarm_state a, m_overload_protection_factor a,
     m_streamingdependent_channelrate a, m_intrapid_pct a, m_intraisp_pct a)"

lemma opts_less_key: "opts_less a b \<longleftrightarrow> opts_key a < opts_key b"
  by (simp add: opts_less_def opts_key_def less_prod_def' not_less)

lemma opt_rank_inject: "opt_rank a = opt_rank b \<longleftrightarrow> a = b"
  by (cases a; cases b) simp_all

lemma opts_key_dependent: "opts_key a = opts_key b \<Longrightarrow> isSwarmDependent a = isSwarmDependent b"
  by (simp add: opts_key_def isSwarmDependent_def)

lemma opts_key_eq: "opts_key a = opts_key b \<Longrightarrow> opts_eq a b"
  by (simp add: opts_key_def opts_eq_def opt_rank_inject)

text \<open>
  When the percentages of \<open>LocationOnly\<close> are in order: not when the share of the PID is above nine
  tenths while the share of the ISP is rejected, and not when the share of the PID is rejected for being
  negative while the share of the ISP is taken.
\<close>

lemma location_percentages:
  "m_intrapid_pct (LocationOnly i j) \<le> m_intraisp_pct (LocationOnly i j) \<longleftrightarrow>
     \<not> (9 / 10 < i \<and> i \<le> j \<and> 99 / 100 < j) \<and> \<not> (i < 0 \<and> i \<le> j \<and> j < 3 / 4)"
  by (auto simp: LocationOnly_def setLocationSelectionPercentage_def PeeringGuidanceMatrixOptions_def)

end
