(* ===== verification/Guidance_Matrix.thy ===== *)
theory Guidance_Matrix
  imports Guidance_Options Swarm_State
begin

text \<open>
  \<open>common/cpp/src/lib/peering_guidance_matrix.cpp\<close> and \<open>peering_guidance_matrix_manager.cpp\<close>: guidance
  matrices and the manager that shares and counts them. The optimization engine is an argument, a
  function from what is requested to the parsed reply, or none when the request throws. Matrices and
  their containers are objects with addresses; the addresses of new objects are arguments.
\<close>

section \<open>The matrix\<close>

type_synonym proto_swarm = "(pid, double pid_state) smap"

datatype aoe_request =
    Generic "pid list"
  | Custom proto_swarm
  | Streaming string double proto_swarm

record aoe_reply =
  aoe_weights :: "double pid_matrix"
  aoe_intrapid :: "(pid, double) smap"
  aoe_intradomain :: "(pid, double) smap"
  aoe_ttl :: int

text \<open>The engine: its address, the address of the portal and the request.\<close>

type_synonym aoe_engine = "string \<times> nat \<Rightarrow> string \<times> nat \<Rightarrow> aoe_request \<Rightarrow> aoe_reply option"

definition pct_val :: "(pid, double) smap \<Rightarrow> pid \<Rightarrow> double" where
  "pct_val pcts p = (case smap_find pcts p of None \<Rightarrow> 0 | Some x \<Rightarrow> x)"

record guidance_matrix =
  g_proto :: "string \<times> nat"
  g_isp :: nat
  g_swarm_state :: "double swarm_state"
  m_intrapid_pcts :: "double list"
  m_intraisp_pcts :: "double list"
  m_weights :: "double list list"
  m_last_computed :: int
  m_optengine_ttl :: int
  m_last_pdist_time :: int
  g_options :: pgm_options

definition PeeringGuidanceMatrix :: "nat \<Rightarrow> string \<Rightarrow> nat \<Rightarrow> guidance_matrix" where
  "PeeringGuidanceMatrix i addr port = \<lparr>g_proto = (addr, port), g_isp = i, g_swarm_state = SwarmState 0,
     m_intrapid_pcts = [], m_intraisp_pcts = [], m_weights = [], m_last_computed = 0, m_optengine_ttl = 7 * 24 * 60 * 60,
     m_last_pdist_time = 0, g_options = PeeringGuidanceMatrixOptions\<rparr>"

text \<open>The constructor without an engine throws.\<close>

definition PeeringGuidanceMatrix_local :: "nat \<Rightarrow> guidance_matrix result" where
  "PeeringGuidanceMatrix_local i = Inl (Runtime_Error ''Not currently supported'')"

text \<open>The code, the two percentages and the weights, where they are written.\<close>

definition getWeights :: "guidance_matrix \<Rightarrow> int \<Rightarrow> (int \<times> (double \<times> double) option \<times> double list option) result" where
  "getWeights m src_pid =
     (if m_opttype (g_options m) = OPT_LOCATION_ONLY
      then Inr (0, Some (m_intrapid_pct (g_options m), m_intraisp_pct (g_options m)), None)
      else if src_pid < 0 \<or> length (m_weights m) \<le> nat src_pid then Inr (ERR_UNKNOWN_PID, None, None)
      else bindE (nthE (m_intrapid_pcts m) (nat src_pid)) (\<lambda>a. bindE (nthE (m_intraisp_pcts m) (nat src_pid)) (\<lambda>b.
        Inr (0, Some (a, b), Some (m_weights m ! nat src_pid)))))"

definition dm_getPortalAddr :: "isp_pdistmap \<Rightarrow> string" where
  "dm_getPortalAddr m = (case dm_proto m of Some (addr, port) \<Rightarrow> addr | None \<Rightarrow> [])"

definition dm_getPortalPort :: "isp_pdistmap \<Rightarrow> nat" where
  "dm_getPortalPort m = (case dm_proto m of Some (addr, port) \<Rightarrow> port | None \<Rightarrow> 0)"

text \<open>The swarm state sent to the engine; \<open>i2f\<close> is the conversion of an error code to \<open>float\<close>.\<close>

fun proto_swarm_state :: "(int \<Rightarrow> double) \<Rightarrow> pid list \<Rightarrow> double swarm_state \<Rightarrow> nat \<Rightarrow> proto_swarm \<Rightarrow> proto_swarm" where
  "proto_swarm_state i2f [] s i acc = acc"
| "proto_swarm_state i2f (p # pids) s i acc = proto_swarm_state i2f pids s (Suc i) (smap_put p
     \<lparr>num_seeds = of_int (getNumSeeds s (int i)), num_leechers = of_int (getNumLeechers s (int i)),
      upload_cap = getUploadCapacity i2f s (int i), download_cap = getDownloadCapacity i2f s (int i),
      upload_rate = getUploadRate i2f s (int i), download_rate = getDownloadRate i2f s (int i),
      num_active_peers = of_int (getNumActivePeers s (int i))\<rparr> acc)"

abbreviation (input) ERR_INVALID_SWARM_STATE :: int where "ERR_INVALID_SWARM_STATE \<equiv> - 100"
abbreviation (input) ERR_GUIDANCE_UNAVAILABLE :: int where "ERR_GUIDANCE_UNAVAILABLE \<equiv> - 101"
abbreviation (input) ERR_INVALID_GUIDANCE_MATRIX :: int where "ERR_INVALID_GUIDANCE_MATRIX \<equiv> - 103"
abbreviation (input) ERR_INVALID_OPT_TYPE :: int where "ERR_INVALID_OPT_TYPE \<equiv> - 104"

text \<open>What is requested for the options; none for the type without a request.\<close>

definition aoe_request_of :: "(int \<Rightarrow> double) \<Rightarrow> pgm_options \<Rightarrow> pid list \<Rightarrow> double swarm_state \<Rightarrow> aoe_request option" where
  "aoe_request_of i2f opts pids s =
     (if m_matching_uses_swarm_state opts then
        (let ps = proto_swarm_state i2f pids s 0 [] in
         case m_opttype opts of
           OPT_FILESHARING_MATCHING \<Rightarrow> Some (Custom ps)
         | OPT_STREAMING_SSM \<Rightarrow> Some (Streaming ''ssm'' (m_streamingdependent_channelrate opts) ps)
         | OPT_STREAMING_SSMCM \<Rightarrow> Some (Streaming ''ssmcm'' (m_streamingdependent_channelrate opts) ps)
         | OPT_LOCATION_ONLY \<Rightarrow> None)
      else Some (Generic pids))"

text \<open>The rows stop at the first PID that is external or invalid; a missing weight is 0.\<close>

definition row_pids :: "pid list \<Rightarrow> pid list" where
  "row_pids pids = takeWhile (\<lambda>p. \<not> (get_external p \<or> pid_eq p PID_INVALID)) pids"

definition weight_row :: "double pid_matrix \<Rightarrow> pid list \<Rightarrow> pid \<Rightarrow> double list" where
  "weight_row w pids p = map (\<lambda>q. case get_value w p q of Inr x \<Rightarrow> x | Inl _ \<Rightarrow> 0) pids"

definition pgm_compute :: "aoe_engine \<Rightarrow> (int \<Rightarrow> double) \<Rightarrow> int \<Rightarrow> isp \<Rightarrow> guidance_matrix \<Rightarrow> guidance_matrix \<times> int" where
  "pgm_compute aoe i2f now s m =
     (let opts = g_options m; pdist_time = dm_lastUpdate (m_pdistmap s); pids = listPIDs (m_pidmap s) in
      if m_opttype opts = OPT_LOCATION_ONLY then (m, 0)
      else if \<not> isSwarmDependent opts \<and> m_last_pdist_time m \<noteq> 0 \<and> m_last_pdist_time m = pdist_time then (m, 0)
      else if pdist_time = 0 then (m, 0)
      else if isSwarmDependent opts \<and> sw_getNumPIDs (g_swarm_state m) \<noteq> length pids then (m, ERR_INVALID_SWARM_STATE)
      else case aoe_request_of i2f opts pids (g_swarm_state m) of
        None \<Rightarrow> (m, ERR_INVALID_OPT_TYPE)
      | Some req \<Rightarrow> (case aoe (g_proto m) (dm_getPortalAddr (m_pdistmap s), dm_getPortalPort (m_pdistmap s)) req of
          None \<Rightarrow> (m, ERR_GUIDANCE_UNAVAILABLE)
        | Some reply \<Rightarrow>
            (m\<lparr>m_weights := map (weight_row (aoe_weights reply) pids) (row_pids pids),
               m_intrapid_pcts := map (pct_val (aoe_intrapid reply)) (row_pids pids),
               m_intraisp_pcts := map (pct_val (aoe_intradomain reply)) (row_pids pids),
               m_last_computed := now, m_optengine_ttl := aoe_ttl reply, m_last_pdist_time := pdist_time\<rparr>, 0)))"

definition pgm_compute_swarm :: "aoe_engine \<Rightarrow> (int \<Rightarrow> double) \<Rightarrow> int \<Rightarrow> isp \<Rightarrow> guidance_matrix \<Rightarrow> double swarm_state \<Rightarrow> guidance_matrix \<times> int" where
  "pgm_compute_swarm aoe i2f now s m state = pgm_compute aoe i2f now s (m\<lparr>g_swarm_state := state\<rparr>)"

definition pgm_getNextComputeTime :: "guidance_matrix \<Rightarrow> int" where
  "pgm_getNextComputeTime m =
     (if m_last_computed m = 0 then 0
      else if m_use_optengine_ttl (g_options m) then m_last_computed m + m_optengine_ttl m
      else m_last_computed m + m_recompute_interval (g_options m))"

section \<open>The manager\<close>

record matrix_key =
  key_isp :: nat
  key_options :: pgm_options
  key_addr :: string
  key_port :: nat

definition key_less :: "matrix_key \<Rightarrow> matrix_key \<Rightarrow> bool" where
  "key_less a b =
     (if key_isp a < key_isp b then True
      else if key_isp a > key_isp b then False
      else if opts_less (key_options a) (key_options b) then True
      else if opts_greater (key_options a) (key_options b) then False
      else if key_addr a < key_addr b then True
      else if key_addr a > key_addr b then False
      else if key_port a < key_port b then True
      else if key_port a > key_port b then False
      else False)"

text \<open>What the order distinguishes; the map is a map over this.\<close>

type_synonym container_key = "nat \<times> opts_key \<times> string \<times> nat"

definition map_key :: "matrix_key \<Rightarrow> container_key" where
  "map_key k = (key_isp k, opts_key (key_options k), key_addr k, key_port k)"

lemma key_less_map_key: "key_less a b \<longleftrightarrow> map_key a < map_key b"
  by (cases "key_isp a" "key_isp b" rule: linorder_cases; cases "opts_key (key_options a)" "opts_key (key_options b)" rule: linorder_cases;
      cases "key_addr a" "key_addr b" rule: linorder_cases)
    (auto simp: key_less_def map_key_def opts_greater_def opts_less_key less_prod_simp)

text \<open>A container holds the address of its matrix and the number of references.\<close>

record container =
  c_matrix :: nat
  m_refcount :: u32

type_synonym containers = "(nat, container) smap"

record pgm_manager =
  m_matrices :: "(container_key, containers) smap"
  mats :: "nat \<Rightarrow> guidance_matrix option"

definition PeeringGuidanceMatrixManager :: pgm_manager where
  "PeeringGuidanceMatrixManager = \<lparr>m_matrices = [], mats = (\<lambda>_. None)\<rparr>"

definition matrix_key_of :: "guidance_matrix \<Rightarrow> matrix_key" where
  "matrix_key_of m = \<lparr>key_isp = g_isp m, key_options = g_options m, key_addr = fst (g_proto m), key_port = snd (g_proto m)\<rparr>"

definition GuidanceMatrixContainer :: "matrix_key \<Rightarrow> guidance_matrix result" where
  "GuidanceMatrixContainer k =
     (if key_addr k \<noteq> [] then Inr ((PeeringGuidanceMatrix (key_isp k) (key_addr k) (key_port k))\<lparr>g_options := key_options k\<rparr>)
      else bindE (PeeringGuidanceMatrix_local (key_isp k)) (\<lambda>m. Inr (m\<lparr>g_options := key_options k\<rparr>)))"

text \<open>\<open>a\<close> holds the addresses of the container and of the matrix, should they be made.\<close>

definition getGuidanceMatrixNoLock :: "nat \<times> nat \<Rightarrow> pgm_manager \<Rightarrow> matrix_key \<Rightarrow> (pgm_manager \<times> nat) result" where
  "getGuidanceMatrixNoLock a g k =
     (let cs = (case smap_find (m_matrices g) (map_key k) of None \<Rightarrow> [] | Some cs \<Rightarrow> cs) in
      if isSwarmDependent (key_options k) \<or> cs = [] then
        bindE (GuidanceMatrixContainer k) (\<lambda>m.
          Inr (g\<lparr>m_matrices := smap_put (map_key k) (smap_put (fst a) \<lparr>c_matrix = snd a, m_refcount = 1\<rparr> cs) (m_matrices g),
                 mats := (mats g)(snd a \<mapsto> m)\<rparr>, snd a))
      else let (c, con) = hd cs in
        Inr (g\<lparr>m_matrices := smap_put (map_key k) (smap_put c (con\<lparr>m_refcount := m_refcount con + 1\<rparr>) cs) (m_matrices g)\<rparr>, c_matrix con))"

text \<open>The search for the container of a matrix, among those with the key of the matrix.\<close>

definition find_container :: "containers \<Rightarrow> nat \<Rightarrow> (nat \<times> container) option" where
  "find_container cs p = find (\<lambda>e. c_matrix (snd e) = p) cs"

definition with_container :: "pgm_manager \<Rightarrow> nat \<Rightarrow> 'a \<Rightarrow> (guidance_matrix \<Rightarrow> container_key \<Rightarrow> containers \<Rightarrow> nat \<Rightarrow> container \<Rightarrow> 'a) \<Rightarrow> 'a result" where
  "with_container g p none f = (case mats g p of
       None \<Rightarrow> Inl Undefined_Behaviour
     | Some m \<Rightarrow> let k = map_key (matrix_key_of m) in
         Inr (case smap_find (m_matrices g) k of
            None \<Rightarrow> none
          | Some cs \<Rightarrow> (case find_container cs p of None \<Rightarrow> none | Some (c, con) \<Rightarrow> f m k cs c con)))"

definition releaseGuidanceMatrixNoLock :: "pgm_manager \<Rightarrow> nat \<Rightarrow> (pgm_manager \<times> bool) result" where
  "releaseGuidanceMatrixNoLock g p = with_container g p (g, False) (\<lambda>m k cs c con.
     let con' = con\<lparr>m_refcount := m_refcount con - 1\<rparr> in
     if 0 < m_refcount con' then (g\<lparr>m_matrices := smap_put k (smap_put c con' cs) (m_matrices g)\<rparr>, True)
     else (g\<lparr>m_matrices := smap_put k (smap_erase c cs) (m_matrices g), mats := (mats g)(p := None)\<rparr>, True))"

definition addGuidanceMatrixRef :: "pgm_manager \<Rightarrow> nat \<Rightarrow> (pgm_manager \<times> bool) result" where
  "addGuidanceMatrixRef g p = with_container g p (g, False) (\<lambda>m k cs c con.
     (g\<lparr>m_matrices := smap_put k (smap_put c (con\<lparr>m_refcount := m_refcount con + 1\<rparr>) cs) (m_matrices g)\<rparr>, True))"

text \<open>\<open>setOptions\<close> returns a null pointer, here 0, when the matrix is not one of the manager's.\<close>

definition pgm_setOptions :: "nat \<times> nat \<Rightarrow> pgm_manager \<Rightarrow> nat \<Rightarrow> pgm_options \<Rightarrow> (pgm_manager \<times> nat) result" where
  "pgm_setOptions a g p opts = (case mats g p of
       None \<Rightarrow> Inl Undefined_Behaviour
     | Some m \<Rightarrow>
         if opts_eq opts (g_options m) then Inr (g, p)
         else bindE (releaseGuidanceMatrixNoLock g p) (\<lambda>(g', b).
           if \<not> b then Inr (g', 0)
           else getGuidanceMatrixNoLock a g' ((matrix_key_of m)\<lparr>key_options := opts\<rparr>)))"

definition mgr_compute ::
    "aoe_engine \<Rightarrow> (int \<Rightarrow> double) \<Rightarrow> int \<Rightarrow> (nat \<Rightarrow> isp) \<Rightarrow> pgm_manager \<Rightarrow> nat \<Rightarrow> double swarm_state option \<Rightarrow> (pgm_manager \<times> int) result" where
  "mgr_compute aoe i2f now isps g p state = with_container g p (g, ERR_INVALID_GUIDANCE_MATRIX) (\<lambda>m k cs c con.
     let (m', rc) = (case state of
           Some s \<Rightarrow> pgm_compute_swarm aoe i2f now (isps (g_isp m)) m s
         | None \<Rightarrow> pgm_compute aoe i2f now (isps (g_isp m)) m) in
     (g\<lparr>mats := (mats g)(p \<mapsto> m')\<rparr>, rc))"

end
