(* ===== verification/Peer_Selection.thy ===== *)
theory Peer_Selection
  imports Selection_Helper Guidance_Matrix
begin

text \<open>
  \<open>common/cpp/src/lib/p4p_selection_manager.cpp\<close> and \<open>pgm_selection_manager.cpp\<close>: the selection of peers
  for a peer, by the location of the peers alone or by the weights of a guidance matrix. The result of
  an operation on doubles is rounded by \<open>fl\<close>; the manager of guidance matrices, which the selection managers
  share, and the addresses of new objects are arguments.
\<close>

section \<open>Numbers\<close>

text \<open>The conversion of a double to \<open>unsigned int\<close>, undefined when the integral part does not fit.\<close>

definition d2u :: "double \<Rightarrow> u32 result" where
  "d2u x = (if x \<le> - 1 \<or> 2 ^ 32 \<le> x then Inl Undefined_Behaviour else Inr (if x < 0 then 0 else of_int \<lfloor>x\<rfloor>))"

abbreviation (input) RAND_MAX :: nat where "RAND_MAX \<equiv> 2147483647"

section \<open>Location-only selection\<close>

text \<open>
  The result: the code, the peers, the draws that are left, and how many shared locks the call leaves
  held (of the map of views and of the view).
\<close>

record selection =
  sel_code :: int
  sel_out :: "nat list"
  sel_draws :: "nat list"
  sel_locks :: nat

definition unavailable :: "nat list \<Rightarrow> nat list \<Rightarrow> nat \<Rightarrow> selection" where
  "unavailable out rs locks = \<lparr>sel_code = ERR_GUIDANCE_UNAVAILABLE, sel_out = out, sel_draws = rs, sel_locks = locks\<rparr>"

definition selectPeersLocationOnly ::
    "(double \<Rightarrow> double) \<Rightarrow> pgm_options \<Rightarrow> isp \<Rightarrow> 'f peer_view option \<Rightarrow> nat \<Rightarrow> int \<Rightarrow> u32 \<Rightarrow> nat list \<Rightarrow> nat list \<Rightarrow> selection result" where
  "selectPeersLocationOnly fl opts s vo self hpid num_peers out rs = (case vo of
       None \<Rightarrow> Inr (unavailable out rs 0)
     | Some v \<Rightarrow>
         bindE (view_listIntraISPPeers s v []) (\<lambda>internal_peers.
         bindE (view_listExternalPeers s v []) (\<lambda>external_peers.
         bindE (getNumPIDs (m_pidmap s)) (\<lambda>(intra, tot).
         if hpid < 0 \<or> intra \<le> nat hpid then Inr (unavailable out rs 2)
         else
           let isp_pct = m_intraisp_pct opts;
               internal = length (filter (\<lambda>p. \<not> get_external p) (listPIDs (m_pidmap s)));
               pid_pct = (if m_intrapid_pct opts > isp_pct \<or> internal = 1 then isp_pct else m_intrapid_pct opts);
               n = of_nat (unat num_peers); prefilled = length out;
               h0 = PIDPeerSelectionHelper v tot (num_peers + 1) in
           bindE (d2u (fl (fl (n * pid_pct) + 1 / 2))) (\<lambda>num_intrapid.
           bindE (intrapid_loop self hpid (unat num_intrapid) h0 out rs) (\<lambda>(h1, out1, rs1).
           bindE (d2u (fl (fl (fl (fl (n * isp_pct) + of_nat prefilled) - of_nat (length out1)) + 1 / 2))) (\<lambda>num_intraisp.
           bindE (fill_from (\<lambda>h. selectPeer_pids h (filter (\<lambda>i. i \<noteq> hpid) (map int [0..<intra]))) (unat num_intraisp) h1 out1 rs1) (\<lambda>(h2, out2, rs2).
           bindE (fill_from (\<lambda>h. selectPeer_pids h (map int [intra..<tot]))
             (unat (num_peers + of_nat prefilled - of_nat (length out2))) h2 out2 rs2) (\<lambda>(h3, out3, rs3).
           bindE (fill_from (\<lambda>h. selectPeer_pids h (map int [0..<tot]))
             (unat (num_peers + of_nat prefilled - of_nat (length out3))) h3 out3 rs3) (\<lambda>(h4, out4, rs4).
             Inr \<lparr>sel_code = 0, sel_out = out4, sel_draws = rs4, sel_locks = 0\<rparr>))))))))))"

section \<open>Selection by weights\<close>

text \<open>The bin a number falls into; the last one when it is larger than all weights together.\<close>

fun pick_bin :: "(double \<Rightarrow> double) \<Rightarrow> double \<Rightarrow> double list \<Rightarrow> nat" where
  "pick_bin fl r [] = 0"
| "pick_bin fl r (w # ws) = (if w \<le> r \<and> ws \<noteq> [] then Suc (pick_bin fl (fl (r - w)) ws) else 0)"

text \<open>The loop runs its body before it looks at the number of peers it has.\<close>

function fill_loop ::
    "(double \<Rightarrow> double) \<Rightarrow> int list \<Rightarrow> u32 \<Rightarrow> u32 list \<Rightarrow> double list \<Rightarrow> u32 \<Rightarrow> double \<Rightarrow> 'f selection_helper \<Rightarrow> nat list \<Rightarrow> nat list \<Rightarrow>
     ('f selection_helper \<times> nat list \<times> nat list) result" where
  "fill_loop fl pids max_peers pc ws total_peercount total_weight h out rs = (case rs of
       [] \<Rightarrow> Inl Out_Of_Draws
     | r # rs0 \<Rightarrow>
         (let j = pick_bin fl (fl (fl (of_nat r / of_nat RAND_MAX) * total_weight)) ws in
          case selectPeer h (pids ! j) rs0 of
            Inl e \<Rightarrow> Inl e
          | Inr (res, h', rs1) \<Rightarrow> (case res of
              None \<Rightarrow> Inl (Runtime_Error ''illegal state: expected to retrieve non-null peer'')
            | Some p \<Rightarrow>
                (let pc' = pc[j := pc ! j - 1];
                     ws' = (if pc' ! j = 0 then ws[j := 0] else ws);
                     tw' = (if pc' ! j = 0 then fl (total_weight - ws ! j) else total_weight) in
                 if length (out @ [p]) < unat max_peers \<and> 0 < total_peercount - 1
                 then fill_loop fl pids max_peers pc' ws' (total_peercount - 1) tw' h' (out @ [p]) rs1
                 else Inr (h', out @ [p], rs1)))))"
  by pat_completeness auto
termination
  by (relation "measure (\<lambda>(fl, pids, max_peers, pc, ws, tpc, tw, h, out, rs). length rs)") (auto dest: selectPeer_shrinks)

declare fill_loop.simps [simp del]

definition fillPeers ::
    "(double \<Rightarrow> double) \<Rightarrow> int list \<Rightarrow> u32 list \<Rightarrow> double list \<Rightarrow> u32 \<Rightarrow> 'f selection_helper \<Rightarrow> nat list \<Rightarrow> nat list \<Rightarrow>
     ('f selection_helper \<times> nat list \<times> nat list) result" where
  "fillPeers fl pids pc ws max_peers h out rs =
     (if pids = [] then Inr (h, out, rs)
      else if length pids \<noteq> length pc \<or> length pids \<noteq> length ws then Inr (h, out, rs)
      else fill_loop fl pids max_peers pc ws (sum_list pc) (foldl (\<lambda>a w. fl (a + w)) 0 ws) h out rs)"

text \<open>The PIDs with a weight and with peers, the home PID excepted.\<close>

definition weighted_pids :: "'f peer_view \<Rightarrow> double list \<Rightarrow> int \<Rightarrow> nat \<Rightarrow> int list" where
  "weighted_pids v weights hpid tot =
     filter (\<lambda>i. \<not> weights ! nat i \<le> 0 \<and> view_getNumPeers v i \<noteq> 0 \<and> i \<noteq> hpid) (map int [0..<tot])"

definition fill_weighted ::
    "(double \<Rightarrow> double) \<Rightarrow> 'f peer_view \<Rightarrow> double list \<Rightarrow> int list \<Rightarrow> u32 \<Rightarrow> 'f selection_helper \<Rightarrow> nat list \<Rightarrow> nat list \<Rightarrow>
     ('f selection_helper \<times> nat list \<times> nat list) result" where
  "fill_weighted fl v weights pids max_peers h out rs =
     fillPeers fl pids (map (\<lambda>i. of_int (view_getNumPeers v i)) pids) (map (\<lambda>i. weights ! nat i) pids) max_peers h out rs"

definition selectPeersWeighted ::
    "(double \<Rightarrow> double) \<Rightarrow> double \<Rightarrow> double \<Rightarrow> double list \<Rightarrow> nat \<Rightarrow> nat \<Rightarrow> 'f peer_view \<Rightarrow> nat \<Rightarrow> int \<Rightarrow> u32 \<Rightarrow> nat list \<Rightarrow> nat list \<Rightarrow> selection result" where
  "selectPeersWeighted fl pid_pct isp_pct weights intra tot v self hpid num_peers out rs =
     (let pids = weighted_pids v weights hpid tot;
          n = of_nat (unat num_peers); prefilled = length out;
          h0 = PIDPeerSelectionHelper v tot (num_peers + 1) in
      bindE (d2u (fl (fl (n * pid_pct) + 1 / 2))) (\<lambda>num_intrapid.
      bindE (intrapid_loop self hpid (unat num_intrapid) h0 out rs) (\<lambda>(h1, out1, rs1).
      bindE (d2u (fl (fl (fl (isp_pct * n) + of_nat prefilled) + 1 / 2))) (\<lambda>max_intraisp.
      bindE (fill_weighted fl v weights (filter (\<lambda>i. i < int intra) pids) max_intraisp h1 out1 rs1) (\<lambda>(h2, out2, rs2).
      bindE (fill_weighted fl v weights (filter (\<lambda>i. \<not> i < int intra) pids) (num_peers + of_nat prefilled) h2 out2 rs2) (\<lambda>(h3, out3, rs3).
      bindE (fill_from (\<lambda>h. selectPeer_pids h (map int [0..<tot]))
        (unat (num_peers + of_nat prefilled - of_nat (length out3))) h3 out3 rs3) (\<lambda>(h4, out4, rs4).
        Inr \<lparr>sel_code = 0, sel_out = out4, sel_draws = rs4, sel_locks = 0\<rparr>)))))))"

end
