(* ===== verification/Selection_Manager.thy ===== *)
theory Selection_Manager
  imports Peer_Selection
begin

text \<open>
  The state of the selection managers of \<open>p4p_selection_manager.cpp\<close> and \<open>pgm_selection_manager.cpp\<close> and
  their operations. An \<open>ISPManager\<close> is the list of the ISPs it lists; a guidance matrix is named by its
  address, 0 being the null pointer. The port of the engine is unset until \<open>initGuidance\<close>.
\<close>

record selection_manager =
  sm_isp_mgr :: "nat list option"
  sm_isp_peers :: "double peer_dist_manager"

definition P4PSelectionManager :: selection_manager where
  "P4PSelectionManager = \<lparr>sm_isp_mgr = None, sm_isp_peers = PeerDistributionManager\<rparr>"

definition sm_setISPManager :: "selection_manager \<Rightarrow> nat list \<Rightarrow> selection_manager \<times> bool" where
  "sm_setISPManager sm isp_list = (case sm_isp_mgr sm of
       Some _ \<Rightarrow> (sm, False)
     | None \<Rightarrow> (sm\<lparr>sm_isp_mgr := Some isp_list, sm_isp_peers := foldl (\<lambda>d i. fst (pdm_addISP d i)) (sm_isp_peers sm) isp_list\<rparr>, True))"

text \<open>The constructor of the base class sets the manager before it calls \<open>setISPManager\<close>.\<close>

definition P4PSelectionManager_isp :: "nat list option \<Rightarrow> selection_manager result" where
  "P4PSelectionManager_isp isp_mgr = (case isp_mgr of
       None \<Rightarrow> Inl (Invalid_Argument ''isp_mgr must not be NULL'')
     | Some isp_list \<Rightarrow> Inr (fst (sm_setISPManager (P4PSelectionManager\<lparr>sm_isp_mgr := Some isp_list\<rparr>) isp_list)))"

text \<open>\<open>updatePeerDistribution\<close> keeps the code of the distribution in a \<open>bool\<close>.\<close>

definition sm_updatePeerDistribution ::
    "(int \<Rightarrow> double) \<Rightarrow> (nat \<Rightarrow> isp) \<Rightarrow> (nat \<Rightarrow> double peer) \<Rightarrow> selection_manager \<Rightarrow> nat \<Rightarrow>
     (selection_manager \<times> (nat \<Rightarrow> double peer) \<times> int) result" where
  "sm_updatePeerDistribution i2f isps ps sm i = bindE (pdm_updatePeerDistribution i2f isps ps (sm_isp_peers sm) i) (\<lambda>(d, ps', rc).
     Inr (sm\<lparr>sm_isp_peers := d\<rparr>, ps', if rc \<noteq> 0 then 1 else 0))"

definition sm_addPeer ::
    "(int \<Rightarrow> double) \<Rightarrow> (nat \<Rightarrow> isp) \<Rightarrow> (nat \<Rightarrow> double peer) \<Rightarrow> selection_manager \<Rightarrow> nat \<Rightarrow>
     (selection_manager \<times> (nat \<Rightarrow> double peer) \<times> bool) result" where
  "sm_addPeer i2f isps ps sm peer =
     (if sm_isp_mgr sm = None then Inr (sm, ps, False)
      else bindE (pdm_addPeer i2f isps ps (sm_isp_peers sm) peer) (\<lambda>(d, ps', b). Inr (sm\<lparr>sm_isp_peers := d\<rparr>, ps', b)))"

definition sm_removePeer :: "selection_manager \<Rightarrow> nat \<Rightarrow> (selection_manager \<times> bool) result" where
  "sm_removePeer sm peer = bindE (pdm_removePeer (sm_isp_peers sm) peer) (\<lambda>(d, b). Inr (sm\<lparr>sm_isp_peers := d\<rparr>, b))"

definition sm_updatePeerStats :: "(int \<Rightarrow> double) \<Rightarrow> (nat \<Rightarrow> double peer) \<Rightarrow> selection_manager \<Rightarrow> nat \<Rightarrow> selection_manager \<times> bool" where
  "sm_updatePeerStats i2f ps sm peer = (let (d, b) = pdm_updatePeerStats i2f ps (sm_isp_peers sm) peer in (sm\<lparr>sm_isp_peers := d\<rparr>, b))"

section \<open>Selection with guidance matrices\<close>

record pgm_selection_manager = selection_manager +
  m_guidance_initialized :: bool
  sm_optengine_addr :: string
  sm_optengine_port :: "nat option"
  m_guidance_opts_default :: pgm_options
  m_guidance_opts :: "(nat, pgm_options) smap"
  m_guidance :: "(nat, nat) smap"

definition PGMSelectionManager :: pgm_selection_manager where
  "PGMSelectionManager = \<lparr>sm_isp_mgr = None, sm_isp_peers = PeerDistributionManager, m_guidance_initialized = False,
     sm_optengine_addr = [], sm_optengine_port = None, m_guidance_opts_default = PeeringGuidanceMatrixOptions,
     m_guidance_opts = [], m_guidance = []\<rparr>"

definition pgm_setISPManager :: "pgm_selection_manager \<Rightarrow> nat list \<Rightarrow> pgm_selection_manager \<times> bool" where
  "pgm_setISPManager sm isp_list =
     (let (base, b) = sm_setISPManager (selection_manager.truncate sm) isp_list in
      if \<not> b then (sm, False)
      else (sm\<lparr>sm_isp_mgr := sm_isp_mgr base, sm_isp_peers := sm_isp_peers base,
               m_guidance := foldl (\<lambda>m i. smap_put i 0 m) (m_guidance sm) isp_list\<rparr>, True))"

definition PGMSelectionManager_isp :: "nat list option \<Rightarrow> pgm_selection_manager result" where
  "PGMSelectionManager_isp isp_mgr = (case isp_mgr of
       None \<Rightarrow> Inl (Invalid_Argument ''isp_mgr must not be NULL'')
     | Some isp_list \<Rightarrow> Inr (fst (pgm_setISPManager PGMSelectionManager isp_list)))"

definition setDefaultOptions :: "pgm_selection_manager \<Rightarrow> pgm_options \<Rightarrow> pgm_selection_manager" where
  "setDefaultOptions sm opts = sm\<lparr>m_guidance_opts_default := opts\<rparr>"

definition getDefaultOptions :: "pgm_selection_manager \<Rightarrow> pgm_options" where
  "getDefaultOptions sm = m_guidance_opts_default sm"

definition setISPOptions :: "pgm_selection_manager \<Rightarrow> nat \<Rightarrow> pgm_options \<Rightarrow> pgm_selection_manager \<times> int" where
  "setISPOptions sm i opts =
     (if smap_find (m_guidance sm) i = None then (sm, ERR_INVALID_ISP_CODE)
      else (sm\<lparr>m_guidance_opts := smap_put i opts (m_guidance_opts sm)\<rparr>, 0))"

definition clearISPOptions :: "pgm_selection_manager \<Rightarrow> nat \<Rightarrow> pgm_selection_manager \<times> int" where
  "clearISPOptions sm i =
     (if smap_find (m_guidance sm) i = None then (sm, ERR_INVALID_ISP_CODE)
      else (sm\<lparr>m_guidance_opts := smap_erase i (m_guidance_opts sm)\<rparr>, 0))"

definition getConfiguredOptions :: "pgm_selection_manager \<Rightarrow> nat \<Rightarrow> pgm_options" where
  "getConfiguredOptions sm i = (case smap_find (m_guidance_opts sm) i of Some opts \<Rightarrow> opts | None \<Rightarrow> m_guidance_opts_default sm)"

text \<open>The options, when the ISP is known.\<close>

definition getEffectiveISPOptions :: "pgm_selection_manager \<Rightarrow> nat \<Rightarrow> int \<times> pgm_options option" where
  "getEffectiveISPOptions sm i =
     (if smap_find (m_guidance sm) i = None then (ERR_INVALID_ISP_CODE, None) else (0, Some (getConfiguredOptions sm i)))"

definition pgm_getGuidanceMatrix :: "pgm_selection_manager \<Rightarrow> pgm_manager \<Rightarrow> nat \<Rightarrow> (pgm_manager \<times> nat) result" where
  "pgm_getGuidanceMatrix sm g i = (case smap_find (m_guidance sm) i of
       None \<Rightarrow> Inr (g, 0)
     | Some p \<Rightarrow>
         if p = 0 then Inr (g, 0)
         else bindE (addGuidanceMatrixRef g p) (\<lambda>(g', b).
           if \<not> b then Inl (Runtime_Error ''Illegal state: failed to increment reference count for guidance matrix'') else Inr (g', p)))"

text \<open>
  The engine, the conversion of codes to \<open>float\<close>, the clock, the ISPs and the addresses for a new matrix
  are arguments of the computation.
\<close>

definition computeGuidanceInternal ::
    "aoe_engine \<Rightarrow> (int \<Rightarrow> double) \<Rightarrow> int \<Rightarrow> (nat \<Rightarrow> isp) \<Rightarrow> nat \<times> nat \<Rightarrow> pgm_selection_manager \<Rightarrow> pgm_manager \<Rightarrow> nat \<Rightarrow>
     (pgm_selection_manager \<times> pgm_manager \<times> int) result" where
  "computeGuidanceInternal aoe i2f now isps a sm g i =
     (let opts = getConfiguredOptions sm i in
      case smap_find (m_guidance sm) i of
        None \<Rightarrow> Inl (Runtime_Error ''Illegal state: no guidance matrix map entry exists for desired ISP'')
      | Some p \<Rightarrow>
          bindE (if p = 0 then (case sm_optengine_port sm of
                     None \<Rightarrow> Inl Undefined_Behaviour
                   | Some port \<Rightarrow> getGuidanceMatrixNoLock a g
                       \<lparr>key_isp = i, key_options = opts, key_addr = sm_optengine_addr sm, key_port = port\<rparr>)
                 else pgm_setOptions a g p opts) (\<lambda>(g1, p1).
          let sm1 = sm\<lparr>m_guidance := smap_put i p1 (m_guidance sm)\<rparr> in
          if p1 = 0 then Inl Undefined_Behaviour
          else case mats g1 p1 of
            None \<Rightarrow> Inl Undefined_Behaviour
          | Some m \<Rightarrow>
              if isSwarmDependent (g_options m) then
                (let swarm = pdm_getSwarmState (sm_isp_peers sm) (g_isp m) in
                 if sw_getNumPIDs swarm = 0 then Inr (sm1, g1, ERR_GUIDANCE_UNAVAILABLE)
                 else bindE (mgr_compute aoe i2f now isps g1 p1 (Some swarm)) (\<lambda>(g2, rc). Inr (sm1, g2, rc)))
              else bindE (mgr_compute aoe i2f now isps g1 p1 None) (\<lambda>(g2, rc). Inr (sm1, g2, rc))))"

text \<open>Over all ISPs of the map; \<open>alloc\<close> gives the addresses for each.\<close>

fun compute_all ::
    "aoe_engine \<Rightarrow> (int \<Rightarrow> double) \<Rightarrow> int \<Rightarrow> (nat \<Rightarrow> isp) \<Rightarrow> (nat \<Rightarrow> nat \<times> nat) \<Rightarrow> nat list \<Rightarrow> pgm_selection_manager \<Rightarrow> pgm_manager \<Rightarrow>
     (pgm_selection_manager \<times> pgm_manager) result" where
  "compute_all aoe i2f now isps alloc [] sm g = Inr (sm, g)"
| "compute_all aoe i2f now isps alloc (i # is) sm g =
     bindE (computeGuidanceInternal aoe i2f now isps (alloc i) sm g i) (\<lambda>(sm', g', rc). compute_all aoe i2f now isps alloc is sm' g')"

definition computeGuidance ::
    "aoe_engine \<Rightarrow> (int \<Rightarrow> double) \<Rightarrow> int \<Rightarrow> (nat \<Rightarrow> isp) \<Rightarrow> (nat \<Rightarrow> nat \<times> nat) \<Rightarrow> pgm_selection_manager \<Rightarrow> pgm_manager \<Rightarrow>
     (pgm_selection_manager \<times> pgm_manager) result" where
  "computeGuidance aoe i2f now isps alloc sm g = compute_all aoe i2f now isps alloc (map fst (m_guidance sm)) sm g"

definition initGuidance ::
    "aoe_engine \<Rightarrow> (int \<Rightarrow> double) \<Rightarrow> int \<Rightarrow> (nat \<Rightarrow> isp) \<Rightarrow> (nat \<Rightarrow> nat \<times> nat) \<Rightarrow> pgm_selection_manager \<Rightarrow> pgm_manager \<Rightarrow> string \<Rightarrow> nat \<Rightarrow>
     (pgm_selection_manager \<times> pgm_manager \<times> bool) result" where
  "initGuidance aoe i2f now isps alloc sm g addr port =
     (if m_guidance_initialized sm then Inr (sm, g, False)
      else bindE (computeGuidance aoe i2f now isps alloc
          (sm\<lparr>sm_optengine_addr := addr, sm_optengine_port := Some port, m_guidance_initialized := True\<rparr>) g) (\<lambda>(sm', g'). Inr (sm', g', True)))"

text \<open>The test of \<open>getNextComputeTime\<close> is as in the source: it is the ISP that is found that has no time.\<close>

definition sm_getNextComputeTime :: "pgm_selection_manager \<Rightarrow> pgm_manager \<Rightarrow> nat \<Rightarrow> int result" where
  "sm_getNextComputeTime sm g i = (case smap_find (m_guidance sm) i of Some _ \<Rightarrow> Inr (- 1) | None \<Rightarrow> Inl Undefined_Behaviour)"

text \<open>The destructor releases every matrix; \<open>releaseGuidanceMatrix\<close> follows the null pointer of an ISP without one.\<close>

fun release_all :: "(nat, nat) smap \<Rightarrow> pgm_manager \<Rightarrow> pgm_manager result" where
  "release_all [] g = Inr g"
| "release_all ((i, p) # es) g = (if p = 0 then Inl Undefined_Behaviour else bindE (releaseGuidanceMatrixNoLock g p) (\<lambda>(g', b). release_all es g'))"

definition selectPeers ::
    "(double \<Rightarrow> double) \<Rightarrow> (nat \<Rightarrow> isp) \<Rightarrow> (nat \<Rightarrow> double peer) \<Rightarrow> pgm_manager \<Rightarrow> pgm_selection_manager \<Rightarrow> nat \<Rightarrow> u32 \<Rightarrow> nat list \<Rightarrow> nat list \<Rightarrow>
     selection result" where
  "selectPeers fl isps ps g sm peer num_peers out rs =
     (let i = home_isp (ps peer); hpid = home_pid (ps peer); vo = getISPViewInternal (sm_isp_peers sm) i in
      if i = 0 then Inr (unavailable out rs 0)
      else if hpid < 0 then Inr (unavailable out rs 0)
      else bindE (getNumPIDs (m_pidmap (isps i))) (\<lambda>(intra, tot).
        if tot \<le> nat hpid then Inr (unavailable out rs 0)
        else if m_opttype (getConfiguredOptions sm i) = OPT_LOCATION_ONLY
        then selectPeersLocationOnly fl (getConfiguredOptions sm i) (isps i) vo peer hpid num_peers out rs
        else case smap_find (m_guidance sm) i of
          None \<Rightarrow> Inr (unavailable out rs 0)
        | Some p \<Rightarrow>
            if p = 0 then Inr (unavailable out rs 0)
            else case mats g p of
              None \<Rightarrow> Inl Undefined_Behaviour
            | Some m \<Rightarrow> bindE (getWeights m hpid) (\<lambda>(rc, pcts, w).
                if rc < 0 then Inr (unavailable out rs 0)
                else case (pcts, w) of
                  (Some (pid_pct, isp_pct), Some weights) \<Rightarrow>
                    if length weights \<noteq> tot then Inr (unavailable out rs 0)
                    else (case vo of
                      None \<Rightarrow> Inr (unavailable out rs 0)
                    | Some v \<Rightarrow> selectPeersWeighted fl pid_pct isp_pct weights intra tot v peer hpid num_peers out rs)
                | _ \<Rightarrow> Inr (unavailable out rs 0))))"

end
