(* ===== verification/Selection_Properties.thy ===== *)
theory Selection_Properties
  imports Selection_Spec Selection_Manager
begin

text \<open>
  What the selection algorithms return. Whatever the weights, the percentages and the random numbers are,
  the peers are different and have a PID; the location-only algorithm returns as many as were asked for, as
  long as there are that many; the algorithm by weights may return them all.
\<close>

section \<open>Phases\<close>

text \<open>A phase appends peers that were left; the peer that asks may be used up without being returned.\<close>

definition drawn :: "nat \<Rightarrow> nat \<Rightarrow> 'f selection_helper \<Rightarrow> nat list \<Rightarrow> 'f selection_helper \<Rightarrow> nat list \<Rightarrow> bool" where
  "drawn n self h out h' out' \<longleftrightarrow> helper_inv n h' \<and>
     (\<exists>ps sk. out' = out @ ps \<and> distinct ps \<and> sk \<subseteq> {self} \<and> set ps \<subseteq> all_left n h \<and> all_left n h' = all_left n h - set ps - sk)"

lemma drawn_refl: "helper_inv n h \<Longrightarrow> drawn n self h out h out"
  unfolding drawn_def by (auto intro: exI [of _ "[]"])

lemma drawn_trans:
  assumes "drawn n self h out h1 out1" "drawn n self h1 out1 h2 out2"
  shows "drawn n self h out h2 out2"
proof -
  obtain ps sk where a: "out1 = out @ ps" "distinct ps" "sk \<subseteq> {self}" "set ps \<subseteq> all_left n h" "all_left n h1 = all_left n h - set ps - sk"
    using assms(1) by (auto simp: drawn_def)
  obtain qs tk where b: "out2 = out1 @ qs" "distinct qs" "tk \<subseteq> {self}" "set qs \<subseteq> all_left n h1" "all_left n h2 = all_left n h1 - set qs - tk"
    using assms(2) by (auto simp: drawn_def)
  have "distinct (ps @ qs)" "set (ps @ qs) \<subseteq> all_left n h" "all_left n h2 = all_left n h - set (ps @ qs) - (sk \<union> tk)" "sk \<union> tk \<subseteq> {self}"
    using a b by auto
  then show ?thesis using assms(2) a(1) b(1) unfolding drawn_def by (intro conjI exI [of _ "ps @ qs"] exI [of _ "sk \<union> tk"]) auto
qed

lemma fill_pids_drawn:
  assumes "helper_inv n h" "set pids \<subseteq> {0..<int n}" "fill_from (\<lambda>h. selectPeer_pids h pids) m h out rs = Inr (h', out', rs')"
  shows "drawn n self h out h' out'" "length out' \<le> length out + m" "length out' = length out + m \<or> pids_left pids h' = {}"
proof -
  obtain ps where ps: "out' = out @ ps" "distinct ps" "set ps \<subseteq> pids_left pids h" "all_left n h' = all_left n h - set ps"
      "helper_inv n h'" "length ps \<le> m" "length ps = m \<or> pids_left pids h' = {}"
    using many_pids.fill_from_spec [of n h pids m out rs h' out' rs'] assms by auto
  moreover have "pids_left pids h \<subseteq> all_left n h" using many_pids.mine_avail assms(1,2) by blast
  ultimately show "drawn n self h out h' out'" unfolding drawn_def by (intro conjI exI [of _ ps] exI [of _ "{}"]) auto
  show "length out' \<le> length out + m" "length out' = length out + m \<or> pids_left pids h' = {}" using ps by auto
qed

lemma intrapid_drawn:
  assumes "helper_inv n h" "0 \<le> pid" "pid < int n" "intrapid_loop self pid m h out rs = Inr (h', out', rs')"
  shows "drawn n self h out h' out'" "length out' \<le> length out + m"
proof -
  obtain ps sk where ps: "out' = out @ ps" "distinct ps" "sk \<subseteq> {self}" "set ps \<subseteq> left_at h (nat pid)"
      "all_left n h' = all_left n h - set ps - sk" "helper_inv n h'" "length ps \<le> m"
    using intrapid_loop_spec [OF assms] by blast
  have "nat pid \<in> {..<n}" using assms(2,3) by (simp add: nat_less_iff)
  then have "left_at h (nat pid) \<subseteq> all_left n h" by (auto simp: all_left_def)
  with ps show "drawn n self h out h' out'" unfolding drawn_def by (intro conjI exI [of _ ps] exI [of _ sk]) auto
  show "length out' \<le> length out + m" using ps by simp
qed

lemma pick_bin_less: "ws \<noteq> [] \<Longrightarrow> pick_bin fl r ws < length ws"
  by (induction fl r ws rule: pick_bin.induct) auto

lemma fill_loop_drawn:
  assumes "helper_inv n h" "set pids \<subseteq> {0..<int n}" "length ws = length pids" "pids \<noteq> []"
    "fill_loop fl pids max_peers pc ws tpc tw h out rs = Inr (h', out', rs')"
  shows "drawn n self h out h' out'"
  using assms(1,3,5)
proof (induction rs arbitrary: pc ws tpc tw h out rule: length_induct)
  case (1 rs)
  note R = 1(4) [unfolded fill_loop.simps [of fl pids max_peers pc ws tpc tw h out rs]]
  obtain r rs0 where rs: "rs = r # rs0" using R by (cases rs) simp_all
  define j where "j = pick_bin fl (fl (fl (of_nat r / of_nat RAND_MAX) * tw)) ws"
  have "ws \<noteq> []" using 1(3) assms(4) by auto
  then have "j < length pids" using pick_bin_less 1(3) unfolding j_def by metis
  then have jn: "0 \<le> pids ! j" "pids ! j < int n" using assms(2) by (auto dest: nth_mem)
  note R' = R [unfolded rs list.case Let_def, folded j_def]
  obtain p h1 rs1 where s: "selectPeer h (pids ! j) rs0 = Inr (Some p, h1, rs1)"
    using R' by (auto split: sum.splits option.splits)
  note P = one_pid.sel_Some [of n h "pids ! j" rs0 p h1 rs1]
  have h1: "drawn n self h out h1 (out @ [p])"
    using P s jn 1(2) one_pid.mine_avail [of n h "pids ! j"] unfolding drawn_def by (intro conjI exI [of _ "[p]"] exI [of _ "{}"]) auto
  let ?pc = "pc[j := pc ! j - 1]"
  let ?ws = "if ?pc ! j = 0 then ws[j := 0] else ws" and ?tw = "if ?pc ! j = 0 then fl (tw - ws ! j) else tw"
  show ?case
  proof (cases "length (out @ [p]) < unat max_peers \<and> 0 < tpc - 1")
    case True
    then have "fill_loop fl pids max_peers ?pc ?ws (tpc - 1) ?tw h1 (out @ [p]) rs1 = Inr (h', out', rs')" using R' s by simp
    moreover have "length rs1 < length rs" "helper_inv n h1" "length ?ws = length pids"
      using selectPeer_shrinks [OF s] rs h1 1(3) by (auto simp: drawn_def)
    ultimately have "drawn n self h1 (out @ [p]) h' out'" using 1(1) by blast
    with h1 show ?thesis by (rule drawn_trans)
  next
    case False
    then have "h' = h1 \<and> out' = out @ [p]" using R' s by (auto split: if_splits)
    with h1 show ?thesis by simp
  qed
qed

lemma fill_weighted_drawn:
  assumes "helper_inv n h" "set pids \<subseteq> {0..<int n}" "fill_weighted fl v weights pids max_peers h out rs = Inr (h', out', rs')"
  shows "drawn n self h out h' out'"
proof (cases "pids = []")
  case True
  with assms drawn_refl show ?thesis by (auto simp: fill_weighted_def fillPeers_def)
next
  case False
  with assms(3) have "fill_loop fl pids max_peers (map (\<lambda>i. of_int (view_getNumPeers v i)) pids) (map (\<lambda>i. weights ! nat i) pids)
      (sum_list (map (\<lambda>i. of_int (view_getNumPeers v i)) pids)) (foldl (\<lambda>a w. fl (a + w)) 0 (map (\<lambda>i. weights ! nat i) pids)) h out rs = Inr (h', out', rs')"
    by (simp add: fill_weighted_def fillPeers_def)
  from fill_loop_drawn [OF assms(1,2) _ False this] show ?thesis by simp
qed

section \<open>What is returned\<close>

text \<open>The peers of the view that have a PID.\<close>

definition pid_peers :: "'f peer_view \<Rightarrow> nat \<Rightarrow> nat set" where
  "pid_peers v n = (\<Union>k\<in>{..<n}. set (slot_peers v k))"

lemma all_left_start: "view_fresh n v \<Longrightarrow> all_left n (PIDPeerSelectionHelper v n tot) = pid_peers v n"
  using helper_start(2) [of n v _ tot] by (auto simp: all_left_def pid_peers_def)

lemma pids_left_all: "pids_left (map int [0..<n]) h = all_left n h"
  by (auto simp: pids_left_def all_left_def)

lemma all_left_none:
  assumes "drawn n self h out h' out'" "all_left n h' = {}"
  shows "all_left n h - {self} \<subseteq> set (drop (length out) out')"
  using assms by (auto simp: drawn_def)

lemma unat_of_nat_u32: "k < 2 ^ 32 \<Longrightarrow> unat (of_nat k :: u32) = k"
  by (simp add: unat_of_nat take_bit_nat_eq_self)

text \<open>
  The last phase takes from all PIDs the number of peers that are missing, computed modulo \<open>2 ^ 32\<close>.
\<close>

lemma last_phase:
  fixes num :: u32
  assumes h0: "h0 = PIDPeerSelectionHelper v n tot" and fresh: "view_fresh n v" and d: "drawn n self h0 out h3 out3"
    and run: "fill_from (\<lambda>h. selectPeer_pids h (map int [0..<n])) (unat (num + of_nat (length out) - of_nat (length out3))) h3 out3 rs3 = Inr (h4, out4, rs4)"
    and bounds: "unat num + length out < 2 ^ 32" "length out3 < 2 ^ 32" "card (pid_peers v n) < 2 ^ 32"
  shows "\<exists>ps. out4 = out @ ps \<and> distinct ps \<and> set ps \<subseteq> pid_peers v n \<and>
    (length ps = unat num \<or> pid_peers v n - {self} \<subseteq> set ps) \<and> (length out3 \<le> length out + unat num \<longrightarrow> length ps \<le> unat num)"
proof -
  have inv3: "helper_inv n h3" using d by (simp add: drawn_def)
  have sub: "set (map int [0..<n]) \<subseteq> {0..<int n}" by auto
  note F = fill_pids_drawn [OF inv3 sub run]
  have d4: "drawn n self h0 out h4 out4" using drawn_trans [OF d F(1)] .
  obtain ps where ps: "out4 = out @ ps" "distinct ps" "set ps \<subseteq> pid_peers v n"
    using d4 all_left_start [OF fresh, of tot] by (auto simp: drawn_def h0)
  have fin: "finite (pid_peers v n)" by (simp add: pid_peers_def)
  have small: "length ps < 2 ^ 32" using bounds(3) card_mono [OF fin ps(3)] distinct_card [OF ps(2)] by simp
  let ?m = "unat (num + of_nat (length out) - of_nat (length out3))"
  have u: "unat (num + of_nat (length out)) = unat num + length out" 
    using bounds(1) unat_add_lem [of num "of_nat (length out)"] by (simp add: unat_of_nat_u32)
  have m: "?m = unat num + length out - length out3" if "length out3 \<le> length out + unat num"
    using that u bounds(2) unat_sub_if' [of "num + of_nat (length out)" "of_nat (length out3)"] by (simp add: unat_of_nat_u32)
  have wrap: "length out3 + ?m = unat num + length out + 2 ^ 32" if "length out + unat num < length out3"
    using that u bounds(2) unat_sub_if' [of "num + of_nat (length out)" "of_nat (length out3)"] bounds(1)
    by (simp add: unat_of_nat_u32)
  have len: "length ps = length out4 - length out" using ps(1) by simp
  have all: "pid_peers v n - {self} \<subseteq> set ps" if "length out4 \<noteq> length out3 + ?m"
    using F(3) that all_left_none [OF d4] all_left_start [OF fresh, of tot] ps(1) unfolding pids_left_all h0 by auto
  have full: "length ps = unat num" if "length out4 = length out3 + ?m"
  proof (cases "length out3 \<le> length out + unat num")
    case True
    then show ?thesis using that m [OF True] len by linarith
  next
    case False
    then have "length out + unat num < length out3" by simp
    from wrap [OF this] that small len show ?thesis by linarith
  qed
  have "length ps \<le> unat num" if "length out3 \<le> length out + unat num" using m [OF that] F(2) that len by linarith
  with all full ps show ?thesis by blast
qed

lemma drawn_length:
  assumes "drawn n self (PIDPeerSelectionHelper v n tot) out h3 out3" "view_fresh n v" "card (pid_peers v n) + length out < 2 ^ 32"
  shows "length out3 < 2 ^ 32"
proof -
  obtain ps where ps: "out3 = out @ ps" "distinct ps" "set ps \<subseteq> pid_peers v n"
    using assms(1) all_left_start [OF assms(2), of tot] by (auto simp: drawn_def)
  have "length ps \<le> card (pid_peers v n)" using card_mono [OF _ ps(3)] distinct_card [OF ps(2)] by (simp add: pid_peers_def)
  with ps(1) assms(3) show ?thesis by simp
qed

text \<open>The result of a selection that returns at all.\<close>

definition selection_ok :: "'f peer_view \<Rightarrow> nat \<Rightarrow> nat \<Rightarrow> u32 \<Rightarrow> nat list \<Rightarrow> selection \<Rightarrow> bool" where
  "selection_ok v n self num out r \<longleftrightarrow> sel_code r = 0 \<and> sel_locks r = 0 \<and>
     (\<exists>ps. sel_out r = out @ ps \<and> distinct ps \<and> set ps \<subseteq> pid_peers v n \<and> (length ps = unat num \<or> pid_peers v n - {self} \<subseteq> set ps))"

lemma weighted_ok:
  assumes fresh: "view_fresh tot v" and hpid: "0 \<le> hpid" "hpid < int tot"
    and run: "selectPeersWeighted fl pid_pct isp_pct weights intra tot v self hpid num out rs = Inr r"
    and bounds: "unat num + length out < 2 ^ 32" "card (pid_peers v tot) + length out < 2 ^ 32"
  shows "selection_ok v tot self num out r"
proof -
  let ?h0 = "PIDPeerSelectionHelper v tot (num + 1)" and ?pids = "weighted_pids v weights hpid tot"
  obtain a b :: u32 and h1 out1 rs1 h2 out2 rs2 h3 out3 rs3 h4 out4 rs4 where
    r1: "intrapid_loop self hpid (unat a) ?h0 out rs = Inr (h1, out1, rs1)" and
    r2: "fill_weighted fl v weights (filter (\<lambda>i. i < int intra) ?pids) b h1 out1 rs1 = Inr (h2, out2, rs2)" and
    r3: "fill_weighted fl v weights (filter (\<lambda>i. \<not> i < int intra) ?pids) (num + of_nat (length out)) h2 out2 rs2 = Inr (h3, out3, rs3)" and
    r4: "fill_from (\<lambda>h. selectPeer_pids h (map int [0..<tot])) (unat (num + of_nat (length out) - of_nat (length out3))) h3 out3 rs3 = Inr (h4, out4, rs4)" and
    r5: "\<lparr>sel_code = 0, sel_out = out4, sel_draws = rs4, sel_locks = 0\<rparr> = r"
    using run unfolding selectPeersWeighted_def Let_def bindE_eq_Inr split_paired_Ex case_prod_conv sum.inject by (elim exE conjE) (rule that, assumption+)
  have sub: "set (filter P ?pids) \<subseteq> {0..<int tot}" for P by (auto simp: weighted_pids_def)
  have d1: "drawn tot self ?h0 out h1 out1" using intrapid_drawn(1) [OF helper_start(1) [OF fresh] hpid r1] .
  have d2: "drawn tot self ?h0 out h2 out2" using drawn_trans [OF d1 fill_weighted_drawn [OF _ sub r2]] d1 by (simp add: drawn_def)
  have d3: "drawn tot self ?h0 out h3 out3" using drawn_trans [OF d2 fill_weighted_drawn [OF _ sub r3]] d2 by (simp add: drawn_def)
  from last_phase [OF refl fresh d3 r4 bounds(1) drawn_length [OF d3 fresh bounds(2)]] bounds(2)
  show ?thesis unfolding selection_ok_def r5 [symmetric] by auto
qed

text \<open>The phases of the location-only algorithm.\<close>

definition pid_pct_of :: "pgm_options \<Rightarrow> isp \<Rightarrow> double" where
  "pid_pct_of opts s = (if m_intrapid_pct opts > m_intraisp_pct opts \<or> length (filter (\<lambda>p. \<not> get_external p) (listPIDs (m_pidmap s))) = 1
     then m_intraisp_pct opts else m_intrapid_pct opts)"

lemma location_phases:
  assumes pids: "getNumPIDs (m_pidmap s) = Inr (intra, tot)" and hpid: "0 \<le> hpid" "hpid < int intra"
    and run: "selectPeersLocationOnly fl opts s (Some v) self hpid num out rs = Inr r"
  obtains a b :: u32 and h1 out1 rs1 h2 out2 rs2 h3 out3 rs3 h4 out4 rs4 where
    "d2u (fl (fl (of_nat (unat num) * pid_pct_of opts s) + 1 / 2)) = Inr a"
    "intrapid_loop self hpid (unat a) (PIDPeerSelectionHelper v tot (num + 1)) out rs = Inr (h1, out1, rs1)"
    "d2u (fl (fl (fl (fl (of_nat (unat num) * m_intraisp_pct opts) + of_nat (length out)) - of_nat (length out1)) + 1 / 2)) = Inr b"
    "fill_from (\<lambda>h. selectPeer_pids h (filter (\<lambda>i. i \<noteq> hpid) (map int [0..<intra]))) (unat b) h1 out1 rs1 = Inr (h2, out2, rs2)"
    "fill_from (\<lambda>h. selectPeer_pids h (map int [intra..<tot])) (unat (num + of_nat (length out) - of_nat (length out2))) h2 out2 rs2 = Inr (h3, out3, rs3)"
    "fill_from (\<lambda>h. selectPeer_pids h (map int [0..<tot])) (unat (num + of_nat (length out) - of_nat (length out3))) h3 out3 rs3 = Inr (h4, out4, rs4)"
    "\<lparr>sel_code = 0, sel_out = out4, sel_draws = rs4, sel_locks = 0\<rparr> = r"
proof -
  have ok: "\<not> (hpid < 0 \<or> intra \<le> nat hpid)" using hpid by auto
  show thesis
    using run [unfolded selectPeersLocationOnly_def Let_def option.case pids(1) bindE_simps case_prod_conv if_not_P [OF ok] pid_pct_of_def [symmetric],
        unfolded bindE_eq_Inr split_paired_Ex case_prod_conv sum.inject] by (elim exE conjE) (rule that, assumption+)
qed

lemma location_drawn:
  assumes fresh: "view_fresh tot v" and pids: "intra \<le> tot" and hpid: "0 \<le> hpid" "hpid < int intra"
    and r1: "intrapid_loop self hpid a (PIDPeerSelectionHelper v tot t) out rs = Inr (h1, out1, rs1)"
    and r2: "fill_from (\<lambda>h. selectPeer_pids h (filter (\<lambda>i. i \<noteq> hpid) (map int [0..<intra]))) b h1 out1 rs1 = Inr (h2, out2, rs2)"
    and r3: "fill_from (\<lambda>h. selectPeer_pids h (map int [intra..<tot])) c h2 out2 rs2 = Inr (h3, out3, rs3)"
  shows "drawn tot self (PIDPeerSelectionHelper v tot t) out h2 out2" "drawn tot self (PIDPeerSelectionHelper v tot t) out h3 out3"
    "length out \<le> length out1" "length out1 \<le> length out + a" "length out2 \<le> length out1 + b" "length out3 \<le> length out2 + c"
proof -
  let ?h0 = "PIDPeerSelectionHelper v tot t"
  have hp: "0 \<le> hpid" "hpid < int tot" using hpid pids by auto
  have s1: "set (filter (\<lambda>i. i \<noteq> hpid) (map int [0..<intra])) \<subseteq> {0..<int tot}" and s2: "set (map int [intra..<tot]) \<subseteq> {0..<int tot}"
    using pids by auto
  note I = intrapid_drawn [OF helper_start(1) [OF fresh] hp r1]
  have inv1: "helper_inv tot h1" and "length out \<le> length out1" using I(1) by (auto simp: drawn_def)
  note F = fill_pids_drawn [OF inv1 s1 r2]
  show d2: "drawn tot self ?h0 out h2 out2" using drawn_trans [OF I(1) F(1)] .
  then have inv2: "helper_inv tot h2" by (simp add: drawn_def)
  note G = fill_pids_drawn [OF inv2 s2 r3]
  show "drawn tot self ?h0 out h3 out3" using drawn_trans [OF d2 G(1)] .
  show "length out \<le> length out1" "length out1 \<le> length out + a" "length out2 \<le> length out1 + b" "length out3 \<le> length out2 + c"
    using I(2) F(2) G(2) \<open>length out \<le> length out1\<close> by auto
qed

lemma location_ok:
  assumes fresh: "view_fresh tot v" and pids: "getNumPIDs (m_pidmap s) = Inr (intra, tot)" "intra \<le> tot" and hpid: "0 \<le> hpid" "hpid < int intra"
    and run: "selectPeersLocationOnly fl opts s (Some v) self hpid num out rs = Inr r"
    and bounds: "unat num + length out < 2 ^ 32" "card (pid_peers v tot) + length out < 2 ^ 32"
  shows "selection_ok v tot self num out r"
proof (rule location_phases [OF pids(1) hpid run], goal_cases)
  case (1 a b h1 out1 rs1 h2 out2 rs2 h3 out3 rs3 h4 out4 rs4)
  note d3 = location_drawn(2) [OF fresh pids(2) hpid 1(2,4,5)]
  from last_phase [OF refl fresh d3 1(6) bounds(1) drawn_length [OF d3 fresh bounds(2)]] bounds(2)
  show ?case unfolding selection_ok_def 1(7) [symmetric] by auto
qed

section \<open>How many are returned\<close>

text \<open>
  What the bound relies on of the arithmetic of doubles: rounding is monotone, and the halves of
  integers of up to 53 bits are doubles.
\<close>

definition rounding :: "(double \<Rightarrow> double) \<Rightarrow> bool" where
  "rounding fl \<longleftrightarrow> mono fl \<and> (\<forall>k::int. \<bar>k\<bar> \<le> 2 ^ 53 \<longrightarrow> fl (of_int k / 2) = of_int k / 2)"

lemma rounding_nat: "rounding fl \<Longrightarrow> k < 2 ^ 34 \<Longrightarrow> fl (of_nat k) = of_nat k"
  using spec [of "\<lambda>k::int. \<bar>k\<bar> \<le> 2 ^ 53 \<longrightarrow> fl (of_int k / 2) = of_int k / 2" "2 * int k"] by (simp add: rounding_def)

lemma rounding_half: "rounding fl \<Longrightarrow> k < 2 ^ 34 \<Longrightarrow> fl (of_nat k + 1 / 2) = of_nat k + 1 / 2"
  using spec [of "\<lambda>k::int. \<bar>k\<bar> \<le> 2 ^ 53 \<longrightarrow> fl (of_int k / 2) = of_int k / 2" "2 * int k + 1"]
  by (simp add: rounding_def add_divide_distrib)

lemma rounding_le: "rounding fl \<Longrightarrow> x \<le> of_nat k \<Longrightarrow> k < 2 ^ 34 \<Longrightarrow> fl x \<le> of_nat k"
  using monoD [of fl x "of_nat k"] rounding_nat [of fl k] by (simp add: rounding_def)

lemma d2u_le:
  assumes "rounding fl" "x \<le> of_nat k" "k < 2 ^ 34" "d2u (fl (x + 1 / 2)) = Inr c"
  shows "unat c \<le> k"
proof -
  let ?y = "fl (x + 1 / 2)"
  have y: "?y \<le> of_nat k + 1 / 2" using monoD [of fl "x + 1 / 2" "of_nat k + 1 / 2"] assms(1,2) rounding_half [OF assms(1,3)] by (simp add: rounding_def)
  have b: "?y < 2 ^ 32" "c = (if ?y < 0 then 0 else of_int \<lfloor>?y\<rfloor>)" using assms(4) by (auto simp: d2u_def split: if_splits)
  show ?thesis
  proof (cases "?y < 0")
    case False
    have f: "0 \<le> \<lfloor>?y\<rfloor>" "\<lfloor>?y\<rfloor> < 2 ^ 32" "\<lfloor>?y\<rfloor> \<le> int k" using False b(1) y by (auto simp: floor_less_iff) (simp add: floor_le_iff)
    have "uint c = \<lfloor>?y\<rfloor>" using b(2) False f by (simp add: uint_word_of_int take_bit_int_eq_self)
    then show ?thesis using f by (simp add: unat_eq_nat_uint nat_le_iff)
  qed (use b in simp)
qed

lemma missing_count:
  fixes num :: u32
  assumes "unat num + k < 2 ^ 32" "l \<le> unat num + k"
  shows "unat (num + of_nat k - of_nat l) = unat num + k - l"
proof -
  have "unat (num + of_nat k) = unat num + k" using assms(1) unat_add_lem [of num "of_nat k"] by (simp add: unat_of_nat_u32)
  then show ?thesis using assms unat_sub_if' [of "num + of_nat k" "of_nat l"] by (simp add: unat_of_nat_u32)
qed

text \<open>The numbers of peers to take in the first two phases.\<close>

lemma pct_le: "p \<le> 1 \<Longrightarrow> of_nat k * p \<le> (of_nat k :: double)"
  using mult_left_le [of p "of_nat k"] by simp

lemma first_count:
  assumes "rounding fl" "p \<le> 1" "unat (num :: u32) < 2 ^ 32" "d2u (fl (fl (of_nat (unat num) * p) + 1 / 2)) = Inr a"
  shows "unat a \<le> unat num"
  using d2u_le [OF assms(1) rounding_le [OF assms(1) pct_le [OF assms(2)]] _ assms(4)] assms(3) by simp

lemma second_count:
  assumes "rounding fl" "p \<le> 1" "unat (num :: u32) + k < 2 ^ 32" "l \<le> unat num + k"
    and "d2u (fl (fl (fl (fl (of_nat (unat num) * p) + of_nat k) - of_nat l) + 1 / 2)) = Inr b"
  shows "unat b \<le> unat num + k - l"
proof -
  let ?x = "fl (of_nat (unat num) * p)"
  have "?x \<le> of_nat (unat num)" by (rule rounding_le [OF assms(1) pct_le [OF assms(2)]]) (use assms(3) in simp)
  then have "fl (?x + of_nat k) \<le> of_nat (unat num + k)" using rounding_le [OF assms(1), of "?x + of_nat k" "unat num + k"] assms(3) by simp
  then have "fl (?x + of_nat k) - of_nat l \<le> of_nat (unat num + k - l)" using assms(4) by (simp add: of_nat_diff)
  from d2u_le [OF assms(1) rounding_le [OF assms(1) this] _ assms(5)] assms(3) show ?thesis by simp
qed

lemma location_count:
  assumes fl: "rounding fl" "m_intraisp_pct opts \<le> 1"
    and fresh: "view_fresh tot v" and pids: "getNumPIDs (m_pidmap s) = Inr (intra, tot)" "intra \<le> tot" and hpid: "0 \<le> hpid" "hpid < int intra"
    and run: "selectPeersLocationOnly fl opts s (Some v) self hpid num out rs = Inr r"
    and bounds: "unat num + length out < 2 ^ 32" "card (pid_peers v tot) + length out < 2 ^ 32"
  shows "\<exists>ps. sel_out r = out @ ps \<and> distinct ps \<and> set ps \<subseteq> pid_peers v tot \<and> length ps \<le> unat num \<and>
    (length ps = unat num \<or> pid_peers v tot - {self} \<subseteq> set ps)"
proof (rule location_phases [OF pids(1) hpid run], goal_cases)
  case (1 a b h1 out1 rs1 h2 out2 rs2 h3 out3 rs3 h4 out4 rs4)
  note L = location_drawn [OF fresh pids(2) hpid 1(2,4,5)]
  have n: "unat num < 2 ^ 32" using bounds(1) by simp
  have p1: "pid_pct_of opts s \<le> 1" using fl(2) by (auto simp: pid_pct_of_def)
  have a: "unat a \<le> unat num" using first_count [OF fl(1) p1 n 1(1)] .
  have l1: "length out1 \<le> unat num + length out" using L(4) a by linarith
  have l2: "length out2 \<le> unat num + length out" using second_count [OF fl bounds(1) l1 1(3)] L(3,5) l1 by linarith
  have "length out3 \<le> length out + unat num" using L(6) missing_count [OF bounds(1) l2] l2 by linarith
  with last_phase [OF refl fresh L(2) 1(6) bounds(1) drawn_length [OF L(2) fresh bounds(2)]] bounds(2)
  show ?case unfolding 1(7) [symmetric] by auto
qed

section \<open>The promises\<close>


text \<open>Four peers of an ISP with three PIDs, the last of them external.\<close>

definition sel_view :: "double peer_view" where
  "sel_view = \<lparr>m_peer_to_pid = [(1, 0), (2, 1), (3, 2), (4, 2)],
     m_pid_peers = [\<lparr>m_vec_index = [(1, 0)], m_vec = [1]\<rparr>, \<lparr>m_vec_index = [(2, 0)], m_vec = [2]\<rparr>,
       \<lparr>m_vec_index = [(3, 0), (4, 1)], m_vec = [3, 4]\<rparr>, ras_empty], m_swarm_state = SwarmState 3\<rparr>"

definition sel_trie :: "int patricia_trie" where
  "sel_trie = \<lparr>tree = \<lparr>head = Null, maxbits = 128, num_active_node = 0, next_addr = 0\<rparr>, val_cache = []\<rparr>"

definition sel_pidmap :: "int patricia_trie \<Rightarrow> isp_pidmap" where
  "sel_pidmap t = \<lparr>pm_proto = None, pm_filename = [], pm_trie = t, pm_pids = [PID ''a'' 1 False, PID ''a'' 2 False, PID ''b'' 1 True],
     pm_intraisp_pids = Some 2, pm_lastUpdate = 0, pm_ttl = 60, pm_version = []\<rparr>"

definition sel_isp :: "int patricia_trie \<Rightarrow> isp" where
  "sel_isp t = \<lparr>m_pidmap = sel_pidmap t, m_pdistmap = ISPPDistanceMap\<rparr>"

definition sel_peers :: "int \<Rightarrow> nat \<Rightarrow> double peer" where
  "sel_peers pid = (\<lambda>p. \<lparr>p_addr = ex_addr, p_seeder = False, p_upload = 0, p_download = 0, home_isp = 5, home_pid = pid\<rparr>)"

definition sel_mgr :: pgm_selection_manager where
  "sel_mgr = PGMSelectionManager\<lparr>sm_isp_peers := \<lparr>m_views = [(5, sel_view)], m_peers = []\<rparr>, m_guidance_opts_default := LocationOnly (3 / 4) (9 / 10)\<rparr>"

lemma sel_pids: "getNumPIDs (m_pidmap (sel_isp t)) = Inr (2, 3)" "length (filter (\<lambda>p. \<not> get_external p) (listPIDs (m_pidmap (sel_isp t)))) = 2"
  by (simp_all add: sel_isp_def sel_pidmap_def getNumPIDs_def listPIDs_def)

lemma all_less_4: "(\<forall>k<4. P k) \<longleftrightarrow> P 0 \<and> P 1 \<and> P 2 \<and> P (3::nat)"
  by (auto simp: numeral_eq_Suc less_Suc_eq)

lemma sel_ras: "ras_inv id \<lparr>m_vec_index = [(x::nat, 0)], m_vec = [x]\<rparr>" "x < y \<Longrightarrow> ras_inv id \<lparr>m_vec_index = [(x::nat, 0), (y, 1)], m_vec = [x, y]\<rparr>"
  by (auto simp: ras_inv_def smap_find_def less_Suc_eq nth_Cons split: nat.splits if_splits)

lemma sel_view_fresh: "view_fresh 3 sel_view"
proof -
  have len: "length (m_pid_peers sel_view) = 4" "length (m_swarm_state sel_view) = 3" by (simp_all add: sel_view_def SwarmState_def)
  have "smap_inv (m_peer_to_pid sel_view)" by (simp add: sel_view_def)
  moreover have "\<forall>k<4. ras_inv id (m_pid_peers sel_view ! k)"
    using ras_inv_empty [of "id :: nat \<Rightarrow> nat"] sel_ras(2) [of 3 4] by (simp add: all_less_4 sel_view_def sel_ras(1))
  moreover have "pid = - 1 \<or> 0 \<le> pid \<and> nat pid < 3" if "smap_find (m_peer_to_pid sel_view) p = Some pid" for p pid
    using that by (auto simp: sel_view_def smap_find_def split: if_splits)
  moreover have "\<forall>k<4. \<forall>p. p \<in> set (m_vec (m_pid_peers sel_view ! k)) \<longleftrightarrow>
      (\<exists>pid. smap_find (m_peer_to_pid sel_view) p = Some pid \<and> pid_slot sel_view pid = k)"
    by (auto simp: all_less_4 sel_view_def smap_find_def pid_slot_def ras_empty_def)
  ultimately show ?thesis unfolding view_fresh_def view_tables_def len by simp
qed

lemma fill_from_rec:
  "fill_from sel m h out rs = (if m = 0 then Inr (h, out, rs) else bindE (sel h rs) (\<lambda>(res, h', rs').
     case res of None \<Rightarrow> Inr (h', out, rs') | Some p \<Rightarrow> fill_from sel (m - 1) h' (out @ [p]) rs'))"
  by (cases m; cases "sel h rs") (auto split: option.splits)

text \<open>Evaluating selections from this view.\<close>

definition sel_state :: "u32 \<Rightarrow> pid_info \<Rightarrow> pid_info \<Rightarrow> pid_info \<Rightarrow> double selection_helper" where
  "sel_state k a b c = \<lparr>h_isp_peers = sel_view, h_total_peers = k, m_pidinfo = [a, b, c, PIDInfo 0]\<rparr>"

definition copied :: "nat list \<Rightarrow> pid_info" where
  "copied cs = \<lparr>numPeers = int (length cs), strategy = ST_COPY, candidates = cs, selected = {}\<rparr>"

lemma sel_start: "PIDPeerSelectionHelper sel_view 3 k = sel_state k (PIDInfo 1) (PIDInfo 1) (PIDInfo 2)"
  by (simp add: PIDPeerSelectionHelper_def sel_state_def sel_view_def view_getNumPeers_def pid_slot_def ras_empty_def upt_conv_Cons)

lemmas sel_defs = sel_state_def copied_def PIDInfo_def selectPeer_def pid_idx_def pidinfo_at_def nthE_def choose_strategy_def set_info_def
  view_listPIDPeers_def pid_slot_def pop_at_def sel_view_def

lemma sel_steps:
  assumes "k = 2 \<or> k = 3 \<or> k = 4"
  shows
  "selectPeer (sel_state k (PIDInfo 1) b c) 0 (r # rs) = Inr (Some 1, sel_state k (copied []) b c, rs)"
  "selectPeer (sel_state k (copied []) b c) 0 rs = Inr (None, sel_state k (copied []) b c, rs)"
  "selectPeer (sel_state k a (PIDInfo 1) c) 1 (r # rs) = Inr (Some 2, sel_state k a (copied []) c, rs)"
  "selectPeer (sel_state k a b (PIDInfo 2)) 2 (0 # rs) = Inr (Some 3, sel_state k a b (copied [4]), rs)"
  "selectPeer (sel_state k a b (copied [4])) 2 (r # rs) = Inr (Some 4, sel_state k a b (copied []), rs)"
  "selectPeer (sel_state k a b (copied [])) 2 rs = Inr (None, sel_state k a b (copied []), rs)"
  using assms by (elim disjE; simp add: sel_defs)+

lemma sel_pids_steps:
  "selectPeer_pids (sel_state 2 (copied []) (copied []) (copied [4])) [0, 1, 2] (q # r # rs) =
     Inr (Some 4, sel_state 2 (copied []) (copied []) (copied []), rs)"
  "selectPeer_pids (sel_state 2 (copied []) (copied []) (copied [])) [0, 1, 2] rs = Inr (None, sel_state 2 (copied []) (copied []) (copied []), rs)"
proof -
  let ?h = "sel_state 2 (copied []) (copied []) (copied [4])"
  have "sum_peers ?h [0, 1, 2] = Inr 1" "pick_pid ?h [0, 1, 2] 0 = Inr 2"
    by (simp_all add: sel_state_def copied_def pidinfo_at_def nthE_def)
  then show "selectPeer_pids ?h [0, 1, 2] (q # r # rs) = Inr (Some 4, sel_state 2 (copied []) (copied []) (copied []), rs)"
    using sel_steps(5) [of 2 "copied []" "copied []" r rs] by (simp add: selectPeer_pids_def)
  have "sum_peers (sel_state 2 (copied []) (copied []) (copied [])) [0, 1, 2] = Inr 0"
    by (simp add: sel_state_def copied_def pidinfo_at_def nthE_def)
  then show "selectPeer_pids (sel_state 2 (copied []) (copied []) (copied [])) [0, 1, 2] rs = Inr (None, sel_state 2 (copied []) (copied []) (copied []), rs)"
    by (simp add: selectPeer_pids_def)
qed

lemma sel_weighted_pids:
  "weighted_pids sel_view [0, 1 / 2, 1 / 2] 0 3 = [1, 2]" "view_getNumPeers sel_view 1 = 1" "view_getNumPeers sel_view 2 = 2"
  by (simp_all add: weighted_pids_def view_getNumPeers_def pid_slot_def sel_view_def upt_conv_Cons)

lemma sel_intrapid:
  "intrapid_loop 1 0 1 (sel_state 2 (PIDInfo 1) b c) [] (r # rs) = Inr (sel_state 2 (copied []) b c, [], rs)"
proof -
  have "intrapid_loop 1 0 1 (sel_state 2 (copied []) b c) [] rs = Inr (sel_state 2 (copied []) b c, [], rs)"
    by (subst intrapid_loop.simps) (simp add: sel_steps)
  then show ?thesis by (subst intrapid_loop.simps) (simp add: sel_steps)
qed

lemma sel_fill:
  "fill_weighted id sel_view [0, 1 / 2, 1 / 2] [1] 1 (sel_state 2 a (PIDInfo 1) c) [] (q # r # rs) = Inr (sel_state 2 a (copied []) c, [2], rs)"
  "fill_weighted id sel_view [0, 1 / 2, 1 / 2] [2] 1 (sel_state 2 a b (PIDInfo 2)) [2] (q # 0 # rs) = Inr (sel_state 2 a b (copied [4]), [2, 3], rs)"
  by (simp_all add: fill_weighted_def fillPeers_def fill_loop.simps sel_steps)

lemma d2u_nat: "of_nat k \<le> x \<Longrightarrow> x < of_nat k + 1 \<Longrightarrow> k < 2 ^ 31 \<Longrightarrow> d2u x = Inr (of_nat k)"
proof -
  assume x: "of_nat k \<le> x" "x < of_nat k + 1" "k < 2 ^ 31"
  then have "\<lfloor>x\<rfloor> = int k" by (simp add: floor_eq_iff)
  moreover have "(of_nat k :: rat) < 2 ^ 31" using x(3) of_nat_less_iff [of k "2 ^ 31", where ?'a = rat] by simp
  ultimately show ?thesis using x by (simp add: d2u_def)
qed


lemma sel_location:
  "selectPeersLocationOnly id (LocationOnly (3 / 4) (9 / 10)) (sel_isp t) (Some sel_view) 1 0 2 [] [0, 0, 0, 0, 0] =
     Inr \<lparr>sel_code = 0, sel_out = [2, 3], sel_draws = [], sel_locks = 0\<rparr>"
proof -
  let ?h = "sel_state 3 (copied []) (PIDInfo 1) (PIDInfo 2)" and ?h' = "sel_state 3 (copied []) (copied []) (PIDInfo 2)"
  have n: "d2u 2 = Inr 2" "d2u (23 / 10) = Inr 2" using d2u_nat [of 2 2] d2u_nat [of 2 "23 / 10"] by simp_all
  have "intrapid_loop 1 0 2 ?h [] rs = Inr (?h, [], rs)" for rs by (subst intrapid_loop.simps) (simp add: sel_steps)
  then have i: "intrapid_loop 1 0 2 (sel_state 3 (PIDInfo 1) (PIDInfo 1) (PIDInfo 2)) [] (r # rs) = Inr (?h, [], rs)" for r rs
    by (subst intrapid_loop.simps) (simp add: sel_steps)
  have s: "sum_peers ?h [1] = Inr 1" "sum_peers ?h' [1] = Inr 0" "sum_peers ?h' [2] = Inr 2"
    by (simp_all add: sel_state_def copied_def PIDInfo_def pidinfo_at_def nthE_def)
  have f: "fill_from (\<lambda>h. selectPeer_pids h [1]) 2 ?h [] (q # r # rs) = Inr (?h', [2], rs)" for q r rs
    using s by (simp add: numeral_2_eq_2 selectPeer_pids_def sel_steps)
  have g: "fill_from (\<lambda>h. selectPeer_pids h [2]) 1 ?h' [2] [0, 0] = Inr (sel_state 3 (copied []) (copied []) (copied [4]), [2, 3], [])"
    using s by (simp add: selectPeer_pids_def sel_steps)
  have o: "m_intrapid_pct (LocationOnly (3 / 4) (9 / 10)) = 3 / 4" "m_intraisp_pct (LocationOnly (3 / 4) (9 / 10)) = 9 / 10"
    by (simp_all add: LocationOnly_def setLocationSelectionPercentage_def)
  show ?thesis using i f g
    by (simp add: selectPeersLocationOnly_def view_listIntraISPPeers_def view_listExternalPeers_def sel_pids o sel_start n upt_conv_Cons del: One_nat_def)
qed

lemma sel_facts:
  "home_isp (sel_peers k p) = 5" "home_pid (sel_peers k p) = k" "smap_find (m_views (sm_isp_peers sel_mgr)) 5 = Some sel_view"
  "getConfiguredOptions sel_mgr 5 = LocationOnly (3 / 4) (9 / 10)" "m_opttype (LocationOnly x y) = OPT_LOCATION_ONLY"
  by (simp_all add: sel_peers_def sel_mgr_def smap_find_def getConfiguredOptions_def PGMSelectionManager_def LocationOnly_def setLocationSelectionPercentage_def)

lemma sel_run:
  "selectPeers id (\<lambda>_. sel_isp t) (sel_peers 0) PeeringGuidanceMatrixManager sel_mgr 1 2 [] [0, 0, 0, 0, 0] =
     Inr \<lparr>sel_code = 0, sel_out = [2, 3], sel_draws = [], sel_locks = 0\<rparr>"
  using sel_location [of t] by (simp add: selectPeers_def sel_pids sel_facts)

lemma sel_view_peers: "pid_peers sel_view 3 = {1, 2, 3, 4}"
  by (auto simp: pid_peers_def slot_peers_def sel_view_def lessThan_Suc numeral_eq_Suc)



lemma rounding_id: "rounding id"
  by (simp add: rounding_def mono_def)


text \<open>
  A peer whose home PID is an external one of its home ISP gets the code for unavailable guidance
  from the location-only algorithm, which then leaves the function with both shared locks held, that of the
  map of views and that of the view: no operation that needs either of them exclusively ends any more.
\<close>
theorem location_only_keeps_locks:
  assumes "smap_find (m_views (sm_isp_peers sm)) (home_isp (ps peer)) = Some v" "home_isp (ps peer) \<noteq> 0"
    and "getConfiguredOptions sm (home_isp (ps peer)) = LocationOnly a b"
    and "getNumPIDs (m_pidmap (isps (home_isp (ps peer)))) = Inr (intra, tot)"
    and "int intra \<le> home_pid (ps peer)" "home_pid (ps peer) < int tot"
  shows "selectPeers fl isps ps g sm peer num out rs =
    Inr \<lparr>sel_code = ERR_GUIDANCE_UNAVAILABLE, sel_out = out, sel_draws = rs, sel_locks = 2\<rparr>"
proof -
  have "m_opttype (LocationOnly a b) = OPT_LOCATION_ONLY" by (simp add: LocationOnly_def setLocationSelectionPercentage_def)
  moreover have "\<not> home_pid (ps peer) < 0" "intra \<le> nat (home_pid (ps peer))" "\<not> tot \<le> nat (home_pid (ps peer))" using assms(5,6) by auto
  ultimately show ?thesis
    using assms by (simp add: selectPeers_def selectPeersLocationOnly_def view_listIntraISPPeers_def view_listExternalPeers_def unavailable_def)
qed


lemma sel_helper_run: "helper_run sel_view 3 2 (sel_state 2 (PIDInfo 1) (PIDInfo 1) (copied [4])) [3]"
  using helper_run.one [OF helper_run.start [of sel_view 3 2], of 2 "[0]" "Some 3"] sel_steps(4) [of 2 "PIDInfo 1" "PIDInfo 1" "[]"]
  by (simp add: sel_start)


end
