(* ===== verification/Selection_Safety.thy ===== *)
theory Selection_Safety
  imports Selection_Properties
begin

text \<open>
  When the selection by weights ends. With exact arithmetic, percentages between 0 and 1 and random numbers
  below \<open>RAND_MAX\<close> no run fails but for want of random numbers; the random number \<open>RAND_MAX\<close> itself makes
  it throw.
\<close>

text \<open>A computation that fails at most for want of random numbers, and what holds of its result.\<close>

definition ends :: "'a result \<Rightarrow> ('a \<Rightarrow> bool) \<Rightarrow> bool" where
  "ends m Q \<longleftrightarrow> (case m of Inl e \<Rightarrow> e = Out_Of_Draws | Inr x \<Rightarrow> Q x)"

lemma ends_bind: "ends m Q \<Longrightarrow> (\<And>x. m = Inr x \<Longrightarrow> Q x \<Longrightarrow> ends (f x) R) \<Longrightarrow> ends (bindE m f) R"
  by (cases m) (auto simp: ends_def)

lemma ends_Inr [simp]: "ends (Inr x) Q \<longleftrightarrow> Q x"
  by (simp add: ends_def)

section \<open>The calls of the helper\<close>

text \<open>A call of the helper fails only when the random numbers run out.\<close>

lemma nocopy_loop_error: "nocopy_loop v pid sel rs = Inl e \<Longrightarrow> e = Out_Of_Draws"
  by (induction v pid sel rs rule: nocopy_loop.induct) (auto simp: Let_def split: if_splits)

lemma draw_error: "draw rs = Inl e \<Longrightarrow> e = Out_Of_Draws"
  by (cases rs) auto

lemma bindE_eq_Inl: "bindE m f = Inl e \<longleftrightarrow> m = Inl e \<or> (\<exists>x. m = Inr x \<and> f x = Inl e)"
  by (cases m) auto

lemma selectPeer_error:
  assumes inv: "helper_inv n h" and pid: "- 1 \<le> pid" "pid < int n" and run: "selectPeer h pid rs = Inl e"
  shows "e = Out_Of_Draws"
proof -
  note H = helper_infoD [OF inv pid]
  obtain info where c: "choose_strategy (h_isp_peers h) (h_total_peers h) pid (m_pidinfo h ! slot_of n pid) = (info, True)"
    using choose_strategy_spec [OF H(5) pid H(4)] by metis
  show ?thesis
    using run H c by (auto simp: selectPeer_def bindE_eq_Inl dest: draw_error nocopy_loop_error split: if_splits prod.splits)
qed

lemma nocopy_loop_draws: "nocopy_loop v pid sel rs = Inr (p, rs') \<Longrightarrow> set rs' \<subseteq> set rs"
  by (induction v pid sel rs rule: nocopy_loop.induct) (auto simp: Let_def split: if_splits)

lemma draw_draws: "draw rs = Inr (r, rs') \<Longrightarrow> set rs' \<subseteq> set rs"
  by (cases rs) auto

lemma selectPeer_draws:
  assumes run: "selectPeer h pid rs = Inr (res, h', rs')"
  shows "set rs' \<subseteq> set rs"
proof -
  obtain info0 where i0: "pidinfo_at h (pid_idx h pid) = Inr info0" using run by (auto simp: selectPeer_def bindE_eq_Inr)
  obtain info ok where c: "choose_strategy (h_isp_peers h) (h_total_peers h) pid info0 = (info, ok)" by fastforce
  note R = run [unfolded selectPeer_def i0 bindE_simps Let_def c case_prod_conv]
  show ?thesis
  proof (cases "strategy info = ST_COPY")
    case True
    then show ?thesis using R by (cases rs) (auto split: if_splits prod.splits)
  next
    case False
    then show ?thesis using R nocopy_loop_draws [of "h_isp_peers h" pid "selected info" rs _ rs'] by (auto simp: bindE_eq_Inr split: if_splits)
  qed
qed

lemma selectPeer_pids_error:
  assumes inv: "helper_inv n h" and pids: "set pids \<subseteq> {0..<int n}" and run: "selectPeer_pids h pids rs = Inl e"
  shows "e = Out_Of_Draws"
proof -
  let ?s = "\<Sum>pid\<leftarrow>pids. int (card (left_at h (nat pid)))"
  note S = sum_peers_spec [OF inv pids]
  show ?thesis
  proof (cases "draw rs")
    case (Inl x)
    then show ?thesis using run S draw_error [OF Inl] by (auto simp: selectPeer_pids_def split: if_splits)
  next
    case (Inr x)
    obtain r rs1 where x: "x = (r, rs1)" by fastforce
    have s: "\<not> ?s \<le> 0" using run S by (auto simp: selectPeer_pids_def)
    then obtain pid where p: "pid \<in> set pids" "pick_pid h pids (int r mod ?s) = Inr pid"
      using pick_pid_spec [OF inv pids, of "int r mod ?s"] by auto
    then have "selectPeer h pid rs1 = Inl e" using run S s Inr x by (simp add: selectPeer_pids_def)
    then show ?thesis using selectPeer_error [OF inv, of pid] p(1) pids by force
  qed
qed

lemma fill_pids_error:
  assumes "helper_inv n h" "set pids \<subseteq> {0..<int n}" "fill_from (\<lambda>h. selectPeer_pids h pids) m h out rs = Inl e"
  shows "e = Out_Of_Draws"
  using assms(1,3)
proof (induction m arbitrary: h out rs)
  case (Suc m)
  from Suc.prems(2) consider "selectPeer_pids h pids rs = Inl e"
    | p h1 rs1 where "selectPeer_pids h pids rs = Inr (Some p, h1, rs1)" "fill_from (\<lambda>h. selectPeer_pids h pids) m h1 (out @ [p]) rs1 = Inl e"
    by (auto simp: bindE_eq_Inl split: option.splits)
  then show ?case
  proof cases
    case 1
    then show ?thesis using selectPeer_pids_error [OF Suc.prems(1) assms(2)] by blast
  next
    case (2 p h1 rs1)
    then show ?thesis using Suc.IH many_pids.sel_Some [of n h pids rs p h1 rs1] Suc.prems(1) assms(2) by blast
  qed
qed simp

lemma fill_pids_ends: "helper_inv n h \<Longrightarrow> set pids \<subseteq> {0..<int n} \<Longrightarrow> ends (fill_from (\<lambda>h. selectPeer_pids h pids) m h out rs) (\<lambda>_. True)"
  using fill_pids_error by (fastforce simp: ends_def split: sum.splits)

lemma intrapid_ends:
  assumes "helper_inv n h" "0 \<le> pid" "pid < int n"
  shows "ends (intrapid_loop self pid m h out rs) (\<lambda>(h', out', rs'). set rs' \<subseteq> set rs \<and> (\<forall>k<n. k \<noteq> nat pid \<longrightarrow> left_at h' k = left_at h k))"
  using assms
proof (induction self pid m h out rs rule: intrapid_loop.induct)
  case (1 self pid m h out rs)
  note unfold = intrapid_loop.simps [of self pid m h out rs]
  show ?case
  proof (cases "selectPeer h pid rs")
    case (Inl x)
    then show ?thesis using selectPeer_error [OF 1(3) _ 1(5) Inl] 1(4) unfold by (simp add: ends_def)
  next
    case (Inr x)
    then obtain res h1 rs1 where s: "selectPeer h pid rs = Inr (res, h1, rs1)" by (cases x) auto
    have T: "takes n (nat pid) h res h1" using selectPeer_takes(1) [OF 1(3) _ 1(5) s] 1(4) by (simp add: slot_of_def)
    then have inv1: "helper_inv n h1" and fr: "\<forall>k<n. k \<noteq> nat pid \<longrightarrow> left_at h1 k = left_at h k" by (simp_all add: takes_def)
    have sub: "set rs1 \<subseteq> set rs" using selectPeer_draws [OF s] .
    show ?thesis
    proof (cases "m = 0 \<or> res = None")
      case True
      then show ?thesis using unfold s sub fr by auto
    next
      case False
      then obtain p where m: "m \<noteq> 0" and p: "res = Some p" by auto
      show ?thesis using 1(1,2) [OF m s refl refl p _ inv1 1(4,5)] unfold s m p sub fr
        by (cases "p = self") (auto simp: ends_def subset_iff split: sum.splits)
    qed
  qed
qed

section \<open>The loop over the weights\<close>

text \<open>With exact arithmetic a number below the sum of the weights falls into a bin with a weight.\<close>

lemma pick_bin_weight:
  assumes exact: "\<And>x. fl x = x" and "0 \<le> r" "r < sum_list ws" "\<forall>w\<in>set ws. 0 \<le> w"
  shows "pick_bin fl r ws < length ws \<and> 0 < ws ! pick_bin fl r ws"
  using assms(2-)
proof (induction ws arbitrary: r)
  case (Cons w ws)
  show ?case
  proof (cases "w \<le> r \<and> ws \<noteq> []")
    case True
    with Cons exact show ?thesis by auto
  next
    case False
    with Cons have "r < w" by (cases ws) auto
    with False Cons(2) show ?thesis by auto
  qed
qed simp

text \<open>What the loop keeps: the counts are right, and a bin has a weight exactly when it has peers.\<close>

definition bins_ok :: "int list \<Rightarrow> u32 list \<Rightarrow> double list \<Rightarrow> 'f selection_helper \<Rightarrow> bool" where
  "bins_ok pids pc ws h \<longleftrightarrow> length pc = length pids \<and> length ws = length pids \<and>
     (\<forall>j<length pids. unat (pc ! j) = card (left_at h (nat (pids ! j))) \<and> 0 \<le> ws ! j \<and> (ws ! j = 0 \<longleftrightarrow> pc ! j = 0))"

lemma sum_list_update_rat: "j < length ws \<Longrightarrow> sum_list (ws[j := x]) = sum_list ws - ws ! j + (x :: rat)"
  by (induction ws arbitrary: j) (auto split: nat.splits simp: less_Suc_eq_0_disj)

lemma bins_pos:
  assumes "bins_ok pids pc ws h" "0 < sum_list (map unat pc)"
  shows "0 < sum_list ws" "\<forall>w\<in>set ws. 0 \<le> w"
proof -
  show nn: "\<forall>w\<in>set ws. 0 \<le> w" using assms(1) by (auto simp: bins_ok_def in_set_conv_nth)
  obtain j where j: "j < length pc" "unat (pc ! j) \<noteq> 0" using assms(2) sum_list_eq_0_iff [of "map unat pc"] by (auto simp: in_set_conv_nth simp del: sum_list_eq_0_iff)
  then have "pc ! j \<noteq> 0" by auto
  then have "j < length ws" "ws ! j \<noteq> 0" using assms(1) j by (auto simp: bins_ok_def)
  then have "sum_list ws \<noteq> 0" using sum_list_nonneg_eq_0_iff [of ws] nn nth_mem by metis
  with sum_list_nonneg [of ws] nn show "0 < sum_list ws" by force
qed

lemma bins_step:
  assumes B: "bins_ok pids pc ws h" and d: "distinct pids" "set pids \<subseteq> {0..<int n}" and j: "j < length pids"
    and T: "takes n (nat (pids ! j)) h (Some p) h'" and inv: "helper_inv n h"
  shows "bins_ok pids (pc[j := pc ! j - 1]) (if pc[j := pc ! j - 1] ! j = 0 then ws[j := 0] else ws) h'"
    "unat (pc ! j - 1) = unat (pc ! j) - 1" "0 < unat (pc ! j)"
proof -
  have jn: "nat (pids ! j) < n" using pid_le [OF d(2) nth_mem [OF j]] .
  have fin: "finite (left_at h (nat (pids ! j)))" using finite_subset [OF left_at_sub [OF inv less_imp_le [OF jn]]] by simp
  have mem: "p \<in> left_at h (nat (pids ! j))" and l': "left_at h' (nat (pids ! j)) = left_at h (nat (pids ! j)) - {p}"
    using T by (auto simp: takes_def)
  have pj: "unat (pc ! j) = card (left_at h (nat (pids ! j)))" using B j by (simp add: bins_ok_def)
  then show pos: "0 < unat (pc ! j)" using mem fin card_gt_0_iff by auto
  then have "1 \<le> pc ! j" by (simp add: word_le_nat_alt)
  then show u: "unat (pc ! j - 1) = unat (pc ! j) - 1" by (simp add: unat_sub word_le_nat_alt)
  have other: "left_at h' (nat (pids ! i)) = left_at h (nat (pids ! i))" if "i < length pids" "i \<noteq> j" for i
  proof -
    have "pids ! i \<noteq> pids ! j" using d(1) that j by (simp add: nth_eq_iff_index_eq)
    moreover have "0 \<le> pids ! i" "0 \<le> pids ! j" using d(2) that j nth_mem by fastforce+
    moreover have "nat (pids ! i) < n" using pid_le [OF d(2) nth_mem [OF that(1)]] .
    ultimately show ?thesis using T by (auto simp: takes_def)
  qed
  have cj: "unat (pc ! j - 1) = card (left_at h' (nat (pids ! j)))" using u pj l' mem fin by simp
  show "bins_ok pids (pc[j := pc ! j - 1]) (if pc[j := pc ! j - 1] ! j = 0 then ws[j := 0] else ws) h'"
    using B j cj other pos unfolding bins_ok_def by (auto simp: nth_list_update)
qed

text \<open>With the bins as they should be, a turn of the loop finds a peer in the bin it draws.\<close>

lemma fill_loop_safe:
  assumes exact: "\<And>x. fl x = x" and pids: "distinct pids" "set pids \<subseteq> {0..<int n}" and rand: "\<forall>r\<in>set rs. r < RAND_MAX"
    and inv: "helper_inv n h" and B: "bins_ok pids pc ws h" "0 < sum_list (map unat pc)" "sum_list (map unat pc) = unat tpc"
  shows "ends (fill_loop fl pids max_peers pc ws tpc (sum_list ws) h out rs)
    (\<lambda>(h', out', rs'). set rs' \<subseteq> set rs \<and> (\<forall>k<n. int k \<notin> set pids \<longrightarrow> left_at h' k = left_at h k))"
  using rand inv B
proof (induction rs arbitrary: pc ws tpc h out rule: length_induct)
  case (1 rs)
  define F where "F = fill_loop fl pids max_peers pc ws tpc (sum_list ws) h out rs"
  note unfold = fill_loop.simps [of fl pids max_peers pc ws tpc "sum_list ws" h out rs, folded F_def]
  show ?case
  proof (cases rs)
    case Nil
    then show ?thesis unfolding F_def [symmetric] using unfold by (simp add: ends_def)
  next
    case (Cons r rs0)
    define x where "x = fl (fl (of_nat r / of_nat RAND_MAX) * sum_list ws)"
    have x: "x = of_nat r / of_nat RAND_MAX * sum_list ws" unfolding x_def by (simp only: exact)
    define j where "j = pick_bin fl x ws"
    note pos = bins_pos [OF 1(4,5)]
    have "r < RAND_MAX" using 1(2) Cons by simp
    then have "(of_nat r :: double) < of_nat RAND_MAX" by (simp only: of_nat_less_iff)
    then have "of_nat r / of_nat RAND_MAX < (1 :: double)" by simp
    then have "0 \<le> x" "x < sum_list ws" using pos(1) mult_strict_right_mono [of "of_nat r / of_nat RAND_MAX" 1 "sum_list ws"]
      unfolding x by simp_all
    from pick_bin_weight [OF exact this pos(2)] have j: "j < length pids" "ws ! j \<noteq> 0" using 1(4) unfolding j_def bins_ok_def by auto
    then have jp: "0 \<le> pids ! j" "pids ! j < int n" using pids(2) nth_mem by fastforce+
    have "unat (pc ! j) = card (left_at h (nat (pids ! j)))" "pc ! j \<noteq> 0" using 1(4) j by (auto simp: bins_ok_def)
    then have ne: "left_at h (nat (pids ! j)) \<noteq> {}" by (auto simp: unat_eq_zero)
    note unfold' = unfold [unfolded Cons list.case Let_def, folded x_def, folded j_def]
    show ?thesis
    proof (cases "selectPeer h (pids ! j) rs0")
      case (Inl e)
      then show ?thesis unfolding F_def [symmetric] using selectPeer_error [OF 1(3) _ jp(2) Inl] jp(1) unfold' by (simp add: ends_def)
    next
      case (Inr y)
      then obtain res h1 rs1 where s: "selectPeer h (pids ! j) rs0 = Inr (res, h1, rs1)" by (cases y) auto
      have T: "takes n (nat (pids ! j)) h res h1" using selectPeer_takes(1) [OF 1(3) _ jp(2) s] jp by (simp add: slot_of_def)
      then obtain p where p: "res = Some p" using ne by (cases res) (auto simp: takes_def)
      note bs = bins_step [OF 1(4) pids j(1) T [unfolded p] 1(3)]
      let ?pc = "pc[j := pc ! j - 1]"
      let ?ws = "if ?pc ! j = 0 then ws[j := 0] else ws" and ?tw = "if ?pc ! j = 0 then fl (sum_list ws - ws ! j) else sum_list ws"
      have jl: "j < length pc" "j < length ws" using j(1) 1(4) by (auto simp: bins_ok_def)
      have tw: "?tw = sum_list ?ws" using sum_list_update_rat [OF jl(2)] exact by simp
      have le: "unat (pc ! j) \<le> unat tpc" using member_le_sum_list [of "unat (pc ! j)" "map unat pc"] jl(1) 1(6) by (simp add: nth_mem)
      have "sum_list (map unat ?pc) = unat tpc - 1"
        using sum_list_update [of j "map unat pc" "unat (pc ! j - 1)"] jl(1) 1(6) bs(2,3) le by (simp add: map_update)
      moreover have "unat (tpc - 1) = unat tpc - 1" using unat_sub_if' [of tpc 1] le bs(3) by simp
      ultimately have tp: "sum_list (map unat ?pc) = unat (tpc - 1)" by simp
      have inv1: "helper_inv n h1" using T by (simp add: takes_def)
      have "k \<noteq> nat (pids ! j)" if "int k \<notin> set pids" for k using that nth_mem [OF j(1)] jp(1) by auto
      then have fr: "\<forall>k<n. int k \<notin> set pids \<longrightarrow> left_at h1 k = left_at h k" using T by (simp add: takes_def)
      have sub: "set rs1 \<subseteq> set rs" "length rs1 < length rs" using selectPeer_draws [OF s] selectPeer_shrinks [OF s [unfolded p]] Cons by auto
      show ?thesis
      proof (cases "length (out @ [p]) < unat max_peers \<and> 0 < tpc - 1")
        case True
        then have F: "F = fill_loop fl pids max_peers ?pc ?ws (tpc - 1) (sum_list ?ws) h1 (out @ [p]) rs1" 
          unfolding tw [symmetric] using unfold' s p by (simp only: sum.case prod.case option.case simp_thms if_True)
        have g: "0 < sum_list (map unat ?pc)" using True tp by (simp add: word_less_nat_alt)
        have rd: "\<forall>r\<in>set rs1. r < RAND_MAX" using sub 1(2) by blast
        from 1(1) [rule_format, OF sub(2) _ inv1 bs(1) g tp, of "out @ [p]"] rd show ?thesis
          unfolding F_def [symmetric] F ends_def using sub(1) fr by (auto simp: subset_iff split: sum.splits)
      next
        case False
        then have F: "F = Inr (h1, out @ [p], rs1)" using unfold' s p by (simp only: sum.case prod.case option.case simp_thms if_False)
        then show ?thesis unfolding F_def [symmetric] using sub(1) fr by simp
      qed
    qed
  qed
qed

lemma foldl_exact:
  assumes "\<And>x. fl x = x"
  shows "foldl (\<lambda>a w. fl (a + w)) x ws = x + sum_list (ws :: double list)"
  by (induction ws arbitrary: x) (simp_all add: assms add.assoc)

text \<open>The bins as \<open>selectPeers\<close> sets them up, when nothing was taken from their PIDs.\<close>

lemma sum_list_unat:
  "sum_list (map unat pc) < 2 ^ 32 \<Longrightarrow> unat (sum_list (pc :: u32 list)) = sum_list (map unat pc)"
proof (induction pc)
  case (Cons x pc)
  then show ?case using unat_add_lem [of x "sum_list pc"] by simp
qed simp

lemma card_pids_left:
  assumes "helper_inv n h" "distinct pids" "set pids \<subseteq> {0..<int n}"
  shows "(\<Sum>i\<leftarrow>pids. card (left_at h (nat i))) = card (pids_left pids h)"
  using assms(2,3)
proof (induction pids)
  case (Cons i pids)
  have i: "nat i < n" "0 \<le> i" using Cons.prems by auto
  have fin: "finite (left_at h k)" if "k < n" for k using finite_subset [OF left_at_sub [OF assms(1) less_imp_le [OF that]]] by simp
  have f: "finite (pids_left pids h)" using Cons.prems fin pid_le [of pids n] by (auto simp: pids_left_def)
  have "left_at h (nat i) \<inter> left_at h (nat j) = {}" if "j \<in> set pids" for j
  proof -
    have "j \<noteq> i" "0 \<le> j" "nat j < n" using Cons.prems that pid_le [of pids n j] by auto
    then show ?thesis using left_at_disjoint [OF assms(1), of "nat i" "nat j"] i by fastforce
  qed
  then have "left_at h (nat i) \<inter> pids_left pids h = {}" by (auto simp: pids_left_def)
  moreover have "pids_left (i # pids) h = left_at h (nat i) \<union> pids_left pids h" by (auto simp: pids_left_def)
  ultimately show ?case using Cons card_Un_disjoint [OF fin [OF i(1)] f] by simp
qed (simp add: pids_left_def)

lemma fill_weighted_safe:
  assumes exact: "\<And>x. fl x = x" and pids: "distinct pids" "set pids \<subseteq> {0..<int n}" and rand: "\<forall>r\<in>set rs. r < RAND_MAX"
    and inv: "helper_inv n h" and v: "view_fresh n v" "card (pid_peers v n) < 2 ^ 32"
    and fresh: "\<forall>i\<in>set pids. left_at h (nat i) = set (slot_peers v (nat i)) \<and> 0 < weights ! nat i \<and> view_getNumPeers v i \<noteq> 0"
  shows "ends (fill_weighted fl v weights pids max_peers h out rs)
    (\<lambda>(h', out', rs'). set rs' \<subseteq> set rs \<and> (\<forall>k<n. int k \<notin> set pids \<longrightarrow> left_at h' k = left_at h k))"
proof -
  let ?pc = "map (\<lambda>i. of_int (view_getNumPeers v i) :: u32) pids" and ?ws = "map (\<lambda>i. weights ! nat i) pids"
  have "pids_left pids h \<subseteq> pid_peers v n" using fresh pid_le [OF pids(2)] by (auto simp: pids_left_def pid_peers_def)
  then have "card (pids_left pids h) \<le> card (pid_peers v n)" by (rule card_mono [rotated]) (simp add: pid_peers_def)
  then have c: "(\<Sum>i\<leftarrow>pids. card (left_at h (nat i))) < 2 ^ 32" using card_pids_left [OF inv pids] v(2) by simp
  have num: "view_getNumPeers v i = int (card (left_at h (nat i)))" if "i \<in> set pids" for i
  proof -
    have i: "0 \<le> i" "nat i \<le> n" "i < int n" using pids(2) that pid_le [OF pids(2) that] by auto
    then show ?thesis
      using fresh_queries(2) [OF v(1), of i] fresh that distinct_card [OF view_freshD(3) [OF v(1) i(2)]] by (auto simp: slot_of_def)
  qed
  have pc: "unat (of_int (view_getNumPeers v i) :: u32) = card (left_at h (nat i))" if "i \<in> set pids" for i
    using num [OF that] member_le_sum_list [of "card (left_at h (nat i))" "map (\<lambda>i. card (left_at h (nat i))) pids"] that c
    by (simp add: unat_of_nat_u32)
  then have s: "sum_list (map unat ?pc) = (\<Sum>i\<leftarrow>pids. card (left_at h (nat i)))" by (simp add: comp_def cong: map_cong)
  show ?thesis
  proof (cases "pids = []")
    case True
    then show ?thesis by (simp add: fill_weighted_def fillPeers_def)
  next
    case False
    have B: "bins_ok pids ?pc ?ws h" using pc fresh num nth_mem by (fastforce simp: bins_ok_def unat_eq_zero [symmetric])
    have "0 < (\<Sum>i\<leftarrow>pids. card (left_at h (nat i)))" using False fresh num by (cases pids) auto
    then have pos: "0 < sum_list (map unat ?pc)" using s by simp
    have F: "fill_weighted fl v weights pids max_peers h out rs = fill_loop fl pids max_peers ?pc ?ws (sum_list ?pc) (sum_list ?ws) h out rs"
      using False foldl_exact [OF exact, of 0 ?ws] by (simp add: fill_weighted_def fillPeers_def)
    have "sum_list (map unat ?pc) = unat (sum_list ?pc)" using sum_list_unat [of ?pc] s c by simp
    from fill_loop_safe [OF exact pids rand inv B pos this, of max_peers out] F show ?thesis by simp
  qed
qed

section \<open>The whole selection\<close>

lemma d2u_ends: "0 \<le> x \<Longrightarrow> x < 2 ^ 32 \<Longrightarrow> ends (d2u x) (\<lambda>_. True)"
  by (simp add: d2u_def)

lemma pct_bound: "0 \<le> p \<Longrightarrow> p \<le> 1 \<Longrightarrow> k + m < 2 ^ 32 \<Longrightarrow> 0 \<le> of_nat k * p + of_nat m + 1 / 2 \<and> of_nat k * p + of_nat m + 1 / 2 < (2 ^ 32 :: double)"
proof -
  assume p: "0 \<le> p" "p \<le> 1" "k + m < 2 ^ 32"
  have "of_nat k * p \<le> (of_nat k :: double)" using mult_left_le [of p "of_nat k"] p by simp
  moreover have "of_nat (k + m + 1) \<le> (of_nat (2 ^ 32) :: double)" using p(3) by (simp only: of_nat_le_iff)
  ultimately show ?thesis using p(1) by simp
qed

lemma ends_Out: "ends m Q \<Longrightarrow> (\<exists>r. m = Inr r) \<or> m = Inl Out_Of_Draws"
  by (cases m) (auto simp: ends_def)


text \<open>The selection of the example that returns more than was asked for meets the hypotheses.\<close>

lemma sel_view_card: "card (pid_peers sel_view 3) = 4"
  by (simp add: sel_view_peers)


text \<open>
  The random number \<open>RAND_MAX\<close> is not below the sum of the weights, and the last bin is taken
  for it, be it empty or not: when the peers of the last PID are used up while another PID still has some,
  drawing it throws an exception, with the lock on the view held.
\<close>
theorem weighted_selection_throws:
  "selectPeersWeighted id 0 1 [0, 1 / 2, 1 / 2] 3 3 sel_view 1 0 3 [] [2147483647, 0, 2147483647, 0, 2147483647] =
     Inl (Runtime_Error ''illegal state: expected to retrieve non-null peer'')"
proof -
  have n: "d2u (1 / 2) = Inr 0" "d2u (7 / 2) = Inr 3" using d2u_nat [of 0 "1 / 2"] d2u_nat [of 3 "7 / 2"] by simp_all
  have "fill_weighted id sel_view [0, 1 / 2, 1 / 2] [1, 2] 3 (sel_state 4 (PIDInfo 1) (PIDInfo 1) (PIDInfo 2)) []
      [2147483647, 0, 2147483647, 0, 2147483647] = Inl (Runtime_Error ''illegal state: expected to retrieve non-null peer'')"
    by (simp add: fill_weighted_def fillPeers_def sel_weighted_pids fill_loop.simps sel_steps)
  then show ?thesis
    by (simp add: selectPeersWeighted_def sel_weighted_pids sel_start n intrapid_loop.simps [of _ _ 0])
qed

end
