(* ===== verification/Max_Heap.thy ===== *)
theory Max_Heap
  imports Random_Access_Set
begin

text \<open>
  \<open>common/cpp/src/include/p4p/detail/heap_with_delete.h\<close>: a binary heap on a random-access set, with
  deletion of any element. The first comparator, for duplicates, is the \<open>key\<close> of the set; the second
  is given by the priority \<open>prio\<close> it compares: \<open>is_larger\<close> holds when the first element has the
  higher one.
\<close>

type_synonym ('a, 'k) max_heap = "('a, 'k) random_access_set"

abbreviation hsize :: "('a, 'k) max_heap \<Rightarrow> nat" where "hsize h \<equiv> length (m_vec h)"

text \<open>\<open>parent\<close> is computed for positive indexes only.\<close>

definition hparent :: "nat \<Rightarrow> nat" where "hparent idx = (idx + 1) div 2 - 1"
definition left_child :: "nat \<Rightarrow> nat" where "left_child idx = 2 * (idx + 1) - 1"
definition right_child :: "nat \<Rightarrow> nat" where "right_child idx = (2 * (idx + 1) + 1) - 1"

definition is_larger :: "('a \<Rightarrow> 'p::linorder) \<Rightarrow> ('a, 'k) max_heap \<Rightarrow> nat \<Rightarrow> nat \<Rightarrow> bool result" where
  "is_larger prio h i j = bindE (nthE (m_vec h) i) (\<lambda>x. bindE (nthE (m_vec h) j) (\<lambda>y. Inr (prio y < prio x)))"

lemma bindE_cong [fundef_cong]: "m = m' \<Longrightarrow> (\<And>x. m' = Inr x \<Longrightarrow> f x = g x) \<Longrightarrow> bindE m f = bindE m' g"
  by (cases m') auto

lemma ras_swap_length: "ras_swap key s i j = Inr s' \<Longrightarrow> length (m_vec s') = length (m_vec s)"
  by (auto simp: ras_swap_def bindE_eq_Inr)

lemma is_larger_bounds: "is_larger prio h i j = Inr b \<Longrightarrow> i < hsize h \<and> j < hsize h"
  by (auto simp: is_larger_def bindE_eq_Inr nthE_def split: if_splits)

function percolateUp ::
    "('a \<Rightarrow> 'k::linorder) \<Rightarrow> ('a \<Rightarrow> 'p::linorder) \<Rightarrow> ('a, 'k) max_heap \<Rightarrow> nat \<Rightarrow> (('a, 'k) max_heap \<times> bool) result" where
  "percolateUp key prio h idx =
     (if idx > 0 then
        bindE (is_larger prio h idx (hparent idx)) (\<lambda>b.
          if b then bindE (ras_swap key h idx (hparent idx)) (\<lambda>h'.
                    bindE (percolateUp key prio h' (hparent idx)) (\<lambda>(h'', moved). Inr (h'', True)))
          else Inr (h, False))
      else Inr (h, False))"
  by pat_completeness auto
termination
  by (relation "measure (\<lambda>(key, prio, h, idx). idx)") (auto simp: hparent_def)

text \<open>The largest of an element and its children, where they exist.\<close>

definition largest_child :: "('a \<Rightarrow> 'p::linorder) \<Rightarrow> ('a, 'k) max_heap \<Rightarrow> nat \<Rightarrow> nat result" where
  "largest_child prio h idx =
     (let left = left_child idx; right = right_child idx in
      bindE (if left < hsize h then is_larger prio h left idx else Inr False) (\<lambda>b.
      let largest = (if b then left else idx) in
      bindE (if right < hsize h then is_larger prio h right largest else Inr False) (\<lambda>c.
        Inr (if c then right else largest))))"

lemma largest_child_cases:
  assumes "largest_child prio h idx = Inr k"
  shows "k = idx \<or> k = left_child idx \<and> k < hsize h \<or> k = right_child idx \<and> k < hsize h"
  using assms by (auto simp: largest_child_def Let_def bindE_eq_Inr split: if_splits)

function percolateDown ::
    "('a \<Rightarrow> 'k::linorder) \<Rightarrow> ('a \<Rightarrow> 'p::linorder) \<Rightarrow> ('a, 'k) max_heap \<Rightarrow> nat \<Rightarrow> (('a, 'k) max_heap \<times> bool) result" where
  "percolateDown key prio h idx =
     bindE (largest_child prio h idx) (\<lambda>largest.
       if largest \<noteq> idx then
         bindE (ras_swap key h largest idx) (\<lambda>h'.
         bindE (percolateDown key prio h' largest) (\<lambda>(h'', moved). Inr (h'', True)))
       else Inr (h, False))"
  by pat_completeness auto
termination
proof (relation "measure (\<lambda>(key, prio, h, idx). hsize h - idx)")
  fix key :: "'a \<Rightarrow> 'k::linorder" and prio :: "'a \<Rightarrow> 'p::linorder" and h idx k h'
  assume "largest_child prio h idx = Inr k" "k \<noteq> idx" "ras_swap key h k idx = Inr h'"
  moreover from this have "idx < k \<and> k < hsize h"
    using largest_child_cases [of prio h idx k] by (auto simp: left_child_def right_child_def)
  ultimately show "((key, prio, h', k), key, prio, h, idx) \<in> measure (\<lambda>(key, prio, h, idx). hsize h - idx)"
    using ras_swap_length [of key h k idx h'] by auto
qed simp

declare percolateUp.simps [simp del] percolateDown.simps [simp del]

section \<open>The operations\<close>

definition heap_push ::
    "('a \<Rightarrow> 'k::linorder) \<Rightarrow> ('a \<Rightarrow> 'p::linorder) \<Rightarrow> ('a, 'k) max_heap \<Rightarrow> 'a \<Rightarrow> (('a, 'k) max_heap \<times> bool) result" where
  "heap_push key prio h v =
     (if ras_find key h v \<noteq> None then Inr (h, False)
      else let h' = fst (ras_push_back key h v) in
        bindE (percolateUp key prio h' (hsize h' - 1)) (\<lambda>(h'', moved). Inr (h'', True)))"

definition heap_pop ::
    "('a \<Rightarrow> 'k::linorder) \<Rightarrow> ('a \<Rightarrow> 'p::linorder) \<Rightarrow> ('a, 'k) max_heap \<Rightarrow> (('a, 'k) max_heap \<times> bool) result" where
  "heap_pop key prio h =
     (if m_vec h = [] then Inr (h, False)
      else bindE (ras_swap key h 0 (hsize h - 1)) (\<lambda>h'.
           bindE (percolateDown key prio (ras_pop_back key h') 0) (\<lambda>(h'', moved). Inr (h'', True))))"

definition heap_top :: "('a, 'k) max_heap \<Rightarrow> 'a result" where
  "heap_top h = nthE (m_vec h) 0"

text \<open>
  \<open>percolateUp (idx)\<close> reads the element at \<open>idx\<close> when \<open>idx > 0\<close>, also when the element erased was the
  last one and \<open>idx\<close> is now the size of the heap.
\<close>

definition heap_erase ::
    "('a \<Rightarrow> 'k::linorder) \<Rightarrow> ('a \<Rightarrow> 'p::linorder) \<Rightarrow> ('a, 'k) max_heap \<Rightarrow> 'a \<Rightarrow> (('a, 'k) max_heap \<times> bool) result" where
  "heap_erase key prio h v = (case ras_find key h v of
       None \<Rightarrow> Inr (h, False)
     | Some idx \<Rightarrow>
         bindE (ras_swap key h idx (hsize h - 1)) (\<lambda>h'.
         let h1 = ras_pop_back key h' in
         bindE (percolateUp key prio h1 idx) (\<lambda>(h2, moved).
           if moved then Inr (h2, True)
           else bindE (percolateDown key prio h2 idx) (\<lambda>(h3, moved'). Inr (h3, True)))))"

definition heap_find :: "('a \<Rightarrow> 'k) \<Rightarrow> ('a, 'k) max_heap \<Rightarrow> 'a \<Rightarrow> 'a option result" where
  "heap_find key h v = (case ras_find key h v of
       None \<Rightarrow> Inr None
     | Some idx \<Rightarrow> bindE (nthE (m_vec h) idx) (\<lambda>x. Inr (Some x)))"

section \<open>Heap order\<close>

definition above :: "('a \<Rightarrow> 'p::linorder) \<Rightarrow> 'a list \<Rightarrow> nat \<Rightarrow> bool" where
  "above prio v i \<longleftrightarrow> prio (v ! i) \<le> prio (v ! hparent i)"

definition heap_order :: "('a \<Rightarrow> 'p::linorder) \<Rightarrow> 'a list \<Rightarrow> bool" where
  "heap_order prio v \<longleftrightarrow> (\<forall>i<length v. 0 < i \<longrightarrow> above prio v i)"

text \<open>
  Heap order everywhere but around one position: what a change of the element there leaves. The
  children of the position are still below its parent.
\<close>

definition heap_but :: "('a \<Rightarrow> 'p::linorder) \<Rightarrow> 'a list \<Rightarrow> nat \<Rightarrow> bool" where
  "heap_but prio v k \<longleftrightarrow>
     (\<forall>i<length v. 0 < i \<longrightarrow> i \<noteq> k \<longrightarrow> hparent i \<noteq> k \<longrightarrow> above prio v i) \<and>
     (0 < k \<longrightarrow> (\<forall>i<length v. 0 < i \<longrightarrow> hparent i = k \<longrightarrow> prio (v ! i) \<le> prio (v ! hparent k)))"

definition children_below :: "('a \<Rightarrow> 'p::linorder) \<Rightarrow> 'a list \<Rightarrow> nat \<Rightarrow> bool" where
  "children_below prio v k \<longleftrightarrow> (\<forall>i<length v. 0 < i \<longrightarrow> hparent i = k \<longrightarrow> above prio v i)"

lemma hparent_less: "0 < i \<Longrightarrow> hparent i < i"
  by (simp add: hparent_def)

lemma hparent_child: "0 < i \<Longrightarrow> hparent i = k \<longleftrightarrow> i = left_child k \<or> i = right_child k"
  unfolding hparent_def left_child_def right_child_def by arith

lemma heap_but_done:
  assumes "heap_but prio v k" "children_below prio v k" "k < length v \<Longrightarrow> 0 < k \<Longrightarrow> above prio v k"
  shows "heap_order prio v"
  using assms unfolding heap_but_def children_below_def heap_order_def by metis

lemma heap_top_max:
  assumes "heap_order prio v" "i < length v"
  shows "prio (v ! i) \<le> prio (v ! 0)"
  using assms(2)
proof (induction i rule: less_induct)
  case (less i)
  show ?case
  proof (cases "i = 0")
    case False
    then have "prio (v ! i) \<le> prio (v ! hparent i)" "hparent i < i"
      using assms(1) less.prems by (simp_all add: heap_order_def above_def hparent_less)
    with less.IH [of "hparent i"] less.prems show ?thesis by force
  qed simp
qed

abbreviation swap_list :: "'a list \<Rightarrow> nat \<Rightarrow> nat \<Rightarrow> 'a list" where
  "swap_list v i j \<equiv> v[i := v ! j, j := v ! i]"

lemma nth_swap_list: "i < length v \<Longrightarrow> j < length v \<Longrightarrow> k < length v \<Longrightarrow>
    swap_list v i j ! k = (if k = i then v ! j else if k = j then v ! i else v ! k)"
  by (auto simp: nth_list_update)

lemma swap_up:
  assumes hb: "heap_but prio v k" and k: "0 < k" "k < length v" and lt: "prio (v ! hparent k) < prio (v ! k)"
  shows "heap_but prio (swap_list v k (hparent k)) (hparent k)"
    and "children_below prio (swap_list v k (hparent k)) (hparent k)"
proof -
  let ?p = "hparent k" and ?w = "swap_list v k (hparent k)"
  have p: "?p < k" "?p < length v" using hparent_less [OF k(1)] k(2) by simp_all
  note nth = nth_swap_list [OF k(2) p(2)]
  have far: "above prio v i" if "i < length v" "0 < i" "i \<noteq> k" "hparent i \<noteq> k" for i
    using hb that by (simp add: heap_but_def)
  have ck: "prio (v ! i) \<le> prio (v ! ?p)" if "i < length v" "0 < i" "hparent i = k" for i
    using hb that k(1) by (simp add: heap_but_def)
  have hp: "hparent i < length v" if "i < length v" "0 < i" for i using that hparent_less [of i] by simp
  show "heap_but prio ?w ?p" unfolding heap_but_def
  proof (intro conjI allI impI)
    fix i
    assume i: "i < length ?w" "0 < i" "i \<noteq> ?p" "hparent i \<noteq> ?p"
    then have "i \<noteq> k" by auto
    show "above prio ?w i"
      using i far [of i] ck [of i] hp [of i] \<open>i \<noteq> k\<close> by (cases "hparent i = k") (auto simp: above_def nth)
  next
    fix i
    assume i: "0 < ?p" "i < length ?w" "0 < i" "hparent i = ?p"
    have top: "prio (v ! ?p) \<le> prio (v ! hparent ?p)"
      using far [of ?p] p i(1) hparent_less [of ?p] by (auto simp: above_def)
    show "prio (?w ! i) \<le> prio (?w ! hparent ?p)"
    proof (cases "i = k")
      case True
      then show ?thesis using top i p hparent_less [of ?p] by (auto simp: nth)
    next
      case False
      then have "prio (v ! i) \<le> prio (v ! ?p)" using far [of i] i p by (auto simp: above_def)
      then show ?thesis using False top i p hparent_less [of ?p] hparent_less [of i] by (auto simp: nth)
    qed
  qed
  show "children_below prio ?w ?p" unfolding children_below_def
  proof (intro allI impI)
    fix i
    assume i: "i < length ?w" "0 < i" "hparent i = ?p"
    show "above prio ?w i"
    proof (cases "i = k")
      case False
      then have "prio (v ! i) \<le> prio (v ! ?p)" using far [of i] i p by (auto simp: above_def)
      then show ?thesis using False i lt p hparent_less [of i] by (auto simp: above_def nth)
    qed (use lt k p in \<open>auto simp: above_def nth\<close>)
  qed
qed

lemma swap_down:
  assumes hb: "heap_but prio v k" and ab: "0 < k \<Longrightarrow> above prio v k"
    and c: "0 < c" "hparent c = k" "c < length v" and gt: "prio (v ! k) < prio (v ! c)"
    and mx: "\<And>i. i < length v \<Longrightarrow> 0 < i \<Longrightarrow> hparent i = k \<Longrightarrow> prio (v ! i) \<le> prio (v ! c)"
  shows "heap_but prio (swap_list v c k) c" and "above prio (swap_list v c k) c"
proof -
  let ?w = "swap_list v c k"
  have k: "k < c" "k < length v" using hparent_less [OF c(1)] c by simp_all
  note nth = nth_swap_list [OF c(3) k(2)]
  have far: "above prio v i" if "i < length v" "0 < i" "i \<noteq> k" "hparent i \<noteq> k" for i
    using hb that by (simp add: heap_but_def)
  have hp: "hparent i < length v" if "i < length v" "0 < i" for i using that hparent_less [of i] by simp
  have kk: "prio (v ! c) \<le> prio (v ! hparent k)" if "0 < k" using hb that c by (simp add: heap_but_def)
  show "above prio ?w c" using gt c k by (auto simp: above_def nth)
  show "heap_but prio ?w c" unfolding heap_but_def
  proof (intro conjI allI impI)
    fix i
    assume i: "i < length ?w" "0 < i" "i \<noteq> c" "hparent i \<noteq> c"
    consider "i = k" | "hparent i = k" | "i \<noteq> k" "hparent i \<noteq> k" by blast
    then show "above prio ?w i"
    proof cases
      case 1
      then show ?thesis using kk i k hparent_less [of k] by (auto simp: above_def nth)
    next
      case 2
      then show ?thesis using mx [of i] i k hparent_less [of i] by (auto simp: above_def nth)
    next
      case 3
      then show ?thesis using far [of i] hp [of i] i by (auto simp: above_def nth)
    qed
  next
    fix i
    assume i: "0 < c" "i < length ?w" "0 < i" "hparent i = c"
    then have "above prio v i" "i \<noteq> k" "i \<noteq> c" using far [of i] k hparent_less [of i] by auto
    then show "prio (?w ! i) \<le> prio (?w ! hparent c)" using i c k by (auto simp: above_def nth)
  qed
qed

section \<open>Percolation\<close>

lemma is_larger_Inr [simp]: "i < hsize h \<Longrightarrow> j < hsize h \<Longrightarrow> is_larger prio h i j = Inr (prio (m_vec h ! j) < prio (m_vec h ! i))"
  by (simp add: is_larger_def)

lemma percolateUp_spec:
  assumes "ras_inv key h" "idx < hsize h" "heap_but prio (m_vec h) idx"
  shows "\<exists>h' moved. percolateUp key prio h idx = Inr (h', moved) \<and> ras_inv key h' \<and> mset (m_vec h') = mset (m_vec h) \<and>
    (moved \<or> children_below prio (m_vec h) idx \<longrightarrow> heap_order prio (m_vec h')) \<and>
    (\<not> moved \<longrightarrow> h' = h \<and> (0 < idx \<longrightarrow> above prio (m_vec h) idx))"
  using assms
proof (induction idx arbitrary: h rule: less_induct)
  case (less idx)
  let ?v = "m_vec h" and ?p = "hparent idx"
  show ?case
  proof (cases "0 < idx \<and> prio (?v ! ?p) < prio (?v ! idx)")
    case False
    then have ab: "above prio ?v idx" if "0 < idx" using that by (auto simp: above_def)
    have p: "?p < hsize h" using hparent_less [of idx] less.prems(2) by (cases "idx = 0") (auto simp: hparent_def)
    have "percolateUp key prio h idx = Inr (h, False)"
      using False less.prems(2) p by (subst percolateUp.simps) (cases "0 < idx"; simp)
    then show ?thesis using less.prems ab heap_but_done [OF less.prems(3)] by auto
  next
    case True
    then have p: "?p < idx" "?p < hsize h" using hparent_less [of idx] less.prems(2) by auto
    obtain h1 where h1: "ras_swap key h idx ?p = Inr h1" "ras_inv key h1" "m_vec h1 = swap_list ?v idx ?p"
      using ras_swap_spec [OF less.prems(1,2) p(2)] by blast
    note up = swap_up [OF less.prems(3) _ less.prems(2), folded h1(3)]
    have "hsize h1 = hsize h" using h1(3) by simp
    with less.IH [OF p(1) h1(2)] up True p(2) obtain h' moved where h':
      "percolateUp key prio h1 ?p = Inr (h', moved)" "ras_inv key h'" "mset (m_vec h') = mset (m_vec h1)" "heap_order prio (m_vec h')"
      by auto
    have "percolateUp key prio h idx = Inr (h', True)"
      using True less.prems(2) p h1(1) h'(1) by (subst percolateUp.simps) simp
    moreover have "mset (m_vec h1) = mset ?v"
      unfolding h1(3) using mset_swap [of ?p ?v idx] p less.prems(2) by simp
    ultimately show ?thesis using h' by (intro exI [of _ h'] exI [of _ True]) auto
  qed
qed

lemma largest_child_spec:
  assumes "idx < hsize h"
  shows "\<exists>k. largest_child prio h idx = Inr k \<and>
    (k = idx \<and> children_below prio (m_vec h) idx \<or>
     0 < k \<and> hparent k = idx \<and> k < hsize h \<and> prio (m_vec h ! idx) < prio (m_vec h ! k) \<and>
     (\<forall>i<hsize h. 0 < i \<longrightarrow> hparent i = idx \<longrightarrow> prio (m_vec h ! i) \<le> prio (m_vec h ! k)))"
proof -
  let ?v = "m_vec h" and ?l = "left_child idx" and ?r = "right_child idx"
  have pos: "0 < ?l" "0 < ?r" "idx \<noteq> ?l" "idx \<noteq> ?r" by (auto simp: left_child_def right_child_def)
  have par: "hparent ?l = idx" "hparent ?r = idx" using pos hparent_child by blast+
  define m where "m = (if ?l < hsize h \<and> prio (?v ! idx) < prio (?v ! ?l) then ?l else idx)"
  define k where "k = (if ?r < hsize h \<and> prio (?v ! m) < prio (?v ! ?r) then ?r else m)"
  have "m < hsize h" using assms by (simp add: m_def)
  then have run: "largest_child prio h idx = Inr k"
    using assms by (auto simp: largest_child_def Let_def m_def k_def)
  have best: "prio (?v ! i) \<le> prio (?v ! k)" if "i < hsize h" "0 < i" "hparent i = idx" for i
    using that hparent_child [OF that(2), of idx] by (auto simp: k_def m_def)
  have "prio (?v ! idx) < prio (?v ! k)" if "k \<noteq> idx" using that by (auto simp: k_def m_def split: if_splits)
  then show ?thesis
    using run best pos par by (cases "k = idx") (auto simp: children_below_def above_def k_def m_def split: if_splits)
qed

lemma percolateDown_end: "hsize h \<le> idx \<Longrightarrow> percolateDown key prio h idx = Inr (h, False)"
  by (subst percolateDown.simps) (simp add: largest_child_def left_child_def right_child_def)

lemma percolateDown_spec:
  assumes "ras_inv key h" "idx < hsize h" "heap_but prio (m_vec h) idx" "0 < idx \<Longrightarrow> above prio (m_vec h) idx"
  shows "\<exists>h' moved. percolateDown key prio h idx = Inr (h', moved) \<and> ras_inv key h' \<and> mset (m_vec h') = mset (m_vec h) \<and>
    heap_order prio (m_vec h')"
  using assms
proof (induction "hsize h - idx" arbitrary: h idx rule: less_induct)
  case less
  let ?v = "m_vec h"
  obtain k where k: "largest_child prio h idx = Inr k"
    "k = idx \<and> children_below prio ?v idx \<or>
     0 < k \<and> hparent k = idx \<and> k < hsize h \<and> prio (?v ! idx) < prio (?v ! k) \<and>
     (\<forall>i<hsize h. 0 < i \<longrightarrow> hparent i = idx \<longrightarrow> prio (?v ! i) \<le> prio (?v ! k))"
    using largest_child_spec [OF less.prems(2)] by blast
  show ?case
  proof (cases "k = idx")
    case True
    then have "children_below prio ?v idx" using k(2) hparent_less [of k] by auto
    then have "heap_order prio ?v" using heap_but_done [OF less.prems(3)] less.prems(4) by blast
    moreover have "percolateDown key prio h idx = Inr (h, False)" using True k(1) by (subst percolateDown.simps) simp
    ultimately show ?thesis using less.prems(1) by auto
  next
    case False
    then have c: "0 < k" "hparent k = idx" "k < hsize h" "prio (?v ! idx) < prio (?v ! k)"
      "\<And>i. i < hsize h \<Longrightarrow> 0 < i \<Longrightarrow> hparent i = idx \<Longrightarrow> prio (?v ! i) \<le> prio (?v ! k)"
      using k(2) by blast+
    obtain h1 where h1: "ras_swap key h k idx = Inr h1" "ras_inv key h1" "m_vec h1 = swap_list ?v k idx"
      using ras_swap_spec [OF less.prems(1) c(3) less.prems(2)] by blast
    have sz: "hsize h1 = hsize h" using h1(3) by simp
    have lt: "hsize h1 - k < hsize h - idx" using hparent_less [OF c(1)] c(2,3) sz by simp
    note dn = swap_down [OF less.prems(3,4) c, folded h1(3)]
    obtain h' moved where h': "percolateDown key prio h1 k = Inr (h', moved)" "ras_inv key h'" "mset (m_vec h') = mset (m_vec h1)"
        "heap_order prio (m_vec h')"
      using less.hyps [OF lt h1(2) c(3) [folded sz] dn(1)] dn(2) by blast
    have "percolateDown key prio h idx = Inr (h', True)" using False k(1) h1(1) h'(1) by (subst percolateDown.simps) simp
    moreover have "mset (m_vec h1) = mset ?v" unfolding h1(3) using mset_swap [of idx ?v k] c(3) less.prems(2) by simp
    ultimately show ?thesis using h' by auto
  qed
qed

end
