(* ===== verification/Heap_Queue.thy ===== *)
theory Heap_Queue
  imports Max_Heap
begin

text \<open>
  The operations of the heap with deletion, and the contract its clients use: a priority queue over
  a multiset of elements with pairwise different keys. Erasing the element in the last slot reads
  one slot past the end (\<open>heap_with_delete.h\<close>, the call of \<open>percolateUp\<close> in \<open>erase\<close>), so the contract
  has a \<open>hazard\<close>, the states in which erasing an element is not defined.
\<close>

definition heap_inv :: "('a \<Rightarrow> 'k::linorder) \<Rightarrow> ('a \<Rightarrow> 'p::linorder) \<Rightarrow> ('a, 'k) max_heap \<Rightarrow> bool" where
  "heap_inv key prio h \<longleftrightarrow> ras_inv key h \<and> heap_order prio (m_vec h)"

definition erase_hazard :: "('a \<Rightarrow> 'k) \<Rightarrow> ('a, 'k) max_heap \<Rightarrow> 'a \<Rightarrow> bool" where
  "erase_hazard key h v \<longleftrightarrow> 1 < hsize h \<and> ras_find key h v = Some (hsize h - 1)"

lemma heap_invD: "heap_inv key prio h \<Longrightarrow> ras_inv key h" "heap_inv key prio h \<Longrightarrow> heap_order prio (m_vec h)"
  by (simp_all add: heap_inv_def)

section \<open>Heap order after a removal or an addition at the end\<close>

lemma heap_but_append:
  assumes "heap_order prio v"
  shows "heap_but prio (v @ [x]) (length v)" and "children_below prio (v @ [x]) (length v)"
proof -
  have far: "above prio (v @ [x]) i" if "i < length v" "0 < i" for i
    using assms that hparent_less [of i] by (auto simp: heap_order_def above_def nth_append)
  have no: "hparent i \<noteq> length v" if "i < length (v @ [x])" "0 < i" for i
    using that hparent_less [of i] by auto
  show "heap_but prio (v @ [x]) (length v)" using far no by (auto simp: heap_but_def less_Suc_eq)
  show "children_below prio (v @ [x]) (length v)" using no by (auto simp: children_below_def)
qed

lemma nth_butlast_swap_list:
  assumes "k < length v" "i < length v - 1"
  shows "butlast (swap_list v k (length v - 1)) ! i = (if i = k then v ! (length v - 1) else v ! i)"
  using assms nth_swap_list [of k v "length v - 1" i] by (auto simp: nth_butlast)

lemma heap_but_remove:
  assumes ho: "heap_order prio v" and k: "k < length v"
  shows "heap_but prio (butlast (swap_list v k (length v - 1))) k"
proof -
  let ?w = "butlast (swap_list v k (length v - 1))"
  have ab: "prio (v ! i) \<le> prio (v ! hparent i)" if "i < length v" "0 < i" for i
    using ho that by (simp add: heap_order_def above_def)
  note nth = nth_butlast_swap_list [OF k, unfolded One_nat_def]
  show ?thesis unfolding heap_but_def
  proof (intro conjI allI impI)
    fix i assume "i < length ?w" "0 < i" "i \<noteq> k" "hparent i \<noteq> k"
    then show "above prio ?w i" using ab [of i] hparent_less [of i] by (simp add: above_def nth)
  next
    fix i assume i: "0 < k" "i < length ?w" "0 < i" "hparent i = k"
    then have "hparent k < length v - 1" "i \<noteq> k" "hparent k \<noteq> k" using hparent_less [of i] hparent_less [of k] by auto
    moreover have "prio (v ! i) \<le> prio (v ! hparent k)" using order_trans [OF ab [of i] ab [of "hparent i"]] i k by simp
    ultimately show "prio (?w ! i) \<le> prio (?w ! hparent k)" using i by (simp add: nth)
  qed
qed

section \<open>The operations\<close>

lemma heap_inv_empty: "heap_inv key prio ras_empty"
  using ras_inv_empty [of key] by (auto simp: heap_inv_def heap_order_def ras_empty_def)

lemma heap_push_spec:
  assumes inv: "heap_inv key prio h"
  shows "\<exists>h'. heap_push key prio h v = Inr (h', key v \<notin> key ` set (m_vec h)) \<and> heap_inv key prio h' \<and>
    mset (m_vec h') = (if key v \<in> key ` set (m_vec h) then mset (m_vec h) else add_mset v (mset (m_vec h)))"
proof (cases "key v \<in> key ` set (m_vec h)")
  case True
  then have "heap_push key prio h v = Inr (h, False)"
    using ras_find_None [OF heap_invD(1) [OF inv], of v] by (auto simp: heap_push_def)
  with True inv show ?thesis by auto
next
  case False
  let ?h = "fst (ras_push_back key h v)"
  have h: "ras_inv key ?h" "m_vec ?h = m_vec h @ [v]"
    using ras_push_back_spec [OF heap_invD(1) [OF inv], of v] False by auto
  note ord = heap_but_append [OF heap_invD(2) [OF inv], of v, folded h(2)]
  have "length (m_vec h) < hsize ?h" by (simp add: h(2))
  with percolateUp_spec [OF h(1) _ ord(1)] ord(2) obtain h' moved where
    "percolateUp key prio ?h (length (m_vec h)) = Inr (h', moved)" "ras_inv key h'" "mset (m_vec h') = mset (m_vec ?h)"
    "heap_order prio (m_vec h')" by blast
  moreover have "ras_find key h v = None" using False by (simp add: ras_find_None [OF heap_invD(1) [OF inv]])
  ultimately show ?thesis using False h(2) by (auto simp: heap_push_def heap_inv_def Let_def)
qed

lemma heap_removed:
  assumes inv: "heap_inv key prio h" and k: "k < hsize h"
  shows "\<exists>h1. ras_swap key h k (hsize h - 1) = Inr h1 \<and> ras_inv key (ras_pop_back key h1) \<and>
    hsize (ras_pop_back key h1) = hsize h - 1 \<and> heap_but prio (m_vec (ras_pop_back key h1)) k \<and>
    mset (m_vec h) = add_mset (m_vec h ! k) (mset (m_vec (ras_pop_back key h1)))"
proof -
  have n: "hsize h - 1 < hsize h" using k by simp
  obtain h1 where h1: "ras_swap key h k (hsize h - 1) = Inr h1" "ras_inv key h1"
      "m_vec h1 = swap_list (m_vec h) k (hsize h - 1)"
    using ras_swap_spec [OF heap_invD(1) [OF inv] k n] by blast
  note p = ras_pop_back_spec [OF h1(2)]
  have v: "m_vec (ras_pop_back key h1) = butlast (swap_list (m_vec h) k (hsize h - 1))" using p(2) h1(3) by simp
  show ?thesis
    using h1(1) p(1) v heap_but_remove [OF heap_invD(2) [OF inv] k] butlast_swap_last(2) [OF k] by auto
qed

lemma percolateDown_root:
  assumes "ras_inv key h" "heap_but prio (m_vec h) k" "k \<le> hsize h" "0 < k \<Longrightarrow> above prio (m_vec h) k"
  shows "\<exists>h' moved. percolateDown key prio h k = Inr (h', moved) \<and> heap_inv key prio h' \<and> mset (m_vec h') = mset (m_vec h)"
proof (cases "k < hsize h")
  case True
  from percolateDown_spec [OF assms(1) True assms(2,4)] show ?thesis by (auto simp: heap_inv_def)
next
  case False
  then have "children_below prio (m_vec h) k" "percolateDown key prio h k = Inr (h, False)"
    using assms(3) by (auto simp: children_below_def percolateDown_end dest: hparent_less)
  with False heap_but_done [OF assms(2)] assms(1) show ?thesis by (auto simp: heap_inv_def)
qed

lemma heap_pop_spec:
  assumes inv: "heap_inv key prio h" and ne: "m_vec h \<noteq> []"
  shows "\<exists>h'. heap_pop key prio h = Inr (h', True) \<and> heap_inv key prio h' \<and>
    mset (m_vec h) = add_mset (m_vec h ! 0) (mset (m_vec h'))"
proof -
  obtain h1 where h1: "ras_swap key h 0 (hsize h - 1) = Inr h1" "ras_inv key (ras_pop_back key h1)"
      "heap_but prio (m_vec (ras_pop_back key h1)) 0" "mset (m_vec h) = add_mset (m_vec h ! 0) (mset (m_vec (ras_pop_back key h1)))"
    using heap_removed [OF inv, of 0] ne by auto
  from percolateDown_root [OF h1(2,3)] obtain h' moved where
    "percolateDown key prio (ras_pop_back key h1) 0 = Inr (h', moved)" "heap_inv key prio h'"
    "mset (m_vec h') = mset (m_vec (ras_pop_back key h1))" by auto
  then show ?thesis using ne h1 by (auto simp: heap_pop_def)
qed

lemma filter_out_key:
  assumes "distinct (map key v)" "k < length v" "mset v = add_mset (v ! k) M"
  shows "M = filter_mset (\<lambda>x. key x \<noteq> key (v ! k)) (mset v)"
proof -
  from assms(1) have "distinct (map key (v ! k # w))" if "mset w = M" for w
    using that assms(3) by (metis (no_types, lifting) image_mset_add_mset mset.simps(2) mset_eq_imp_distinct_iff mset_map)
  moreover obtain w where w: "mset w = M" using ex_mset by blast
  ultimately have "\<forall>x\<in>#M. key x \<noteq> key (v ! k)" by (force simp: image_iff)
  then have "filter_mset (\<lambda>x. key x \<noteq> key (v ! k)) M = M" by (simp add: filter_mset_eq_conv)
  then show ?thesis by (simp add: assms(3))
qed

lemma heap_erase_spec:
  assumes inv: "heap_inv key prio h" and ok: "\<not> erase_hazard key h v"
  shows "\<exists>h'. heap_erase key prio h v = Inr (h', key v \<in> key ` set (m_vec h)) \<and> heap_inv key prio h' \<and>
    mset (m_vec h') = filter_mset (\<lambda>x. key x \<noteq> key v) (mset (m_vec h))"
proof (cases "ras_find key h v")
  case None
  then have n: "key v \<notin> key ` set (m_vec h)" by (simp add: ras_find_None [OF heap_invD(1) [OF inv]])
  then have "filter_mset (\<lambda>x. key x \<noteq> key v) (mset (m_vec h)) = mset (m_vec h)"
    by (metis (mono_tags, lifting) filter_True image_eqI mset_filter)
  with None n inv show ?thesis by (auto simp: heap_erase_def)
next
  case (Some k)
  then have k: "k < hsize h" "key (m_vec h ! k) = key v" using ras_find_Some [OF heap_invD(1) [OF inv]] by auto
  have mem: "key v \<in> key ` set (m_vec h)" using k by (metis image_eqI nth_mem)
  obtain h1 where h1: "ras_swap key h k (hsize h - 1) = Inr h1" "ras_inv key (ras_pop_back key h1)"
      "hsize (ras_pop_back key h1) = hsize h - 1" "heap_but prio (m_vec (ras_pop_back key h1)) k"
      "mset (m_vec h) = add_mset (m_vec h ! k) (mset (m_vec (ras_pop_back key h1)))"
    using heap_removed [OF inv k(1)] by blast
  let ?p = "ras_pop_back key h1"
  note filt = filter_out_key [OF ras_distinct [OF heap_invD(1) [OF inv]] k(1) h1(5)]
  have size: "k < hsize ?p \<or> k = 0 \<and> hsize ?p = 0" using ok Some k(1) h1(3) by (auto simp: erase_hazard_def)
  obtain h2 moved where h2: "percolateUp key prio ?p k = Inr (h2, moved)" "ras_inv key h2" "mset (m_vec h2) = mset (m_vec ?p)"
      "moved \<longrightarrow> heap_order prio (m_vec h2)" "\<not> moved \<longrightarrow> h2 = ?p \<and> (0 < k \<longrightarrow> above prio (m_vec ?p) k)"
  proof (cases "k < hsize ?p")
    case True
    from percolateUp_spec [OF h1(2) True h1(4)] that show ?thesis by blast
  next
    case False
    with size have "percolateUp key prio ?p k = Inr (?p, False)" by (subst percolateUp.simps) simp
    then show ?thesis using size False by (intro that [of ?p False]) (use h1(2) in simp_all)
  qed
  show ?thesis
  proof (cases moved)
    case True
    then show ?thesis using Some h1(1) h2 mem filt k(2) by (auto simp: heap_erase_def heap_inv_def Let_def)
  next
    case False
    with h2(5) percolateDown_root [OF h1(2,4)] size obtain h3 moved' where
      "percolateDown key prio h2 k = Inr (h3, moved')" "heap_inv key prio h3" "mset (m_vec h3) = mset (m_vec ?p)" by auto
    then show ?thesis using Some h1(1) h2(1) False mem filt k(2) by (auto simp: heap_erase_def Let_def)
  qed
qed

lemma heap_erase_hazard:
  assumes inv: "heap_inv key prio h" and hz: "erase_hazard key h v"
  shows "heap_erase key prio h v = Inl Undefined_Behaviour"
proof -
  let ?n = "hsize h - 1"
  from hz have n: "0 < ?n" "?n < hsize h" "ras_find key h v = Some ?n" by (auto simp: erase_hazard_def)
  obtain h1 where h1: "ras_swap key h ?n ?n = Inr h1" "hsize (ras_pop_back key h1) = ?n"
    using heap_removed [OF inv n(2)] by blast
  have "is_larger prio (ras_pop_back key h1) ?n (hparent ?n) = Inl Undefined_Behaviour"
    using h1(2) by (simp add: is_larger_def)
  then have "percolateUp key prio (ras_pop_back key h1) ?n = Inl Undefined_Behaviour"
    using n(1) by (subst percolateUp.simps) simp
  then show ?thesis using n(3) h1(1) by (simp add: heap_erase_def Let_def)
qed

lemma heap_find_spec:
  assumes inv: "heap_inv key prio h"
  shows "\<exists>r. heap_find key h v = Inr r \<and> (\<forall>x. r = Some x \<longleftrightarrow> x \<in> set (m_vec h) \<and> key x = key v)"
proof -
  note ri = heap_invD(1) [OF inv]
  have uniq: "x = y" if "x \<in> set (m_vec h)" "y \<in> set (m_vec h)" "key x = key y" for x y
    using ras_distinct [OF ri] that by (auto simp: distinct_map inj_on_def)
  show ?thesis
  proof (cases "ras_find key h v")
    case None
    then have "key v \<notin> key ` set (m_vec h)" by (simp add: ras_find_None [OF ri])
    with None show ?thesis by (auto simp: heap_find_def image_iff)
  next
    case (Some i)
    then have i: "i < hsize h" "key (m_vec h ! i) = key v" by (simp_all add: ras_find_Some [OF ri])
    then have "heap_find key h v = Inr (Some (m_vec h ! i))" using Some by (simp add: heap_find_def)
    moreover have "Some (m_vec h ! i) = Some x \<longleftrightarrow> x \<in> set (m_vec h) \<and> key x = key v" for x
      using i uniq [of x "m_vec h ! i"] by auto
    ultimately show ?thesis by blast
  qed
qed

section \<open>The contract\<close>

locale keyed_queue =
  fixes empty :: 'q
    and push :: "'q \<Rightarrow> 'a \<Rightarrow> ('q \<times> bool) result"
    and pop :: "'q \<Rightarrow> ('q \<times> bool) result"
    and top :: "'q \<Rightarrow> 'a result"
    and find :: "'q \<Rightarrow> 'a \<Rightarrow> 'a option result"
    and erase :: "'q \<Rightarrow> 'a \<Rightarrow> ('q \<times> bool) result"
    and hazard :: "'q \<Rightarrow> 'a \<Rightarrow> bool"
    and invar :: "'q \<Rightarrow> bool"
    and elems :: "'q \<Rightarrow> 'a multiset"
    and key :: "'a \<Rightarrow> 'k"
    and prio :: "'a \<Rightarrow> 'p::linorder"
  assumes empty_law: "invar empty" "elems empty = {#}"
    and distinct_law: "invar q \<Longrightarrow> x \<in># elems q \<Longrightarrow> key x \<notin> key ` set_mset (elems q - {#x#})"
    and push_law: "invar q \<Longrightarrow> \<exists>q'. push q v = Inr (q', key v \<notin> key ` set_mset (elems q)) \<and> invar q' \<and>
        elems q' = (if key v \<in> key ` set_mset (elems q) then elems q else add_mset v (elems q))"
    and top_law: "invar q \<Longrightarrow> elems q \<noteq> {#} \<Longrightarrow> \<exists>x. top q = Inr x \<and> x \<in># elems q \<and> (\<forall>y. y \<in># elems q \<longrightarrow> prio y \<le> prio x)"
    and pop_law: "invar q \<Longrightarrow> top q = Inr x \<Longrightarrow> \<exists>q'. pop q = Inr (q', True) \<and> invar q' \<and> elems q = add_mset x (elems q')"
    and find_law: "invar q \<Longrightarrow> \<exists>r. find q v = Inr r \<and> (\<forall>x. r = Some x \<longleftrightarrow> x \<in># elems q \<and> key x = key v)"
    and erase_law: "invar q \<Longrightarrow> \<not> hazard q v \<Longrightarrow> \<exists>q'. erase q v = Inr (q', key v \<in> key ` set_mset (elems q)) \<and> invar q' \<and>
        elems q' = filter_mset (\<lambda>x. key x \<noteq> key v) (elems q)"
    and hazard_law: "invar q \<Longrightarrow> hazard q v \<Longrightarrow> erase q v = Inl Undefined_Behaviour"
begin

lemma find_None: "invar q \<Longrightarrow> find q v = Inr None \<longleftrightarrow> key v \<notin> key ` set_mset (elems q)"
proof -
  assume "invar q"
  then obtain r where r: "find q v = Inr r" "\<forall>x. r = Some x \<longleftrightarrow> x \<in># elems q \<and> key x = key v" using find_law by blast
  have "r = None \<longleftrightarrow> key v \<notin> key ` set_mset (elems q)"
    using r(2) by (metis (no_types, lifting) image_iff not_None_eq)
  with r(1) show ?thesis by simp
qed

lemma find_Some: "invar q \<Longrightarrow> find q v = Inr (Some x) \<longleftrightarrow> x \<in># elems q \<and> key x = key v"
proof -
  assume "invar q"
  then obtain r where "find q v = Inr r" "r = Some x \<longleftrightarrow> x \<in># elems q \<and> key x = key v" using find_law by blast
  then show ?thesis by auto
qed

lemma find_cases:
  assumes "invar q"
  obtains "find q v = Inr None" | x where "find q v = Inr (Some x)"
proof -
  obtain r where "find q v = Inr r" using find_law [OF assms] by blast
  then show ?thesis using that by (cases r) auto
qed

lemma push_new:
  "invar q \<Longrightarrow> find q v = Inr None \<Longrightarrow> \<exists>q'. push q v = Inr (q', True) \<and> invar q' \<and> elems q' = add_mset v (elems q)"
  using push_law [of q v] by (auto simp: find_None)

text \<open>Erasing an element that is there removes that element.\<close>

lemma erase_cases:
  assumes "invar q" "x \<in># elems q"
  shows "erase q x = Inl Undefined_Behaviour \<and> hazard q x \<or>
    (\<exists>q'. erase q x = Inr (q', True) \<and> invar q' \<and> elems q = add_mset x (elems q'))"
proof (cases "hazard q x")
  case False
  obtain q' where q': "erase q x = Inr (q', True)" "invar q'" "elems q' = filter_mset (\<lambda>y. key y \<noteq> key x) (elems q)"
    using erase_law [OF assms(1) False] imageI [OF assms(2), of key] by auto
  define M where "M = elems q - {#x#}"
  have M: "elems q = add_mset x M" using assms(2) by (simp add: M_def)
  have "\<forall>y\<in>#M. key y \<noteq> key x" using distinct_law [OF assms] by (metis M_def image_eqI)
  then have "elems q' = M" by (simp add: q'(3) M filter_mset_eq_conv)
  with q' M show ?thesis by auto
qed (use hazard_law [OF assms(1)] in blast)

end

lemma mset_distinct_key:
  assumes "distinct (map key v)" "x \<in> set v"
  shows "key x \<notin> key ` set_mset (mset v - {#x#})"
proof -
  obtain a b where v: "v = a @ x # b" using assms(2) by (auto dest: split_list)
  then have "mset v - {#x#} = mset (a @ b)" by simp
  with assms(1) v show ?thesis by auto
qed

interpretation mh: keyed_queue "ras_empty" "heap_push key prio" "heap_pop key prio" "heap_top" "heap_find key" "heap_erase key prio"
    "erase_hazard key" "heap_inv key prio" "\<lambda>h. mset (m_vec h)" key prio
  for key :: "'a \<Rightarrow> 'k::linorder" and prio :: "'a \<Rightarrow> 'p::linorder"
proof (unfold_locales, goal_cases)
  case 1
  show ?case by (rule heap_inv_empty)
next
  case 2
  show ?case by (simp add: ras_empty_def)
next
  case (3 q x)
  then show ?case using mset_distinct_key [OF ras_distinct [OF heap_invD(1)]] by simp
next
  case (4 q v)
  then show ?case using heap_push_spec [of key prio q v] by simp
next
  case (5 q)
  then show ?case using heap_top_max [OF heap_invD(2) [OF 5(1)]] by (force simp: heap_top_def in_set_conv_nth)
next
  case (6 q x)
  then show ?case using heap_pop_spec [OF 6(1)] by (auto simp: heap_top_def nthE_def split: if_splits)
next
  case (7 q v)
  then show ?case using heap_find_spec [OF 7] by simp
next
  case (8 q v)
  then show ?case using heap_erase_spec [OF 8] by simp
next
  case (9 q v)
  then show ?case by (rule heap_erase_hazard)
qed

section \<open>Every heap the operations build\<close>

inductive heap_reach :: "('a \<Rightarrow> 'k::linorder) \<Rightarrow> ('a \<Rightarrow> 'p::linorder) \<Rightarrow> ('a, 'k) max_heap \<Rightarrow> bool" for key prio where
  reach_empty: "heap_reach key prio ras_empty"
| reach_push: "heap_reach key prio h \<Longrightarrow> heap_push key prio h v = Inr (h', b) \<Longrightarrow> heap_reach key prio h'"
| reach_pop: "heap_reach key prio h \<Longrightarrow> heap_pop key prio h = Inr (h', b) \<Longrightarrow> heap_reach key prio h'"
| reach_erase: "heap_reach key prio h \<Longrightarrow> heap_erase key prio h v = Inr (h', b) \<Longrightarrow> heap_reach key prio h'"

lemma heap_reach_inv: "heap_reach key prio h \<Longrightarrow> heap_inv key prio h"
proof (induction rule: heap_reach.induct)
  case reach_empty
  show ?case by (rule heap_inv_empty)
next
  case (reach_push h v h' b)
  then show ?case using heap_push_spec [of key prio h v] by auto
next
  case (reach_pop h h' b)
  then show ?case using heap_pop_spec [of key prio h] by (cases "m_vec h = []") (auto simp: heap_pop_def)
next
  case (reach_erase h v h' b)
  then show ?case using heap_erase_spec [of key prio h v] heap_erase_hazard [of key prio h v] by fastforce
qed

text \<open>
  Property C27. Whatever sequence of pushes, pops and erasures has built a heap, no two of its elements
  have one key and the element on top has the highest priority of all.
\<close>
theorem heap_reach_top_max:
  assumes "heap_reach key prio h" "m_vec h \<noteq> []"
  shows "\<exists>x. heap_top h = Inr x \<and> x \<in> set (m_vec h) \<and> (\<forall>y\<in>set (m_vec h). prio y \<le> prio x) \<and> distinct (map key (m_vec h))"
  using mh.top_law [OF heap_reach_inv [OF assms(1)]] ras_distinct [OF heap_invD(1) [OF heap_reach_inv [OF assms(1)]]] assms(2)
  by auto

theorem heap_reach_top_max_witness:
  "\<exists>h. bindE (heap_push id id ras_empty (3::nat)) (\<lambda>(h, b). bindE (heap_push id id h 7) (\<lambda>(h, b). heap_push id id h 5)) = Inr (h, True) \<and>
     heap_top h = Inr 7 \<and> distinct (map id (m_vec h))"
proof -
  obtain h1 where h1: "heap_push id id ras_empty (3::nat) = Inr (h1, True)" "mset (m_vec h1) = {#3#}"
    using heap_push_spec [OF heap_inv_empty, of "id::nat\<Rightarrow>nat" "id::nat\<Rightarrow>nat" 3] by (auto simp: ras_empty_def)
  have r1: "heap_reach id id h1" using reach_push [OF reach_empty h1(1)] .
  obtain h2 where h2: "heap_push id id h1 7 = Inr (h2, True)" "mset (m_vec h2) = {#3, 7#}"
    using heap_push_spec [OF heap_reach_inv [OF r1], of 7] h1(2) by (auto dest: mset_eq_setD)
  have r2: "heap_reach id id h2" using reach_push [OF r1 h2(1)] .
  have s2: "set (m_vec h2) = {3, 7}" using arg_cong [OF h2(2), of set_mset] by simp
  obtain h3 where h3: "heap_push id id h2 5 = Inr (h3, True)" "mset (m_vec h3) = {#3, 5, 7#}"
    using heap_push_spec [OF heap_reach_inv [OF r2], of 5] h2(2) s2 by auto
  have r3: "heap_reach id id h3" using reach_push [OF r2 h3(1)] .
  have "set (m_vec h3) = {3, 5, 7}" using arg_cong [OF h3(2), of set_mset] by simp
  then show ?thesis using heap_reach_top_max [OF r3] h1 h2 h3(1) by fastforce
qed

text \<open>
  Erasing from a heap with more than one element is undefined exactly when the element
  is in the last slot: \<open>percolateUp\<close> then reads the slot just removed. In every other case the
  element with the key, and no other, is removed and the result is \<open>true\<close> if there was one.
\<close>
theorem heap_erase_exact:
  assumes "heap_reach key prio h"
  shows "(if erase_hazard key h v then heap_erase key prio h v = Inl Undefined_Behaviour
     else \<exists>h'. heap_erase key prio h v = Inr (h', key v \<in> key ` set (m_vec h)) \<and>
            mset (m_vec h') = filter_mset (\<lambda>x. key x \<noteq> key v) (mset (m_vec h)))"
  using heap_erase_spec [OF heap_reach_inv [OF assms], of v] heap_erase_hazard [OF heap_reach_inv [OF assms], of v] by auto

end
