(* ===== verification/Update_Manager.thy ===== *)
theory Update_Manager
  imports Heap_Queue "HOL-Library.Product_Lexorder"
begin

text \<open>
  \<open>common/cpp/src/lib/update_manager.cpp\<close>: the scheduler that refreshes the information on each ISP
  and the peering guidance of each selection manager. Objects are named by their address, 0 is the
  null pointer. A \<open>Task\<close> is not changed after its construction, so the queue holds its value; \<open>task_id\<close>
  is its address, and \<open>um_next\<close> the address the next \<open>new Task\<close> gets. What a task calls (the ISPs,
  the selection managers, the clock) is the record \<open>update_env\<close> over the state \<open>'w\<close> of the rest of
  the program. Public operations hold the lock of the object, so they are atomic steps here.
\<close>

section \<open>Tasks\<close>

datatype task_type = TYPE_PIDMAP | TYPE_PDISTANCE | TYPE_GUIDANCE

primrec task_rank :: "task_type \<Rightarrow> nat" where
  "task_rank TYPE_PIDMAP = 0"
| "task_rank TYPE_PDISTANCE = 1"
| "task_rank TYPE_GUIDANCE = 2"

lemma task_rank_inj: "task_rank a = task_rank b \<longleftrightarrow> a = b"
  by (cases a; cases b) auto

instantiation task_type :: linorder
begin

definition less_eq_task_type :: "task_type \<Rightarrow> task_type \<Rightarrow> bool" where
  "less_eq_task_type a b \<longleftrightarrow> task_rank a \<le> task_rank b"

definition less_task_type :: "task_type \<Rightarrow> task_type \<Rightarrow> bool" where
  "less_task_type a b \<longleftrightarrow> task_rank a < task_rank b"

instance
  by standard (auto simp: less_eq_task_type_def less_task_type_def task_rank_inj [symmetric])

end

record task =
  task_id :: nat
  exectime :: int
  ttype :: task_type
  tisp :: nat
  sel_mgr :: nat

type_synonym task_ident = "task_type \<times> nat \<times> nat"

definition task_key :: "task \<Rightarrow> task_ident" where
  "task_key t = (ttype t, tisp t, sel_mgr t)"

definition task_less :: "task \<Rightarrow> task \<Rightarrow> bool" where
  "task_less a b =
     (if ttype a < ttype b then True else if ttype b < ttype a then False
      else if tisp a < tisp b then True else if tisp b < tisp a then False
      else if sel_mgr a < sel_mgr b then True else if sel_mgr b < sel_mgr a then False
      else False)"

lemma task_less_key: "task_less a b \<longleftrightarrow> task_key a < task_key b"
  by (auto simp: task_less_def task_key_def)

text \<open>\<open>TaskPtrPriorityComparator\<close>: the earlier of two tasks is the larger one.\<close>

definition task_prio :: "task \<Rightarrow> int" where
  "task_prio t = - exectime t"

section \<open>The manager\<close>

type_synonym task_queue = "(task, task_ident) max_heap"

record update_manager =
  m_stopped :: bool
  m_isp_mgr :: nat
  m_selection_mgrs :: "(nat, unit) smap"
  m_tasks :: task_queue
  m_selmgr_tasks :: "(nat, (nat, task) smap) smap"
  um_next :: nat

record 'w update_env =
  env_time :: "'w \<Rightarrow> int"
  env_isps :: "'w \<Rightarrow> nat list"
  env_pidmap_load :: "nat \<Rightarrow> 'w \<Rightarrow> (int \<times> 'w) result"
  env_pidmap_ttl :: "nat \<Rightarrow> 'w \<Rightarrow> int"
  env_pdist_load :: "nat \<Rightarrow> 'w \<Rightarrow> (int \<times> 'w) result"
  env_pdist_ttl :: "nat \<Rightarrow> 'w \<Rightarrow> int"
  env_updatePeerDistribution :: "nat \<Rightarrow> nat \<Rightarrow> 'w \<Rightarrow> (int \<times> 'w) result"
  env_computeGuidance :: "nat \<Rightarrow> nat \<Rightarrow> 'w \<Rightarrow> (int \<times> 'w) result"
  env_getNextComputeTime :: "nat \<Rightarrow> nat \<Rightarrow> 'w \<Rightarrow> int"

abbreviation (input) ERR_INVALID_ISP :: int where "ERR_INVALID_ISP \<equiv> - 102"
abbreviation (input) TIME_INVALID :: int where "TIME_INVALID \<equiv> - 1"

definition P4PUpdateManager :: update_manager where
  "P4PUpdateManager = \<lparr>m_stopped = False, m_isp_mgr = 0, m_selection_mgrs = [], m_tasks = ras_empty,
     m_selmgr_tasks = [], um_next = 1\<rparr>"

text \<open>\<open>m_selmgr_tasks[s]\<close> creates an empty set where there is none.\<close>

definition selmgr_tasks :: "update_manager \<Rightarrow> nat \<Rightarrow> (nat, task) smap" where
  "selmgr_tasks m s = (case smap_find (m_selmgr_tasks m) s of Some ts \<Rightarrow> ts | None \<Rightarrow> [])"

definition addTask :: "update_manager \<Rightarrow> task \<Rightarrow> update_manager result" where
  "addTask m t =
     bindE (heap_push task_key task_prio (m_tasks m) t) (\<lambda>(h, pushed).
       if \<not> pushed then Inl (Runtime_Error ''Illegal state: failed to add new task'')
       else Inr (if sel_mgr t \<noteq> 0
                 then m\<lparr>m_tasks := h, m_selmgr_tasks :=
                        smap_put (sel_mgr t) (fst (smap_insert (task_id t) t (selmgr_tasks m (sel_mgr t)))) (m_selmgr_tasks m)\<rparr>
                 else m\<lparr>m_tasks := h\<rparr>))"

definition removeTask :: "update_manager \<Rightarrow> task \<Rightarrow> bool \<Rightarrow> update_manager result" where
  "removeTask m t remove_from_queue =
     bindE (if remove_from_queue then heap_erase task_key task_prio (m_tasks m) t else Inr (m_tasks m, True)) (\<lambda>(h, erased).
       if \<not> erased then Inl (Runtime_Error ''Illegal state: failed to remove existing task'')
       else Inr (if sel_mgr t \<noteq> 0
                 then m\<lparr>m_tasks := h, m_selmgr_tasks :=
                        smap_put (sel_mgr t) (smap_erase (task_id t) (selmgr_tasks m (sel_mgr t))) (m_selmgr_tasks m)\<rparr>
                 else m\<lparr>m_tasks := h\<rparr>))"

definition enqueueTask :: "update_manager \<Rightarrow> int \<Rightarrow> task_type \<Rightarrow> nat \<Rightarrow> nat \<Rightarrow> update_manager result" where
  "enqueueTask m time ty i s =
     (let t = \<lparr>task_id = um_next m, exectime = time, ttype = ty, tisp = i, sel_mgr = s\<rparr>;
          m1 = m\<lparr>um_next := um_next m + 1\<rparr> in
      bindE (heap_find task_key (m_tasks m1) t) (\<lambda>existing. case existing of
        None \<Rightarrow> addTask m1 t
      | Some e \<Rightarrow> if exectime e \<le> exectime t then Inr m1
                  else bindE (removeTask m1 e True) (\<lambda>m2. addTask m2 t)))"

fun enqueueTasks :: "update_manager \<Rightarrow> (int \<times> task_type \<times> nat \<times> nat) list \<Rightarrow> update_manager result" where
  "enqueueTasks m [] = Inr m"
| "enqueueTasks m ((time, ty, i, s) # xs) = bindE (enqueueTask m time ty i s) (\<lambda>m'. enqueueTasks m' xs)"

fun removeTasks :: "update_manager \<Rightarrow> task list \<Rightarrow> update_manager result" where
  "removeTasks m [] = Inr m"
| "removeTasks m (t # ts) = bindE (removeTask m t True) (\<lambda>m'. removeTasks m' ts)"

definition setISPManager :: "'w update_env \<Rightarrow> 'w \<Rightarrow> update_manager \<Rightarrow> nat \<Rightarrow> (update_manager \<times> bool) result" where
  "setISPManager env w m isp_mgr =
     (if m_isp_mgr m \<noteq> 0 then Inr (m, False)
      else if isp_mgr = 0 then Inl Undefined_Behaviour
      else bindE (enqueueTasks (m\<lparr>m_isp_mgr := isp_mgr\<rparr>) (map (\<lambda>i. (0, TYPE_PIDMAP, i, 0)) (env_isps env w)))
             (\<lambda>m'. Inr (m', True)))"

definition P4PUpdateManager_isp :: "'w update_env \<Rightarrow> 'w \<Rightarrow> nat \<Rightarrow> update_manager result" where
  "P4PUpdateManager_isp env w isp_mgr = bindE (setISPManager env w P4PUpdateManager isp_mgr) (\<lambda>(m, b). Inr m)"

definition addSelectionManager :: "'w update_env \<Rightarrow> 'w \<Rightarrow> update_manager \<Rightarrow> nat \<Rightarrow> (update_manager \<times> bool) result" where
  "addSelectionManager env w m s =
     (if m_isp_mgr m = 0 then Inr (m, False)
      else if smap_find (m_selection_mgrs m) s \<noteq> None then Inr (m, False)
      else bindE (enqueueTasks (m\<lparr>m_selection_mgrs := fst (smap_insert s () (m_selection_mgrs m))\<rparr>)
                    (map (\<lambda>i. (0, TYPE_GUIDANCE, i, s)) (env_isps env w)))
             (\<lambda>m'. Inr (m', True)))"

definition removeSelectionManager :: "update_manager \<Rightarrow> nat \<Rightarrow> (update_manager \<times> bool) result" where
  "removeSelectionManager m s =
     (if smap_find (m_selection_mgrs m) s = None then Inr (m, False)
      else bindE (case smap_find (m_selmgr_tasks m) s of
                    None \<Rightarrow> Inr m
                  | Some ts \<Rightarrow> bindE (removeTasks m (map snd ts)) (\<lambda>m'. Inr (m'\<lparr>m_selmgr_tasks := smap_erase s (m_selmgr_tasks m')\<rparr>)))
             (\<lambda>m'. Inr (m'\<lparr>m_selection_mgrs := smap_erase s (m_selection_mgrs m')\<rparr>, True)))"

section \<open>Executing tasks\<close>

definition updatePIDMap :: "'w update_env \<Rightarrow> 'w \<Rightarrow> update_manager \<Rightarrow> nat \<Rightarrow> (update_manager \<times> 'w) result" where
  "updatePIDMap env w m i =
     bindE (env_pidmap_load env i w) (\<lambda>(rc, w').
       if rc \<noteq> 0 then bindE (enqueueTask m (env_time env w' + 15 * 60) TYPE_PIDMAP i 0) (\<lambda>m'. Inr (m', w'))
       else bindE (enqueueTask m (env_time env w' + env_pidmap_ttl env i w') TYPE_PIDMAP i 0) (\<lambda>m'.
            bindE (enqueueTask m' 0 TYPE_PDISTANCE i 0) (\<lambda>m''. Inr (m'', w'))))"

definition updatePDistanceMap :: "'w update_env \<Rightarrow> 'w \<Rightarrow> update_manager \<Rightarrow> nat \<Rightarrow> (update_manager \<times> 'w) result" where
  "updatePDistanceMap env w m i =
     bindE (env_pdist_load env i w) (\<lambda>(rc, w').
       if rc \<noteq> 0 then bindE (enqueueTask m (env_time env w' + 15 + 60) TYPE_PDISTANCE i 0) (\<lambda>m'. Inr (m', w'))
       else bindE (enqueueTask m (env_time env w' + env_pdist_ttl env i w') TYPE_PDISTANCE i 0) (\<lambda>m'.
            bindE (enqueueTasks m' (map (\<lambda>s. (0, TYPE_GUIDANCE, i, s)) (map fst (m_selection_mgrs m')))) (\<lambda>m''. Inr (m'', w'))))"

definition updateGuidance :: "'w update_env \<Rightarrow> 'w \<Rightarrow> update_manager \<Rightarrow> nat \<Rightarrow> nat \<Rightarrow> (update_manager \<times> 'w) result" where
  "updateGuidance env w m i s =
     (if s = 0 then Inl Undefined_Behaviour
      else bindE (env_updatePeerDistribution env s i w) (\<lambda>(rc, w1).
        if rc = ERR_INVALID_ISP then Inr (m, w1)
        else bindE (env_computeGuidance env s i w1) (\<lambda>(rc', w2).
          if rc' = ERR_INVALID_ISP then Inr (m, w2)
          else let next = env_getNextComputeTime env s i w2 in
            if next = TIME_INVALID then Inr (m, w2)
            else bindE (enqueueTask m next TYPE_GUIDANCE i s) (\<lambda>m'. Inr (m', w2)))))"

definition executeTask :: "'w update_env \<Rightarrow> 'w \<Rightarrow> update_manager \<Rightarrow> task \<Rightarrow> (update_manager \<times> 'w) result" where
  "executeTask env w m t = (case ttype t of
       TYPE_PIDMAP \<Rightarrow> updatePIDMap env w m (tisp t)
     | TYPE_PDISTANCE \<Rightarrow> updatePDistanceMap env w m (tisp t)
     | TYPE_GUIDANCE \<Rightarrow> updateGuidance env w m (tisp t) (sel_mgr t))"

text \<open>
  One turn of the inner loop of \<open>run\<close>: nothing when the manager is stopped, has no task, or the first
  task is not due; otherwise the task executed.
\<close>

definition run_step :: "'w update_env \<Rightarrow> 'w \<Rightarrow> update_manager \<Rightarrow> (update_manager \<times> 'w \<times> task option) result" where
  "run_step env w m =
     (if m_stopped m \<or> m_vec (m_tasks m) = [] then Inr (m, w, None)
      else bindE (heap_top (m_tasks m)) (\<lambda>t.
        if exectime t > env_time env w then Inr (m, w, None)
        else bindE (heap_pop task_key task_prio (m_tasks m)) (\<lambda>(h, b).
          bindE (executeTask env w (m\<lparr>m_tasks := h\<rparr>) t) (\<lambda>(m', w').
          bindE (removeTask m' t False) (\<lambda>m''. Inr (m'', w', Some t))))))"

text \<open>
  The inner loop, \<open>None\<close> when the fuel is used up before it ends. The list is the tasks executed. Other
  threads get the lock between two turns; here they do not use it.
\<close>

fun run_inner :: "nat \<Rightarrow> 'w update_env \<Rightarrow> 'w \<Rightarrow> update_manager \<Rightarrow> (update_manager \<times> 'w \<times> task list) result option" where
  "run_inner 0 env w m = None"
| "run_inner (Suc n) env w m = (case run_step env w m of
       Inl e \<Rightarrow> Some (Inl e)
     | Inr (m', w', None) \<Rightarrow> Some (Inr (m', w', []))
     | Inr (m', w', Some t) \<Rightarrow> map_option (\<lambda>r. bindE r (\<lambda>(m'', w'', ts). Inr (m'', w'', t # ts))) (run_inner n env w' m'))"

definition um_stop :: "update_manager \<Rightarrow> update_manager" where
  "um_stop m = m\<lparr>m_stopped := True\<rparr>"

text \<open>The loop of the destructor, with the tasks freed in order; one turn for each element.\<close>

fun drain_tasks :: "nat \<Rightarrow> task_queue \<Rightarrow> (task_queue \<times> task list) result option" where
  "drain_tasks n h =
     (if m_vec h = [] then Some (Inr (h, []))
      else case n of
        0 \<Rightarrow> None
      | Suc k \<Rightarrow> (case heap_top h of
            Inl e \<Rightarrow> Some (Inl e)
          | Inr t \<Rightarrow> (case heap_pop task_key task_prio h of
                Inl e \<Rightarrow> Some (Inl e)
              | Inr (h', b) \<Rightarrow> map_option (\<lambda>r. bindE r (\<lambda>(h'', ts). Inr (h'', t # ts))) (drain_tasks k h'))))"

end
