(* ===== verification/Update_Spec.thy ===== *)
theory Update_Spec
  imports Update_Manager
begin

text \<open>
  The invariant of the update manager and what each of its operations does to the schedule, the map
  from task keys to execution times. The heap is used through its contract (\<open>keyed_queue\<close>); the one
  way an operation fails is the undefined read of \<open>MaxHeapWithDelete::erase\<close>, which \<open>ub_or\<close> allows.
\<close>

section \<open>Results up to undefined behaviour\<close>

definition ub_or :: "'a result \<Rightarrow> ('a \<Rightarrow> bool) \<Rightarrow> bool" where
  "ub_or r P \<longleftrightarrow> (case r of Inl e \<Rightarrow> e = Undefined_Behaviour | Inr x \<Rightarrow> P x)"

lemma ub_or_simps [simp]: "ub_or (Inl e) P \<longleftrightarrow> e = Undefined_Behaviour" "ub_or (Inr x) P \<longleftrightarrow> P x"
  by (simp_all add: ub_or_def)

lemma ub_or_bind: "ub_or (bindE r f) P \<longleftrightarrow> ub_or r (\<lambda>x. ub_or (f x) P)"
  by (cases r) auto

lemma ub_or_mono: "ub_or r P \<Longrightarrow> (\<And>x. P x \<Longrightarrow> Q x) \<Longrightarrow> ub_or r Q"
  by (cases r) auto

lemma ub_or_bindI: "ub_or r P \<Longrightarrow> (\<And>x. P x \<Longrightarrow> ub_or (f x) Q) \<Longrightarrow> ub_or (bindE r f) Q"
  by (cases r) auto

lemma ub_or_Inr: "ub_or r P \<Longrightarrow> r = Inr x \<Longrightarrow> P x"
  by simp

section \<open>The invariant\<close>

abbreviation task_mset :: "update_manager \<Rightarrow> task multiset" where
  "task_mset m \<equiv> mset (m_vec (m_tasks m))"

abbreviation queued :: "update_manager \<Rightarrow> task set" where
  "queued m \<equiv> set (m_vec (m_tasks m))"

abbreviation queue_inv :: "task_queue \<Rightarrow> bool" where
  "queue_inv \<equiv> heap_inv task_key task_prio"

text \<open>
  \<open>F\<close> holds the task that is being executed: it has left the queue and is not freed yet. Each set of
  \<open>m_selmgr_tasks\<close> holds the tasks of its selection manager and nothing else: no freed task is left in
  it. Addresses of tasks are different.
\<close>

definition um_inv :: "task set \<Rightarrow> update_manager \<Rightarrow> bool" where
  "um_inv F m \<longleftrightarrow> queue_inv (m_tasks m) \<and> smap_inv (m_selection_mgrs m) \<and> smap_inv (m_selmgr_tasks m) \<and>
     (\<forall>s. smap_inv (selmgr_tasks m s)) \<and>
     (\<forall>s k t. smap_find (selmgr_tasks m s) k = Some t \<longleftrightarrow> s \<noteq> 0 \<and> sel_mgr t = s \<and> task_id t = k \<and> t \<in> queued m \<union> F) \<and>
     inj_on task_id (queued m \<union> F) \<and> (\<forall>t\<in>queued m \<union> F. task_id t < um_next m)"

lemma um_invD:
  assumes "um_inv F m"
  shows "queue_inv (m_tasks m)" "smap_inv (m_selection_mgrs m)" "smap_inv (m_selmgr_tasks m)" "smap_inv (selmgr_tasks m s)"
    "smap_find (selmgr_tasks m s) k = Some t \<longleftrightarrow> s \<noteq> 0 \<and> sel_mgr t = s \<and> task_id t = k \<and> t \<in> queued m \<union> F"
    "inj_on task_id (queued m \<union> F)" "t \<in> queued m \<union> F \<Longrightarrow> task_id t < um_next m"
  using assms by (auto simp: um_inv_def)

text \<open>What the operations on tasks leave alone.\<close>

definition um_frame :: "update_manager \<Rightarrow> update_manager \<Rightarrow> bool" where
  "um_frame m m' \<longleftrightarrow> m_stopped m' = m_stopped m \<and> m_isp_mgr m' = m_isp_mgr m \<and> m_selection_mgrs m' = m_selection_mgrs m"

lemma um_frame_refl [simp]: "um_frame m m"
  by (simp add: um_frame_def)

lemma um_frame_trans: "um_frame m m' \<Longrightarrow> um_frame m' m'' \<Longrightarrow> um_frame m m''"
  by (simp add: um_frame_def)

lemma selmgr_tasks_put [simp]:
  "smap_inv (m_selmgr_tasks m) \<Longrightarrow>
   selmgr_tasks (m\<lparr>m_tasks := h, m_selmgr_tasks := smap_put s ts (m_selmgr_tasks m)\<rparr>) s' = (if s' = s then ts else selmgr_tasks m s')"
  by (simp add: selmgr_tasks_def)

lemma selmgr_tasks_upd [simp]:
  "selmgr_tasks (m\<lparr>m_tasks := h\<rparr>) s = selmgr_tasks m s" "selmgr_tasks (m\<lparr>um_next := n\<rparr>) s = selmgr_tasks m s"
  "selmgr_tasks (m\<lparr>m_selection_mgrs := x\<rparr>) s = selmgr_tasks m s" "selmgr_tasks (m\<lparr>m_isp_mgr := y\<rparr>) s = selmgr_tasks m s"
  "selmgr_tasks (m\<lparr>m_stopped := b\<rparr>) s = selmgr_tasks m s"
  by (simp_all add: selmgr_tasks_def)

lemma um_inv_fields [simp]:
  "um_inv F (m\<lparr>m_isp_mgr := y\<rparr>) = um_inv F m" "um_inv F (m\<lparr>m_stopped := b\<rparr>) = um_inv F m"
  by (simp_all add: um_inv_def)

section \<open>Adding and removing a task\<close>

lemma addTask_spec:
  assumes inv: "um_inv F m" and new: "task_key t \<notin> task_key ` queued m" "task_id t \<notin> task_id ` (queued m \<union> F)" "task_id t < um_next m"
  shows "\<exists>m'. addTask m t = Inr m' \<and> um_inv F m' \<and> task_mset m' = add_mset t (task_mset m) \<and> um_frame m m' \<and> um_next m' = um_next m"
proof -
  note I = um_invD [OF inv]
  obtain h where h: "heap_push task_key task_prio (m_tasks m) t = Inr (h, True)" "queue_inv h"
      "mset (m_vec h) = add_mset t (task_mset m)"
    using heap_push_spec [OF I(1), of t] new(1) by auto
  have q: "set (m_vec h) = insert t (queued m)" using arg_cong [OF h(3), of set_mset] by simp
  let ?ts = "smap_put (task_id t) t (selmgr_tasks m (sel_mgr t))"
  have none: "smap_find (selmgr_tasks m (sel_mgr t)) (task_id t) = None"
    using I(5) [of "sel_mgr t" "task_id t"] new(2) by (metis image_eqI not_None_eq)
  then have ins: "fst (smap_insert (task_id t) t (selmgr_tasks m (sel_mgr t))) = ?ts" by (simp add: smap_insert_def)
  let ?m = "if sel_mgr t \<noteq> 0 then m\<lparr>m_tasks := h, m_selmgr_tasks := smap_put (sel_mgr t) ?ts (m_selmgr_tasks m)\<rparr> else m\<lparr>m_tasks := h\<rparr>"
  have run: "addTask m t = Inr ?m" using h(1) ins by (simp add: addTask_def)
  have tasks: "m_tasks ?m = h" "um_next ?m = um_next m" by simp_all
  have find: "smap_find (selmgr_tasks ?m s) k = Some u \<longleftrightarrow>
      s \<noteq> 0 \<and> sel_mgr u = s \<and> task_id u = k \<and> u \<in> set (m_vec h) \<union> F" for s k u
    using I(3) I(4) [of s] I(5) [of s k u] none q new(2) by (auto simp: image_iff split: if_splits)
  have "um_inv F ?m" unfolding um_inv_def tasks
  proof (intro conjI allI ballI)
    show "inj_on task_id (set (m_vec h) \<union> F)" using I(6) new(2) q by auto
    show "task_id u < um_next m" if "u \<in> set (m_vec h) \<union> F" for u using that I(7) new(3) q by auto
  qed (use h(2) I(2,3,4) find in auto)
  then show ?thesis using run h(3) by (auto simp: um_frame_def)
qed

lemma remove_from_sets:
  assumes inv: "um_inv F m" and h: "queue_inv h" "set (m_vec h) \<union> F' = queued m \<union> F - {t}" and t: "t \<in> queued m \<union> F"
  defines "m' \<equiv> if sel_mgr t \<noteq> 0
      then m\<lparr>m_tasks := h, m_selmgr_tasks := smap_put (sel_mgr t) (smap_erase (task_id t) (selmgr_tasks m (sel_mgr t))) (m_selmgr_tasks m)\<rparr>
      else m\<lparr>m_tasks := h\<rparr>"
  shows "um_inv F' m'"
proof -
  note I = um_invD [OF inv]
  have tasks: "m_tasks m' = h" "um_next m' = um_next m" by (simp_all add: m'_def)
  have id: "u = t" if "u \<in> queued m \<union> F" "task_id u = task_id t" for u using that t I(6) by (auto simp: inj_on_def)
  have find: "smap_find (selmgr_tasks m' s) k = Some u \<longleftrightarrow>
      s \<noteq> 0 \<and> sel_mgr u = s \<and> task_id u = k \<and> u \<in> set (m_vec h) \<union> F'" for s k u
    unfolding h(2) using I(3) I(4) [of s] I(5) [of s k u] id [of u] t by (auto simp: m'_def)
  show ?thesis unfolding um_inv_def tasks
  proof (intro conjI allI ballI)
    show "inj_on task_id (set (m_vec h) \<union> F')" unfolding h(2) using I(6) by (rule inj_on_subset) auto
    show "task_id u < um_next m" if "u \<in> set (m_vec h) \<union> F'" for u using that I(7) unfolding h(2) by auto
  qed (use h(1) I(2,3,4) find in \<open>auto simp: m'_def\<close>)
qed

lemma queue_distinct:
  assumes "queue_inv h" "mset (m_vec h) = add_mset t M"
  shows "t \<notin># M" and "task_key t \<notin> task_key ` set_mset M"
proof -
  have "t \<in># mset (m_vec h)" by (simp add: assms(2))
  from mh.distinct_law [OF assms(1) this] show "task_key t \<notin> task_key ` set_mset M" by (simp add: assms(2))
  then show "t \<notin># M" by auto
qed

lemma removeTask_spec:
  assumes inv: "um_inv F m" and t: "t \<in> queued m" "t \<notin> F"
  shows "ub_or (removeTask m t True) (\<lambda>m'. um_inv F m' \<and> task_mset m = add_mset t (task_mset m') \<and> um_frame m m' \<and> um_next m' = um_next m)"
proof -
  have "t \<in># task_mset m" using t(1) by simp
  from mh.erase_cases [OF um_invD(1) [OF inv] this] consider
      "heap_erase task_key task_prio (m_tasks m) t = Inl Undefined_Behaviour"
    | h where "heap_erase task_key task_prio (m_tasks m) t = Inr (h, True)" "queue_inv h" "task_mset m = add_mset t (mset (m_vec h))"
    by blast
  then show ?thesis
  proof cases
    case 1
    then show ?thesis by (simp add: removeTask_def)
  next
    case 2
    have "set (m_vec h) = queued m - {t}"
      using queue_distinct(1) [OF um_invD(1) [OF inv] 2(3)] arg_cong [OF 2(3), of set_mset] by auto
    then have "set (m_vec h) \<union> F = queued m \<union> F - {t}" using t(2) by auto
    from remove_from_sets [OF inv 2(2) this] t(1) show ?thesis
      using 2(1,3) by (auto simp: removeTask_def um_frame_def)
  qed
qed

lemma removeTask_executed:
  assumes inv: "um_inv {t} m" and t: "t \<notin> queued m"
  shows "\<exists>m'. removeTask m t False = Inr m' \<and> um_inv {} m' \<and> task_mset m' = task_mset m \<and> um_frame m m'"
proof -
  have "set (m_vec (m_tasks m)) \<union> {} = queued m \<union> {t} - {t}" using t by auto
  from remove_from_sets [OF inv um_invD(1) [OF inv] this] show ?thesis
    by (auto simp: removeTask_def um_frame_def)
qed

section \<open>The schedule\<close>

definition sched :: "update_manager \<Rightarrow> task_ident \<Rightarrow> int option" where
  "sched m k = map_of (map (\<lambda>t. (task_key t, exectime t)) (m_vec (m_tasks m))) k"

lemma sched_Some:
  assumes "queue_inv (m_tasks m)"
  shows "sched m k = Some x \<longleftrightarrow> (\<exists>t\<in>queued m. task_key t = k \<and> exectime t = x)"
proof -
  have "distinct (map fst (map (\<lambda>t. (task_key t, exectime t)) (m_vec (m_tasks m))))"
    using ras_distinct [OF heap_invD(1) [OF assms]] by (simp add: o_def)
  from map_of_eq_Some_iff [OF this, of k x] show ?thesis unfolding sched_def by auto
qed

lemma sched_None: "sched m k = None \<longleftrightarrow> k \<notin> task_key ` queued m"
  by (auto simp: sched_def map_of_eq_None_iff image_image)

lemma sched_mset:
  assumes "queue_inv (m_tasks m)" "queue_inv (m_tasks m')" "task_mset m = task_mset m'"
  shows "sched m = sched m'"
proof
  fix k
  have q: "queued m = queued m'" using arg_cong [OF assms(3), of set_mset] by simp
  show "sched m k = sched m' k"
    using sched_Some [OF assms(1), of k] sched_Some [OF assms(2), of k] q by (metis not_None_eq)
qed

lemma sched_add:
  assumes "queue_inv (m_tasks m')" "queue_inv (m_tasks m)" "task_mset m' = add_mset t (task_mset m)"
  shows "sched m' = (sched m)(task_key t \<mapsto> exectime t)"
proof (rule ext)
  fix k
  have q: "queued m' = insert t (queued m)" using arg_cong [OF assms(3), of set_mset] by simp
  have n: "task_key t \<notin> task_key ` queued m" using queue_distinct(2) [OF assms(1,3)] by simp
  show "sched m' k = ((sched m)(task_key t \<mapsto> exectime t)) k"
  proof (cases "sched m' k")
    case None
    then show ?thesis using q sched_None [of m' k] sched_None [of m k] by auto
  next
    case (Some x)
    then show ?thesis using q n sched_Some [OF assms(1), of k x] sched_Some [OF assms(2), of k x] by (auto simp: image_iff)
  qed
qed

lemma sched_remove:
  assumes "queue_inv (m_tasks m')" "queue_inv (m_tasks m)" "task_mset m = add_mset t (task_mset m')"
  shows "sched m' = (sched m)(task_key t := None)"
proof -
  have "sched m' (task_key t) = None"
    using queue_distinct(2) [OF assms(2,3)] by (simp add: sched_None)
  then show ?thesis unfolding sched_add [OF assms(2,1,3)] by auto
qed

text \<open>Of two times for one task the earlier one counts.\<close>

definition earliest :: "int \<Rightarrow> int option \<Rightarrow> int" where
  "earliest x y = (case y of None \<Rightarrow> x | Some z \<Rightarrow> min x z)"

lemma addTask_sched:
  assumes inv: "um_inv F m" "F \<inter> queued m = {}"
    and new: "task_key t \<notin> task_key ` queued m" "task_id t \<notin> task_id ` (queued m \<union> F)" "task_id t < um_next m"
  shows "\<exists>m'. addTask m t = Inr m' \<and> um_inv F m' \<and> F \<inter> queued m' = {} \<and> um_frame m m' \<and>
    sched m' = (sched m)(task_key t \<mapsto> exectime t)"
proof -
  obtain m' where m': "addTask m t = Inr m'" "um_inv F m'" "task_mset m' = add_mset t (task_mset m)" "um_frame m m'"
    using addTask_spec [OF inv(1) new] by auto
  have "t \<notin> F" using new(2) by blast
  then have "F \<inter> queued m' = {}" using inv(2) arg_cong [OF m'(3), of set_mset] by auto
  then show ?thesis using m' sched_add [OF um_invD(1) [OF m'(2)] um_invD(1) [OF inv(1)] m'(3)] by blast
qed

lemma replaceTask_spec:
  assumes inv: "um_inv F m" "F \<inter> queued m = {}" and e: "e \<in> queued m" "task_key e = task_key t"
    and new: "task_id t \<notin> task_id ` (queued m \<union> F)" "task_id t < um_next m"
  shows "ub_or (bindE (removeTask m e True) (\<lambda>m2. addTask m2 t)) (\<lambda>m'. um_inv F m' \<and> F \<inter> queued m' = {} \<and> um_frame m m' \<and>
    sched m' = (sched m)(task_key t \<mapsto> exectime t))"
proof (rule ub_or_bindI)
  have "e \<notin> F" using e(1) inv(2) by auto
  from removeTask_spec [OF inv(1) e(1) this]
  show "ub_or (removeTask m e True) (\<lambda>m'. um_inv F m' \<and> task_mset m = add_mset e (task_mset m') \<and> um_frame m m' \<and> um_next m' = um_next m)" .
next
  fix m2
  assume "um_inv F m2 \<and> task_mset m = add_mset e (task_mset m2) \<and> um_frame m m2 \<and> um_next m2 = um_next m"
  then have m2: "um_inv F m2" "task_mset m = add_mset e (task_mset m2)" "um_frame m m2" "um_next m2 = um_next m" by auto
  have sub: "queued m2 \<subseteq> queued m" using arg_cong [OF m2(2), of set_mset] by auto
  have n: "task_key t \<notin> task_key ` queued m2" using queue_distinct(2) [OF um_invD(1) [OF inv(1)] m2(2)] e(2) by simp
  have "F \<inter> queued m2 = {}" "task_id t \<notin> task_id ` (queued m2 \<union> F)" using inv(2) new(1) sub by auto
  from addTask_sched [OF m2(1) this(1) n this(2)] m2(3,4) new(2)
    sched_remove [OF um_invD(1) [OF m2(1)] um_invD(1) [OF inv(1)] m2(2)] e(2)
  show "ub_or (addTask m2 t) (\<lambda>m'. um_inv F m' \<and> F \<inter> queued m' = {} \<and> um_frame m m' \<and> sched m' = (sched m)(task_key t \<mapsto> exectime t))"
    by (auto intro: um_frame_trans)
qed

lemma enqueueTask_spec:
  assumes inv: "um_inv F m" and F: "F \<inter> queued m = {}"
  shows "ub_or (enqueueTask m x ty i s) (\<lambda>m'. um_inv F m' \<and> F \<inter> queued m' = {} \<and> um_frame m m' \<and>
    sched m' = (sched m)((ty, i, s) \<mapsto> earliest x (sched m (ty, i, s))))"
proof -
  let ?t = "\<lparr>task_id = um_next m, exectime = x, ttype = ty, tisp = i, sel_mgr = s\<rparr>" and ?m1 = "m\<lparr>um_next := um_next m + 1\<rparr>"
  have k: "task_key ?t = (ty, i, s)" by (simp add: task_key_def)
  have inv1: "um_inv F ?m1" "F \<inter> queued ?m1 = {}" using inv F by (auto simp: um_inv_def less_Suc_eq)
  have fresh: "task_id ?t \<notin> task_id ` (queued ?m1 \<union> F)" "task_id ?t < um_next ?m1" using um_invD(7) [OF inv] by (force, simp)
  have same: "sched ?m1 = sched m" "\<And>m'. um_frame ?m1 m' = um_frame m m'" by (simp_all add: sched_def um_frame_def fun_eq_iff)
  note Q = um_invD(1) [OF inv]
  from Q show ?thesis
  proof (rule mh.find_cases [of _ _ _ ?t])
    assume f: "heap_find task_key (m_tasks m) ?t = Inr None"
    then have n: "task_key ?t \<notin> task_key ` queued ?m1" using mh.find_None [OF Q, of ?t] by simp
    have "sched m (ty, i, s) = None" using n k by (simp add: sched_None)
    with f addTask_sched [OF inv1 n fresh] k same show ?thesis by (auto simp: enqueueTask_def Let_def earliest_def)
  next
    fix e assume f: "heap_find task_key (m_tasks m) ?t = Inr (Some e)"
    then have e: "e \<in> queued ?m1" "task_key e = task_key ?t" using mh.find_Some [OF Q, of ?t e] by auto
    then have se: "sched m (ty, i, s) = Some (exectime e)" using sched_Some [OF Q] k by auto
    show ?thesis
    proof (cases "exectime e \<le> x")
      case True
      then show ?thesis using f inv1 se same(1) by (auto simp: enqueueTask_def Let_def earliest_def min_def um_frame_def)
    next
      case False
      with f replaceTask_spec [OF inv1 e fresh] k same se show ?thesis by (simp add: enqueueTask_def Let_def earliest_def)
    qed
  qed
qed

section \<open>Sequences of tasks\<close>

text \<open>The abstract scheduler: a map from task keys to times.\<close>

type_synonym schedule = "task_ident \<Rightarrow> int option"

fun sched_enqueue :: "int \<times> task_type \<times> nat \<times> nat \<Rightarrow> schedule \<Rightarrow> schedule" where
  "sched_enqueue (x, ty, i, s) \<sigma> = \<sigma>((ty, i, s) \<mapsto> earliest x (\<sigma> (ty, i, s)))"

lemma enqueueTasks_spec:
  assumes "um_inv F m" "F \<inter> queued m = {}"
  shows "ub_or (enqueueTasks m es) (\<lambda>m'. um_inv F m' \<and> F \<inter> queued m' = {} \<and> um_frame m m' \<and> sched m' = fold sched_enqueue es (sched m))"
  using assms
proof (induction es arbitrary: m)
  case (Cons e es)
  obtain x ty i s where e: "e = (x, ty, i, s)" by (cases e)
  have "ub_or (enqueueTasks m' es) (\<lambda>m''. um_inv F m'' \<and> F \<inter> queued m'' = {} \<and> um_frame m m'' \<and>
      sched m'' = fold sched_enqueue (e # es) (sched m))"
    if "um_inv F m'" "F \<inter> queued m' = {}" "um_frame m m'" "sched m' = sched_enqueue e (sched m)" for m'
    using that by (intro ub_or_mono [OF Cons.IH]) (auto intro: um_frame_trans)
  then show ?case unfolding e enqueueTasks.simps
    using e by (intro ub_or_bindI [OF enqueueTask_spec [OF Cons.prems]]) auto
qed simp

lemma removeTasks_spec:
  assumes "um_inv {} m" "distinct ts" "set ts \<subseteq> queued m"
  shows "ub_or (removeTasks m ts) (\<lambda>m'. um_inv {} m' \<and> task_mset m = mset ts + task_mset m' \<and> um_frame m m')"
  using assms
proof (induction ts arbitrary: m)
  case (Cons t ts)
  have "ub_or (removeTasks m' ts) (\<lambda>m''. um_inv {} m'' \<and> task_mset m = mset (t # ts) + task_mset m'' \<and> um_frame m m'')"
    if m': "um_inv {} m'" "task_mset m = add_mset t (task_mset m')" "um_frame m m'" for m'
  proof -
    have "set ts \<subseteq> queued m'" using Cons.prems(2,3) arg_cong [OF m'(2), of set_mset] by auto
    then have "ub_or (removeTasks m' ts) (\<lambda>m''. um_inv {} m'' \<and> task_mset m' = mset ts + task_mset m'' \<and> um_frame m' m'')"
      using Cons.IH [OF m'(1)] Cons.prems(2) by simp
    then show ?thesis using m'(2,3) by (elim ub_or_mono) (auto intro: um_frame_trans)
  qed
  then show ?case unfolding removeTasks.simps
    using Cons.prems by (intro ub_or_bindI [OF removeTask_spec]) auto
qed simp

text \<open>Removing every task of a selection manager.\<close>

definition sched_forget :: "nat \<Rightarrow> schedule \<Rightarrow> schedule" where
  "sched_forget s \<sigma> = (\<lambda>(ty, i, s'). if s' = s then None else \<sigma> (ty, i, s'))"

lemma selmgr_tasks_set:
  assumes inv: "um_inv {} m" and s: "s \<noteq> 0"
  shows "set (map snd (selmgr_tasks m s)) = {t \<in> queued m. sel_mgr t = s}" and "distinct (map snd (selmgr_tasks m s))"
proof -
  note I = um_invD [OF inv]
  have mem: "(k, t) \<in> set (selmgr_tasks m s) \<longleftrightarrow> sel_mgr t = s \<and> task_id t = k \<and> t \<in> queued m" for k t
    using I(5) [of s k t] smap_find_Some_iff [OF I(4) [of s], of k t] s by auto
  show "set (map snd (selmgr_tasks m s)) = {t \<in> queued m. sel_mgr t = s}" using mem by force
  have "inj_on snd (set (selmgr_tasks m s))" using mem by (auto simp: inj_on_def)
  then show "distinct (map snd (selmgr_tasks m s))"
    using smap_inv_distinct [OF I(4) [of s]] by (simp add: distinct_map)
qed

lemma sched_filter:
  assumes "queue_inv (m_tasks m)" "queue_inv (m_tasks m')" "queued m' = {t \<in> queued m. sel_mgr t \<noteq> s}"
  shows "sched m' = sched_forget s (sched m)"
proof
  fix k :: task_ident
  obtain ty i s' where k: "k = (ty, i, s')" by (cases k)
  have "sched m' k = Some x \<longleftrightarrow> sched_forget s (sched m) k = Some x" for x
    using sched_Some [OF assms(2), of k x] sched_Some [OF assms(1), of k x] assms(3) k
    by (auto simp: sched_forget_def task_key_def)
  then show "sched m' k = sched_forget s (sched m) k" by (metis not_None_eq)
qed

lemma distinct_mapD: "distinct (map f xs) \<Longrightarrow> distinct xs"
  by (simp add: distinct_map)

lemma removeSelectionManager_spec:
  assumes inv: "um_inv {} m" and s: "s \<noteq> 0" "smap_find (m_selection_mgrs m) s \<noteq> None"
  shows "ub_or (removeSelectionManager m s) (\<lambda>(m', b). b \<and> um_inv {} m' \<and> m_stopped m' = m_stopped m \<and> m_isp_mgr m' = m_isp_mgr m \<and>
    m_selection_mgrs m' = smap_erase s (m_selection_mgrs m) \<and> sched m' = sched_forget s (sched m) \<and>
    (\<forall>t\<in>queued m'. sel_mgr t \<noteq> s))"
proof -
  note I = um_invD [OF inv] and T = selmgr_tasks_set [OF inv s(1)]
  define rm where "rm = (case smap_find (m_selmgr_tasks m) s of None \<Rightarrow> Inr m
     | Some ts \<Rightarrow> bindE (removeTasks m (map snd ts)) (\<lambda>m'. Inr (m'\<lparr>m_selmgr_tasks := smap_erase s (m_selmgr_tasks m')\<rparr>)))"
  have erased: "um_inv {} (m'\<lparr>m_selmgr_tasks := smap_erase s (m_selmgr_tasks m')\<rparr>)"
    if "um_inv {} m'" "\<forall>t\<in>queued m'. sel_mgr t \<noteq> s" for m'
  proof -
    have "selmgr_tasks (m'\<lparr>m_selmgr_tasks := smap_erase s (m_selmgr_tasks m')\<rparr>) s' = (if s' = s then [] else selmgr_tasks m' s')" for s'
      by (simp add: selmgr_tasks_def)
    with that show ?thesis by (auto simp: um_inv_def)
  qed
  have "ub_or rm (\<lambda>m'. um_inv {} m' \<and> um_frame m m' \<and> queued m' = {t \<in> queued m. sel_mgr t \<noteq> s})"
  proof (cases "smap_find (m_selmgr_tasks m) s")
    case None
    then have "\<forall>t\<in>queued m. sel_mgr t \<noteq> s" using T(1) by (auto simp: selmgr_tasks_def)
    then show ?thesis using None inv by (auto simp: rm_def)
  next
    case (Some ts)
    then have ts: "ts = selmgr_tasks m s" by (simp add: selmgr_tasks_def)
    have sub: "set (map snd ts) \<subseteq> queued m" "distinct (map snd ts)" using T ts by auto
    have "queued m' = {t \<in> queued m. sel_mgr t \<noteq> s}" if "um_inv {} m'" "task_mset m = mset (map snd ts) + task_mset m'" for m'
    proof -
      have "distinct (map snd ts @ m_vec (m_tasks m'))"
        using distinct_mapD [OF ras_distinct [OF heap_invD(1) [OF I(1)]]] that(2) by (metis mset_append mset_eq_imp_distinct_iff)
      then have "set (map snd ts) \<inter> queued m' = {}" by auto
      moreover have "queued m = set (map snd ts) \<union> queued m'" using arg_cong [OF that(2), of set_mset] by simp
      ultimately have "queued m' = queued m - set (map snd ts)" by blast
      then show ?thesis unfolding ts T(1) by blast
    qed
    then show ?thesis unfolding rm_def Some option.case
      by (intro ub_or_bindI [OF removeTasks_spec [OF inv sub(2,1)]]) (auto simp: um_frame_def intro!: erased)
  qed
  then have "ub_or (bindE rm (\<lambda>m'. Inr (m'\<lparr>m_selection_mgrs := smap_erase s (m_selection_mgrs m')\<rparr>, True)))
    (\<lambda>(m', b). b \<and> um_inv {} m' \<and> m_stopped m' = m_stopped m \<and> m_isp_mgr m' = m_isp_mgr m \<and>
      m_selection_mgrs m' = smap_erase s (m_selection_mgrs m) \<and> sched m' = sched_forget s (sched m) \<and> (\<forall>t\<in>queued m'. sel_mgr t \<noteq> s))"
  proof (rule ub_or_bindI)
    fix m' assume m': "um_inv {} m' \<and> um_frame m m' \<and> queued m' = {t \<in> queued m. sel_mgr t \<noteq> s}"
    let ?m = "m'\<lparr>m_selection_mgrs := smap_erase s (m_selection_mgrs m')\<rparr>"
    have "um_inv {} ?m" using m' by (auto simp: um_inv_def)
    moreover have "sched ?m = sched_forget s (sched m)" using sched_filter [OF I(1), of ?m s] m' um_invD(1) [of "{}" m'] by simp
    ultimately show "ub_or (Inr (?m, True)) (\<lambda>(m', b). b \<and> um_inv {} m' \<and> m_stopped m' = m_stopped m \<and> m_isp_mgr m' = m_isp_mgr m \<and>
      m_selection_mgrs m' = smap_erase s (m_selection_mgrs m) \<and> sched m' = sched_forget s (sched m) \<and> (\<forall>t\<in>queued m'. sel_mgr t \<noteq> s))"
      using m' by (auto simp: um_frame_def)
  qed
  then show ?thesis using s(2) by (simp add: removeSelectionManager_def rm_def)
qed

end
