(* ===== verification/Update_Run.thy ===== *)
theory Update_Run
  imports Update_Spec
begin

text \<open>
  What executing a task does: the tasks it schedules, as a function of what the calls return, and one
  turn of the loop of \<open>run\<close> as a step of the abstract scheduler.
\<close>

lemma bindE_tuple: "bindE (bindE r f) g = bindE r (\<lambda>x. bindE (f x) g)"
  by (rule bindE_assoc)

section \<open>The tasks a task schedules\<close>

type_synonym enqueued = "(int \<times> task_type \<times> nat \<times> nat) list"

definition task_effects :: "'w update_env \<Rightarrow> 'w \<Rightarrow> (nat, unit) smap \<Rightarrow> task \<Rightarrow> (enqueued \<times> 'w) result" where
  "task_effects env w mgrs t = (let i = tisp t; s = sel_mgr t in case ttype t of
      TYPE_PIDMAP \<Rightarrow> bindE (env_pidmap_load env i w) (\<lambda>(rc, w'). Inr
        (if rc \<noteq> 0 then [(env_time env w' + 900, TYPE_PIDMAP, i, 0)]
         else [(env_time env w' + env_pidmap_ttl env i w', TYPE_PIDMAP, i, 0), (0, TYPE_PDISTANCE, i, 0)], w'))
    | TYPE_PDISTANCE \<Rightarrow> bindE (env_pdist_load env i w) (\<lambda>(rc, w'). Inr
        (if rc \<noteq> 0 then [(env_time env w' + 75, TYPE_PDISTANCE, i, 0)]
         else (env_time env w' + env_pdist_ttl env i w', TYPE_PDISTANCE, i, 0) # map (\<lambda>s. (0, TYPE_GUIDANCE, i, s)) (map fst mgrs), w'))
    | TYPE_GUIDANCE \<Rightarrow> if s = 0 then Inl Undefined_Behaviour else
        bindE (env_updatePeerDistribution env s i w) (\<lambda>(rc, w1).
          if rc = ERR_INVALID_ISP then Inr ([], w1)
          else bindE (env_computeGuidance env s i w1) (\<lambda>(rc', w2). Inr
            (if rc' = ERR_INVALID_ISP \<or> env_getNextComputeTime env s i w2 = TIME_INVALID then []
             else [(env_getNextComputeTime env s i w2, TYPE_GUIDANCE, i, s)], w2))))"

lemma addTask_frame: "addTask m t = Inr m' \<Longrightarrow> um_frame m m'"
  by (auto simp: addTask_def bindE_eq_Inr um_frame_def split: if_splits)

lemma removeTask_frame: "removeTask m t b = Inr m' \<Longrightarrow> um_frame m m'"
  by (auto simp: removeTask_def bindE_eq_Inr um_frame_def split: if_splits)

lemma enqueueTask_frame:
  assumes "enqueueTask m x ty i s = Inr m'"
  shows "um_frame m m'"
proof -
  have up: "um_frame (m\<lparr>um_next := n\<rparr>) m'' = um_frame m m''" "um_frame m'' (m\<lparr>um_next := n\<rparr>) = um_frame m'' m" for n m''
    by (simp_all add: um_frame_def)
  show ?thesis
    using assms um_frame_trans by (fastforce simp: enqueueTask_def Let_def bindE_eq_Inr up split: option.splits if_splits
        dest: addTask_frame removeTask_frame)
qed

lemma executeTask_effects:
  "executeTask env w m t = bindE (task_effects env w (m_selection_mgrs m) t) (\<lambda>(es, w'). bindE (enqueueTasks m es) (\<lambda>m'. Inr (m', w')))"
proof (cases "ttype t")
  case TYPE_PIDMAP
  then show ?thesis
    by (cases "env_pidmap_load env (tisp t) w") (auto simp: executeTask_def task_effects_def updatePIDMap_def Let_def bindE_assoc)
next
  case TYPE_PDISTANCE
  have "bindE (enqueueTask m x ty i s) (\<lambda>m'. f m' (m_selection_mgrs m')) = bindE (enqueueTask m x ty i s) (\<lambda>m'. f m' (m_selection_mgrs m))"
    for x ty i s and f :: "update_manager \<Rightarrow> _ \<Rightarrow> (update_manager \<times> 'a) result"
    using enqueueTask_frame [of m x ty i s] by (cases "enqueueTask m x ty i s") (auto simp: um_frame_def)
  then show ?thesis using TYPE_PDISTANCE
    by (cases "env_pdist_load env (tisp t) w") (auto simp: executeTask_def task_effects_def updatePDistanceMap_def Let_def bindE_assoc add.commute)
next
  case TYPE_GUIDANCE
  have "bindE (env_computeGuidance env s i w1) f = bindE (env_computeGuidance env s i w1) g"
    if "\<And>rc w2. f (rc, w2) = g (rc, w2)" for s i w1 and f g :: "_ \<Rightarrow> (update_manager \<times> 'a) result"
    using that by (cases "env_computeGuidance env s i w1") auto
  with TYPE_GUIDANCE show ?thesis
    by (cases "env_updatePeerDistribution env (sel_mgr t) (tisp t) w")
      (auto simp: executeTask_def task_effects_def updateGuidance_def Let_def bindE_assoc)
qed

section \<open>A turn of the loop\<close>

lemma um_inv_pop:
  assumes inv: "um_inv {} m" and h: "queue_inv h" "task_mset m = add_mset t (mset (m_vec h))"
  shows "um_inv {t} (m\<lparr>m_tasks := h\<rparr>)" and "{t} \<inter> queued (m\<lparr>m_tasks := h\<rparr>) = {}"
    and "sched (m\<lparr>m_tasks := h\<rparr>) = (sched m)(task_key t := None)"
proof -
  have q: "set (m_vec h) \<union> {t} = queued m \<union> {}" using arg_cong [OF h(2), of set_mset] by auto
  show "um_inv {t} (m\<lparr>m_tasks := h\<rparr>)" using inv h(1) q by (simp add: um_inv_def)
  show "{t} \<inter> queued (m\<lparr>m_tasks := h\<rparr>) = {}" using queue_distinct(1) [OF um_invD(1) [OF inv] h(2)] by simp
  show "sched (m\<lparr>m_tasks := h\<rparr>) = (sched m)(task_key t := None)"
    using sched_remove [of "m\<lparr>m_tasks := h\<rparr>" m t] h um_invD(1) [OF inv] by simp
qed

lemma queue_top:
  assumes "um_inv {} m" "m_vec (m_tasks m) \<noteq> []"
  obtains t h where "heap_top (m_tasks m) = Inr t" "t \<in> queued m" "\<forall>u\<in>queued m. exectime t \<le> exectime u"
    "heap_pop task_key task_prio (m_tasks m) = Inr (h, True)" "queue_inv h" "task_mset m = add_mset t (mset (m_vec h))"
proof -
  note Q = um_invD(1) [OF assms(1)]
  obtain t where t: "heap_top (m_tasks m) = Inr t" "t \<in> queued m" "\<forall>u. u \<in># task_mset m \<longrightarrow> task_prio u \<le> task_prio t"
    using mh.top_law [OF Q] assms(2) by auto
  obtain h where h: "heap_pop task_key task_prio (m_tasks m) = Inr (h, True)" "queue_inv h" "task_mset m = add_mset t (mset (m_vec h))"
    using mh.pop_law [OF Q t(1)] by blast
  have "\<forall>u\<in>queued m. exectime t \<le> exectime u" using t(3) by (simp add: task_prio_def)
  from that [OF t(1,2) this h] show ?thesis .
qed

text \<open>No task is due, or the manager is stopped.\<close>

definition um_idle :: "'w update_env \<Rightarrow> 'w \<Rightarrow> update_manager \<Rightarrow> bool" where
  "um_idle env w m \<longleftrightarrow> m_stopped m \<or> (\<forall>t\<in>queued m. env_time env w < exectime t)"

lemma run_step_idle:
  assumes inv: "um_inv {} m"
  shows "um_idle env w m \<Longrightarrow> run_step env w m = Inr (m, w, None)"
proof (cases "m_stopped m \<or> m_vec (m_tasks m) = []")
  case False
  assume idle: "um_idle env w m"
  from False have ne: "m_vec (m_tasks m) \<noteq> []" by simp
  obtain t h where "heap_top (m_tasks m) = Inr t" "t \<in> queued m" by (rule queue_top [OF inv ne])
  with idle False show ?thesis by (auto simp: run_step_def um_idle_def)
qed (simp add: run_step_def)

lemma run_step_busy:
  assumes inv: "um_inv {} m" and busy: "\<not> um_idle env w m"
  shows "\<exists>t\<in>queued m. exectime t \<le> env_time env w \<and> (\<forall>u\<in>queued m. exectime t \<le> exectime u) \<and>
    (case task_effects env w (m_selection_mgrs m) t of
       Inl e \<Rightarrow> run_step env w m = Inl e
     | Inr (es, w') \<Rightarrow> ub_or (run_step env w m) (\<lambda>(m', w'', r). r = Some t \<and> w'' = w' \<and> um_inv {} m' \<and> um_frame m m' \<and>
         sched m' = fold sched_enqueue es ((sched m)(task_key t := None))))"
proof -
  have ne: "m_vec (m_tasks m) \<noteq> []" "\<not> m_stopped m" using busy by (auto simp: um_idle_def)
  obtain t h where t: "heap_top (m_tasks m) = Inr t" "t \<in> queued m" "\<forall>u\<in>queued m. exectime t \<le> exectime u"
    and h: "heap_pop task_key task_prio (m_tasks m) = Inr (h, True)" "queue_inv h" "task_mset m = add_mset t (mset (m_vec h))"
    by (rule queue_top [OF inv ne(1)])
  have due: "exectime t \<le> env_time env w" using busy t(3) by (force simp: um_idle_def)
  let ?m = "m\<lparr>m_tasks := h\<rparr>"
  note P = um_inv_pop [OF inv h(2,3)]
  have run: "run_step env w m = bindE (task_effects env w (m_selection_mgrs m) t) (\<lambda>(es, w').
      bindE (enqueueTasks ?m es) (\<lambda>m'. bindE (removeTask m' t False) (\<lambda>m''. Inr (m'', w', Some t))))"
    using ne t(1) due h(1) by (simp add: run_step_def executeTask_effects bindE_assoc split_def)
  have "ub_or (bindE (enqueueTasks ?m es) (\<lambda>m'. bindE (removeTask m' t False) (\<lambda>m''. Inr (m'', w', Some t))))
     (\<lambda>(m', w'', r). r = Some t \<and> w'' = w' \<and> um_inv {} m' \<and> um_frame m m' \<and>
       sched m' = fold sched_enqueue es ((sched m)(task_key t := None)))" for es w'
  proof (rule ub_or_bindI [OF enqueueTasks_spec [OF P(1,2)]])
    fix m' assume m': "um_inv {t} m' \<and> {t} \<inter> queued m' = {} \<and> um_frame ?m m' \<and> sched m' = fold sched_enqueue es (sched ?m)"
    then obtain m'' where m'': "removeTask m' t False = Inr m''" "um_inv {} m''" "task_mset m'' = task_mset m'" "um_frame m' m''"
      using removeTask_executed [of t m'] by auto
    have "sched m'' = sched m'" using sched_mset [OF um_invD(1) um_invD(1)] m' m''(2,3) by blast
    then show "ub_or (bindE (removeTask m' t False) (\<lambda>m''. Inr (m'', w', Some t)))
       (\<lambda>(m', w'', r). r = Some t \<and> w'' = w' \<and> um_inv {} m' \<and> um_frame m m' \<and>
         sched m' = fold sched_enqueue es ((sched m)(task_key t := None)))"
      using m' m'' P(3) by (auto simp: um_frame_def)
  qed
  then have "case task_effects env w (m_selection_mgrs m) t of
       Inl e \<Rightarrow> run_step env w m = Inl e
     | Inr (es, w') \<Rightarrow> ub_or (run_step env w m) (\<lambda>(m', w'', r). r = Some t \<and> w'' = w' \<and> um_inv {} m' \<and> um_frame m m' \<and>
         sched m' = fold sched_enqueue es ((sched m)(task_key t := None)))"
    unfolding run by (cases "task_effects env w (m_selection_mgrs m) t") auto
  with t(2,3) due show ?thesis by blast
qed

end
