(* ===== verification/Update_Properties.thy ===== *)
theory Update_Properties
  imports Update_Run
begin

text \<open>
  The properties of the update manager: what every state the program can reach satisfies, which task
  runs, that no ISP is forgotten, and when the inner loop of \<open>run\<close> catches up.
\<close>

section \<open>Reachable states\<close>

text \<open>
  One step is a public operation or a turn of the loop, in any state \<open>w\<close> of the rest of the program,
  so that steps of several threads interleave freely. Selection managers added are objects.
\<close>

inductive um_step :: "'w update_env \<Rightarrow> update_manager \<Rightarrow> update_manager \<Rightarrow> bool" for env where
  step_isps: "setISPManager env w m a = Inr (m', b) \<Longrightarrow> um_step env m m'"
| step_add: "s \<noteq> 0 \<Longrightarrow> addSelectionManager env w m s = Inr (m', b) \<Longrightarrow> um_step env m m'"
| step_remove: "removeSelectionManager m s = Inr (m', b) \<Longrightarrow> um_step env m m'"
| step_run: "run_step env w m = Inr (m', w', r) \<Longrightarrow> um_step env m m'"
| step_stop: "um_step env m (um_stop m)"

inductive_cases um_stepE: "um_step env m m'"

definition um_reach :: "'w update_env \<Rightarrow> update_manager \<Rightarrow> bool" where
  "um_reach env m \<longleftrightarrow> (um_step env)\<^sup>*\<^sup>* P4PUpdateManager m"

text \<open>Guidance tasks, and only they, name a selection manager, and it is managed.\<close>

definition sched_wf :: "(nat, unit) smap \<Rightarrow> schedule \<Rightarrow> bool" where
  "sched_wf mgrs \<sigma> \<longleftrightarrow> smap_find mgrs 0 = None \<and>
     (\<forall>ty i s. \<sigma> (ty, i, s) \<noteq> None \<longrightarrow> (s \<noteq> 0 \<longleftrightarrow> ty = TYPE_GUIDANCE) \<and> (s \<noteq> 0 \<longrightarrow> smap_find mgrs s \<noteq> None))"

definition enqueued_wf :: "(nat, unit) smap \<Rightarrow> enqueued \<Rightarrow> bool" where
  "enqueued_wf mgrs es \<longleftrightarrow> (\<forall>(x, ty, i, s)\<in>set es. (s \<noteq> 0 \<longleftrightarrow> ty = TYPE_GUIDANCE) \<and> (s \<noteq> 0 \<longrightarrow> smap_find mgrs s \<noteq> None))"

definition um_ok :: "update_manager \<Rightarrow> bool" where
  "um_ok m \<longleftrightarrow> um_inv {} m \<and> sched_wf (m_selection_mgrs m) (sched m)"

lemma sched_wf_enqueue: "sched_wf mgrs \<sigma> \<Longrightarrow> enqueued_wf mgrs es \<Longrightarrow> sched_wf mgrs (fold sched_enqueue es \<sigma>)"
proof (induction es arbitrary: \<sigma>)
  case (Cons e es)
  obtain x ty i s where e: "e = (x, ty, i, s)" by (cases e)
  have "sched_wf mgrs (sched_enqueue e \<sigma>)" using Cons.prems e by (auto simp: sched_wf_def enqueued_wf_def)
  then show ?case using Cons.IH Cons.prems(2) by (simp add: enqueued_wf_def)
qed simp

lemma um_frame_mgrs: "um_frame m m' \<Longrightarrow> m_selection_mgrs m' = m_selection_mgrs m"
  by (simp add: um_frame_def)

lemma enqueueTasks_ok:
  assumes "um_ok m" "enqueued_wf (m_selection_mgrs m) es" "enqueueTasks m es = Inr m'"
  shows "um_ok m'" "um_frame m m'" "sched m' = fold sched_enqueue es (sched m)"
proof -
  have "um_inv {} m' \<and> um_frame m m' \<and> sched m' = fold sched_enqueue es (sched m)"
    using enqueueTasks_spec [of "{}" m es] assms(1,3) by (auto simp: um_ok_def)
  with assms show "um_ok m'" "um_frame m m'" "sched m' = fold sched_enqueue es (sched m)"
    by (auto simp: um_ok_def um_frame_mgrs sched_wf_enqueue)
qed

lemma task_effects_wf:
  assumes "task_effects env w mgrs t = Inr (es, w')" "smap_find mgrs 0 = None" "sel_mgr t \<noteq> 0 \<Longrightarrow> smap_find mgrs (sel_mgr t) \<noteq> None"
  shows "enqueued_wf mgrs es"
proof -
  have "s \<noteq> 0 \<and> smap_find mgrs s \<noteq> None" if "s \<in> fst ` set mgrs" for s
    using that assms(2) smap_find_None_iff [of mgrs s] smap_find_None_iff [of mgrs 0] by (metis image_eqI)
  then show ?thesis using assms
    by (cases "ttype t") (fastforce simp: task_effects_def Let_def enqueued_wf_def bindE_eq_Inr split: if_splits prod.splits)+
qed

lemma sched_queued: "um_ok m \<Longrightarrow> t \<in> queued m \<Longrightarrow> sched m (task_key t) = Some (exectime t)"
  using sched_Some [of m "task_key t" "exectime t"] um_invD(1) [of "{}" m] by (auto simp: um_ok_def)

lemma um_ok_task:
  assumes "um_ok m" "t \<in> queued m"
  shows "sel_mgr t \<noteq> 0 \<longleftrightarrow> ttype t = TYPE_GUIDANCE" "sel_mgr t \<noteq> 0 \<Longrightarrow> smap_find (m_selection_mgrs m) (sel_mgr t) \<noteq> None"
  using sched_queued [OF assms] assms(1) by (auto simp: um_ok_def sched_wf_def task_key_def)

lemma run_step_cases:
  assumes ok: "um_ok m" and run: "run_step env w m = Inr (m', w', r)"
  shows "r = None \<and> m' = m \<and> w' = w \<and> um_idle env w m \<or>
    (\<exists>t es. r = Some t \<and> \<not> um_idle env w m \<and> t \<in> queued m \<and> exectime t \<le> env_time env w \<and> (\<forall>u\<in>queued m. exectime t \<le> exectime u) \<and>
       task_effects env w (m_selection_mgrs m) t = Inr (es, w') \<and> um_ok m' \<and> um_frame m m' \<and>
       sched m' = fold sched_enqueue es ((sched m)(task_key t := None)))"
proof (cases "um_idle env w m")
  case True
  then show ?thesis using run_step_idle [of m env w] ok run by (auto simp: um_ok_def)
next
  case False
  have inv: "um_inv {} m" using ok by (simp add: um_ok_def)
  obtain t where t: "t \<in> queued m" "exectime t \<le> env_time env w" "\<forall>u\<in>queued m. exectime t \<le> exectime u" and
    eff: "case task_effects env w (m_selection_mgrs m) t of
       Inl e \<Rightarrow> run_step env w m = Inl e
     | Inr (es, w') \<Rightarrow> ub_or (run_step env w m) (\<lambda>(m', w'', r). r = Some t \<and> w'' = w' \<and> um_inv {} m' \<and> um_frame m m' \<and>
         sched m' = fold sched_enqueue es ((sched m)(task_key t := None)))"
    using run_step_busy [OF inv False] by blast
  obtain es where es: "task_effects env w (m_selection_mgrs m) t = Inr (es, w')" and
    m': "r = Some t" "um_inv {} m'" "um_frame m m'" "sched m' = fold sched_enqueue es ((sched m)(task_key t := None))"
    using eff run by (cases "task_effects env w (m_selection_mgrs m) t") auto
  have "enqueued_wf (m_selection_mgrs m) es"
    using task_effects_wf [OF es] um_ok_task(2) [OF ok t(1)] ok by (auto simp: um_ok_def sched_wf_def)
  moreover have "sched_wf (m_selection_mgrs m) ((sched m)(task_key t := None))"
    using ok by (auto simp: um_ok_def sched_wf_def)
  ultimately have "um_ok m'" using m' by (auto simp: um_ok_def um_frame_mgrs sched_wf_enqueue)
  with False t(1-3) es m' show ?thesis by blast
qed

lemma removeSelectionManager_ok:
  assumes ok: "um_ok m" and s: "smap_find (m_selection_mgrs m) s \<noteq> None" and run: "removeSelectionManager m s = Inr (m', b)"
  shows "um_ok m'" "sched m' = sched_forget s (sched m)"
proof -
  have "smap_find (m_selection_mgrs m) 0 = None" using ok by (simp add: um_ok_def sched_wf_def)
  then have "s \<noteq> 0" using s by metis
  with removeSelectionManager_spec [of m s] ok s run
  have "um_inv {} m'" "m_selection_mgrs m' = smap_erase s (m_selection_mgrs m)" "sched m' = sched_forget s (sched m)"
    by (auto simp: um_ok_def)
  then show "um_ok m'" "sched m' = sched_forget s (sched m)" using ok by (auto simp: um_ok_def sched_wf_def sched_forget_def)
qed

lemma sched_fields [simp]:
  "sched (m\<lparr>m_isp_mgr := a\<rparr>) = sched m" "sched (m\<lparr>m_stopped := c\<rparr>) = sched m" "sched (m\<lparr>m_selection_mgrs := x\<rparr>) = sched m"
  by (simp_all add: sched_def fun_eq_iff)

lemma um_ok_fields: "um_ok (m\<lparr>m_isp_mgr := a\<rparr>) = um_ok m" "um_ok (m\<lparr>m_stopped := c\<rparr>) = um_ok m"
  by (simp_all add: um_ok_def)

lemma addSelectionManager_ok:
  assumes ok: "um_ok m" and s: "s \<noteq> 0" and run: "addSelectionManager env w m s = Inr (m', b)"
  shows "um_ok m' \<and> (m' = m \<or> sched m' = fold sched_enqueue (map (\<lambda>i. (0, TYPE_GUIDANCE, i, s)) (env_isps env w)) (sched m))"
proof (cases "m_isp_mgr m = 0 \<or> smap_find (m_selection_mgrs m) s \<noteq> None")
  case False
  let ?m = "m\<lparr>m_selection_mgrs := fst (smap_insert s () (m_selection_mgrs m))\<rparr>"
  have inv: "smap_inv (m_selection_mgrs m)" using ok um_invD(2) by (auto simp: um_ok_def)
  have "um_inv {} ?m" using ok inv by (auto simp: um_ok_def um_inv_def)
  moreover have "sched_wf (m_selection_mgrs ?m) (sched ?m)"
    using ok s inv by (auto simp: um_ok_def sched_wf_def smap_find_insert)
  ultimately have "um_ok ?m" by (simp add: um_ok_def)
  moreover have "enqueued_wf (m_selection_mgrs ?m) (map (\<lambda>i. (0, TYPE_GUIDANCE, i, s)) (env_isps env w))"
    using s inv by (auto simp: enqueued_wf_def smap_find_insert)
  moreover have "enqueueTasks ?m (map (\<lambda>i. (0, TYPE_GUIDANCE, i, s)) (env_isps env w)) = Inr m'"
    using False run by (auto simp: addSelectionManager_def bindE_eq_Inr)
  moreover have "sched ?m = sched m" by simp
  ultimately show ?thesis using enqueueTasks_ok by metis
qed (use ok run in \<open>auto simp: addSelectionManager_def split: if_splits\<close>)

lemma setISPManager_ok:
  assumes ok: "um_ok m" and run: "setISPManager env w m a = Inr (m', b)"
  shows "um_ok m' \<and> (if b then sched m' = fold sched_enqueue (map (\<lambda>i. (0, TYPE_PIDMAP, i, 0)) (env_isps env w)) (sched m) else m' = m)"
proof (cases "m_isp_mgr m \<noteq> 0 \<or> a = 0")
  case False
  let ?m = "m\<lparr>m_isp_mgr := a\<rparr>"
  have "um_ok ?m" using ok by (simp add: um_ok_fields)
  moreover have "enqueued_wf (m_selection_mgrs ?m) (map (\<lambda>i. (0, TYPE_PIDMAP, i, 0)) (env_isps env w))" by (auto simp: enqueued_wf_def)
  moreover have "enqueueTasks ?m (map (\<lambda>i. (0, TYPE_PIDMAP, i, 0)) (env_isps env w)) = Inr m'" "b"
    using False run by (auto simp: setISPManager_def bindE_eq_Inr)
  moreover have "sched ?m = sched m" by simp
  ultimately show ?thesis using enqueueTasks_ok by metis
qed (use ok run in \<open>auto simp: setISPManager_def split: if_splits\<close>)

lemma um_step_ok: "um_ok m \<Longrightarrow> um_step env m m' \<Longrightarrow> um_ok m'"
proof (erule um_stepE)
  assume ok: "um_ok m"
  show "um_ok m'" if "setISPManager env w m a = Inr (m', b)" for w a b using setISPManager_ok [OF ok that] by simp
  show "um_ok m'" if "0 < s" "addSelectionManager env w m s = Inr (m', b)" for w s b
    using addSelectionManager_ok [OF ok _ that(2)] that(1) by simp
  show "um_ok m'" if "removeSelectionManager m s = Inr (m', b)" for s b
    using removeSelectionManager_ok(1) [OF ok _ that] that ok by (cases "smap_find (m_selection_mgrs m) s") (auto simp: removeSelectionManager_def)
  show "um_ok m'" if "run_step env w m = Inr (m', w', r)" for w w' r using run_step_cases [OF ok that] ok by auto
  show "um_ok m'" if "m' = um_stop m" using ok that by (simp add: um_stop_def um_ok_fields)
qed

lemma um_ok_init: "um_ok P4PUpdateManager"
  using heap_inv_empty [of task_key task_prio]
  by (auto simp: um_ok_def um_inv_def P4PUpdateManager_def selmgr_tasks_def sched_wf_def sched_def ras_empty_def)

lemma um_steps_ok: "(um_step env)\<^sup>*\<^sup>* m m' \<Longrightarrow> um_ok m \<Longrightarrow> um_ok m'"
  by (induction rule: rtranclp_induct) (auto intro: um_step_ok)

lemma um_reach_ok: "um_reach env m \<Longrightarrow> um_ok m"
  unfolding um_reach_def using um_steps_ok um_ok_init by blast

section \<open>An environment for examples\<close>

text \<open>One ISP, at address 11; every call succeeds and leaves the clock, and lifetimes are \<open>ttl\<close>.\<close>

definition ex_env :: "int \<Rightarrow> int update_env" where
  "ex_env ttl = \<lparr>env_time = id, env_isps = (\<lambda>w. [11]),
     env_pidmap_load = (\<lambda>i w. Inr (0, w)), env_pidmap_ttl = (\<lambda>i w. ttl),
     env_pdist_load = (\<lambda>i w. Inr (0, w)), env_pdist_ttl = (\<lambda>i w. ttl),
     env_updatePeerDistribution = (\<lambda>s i w. Inr (0, w)), env_computeGuidance = (\<lambda>s i w. Inr (0, w)),
     env_getNextComputeTime = (\<lambda>s i w. w + ttl)\<rparr>"

definition ex_task :: "nat \<Rightarrow> task_type \<Rightarrow> nat \<Rightarrow> task" where
  "ex_task n ty s = \<lparr>task_id = n, exectime = 0, ttype = ty, tisp = 11, sel_mgr = s\<rparr>"

definition ex_um :: update_manager where
  "ex_um = \<lparr>m_stopped = False, m_isp_mgr = 7, m_selection_mgrs = [],
     m_tasks = \<lparr>m_vec_index = [((TYPE_PIDMAP, 11, 0), 0)], m_vec = [ex_task 1 TYPE_PIDMAP 0]\<rparr>, m_selmgr_tasks = [], um_next = 2\<rparr>"

lemma ex_um_set: "setISPManager (ex_env ttl) w P4PUpdateManager 7 = Inr (ex_um, True)"
  by (simp add: setISPManager_def P4PUpdateManager_def ex_env_def enqueueTask_def Let_def heap_find_def ras_find_def ras_empty_def
      addTask_def heap_push_def ras_push_back_def percolateUp.simps task_key_def ex_um_def ex_task_def)

lemma ex_um_sched: "sched ex_um (TYPE_PIDMAP, 11, 0) = Some 0"
  by (simp add: sched_def ex_um_def ex_task_def task_key_def)

lemma ex_um_reach: "um_reach (ex_env ttl) ex_um"
  unfolding um_reach_def using step_isps [OF ex_um_set] by (rule r_into_rtranclp)

definition ex_um_sel :: update_manager where
  "ex_um_sel = \<lparr>m_stopped = False, m_isp_mgr = 7, m_selection_mgrs = [(3, ())],
     m_tasks = \<lparr>m_vec_index = [((TYPE_PIDMAP, 11, 0), 0), ((TYPE_GUIDANCE, 11, 3), 1)],
                m_vec = [ex_task 1 TYPE_PIDMAP 0, ex_task 2 TYPE_GUIDANCE 3]\<rparr>,
     m_selmgr_tasks = [(3, [(2, ex_task 2 TYPE_GUIDANCE 3)])], um_next = 3\<rparr>"

lemma ex_um_sel_reach: "um_reach (ex_env ttl) ex_um_sel"
proof -
  have "addSelectionManager (ex_env ttl) 0 ex_um 3 = Inr (ex_um_sel, True)"
    by (simp add: addSelectionManager_def ex_env_def ex_um_def enqueueTask_def Let_def heap_find_def ras_find_def smap_find_def
        addTask_def heap_push_def ras_push_back_def percolateUp.simps task_key_def ex_um_sel_def ex_task_def smap_insert_def
        selmgr_tasks_def less_task_type_def is_larger_def task_prio_def hparent_def)
  from step_add [OF _ this] ex_um_reach [of ttl] show ?thesis by (simp add: um_reach_def rtranclp.rtrancl_into_rtrancl)
qed

section \<open>The invariant and the operations\<close>

text \<open>
  Property C9. In every state the manager can reach, whatever the order of the calls: no two queued
  tasks are the same task, each set of \<open>m_selmgr_tasks\<close> holds exactly the queued tasks of its manager
  (no pointer to a freed task), and a task names a selection manager exactly when it is a guidance
  task, and then one that is still managed.
\<close>
theorem um_reach_invariant:
  assumes "um_reach env m"
  shows "distinct (map task_key (m_vec (m_tasks m))) \<and>
    (\<forall>s t. s \<noteq> 0 \<longrightarrow> (t \<in> set (map snd (selmgr_tasks m s)) \<longleftrightarrow> t \<in> set (m_vec (m_tasks m)) \<and> sel_mgr t = s)) \<and>
    (\<forall>t\<in>set (m_vec (m_tasks m)). if ttype t = TYPE_GUIDANCE then smap_find (m_selection_mgrs m) (sel_mgr t) \<noteq> None else sel_mgr t = 0)"
proof -
  have ok: "um_ok m" by (rule um_reach_ok [OF assms])
  then have inv: "um_inv {} m" by (simp add: um_ok_def)
  have "if ttype t = TYPE_GUIDANCE then smap_find (m_selection_mgrs m) (sel_mgr t) \<noteq> None else sel_mgr t = 0" if "t \<in> queued m" for t
    using um_ok_task [OF ok that] by auto
  then show ?thesis
    using ras_distinct [OF heap_invD(1) [OF um_invD(1) [OF inv]]] selmgr_tasks_set(1) [OF inv] by auto
qed

theorem um_reach_invariant_witness:
  "distinct (map task_key (m_vec (m_tasks ex_um_sel))) \<and> map snd (selmgr_tasks ex_um_sel 3) = [ex_task 2 TYPE_GUIDANCE 3] \<and>
   ex_task 2 TYPE_GUIDANCE 3 \<in> set (m_vec (m_tasks ex_um_sel)) \<and> smap_find (m_selection_mgrs ex_um_sel) 3 \<noteq> None"
proof -
  have sel: "map snd (selmgr_tasks ex_um_sel 3) = [ex_task 2 TYPE_GUIDANCE 3]" by code_simp
  note inv = um_reach_invariant [OF ex_um_sel_reach [of 60]]
  then have "ex_task 2 TYPE_GUIDANCE 3 \<in> set (m_vec (m_tasks ex_um_sel))" using sel by (metis list.set_intros(1) numeral_neq_zero)
  with inv sel show ?thesis by (auto simp: ex_task_def)
qed

lemma enqueueTask_hazard:
  assumes inv: "um_inv {} m" and run: "enqueueTask m x ty i s = Inl err"
  shows "\<exists>e\<in>queued m. task_key e = (ty, i, s) \<and> x < exectime e \<and> erase_hazard task_key (m_tasks m) e"
proof -
  let ?t = "\<lparr>task_id = um_next m, exectime = x, ttype = ty, tisp = i, sel_mgr = s\<rparr>" and ?m1 = "m\<lparr>um_next := um_next m + 1\<rparr>"
  have k: "task_key ?t = (ty, i, s)" by (simp add: task_key_def)
  have inv1: "um_inv {} ?m1" using inv by (auto simp: um_inv_def less_Suc_eq)
  have fresh: "task_id ?t \<notin> task_id ` (queued m \<union> {})" "task_id ?t < um_next ?m1" using um_invD(7) [OF inv] by (force, simp)
  note Q = um_invD(1) [OF inv]
  have add: "\<exists>m'. addTask m2 ?t = Inr m'"
    if "um_inv {} m2" "task_key ?t \<notin> task_key ` queued m2" "queued m2 \<subseteq> queued m" "um_next m2 = um_next ?m1" for m2
    using addTask_spec [OF that(1,2)] fresh that(3,4) by (metis Un_empty_right image_mono subsetD)
  from Q show ?thesis
  proof (rule mh.find_cases [of _ _ _ ?t])
    assume f: "heap_find task_key (m_tasks m) ?t = Inr None"
    then have "task_key ?t \<notin> task_key ` queued ?m1" using mh.find_None [OF Q, of ?t] by simp
    from add [OF inv1 this] f run show ?thesis by (auto simp: enqueueTask_def Let_def)
  next
    fix e assume f: "heap_find task_key (m_tasks m) ?t = Inr (Some e)"
    then have e: "e \<in> queued m" "task_key e = task_key ?t" using mh.find_Some [OF Q, of ?t e] by auto
    have later: "x < exectime e" using run f by (auto simp: enqueueTask_def Let_def split: if_splits)
    have "erase_hazard task_key (m_tasks m) e"
    proof (rule ccontr)
      assume "\<not> erase_hazard task_key (m_tasks m) e"
      then obtain h where "heap_erase task_key task_prio (m_tasks m) e = Inr (h, True)"
        using mh.erase_cases [OF Q, of e] e(1) by auto
      then obtain m2 where m2: "removeTask ?m1 e True = Inr m2" by (simp add: removeTask_def)
      have "um_inv {} m2" "task_mset m = add_mset e (task_mset m2)" "um_next m2 = um_next ?m1"
        using removeTask_spec [OF inv1, of e] e(1) m2 by auto
      moreover have "task_key ?t \<notin> task_key ` queued m2" using queue_distinct(2) [OF Q calculation(2)] e(2) by simp
      moreover have "queued m2 \<subseteq> queued m" using arg_cong [OF calculation(2), of set_mset] by auto
      ultimately obtain m' where "addTask m2 ?t = Inr m'" using add by blast
      with f later m2 run show False by (auto simp: enqueueTask_def Let_def)
    qed
    with e later k show ?thesis by auto
  qed
qed

text \<open>
  Property C10. Scheduling a task keeps one task of its kind, ISP and selection manager, with the
  earlier of the old and the new time, and changes no other. It fails only when the existing task is
  later than the new one and lies in the last slot of the heap, where erasing it is undefined.
\<close>
theorem um_enqueue_earliest:
  assumes "um_reach env m"
  shows "(\<exists>m'. enqueueTask m x ty i s = Inr m' \<and> sched m' = (sched m)((ty, i, s) \<mapsto> earliest x (sched m (ty, i, s)))) \<or>
    enqueueTask m x ty i s = Inl Undefined_Behaviour \<and>
      (\<exists>e\<in>set (m_vec (m_tasks m)). task_key e = (ty, i, s) \<and> x < exectime e \<and> erase_hazard task_key (m_tasks m) e)"
proof -
  have inv: "um_inv {} m" using um_reach_ok [OF assms] by (simp add: um_ok_def)
  show ?thesis
    using enqueueTask_spec [OF inv, of x ty i s] enqueueTask_hazard [OF inv, of x ty i s] by (cases "enqueueTask m x ty i s") auto
qed

theorem um_enqueue_earliest_witness:
  "\<exists>m'. enqueueTask ex_um 5 TYPE_PIDMAP 11 0 = Inr m' \<and> sched m' (TYPE_PIDMAP, 11, 0) = Some 0"
  using um_enqueue_earliest [OF ex_um_reach [of 60], of 5 TYPE_PIDMAP 11 0]
  by (auto simp: ex_um_sched earliest_def) (auto simp: ex_um_def ex_task_def)

text \<open>
  Removing a managed selection manager, unless it meets the undefined erasure, succeeds,
  forgets exactly the tasks of that manager and leaves no task that refers to it.
\<close>
theorem um_remove_manager:
  assumes "um_reach env m" "smap_find (m_selection_mgrs m) s \<noteq> None" "removeSelectionManager m s = r" "r \<noteq> Inl Undefined_Behaviour"
  shows "\<exists>m'. r = Inr (m', True) \<and> smap_find (m_selection_mgrs m') s = None \<and>
    (\<forall>t\<in>set (m_vec (m_tasks m')). sel_mgr t \<noteq> s) \<and> (\<forall>ty i s'. s' \<noteq> s \<longrightarrow> sched m' (ty, i, s') = sched m (ty, i, s'))"
proof -
  have ok: "um_ok m" by (rule um_reach_ok [OF assms(1)])
  then have z: "smap_find (m_selection_mgrs m) 0 = None" by (simp add: um_ok_def sched_wf_def)
  have "s \<noteq> 0" using z assms(2) by metis
  with removeSelectionManager_spec [of m s] ok assms(2-4) show ?thesis
    by (cases r) (auto simp: um_ok_def sched_forget_def)
qed

definition ex_um_run :: update_manager where
  "ex_um_run = \<lparr>m_stopped = False, m_isp_mgr = 7, m_selection_mgrs = [(3, ())],
     m_tasks = \<lparr>m_vec_index = [((TYPE_PIDMAP, 11, 0), 1), ((TYPE_PDISTANCE, 11, 0), 2), ((TYPE_GUIDANCE, 11, 3), 0)],
                m_vec = [ex_task 2 TYPE_GUIDANCE 3, (ex_task 3 TYPE_PIDMAP 0)\<lparr>exectime := 60\<rparr>, ex_task 4 TYPE_PDISTANCE 0]\<rparr>,
     m_selmgr_tasks = [(3, [(2, ex_task 2 TYPE_GUIDANCE 3)])], um_next = 5\<rparr>"

lemma ex_um_run_step: "run_step (ex_env 60) 0 ex_um_sel = Inr (ex_um_run, 0, Some (ex_task 1 TYPE_PIDMAP 0))"
  by code_simp

lemma ex_um_run_reach: "um_reach (ex_env 60) ex_um_run"
  using step_run [OF ex_um_run_step] ex_um_sel_reach [of 60] by (simp add: um_reach_def rtranclp.rtrancl_into_rtrancl)

text \<open>
  A turn of the loop does nothing exactly when the manager is stopped or no task is due;
  otherwise the task it executes is due and no queued task is earlier, and it leaves the queue: what
  is scheduled afterwards is what was scheduled without it, and the tasks it scheduled.
\<close>
theorem um_run_earliest:
  assumes "um_reach env m" "run_step env w m = Inr (m', w', r)"
  shows "(case r of
      None \<Rightarrow> m' = m \<and> um_idle env w m
    | Some t \<Rightarrow> t \<in> set (m_vec (m_tasks m)) \<and> exectime t \<le> env_time env w \<and> (\<forall>u\<in>set (m_vec (m_tasks m)). exectime t \<le> exectime u) \<and>
        (\<exists>es. task_effects env w (m_selection_mgrs m) t = Inr (es, w') \<and> sched m' = fold sched_enqueue es ((sched m)(task_key t := None))))"
  using run_step_cases [OF um_reach_ok [OF assms(1)] assms(2)] by auto

section \<open>No ISP is forgotten\<close>

lemma fold_enqueue_keeps: "\<sigma> k = Some x \<Longrightarrow> \<exists>y\<le>x. fold sched_enqueue es \<sigma> k = Some y"
proof (induction es arbitrary: \<sigma> x)
  case (Cons e es)
  obtain z ty i s where e: "e = (z, ty, i, s)" by (cases e)
  have "\<exists>x'\<le>x. sched_enqueue e \<sigma> k = Some x'" using Cons.prems e by (auto simp: earliest_def)
  then obtain x' where x': "sched_enqueue e \<sigma> k = Some x'" "x' \<le> x" by blast
  from Cons.IH [of "sched_enqueue e \<sigma>", OF x'(1)] x'(2) show ?case by (auto intro: order_trans)
qed auto

lemma fold_enqueue_adds: "(x, ty, i, s) \<in> set es \<Longrightarrow> \<exists>y\<le>x. fold sched_enqueue es \<sigma> (ty, i, s) = Some y"
proof (induction es arbitrary: \<sigma>)
  case (Cons e es)
  show ?case
  proof (cases "(x, ty, i, s) = e")
    case True
    then obtain x' where x': "sched_enqueue e \<sigma> (ty, i, s) = Some x'" "x' \<le> x" by (auto simp: earliest_def split: option.splits)
    from fold_enqueue_keeps [of "sched_enqueue e \<sigma>", OF x'(1), of es] x'(2) show ?thesis by (auto intro: order_trans)
  qed (use Cons in auto)
qed simp

lemma pidmap_effects:
  assumes "task_effects env w mgrs t = Inr (es, w')" "ttype t = TYPE_PIDMAP"
  shows "\<exists>x. (x, TYPE_PIDMAP, tisp t, 0) \<in> set es"
  using assms by (auto simp: task_effects_def Let_def bindE_eq_Inr split: if_splits)

lemma run_step_pidmap:
  assumes ok: "um_ok m" and run: "run_step env w m = Inr (m', w', r)" and k: "sched m (TYPE_PIDMAP, i, 0) \<noteq> None"
  shows "sched m' (TYPE_PIDMAP, i, 0) \<noteq> None"
proof -
  from run_step_cases [OF ok run] show ?thesis
  proof (elim disjE exE conjE)
    fix t es
    assume t: "t \<in> queued m" "task_effects env w (m_selection_mgrs m) t = Inr (es, w')"
      "sched m' = fold sched_enqueue es ((sched m)(task_key t := None))"
    show ?thesis
    proof (cases "task_key t = (TYPE_PIDMAP, i, 0)")
      case True
      then show ?thesis using pidmap_effects [OF t(2)] fold_enqueue_adds t(3) by (fastforce simp: task_key_def)
    next
      case False
      then have "((sched m)(task_key t := None)) (TYPE_PIDMAP, i, 0) = sched m (TYPE_PIDMAP, i, 0)" by simp
      with k fold_enqueue_keeps show ?thesis unfolding t(3) by (metis not_None_eq option.distinct(1))
    qed
  qed (use k in simp)
qed

lemma um_step_pidmap:
  assumes ok: "um_ok m" and k: "sched m (TYPE_PIDMAP, i, 0) \<noteq> None"
  shows "um_step env m m' \<Longrightarrow> sched m' (TYPE_PIDMAP, i, 0) \<noteq> None"
proof (erule um_stepE)
  note keeps = fold_enqueue_keeps [of "sched m" "(TYPE_PIDMAP, i, 0)"]
  obtain x where x: "sched m (TYPE_PIDMAP, i, 0) = Some x" using k by auto
  show ?thesis if "setISPManager env w m a = Inr (m', b)" for w a b
    using setISPManager_ok [OF ok that] keeps [OF x, of "map (\<lambda>i. (0, TYPE_PIDMAP, i, 0)) (env_isps env w)"] k by (auto split: if_splits)
  show ?thesis if "0 < s" "addSelectionManager env w m s = Inr (m', b)" for w s b
    using addSelectionManager_ok [OF ok _ that(2)] that(1) keeps [OF x, of "map (\<lambda>i. (0, TYPE_GUIDANCE, i, s)) (env_isps env w)"] k by auto
  show ?thesis if rm: "removeSelectionManager m s = Inr (m', b)" for s b
  proof (cases "smap_find (m_selection_mgrs m) s = None")
    case False
    moreover have "smap_find (m_selection_mgrs m) 0 = None" using ok by (simp add: um_ok_def sched_wf_def)
    ultimately have "s \<noteq> 0" by metis
    with False removeSelectionManager_ok(2) [OF ok _ rm] k show ?thesis by (simp add: sched_forget_def)
  qed (use rm k in \<open>simp add: removeSelectionManager_def\<close>)
  show ?thesis if "run_step env w m = Inr (m', w', r)" for w w' r using run_step_pidmap [OF ok that k] .
  show ?thesis if "m' = um_stop m" using k that by (simp add: um_stop_def)
qed

text \<open>
  Property C30. No ISP is forgotten: an ISP the manager was given when it was set up has, in every
  state reached from then on by any interleaving of calls and turns of the loop (failed updates
  included), a task queued that updates its PID map.
\<close>
theorem um_isps_kept:
  assumes "um_reach env m0" "setISPManager env w m0 a = Inr (m1, True)" "i \<in> set (env_isps env w)" "(um_step env)\<^sup>*\<^sup>* m1 m"
  shows "\<exists>t\<in>set (m_vec (m_tasks m)). ttype t = TYPE_PIDMAP \<and> tisp t = i"
proof -
  have ok1: "um_ok m1" and s1: "sched m1 = fold sched_enqueue (map (\<lambda>i. (0, TYPE_PIDMAP, i, 0)) (env_isps env w)) (sched m0)"
    using setISPManager_ok [OF um_reach_ok [OF assms(1)] assms(2)] by simp_all
  have "sched m1 (TYPE_PIDMAP, i, 0) \<noteq> None"
    using fold_enqueue_adds [of 0 TYPE_PIDMAP i 0 "map (\<lambda>i. (0, TYPE_PIDMAP, i, 0)) (env_isps env w)" "sched m0"] assms(3) s1 by auto
  with assms(4) have "um_ok m \<and> sched m (TYPE_PIDMAP, i, 0) \<noteq> None"
    by (induction rule: rtranclp_induct) (use ok1 um_step_ok um_step_pidmap in blast)+
  then have "(TYPE_PIDMAP, i, 0) \<in> task_key ` queued m" by (metis sched_None)
  then show ?thesis by (force simp: task_key_def)
qed

theorem um_isps_kept_witness: "\<exists>t\<in>set (m_vec (m_tasks ex_um_sel)). ttype t = TYPE_PIDMAP \<and> tisp t = 11"
proof -
  have r0: "um_reach (ex_env 60) P4PUpdateManager" by (simp add: um_reach_def)
  have "addSelectionManager (ex_env 60) 0 ex_um 3 = Inr (ex_um_sel, True)" by code_simp
  from step_add [OF _ this] have "(um_step (ex_env 60))\<^sup>*\<^sup>* ex_um ex_um_sel" by simp
  from um_isps_kept [OF r0 ex_um_set _ this] show ?thesis by (simp add: ex_env_def)
qed

section \<open>The inner loop\<close>

definition due_weight :: "nat \<Rightarrow> task_type \<Rightarrow> nat" where
  "due_weight n ty = (case ty of TYPE_PIDMAP \<Rightarrow> n + 3 | TYPE_PDISTANCE \<Rightarrow> n + 2 | TYPE_GUIDANCE \<Rightarrow> 1)"

definition due_keys :: "int \<Rightarrow> schedule \<Rightarrow> task_ident set" where
  "due_keys now \<sigma> = {k. \<exists>x. \<sigma> k = Some x \<and> x \<le> now}"

definition due_load :: "nat \<Rightarrow> int \<Rightarrow> schedule \<Rightarrow> nat" where
  "due_load n now \<sigma> = (\<Sum>k\<in>due_keys now \<sigma>. due_weight n (fst k))"

definition due_cost :: "nat \<Rightarrow> int \<Rightarrow> enqueued \<Rightarrow> nat" where
  "due_cost n now es = sum_list (map (\<lambda>(x, ty, i, s). if x \<le> now then due_weight n ty else 0) es)"

lemma due_keys_finite: "finite (dom \<sigma>) \<Longrightarrow> finite (due_keys now \<sigma>)"
  by (rule finite_subset [of _ "dom \<sigma>"]) (auto simp: due_keys_def)

lemma due_load_enqueue:
  assumes "finite (dom \<sigma>)"
  shows "due_load n now (sched_enqueue (x, ty, i, s) \<sigma>) \<le> due_load n now \<sigma> + (if x \<le> now then due_weight n ty else 0)"
proof -
  let ?D = "due_keys now \<sigma>" and ?k = "(ty, i, s)"
  have fin: "finite ?D" by (rule due_keys_finite [OF assms])
  show ?thesis
  proof (cases "x \<le> now")
    case True
    have "due_keys now (sched_enqueue (x, ty, i, s) \<sigma>) \<subseteq> insert ?k ?D" by (auto simp: due_keys_def split: if_splits)
    then have "due_load n now (sched_enqueue (x, ty, i, s) \<sigma>) \<le> (\<Sum>k\<in>insert ?k ?D. due_weight n (fst k))"
      unfolding due_load_def using fin by (intro sum_mono2) auto
    also have "\<dots> \<le> due_load n now \<sigma> + due_weight n ty" using fin by (simp add: due_load_def sum.insert_if)
    finally show ?thesis using True by simp
  next
    case False
    then have "due_keys now (sched_enqueue (x, ty, i, s) \<sigma>) = ?D"
      by (auto simp: due_keys_def earliest_def min_def split: if_splits option.splits)
    then show ?thesis by (simp add: due_load_def)
  qed
qed

lemma due_load_fold:
  "finite (dom \<sigma>) \<Longrightarrow> due_load n now (fold sched_enqueue es \<sigma>) \<le> due_load n now \<sigma> + due_cost n now es"
proof (induction es arbitrary: \<sigma>)
  case (Cons e es)
  obtain x ty i s where e: "e = (x, ty, i, s)" by (cases e)
  have "finite (dom (sched_enqueue e \<sigma>))" using Cons.prems e by simp
  from Cons.IH [OF this] due_load_enqueue [OF Cons.prems, of n now x ty i s] e show ?case
    by (simp add: due_cost_def del: sched_enqueue.simps)
qed (simp add: due_cost_def)

lemma due_load_remove:
  assumes "finite (dom \<sigma>)" "\<sigma> k = Some x" "x \<le> now"
  shows "due_load n now \<sigma> = due_weight n (fst k) + due_load n now (\<sigma>(k := None))"
proof -
  have "due_keys now \<sigma> = insert k (due_keys now (\<sigma>(k := None)))" "k \<notin> due_keys now (\<sigma>(k := None))"
    using assms(2,3) by (auto simp: due_keys_def)
  then show ?thesis using due_keys_finite [OF assms(1), of now] by (simp add: due_load_def)
qed

lemma finite_sched: "finite (dom (sched m))"
proof -
  have "dom (sched m) \<subseteq> task_key ` queued m"
  proof
    fix k assume "k \<in> dom (sched m)"
    then show "k \<in> task_key ` queued m" using sched_None [of m k] by auto
  qed
  then show ?thesis by (rule finite_subset) simp
qed

lemma due_load_bound: "due_load n now (sched m) \<le> (n + 3) * hsize (m_tasks m)"
proof -
  have sub: "due_keys now (sched m) \<subseteq> task_key ` queued m"
  proof
    fix k assume "k \<in> due_keys now (sched m)"
    then show "k \<in> task_key ` queued m" using sched_None [of m k] by (auto simp: due_keys_def)
  qed
  have "due_load n now (sched m) \<le> of_nat (card (due_keys now (sched m))) * (n + 3)"
    unfolding due_load_def by (rule sum_bounded_above) (auto simp: due_weight_def split: task_type.splits)
  moreover have "card (due_keys now (sched m)) \<le> hsize (m_tasks m)"
    using card_mono [OF _ sub] card_image_le [of "queued m" task_key] card_length [of "m_vec (m_tasks m)"] by simp
  ultimately show ?thesis using mult_le_mono1 [of _ "hsize (m_tasks m)" "n + 3"] le_trans by (fastforce simp: mult.commute)
qed

text \<open>
  Calls that return, a clock that stands, and lifetimes that are positive: \<open>W\<close> holds of the states of
  the rest of the program the calls lead to.
\<close>

definition steady :: "'w update_env \<Rightarrow> int \<Rightarrow> ('w \<Rightarrow> bool) \<Rightarrow> bool" where
  "steady env now W \<longleftrightarrow> (\<forall>w. W w \<longrightarrow> env_time env w = now \<and>
     (\<forall>i. \<exists>rc w'. env_pidmap_load env i w = Inr (rc, w') \<and> W w' \<and> 0 < env_pidmap_ttl env i w') \<and>
     (\<forall>i. \<exists>rc w'. env_pdist_load env i w = Inr (rc, w') \<and> W w' \<and> 0 < env_pdist_ttl env i w') \<and>
     (\<forall>s i. \<exists>rc w'. env_updatePeerDistribution env s i w = Inr (rc, w') \<and> W w') \<and>
     (\<forall>s i. \<exists>rc w'. env_computeGuidance env s i w = Inr (rc, w') \<and> W w' \<and>
        (env_getNextComputeTime env s i w' = TIME_INVALID \<or> now < env_getNextComputeTime env s i w')))"

lemma steadyD:
  assumes "steady env now W" "W w"
  shows "env_time env w = now"
    "\<exists>rc w'. env_pidmap_load env i w = Inr (rc, w') \<and> W w' \<and> 0 < env_pidmap_ttl env i w'"
    "\<exists>rc w'. env_pdist_load env i w = Inr (rc, w') \<and> W w' \<and> 0 < env_pdist_ttl env i w'"
    "\<exists>rc w'. env_updatePeerDistribution env s i w = Inr (rc, w') \<and> W w'"
    "\<exists>rc w'. env_computeGuidance env s i w = Inr (rc, w') \<and> W w' \<and>
        (env_getNextComputeTime env s i w' = TIME_INVALID \<or> now < env_getNextComputeTime env s i w')"
  using assms by (simp_all add: steady_def)

lemma due_cost_guidance: "due_cost n now (map (\<lambda>s. (x, TYPE_GUIDANCE, i, s)) ss) \<le> length ss"
  by (induction ss) (auto simp: due_cost_def due_weight_def)

lemma steady_effects:
  assumes st: "steady env now W" "W w" and t: "ttype t = TYPE_GUIDANCE \<Longrightarrow> sel_mgr t \<noteq> 0"
  shows "\<exists>es w'. task_effects env w mgrs t = Inr (es, w') \<and> W w' \<and> due_cost (length mgrs) now es < due_weight (length mgrs) (ttype t)"
proof (cases "ttype t")
  case TYPE_PIDMAP
  obtain rc w' where l: "env_pidmap_load env (tisp t) w = Inr (rc, w')" "W w'" "0 < env_pidmap_ttl env (tisp t) w'"
    using steadyD(2) [OF st] by blast
  then show ?thesis using TYPE_PIDMAP steadyD(1) [OF st(1) l(2)]
    by (auto simp: task_effects_def Let_def due_cost_def due_weight_def)
next
  case TYPE_PDISTANCE
  obtain rc w' where l: "env_pdist_load env (tisp t) w = Inr (rc, w')" "W w'" "0 < env_pdist_ttl env (tisp t) w'"
    using steadyD(3) [OF st] by blast
  then show ?thesis using TYPE_PDISTANCE steadyD(1) [OF st(1) l(2)] due_cost_guidance [of "length mgrs" now 0 "tisp t" "map fst mgrs"]
    by (auto simp: task_effects_def Let_def due_cost_def due_weight_def)
next
  case TYPE_GUIDANCE
  let ?s = "sel_mgr t" and ?i = "tisp t"
  obtain rc w1 where l: "env_updatePeerDistribution env ?s ?i w = Inr (rc, w1)" "W w1" using steadyD(4) [OF st] by blast
  obtain rc' w2 where c: "env_computeGuidance env ?s ?i w1 = Inr (rc', w2)" "W w2"
      "env_getNextComputeTime env ?s ?i w2 = TIME_INVALID \<or> now < env_getNextComputeTime env ?s ?i w2"
    using steadyD(5) [OF st(1) l(2)] by blast
  show ?thesis using TYPE_GUIDANCE t l c by (auto simp: task_effects_def Let_def due_cost_def due_weight_def)
qed

lemma run_step_due:
  assumes ok: "um_ok m" and st: "steady env now W" "W w" and busy: "\<not> um_idle env w m"
  shows "ub_or (run_step env w m) (\<lambda>(m', w', r). r \<noteq> None \<and> um_ok m' \<and> W w' \<and> m_selection_mgrs m' = m_selection_mgrs m \<and>
    due_load (length (m_selection_mgrs m)) now (sched m') < due_load (length (m_selection_mgrs m)) now (sched m))"
proof -
  have inv: "um_inv {} m" using ok by (simp add: um_ok_def)
  let ?n = "length (m_selection_mgrs m)"
  obtain t where t: "t \<in> queued m" "exectime t \<le> env_time env w" and
    eff: "case task_effects env w (m_selection_mgrs m) t of
       Inl e \<Rightarrow> run_step env w m = Inl e
     | Inr (es, w') \<Rightarrow> ub_or (run_step env w m) (\<lambda>(m', w'', r). r = Some t \<and> w'' = w' \<and> um_inv {} m' \<and> um_frame m m' \<and>
         sched m' = fold sched_enqueue es ((sched m)(task_key t := None)))"
    using run_step_busy [OF inv busy] by blast
  have guid: "sel_mgr t \<noteq> 0" if "ttype t = TYPE_GUIDANCE" using um_ok_task(1) [OF ok t(1)] that by simp
  obtain es w' where es: "task_effects env w (m_selection_mgrs m) t = Inr (es, w')" "W w'" "due_cost ?n now es < due_weight ?n (ttype t)"
    using steady_effects [OF st guid] by blast
  have load: "due_load ?n now (fold sched_enqueue es ((sched m)(task_key t := None))) < due_load ?n now (sched m)"
    using due_load_remove [OF finite_sched sched_queued [OF ok t(1)], of now ?n] due_load_fold [of "(sched m)(task_key t := None)" ?n now es]
      es(3) t(2) steadyD(1) [OF st] finite_sched [of m] by (simp add: task_key_def)
  show ?thesis
  proof (cases "run_step env w m")
    case (Inr c)
    obtain m' w'' r where c: "c = (m', w'', r)" by (cases c)
    have "r = Some t" "w'' = w'" "um_frame m m'" "sched m' = fold sched_enqueue es ((sched m)(task_key t := None))"
      using eff es(1) Inr c by simp_all
    moreover have "um_ok m'" using run_step_cases [OF ok Inr [unfolded c]] ok by blast
    ultimately show ?thesis using Inr c load es(2) by (simp add: um_frame_mgrs)
  qed (use eff es(1) in simp)
qed

lemma run_inner_ends:
  assumes "um_ok m" "steady env now W" "W w" "due_load (length (m_selection_mgrs m)) now (sched m) < n"
  shows "run_inner n env w m = Some (Inl Undefined_Behaviour) \<or>
    (\<exists>m' w' ts. run_inner n env w m = Some (Inr (m', w', ts)) \<and> um_idle env w' m')"
  using assms
proof (induction n arbitrary: w m)
  case (Suc n)
  show ?case
  proof (cases "um_idle env w m")
    case True
    then show ?thesis using run_step_idle [of m env w] Suc.prems(1) by (simp add: um_ok_def)
  next
    case False
    from run_step_due [OF Suc.prems(1-3) False] consider "run_step env w m = Inl Undefined_Behaviour" |
        m' w' t where "run_step env w m = Inr (m', w', Some t)" "um_ok m'" "W w'" "m_selection_mgrs m' = m_selection_mgrs m"
          "due_load (length (m_selection_mgrs m)) now (sched m') < due_load (length (m_selection_mgrs m)) now (sched m)"
      by (cases "run_step env w m") auto
    then show ?thesis
    proof cases
      case 2
      then have "due_load (length (m_selection_mgrs m')) now (sched m') < n" using Suc.prems(4) by simp
      from Suc.IH [OF 2(2) Suc.prems(2) 2(3) this] 2(1) show ?thesis by auto
    qed simp
  qed
qed simp



text \<open>
  A lifetime of 0 keeps the loop busy for ever: when the PID map of an ISP loads with a time
  to live of 0 and the clock does not go back, the inner loop never comes to an end once the task is
  due; it reloads the map again and again and never sleeps.
\<close>
theorem um_zero_ttl_spins:
  assumes "um_reach env m" "\<not> m_stopped m" "sched m (TYPE_PIDMAP, i, 0) = Some x" "x \<le> env_time env w"
    and load: "\<forall>w. \<exists>w'. env_pidmap_load env i w = Inr (0, w')" and ttl: "\<forall>w. env_pidmap_ttl env i w = 0"
    and clock: "\<forall>w mgrs t es w'. task_effects env w mgrs t = Inr (es, w') \<longrightarrow> env_time env w \<le> env_time env w'"
  shows "run_inner n env w m \<noteq> Some (Inr r)"
proof -
  have "um_ok m" by (rule um_reach_ok [OF assms(1)])
  then show ?thesis using assms(2-4)
  proof (induction n arbitrary: w m x r)
    case (Suc n)
    let ?k = "(TYPE_PIDMAP, i, 0) :: task_ident"
    have inv: "queue_inv (m_tasks m)" using Suc.prems(1) um_invD(1) [of "{}" m] by (simp add: um_ok_def)
    have busy: "\<not> um_idle env w m" using Suc.prems sched_Some [OF inv, of ?k x] by (force simp: um_idle_def)
    show ?case
    proof (cases "run_step env w m")
      case (Inr c)
      obtain m' w' rr where c: "c = (m', w', rr)" by (cases c)
      from run_step_cases [OF Suc.prems(1) Inr [unfolded c]] busy obtain t es where t: "rr = Some t"
          "task_effects env w (m_selection_mgrs m) t = Inr (es, w')" "um_ok m'" "um_frame m m'"
          "sched m' = fold sched_enqueue es ((sched m)(task_key t := None))" by blast
      have "\<exists>y\<le>env_time env w'. sched m' ?k = Some y"
      proof (cases "task_key t = ?k")
        case True
        obtain w1 where "env_pidmap_load env i w = Inr (0, w1)" using load by blast
        then have "(env_time env w', TYPE_PIDMAP, i, 0) \<in> set es" using True t(2) ttl by (auto simp: task_effects_def task_key_def Let_def)
        then show ?thesis unfolding t(5) by (rule fold_enqueue_adds)
      next
        case False
        then have "((sched m)(task_key t := None)) ?k = Some x" using Suc.prems(3) by simp
        from fold_enqueue_keeps [of "(sched m)(task_key t := None)", OF this, of es] Suc.prems(4) clock t(2,5) show ?thesis
          by (metis order_trans)
      qed
      then obtain y where y: "sched m' ?k = Some y" "y \<le> env_time env w'" by blast
      have "\<not> m_stopped m'" using t(4) Suc.prems(2) by (simp add: um_frame_def)
      then have never: "run_inner n env w' m' \<noteq> Some (Inr r')" for r' using Suc.IH [OF t(3) _ y] by blast
      show ?thesis
      proof (cases "run_inner n env w' m'")
        case (Some q)
        with never Inr c t(1) show ?thesis by (cases q) auto
      qed (use Inr c t(1) in simp)
    qed simp
  qed simp
qed

section \<open>The destructor\<close>

declare drain_tasks.simps [simp del]

lemma drain_tasks_spec:
  assumes "queue_inv h" "hsize h \<le> n"
  shows "\<exists>h' ts. drain_tasks n h = Some (Inr (h', ts)) \<and> m_vec h' = [] \<and> mset ts = mset (m_vec h) \<and> sorted (map exectime ts)"
  using assms
proof (induction n arbitrary: h)
  case 0
  then show ?case by (simp add: drain_tasks.simps)
next
  case (Suc n)
  show ?case
  proof (cases "m_vec h = []")
    case False
    then obtain t where t: "heap_top h = Inr t" "t \<in># mset (m_vec h)" "\<forall>u. u \<in># mset (m_vec h) \<longrightarrow> task_prio u \<le> task_prio t"
      using mh.top_law [OF Suc.prems(1)] by auto
    obtain h' where h': "heap_pop task_key task_prio h = Inr (h', True)" "queue_inv h'" "mset (m_vec h) = add_mset t (mset (m_vec h'))"
      using mh.pop_law [OF Suc.prems(1) t(1)] by blast
    have "hsize h' \<le> n" using arg_cong [OF h'(3), of size] Suc.prems(2) by simp
    with Suc.IH [OF h'(2)] obtain h'' ts where r: "drain_tasks n h' = Some (Inr (h'', ts))" "m_vec h'' = []"
        "mset ts = mset (m_vec h')" "sorted (map exectime ts)" by blast
    have "set ts \<subseteq> set_mset (mset (m_vec h))" using arg_cong [OF r(3), of set_mset] arg_cong [OF h'(3), of set_mset] by auto
    then have "sorted (map exectime (t # ts))" using r(4) t(3) by (auto simp: task_prio_def)
    then show ?thesis using False t(1) h'(1,3) r by (simp add: drain_tasks.simps [of "Suc n"])
  qed (simp add: drain_tasks.simps)
qed

text \<open>
  The destructor's loop ends after one turn for each queued task, and frees every task
  once, the earliest first.
\<close>
theorem um_destructor_drains:
  assumes "um_reach env m" "length (m_vec (m_tasks m)) \<le> n"
  shows "\<exists>h ts. drain_tasks n (m_tasks m) = Some (Inr (h, ts)) \<and> m_vec h = [] \<and> mset ts = mset (m_vec (m_tasks m)) \<and> sorted (map exectime ts)"
proof -
  have "queue_inv (m_tasks m)" using um_reach_ok [OF assms(1)] um_invD(1) [of "{}" m] by (simp add: um_ok_def)
  from drain_tasks_spec [OF this assms(2)] show ?thesis .
qed

end
