(* ===== verification/Client_System.thy ===== *)
theory Client_System
  imports Selection_Safety Update_Properties
begin

text \<open>
  The client library put together: the environment of the update manager is the model of the ISPs, of
  the peer distributions and of the selection managers with their guidance matrices. The portal servers,
  the files, the optimisation engine and the conversion of codes to numbers stay parameters.
\<close>

section \<open>The state of a client\<close>

record client =
  c_clock :: int
  c_isp_list :: "nat list"
  c_isps :: "nat \<Rightarrow> isp"
  c_peers :: "nat \<Rightarrow> double peer"
  c_sms :: "nat \<Rightarrow> pgm_selection_manager"
  c_pgm :: pgm_manager
  c_next :: nat

text \<open>What a client gets from outside.\<close>

record services =
  lportal :: "string \<Rightarrow> nat \<Rightarrow> pid_prefixes list portal_reply"
  lfile :: "string \<Rightarrow> pid_prefixes list file_reply"
  dportal :: "string \<Rightarrow> nat \<Rightarrow> u32 pid_matrix portal_reply"
  dfile :: "string \<Rightarrow> u32 pid_matrix file_reply"
  engine :: aoe_engine
  i2f :: "int \<Rightarrow> double"

definition c_pidmap_load :: "services \<Rightarrow> nat \<Rightarrow> client \<Rightarrow> (int \<times> client) result" where
  "c_pidmap_load sv i w = bindE (pm_loadP4PInfo (lportal sv) (lfile sv) (c_clock w) (m_pidmap (c_isps w i))) (\<lambda>(pm, rc).
     Inr (rc, w\<lparr>c_isps := (c_isps w)(i := (c_isps w i)\<lparr>m_pidmap := pm\<rparr>)\<rparr>))"

definition c_pdist_load :: "services \<Rightarrow> nat \<Rightarrow> client \<Rightarrow> (int \<times> client) result" where
  "c_pdist_load sv i w =
     (let (dm, rc) = dm_loadP4PInfo (dportal sv) (dfile sv) (c_clock w) (listPIDs (m_pidmap (c_isps w i))) (m_pdistmap (c_isps w i)) in
      Inr (rc, w\<lparr>c_isps := (c_isps w)(i := (c_isps w i)\<lparr>m_pdistmap := dm\<rparr>)\<rparr>))"

definition c_updatePeerDistribution :: "services \<Rightarrow> nat \<Rightarrow> nat \<Rightarrow> client \<Rightarrow> (int \<times> client) result" where
  "c_updatePeerDistribution sv s i w =
     bindE (sm_updatePeerDistribution (i2f sv) (c_isps w) (c_peers w) (selection_manager.truncate (c_sms w s)) i) (\<lambda>(base, ps, rc).
       Inr (rc, w\<lparr>c_sms := (c_sms w)(s := (c_sms w s)\<lparr>sm_isp_peers := sm_isp_peers base\<rparr>), c_peers := ps\<rparr>))"

definition c_computeGuidance :: "services \<Rightarrow> nat \<Rightarrow> nat \<Rightarrow> client \<Rightarrow> (int \<times> client) result" where
  "c_computeGuidance sv s i w =
     bindE (computeGuidanceInternal (engine sv) (i2f sv) (c_clock w) (c_isps w) (c_next w, c_next w + 1) (c_sms w s) (c_pgm w) i) (\<lambda>(sm, g, rc).
       Inr (rc, w\<lparr>c_sms := (c_sms w)(s := sm), c_pgm := g, c_next := c_next w + 2\<rparr>))"

text \<open>The case in which \<open>getNextComputeTime\<close> follows the end iterator is never asked for, see below.\<close>

definition c_getNextComputeTime :: "nat \<Rightarrow> nat \<Rightarrow> client \<Rightarrow> int" where
  "c_getNextComputeTime s i w = (case sm_getNextComputeTime (c_sms w s) (c_pgm w) i of Inr t \<Rightarrow> t | Inl e \<Rightarrow> 0)"

definition client_env :: "services \<Rightarrow> client update_env" where
  "client_env sv = \<lparr>env_time = c_clock, env_isps = c_isp_list,
     env_pidmap_load = c_pidmap_load sv, env_pidmap_ttl = (\<lambda>i w. pm_ttl (m_pidmap (c_isps w i))),
     env_pdist_load = c_pdist_load sv, env_pdist_ttl = (\<lambda>i w. dm_ttl (m_pdistmap (c_isps w i))),
     env_updatePeerDistribution = c_updatePeerDistribution sv, env_computeGuidance = c_computeGuidance sv,
     env_getNextComputeTime = c_getNextComputeTime\<rparr>"

lemma client_env_simps [simp]:
  "env_time (client_env sv) = c_clock" "env_isps (client_env sv) = c_isp_list"
  "env_pidmap_load (client_env sv) = c_pidmap_load sv" "env_pidmap_ttl (client_env sv) = (\<lambda>i w. pm_ttl (m_pidmap (c_isps w i)))"
  "env_pdist_load (client_env sv) = c_pdist_load sv" "env_pdist_ttl (client_env sv) = (\<lambda>i w. dm_ttl (m_pdistmap (c_isps w i)))"
  "env_updatePeerDistribution (client_env sv) = c_updatePeerDistribution sv"
  "env_computeGuidance (client_env sv) = c_computeGuidance sv" "env_getNextComputeTime (client_env sv) = c_getNextComputeTime"
  by (simp_all add: client_env_def)

section \<open>Guidance tasks\<close>

lemma computeGuidance_keeps_entry:
  assumes "computeGuidanceInternal aoe f now isps a sm g i = Inr (sm', g', rc)" "smap_inv (m_guidance sm)"
  shows "smap_find (m_guidance sm') i \<noteq> None"
  using assms by (auto simp: computeGuidanceInternal_def Let_def bindE_eq_Inr split: option.splits if_splits)

text \<open>
  Property C34. What a guidance task of the update manager comes to when its calls are those of
  \<open>PGMSelectionManager\<close>. For an ISP the selection manager does not maintain, the update throws an exception,
  where the update manager tests for the code \<open>ERR_INVALID_ISP\<close>. For an ISP it maintains, no further task is
  scheduled: \<open>getNextComputeTime\<close> returns the invalid time exactly for the ISPs that are found, so guidance is
  not computed again until the next update of the distances.
\<close>
theorem guidance_task_outcome:
  assumes "s \<noteq> 0" "c_updatePeerDistribution sv s i w = Inr (rc, w1)" "smap_inv (m_guidance (c_sms w s))"
  shows "(smap_find (m_guidance (c_sms w s)) i = None \<longrightarrow> updateGuidance (client_env sv) w m i s =
      Inl (Runtime_Error ''Illegal state: no guidance matrix map entry exists for desired ISP'')) \<and>
    (\<forall>m' w'. updateGuidance (client_env sv) w m i s = Inr (m', w') \<longrightarrow> m' = m)"
proof -
  have rc: "rc \<noteq> ERR_INVALID_ISP" and w1: "m_guidance (c_sms w1 s) = m_guidance (c_sms w s)"
    using assms(2) by (auto simp: c_updatePeerDistribution_def sm_updatePeerDistribution_def bindE_eq_Inr split: if_splits)
  have U: "updateGuidance (client_env sv) w m i s = bindE (c_computeGuidance sv s i w1) (\<lambda>(rc', w2).
      if rc' = ERR_INVALID_ISP then Inr (m, w2)
      else let next = c_getNextComputeTime s i w2 in
        if next = TIME_INVALID then Inr (m, w2) else bindE (enqueueTask m next TYPE_GUIDANCE i s) (\<lambda>m'. Inr (m', w2)))"
    using assms(1,2) rc by (simp add: updateGuidance_def cong: if_cong)
  have T: "c_getNextComputeTime s i w2 = TIME_INVALID" if r: "c_computeGuidance sv s i w1 = Inr (rc', w2)" for rc' w2
  proof -
    obtain sm g where sm: "computeGuidanceInternal (engine sv) (i2f sv) (c_clock w1) (c_isps w1) (c_next w1, c_next w1 + 1) (c_sms w1 s) (c_pgm w1) i = Inr (sm, g, rc')"
        "w2 = w1\<lparr>c_sms := (c_sms w1)(s := sm), c_pgm := g, c_next := c_next w1 + 2\<rparr>"
      using r by (auto simp: c_computeGuidance_def bindE_eq_Inr)
    from computeGuidance_keeps_entry [OF sm(1)] assms(3) w1 sm(2) show ?thesis
      by (auto simp: c_getNextComputeTime_def sm_getNextComputeTime_def)
  qed
  have "updateGuidance (client_env sv) w m i s = Inl (Runtime_Error ''Illegal state: no guidance matrix map entry exists for desired ISP'')"
    if "smap_find (m_guidance (c_sms w s)) i = None"
    unfolding U using that w1 by (simp add: c_computeGuidance_def computeGuidanceInternal_def)
  moreover have "m' = m" if "updateGuidance (client_env sv) w m i s = Inr (m', w')" for m' w'
    using that T unfolding U by (auto simp: bindE_eq_Inr split: if_splits)
  ultimately show ?thesis by blast
qed

section \<open>Stale distances\<close>

definition replies_ok :: "int \<Rightarrow> services \<Rightarrow> bool" where
  "replies_ok fam sv \<longleftrightarrow> (\<forall>a p t v pps. lportal sv a p = Reply t v pps \<longrightarrow> prefixes_ok fam pps) \<and>
     (\<forall>f pps. lfile sv f = File_Data pps \<longrightarrow> prefixes_ok fam pps)"

text \<open>
  Steps of a client: operations of the update manager and turns of its loop, each with the replies the
  services give at that time, and everything that leaves the ISPs as they are.
\<close>

inductive client_step :: "int \<Rightarrow> update_manager \<times> client \<Rightarrow> update_manager \<times> client \<Rightarrow> bool" for fam where
  cs_isps: "setISPManager (client_env sv) w m a = Inr (m', b) \<Longrightarrow> client_step fam (m, w) (m', w)"
| cs_add: "s \<noteq> 0 \<Longrightarrow> addSelectionManager (client_env sv) w m s = Inr (m', b) \<Longrightarrow> client_step fam (m, w) (m', w)"
| cs_remove: "removeSelectionManager m s = Inr (m', b) \<Longrightarrow> client_step fam (m, w) (m', w)"
| cs_run: "replies_ok fam sv \<Longrightarrow> run_step (client_env sv) w m = Inr (m', w', r) \<Longrightarrow> client_step fam (m, w) (m', w')"
| cs_stop: "client_step fam (m, w) (um_stop m, w)"
| cs_other: "c_isps w' = c_isps w \<Longrightarrow> client_step fam (m, w) (m, w')"

definition square_for :: "isp \<Rightarrow> bool" where
  "square_for s \<longleftrightarrow> length (dm_pdists (m_pdistmap s)) = length (pm_pids (m_pidmap s)) \<and>
     (\<forall>row\<in>set (dm_pdists (m_pdistmap s)). length row = length (pm_pids (m_pidmap s)))"

definition client_inv :: "int \<Rightarrow> update_manager \<times> client \<Rightarrow> bool" where
  "client_inv fam = (\<lambda>(m, w). um_ok m \<and> (\<forall>i. pm_invariant fam (m_pidmap (c_isps w i)) \<and>
     (square_for (c_isps w i) \<or> sched m (TYPE_PDISTANCE, i, 0) \<noteq> None)))"

lemma fetch_ok:
  assumes "replies_ok fam sv" "pm_fetch (lportal sv) (lfile sv) d proto f = Inr (pps, ttl, ver)"
  shows "prefixes_ok fam pps"
  using assms by (auto simp: replies_ok_def pm_fetch_def split: option.splits portal_reply.splits file_reply.splits)

lemma fetch_error: "pm_fetch portal file d proto f = Inl e \<Longrightarrow> e \<noteq> 0"
  by (auto simp: pm_fetch_def split: option.splits portal_reply.splits file_reply.splits)

lemma pm_load_failed:
  "pm_loadP4PInfo portal file now m = Inr (m', rc) \<Longrightarrow> rc \<noteq> 0 \<Longrightarrow> m' = m"
  by (auto simp: pm_loadP4PInfo_def bindE_eq_Inr split: sum.splits)

lemma pm_load_invariant:
  assumes "replies_ok fam sv" "pm_invariant fam m" "pm_loadP4PInfo (lportal sv) (lfile sv) now m = Inr (m', rc)"
  shows "pm_invariant fam m'"
proof (cases "pm_fetch (lportal sv) (lfile sv) PIDMAP_DEFAULT_TTL (pm_proto m) (pm_filename m)")
  case (Inl e)
  then show ?thesis using assms(2,3) by (simp add: pm_loadP4PInfo_def)
next
  case (Inr r)
  then obtain pps ttl ver where f: "pm_fetch (lportal sv) (lfile sv) PIDMAP_DEFAULT_TTL (pm_proto m) (pm_filename m) = Inr (pps, ttl, ver)"
    by (cases r) auto
  from pm_load_spec [OF assms(2) fetch_ok [OF assms(1) f] f, of now] assms(3) show ?thesis by auto
qed

lemma c_pidmap_load_spec:
  assumes "replies_ok fam sv" "pm_invariant fam (m_pidmap (c_isps w i))" "c_pidmap_load sv i w = Inr (rc, w')"
  shows "pm_invariant fam (m_pidmap (c_isps w' i))" "j \<noteq> i \<Longrightarrow> c_isps w' j = c_isps w j" "rc \<noteq> 0 \<Longrightarrow> c_isps w' i = c_isps w i"
  using assms pm_load_invariant [OF assms(1,2)] by (auto simp: c_pidmap_load_def bindE_eq_Inr dest: pm_load_failed)

lemma c_pdist_load_spec:
  assumes "c_pdist_load sv i w = Inr (rc, w')"
  shows "m_pidmap (c_isps w' j) = m_pidmap (c_isps w j)" "j \<noteq> i \<Longrightarrow> c_isps w' j = c_isps w j"
    "rc \<noteq> 0 \<Longrightarrow> c_isps w' i = c_isps w i" "rc = 0 \<Longrightarrow> square_for (c_isps w' i)"
proof -
  obtain dm where dm: "dm_loadP4PInfo (dportal sv) (dfile sv) (c_clock w) (listPIDs (m_pidmap (c_isps w i))) (m_pdistmap (c_isps w i)) = (dm, rc)"
      and w': "w' = w\<lparr>c_isps := (c_isps w)(i := (c_isps w i)\<lparr>m_pdistmap := dm\<rparr>)\<rparr>"
    using assms by (auto simp: c_pdist_load_def Let_def split: prod.splits)
  show "m_pidmap (c_isps w' j) = m_pidmap (c_isps w j)" "j \<noteq> i \<Longrightarrow> c_isps w' j = c_isps w j" by (simp_all add: w')
  show "rc \<noteq> 0 \<Longrightarrow> c_isps w' i = c_isps w i" "rc = 0 \<Longrightarrow> square_for (c_isps w' i)"
    using dm unfolding w' by (auto simp: dm_loadP4PInfo_def square_for_def listPIDs_def dest: fetch_error split: sum.splits)
qed

lemma guidance_effects:
  assumes "task_effects (client_env sv) w mgrs t = Inr (es, w')" "ttype t = TYPE_GUIDANCE"
  shows "c_isps w' = c_isps w"
  using assms by (auto simp: task_effects_def Let_def bindE_eq_Inr c_updatePeerDistribution_def c_computeGuidance_def split: if_splits)

text \<open>A task leaves the distances square, or a task to load them in the queue.\<close>

lemma task_square:
  assumes eff: "task_effects (client_env sv) w mgrs t = Inr (es, w')" and sv: "replies_ok fam sv"
    and inv: "\<And>j. pm_invariant fam (m_pidmap (c_isps w j))"
    and sq: "square_for (c_isps w i) \<or> \<sigma> (TYPE_PDISTANCE, i, 0) \<noteq> None"
  shows "pm_invariant fam (m_pidmap (c_isps w' i)) \<and>
    (square_for (c_isps w' i) \<or> fold sched_enqueue es (\<sigma>(task_key t := None)) (TYPE_PDISTANCE, i, 0) \<noteq> None)"
proof -
  let ?k = "(TYPE_PDISTANCE, i, 0)" and ?\<sigma> = "fold sched_enqueue es (\<sigma>(task_key t := None))"
  have keeps: "?\<sigma> ?k \<noteq> None" if "\<sigma> ?k \<noteq> None" "ttype t \<noteq> TYPE_PDISTANCE \<or> tisp t \<noteq> i"
  proof -
    have "(\<sigma>(task_key t := None)) ?k = \<sigma> ?k" using that(2) by (auto simp: task_key_def)
    with that(1) fold_enqueue_keeps show ?thesis by (metis not_None_eq option.distinct(1))
  qed
  have adds: "?\<sigma> ?k \<noteq> None" if "(x, TYPE_PDISTANCE, i, 0) \<in> set es" for x using fold_enqueue_adds [OF that, of "\<sigma>(task_key t := None)"] by auto
  show ?thesis
  proof (cases "ttype t")
    case TYPE_PIDMAP
    then obtain rc where l: "c_pidmap_load sv (tisp t) w = Inr (rc, w')" "rc = 0 \<longrightarrow> (0, TYPE_PDISTANCE, tisp t, 0) \<in> set es"
      using eff by (auto simp: task_effects_def Let_def bindE_eq_Inr split: if_splits)
    note L = c_pidmap_load_spec [OF sv inv l(1)]
    show ?thesis
    proof (cases "tisp t = i \<and> rc = 0")
      case True
      then show ?thesis using L(1) l(2) adds by blast
    next
      case False
      then have "c_isps w' i = c_isps w i" using L(2) [of i] L(3) by metis
      then show ?thesis using inv sq keeps TYPE_PIDMAP by auto
    qed
  next
    case TYPE_PDISTANCE
    then obtain rc where l: "c_pdist_load sv (tisp t) w = Inr (rc, w')" and "\<exists>x. (x, TYPE_PDISTANCE, tisp t, 0) \<in> set es"
      using eff by (fastforce simp: task_effects_def Let_def bindE_eq_Inr split: if_splits)
    then obtain x where x: "(x, TYPE_PDISTANCE, tisp t, 0) \<in> set es" by blast
    note L = c_pdist_load_spec [OF l]
    show ?thesis
    proof (cases "tisp t = i")
      case True
      then show ?thesis using L(1) inv x adds by metis
    next
      case False
      then show ?thesis using L(2) [of i] inv sq keeps by auto
    qed
  next
    case TYPE_GUIDANCE
    then show ?thesis using guidance_effects [OF eff] inv sq keeps by auto
  qed
qed

lemma client_step_inv: "client_step fam s s' \<Longrightarrow> client_inv fam s \<Longrightarrow> client_inv fam s'"
proof (induction rule: client_step.induct)
  case (cs_isps sv w m a m' b)
  have ok: "um_ok m" using cs_isps by (simp add: client_inv_def)
  have "sched m' k \<noteq> None" if "sched m k \<noteq> None" for k
    using setISPManager_ok [OF ok cs_isps(1)] fold_enqueue_keeps [of "sched m" k] that by (auto split: if_splits)
  then show ?case using setISPManager_ok [OF ok cs_isps(1)] cs_isps(2) by (auto simp: client_inv_def)
next
  case (cs_add s sv w m m' b)
  have ok: "um_ok m" using cs_add by (simp add: client_inv_def)
  have "sched m' k \<noteq> None" if "sched m k \<noteq> None" for k
    using addSelectionManager_ok [OF ok cs_add(1,2)] fold_enqueue_keeps [of "sched m" k] that by auto metis
  then show ?case using addSelectionManager_ok [OF ok cs_add(1,2)] cs_add(3) by (auto simp: client_inv_def)
next
  case (cs_remove m s m' b w)
  have ok: "um_ok m" using cs_remove by (simp add: client_inv_def)
  show ?case
  proof (cases "smap_find (m_selection_mgrs m) s = None")
    case False
    moreover have "smap_find (m_selection_mgrs m) 0 = None" using ok by (simp add: um_ok_def sched_wf_def)
    ultimately have "s \<noteq> 0" by metis
    then show ?thesis using removeSelectionManager_ok [OF ok False cs_remove(1)] cs_remove(2) by (auto simp: client_inv_def sched_forget_def)
  qed (use cs_remove in \<open>simp add: removeSelectionManager_def\<close>)
next
  case (cs_run sv w m m' w' r)
  have ok: "um_ok m" and inv: "\<And>i. pm_invariant fam (m_pidmap (c_isps w i))"
    and sq: "\<And>i. square_for (c_isps w i) \<or> sched m (TYPE_PDISTANCE, i, 0) \<noteq> None" using cs_run(3) by (simp_all add: client_inv_def)
  from run_step_cases [OF ok cs_run(2)] show ?case
  proof (elim disjE exE conjE)
    fix t es
    assume t: "task_effects (client_env sv) w (m_selection_mgrs m) t = Inr (es, w')" "um_ok m'"
      "sched m' = fold sched_enqueue es ((sched m)(task_key t := None))"
    from task_square [where \<sigma> = "sched m", OF t(1) cs_run(1) inv sq] t(2,3) show ?thesis by (simp add: client_inv_def)
  qed (use cs_run(3) in simp)
next
  case (cs_stop m w)
  then show ?case using um_step_ok [OF _ step_stop, of m] by (simp add: client_inv_def um_stop_def sched_def)
next
  case (cs_other w' w m)
  then show ?case by (simp add: client_inv_def)
qed

text \<open>
  Property C7. From a new update manager and ISPs whose maps are empty or fit, whatever the portals reply
  (failures included, prefixes of one address family), whatever managers are added and removed and in
  whatever order tasks run: every PID map is one that lookups work on, and when the distances of an ISP have
  not a row and a column for every PID of its PID map, a task to load them is queued.
\<close>
theorem client_distances_refreshed:
  assumes "\<forall>i. pm_invariant fam (m_pidmap (c_isps w0 i)) \<and> square_for (c_isps w0 i)"
    and "(client_step fam)\<^sup>*\<^sup>* (P4PUpdateManager, w0) (m, w)"
  shows "pm_invariant fam (m_pidmap (c_isps w i)) \<and>
    (square_for (c_isps w i) \<or> (\<exists>t\<in>set (m_vec (m_tasks m)). ttype t = TYPE_PDISTANCE \<and> tisp t = i))"
proof -
  have "client_inv fam (P4PUpdateManager, w0)" using assms(1) um_ok_init by (simp add: client_inv_def)
  with assms(2) have "client_inv fam (m, w)" by (induction rule: rtranclp_induct) (auto intro: client_step_inv)
  moreover have "\<exists>t\<in>set (m_vec (m_tasks m)). ttype t = TYPE_PDISTANCE \<and> tisp t = i" if "sched m (TYPE_PDISTANCE, i, 0) \<noteq> None"
    using that sched_None [of m "(TYPE_PDISTANCE, i, 0)"] by (force simp: task_key_def)
  ultimately show ?thesis by (auto simp: client_inv_def)
qed

text \<open>One ISP that has a portal server; a reply with two PIDs.\<close>

definition ex_services :: services where
  "ex_services = \<lparr>lportal = (\<lambda>a p. Reply 60 3 ex_reply), lfile = (\<lambda>f. Open_Failed), dportal = (\<lambda>a p. Connection_Error),
     dfile = (\<lambda>f. Open_Failed), engine = (\<lambda>a p r. None), i2f = of_int\<rparr>"

definition ex_client :: "isp_pidmap \<Rightarrow> client" where
  "ex_client pm = \<lparr>c_clock = 100, c_isp_list = [11], c_isps = (\<lambda>i. \<lparr>m_pidmap = pm, m_pdistmap = ISPPDistanceMap\<rparr>),
     c_peers = sel_peers 0, c_sms = (\<lambda>s. PGMSelectionManager), c_pgm = PeeringGuidanceMatrixManager, c_next = 1\<rparr>"

text \<open>A selection manager that was given no ISP.\<close>

theorem guidance_task_outcome_witness:
  "updateGuidance (client_env ex_services) (ex_client (sel_pidmap sel_trie)) ex_um 11 3 =
     Inl (Runtime_Error ''Illegal state: no guidance matrix map entry exists for desired ISP'')"
proof -
  let ?w = "ex_client (sel_pidmap sel_trie)"
  have "c_updatePeerDistribution ex_services 3 11 ?w = Inr (1, ?w)"
    by (simp add: c_updatePeerDistribution_def sm_updatePeerDistribution_def pdm_updatePeerDistribution_def ex_client_def PGMSelectionManager_def
        PeerDistributionManager_def selection_manager.truncate_def fun_eq_iff)
  from guidance_task_outcome [OF _ this, of ex_um] show ?thesis by (simp add: ex_client_def PGMSelectionManager_def)
qed

lemma ex_client_set: "setISPManager (client_env sv) (ex_client pm) P4PUpdateManager 7 = Inr (ex_um, True)"
  by (simp add: setISPManager_def P4PUpdateManager_def ex_client_def enqueueTask_def Let_def heap_find_def ras_find_def ras_empty_def
      addTask_def heap_push_def ras_push_back_def percolateUp.simps task_key_def ex_um_def ex_task_def)

lemma ex_replies: "replies_ok AF_INET ex_services"
  using ex_reply_ok by (simp add: replies_ok_def ex_services_def)

definition ex_um2 :: update_manager where
  "ex_um2 = \<lparr>m_stopped = False, m_isp_mgr = 7, m_selection_mgrs = [],
     m_tasks = \<lparr>m_vec_index = [((TYPE_PIDMAP, 11, 0), 1), ((TYPE_PDISTANCE, 11, 0), 0)],
       m_vec = [\<lparr>task_id = 3, exectime = 0, ttype = TYPE_PDISTANCE, tisp = 11, sel_mgr = 0\<rparr>,
         \<lparr>task_id = 2, exectime = 160, ttype = TYPE_PIDMAP, tisp = 11, sel_mgr = 0\<rparr>]\<rparr>, m_selmgr_tasks = [], um_next = 4\<rparr>"

lemma ex_enqueue:
  "bindE (heap_pop task_key task_prio (m_tasks ex_um)) (\<lambda>(h, b).
     bindE (enqueueTask (ex_um\<lparr>m_tasks := h\<rparr>) 160 TYPE_PIDMAP 11 0) (\<lambda>m'. enqueueTask m' 0 TYPE_PDISTANCE 11 0)) = Inr ex_um2"
  by code_simp

text \<open>After the first PID map is loaded its distances are missing, and are loaded next.\<close>

theorem client_distances_refreshed_witness:
  "\<exists>pm w. ISPPIDMap_server ''portal'' 6671 = Inr pm \<and> (client_step AF_INET)\<^sup>*\<^sup>* (P4PUpdateManager, ex_client pm) (ex_um2, w) \<and>
     \<not> square_for (c_isps w 11) \<and>
     (square_for (c_isps w 11) \<or> (\<exists>t\<in>set (m_vec (m_tasks ex_um2)). ttype t = TYPE_PDISTANCE \<and> tisp t = 11))"
proof -
  obtain pm where pm: "ISPPIDMap_server ''portal'' 6671 = Inr pm" "pm_invariant AF_INET pm" "pm_proto pm = Some (''portal'', 6671)"
    by (rule ex_server)
  have new: "pm_pids pm = []" using pm(1) by (auto simp: ISPPIDMap_server_def ISPPIDMap_def bindE_eq_Inr pm_setDataSourceServer_def)
  have fetch: "pm_fetch (lportal ex_services) (lfile ex_services) PIDMAP_DEFAULT_TTL (pm_proto pm) (pm_filename pm) = Inr (ex_reply, 60, show_nat 3)"
    by (simp add: pm_fetch_def pm(3) ex_services_def)
  obtain pm' where pm': "pm_loadP4PInfo (lportal ex_services) (lfile ex_services) 100 pm = Inr (pm', 0)" "pm_pids pm' = map pp_pid ex_reply" "pm_ttl pm' = 60"
    using pm_load_spec [OF pm(2) ex_reply_ok fetch, of 100] by blast
  define w where "w = (ex_client pm)\<lparr>c_isps := (c_isps (ex_client pm))(11 := (c_isps (ex_client pm) 11)\<lparr>m_pidmap := pm'\<rparr>)\<rparr>"
  have load: "c_pidmap_load ex_services 11 (ex_client pm) = Inr (0, w)" using pm'(1) by (simp add: c_pidmap_load_def w_def ex_client_def)
  have w: "c_clock w = 100" "pm_ttl (m_pidmap (c_isps w 11)) = 60" by (simp_all add: w_def ex_client_def pm'(3))
  obtain h b where h: "heap_pop task_key task_prio (m_tasks ex_um) = Inr (h, b)" using ex_enqueue by (auto simp: bindE_eq_Inr)
  have q: "bindE (enqueueTask (ex_um\<lparr>m_tasks := h\<rparr>) 160 TYPE_PIDMAP 11 0) (\<lambda>m'. enqueueTask m' 0 TYPE_PDISTANCE 11 0) = Inr ex_um2"
    using ex_enqueue by (simp add: h)
  have e: "executeTask (client_env ex_services) (ex_client pm) (ex_um\<lparr>m_tasks := h\<rparr>) (ex_task 1 TYPE_PIDMAP 0) = Inr (ex_um2, w)"
    using q by (auto simp: executeTask_def ex_task_def updatePIDMap_def load w bindE_eq_Inr)
  have t: "heap_top (m_tasks ex_um) = Inr (ex_task 1 TYPE_PIDMAP 0)" "removeTask ex_um2 (ex_task 1 TYPE_PIDMAP 0) False = Inr ex_um2" by code_simp+
  have "run_step (client_env ex_services) (ex_client pm) ex_um = Inr (ex_um2, w, Some (ex_task 1 TYPE_PIDMAP 0))"
    using e t h by (simp add: run_step_def) (simp add: ex_um_def ex_task_def ex_client_def)
  from cs_run [OF ex_replies this] cs_isps [OF ex_client_set [of ex_services pm], of AF_INET]
  have reach: "(client_step AF_INET)\<^sup>*\<^sup>* (P4PUpdateManager, ex_client pm) (ex_um2, w)" by (meson converse_rtranclp_into_rtranclp r_into_rtranclp)
  have start: "\<forall>i. pm_invariant AF_INET (m_pidmap (c_isps (ex_client pm) i)) \<and> square_for (c_isps (ex_client pm) i)"
    using pm(2) new by (simp add: ex_client_def square_for_def ISPPDistanceMap_def)
  have "\<not> square_for (c_isps w 11)" by (simp add: square_for_def w_def ex_client_def ISPPDistanceMap_def pm'(2) ex_reply_eq)
  with client_distances_refreshed [OF start reach, of 11] pm(1) reach show ?thesis by blast
qed

end
