(* ===== verification/Client_Selection.thy ===== *)
theory Client_Selection
  imports Selection_Properties
begin

text \<open>
  \<open>common/cpp/src/lib/client_peer_selection_location.cpp\<close>: a peer chooses among candidates by itself, with
  PID maps it has as files. A percentage the constructor does not set stays indeterminate (\<open>None\<close>), and
  computing with it is undefined. Peers are numbers, and \<open>addr\<close> gives their addresses.
\<close>

section \<open>The class\<close>

record client_selection =
  m_self_pid :: int
  m_home_pidmap :: "isp_pidmap option"
  m_intra_isp_pids :: nat
  m_pids :: nat
  m_intra_pid_pct :: "double option"
  m_intra_isp_pct :: "double option"

text \<open>The loop over the files: the first map in which the peer has an internal PID, or none, is its home.\<close>

fun find_home :: "(string \<Rightarrow> pid_prefixes list file_reply) \<Rightarrow> int \<Rightarrow> ip_prefix \<Rightarrow> string list \<Rightarrow> client_selection \<Rightarrow> client_selection result" where
  "find_home file now self_addr [] c = Inr c"
| "find_home file now self_addr (f # fs) c =
     bindE (ISPPIDMap_file f) (\<lambda>m0.
     bindE (pm_loadP4PInfo (\<lambda>_ _. Connection_Error) file now m0) (\<lambda>(m, rc).
       if rc \<noteq> 0 then find_home file now self_addr fs c
       else bindE (pm_lookup m self_addr False) (\<lambda>(self_pid, _).
         if \<not> get_external (getPIDInfo m self_pid) \<or> self_pid < 0 then
           bindE (getNumPIDs m) (\<lambda>(intra, tot).
             Inr (c\<lparr>m_self_pid := self_pid, m_home_pidmap := Some m, m_intra_isp_pids := intra, m_pids := tot,
                    m_intra_pid_pct := (if intra = 1 then m_intra_isp_pct c else m_intra_pid_pct c)\<rparr>))
         else find_home file now self_addr fs c)))"

definition P4PClientPeerSelectionLocation ::
    "(string \<Rightarrow> pid_prefixes list file_reply) \<Rightarrow> int \<Rightarrow> ip_prefix \<Rightarrow> string list \<Rightarrow> double \<Rightarrow> double \<Rightarrow> client_selection result" where
  "P4PClientPeerSelectionLocation file now self_addr pidmap_filenames intra_pid_pct intra_isp_pct =
     find_home file now self_addr pidmap_filenames
       \<lparr>m_self_pid = - 1, m_home_pidmap = None, m_intra_isp_pids = 0, m_pids = 0,
        m_intra_pid_pct = (if intra_pid_pct < 0 \<or> intra_isp_pct < intra_pid_pct then None else Some intra_pid_pct),
        m_intra_isp_pct = (if intra_isp_pct < intra_pid_pct \<or> 99 / 100 < intra_isp_pct then None else Some intra_isp_pct)\<rparr>"

text \<open>The candidates by the place of their PID: that of the peer itself, of its ISP, and the others.\<close>

fun group_peers :: "isp_pidmap \<Rightarrow> int \<Rightarrow> nat \<Rightarrow> (nat \<Rightarrow> ip_prefix) \<Rightarrow> nat list \<Rightarrow> (nat list \<times> nat list \<times> nat list) result" where
  "group_peers m self_pid intra addr [] = Inr ([], [], [])"
| "group_peers m self_pid intra addr (p # ps) =
     bindE (pm_lookup m (addr p) False) (\<lambda>(pid, _).
     bindE (group_peers m self_pid intra addr ps) (\<lambda>(own, isp, ext).
       Inr (if pid = self_pid then (p # own, isp, ext)
            else if 0 \<le> pid \<and> pid < int intra then (own, p # isp, ext)
            else (own, isp, p # ext))))"

text \<open>A turn of the loops: a peer is drawn, and the last one takes its place.\<close>

definition take_peer :: "nat list \<Rightarrow> nat list \<Rightarrow> (nat option \<times> nat list \<times> nat list) result" where
  "take_peer ps rs =
     (if ps = [] then Inr (None, ps, rs)
      else bindE (draw rs) (\<lambda>(r, rs'). let (p, ps') = pop_at ps (r mod length ps) in Inr (Some p, ps', rs')))"

definition of_pct :: "double option \<Rightarrow> double result" where
  "of_pct x = (case x of Some p \<Rightarrow> Inr p | None \<Rightarrow> Inl Undefined_Behaviour)"

definition client_selectPeers ::
    "(double \<Rightarrow> double) \<Rightarrow> (nat \<Rightarrow> ip_prefix) \<Rightarrow> client_selection \<Rightarrow> nat list \<Rightarrow> u32 \<Rightarrow> nat list \<Rightarrow> nat list \<Rightarrow>
     (int \<times> nat list \<times> nat list) result" where
  "client_selectPeers fl addr c cands num out rs = (case m_home_pidmap c of
       None \<Rightarrow> Inr (ERR_GUIDANCE_UNAVAILABLE, out, rs)
     | Some m \<Rightarrow>
         if m_self_pid c < 0 \<or> int (m_intra_isp_pids c) \<le> m_self_pid c \<or> cands = [] then Inr (ERR_GUIDANCE_UNAVAILABLE, out, rs)
         else
           let prefilled = length out; n = of_nat (unat num);
               out0 = (if length cands < unat num then out @ cands else out) in
           bindE (group_peers m (m_self_pid c) (m_intra_isp_pids c) addr cands) (\<lambda>(own, isp, ext).
           bindE (of_pct (m_intra_pid_pct c)) (\<lambda>pid_pct.
           bindE (d2u (fl (fl (n * pid_pct) + 1 / 2))) (\<lambda>num_intra_pid.
           bindE (fill_from take_peer (unat num_intra_pid) own out0 rs) (\<lambda>(own1, out1, rs1).
           bindE (of_pct (m_intra_isp_pct c)) (\<lambda>isp_pct.
           bindE (d2u (fl (fl (fl (fl (n * isp_pct) + of_nat prefilled) - of_nat (length out1)) + 1 / 2))) (\<lambda>num_intra_isp.
           bindE (fill_from take_peer (unat num_intra_isp) isp out1 rs1) (\<lambda>(isp1, out2, rs2).
           bindE (fill_from take_peer (unat (num + of_nat prefilled - of_nat (length out2))) ext out2 rs2) (\<lambda>(ext1, out3, rs3).
             Inr (0, out3, rs3))))))))))"

section \<open>What is returned\<close>

lemma take_peer_Some:
  "take_peer ps rs = Inr (Some p, ps', rs') \<Longrightarrow> \<exists>r. ps \<noteq> [] \<and> (p, ps') = pop_at ps (r mod length ps)"
  by (auto simp: take_peer_def bindE_eq_Inr split: if_splits prod.splits) (metis prod.collapse)

interpretation pool: peer_source take_peer distinct set set
proof (unfold_locales, goal_cases)
  case (2 ps rs p ps' rs')
  then obtain r where r: "ps \<noteq> []" "(p, ps') = pop_at ps (r mod length ps)" using take_peer_Some by blast
  then have "r mod length ps < length ps" by simp
  from pop_at_spec [OF this 2(1)] r(2) show ?case using \<open>r mod length ps < length ps\<close> by (metis fst_conv snd_conv nth_mem)
qed (auto simp: take_peer_def bindE_eq_Inr split: if_splits prod.splits)

lemma group_peers_mset:
  assumes "group_peers m self_pid intra addr ps = Inr (own, isp, ext)"
  shows "mset ps = mset (own @ isp @ ext)"
  using assms
proof (induction ps arbitrary: own isp ext)
  case (Cons p ps)
  obtain pid x where l: "pm_lookup m (addr p) False = Inr (pid, x)" using Cons.prems by (cases "pm_lookup m (addr p) False") auto
  obtain o1 i1 e1 where g: "group_peers m self_pid intra addr ps = Inr (o1, i1, e1)"
    using Cons.prems l by (cases "group_peers m self_pid intra addr ps") auto
  from l g have "(if pid = self_pid then (p # o1, i1, e1) else if 0 \<le> pid \<and> pid < int intra then (o1, p # i1, e1) else (o1, i1, p # e1)) = (own, isp, ext)"
    using Cons.prems by simp
  with Cons.IH [OF g] show ?case by (simp split: if_splits) auto
qed simp

lemma group_peers_spec:
  assumes "group_peers m self_pid intra addr ps = Inr (own, isp, ext)"
  shows "set ps = set (own @ isp @ ext)" "distinct ps \<Longrightarrow> distinct (own @ isp @ ext)"
  using mset_eq_setD [OF group_peers_mset [OF assms]] mset_eq_imp_distinct_iff [OF group_peers_mset [OF assms]] by simp_all

text \<open>The loops of a selection that returns peers.\<close>

lemma client_phases:
  assumes "client_selectPeers fl addr c cands num out rs = Inr (0, out3, rs3)"
  obtains m own isp ext pid_pct isp_pct and a b :: u32 and own1 out1 rs1 isp1 out2 rs2 ext1 where
    "m_home_pidmap c = Some m" "group_peers m (m_self_pid c) (m_intra_isp_pids c) addr cands = Inr (own, isp, ext)"
    "m_intra_pid_pct c = Some pid_pct" "m_intra_isp_pct c = Some isp_pct"
    "d2u (fl (fl (of_nat (unat num) * pid_pct) + 1 / 2)) = Inr a"
    "fill_from take_peer (unat a) own (if length cands < unat num then out @ cands else out) rs = Inr (own1, out1, rs1)"
    "d2u (fl (fl (fl (fl (of_nat (unat num) * isp_pct) + of_nat (length out)) - of_nat (length out1)) + 1 / 2)) = Inr b"
    "fill_from take_peer (unat b) isp out1 rs1 = Inr (isp1, out2, rs2)"
    "fill_from take_peer (unat (num + of_nat (length out) - of_nat (length out2))) ext out2 rs2 = Inr (ext1, out3, rs3)"
proof -
  obtain m where m: "m_home_pidmap c = Some m" using assms by (cases "m_home_pidmap c") (auto simp: client_selectPeers_def)
  have n: "\<not> (m_self_pid c < 0 \<or> int (m_intra_isp_pids c) \<le> m_self_pid c \<or> cands = [])" using assms by (auto simp: client_selectPeers_def m)
  have pct: "of_pct x = Inr y \<Longrightarrow> x = Some y" for x y by (auto simp: of_pct_def split: option.splits)
  show thesis
    using assms [unfolded client_selectPeers_def m option.case if_not_P [OF n] Let_def, unfolded bindE_eq_Inr split_paired_Ex case_prod_conv sum.inject prod.inject]
    by (elim exE conjE) (rule that [OF m], auto dest!: pct)
qed

text \<open>
  Property C31. A client that chooses among at least as many different candidates as it needs, with percentages
  of at most one, gets different candidates, no more than it asked for; it gets fewer only when every
  candidate outside its ISP was chosen, since the selection does not go back to those inside.
\<close>
theorem client_selection_ok:
  assumes run: "client_selectPeers fl addr c cands num out rs = Inr (0, out', rs')" and fl: "rounding fl"
    and pct: "m_intra_pid_pct c = Some p" "p \<le> 1" "m_intra_isp_pct c = Some q" "q \<le> 1"
    and cands: "distinct cands" "unat num \<le> length cands" and bounds: "unat num + length out < 2 ^ 32"
  shows "\<exists>m own isp ext new. m_home_pidmap c = Some m \<and>
    group_peers m (m_self_pid c) (m_intra_isp_pids c) addr cands = Inr (own, isp, ext) \<and>
    out' = out @ new \<and> distinct new \<and> set new \<subseteq> set cands \<and> length new \<le> unat num \<and>
    (length new = unat num \<or> set ext \<subseteq> set new)"
proof (rule client_phases [OF run], goal_cases)
  case (1 m own isp ext p' q' a b own1 out1 rs1 isp1 out2 rs2 ext1)
  have pq: "p' = p" "q' = q" using 1(3,4) pct(1,3) by simp_all
  note G = group_peers_spec [OF 1(2)]
  have d: "distinct own" "distinct isp" "distinct ext" using G(2) [OF cands(1)] by simp_all
  have e: "\<not> length cands < unat num" using cands(2) by simp
  obtain ps1 where ps1: "out1 = out @ ps1" "distinct ps1" "set ps1 \<subseteq> set own" "length ps1 \<le> unat a"
    using pool.fill_from_spec [OF d(1) 1(6)] e by auto
  obtain ps2 where ps2: "out2 = out1 @ ps2" "distinct ps2" "set ps2 \<subseteq> set isp" "length ps2 \<le> unat b"
    using pool.fill_from_spec [OF d(2) 1(8)] by auto
  let ?n = "unat (num + of_nat (length out) - of_nat (length out2))"
  obtain ps3 where ps3: "out' = out2 @ ps3" "distinct ps3" "set ps3 \<subseteq> set ext" "length ps3 \<le> ?n" "length ps3 = ?n \<or> set ext - set ps3 = {}"
    using pool.fill_from_spec [OF d(3) 1(9)] by auto
  have n: "unat num < 2 ^ 32" using bounds by simp
  have l1: "length out1 \<le> unat num + length out" using first_count [OF fl pct(2) n 1(5) [unfolded pq]] ps1 by simp
  have l2: "length out2 \<le> unat num + length out" using second_count [OF fl pct(4) bounds l1 1(7) [unfolded pq]] ps2 l1 by simp
  note N = missing_count [OF bounds l2]
  have "distinct (ps1 @ ps2 @ ps3)" using G(2) [OF cands(1)] ps1(2,3) ps2(2,3) ps3(2,3) by auto
  moreover have "set (ps1 @ ps2 @ ps3) \<subseteq> set cands" using G(1) ps1(3) ps2(3) ps3(3) by auto
  moreover have "length out2 = length out + length ps1 + length ps2" using ps1(1) ps2(1) by simp
  then have "length (ps1 @ ps2 @ ps3) \<le> unat num" "length ps3 = ?n \<longrightarrow> length (ps1 @ ps2 @ ps3) = unat num"
    unfolding N length_append using l2 ps3(4) [unfolded N] by linarith+
  moreover have "set ext \<subseteq> set (ps1 @ ps2 @ ps3)" if "length ps3 \<noteq> ?n" using ps3(5) that by auto
  moreover have "out' = out @ (ps1 @ ps2 @ ps3)" using ps1(1) ps2(1) ps3(1) by simp
  ultimately show ?case using 1(1,2) by blast
qed

lemma d2u_ge: "1 \<le> x \<Longrightarrow> d2u x = Inr a \<Longrightarrow> 1 \<le> unat a"
proof -
  assume x: "1 \<le> x" "d2u x = Inr a"
  then have "x < 2 ^ 32" and a: "a = of_int \<lfloor>x\<rfloor>" by (auto simp: d2u_def split: if_splits)
  then have f: "1 \<le> \<lfloor>x\<rfloor>" "\<lfloor>x\<rfloor> < 2 ^ 32" using x(1) by (auto simp: floor_less_iff le_floor_iff)
  then have "uint a = \<lfloor>x\<rfloor>" using a by (simp add: uint_word_of_int take_bit_int_eq_self)
  then show ?thesis using f by (simp add: unat_eq_nat_uint le_nat_iff)
qed

text \<open>
  With fewer candidates than it asks for a client gets them all, and then some of them again:
  after the candidates are copied to the result the selection goes on as if it had none, and as soon as one
  candidate has the PID of the client and half of the peers or more are to come from there, the result names
  a peer twice.
\<close>
theorem client_selection_duplicates:
  assumes run: "client_selectPeers fl addr c cands num out rs = Inr (0, out', rs')" and fl: "rounding fl"
    and pct: "m_intra_pid_pct c = Some p" "1 / 2 \<le> p"
    and cands: "distinct cands" "length cands < unat num" "m_home_pidmap c = Some m"
      "group_peers m (m_self_pid c) (m_intra_isp_pids c) addr cands = Inr (own, isp, ext)" "own \<noteq> []"
  shows "\<exists>again. out' = out @ cands @ again \<and> again \<noteq> [] \<and> set again \<subseteq> set cands"
proof (rule client_phases [OF run], goal_cases)
  case (1 m' own' isp' ext' p' q a b own1 out1 rs1 isp1 out2 rs2 ext1)
  have eq: "own' = own" "isp' = isp" "ext' = ext" "p' = p" using 1(1-3) cands(3,4) pct(1) by simp_all
  note G = group_peers_spec [OF cands(4)]
  have d: "distinct own" "distinct isp" "distinct ext" using G(2) [OF cands(1)] by simp_all
  have "cands \<noteq> []" using G(1) cands(5) by auto
  then have "2 \<le> unat num" using cands(2) by (cases cands) auto
  then have "(of_nat 2 :: double) \<le> of_nat (unat num)" by (simp only: of_nat_le_iff)
  then have np: "1 \<le> of_nat (unat num) * p" using mult_mono [of 2 "of_nat (unat num)" "1 / 2" p] pct(2) by simp
  have half: "fl 1 = 1" "fl (3 / 2) = 3 / 2" using rounding_nat [OF fl, of 1] rounding_half [OF fl, of 1] by simp_all
  have mono: "mono fl" using fl by (simp add: rounding_def)
  have "1 \<le> fl (of_nat (unat num) * p)" using monoD [OF mono np] half(1) by simp
  then have "3 / 2 \<le> fl (of_nat (unat num) * p) + 1 / 2" by simp
  from monoD [OF mono this] half(2) have "1 \<le> fl (fl (of_nat (unat num) * p) + 1 / 2)" by simp
  from d2u_ge [OF this] 1(5) eq have a: "1 \<le> unat a" by simp
  obtain ps1 where ps1: "out1 = (out @ cands) @ ps1" "set ps1 \<subseteq> set own" "length ps1 = unat a \<or> set own - set ps1 = {}"
    using pool.fill_from_spec [OF d(1) 1(6) [unfolded eq]] cands(2) by auto
  obtain ps2 where ps2: "out2 = out1 @ ps2" "set ps2 \<subseteq> set isp" using pool.fill_from_spec [OF d(2) 1(8) [unfolded eq]] by auto
  obtain ps3 where ps3: "out' = out2 @ ps3" "set ps3 \<subseteq> set ext" using pool.fill_from_spec [OF d(3) 1(9) [unfolded eq]] by auto
  have "ps1 \<noteq> []" using ps1(3) a cands(5) by auto
  moreover have "set (ps1 @ ps2 @ ps3) \<subseteq> set cands" using G(1) ps1(2) ps2(2) ps3(2) by auto
  moreover have "out' = out @ cands @ (ps1 @ ps2 @ ps3)" using ps1(1) ps2(1) ps3(1) by simp
  ultimately show ?case by blast
qed

section \<open>An example\<close>

text \<open>A client and one candidate that has the client's own PID.\<close>

definition ex_home :: "isp_pidmap \<Rightarrow> int \<Rightarrow> client_selection" where
  "ex_home m i = \<lparr>m_self_pid = i, m_home_pidmap = Some m, m_intra_isp_pids = nat i + 1, m_pids = 2,
     m_intra_pid_pct = Some (3 / 4), m_intra_isp_pct = Some (9 / 10)\<rparr>"

lemma ex_home_map:
  obtains m i out where "pm_lookup m ex_addr False = Inr (i, out)" "0 \<le> i"
proof -
  obtain m where m: "pm_invariant AF_INET m" "pm_proto m = Some (''portal'', 6671)" by (rule ex_server)
  have fetch: "pm_fetch (\<lambda>a p. Reply 60 3 ex_reply) (\<lambda>f. Open_Failed) PIDMAP_DEFAULT_TTL (pm_proto m) (pm_filename m) =
      Inr (ex_reply, 60, show_nat 3)" by (simp add: pm_fetch_def m(2))
  obtain m' where m': "pm_invariant AF_INET m'" "trie_map (pm_trie m') = map_of (map (\<lambda>(p, i). (net_bits p, i)) (pidmap_entries 0 ex_reply))"
    using pm_load_spec [OF m(1) ex_reply_ok fetch] by blast
  have "trie_map (pm_trie m') (net_bits ex_net8) \<noteq> None" unfolding m'(2) by (simp add: map_of_eq_None_iff ex_reply_eq)
  moreover have "prefix (net_bits ex_net8) (net_bits ex_addr)" by (simp add: ex_bits(1) take_is_prefix)
  ultimately have "lpm (trie_map (pm_trie m')) (net_bits ex_addr) \<noteq> None" using lpm_NoneD by metis
  then obtain k i where lpm: "lpm (trie_map (pm_trie m')) (net_bits ex_addr) = Some (k, i)" by auto
  have "get_length ex_addr = get_addr_size AF_INET * 8" by (simp add: get_addr_size_def)
  moreover have "trie_inv AF_INET (pm_trie m')" using m'(1) by (simp add: pm_invariant_def)
  ultimately obtain out where "pm_lookup m' ex_addr False = Inr (i, out)"
    using trie_lookup_host [OF _ ex_prefix_shape(3) ex_prefix_family(3), of "pm_trie m'" False] lpm by (auto simp: pm_lookup_def)
  moreover have "0 \<le> i" using m'(1) lpm_SomeD(2) [OF lpm] by (auto simp: pm_invariant_def ran_def)
  ultimately show thesis by (rule that)
qed

lemma ex_home_group: "pm_lookup m ex_addr False = Inr (i, x) \<Longrightarrow> group_peers m i k (\<lambda>_. ex_addr) [7] = Inr ([7], [], [])"
  by simp

lemma ex_home_pool:
  "fill_from take_peer k [] out rs = Inr ([], out, rs)"
  "0 < k \<Longrightarrow> fill_from take_peer k [7] out (r # rs) = Inr ([], out @ [7], rs)"
proof -
  have t: "take_peer [7] (r # rs) = Inr (Some 7, [], rs)" "take_peer [] rs = Inr (None, [], rs)" for rs
    by (simp_all add: take_peer_def pop_at_def)
  show e: "fill_from take_peer k [] out rs = Inr ([], out, rs)" for k out rs by (subst fill_from_rec) (simp add: t)
  show "0 < k \<Longrightarrow> fill_from take_peer k [7] out (r # rs) = Inr ([], out @ [7], rs)" by (subst fill_from_rec) (simp add: t e)
qed

lemma ex_home_run:
  assumes "pm_lookup m ex_addr False = Inr (i, x)" "0 \<le> i"
  shows "client_selectPeers id (\<lambda>_. ex_addr) (ex_home m i) [7] 1 [] [0] = Inr (0, [7], [])"
    "client_selectPeers id (\<lambda>_. ex_addr) (ex_home m i) [7] 3 [] [0] = Inr (0, [7, 7], [])"
proof -
  have n: "d2u (5 / 4) = Inr 1" "d2u (2 / 5) = Inr 0" "d2u (11 / 4) = Inr 2" "d2u (6 / 5) = Inr 1"
    using d2u_nat [of 1 "5 / 4"] d2u_nat [of 0 "2 / 5"] d2u_nat [of 2 "11 / 4"] d2u_nat [of 1 "6 / 5"] by simp_all
  show "client_selectPeers id (\<lambda>_. ex_addr) (ex_home m i) [7] 1 [] [0] = Inr (0, [7], [])"
    "client_selectPeers id (\<lambda>_. ex_addr) (ex_home m i) [7] 3 [] [0] = Inr (0, [7, 7], [])"
    using assms ex_home_group [OF assms(1)] by (simp_all add: client_selectPeers_def ex_home_def of_pct_def n ex_home_pool Let_def del: group_peers.simps fill_from.simps)
qed

theorem client_selection_ok_witness:
  "\<exists>m i own isp ext new. group_peers m i (nat i + 1) (\<lambda>_. ex_addr) [7] = Inr (own, isp, ext) \<and>
     client_selectPeers id (\<lambda>_. ex_addr) (ex_home m i) [7] 1 [] [0] = Inr (0, new, []) \<and>
     distinct new \<and> set new \<subseteq> set [7] \<and> length new \<le> 1 \<and> (length new = 1 \<or> set ext \<subseteq> set new)"
proof -
  obtain m i x where m: "pm_lookup m ex_addr False = Inr (i, x)" "0 \<le> i" by (rule ex_home_map)
  note run = ex_home_run(1) [OF m]
  have h: "m_intra_pid_pct (ex_home m i) = Some (3 / 4)" "m_intra_isp_pct (ex_home m i) = Some (9 / 10)" "m_self_pid (ex_home m i) = i"
      "m_intra_isp_pids (ex_home m i) = nat i + 1" "m_home_pidmap (ex_home m i) = Some m" by (simp_all add: ex_home_def)
  obtain own isp ext new where "group_peers m i (nat i + 1) (\<lambda>_. ex_addr) [7] = Inr (own, isp, ext)" "[7 :: nat] = [] @ new" "distinct new"
      "set new \<subseteq> set [7]" "length new \<le> unat (1 :: u32)" "length new = unat (1 :: u32) \<or> set ext \<subseteq> set new"
    using client_selection_ok [OF run rounding_id h(1) _ h(2)] unfolding h by (auto simp del: group_peers.simps)
  with run show ?thesis by (metis append_Nil unat_1)
qed

end
