(* ===== verification/Guidance_Properties.thy ===== *)
theory Guidance_Properties
  imports Guidance_Matrix
begin

text \<open>
  The manager of guidance matrices counts references exactly: a matrix exists as long as somebody
  holds it and no longer, matrices that do not depend on a swarm are shared by their key, and those
  that do are never shared.
\<close>

section \<open>The containers\<close>

definition conts :: "pgm_manager \<Rightarrow> container_key \<Rightarrow> nat \<Rightarrow> container option" where
  "conts g k c = (case smap_find (m_matrices g) k of None \<Rightarrow> None | Some cs \<Rightarrow> smap_find cs c)"

fun key_dependent :: "container_key \<Rightarrow> bool" where
  "key_dependent (i, (t, uses, factor, rest), addr, port) \<longleftrightarrow> uses \<or> 0 < factor"

lemma key_dependent_map_key: "key_dependent (map_key k) \<longleftrightarrow> isSwarmDependent (key_options k)"
  by (simp add: map_key_def opts_key_def isSwarmDependent_def)

abbreviation mkey :: "guidance_matrix \<Rightarrow> container_key" where
  "mkey m \<equiv> map_key (matrix_key_of m)"

text \<open>\<open>refs p\<close> is the number of references to the matrix at \<open>p\<close> that were given out and not released.\<close>

definition mgr_maps :: "pgm_manager \<Rightarrow> bool" where
  "mgr_maps g \<longleftrightarrow> smap_inv (m_matrices g) \<and> (\<forall>k cs. smap_find (m_matrices g) k = Some cs \<longrightarrow> smap_inv cs)"

definition mgr_inv :: "(nat \<Rightarrow> nat) \<Rightarrow> pgm_manager \<Rightarrow> bool" where
  "mgr_inv refs g \<longleftrightarrow> mgr_maps g \<and>
     (\<forall>k c con. conts g k c = Some con \<longrightarrow> (\<exists>m. mats g (c_matrix con) = Some m \<and> mkey m = k) \<and>
        unat (m_refcount con) = refs (c_matrix con) \<and> 0 < refs (c_matrix con)) \<and>
     (\<forall>k c con k' c' con'. conts g k c = Some con \<longrightarrow> conts g k' c' = Some con' \<longrightarrow> c_matrix con = c_matrix con' \<longrightarrow> c = c') \<and>
     (\<forall>k c con c' con'. conts g k c = Some con \<longrightarrow> conts g k c' = Some con' \<longrightarrow> \<not> key_dependent k \<longrightarrow> c = c') \<and>
     (\<forall>p m. mats g p = Some m \<longrightarrow> (\<exists>c con. conts g (mkey m) c = Some con \<and> c_matrix con = p)) \<and>
     (\<forall>p. mats g p = None \<longrightarrow> refs p = 0)"

lemma mgr_invD:
  assumes "mgr_inv refs g"
  shows "mgr_maps g"
    "conts g k c = Some con \<Longrightarrow> \<exists>m. mats g (c_matrix con) = Some m \<and> mkey m = k"
    "conts g k c = Some con \<Longrightarrow> unat (m_refcount con) = refs (c_matrix con) \<and> 0 < refs (c_matrix con)"
    "conts g k c = Some con \<Longrightarrow> conts g k' c' = Some con' \<Longrightarrow> c_matrix con = c_matrix con' \<Longrightarrow> c = c'"
    "conts g k c = Some con \<Longrightarrow> conts g k c' = Some con' \<Longrightarrow> \<not> key_dependent k \<Longrightarrow> c = c'"
    "mats g p = Some m \<Longrightarrow> \<exists>c con. conts g (mkey m) c = Some con \<and> c_matrix con = p"
    "mats g p = None \<Longrightarrow> refs p = 0"
  using assms unfolding mgr_inv_def by blast+

lemma mgr_mapsD: "mgr_maps g \<Longrightarrow> smap_find (m_matrices g) k = Some cs \<Longrightarrow> smap_inv cs"
  unfolding mgr_maps_def by blast

lemma mgr_maps_put:
  assumes "mgr_maps g" "smap_inv cs"
  shows "mgr_maps (g\<lparr>m_matrices := smap_put k cs (m_matrices g)\<rparr>)"
    "conts (g\<lparr>m_matrices := smap_put k cs (m_matrices g)\<rparr>) k' c = (if k' = k then smap_find cs c else conts g k' c)"
  using assms by (auto simp: mgr_maps_def conts_def)

lemma conts_mats [simp]: "conts (g\<lparr>mats := x\<rparr>) = conts g" "mgr_maps (g\<lparr>mats := x\<rparr>) = mgr_maps g"
  by (auto simp: conts_def mgr_maps_def fun_eq_iff)

lemma find_container_Some:
  "smap_inv cs \<Longrightarrow> find_container cs p = Some (c, con) \<Longrightarrow> smap_find cs c = Some con \<and> c_matrix con = p"
  by (auto simp: find_container_def find_Some_iff smap_find_Some_iff) (metis snd_conv)

lemma find_container_None: "find_container cs p = None \<Longrightarrow> smap_find cs c = Some con \<Longrightarrow> c_matrix con \<noteq> p"
  by (auto simp: find_container_def find_None_iff smap_find_def dest!: map_of_SomeD)

text \<open>The search always finds the container of a matrix that exists.\<close>

lemma with_container_spec:
  assumes inv: "mgr_inv refs g" and m: "mats g p = Some m"
  obtains cs c con where "with_container g p none f = Inr (f m (mkey m) cs c con)" "smap_find (m_matrices g) (mkey m) = Some cs" "smap_inv cs"
    "smap_find cs c = Some con" "c_matrix con = p" "conts g (mkey m) c = Some con"
proof -
  obtain c0 con0 where c0: "conts g (mkey m) c0 = Some con0" "c_matrix con0 = p" using mgr_invD(6) [OF inv m] by blast
  then obtain cs where cs: "smap_find (m_matrices g) (mkey m) = Some cs" "smap_find cs c0 = Some con0" by (auto simp: conts_def split: option.splits)
  have "smap_inv cs" using mgr_mapsD [OF mgr_invD(1) [OF inv] cs(1)] .
  moreover have "find_container cs p \<noteq> None" using find_container_None [OF _ cs(2)] c0(2) by blast
  then obtain c con where f: "find_container cs p = Some (c, con)" by auto
  ultimately have "smap_find cs c = Some con \<and> c_matrix con = p" using find_container_Some by blast
  with f cs m \<open>smap_inv cs\<close> that [of cs c con] show thesis by (simp add: with_container_def conts_def)
qed

section \<open>Counting\<close>

lemma mgr_inv_count:
  assumes inv: "mgr_inv refs g" and c: "conts g (mkey m) c = Some con" "c_matrix con = p" and m: "mats g p = Some m"
    and cs: "smap_find (m_matrices g) (mkey m) = Some cs" and n: "unat n = r" "0 < r"
  shows "mgr_inv (refs(p := r)) (g\<lparr>m_matrices := smap_put (mkey m) (smap_put c (con\<lparr>m_refcount := n\<rparr>) cs) (m_matrices g)\<rparr>)"
    (is "mgr_inv ?refs ?g")
proof -
  note M = mgr_invD(1) [OF inv]
  note csI = mgr_mapsD [OF M cs]
  note P = mgr_maps_put [OF M smap_inv_put [OF csI]]
  have C: "conts ?g k' c' = (if k' = mkey m \<and> c' = c then Some (con\<lparr>m_refcount := n\<rparr>) else conts g k' c')" for k' c'
    using csI cs by (simp add: P(2)) (simp add: conts_def)
  have other: "c_matrix con' \<noteq> p" if "conts g k' c' = Some con'" "\<not> (k' = mkey m \<and> c' = c)" for k' c' con'
    using mgr_invD(4) [OF inv that(1) c(1)] mgr_invD(2) [OF inv that(1)] m that(2) c(2) by auto
  show ?thesis unfolding mgr_inv_def
  proof (intro conjI allI impI, goal_cases)
    case (2 k' c' con')
    then show ?case using mgr_invD(2) [OF inv, of k' c' con'] m c(2) by (auto simp: C split: if_splits)
  next
    case (3 k' c' con')
    then show ?case using mgr_invD(3) [OF inv, of k' c' con'] n c(2) other [of k' c' con'] by (auto simp: C split: if_splits)
  next
    case (4 k' c' con')
    then show ?case using mgr_invD(3) [OF inv, of k' c' con'] n c(2) other [of k' c' con'] by (auto simp: C split: if_splits)
  next
    case (5 k1 c1 con1 k2 c2 con2)
    then show ?case using mgr_invD(4) [OF inv, of k1 c1 con1 k2 c2 con2] other [of k1 c1 con1] other [of k2 c2 con2] c(2) by (auto simp: C split: if_splits)
  next
    case (6 k1 c1 con1 c2 con2)
    then show ?case using mgr_invD(5) [OF inv, of k1 c1 _ c2] c(1) by (auto simp: C split: if_splits)
  next
    case (7 q mq)
    then obtain c' con' where "conts g (mkey mq) c' = Some con'" "c_matrix con' = q" using mgr_invD(6) [OF inv, of q mq] by auto
    then show ?case using c by (intro exI [of _ c']) (auto simp: C)
  next
    case (8 q)
    then show ?case using mgr_invD(7) [OF inv, of q] m by auto
  qed (use P(1) in simp)
qed

lemma mgr_inv_free:
  assumes inv: "mgr_inv refs g" and c: "conts g (mkey m) c = Some con" "c_matrix con = p" and m: "mats g p = Some m"
    and cs: "smap_find (m_matrices g) (mkey m) = Some cs"
  shows "mgr_inv (refs(p := 0)) (g\<lparr>m_matrices := smap_put (mkey m) (smap_erase c cs) (m_matrices g), mats := (mats g)(p := None)\<rparr>)"
    (is "mgr_inv ?refs ?g")
proof -
  note M = mgr_invD(1) [OF inv]
  note csI = mgr_mapsD [OF M cs]
  note P = mgr_maps_put [OF M smap_inv_erase [OF csI]]
  have C: "conts (g\<lparr>m_matrices := smap_put (mkey m) (smap_erase c cs) (m_matrices g)\<rparr>) k' c' = (if k' = mkey m \<and> c' = c then None else conts g k' c')" for k' c'
    using csI cs by (simp add: P(2)) (simp add: conts_def)
  have other: "c_matrix con' \<noteq> p" if "conts g k' c' = Some con'" "\<not> (k' = mkey m \<and> c' = c)" for k' c' con'
    using mgr_invD(4) [OF inv that(1) c(1)] mgr_invD(2) [OF inv that(1)] m that(2) c(2) by auto
  show ?thesis unfolding mgr_inv_def
  proof (intro conjI allI impI, goal_cases)
    case (2 k' c' con')
    then show ?case using mgr_invD(2) [OF inv, of k' c' con'] other [of k' c' con'] by (auto simp: C split: if_splits)
  next
    case (3 k' c' con')
    then show ?case using mgr_invD(3) [OF inv, of k' c' con'] other [of k' c' con'] by (auto simp: C split: if_splits)
  next
    case (4 k' c' con')
    then show ?case using mgr_invD(3) [OF inv, of k' c' con'] other [of k' c' con'] by (auto simp: C split: if_splits)
  next
    case (5 k1 c1 con1 k2 c2 con2)
    then show ?case using mgr_invD(4) [OF inv, of k1 c1 con1 k2 c2 con2] by (auto simp: C split: if_splits)
  next
    case (6 k1 c1 con1 c2 con2)
    then show ?case using mgr_invD(5) [OF inv, of k1 c1 _ c2] by (auto simp: C split: if_splits)
  next
    case (7 q mq)
    then obtain c' con' where "conts g (mkey mq) c' = Some con'" "c_matrix con' = q" "q \<noteq> p"
      using mgr_invD(6) [OF inv, of q mq] by (auto split: if_splits)
    then show ?case using c by (intro exI [of _ c'] exI [of _ con']) (auto simp: C)
  next
    case (8 q)
    then show ?case using mgr_invD(7) [OF inv, of q] by auto
  qed (use P(1) in simp)
qed

text \<open>The addresses of a new container and a new matrix are not in use.\<close>

definition fresh_addrs :: "nat \<times> nat \<Rightarrow> pgm_manager \<Rightarrow> bool" where
  "fresh_addrs a g \<longleftrightarrow> (\<forall>k. conts g k (fst a) = None) \<and> mats g (snd a) = None"

lemma mgr_inv_create:
  assumes inv: "mgr_inv refs g" and a: "fresh_addrs a g" and cs: "cs = (case smap_find (m_matrices g) k of None \<Rightarrow> [] | Some cs \<Rightarrow> cs)"
    and k: "key_dependent k \<or> cs = []" "mkey m = k"
  shows "mgr_inv (refs(snd a := 1)) (g\<lparr>m_matrices := smap_put k (smap_put (fst a) \<lparr>c_matrix = snd a, m_refcount = 1\<rparr> cs) (m_matrices g), mats := (mats g)(snd a \<mapsto> m)\<rparr>)"
    (is "mgr_inv ?refs ?g")
proof -
  let ?con = "\<lparr>c_matrix = snd a, m_refcount = 1\<rparr>"
  note M = mgr_invD(1) [OF inv]
  have csI: "smap_inv cs" using mgr_mapsD [OF M, of k] cs by (cases "smap_find (m_matrices g) k") simp_all
  have find: "smap_find cs c' = conts g k c'" for c' using cs by (cases "smap_find (m_matrices g) k") (simp_all add: conts_def)
  note P = mgr_maps_put [OF M smap_inv_put [OF csI]]
  have C: "conts (g\<lparr>m_matrices := smap_put k (smap_put (fst a) ?con cs) (m_matrices g)\<rparr>) k' c' = (if k' = k \<and> c' = fst a then Some ?con else conts g k' c')" for k' c'
    using csI by (simp add: P(2) find)
  have other: "c_matrix con' \<noteq> snd a" if "conts g k' c' = Some con'" for k' c' con'
    using mgr_invD(2) [OF inv that] a by (auto simp: fresh_addrs_def)
  show ?thesis unfolding mgr_inv_def
  proof (intro conjI allI impI, goal_cases)
    case (2 k' c' con')
    then show ?case using mgr_invD(2) [OF inv, of k' c' con'] other [of k' c' con'] k(2) by (auto simp: C split: if_splits)
  next
    case (3 k' c' con')
    then show ?case using mgr_invD(3) [OF inv, of k' c' con'] other [of k' c' con'] by (auto simp: C split: if_splits)
  next
    case (4 k' c' con')
    then show ?case using mgr_invD(3) [OF inv, of k' c' con'] other [of k' c' con'] by (auto simp: C split: if_splits)
  next
    case (5 k1 c1 con1 k2 c2 con2)
    then show ?case using mgr_invD(4) [OF inv, of k1 c1 con1 k2 c2 con2] other [of k1 c1 con1] other [of k2 c2 con2] by (auto simp: C split: if_splits)
  next
    case (6 k1 c1 con1 c2 con2)
    have "conts g k c' = None" if "\<not> key_dependent k" for c' using find [of c'] k that by auto
    with 6 show ?case using mgr_invD(5) [OF inv, of k1 c1 _ c2] by (auto simp: C split: if_splits)
  next
    case (7 q mq)
    show ?case
    proof (cases "q = snd a")
      case True
      with 7 k(2) show ?thesis by (intro exI [of _ "fst a"] exI [of _ ?con]) (auto simp: C)
    next
      case False
      with 7 obtain c' con' where "conts g (mkey mq) c' = Some con'" "c_matrix con' = q" using mgr_invD(6) [OF inv, of q mq] by auto
      moreover from this a have "c' \<noteq> fst a" unfolding fresh_addrs_def by (metis option.distinct(1))
      ultimately show ?thesis by (intro exI [of _ c'] exI [of _ con']) (auto simp: C)
    qed
  next
    case (8 q)
    then show ?case using mgr_invD(7) [OF inv, of q] by (auto split: if_splits)
  qed (use P(1) in simp)
qed

section \<open>The operations\<close>

lemma unat_suc: "unat n + 1 < 2 ^ 32 \<Longrightarrow> unat (n + 1 :: u32) = unat n + 1"
  using unat_add_lem [of n 1] by simp

lemma unat_pred: "0 < unat n \<Longrightarrow> unat (n - 1 :: u32) = unat n - 1"
  using unat_minus_one [of n] by (metis less_numeral_extra(3) unat_0)

lemma release_spec:
  assumes inv: "mgr_inv refs g" and m: "mats g p = Some m"
  shows "\<exists>g'. releaseGuidanceMatrixNoLock g p = Inr (g', True) \<and> mgr_inv (refs(p := refs p - 1)) g' \<and>
    mats g' = (if refs p = 1 then (mats g)(p := None) else mats g)"
proof -
  let ?f = "\<lambda>m k cs c con. let con' = con\<lparr>m_refcount := m_refcount con - 1\<rparr> in
     if 0 < m_refcount con' then (g\<lparr>m_matrices := smap_put k (smap_put c con' cs) (m_matrices g)\<rparr>, True)
     else (g\<lparr>m_matrices := smap_put k (smap_erase c cs) (m_matrices g), mats := (mats g)(p := None)\<rparr>, True)"
  obtain cs c con where w0: "with_container g p (g, False) ?f = Inr (?f m (mkey m) cs c con)"
     and w': "smap_find (m_matrices g) (mkey m) = Some cs" "smap_inv cs" "smap_find cs c = Some con" "c_matrix con = p" "conts g (mkey m) c = Some con"
    by (rule with_container_spec [OF inv m])
  note w = w0 [folded releaseGuidanceMatrixNoLock_def] w'(1,5,4)
  have r: "unat (m_refcount con) = refs p" "0 < refs p" using mgr_invD(3) [OF inv w(3)] w(4) by auto
  then have n: "unat (m_refcount con - 1) = refs p - 1" using unat_pred [of "m_refcount con"] by simp
  show ?thesis
  proof (cases "refs p = 1")
    case True
    then have "m_refcount con - 1 = 0" using n by (simp add: unat_eq_zero)
    with w(1) True mgr_inv_free [OF inv w(3,4) m w(2)] show ?thesis by simp
  next
    case False
    then have "0 < unat (m_refcount con - 1)" using n r by simp
    then have "0 < m_refcount con - 1" by (simp add: word_gt_0 unat_gt_0)
    with w(1) False r mgr_inv_count [OF inv w(3,4) m w(2) n] show ?thesis by simp
  qed
qed

lemma add_ref_spec:
  assumes inv: "mgr_inv refs g" and m: "mats g p = Some m" and r: "refs p + 1 < 2 ^ 32"
  shows "\<exists>g'. addGuidanceMatrixRef g p = Inr (g', True) \<and> mgr_inv (refs(p := refs p + 1)) g' \<and> mats g' = mats g"
proof -
  let ?f = "\<lambda>m k cs c con. (g\<lparr>m_matrices := smap_put k (smap_put c (con\<lparr>m_refcount := m_refcount con + 1\<rparr>) cs) (m_matrices g)\<rparr>, True)"
  obtain cs c con where w0: "with_container g p (g, False) ?f = Inr (?f m (mkey m) cs c con)"
     and w': "smap_find (m_matrices g) (mkey m) = Some cs" "smap_inv cs" "smap_find cs c = Some con" "c_matrix con = p" "conts g (mkey m) c = Some con"
    by (rule with_container_spec [OF inv m])
  note w = w0 [folded addGuidanceMatrixRef_def] w'(1,5,4)
  have "unat (m_refcount con + 1) = refs p + 1" using mgr_invD(3) [OF inv w(3)] w(4) r unat_suc [of "m_refcount con"] by simp
  from mgr_inv_count [OF inv w(3,4) m w(2) this] w(1) show ?thesis by simp
qed

lemma compute_keeps_key: "mkey (fst (pgm_compute aoe i2f now s m)) = mkey m" "mkey (m\<lparr>g_swarm_state := x\<rparr>) = mkey m"
  by (simp_all add: pgm_compute_def Let_def matrix_key_of_def split: option.splits)

lemma mgr_inv_update:
  assumes "mgr_inv refs g" "mats g p = Some m" "mkey m' = mkey m"
  shows "mgr_inv refs (g\<lparr>mats := (mats g)(p \<mapsto> m')\<rparr>)"
  unfolding mgr_inv_def
proof (intro conjI allI impI, goal_cases)
  case (2 k c con)
  then show ?case using mgr_invD(2) [OF assms(1), of k c con] assms(2,3) by auto
next
  case (7 q mq)
  then show ?case using mgr_invD(6) [OF assms(1), of q] assms(2,3) by (auto split: if_splits)
next
  case (8 q)
  then show ?case using mgr_invD(7) [OF assms(1), of q] by (auto split: if_splits)
next
  case (5 k c con k' c' con')
  then show ?case using mgr_invD(4) [OF assms(1), of k c con k' c' con'] by simp
next
  case (6 k c con c' con')
  then show ?case using mgr_invD(5) [OF assms(1), of k c con c' con'] by simp
qed (use mgr_invD(1,3) [OF assms(1)] in simp_all)

lemma mgr_compute_spec:
  assumes inv: "mgr_inv refs g" and m: "mats g p = Some m"
  shows "\<exists>m' rc. mgr_compute aoe i2f now isps g p state = Inr (g\<lparr>mats := (mats g)(p \<mapsto> m')\<rparr>, rc) \<and> mkey m' = mkey m \<and>
    (m', rc) = (case state of Some s \<Rightarrow> pgm_compute_swarm aoe i2f now (isps (g_isp m)) m s | None \<Rightarrow> pgm_compute aoe i2f now (isps (g_isp m)) m)"
proof -
  let ?r = "case state of Some s \<Rightarrow> pgm_compute_swarm aoe i2f now (isps (g_isp m)) m s | None \<Rightarrow> pgm_compute aoe i2f now (isps (g_isp m)) m"
  have "mkey (fst ?r) = mkey m" by (auto simp: pgm_compute_swarm_def compute_keeps_key split: option.splits)
  moreover have "mgr_compute aoe i2f now isps g p state = Inr (g\<lparr>mats := (mats g)(p \<mapsto> fst ?r)\<rparr>, snd ?r)"
    unfolding mgr_compute_def by (rule with_container_spec [OF inv m]) (simp add: case_prod_beta Let_def)
  ultimately show ?thesis by (intro exI [of _ "fst ?r"] exI [of _ "snd ?r"]) simp
qed

lemma smap_hd:
  assumes "smap_inv cs" "cs \<noteq> []"
  shows "smap_find cs (fst (hd cs)) = Some (snd (hd cs))"
  using assms by (cases cs) (auto simp: smap_find_def)

text \<open>Getting a matrix: a new one, or the one shared under the key.\<close>

lemma get_matrix_spec:
  assumes inv: "mgr_inv refs g" and run: "getGuidanceMatrixNoLock a g k = Inr (g', p)"
  shows "(\<exists>m. p = snd a \<and> mkey m = map_key k \<and> g_options m = key_options k \<and> mats g' = (mats g)(p \<mapsto> m) \<and>
      (fresh_addrs a g \<longrightarrow> mgr_inv (refs(p := 1)) g') \<and> (isSwarmDependent (key_options k) \<or> (\<forall>c. conts g (map_key k) c = None))) \<or>
    (\<not> isSwarmDependent (key_options k) \<and> mats g' = mats g \<and> (\<exists>m. mats g p = Some m \<and> mkey m = map_key k) \<and>
      (refs p + 1 < 2 ^ 32 \<longrightarrow> mgr_inv (refs(p := refs p + 1)) g'))"
proof -
  define cs where "cs = (case smap_find (m_matrices g) (map_key k) of None \<Rightarrow> [] | Some cs \<Rightarrow> cs)"
  show ?thesis
  proof (cases "isSwarmDependent (key_options k) \<or> cs = []")
    case True
    then obtain m where r: "GuidanceMatrixContainer k = Inr m" "p = snd a"
        "g' = g\<lparr>m_matrices := smap_put (map_key k) (smap_put (fst a) \<lparr>c_matrix = snd a, m_refcount = 1\<rparr> cs) (m_matrices g), mats := (mats g)(snd a \<mapsto> m)\<rparr>"
      using run by (auto simp: getGuidanceMatrixNoLock_def Let_def cs_def [symmetric] bindE_eq_Inr)
    have m: "mkey m = map_key k" "g_options m = key_options k"
      using r(1) by (auto simp: GuidanceMatrixContainer_def matrix_key_of_def PeeringGuidanceMatrix_def map_key_def PeeringGuidanceMatrix_local_def split: if_splits)
    have "cs = [] \<Longrightarrow> conts g (map_key k) c = None" for c by (auto simp: conts_def cs_def split: option.splits)
    with True r m mgr_inv_create [OF inv _ cs_def _ m(1)] show ?thesis by (auto simp: key_dependent_map_key)
  next
    case False
    then have f: "smap_find (m_matrices g) (map_key k) = Some cs" by (auto simp: cs_def split: option.splits)
    obtain c con where hd: "hd cs = (c, con)" by fastforce
    have fc: "conts g (map_key k) c = Some con"
      using smap_hd [OF mgr_mapsD [OF mgr_invD(1) [OF inv] f]] False f hd by (simp add: conts_def)
    obtain m where m: "mats g (c_matrix con) = Some m" "mkey m = map_key k" using mgr_invD(2) [OF inv fc] by blast
    have r: "p = c_matrix con" "g' = g\<lparr>m_matrices := smap_put (map_key k) (smap_put c (con\<lparr>m_refcount := m_refcount con + 1\<rparr>) cs) (m_matrices g)\<rparr>"
      using run False hd by (auto simp: getGuidanceMatrixNoLock_def Let_def cs_def [symmetric])
    have "mgr_inv (refs(p := refs p + 1)) g'" if "refs p + 1 < 2 ^ 32"
      using mgr_inv_count [OF inv fc [folded m(2)] r(1) [symmetric] m(1) [folded r(1)] f [folded m(2)], of "m_refcount con + 1"] m(2) r that
        mgr_invD(3) [OF inv fc] unat_suc [of "m_refcount con"] by simp
    with False r m show ?thesis by auto
  qed
qed

text \<open>
  The calls made on the manager; \<open>refs\<close> counts the references to each address that callers hold. The
  counters are 32 bits wide: callers never hold more references than that.
\<close>

inductive pgm_reach :: "pgm_manager \<Rightarrow> (nat \<Rightarrow> nat) \<Rightarrow> bool" where
  pgm_new: "pgm_reach PeeringGuidanceMatrixManager (\<lambda>_. 0)"
| pgm_get: "pgm_reach g refs \<Longrightarrow> getGuidanceMatrixNoLock a g k = Inr (g', p) \<Longrightarrow> fresh_addrs a g \<Longrightarrow> refs p + 1 < 2 ^ 32 \<Longrightarrow>
    pgm_reach g' (refs(p := refs p + 1))"
| pgm_add: "pgm_reach g refs \<Longrightarrow> addGuidanceMatrixRef g p = Inr (g', b) \<Longrightarrow> refs p + 1 < 2 ^ 32 \<Longrightarrow> pgm_reach g' (refs(p := refs p + 1))"
| pgm_release: "pgm_reach g refs \<Longrightarrow> releaseGuidanceMatrixNoLock g p = Inr (g', b) \<Longrightarrow> pgm_reach g' (refs(p := refs p - 1))"
| pgm_comp: "pgm_reach g refs \<Longrightarrow> mgr_compute aoe i2f now isps g p state = Inr (g', rc) \<Longrightarrow> pgm_reach g' refs"

lemma with_container_live: "with_container g p none f = Inr r \<Longrightarrow> \<exists>m. mats g p = Some m"
  by (auto simp: with_container_def split: option.splits)

lemma fresh_refs: "mgr_inv refs g \<Longrightarrow> fresh_addrs a g \<Longrightarrow> refs (snd a) = 0"
  using mgr_invD(7) by (auto simp: fresh_addrs_def)

lemma pgm_reach_inv: "pgm_reach g refs \<Longrightarrow> mgr_inv refs g"
proof (induction rule: pgm_reach.induct)
  case pgm_new
  then show ?case by (simp add: mgr_inv_def mgr_maps_def conts_def PeeringGuidanceMatrixManager_def)
next
  case (pgm_get g refs a k g' p)
  from get_matrix_spec [OF pgm_get.IH pgm_get.hyps(2)] show ?case
  proof
    assume "\<exists>m. p = snd a \<and> mkey m = map_key k \<and> g_options m = key_options k \<and> mats g' = (mats g)(p \<mapsto> m) \<and>
      (fresh_addrs a g \<longrightarrow> mgr_inv (refs(p := 1)) g') \<and> (isSwarmDependent (key_options k) \<or> (\<forall>c. conts g (map_key k) c = None))"
    then have "mgr_inv (refs(p := 1)) g'" "refs p = 0" using pgm_get.hyps(3) fresh_refs [OF pgm_get.IH pgm_get.hyps(3)] by blast+
    then show ?thesis by (simp add: fun_upd_def)
  qed (use pgm_get.hyps(4) in blast)
next
  case (pgm_add g refs p g' b)
  obtain m where "mats g p = Some m" using with_container_live [OF pgm_add.hyps(2) [unfolded addGuidanceMatrixRef_def]] by blast
  from add_ref_spec [OF pgm_add.IH this pgm_add.hyps(3)] pgm_add.hyps(2) show ?case by (auto simp: fun_upd_def)
next
  case (pgm_release g refs p g' b)
  obtain m where "mats g p = Some m" using with_container_live [OF pgm_release.hyps(2) [unfolded releaseGuidanceMatrixNoLock_def]] by blast
  from release_spec [OF pgm_release.IH this] pgm_release.hyps(2) show ?case by (auto simp: fun_upd_def)
next
  case (pgm_comp g refs aoe i2f now isps p state g' rc)
  obtain m where m: "mats g p = Some m" using with_container_live [OF pgm_comp.hyps(2) [unfolded mgr_compute_def]] by blast
  from mgr_compute_spec [OF pgm_comp.IH m, of aoe i2f now isps state] pgm_comp.hyps(2) obtain m' where
    "g' = g\<lparr>mats := (mats g)(p \<mapsto> m')\<rparr>" "mkey m' = mkey m" by auto
  then show ?case using mgr_inv_update [OF pgm_comp.IH m] by simp
qed

section \<open>The promises\<close>

text \<open>
  Property C13. The manager of guidance matrices keeps a matrix exactly as long as somebody holds a
  reference to it: in every state its operations reach, the matrices that exist are those with
  references, releasing one of them succeeds, frees it when it was the last reference and only then,
  and touches no other matrix.
\<close>
theorem guidance_references:
  assumes "pgm_reach g refs"
  shows "(mats g p \<noteq> None \<longleftrightarrow> 0 < refs p) \<and>
    (0 < refs p \<longrightarrow> (\<exists>g'. releaseGuidanceMatrixNoLock g p = Inr (g', True) \<and> (mats g' p = None \<longleftrightarrow> refs p = 1) \<and> (\<forall>q. q \<noteq> p \<longrightarrow> mats g' q = mats g q)))"
proof -
  note inv = pgm_reach_inv [OF assms]
  have live: "mats g p \<noteq> None \<longleftrightarrow> 0 < refs p" using mgr_invD(3,6,7) [OF inv] by (metis less_numeral_extra(3) option.exhaust)
  moreover have "\<exists>g'. releaseGuidanceMatrixNoLock g p = Inr (g', True) \<and> (mats g' p = None \<longleftrightarrow> refs p = 1) \<and> (\<forall>q. q \<noteq> p \<longrightarrow> mats g' q = mats g q)"
    if r: "0 < refs p"
  proof -
    obtain m where m: "mats g p = Some m" using live r by auto
    from release_spec [OF inv m] m show ?thesis by (auto split: if_splits)
  qed
  ultimately show ?thesis by blast
qed

definition ex_key :: matrix_key where
  "ex_key = \<lparr>key_isp = 1, key_options = FilesharingGeneric, key_addr = ''aoe'', key_port = 6673\<rparr>"

definition ex_mgr :: pgm_manager where
  "ex_mgr = \<lparr>m_matrices = [(map_key ex_key, [(10, \<lparr>c_matrix = 20, m_refcount = 1\<rparr>)])],
     mats = [20 \<mapsto> (PeeringGuidanceMatrix 1 ''aoe'' 6673)\<lparr>g_options := FilesharingGeneric\<rparr>]\<rparr>"

lemma ex_get: "getGuidanceMatrixNoLock (10, 20) PeeringGuidanceMatrixManager ex_key = Inr (ex_mgr, 20)"
  by (simp add: getGuidanceMatrixNoLock_def PeeringGuidanceMatrixManager_def ex_key_def GuidanceMatrixContainer_def ex_mgr_def isSwarmDependent_def
      FilesharingGeneric_def PeeringGuidanceMatrixOptions_def)

lemma ex_mgr_reach: "pgm_reach ex_mgr ((\<lambda>_. 0)(20 := 1))"
  using pgm_get [OF pgm_new ex_get] by (simp add: fresh_addrs_def PeeringGuidanceMatrixManager_def conts_def)

theorem guidance_references_witness:
  "\<exists>g'. releaseGuidanceMatrixNoLock ex_mgr 20 = Inr (g', True) \<and> mats g' 20 = None"
  using guidance_references [OF ex_mgr_reach, of 20] by auto

text \<open>
  A matrix that does not depend on a swarm is shared: getting one under a key that an
  existing matrix has gives that matrix, and no matrix is made. One that depends on a swarm is never
  shared: getting it gives a matrix that did not exist.
\<close>
theorem guidance_sharing:
  assumes "pgm_reach g refs" "fresh_addrs a g" "getGuidanceMatrixNoLock a g k = Inr (g', p)"
  shows "if isSwarmDependent (key_options k) then mats g p = None \<and> (\<exists>m. mats g' p = Some m \<and> g_options m = key_options k)
    else \<forall>q m. mats g q = Some m \<and> mkey m = map_key k \<longrightarrow> p = q \<and> mats g' = mats g"
proof -
  note inv = pgm_reach_inv [OF assms(1)]
  have one: "p = q" if "mats g q = Some m" "mkey m = map_key k" "\<not> isSwarmDependent (key_options k)" "mats g p = Some mp" "mkey mp = map_key k" for q m mp
    using mgr_invD(6) [OF inv that(1)] mgr_invD(6) [OF inv that(4)] mgr_invD(5) [OF inv, of "map_key k"] that by (metis key_dependent_map_key option.inject)
  have none: "mats g q \<noteq> Some m" if "\<forall>c. conts g (map_key k) c = None" "mkey m = map_key k" for q m
    using mgr_invD(6) [OF inv, of q m] that by auto
  from get_matrix_spec [OF inv assms(3)] show ?thesis
  proof
    assume "\<exists>m. p = snd a \<and> mkey m = map_key k \<and> g_options m = key_options k \<and> mats g' = (mats g)(p \<mapsto> m) \<and>
      (fresh_addrs a g \<longrightarrow> mgr_inv (refs(p := 1)) g') \<and> (isSwarmDependent (key_options k) \<or> (\<forall>c. conts g (map_key k) c = None))"
    then show ?thesis using assms(2) none by (auto simp: fresh_addrs_def)
  next
    assume "\<not> isSwarmDependent (key_options k) \<and> mats g' = mats g \<and> (\<exists>m. mats g p = Some m \<and> mkey m = map_key k) \<and>
      (refs p + 1 < 2 ^ 32 \<longrightarrow> mgr_inv (refs(p := refs p + 1)) g')"
    then show ?thesis using one by auto
  qed
qed

lemma ex_mgr_fresh: "fresh_addrs (11, 21) ex_mgr"
  by (auto simp: fresh_addrs_def ex_mgr_def conts_def smap_find_def split: option.splits)

end
