(* ===== verification/Server_Objects.thy ===== *)
theory Server_Objects
  imports Std_Map
begin

text \<open>
  \<open>common-server/src/lib/local_obj.cpp\<close> and \<open>dist_obj.cpp\<close>: what every object of the server's state has, the
  bookkeeping of a write and a vector of child objects. The classes of the server extend these records.
  Child objects are shared, so a child is the address of an object or null. Persistence is compiled out
  (\<open>P4P_CLUSTER\<close>), and the check of a lock against its mutex is empty outside debug builds.
\<close>

section \<open>Local objects\<close>

record local_object =
  writing :: bool
  changed_fired :: bool
  version :: u32

text \<open>The constructor sets the two flags; the version is what the memory held before.\<close>

definition LocalObject :: "u32 \<Rightarrow> local_object" where
  "LocalObject garbage = \<lparr>writing = False, changed_fired = False, version = garbage\<rparr>"

definition begin_write :: "'a local_object_scheme \<Rightarrow> 'a local_object_scheme result" where
  "begin_write ob =
     (if writing ob then Inl (Runtime_Error ''illegal state: object write already started'')
      else Inr (ob\<lparr>writing := True, changed_fired := False\<rparr>))"

definition end_write :: "'a local_object_scheme \<Rightarrow> 'a local_object_scheme result" where
  "end_write ob =
     (if \<not> writing ob then Inl (Runtime_Error ''illegal state: object write never started'')
      else Inr (ob\<lparr>writing := False, changed_fired := False\<rparr>))"

definition on_changed :: "'a local_object_scheme \<Rightarrow> 'a local_object_scheme" where
  "on_changed ob = ob\<lparr>version := version ob + 1\<rparr>"

definition changed :: "'a local_object_scheme \<Rightarrow> 'a local_object_scheme result" where
  "changed ob =
     (if \<not> writing ob then Inl (Runtime_Error ''illegal state: object changed without being in writing state'')
      else if changed_fired ob then Inr ob
      else Inr ((on_changed ob)\<lparr>changed_fired := True\<rparr>))"

section \<open>Objects with children\<close>

record dist_object = local_object +
  children :: "nat option list"

definition DistributedObject :: "u32 \<Rightarrow> dist_object" where
  "DistributedObject garbage = local_object.extend (LocalObject garbage) \<lparr>children = []\<rparr>"

definition get_children :: "'a dist_object_scheme \<Rightarrow> nat list" where
  "get_children ob = List.map_filter id (children ob)"

definition get_children_count :: "'a dist_object_scheme \<Rightarrow> u32" where
  "get_children_count ob = of_nat (length (filter (\<lambda>p. p \<noteq> None) (children ob)))"

definition get_child :: "'a dist_object_scheme \<Rightarrow> u32 \<Rightarrow> nat option" where
  "get_child ob i = (if length (children ob) \<le> unat i then None else children ob ! unat i)"

text \<open>The new size is computed in \<open>unsigned int\<close>.\<close>

definition set_child :: "'a dist_object_scheme \<Rightarrow> u32 \<Rightarrow> nat option \<Rightarrow> 'a dist_object_scheme result" where
  "set_child ob i v =
     (let n = max (length (children ob)) (unat (i + 1)); cs = children ob @ replicate (n - length (children ob)) None
      in if n \<le> unat i then Inl Undefined_Behaviour else changed (ob\<lparr>children := cs[unat i := v]\<rparr>))"

fun find_from :: "nat option list \<Rightarrow> nat option \<Rightarrow> u32 \<Rightarrow> u32" where
  "find_from [] v i = - 1"
| "find_from (c # cs) v i = (if c = v then i else find_from cs v (i + 1))"

definition find_child :: "'a dist_object_scheme \<Rightarrow> nat option \<Rightarrow> u32" where
  "find_child ob v = find_from (children ob) v 0"

text \<open>
  \<open>copy\<close> is virtual in one step: the class makes the object with its own properties, and the children
  are shared with the copy.
\<close>

definition copy_object :: "('b dist_object_scheme \<Rightarrow> 'a dist_object_scheme result) \<Rightarrow> 'b dist_object_scheme \<Rightarrow> 'a dist_object_scheme result" where
  "copy_object do_copy_properties ob = bindE (do_copy_properties ob) (\<lambda>n. Inr (n\<lparr>children := children ob\<rparr>))"

section \<open>What a write does\<close>

text \<open>The object with its version counted up, unless this write already did.\<close>

definition touched :: "'a local_object_scheme \<Rightarrow> 'a local_object_scheme" where
  "touched ob = (if changed_fired ob then ob else ob\<lparr>version := version ob + 1, changed_fired := True\<rparr>)"

named_theorems obj_simps \<open>evaluation of the bookkeeping of objects\<close>

lemma changed_writing [obj_simps]: "writing ob \<Longrightarrow> changed ob = Inr (touched ob)"
  by (simp add: changed_def touched_def on_changed_def)

lemma changed_cases: "changed ob = Inr ob' \<longleftrightarrow> writing ob \<and> ob' = touched ob"
  by (auto simp: changed_def touched_def on_changed_def)

lemma touched_fields [simp]:
  "writing (touched ob) = writing ob" "changed_fired (touched ob)"
  "version (touched ob) = (if changed_fired ob then version ob else version ob + 1)"
  "touched (touched ob) = touched ob"
  by (auto simp: touched_def)

lemma touched_children [simp]: "children (touched (d :: 'a dist_object_scheme)) = children d"
  by (simp add: touched_def)

text \<open>
  The modifications made under one lock: each calls \<open>changed\<close>. \<open>write_session\<close> is what a writer does to an
  object between the construction and the destruction of its lock.
\<close>

fun modifications :: "('a local_object_scheme \<Rightarrow> 'a local_object_scheme) list \<Rightarrow> 'a local_object_scheme \<Rightarrow> 'a local_object_scheme result" where
  "modifications [] ob = Inr ob"
| "modifications (f # fs) ob = bindE (changed (f ob)) (modifications fs)"

definition write_session :: "('a local_object_scheme \<Rightarrow> 'a local_object_scheme) list \<Rightarrow> 'a local_object_scheme \<Rightarrow> 'a local_object_scheme result" where
  "write_session fs ob = bindE (begin_write ob) (\<lambda>o1. bindE (modifications fs o1) end_write)"

definition payload_only :: "('a local_object_scheme \<Rightarrow> 'a local_object_scheme) \<Rightarrow> bool" where
  "payload_only f \<longleftrightarrow> (\<forall>ob. writing (f ob) = writing ob \<and> changed_fired (f ob) = changed_fired ob \<and> version (f ob) = version ob)"

lemma modifications_fired:
  assumes "\<forall>f\<in>set fs. payload_only f" "writing ob"
  shows "\<exists>ob'. modifications fs ob = Inr ob' \<and> writing ob' \<and>
    version ob' = (if fs = [] \<or> changed_fired ob then version ob else version ob + 1)"
  using assms
proof (induction fs arbitrary: ob)
  case (Cons f fs)
  have f: "writing (f ob) = writing ob" "changed_fired (f ob) = changed_fired ob" "version (f ob) = version ob"
    using Cons.prems(1) by (auto simp: payload_only_def)
  have "\<exists>ob'. modifications fs (touched (f ob)) = Inr ob' \<and> writing ob' \<and> version ob' = version (touched (f ob))"
    using Cons.IH [of "touched (f ob)"] Cons.prems f by auto
  then show ?case using Cons.prems(2) f by (auto simp: changed_writing)
qed simp

text \<open>
  The version of an object counts writes, not modifications: a session in which anything changes moves it
  by one, whatever the number of changes, a session without changes leaves it, and the object is writable
  again. A session on an object that is being written throws.
\<close>
theorem write_session_version:
  assumes "\<forall>f\<in>set fs. payload_only f"
  shows "if writing ob then write_session fs ob = Inl (Runtime_Error ''illegal state: object write already started'')
    else \<exists>ob'. write_session fs ob = Inr ob' \<and> \<not> writing ob' \<and> \<not> changed_fired ob' \<and>
      version ob' = (if fs = [] then version ob else version ob + 1)"
proof (cases "writing ob")
  case False
  have "\<exists>ob'. modifications fs (ob\<lparr>writing := True, changed_fired := False\<rparr>) = Inr ob' \<and> writing ob' \<and>
    version ob' = (if fs = [] then version ob else version ob + 1)"
    using modifications_fired [OF assms, of "ob\<lparr>writing := True, changed_fired := False\<rparr>"] by auto
  then show ?thesis using False by (auto simp: write_session_def begin_write_def end_write_def)
qed (simp add: write_session_def begin_write_def)

text \<open>Reading the children after a write: the last index is the only one out of reach.\<close>

lemma nth_resized: "(xs @ replicate k None) ! j = (if j < length xs then xs ! j else None)" if "j < length xs + k"
  using that by (auto simp: nth_append)

lemma get_child_set_child:
  assumes "writing d" "i \<noteq> - 1"
  shows "\<exists>d'. set_child d i v = Inr d' \<and> writing d' \<and>
    (\<forall>j. get_child d' j = (if j = i then v else get_child d j))"
proof -
  have "1 + i \<noteq> 0" using assms(2) by (metis add_eq_0_iff)
  then have i: "unat (i + 1) = Suc (unat i)" using unatSuc [of i] by (simp add: add.commute)
  define n where "n = max (length (children d)) (Suc (unat i))"
  define cs where "cs = children d @ replicate (n - length (children d)) None"
  define d' where "d' = touched (d\<lparr>children := cs[unat i := v]\<rparr>)"
  have len: "length cs = n" and "unat i < n" by (simp_all add: cs_def n_def)
  moreover have "set_child d i v = Inr d'"
    using assms(1) \<open>unat i < n\<close> by (simp add: set_child_def i Let_def d'_def cs_def n_def changed_writing)
  moreover have "get_child d' j = (if j = i then v else get_child d j)" for j
  proof (cases "unat j < n")
    case True
    have "cs ! unat j = (if unat j < length (children d) then children d ! unat j else None)"
      using True by (simp add: cs_def nth_resized n_def)
    then show ?thesis using True len \<open>unat i < n\<close> by (auto simp: get_child_def d'_def nth_list_update word_unat_eq_iff)
  next
    case False
    then show ?thesis using len by (auto simp: get_child_def d'_def n_def)
  qed
  ultimately show ?thesis using assms(1) by (auto simp: d'_def)
qed

lemma set_child_overflow: "set_child d (- 1) v = Inl Undefined_Behaviour" if "length (children d) \<le> UINT_MAX"
proof -
  have "unat (- 1 :: u32) = UINT_MAX" by (simp add: unsigned_minus_1_eq_mask mask_eq_exp_minus_1)
  with that show ?thesis by (simp add: set_child_def Let_def)
qed

end
