(* ===== verification/Server_Locking.thy ===== *)
theory Server_Locking
  imports Server_Objects "HOL-Library.Multiset"
begin

text \<open>
  \<open>common-server/src/include/p4pserver/locking.h\<close>: the locks on the objects of the server, as steps of
  threads that share one object. A lock is a lock of the \<open>boost::shared_mutex\<close> of the object and, for a write
  lock, the call of \<open>begin_write\<close>. The mutex is not code of the program: what it grants is a parameter, the
  set of combinations of modes it lets threads hold at the same time. \<open>BlockWriteLock\<close> holds a
  \<open>boost::shared_lock\<close>, so its test and its setting of \<open>writing_\<close> are steps that another thread can interleave.
\<close>

datatype lock_mode = Shared | Upgrade | Exclusive

text \<open>
  Where a thread is. The flag of the writer's places says that its lock is an \<open>UpgradedWriteLock\<close>, which
  has made its upgradable lock exclusive, and not a \<open>BlockWriteLock\<close>.
\<close>

datatype place = Idle | Reading | Upgradable | Testing bool | Setting bool | Writing bool

definition write_mode :: "bool \<Rightarrow> lock_mode" where
  "write_mode upgraded = (if upgraded then Exclusive else Shared)"

fun held :: "place \<Rightarrow> lock_mode multiset" where
  "held Idle = {#}"
| "held Reading = {#Shared#}"
| "held Upgradable = {#Upgrade#}"
| "held (Testing u) = {#write_mode u#}"
| "held (Setting u) = {#write_mode u#}"
| "held (Writing u) = {#write_mode u#}"

text \<open>Where the thread is after the lock, or an exception of its constructor, released it.\<close>

definition unlocked :: "bool \<Rightarrow> place" where
  "unlocked upgraded = (if upgraded then Upgradable else Idle)"

record lock_state =
  shared_object :: local_object
  places :: "place list"
  terminated :: bool

definition held_all :: "place list \<Rightarrow> lock_mode multiset" where
  "held_all ps = \<Sum>\<^sub># (image_mset held (mset ps))"

definition moved :: "lock_state \<Rightarrow> nat \<Rightarrow> place \<Rightarrow> lock_state" where
  "moved s i p = s\<lparr>places := (places s)[i := p]\<rparr>"

text \<open>
  One step of a thread. Acquiring waits until the mutex grants the lock. An exception that leaves the
  destructor of a lock terminates the program.
\<close>

inductive lock_step :: "(lock_mode multiset \<Rightarrow> bool) \<Rightarrow> lock_state \<Rightarrow> lock_state \<Rightarrow> bool" for grants where
  BlockReadLock: "i < length (places s) \<Longrightarrow> places s ! i = Idle \<Longrightarrow> s' = moved s i Reading \<Longrightarrow>
    grants (held_all (places s')) \<Longrightarrow> \<not> terminated s \<Longrightarrow> lock_step grants s s'"
| UpgradableReadLock: "i < length (places s) \<Longrightarrow> places s ! i = Idle \<Longrightarrow> s' = moved s i Upgradable \<Longrightarrow>
    grants (held_all (places s')) \<Longrightarrow> \<not> terminated s \<Longrightarrow> lock_step grants s s'"
| BlockWriteLock: "i < length (places s) \<Longrightarrow> places s ! i = Idle \<Longrightarrow> s' = moved s i (Testing False) \<Longrightarrow>
    grants (held_all (places s')) \<Longrightarrow> \<not> terminated s \<Longrightarrow> lock_step grants s s'"
| UpgradedWriteLock: "i < length (places s) \<Longrightarrow> places s ! i = Upgradable \<Longrightarrow> s' = moved s i (Testing True) \<Longrightarrow>
    grants (held_all (places s')) \<Longrightarrow> \<not> terminated s \<Longrightarrow> lock_step grants s s'"
| test_writing: "i < length (places s) \<Longrightarrow> places s ! i = Testing u \<Longrightarrow>
    s' = moved s i (if writing (shared_object s) then unlocked u else Setting u) \<Longrightarrow> \<not> terminated s \<Longrightarrow> lock_step grants s s'"
| set_writing: "i < length (places s) \<Longrightarrow> places s ! i = Setting u \<Longrightarrow>
    s' = (moved s i (Writing u))\<lparr>shared_object := (shared_object s)\<lparr>writing := True, changed_fired := False\<rparr>\<rparr> \<Longrightarrow>
    \<not> terminated s \<Longrightarrow> lock_step grants s s'"
| destroy_write: "i < length (places s) \<Longrightarrow> places s ! i = Writing u \<Longrightarrow>
    s' = (case end_write (shared_object s) of
            Inl e \<Rightarrow> s\<lparr>terminated := True\<rparr>
          | Inr ob \<Rightarrow> (moved s i (unlocked u))\<lparr>shared_object := ob\<rparr>) \<Longrightarrow>
    \<not> terminated s \<Longrightarrow> lock_step grants s s'"
| destroy_read: "i < length (places s) \<Longrightarrow> places s ! i \<in> {Reading, Upgradable} \<Longrightarrow> s' = moved s i Idle \<Longrightarrow>
    \<not> terminated s \<Longrightarrow> lock_step grants s s'"

inductive_cases lock_stepE: "lock_step grants s s'"

text \<open>What the documentation of the mutex promises: sharers share, and who is exclusive is alone.\<close>

definition sharers_share :: "(lock_mode multiset \<Rightarrow> bool) \<Rightarrow> bool" where
  "sharers_share grants \<longleftrightarrow> (\<forall>M. set_mset M \<subseteq> {Shared} \<longrightarrow> grants M)"

definition exclusive_alone :: "(lock_mode multiset \<Rightarrow> bool) \<Rightarrow> bool" where
  "exclusive_alone grants \<longleftrightarrow> (\<forall>M. grants M \<longrightarrow> Exclusive \<in># M \<longrightarrow> M = {#Exclusive#})"

definition lock_start :: "nat \<Rightarrow> local_object \<Rightarrow> lock_state" where
  "lock_start n ob = \<lparr>shared_object = ob\<lparr>writing := False\<rparr>, places = replicate n Idle, terminated = False\<rparr>"

section \<open>Upgraded locks exclude all others\<close>

lemma held_all_simps [simp]: "held_all [] = {#}" "held_all (p # ps) = held p + held_all ps"
  by (simp_all add: held_all_def)

lemma held_all_update:
  "i < length ps \<Longrightarrow> \<exists>M. held_all ps = held (ps ! i) + M \<and> held_all (ps[i := p]) = held p + M"
proof (induction ps arbitrary: i)
  case (Cons q ps)
  show ?case
  proof (cases i)
    case (Suc k)
    then obtain M where "held_all ps = held (ps ! k) + M" "held_all (ps[k := p]) = held p + M" using Cons by force
    then show ?thesis using Suc by (intro exI [of _ "held q + M"]) (simp add: ac_simps)
  qed simp
qed simp

lemma held_empty_iff [simp]: "held p = {#} \<longleftrightarrow> p = Idle"
  by (cases p) auto

lemma held_all_empty: "held_all ps = {#} \<longleftrightarrow> (\<forall>p\<in>set ps. p = Idle)"
  by (induction ps) auto

lemma held_other:
  assumes "i < length ps" "j < length ps" "j \<noteq> i"
  shows "held (ps ! i) + held (ps ! j) \<subseteq># held_all ps"
proof -
  obtain M where M: "held_all ps = held (ps ! i) + M" "held_all (ps[i := Idle]) = M"
    using held_all_update [OF assms(1), of Idle] by auto
  obtain N where "held_all (ps[i := Idle]) = held (ps[i := Idle] ! j) + N"
    using held_all_update [of j "ps[i := Idle]" Idle] assms(2) by auto
  then show ?thesis using M assms(3) by simp
qed

text \<open>The invariant: an exclusive lock is the only one, and a set flag belongs to a writer.\<close>

definition exclusive_only :: "place list \<Rightarrow> bool" where
  "exclusive_only ps \<longleftrightarrow> (Exclusive \<in># held_all ps \<longrightarrow> held_all ps = {#Exclusive#})"

definition lock_inv :: "lock_state \<Rightarrow> bool" where
  "lock_inv s \<longleftrightarrow>
     exclusive_only (places s) \<and>
     (writing (shared_object s) \<longrightarrow> (\<exists>u. Writing u \<in> set (places s))) \<and>
     (Writing True \<in> set (places s) \<longrightarrow> writing (shared_object s))"

lemma exclusive_step:
  assumes "exclusive_only ps" "i < length ps" "ps ! i \<noteq> Idle" "held p = held (ps ! i) \<or> Exclusive \<notin># held p"
  shows "exclusive_only (ps[i := p])"
proof -
  obtain M where M: "held_all ps = held (ps ! i) + M" "held_all (ps[i := p]) = held p + M"
    using held_all_update [OF assms(2)] by blast
  show ?thesis
  proof (cases "held p = held (ps ! i)")
    case True
    then show ?thesis using assms(1) M by (simp add: exclusive_only_def)
  next
    case False
    have "Exclusive \<notin># M"
    proof
      assume "Exclusive \<in># M"
      then have "held (ps ! i) + M = {#Exclusive#}" using assms(1) M(1) by (auto simp: exclusive_only_def)
      with \<open>Exclusive \<in># M\<close> assms(3) show False by (auto simp: union_is_single)
    qed
    then show ?thesis using False assms(4) M(2) by (auto simp: exclusive_only_def)
  qed
qed

lemma exclusive_others:
  assumes "exclusive_only ps" "i < length ps" "j < length ps" "j \<noteq> i" "Exclusive \<in># held (ps ! i)"
  shows "ps ! j = Idle"
proof -
  have sub: "held (ps ! i) + held (ps ! j) \<subseteq># held_all ps" using held_other assms(2-4) by blast
  then have "Exclusive \<in># held_all ps" using assms(5) by (meson mset_subset_eqD union_iff)
  then have "held_all ps = {#Exclusive#}" using assms(1) by (simp add: exclusive_only_def)
  then have "size (held (ps ! i)) + size (held (ps ! j)) \<le> 1" using size_mset_mono [OF sub] by simp
  moreover have "size (held (ps ! i)) \<ge> 1" using assms(5) by (metis One_nat_def Suc_leI empty_iff nonempty_has_size set_mset_empty)
  ultimately have "size (held (ps ! j)) = 0" by linarith
  then show ?thesis by simp
qed

lemma set_list_update_other: "x \<in> set xs \<Longrightarrow> i < length xs \<Longrightarrow> x \<noteq> xs ! i \<Longrightarrow> x \<in> set (xs[i := y])"
  by (metis in_set_conv_nth length_list_update nth_list_update_neq)

lemma places_moved: "places (moved s i p) = (places s)[i := p]"
  by (simp add: moved_def)

lemma lock_inv_moved:
  assumes inv: "lock_inv s" and i: "i < length (places s)" and ne: "\<forall>u. places s ! i \<noteq> Writing u" "\<forall>u. p \<noteq> Writing u"
    and ex: "exclusive_only ((places s)[i := p])"
  shows "lock_inv (moved s i p)"
proof -
  have keep: "Writing u \<in> set ((places s)[i := p]) \<longleftrightarrow> Writing u \<in> set (places s)" for u
  proof -
    have "Writing u \<noteq> places s ! i" "Writing u \<noteq> p" using ne by metis+
    then show ?thesis
      using i set_list_update_other [of "Writing u" "places s" i p] set_update_subset_insert [of "places s" i p] by blast
  qed
  then show ?thesis using inv ex by (simp add: lock_inv_def moved_def)
qed

lemma lock_step_inv:
  assumes "lock_step grants s s'" "exclusive_alone grants" "lock_inv s"
  shows "lock_inv s'"
proof -
  have ex: "exclusive_only (places s)" using assms(3) by (simp add: lock_inv_def)
  have granted: "exclusive_only ps" if "grants (held_all ps)" for ps
    using that assms(2) by (auto simp: exclusive_only_def exclusive_alone_def)
  show ?thesis
    using assms(1)
  proof cases
    case (test_writing i u)
    then have "exclusive_only ((places s)[i := if writing (shared_object s) then unlocked u else Setting u])"
      by (intro exclusive_step [OF ex]) (auto simp: unlocked_def write_mode_def)
    then show ?thesis
      unfolding test_writing(3) using test_writing by (intro lock_inv_moved [OF assms(3)]) (auto simp: unlocked_def)
  next
    case (set_writing i u)
    have "exclusive_only ((places s)[i := Writing u])"
      using set_writing by (intro exclusive_step [OF ex]) auto
    then show ?thesis
      using set_writing set_update_memI [of i "places s" "Writing u"] by (auto simp: lock_inv_def moved_def)
  next
    case (destroy_write i u)
    show ?thesis
    proof (cases "writing (shared_object s)")
      case True
      have "exclusive_only ((places s)[i := unlocked u])"
        using destroy_write by (intro exclusive_step [OF ex]) (auto simp: unlocked_def)
      moreover have "Writing True \<notin> set ((places s)[i := unlocked u])"
      proof
        assume "Writing True \<in> set ((places s)[i := unlocked u])"
        then obtain j where j: "j < length (places s)" "(places s)[i := unlocked u] ! j = Writing True" by (auto simp: in_set_conv_nth)
        have "j \<noteq> i" using j by (auto simp: nth_list_update unlocked_def split: if_splits)
        then have "places s ! j = Writing True" using j(2) by simp
        then have "places s ! i = Idle"
          using \<open>j \<noteq> i\<close> exclusive_others [OF ex j(1) destroy_write(1)] by (auto simp: write_mode_def)
        then show False using destroy_write by simp
      qed
      ultimately show ?thesis using destroy_write True by (simp add: lock_inv_def moved_def end_write_def)
    next
      case False
      then show ?thesis using destroy_write assms(3) by (simp add: lock_inv_def end_write_def)
    qed
  next
    case (destroy_read i)
    then have "exclusive_only ((places s)[i := Idle])" by (intro exclusive_step [OF ex]) auto
    then show ?thesis unfolding destroy_read(3) using destroy_read by (intro lock_inv_moved [OF assms(3)]) auto
  qed (auto intro!: lock_inv_moved [OF assms(3)] granted simp: places_moved)
qed

lemma lock_start_inv: "lock_inv (lock_start n ob)"
proof -
  have "held_all (replicate n Idle) = {#}" by (simp add: held_all_empty)
  then show ?thesis by (simp add: lock_inv_def lock_start_def exclusive_only_def)
qed

lemma lock_reach_inv:
  assumes "(lock_step grants)\<^sup>*\<^sup>* (lock_start n ob) s" "exclusive_alone grants"
  shows "lock_inv s"
  using assms(1) by induction (auto intro: lock_start_inv lock_step_inv assms(2))

text \<open>
  Property C25. Whatever the threads do, and whichever locks they use: a thread with an
  \<open>UpgradedWriteLock\<close>, from the moment the mutex made it exclusive, is the only thread with a lock, and while
  it writes the object is in the writing state; it never finds the object written by another.
\<close>
theorem upgraded_write_exclusive:
  assumes "exclusive_alone grants" "(lock_step grants)\<^sup>*\<^sup>* (lock_start n ob) s"
    and "i < length (places s)" "places s ! i \<in> {Testing True, Setting True, Writing True}"
  shows "(\<forall>j<length (places s). j \<noteq> i \<longrightarrow> places s ! j = Idle) \<and>
    (writing (shared_object s) \<longleftrightarrow> places s ! i = Writing True)"
proof -
  have inv: "lock_inv s" using lock_reach_inv assms(1,2) by blast
  have others: "\<forall>j<length (places s). j \<noteq> i \<longrightarrow> places s ! j = Idle"
    using exclusive_others [of "places s" i] inv assms(3,4) by (auto simp: lock_inv_def write_mode_def)
  have "writing (shared_object s)" if "places s ! i = Writing True"
    using inv that nth_mem [OF assms(3)] by (auto simp: lock_inv_def)
  moreover have "places s ! i = Writing True" if w: "writing (shared_object s)"
  proof -
    obtain u where "Writing u \<in> set (places s)" using inv w by (auto simp: lock_inv_def)
    then obtain j where "j < length (places s)" "places s ! j = Writing u" by (auto simp: in_set_conv_nth)
    then show ?thesis using others assms(4) by (cases "j = i") auto
  qed
  ultimately show ?thesis using others by blast
qed

text \<open>What the mutex of the library grants: any number of sharers beside one upgradable lock, or one exclusive lock.\<close>

definition boost_grants :: "lock_mode multiset \<Rightarrow> bool" where
  "boost_grants M \<longleftrightarrow> (if Exclusive \<in># M then M = {#Exclusive#} else count M Upgrade \<le> 1)"

lemma boost_grants_laws: "exclusive_alone boost_grants" "sharers_share boost_grants"
proof -
  have "count M Upgrade = 0" if "set_mset M \<subseteq> {Shared}" for M using that by (auto simp: count_eq_zero_iff)
  then show "exclusive_alone boost_grants" "sharers_share boost_grants"
    by (auto simp: exclusive_alone_def sharers_share_def boost_grants_def)
qed

lemma lock_start_2: "lock_start 2 ob = \<lparr>shared_object = ob\<lparr>writing := False\<rparr>, places = [Idle, Idle], terminated = False\<rparr>"
  by (simp add: lock_start_def numeral_2_eq_2)

lemma upgrade_run:
  "(lock_step boost_grants)\<^sup>*\<^sup>* (lock_start 2 ob) \<lparr>shared_object = ob\<lparr>writing := False\<rparr>, places = [Testing True, Idle], terminated = False\<rparr>"
proof -
  let ?st = "\<lambda>p. \<lparr>shared_object = ob\<lparr>writing := False\<rparr>, places = [p, Idle], terminated = False\<rparr>"
  have "lock_step boost_grants (?st Idle) (?st Upgradable)"
    by (rule UpgradableReadLock [of 0]) (simp_all add: moved_def boost_grants_def)
  moreover have "lock_step boost_grants (?st Upgradable) (?st (Testing True))"
    by (rule UpgradedWriteLock [of 0]) (simp_all add: moved_def boost_grants_def write_mode_def)
  ultimately show ?thesis unfolding lock_start_2 by (rule converse_rtranclp_into_rtranclp [OF _ r_into_rtranclp])
qed

theorem upgraded_write_exclusive_witness:
  "\<exists>s. (lock_step boost_grants)\<^sup>*\<^sup>* (lock_start 2 (LocalObject 0)) s \<and> places s = [Testing True, Idle] \<and> \<not> writing (shared_object s)"
  using upgraded_write_exclusive [OF boost_grants_laws(1) upgrade_run [of "LocalObject 0"], of 0] upgrade_run [of "LocalObject 0"]
  by auto

section \<open>Block write locks do not\<close>

text \<open>
  Property C36. \<open>BlockWriteLock\<close> is no exclusive lock: whatever the mutex does, as long as it lets sharers
  share, two threads can write the same object while a third reads it; and the destructor of the second
  writer then throws, which ends the program.
\<close>
theorem block_write_locks_overlap:
  assumes "sharers_share grants"
  shows "\<exists>s s'. (lock_step grants)\<^sup>*\<^sup>* (lock_start 3 ob) s \<and> places s = [Writing False, Writing False, Reading] \<and>
    (lock_step grants)\<^sup>*\<^sup>* s s' \<and> terminated s'"
proof -
  let ?st = "\<lambda>w f ps. \<lparr>shared_object = ob\<lparr>writing := w, changed_fired := f\<rparr>, places = ps, terminated = False\<rparr>"
  let ?f = "changed_fired ob"
  note g = assms [unfolded sharers_share_def, rule_format] and d = lock_start_def moved_def write_mode_def numeral_3_eq_3
  let ?r = "lock_step grants"
  have s0: "lock_start 3 ob = ?st False ?f [Idle, Idle, Idle]" by (simp add: d)
  have s1: "?r (?st False ?f [Idle, Idle, Idle]) (?st False ?f [Idle, Idle, Reading])"
    by (rule BlockReadLock [of 2]) (auto simp: d intro!: g)
  have s2: "?r (?st False ?f [Idle, Idle, Reading]) (?st False ?f [Testing False, Idle, Reading])"
    by (rule BlockWriteLock [of 0]) (auto simp: d intro!: g)
  have s3: "?r (?st False ?f [Testing False, Idle, Reading]) (?st False ?f [Testing False, Testing False, Reading])"
    by (rule BlockWriteLock [of 1]) (auto simp: d intro!: g)
  have s4: "?r (?st False ?f [Testing False, Testing False, Reading]) (?st False ?f [Setting False, Testing False, Reading])"
    by (rule test_writing [of 0]) (auto simp: d)
  have s5: "?r (?st False ?f [Setting False, Testing False, Reading]) (?st False ?f [Setting False, Setting False, Reading])"
    by (rule test_writing [of 1]) (auto simp: d)
  have s6: "?r (?st False ?f [Setting False, Setting False, Reading]) (?st True False [Writing False, Setting False, Reading])"
    by (rule set_writing [of 0]) (auto simp: d)
  have s7: "?r (?st True False [Writing False, Setting False, Reading]) (?st True False [Writing False, Writing False, Reading])"
    by (rule set_writing [of 1]) (auto simp: d)
  have s8: "?r (?st True False [Writing False, Writing False, Reading]) (?st False False [Idle, Writing False, Reading])"
    by (rule destroy_write [of 0]) (auto simp: d end_write_def unlocked_def)
  have s9: "?r (?st False False [Idle, Writing False, Reading]) ((?st False False [Idle, Writing False, Reading])\<lparr>terminated := True\<rparr>)"
    by (rule destroy_write [of 1]) (auto simp: d end_write_def)
  have "?r\<^sup>*\<^sup>* (lock_start 3 ob) (?st True False [Writing False, Writing False, Reading])"
    unfolding s0 using s1 s2 s3 s4 s5 s6 s7 by (meson converse_rtranclp_into_rtranclp rtranclp.rtrancl_refl)
  moreover have "?r\<^sup>*\<^sup>* (?st True False [Writing False, Writing False, Reading]) ((?st False False [Idle, Writing False, Reading])\<lparr>terminated := True\<rparr>)"
    using s8 s9 by (meson converse_rtranclp_into_rtranclp rtranclp.rtrancl_refl)
  ultimately show ?thesis
    by (intro exI [of _ "?st True False [Writing False, Writing False, Reading]"]
          exI [of _ "(?st False False [Idle, Writing False, Reading])\<lparr>terminated := True\<rparr>"]) simp
qed

theorem block_write_locks_overlap_witness:
  "sharers_share boost_grants \<and>
   (\<exists>s. (lock_step boost_grants)\<^sup>*\<^sup>* (lock_start 3 (LocalObject 0)) s \<and> places s = [Writing False, Writing False, Reading])"
  using block_write_locks_overlap [OF boost_grants_laws(2), of "LocalObject 0"] boost_grants_laws(2) by blast

end
