(* ===== verification/Server_Matrix.thy ===== *)
theory Server_Matrix
  imports Server_Objects PID_Type Guidance_Options
begin

text \<open>
  \<open>common-server/src/include/p4pserver/pid_matrix.h\<close>: the matrices of costs between PIDs that the server keeps.
  A cost is a \<open>double\<close>, here with its special values, and \<open>NAN\<close> marks an entry that is not set. A matrix has
  its PIDs in a vector, sorted because they come from a set, and a square table over their positions. The
  dense and the sparse table of the uBLAS library differ in storage only: an element that was not assigned
  reads as \<open>VCost()\<close>, which is \<open>NAN\<close>.
\<close>

section \<open>Costs\<close>

datatype cost = NAN | INFTY bool | Num double

text \<open>Addition of doubles: \<open>fl\<close> rounds, and may overflow to an infinity.\<close>

fun cost_add :: "(double \<Rightarrow> cost) \<Rightarrow> cost \<Rightarrow> cost \<Rightarrow> cost" where
  "cost_add fl NAN b = NAN"
| "cost_add fl (INFTY s) NAN = NAN"
| "cost_add fl (INFTY s) (INFTY t) = (if s = t then INFTY s else NAN)"
| "cost_add fl (INFTY s) (Num y) = INFTY s"
| "cost_add fl (Num x) NAN = NAN"
| "cost_add fl (Num x) (INFTY t) = INFTY t"
| "cost_add fl (Num x) (Num y) = fl (x + y)"

section \<open>The matrix\<close>

record server_matrix = dist_object +
  mx_pids :: "pid list"
  mx_rows :: "cost list list"

type_synonym pid_set = "(pid, unit) smap"

definition pid_set_of :: "pid list \<Rightarrow> pid_set" where
  "pid_set_of ps = foldl (\<lambda>s p. smap_put p () s) [] ps"

definition PIDMatrixBase :: "u32 \<Rightarrow> server_matrix" where
  "PIDMatrixBase garbage = dist_object.extend (DistributedObject garbage) \<lparr>mx_pids = [], mx_rows = []\<rparr>"

text \<open>The index by PID: \<open>find\<close> gives the entry, which holds its position.\<close>

fun index_of :: "pid list \<Rightarrow> pid \<Rightarrow> nat option" where
  "index_of [] p = None"
| "index_of (q # qs) p = (if q = p then Some 0 else map_option Suc (index_of qs p))"

definition put_at :: "cost list list \<Rightarrow> nat \<Rightarrow> nat \<Rightarrow> cost \<Rightarrow> cost list list" where
  "put_at M i j v = M[i := (M ! i)[j := v]]"

text \<open>The body of the two loops of \<open>set_pids\<close>.\<close>

definition copy_entry :: "server_matrix \<Rightarrow> pid list \<Rightarrow> nat \<Rightarrow> nat \<Rightarrow> cost list list \<Rightarrow> cost list list" where
  "copy_entry m new_pids i j new_matrix =
     (let p = mx_rows m ! i ! j in
      if p = NAN then new_matrix
      else (case index_of new_pids (mx_pids m ! i) of
              None \<Rightarrow> new_matrix
            | Some new_i \<Rightarrow> (case index_of new_pids (mx_pids m ! j) of
                None \<Rightarrow> new_matrix
              | Some new_j \<Rightarrow> put_at new_matrix new_i new_j p)))"

definition mx_set_pids :: "server_matrix \<Rightarrow> pid_set \<Rightarrow> server_matrix result" where
  "mx_set_pids m locs =
     (let new_pids = map fst locs; k = length new_pids; n = length (mx_rows m);
          new_matrix = fold (\<lambda>i. fold (\<lambda>j. copy_entry m new_pids i j) [0..<n]) [0..<n] (replicate k (replicate k NAN))
      in changed (m\<lparr>mx_rows := new_matrix, mx_pids := new_pids\<rparr>))"

definition mx_set_pids_vector :: "server_matrix \<Rightarrow> pid list \<Rightarrow> server_matrix result" where
  "mx_set_pids_vector m locs = mx_set_pids m (pid_set_of locs)"

definition mx_add_pid :: "server_matrix \<Rightarrow> pid \<Rightarrow> (server_matrix \<times> bool) result" where
  "mx_add_pid m p =
     (if index_of (mx_pids m) p \<noteq> None then Inr (m, False)
      else bindE (mx_set_pids m (smap_put p () (pid_set_of (mx_pids m)))) (\<lambda>m'. Inr (m', True)))"

text \<open>\<open>set_difference\<close> and \<open>set_union\<close> read both ranges in order; the vector of PIDs is sorted.\<close>

fun set_difference :: "pid list \<Rightarrow> pid list \<Rightarrow> pid list" where
  "set_difference [] ys = []"
| "set_difference (x # xs) [] = x # xs"
| "set_difference (x # xs) (y # ys) =
     (if x < y then x # set_difference xs (y # ys)
      else if y < x then set_difference (x # xs) ys
      else set_difference xs ys)"

fun set_union :: "pid list \<Rightarrow> pid list \<Rightarrow> pid list" where
  "set_union [] ys = ys"
| "set_union (x # xs) [] = x # xs"
| "set_union (x # xs) (y # ys) =
     (if x < y then x # set_union xs (y # ys)
      else if y < x then y # set_union (x # xs) ys
      else x # set_union xs ys)"

definition mx_add_pids :: "server_matrix \<Rightarrow> pid_set \<Rightarrow> server_matrix result" where
  "mx_add_pids m pids =
     (let new_pids = pid_set_of (set_difference (map fst pids) (mx_pids m)) in
      if new_pids = [] then Inr m
      else mx_set_pids m (pid_set_of (set_union (mx_pids m) (map fst new_pids))))"

definition mx_add_pids_vector :: "server_matrix \<Rightarrow> pid list \<Rightarrow> server_matrix result" where
  "mx_add_pids_vector m pids = mx_add_pids m (pid_set_of pids)"

definition mx_remove_pid :: "server_matrix \<Rightarrow> pid \<Rightarrow> (server_matrix \<times> bool) result" where
  "mx_remove_pid m p =
     (if index_of (mx_pids m) p = None then Inr (m, False)
      else bindE (mx_set_pids m (smap_erase p (pid_set_of (mx_pids m)))) (\<lambda>m'. Inr (m', True)))"

definition mx_get :: "server_matrix \<Rightarrow> nat \<Rightarrow> nat \<Rightarrow> cost \<Rightarrow> cost" where
  "mx_get m i j dflt = (let r = mx_rows m ! i ! j in if r = NAN then dflt else r)"

definition mx_get_by_pid :: "server_matrix \<Rightarrow> pid \<Rightarrow> pid \<Rightarrow> cost \<Rightarrow> cost" where
  "mx_get_by_pid m src dst dflt =
     (case index_of (mx_pids m) src of
        None \<Rightarrow> dflt
      | Some i \<Rightarrow> (case index_of (mx_pids m) dst of None \<Rightarrow> dflt | Some j \<Rightarrow> mx_get m i j dflt))"

definition mx_set :: "server_matrix \<Rightarrow> nat \<Rightarrow> nat \<Rightarrow> cost \<Rightarrow> server_matrix result" where
  "mx_set m i j v = changed (m\<lparr>mx_rows := put_at (mx_rows m) i j v\<rparr>)"

definition mx_set_by_pid :: "server_matrix \<Rightarrow> pid \<Rightarrow> pid \<Rightarrow> cost \<Rightarrow> (server_matrix \<times> bool) result" where
  "mx_set_by_pid m src dst v =
     (case index_of (mx_pids m) src of
        None \<Rightarrow> Inr (m, False)
      | Some i \<Rightarrow> (case index_of (mx_pids m) dst of
          None \<Rightarrow> Inr (m, False)
        | Some j \<Rightarrow> bindE (mx_set m i j v) (\<lambda>m'. Inr (m', True))))"

definition mx_get_num_rows :: "server_matrix \<Rightarrow> nat" where "mx_get_num_rows m = length (mx_rows m)"

definition mx_copy :: "u32 \<Rightarrow> server_matrix \<Rightarrow> server_matrix" where
  "mx_copy garbage m = (PIDMatrixBase garbage)\<lparr>mx_pids := mx_pids m, mx_rows := mx_rows m\<rparr>"

section \<open>Matrices as tables of pairs of PIDs\<close>

definition tab :: "pid list \<Rightarrow> cost list list \<Rightarrow> pid \<Rightarrow> pid \<Rightarrow> cost" where
  "tab ps M p q = (case index_of ps p of None \<Rightarrow> NAN | Some i \<Rightarrow> (case index_of ps q of None \<Rightarrow> NAN | Some j \<Rightarrow> M ! i ! j))"

definition square :: "nat \<Rightarrow> cost list list \<Rightarrow> bool" where
  "square n M \<longleftrightarrow> length M = n \<and> (\<forall>r\<in>set M. length r = n)"

text \<open>A matrix that is locked for writing, with its entries.\<close>

definition mx_inv :: "server_matrix \<Rightarrow> bool" where
  "mx_inv m \<longleftrightarrow> sorted_wrt (<) (mx_pids m) \<and> square (length (mx_pids m)) (mx_rows m)"

definition mx_ok :: "server_matrix \<Rightarrow> bool" where
  "mx_ok m \<longleftrightarrow> mx_inv m \<and> writing m"

definition mx_entry :: "server_matrix \<Rightarrow> pid \<Rightarrow> pid \<Rightarrow> cost" where
  "mx_entry m p q = tab (mx_pids m) (mx_rows m) p q"

lemma index_of_None: "index_of ps p = None \<longleftrightarrow> p \<notin> set ps"
  by (induction ps) auto

lemma index_of_notin [simp]: "p \<notin> set ps \<Longrightarrow> index_of ps p = None"
  by (simp add: index_of_None)

lemma index_of_SomeD: "index_of ps p = Some i \<Longrightarrow> i < length ps \<and> ps ! i = p"
  by (induction ps arbitrary: i) (auto split: if_splits)

lemma index_of_nth: "distinct ps \<Longrightarrow> i < length ps \<Longrightarrow> index_of ps (ps ! i) = Some i"
proof (induction ps arbitrary: i)
  case (Cons q ps)
  then show ?case by (cases i) auto
qed simp

lemma index_of_mem: "p \<in> set ps \<Longrightarrow> \<exists>i<length ps. index_of ps p = Some i \<and> ps ! i = p"
  using index_of_SomeD [of ps p] index_of_None [of ps p] by (cases "index_of ps p") auto

lemma index_of_inj: "index_of ps p = Some i \<Longrightarrow> index_of ps q = Some i \<Longrightarrow> p = q"
  using index_of_SomeD by metis

lemma square_put_at: "square n M \<Longrightarrow> square n (put_at M i j v)"
proof (cases "i < length M")
  case True
  assume "square n M"
  then show ?thesis
    using True set_update_subset_insert [of M i "(M ! i)[j := v]"] by (fastforce simp: square_def put_at_def)
qed (simp add: square_def put_at_def list_update_beyond)

lemma tab_put_at:
  assumes "square (length ps) M" "index_of ps a = Some i" "index_of ps b = Some j"
  shows "tab ps (put_at M i j v) p q = (if p = a \<and> q = b then v else tab ps M p q)"
proof -
  have ij: "i < length ps" "j < length ps" using assms(2,3) index_of_SomeD by blast+
  then have len: "length M = length ps" "length (M ! i) = length ps" using assms(1) by (auto simp: square_def)
  show ?thesis
  proof (cases "index_of ps p = Some i \<and> index_of ps q = Some j")
    case True
    then have "p = a" "q = b" using assms(2,3) index_of_inj by blast+
    then show ?thesis using assms(2,3) ij len by (simp add: tab_def put_at_def)
  next
    case False
    then have "\<not> (p = a \<and> q = b)" using assms(2,3) by auto
    moreover have "tab ps (put_at M i j v) p q = tab ps M p q"
    proof (cases "index_of ps p")
      case (Some k)
      show ?thesis
      proof (cases "index_of ps q")
        case (Some l)
        then show ?thesis using False \<open>index_of ps p = Some k\<close> len ij by (cases "k = i"; cases "l = j") (simp_all add: tab_def put_at_def)
      qed (simp add: tab_def split: option.splits)
    qed (simp add: tab_def)
    ultimately show ?thesis by auto
  qed
qed

lemma tab_new: "tab ps (replicate (length ps) (replicate (length ps) NAN)) p q = NAN"
  using index_of_SomeD by (fastforce simp: tab_def split: option.splits)

lemma mx_get_by_pid_entry: "mx_get_by_pid m p q d = (if mx_entry m p q = NAN then d else mx_entry m p q)"
  by (auto simp: mx_get_by_pid_def mx_entry_def tab_def mx_get_def Let_def split: option.splits)

lemma mx_entry_absent: "p \<notin> set (mx_pids m) \<or> q \<notin> set (mx_pids m) \<Longrightarrow> mx_entry m p q = NAN"
  by (auto simp: mx_entry_def tab_def split: option.splits)

lemma mx_touched [simp]:
  "mx_pids (touched m) = mx_pids m" "mx_rows (touched m) = mx_rows m"
  by (simp_all add: touched_def)

lemma mx_set_by_pid_spec:
  assumes "mx_ok m"
  shows "if p \<in> set (mx_pids m) \<and> q \<in> set (mx_pids m)
    then \<exists>m'. mx_set_by_pid m p q v = Inr (m', True) \<and> mx_ok m' \<and> mx_pids m' = mx_pids m \<and>
      (\<forall>a b. mx_entry m' a b = (if a = p \<and> b = q then v else mx_entry m a b))
    else mx_set_by_pid m p q v = Inr (m, False)"
proof (cases "p \<in> set (mx_pids m) \<and> q \<in> set (mx_pids m)")
  case True
  then obtain i j where ij: "index_of (mx_pids m) p = Some i" "index_of (mx_pids m) q = Some j"
    using index_of_mem by meson
  then show ?thesis
    using assms True
    by (auto simp: mx_set_by_pid_def mx_set_def changed_writing mx_ok_def mx_inv_def mx_entry_def square_put_at tab_put_at)
next
  case False
  then show ?thesis by (auto simp: mx_set_by_pid_def split: option.splits)
qed

text \<open>The nested loops of \<open>set_pids\<close> as one loop over pairs.\<close>

lemma fold_pairs: "fold (\<lambda>i. fold (\<lambda>j. f i j) js) is M = fold (\<lambda>(i, j). f i j) (List.product is js) M"
proof (induction "is" arbitrary: M)
  case (Cons i "is")
  have "fold (\<lambda>(i, j). f i j) (map (Pair i) js) M = fold (\<lambda>j. f i j) js M" by (induction js arbitrary: M) auto
  with Cons show ?case by simp
qed simp

lemma copy_entry_tab:
  assumes "square (length ps) M" "mx_inv m" "i < length (mx_pids m)" "j < length (mx_pids m)"
  shows "square (length ps) (copy_entry m ps i j M)"
    and "tab ps (copy_entry m ps i j M) p q =
      (if p = mx_pids m ! i \<and> q = mx_pids m ! j \<and> p \<in> set ps \<and> q \<in> set ps \<and> mx_entry m p q \<noteq> NAN then mx_entry m p q else tab ps M p q)"
proof -
  have d: "distinct (mx_pids m)" using assms(2) by (simp add: mx_inv_def strict_sorted_iff)
  have e: "mx_entry m (mx_pids m ! i) (mx_pids m ! j) = mx_rows m ! i ! j"
    using index_of_nth [OF d] assms(3,4) by (simp add: mx_entry_def tab_def)
  show "square (length ps) (copy_entry m ps i j M)"
    using assms(1) by (auto simp: copy_entry_def Let_def square_put_at split: option.splits)
  show "tab ps (copy_entry m ps i j M) p q =
      (if p = mx_pids m ! i \<and> q = mx_pids m ! j \<and> p \<in> set ps \<and> q \<in> set ps \<and> mx_entry m p q \<noteq> NAN then mx_entry m p q else tab ps M p q)"
  proof (cases "mx_rows m ! i ! j = NAN \<or> mx_pids m ! i \<notin> set ps \<or> mx_pids m ! j \<notin> set ps")
    case True
    then have "copy_entry m ps i j M = M"
      by (auto simp: copy_entry_def Let_def split: option.splits)
    then show ?thesis using True e by auto
  next
    case False
    then obtain a b where ab: "index_of ps (mx_pids m ! i) = Some a" "index_of ps (mx_pids m ! j) = Some b"
      using index_of_mem by meson
    then have "copy_entry m ps i j M = put_at M a b (mx_rows m ! i ! j)" using False by (simp add: copy_entry_def)
    then show ?thesis using False e tab_put_at [OF assms(1) ab] by auto
  qed
qed

lemma copy_entries_tab:
  assumes "square (length ps) M" "mx_inv m" "\<forall>(i, j)\<in>set L. i < length (mx_pids m) \<and> j < length (mx_pids m)"
    and "\<forall>p q. tab ps M p q \<noteq> NAN \<longrightarrow> tab ps M p q = mx_entry m p q"
  shows "square (length ps) (fold (\<lambda>(i, j). copy_entry m ps i j) L M) \<and>
    (\<forall>p q. tab ps (fold (\<lambda>(i, j). copy_entry m ps i j) L M) p q =
      (if p \<in> set ps \<and> q \<in> set ps \<and> (\<exists>(i, j)\<in>set L. p = mx_pids m ! i \<and> q = mx_pids m ! j) then mx_entry m p q else tab ps M p q))"
  using assms
proof (induction L arbitrary: M)
  case (Cons x L)
  obtain i j where x: "x = (i, j)" by (cases x)
  have ij: "i < length (mx_pids m)" "j < length (mx_pids m)" using Cons.prems(3) x by auto
  note c = copy_entry_tab [OF Cons.prems(1,2) ij]
  have nn: "\<forall>p q. tab ps (copy_entry m ps i j M) p q \<noteq> NAN \<longrightarrow> tab ps (copy_entry m ps i j M) p q = mx_entry m p q"
    using c(2) Cons.prems(4) by auto
  note IH = Cons.IH [OF c(1) Cons.prems(2) _ nn]
  have "tab ps (copy_entry m ps i j M) p q = mx_entry m p q"
    if "p = mx_pids m ! i" "q = mx_pids m ! j" "p \<in> set ps" "q \<in> set ps" for p q
    using that c(2) [of p q] Cons.prems(4) by (cases "mx_entry m p q = NAN") (simp_all, metis)
  then show ?case using IH Cons.prems(3) c(2) x by (simp; fastforce)
qed simp

lemma mx_set_pids_spec:
  assumes "mx_ok m" "smap_inv locs"
  shows "\<exists>m'. mx_set_pids m locs = Inr m' \<and> mx_ok m' \<and> mx_pids m' = map fst locs \<and>
    (\<forall>p q. mx_entry m' p q = (if p \<in> set (map fst locs) \<and> q \<in> set (map fst locs) then mx_entry m p q else NAN))"
proof -
  let ?ps = "map fst locs" and ?n = "length (mx_rows m)"
  let ?new = "replicate (length ?ps) (replicate (length ?ps) NAN)"
  let ?M = "fold (\<lambda>i. fold (\<lambda>j. copy_entry m ?ps i j) [0..<?n]) [0..<?n] ?new"
  have inv: "mx_inv m" "?n = length (mx_pids m)" using assms(1) by (auto simp: mx_ok_def mx_inv_def square_def)
  have M: "square (length ?ps) ?M" "\<And>p q. tab ?ps ?M p q =
      (if p \<in> set ?ps \<and> q \<in> set ?ps \<and> (\<exists>(i, j)\<in>set (List.product [0..<?n] [0..<?n]). p = mx_pids m ! i \<and> q = mx_pids m ! j)
       then mx_entry m p q else NAN)"
  proof -
    have "square (length ?ps) ?new" by (simp add: square_def)
    moreover have "\<forall>(i, j)\<in>set (List.product [0..<?n] [0..<?n]). i < length (mx_pids m) \<and> j < length (mx_pids m)" using inv(2) by auto
    moreover have "\<forall>p q. tab ?ps ?new p q \<noteq> NAN \<longrightarrow> tab ?ps ?new p q = mx_entry m p q" by (simp only: tab_new) simp
    ultimately have "square (length ?ps) (fold (\<lambda>(i, j). copy_entry m ?ps i j) (List.product [0..<?n] [0..<?n]) ?new) \<and>
      (\<forall>p q. tab ?ps (fold (\<lambda>(i, j). copy_entry m ?ps i j) (List.product [0..<?n] [0..<?n]) ?new) p q =
        (if p \<in> set ?ps \<and> q \<in> set ?ps \<and> (\<exists>(i, j)\<in>set (List.product [0..<?n] [0..<?n]). p = mx_pids m ! i \<and> q = mx_pids m ! j)
         then mx_entry m p q else tab ?ps ?new p q))"
      by (rule copy_entries_tab [OF _ inv(1)])
    then show "square (length ?ps) ?M" "\<And>p q. tab ?ps ?M p q =
      (if p \<in> set ?ps \<and> q \<in> set ?ps \<and> (\<exists>(i, j)\<in>set (List.product [0..<?n] [0..<?n]). p = mx_pids m ! i \<and> q = mx_pids m ! j)
       then mx_entry m p q else NAN)"
      unfolding fold_pairs tab_new by blast+
  qed
  have "tab ?ps ?M p q = (if p \<in> set ?ps \<and> q \<in> set ?ps then mx_entry m p q else NAN)" for p q
  proof (cases "p \<in> set (mx_pids m) \<and> q \<in> set (mx_pids m)")
    case True
    then show ?thesis using M(2) [of p q] inv(2) by (auto simp: in_set_conv_nth)
  next
    case False
    then show ?thesis using M(2) [of p q] mx_entry_absent [of p m q] by auto
  qed
  then show ?thesis
    using assms M(1) by (auto simp: mx_set_pids_def Let_def changed_writing mx_ok_def mx_inv_def mx_entry_def smap_inv_def)
qed

section \<open>Sequences of operations\<close>

lemma pid_set_of_fold:
  "smap_inv s \<Longrightarrow> smap_inv (foldl (\<lambda>s p. smap_put p () s) s ps) \<and>
    fst ` set (foldl (\<lambda>s p. smap_put p () s) s ps) = fst ` set s \<union> set ps"
  by (induction ps arbitrary: s) auto

lemma pid_set_of_spec: "smap_inv (pid_set_of ps)" "fst ` set (pid_set_of ps) = set ps"
  using pid_set_of_fold [of "[]" ps] by (simp_all add: pid_set_of_def)

lemma set_set_difference:
  "sorted_wrt (<) xs \<Longrightarrow> sorted_wrt (<) ys \<Longrightarrow> set (set_difference xs ys) = set xs - set ys"
proof (induction xs ys rule: set_difference.induct)
  case (3 x xs y ys)
  consider "x < y" | "y < x" | "x = y" by (meson linorder_cases)
  then show ?case
  proof cases
    case 1
    then have "x \<notin> set (y # ys)" using 3(5) by auto
    then show ?thesis using 3 1 by auto
  next
    case 2
    then have "y \<notin> set (x # xs)" using 3(4) by auto
    then show ?thesis using 3 2 by auto
  next
    case eq: 3
    then have "x \<notin> set xs" "x \<notin> set ys" using 3(4,5) by auto
    then show ?thesis using 3 eq by auto
  qed
qed auto

lemma set_set_union: "set (set_union xs ys) = set xs \<union> set ys"
  by (induction xs ys rule: set_union.induct) auto

datatype matrix_op =
    Add_PID pid
  | Remove_PID pid
  | Add_PIDs "pid list"
  | Set_PIDs "pid list"
  | Set_Entry pid pid cost

definition mx_done :: "server_matrix result \<Rightarrow> (server_matrix \<times> bool) result" where
  "mx_done r = bindE r (\<lambda>m. Inr (m, True))"

fun mx_step :: "server_matrix \<Rightarrow> matrix_op \<Rightarrow> (server_matrix \<times> bool) result" where
  "mx_step m (Add_PID p) = mx_add_pid m p"
| "mx_step m (Remove_PID p) = mx_remove_pid m p"
| "mx_step m (Add_PIDs ps) = mx_done (mx_add_pids_vector m ps)"
| "mx_step m (Set_PIDs ps) = mx_done (mx_set_pids_vector m ps)"
| "mx_step m (Set_Entry p q v) = mx_set_by_pid m p q v"

fun mx_run :: "server_matrix \<Rightarrow> matrix_op list \<Rightarrow> (server_matrix \<times> bool list) result" where
  "mx_run m [] = Inr (m, [])"
| "mx_run m (op # ops) = bindE (mx_step m op) (\<lambda>(m', b). bindE (mx_run m' ops) (\<lambda>(m'', bs). Inr (m'', b # bs)))"

text \<open>The reference: a set of PIDs and a cost for each pair of them, \<open>NAN\<close> elsewhere.\<close>

type_synonym cost_table = "pid set \<times> (pid \<Rightarrow> pid \<Rightarrow> cost)"

definition among :: "pid set \<Rightarrow> (pid \<Rightarrow> pid \<Rightarrow> cost) \<Rightarrow> cost_table" where
  "among S f = (S, \<lambda>p q. if p \<in> S \<and> q \<in> S then f p q else NAN)"

fun table_step :: "cost_table \<Rightarrow> matrix_op \<Rightarrow> cost_table \<times> bool" where
  "table_step (S, f) (Add_PID p) = (among (insert p S) f, p \<notin> S)"
| "table_step (S, f) (Remove_PID p) = (among (S - {p}) f, p \<in> S)"
| "table_step (S, f) (Add_PIDs ps) = (among (S \<union> set ps) f, True)"
| "table_step (S, f) (Set_PIDs ps) = (among (set ps) f, True)"
| "table_step (S, f) (Set_Entry p q v) =
     (if p \<in> S \<and> q \<in> S then ((S, f(p := (f p)(q := v))), True) else ((S, f), False))"

fun table_run :: "cost_table \<Rightarrow> matrix_op list \<Rightarrow> cost_table \<times> bool list" where
  "table_run t [] = (t, [])"
| "table_run t (op # ops) = (let (t', b) = table_step t op; (t'', bs) = table_run t' ops in (t'', b # bs))"

definition mx_abs :: "server_matrix \<Rightarrow> cost_table" where
  "mx_abs m = (set (mx_pids m), mx_entry m)"

lemma among_abs: "among (set (mx_pids m)) (mx_entry m) = mx_abs m"
  using mx_entry_absent [of _ m] by (fastforce simp: among_def mx_abs_def)

lemma set_pids_abs:
  assumes "mx_ok m" "smap_inv locs"
  shows "\<exists>m'. mx_set_pids m locs = Inr m' \<and> mx_ok m' \<and> mx_abs m' = among (fst ` set locs) (mx_entry m)"
proof -
  obtain m' where m': "mx_set_pids m locs = Inr m'" "mx_ok m'" "mx_pids m' = map fst locs"
      "\<And>p q. mx_entry m' p q = (if p \<in> set (map fst locs) \<and> q \<in> set (map fst locs) then mx_entry m p q else NAN)"
    using mx_set_pids_spec [OF assms] by metis
  then have "mx_abs m' = among (fst ` set locs) (mx_entry m)"
    unfolding mx_abs_def among_def by (simp add: m'(3)) (auto simp: m'(4) fun_eq_iff)
  then show ?thesis using m'(1,2) by blast
qed

lemma mx_step_refines:
  assumes "mx_ok m"
  shows "\<exists>m' b. mx_step m op = Inr (m', b) \<and> mx_ok m' \<and> table_step (mx_abs m) op = (mx_abs m', b)"
proof (cases op)
  case (Add_PID p)
  show ?thesis
  proof (cases "p \<in> set (mx_pids m)")
    case True
    then show ?thesis using Add_PID assms among_abs [of m] by (auto simp: mx_add_pid_def index_of_None mx_abs_def insert_absorb)
  next
    case False
    then show ?thesis
      using Add_PID set_pids_abs [OF assms, of "smap_put p () (pid_set_of (mx_pids m))"] pid_set_of_spec [of "mx_pids m"]
      by (auto simp: mx_add_pid_def mx_abs_def)
  qed
next
  case (Remove_PID p)
  show ?thesis
  proof (cases "p \<in> set (mx_pids m)")
    case True
    then have "fst ` set (smap_erase p (pid_set_of (mx_pids m))) = set (mx_pids m) - {p}"
      using pid_set_of_spec(2) [of "mx_pids m"] by (force simp: set_smap_erase)
    then show ?thesis
      using True Remove_PID set_pids_abs [OF assms, of "smap_erase p (pid_set_of (mx_pids m))"] pid_set_of_spec(1) [of "mx_pids m"]
      by (auto simp: mx_remove_pid_def mx_abs_def index_of_None)
  next
    case False
    then show ?thesis using Remove_PID assms among_abs [of m] by (auto simp: mx_remove_pid_def mx_abs_def)
  qed
next
  case (Add_PIDs ps)
  let ?new = "pid_set_of (set_difference (map fst (pid_set_of ps)) (mx_pids m))"
  have sorted: "sorted_wrt (<) (map fst (pid_set_of ps))" "sorted_wrt (<) (mx_pids m)"
    using pid_set_of_spec(1) assms by (auto simp: smap_inv_def mx_ok_def mx_inv_def)
  have new: "fst ` set ?new = set ps - set (mx_pids m)"
    using set_set_difference [OF sorted] pid_set_of_spec(2) [of "set_difference (map fst (pid_set_of ps)) (mx_pids m)"]
      pid_set_of_spec(2) [of ps] by simp
  show ?thesis
  proof (cases "?new = []")
    case True
    then have "set ps \<subseteq> set (mx_pids m)" using new by auto
    then show ?thesis
      using Add_PIDs True assms among_abs [of m] by (auto simp: mx_done_def mx_add_pids_vector_def mx_add_pids_def mx_abs_def Un_absorb2)
  next
    case False
    let ?u = "pid_set_of (set_union (mx_pids m) (map fst ?new))"
    have "fst ` set ?u = set (mx_pids m) \<union> set ps"
      using pid_set_of_spec(2) [of "set_union (mx_pids m) (map fst ?new)"] new by (auto simp: set_set_union)
    then show ?thesis
      using Add_PIDs False set_pids_abs [OF assms, of ?u] pid_set_of_spec(1)
      by (auto simp: mx_done_def mx_add_pids_vector_def mx_add_pids_def mx_abs_def Let_def)
  qed
next
  case (Set_PIDs ps)
  then show ?thesis
    using set_pids_abs [OF assms, of "pid_set_of ps"] pid_set_of_spec [of ps]
    by (auto simp: mx_done_def mx_set_pids_vector_def mx_abs_def)
next
  case (Set_Entry p q v)
  show ?thesis
  proof (cases "p \<in> set (mx_pids m) \<and> q \<in> set (mx_pids m)")
    case True
    then obtain m' where m': "mx_set_by_pid m p q v = Inr (m', True)" "mx_ok m'" "mx_pids m' = mx_pids m"
        "\<forall>a b. mx_entry m' a b = (if a = p \<and> b = q then v else mx_entry m a b)"
      using mx_set_by_pid_spec [OF assms, of p q v] by auto
    then have "mx_entry m' = (mx_entry m)(p := (mx_entry m p)(q := v))" by (auto simp: fun_eq_iff)
    then show ?thesis using Set_Entry True m' by (auto simp: mx_abs_def)
  next
    case False
    then show ?thesis using Set_Entry assms mx_set_by_pid_spec [OF assms, of p q v] by (auto simp: mx_abs_def)
  qed
qed

text \<open>
  Property C23. Under a write lock, every sequence of operations on a matrix of the server runs without an
  error and is the same sequence on the reference table, results included: changing the set of PIDs moves
  the entries to their new positions and loses exactly those of removed PIDs, and an entry is set for
  known PIDs only. The PIDs stay sorted and the table square.
\<close>
theorem server_matrix_refines:
  assumes "mx_ok m"
  shows "\<exists>m' bs. mx_run m ops = Inr (m', bs) \<and> mx_ok m' \<and> table_run (mx_abs m) ops = (mx_abs m', bs)"
  using assms
proof (induction ops arbitrary: m)
  case (Cons op ops)
  obtain m1 b where 1: "mx_step m op = Inr (m1, b)" "mx_ok m1" "table_step (mx_abs m) op = (mx_abs m1, b)"
    using mx_step_refines [OF Cons.prems] by blast
  obtain m2 bs where "mx_run m1 ops = Inr (m2, bs)" "mx_ok m2" "table_run (mx_abs m1) ops = (mx_abs m2, bs)"
    using Cons.IH [OF 1(2)] by blast
  with 1 show ?case by simp
qed simp

theorem server_matrix_refines_witness:
  "let a = PID ''isp'' 1 False; b = PID ''isp'' 2 False; c = PID ''isp'' 3 True in
   mx_ok (PIDMatrixBase 0\<lparr>writing := True\<rparr>) \<and>
   (\<exists>m'. mx_run (PIDMatrixBase 0\<lparr>writing := True\<rparr>) [Set_PIDs [b, a], Set_Entry a b (Num 3), Set_Entry a c (Num 4), Add_PID c] =
       Inr (m', [True, True, False, True]) \<and> mx_entry m' a b = Num 3)"
proof -
  let ?a = "PID ''isp'' 1 False" and ?b = "PID ''isp'' 2 False" and ?c = "PID ''isp'' 3 True"
  let ?m = "PIDMatrixBase 0\<lparr>writing := True\<rparr>"
  let ?ops = "[Set_PIDs [?b, ?a], Set_Entry ?a ?b (Num 3), Set_Entry ?a ?c (Num 4), Add_PID ?c]"
  have ok: "mx_ok ?m" by (simp add: mx_ok_def mx_inv_def PIDMatrixBase_def DistributedObject_def LocalObject_def dist_object.defs local_object.defs square_def)
  have ini: "mx_abs ?m = ({}, \<lambda>_ _. NAN)"
    by (auto simp: mx_abs_def mx_entry_def tab_def PIDMatrixBase_def DistributedObject_def LocalObject_def dist_object.defs local_object.defs fun_eq_iff)
  obtain m' bs where r: "mx_run ?m ?ops = Inr (m', bs)" "table_run (mx_abs ?m) ?ops = (mx_abs m', bs)"
    using server_matrix_refines [OF ok, of ?ops] by blast
  from r(2) have "bs = [True, True, False, True]" "snd (mx_abs m') ?a ?b = Num 3"
    unfolding ini by (auto simp: among_def dest!: arg_cong [where f = "\<lambda>t. snd t ?a ?b"])
  then show ?thesis using ok r(1) by (simp add: mx_abs_def Let_def)
qed

end
