(* ===== verification/PID_Aggregation.thy ===== *)
theory PID_Aggregation
  imports Server_Objects PID_Type
begin

text \<open>
  \<open>common-server/src/lib/pid_aggregation.cpp\<close>: the PIDs of a view with their names and the nodes of the
  network they stand for, and the named links between PIDs. Both are containers with several indexes: the
  PID records are unique by name and by PID, in the order of the PIDs; the link records are unique by name,
  kept here in the order of their insertion, which is the order of the indexes by source and destination
  among equal keys.
\<close>

type_synonym name_set = "(string, unit) smap"

record pid_record =
  pr_name :: string
  pr_pid :: pid
  pr_vertices :: name_set

record link_record =
  lr_name :: string
  lr_src :: pid
  lr_dst :: pid

record aggregation = dist_object +
  pid_records :: "pid_record list"
  link_records :: "link_record list"

definition PIDAggregation :: "u32 \<Rightarrow> aggregation" where
  "PIDAggregation garbage = dist_object.extend (DistributedObject garbage) \<lparr>pid_records = [], link_records = []\<rparr>"

definition agg_copy :: "u32 \<Rightarrow> aggregation \<Rightarrow> aggregation" where
  "agg_copy garbage a = (PIDAggregation garbage)\<lparr>pid_records := pid_records a\<rparr>"

definition find_pid_record :: "aggregation \<Rightarrow> pid \<Rightarrow> pid_record option" where
  "find_pid_record a p = find (\<lambda>r. pr_pid r = p) (pid_records a)"

definition find_name_record :: "aggregation \<Rightarrow> string \<Rightarrow> pid_record option" where
  "find_name_record a n = find (\<lambda>r. pr_name r = n) (pid_records a)"

definition agg_has :: "aggregation \<Rightarrow> pid \<Rightarrow> bool" where
  "agg_has a p \<longleftrightarrow> find_pid_record a p \<noteq> None"

definition agg_has_name :: "aggregation \<Rightarrow> string \<Rightarrow> bool" where
  "agg_has_name a n \<longleftrightarrow> find_name_record a n \<noteq> None"

definition agg_lookup :: "aggregation \<Rightarrow> string \<Rightarrow> pid" where
  "agg_lookup a n = (case find_name_record a n of None \<Rightarrow> PID_INVALID | Some r \<Rightarrow> pr_pid r)"

definition reverse_lookup :: "aggregation \<Rightarrow> pid \<Rightarrow> string option" where
  "reverse_lookup a p = map_option pr_name (find_pid_record a p)"

text \<open>Inserting fails when an index with unique keys has the key; erasing is by PID.\<close>

definition insert_record :: "pid_record \<Rightarrow> pid_record list \<Rightarrow> pid_record list" where
  "insert_record r rs =
     (if \<exists>r'\<in>set rs. pr_name r' = pr_name r \<or> pr_pid r' = pr_pid r then rs else insort_key pr_pid r rs)"

definition erase_record :: "pid \<Rightarrow> pid_record list \<Rightarrow> pid_record list" where
  "erase_record p rs = filter (\<lambda>r. pr_pid r \<noteq> p) rs"

definition agg_add :: "aggregation \<Rightarrow> string \<Rightarrow> pid \<Rightarrow> name_set \<Rightarrow> (aggregation \<times> bool) result" where
  "agg_add a n p vs =
     (if agg_has a p then Inr (a, False)
      else if agg_has_name a n then Inr (a, False)
      else bindE (changed (a\<lparr>pid_records := insert_record \<lparr>pr_name = n, pr_pid = p, pr_vertices = vs\<rparr> (pid_records a)\<rparr>))
             (\<lambda>a'. Inr (a', True)))"

definition agg_remove :: "aggregation \<Rightarrow> pid \<Rightarrow> (aggregation \<times> bool) result" where
  "agg_remove a p =
     (if find_pid_record a p = None then Inr (a, False)
      else bindE (changed (a\<lparr>pid_records := erase_record p (pid_records a),
                             link_records := filter (\<lambda>l. lr_dst l \<noteq> p) (filter (\<lambda>l. lr_src l \<noteq> p) (link_records a))\<rparr>))
             (\<lambda>a'. Inr (a', True)))"

definition get_vertices :: "aggregation \<Rightarrow> pid \<Rightarrow> name_set option" where
  "get_vertices a p = map_option pr_vertices (find_pid_record a p)"

text \<open>The four modifications of the vertices replace the record.\<close>

definition replace_vertices :: "(name_set \<Rightarrow> name_set) \<Rightarrow> aggregation \<Rightarrow> pid \<Rightarrow> (aggregation \<times> bool) result" where
  "replace_vertices f a p =
     (case find_pid_record a p of
        None \<Rightarrow> Inr (a, False)
      | Some r \<Rightarrow>
          bindE (changed (a\<lparr>pid_records := insert_record (r\<lparr>pr_vertices := f (pr_vertices r)\<rparr>) (erase_record p (pid_records a))\<rparr>))
            (\<lambda>a'. Inr (a', True)))"

definition set_vertices :: "aggregation \<Rightarrow> pid \<Rightarrow> name_set \<Rightarrow> (aggregation \<times> bool) result" where
  "set_vertices a p vs = replace_vertices (\<lambda>_. vs) a p"

definition add_vertices :: "aggregation \<Rightarrow> pid \<Rightarrow> name_set \<Rightarrow> (aggregation \<times> bool) result" where
  "add_vertices a p vs = replace_vertices (\<lambda>old. foldl (\<lambda>s v. fst (smap_insert (fst v) () s)) old vs) a p"

definition remove_vertices :: "aggregation \<Rightarrow> pid \<Rightarrow> name_set \<Rightarrow> (aggregation \<times> bool) result" where
  "remove_vertices a p vs = replace_vertices (\<lambda>old. foldl (\<lambda>s v. smap_erase (fst v) s) old vs) a p"

definition clear_vertices :: "aggregation \<Rightarrow> pid \<Rightarrow> (aggregation \<times> bool) result" where
  "clear_vertices a p = replace_vertices (\<lambda>_. []) a p"

section \<open>Links\<close>

definition find_link :: "aggregation \<Rightarrow> string \<Rightarrow> link_record option" where
  "find_link a n = find (\<lambda>l. lr_name l = n) (link_records a)"

definition define_link :: "aggregation \<Rightarrow> string \<Rightarrow> pid \<Rightarrow> pid \<Rightarrow> (aggregation \<times> bool) result" where
  "define_link a n src dst =
     (if find_link a n \<noteq> None then Inr (a, False)
      else bindE (changed (a\<lparr>link_records := link_records a @ [\<lparr>lr_name = n, lr_src = src, lr_dst = dst\<rparr>]\<rparr>)) (\<lambda>a'. Inr (a', True)))"

definition undefine_link :: "aggregation \<Rightarrow> string \<Rightarrow> (aggregation \<times> bool) result" where
  "undefine_link a n =
     (if find_link a n = None then Inr (a, False)
      else bindE (changed (a\<lparr>link_records := filter (\<lambda>l. lr_name l \<noteq> n) (link_records a)\<rparr>)) (\<lambda>a'. Inr (a', True)))"

definition get_link :: "aggregation \<Rightarrow> string \<Rightarrow> (pid \<times> pid) option" where
  "get_link a n = map_option (\<lambda>l. (lr_src l, lr_dst l)) (find_link a n)"

definition get_link_names :: "aggregation \<Rightarrow> string \<Rightarrow> (string \<times> string) option" where
  "get_link_names a n =
     (case get_link a n of
        None \<Rightarrow> None
      | Some (src, dst) \<Rightarrow>
          (case reverse_lookup a src of
             None \<Rightarrow> None
           | Some s \<Rightarrow> map_option (Pair s) (reverse_lookup a dst)))"

definition get_link_between :: "aggregation \<Rightarrow> pid \<Rightarrow> pid \<Rightarrow> string option" where
  "get_link_between a src dst =
     map_option lr_name (find (\<lambda>l. lr_dst l = dst) (filter (\<lambda>l. lr_src l = src) (link_records a)))"

section \<open>The aggregation as two maps\<close>

definition agg_inv :: "aggregation \<Rightarrow> bool" where
  "agg_inv a \<longleftrightarrow> sorted_wrt (<) (map pr_pid (pid_records a)) \<and> distinct (map pr_name (pid_records a)) \<and>
     distinct (map lr_name (link_records a))"

definition agg_ok :: "aggregation \<Rightarrow> bool" where
  "agg_ok a \<longleftrightarrow> agg_inv a \<and> writing a"

type_synonym agg_maps = "(pid \<rightharpoonup> string \<times> string set) \<times> (string \<rightharpoonup> pid \<times> pid)"

definition rec_map :: "pid_record list \<Rightarrow> pid \<rightharpoonup> string \<times> string set" where
  "rec_map rs p = map_option (\<lambda>r. (pr_name r, fst ` set (pr_vertices r))) (find (\<lambda>r. pr_pid r = p) rs)"

definition link_map :: "link_record list \<Rightarrow> string \<rightharpoonup> pid \<times> pid" where
  "link_map ls n = map_option (\<lambda>l. (lr_src l, lr_dst l)) (find (\<lambda>l. lr_name l = n) ls)"

definition agg_abs :: "aggregation \<Rightarrow> agg_maps" where
  "agg_abs a = (rec_map (pid_records a), link_map (link_records a))"

lemma find_key_iff:
  assumes "distinct (map f xs)"
  shows "find (\<lambda>x. f x = k) xs = Some x \<longleftrightarrow> x \<in> set xs \<and> f x = k"
  using assms by (induction xs) (auto simp: rev_image_eqI)

lemma find_key_None: "find (\<lambda>x. f x = k) xs = None \<longleftrightarrow> k \<notin> f ` set xs"
  by (auto simp: find_None_iff)

lemma agg_touched [simp]:
  "pid_records (touched a) = pid_records a" "link_records (touched a) = link_records a"
  by (simp_all add: touched_def)

lemma rec_map_insort:
  assumes "pr_pid r \<notin> pr_pid ` set rs"
  shows "rec_map (insort_key pr_pid r rs) = (rec_map rs)(pr_pid r \<mapsto> (pr_name r, fst ` set (pr_vertices r)))"
proof -
  have "find (\<lambda>y. pr_pid y = k) (insort_key pr_pid r rs) = (if pr_pid r = k then Some r else find (\<lambda>y. pr_pid y = k) rs)" for k
    using assms by (induction rs) auto
  then show ?thesis by (auto simp: rec_map_def fun_eq_iff)
qed

lemma rec_map_erase: "rec_map (erase_record p rs) = (rec_map rs)(p := None)"
proof -
  have "find (\<lambda>y. pr_pid y = k) (erase_record p rs) = (if k = p then None else find (\<lambda>y. pr_pid y = k) rs)" for k
    by (induction rs) (auto simp: erase_record_def)
  then show ?thesis by (auto simp: rec_map_def fun_eq_iff)
qed

lemma rec_map_dom: "rec_map rs p = None \<longleftrightarrow> p \<notin> pr_pid ` set rs"
  by (simp add: rec_map_def find_key_None)

lemma rec_map_names: "distinct (map pr_pid rs) \<Longrightarrow> (\<exists>p vs. rec_map rs p = Some (n, vs)) \<longleftrightarrow> n \<in> pr_name ` set rs"
  by (auto simp: rec_map_def find_key_iff)

lemma link_map_append: "link_map (ls @ [l]) = (\<lambda>n. if link_map ls n = None \<and> n = lr_name l then Some (lr_src l, lr_dst l) else link_map ls n)"
proof
  fix n
  show "link_map (ls @ [l]) n = (if link_map ls n = None \<and> n = lr_name l then Some (lr_src l, lr_dst l) else link_map ls n)"
    by (induction ls) (auto simp: link_map_def)
qed

lemma link_map_filter:
  assumes "distinct (map lr_name ls)"
  shows "link_map (filter P ls) n = (case find (\<lambda>l. lr_name l = n) ls of None \<Rightarrow> None | Some l \<Rightarrow> if P l then Some (lr_src l, lr_dst l) else None)"
  using assms
proof (induction ls)
  case (Cons l ls)
  show ?case
  proof (cases "lr_name l = n")
    case True
    then have "find (\<lambda>l. lr_name l = n) (filter P ls) = None" using Cons.prems by (auto simp: find_key_None)
    with True show ?thesis by (simp add: link_map_def)
  next
    case False
    with Cons show ?thesis by (simp add: link_map_def)
  qed
qed (simp add: link_map_def)

lemma sorted_insort_strict:
  "sorted_wrt (<) (map f xs) \<Longrightarrow> f x \<notin> f ` set xs \<Longrightarrow> sorted_wrt (<) (map f (insort_key f x xs))" for f :: "'a \<Rightarrow> 'b::linorder"
  by (induction xs) (auto simp: set_insort_key)

lemma agg_inv_erase: "agg_inv a \<Longrightarrow> agg_inv (a\<lparr>pid_records := erase_record p (pid_records a), link_records := filter P (link_records a)\<rparr>)"
  by (auto simp: agg_inv_def erase_record_def sorted_wrt_filter distinct_map_filter sorted_wrt_map)

datatype agg_op =
    Agg_Add string pid name_set
  | Agg_Remove pid
  | Agg_Set_Vertices pid name_set
  | Agg_Add_Vertices pid name_set
  | Agg_Remove_Vertices pid name_set
  | Agg_Clear_Vertices pid
  | Agg_Define_Link string pid pid
  | Agg_Undefine_Link string

fun agg_step :: "aggregation \<Rightarrow> agg_op \<Rightarrow> (aggregation \<times> bool) result" where
  "agg_step a (Agg_Add n p vs) = agg_add a n p vs"
| "agg_step a (Agg_Remove p) = agg_remove a p"
| "agg_step a (Agg_Set_Vertices p vs) = set_vertices a p vs"
| "agg_step a (Agg_Add_Vertices p vs) = add_vertices a p vs"
| "agg_step a (Agg_Remove_Vertices p vs) = remove_vertices a p vs"
| "agg_step a (Agg_Clear_Vertices p) = clear_vertices a p"
| "agg_step a (Agg_Define_Link n src dst) = define_link a n src dst"
| "agg_step a (Agg_Undefine_Link n) = undefine_link a n"

fun agg_run :: "aggregation \<Rightarrow> agg_op list \<Rightarrow> (aggregation \<times> bool list) result" where
  "agg_run a [] = Inr (a, [])"
| "agg_run a (op # ops) = bindE (agg_step a op) (\<lambda>(a', b). bindE (agg_run a' ops) (\<lambda>(a'', bs). Inr (a'', b # bs)))"

text \<open>The reference: a map from PIDs to a name and nodes, with different names, and a map from names of links.\<close>

definition with_nodes :: "(string set \<Rightarrow> string set) \<Rightarrow> agg_maps \<Rightarrow> pid \<Rightarrow> agg_maps \<times> bool" where
  "with_nodes f m p = (case m of (P, L) \<Rightarrow>
     (case P p of None \<Rightarrow> ((P, L), False) | Some (n, vs) \<Rightarrow> ((P(p \<mapsto> (n, f vs)), L), True)))"

fun maps_step :: "agg_maps \<Rightarrow> agg_op \<Rightarrow> agg_maps \<times> bool" where
  "maps_step (P, L) (Agg_Add n p vs) =
     (if P p \<noteq> None \<or> (\<exists>q ws. P q = Some (n, ws)) then ((P, L), False) else ((P(p \<mapsto> (n, fst ` set vs)), L), True))"
| "maps_step (P, L) (Agg_Remove p) =
     (if P p = None then ((P, L), False)
      else ((P(p := None), \<lambda>n. case L n of None \<Rightarrow> None | Some (s, d) \<Rightarrow> if s = p \<or> d = p then None else Some (s, d)), True))"
| "maps_step m (Agg_Set_Vertices p vs) = with_nodes (\<lambda>_. fst ` set vs) m p"
| "maps_step m (Agg_Add_Vertices p vs) = with_nodes (\<lambda>old. old \<union> fst ` set vs) m p"
| "maps_step m (Agg_Remove_Vertices p vs) = with_nodes (\<lambda>old. old - fst ` set vs) m p"
| "maps_step m (Agg_Clear_Vertices p) = with_nodes (\<lambda>_. {}) m p"
| "maps_step (P, L) (Agg_Define_Link n s d) = (if L n \<noteq> None then ((P, L), False) else ((P, L(n \<mapsto> (s, d))), True))"
| "maps_step (P, L) (Agg_Undefine_Link n) = ((P, L(n := None)), L n \<noteq> None)"

fun maps_run :: "agg_maps \<Rightarrow> agg_op list \<Rightarrow> agg_maps \<times> bool list" where
  "maps_run m [] = (m, [])"
| "maps_run m (op # ops) = (let (m', b) = maps_step m op; (m'', bs) = maps_run m' ops in (m'', b # bs))"

lemma agg_inv_distinct: "agg_inv a \<Longrightarrow> distinct (map pr_pid (pid_records a))"
  by (simp add: agg_inv_def strict_sorted_iff)

lemma agg_ok_step:
  assumes "agg_inv (a\<lparr>pid_records := rs, link_records := ls\<rparr>)" "writing a"
  shows "\<exists>a'. changed (a\<lparr>pid_records := rs, link_records := ls\<rparr>) = Inr a' \<and> agg_ok a' \<and> agg_abs a' = (rec_map rs, link_map ls)"
  using assms by (auto simp: changed_writing agg_ok_def agg_inv_def agg_abs_def)

lemma agg_inv_insert:
  assumes "agg_inv a" "pr_name r \<notin> pr_name ` set (pid_records a)" "pr_pid r \<notin> pr_pid ` set (pid_records a)"
  shows "agg_inv (a\<lparr>pid_records := insort_key pr_pid r (pid_records a)\<rparr>)"
    "insert_record r (pid_records a) = insort_key pr_pid r (pid_records a)"
proof -
  have "distinct (map pr_name (insort_key pr_pid r rs)) \<longleftrightarrow> pr_name r \<notin> pr_name ` set rs \<and> distinct (map pr_name rs)" for rs
    by (induction rs) (auto simp: set_insort_key)
  then show "agg_inv (a\<lparr>pid_records := insort_key pr_pid r (pid_records a)\<rparr>)"
    using assms sorted_insort_strict [of pr_pid "pid_records a" r] by (simp add: agg_inv_def)
  show "insert_record r (pid_records a) = insort_key pr_pid r (pid_records a)"
    using assms(2,3) by (auto simp: insert_record_def rev_image_eqI)
qed

lemma replace_vertices_refines:
  assumes "agg_ok a" "\<And>s. fst ` set (f s) = g (fst ` set s)"
  shows "\<exists>a' b. replace_vertices f a p = Inr (a', b) \<and> agg_ok a' \<and> with_nodes g (agg_abs a) p = (agg_abs a', b)"
proof (cases "find_pid_record a p")
  case None
  then show ?thesis using assms(1) by (auto simp: replace_vertices_def with_nodes_def agg_abs_def rec_map_def find_pid_record_def)
next
  case (Some r)
  let ?r = "r\<lparr>pr_vertices := f (pr_vertices r)\<rparr>" and ?e = "a\<lparr>pid_records := erase_record p (pid_records a)\<rparr>"
  have inv: "agg_inv a" "writing a" using assms(1) by (auto simp: agg_ok_def)
  have r: "r \<in> set (pid_records a)" "pr_pid r = p"
    using Some find_key_iff [OF agg_inv_distinct [OF inv(1)]] by (auto simp: find_pid_record_def)
  have e: "agg_inv ?e" using agg_inv_erase [OF inv(1), where p = p and P = "\<lambda>_. True"] by simp
  have "pr_name r \<notin> pr_name ` set (erase_record p (pid_records a))"
    using r inv(1) by (auto simp: erase_record_def agg_inv_def distinct_map inj_on_def)
  moreover have "pr_pid r \<notin> pr_pid ` set (erase_record p (pid_records a))" using r(2) by (auto simp: erase_record_def)
  ultimately have ins: "agg_inv (?e\<lparr>pid_records := insort_key pr_pid ?r (erase_record p (pid_records a))\<rparr>)"
      "insert_record ?r (erase_record p (pid_records a)) = insort_key pr_pid ?r (erase_record p (pid_records a))"
      "pr_pid ?r \<notin> pr_pid ` set (erase_record p (pid_records a))"
    using agg_inv_insert [OF e, of ?r] by simp_all
  have "rec_map (insort_key pr_pid ?r (erase_record p (pid_records a))) = (rec_map (pid_records a))(p \<mapsto> (pr_name r, g (fst ` set (pr_vertices r))))"
    unfolding rec_map_insort [OF ins(3)] rec_map_erase using r(2) assms(2) by simp
  moreover have "rec_map (pid_records a) p = Some (pr_name r, fst ` set (pr_vertices r))"
    using Some by (simp add: rec_map_def find_pid_record_def)
  ultimately show ?thesis
    using agg_ok_step [where a = a and rs = "insort_key pr_pid ?r (erase_record p (pid_records a))" and ls = "link_records a"] ins(1,2) inv(2) Some
    by (auto simp: replace_vertices_def with_nodes_def agg_abs_def)
qed

lemma fst_add_nodes: "fst ` set (foldl (\<lambda>s v. fst (smap_insert (fst v) () s)) old vs) = fst ` set old \<union> fst ` set vs"
proof (induction vs arbitrary: old)
  case (Cons v vs)
  have "fst ` set (fst (smap_insert (fst v) () old)) = insert (fst v) (fst ` set old)"
    by (auto simp: smap_insert_def smap_find_None_iff insert_absorb split: option.splits) (metis image_eqI option.distinct(1) smap_find_None_iff)
  with Cons show ?case by auto
qed simp

lemma fst_remove_nodes: "fst ` set (foldl (\<lambda>s v. smap_erase (fst v) s) old vs) = fst ` set old - fst ` set vs"
proof (induction vs arbitrary: old)
  case (Cons v vs)
  have "fst ` set (smap_erase (fst v) old) = fst ` set old - {fst v}" by (auto simp: set_smap_erase)
  with Cons show ?case by auto
qed simp

lemma agg_step_refines:
  assumes "agg_ok a"
  shows "\<exists>a' b. agg_step a op = Inr (a', b) \<and> agg_ok a' \<and> maps_step (agg_abs a) op = (agg_abs a', b)"
proof -
  have inv: "agg_inv a" "writing a" using assms by (auto simp: agg_ok_def)
  note d = agg_inv_distinct [OF inv(1)]
  have links: "distinct (map lr_name (link_records a))" using inv(1) by (simp add: agg_inv_def)
  show ?thesis
  proof (cases op)
    case (Agg_Add n p vs)
    let ?r = "\<lparr>pr_name = n, pr_pid = p, pr_vertices = vs\<rparr>"
    have cond: "agg_has a p \<or> agg_has_name a n \<longleftrightarrow> rec_map (pid_records a) p \<noteq> None \<or> (\<exists>q ws. rec_map (pid_records a) q = Some (n, ws))"
      using rec_map_names [OF d, of n] rec_map_dom [of "pid_records a" p]
      by (simp add: agg_has_def agg_has_name_def find_pid_record_def find_name_record_def find_key_None)
    show ?thesis
    proof (cases "agg_has a p \<or> agg_has_name a n")
      case True
      then show ?thesis using Agg_Add assms cond by (auto simp: agg_add_def agg_abs_def)
    next
      case False
      then have new: "n \<notin> pr_name ` set (pid_records a)" "p \<notin> pr_pid ` set (pid_records a)"
        by (simp_all add: agg_has_def agg_has_name_def find_pid_record_def find_name_record_def find_key_None)
      note ins = agg_inv_insert [OF inv(1), of ?r]
      show ?thesis
        using Agg_Add False cond new ins agg_ok_step [where a = a and rs = "insort_key pr_pid ?r (pid_records a)" and ls = "link_records a"] inv(2) rec_map_insort [of ?r "pid_records a"]
        by (auto simp: agg_add_def agg_abs_def)
    qed
  next
    case (Agg_Remove p)
    show ?thesis
    proof (cases "find_pid_record a p")
      case None
      then show ?thesis using Agg_Remove assms by (auto simp: agg_remove_def agg_abs_def rec_map_def find_pid_record_def)
    next
      case (Some r)
      let ?ls = "filter (\<lambda>l. lr_dst l \<noteq> p) (filter (\<lambda>l. lr_src l \<noteq> p) (link_records a))"
      have l: "link_map ?ls = (\<lambda>n. case link_map (link_records a) n of None \<Rightarrow> None | Some (s, d) \<Rightarrow> if s = p \<or> d = p then None else Some (s, d))"
        using link_map_filter [OF links, of "\<lambda>l. lr_src l \<noteq> p \<and> lr_dst l \<noteq> p"]
        by (auto simp: fun_eq_iff link_map_def conj_commute split: option.splits)
      have "agg_inv (a\<lparr>pid_records := erase_record p (pid_records a), link_records := ?ls\<rparr>)"
        using agg_inv_erase [OF inv(1), where p = p and P = "\<lambda>l. lr_src l \<noteq> p \<and> lr_dst l \<noteq> p"] by (simp add: conj_commute)
      from agg_ok_step [OF this inv(2)] show ?thesis
        using Agg_Remove Some l by (auto simp: agg_remove_def agg_abs_def rec_map_erase rec_map_def find_pid_record_def)
    qed
  next
    case (Agg_Define_Link n s e)
    have "agg_inv (a\<lparr>pid_records := pid_records a, link_records := link_records a @ [\<lparr>lr_name = n, lr_src = s, lr_dst = e\<rparr>]\<rparr>)"
      if "find_link a n = None" using that inv(1) by (auto simp: agg_inv_def find_link_def find_key_None)
    then show ?thesis
      using Agg_Define_Link assms inv(2) agg_ok_step [where a = a and rs = "pid_records a" and ls = "link_records a @ [\<lparr>lr_name = n, lr_src = s, lr_dst = e\<rparr>]"]
      by (cases "find_link a n") (auto simp: define_link_def agg_abs_def link_map_append link_map_def find_link_def fun_eq_iff)
  next
    case (Agg_Undefine_Link n)
    let ?ls = "filter (\<lambda>l. lr_name l \<noteq> n) (link_records a)"
    have l: "link_map ?ls = (link_map (link_records a))(n := None)"
    proof
      fix k
      show "link_map ?ls k = ((link_map (link_records a))(n := None)) k"
      proof (cases "find (\<lambda>l. lr_name l = k) (link_records a)")
        case (Some l)
        then have "lr_name l = k" using find_key_iff [OF links, of k l] by simp
        with Some show ?thesis unfolding link_map_filter [OF links] by (simp add: link_map_def)
      qed (simp add: link_map_filter [OF links], simp add: link_map_def)
    qed
    have "agg_inv (a\<lparr>pid_records := pid_records a, link_records := ?ls\<rparr>)" using inv(1) by (simp add: agg_inv_def distinct_map_filter)
    then obtain a' where a': "changed (a\<lparr>link_records := ?ls\<rparr>) = Inr a'" "agg_ok a'" "agg_abs a' = (rec_map (pid_records a), link_map ?ls)"
      using agg_ok_step [where a = a and rs = "pid_records a" and ls = ?ls] inv(2) by auto
    show ?thesis
    proof (cases "find_link a n")
      case None
      then have "link_map (link_records a) n = None" by (simp add: link_map_def find_link_def)
      then have "(link_map (link_records a))(n := None) = link_map (link_records a)" by (simp add: fun_upd_idem)
      then show ?thesis
        using None Agg_Undefine_Link assms \<open>link_map (link_records a) n = None\<close> by (auto simp: undefine_link_def agg_abs_def)
    next
      case (Some l)
      then have "link_map (link_records a) n \<noteq> None" by (simp add: link_map_def find_link_def)
      then show ?thesis using Some a' Agg_Undefine_Link l by (auto simp: undefine_link_def agg_abs_def)
    qed
  next
    case (Agg_Set_Vertices p vs)
    then show ?thesis using replace_vertices_refines [OF assms, where f = "\<lambda>_. vs"] by (simp add: set_vertices_def)
  next
    case (Agg_Add_Vertices p vs)
    show ?thesis
      unfolding Agg_Add_Vertices agg_step.simps maps_step.simps add_vertices_def by (rule replace_vertices_refines [OF assms]) (rule fst_add_nodes)
  next
    case (Agg_Remove_Vertices p vs)
    show ?thesis
      unfolding Agg_Remove_Vertices agg_step.simps maps_step.simps remove_vertices_def by (rule replace_vertices_refines [OF assms]) (rule fst_remove_nodes)
  next
    case (Agg_Clear_Vertices p)
    then show ?thesis using replace_vertices_refines [OF assms, where f = "\<lambda>_. []"] by (simp add: clear_vertices_def)
  qed
qed

lemma lookup_reverse:
  assumes "agg_inv a"
  shows "reverse_lookup a p = Some n \<longleftrightarrow> agg_has_name a n \<and> agg_lookup a n = p"
proof -
  have names: "distinct (map pr_name (pid_records a))" using assms by (simp add: agg_inv_def)
  have rev: "reverse_lookup a p = Some n \<longleftrightarrow> (\<exists>r\<in>set (pid_records a). pr_pid r = p \<and> pr_name r = n)"
    by (auto simp: reverse_lookup_def find_pid_record_def find_key_iff [OF agg_inv_distinct [OF assms]])
  show ?thesis
  proof (cases "find_name_record a n")
    case None
    then show ?thesis unfolding rev by (auto simp: find_name_record_def find_key_None agg_has_name_def)
  next
    case (Some r)
    then have r: "r \<in> set (pid_records a)" "pr_name r = n" by (auto simp: find_name_record_def find_key_iff [OF names])
    have "r' = r" if "r' \<in> set (pid_records a)" "pr_name r' = n" for r'
      using that r names inj_onD [of pr_name "set (pid_records a)" r' r] by (simp add: distinct_map)
    then show ?thesis unfolding rev using r Some by (metis (no_types, lifting) agg_has_name_def agg_lookup_def option.distinct(1) option.simps(5))
  qed
qed

text \<open>
  Property C24. Under a write lock, every sequence of operations on the aggregation of a view runs without an
  error and does to the two maps what the reference does, results included; removing a PID removes with it
  exactly the links that start or end there. In every state names and PIDs correspond: the PID of a name has
  this name, and no other PID has it.
\<close>
theorem aggregation_refines:
  assumes "agg_ok a"
  shows "\<exists>a' bs. agg_run a ops = Inr (a', bs) \<and> agg_ok a' \<and> maps_run (agg_abs a) ops = (agg_abs a', bs) \<and>
    (\<forall>p n. reverse_lookup a' p = Some n \<longleftrightarrow> agg_has_name a' n \<and> agg_lookup a' n = p)"
  using assms
proof (induction ops arbitrary: a)
  case Nil
  then show ?case using lookup_reverse by (auto simp: agg_ok_def)
next
  case (Cons op ops)
  obtain a1 b where 1: "agg_step a op = Inr (a1, b)" "agg_ok a1" "maps_step (agg_abs a) op = (agg_abs a1, b)"
    using agg_step_refines [OF Cons.prems] by blast
  obtain a2 bs where "agg_run a1 ops = Inr (a2, bs)" "agg_ok a2" "maps_run (agg_abs a1) ops = (agg_abs a2, bs)"
      "\<forall>p n. reverse_lookup a2 p = Some n \<longleftrightarrow> agg_has_name a2 n \<and> agg_lookup a2 n = p"
    using Cons.IH [OF 1(2)] by blast
  with 1 show ?case by simp
qed

text \<open>The copy a transaction works on has the PIDs but none of the links.\<close>

theorem aggregation_copy_loses_links:
  "pid_records (agg_copy garbage a) = pid_records a \<and> get_link (agg_copy garbage a) n = None"
  by (simp add: agg_copy_def PIDAggregation_def get_link_def find_link_def dist_object.defs DistributedObject_def local_object.defs LocalObject_def)

theorem aggregation_refines_witness:
  "let a = PID ''isp'' 1 False; b = PID ''isp'' 2 False in
   agg_ok (PIDAggregation 0\<lparr>writing := True\<rparr>) \<and>
   (\<exists>g. agg_run (PIDAggregation 0\<lparr>writing := True\<rparr>)
      [Agg_Add ''A'' a [], Agg_Add ''A'' b [], Agg_Add ''B'' b [], Agg_Define_Link ''l'' a b, Agg_Remove b] =
        Inr (g, [True, False, True, True, True]) \<and> link_map (link_records g) ''l'' = None)"
proof -
  let ?a = "PID ''isp'' 1 False" and ?b = "PID ''isp'' 2 False"
  let ?m = "PIDAggregation 0\<lparr>writing := True\<rparr>"
  let ?ops = "[Agg_Add ''A'' ?a [], Agg_Add ''A'' ?b [], Agg_Add ''B'' ?b [], Agg_Define_Link ''l'' ?a ?b, Agg_Remove ?b]"
  note d = PIDAggregation_def DistributedObject_def LocalObject_def dist_object.defs local_object.defs
  have ok: "agg_ok ?m" by (simp add: agg_ok_def agg_inv_def d)
  have ini: "agg_abs ?m = (Map.empty, Map.empty)" by (simp add: agg_abs_def d rec_map_def link_map_def fun_eq_iff)
  obtain g bs where r: "agg_run ?m ?ops = Inr (g, bs)" "maps_run (agg_abs ?m) ?ops = (agg_abs g, bs)"
    using aggregation_refines [OF ok, of ?ops] by blast
  from r(2) have "bs = [True, False, True, True, True]" "snd (agg_abs g) ''l'' = None"
    unfolding ini by (auto dest!: arg_cong [where f = "\<lambda>t. snd t ''l''"] split: if_splits)
  then show ?thesis using ok r(1) by (simp add: agg_abs_def Let_def)
qed

end
