(* ===== verification/Job_Queue.thy ===== *)
theory Job_Queue
  imports P4P_Prelude
begin

text \<open>
  \<open>common-server/src/lib/job_queue.cpp\<close> and \<open>portal/server/src/jobs/view_update_job.cpp\<close>: the queue of jobs
  that the worker threads of the portal server take when their deadline has passed. The queue is a
  \<open>std::set\<close> ordered by deadline alone, so two jobs with the same deadline are the same key. The only jobs
  are updates of views, known by the name of the view. Times are in microseconds, the resolution of
  \<open>boost::system_time\<close>; the result of an update and the clock are arguments.
\<close>

record view_job =
  job_deadline :: int
  job_view :: string
  job_interval :: u32

definition ViewUpdateJob :: "int \<Rightarrow> string \<Rightarrow> view_job" where
  "ViewUpdateJob deadline name = \<lparr>job_deadline = deadline, job_view = name, job_interval = 0\<rparr>"

definition job_equals :: "view_job \<Rightarrow> view_job \<Rightarrow> bool" where
  "job_equals j k \<longleftrightarrow> job_view j = job_view k"

definition job_before :: "view_job \<Rightarrow> view_job \<Rightarrow> bool" where
  "job_before j k \<longleftrightarrow> job_deadline j < job_deadline k"

record job_queue =
  pool_size :: u32
  threads :: nat
  jobs :: "view_job list"
  is_stopping :: bool

definition JobQueue :: "u32 \<Rightarrow> job_queue" where
  "JobQueue n = \<lparr>pool_size = n, threads = 0, jobs = [], is_stopping = False\<rparr>"

definition jq_start :: "job_queue \<Rightarrow> job_queue result" where
  "jq_start q =
     (if threads q > 0 then Inl (Runtime_Error ''Illegal state: JobQueue already started'')
      else Inr (q\<lparr>threads := unat (pool_size q)\<rparr>))"

definition jq_stop :: "job_queue \<Rightarrow> job_queue" where
  "jq_stop q = q\<lparr>is_stopping := True\<rparr>"

definition jq_length :: "job_queue \<Rightarrow> nat" where
  "jq_length q = length (jobs q)"

text \<open>\<open>insert\<close> of the set: no effect when a job with the same deadline is there.\<close>

fun set_insert :: "view_job \<Rightarrow> view_job list \<Rightarrow> view_job list" where
  "set_insert j [] = [j]"
| "set_insert j (k # ks) =
     (if job_before j k then j # k # ks
      else if job_before k j then k # set_insert j ks
      else k # ks)"

text \<open>
  The loop that looks for a duplicate: \<open>None\<close> is the early return, and otherwise the queue without the
  duplicate that the new job replaces.
\<close>

fun scan_duplicates :: "view_job \<Rightarrow> view_job list \<Rightarrow> view_job list option" where
  "scan_duplicates j [] = Some []"
| "scan_duplicates j (k # ks) =
     (if \<not> job_equals j k then map_option (Cons k) (scan_duplicates j ks)
      else if job_before j k then Some ks
      else None)"

definition enqueue :: "job_queue \<Rightarrow> view_job option \<Rightarrow> job_queue result" where
  "enqueue q job =
     (case job of
        None \<Rightarrow> Inl (Runtime_Error ''Illegal state: Tried to insert NULL job into JobQueue'')
      | Some j \<Rightarrow>
          (case scan_duplicates j (jobs q) of
             None \<Rightarrow> Inr q
           | Some ks \<Rightarrow> Inr (q\<lparr>jobs := set_insert j ks\<rparr>)))"

text \<open>What a worker gets at a time: it waits, or the queue is stopping, or it takes the first job.\<close>

datatype dequeued = Waits | Stopped | Takes view_job

definition dequeue :: "int \<Rightarrow> job_queue \<Rightarrow> job_queue \<times> dequeued" where
  "dequeue now q =
     (if is_stopping q then (q, Stopped)
      else (case jobs q of
              [] \<Rightarrow> (q, Waits)
            | j # js \<Rightarrow> if now < job_deadline j then (q, Waits) else (q\<lparr>jobs := js\<rparr>, Takes j)))"

definition make_next :: "int \<Rightarrow> view_job \<Rightarrow> view_job option" where
  "make_next now j =
     (if job_interval j = 0 then None
      else Some (ViewUpdateJob (now + 1000000 * int (unat (job_interval j))) (job_view j)))"

definition reschedule :: "int \<Rightarrow> job_queue \<Rightarrow> view_job \<Rightarrow> (job_queue \<times> bool) result" where
  "reschedule now q j =
     (case make_next now j of
        None \<Rightarrow> Inr (q, False)
      | Some k \<Rightarrow> bindE (enqueue q (Some k)) (\<lambda>q'. Inr (q', True)))"

text \<open>
  \<open>run\<close>: the update of a view returns its interval, or 0 when it failed; for a view that does not exist
  any more there is no update. The interval is stored in the job.
\<close>

definition run_job :: "(string \<Rightarrow> u32 option) \<Rightarrow> int \<Rightarrow> job_queue \<Rightarrow> view_job \<Rightarrow> job_queue result" where
  "run_job update now q j =
     (case update (job_view j) of
        None \<Rightarrow> Inr q
      | Some interval \<Rightarrow>
          (if interval > 0 then bindE (reschedule now q (j\<lparr>job_interval := interval\<rparr>)) (\<lambda>(q', _). Inr q') else Inr q))"

text \<open>\<open>View::on_update\<close> in \<open>view.cpp\<close>: an update is scheduled when the view has an interval.\<close>

definition schedule_view :: "int \<Rightarrow> job_queue \<Rightarrow> string \<Rightarrow> u32 \<Rightarrow> job_queue result" where
  "schedule_view now q name interval =
     (if interval > 0 then enqueue q (Some (ViewUpdateJob (now + 1000000 * int (unat interval)) name)) else Inr q)"

section \<open>The queue as a schedule\<close>

definition jq_inv :: "view_job list \<Rightarrow> bool" where
  "jq_inv js \<longleftrightarrow> sorted_wrt (<) (map job_deadline js) \<and> distinct (map job_view js)"

definition due :: "view_job list \<Rightarrow> string \<rightharpoonup> int" where
  "due js = map_of (map (\<lambda>j. (job_view j, job_deadline j)) js)"

lemma jq_inv_simps [simp]:
  "jq_inv []"
  "jq_inv (j # js) \<longleftrightarrow> (\<forall>k\<in>set js. job_deadline j < job_deadline k) \<and> job_view j \<notin> job_view ` set js \<and> jq_inv js"
  by (auto simp: jq_inv_def)

lemma due_simps [simp]: "due [] = Map.empty" "due (j # js) = (due js)(job_view j \<mapsto> job_deadline j)"
  by (simp_all add: due_def)

lemma due_None: "due js v = None \<longleftrightarrow> v \<notin> job_view ` set js"
  by (auto simp: due_def map_of_eq_None_iff image_image)

lemma due_Some: "due js v = Some t \<Longrightarrow> \<exists>j\<in>set js. job_view j = v \<and> job_deadline j = t"
  by (fastforce simp: due_def dest: map_of_SomeD)

lemma scan_spec:
  assumes "jq_inv js"
  shows "case due js (job_view j) of
      None \<Rightarrow> scan_duplicates j js = Some js
    | Some t \<Rightarrow> if job_deadline j < t
        then \<exists>ks. scan_duplicates j js = Some ks \<and> jq_inv ks \<and> due ks = (due js)(job_view j := None) \<and> set ks \<subseteq> set js
        else scan_duplicates j js = None"
  using assms
proof (induction js)
  case (Cons k js)
  show ?case
  proof (cases "job_view j = job_view k")
    case True
    have "due js (job_view k) = None" using Cons.prems by (simp add: due_None)
    with True Cons.prems show ?thesis by (auto simp: job_equals_def job_before_def fun_eq_iff)
  next
    case False
    show ?thesis
    proof (cases "due js (job_view j)")
      case None
      with False Cons show ?thesis by (simp add: job_equals_def)
    next
      case (Some t)
      show ?thesis
      proof (cases "job_deadline j < t")
        case True
        then obtain ks where ks: "scan_duplicates j js = Some ks" "jq_inv ks" "due ks = (due js)(job_view j := None)" "set ks \<subseteq> set js"
          using Cons Some by auto
        then have "jq_inv (k # ks)" using Cons.prems by auto
        then show ?thesis using ks False Some True by (auto simp: job_equals_def fun_upd_twist)
      next
        case False
        with \<open>job_view j \<noteq> job_view k\<close> Cons Some show ?thesis by (simp add: job_equals_def)
      qed
    qed
  qed
qed simp

lemma set_insert_spec:
  assumes "jq_inv js" "due js (job_view j) = None"
  shows "if \<exists>k\<in>set js. job_deadline k = job_deadline j then set_insert j js = js
    else jq_inv (set_insert j js) \<and> set (set_insert j js) = insert j (set js) \<and> due (set_insert j js) = (due js)(job_view j \<mapsto> job_deadline j)"
  using assms
proof (induction js)
  case (Cons k js)
  have v: "job_view j \<noteq> job_view k" "due js (job_view j) = None" using Cons.prems(2) by (auto split: if_splits)
  consider "job_deadline j < job_deadline k" | "job_deadline k < job_deadline j" | "job_deadline k = job_deadline j" by linarith
  then show ?case
  proof cases
    case 1
    then have "\<not> (\<exists>l\<in>set (k # js). job_deadline l = job_deadline j)" using Cons.prems(1) by fastforce
    then show ?thesis using 1 Cons.prems v by (auto simp: job_before_def due_None)
  next
    case 2
    then show ?thesis using Cons v by (auto simp: job_before_def fun_upd_twist)
  next
    case 3
    then show ?thesis by (auto simp: job_before_def)
  qed
qed simp

text \<open>
  Queuing the update of a view, when no job of another view has the same deadline, leaves
  every other view its job and gives the view the earlier of its old and its new deadline; the queue stays
  in the order of the deadlines with one job for each view.
\<close>
theorem enqueue_earliest:
  assumes "jq_inv (jobs q)" "\<forall>k\<in>set (jobs q). job_deadline k = job_deadline j \<longrightarrow> job_view k = job_view j"
  shows "\<exists>q'. enqueue q (Some j) = Inr q' \<and> jq_inv (jobs q') \<and>
    due (jobs q') = (due (jobs q))(job_view j \<mapsto> (case due (jobs q) (job_view j) of None \<Rightarrow> job_deadline j | Some t \<Rightarrow> min t (job_deadline j)))"
proof (cases "due (jobs q) (job_view j)")
  case None
  then have "\<not> (\<exists>k\<in>set (jobs q). job_deadline k = job_deadline j)" using assms(2) unfolding due_None by (metis image_eqI)
  then show ?thesis using None scan_spec [OF assms(1), of j] set_insert_spec [OF assms(1) None] by (simp add: enqueue_def)
next
  case (Some t)
  show ?thesis
  proof (cases "job_deadline j < t")
    case True
    then obtain ks where ks: "scan_duplicates j (jobs q) = Some ks" "jq_inv ks" "due ks = (due (jobs q))(job_view j := None)" "set ks \<subseteq> set (jobs q)"
      using Some scan_spec [OF assms(1), of j] by auto
    have "due ks (job_view j) = None" using ks(3) by simp
    moreover have "\<not> (\<exists>k\<in>set ks. job_deadline k = job_deadline j)"
      using assms(2) ks(4) \<open>due ks (job_view j) = None\<close> unfolding due_None by (metis image_eqI subsetD)
    ultimately show ?thesis using Some True ks set_insert_spec [OF ks(2)] by (auto simp: enqueue_def)
  next
    case False
    then have "(due (jobs q))(job_view j \<mapsto> t) = due (jobs q)" using Some by (simp add: fun_upd_idem)
    then show ?thesis using Some False scan_spec [OF assms(1), of j] assms(1) by (simp add: enqueue_def min_def)
  qed
qed

section \<open>A job that is lost\<close>

lemma enqueue_inv:
  assumes "jq_inv (jobs q)" "enqueue q (Some j) = Inr q'"
  shows "jq_inv (jobs q') \<and> dom (due (jobs q')) \<subseteq> insert (job_view j) (dom (due (jobs q))) \<and> is_stopping q' = is_stopping q"
proof (cases "scan_duplicates j (jobs q)")
  case None
  then show ?thesis using assms by (auto simp: enqueue_def)
next
  case (Some ks)
  have "jq_inv ks \<and> due ks (job_view j) = None \<and> dom (due ks) \<subseteq> dom (due (jobs q))"
    using Some scan_spec [OF assms(1), of j] assms(1) by (auto split: option.splits if_splits)
  then have ks: "jq_inv ks" "due ks (job_view j) = None" "dom (due ks) \<subseteq> dom (due (jobs q))" by auto
  have "dom (due (set_insert j ks)) \<subseteq> insert (job_view j) (dom (due ks)) \<and> jq_inv (set_insert j ks)"
    using ks(1) set_insert_spec [OF ks(1,2)] by (auto split: if_splits)
  moreover have "q' = q\<lparr>jobs := set_insert j ks\<rparr>" using Some assms(2) by (simp add: enqueue_def)
  ultimately show ?thesis using ks(3) by (simp; blast)
qed

text \<open>The running server: a worker takes a job and runs it, or an installed view is scheduled.\<close>

inductive jq_step :: "(int \<Rightarrow> string \<Rightarrow> u32 option) \<Rightarrow> string set \<Rightarrow> job_queue \<Rightarrow> job_queue \<Rightarrow> bool" for update installed where
  work: "dequeue now q = (q1, Takes j) \<Longrightarrow> run_job (update t) t' q1 j = Inr q2 \<Longrightarrow> jq_step update installed q q2"
| install: "v \<in> installed \<Longrightarrow> schedule_view now q v interval = Inr q' \<Longrightarrow> jq_step update installed q q'"
| stop: "jq_step update installed q (jq_stop q)"

lemma run_job_views:
  assumes "jq_inv (jobs q)" "run_job update now q j = Inr q'"
  shows "jq_inv (jobs q') \<and> dom (due (jobs q')) \<subseteq> insert (job_view j) (dom (due (jobs q)))"
proof (cases "q' = q")
  case False
  then obtain k where k: "enqueue q (Some k) = Inr q'" "job_view k = job_view j"
    using assms(2) by (auto simp: run_job_def reschedule_def make_next_def ViewUpdateJob_def bindE_eq_Inr split: option.splits if_splits)
  then show ?thesis using enqueue_inv [OF assms(1) k(1)] by simp
qed (use assms(1) in auto)

lemma jq_step_views:
  assumes "jq_step update installed q q'" "jq_inv (jobs q)"
  shows "jq_inv (jobs q') \<and> dom (due (jobs q')) \<subseteq> dom (due (jobs q)) \<union> installed"
  using assms
proof cases
  case (work now q1 j t t')
  then obtain js where js: "jobs q = j # js" "q1 = q\<lparr>jobs := js\<rparr>" by (auto simp: dequeue_def split: if_splits list.splits)
  then have "jq_inv (jobs q1)" "dom (due (jobs q1)) \<subseteq> dom (due (jobs q))" "job_view j \<in> dom (due (jobs q))" using assms(2) by auto
  with run_job_views [OF this(1) work(2)] show ?thesis by blast
next
  case (install v now interval)
  show ?thesis
  proof (cases "interval > 0")
    case True
    then have "enqueue q (Some (ViewUpdateJob (now + 1000000 * int (unat interval)) v)) = Inr q'" using install by (simp add: schedule_view_def)
    from enqueue_inv [OF assms(2) this] install(1) show ?thesis by (auto simp: ViewUpdateJob_def)
  next
    case False
    then show ?thesis using install assms(2) by (auto simp: schedule_view_def)
  qed
next
  case stop
  then show ?thesis using assms(2) by (auto simp: jq_stop_def)
qed

text \<open>
  Property C37. A job with the deadline of another view's job is lost: it is not queued, and if it was to
  replace a later job of its own view, that job is gone as well, so that the view has no job. From then on,
  unless the view is installed again, no run of the server ever updates it: jobs reschedule themselves only.
\<close>
theorem enqueue_loses_view:
  assumes "jq_inv (jobs q)" "k \<in> set (jobs q)" "job_view k \<noteq> job_view j" "job_deadline k = job_deadline j"
    and "\<forall>t. due (jobs q) (job_view j) = Some t \<longrightarrow> job_deadline j < t"
    and "job_view j \<notin> installed"
  shows "\<exists>q'. enqueue q (Some j) = Inr q' \<and> job_view j \<notin> dom (due (jobs q')) \<and>
    (\<forall>q''. (jq_step update installed)\<^sup>*\<^sup>* q' q'' \<longrightarrow> job_view j \<notin> dom (due (jobs q'')))"
proof -
  obtain ks where ks: "scan_duplicates j (jobs q) = Some ks" "jq_inv ks" "due ks = (due (jobs q))(job_view j := None)"
  proof (cases "due (jobs q) (job_view j)")
    case None
    then show ?thesis using scan_spec [OF assms(1), of j] assms(1) that [of "jobs q"] by (simp add: fun_upd_idem)
  next
    case (Some t)
    then show ?thesis using scan_spec [OF assms(1), of j] assms(5) that by auto
  qed
  have "due ks (job_view k) = Some (job_deadline k)"
    using ks(3) assms(1-3) by (auto simp: jq_inv_def due_def intro!: map_of_is_SomeI simp: comp_def)
  then have "\<exists>l\<in>set ks. job_deadline l = job_deadline j" using assms(4) due_Some [of ks "job_view k"] by auto
  then have "set_insert j ks = ks" using set_insert_spec [OF ks(2), of j] ks(3) by simp
  then have e: "enqueue q (Some j) = Inr (q\<lparr>jobs := ks\<rparr>)" using ks(1) by (simp add: enqueue_def)
  have "jq_inv (jobs q'') \<and> job_view j \<notin> dom (due (jobs q''))" if "(jq_step update installed)\<^sup>*\<^sup>* (q\<lparr>jobs := ks\<rparr>) q''" for q''
    using that
  proof induction
    case (step y z)
    then show ?case using jq_step_views [OF step(2)] assms(6) by blast
  qed (simp add: ks(2,3) dom_def)
  then show ?thesis using e ks(3) by auto
qed

theorem enqueue_loses_view_witness:
  "\<exists>q'. enqueue (JobQueue 1\<lparr>jobs := [ViewUpdateJob 5 ''A'', ViewUpdateJob 9 ''B'']\<rparr>) (Some (ViewUpdateJob 5 ''B'')) = Inr q' \<and>
    ''B'' \<notin> dom (due (jobs q'))"
  using enqueue_loses_view [of "JobQueue 1\<lparr>jobs := [ViewUpdateJob 5 ''A'', ViewUpdateJob 9 ''B'']\<rparr>" "ViewUpdateJob 5 ''A''" "ViewUpdateJob 5 ''B''" "{}" "\<lambda>_ _. None"]
  by (auto simp: ViewUpdateJob_def JobQueue_def)

end
