(* ===== verification/Server_PIDMap.thy ===== *)
theory Server_PIDMap
  imports Server_Objects Trie_Properties PID_Type
begin

text \<open>
  \<open>common-server/src/lib/pid_map.cpp\<close>: the IP prefixes of the PIDs of a view, a Patricia trie with the
  bookkeeping of a server object. Its version is the sequence number the portal sends to clients. The
  resolver behind the constructor of prefixes from text is a parameter.
\<close>

record server_pidmap = dist_object +
  sp_tree :: "pid patricia_trie"

definition PIDMap :: "u32 \<Rightarrow> server_pidmap result" where
  "PIDMap garbage = bindE PatriciaTrie (\<lambda>t. Inr (dist_object.extend (DistributedObject garbage) \<lparr>sp_tree = t\<rparr>))"

text \<open>\<open>changed\<close> is called when the trie reports success.\<close>

definition report :: "server_pidmap \<Rightarrow> (pid patricia_trie \<times> bool) result \<Rightarrow> (server_pidmap \<times> bool) result" where
  "report m r =
     bindE r (\<lambda>(t, res).
       if res then bindE (changed (m\<lparr>sp_tree := t\<rparr>)) (\<lambda>m'. Inr (m', True)) else Inr (m\<lparr>sp_tree := t\<rparr>, False))"

definition sp_add :: "server_pidmap \<Rightarrow> ip_prefix \<Rightarrow> pid \<Rightarrow> (server_pidmap \<times> bool) result" where
  "sp_add m pfx pid = report m (trie_add (sp_tree m) pfx pid)"

definition sp_remove :: "server_pidmap \<Rightarrow> ip_prefix \<Rightarrow> pid \<Rightarrow> (server_pidmap \<times> bool) result" where
  "sp_remove m pfx pid = report m (trie_remove (sp_tree m) pfx pid)"

definition sp_remove_pid :: "server_pidmap \<Rightarrow> pid \<Rightarrow> (server_pidmap \<times> bool) result" where
  "sp_remove_pid m pid = report m (trie_remove_val (sp_tree m) pid)"

definition sp_clear :: "server_pidmap \<Rightarrow> server_pidmap result" where
  "sp_clear m = bindE (trie_clear (sp_tree m)) (\<lambda>t. changed (m\<lparr>sp_tree := t\<rparr>))"

type_synonym resolver = "string \<Rightarrow> (int \<times> u8 list) option"

definition sp_add_text :: "resolver \<Rightarrow> u8 list \<Rightarrow> server_pidmap \<Rightarrow> string \<Rightarrow> nat \<Rightarrow> pid \<Rightarrow> (server_pidmap \<times> bool) result" where
  "sp_add_text gai uninit m address len pid =
     (let pfx = IPPrefix_text gai uninit address (to_ushort len) in
      if ip_eq pfx IPPrefix_INVALID then Inr (m, False) else sp_add m pfx pid)"

definition sp_remove_text :: "resolver \<Rightarrow> u8 list \<Rightarrow> server_pidmap \<Rightarrow> string \<Rightarrow> nat \<Rightarrow> pid \<Rightarrow> (server_pidmap \<times> bool) result" where
  "sp_remove_text gai uninit m address len pid =
     (let pfx = IPPrefix_text gai uninit address (to_ushort len) in
      if ip_eq pfx IPPrefix_INVALID then Inr (m, False) else sp_remove m pfx pid)"

definition sp_lookup :: "server_pidmap \<Rightarrow> ip_prefix \<Rightarrow> pid option result" where
  "sp_lookup m address = bindE (trie_lookup (sp_tree m) address False) (\<lambda>(v, _). Inr v)"

definition sp_lookup_text :: "resolver \<Rightarrow> u8 list \<Rightarrow> server_pidmap \<Rightarrow> string \<Rightarrow> pid option result" where
  "sp_lookup_text gai uninit m address =
     (let pfx = IPPrefix_text gai uninit address USHRT_MAX in
      if ip_eq pfx IPPrefix_INVALID then Inr None else sp_lookup m pfx)"

definition sp_has_prefixes :: "server_pidmap \<Rightarrow> pid \<Rightarrow> bool" where
  "sp_has_prefixes m pid = has_prefixes (sp_tree m) pid"

definition sp_get_prefixes :: "server_pidmap \<Rightarrow> pid \<Rightarrow> ip_prefix list result" where
  "sp_get_prefixes m pid = get_prefixes (sp_tree m) pid"

definition sp_enumerate :: "server_pidmap \<Rightarrow> (pid \<times> ip_prefix list) list \<Rightarrow> (pid \<times> ip_prefix list) list result" where
  "sp_enumerate m res = trie_enumerate (sp_tree m) res"

definition sp_copy :: "u32 \<Rightarrow> server_pidmap \<Rightarrow> server_pidmap result" where
  "sp_copy garbage m =
     bindE (PIDMap garbage) (\<lambda>n. bindE (copy_from (sp_tree n) (sp_tree m)) (\<lambda>t. Inr (n\<lparr>sp_tree := t\<rparr>)))"

section \<open>Sequences of operations\<close>

fun sp_step :: "server_pidmap \<Rightarrow> pid trie_op \<Rightarrow> (server_pidmap \<times> bool) result" where
  "sp_step m (Op_add p v) = sp_add m p v"
| "sp_step m (Op_remove p v) = sp_remove m p v"
| "sp_step m (Op_remove_val v) = sp_remove_pid m v"
| "sp_step m Op_clear = bindE (sp_clear m) (\<lambda>m'. Inr (m', True))"

fun sp_run :: "server_pidmap \<Rightarrow> pid trie_op list \<Rightarrow> (server_pidmap \<times> bool list) result" where
  "sp_run m [] = Inr (m, [])"
| "sp_run m (op # ops) = bindE (sp_step m op) (\<lambda>(m', r). bindE (sp_run m' ops) (\<lambda>(m'', rs). Inr (m'', r # rs)))"

lemma sp_step_report: "sp_step m op = report m (trie_step (sp_tree m) op)"
proof (cases op)
  case Op_clear
  then show ?thesis by (cases "trie_clear (sp_tree m)") (simp_all add: sp_clear_def report_def)
qed (simp_all add: sp_add_def sp_remove_def sp_remove_pid_def)

lemma sp_run_trie:
  assumes "trie_run (sp_tree m) ops = Inr (t, rs)" "writing m"
  shows "\<exists>m'. sp_run m ops = Inr (m', rs) \<and> sp_tree m' = t \<and> writing m' \<and>
    version m' = (if True \<in> set rs \<and> \<not> changed_fired m then version m + 1 else version m)"
  using assms
proof (induction ops arbitrary: m rs)
  case (Cons op ops)
  obtain t1 r rs' where t1: "trie_step (sp_tree m) op = Inr (t1, r)" "trie_run t1 ops = Inr (t, rs')" "rs = r # rs'"
    using Cons.prems(1) by (auto simp: bindE_eq_Inr)
  define m1 where "m1 = (if r then touched (m\<lparr>sp_tree := t1\<rparr>) else m\<lparr>sp_tree := t1\<rparr>)"
  have s: "sp_step m op = Inr (m1, r)"
    using t1(1) Cons.prems(2) by (simp add: sp_step_report report_def changed_writing m1_def)
  have m1: "sp_tree m1 = t1" "writing m1" "version m1 = (if r \<and> \<not> changed_fired m then version m + 1 else version m)"
      "changed_fired m1 = (r \<or> changed_fired m)"
    using Cons.prems(2) by (auto simp: m1_def touched_def)
  obtain m2 where "sp_run m1 ops = Inr (m2, rs')" "sp_tree m2 = t" "writing m2"
      "version m2 = (if True \<in> set rs' \<and> \<not> changed_fired m1 then version m1 + 1 else version m1)"
    using Cons.IH [of m1 rs'] t1(2) m1(1,2) by auto
  then show ?case using s t1(3) m1 by auto
qed simp

text \<open>
  A sequence of modifications of the prefixes of a view under one write lock does to the
  prefixes what the reference map does, and the sequence number of the view moves by one exactly when one
  of the modifications reported success.
\<close>
theorem server_pidmap_version:
  assumes "trie_inv fam (sp_tree m)" "writing m" "\<not> changed_fired m" "\<forall>op\<in>set ops. op_ok fam op"
    and "card (dom (trie_map (sp_tree m))) + length ops \<le> UINT_MAX"
  shows "\<exists>m' rs. sp_run m ops = Inr (m', rs) \<and> trie_inv fam (sp_tree m') \<and>
    map_run (trie_map (sp_tree m)) ops = (trie_map (sp_tree m'), rs) \<and>
    version m' = (if True \<in> set rs then version m + 1 else version m)"
proof -
  obtain t rs where t: "trie_run (sp_tree m) ops = Inr (t, rs)" "trie_inv fam t" "map_run (trie_map (sp_tree m)) ops = (trie_map t, rs)"
    using trie_run_spec [OF assms(1,4,5)] by blast
  then show ?thesis using sp_run_trie [OF t(1) assms(2)] assms(3) by auto
qed

text \<open>A copy has the same prefixes, but the version of the memory it was made in.\<close>

theorem server_pidmap_copy:
  assumes "trie_inv fam (sp_tree m)" "is_ip_family fam"
  shows "\<exists>m'. sp_copy garbage m = Inr m' \<and> trie_map (sp_tree m') = trie_map (sp_tree m) \<and> version m' = garbage"
proof -
  obtain t0 :: "pid patricia_trie" where t0: "PatriciaTrie = Inr t0" "trie_inv fam t0" using PatriciaTrie_spec [OF assms(2)] by blast
  from copy_from_spec [OF t0(2) assms(1)] show ?thesis
    by (auto simp: t0(1) sp_copy_def PIDMap_def dist_object.defs local_object.defs DistributedObject_def LocalObject_def)
qed

end
