(* ===== verification/Net_State.thy ===== *)
theory Net_State
  imports Server_Objects PID_Type Guidance_Options
begin

text \<open>
  \<open>common-server/src/lib/net_state.cpp\<close>: the network as a directed graph, with names for nodes and links. The
  graph is an adjacency list of the Boost library with at most one edge from a node to another; nodes and
  edges are in the order of their insertion. A vertex descriptor is an address, and an edge descriptor has
  the two addresses and that of the properties of the edge. An access through a descriptor of something
  that was removed is undefined; addresses are not reused in the model. The names are ordered maps to
  descriptors that the class keeps beside the graph.
\<close>

record vertex_props =
  vx_external :: bool
  vx_name :: string
  vx_pid :: pid

record edge_props =
  ed_name :: string
  ed_traffic :: double
  ed_capacity :: double

type_synonym net_vertex = nat
type_synonym net_edge = "net_vertex \<times> net_vertex \<times> nat"

record net_state = dist_object +
  nodes :: "(net_vertex \<times> vertex_props) list"
  edges :: "(net_edge \<times> edge_props) list"
  name_vert_map :: "(string, net_vertex) smap"
  name_edge_map :: "(string, net_edge) smap"
  next_addr :: nat

definition NetState :: "u32 \<Rightarrow> net_state" where
  "NetState garbage = dist_object.extend (DistributedObject garbage)
     \<lparr>nodes = [], edges = [], name_vert_map = [], name_edge_map = [], next_addr = 1\<rparr>"

section \<open>Properties of nodes and edges\<close>

definition vertex_at :: "net_state \<Rightarrow> net_vertex \<Rightarrow> vertex_props result" where
  "vertex_at s v = (case map_of (nodes s) v of None \<Rightarrow> Inl Undefined_Behaviour | Some x \<Rightarrow> Inr x)"

definition edge_at :: "net_state \<Rightarrow> net_edge \<Rightarrow> edge_props result" where
  "edge_at s e = (case map_of (edges s) e of None \<Rightarrow> Inl Undefined_Behaviour | Some x \<Rightarrow> Inr x)"

definition upd_assoc :: "('k \<times> 'v) list \<Rightarrow> 'k \<Rightarrow> ('v \<Rightarrow> 'v) \<Rightarrow> ('k \<times> 'v) list" where
  "upd_assoc xs k f = map (\<lambda>(k', x). if k' = k then (k', f x) else (k', x)) xs"

definition put_vertex :: "net_state \<Rightarrow> net_vertex \<Rightarrow> (vertex_props \<Rightarrow> vertex_props) \<Rightarrow> net_state result" where
  "put_vertex s v f = bindE (vertex_at s v) (\<lambda>_. Inr (s\<lparr>nodes := upd_assoc (nodes s) v f\<rparr>))"

definition put_edge :: "net_state \<Rightarrow> net_edge \<Rightarrow> (edge_props \<Rightarrow> edge_props) \<Rightarrow> net_state result" where
  "put_edge s e f = bindE (edge_at s e) (\<lambda>_. Inr (s\<lparr>edges := upd_assoc (edges s) e f\<rparr>))"

definition get_capacity :: "net_state \<Rightarrow> net_edge \<Rightarrow> double result" where
  "get_capacity s e = bindE (edge_at s e) (\<lambda>x. Inr (ed_capacity x))"

definition set_capacity :: "net_state \<Rightarrow> net_edge \<Rightarrow> double \<Rightarrow> net_state result" where
  "set_capacity s e v = bindE (put_edge s e (\<lambda>x. x\<lparr>ed_capacity := v\<rparr>)) changed"

definition get_traffic :: "net_state \<Rightarrow> net_edge \<Rightarrow> double result" where
  "get_traffic s e = bindE (edge_at s e) (\<lambda>x. Inr (ed_traffic x))"

definition set_traffic :: "net_state \<Rightarrow> net_edge \<Rightarrow> double \<Rightarrow> net_state result" where
  "set_traffic s e v = bindE (put_edge s e (\<lambda>x. x\<lparr>ed_traffic := v\<rparr>)) changed"

definition ns_get_external :: "net_state \<Rightarrow> net_vertex \<Rightarrow> bool result" where
  "ns_get_external s v = bindE (vertex_at s v) (\<lambda>x. Inr (vx_external x))"

definition set_external :: "net_state \<Rightarrow> net_vertex \<Rightarrow> bool \<Rightarrow> net_state result" where
  "set_external s v b = bindE (put_vertex s v (\<lambda>x. x\<lparr>vx_external := b\<rparr>)) changed"

definition get_name :: "net_state \<Rightarrow> net_vertex \<Rightarrow> string result" where
  "get_name s v = bindE (vertex_at s v) (\<lambda>x. Inr (vx_name x))"

text \<open>The old name is forgotten; \<open>insert\<close> has no effect when another node has the new name.\<close>

definition set_name :: "net_state \<Rightarrow> net_vertex \<Rightarrow> string \<Rightarrow> net_state result" where
  "set_name s v n =
     bindE (get_name s v) (\<lambda>old.
     bindE (put_vertex s v (\<lambda>x. x\<lparr>vx_name := n\<rparr>)) (\<lambda>s1.
       changed (s1\<lparr>name_vert_map := fst (smap_insert n v (smap_erase old (name_vert_map s)))\<rparr>)))"

definition get_edge_name :: "net_state \<Rightarrow> net_edge \<Rightarrow> string result" where
  "get_edge_name s e = bindE (edge_at s e) (\<lambda>x. Inr (ed_name x))"

definition set_edge_name :: "net_state \<Rightarrow> net_edge \<Rightarrow> string \<Rightarrow> net_state result" where
  "set_edge_name s e n =
     bindE (get_edge_name s e) (\<lambda>old.
     bindE (put_edge s e (\<lambda>x. x\<lparr>ed_name := n\<rparr>)) (\<lambda>s1.
       changed (s1\<lparr>name_edge_map := fst (smap_insert n e (smap_erase old (name_edge_map s)))\<rparr>)))"

definition get_pid :: "net_state \<Rightarrow> net_vertex \<Rightarrow> pid result" where
  "get_pid s v = bindE (vertex_at s v) (\<lambda>x. Inr (vx_pid x))"

definition set_pid :: "net_state \<Rightarrow> net_vertex \<Rightarrow> pid \<Rightarrow> net_state result" where
  "set_pid s v p = bindE (put_vertex s v (\<lambda>x. x\<lparr>vx_pid := p\<rparr>)) changed"

section \<open>Nodes and edges\<close>

definition get_node :: "net_state \<Rightarrow> string \<Rightarrow> net_vertex option" where
  "get_node s n = smap_find (name_vert_map s) n"

definition get_edge :: "net_state \<Rightarrow> string \<Rightarrow> net_edge option" where
  "get_edge s n = smap_find (name_edge_map s) n"

definition edge_between :: "net_state \<Rightarrow> net_vertex \<Rightarrow> net_vertex \<Rightarrow> net_edge option" where
  "edge_between s u v = map_option fst (find (\<lambda>((a, b, _), _). a = u \<and> b = v) (edges s))"

definition get_edge_by_names :: "net_state \<Rightarrow> string \<Rightarrow> string \<Rightarrow> net_edge option" where
  "get_edge_by_names s src dst =
     (case get_node s src of
        None \<Rightarrow> None
      | Some u \<Rightarrow> (case get_node s dst of None \<Rightarrow> None | Some v \<Rightarrow> edge_between s u v))"

definition new_vertex :: vertex_props where
  "new_vertex = \<lparr>vx_external = False, vx_name = [], vx_pid = PID [] 0 False\<rparr>"

definition add_node :: "net_state \<Rightarrow> string \<Rightarrow> (net_state \<times> net_vertex \<times> bool) result" where
  "add_node s n =
     (case get_node s n of
        Some v \<Rightarrow> Inr (s, v, False)
      | None \<Rightarrow>
          (let v = next_addr s in
           bindE (changed (s\<lparr>nodes := nodes s @ [(v, new_vertex\<lparr>vx_name := n\<rparr>)], next_addr := v + 1,
                             name_vert_map := fst (smap_insert n v (name_vert_map s))\<rparr>))
             (\<lambda>s'. Inr (s', v, True))))"

text \<open>\<open>boost::add_edge\<close>: the edge, and whether it is new. The graph has no parallel edges.\<close>

definition graph_add_edge :: "net_state \<Rightarrow> net_vertex \<Rightarrow> net_vertex \<Rightarrow> net_state \<times> net_edge \<times> bool" where
  "graph_add_edge s u v =
     (case edge_between s u v of
        Some e \<Rightarrow> (s, e, False)
      | None \<Rightarrow>
          (let e = (u, v, next_addr s) in
           (s\<lparr>edges := edges s @ [(e, \<lparr>ed_name = [], ed_traffic = 0, ed_capacity = 0\<rparr>)], next_addr := next_addr s + 1\<rparr>, e, True)))"

definition add_edge :: "net_state \<Rightarrow> net_vertex \<Rightarrow> net_vertex \<Rightarrow> (net_state \<times> net_edge \<times> bool) result" where
  "add_edge s u v =
     (case graph_add_edge s u v of (s1, e, fresh) \<Rightarrow>
        if \<not> fresh then Inr (s1, e, False)
        else bindE (set_traffic s1 e 0) (\<lambda>s2.
             bindE (set_capacity s2 e 1) (\<lambda>s3.
             bindE (changed s3) (\<lambda>s4. Inr (s4, e, True)))))"

definition add_edge_by_names :: "net_state \<Rightarrow> string \<Rightarrow> string \<Rightarrow> (net_state \<times> net_edge option \<times> bool) result" where
  "add_edge_by_names s src dst =
     (case get_node s src of
        None \<Rightarrow> Inr (s, None, False)
      | Some u \<Rightarrow>
          (case get_node s dst of
             None \<Rightarrow> Inr (s, None, False)
           | Some v \<Rightarrow> bindE (add_edge s u v) (\<lambda>(s', e, b). Inr (s', Some e, b))))"

text \<open>The edge leaves the graph; the names and the version are not touched.\<close>

definition remove_edge :: "net_state \<Rightarrow> net_edge \<Rightarrow> net_state result" where
  "remove_edge s e = bindE (edge_at s e) (\<lambda>_. Inr (s\<lparr>edges := filter (\<lambda>(d, _). d \<noteq> e) (edges s)\<rparr>))"

definition remove_edge_by_names :: "net_state \<Rightarrow> string \<Rightarrow> string \<Rightarrow> (net_state \<times> bool) result" where
  "remove_edge_by_names s src dst =
     (case get_edge_by_names s src dst of
        None \<Rightarrow> Inr (s, False)
      | Some e \<Rightarrow> bindE (remove_edge s e) (\<lambda>s'. Inr (s', True)))"

definition remove_vertex :: "net_state \<Rightarrow> net_vertex \<Rightarrow> net_state result" where
  "remove_vertex s v =
     bindE (get_name s v) (\<lambda>n.
       changed (s\<lparr>edges := filter (\<lambda>((a, b, _), _). a \<noteq> v \<and> b \<noteq> v) (edges s),
                  nodes := filter (\<lambda>(u, _). u \<noteq> v) (nodes s),
                  name_vert_map := smap_erase n (name_vert_map s)\<rparr>))"

definition remove_node :: "net_state \<Rightarrow> string \<Rightarrow> (net_state \<times> bool) result" where
  "remove_node s n =
     (case get_node s n of
        None \<Rightarrow> Inr (s, False)
      | Some v \<Rightarrow> bindE (remove_vertex s v) (\<lambda>s'. Inr (s', True)))"

section \<open>Aggregation\<close>

text \<open>The edge between the new node and a neighbour takes over, or adds up, the traffic and the capacity.\<close>

definition merge_edge :: "(double \<Rightarrow> double) \<Rightarrow> net_state \<Rightarrow> net_vertex \<Rightarrow> net_vertex \<Rightarrow> net_edge \<Rightarrow> net_state result" where
  "merge_edge fl s u v e =
     (case graph_add_edge s u v of (s1, e_new, fresh) \<Rightarrow>
        bindE (get_traffic s1 e) (\<lambda>t. bindE (get_traffic s1 e_new) (\<lambda>t_new.
        bindE (set_traffic s1 e_new (if fresh then t else fl (t_new + t))) (\<lambda>s2.
        bindE (get_capacity s2 e) (\<lambda>c. bindE (get_capacity s2 e_new) (\<lambda>c_new.
          set_capacity s2 e_new (if fresh then c else fl (c_new + c))))))))"

fun copy_in :: "(double \<Rightarrow> double) \<Rightarrow> net_vertex list \<Rightarrow> net_vertex \<Rightarrow> net_edge list \<Rightarrow> net_state \<Rightarrow> net_state result" where
  "copy_in fl vs r [] s = Inr s"
| "copy_in fl vs r (e # es) s =
     (if fst e \<in> set vs then copy_in fl vs r es s
      else bindE (merge_edge fl s (fst e) r e) (copy_in fl vs r es))"

fun copy_out :: "(double \<Rightarrow> double) \<Rightarrow> net_vertex list \<Rightarrow> net_vertex \<Rightarrow> net_edge list \<Rightarrow> net_state \<Rightarrow> net_state result" where
  "copy_out fl vs r [] s = Inr s"
| "copy_out fl vs r (e # es) s =
     (if fst (snd e) \<in> set vs then copy_out fl vs r es s
      else bindE (merge_edge fl s r (fst (snd e)) e) (copy_out fl vs r es))"

text \<open>The edge sets of a vertex, in the order of the other vertex.\<close>

definition in_edges :: "net_state \<Rightarrow> net_vertex \<Rightarrow> net_edge list" where
  "in_edges s v = sort_key fst (filter (\<lambda>(a, b, _). b = v) (map fst (edges s)))"

definition out_edges :: "net_state \<Rightarrow> net_vertex \<Rightarrow> net_edge list" where
  "out_edges s v = sort_key (\<lambda>e. fst (snd e)) (filter (\<lambda>(a, b, _). a = v) (map fst (edges s)))"

fun copy_edges :: "(double \<Rightarrow> double) \<Rightarrow> net_vertex list \<Rightarrow> net_vertex \<Rightarrow> net_vertex list \<Rightarrow> net_state \<Rightarrow> net_state result" where
  "copy_edges fl vs r [] s = Inr s"
| "copy_edges fl vs r (v # us) s =
     bindE (vertex_at s v) (\<lambda>_.
     bindE (copy_in fl vs r (in_edges s v) s) (\<lambda>s1.
     bindE (copy_out fl vs r (out_edges s1 v) s1) (\<lambda>s2. copy_edges fl vs r us s2)))"

fun remove_vertices_of :: "net_vertex list \<Rightarrow> net_state \<Rightarrow> net_state result" where
  "remove_vertices_of [] s = Inr s"
| "remove_vertices_of (v # vs) s = bindE (remove_vertex s v) (remove_vertices_of vs)"

text \<open>The set of vertices is a sorted list of addresses.\<close>

definition aggregate_node :: "(double \<Rightarrow> double) \<Rightarrow> net_state \<Rightarrow> net_vertex list \<Rightarrow> string \<Rightarrow> (net_state \<times> net_vertex \<times> bool) result" where
  "aggregate_node fl s vs n =
     (if length vs = 1 then bindE (set_name s (hd vs) n) (\<lambda>s'. Inr (s', hd vs, True))
      else bindE (add_node s n) (\<lambda>(s1, r, fresh).
        if \<not> fresh then Inr (s1, r, False)
        else bindE (copy_edges fl vs r vs s1) (\<lambda>s2.
             bindE (remove_vertices_of vs s2) (\<lambda>s3. Inr (s3, r, True)))))"

section \<open>Copies\<close>

fun name_nodes :: "(net_vertex \<times> vertex_props) list \<Rightarrow> (string, net_vertex) smap \<Rightarrow> (string, net_vertex) smap" where
  "name_nodes [] m = m"
| "name_nodes ((v, x) # vs) m = name_nodes vs (smap_put (vx_name x) v m)"

fun name_edges :: "(net_edge \<times> edge_props) list \<Rightarrow> (string, net_edge) smap \<Rightarrow> (string, net_edge) smap" where
  "name_edges [] m = m"
| "name_edges ((e, x) # es) m = name_edges es (smap_put (ed_name x) e m)"

definition refresh_names :: "net_state \<Rightarrow> net_state result" where
  "refresh_names s =
     changed (s\<lparr>name_vert_map := name_nodes (nodes s) [], name_edge_map := name_edges (edges s) (name_edge_map s)\<rparr>)"

text \<open>The copy of the graph has addresses of its own, in the same order; they are written like the old ones.\<close>

definition ns_copy :: "u32 \<Rightarrow> net_state \<Rightarrow> net_state result" where
  "ns_copy garbage s =
     bindE (begin_write ((NetState garbage)\<lparr>nodes := nodes s, edges := edges s, next_addr := next_addr s\<rparr>)) (\<lambda>n.
     bindE (refresh_names n) end_write)"

end
