(* ===== verification/Net_Properties.thy ===== *)
theory Net_Properties
  imports Net_State
begin

text \<open>
  What holds of the network: names and nodes correspond and edges join nodes, under every change an
  administrator makes (\<open>portal/server/src/admin/admin_net.cpp\<close>); deleting a link leaves its name behind, so
  that a second deletion follows a dangling descriptor. Aggregating nodes keeps the traffic and the
  capacity to every other node.
\<close>

section \<open>The changes of an administrator\<close>

datatype net_op =
    Node_Add string bool
  | Node_Delete string
  | Link_Add string string string
  | Link_Delete string

fun net_commit :: "net_state \<Rightarrow> net_op \<Rightarrow> (net_state \<times> bool) result" where
  "net_commit s (Node_Add n ext) =
     bindE (add_node s n) (\<lambda>(s1, v, ret).
       if ret then bindE (set_external s1 v ext) (\<lambda>s2. Inr (s2, ret)) else Inr (s1, ret))"
| "net_commit s (Node_Delete n) = remove_node s n"
| "net_commit s (Link_Add l src dst) =
     (case get_node s src of
        None \<Rightarrow> Inr (s, False)
      | Some u \<Rightarrow>
          (case get_node s dst of
             None \<Rightarrow> Inr (s, False)
           | Some v \<Rightarrow>
               bindE (add_edge s u v) (\<lambda>(s1, e, ret).
                 if \<not> ret then Inr (s1, False)
                 else bindE (set_edge_name s1 e l) (\<lambda>s2. Inr (s2, True)))))"
| "net_commit s (Link_Delete l) =
     (case get_edge s l of
        None \<Rightarrow> Inr (s, False)
      | Some e \<Rightarrow> bindE (remove_edge s e) (\<lambda>s'. Inr (s', True)))"

fun net_run :: "net_state \<Rightarrow> net_op list \<Rightarrow> (net_state \<times> bool list) result" where
  "net_run s [] = Inr (s, [])"
| "net_run s (op # ops) = bindE (net_commit s op) (\<lambda>(s', b). bindE (net_run s' ops) (\<lambda>(s'', bs). Inr (s'', b # bs)))"

section \<open>The invariant\<close>

definition ends_of :: "net_edge \<Rightarrow> net_vertex \<times> net_vertex" where
  "ends_of e = (fst e, fst (snd e))"

definition graph_ok :: "net_state \<Rightarrow> bool" where
  "graph_ok s \<longleftrightarrow> distinct (map fst (nodes s)) \<and> (\<forall>v\<in>fst ` set (nodes s). v < next_addr s) \<and>
     distinct (map (ends_of \<circ> fst) (edges s)) \<and>
     (\<forall>e\<in>fst ` set (edges s). fst e \<in> fst ` set (nodes s) \<and> fst (snd e) \<in> fst ` set (nodes s) \<and> snd (snd e) < next_addr s)"

definition names_ok :: "net_state \<Rightarrow> bool" where
  "names_ok s \<longleftrightarrow> smap_inv (name_vert_map s) \<and>
     (\<forall>n v. get_node s n = Some v \<longleftrightarrow> (\<exists>x. (v, x) \<in> set (nodes s) \<and> vx_name x = n))"

definition net_inv :: "net_state \<Rightarrow> bool" where
  "net_inv s \<longleftrightarrow> graph_ok s \<and> names_ok s"

lemma net_touched [simp]:
  "nodes (touched s) = nodes s" "edges (touched s) = edges s" "name_vert_map (touched s) = name_vert_map s"
  "name_edge_map (touched s) = name_edge_map s" "next_addr (touched s) = next_addr s"
  by (simp_all add: touched_def)

lemma net_inv_touched [simp]: "net_inv (touched s) = net_inv s"
  by (simp add: net_inv_def graph_ok_def names_ok_def get_node_def)

lemma fst_upd_assoc [simp]: "map fst (upd_assoc xs k f) = map fst xs"
  by (induction xs) (auto simp: upd_assoc_def)

lemma fst_set_upd_assoc [simp]: "fst ` set (upd_assoc xs k f) = fst ` set xs"
  by (metis fst_upd_assoc list.set_map)

lemma comp_upd_assoc [simp]: "map (g \<circ> fst) (upd_assoc xs k f) = map (g \<circ> fst) xs"
  by (metis fst_upd_assoc list.map_comp)

lemma map_of_upd_assoc: "map_of (upd_assoc xs k f) k' = (if k' = k then map_option f (map_of xs k) else map_of xs k')"
  by (induction xs) (auto simp: upd_assoc_def)

lemma set_upd_assoc: "(k', y) \<in> set (upd_assoc xs k f) \<longleftrightarrow> (if k' = k then \<exists>x. (k, x) \<in> set xs \<and> y = f x else (k', y) \<in> set xs)"
proof (induction xs)
  case (Cons a xs)
  obtain l x where a: "a = (l, x)" by (cases a)
  have "upd_assoc (a # xs) k f = (if l = k then (l, f x) else (l, x)) # upd_assoc xs k f" by (simp add: a upd_assoc_def)
  with Cons show ?case by (auto simp: a)
qed (simp add: upd_assoc_def)

lemma edges_distinct: "graph_ok s \<Longrightarrow> distinct (map fst (edges s))"
  by (metis graph_ok_def distinct_map list.map_comp)

lemma edge_at_live: "e \<in> fst ` set (edges s) \<longleftrightarrow> (\<exists>x. edge_at s e = Inr x)"
  by (auto simp: edge_at_def map_of_eq_None_iff split: option.splits) (force dest: map_of_SomeD)+

lemma edge_at_dead: "e \<notin> fst ` set (edges s) \<longleftrightarrow> edge_at s e = Inl Undefined_Behaviour"
  using edge_at_live [of e s] by (auto simp: edge_at_def split: option.splits)

lemma vertex_at_live: "v \<in> fst ` set (nodes s) \<Longrightarrow> \<exists>x. vertex_at s v = Inr x \<and> (v, x) \<in> set (nodes s)"
  by (auto simp: vertex_at_def map_of_eq_None_iff split: option.splits dest: map_of_SomeD)

lemma edge_between_None: "edge_between s u v = None \<longleftrightarrow> (u, v) \<notin> ends_of ` fst ` set (edges s)"
  by (force simp: edge_between_def find_None_iff ends_of_def)

lemma edge_between_Some: "edge_between s u v = Some e \<Longrightarrow> e \<in> fst ` set (edges s) \<and> ends_of e = (u, v)"
  by (auto simp: edge_between_def find_Some_iff ends_of_def) (metis image_eqI nth_mem fst_conv)

section \<open>Every operation keeps the invariant\<close>

lemma put_edge_inv:
  assumes "net_inv s" "writing s" "e \<in> fst ` set (edges s)"
  shows "\<exists>s'. bindE (put_edge s e f) changed = Inr s' \<and> net_inv s' \<and> writing s' \<and>
    s' = touched (s\<lparr>edges := upd_assoc (edges s) e f\<rparr>)"
proof -
  have "put_edge s e f = Inr (s\<lparr>edges := upd_assoc (edges s) e f\<rparr>)"
    using assms(3) by (auto simp: put_edge_def edge_at_live)
  then show ?thesis
    using assms(1,2) by (simp add: changed_writing net_inv_def graph_ok_def names_ok_def get_node_def del: ball_simps)
qed

lemma net_inv_nodes:
  assumes "net_inv s" "\<And>v x. (v, x) \<in> set xs \<Longrightarrow> \<exists>y. (v, y) \<in> set (nodes s) \<and> vx_name y = vx_name x"
    and "map fst xs = map fst (nodes s)"
  shows "net_inv (s\<lparr>nodes := xs\<rparr>)"
proof -
  have fst: "fst ` set xs = fst ` set (nodes s)" using assms(3) by (metis list.set_map)
  have "(\<exists>x. (v, x) \<in> set xs \<and> vx_name x = n) \<longleftrightarrow> (\<exists>x. (v, x) \<in> set (nodes s) \<and> vx_name x = n)" for v n
  proof
    assume "\<exists>x. (v, x) \<in> set (nodes s) \<and> vx_name x = n"
    then obtain x where x: "(v, x) \<in> set (nodes s)" "vx_name x = n" by blast
    then have "v \<in> fst ` set xs" unfolding fst by force
    then obtain y where y: "(v, y) \<in> set xs" by auto
    from assms(2) [OF y] obtain z where z: "(v, z) \<in> set (nodes s)" "vx_name z = vx_name y" by blast
    have "distinct (map fst (nodes s))" using assms(1) by (simp add: net_inv_def graph_ok_def)
    then have "z = x" using x(1) z(1) by (meson eq_key_imp_eq_value)
    then show "\<exists>x. (v, x) \<in> set xs \<and> vx_name x = n" using y z(2) x(2) by auto
  qed (use assms(2) in blast)
  then show ?thesis using assms(1) by (simp add: net_inv_def graph_ok_def names_ok_def get_node_def fst assms(3))
qed

lemma set_external_inv:
  assumes "net_inv s" "writing s" "v \<in> fst ` set (nodes s)"
  shows "\<exists>s'. set_external s v b = Inr s' \<and> net_inv s' \<and> writing s'"
proof -
  have "net_inv (s\<lparr>nodes := upd_assoc (nodes s) v (\<lambda>x. x\<lparr>vx_external := b\<rparr>)\<rparr>)"
    by (rule net_inv_nodes [OF assms(1)]) (auto simp: set_upd_assoc split: if_splits)
  then show ?thesis
    using assms(2) vertex_at_live [OF assms(3)] by (auto simp: set_external_def put_vertex_def changed_writing)
qed

lemma add_node_inv:
  assumes "net_inv s" "writing s"
  shows "\<exists>s' v b. add_node s n = Inr (s', v, b) \<and> net_inv s' \<and> writing s' \<and> v \<in> fst ` set (nodes s') \<and> (b \<longleftrightarrow> get_node s n = None)"
proof (cases "get_node s n")
  case (Some v)
  then have "v \<in> fst ` set (nodes s)" using assms(1) by (force simp: net_inv_def names_ok_def)
  then show ?thesis using Some assms by (auto simp: add_node_def)
next
  case None
  let ?v = "next_addr s"
  let ?s = "s\<lparr>nodes := nodes s @ [(?v, new_vertex\<lparr>vx_name := n\<rparr>)], next_addr := ?v + 1, name_vert_map := fst (smap_insert n ?v (name_vert_map s))\<rparr>"
  have old: "graph_ok s" "names_ok s" using assms(1) by (auto simp: net_inv_def)
  have "graph_ok ?s" using old(1) by (force simp: graph_ok_def)
  moreover have "names_ok ?s"
  proof -
    have inv: "smap_inv (name_vert_map s)" using old(2) by (simp add: names_ok_def)
    have g: "get_node ?s m = (if m = n then Some ?v else get_node s m)" for m
      using None inv by (auto simp: get_node_def smap_find_insert)
    have new: "(\<exists>x. (v, x) \<in> set (nodes ?s) \<and> vx_name x = m) \<longleftrightarrow> (\<exists>x. (v, x) \<in> set (nodes s) \<and> vx_name x = m) \<or> v = ?v \<and> m = n" for v m
      by auto
    have iff: "get_node s m = Some v \<longleftrightarrow> (\<exists>x. (v, x) \<in> set (nodes s) \<and> vx_name x = m)" for v m
      using old(2) by (simp add: names_ok_def)
    have "get_node ?s m = Some v \<longleftrightarrow> (\<exists>x. (v, x) \<in> set (nodes ?s) \<and> vx_name x = m)" for v m
      unfolding g new iff [symmetric] using None by auto
    then show ?thesis using inv by (simp add: names_ok_def smap_inv_insert)
  qed
  ultimately have inv: "net_inv ?s" by (simp add: net_inv_def)
  have "changed ?s = Inr (touched ?s)" using assms(2) by (simp add: changed_writing)
  then have "add_node s n = Inr (touched ?s, ?v, True)" using None by (simp add: add_node_def Let_def)
  moreover have "net_inv (touched ?s)" "writing (touched ?s)" "?v \<in> fst ` set (nodes (touched ?s))" using inv assms(2) by auto
  ultimately show ?thesis using None by blast
qed

lemma remove_vertex_inv:
  assumes "net_inv s" "writing s" "v \<in> fst ` set (nodes s)"
  shows "\<exists>s'. remove_vertex s v = Inr s' \<and> net_inv s' \<and> writing s' \<and> nodes s' = filter (\<lambda>(u, _). u \<noteq> v) (nodes s) \<and>
    edges s' = filter (\<lambda>((a, b, _), _). a \<noteq> v \<and> b \<noteq> v) (edges s) \<and> next_addr s' = next_addr s"
proof -
  obtain x where x: "vertex_at s v = Inr x" "(v, x) \<in> set (nodes s)" using vertex_at_live assms(3) by blast
  have old: "graph_ok s" "names_ok s" using assms(1) by (auto simp: net_inv_def)
  let ?s = "s\<lparr>edges := filter (\<lambda>((a, b, _), _). a \<noteq> v \<and> b \<noteq> v) (edges s), nodes := filter (\<lambda>(u, _). u \<noteq> v) (nodes s),
              name_vert_map := smap_erase (vx_name x) (name_vert_map s)\<rparr>"
  have "graph_ok ?s" using old(1) by (force simp: graph_ok_def distinct_map_filter)
  moreover have "names_ok ?s"
  proof -
    have iff: "get_node s m = Some u \<longleftrightarrow> (\<exists>x. (u, x) \<in> set (nodes s) \<and> vx_name x = m)" for u m
      using old(2) by (simp add: names_ok_def)
    have "u = v \<longleftrightarrow> m = vx_name x" if "(u, y) \<in> set (nodes s)" "vx_name y = m" for u y m
    proof -
      have "get_node s m = Some u" "get_node s (vx_name x) = Some v" using iff that x(2) by blast+
      moreover have "distinct (map fst (nodes s))" using old(1) by (simp add: graph_ok_def)
      ultimately show ?thesis using that x(2) by (metis eq_key_imp_eq_value option.inject)
    qed
    then have "get_node ?s m = Some u \<longleftrightarrow> (\<exists>y. (u, y) \<in> set (nodes ?s) \<and> vx_name y = m)" for u m
      using iff [of m u] by (auto simp: get_node_def)
    then show ?thesis using old(2) by (simp add: names_ok_def)
  qed
  ultimately have "net_inv ?s" by (simp add: net_inv_def)
  then show ?thesis using assms(2) x(1) by (simp add: remove_vertex_def get_name_def changed_writing)
qed

lemma graph_add_edge_inv:
  assumes "net_inv s" "u \<in> fst ` set (nodes s)" "v \<in> fst ` set (nodes s)" "graph_add_edge s u v = (s', e, fresh)"
  shows "net_inv s' \<and> e \<in> fst ` set (edges s') \<and> ends_of e = (u, v) \<and> writing s' = writing s \<and> nodes s' = nodes s \<and>
    name_edge_map s' = name_edge_map s \<and> (fresh \<longleftrightarrow> edge_between s u v = None)"
proof (cases "edge_between s u v")
  case None
  have ends: "(u, v) \<notin> ends_of ` fst ` set (edges s)" using None by (simp add: edge_between_None)
  have s': "s' = s\<lparr>edges := edges s @ [((u, v, next_addr s), \<lparr>ed_name = [], ed_traffic = 0, ed_capacity = 0\<rparr>)], next_addr := next_addr s + 1\<rparr>"
      "e = (u, v, next_addr s)" "fresh"
    using assms(4) None by (auto simp: graph_add_edge_def Let_def)
  have "graph_ok s'"
    using assms(1-3) ends by (auto simp: s' net_inv_def graph_ok_def ends_of_def image_image less_Suc_eq)
  then show ?thesis using assms(1) None by (simp add: s' net_inv_def names_ok_def get_node_def ends_of_def)
next
  case (Some d)
  then show ?thesis using assms(1,4) edge_between_Some [OF Some] by (auto simp: graph_add_edge_def)
qed

lemma edges_after_put [simp]: "fst ` set (edges (touched (s\<lparr>edges := upd_assoc (edges s) e f\<rparr>))) = fst ` set (edges s)"
  by simp

lemma add_edge_inv:
  assumes "net_inv s" "writing s" "u \<in> fst ` set (nodes s)" "v \<in> fst ` set (nodes s)"
  shows "\<exists>s' e b. add_edge s u v = Inr (s', e, b) \<and> net_inv s' \<and> writing s' \<and> e \<in> fst ` set (edges s') \<and> (b \<longleftrightarrow> edge_between s u v = None)"
proof -
  obtain s1 e fresh where g: "graph_add_edge s u v = (s1, e, fresh)" by (metis prod_cases3)
  note s1 = graph_add_edge_inv [OF assms(1,3,4) g]
  obtain s2 where s2: "set_traffic s1 e 0 = Inr s2" "net_inv s2" "writing s2" "e \<in> fst ` set (edges s2)"
    using put_edge_inv [of s1 e "\<lambda>x. x\<lparr>ed_traffic := 0\<rparr>"] s1 assms(2) by (auto simp: set_traffic_def)
  obtain s3 where s3: "set_capacity s2 e 1 = Inr s3" "net_inv s3" "writing s3" "e \<in> fst ` set (edges s3)"
    using put_edge_inv [of s2 e "\<lambda>x. x\<lparr>ed_capacity := 1\<rparr>"] s2 by (auto simp: set_capacity_def)
  show ?thesis
  proof (cases fresh)
    case True
    then show ?thesis using g s1 s2 s3 by (auto simp: add_edge_def changed_writing)
  next
    case False
    then show ?thesis using g s1 assms(2) by (auto simp: add_edge_def)
  qed
qed

text \<open>
  Property C22. Whatever an administrator does to the network, names and nodes correspond (a name leads to
  the one node that has it) and edges join existing nodes, at most one from a node to another. The only
  failure is deleting a link whose descriptor is dangling.
\<close>
theorem net_changes_ok:
  assumes "net_inv s" "writing s"
  shows "(\<exists>s' b. net_commit s op = Inr (s', b) \<and> net_inv s' \<and> writing s') \<or>
    (\<exists>l e. op = Link_Delete l \<and> get_edge s l = Some e \<and> e \<notin> fst ` set (edges s) \<and> net_commit s op = Inl Undefined_Behaviour)"
proof (cases op)
  case (Node_Add n ext)
  obtain s1 v b where "add_node s n = Inr (s1, v, b)" "net_inv s1" "writing s1" "v \<in> fst ` set (nodes s1)"
    using add_node_inv [OF assms] by metis
  then show ?thesis using Node_Add set_external_inv [of s1 v ext] by (cases b) auto
next
  case (Node_Delete n)
  show ?thesis
  proof (cases "get_node s n")
    case (Some v)
    then have "v \<in> fst ` set (nodes s)" using assms(1) by (force simp: net_inv_def names_ok_def)
    from remove_vertex_inv [OF assms this] Some Node_Delete show ?thesis by (auto simp: remove_node_def)
  qed (use Node_Delete assms in \<open>auto simp: remove_node_def\<close>)
next
  case (Link_Add l src dst)
  show ?thesis
  proof (cases "\<exists>u v. get_node s src = Some u \<and> get_node s dst = Some v")
    case True
    then obtain u v where uv: "get_node s src = Some u" "get_node s dst = Some v" by blast
    then have "u \<in> fst ` set (nodes s)" "v \<in> fst ` set (nodes s)" using assms(1) by (force simp: net_inv_def names_ok_def)+
    from add_edge_inv [OF assms this] obtain s1 e b where s1: "add_edge s u v = Inr (s1, e, b)" "net_inv s1" "writing s1" "e \<in> fst ` set (edges s1)" by blast
    obtain x where x: "edge_at s1 e = Inr x" using s1(4) edge_at_live by blast
    let ?s = "s1\<lparr>edges := upd_assoc (edges s1) e (\<lambda>x. x\<lparr>ed_name := l\<rparr>)\<rparr>"
    have "net_inv ?s" using put_edge_inv [OF s1(2-4)] by auto
    then have "net_inv (?s\<lparr>name_edge_map := m\<rparr>)" for m by (simp add: net_inv_def graph_ok_def names_ok_def get_node_def)
    then have "\<exists>s2. set_edge_name s1 e l = Inr s2 \<and> net_inv s2 \<and> writing s2"
      using x s1(3) by (auto simp: set_edge_name_def get_edge_name_def put_edge_def changed_writing)
    then show ?thesis using Link_Add uv s1 by (cases b) auto
  qed (use Link_Add assms in \<open>auto split: option.splits\<close>)
next
  case (Link_Delete l)
  show ?thesis
  proof (cases "get_edge s l")
    case (Some e)
    show ?thesis
    proof (cases "e \<in> fst ` set (edges s)")
      case True
      have "net_inv (s\<lparr>edges := filter (\<lambda>(d, _). d \<noteq> e) (edges s)\<rparr>)"
        using assms(1) by (auto simp: net_inv_def graph_ok_def names_ok_def get_node_def distinct_map_filter)
      then show ?thesis using True Some Link_Delete assms(2) by (auto simp: remove_edge_def edge_at_live)
    next
      case False
      then show ?thesis using Some Link_Delete by (cases e) (simp add: remove_edge_def edge_at_dead)
    qed
  qed (use Link_Delete assms in auto)
qed

text \<open>
  Property C35. Deleting a link does not forget its name: deleting the same link again, or deleting it after
  one of its nodes was deleted, follows a descriptor of an edge that is gone.
\<close>
theorem link_delete_dangling:
  assumes "net_inv s" "writing s" "get_edge s l = Some e" "e \<in> fst ` set (edges s)"
  shows "net_run s [Link_Delete l, Link_Delete l] = Inl Undefined_Behaviour \<and>
    (get_node s n = Some (fst e) \<or> get_node s n = Some (fst (snd e)) \<longrightarrow>
      net_run s [Node_Delete n, Link_Delete l] = Inl Undefined_Behaviour)"
proof
  let ?s = "s\<lparr>edges := filter (\<lambda>(d, _). d \<noteq> e) (edges s)\<rparr>"
  have "net_commit s (Link_Delete l) = Inr (?s, True)" using assms(3,4) by (auto simp: remove_edge_def edge_at_live)
  moreover have "edge_at ?s e = Inl Undefined_Behaviour" unfolding edge_at_dead [symmetric] by auto
  moreover have "get_edge ?s l = Some e" using assms(3) by (simp add: get_edge_def)
  ultimately show "net_run s [Link_Delete l, Link_Delete l] = Inl Undefined_Behaviour" by (simp add: remove_edge_def)
  show "get_node s n = Some (fst e) \<or> get_node s n = Some (fst (snd e)) \<longrightarrow> net_run s [Node_Delete n, Link_Delete l] = Inl Undefined_Behaviour"
  proof
    assume "get_node s n = Some (fst e) \<or> get_node s n = Some (fst (snd e))"
    then obtain v where v: "get_node s n = Some v" "v = fst e \<or> v = fst (snd e)" by blast
    then obtain x where x: "vertex_at s v = Inr x" using assms(1,4) vertex_at_live [of v s] by (auto simp: net_inv_def graph_ok_def)
    define s1 where "s1 = touched (s\<lparr>edges := filter (\<lambda>((a, b, _), _). a \<noteq> v \<and> b \<noteq> v) (edges s), nodes := filter (\<lambda>(u, _). u \<noteq> v) (nodes s),
        name_vert_map := smap_erase (vx_name x) (name_vert_map s)\<rparr>)"
    have "net_commit s (Node_Delete n) = Inr (s1, True)"
      using v(1) x assms(2) by (simp add: remove_node_def remove_vertex_def get_name_def changed_writing s1_def)
    moreover have "edge_at s1 e = Inl Undefined_Behaviour" unfolding edge_at_dead [symmetric] using v(2) by (auto simp: s1_def)
    moreover have "get_edge s1 l = Some e" using assms(3) by (simp add: get_edge_def s1_def)
    ultimately show "net_run s [Node_Delete n, Link_Delete l] = Inl Undefined_Behaviour" by (simp add: remove_edge_def)
  qed
qed

section \<open>Aggregation conserves traffic and capacity\<close>

text \<open>The traffic, or the capacity, from a node to another: that of the edge, or nothing.\<close>

definition val :: "(edge_props \<Rightarrow> double) \<Rightarrow> net_state \<Rightarrow> net_vertex \<Rightarrow> net_vertex \<Rightarrow> double" where
  "val f s a b = (case edge_between s a b of None \<Rightarrow> 0 | Some e \<Rightarrow> (case map_of (edges s) e of None \<Rightarrow> 0 | Some x \<Rightarrow> f x))"

definition is_field :: "(edge_props \<Rightarrow> double) \<Rightarrow> bool" where
  "is_field f \<longleftrightarrow> f = ed_traffic \<or> f = ed_capacity"

lemma edge_between_keys: "edge_between s a b = find (\<lambda>(a', b', _). a' = a \<and> b' = b) (map fst (edges s))"
proof -
  have "map_option fst (find (\<lambda>((a', b', _), _). a' = a \<and> b' = b) xs) = find (\<lambda>(a', b', _). a' = a \<and> b' = b) (map fst xs)" for xs :: "(net_edge \<times> edge_props) list"
    by (induction xs) auto
  then show ?thesis by (simp add: edge_between_def)
qed

lemma edge_between_upd [simp]: "edge_between (s\<lparr>edges := upd_assoc (edges s) e g\<rparr>) a b = edge_between s a b"
  by (simp add: edge_between_keys)

lemma edge_between_touched [simp]: "edge_between (touched s) a b = edge_between s a b"
  by (simp add: edge_between_def)

lemma edge_between_live: "graph_ok s \<Longrightarrow> e \<in> fst ` set (edges s) \<Longrightarrow> edge_between s (fst e) (fst (snd e)) = Some e"
proof (cases "edge_between s (fst e) (fst (snd e))")
  case None
  assume "e \<in> fst ` set (edges s)"
  then have "ends_of e \<in> ends_of ` fst ` set (edges s)" by blast
  then show ?thesis using None by (simp add: edge_between_None ends_of_def)
next
  case (Some d)
  assume g: "graph_ok s" and e: "e \<in> fst ` set (edges s)"
  then have "inj_on (ends_of \<circ> fst) (set (edges s))" by (simp add: graph_ok_def distinct_map)
  moreover have "d \<in> fst ` set (edges s)" "ends_of d = ends_of e" using edge_between_Some [OF Some] by (auto simp: ends_of_def)
  ultimately have "d = e" using e by (auto simp: inj_on_def)
  then show ?thesis using Some by simp
qed

lemma val_edge: "graph_ok s \<Longrightarrow> edge_at s e = Inr x \<Longrightarrow> val f s (fst e) (fst (snd e)) = f x"
  using edge_between_live [of s e] edge_at_live [of e s] by (auto simp: val_def edge_at_def split: option.splits)

lemma val_upd:
  assumes "graph_ok s" "edge_at s e = Inr x"
  shows "val f (touched (s\<lparr>edges := upd_assoc (edges s) e g\<rparr>)) a b = (if (a, b) = ends_of e then f (g x) else val f s a b)"
proof -
  have e: "edge_between s (fst e) (fst (snd e)) = Some e" "map_of (edges s) e = Some x"
    using assms edge_between_live [of s e] edge_at_live [of e s] by (auto simp: edge_at_def split: option.splits)
  show ?thesis
  proof (cases "(a, b) = ends_of e")
    case True
    then show ?thesis using e by (simp add: val_def map_of_upd_assoc ends_of_def)
  next
    case False
    then have "edge_between s a b \<noteq> Some e" using edge_between_Some by fastforce
    then show ?thesis using False by (auto simp: val_def map_of_upd_assoc split: option.splits)
  qed
qed

lemma set_field_spec:
  assumes "net_inv s" "writing s" "edge_at s e = Inr x"
  shows "\<exists>s'. bindE (put_edge s e g) changed = Inr s' \<and> net_inv s' \<and> writing s' \<and> nodes s' = nodes s \<and>
    fst ` set (edges s') = fst ` set (edges s) \<and> name_vert_map s' = name_vert_map s \<and> next_addr s' = next_addr s \<and> edge_at s' e = Inr (g x) \<and>
    (\<forall>d. d \<noteq> e \<longrightarrow> edge_at s' d = edge_at s d) \<and>
    (\<forall>f a b. val f s' a b = (if (a, b) = ends_of e then f (g x) else val f s a b))"
proof -
  have e: "e \<in> fst ` set (edges s)" "map_of (edges s) e = Some x" using assms(3) edge_at_live by (auto simp: edge_at_def split: option.splits)
  have g: "graph_ok s" using assms(1) by (simp add: net_inv_def)
  show ?thesis
    using put_edge_inv [OF assms(1,2) e(1), of g] val_upd [OF g assms(3)] e(2)
    by (auto simp: edge_at_def map_of_upd_assoc)
qed

text \<open>The bookkeeping that the loops of \<open>aggregate_node\<close> keep: \<open>s'\<close> has the edges of \<open>s\<close> and perhaps more.\<close>

definition grown :: "net_state \<Rightarrow> net_state \<Rightarrow> bool" where
  "grown s s' \<longleftrightarrow> net_inv s' \<and> writing s' \<and> nodes s' = nodes s \<and> name_vert_map s' = name_vert_map s \<and> fst ` set (edges s) \<subseteq> fst ` set (edges s')"

lemma graph_add_edge_val:
  assumes "net_inv s" "u \<in> fst ` set (nodes s)" "v \<in> fst ` set (nodes s)" "graph_add_edge s u v = (s', e, fresh)" "writing s"
  shows "grown s s' \<and> edge_between s' u v = Some e \<and> (\<forall>f a b. is_field f \<longrightarrow> val f s' a b = val f s a b) \<and>
    (fresh \<longrightarrow> val ed_traffic s u v = 0 \<and> val ed_capacity s u v = 0)"
proof (cases "edge_between s u v")
  case None
  let ?x = "\<lparr>ed_name = [], ed_traffic = 0, ed_capacity = 0\<rparr>"
  have s': "s' = s\<lparr>edges := edges s @ [((u, v, next_addr s), ?x)], next_addr := next_addr s + 1\<rparr>" "e = (u, v, next_addr s)" "fresh"
    using assms(4) None by (auto simp: graph_add_edge_def Let_def)
  have new: "(u, v, next_addr s) \<notin> fst ` set (edges s)" using assms(1) by (force simp: net_inv_def graph_ok_def)
  have fa: "find P (xs @ [y]) = (case find P xs of None \<Rightarrow> if P y then Some y else None | Some z \<Rightarrow> Some z)" for P :: "net_edge \<times> edge_props \<Rightarrow> bool" and xs y
    by (induction xs) auto
  have eb: "edge_between s' a b = (if (a, b) = (u, v) then Some e else edge_between s a b)" for a b
    using None by (auto simp: edge_between_def s' fa split: option.splits)
  have "val f s' a b = val f s a b" if f: "is_field f" for f a b
  proof (cases "(a, b) = (u, v)")
    case True
    have "map_of (edges s) e = None" using new s'(2) by (simp add: map_of_eq_None_iff)
    then show ?thesis using True None eb [of a b] f by (auto simp: val_def s' map_add_def is_field_def)
  next
    case False
    have "d \<noteq> (u, v, next_addr s)" if "edge_between s a b = Some d" for d using edge_between_Some [OF that] new by blast
    then show ?thesis using False eb [of a b] by (auto simp: val_def s' map_add_def split: option.splits)
  qed
  moreover have "val f s u v = 0" for f using None by (simp add: val_def)
  moreover have "net_inv s'" "writing s'" using graph_add_edge_inv [OF assms(1-4)] assms(5) by auto
  ultimately show ?thesis using eb [of u v] by (auto simp: grown_def s')
next
  case (Some d)
  then show ?thesis using assms(1,4,5) by (auto simp: graph_add_edge_def grown_def)
qed

lemma merge_edge_spec:
  assumes "net_inv s" "writing s" "u \<in> fst ` set (nodes s)" "v \<in> fst ` set (nodes s)" "e \<in> fst ` set (edges s)" "ends_of e \<noteq> (u, v)"
  shows "\<exists>s'. merge_edge (\<lambda>x. x) s u v e = Inr s' \<and> grown s s' \<and>
    (\<forall>f a b. is_field f \<longrightarrow> val f s' a b = val f s a b + (if (a, b) = (u, v) then val f s (fst e) (fst (snd e)) else 0))"
proof -
  obtain s1 en fresh where g: "graph_add_edge s u v = (s1, en, fresh)" by (metis prod_cases3)
  note 1 = graph_add_edge_val [OF assms(1,3,4) g assms(2)]
  have s1: "net_inv s1" "graph_ok s1" "writing s1" "e \<in> fst ` set (edges s1)" using 1 assms(5) by (auto simp: grown_def net_inv_def)
  have en: "en \<in> fst ` set (edges s1)" "ends_of en = (u, v)" using 1 edge_between_Some by blast+
  then have ne: "e \<noteq> en" using assms(6) by auto
  obtain x y where xy: "edge_at s1 e = Inr x" "edge_at s1 en = Inr y" using s1(4) en(1) edge_at_live by meson
  have vals: "f x = val f s (fst e) (fst (snd e))" "f y = val f s u v" if "is_field f" for f
    using val_edge [OF s1(2) xy(1), of f] val_edge [OF s1(2) xy(2), of f] 1 that en(2) by (auto simp: ends_of_def)
  let ?t = "if fresh then ed_traffic x else ed_traffic y + ed_traffic x"
  let ?c = "if fresh then ed_capacity x else ed_capacity y + ed_capacity x"
  obtain s2 where s2: "set_traffic s1 en ?t = Inr s2" "net_inv s2" "writing s2" "nodes s2 = nodes s1" "name_vert_map s2 = name_vert_map s1"
      "fst ` set (edges s2) = fst ` set (edges s1)" "edge_at s2 en = Inr (y\<lparr>ed_traffic := ?t\<rparr>)" "edge_at s2 e = Inr x"
      "\<And>f a b. val f s2 a b = (if (a, b) = ends_of en then f (y\<lparr>ed_traffic := ?t\<rparr>) else val f s1 a b)"
    using set_field_spec [OF s1(1,3) xy(2), of "\<lambda>z. z\<lparr>ed_traffic := ?t\<rparr>"] ne xy(1) unfolding set_traffic_def by (metis (no_types, lifting))
  obtain s3 where s3: "set_capacity s2 en ?c = Inr s3" "net_inv s3" "writing s3" "nodes s3 = nodes s2" "name_vert_map s3 = name_vert_map s2"
      "fst ` set (edges s3) = fst ` set (edges s2)"
      "\<And>f a b. val f s3 a b = (if (a, b) = ends_of en then f (y\<lparr>ed_traffic := ?t, ed_capacity := ?c\<rparr>) else val f s2 a b)"
    using set_field_spec [OF s2(2,3,7), of "\<lambda>z. z\<lparr>ed_capacity := ?c\<rparr>"] unfolding set_capacity_def by (metis (no_types, lifting))
  have "merge_edge (\<lambda>x. x) s u v e = Inr s3"
    using g xy s2(1,7,8) s3(1) by (cases fresh) (simp_all add: merge_edge_def get_traffic_def get_capacity_def)
  moreover have "val f s3 a b = val f s a b + (if (a, b) = (u, v) then val f s (fst e) (fst (snd e)) else 0)"
    if f: "is_field f" for f a b
  proof (cases "(a, b) = (u, v)")
    case True
    have "f (y\<lparr>ed_traffic := ?t, ed_capacity := ?c\<rparr>) = val f s u v + val f s (fst e) (fst (snd e))"
      using f vals 1 by (auto simp: is_field_def)
    then show ?thesis using True s3(7) en(2) by simp
  next
    case False
    then show ?thesis using s3(7) s2(9) en(2) 1 f by auto
  qed
  moreover have "grown s s3" using s3 s2 1 by (auto simp: grown_def)
  ultimately show ?thesis by blast
qed

lemma grown_refl: "net_inv s \<Longrightarrow> writing s \<Longrightarrow> grown s s"
  by (simp add: grown_def)

lemma grown_trans: "grown s s1 \<Longrightarrow> grown s1 s2 \<Longrightarrow> grown s s2"
  by (auto simp: grown_def)

lemma grown_D:
  assumes "grown s s1" "r \<in> fst ` set (nodes s)" "A \<subseteq> fst ` set (edges s)"
  shows "net_inv s1" "writing s1" "r \<in> fst ` set (nodes s1)" "A \<subseteq> fst ` set (edges s1)"
  using assms unfolding grown_def by auto

lemma set_ConsD_subset: "set (x # xs) \<subseteq> A \<Longrightarrow> set xs \<subseteq> A"
  by simp

lemma edge_nodes: "net_inv s \<Longrightarrow> e \<in> fst ` set (edges s) \<Longrightarrow> fst e \<in> fst ` set (nodes s) \<and> fst (snd e) \<in> fst ` set (nodes s)"
  unfolding net_inv_def graph_ok_def by blast

lemma copy_in_spec:
  assumes "net_inv s" "writing s" "r \<in> fst ` set (nodes s)" "r \<notin> set vs" "v \<in> set vs"
    and "set es \<subseteq> fst ` set (edges s)" "\<forall>e\<in>set es. fst (snd e) = v" "distinct (map fst es)"
  shows "\<exists>s'. copy_in (\<lambda>x. x) vs r es s = Inr s' \<and> grown s s' \<and>
    (\<forall>f a b. is_field f \<longrightarrow> val f s' a b = val f s a b + (if b = r \<and> a \<notin> set vs \<and> a \<in> fst ` set es then val f s a v else 0))"
  using assms
proof (induction es arbitrary: s)
  case Nil
  then show ?case by (simp add: grown_refl)
next
  case (Cons e es)
  show ?case
  proof (cases "fst e \<in> set vs")
    case True
    obtain s' where s': "copy_in (\<lambda>x. x) vs r es s = Inr s'" "grown s s'"
        "\<forall>f a b. is_field f \<longrightarrow> val f s' a b = val f s a b + (if b = r \<and> a \<notin> set vs \<and> a \<in> fst ` set es then val f s a v else 0)"
      using Cons.IH [OF Cons.prems(1-5)] Cons.prems(6-8) by auto
    have "a \<notin> set vs \<and> a \<in> fst ` set (e # es) \<longleftrightarrow> a \<notin> set vs \<and> a \<in> fst ` set es" for a using True by auto
    then show ?thesis using True s' by (simp del: list.set)
  next
    case False
    have e: "e \<in> fst ` set (edges s)" "fst (snd e) = v" "ends_of e \<noteq> (fst e, r)" using Cons.prems by (auto simp: ends_of_def)
    obtain s1 where s1: "merge_edge (\<lambda>x. x) s (fst e) r e = Inr s1" "grown s s1"
        "\<And>f a b. is_field f \<Longrightarrow> val f s1 a b = val f s a b + (if (a, b) = (fst e, r) then val f s (fst e) v else 0)"
      using merge_edge_spec [OF Cons.prems(1,2) _ Cons.prems(3) e(1,3)] edge_nodes [OF Cons.prems(1) e(1)] e(2) by metis
    note k = grown_D [OF s1(2) Cons.prems(3) set_ConsD_subset [OF Cons.prems(6)]]
    have rest: "\<forall>e\<in>set es. fst (snd e) = v" "distinct (map fst es)" using Cons.prems(7,8) by simp_all
    obtain s2 where s2: "copy_in (\<lambda>x. x) vs r es s1 = Inr s2" "grown s1 s2"
        "\<forall>f a b. is_field f \<longrightarrow> val f s2 a b = val f s1 a b + (if b = r \<and> a \<notin> set vs \<and> a \<in> fst ` set es then val f s1 a v else 0)"
      using Cons.IH [OF k(1,2,3) Cons.prems(4,5) k(4) rest] by blast
    have vr: "v \<noteq> r" and new: "fst e \<notin> fst ` set es" using Cons.prems(4,5,8) by auto
    have "val f s2 a b = val f s a b + (if b = r \<and> a \<notin> set vs \<and> a \<in> fst ` set (e # es) then val f s a v else 0)" if f: "is_field f" for f a b
      using s2(3) f s1(3) [OF f, of a b] s1(3) [OF f, of a v] vr new False by auto
    then show ?thesis using False s1(1) s2(1) grown_trans [OF s1(2) s2(2)] by simp
  qed
qed

lemma copy_out_spec:
  assumes "net_inv s" "writing s" "r \<in> fst ` set (nodes s)" "r \<notin> set vs" "v \<in> set vs"
    and "set es \<subseteq> fst ` set (edges s)" "\<forall>e\<in>set es. fst e = v" "distinct (map (\<lambda>e. fst (snd e)) es)"
  shows "\<exists>s'. copy_out (\<lambda>x. x) vs r es s = Inr s' \<and> grown s s' \<and>
    (\<forall>f a b. is_field f \<longrightarrow> val f s' a b = val f s a b + (if a = r \<and> b \<notin> set vs \<and> b \<in> (\<lambda>e. fst (snd e)) ` set es then val f s v b else 0))"
  using assms
proof (induction es arbitrary: s)
  case Nil
  then show ?case by (simp add: grown_refl)
next
  case (Cons e es)
  show ?case
  proof (cases "fst (snd e) \<in> set vs")
    case True
    obtain s' where s': "copy_out (\<lambda>x. x) vs r es s = Inr s'" "grown s s'"
        "\<forall>f a b. is_field f \<longrightarrow> val f s' a b = val f s a b + (if a = r \<and> b \<notin> set vs \<and> b \<in> (\<lambda>e. fst (snd e)) ` set es then val f s v b else 0)"
      using Cons.IH [OF Cons.prems(1-5)] Cons.prems(6-8) by auto
    have "b \<notin> set vs \<and> b \<in> (\<lambda>e. fst (snd e)) ` set (e # es) \<longleftrightarrow> b \<notin> set vs \<and> b \<in> (\<lambda>e. fst (snd e)) ` set es" for b using True by auto
    then show ?thesis using True s' by (simp del: list.set)
  next
    case False
    have e: "e \<in> fst ` set (edges s)" "fst e = v" "ends_of e \<noteq> (r, fst (snd e))" using Cons.prems by (auto simp: ends_of_def)
    obtain s1 where s1: "merge_edge (\<lambda>x. x) s r (fst (snd e)) e = Inr s1" "grown s s1"
        "\<And>f a b. is_field f \<Longrightarrow> val f s1 a b = val f s a b + (if (a, b) = (r, fst (snd e)) then val f s v (fst (snd e)) else 0)"
      using merge_edge_spec [OF Cons.prems(1,2,3) _ e(1,3)] edge_nodes [OF Cons.prems(1) e(1)] e(2) by metis
    note k = grown_D [OF s1(2) Cons.prems(3) set_ConsD_subset [OF Cons.prems(6)]]
    have rest: "\<forall>e\<in>set es. fst e = v" "distinct (map (\<lambda>e. fst (snd e)) es)" using Cons.prems(7,8) by simp_all
    obtain s2 where s2: "copy_out (\<lambda>x. x) vs r es s1 = Inr s2" "grown s1 s2"
        "\<forall>f a b. is_field f \<longrightarrow> val f s2 a b = val f s1 a b + (if a = r \<and> b \<notin> set vs \<and> b \<in> (\<lambda>e. fst (snd e)) ` set es then val f s1 v b else 0)"
      using Cons.IH [OF k(1,2,3) Cons.prems(4,5) k(4) rest] by blast
    have vr: "v \<noteq> r" and new: "fst (snd e) \<notin> (\<lambda>e. fst (snd e)) ` set es" using Cons.prems(4,5,8) by auto
    have "val f s2 a b = val f s a b + (if a = r \<and> b \<notin> set vs \<and> b \<in> (\<lambda>e. fst (snd e)) ` set (e # es) then val f s v b else 0)" if f: "is_field f" for f a b
      using s2(3) f s1(3) [OF f, of a b] s1(3) [OF f, of v b] vr new False by auto
    then show ?thesis using False s1(1) s2(1) grown_trans [OF s1(2) s2(2)] by simp
  qed
qed

lemma distinct_fst_ends: "distinct (map ends_of es) \<Longrightarrow> \<forall>e\<in>set es. fst (snd e) = v \<Longrightarrow> distinct (map fst es)"
  by (auto simp: distinct_map inj_on_def ends_of_def)

lemma distinct_snd_ends: "distinct (map ends_of es) \<Longrightarrow> \<forall>e\<in>set es. fst e = v \<Longrightarrow> distinct (map (\<lambda>e. fst (snd e)) es)"
  by (auto simp: distinct_map inj_on_def ends_of_def)

lemma edge_lists:
  assumes "graph_ok s"
  shows "set (in_edges s v) = {e \<in> fst ` set (edges s). fst (snd e) = v}" "distinct (map fst (in_edges s v))"
    "set (out_edges s v) = {e \<in> fst ` set (edges s). fst e = v}" "distinct (map (\<lambda>e. fst (snd e)) (out_edges s v))"
proof -
  show i: "set (in_edges s v) = {e \<in> fst ` set (edges s). fst (snd e) = v}" by (auto simp: in_edges_def)
  show o: "set (out_edges s v) = {e \<in> fst ` set (edges s). fst e = v}" by (auto simp: out_edges_def)
  have "distinct (map ends_of (filter P (map fst (edges s))))" for P
    using assms by (metis graph_ok_def distinct_map_filter list.map_comp)
  then have "distinct (map ends_of (in_edges s v))" "distinct (map ends_of (out_edges s v))"
    unfolding in_edges_def out_edges_def by (simp_all add: distinct_map)
  then show "distinct (map fst (in_edges s v))" "distinct (map (\<lambda>e. fst (snd e)) (out_edges s v))"
    using i o by (auto intro: distinct_fst_ends distinct_snd_ends)
qed

lemma val_no_edge: "(a, b) \<notin> ends_of ` fst ` set (edges s) \<Longrightarrow> val f s a b = 0"
  by (simp add: val_def edge_between_None [THEN iffD2])

lemma copy_edges_spec:
  assumes "net_inv s" "writing s" "r \<in> fst ` set (nodes s)" "r \<notin> set vs" "set us \<subseteq> set vs" "set us \<subseteq> fst ` set (nodes s)"
  shows "\<exists>s'. copy_edges (\<lambda>x. x) vs r us s = Inr s' \<and> grown s s' \<and>
    (\<forall>f a b. is_field f \<longrightarrow> val f s' a b = val f s a b + (if b = r \<and> a \<notin> set vs then (\<Sum>u\<leftarrow>us. val f s a u) else 0) +
       (if a = r \<and> b \<notin> set vs then (\<Sum>u\<leftarrow>us. val f s u b) else 0))"
  using assms
proof (induction us arbitrary: s)
  case Nil
  then show ?case by (simp add: grown_refl)
next
  case (Cons v us)
  have v: "v \<in> set vs" "v \<noteq> r" "v \<in> fst ` set (nodes s)" using Cons.prems by auto
  have g: "graph_ok s" using Cons.prems(1) by (simp add: net_inv_def)
  note in_l = edge_lists(1,2) [OF g, of v]
  have in_sub: "set (in_edges s v) \<subseteq> fst ` set (edges s)" using in_l(1) by blast
  obtain s1 where s1: "copy_in (\<lambda>x. x) vs r (in_edges s v) s = Inr s1" "grown s s1"
      "\<forall>f a b. is_field f \<longrightarrow> val f s1 a b = val f s a b + (if b = r \<and> a \<notin> set vs \<and> a \<in> fst ` set (in_edges s v) then val f s a v else 0)"
    using copy_in_spec [OF Cons.prems(1-4) v(1) in_sub _ in_l(2)] in_l(1) by blast
  have in0: "val f s a v = 0" if "a \<notin> fst ` set (in_edges s v)" for f a
    using that unfolding in_l(1) by (intro val_no_edge) (fastforce simp: ends_of_def image_iff)
  have inv1: "net_inv s1" "writing s1" "nodes s1 = nodes s" using s1(2) by (auto simp: grown_def)
  then have g1: "graph_ok s1" by (simp add: net_inv_def)
  note out_l = edge_lists(3,4) [OF g1, of v]
  have out_sub: "set (out_edges s1 v) \<subseteq> fst ` set (edges s1)" using out_l(1) by blast
  have r1: "r \<in> fst ` set (nodes s1)" using inv1(3) Cons.prems(3) by simp
  obtain s2 where s2: "copy_out (\<lambda>x. x) vs r (out_edges s1 v) s1 = Inr s2" "grown s1 s2"
      "\<forall>f a b. is_field f \<longrightarrow> val f s2 a b = val f s1 a b + (if a = r \<and> b \<notin> set vs \<and> b \<in> (\<lambda>e. fst (snd e)) ` set (out_edges s1 v) then val f s1 v b else 0)"
    using copy_out_spec [OF inv1(1,2) r1 Cons.prems(4) v(1) out_sub _ out_l(2)] out_l(1) by blast
  have out0: "val f s1 v b = 0" if "b \<notin> (\<lambda>e. fst (snd e)) ` set (out_edges s1 v)" for f b
    using that unfolding out_l(1) by (intro val_no_edge) (fastforce simp: ends_of_def image_iff)
  have one: "val f s2 a b = val f s a b + (if b = r \<and> a \<notin> set vs then val f s a v else 0) + (if a = r \<and> b \<notin> set vs then val f s v b else 0)"
    if f: "is_field f" for f a b
    using s1(3) s2(3) f in0 [of a f] out0 [of b f] v(1) by auto
  have inv2: "net_inv s2" "writing s2" "nodes s2 = nodes s" using s2(2) inv1(3) by (auto simp: grown_def)
  have rest: "r \<in> fst ` set (nodes s2)" "set us \<subseteq> set vs" "set us \<subseteq> fst ` set (nodes s2)" using Cons.prems(3,5,6) inv2(3) by auto
  obtain s3 where s3: "copy_edges (\<lambda>x. x) vs r us s2 = Inr s3" "grown s2 s3"
      "\<forall>f a b. is_field f \<longrightarrow> val f s3 a b = val f s2 a b + (if b = r \<and> a \<notin> set vs then (\<Sum>u\<leftarrow>us. val f s2 a u) else 0) +
       (if a = r \<and> b \<notin> set vs then (\<Sum>u\<leftarrow>us. val f s2 u b) else 0)"
    using Cons.IH [OF inv2(1,2) rest(1) Cons.prems(4) rest(2,3)] by blast
  have keep: "(\<Sum>u\<leftarrow>us. val f s2 a u) = (\<Sum>u\<leftarrow>us. val f s a u)" "(\<Sum>u\<leftarrow>us. val f s2 u b) = (\<Sum>u\<leftarrow>us. val f s u b)" if f: "is_field f" for f a b
    using Cons.prems(4,5) by (auto intro!: arg_cong [where f = sum_list] map_cong simp: one [OF f])
  have "val f s3 a b = val f s a b + (if b = r \<and> a \<notin> set vs then (\<Sum>u\<leftarrow>v # us. val f s a u) else 0) +
       (if a = r \<and> b \<notin> set vs then (\<Sum>u\<leftarrow>v # us. val f s u b) else 0)" if f: "is_field f" for f a b
    using s3(3) f one [OF f, of a b] keep [OF f] by auto
  moreover obtain x where "vertex_at s v = Inr x" using vertex_at_live v(3) by blast
  ultimately show ?case using s1(1) s2(1) s3(1) grown_trans [OF grown_trans [OF s1(2) s2(2)] s3(2)] by simp
qed

lemma find_filter_all: "(\<And>x. P x \<Longrightarrow> Q x) \<Longrightarrow> find P (filter Q xs) = find P xs"
  by (induction xs) auto

lemma val_cong: "edges s' = edges s \<Longrightarrow> val f s' a b = val f s a b"
  by (auto simp: val_def edge_between_def split: option.splits)

lemma map_of_filter_key: "(\<And>x. Q (k, x)) \<Longrightarrow> map_of (filter Q xs) k = map_of xs k"
  by (induction xs) auto

lemma remove_vertex_val:
  assumes "edges s' = filter (\<lambda>((a, b, _), _). a \<noteq> v \<and> b \<noteq> v) (edges s)"
  shows "val f s' a b = (if a = v \<or> b = v then 0 else val f s a b)"
proof (cases "a = v \<or> b = v")
  case True
  then have "edge_between s' a b = None" by (auto simp: edge_between_def assms find_None_iff)
  then show ?thesis using True by (simp add: val_def)
next
  case False
  then have "find (\<lambda>((a', b', _), _). a' = a \<and> b' = b) (edges s') = find (\<lambda>((a', b', _), _). a' = a \<and> b' = b) (edges s)"
    unfolding assms by (intro find_filter_all) auto
  then have eb: "edge_between s' a b = edge_between s a b" by (simp add: edge_between_def)
  have "map_of (edges s') e = map_of (edges s) e" if "edge_between s a b = Some e" for e
    unfolding assms using edge_between_Some [OF that] False by (intro map_of_filter_key) (auto simp: ends_of_def)
  then show ?thesis using False eb by (auto simp: val_def split: option.splits)
qed

lemma remove_vertices_of_spec:
  assumes "net_inv s" "writing s" "distinct vs" "set vs \<subseteq> fst ` set (nodes s)"
  shows "\<exists>s'. remove_vertices_of vs s = Inr s' \<and> net_inv s' \<and> writing s' \<and> fst ` set (nodes s') = fst ` set (nodes s) - set vs \<and>
    (\<forall>f a b. val f s' a b = (if a \<in> set vs \<or> b \<in> set vs then 0 else val f s a b))"
  using assms
proof (induction vs arbitrary: s)
  case (Cons v vs)
  have v: "v \<in> fst ` set (nodes s)" using Cons.prems(4) by simp
  obtain s1 where s1: "remove_vertex s v = Inr s1" "net_inv s1" "writing s1" "nodes s1 = filter (\<lambda>(u, _). u \<noteq> v) (nodes s)"
      "edges s1 = filter (\<lambda>((a, b, _), _). a \<noteq> v \<and> b \<noteq> v) (edges s)"
    using remove_vertex_inv [OF Cons.prems(1,2) v] by blast
  have n1: "fst ` set (nodes s1) = fst ` set (nodes s) - {v}" using s1(4) by force
  then have sub: "set vs \<subseteq> fst ` set (nodes s1)" "distinct vs" using Cons.prems(3,4) by auto
  from Cons.IH [OF s1(2,3) sub(2,1)] obtain s' where s': "remove_vertices_of vs s1 = Inr s'" "net_inv s'" "writing s'"
      "fst ` set (nodes s') = fst ` set (nodes s1) - set vs" "\<forall>f a b. val f s' a b = (if a \<in> set vs \<or> b \<in> set vs then 0 else val f s1 a b)"
    by blast
  have "val f s' a b = (if a \<in> set (v # vs) \<or> b \<in> set (v # vs) then 0 else val f s a b)" for f a b
    using s'(5) remove_vertex_val [OF s1(5)] by auto
  moreover have "fst ` set (nodes s') = fst ` set (nodes s) - set (v # vs)" using s'(4) n1 by auto
  ultimately show ?case using s1(1) s'(1-3) by simp
qed simp

lemma add_node_fresh:
  assumes "net_inv s" "writing s" "get_node s n = None"
  shows "\<exists>s' r. add_node s n = Inr (s', r, True) \<and> net_inv s' \<and> writing s' \<and> r \<notin> fst ` set (nodes s) \<and>
    fst ` set (nodes s') = insert r (fst ` set (nodes s)) \<and> get_node s' n = Some r \<and> (\<forall>f a b. val f s' a b = val f s a b) \<and>
    name_vert_map s' = fst (smap_insert n r (name_vert_map s))"
proof -
  let ?r = "next_addr s"
  let ?s = "s\<lparr>nodes := nodes s @ [(?r, new_vertex\<lparr>vx_name := n\<rparr>)], next_addr := ?r + 1, name_vert_map := fst (smap_insert n ?r (name_vert_map s))\<rparr>"
  have a: "add_node s n = Inr (touched ?s, ?r, True)" using assms(2,3) by (simp add: add_node_def Let_def changed_writing)
  then have i: "net_inv (touched ?s)" "writing (touched ?s)" using add_node_inv [OF assms(1,2), of n] by auto
  have "?r \<notin> fst ` set (nodes s)" using assms(1) unfolding net_inv_def graph_ok_def by blast
  moreover have "fst ` set (nodes (touched ?s)) = insert ?r (fst ` set (nodes s))" by simp
  moreover have "get_node (touched ?s) n = Some ?r"
    using assms(1,3) by (simp add: get_node_def smap_find_insert net_inv_def names_ok_def)
  moreover have "val f (touched ?s) a b = val f s a b" for f a b by (rule val_cong) simp
  moreover have "name_vert_map (touched ?s) = fst (smap_insert n ?r (name_vert_map s))" by simp
  ultimately show ?thesis using a i by blast
qed

text \<open>
  Property C20. Aggregating nodes under a name that is not in use replaces them by one new node, and the
  traffic and the capacity between it and every other node are the sums over the nodes it replaces; the
  edges between the others are as before (with exact arithmetic).
\<close>
theorem aggregate_conserves:
  assumes "net_inv s" "writing s" "get_node s n = None" "distinct vs" "set vs \<subseteq> fst ` set (nodes s)" "length vs \<noteq> 1"
  shows "\<exists>s' r. aggregate_node (\<lambda>x. x) s vs n = Inr (s', r, True) \<and> net_inv s' \<and> r \<notin> fst ` set (nodes s) \<and>
    fst ` set (nodes s') = insert r (fst ` set (nodes s) - set vs) \<and>
    (\<forall>f u v. is_field f \<and> u \<in> fst ` set (nodes s) - set vs \<and> v \<in> fst ` set (nodes s) - set vs \<longrightarrow>
       val f s' u r = (\<Sum>w\<leftarrow>vs. val f s u w) \<and> val f s' r u = (\<Sum>w\<leftarrow>vs. val f s w u) \<and> val f s' u v = val f s u v)"
proof -
  obtain s1 r where s1: "add_node s n = Inr (s1, r, True)" "net_inv s1" "writing s1" "r \<notin> fst ` set (nodes s)"
      "fst ` set (nodes s1) = insert r (fst ` set (nodes s))" "\<forall>f a b. val f s1 a b = val f s a b"
    using add_node_fresh [OF assms(1-3)] by blast
  have r: "r \<in> fst ` set (nodes s1)" "r \<notin> set vs" "set vs \<subseteq> fst ` set (nodes s1)" using s1(4,5) assms(5) by auto
  obtain s2 where s2: "copy_edges (\<lambda>x. x) vs r vs s1 = Inr s2" "grown s1 s2"
      "\<forall>f a b. is_field f \<longrightarrow> val f s2 a b = val f s1 a b + (if b = r \<and> a \<notin> set vs then (\<Sum>u\<leftarrow>vs. val f s1 a u) else 0) +
         (if a = r \<and> b \<notin> set vs then (\<Sum>u\<leftarrow>vs. val f s1 u b) else 0)"
    using copy_edges_spec [OF s1(2,3) r(1,2) subset_refl r(3)] by blast
  have i2: "net_inv s2" "writing s2" "nodes s2 = nodes s1" using s2(2) by (auto simp: grown_def)
  then have sub: "set vs \<subseteq> fst ` set (nodes s2)" using r(3) by simp
  obtain s3 where s3: "remove_vertices_of vs s2 = Inr s3" "net_inv s3" "fst ` set (nodes s3) = fst ` set (nodes s2) - set vs"
      "\<forall>f a b. val f s3 a b = (if a \<in> set vs \<or> b \<in> set vs then 0 else val f s2 a b)"
    using remove_vertices_of_spec [OF i2(1,2) assms(4) sub] by blast
  have zero: "val f s a r = 0" "val f s r a = 0" for f a
    using s1(4) edge_nodes [OF assms(1)] by (force simp: ends_of_def intro!: val_no_edge)+
  have "val f s3 u r = (\<Sum>w\<leftarrow>vs. val f s u w) \<and> val f s3 r u = (\<Sum>w\<leftarrow>vs. val f s w u) \<and> val f s3 u v = val f s u v"
    if "is_field f" "u \<in> fst ` set (nodes s) - set vs" "v \<in> fst ` set (nodes s) - set vs" for f u v
  proof -
    have "u \<noteq> r" "v \<noteq> r" using that s1(4) by auto
    moreover have "val f s1 = val f s" using s1(6) by (auto simp: fun_eq_iff)
    ultimately show ?thesis using that s3(4) s2(3) r(2) zero by simp
  qed
  moreover have "fst ` set (nodes s3) = insert r (fst ` set (nodes s) - set vs)" using s3(3) i2(3) s1(5) r(2) by auto
  moreover have "aggregate_node (\<lambda>x. x) s vs n = Inr (s3, r, True)" using assms(6) s1(1) s2(1) s3(1) by (simp add: aggregate_node_def)
  ultimately show ?thesis using s3(2) s1(4) by blast
qed

section \<open>A network\<close>

text \<open>Three nodes A, B and C with the links A to C (named \<open>x\<close>) and B to C (named \<open>y\<close>).\<close>

definition small_net :: net_state where
  "small_net = dist_object.extend ((DistributedObject 0)\<lparr>writing := True\<rparr>)
     \<lparr>nodes = [(1, new_vertex\<lparr>vx_name := ''A''\<rparr>), (2, new_vertex\<lparr>vx_name := ''B''\<rparr>), (3, new_vertex\<lparr>vx_name := ''C''\<rparr>)],
      edges = [((1, 3, 4), \<lparr>ed_name = ''x'', ed_traffic = 5, ed_capacity = 10\<rparr>), ((2, 3, 5), \<lparr>ed_name = ''y'', ed_traffic = 7, ed_capacity = 10\<rparr>)],
      name_vert_map = [(''A'', 1), (''B'', 2), (''C'', 3)], name_edge_map = [(''x'', (1, 3, 4)), (''y'', (2, 3, 5))], next_addr = 6\<rparr>"

lemma small_net_sel:
  "nodes small_net = [(1, new_vertex\<lparr>vx_name := ''A''\<rparr>), (2, new_vertex\<lparr>vx_name := ''B''\<rparr>), (3, new_vertex\<lparr>vx_name := ''C''\<rparr>)]"
  "edges small_net = [((1, 3, 4), \<lparr>ed_name = ''x'', ed_traffic = 5, ed_capacity = 10\<rparr>), ((2, 3, 5), \<lparr>ed_name = ''y'', ed_traffic = 7, ed_capacity = 10\<rparr>)]"
  "name_vert_map small_net = [(''A'', 1), (''B'', 2), (''C'', 3)]" "name_edge_map small_net = [(''x'', (1, 3, 4)), (''y'', (2, 3, 5))]"
  "next_addr small_net = 6" "writing small_net"
  by (simp_all add: small_net_def dist_object.defs)

lemma small_net_inv: "net_inv small_net"
proof -
  have "smap_inv (name_vert_map small_net)" by (simp add: small_net_sel)
  then show ?thesis by (auto simp: net_inv_def graph_ok_def names_ok_def get_node_def smap_find_def small_net_sel ends_of_def)
qed

theorem net_changes_ok_witness:
  "net_inv small_net \<and> writing small_net \<and>
   (\<exists>s' b. net_commit small_net (Link_Add ''z'' ''C'' ''A'') = Inr (s', b) \<and> net_inv s' \<and> writing s')"
  using net_changes_ok [OF small_net_inv small_net_sel(6), of "Link_Add ''z'' ''C'' ''A''"] small_net_inv small_net_sel(6) by simp

theorem link_delete_dangling_witness:
  "net_inv small_net \<and> get_edge small_net ''x'' = Some (1, 3, 4) \<and>
   net_run small_net [Link_Delete ''x'', Link_Delete ''x''] = Inl Undefined_Behaviour \<and>
   net_run small_net [Node_Delete ''C'', Link_Delete ''x''] = Inl Undefined_Behaviour"
proof -
  have e: "get_edge small_net ''x'' = Some (1, 3, 4)" "(1, 3, 4) \<in> fst ` set (edges small_net)" "get_node small_net ''C'' = Some 3"
    by (simp_all add: get_edge_def get_node_def smap_find_def small_net_sel)
  show ?thesis
    using link_delete_dangling [OF small_net_inv small_net_sel(6) e(1,2), of "''C''"] e(1,3) small_net_inv by simp
qed

theorem aggregate_conserves_witness:
  "\<exists>s' r. aggregate_node (\<lambda>x. x) small_net [1, 2] ''AB'' = Inr (s', r, True) \<and> val ed_traffic s' r 3 = 12 \<and> val ed_capacity s' r 3 = 20 \<and>
    val ed_traffic s' 3 r = 0"
proof -
  have n: "get_node small_net ''AB'' = None" "set [1, 2] \<subseteq> fst ` set (nodes small_net)" "3 \<in> fst ` set (nodes small_net) - set [1, 2]"
    by (simp_all add: get_node_def smap_find_def small_net_sel)
  have v: "(\<Sum>w\<leftarrow>[1, 2]. val ed_traffic small_net w 3) = 12" "(\<Sum>w\<leftarrow>[1, 2]. val ed_capacity small_net w 3) = 20"
    "(\<Sum>w\<leftarrow>[1, 2]. val ed_traffic small_net 3 w) = 0"
    by (simp_all add: val_def edge_between_def small_net_sel)
  have two: "distinct [1, 2 :: nat]" "length [1, 2 :: nat] \<noteq> 1" by simp_all
  obtain s' r where "aggregate_node (\<lambda>x. x) small_net [1, 2] ''AB'' = Inr (s', r, True)"
    and s': "\<forall>f u v. is_field f \<and> u \<in> fst ` set (nodes small_net) - set [1, 2] \<and> v \<in> fst ` set (nodes small_net) - set [1, 2] \<longrightarrow>
       val f s' u r = (\<Sum>w\<leftarrow>[1, 2]. val f small_net u w) \<and> val f s' r u = (\<Sum>w\<leftarrow>[1, 2]. val f small_net w u) \<and> val f s' u v = val f small_net u v"
    using aggregate_conserves [OF small_net_inv small_net_sel(6) n(1) two(1) n(2) two(2)] by blast
  moreover have "is_field ed_traffic" "is_field ed_capacity" by (simp_all add: is_field_def)
  ultimately show ?thesis using n(3) v by metis
qed

end
