(* ===== verification/PID_Routing.thy ===== *)
theory PID_Routing
  imports Server_Matrix Net_Properties
begin

text \<open>
  \<open>common-server/src/lib/pid_routing.cpp\<close>: the routes of a view, either static routes that an administrator
  enters or shortest paths in the network under configured weights. The multimap of static routes is the
  list of its nodes, each with an address, in the order of the endpoints; a pointer to a node is its
  address. An unordered set of PIDs with their vertices is the list of its elements in the order in which
  it is read. The algorithm of Dijkstra in the Boost Graph Library is an argument: from the graph, the
  weights and the source it computes the predecessor of each vertex.
\<close>

section \<open>PIDs with vertices\<close>

text \<open>A PID with a set of vertices, sorted by address. \<open>get_vertex\<close> is the first.\<close>

type_synonym pinned_pid = "pid \<times> net_vertex list"

definition PinnedPID :: "pid \<Rightarrow> net_vertex list \<Rightarrow> pinned_pid result" where
  "PinnedPID p vs = (if vs = [] then Inl (Runtime_Error ''PinnedPID constructed with empty vertex set'') else Inr (p, vs))"

definition get_vertex :: "pinned_pid \<Rightarrow> net_vertex" where "get_vertex p = hd (snd p)"

type_synonym pinned_set = "pinned_pid list"

definition find_pinned :: "pinned_set \<Rightarrow> pid \<Rightarrow> pinned_pid option" where
  "find_pinned ps p = find (\<lambda>q. fst q = p) ps"

definition insert_pinned :: "pinned_pid \<Rightarrow> pinned_set \<Rightarrow> pinned_set" where
  "insert_pinned p ps = (case find_pinned ps (fst p) of None \<Rightarrow> ps @ [p] | Some _ \<Rightarrow> ps)"

section \<open>The state\<close>

datatype route_mode = RM_STATIC | RM_WEIGHTS

type_synonym named_route = "pid list"

record pid_routing = dist_object +
  default_weight :: cost
  route_mode_of :: route_mode
  static_routes :: "(nat \<times> named_route) list"
  static_route_ptrs :: "(pid \<times> nat) list"
  weights :: server_matrix
  next_route :: nat

text \<open>The matrix of weights is locked for writing as long as the object lives.\<close>

definition PIDRouting :: "u32 \<Rightarrow> u32 \<Rightarrow> cost \<Rightarrow> pid_routing" where
  "PIDRouting garbage garbage' w = dist_object.extend (DistributedObject garbage)
     \<lparr>default_weight = w, route_mode_of = RM_WEIGHTS, static_routes = [], static_route_ptrs = [],
      weights = (PIDMatrixBase garbage')\<lparr>writing := True\<rparr>, next_route = 1\<rparr>"

section \<open>Static routes\<close>

definition endpoints :: "named_route \<Rightarrow> pid \<times> pid" where "endpoints r = (hd r, last r)"

definition endpoints_less :: "pid \<times> pid \<Rightarrow> pid \<times> pid \<Rightarrow> bool" where
  "endpoints_less a b \<longleftrightarrow> fst a < fst b \<or> fst a = fst b \<and> snd a < snd b"

fun insert_route :: "nat \<times> named_route \<Rightarrow> (nat \<times> named_route) list \<Rightarrow> (nat \<times> named_route) list" where
  "insert_route x [] = [x]"
| "insert_route x (y # ys) =
     (if endpoints_less (endpoints (snd x)) (endpoints (snd y)) then x # y # ys else y # insert_route x ys)"

fun insert_ptr :: "pid \<times> nat \<Rightarrow> (pid \<times> nat) list \<Rightarrow> (pid \<times> nat) list" where
  "insert_ptr x [] = [x]"
| "insert_ptr x (y # ys) = (if fst x < fst y then x # y # ys else y # insert_ptr x ys)"

definition get_static_routes :: "pid_routing \<Rightarrow> named_route list" where
  "get_static_routes r = map snd (static_routes r)"

definition get_static_routes_between :: "pid_routing \<Rightarrow> pid \<Rightarrow> pid \<Rightarrow> (nat \<times> named_route) list" where
  "get_static_routes_between r src dst = filter (\<lambda>(_, rt). endpoints rt = (src, dst)) (static_routes r)"

definition get_static_route :: "pid_routing \<Rightarrow> pid \<Rightarrow> pid \<Rightarrow> named_route option" where
  "get_static_route r src dst = map_option snd (find (\<lambda>(_, rt). endpoints rt = (src, dst)) (static_routes r))"

definition get_num_static_routes :: "pid_routing \<Rightarrow> u32" where
  "get_num_static_routes r = of_nat (length (static_routes r))"

definition add_static_route_ptrs :: "pid_routing \<Rightarrow> nat \<times> named_route \<Rightarrow> pid_routing" where
  "add_static_route_ptrs r x =
     (if route_mode_of r \<noteq> RM_STATIC then r
      else r\<lparr>static_route_ptrs := fold (\<lambda>p. insert_ptr (p, fst x)) (snd x) (static_route_ptrs r)\<rparr>)"

definition add_static_route :: "pid_routing \<Rightarrow> named_route \<Rightarrow> (pid_routing \<times> bool) result" where
  "add_static_route r v =
     (if route_mode_of r \<noteq> RM_STATIC then Inr (r, False)
      else if length v < 2 then Inr (r, False)
      else let x = (next_route r, v);
               r1 = add_static_route_ptrs (r\<lparr>static_routes := insert_route x (static_routes r), next_route := next_route r + 1\<rparr>) x
           in bindE (changed r1) (\<lambda>r2. Inr (r2, True)))"

text \<open>
  Following a pointer to a static route: into the object itself, or into a copy of it when that is still
  there (\<open>alive\<close>), since \<open>do_copy_properties\<close> leaves such pointers.
\<close>

definition deref_route :: "(nat \<Rightarrow> named_route option) \<Rightarrow> pid_routing \<Rightarrow> nat \<Rightarrow> named_route result" where
  "deref_route alive r a =
     (case map_of (static_routes r) a of
        Some rt \<Rightarrow> Inr rt
      | None \<Rightarrow> (case alive a of Some rt \<Rightarrow> Inr rt | None \<Rightarrow> Inl Undefined_Behaviour))"

definition remove_static_route_ptrs :: "(nat \<Rightarrow> named_route option) \<Rightarrow> pid_routing \<Rightarrow> nat \<Rightarrow> pid_routing result" where
  "remove_static_route_ptrs alive r a =
     (if route_mode_of r \<noteq> RM_STATIC then Inr r
      else bindE (deref_route alive r a) (\<lambda>rt.
        Inr (r\<lparr>static_route_ptrs := fold (\<lambda>p. filter (\<lambda>x. x \<noteq> (p, a))) rt (static_route_ptrs r)\<rparr>)))"

definition remove_static_route :: "pid_routing \<Rightarrow> named_route \<Rightarrow> (pid_routing \<times> bool) result" where
  "remove_static_route r v =
     (if length v < 2 then Inr (r, False)
      else case find (\<lambda>(_, rt). rt = v) (get_static_routes_between r (hd v) (last v)) of
             None \<Rightarrow> Inr (r, False)
           | Some (a, _) \<Rightarrow>
               bindE (remove_static_route_ptrs (\<lambda>_. None) r a) (\<lambda>r1.
               bindE (changed (r1\<lparr>static_routes := filter (\<lambda>(b, _). b \<noteq> a) (static_routes r1)\<rparr>)) (\<lambda>r2. Inr (r2, True))))"

definition clear_static_routes :: "pid_routing \<Rightarrow> (pid_routing \<times> bool) result" where
  "clear_static_routes r =
     (if route_mode_of r \<noteq> RM_STATIC then Inr (r, False)
      else bindE (changed (r\<lparr>static_routes := [], static_route_ptrs := []\<rparr>)) (\<lambda>r'. Inr (r', True)))"

text \<open>The new mode is set first, so that static routes are cleared on the way to the static mode only.\<close>

definition set_route_mode :: "pid_routing \<Rightarrow> route_mode \<Rightarrow> pid_routing result" where
  "set_route_mode r v =
     (if route_mode_of r = v then Inr r
      else bindE (clear_static_routes (r\<lparr>route_mode_of := v\<rparr>)) (\<lambda>(r1, _). changed r1))"

section \<open>Weights and PIDs\<close>

definition set_weight :: "pid_routing \<Rightarrow> pid \<Rightarrow> pid \<Rightarrow> cost \<Rightarrow> (pid_routing \<times> bool) result" where
  "set_weight r src dst v =
     bindE (mx_set_by_pid (weights r) src dst v) (\<lambda>(w, res).
       if res then bindE (changed (r\<lparr>weights := w\<rparr>)) (\<lambda>r'. Inr (r', True)) else Inr (r\<lparr>weights := w\<rparr>, False))"

definition get_weight :: "pid_routing \<Rightarrow> pid \<Rightarrow> pid \<Rightarrow> cost" where
  "get_weight r src dst = mx_get_by_pid (weights r) src dst (default_weight r)"

definition rt_add_pid :: "pid_routing \<Rightarrow> pid \<Rightarrow> pid_routing result" where
  "rt_add_pid r p =
     (case route_mode_of r of
        RM_STATIC \<Rightarrow> changed r
      | RM_WEIGHTS \<Rightarrow> bindE (mx_add_pid (weights r) p) (\<lambda>(w, _). changed (r\<lparr>weights := w\<rparr>)))"

text \<open>The pointers of \<open>equal_range\<close>, in a set.\<close>

definition append_static_route_ptrs :: "pid_routing \<Rightarrow> pid \<Rightarrow> nat list" where
  "append_static_route_ptrs r p =
     (if route_mode_of r \<noteq> RM_STATIC then [] else remdups (map snd (filter (\<lambda>x. fst x = p) (static_route_ptrs r))))"

fun remove_all_ptrs :: "(nat \<Rightarrow> named_route option) \<Rightarrow> pid_routing \<Rightarrow> nat list \<Rightarrow> pid_routing result" where
  "remove_all_ptrs alive r [] = Inr r"
| "remove_all_ptrs alive r (a # as) = bindE (remove_static_route_ptrs alive r a) (\<lambda>r'. remove_all_ptrs alive r' as)"

definition rt_remove_pid :: "(nat \<Rightarrow> named_route option) \<Rightarrow> pid_routing \<Rightarrow> pid \<Rightarrow> pid_routing result" where
  "rt_remove_pid alive r p =
     (case route_mode_of r of
        RM_STATIC \<Rightarrow> bindE (remove_all_ptrs alive r (append_static_route_ptrs r p)) changed
      | RM_WEIGHTS \<Rightarrow> bindE (mx_remove_pid (weights r) p) (\<lambda>(w, _). changed (r\<lparr>weights := w\<rparr>)))"

section \<open>Copies\<close>

text \<open>
  The nodes of the copy have new addresses. The loop calls \<open>add_static_route_ptrs\<close> of the object that is
  copied: it gets the pointers into the copy, and the copy gets none. Both objects are returned.
\<close>

definition rt_copy :: "u32 \<Rightarrow> u32 \<Rightarrow> pid_routing \<Rightarrow> pid_routing \<times> pid_routing" where
  "rt_copy garbage garbage' r =
     (let n = PIDRouting garbage garbage' (Num 1);
          static = route_mode_of r = RM_STATIC;
          nodes = if static then zip [next_route r..<next_route r + length (static_routes r)] (map snd (static_routes r)) else [];
          r' = (fold (\<lambda>x s. add_static_route_ptrs s x) nodes r)\<lparr>next_route := next_route r + length nodes\<rparr>
      in (r', n\<lparr>default_weight := default_weight r, route_mode_of := route_mode_of r, static_routes := nodes,
               weights := (mx_copy garbage' (weights r))\<lparr>writing := True\<rparr>, next_route := next_route r + length nodes\<rparr>))"

section \<open>Routes\<close>

type_synonym pinned_route = "pinned_pid list"

text \<open>What is kept from one computation to the next: the results, and the weights once they are known.\<close>

record route_context =
  rc_result :: "pid \<rightharpoonup> pinned_route"
  rc_indexes :: "net_vertex list"
  rc_weights :: "(net_edge \<times> cost) list"

definition RouteComputationContext :: route_context where
  "RouteComputationContext = \<lparr>rc_result = Map.empty, rc_indexes = [], rc_weights = []\<rparr>"

fun pin_hops :: "pinned_set \<Rightarrow> named_route \<Rightarrow> pinned_route option" where
  "pin_hops pids [] = Some []"
| "pin_hops pids (h # hs) =
     (case find_pinned pids h of None \<Rightarrow> None | Some q \<Rightarrow> map_option (\<lambda>r. q # r) (pin_hops pids hs))"

fun static_loop :: "pid_routing \<Rightarrow> pid \<Rightarrow> pinned_set \<Rightarrow> pinned_set \<Rightarrow> route_context \<Rightarrow> route_context \<times> bool" where
  "static_loop r src pids [] c = (c, True)"
| "static_loop r src pids (dst # ds) c =
     (case get_static_route r src (fst dst) of
        None \<Rightarrow> static_loop r src pids ds c
      | Some route \<Rightarrow>
          (case pin_hops pids route of
             None \<Rightarrow> (c, False)
           | Some fwd \<Rightarrow> static_loop r src pids ds (c\<lparr>rc_result := (rc_result c)(fst dst \<mapsto> fwd)\<rparr>)))"

definition get_routes_static :: "pid_routing \<Rightarrow> pinned_pid \<Rightarrow> pinned_set \<Rightarrow> route_context \<Rightarrow> route_context \<times> bool" where
  "get_routes_static r src pids c = static_loop r (fst src) pids pids (c\<lparr>rc_result := Map.empty\<rparr>)"

fun edge_weights_of :: "pid_routing \<Rightarrow> net_state \<Rightarrow> net_edge list \<Rightarrow> (net_edge \<times> cost) list result" where
  "edge_weights_of r s [] = Inr []"
| "edge_weights_of r s (e # es) =
     bindE (get_pid s (fst e)) (\<lambda>p. bindE (get_pid s (fst (snd e))) (\<lambda>q.
     bindE (edge_weights_of r s es) (\<lambda>ws. Inr ((e, get_weight r p q) # ws))))"

type_synonym shortest_paths = "net_state \<Rightarrow> (net_edge \<times> cost) list \<Rightarrow> net_vertex \<Rightarrow> (net_vertex \<Rightarrow> net_vertex) result"

text \<open>
  The loop that traces a path back. Under predecessors that never come to the source it would add to the
  route until there is no memory left; it is given as many steps as there are vertices.
\<close>

fun trace_back :: "nat \<Rightarrow> net_state \<Rightarrow> (net_vertex \<Rightarrow> net_vertex) \<Rightarrow> net_vertex \<Rightarrow> net_vertex \<Rightarrow> pinned_route \<Rightarrow> pinned_route result" where
  "trace_back 0 s pred src v acc = (if v = src then Inr acc else Inl (Runtime_Error ''std::bad_alloc''))"
| "trace_back (Suc k) s pred src v acc =
     (if v = src then Inr acc
      else bindE (get_pid s (pred v)) (\<lambda>p. trace_back k s pred src (pred v) (acc @ [(p, [pred v])])))"

fun weights_loop :: "net_state \<Rightarrow> (net_vertex \<Rightarrow> net_vertex) \<Rightarrow> net_vertex \<Rightarrow> pinned_set \<Rightarrow> route_context \<Rightarrow> route_context result" where
  "weights_loop s pred src [] c = Inr c"
| "weights_loop s pred src (p # ps) c =
     (if pred (get_vertex p) = get_vertex p then weights_loop s pred src ps c
      else bindE (get_pid s (pred (get_vertex p))) (\<lambda>q.
           bindE (trace_back (length (nodes s)) s pred src (pred (get_vertex p)) [(fst p, [get_vertex p]), (q, [pred (get_vertex p)])])
             (\<lambda>route_reverse. weights_loop s pred src ps (c\<lparr>rc_result := (rc_result c)(fst p \<mapsto> rev route_reverse)\<rparr>))))"

definition get_routes_weights :: "shortest_paths \<Rightarrow> pid_routing \<Rightarrow> pinned_pid \<Rightarrow> net_state \<Rightarrow> pinned_set \<Rightarrow> route_context \<Rightarrow> (route_context \<times> bool) result" where
  "get_routes_weights sp r src s pids c =
     bindE (if rc_indexes c \<noteq> [] then Inr c
            else bindE (edge_weights_of r s (map fst (edges s))) (\<lambda>ws. Inr (c\<lparr>rc_indexes := map fst (nodes s), rc_weights := ws\<rparr>))) (\<lambda>c1.
     bindE (sp s (rc_weights c1) (get_vertex src)) (\<lambda>pred.
     bindE (weights_loop s pred (get_vertex src) pids (c1\<lparr>rc_result := Map.empty\<rparr>)) (\<lambda>c2. Inr (c2, True))))"

definition get_routes :: "shortest_paths \<Rightarrow> pid_routing \<Rightarrow> pinned_pid \<Rightarrow> net_state \<Rightarrow> pinned_set \<Rightarrow> route_context \<Rightarrow> (route_context \<times> bool) result" where
  "get_routes sp r src s pids c =
     (case route_mode_of r of
        RM_STATIC \<Rightarrow> Inr (get_routes_static r src pids c)
      | RM_WEIGHTS \<Rightarrow> get_routes_weights sp r src s pids c)"

end
