(* ===== verification/Server_View.thy ===== *)
theory Server_View
  imports PID_Aggregation Server_PIDMap PID_Routing Job_Queue
begin

text \<open>
  \<open>portal/server/src/view/view.h\<close>, \<open>view.cpp\<close> and \<open>view_registry.cpp\<close>: a view of the network, with its
  properties and six child objects, and the registry of the views. The children have fixed positions in the
  vector of \<open>DistributedObject\<close>. The record \<open>view_props\<close> is the object alone, with the addresses of its children;
  \<open>view\<close> has the child objects beside them, for the operations that work on the view and its children. The
  memory that new objects are made in, and their addresses, are arguments; the memory shows in versions.
\<close>

datatype extra_node_action = ENA_IGNORE | ENA_REMOVE

text \<open>The properties of a view, and the view with its children.\<close>

record view_props = dist_object +
  view_name :: string
  plugin_name :: string
  plugin_inst :: bool
  update_interval :: u32
  extra_action :: extra_node_action
  default_intrapid :: cost
  default_interpid :: cost
  default_interdomain :: cost
  default_pidlink :: cost
  includes_intra :: bool
  pid_ttl :: u32
  pdistance_ttl :: u32

record view = view_props +
  v_aggregation :: aggregation
  v_prefixes :: server_pidmap
  v_routing :: pid_routing
  v_link_pdistances :: server_matrix
  v_intra_pdistances :: server_matrix
  v_inter_pdistances :: server_matrix

type_synonym memory = "nat \<Rightarrow> u32"

definition new_view_props :: "u32 \<Rightarrow> string \<Rightarrow> view_props" where
  "new_view_props garbage name = dist_object.extend (DistributedObject garbage)
     \<lparr>view_name = name, plugin_name = [], plugin_inst = False, update_interval = 5 * 60, extra_action = ENA_REMOVE,
      default_intrapid = Num 0, default_interpid = INFTY True, default_interdomain = Num 60, default_pidlink = Num 1,
      includes_intra = True, pid_ttl = 7 * 24 * 60 * 60, pdistance_ttl = 2 * 60 * 60\<rparr>"

text \<open>The constructor sets the children under a lock of its own.\<close>

fun set_children :: "'a dist_object_scheme \<Rightarrow> u32 \<Rightarrow> nat list \<Rightarrow> 'a dist_object_scheme result" where
  "set_children ob i [] = Inr ob"
| "set_children ob i (a # as) = bindE (set_child ob i (Some a)) (\<lambda>ob'. set_children ob' (i + 1) as)"

definition make_view :: "u32 \<Rightarrow> string \<Rightarrow> nat list \<Rightarrow> view_props result" where
  "make_view garbage name cs =
     bindE (begin_write (new_view_props garbage name)) (\<lambda>v. bindE (set_children v 0 cs) end_write)"

definition View :: "memory \<Rightarrow> nat list \<Rightarrow> string \<Rightarrow> view result" where
  "View mem cs name =
     bindE (PIDMap (mem 2)) (\<lambda>prefixes.
     bindE (make_view (mem 0) name cs) (\<lambda>v.
       Inr (view_props.extend v
       \<lparr>v_aggregation = PIDAggregation (mem 1), v_prefixes = prefixes, v_routing = PIDRouting (mem 3) (mem 4) (Num 1),
        v_link_pdistances = PIDMatrixBase (mem 5), v_intra_pdistances = PIDMatrixBase (mem 6), v_inter_pdistances = PIDMatrixBase (mem 7)\<rparr>)))"

section \<open>Properties\<close>

definition set_update_interval :: "'a view_props_scheme \<Rightarrow> u32 \<Rightarrow> 'a view_props_scheme result" where
  "set_update_interval v x = changed (v\<lparr>update_interval := x\<rparr>)"

definition set_extra_node_action :: "'a view_props_scheme \<Rightarrow> extra_node_action \<Rightarrow> 'a view_props_scheme result" where
  "set_extra_node_action v x = changed (v\<lparr>extra_action := x\<rparr>)"

definition set_default_intrapid_pdistance :: "'a view_props_scheme \<Rightarrow> cost \<Rightarrow> 'a view_props_scheme result" where
  "set_default_intrapid_pdistance v x = changed (v\<lparr>default_intrapid := x\<rparr>)"

definition set_default_interpid_pdistance :: "'a view_props_scheme \<Rightarrow> cost \<Rightarrow> 'a view_props_scheme result" where
  "set_default_interpid_pdistance v x = changed (v\<lparr>default_interpid := x\<rparr>)"

definition set_default_interdomain_pdistance :: "'a view_props_scheme \<Rightarrow> cost \<Rightarrow> 'a view_props_scheme result" where
  "set_default_interdomain_pdistance v x = changed (v\<lparr>default_interdomain := x\<rparr>)"

definition set_default_pidlink_pdistance :: "'a view_props_scheme \<Rightarrow> cost \<Rightarrow> 'a view_props_scheme result" where
  "set_default_pidlink_pdistance v x = changed (v\<lparr>default_pidlink := x\<rparr>)"

definition set_interdomain_includes_intradomain :: "'a view_props_scheme \<Rightarrow> bool \<Rightarrow> 'a view_props_scheme result" where
  "set_interdomain_includes_intradomain v x = changed (v\<lparr>includes_intra := x\<rparr>)"

definition set_pid_ttl :: "'a view_props_scheme \<Rightarrow> u32 \<Rightarrow> 'a view_props_scheme result" where
  "set_pid_ttl v x = changed (v\<lparr>pid_ttl := x\<rparr>)"

definition set_pdistance_ttl :: "'a view_props_scheme \<Rightarrow> u32 \<Rightarrow> 'a view_props_scheme result" where
  "set_pdistance_ttl v x = changed (v\<lparr>pdistance_ttl := x\<rparr>)"

text \<open>The registry of plugins, an argument, says for which names it makes an instance.\<close>

definition set_plugin :: "(string \<Rightarrow> bool) \<Rightarrow> 'a view_props_scheme \<Rightarrow> string \<Rightarrow> ('a view_props_scheme \<times> bool) result" where
  "set_plugin registered v n =
     (if plugin_name v = n then Inr (v, True)
      else if n \<noteq> [] \<and> \<not> registered n then Inr (v, False)
      else bindE (changed (v\<lparr>plugin_inst := (n \<noteq> []), plugin_name := n\<rparr>)) (\<lambda>v'. Inr (v', True)))"

text \<open>A matrix is given with its address.\<close>

definition set_intradomain_pdistances :: "view \<Rightarrow> nat \<times> server_matrix \<Rightarrow> view result" where
  "set_intradomain_pdistances v m = set_child (v\<lparr>v_intra_pdistances := snd m\<rparr>) 4 (Some (fst m))"

definition set_interdomain_pdistances :: "view \<Rightarrow> nat \<times> server_matrix \<Rightarrow> view result" where
  "set_interdomain_pdistances v m = set_child (v\<lparr>v_inter_pdistances := snd m\<rparr>) 5 (Some (fst m))"

section \<open>PIDs\<close>

definition has_pid :: "view \<Rightarrow> pid \<Rightarrow> bool" where
  "has_pid v p = agg_has (v_aggregation v) p"

definition view_add_pid :: "view \<Rightarrow> string \<Rightarrow> pid \<Rightarrow> (view \<times> bool) result" where
  "view_add_pid v n p =
     bindE (agg_add (v_aggregation v) n p []) (\<lambda>(a, ok).
       if \<not> ok then Inr (v\<lparr>v_aggregation := a\<rparr>, False)
       else bindE (rt_add_pid (v_routing v) p) (\<lambda>r.
            bindE (mx_add_pid (v_link_pdistances v) p) (\<lambda>(m, _).
              Inr (v\<lparr>v_aggregation := a, v_routing := r, v_link_pdistances := m\<rparr>, True))))"

definition view_remove_pid :: "(nat \<Rightarrow> named_route option) \<Rightarrow> view \<Rightarrow> pid \<Rightarrow> (view \<times> bool) result" where
  "view_remove_pid alive v p =
     (if \<not> has_pid v p then Inr (v, False)
      else bindE (agg_remove (v_aggregation v) p) (\<lambda>(a, _).
           bindE (rt_remove_pid alive (v_routing v) p) (\<lambda>r.
           bindE (mx_remove_pid (v_link_pdistances v) p) (\<lambda>(m, _).
             Inr (v\<lparr>v_aggregation := a, v_routing := r, v_link_pdistances := m\<rparr>, True)))))"

definition view_lookup_pid :: "view \<Rightarrow> string \<Rightarrow> pid" where
  "view_lookup_pid v n = agg_lookup (v_aggregation v) n"

definition get_pdistance_interdomain :: "view \<Rightarrow> pid \<Rightarrow> pid \<Rightarrow> cost" where
  "get_pdistance_interdomain v src dst =
     (if index_of (mx_pids (v_intra_pdistances v)) (if get_external src then dst else src) = None then NAN
      else mx_get_by_pid (v_inter_pdistances v) src dst NAN)"

definition get_pdistance :: "view \<Rightarrow> pid \<Rightarrow> pid \<Rightarrow> cost" where
  "get_pdistance v src dst =
     (if get_external src \<and> get_external dst then NAN
      else if \<not> sp_has_prefixes (v_prefixes v) src \<or> \<not> sp_has_prefixes (v_prefixes v) dst then NAN
      else if \<not> get_external src \<and> \<not> get_external dst then mx_get_by_pid (v_intra_pdistances v) src dst NAN
      else get_pdistance_interdomain v src dst)"

section \<open>Copies and updates\<close>

text \<open>
  \<open>do_copy_properties\<close> makes a view with no name and sets the properties under a lock; \<open>copy\<close> then shares
  the children.
\<close>

definition copy_props :: "(string \<Rightarrow> bool) \<Rightarrow> 'b view_props_scheme \<Rightarrow> 'a view_props_scheme \<Rightarrow> 'a view_props_scheme result" where
  "copy_props registered v n =
     bindE (begin_write n) (\<lambda>n.
     bindE (set_plugin registered n (plugin_name v)) (\<lambda>(n, _).
     bindE (set_update_interval n (update_interval v)) (\<lambda>n.
     bindE (set_extra_node_action n (extra_action v)) (\<lambda>n.
     bindE (set_default_intrapid_pdistance n (default_intrapid v)) (\<lambda>n.
     bindE (set_default_interpid_pdistance n (default_interpid v)) (\<lambda>n.
     bindE (set_default_interdomain_pdistance n (default_interdomain v)) (\<lambda>n.
     bindE (set_default_pidlink_pdistance n (default_pidlink v)) (\<lambda>n.
     bindE (set_interdomain_includes_intradomain n (includes_intra v)) (\<lambda>n.
     bindE (set_pid_ttl n (pid_ttl v)) (\<lambda>n.
     bindE (set_pdistance_ttl n (pdistance_ttl v)) end_write))))))))))"

definition view_copy :: "(string \<Rightarrow> bool) \<Rightarrow> u32 \<Rightarrow> nat list \<Rightarrow> view_props \<Rightarrow> view_props result" where
  "view_copy registered garbage cs v =
     bindE (make_view garbage [] cs) (\<lambda>n. bindE (copy_props registered v n) (\<lambda>n. Inr (n\<lparr>children := children v\<rparr>)))"

definition view_on_update :: "int \<Rightarrow> job_queue \<Rightarrow> 'a view_props_scheme \<Rightarrow> job_queue result" where
  "view_on_update now q v = schedule_view now q (view_name v) (update_interval v)"

section \<open>The registry\<close>

definition DEFAULT_VIEW_NAME :: string where "DEFAULT_VIEW_NAME = ''DEFAULT''"

definition MAX_VIEWS :: nat where "MAX_VIEWS = 256"

text \<open>The children are the slots: the address of a view, or null.\<close>

record view_registry = dist_object +
  views :: "(string, u32) smap"

definition ViewRegistry :: "u32 \<Rightarrow> view_registry" where
  "ViewRegistry garbage = dist_object.extend (DistributedObject garbage) \<lparr>views = []\<rparr>"

definition reg_get :: "view_registry \<Rightarrow> string \<Rightarrow> nat option" where
  "reg_get g n =
     (case smap_find (views g) (if n \<noteq> [] then n else DEFAULT_VIEW_NAME) of None \<Rightarrow> None | Some i \<Rightarrow> get_child g i)"

definition free_slot :: "view_registry \<Rightarrow> u32 option" where
  "free_slot g = find (\<lambda>i. get_child g i = None) (map of_nat [0..<MAX_VIEWS])"

text \<open>\<open>a\<close> is the address of the new view.\<close>

definition reg_add :: "nat \<Rightarrow> view_registry \<Rightarrow> string \<Rightarrow> (view_registry \<times> bool) result" where
  "reg_add a g n =
     (case free_slot g of
        None \<Rightarrow> Inr (g, False)
      | Some i \<Rightarrow>
          bindE (set_child g i (Some a)) (\<lambda>g1.
          bindE (changed (g1\<lparr>views := smap_put n i (views g1)\<rparr>)) (\<lambda>g2. Inr (g2, True))))"

definition reg_remove :: "view_registry \<Rightarrow> string \<Rightarrow> (view_registry \<times> bool) result" where
  "reg_remove g n =
     (case smap_find (views g) n of
        None \<Rightarrow> Inr (g, False)
      | Some i \<Rightarrow>
          bindE (set_child g i None) (\<lambda>g1.
          bindE (changed (g1\<lparr>views := smap_erase n (views g1)\<rparr>)) (\<lambda>g2. Inr (g2, True))))"

definition reg_on_update :: "nat \<Rightarrow> view_registry \<Rightarrow> view_registry result" where
  "reg_on_update a g =
     (if get_children_count g \<noteq> 0 then Inr g
      else bindE (reg_add a g DEFAULT_VIEW_NAME) (\<lambda>(g', ok).
        if ok then Inr g' else Inl (Runtime_Error ''Failed to register default view'')))"

definition reg_copy :: "u32 \<Rightarrow> view_registry \<Rightarrow> view_registry" where
  "reg_copy garbage g = (ViewRegistry garbage)\<lparr>views := views g\<rparr>"

end
