(* ===== verification/View_Update.thy ===== *)
theory View_Update
  imports Server_View
begin

text \<open>
  \<open>portal/server/src/view/view_update.h\<close> and \<open>view_update.cpp\<close>: the update of a view. The network is copied,
  the nodes of each PID are aggregated, and the distances between PIDs are computed from the routes and the
  costs of the links. The rounding of additions, the shortest paths of the Boost library and the plugin
  that computes dynamic link costs are arguments. The wrapper of the view holds locks on everything that is
  read, so that the update sees one state of the view.
\<close>

section \<open>The PIDs and their nodes\<close>

fun find_verts :: "net_state \<Rightarrow> string list \<Rightarrow> (net_vertex list \<times> bool) result" where
  "find_verts s [] = Inr ([], True)"
| "find_verts s (n # ns) =
     (case get_node s n of
        None \<Rightarrow> find_verts s ns
      | Some v \<Rightarrow>
          bindE (ns_get_external s v) (\<lambda>ext.
          bindE (find_verts s ns) (\<lambda>(vs, is_internal). Inr (insort_insert_key id v vs, \<not> ext \<and> is_internal))))"

fun set_pid_all :: "pid \<Rightarrow> net_vertex list \<Rightarrow> net_state \<Rightarrow> net_state result" where
  "set_pid_all p [] s = Inr s"
| "set_pid_all p (v # vs) s = bindE (set_pid s v p) (set_pid_all p vs)"

record found_pids =
  pids_internal :: pid_set
  pids_external :: pid_set
  pids_all :: pid_set
  pinned :: pinned_set

definition no_pids :: found_pids where
  "no_pids = \<lparr>pids_internal = [], pids_external = [], pids_all = [], pinned = []\<rparr>"

fun find_pids :: "net_state \<Rightarrow> pid_record list \<Rightarrow> found_pids \<Rightarrow> (net_state \<times> found_pids) result" where
  "find_pids s [] f = Inr (s, f)"
| "find_pids s (r # rs) f =
     bindE (find_verts s (map fst (pr_vertices r))) (\<lambda>(vs, is_internal).
       let p = PID (get_isp (pr_pid r)) (get_num (pr_pid r)) (\<not> is_internal);
           f1 = (if get_external p then f\<lparr>pids_external := smap_put p () (pids_external f)\<rparr>
                 else f\<lparr>pids_internal := smap_put p () (pids_internal f)\<rparr>);
           f2 = f1\<lparr>pids_all := smap_put p () (pids_all f)\<rparr>
       in bindE (set_pid_all p vs s) (\<lambda>s1.
          bindE (PinnedPID p vs) (\<lambda>q. find_pids s1 rs (f2\<lparr>pinned := insert_pinned q (pinned f)\<rparr>))))"

fun aggregate_topology :: "(double \<Rightarrow> double) \<Rightarrow> pinned_set \<Rightarrow> net_state \<Rightarrow> pinned_set \<Rightarrow> (net_state \<times> pinned_set \<times> bool) result" where
  "aggregate_topology fl [] s agg = Inr (s, agg, True)"
| "aggregate_topology fl (p # ps) s agg =
     bindE (aggregate_node fl s (snd p) (print_pid (fst p))) (\<lambda>(s1, v, ok).
       if \<not> ok then Inr (s1, agg, False)
       else bindE (set_external s1 v (get_external (fst p))) (\<lambda>s2.
            bindE (set_pid s2 v (fst p)) (\<lambda>s3. aggregate_topology fl ps s3 (insert_pinned (fst p, [v]) agg))))"

fun extra_loop :: "extra_node_action \<Rightarrow> net_vertex set \<Rightarrow> net_vertex list \<Rightarrow> net_state \<times> pinned_set \<times> net_vertex list \<times> u32 \<Rightarrow>
    (net_state \<times> pinned_set \<times> net_vertex list \<times> u32) result" where
  "extra_loop action agg [] st = Inr st"
| "extra_loop action agg (v # vs) (s, pids, rm, tmp) =
     (if v \<in> agg then extra_loop action agg vs (s, pids, rm, tmp)
      else bindE (ns_get_external s v) (\<lambda>ext.
        if ext then extra_loop action agg vs (s, pids, rm @ [v], tmp)
        else case action of
               ENA_REMOVE \<Rightarrow> extra_loop action agg vs (s, pids, rm @ [v], tmp)
             | ENA_IGNORE \<Rightarrow>
                 bindE (set_pid s v (PID ''temp.pid'' tmp False)) (\<lambda>s1.
                   extra_loop action agg vs (s1, insert_pinned (PID ''temp.pid'' tmp False, [v]) pids, rm, tmp + 1))))"

definition handle_extra_nodes :: "extra_node_action \<Rightarrow> net_state \<Rightarrow> pinned_set \<Rightarrow> u32 \<Rightarrow> (net_state \<times> pinned_set \<times> u32) result" where
  "handle_extra_nodes action s pids tmp =
     bindE (extra_loop action (\<Union>p\<in>set pids. set (snd p)) (map fst (nodes s)) (s, pids, [], tmp)) (\<lambda>(s1, pids1, rm, tmp1).
     bindE (remove_vertices_of rm s1) (\<lambda>s2. Inr (s2, pids1, tmp1)))"

text \<open>Each hop must be a known PID; from the second on, the network must have the edge from the hop to the one before.\<close>

fun verify_hops :: "net_state \<Rightarrow> pinned_set \<Rightarrow> net_vertex option \<Rightarrow> named_route \<Rightarrow> bool result" where
  "verify_hops s pids prev [] = Inr True"
| "verify_hops s pids prev (h # hs) =
     (case find_pinned pids h of
        None \<Rightarrow> Inr False
      | Some q \<Rightarrow>
          if length (snd q) \<noteq> 1 then Inl (Runtime_Error ''Illegal state: must be exactly one vertex per pid'')
          else if prev \<noteq> None \<and> edge_between s (get_vertex q) (the prev) = None then Inr False
          else verify_hops s pids (Some (get_vertex q)) hs)"

fun verify_static_routing :: "net_state \<Rightarrow> pinned_set \<Rightarrow> named_route list \<Rightarrow> bool result" where
  "verify_static_routing s pids [] = Inr True"
| "verify_static_routing s pids (r # rs) =
     bindE (verify_hops s pids None r) (\<lambda>ok. if \<not> ok then Inr False else verify_static_routing s pids rs)"

section \<open>Distances\<close>

fun find_interdomain_links :: "net_state \<Rightarrow> net_edge list \<Rightarrow> (pid \<times> pid) list result" where
  "find_interdomain_links s [] = Inr []"
| "find_interdomain_links s (e # es) =
     bindE (get_pid s (fst e)) (\<lambda>l_src. bindE (get_pid s (fst (snd e))) (\<lambda>l_dst.
     bindE (find_interdomain_links s es) (\<lambda>ls.
       Inr (if get_external l_src = get_external l_dst then ls else (l_src, l_dst) # ls))))"

text \<open>The cost of a link: the static one, else the dynamic one, else the default.\<close>

definition link_cost :: "server_matrix \<Rightarrow> server_matrix \<Rightarrow> cost \<Rightarrow> pid \<Rightarrow> pid \<Rightarrow> cost" where
  "link_cost static dynamic dflt a b =
     (let e_p = mx_get_by_pid static a b NAN in
      if e_p \<noteq> NAN then e_p
      else let e_p = mx_get_by_pid dynamic a b NAN in if e_p \<noteq> NAN then e_p else dflt)"

fun explicit_links :: "server_matrix \<Rightarrow> server_matrix \<Rightarrow> cost \<Rightarrow> (pid \<times> pid) list \<Rightarrow> server_matrix \<Rightarrow> server_matrix result" where
  "explicit_links static dynamic dflt [] m = Inr m"
| "explicit_links static dynamic dflt (l # ls) m =
     bindE (mx_set_by_pid m (fst l) (snd l) (link_cost static dynamic dflt (fst l) (snd l))) (\<lambda>(m', _).
       explicit_links static dynamic dflt ls m')"

fun trace_cost :: "(double \<Rightarrow> cost) \<Rightarrow> (pid \<Rightarrow> pid \<Rightarrow> cost) \<Rightarrow> pinned_route \<Rightarrow> cost \<Rightarrow> cost" where
  "trace_cost fl lc (a # b # rt) p = trace_cost fl lc (b # rt) (cost_add fl p (lc (fst a) (fst b)))"
| "trace_cost fl lc rt p = p"

text \<open>What the update reads.\<close>

record update_input =
  ui_fl :: "double \<Rightarrow> cost"
  ui_paths :: shortest_paths
  ui_routing :: pid_routing
  ui_static :: server_matrix
  ui_dynamic :: server_matrix
  ui_intrapid :: cost
  ui_interpid :: cost
  ui_interdomain :: cost
  ui_pidlink :: cost
  ui_includes :: bool
  ui_net :: net_state
  ui_pids :: pinned_set

definition route_cost :: "update_input \<Rightarrow> pinned_route \<Rightarrow> cost" where
  "route_cost u rt = trace_cost (ui_fl u) (link_cost (ui_static u) (ui_dynamic u) (ui_pidlink u)) rt (Num 0)"

text \<open>A row of the intradomain matrix; PIDs come with their position.\<close>

fun intra_row :: "update_input \<Rightarrow> route_context \<Rightarrow> nat \<Rightarrow> (nat \<times> pid) list \<Rightarrow> server_matrix \<Rightarrow> server_matrix result" where
  "intra_row u c i [] m = Inr m"
| "intra_row u c i ((j, l_dst) # ds) m =
     bindE (mx_set m i j
       (if i = j then ui_intrapid u
        else case rc_result c l_dst of None \<Rightarrow> ui_interpid u | Some rt \<Rightarrow> route_cost u rt))
     (intra_row u c i ds)"

text \<open>From a PID of the domain to the external PIDs, over the last hop of the route that is inside.\<close>

definition egress_cost :: "update_input \<Rightarrow> route_context \<Rightarrow> server_matrix \<Rightarrow> server_matrix \<Rightarrow> pid \<Rightarrow> pid \<Rightarrow> cost" where
  "egress_cost u c intra outer l_src l_inter =
     (case rc_result c l_inter of
        None \<Rightarrow> ui_interdomain u
      | Some rt \<Rightarrow>
          if length rt < 2 then ui_interdomain u
          else let p_egress = fst (rt ! (length rt - 2)); d = mx_get_by_pid outer p_egress l_inter NAN
               in if ui_includes u then cost_add (ui_fl u) d (mx_get_by_pid intra l_src p_egress NAN) else d)"

fun egress_loop :: "update_input \<Rightarrow> route_context \<Rightarrow> server_matrix \<Rightarrow> pid \<Rightarrow> pid list \<Rightarrow> server_matrix \<Rightarrow> server_matrix result" where
  "egress_loop u c intra l_src [] outer = Inr outer"
| "egress_loop u c intra l_src (x # xs) outer =
     (if mx_get_by_pid outer l_src x NAN \<noteq> NAN then egress_loop u c intra l_src xs outer
      else bindE (mx_set_by_pid outer l_src x (egress_cost u c intra outer l_src x)) (\<lambda>(outer', _).
             egress_loop u c intra l_src xs outer'))"

definition routes_from :: "update_input \<Rightarrow> pid \<Rightarrow> route_context \<Rightarrow> route_context result" where
  "routes_from u l_src c =
     (case find_pinned (ui_pids u) l_src of
        None \<Rightarrow> Inl Undefined_Behaviour
      | Some src \<Rightarrow> bindE (get_routes (ui_paths u) (ui_routing u) src (ui_net u) (ui_pids u) c) (\<lambda>(c', _). Inr c'))"

fun intra_loop :: "update_input \<Rightarrow> pid list \<Rightarrow> pid list \<Rightarrow> (nat \<times> pid) list \<Rightarrow> route_context \<times> server_matrix \<times> server_matrix \<Rightarrow>
    (route_context \<times> server_matrix \<times> server_matrix) result" where
  "intra_loop u ps xs [] st = Inr st"
| "intra_loop u ps xs ((i, l_src) # srcs) (c, intra, outer) =
     bindE (routes_from u l_src c) (\<lambda>c1.
     bindE (intra_row u c1 i (enumerate 0 ps) intra) (\<lambda>intra1.
     bindE (egress_loop u c1 intra1 l_src xs outer) (\<lambda>inter1.
       intra_loop u ps xs srcs (c1, intra1, inter1))))"

text \<open>From an external PID to the PIDs of the domain, over the second hop of the route.\<close>

definition ingress_cost :: "update_input \<Rightarrow> route_context \<Rightarrow> server_matrix \<Rightarrow> server_matrix \<Rightarrow> pid \<Rightarrow> pid \<Rightarrow> cost" where
  "ingress_cost u c intra outer l_src l_intra =
     (case rc_result c l_intra of
        None \<Rightarrow> ui_interdomain u
      | Some rt \<Rightarrow>
          if length rt < 2 then ui_interdomain u
          else let p_egress = fst (rt ! 1); d = mx_get_by_pid outer l_src p_egress NAN
               in if ui_includes u then cost_add (ui_fl u) d (mx_get_by_pid intra p_egress l_intra NAN) else d)"

fun ingress_loop :: "update_input \<Rightarrow> route_context \<Rightarrow> server_matrix \<Rightarrow> pid \<Rightarrow> pid list \<Rightarrow> server_matrix \<Rightarrow> server_matrix result" where
  "ingress_loop u c intra l_src [] outer = Inr outer"
| "ingress_loop u c intra l_src (x # xs) outer =
     (if mx_get_by_pid outer l_src x NAN \<noteq> NAN then ingress_loop u c intra l_src xs outer
      else bindE (mx_set_by_pid outer l_src x (ingress_cost u c intra outer l_src x)) (\<lambda>(outer', _).
             ingress_loop u c intra l_src xs outer'))"

fun inter_loop :: "update_input \<Rightarrow> pid list \<Rightarrow> server_matrix \<Rightarrow> pid list \<Rightarrow> route_context \<times> server_matrix \<Rightarrow> (route_context \<times> server_matrix) result" where
  "inter_loop u ps intra [] st = Inr st"
| "inter_loop u ps intra (l_src # srcs) (c, outer) =
     (if \<not> get_external l_src then inter_loop u ps intra srcs (c, outer)
      else bindE (routes_from u l_src c) (\<lambda>c1.
           bindE (ingress_loop u c1 intra l_src ps outer) (\<lambda>inter1. inter_loop u ps intra srcs (c1, inter1))))"

definition compute_pdistances :: "update_input \<Rightarrow> pid list \<Rightarrow> server_matrix \<Rightarrow> server_matrix \<Rightarrow> (server_matrix \<times> server_matrix) result" where
  "compute_pdistances u xs intra outer =
     bindE (find_interdomain_links (ui_net u) (map fst (edges (ui_net u)))) (\<lambda>links.
     bindE (explicit_links (ui_static u) (ui_dynamic u) (ui_interdomain u) links outer) (\<lambda>inter1.
     bindE (intra_loop u (mx_pids intra) xs (enumerate 0 (mx_pids intra)) (RouteComputationContext, intra, inter1)) (\<lambda>(c, intra2, inter2).
     bindE (inter_loop u (mx_pids intra) intra2 (mx_pids inter2) (c, inter2)) (\<lambda>(_, inter3). Inr (intra2, inter3)))))"

section \<open>The update\<close>

text \<open>
  The plugin of the view, when it has one, computes dynamic link costs from the network, the view and the
  PIDs. The result is the two matrices, or nothing when the update is given up.
\<close>

type_synonym opt_plugin = "net_state \<Rightarrow> view \<Rightarrow> pinned_set \<Rightarrow> server_matrix"

definition compute_result :: "memory \<Rightarrow> (double \<Rightarrow> double) \<Rightarrow> (double \<Rightarrow> cost) \<Rightarrow> shortest_paths \<Rightarrow> opt_plugin \<Rightarrow> net_state \<Rightarrow> view \<Rightarrow>
    (server_matrix \<times> server_matrix) option result" where
  "compute_result mem fl fl' sp plugin net v =
     bindE (copy_object (ns_copy (mem 10)) net) (\<lambda>net1.
     bindE (begin_write net1) (\<lambda>s.
     bindE (find_pids s (pid_records (v_aggregation v)) no_pids) (\<lambda>(s1, f).
     bindE (aggregate_topology fl (pinned f) s1 []) (\<lambda>(s2, pids, ok).
       if \<not> ok then Inr None
       else bindE (handle_extra_nodes (extra_action v) s2 pids 0) (\<lambda>(s3, pids1, _).
            bindE (verify_static_routing s3 pids1 (get_static_routes (v_routing v))) (\<lambda>ok.
              if \<not> ok then Inr None
              else let u = \<lparr>ui_fl = fl', ui_paths = sp, ui_routing = v_routing v, ui_static = v_link_pdistances v,
                            ui_dynamic = (if plugin_inst v then plugin s3 v pids1 else PIDMatrixBase (mem 11)),
                            ui_intrapid = default_intrapid v, ui_interpid = default_interpid v,
                            ui_interdomain = default_interdomain v, ui_pidlink = default_pidlink v,
                            ui_includes = includes_intra v, ui_net = s3, ui_pids = pids1\<rparr>
                   in bindE (mx_set_pids ((PIDMatrixBase (mem 12))\<lparr>writing := True\<rparr>) (pids_internal f)) (\<lambda>intra.
                      bindE (mx_set_pids ((PIDMatrixBase (mem 13))\<lparr>writing := True\<rparr>) (pids_all f)) (\<lambda>outer.
                      bindE (compute_pdistances u (map fst (pids_external f)) intra outer) (\<lambda>ms. Inr (Some ms))))))))))"

text \<open>
  \<open>do_update\<close> under the lock on the view: the view with the new matrices, which have the addresses \<open>as\<close>, and
  the interval, or 0.
\<close>

definition do_update :: "memory \<Rightarrow> nat \<times> nat \<Rightarrow> (double \<Rightarrow> double) \<Rightarrow> (double \<Rightarrow> cost) \<Rightarrow> shortest_paths \<Rightarrow> opt_plugin \<Rightarrow> net_state \<Rightarrow> view \<Rightarrow> (view \<times> u32) result" where
  "do_update mem as fl fl' sp plugin net v =
     bindE (compute_result mem fl fl' sp plugin net v) (\<lambda>res.
       case res of
         None \<Rightarrow> Inr (v, 0)
       | Some (intra, outer) \<Rightarrow>
           bindE (set_intradomain_pdistances v (fst as, intra\<lparr>writing := False, changed_fired := False\<rparr>)) (\<lambda>v1.
           bindE (set_interdomain_pdistances v1 (snd as, outer\<lparr>writing := False, changed_fired := False\<rparr>)) (\<lambda>v2.
             Inr (v2, update_interval v))))"

text \<open>The direct update works under the lock it is given; the other upgrades its lock to write the matrices.\<close>

definition do_update_upgrade :: "memory \<Rightarrow> nat \<times> nat \<Rightarrow> (double \<Rightarrow> double) \<Rightarrow> (double \<Rightarrow> cost) \<Rightarrow> shortest_paths \<Rightarrow> opt_plugin \<Rightarrow> net_state \<Rightarrow> view \<Rightarrow> (view \<times> u32) result" where
  "do_update_upgrade mem as fl fl' sp plugin net v =
     bindE (compute_result mem fl fl' sp plugin net v) (\<lambda>res.
       case res of
         None \<Rightarrow> Inr (v, 0)
       | Some (intra, outer) \<Rightarrow>
           bindE (begin_write v) (\<lambda>v0.
           bindE (set_intradomain_pdistances v0 (fst as, intra\<lparr>writing := False, changed_fired := False\<rparr>)) (\<lambda>v1.
           bindE (set_interdomain_pdistances v1 (snd as, outer\<lparr>writing := False, changed_fired := False\<rparr>)) (\<lambda>v2.
           bindE (end_write v2) (\<lambda>v3. Inr (v3, update_interval v))))))"

end
