(* ===== verification/Routing_Properties.thy ===== *)
theory Routing_Properties
  imports PID_Routing "HOL-Library.Multiset"
begin

text \<open>
  What holds of the routes of a view. Computed routes are paths in the network that lead from the source to
  every PID that can be reached, given what the Boost library documents of the predecessors it computes.
  The static routes are a multiset of routes; a PID that is removed and a change of the mode leave them.
\<close>

section \<open>Computed routes are paths\<close>

definition linked :: "net_state \<Rightarrow> (net_vertex \<times> net_vertex) set" where
  "linked s = {(a, b). edge_between s a b \<noteq> None}"

text \<open>
  The predecessors that \<open>dijkstra_shortest_paths\<close> computes: those of the vertices that can be reached are the
  edges of a tree with the source as its root, and every other vertex is its own predecessor.
\<close>

definition predecessor_tree :: "net_state \<Rightarrow> net_vertex \<Rightarrow> (net_vertex \<Rightarrow> net_vertex) \<Rightarrow> bool" where
  "predecessor_tree s src pred \<longleftrightarrow>
     (\<forall>v\<in>fst ` set (nodes s).
        (pred v \<noteq> v \<longleftrightarrow> v \<noteq> src \<and> (src, v) \<in> (linked s)\<^sup>*) \<and>
        (pred v \<noteq> v \<longrightarrow> (pred v, v) \<in> linked s \<and> (\<exists>n. (pred ^^ n) v = src)))"

text \<open>A route from a vertex to a PID: consecutive hops are linked, and each hop has the PID of its vertex.\<close>

definition route_ok :: "net_state \<Rightarrow> net_vertex \<Rightarrow> pinned_pid \<Rightarrow> pinned_route \<Rightarrow> bool" where
  "route_ok s src dst rt \<longleftrightarrow> 2 \<le> length rt \<and> get_vertex (hd rt) = src \<and> last rt = (fst dst, [get_vertex dst]) \<and>
     successively (\<lambda>a b. (get_vertex a, get_vertex b) \<in> linked s) rt \<and>
     (\<forall>h\<in>set (butlast rt). get_pid s (get_vertex h) = Inr (fst h) \<and> length (snd h) = 1)"

lemma get_pid_live: "v \<in> fst ` set (nodes s) \<Longrightarrow> \<exists>p. get_pid s v = Inr p"
  using vertex_at_live [of v s] by (auto simp: get_pid_def)

lemma linked_nodes: "net_inv s \<Longrightarrow> (a, b) \<in> linked s \<Longrightarrow> a \<in> fst ` set (nodes s) \<and> b \<in> fst ` set (nodes s)"
  using edge_between_Some edge_nodes unfolding linked_def ends_of_def by fastforce

lemma funpow_plus: "(f ^^ m) ((f ^^ n) x) = (f ^^ (m + n)) x"
  by (simp add: funpow_add)

text \<open>The number of steps to the source is bounded by the number of vertices.\<close>

lemma least_steps:
  assumes "predecessor_tree s src pred" "net_inv s" "v \<in> fst ` set (nodes s)" "pred v \<noteq> v \<or> v = src"
  shows "\<exists>n < length (nodes s). (pred ^^ n) v = src \<and> (\<forall>i<n. (pred ^^ i) v \<noteq> src \<and> (pred ^^ i) v \<in> fst ` set (nodes s) \<and> pred ((pred ^^ i) v) \<noteq> (pred ^^ i) v)"
proof -
  have ex: "\<exists>n. (pred ^^ n) v = src" using assms unfolding predecessor_tree_def by (metis funpow_0)
  define n where "n = (LEAST n. (pred ^^ n) v = src)"
  have n: "(pred ^^ n) v = src" unfolding n_def by (rule LeastI_ex [OF ex])
  have least: "(pred ^^ i) v \<noteq> src" if "i < n" for i using that not_less_Least unfolding n_def by blast
  have moves: "(pred ^^ i) v \<in> fst ` set (nodes s) \<and> (i < n \<longrightarrow> pred ((pred ^^ i) v) \<noteq> (pred ^^ i) v)" if "i \<le> n" for i
    using that
  proof (induction i)
    case 0
    then show ?case using assms(3,4) least [of 0] by (cases "n = 0") auto
  next
    case (Suc i)
    let ?u = "(pred ^^ i) v"
    have u: "?u \<in> fst ` set (nodes s)" "pred ?u \<noteq> ?u" using Suc by auto
    then have l: "(pred ?u, ?u) \<in> linked s" using assms(1) unfolding predecessor_tree_def by blast
    then have in_s: "pred ?u \<in> fst ` set (nodes s)" using linked_nodes [OF assms(2)] by blast
    have "pred (pred ?u) \<noteq> pred ?u" if "Suc i < n"
    proof
      assume fixed: "pred (pred ?u) = pred ?u"
      have "(pred ^^ k) (pred ?u) = pred ?u" for k by (induction k) (simp_all add: fixed)
      then have "(pred ^^ (n - Suc i)) ((pred ^^ Suc i) v) = (pred ^^ Suc i) v" by simp
      then have "(pred ^^ n) v = (pred ^^ Suc i) v" using that unfolding funpow_plus by simp
      then show False using n least [OF that] by simp
    qed
    then show ?case using in_s by simp
  qed
  have inj: "inj_on (\<lambda>i. (pred ^^ i) v) {..n}"
  proof (rule linorder_inj_onI)
    fix i j assume ij: "i < j" "i \<in> {..n}" "j \<in> {..n}"
    show "(pred ^^ i) v \<noteq> (pred ^^ j) v"
    proof
      assume "(pred ^^ i) v = (pred ^^ j) v"
      then have "(pred ^^ (n - j)) ((pred ^^ i) v) = (pred ^^ (n - j)) ((pred ^^ j) v)" by simp
      then have "(pred ^^ (n - j + i)) v = (pred ^^ n) v" using ij by (simp add: funpow_plus)
      moreover have "n - j + i < n" using ij by auto
      ultimately show False using n least by metis
    qed
  qed auto
  have sub: "(\<lambda>i. (pred ^^ i) v) ` {..n} \<subseteq> fst ` set (nodes s)" using moves by auto
  have "Suc n \<le> card (fst ` set (nodes s))" using card_mono [OF _ sub] card_image [OF inj] by simp
  also have "\<dots> \<le> length (nodes s)" using card_length [of "map fst (nodes s)"] by simp
  finally show ?thesis using n least moves by (intro exI [of _ n]) auto
qed

text \<open>The hops that are added, from the predecessor of a vertex back to the source.\<close>

lemma trace_back_spec:
  assumes "(pred ^^ n) v = src" "n \<le> fuel"
    and "\<forall>i<n. (pred ^^ i) v \<noteq> src \<and> (pred ((pred ^^ i) v), (pred ^^ i) v) \<in> linked s"
    and "\<forall>i\<le>n. (pred ^^ i) v \<in> fst ` set (nodes s)"
  shows "\<exists>ext. trace_back fuel s pred src v acc = Inr (acc @ ext) \<and> last (v # map get_vertex ext) = src \<and>
    successively (\<lambda>a b. (b, a) \<in> linked s) (v # map get_vertex ext) \<and>
    (\<forall>h\<in>set ext. get_pid s (get_vertex h) = Inr (fst h) \<and> length (snd h) = 1)"
  using assms
proof (induction n arbitrary: v fuel acc)
  case 0
  then show ?case by (cases fuel) (auto intro!: exI [of _ "[]"])
next
  case (Suc n)
  have step: "v \<noteq> src" "(pred v, v) \<in> linked s" using Suc.prems(3) by force+
  obtain k where k: "fuel = Suc k" "n \<le> k" using Suc.prems(2) by (cases fuel) auto
  have shift: "(pred ^^ i) (pred v) = (pred ^^ Suc i) v" for i by (simp add: funpow_swap1)
  have pv: "pred v \<in> fst ` set (nodes s)" using Suc.prems(4) [rule_format, of 1] by simp
  then obtain p where p: "get_pid s (pred v) = Inr p" using get_pid_live by blast
  have end_src: "(pred ^^ n) (pred v) = src" using Suc.prems(1) unfolding shift .
  have steps: "\<forall>i<n. (pred ^^ i) (pred v) \<noteq> src \<and> (pred ((pred ^^ i) (pred v)), (pred ^^ i) (pred v)) \<in> linked s"
    using Suc.prems(3) unfolding shift by auto
  have nodes: "\<forall>i\<le>n. (pred ^^ i) (pred v) \<in> fst ` set (nodes s)"
    unfolding shift using Suc.prems(4) by (metis Suc_le_mono)
  obtain ext where ext: "trace_back k s pred src (pred v) (acc @ [(p, [pred v])]) = Inr ((acc @ [(p, [pred v])]) @ ext)"
      "last (pred v # map get_vertex ext) = src" "successively (\<lambda>a b. (b, a) \<in> linked s) (pred v # map get_vertex ext)"
      "\<forall>h\<in>set ext. get_pid s (get_vertex h) = Inr (fst h) \<and> length (snd h) = 1"
    using Suc.IH [OF end_src k(2) steps nodes] by blast
  have "trace_back fuel s pred src v acc = Inr (acc @ (p, [pred v]) # ext)"
    using ext(1) k(1) step(1) p by simp
  moreover have "last (v # map get_vertex ((p, [pred v]) # ext)) = src" using ext(2) by (simp add: get_vertex_def)
  moreover have "successively (\<lambda>a b. (b, a) \<in> linked s) (v # map get_vertex ((p, [pred v]) # ext))"
    using ext(3) step(2) by (simp add: get_vertex_def)
  moreover have "\<forall>h\<in>set ((p, [pred v]) # ext). get_pid s (get_vertex h) = Inr (fst h) \<and> length (snd h) = 1"
    using ext(4) p by (simp add: get_vertex_def)
  ultimately show ?case by blast
qed

lemma one_route:
  assumes "predecessor_tree s src pred" "net_inv s" "d \<in> fst ` set (nodes s)" "pred d \<noteq> d" "get_vertex p = d"
  shows "\<exists>q rt. get_pid s (pred d) = Inr q \<and>
    trace_back (length (nodes s)) s pred src (pred d) [(fst p, [d]), (q, [pred d])] = Inr rt \<and> route_ok s src p (rev rt)"
proof -
  have l: "(pred d, d) \<in> linked s" "d \<noteq> src" using assms(1,3,4) unfolding predecessor_tree_def by blast+
  have pd: "pred d \<in> fst ` set (nodes s)" using linked_nodes [OF assms(2) l(1)] by blast
  obtain m where m: "(pred ^^ m) d = src" "m < length (nodes s)" "\<forall>i<m. (pred ^^ i) d \<noteq> src \<and> (pred ^^ i) d \<in> fst ` set (nodes s) \<and> pred ((pred ^^ i) d) \<noteq> (pred ^^ i) d"
    using least_steps [OF assms(1-3)] assms(4) by blast
  obtain n where n: "m = Suc n" using m(1) l(2) by (cases m) auto
  have shift: "(pred ^^ i) (pred d) = (pred ^^ Suc i) d" for i by (simp add: funpow_swap1)
  have links: "\<forall>i<m. (pred ((pred ^^ i) d), (pred ^^ i) d) \<in> linked s" using m(3) assms(1) unfolding predecessor_tree_def by blast
  have steps: "\<forall>i<n. (pred ^^ i) (pred d) \<noteq> src \<and> (pred ((pred ^^ i) (pred d)), (pred ^^ i) (pred d)) \<in> linked s"
    using m(3) links n unfolding shift by auto
  have nodes: "\<forall>i\<le>n. (pred ^^ i) (pred d) \<in> fst ` set (nodes s)"
  proof (intro allI impI)
    fix i assume "i \<le> n"
    then have "(pred ((pred ^^ i) d), (pred ^^ i) d) \<in> linked s" using links n by auto
    then show "(pred ^^ i) (pred d) \<in> fst ` set (nodes s)" using linked_nodes [OF assms(2)] unfolding shift by auto
  qed
  obtain q where q: "get_pid s (pred d) = Inr q" using get_pid_live [OF pd] by blast
  obtain ext where ext: "trace_back (length (nodes s)) s pred src (pred d) [(fst p, [d]), (q, [pred d])] = Inr ([(fst p, [d]), (q, [pred d])] @ ext)"
      "last (pred d # map get_vertex ext) = src" "successively (\<lambda>a b. (b, a) \<in> linked s) (pred d # map get_vertex ext)"
      "\<forall>h\<in>set ext. get_pid s (get_vertex h) = Inr (fst h) \<and> length (snd h) = 1"
    using trace_back_spec [where v = "pred d" and n = n and src = src and pred = pred and s = s and fuel = "length (nodes s)"
        and acc = "[(fst p, [d]), (q, [pred d])]", OF _ _ steps nodes] m(1,2) n
    unfolding shift by auto
  let ?rt = "(fst p, [d]) # (q, [pred d]) # ext"
  have "successively (\<lambda>a b. (b, a) \<in> linked s) (map get_vertex ?rt)" using ext(3) l(1) by (simp add: get_vertex_def)
  then have "successively (\<lambda>a b. (get_vertex a, get_vertex b) \<in> linked s) (rev ?rt)"
    unfolding successively_rev successively_map by simp
  moreover have "get_vertex (hd (rev ?rt)) = src"
    using ext(2) by (cases ext rule: rev_cases) (auto simp: get_vertex_def)
  moreover have "\<forall>h\<in>set (butlast (rev ?rt)). get_pid s (get_vertex h) = Inr (fst h) \<and> length (snd h) = 1"
    using ext(4) q by (auto simp: butlast_append get_vertex_def)
  ultimately have "route_ok s src p (rev ?rt)" using assms(5) by (simp add: route_ok_def)
  then show ?thesis using q ext(1) by auto
qed

lemma weights_loop_spec:
  assumes "predecessor_tree s src pred" "net_inv s" "\<forall>p\<in>set ps. get_vertex p \<in> fst ` set (nodes s)" "distinct (map fst ps)"
  shows "\<exists>c'. weights_loop s pred src ps c = Inr c' \<and> rc_indexes c' = rc_indexes c \<and> rc_weights c' = rc_weights c \<and>
    (\<forall>q. q \<notin> fst ` set ps \<longrightarrow> rc_result c' q = rc_result c q) \<and>
    (\<forall>p\<in>set ps. if pred (get_vertex p) = get_vertex p then rc_result c' (fst p) = rc_result c (fst p)
                 else \<exists>rt. rc_result c' (fst p) = Some rt \<and> route_ok s src p rt)"
  using assms(3,4)
proof (induction ps arbitrary: c)
  case (Cons p ps)
  show ?case
  proof (cases "pred (get_vertex p) = get_vertex p")
    case True
    then show ?thesis using Cons.IH [of c] Cons.prems by auto
  next
    case False
    obtain q rt where rt: "get_pid s (pred (get_vertex p)) = Inr q"
        "trace_back (length (nodes s)) s pred src (pred (get_vertex p)) [(fst p, [get_vertex p]), (q, [pred (get_vertex p)])] = Inr rt"
        "route_ok s src p (rev rt)"
      using one_route [OF assms(1,2) _ False refl] Cons.prems(1) by auto
    let ?c = "c\<lparr>rc_result := (rc_result c)(fst p \<mapsto> rev rt)\<rparr>"
    obtain c' where c': "weights_loop s pred src ps ?c = Inr c'" "rc_indexes c' = rc_indexes c" "rc_weights c' = rc_weights c"
        "\<forall>q. q \<notin> fst ` set ps \<longrightarrow> rc_result c' q = rc_result ?c q"
        "\<forall>p\<in>set ps. if pred (get_vertex p) = get_vertex p then rc_result c' (fst p) = rc_result ?c (fst p)
           else \<exists>rt. rc_result c' (fst p) = Some rt \<and> route_ok s src p rt"
      using Cons.IH [of ?c] Cons.prems by auto
    have other: "fst p \<notin> fst ` set ps" using Cons.prems(2) by simp
    have "weights_loop s pred src (p # ps) c = Inr c'" using False rt(1,2) c'(1) by simp
    moreover have "rc_result c' (fst p) = Some (rev rt)" using c'(4) other by simp
    moreover have "rc_result ?c (fst q) = rc_result c (fst q)" if "q \<in> set ps" for q
      using other that by (auto simp: image_iff)
    ultimately show ?thesis using False rt(3) c'(2-5) by auto
  qed
qed simp

lemma edge_weights_live:
  assumes "\<forall>e\<in>set es. fst e \<in> fst ` set (nodes s) \<and> fst (snd e) \<in> fst ` set (nodes s)"
  shows "\<exists>ws. edge_weights_of r s es = Inr ws \<and> map fst ws = es"
  using assms
proof (induction es)
  case (Cons e es)
  obtain p q where "get_pid s (fst e) = Inr p" "get_pid s (fst (snd e)) = Inr q" using Cons.prems get_pid_live [of _ s] by (metis list.set_intros(1))
  moreover obtain ws where "edge_weights_of r s es = Inr ws" "map fst ws = es" using Cons by auto
  ultimately show ?case by simp
qed simp

text \<open>The weights that the computation uses, and the contexts that hold nothing or just these.\<close>

definition link_weights :: "pid_routing \<Rightarrow> net_state \<Rightarrow> (net_edge \<times> cost) list \<Rightarrow> bool" where
  "link_weights r s ws \<longleftrightarrow> edge_weights_of r s (map fst (edges s)) = Inr ws"

definition context_ok :: "pid_routing \<Rightarrow> net_state \<Rightarrow> route_context \<Rightarrow> bool" where
  "context_ok r s c \<longleftrightarrow> rc_indexes c = [] \<or> link_weights r s (rc_weights c)"

lemma link_weights_ex: "net_inv s \<Longrightarrow> \<exists>ws. link_weights r s ws"
  unfolding link_weights_def using edge_weights_live [of "map fst (edges s)" s r] edge_nodes [of s] by auto

lemma get_routes_weights_spec:
  assumes "net_inv s" "route_mode_of r = RM_WEIGHTS" "context_ok r s c" "link_weights r s ws"
    and "sp s ws (get_vertex src) = Inr pred" "predecessor_tree s (get_vertex src) pred"
    and "\<forall>p\<in>set pids. get_vertex p \<in> fst ` set (nodes s)" "distinct (map fst pids)"
  shows "\<exists>c'. get_routes sp r src s pids c = Inr (c', True) \<and> context_ok r s c' \<and>
    (\<forall>q. q \<notin> fst ` set pids \<longrightarrow> rc_result c' q = None) \<and>
    (\<forall>p\<in>set pids. if get_vertex p \<noteq> get_vertex src \<and> (get_vertex src, get_vertex p) \<in> (linked s)\<^sup>*
       then \<exists>rt. rc_result c' (fst p) = Some rt \<and> route_ok s (get_vertex src) p rt else rc_result c' (fst p) = None)"
proof -
  define c1 where "c1 = (if rc_indexes c \<noteq> [] then c else c\<lparr>rc_indexes := map fst (nodes s), rc_weights := ws\<rparr>)"
  have c1: "rc_weights c1 = ws" using assms(3,4) by (auto simp: c1_def context_ok_def link_weights_def)
  obtain c' where c': "weights_loop s pred (get_vertex src) pids (c1\<lparr>rc_result := Map.empty\<rparr>) = Inr c'" "rc_weights c' = rc_weights c1"
      "\<forall>q. q \<notin> fst ` set pids \<longrightarrow> rc_result c' q = None"
      "\<forall>p\<in>set pids. if pred (get_vertex p) = get_vertex p then rc_result c' (fst p) = None
         else \<exists>rt. rc_result c' (fst p) = Some rt \<and> route_ok s (get_vertex src) p rt"
    using weights_loop_spec [OF assms(6,1,7,8), of "c1\<lparr>rc_result := Map.empty\<rparr>"] by auto
  have "get_routes sp r src s pids c = Inr (c', True)"
    using assms(2,4,5) c'(1) c1 by (cases "rc_indexes c = []") (simp_all add: get_routes_def get_routes_weights_def link_weights_def c1_def)
  moreover have "context_ok r s c'" using c'(2) c1 assms(4) by (simp add: context_ok_def)
  moreover have "pred (get_vertex p) \<noteq> get_vertex p \<longleftrightarrow> get_vertex p \<noteq> get_vertex src \<and> (get_vertex src, get_vertex p) \<in> (linked s)\<^sup>*" if "p \<in> set pids" for p
    using assms(6,7) that unfolding predecessor_tree_def by blast
  then have "\<forall>p\<in>set pids. if get_vertex p \<noteq> get_vertex src \<and> (get_vertex src, get_vertex p) \<in> (linked s)\<^sup>*
       then \<exists>rt. rc_result c' (fst p) = Some rt \<and> route_ok s (get_vertex src) p rt else rc_result c' (fst p) = None"
    using c'(4) by meson
  ultimately show ?thesis using c'(3) by blast
qed

text \<open>
  Property C19. In the mode with weights the routes that are computed from a PID are paths in the network: a
  route starts at the vertex of the source, ends at the destination, follows links, and names at each hop
  the PID of the vertex. Every other PID that can be reached has one, and no PID that cannot. The source
  terminates: tracing the predecessors back takes fewer steps than there are nodes.
\<close>
theorem weight_routes_are_paths:
  assumes "net_inv s" "route_mode_of r = RM_WEIGHTS" "link_weights r s ws"
    and "sp s ws (get_vertex src) = Inr pred" "predecessor_tree s (get_vertex src) pred"
    and "\<forall>p\<in>set pids. get_vertex p \<in> fst ` set (nodes s)" "distinct (map fst pids)"
  shows "\<exists>c. get_routes sp r src s pids RouteComputationContext = Inr (c, True) \<and>
    (\<forall>p\<in>set pids. case rc_result c (fst p) of
        None \<Rightarrow> get_vertex p = get_vertex src \<or> (get_vertex src, get_vertex p) \<notin> (linked s)\<^sup>*
      | Some rt \<Rightarrow> get_vertex p \<noteq> get_vertex src \<and> route_ok s (get_vertex src) p rt)"
proof -
  have "context_ok r s RouteComputationContext" by (simp add: context_ok_def RouteComputationContext_def)
  from get_routes_weights_spec [where sp = sp and src = src, OF assms(1,2) this assms(3-7)] obtain c where c: "get_routes sp r src s pids RouteComputationContext = Inr (c, True)"
    "\<forall>p\<in>set pids. if get_vertex p \<noteq> get_vertex src \<and> (get_vertex src, get_vertex p) \<in> (linked s)\<^sup>*
       then \<exists>rt. rc_result c (fst p) = Some rt \<and> route_ok s (get_vertex src) p rt else rc_result c (fst p) = None" by blast
  then show ?thesis by (auto split: if_splits)
qed

section \<open>Static routes are a multiset\<close>

definition static_inv :: "pid_routing \<Rightarrow> bool" where
  "static_inv r \<longleftrightarrow> route_mode_of r = RM_STATIC \<and> distinct (map fst (static_routes r)) \<and> (\<forall>x\<in>set (static_routes r). fst x < next_route r)"

definition routes_of :: "pid_routing \<Rightarrow> named_route multiset" where
  "routes_of r = mset (get_static_routes r)"

datatype route_op = Add_Route named_route | Remove_Route named_route | Clear_Routes

fun route_step :: "pid_routing \<Rightarrow> route_op \<Rightarrow> (pid_routing \<times> bool) result" where
  "route_step r (Add_Route v) = add_static_route r v"
| "route_step r (Remove_Route v) = remove_static_route r v"
| "route_step r Clear_Routes = clear_static_routes r"

fun route_run :: "pid_routing \<Rightarrow> route_op list \<Rightarrow> (pid_routing \<times> bool list) result" where
  "route_run r [] = Inr (r, [])"
| "route_run r (op # ops) = bindE (route_step r op) (\<lambda>(r', b). bindE (route_run r' ops) (\<lambda>(r'', bs). Inr (r'', b # bs)))"

fun bag_step :: "named_route multiset \<Rightarrow> route_op \<Rightarrow> named_route multiset \<times> bool" where
  "bag_step M (Add_Route v) = (if length v < 2 then (M, False) else (add_mset v M, True))"
| "bag_step M (Remove_Route v) = (if length v < 2 \<or> v \<notin># M then (M, False) else (M - {#v#}, True))"
| "bag_step M Clear_Routes = ({#}, True)"

fun bag_run :: "named_route multiset \<Rightarrow> route_op list \<Rightarrow> named_route multiset \<times> bool list" where
  "bag_run M [] = (M, [])"
| "bag_run M (op # ops) = (case bag_step M op of (M', b) \<Rightarrow> (case bag_run M' ops of (M'', bs) \<Rightarrow> (M'', b # bs)))"

lemma rt_touched [simp]:
  fixes r :: pid_routing
  shows "static_routes (touched r) = static_routes r" "route_mode_of (touched r) = route_mode_of r" "next_route (touched r) = next_route r"
  "static_route_ptrs (touched r) = static_route_ptrs r" "weights (touched r) = weights r" "default_weight (touched r) = default_weight r"
  by (cases r; simp add: touched_def)+

lemma mset_insert_route: "mset (insert_route x xs) = add_mset x (mset xs)"
  by (induction xs) auto

lemma set_insert_route: "set (insert_route x xs) = insert x (set xs)"
  by (induction xs) auto

lemma add_ptrs_fields [simp]:
  "static_routes (add_static_route_ptrs r x) = static_routes r" "route_mode_of (add_static_route_ptrs r x) = route_mode_of r"
  "next_route (add_static_route_ptrs r x) = next_route r" "writing (add_static_route_ptrs r x) = writing r"
  by (simp_all add: add_static_route_ptrs_def)

lemma distinct_insert_route: "distinct (map fst (insert_route x xs)) \<longleftrightarrow> fst x \<notin> fst ` set xs \<and> distinct (map fst xs)"
  by (induction xs) (auto simp: set_insert_route)

lemma route_step_refines:
  assumes "static_inv r" "writing r"
  shows "\<exists>r' b. route_step r op = Inr (r', b) \<and> static_inv r' \<and> writing r' \<and> bag_step (routes_of r) op = (routes_of r', b)"
proof (cases op)
  case (Add_Route v)
  show ?thesis
  proof (cases "length v < 2")
    case False
    have fresh: "next_route r \<notin> fst ` set (static_routes r)" using assms(1) by (auto simp: static_inv_def)
    let ?x = "(next_route r, v)"
    let ?r = "add_static_route_ptrs (r\<lparr>static_routes := insert_route ?x (static_routes r), next_route := next_route r + 1\<rparr>) ?x"
    have "route_step r op = Inr (touched ?r, True)"
      using Add_Route False assms by (simp add: add_static_route_def static_inv_def Let_def changed_writing)
    moreover have "static_inv (touched ?r)"
      using assms(1) fresh by (auto simp: static_inv_def distinct_insert_route set_insert_route less_Suc_eq)
    moreover have "routes_of (touched ?r) = add_mset v (routes_of r)"
      by (simp add: routes_of_def get_static_routes_def mset_insert_route)
    ultimately show ?thesis using Add_Route False assms(2) by auto
  qed (use Add_Route assms in \<open>auto simp: add_static_route_def static_inv_def\<close>)
next
  case (Remove_Route v)
  let ?found = "find (\<lambda>(_, rt). rt = v) (get_static_routes_between r (hd v) (last v))"
  show ?thesis
  proof (cases "length v < 2 \<or> ?found = None")
    case True
    have "v \<notin># routes_of r" if "?found = None"
      using that by (auto simp: find_None_iff get_static_routes_between_def routes_of_def get_static_routes_def endpoints_def)
    then show ?thesis using True Remove_Route assms by (auto simp: remove_static_route_def)
  next
    case False
    then obtain a rt where f: "?found = Some (a, rt)" by auto
    then have "(a, rt) \<in> set (get_static_routes_between r (hd v) (last v))" "rt = v"
      unfolding find_Some_iff by (auto simp: in_set_conv_nth)
    then have mem: "(a, v) \<in> set (static_routes r)" "rt = v" by (auto simp: get_static_routes_between_def)
    have dist: "distinct (map fst (static_routes r))" using assms(1) by (simp add: static_inv_def)
    then have "map_of (static_routes r) a = Some v" using mem by simp
    then obtain ps where "remove_static_route_ptrs (\<lambda>_. None) r a = Inr (r\<lparr>static_route_ptrs := ps\<rparr>)"
      using assms(1) by (simp add: remove_static_route_ptrs_def deref_route_def static_inv_def)
    moreover define r' where "r' = touched (r\<lparr>static_route_ptrs := ps, static_routes := filter (\<lambda>(b, _). b \<noteq> a) (static_routes r)\<rparr>)"
    ultimately have "route_step r op = Inr (r', True)"
      using False f Remove_Route assms(2) by (auto simp: remove_static_route_def changed_writing)
    moreover have "static_inv r'" using assms(1) by (auto simp: static_inv_def r'_def distinct_map_filter)
    moreover have "routes_of r' = routes_of r - {#v#}"
    proof -
      have "mset (filter (\<lambda>(b, _). b \<noteq> a) xs) = mset xs - {#(a, v)#}" if "distinct (map fst xs)" "(a, v) \<in> set xs" for xs :: "(nat \<times> named_route) list"
        using that
      proof (induction xs)
        case (Cons y xs)
        show ?case
        proof (cases "fst y = a")
          case True
          then have "y = (a, v)" "\<forall>z\<in>set xs. fst z \<noteq> a" using Cons.prems by (auto simp: image_iff)
          then have "filter (\<lambda>(b, _). b \<noteq> a) xs = xs" by (intro filter_True) auto
          then show ?thesis using \<open>y = (a, v)\<close> by simp
        qed (use Cons in \<open>auto\<close>)
      qed simp
      then show ?thesis using mem dist by (simp add: routes_of_def get_static_routes_def r'_def image_mset_Diff)
    qed
    moreover have "v \<in># routes_of r" using mem by (force simp: routes_of_def get_static_routes_def)
    ultimately show ?thesis using False Remove_Route assms(2) by (auto simp: r'_def)
  qed
next
  case Clear_Routes
  then show ?thesis using assms by (auto simp: clear_static_routes_def static_inv_def changed_writing routes_of_def get_static_routes_def)
qed

text \<open>
  In the static mode every sequence of additions, removals and clearings does to the routes
  what it does to a multiset, with the same answers: a route may be entered twice, a removal takes one
  occurrence, and routes of fewer than two hops are refused.
\<close>
theorem static_routes_refine:
  assumes "static_inv r" "writing r"
  shows "\<exists>r' bs. route_run r ops = Inr (r', bs) \<and> static_inv r' \<and> bag_run (routes_of r) ops = (routes_of r', bs)"
  using assms
proof (induction ops arbitrary: r)
  case (Cons op ops)
  obtain r1 b where s: "route_step r op = Inr (r1, b)" "static_inv r1" "writing r1" "bag_step (routes_of r) op = (routes_of r1, b)"
    using route_step_refines [OF Cons.prems] by blast
  then show ?case using Cons.IH [OF s(2,3)] by auto
qed simp

section \<open>The routes of a small network\<close>

lemma small_net_linked: "linked small_net = {(1, 3), (2, 3)}"
  by (auto simp: linked_def edge_between_def small_net_sel split: if_splits)

definition small_preds :: "net_vertex \<Rightarrow> net_vertex" where
  "small_preds v = (if v = 3 then 1 else v)"

lemma small_tree: "predecessor_tree small_net 1 small_preds"
proof -
  have "(1, 2) \<notin> {(1, 3), (2, 3 :: nat)}\<^sup>*" by (auto elim: rtranclE)
  moreover have "(small_preds ^^ 1) 3 = 1" by (simp add: small_preds_def)
  ultimately show ?thesis
    unfolding predecessor_tree_def small_net_linked by (auto simp: small_net_sel small_preds_def intro: exI [of _ "Suc 0"])
qed

theorem weight_routes_are_paths_witness:
  "\<exists>c rt. get_routes (\<lambda>_ _ _. Inr small_preds) (PIDRouting 0 0 (Num 1)) (PID ''isp'' 1 False, [1]) small_net
      [(PID ''isp'' 1 False, [1]), (PID ''isp'' 2 False, [2]), (PID ''isp'' 3 False, [3])] RouteComputationContext = Inr (c, True) \<and>
    rc_result c (PID ''isp'' 3 False) = Some rt \<and> get_vertex (hd rt) = 1"
proof -
  let ?r = "PIDRouting 0 0 (Num 1)" and ?src = "(PID ''isp'' 1 False, [1 :: nat])"
    and ?ps = "[(PID ''isp'' 1 False, [1]), (PID ''isp'' 2 False, [2]), (PID ''isp'' 3 False, [3 :: nat])]"
  have r: "route_mode_of ?r = RM_WEIGHTS" by (simp add: PIDRouting_def dist_object.defs)
  obtain ws where ws: "link_weights ?r small_net ws" using link_weights_ex [OF small_net_inv] by blast
  have src: "get_vertex ?src = 1" by (simp add: get_vertex_def)
  have live: "\<forall>p\<in>set ?ps. get_vertex p \<in> fst ` set (nodes small_net)" "distinct (map fst ?ps)"
    by (auto simp: get_vertex_def small_net_sel)
  have yes: "(1, 3) \<in> {(1, 3), (2, 3 :: nat)}\<^sup>*" by auto
  obtain c where c: "get_routes (\<lambda>_ _ _. Inr small_preds) ?r ?src small_net ?ps RouteComputationContext = Inr (c, True)"
    "\<forall>p\<in>set ?ps. case rc_result c (fst p) of
        None \<Rightarrow> get_vertex p = get_vertex ?src \<or> (get_vertex ?src, get_vertex p) \<notin> (linked small_net)\<^sup>*
      | Some rt \<Rightarrow> get_vertex p \<noteq> get_vertex ?src \<and> route_ok small_net (get_vertex ?src) p rt"
    using weight_routes_are_paths [where sp = "\<lambda>_ _ _. Inr small_preds" and src = ?src and pred = small_preds, OF small_net_inv r ws refl _ live] small_tree
    unfolding src by blast
  obtain rt where "rc_result c (PID ''isp'' 3 False) = Some rt" "route_ok small_net 1 (PID ''isp'' 3 False, [3]) rt"
    using c(2) yes unfolding src small_net_linked by (auto simp: get_vertex_def split: option.splits)
  then show ?thesis using c(1) unfolding route_ok_def by blast
qed

end
