(* ===== verification/Distance_Properties.thy ===== *)
theory Distance_Properties
  imports View_Update Routing_Properties
begin

text \<open>
  The matrices that an update of a view computes, entry by entry: the distance between two PIDs of the
  domain is the sum of the costs of the links on the route between them, and the distance to or from an
  external PID is the cost of the link across the border, with the distance inside the domain added when
  the view asks for it.
\<close>

section \<open>Matrices by their entries\<close>

definition mx_is :: "server_matrix \<Rightarrow> pid list \<Rightarrow> (pid \<Rightarrow> pid \<Rightarrow> cost) \<Rightarrow> bool" where
  "mx_is m ps E \<longleftrightarrow> mx_ok m \<and> mx_pids m = ps \<and> (\<forall>a b. mx_entry m a b = E a b)"

lemma mx_is_get: "mx_is m ps E \<Longrightarrow> mx_get_by_pid m a b d = (if E a b = NAN then d else E a b)"
  by (simp add: mx_is_def mx_get_by_pid_entry)

lemma mx_is_set_by_pid:
  assumes "mx_is m ps E"
  shows "\<exists>m' b. mx_set_by_pid m p q v = Inr (m', b) \<and> mx_is m' ps (\<lambda>x y. if x = p \<and> y = q \<and> p \<in> set ps \<and> q \<in> set ps then v else E x y)"
proof (cases "p \<in> set ps \<and> q \<in> set ps")
  case True
  then show ?thesis using mx_set_by_pid_spec [of m p q v] assms by (auto simp: mx_is_def)
next
  case False
  then have "mx_set_by_pid m p q v = Inr (m, False)" using mx_set_by_pid_spec [of m p q v] assms by (auto simp: mx_is_def)
  then show ?thesis using False assms by (auto simp: mx_is_def)
qed

lemma mx_is_set:
  assumes "mx_is m ps E" "i < length ps" "j < length ps"
  shows "\<exists>m'. mx_set m i j v = Inr m' \<and> mx_is m' ps (\<lambda>x y. if x = ps ! i \<and> y = ps ! j then v else E x y)"
proof -
  have "distinct ps" using assms(1) strict_sorted_iff by (auto simp: mx_is_def mx_ok_def mx_inv_def)
  then have ij: "index_of ps (ps ! i) = Some i" "index_of ps (ps ! j) = Some j" using assms(2,3) index_of_nth by blast+
  have "mx_set_by_pid m (ps ! i) (ps ! j) v = bindE (mx_set m i j v) (\<lambda>m'. Inr (m', True))"
    using assms(1) ij by (simp add: mx_is_def mx_set_by_pid_def)
  moreover obtain m' b where "mx_set_by_pid m (ps ! i) (ps ! j) v = Inr (m', b)"
      "mx_is m' ps (\<lambda>x y. if x = ps ! i \<and> y = ps ! j \<and> ps ! i \<in> set ps \<and> ps ! j \<in> set ps then v else E x y)"
    using mx_is_set_by_pid [OF assms(1)] by blast
  ultimately show ?thesis using assms(2,3) by (cases "mx_set m i j v") (auto cong: if_cong)
qed

section \<open>Explicit links\<close>

lemma explicit_links_spec:
  assumes "mx_is m ps E"
  shows "\<exists>m'. explicit_links st dy df ls m = Inr m' \<and>
    mx_is m' ps (\<lambda>a b. if (a, b) \<in> set ls \<and> a \<in> set ps \<and> b \<in> set ps then link_cost st dy df a b else E a b)"
  using assms
proof (induction ls arbitrary: m E)
  case (Cons l ls)
  obtain m1 b where m1: "mx_set_by_pid m (fst l) (snd l) (link_cost st dy df (fst l) (snd l)) = Inr (m1, b)"
    "mx_is m1 ps (\<lambda>x y. if x = fst l \<and> y = snd l \<and> fst l \<in> set ps \<and> snd l \<in> set ps then link_cost st dy df (fst l) (snd l) else E x y)"
    using mx_is_set_by_pid [OF Cons.prems] by blast
  obtain m' where m': "explicit_links st dy df ls m1 = Inr m'"
    "mx_is m' ps (\<lambda>a b. if (a, b) \<in> set ls \<and> a \<in> set ps \<and> b \<in> set ps then link_cost st dy df a b
       else if a = fst l \<and> b = snd l \<and> fst l \<in> set ps \<and> snd l \<in> set ps then link_cost st dy df (fst l) (snd l) else E a b)"
    using Cons.IH [OF m1(2)] by blast
  have "mx_is m' ps (\<lambda>a b. if (a, b) \<in> set (l # ls) \<and> a \<in> set ps \<and> b \<in> set ps then link_cost st dy df a b else E a b)"
    using m'(2) by (auto simp: mx_is_def)
  then show ?case using m1(1) m'(1) by simp
qed simp

lemma interdomain_links_live:
  assumes "\<forall>e\<in>set es. fst e \<in> fst ` set (nodes s) \<and> fst (snd e) \<in> fst ` set (nodes s)"
  shows "\<exists>ls. find_interdomain_links s es = Inr ls \<and>
    (\<forall>a b. (a, b) \<in> set ls \<longleftrightarrow> get_external a \<noteq> get_external b \<and> (\<exists>e\<in>set es. get_pid s (fst e) = Inr a \<and> get_pid s (fst (snd e)) = Inr b))"
  using assms
proof (induction es)
  case (Cons e es)
  obtain p q where "get_pid s (fst e) = Inr p" "get_pid s (fst (snd e)) = Inr q" using Cons.prems get_pid_live [of _ s] by (metis list.set_intros(1))
  moreover obtain ls where "find_interdomain_links s es = Inr ls"
    "\<forall>a b. (a, b) \<in> set ls \<longleftrightarrow> get_external a \<noteq> get_external b \<and> (\<exists>e\<in>set es. get_pid s (fst e) = Inr a \<and> get_pid s (fst (snd e)) = Inr b)"
    using Cons by auto
  ultimately show ?case by auto
qed simp

section \<open>Routes do not depend on the context\<close>

lemma static_loop_context:
  assumes "rc_result c = rc_result d" "static_loop r src pids ds d = (d', ok)"
  shows "static_loop r src pids ds c = (c\<lparr>rc_result := rc_result d'\<rparr>, ok)"
  using assms
proof (induction ds arbitrary: c d)
  case (Cons x ds)
  show ?case
  proof (cases "\<exists>rt. get_static_route r src (fst x) = Some rt \<and> pin_hops pids rt \<noteq> None")
    case True
    then obtain rt fwd where f: "get_static_route r src (fst x) = Some rt" "pin_hops pids rt = Some fwd" by auto
    have "rc_result (c\<lparr>rc_result := (rc_result c)(fst x \<mapsto> fwd)\<rparr>) = rc_result (d\<lparr>rc_result := (rc_result d)(fst x \<mapsto> fwd)\<rparr>)"
      using Cons.prems(1) by simp
    from Cons.IH [OF this] show ?thesis using Cons.prems(2) f by simp
  next
    case False
    then show ?thesis using Cons.prems Cons.IH [OF Cons.prems(1)] by (auto split: option.splits)
  qed
qed simp

lemma weights_loop_context:
  assumes "rc_result c = rc_result d" "weights_loop s pred src ps d = Inr d'"
  shows "weights_loop s pred src ps c = Inr (c\<lparr>rc_result := rc_result d'\<rparr>)"
  using assms
proof (induction ps arbitrary: c d)
  case (Cons p ps)
  show ?case
  proof (cases "pred (get_vertex p) = get_vertex p")
    case True
    then show ?thesis using Cons by simp
  next
    case False
    obtain q where q: "get_pid s (pred (get_vertex p)) = Inr q" using Cons.prems(2) False by (cases "get_pid s (pred (get_vertex p))") auto
    let ?t = "trace_back (length (nodes s)) s pred src (pred (get_vertex p)) [(fst p, [get_vertex p]), (q, [pred (get_vertex p)])]"
    obtain rt where rt: "?t = Inr rt" using Cons.prems(2) False q by (cases ?t) auto
    have "rc_result (c\<lparr>rc_result := (rc_result c)(fst p \<mapsto> rev rt)\<rparr>) = rc_result (d\<lparr>rc_result := (rc_result d)(fst p \<mapsto> rev rt)\<rparr>)"
      using Cons.prems(1) by simp
    from Cons.IH [OF this] show ?thesis using Cons.prems(2) False q rt by simp
  qed
qed simp

lemma get_routes_context:
  assumes "get_routes sp r src s pids RouteComputationContext = Inr (d, ok)" "context_ok r s c"
  shows "\<exists>c'. get_routes sp r src s pids c = Inr (c', ok) \<and> rc_result c' = rc_result d \<and> context_ok r s c'"
proof (cases "route_mode_of r")
  case RM_STATIC
  have "get_routes_static r src pids c = (c\<lparr>rc_result := rc_result d\<rparr>, ok)"
    using assms(1) RM_STATIC static_loop_context [of "c\<lparr>rc_result := Map.empty\<rparr>" "RouteComputationContext\<lparr>rc_result := Map.empty\<rparr>" r "fst src" pids pids d ok]
    by (simp add: get_routes_def get_routes_static_def)
  then show ?thesis using RM_STATIC assms(2) by (simp add: get_routes_def context_ok_def)
next
  case RM_WEIGHTS
  obtain ws where ws: "link_weights r s ws"
    using assms(1) RM_WEIGHTS by (cases "edge_weights_of r s (map fst (edges s))") (auto simp: get_routes_def get_routes_weights_def link_weights_def RouteComputationContext_def)
  define c1 where "c1 = (if rc_indexes c \<noteq> [] then c else c\<lparr>rc_indexes := map fst (nodes s), rc_weights := ws\<rparr>)"
  have c1: "rc_weights c1 = ws" using assms(2) ws by (auto simp: c1_def context_ok_def link_weights_def)
  obtain pred where pred: "sp s ws (get_vertex src) = Inr pred"
    using assms(1) RM_WEIGHTS ws by (cases "sp s ws (get_vertex src)") (auto simp: get_routes_def get_routes_weights_def link_weights_def RouteComputationContext_def)
  let ?d = "RouteComputationContext\<lparr>rc_indexes := map fst (nodes s), rc_weights := ws, rc_result := Map.empty\<rparr>"
  have d: "weights_loop s pred (get_vertex src) pids ?d = Inr d" "ok"
    using assms(1) RM_WEIGHTS ws pred
    by (cases "weights_loop s pred (get_vertex src) pids ?d"; simp add: get_routes_def get_routes_weights_def link_weights_def RouteComputationContext_def)+
  have "weights_loop s pred (get_vertex src) pids (c1\<lparr>rc_result := Map.empty\<rparr>) = Inr (c1\<lparr>rc_result := rc_result d\<rparr>)"
    using weights_loop_context [OF _ d(1), of "c1\<lparr>rc_result := Map.empty\<rparr>"] by simp
  then have "get_routes sp r src s pids c = Inr (c1\<lparr>rc_result := rc_result d\<rparr>, ok)"
    using RM_WEIGHTS ws pred c1 d(2) by (cases "rc_indexes c = []") (simp_all add: get_routes_def get_routes_weights_def link_weights_def c1_def)
  then show ?thesis using ws c1 by (simp add: context_ok_def)
qed

lemma routes_from_context:
  assumes "routes_from u a RouteComputationContext = Inr d" "context_ok (ui_routing u) (ui_net u) c"
  shows "\<exists>c'. routes_from u a c = Inr c' \<and> rc_result c' = rc_result d \<and> context_ok (ui_routing u) (ui_net u) c'"
proof -
  obtain src where src: "find_pinned (ui_pids u) a = Some src" using assms(1) by (auto simp: routes_from_def split: option.splits)
  let ?g = "get_routes (ui_paths u) (ui_routing u) src (ui_net u) (ui_pids u) RouteComputationContext"
  obtain ok where "?g = Inr (d, ok)" using assms(1) src by (cases ?g) (auto simp: routes_from_def)
  from get_routes_context [OF this assms(2)] show ?thesis using src by (auto simp: routes_from_def)
qed

definition routes_are :: "update_input \<Rightarrow> pid set \<Rightarrow> (pid \<Rightarrow> pid \<rightharpoonup> pinned_route) \<Rightarrow> bool" where
  "routes_are u A R \<longleftrightarrow> (\<forall>a\<in>A. \<exists>d. routes_from u a RouteComputationContext = Inr d \<and> rc_result d = R a)"

section \<open>The intradomain matrix\<close>

text \<open>The distance of two PIDs of the domain.\<close>

definition intra_dist :: "update_input \<Rightarrow> (pid \<rightharpoonup> pinned_route) \<Rightarrow> pid \<Rightarrow> pid \<Rightarrow> cost" where
  "intra_dist u R a b = (if a = b then ui_intrapid u else case R b of None \<Rightarrow> ui_interpid u | Some rt \<Rightarrow> route_cost u rt)"

lemma intra_row_spec:
  assumes "mx_is m ps E" "distinct ps" "i < length ps" "\<forall>(j, q)\<in>set ds. j < length ps \<and> ps ! j = q"
  shows "\<exists>m'. intra_row u c i ds m = Inr m' \<and>
    mx_is m' ps (\<lambda>x y. if x = ps ! i \<and> y \<in> snd ` set ds then intra_dist u (rc_result c) x y else E x y)"
  using assms(1,4)
proof (induction ds arbitrary: m E)
  case (Cons d ds)
  obtain j q where d: "d = (j, q)" by (cases d)
  have j: "j < length ps" "ps ! j = q" using Cons.prems(2) d by auto
  let ?v = "if i = j then ui_intrapid u else case rc_result c q of None \<Rightarrow> ui_interpid u | Some rt \<Rightarrow> route_cost u rt"
  have v: "?v = intra_dist u (rc_result c) (ps ! i) q" using j assms(2,3) nth_eq_iff_index_eq by (auto simp: intra_dist_def)
  obtain m1 where m1: "mx_set m i j ?v = Inr m1" "mx_is m1 ps (\<lambda>x y. if x = ps ! i \<and> y = ps ! j then ?v else E x y)"
    using mx_is_set [OF Cons.prems(1) assms(3) j(1)] by blast
  obtain m' where m': "intra_row u c i ds m1 = Inr m'"
      "mx_is m' ps (\<lambda>x y. if x = ps ! i \<and> y \<in> snd ` set ds then intra_dist u (rc_result c) x y else if x = ps ! i \<and> y = ps ! j then ?v else E x y)"
    using Cons.IH [OF m1(2)] Cons.prems(2) by auto
  have "mx_is m' ps (\<lambda>x y. if x = ps ! i \<and> y \<in> snd ` set (d # ds) then intra_dist u (rc_result c) x y else E x y)"
    using m'(2) j(2) v d by (auto simp: mx_is_def)
  then show ?case using m1(1) m'(1) d by simp
qed simp

section \<open>Across the border\<close>

definition egress_val :: "update_input \<Rightarrow> (pid \<rightharpoonup> pinned_route) \<Rightarrow> (pid \<Rightarrow> pid \<Rightarrow> cost) \<Rightarrow> (pid \<Rightarrow> pid \<Rightarrow> cost) \<Rightarrow> pid \<Rightarrow> pid \<Rightarrow> cost" where
  "egress_val u R I E a x =
     (case R x of
        None \<Rightarrow> ui_interdomain u
      | Some rt \<Rightarrow>
          if length rt < 2 then ui_interdomain u
          else let e = fst (rt ! (length rt - 2)) in if ui_includes u then cost_add (ui_fl u) (E e x) (I a e) else E e x)"

definition ingress_val :: "update_input \<Rightarrow> (pid \<rightharpoonup> pinned_route) \<Rightarrow> (pid \<Rightarrow> pid \<Rightarrow> cost) \<Rightarrow> (pid \<Rightarrow> pid \<Rightarrow> cost) \<Rightarrow> pid \<Rightarrow> pid \<Rightarrow> cost" where
  "ingress_val u R I E x b =
     (case R b of
        None \<Rightarrow> ui_interdomain u
      | Some rt \<Rightarrow>
          if length rt < 2 then ui_interdomain u
          else let e = fst (rt ! 1) in if ui_includes u then cost_add (ui_fl u) (E x e) (I e b) else E x e)"

lemma mx_is_get_NAN: "mx_is m ps E \<Longrightarrow> mx_get_by_pid m a b NAN = E a b"
  by (simp add: mx_is_get)

lemma egress_cost_val:
  assumes "mx_is intra ps I" "mx_is outer qs E"
  shows "egress_cost u c intra outer a x = egress_val u (rc_result c) I E a x"
  unfolding egress_cost_def egress_val_def mx_is_get_NAN [OF assms(1)] mx_is_get_NAN [OF assms(2)]
  by (simp add: Let_def split: option.splits)

lemma ingress_cost_val:
  assumes "mx_is intra ps I" "mx_is outer qs E"
  shows "ingress_cost u c intra outer x b = ingress_val u (rc_result c) I E x b"
  unfolding ingress_cost_def ingress_val_def mx_is_get_NAN [OF assms(1)] mx_is_get_NAN [OF assms(2)]
  by (simp add: Let_def split: option.splits)

lemma egress_val_cong:
  assumes "\<And>e. E e x = F e x"
  shows "egress_val u R I E a x = egress_val u R I F a x"
  using assms by (simp add: egress_val_def Let_def split: option.splits)

lemma egress_loop_spec:
  assumes "mx_is intra ps I" "mx_is outer qs E" "distinct xs"
  shows "\<exists>outer'. egress_loop u c intra a xs outer = Inr outer' \<and>
    mx_is outer' qs (\<lambda>p q. if p = a \<and> q \<in> set xs \<and> a \<in> set qs \<and> q \<in> set qs \<and> E a q = NAN then egress_val u (rc_result c) I E a q else E p q)"
  using assms(2,3)
proof (induction xs arbitrary: outer E)
  case (Cons x xs)
  show ?case
  proof (cases "E a x = NAN")
    case False
    then have "mx_get_by_pid outer a x NAN \<noteq> NAN" using mx_is_get_NAN [OF Cons.prems(1)] by simp
    moreover obtain o' where o': "egress_loop u c intra a xs outer = Inr o'"
      "mx_is o' qs (\<lambda>p q. if p = a \<and> q \<in> set xs \<and> a \<in> set qs \<and> q \<in> set qs \<and> E a q = NAN then egress_val u (rc_result c) I E a q else E p q)"
      using Cons.IH [OF Cons.prems(1)] Cons.prems(2) by auto
    moreover have "mx_is o' qs (\<lambda>p q. if p = a \<and> q \<in> set (x # xs) \<and> a \<in> set qs \<and> q \<in> set qs \<and> E a q = NAN then egress_val u (rc_result c) I E a q else E p q)"
      using o'(2) False by (auto simp: mx_is_def)
    ultimately show ?thesis by simp
  next
    case True
    let ?v = "egress_val u (rc_result c) I E a x"
    let ?F = "\<lambda>p q. if p = a \<and> q = x \<and> a \<in> set qs \<and> x \<in> set qs then ?v else E p q"
    have "mx_get_by_pid outer a x NAN = NAN" using True mx_is_get_NAN [OF Cons.prems(1)] by simp
    moreover obtain o1 b where o1: "mx_set_by_pid outer a x ?v = Inr (o1, b)" "mx_is o1 qs ?F"
      using mx_is_set_by_pid [OF Cons.prems(1)] by blast
    moreover obtain o' where o': "egress_loop u c intra a xs o1 = Inr o'"
      "mx_is o' qs (\<lambda>p q. if p = a \<and> q \<in> set xs \<and> a \<in> set qs \<and> q \<in> set qs \<and> ?F a q = NAN then egress_val u (rc_result c) I ?F a q else ?F p q)"
      using Cons.IH [OF o1(2)] Cons.prems(2) by auto
    moreover have "egress_val u (rc_result c) I ?F a q = egress_val u (rc_result c) I E a q" if "q \<in> set xs" for q
      using that Cons.prems(2) by (intro egress_val_cong) auto
    then have "mx_is o' qs (\<lambda>p q. if p = a \<and> q \<in> set (x # xs) \<and> a \<in> set qs \<and> q \<in> set qs \<and> E a q = NAN then egress_val u (rc_result c) I E a q else E p q)"
      using o'(2) True Cons.prems(2) by (auto simp: mx_is_def)
    ultimately show ?thesis using egress_cost_val [OF assms(1) Cons.prems(1), of u c a x] by simp
  qed
qed simp

lemma ingress_val_stable:
  assumes "\<forall>q. E x q \<noteq> NAN \<longrightarrow> F x q = E x q" "\<forall>rt. R b = Some rt \<and> 2 \<le> length rt \<longrightarrow> E x (fst (rt ! 1)) \<noteq> NAN"
  shows "ingress_val u R I F x b = ingress_val u R I E x b"
  using assms by (auto simp: ingress_val_def Let_def not_less split: option.splits)

lemma egress_val_stable:
  assumes "\<forall>p. E p x \<noteq> NAN \<longrightarrow> F p x = E p x" "\<forall>rt. R x = Some rt \<and> 2 \<le> length rt \<longrightarrow> E (fst (rt ! (length rt - 2))) x \<noteq> NAN"
  shows "egress_val u R I F a x = egress_val u R I E a x"
  using assms by (auto simp: egress_val_def Let_def not_less split: option.splits)

lemma ingress_loop_spec:
  assumes "mx_is intra ps I" "mx_is outer qs F" "distinct ys"
    and "\<forall>q. E x q \<noteq> NAN \<longrightarrow> F x q = E x q" "\<forall>q\<in>set ys. F x q = E x q"
    and "\<forall>b\<in>set ys. \<forall>rt. rc_result c b = Some rt \<and> 2 \<le> length rt \<longrightarrow> E x (fst (rt ! 1)) \<noteq> NAN"
  shows "\<exists>outer'. ingress_loop u c intra x ys outer = Inr outer' \<and>
    mx_is outer' qs (\<lambda>p q. if p = x \<and> q \<in> set ys \<and> x \<in> set qs \<and> q \<in> set qs \<and> E x q = NAN then ingress_val u (rc_result c) I E x q else F p q)"
  using assms(2-)
proof (induction ys arbitrary: outer F)
  case (Cons y ys)
  show ?case
  proof (cases "E x y = NAN")
    case False
    then have "mx_get_by_pid outer x y NAN \<noteq> NAN" using mx_is_get_NAN [OF Cons.prems(1)] Cons.prems(4) by simp
    moreover obtain o' where o': "ingress_loop u c intra x ys outer = Inr o'"
      "mx_is o' qs (\<lambda>p q. if p = x \<and> q \<in> set ys \<and> x \<in> set qs \<and> q \<in> set qs \<and> E x q = NAN then ingress_val u (rc_result c) I E x q else F p q)"
      using Cons.IH [OF Cons.prems(1)] Cons.prems(2-) by auto
    moreover have "mx_is o' qs (\<lambda>p q. if p = x \<and> q \<in> set (y # ys) \<and> x \<in> set qs \<and> q \<in> set qs \<and> E x q = NAN then ingress_val u (rc_result c) I E x q else F p q)"
      using o'(2) False by (auto simp: mx_is_def)
    ultimately show ?thesis by simp
  next
    case True
    let ?v = "ingress_val u (rc_result c) I E x y"
    have v: "ingress_val u (rc_result c) I F x y = ?v" using Cons.prems(3,5) by (intro ingress_val_stable) auto
    let ?F = "\<lambda>p q. if p = x \<and> q = y \<and> x \<in> set qs \<and> y \<in> set qs then ?v else F p q"
    have "mx_get_by_pid outer x y NAN = NAN" using True mx_is_get_NAN [OF Cons.prems(1)] Cons.prems(4) by simp
    moreover obtain o1 b where o1: "mx_set_by_pid outer x y ?v = Inr (o1, b)" "mx_is o1 qs ?F"
      using mx_is_set_by_pid [OF Cons.prems(1)] by blast
    have keep: "\<forall>q. E x q \<noteq> NAN \<longrightarrow> ?F x q = E x q" "\<forall>q\<in>set ys. ?F x q = E x q" "distinct ys"
      "\<forall>b\<in>set ys. \<forall>rt. rc_result c b = Some rt \<and> 2 \<le> length rt \<longrightarrow> E x (fst (rt ! 1)) \<noteq> NAN"
      using True Cons.prems(2-) by auto
    obtain o' where o': "ingress_loop u c intra x ys o1 = Inr o'"
      "mx_is o' qs (\<lambda>p q. if p = x \<and> q \<in> set ys \<and> x \<in> set qs \<and> q \<in> set qs \<and> E x q = NAN then ingress_val u (rc_result c) I E x q else ?F p q)"
      using Cons.IH [OF o1(2) keep(3,1,2,4)] by blast
    have "mx_is o' qs (\<lambda>p q. if p = x \<and> q \<in> set (y # ys) \<and> x \<in> set qs \<and> q \<in> set qs \<and> E x q = NAN then ingress_val u (rc_result c) I E x q else F p q)"
      using o'(2) True Cons.prems(2) by (auto simp: mx_is_def)
    then show ?thesis
      using calculation o1(1) o'(1) ingress_cost_val [OF assms(1) Cons.prems(1), of u c x y] v by simp
  qed
qed simp

section \<open>The loops over the sources\<close>

definition intra_val :: "update_input \<Rightarrow> pid list \<Rightarrow> (pid \<Rightarrow> pid \<rightharpoonup> pinned_route) \<Rightarrow> pid \<Rightarrow> pid \<Rightarrow> cost" where
  "intra_val u ps R a b = (if a \<in> set ps \<and> b \<in> set ps then intra_dist u (R a) a b else NAN)"

text \<open>A route that crosses the border does so over a link whose cost is known.\<close>

definition leaves_over_link :: "(pid \<Rightarrow> pid \<Rightarrow> cost) \<Rightarrow> (pid \<Rightarrow> pid \<rightharpoonup> pinned_route) \<Rightarrow> pid set \<Rightarrow> pid set \<Rightarrow> bool" where
  "leaves_over_link E R A X \<longleftrightarrow>
     (\<forall>a\<in>A. \<forall>x\<in>X. \<forall>rt. R a x = Some rt \<and> 2 \<le> length rt \<longrightarrow> E (fst (rt ! (length rt - 2))) x \<noteq> NAN)"

definition enters_over_link :: "(pid \<Rightarrow> pid \<Rightarrow> cost) \<Rightarrow> (pid \<Rightarrow> pid \<rightharpoonup> pinned_route) \<Rightarrow> pid set \<Rightarrow> pid set \<Rightarrow> bool" where
  "enters_over_link E R X A \<longleftrightarrow>
     (\<forall>x\<in>X. \<forall>a\<in>A. \<forall>rt. R x a = Some rt \<and> 2 \<le> length rt \<longrightarrow> E x (fst (rt ! 1)) \<noteq> NAN)"

definition egress_row :: "update_input \<Rightarrow> pid list \<Rightarrow> pid list \<Rightarrow> pid list \<Rightarrow> (pid \<Rightarrow> pid \<rightharpoonup> pinned_route) \<Rightarrow> (pid \<Rightarrow> pid \<Rightarrow> cost) \<Rightarrow> pid \<Rightarrow> pid \<Rightarrow> cost" where
  "egress_row u ps qs xs R E a x =
     (if x \<in> set xs \<and> a \<in> set qs \<and> x \<in> set qs \<and> E a x = NAN then egress_val u (R a) (intra_val u ps R) E a x else E a x)"

definition ingress_row :: "update_input \<Rightarrow> pid list \<Rightarrow> pid list \<Rightarrow> (pid \<Rightarrow> pid \<rightharpoonup> pinned_route) \<Rightarrow> (pid \<Rightarrow> pid \<Rightarrow> cost) \<Rightarrow> pid \<Rightarrow> pid \<Rightarrow> cost" where
  "ingress_row u ps qs R E x b =
     (if b \<in> set ps \<and> x \<in> set qs \<and> b \<in> set qs \<and> E x b = NAN then ingress_val u (R x) (intra_val u ps R) E x b else E x b)"

lemma enumerate_facts:
  "\<forall>(j, q)\<in>set (enumerate 0 ps). j < length ps \<and> ps ! j = q" "snd ` set (enumerate 0 ps) = set ps" "map snd (enumerate 0 ps) = ps"
proof -
  show "\<forall>(j, q)\<in>set (enumerate 0 ps). j < length ps \<and> ps ! j = q" by (simp add: in_set_enumerate_eq split_beta)
  show "map snd (enumerate 0 ps) = ps" by simp
  then show "snd ` set (enumerate 0 ps) = set ps" by (metis list.set_map)
qed

lemma intra_loop_spec:
  assumes "distinct ps" "distinct xs" "distinct (map snd srcs)" "\<forall>(i, p)\<in>set srcs. i < length ps \<and> ps ! i = p"
    and "routes_are u (set ps) R" "context_ok (ui_routing u) (ui_net u) c" "leaves_over_link E R (set ps) (set xs)"
    and "mx_is intra ps I" "\<forall>a b. a \<notin> snd ` set srcs \<longrightarrow> I a b = intra_val u ps R a b"
    and "mx_is outer qs F" "\<forall>a x. E a x \<noteq> NAN \<longrightarrow> F a x = E a x" "\<forall>a\<in>snd ` set srcs. \<forall>x. F a x = E a x"
  shows "\<exists>c' intra' outer'. intra_loop u ps xs srcs (c, intra, outer) = Inr (c', intra', outer') \<and>
    context_ok (ui_routing u) (ui_net u) c' \<and> mx_is intra' ps (intra_val u ps R) \<and>
    mx_is outer' qs (\<lambda>a x. if a \<in> snd ` set srcs then egress_row u ps qs xs R E a x else F a x)"
  using assms(3,4,6,8-)
proof (induction srcs arbitrary: c intra outer I F)
  case Nil
  then show ?case by (simp add: mx_is_def)
next
  case (Cons s srcs)
  obtain i a where s: "s = (i, a)" by (cases s)
  have a: "i < length ps" "ps ! i = a" "a \<in> set ps" using Cons.prems(2) s by auto
  have aps: "a \<notin> snd ` set srcs" using Cons.prems(1) s by simp
  obtain d where d: "routes_from u a RouteComputationContext = Inr d" "rc_result d = R a" using assms(5) a(3) by (auto simp: routes_are_def)
  obtain c1 where c1: "routes_from u a c = Inr c1" "rc_result c1 = R a" "context_ok (ui_routing u) (ui_net u) c1"
    using routes_from_context [OF d(1) Cons.prems(3)] d(2) by auto
  note en = enumerate_facts [of ps]
  obtain intra1 where intra1: "intra_row u c1 i (enumerate 0 ps) intra = Inr intra1"
      "mx_is intra1 ps (\<lambda>x y. if x = a \<and> y \<in> set ps then intra_dist u (R a) x y else I x y)"
    using intra_row_spec [OF Cons.prems(4) assms(1) a(1) en(1), of u c1] unfolding en(2) a(2) c1(2) by blast
  let ?I = "\<lambda>x y. if x = a then intra_val u ps R a y else I x y"
  have I1: "mx_is intra1 ps ?I"
  proof -
    have "mx_entry intra1 a y = NAN" if "y \<notin> set ps" for y using intra1(2) that mx_entry_absent [of a intra1 y] by (auto simp: mx_is_def)
    then show ?thesis using intra1(2) a(3) unfolding mx_is_def intra_val_def by metis
  qed
  obtain outer1 where outer1: "egress_loop u c1 intra1 a xs outer = Inr outer1"
      "mx_is outer1 qs (\<lambda>p q. if p = a \<and> q \<in> set xs \<and> a \<in> set qs \<and> q \<in> set qs \<and> F a q = NAN then egress_val u (R a) ?I F a q else F p q)"
    using egress_loop_spec [OF I1 Cons.prems(6) assms(2), of u c1 a] unfolding c1(2) by blast
  have Fa: "F a q = E a q" for q using Cons.prems(8) s by simp
  have val: "egress_val u (R a) ?I F a x = egress_val u (R a) (intra_val u ps R) E a x" if "x \<in> set xs" for x
  proof -
    have "egress_val u (R a) ?I F a x = egress_val u (R a) ?I E a x"
      using Cons.prems(7) assms(7) a(3) that by (intro egress_val_stable) (auto simp: leaves_over_link_def)
    also have "\<dots> = egress_val u (R a) (intra_val u ps R) E a x" by (simp add: egress_val_def Let_def split: option.splits)
    finally show ?thesis .
  qed
  let ?F = "\<lambda>p q. if p = a then egress_row u ps qs xs R E a q else F p q"
  have F1: "mx_is outer1 qs ?F" using outer1(2) val Fa unfolding mx_is_def egress_row_def by auto
  have prems: "distinct (map snd srcs)" "\<forall>(i, p)\<in>set srcs. i < length ps \<and> ps ! i = p"
      "\<forall>a' b. a' \<notin> snd ` set srcs \<longrightarrow> ?I a' b = intra_val u ps R a' b" "\<forall>a' x. E a' x \<noteq> NAN \<longrightarrow> ?F a' x = E a' x"
    using Cons.prems(1,2,5,7) s by (auto simp: egress_row_def)
  have same: "\<forall>a'\<in>snd ` set srcs. \<forall>x. ?F a' x = E a' x"
  proof
    fix a' assume a': "a' \<in> snd ` set srcs"
    then have "a' \<noteq> a" "a' \<in> snd ` set (s # srcs)" using aps by auto
    moreover have "\<forall>x. F a' x = E a' x" using Cons.prems(8) calculation(2) by blast
    ultimately show "\<forall>x. ?F a' x = E a' x" by simp
  qed
  obtain c' intra' outer' where fin: "intra_loop u ps xs srcs (c1, intra1, outer1) = Inr (c', intra', outer')"
      "context_ok (ui_routing u) (ui_net u) c'" "mx_is intra' ps (intra_val u ps R)"
      "mx_is outer' qs (\<lambda>a' x. if a' \<in> snd ` set srcs then egress_row u ps qs xs R E a' x else ?F a' x)"
    using Cons.IH [OF prems(1,2) c1(3) I1 prems(3) F1 prems(4) same] by blast
  have "mx_is outer' qs (\<lambda>a' x. if a' \<in> snd ` set (s # srcs) then egress_row u ps qs xs R E a' x else F a' x)"
    using fin(4) s aps by (auto simp: mx_is_def)
  then show ?case using s c1(1) intra1(1) outer1(1) fin(1-3) by auto
qed

lemma inter_loop_spec:
  assumes "distinct ps" "mx_is intra ps (intra_val u ps R)" "enters_over_link E R {x \<in> set qs. get_external x} (set ps)"
    and "routes_are u {x \<in> set qs. get_external x} R" "context_ok (ui_routing u) (ui_net u) c" "distinct srcs" "set srcs \<subseteq> set qs"
    and "mx_is outer qs F" "\<forall>x\<in>set srcs. get_external x \<longrightarrow> (\<forall>b. F x b = E x b)"
  shows "\<exists>c' outer'. inter_loop u ps intra srcs (c, outer) = Inr (c', outer') \<and>
    mx_is outer' qs (\<lambda>x b. if x \<in> set srcs \<and> get_external x then ingress_row u ps qs R E x b else F x b)"
  using assms(5-)
proof (induction srcs arbitrary: c outer F)
  case (Cons x srcs)
  show ?case
  proof (cases "get_external x")
    case False
    then show ?thesis using Cons.IH [of c outer F] Cons.prems by (auto simp: mx_is_def)
  next
    case True
    have xq: "x \<in> set qs" "x \<notin> set srcs" using Cons.prems(2,3) by auto
    obtain d where d: "routes_from u x RouteComputationContext = Inr d" "rc_result d = R x" using assms(4) xq True by (auto simp: routes_are_def)
    obtain c1 where c1: "routes_from u x c = Inr c1" "rc_result c1 = R x" "context_ok (ui_routing u) (ui_net u) c1"
      using routes_from_context [OF d(1) Cons.prems(1)] d(2) by auto
    have Fx: "\<forall>q. E x q \<noteq> NAN \<longrightarrow> F x q = E x q" "\<forall>q\<in>set ps. F x q = E x q" using Cons.prems(5) True by auto
    have link: "\<forall>b\<in>set ps. \<forall>rt. rc_result c1 b = Some rt \<and> 2 \<le> length rt \<longrightarrow> E x (fst (rt ! 1)) \<noteq> NAN"
      using assms(3) xq True unfolding c1(2) enters_over_link_def by blast
    obtain o1 where o1: "ingress_loop u c1 intra x ps outer = Inr o1"
        "mx_is o1 qs (\<lambda>p q. if p = x \<and> q \<in> set ps \<and> x \<in> set qs \<and> q \<in> set qs \<and> E x q = NAN then ingress_val u (R x) (intra_val u ps R) E x q else F p q)"
      using ingress_loop_spec [where E = E and x = x and u = u, OF assms(2) Cons.prems(4) assms(1) Fx link] unfolding c1(2) by blast
    let ?F = "\<lambda>p q. if p = x then ingress_row u ps qs R E x q else F p q"
    have F1: "mx_is o1 qs ?F" using o1(2) Cons.prems(5) True unfolding mx_is_def ingress_row_def by auto
    have rest: "distinct srcs" "set srcs \<subseteq> set qs" "\<forall>y\<in>set srcs. get_external y \<longrightarrow> (\<forall>b. ?F y b = E y b)"
      using Cons.prems(2,3,5) xq(2) by auto
    obtain c' outer' where fin: "inter_loop u ps intra srcs (c1, o1) = Inr (c', outer')"
        "mx_is outer' qs (\<lambda>y b. if y \<in> set srcs \<and> get_external y then ingress_row u ps qs R E y b else ?F y b)"
      using Cons.IH [OF c1(3) rest(1,2) F1 rest(3)] by blast
    have "mx_is outer' qs (\<lambda>y b. if y \<in> set (x # srcs) \<and> get_external y then ingress_row u ps qs R E y b else F y b)"
      using fin(2) xq(2) True by (auto simp: mx_is_def)
    then show ?thesis using True c1(1) o1(1) fin(1) by auto
  qed
qed simp

section \<open>The result\<close>

text \<open>The cost of the links across the border, between PIDs of the matrix.\<close>

definition border_cost :: "update_input \<Rightarrow> pid list \<Rightarrow> pid \<Rightarrow> pid \<Rightarrow> cost" where
  "border_cost u qs a b =
     (if get_external a \<noteq> get_external b \<and> (\<exists>e\<in>fst ` set (edges (ui_net u)). get_pid (ui_net u) (fst e) = Inr a \<and> get_pid (ui_net u) (fst (snd e)) = Inr b)
         \<and> a \<in> set qs \<and> b \<in> set qs
      then link_cost (ui_static u) (ui_dynamic u) (ui_interdomain u) a b else NAN)"

lemma compute_pdistances_spec:
  assumes "net_inv (ui_net u)" "mx_is intra ps E0" "\<forall>a b. E0 a b = NAN" "mx_is outer qs N" "\<forall>a b. N a b = NAN" "\<forall>a\<in>set ps. \<not> get_external a" "distinct xs"
    and "routes_are u (set ps \<union> {x \<in> set qs. get_external x}) R"
    and "leaves_over_link (border_cost u qs) R (set ps) (set xs)"
    and "enters_over_link (border_cost u qs) R {x \<in> set qs. get_external x} (set ps)"
  shows "\<exists>intra' outer'. compute_pdistances u xs intra outer = Inr (intra', outer') \<and> mx_is intra' ps (intra_val u ps R) \<and>
    mx_is outer' qs (\<lambda>a b. if a \<in> set ps then egress_row u ps qs xs R (border_cost u qs) a b
                             else if a \<in> set qs \<and> get_external a then ingress_row u ps qs R (border_cost u qs) a b
                             else border_cost u qs a b)"
proof -
  let ?s = "ui_net u" and ?E = "border_cost u qs"
  have live: "\<forall>e\<in>set (map fst (edges ?s)). fst e \<in> fst ` set (nodes ?s) \<and> fst (snd e) \<in> fst ` set (nodes ?s)"
    using edge_nodes [OF assms(1)] by auto
  obtain ls where ls: "find_interdomain_links ?s (map fst (edges ?s)) = Inr ls"
      "\<forall>a b. (a, b) \<in> set ls \<longleftrightarrow> get_external a \<noteq> get_external b \<and>
         (\<exists>e\<in>set (map fst (edges ?s)). get_pid ?s (fst e) = Inr a \<and> get_pid ?s (fst (snd e)) = Inr b)"
    using interdomain_links_live [OF live] by blast
  obtain o1 where o1: "explicit_links (ui_static u) (ui_dynamic u) (ui_interdomain u) ls outer = Inr o1"
      "mx_is o1 qs (\<lambda>a b. if (a, b) \<in> set ls \<and> a \<in> set qs \<and> b \<in> set qs then link_cost (ui_static u) (ui_dynamic u) (ui_interdomain u) a b else N a b)"
    using explicit_links_spec [OF assms(4)] by blast
  have E1: "mx_is o1 qs ?E" using o1(2) ls(2) assms(5) unfolding mx_is_def border_cost_def by (auto simp del: ball_simps bex_simps)
  have ps: "distinct ps" "mx_pids intra = ps" using assms(2) strict_sorted_iff by (auto simp: mx_is_def mx_ok_def mx_inv_def)
  have qs: "distinct qs" using assms(4) strict_sorted_iff by (auto simp: mx_is_def mx_ok_def mx_inv_def)
  have ctx: "context_ok (ui_routing u) ?s RouteComputationContext" by (simp add: context_ok_def RouteComputationContext_def)
  have R: "routes_are u (set ps) R" "routes_are u {x \<in> set qs. get_external x} R" using assms(8) by (auto simp: routes_are_def)
  have out: "E0 a b = intra_val u ps R a b" if "a \<notin> set ps" for a b using that assms(3) by (simp add: intra_val_def)
  obtain c1 intra2 o2 where l2: "intra_loop u ps xs (enumerate 0 ps) (RouteComputationContext, intra, o1) = Inr (c1, intra2, o2)"
      "context_ok (ui_routing u) ?s c1" "mx_is intra2 ps (intra_val u ps R)"
      "mx_is o2 qs (\<lambda>a x. if a \<in> set ps then egress_row u ps qs xs R ?E a x else ?E a x)"
    using intra_loop_spec [where srcs = "enumerate 0 ps", OF ps(1) assms(7) _ enumerate_facts(1) R(1) ctx assms(9,2) _ E1] ps(1) out
    unfolding enumerate_facts(2,3) by auto
  have "\<forall>x\<in>set qs. get_external x \<longrightarrow> (\<forall>b. (if x \<in> set ps then egress_row u ps qs xs R ?E x b else ?E x b) = ?E x b)"
    using assms(6) by auto
  from inter_loop_spec [OF ps(1) l2(3) assms(10) R(2) l2(2) qs subset_refl l2(4) this] obtain c3 o3 where
    l3: "inter_loop u ps intra2 qs (c1, o2) = Inr (c3, o3)"
      "mx_is o3 qs (\<lambda>x b. if x \<in> set qs \<and> get_external x then ingress_row u ps qs R ?E x b else if x \<in> set ps then egress_row u ps qs xs R ?E x b else ?E x b)"
    by blast
  have "compute_pdistances u xs intra outer = Inr (intra2, o3)"
    using ls(1) o1(1) l2(1,4) l3(1) ps(2) by (simp add: compute_pdistances_def mx_is_def)
  moreover have "mx_is o3 qs (\<lambda>a b. if a \<in> set ps then egress_row u ps qs xs R ?E a b
      else if a \<in> set qs \<and> get_external a then ingress_row u ps qs R ?E a b else ?E a b)"
    using l3(2) assms(6) by (auto simp: mx_is_def)
  ultimately show ?thesis using l2(3) by blast
qed

section \<open>Distances over computed routes\<close>

text \<open>After the aggregation every node is the one vertex of a PID.\<close>

definition pids_cover :: "net_state \<Rightarrow> pinned_set \<Rightarrow> bool" where
  "pids_cover s pids \<longleftrightarrow> distinct (map fst pids) \<and>
     (\<forall>p\<in>set pids. get_vertex p \<in> fst ` set (nodes s) \<and> get_pid s (get_vertex p) = Inr (fst p)) \<and>
     (\<forall>v\<in>fst ` set (nodes s). \<exists>p\<in>set pids. get_vertex p = v)"

definition no_external_links :: "net_state \<Rightarrow> bool" where
  "no_external_links s \<longleftrightarrow> (\<forall>(a, b)\<in>linked s. \<forall>p q. get_pid s a = Inr p \<and> get_pid s b = Inr q \<longrightarrow> \<not> (get_external p \<and> get_external q))"

definition weight_routes :: "update_input \<Rightarrow> (pid \<Rightarrow> pid \<rightharpoonup> pinned_route) \<Rightarrow> bool" where
  "weight_routes u R \<longleftrightarrow>
     (\<forall>p\<in>set (ui_pids u). \<forall>q\<in>set (ui_pids u).
        if get_vertex q \<noteq> get_vertex p \<and> (get_vertex p, get_vertex q) \<in> (linked (ui_net u))\<^sup>*
        then \<exists>rt. R (fst p) (fst q) = Some rt \<and> route_ok (ui_net u) (get_vertex p) q rt else R (fst p) (fst q) = None)"

lemma find_pinned_mem: "distinct (map fst ps) \<Longrightarrow> p \<in> set ps \<Longrightarrow> find_pinned ps (fst p) = Some p"
  by (induction ps) (auto simp: find_pinned_def image_iff)

lemma weight_routes_ex:
  assumes "net_inv (ui_net u)" "route_mode_of (ui_routing u) = RM_WEIGHTS" "pids_cover (ui_net u) (ui_pids u)"
    and "link_weights (ui_routing u) (ui_net u) ws"
    and "\<forall>v\<in>fst ` set (nodes (ui_net u)). \<exists>pred. ui_paths u (ui_net u) ws v = Inr pred \<and> predecessor_tree (ui_net u) v pred"
  shows "\<exists>R. routes_are u (fst ` set (ui_pids u)) R \<and> weight_routes u R"
proof -
  let ?s = "ui_net u" and ?pids = "ui_pids u"
  have cov: "distinct (map fst ?pids)" "\<forall>p\<in>set ?pids. get_vertex p \<in> fst ` set (nodes ?s)" using assms(3) by (auto simp: pids_cover_def)
  define D where "D a = projr (routes_from u a RouteComputationContext)" for a
  have one: "routes_from u (fst p) RouteComputationContext = Inr (D (fst p)) \<and>
      (\<forall>q\<in>set ?pids. if get_vertex q \<noteq> get_vertex p \<and> (get_vertex p, get_vertex q) \<in> (linked ?s)\<^sup>*
        then \<exists>rt. rc_result (D (fst p)) (fst q) = Some rt \<and> route_ok ?s (get_vertex p) q rt else rc_result (D (fst p)) (fst q) = None)"
    if p: "p \<in> set ?pids" for p
  proof -
    have ctx: "context_ok (ui_routing u) ?s RouteComputationContext" by (simp add: context_ok_def RouteComputationContext_def)
    obtain pred where pred: "ui_paths u ?s ws (get_vertex p) = Inr pred" "predecessor_tree ?s (get_vertex p) pred" using assms(5) cov(2) p by blast
    obtain c where c: "get_routes (ui_paths u) (ui_routing u) p ?s ?pids RouteComputationContext = Inr (c, True)"
      "\<forall>q\<in>set ?pids. if get_vertex q \<noteq> get_vertex p \<and> (get_vertex p, get_vertex q) \<in> (linked ?s)\<^sup>*
         then \<exists>rt. rc_result c (fst q) = Some rt \<and> route_ok ?s (get_vertex p) q rt else rc_result c (fst q) = None"
      using get_routes_weights_spec [where sp = "ui_paths u" and src = p, OF assms(1,2) ctx assms(4) pred cov(2,1)] by blast
    have "routes_from u (fst p) RouteComputationContext = Inr c" using c(1) find_pinned_mem [OF cov(1) p] by (simp add: routes_from_def)
    then show ?thesis using c(2) by (simp add: D_def)
  qed
  have "routes_are u (fst ` set ?pids) (\<lambda>a. rc_result (D a))" unfolding routes_are_def using one by blast
  moreover have "weight_routes u (\<lambda>a. rc_result (D a))" unfolding weight_routes_def using one by blast
  ultimately show ?thesis by blast
qed

lemma linked_edge: "(a, b) \<in> linked s \<Longrightarrow> \<exists>e\<in>fst ` set (edges s). fst e = a \<and> fst (snd e) = b"
proof -
  assume "(a, b) \<in> linked s"
  then obtain e where "edge_between s a b = Some e" by (auto simp: linked_def)
  from edge_between_Some [OF this] show ?thesis unfolding ends_of_def by blast
qed

lemma two_last: "2 \<le> length rt \<Longrightarrow> \<exists>xs x y. rt = xs @ [x, y]"
proof (cases rt rule: rev_cases)
  case (snoc ys y)
  assume "2 \<le> length rt"
  then show ?thesis using snoc by (cases ys rule: rev_cases) auto
qed simp

lemma two_first: "2 \<le> length rt \<Longrightarrow> \<exists>x y xs. rt = x # y # xs"
  by (cases rt; cases "tl rt") auto

lemma border_cost_linked:
  assumes "pids_cover (ui_net u) (ui_pids u)" "set qs = fst ` set (ui_pids u)" "ui_interdomain u \<noteq> NAN" "net_inv (ui_net u)"
    and "(va, vb) \<in> linked (ui_net u)" "get_pid (ui_net u) va = Inr a" "get_pid (ui_net u) vb = Inr b" "get_external a \<noteq> get_external b"
  shows "border_cost u qs a b \<noteq> NAN"
proof -
  have in_qs: "p \<in> set qs" if v: "v \<in> fst ` set (nodes (ui_net u))" "get_pid (ui_net u) v = Inr p" for v p
  proof -
    have all: "\<forall>v\<in>fst ` set (nodes (ui_net u)). \<exists>r\<in>set (ui_pids u). get_vertex r = v"
      "\<forall>r\<in>set (ui_pids u). get_pid (ui_net u) (get_vertex r) = Inr (fst r)"
      using assms(1) unfolding pids_cover_def by simp_all
    obtain r where r: "r \<in> set (ui_pids u)" "get_vertex r = v" using bspec [OF all(1) v(1)] by blast
    then have "get_pid (ui_net u) v = Inr (fst r)" using bspec [OF all(2) r(1)] by simp
    then show ?thesis using v(2) r(1) assms(2) by auto
  qed
  have "va \<in> fst ` set (nodes (ui_net u))" "vb \<in> fst ` set (nodes (ui_net u))" using linked_nodes [OF assms(4,5)] by auto
  then have "a \<in> set qs" "b \<in> set qs" using in_qs assms(6,7) by blast+
  moreover have "\<exists>e\<in>fst ` set (edges (ui_net u)). get_pid (ui_net u) (fst e) = Inr a \<and> get_pid (ui_net u) (fst (snd e)) = Inr b"
    using linked_edge [OF assms(5)] assms(6,7) by blast
  ultimately show ?thesis using assms(3,8) by (simp add: border_cost_def link_cost_def Let_def)
qed

lemma last_hop:
  assumes "route_ok s v q rt"
  shows "(get_vertex (rt ! (length rt - 2)), get_vertex q) \<in> linked s \<and> get_pid s (get_vertex (rt ! (length rt - 2))) = Inr (fst (rt ! (length rt - 2)))"
proof -
  obtain xs x y where rt: "rt = xs @ [x, y]" using assms two_last unfolding route_ok_def by blast
  then show ?thesis using assms by (auto simp: route_ok_def successively_append_iff butlast_append nth_append get_vertex_def)
qed

lemma first_hop:
  assumes "route_ok s v q rt" "get_pid s (get_vertex q) = Inr (fst q)"
  shows "(v, get_vertex (rt ! 1)) \<in> linked s \<and> get_pid s (get_vertex (rt ! 1)) = Inr (fst (rt ! 1))"
proof -
  obtain x y xs where rt: "rt = x # y # xs" using assms(1) two_first unfolding route_ok_def by blast
  then show ?thesis using assms by (cases xs) (auto simp: route_ok_def get_vertex_def)
qed

lemma crosses_over_links:
  assumes "pids_cover (ui_net u) (ui_pids u)" "set qs = fst ` set (ui_pids u)" "ui_interdomain u \<noteq> NAN" "net_inv (ui_net u)"
    and "no_external_links (ui_net u)" "weight_routes u R"
  shows "leaves_over_link (border_cost u qs) R (set qs) {x \<in> set qs. get_external x}"
    and "enters_over_link (border_cost u qs) R {x \<in> set qs. get_external x} (set qs)"
proof -
  let ?s = "ui_net u"
  have route: "\<exists>p q. p \<in> set (ui_pids u) \<and> q \<in> set (ui_pids u) \<and> fst p = a \<and> fst q = b \<and> route_ok ?s (get_vertex p) q rt"
    if ab: "a \<in> set qs" "b \<in> set qs" "R a b = Some rt" for a b rt
  proof -
    obtain p q where pq: "p \<in> set (ui_pids u)" "q \<in> set (ui_pids u)" "fst p = a" "fst q = b" using ab(1,2) assms(2) by auto
    then have "route_ok ?s (get_vertex p) q rt" using assms(6) ab(3) unfolding weight_routes_def by (metis option.distinct(1) option.inject)
    then show ?thesis using pq by blast
  qed
  have pid: "get_pid ?s (get_vertex p) = Inr (fst p)" if "p \<in> set (ui_pids u)" for p using assms(1) that by (auto simp: pids_cover_def)
  show "leaves_over_link (border_cost u qs) R (set qs) {x \<in> set qs. get_external x}"
    unfolding leaves_over_link_def
  proof (intro ballI allI impI)
    fix a x rt assume h: "a \<in> set qs" "x \<in> {x \<in> set qs. get_external x}" "R a x = Some rt \<and> 2 \<le> length rt"
    obtain p q where pq: "q \<in> set (ui_pids u)" "fst q = x" "route_ok ?s (get_vertex p) q rt" using route [of a x rt] h by auto
    note l = last_hop [OF pq(3)]
    then have "\<not> (get_external (fst (rt ! (length rt - 2))) \<and> get_external x)" using assms(5) pid [OF pq(1)] pq(2) unfolding no_external_links_def by blast
    then show "border_cost u qs (fst (rt ! (length rt - 2))) x \<noteq> NAN"
      using border_cost_linked [OF assms(1-4)] l pid [OF pq(1)] pq(2) h(2) by blast
  qed
  show "enters_over_link (border_cost u qs) R {x \<in> set qs. get_external x} (set qs)"
    unfolding enters_over_link_def
  proof (intro ballI allI impI)
    fix a x rt assume h: "a \<in> set qs" "x \<in> {x \<in> set qs. get_external x}" "R x a = Some rt \<and> 2 \<le> length rt"
    obtain p q where pq: "p \<in> set (ui_pids u)" "q \<in> set (ui_pids u)" "fst p = x" "route_ok ?s (get_vertex p) q rt" using route [of x a rt] h by auto
    note l = first_hop [OF pq(4) pid [OF pq(2)]]
    then have "\<not> (get_external x \<and> get_external (fst (rt ! 1)))" using assms(5) pid [OF pq(1)] pq(3) unfolding no_external_links_def by blast
    then show "border_cost u qs x (fst (rt ! 1)) \<noteq> NAN"
      using border_cost_linked [OF assms(1-4)] l pid [OF pq(1)] pq(3) h(2) by blast
  qed
qed

text \<open>
  Property C14. What an update of a view computes when routes come from weights, for every pair of PIDs. Inside
  the domain the distance is the sum of the costs of the links on the route (the static cost of a link, else
  the dynamic one, else the default), the default for pairs without a route, and the default within a PID.
  Between the domain and an external PID it is the cost of the link when they are linked, and otherwise the
  cost of the link across the border on the route, plus the distance inside when the view includes it. The
  routes are paths of the network from the vertex of the one PID to that of the other.
\<close>
theorem update_distances:
  assumes "net_inv (ui_net u)" "route_mode_of (ui_routing u) = RM_WEIGHTS" "pids_cover (ui_net u) (ui_pids u)"
    and "link_weights (ui_routing u) (ui_net u) ws"
    and "\<forall>v\<in>fst ` set (nodes (ui_net u)). \<exists>pred. ui_paths u (ui_net u) ws v = Inr pred \<and> predecessor_tree (ui_net u) v pred"
    and "no_external_links (ui_net u)" "ui_interdomain u \<noteq> NAN"
    and "mx_is intra ps (\<lambda>_ _. NAN)" "mx_is outer qs (\<lambda>_ _. NAN)" "distinct xs"
    and "set qs = fst ` set (ui_pids u)" "set ps = {p \<in> set qs. \<not> get_external p}" "set xs = {p \<in> set qs. get_external p}"
  shows "\<exists>R intra' outer'. weight_routes u R \<and> compute_pdistances u xs intra outer = Inr (intra', outer') \<and>
    (\<forall>a\<in>set ps. \<forall>b\<in>set ps. mx_entry intra' a b =
       (if a = b then ui_intrapid u else case R a b of None \<Rightarrow> ui_interpid u | Some rt \<Rightarrow> route_cost u rt)) \<and>
    (\<forall>a\<in>set ps. \<forall>x\<in>set xs.
       mx_entry outer' a x = (if border_cost u qs a x \<noteq> NAN then border_cost u qs a x
                              else egress_val u (R a) (mx_entry intra') (border_cost u qs) a x) \<and>
       mx_entry outer' x a = (if border_cost u qs x a \<noteq> NAN then border_cost u qs x a
                              else ingress_val u (R x) (mx_entry intra') (border_cost u qs) x a))"
proof -
  obtain R where R: "routes_are u (fst ` set (ui_pids u)) R" "weight_routes u R" using weight_routes_ex [OF assms(1-5)] by blast
  have R': "routes_are u (set ps \<union> {x \<in> set qs. get_external x}) R" using R(1) assms(11,12) by (auto simp: routes_are_def)
  note cross = crosses_over_links [OF assms(3,11,7,1,6) R(2)]
  have "leaves_over_link (border_cost u qs) R (set ps) (set xs)" "enters_over_link (border_cost u qs) R {x \<in> set qs. get_external x} (set ps)"
    using cross assms(12,13) by (auto simp: leaves_over_link_def enters_over_link_def)
  moreover have "\<forall>a\<in>set ps. \<not> get_external a" using assms(12) by simp
  ultimately obtain intra' outer' where c: "compute_pdistances u xs intra outer = Inr (intra', outer')" "mx_is intra' ps (intra_val u ps R)"
      "mx_is outer' qs (\<lambda>a b. if a \<in> set ps then egress_row u ps qs xs R (border_cost u qs) a b
         else if a \<in> set qs \<and> get_external a then ingress_row u ps qs R (border_cost u qs) a b else border_cost u qs a b)"
    using compute_pdistances_spec [OF assms(1,8) _ assms(9) _ _ assms(10) R'] by blast
  have I: "mx_entry intra' = intra_val u ps R" using c(2) by (auto simp: mx_is_def fun_eq_iff)
  have "mx_entry outer' a x = egress_row u ps qs xs R (border_cost u qs) a x \<and> mx_entry outer' x a = ingress_row u ps qs R (border_cost u qs) x a"
    if "a \<in> set ps" "x \<in> set xs" for a x
    using c(3) that assms(12,13) by (auto simp: mx_is_def)
  then have "\<forall>a\<in>set ps. \<forall>x\<in>set xs.
       mx_entry outer' a x = (if border_cost u qs a x \<noteq> NAN then border_cost u qs a x else egress_val u (R a) (mx_entry intra') (border_cost u qs) a x) \<and>
       mx_entry outer' x a = (if border_cost u qs x a \<noteq> NAN then border_cost u qs x a else ingress_val u (R x) (mx_entry intra') (border_cost u qs) x a)"
    using assms(12,13) unfolding I egress_row_def ingress_row_def by auto
  moreover have "\<forall>a\<in>set ps. \<forall>b\<in>set ps. mx_entry intra' a b = (if a = b then ui_intrapid u else case R a b of None \<Rightarrow> ui_interpid u | Some rt \<Rightarrow> route_cost u rt)"
    unfolding I by (simp add: intra_val_def intra_dist_def)
  ultimately show ?thesis using R(2) c(1) by blast
qed

section \<open>A network with a border\<close>

text \<open>Two PIDs of the domain and an external one, in a line.\<close>

definition pid_a :: pid where "pid_a = PID ''isp'' 1 False"
definition pid_b :: pid where "pid_b = PID ''isp'' 2 False"
definition pid_x :: pid where "pid_x = PID ''isp'' 3 True"

definition border_net :: net_state where
  "border_net = dist_object.extend ((DistributedObject 0)\<lparr>writing := True\<rparr>)
     \<lparr>nodes = [(1, \<lparr>vx_external = False, vx_name = ''A'', vx_pid = pid_a\<rparr>), (2, \<lparr>vx_external = False, vx_name = ''B'', vx_pid = pid_b\<rparr>),
               (3, \<lparr>vx_external = True, vx_name = ''X'', vx_pid = pid_x\<rparr>)],
      edges = [((1, 2, 4), \<lparr>ed_name = ''ab'', ed_traffic = 0, ed_capacity = 1\<rparr>), ((2, 1, 5), \<lparr>ed_name = ''ba'', ed_traffic = 0, ed_capacity = 1\<rparr>),
               ((2, 3, 6), \<lparr>ed_name = ''bx'', ed_traffic = 0, ed_capacity = 1\<rparr>), ((3, 2, 7), \<lparr>ed_name = ''xb'', ed_traffic = 0, ed_capacity = 1\<rparr>)],
      name_vert_map = [(''A'', 1), (''B'', 2), (''X'', 3)], name_edge_map = [], next_addr = 8\<rparr>"

lemma border_net_sel:
  "nodes border_net = [(1, \<lparr>vx_external = False, vx_name = ''A'', vx_pid = pid_a\<rparr>), (2, \<lparr>vx_external = False, vx_name = ''B'', vx_pid = pid_b\<rparr>),
               (3, \<lparr>vx_external = True, vx_name = ''X'', vx_pid = pid_x\<rparr>)]"
  "edges border_net = [((1, 2, 4), \<lparr>ed_name = ''ab'', ed_traffic = 0, ed_capacity = 1\<rparr>), ((2, 1, 5), \<lparr>ed_name = ''ba'', ed_traffic = 0, ed_capacity = 1\<rparr>),
               ((2, 3, 6), \<lparr>ed_name = ''bx'', ed_traffic = 0, ed_capacity = 1\<rparr>), ((3, 2, 7), \<lparr>ed_name = ''xb'', ed_traffic = 0, ed_capacity = 1\<rparr>)]"
  "name_vert_map border_net = [(''A'', 1), (''B'', 2), (''X'', 3)]" "next_addr border_net = 8"
  by (simp_all add: border_net_def dist_object.defs)

lemma border_net_inv: "net_inv border_net"
proof -
  have "smap_inv (name_vert_map border_net)" by (simp add: border_net_sel)
  moreover have "get_node border_net n = Some v \<longleftrightarrow> (\<exists>x. (v, x) \<in> set (nodes border_net) \<and> vx_name x = n)" for n v
    unfolding get_node_def smap_find_def border_net_sel by (cases "n = ''A''"; cases "n = ''B''"; cases "n = ''X''"; force)
  ultimately have "names_ok border_net" unfolding names_ok_def by blast
  moreover have "graph_ok border_net" by (simp add: graph_ok_def border_net_sel ends_of_def)
  ultimately show ?thesis by (simp add: net_inv_def)
qed

lemma border_net_linked: "linked border_net = {(1, 2), (2, 1), (2, 3), (3, 2)}"
  by (auto simp: linked_def edge_between_def border_net_sel split: if_splits)

definition border_preds :: "net_vertex \<Rightarrow> net_vertex \<Rightarrow> net_vertex" where
  "border_preds src v = (if v = src \<or> v \<notin> {1, 2, 3} then v else if v = 2 then src else 2)"

lemma border_tree:
  assumes "src \<in> {1, 2, 3}"
  shows "predecessor_tree border_net src (border_preds src)"
proof -
  let ?r = "{(1, 2), (2, 1), (2, 3), (3, 2)} :: (nat \<times> nat) set"
  have step: "(1, 2) \<in> ?r\<^sup>*" "(2, 1) \<in> ?r\<^sup>*" "(2, 3) \<in> ?r\<^sup>*" "(3, 2) \<in> ?r\<^sup>*" by auto
  then have "(1, 3) \<in> ?r\<^sup>*" "(3, 1) \<in> ?r\<^sup>*" by (meson rtrancl_trans)+
  with step have reach: "(a, b) \<in> ?r\<^sup>*" if "a \<in> {1, 2, 3}" "b \<in> {1, 2, 3}" for a b using that by auto
  have returns: "\<exists>n. (border_preds src ^^ n) v = src" if "v \<in> {1, 2, 3}" for v
  proof -
    have "(border_preds src ^^ 0) v = src \<or> (border_preds src ^^ 1) v = src \<or> (border_preds src ^^ Suc 1) v = src"
      using that assms by (auto simp: border_preds_def)
    then show ?thesis by blast
  qed
  have nodes: "fst ` set (nodes border_net) = {1, 2, 3}" by (auto simp: border_net_sel)
  show ?thesis
    unfolding predecessor_tree_def border_net_linked nodes
  proof (intro ballI conjI impI)
    fix v assume v: "v \<in> {1, 2, 3 :: nat}"
    show "(border_preds src v \<noteq> v) = (v \<noteq> src \<and> (src, v) \<in> ?r\<^sup>*)" using reach [OF assms v] assms v by (auto simp: border_preds_def)
    show "\<exists>n. (border_preds src ^^ n) v = src" by (rule returns [OF v])
    show "(border_preds src v, v) \<in> ?r" if "border_preds src v \<noteq> v" using that v assms by (auto simp: border_preds_def split: if_splits)
  qed
qed

definition border_input :: update_input where
  "border_input = \<lparr>ui_fl = Num, ui_paths = (\<lambda>_ _ v. Inr (border_preds v)), ui_routing = PIDRouting 0 0 (Num 1), ui_static = PIDMatrixBase 0,
     ui_dynamic = PIDMatrixBase 0, ui_intrapid = Num 0, ui_interpid = INFTY True, ui_interdomain = Num 60, ui_pidlink = Num 1, ui_includes = True,
     ui_net = border_net, ui_pids = [(pid_a, [1]), (pid_b, [2]), (pid_x, [3])]\<rparr>"

lemma border_cover: "pids_cover border_net [(pid_a, [1]), (pid_b, [2]), (pid_x, [3])]" "no_external_links border_net"
  unfolding pids_cover_def no_external_links_def border_net_linked
  by (auto simp: border_net_sel get_vertex_def get_pid_def vertex_at_def pid_a_def pid_b_def pid_x_def)

lemma new_matrix: "sorted_wrt (<) ps \<Longrightarrow> \<exists>m. mx_is m ps (\<lambda>_ _. NAN)"
proof -
  assume s: "sorted_wrt (<) ps"
  have ok: "mx_ok ((PIDMatrixBase 0)\<lparr>writing := True\<rparr>)" by (simp add: mx_ok_def mx_inv_def square_def PIDMatrixBase_def dist_object.defs)
  have "smap_inv (map (\<lambda>p. (p, ())) ps)" using s by (simp add: smap_inv_def comp_def)
  from mx_set_pids_spec [OF ok this] show ?thesis
    by (auto simp: mx_is_def comp_def mx_entry_absent PIDMatrixBase_def dist_object.defs)
qed

theorem update_distances_witness:
  "\<exists>intra outer intra' outer'. compute_pdistances border_input [pid_x] intra outer = Inr (intra', outer') \<and>
     mx_entry intra' pid_a pid_a = Num 0 \<and> mx_entry outer' pid_b pid_x = Num 60"
proof -
  let ?u = border_input and ?ps = "[pid_a, pid_b]" and ?qs = "[pid_a, pid_b, pid_x]"
  have u: "ui_net ?u = border_net" "ui_pids ?u = [(pid_a, [1]), (pid_b, [2]), (pid_x, [3])]" "route_mode_of (ui_routing ?u) = RM_WEIGHTS"
      "ui_interdomain ?u \<noteq> NAN" "ui_intrapid ?u = Num 0"
    by (simp_all add: border_input_def PIDRouting_def dist_object.defs)
  obtain intra outer where m: "mx_is intra ?ps (\<lambda>_ _. NAN)" "mx_is outer ?qs (\<lambda>_ _. NAN)"
    using new_matrix [of ?ps] new_matrix [of ?qs] by (auto simp: pid_a_def pid_b_def pid_x_def less_pid_def)
  obtain ws where ws: "link_weights (ui_routing ?u) (ui_net ?u) ws" using link_weights_ex [OF border_net_inv] u(1) by metis
  have sp: "\<forall>v\<in>fst ` set (nodes (ui_net ?u)). \<exists>pred. ui_paths ?u (ui_net ?u) ws v = Inr pred \<and> predecessor_tree (ui_net ?u) v pred"
    using border_tree unfolding u(1) by (auto simp: border_net_sel border_input_def)
  have sets: "set ?qs = fst ` set (ui_pids ?u)" "set ?ps = {p \<in> set ?qs. \<not> get_external p}" "set [pid_x] = {p \<in> set ?qs. get_external p}" "distinct [pid_x]"
    by (auto simp: u(2) pid_a_def pid_b_def pid_x_def)
  have inv: "net_inv (ui_net ?u)" "pids_cover (ui_net ?u) (ui_pids ?u)" "no_external_links (ui_net ?u)"
    using border_net_inv border_cover u(1,2) by simp_all
  have link: "border_cost ?u ?qs pid_b pid_x = Num 60"
    by (simp add: border_cost_def link_cost_def border_input_def border_net_sel get_pid_def vertex_at_def pid_a_def pid_b_def pid_x_def
        mx_get_by_pid_def PIDMatrixBase_def dist_object.defs)
  from update_distances [OF inv(1) u(3) inv(2) ws sp inv(3) u(4) m sets(4,1,2,3)] obtain intra' outer' where
    r: "compute_pdistances ?u [pid_x] intra outer = Inr (intra', outer')"
      "mx_entry intra' pid_a pid_a = ui_intrapid ?u" "mx_entry outer' pid_b pid_x = border_cost ?u ?qs pid_b pid_x"
    using link by auto
  have "mx_entry intra' pid_a pid_a = Num 0" "mx_entry outer' pid_b pid_x = Num 60" using r(2,3) link u(5) by simp_all
  with r(1) show ?thesis by blast
qed

end
