(* ===== verification/View_Properties.thy ===== *)
theory View_Properties
  imports View_Update
begin

text \<open>
  When the update of a view gives up: a PID none of whose nodes is in the network, such as one that was just
  added, stops it with an exception that neither of its callers catches.
\<close>

section \<open>The copy of the network\<close>

lemma name_nodes_spec:
  assumes "smap_inv m"
  shows "smap_inv (name_nodes xs m) \<and>
    smap_find (name_nodes xs m) n = (case map_of (rev (map (\<lambda>(v, x). (vx_name x, v)) xs)) n of None \<Rightarrow> smap_find m n | Some v \<Rightarrow> Some v)"
  using assms
proof (induction xs m rule: name_nodes.induct)
  case (2 v x vs m)
  have "smap_inv (smap_put (vx_name x) v m)" using "2.prems" by simp
  from "2.IH" [OF this] "2.prems" show ?case by (auto simp: map_add_def split: option.splits)
qed simp

lemma names_ok_unique:
  assumes "net_inv s" "(v, x) \<in> set (nodes s)" "(w, y) \<in> set (nodes s)" "vx_name x = vx_name y"
  shows "v = w"
proof -
  have "get_node s (vx_name x) = Some v" "get_node s (vx_name x) = Some w"
    using assms by (auto simp: net_inv_def names_ok_def)
  then show ?thesis by simp
qed

lemma name_nodes_exact:
  assumes "net_inv s"
  shows "smap_find (name_nodes (nodes s) []) n = Some v \<longleftrightarrow> (\<exists>x. (v, x) \<in> set (nodes s) \<and> vx_name x = n)"
proof -
  let ?m = "map (\<lambda>(v, x). (vx_name x, v)) (nodes s)"
  have f: "smap_find (name_nodes (nodes s) []) n = map_of (rev ?m) n"
    using name_nodes_spec [of "[]" "nodes s" n] by (simp add: smap_inv_def split: option.splits)
  show ?thesis
  proof
    assume "smap_find (name_nodes (nodes s) []) n = Some v"
    then have "(n, v) \<in> set ?m" unfolding f by (auto dest: map_of_SomeD)
    then show "\<exists>x. (v, x) \<in> set (nodes s) \<and> vx_name x = n" by auto
  next
    assume "\<exists>x. (v, x) \<in> set (nodes s) \<and> vx_name x = n"
    then obtain x where x: "(v, x) \<in> set (nodes s)" "vx_name x = n" by blast
    then have "n \<in> fst ` set (rev ?m)" by force
    then obtain w where w: "map_of (rev ?m) n = Some w" by (meson map_of_eq_None_iff not_Some_eq)
    then have "(n, w) \<in> set ?m" by (auto dest: map_of_SomeD)
    then obtain y where "(w, y) \<in> set (nodes s)" "vx_name y = n" by auto
    then have "w = v" using names_ok_unique [OF assms] x by blast
    then show "smap_find (name_nodes (nodes s) []) n = Some v" using w f by simp
  qed
qed

lemma net_copy_spec:
  assumes "net_inv net"
  shows "\<exists>net1 s. copy_object (ns_copy garbage) net = Inr net1 \<and> begin_write net1 = Inr s \<and> writing s \<and> net_inv s \<and> (\<forall>n. get_node s n = get_node net n)"
proof -
  define n1 where "n1 = (NetState garbage)\<lparr>nodes := nodes net, edges := edges net, next_addr := next_addr net, writing := True, changed_fired := False\<rparr>"
  define n2 where "n2 = touched (n1\<lparr>name_vert_map := name_nodes (nodes n1) [], name_edge_map := name_edges (edges n1) (name_edge_map n1)\<rparr>)"
  define n3 where "n3 = n2\<lparr>writing := False, changed_fired := False, children := children net\<rparr>"
  have w: "\<not> writing (NetState garbage)" by (simp add: NetState_def dist_object.defs DistributedObject_def local_object.defs LocalObject_def)
  have "ns_copy garbage net = Inr (n2\<lparr>writing := False, changed_fired := False\<rparr>)"
    using w by (simp add: ns_copy_def begin_write_def refresh_names_def changed_writing end_write_def n2_def n1_def)
  then have c: "copy_object (ns_copy garbage) net = Inr n3" by (simp add: copy_object_def n3_def)
  define s where "s = n3\<lparr>writing := True, changed_fired := False\<rparr>"
  have b: "begin_write n3 = Inr s" by (simp add: begin_write_def s_def n3_def)
  have f: "nodes s = nodes net" "edges s = edges net" "next_addr s = next_addr net" "name_vert_map s = name_nodes (nodes net) []" "writing s"
    by (simp_all add: s_def n3_def n2_def n1_def)
  have same: "get_node s n = get_node net n" for n
  proof -
    have "get_node s n = Some v \<longleftrightarrow> get_node net n = Some v" for v
      using name_nodes_exact [OF assms, of n v] assms by (simp add: get_node_def f net_inv_def names_ok_def)
    then show ?thesis by (metis not_Some_eq)
  qed
  have "smap_inv (name_nodes (nodes net) [])" using name_nodes_spec [of "[]"] by (simp add: smap_inv_def)
  then have "net_inv s" using assms same f by (simp add: net_inv_def graph_ok_def names_ok_def)
  then show ?thesis using c b f(5) same by blast
qed

section \<open>PIDs without nodes\<close>

lemma get_node_live: "net_inv s \<Longrightarrow> get_node s n = Some v \<Longrightarrow> v \<in> fst ` set (nodes s)"
  by (force simp: net_inv_def names_ok_def)

lemma find_verts_spec:
  assumes "net_inv s"
  shows "\<exists>vs b. find_verts s ns = Inr (vs, b) \<and> set vs \<subseteq> fst ` set (nodes s) \<and> (vs = [] \<longleftrightarrow> (\<forall>n\<in>set ns. get_node s n = None))"
proof (induction ns)
  case (Cons n ns)
  then obtain vs b where vs: "find_verts s ns = Inr (vs, b)" "set vs \<subseteq> fst ` set (nodes s)" "vs = [] \<longleftrightarrow> (\<forall>n\<in>set ns. get_node s n = None)" by blast
  show ?case
  proof (cases "get_node s n")
    case (Some v)
    have live: "v \<in> fst ` set (nodes s)" by (rule get_node_live [OF assms Some])
    then obtain x where "vertex_at s v = Inr x" using vertex_at_live by blast
    then show ?thesis using vs Some live by (auto simp: ns_get_external_def set_insort_key insort_insert_key_def)
  qed (use vs in auto)
qed auto

lemma set_pid_spec:
  assumes "net_inv s" "writing s" "v \<in> fst ` set (nodes s)"
  shows "\<exists>s'. set_pid s v p = Inr s' \<and> net_inv s' \<and> writing s' \<and> fst ` set (nodes s') = fst ` set (nodes s) \<and> (\<forall>n. get_node s' n = get_node s n)"
proof -
  let ?s = "s\<lparr>nodes := upd_assoc (nodes s) v (\<lambda>x. x\<lparr>vx_pid := p\<rparr>)\<rparr>"
  have "net_inv ?s" by (rule net_inv_nodes [OF assms(1)]) (auto simp: set_upd_assoc split: if_splits)
  then show ?thesis
    using assms(2) vertex_at_live [OF assms(3)] by (auto simp: set_pid_def put_vertex_def changed_writing get_node_def)
qed

lemma set_pid_all_spec:
  assumes "net_inv s" "writing s" "set vs \<subseteq> fst ` set (nodes s)"
  shows "\<exists>s'. set_pid_all p vs s = Inr s' \<and> net_inv s' \<and> writing s' \<and> (\<forall>n. get_node s' n = get_node s n)"
  using assms
proof (induction vs arbitrary: s)
  case (Cons v vs)
  obtain s1 where 1: "set_pid s v p = Inr s1" "net_inv s1" "writing s1" "fst ` set (nodes s1) = fst ` set (nodes s)" "\<forall>n. get_node s1 n = get_node s n"
    using set_pid_spec [OF Cons.prems(1,2), of v p] Cons.prems(3) by auto
  obtain s2 where "set_pid_all p vs s1 = Inr s2" "net_inv s2" "writing s2" "\<forall>n. get_node s2 n = get_node s1 n"
    using Cons.IH [OF 1(2,3)] Cons.prems(3) 1(4) by auto
  then show ?case using 1 by auto
qed simp

abbreviation (input) no_vertex :: p4p_error where
  "no_vertex \<equiv> Runtime_Error ''PinnedPID constructed with empty vertex set''"

text \<open>The records are visited in turn; the first PID without nodes ends the loop.\<close>

lemma find_pids_stops:
  assumes "net_inv s" "writing s" "r \<in> set rs" "\<forall>n\<in>fst ` set (pr_vertices r). get_node s n = None"
  shows "find_pids s rs f = Inl no_vertex"
  using assms
proof (induction rs arbitrary: s f)
  case (Cons q rs)
  obtain vs b where vs: "find_verts s (map fst (pr_vertices q)) = Inr (vs, b)" "set vs \<subseteq> fst ` set (nodes s)"
    "vs = [] \<longleftrightarrow> (\<forall>n\<in>set (map fst (pr_vertices q)). get_node s n = None)" using find_verts_spec [OF Cons.prems(1)] by blast
  define p where "p = PID (get_isp (pr_pid q)) (get_num (pr_pid q)) (\<not> b)"
  obtain s1 where s1: "set_pid_all p vs s = Inr s1" "net_inv s1" "writing s1" "\<forall>n. get_node s1 n = get_node s n"
    using set_pid_all_spec [OF Cons.prems(1,2) vs(2)] by blast
  show ?case
  proof (cases "vs = []")
    case True
    then show ?thesis using vs(1) s1(1) by (simp add: Let_def p_def [symmetric] PinnedPID_def)
  next
    case False
    then have "r \<in> set rs" using Cons.prems(3,4) vs(3) by auto
    from Cons.IH [OF s1(2,3) this] Cons.prems(4) s1(4) have "find_pids s1 rs f' = Inl no_vertex" for f' by simp
    then show ?thesis using vs(1) s1(1) False by (simp add: Let_def p_def [symmetric] PinnedPID_def)
  qed
qed simp

text \<open>
  Property C38. As long as a view has a PID none of whose nodes is in the network, an update of the view ends
  with the exception that the constructor of \<open>PinnedPID\<close> throws, both in an administrator's transaction and in
  the job that updates the view.
\<close>
theorem pid_without_nodes_stops_update:
  assumes "net_inv net" "r \<in> set (pid_records (v_aggregation v))" "\<forall>n\<in>fst ` set (pr_vertices r). get_node net n = None"
  shows "do_update mem as fl fl' sp plugin net v = Inl (Runtime_Error ''PinnedPID constructed with empty vertex set'') \<and>
    do_update_upgrade mem as fl fl' sp plugin net v = Inl (Runtime_Error ''PinnedPID constructed with empty vertex set'')"
proof -
  obtain net1 s where s: "copy_object (ns_copy (mem 10)) net = Inr net1" "begin_write net1 = Inr s" "writing s" "net_inv s" "\<forall>n. get_node s n = get_node net n"
    using net_copy_spec [OF assms(1)] by blast
  have "find_pids s (pid_records (v_aggregation v)) no_pids = Inl no_vertex"
    by (rule find_pids_stops [OF s(4,3) assms(2)]) (use assms(3) s(5) in simp)
  then have "compute_result mem fl fl' sp plugin net v = Inl no_vertex" using s(1,2) by (simp add: compute_result_def)
  then show ?thesis by (simp add: do_update_def do_update_upgrade_def)
qed

text \<open>A new view, to which a PID is added.\<close>

lemma new_pid_example: "case View (\<lambda>_. 0) [1, 2, 3, 4, 5, 6] ''v'' of Inl _ \<Rightarrow> False
   | Inr v \<Rightarrow> (case view_add_pid (v\<lparr>v_aggregation := (v_aggregation v)\<lparr>writing := True\<rparr>, v_routing := (v_routing v)\<lparr>writing := True\<rparr>,
                   v_link_pdistances := (v_link_pdistances v)\<lparr>writing := True\<rparr>\<rparr>) ''p'' (PID ''isp'' 1 False) of
       Inl _ \<Rightarrow> False | Inr (v', ok) \<Rightarrow> ok \<and> pid_records (v_aggregation v') = [\<lparr>pr_name = ''p'', pr_pid = PID ''isp'' 1 False, pr_vertices = []\<rparr>])"
  by code_simp

lemma empty_net_inv: "net_inv (NetState garbage)"
  by (simp add: NetState_def net_inv_def graph_ok_def names_ok_def get_node_def smap_inv_def dist_object.defs)

theorem pid_without_nodes_stops_update_witness:
  "\<exists>v v' e. View (\<lambda>_. 0) [1, 2, 3, 4, 5, 6] ''v'' = Inr v \<and>
    view_add_pid (v\<lparr>v_aggregation := (v_aggregation v)\<lparr>writing := True\<rparr>, v_routing := (v_routing v)\<lparr>writing := True\<rparr>,
      v_link_pdistances := (v_link_pdistances v)\<lparr>writing := True\<rparr>\<rparr>) ''p'' (PID ''isp'' 1 False) = Inr (v', True) \<and>
    do_update (\<lambda>_. 0) (7, 8) id Num (\<lambda>_ _ _. Inr id) (\<lambda>_ _ _. PIDMatrixBase 0) (NetState 0) v' = Inl (Runtime_Error e)"
proof -
  obtain v v' where "View (\<lambda>_. 0) [1, 2, 3, 4, 5, 6] ''v'' = Inr v" and
    v': "view_add_pid (v\<lparr>v_aggregation := (v_aggregation v)\<lparr>writing := True\<rparr>, v_routing := (v_routing v)\<lparr>writing := True\<rparr>,
      v_link_pdistances := (v_link_pdistances v)\<lparr>writing := True\<rparr>\<rparr>) ''p'' (PID ''isp'' 1 False) = Inr (v', True)"
    "pid_records (v_aggregation v') = [\<lparr>pr_name = ''p'', pr_pid = PID ''isp'' 1 False, pr_vertices = []\<rparr>]"
    using new_pid_example by (auto split: sum.splits prod.splits)
  then show ?thesis
    using pid_without_nodes_stops_update [OF empty_net_inv, of "\<lparr>pr_name = ''p'', pr_pid = PID ''isp'' 1 False, pr_vertices = []\<rparr>" v' 0
      "\<lambda>_. 0" "(7, 8)" id Num "\<lambda>_ _ _. Inr id" "\<lambda>_ _ _. PIDMatrixBase 0"] by auto
qed

end
