(* ===== verification/Admin_State.thy ===== *)
theory Admin_State
  imports View_Update
begin

text \<open>
  \<open>portal/server/src/admin/admin_state.cpp\<close> and \<open>global_state.cpp\<close>: the objects of the server's state and the
  transactions in which an administrator changes them. The objects form a tree from \<open>GLOBAL_STATE\<close> and are
  shared by pointer, so they are in a store with addresses, which are not used again. One object of the
  store is one instance of a class; its children are addresses. Locks on objects are kept by address: an
  object that is locked for writing has called \<open>begin_write\<close>. One thread at a time works on the administrative
  state, under its mutex; that other threads wait for the locks is not part of this model.
\<close>

section \<open>Objects\<close>

datatype server_obj =
    Global_Obj dist_object
  | Net_Obj net_state
  | Registry_Obj view_registry
  | View_Obj view_props
  | Aggregation_Obj aggregation
  | Prefixes_Obj server_pidmap
  | Routing_Obj pid_routing
  | Matrix_Obj server_matrix

definition mapE :: "('a \<Rightarrow> 'b) \<Rightarrow> 'a result \<Rightarrow> 'b result" where
  "mapE f r = bindE r (\<lambda>x. Inr (f x))"

text \<open>The methods of the base classes, on any object.\<close>

fun obj_begin_write :: "server_obj \<Rightarrow> server_obj result" where
  "obj_begin_write (Global_Obj x) = mapE Global_Obj (begin_write x)"
| "obj_begin_write (Net_Obj x) = mapE Net_Obj (begin_write x)"
| "obj_begin_write (Registry_Obj x) = mapE Registry_Obj (begin_write x)"
| "obj_begin_write (View_Obj x) = mapE View_Obj (begin_write x)"
| "obj_begin_write (Aggregation_Obj x) = mapE Aggregation_Obj (begin_write x)"
| "obj_begin_write (Prefixes_Obj x) = mapE Prefixes_Obj (begin_write x)"
| "obj_begin_write (Routing_Obj x) = mapE Routing_Obj (begin_write x)"
| "obj_begin_write (Matrix_Obj x) = mapE Matrix_Obj (begin_write x)"

fun obj_end_write :: "server_obj \<Rightarrow> server_obj result" where
  "obj_end_write (Global_Obj x) = mapE Global_Obj (end_write x)"
| "obj_end_write (Net_Obj x) = mapE Net_Obj (end_write x)"
| "obj_end_write (Registry_Obj x) = mapE Registry_Obj (end_write x)"
| "obj_end_write (View_Obj x) = mapE View_Obj (end_write x)"
| "obj_end_write (Aggregation_Obj x) = mapE Aggregation_Obj (end_write x)"
| "obj_end_write (Prefixes_Obj x) = mapE Prefixes_Obj (end_write x)"
| "obj_end_write (Routing_Obj x) = mapE Routing_Obj (end_write x)"
| "obj_end_write (Matrix_Obj x) = mapE Matrix_Obj (end_write x)"

fun obj_set_child :: "server_obj \<Rightarrow> u32 \<Rightarrow> nat option \<Rightarrow> server_obj result" where
  "obj_set_child (Global_Obj x) i c = mapE Global_Obj (set_child x i c)"
| "obj_set_child (Net_Obj x) i c = mapE Net_Obj (set_child x i c)"
| "obj_set_child (Registry_Obj x) i c = mapE Registry_Obj (set_child x i c)"
| "obj_set_child (View_Obj x) i c = mapE View_Obj (set_child x i c)"
| "obj_set_child (Aggregation_Obj x) i c = mapE Aggregation_Obj (set_child x i c)"
| "obj_set_child (Prefixes_Obj x) i c = mapE Prefixes_Obj (set_child x i c)"
| "obj_set_child (Routing_Obj x) i c = mapE Routing_Obj (set_child x i c)"
| "obj_set_child (Matrix_Obj x) i c = mapE Matrix_Obj (set_child x i c)"

text \<open>An object as an instance of \<open>DistributedObject\<close>.\<close>

fun as_dist :: "server_obj \<Rightarrow> dist_object" where
  "as_dist (Global_Obj x) = dist_object.truncate x"
| "as_dist (Net_Obj x) = dist_object.truncate x"
| "as_dist (Registry_Obj x) = dist_object.truncate x"
| "as_dist (View_Obj x) = dist_object.truncate x"
| "as_dist (Aggregation_Obj x) = dist_object.truncate x"
| "as_dist (Prefixes_Obj x) = dist_object.truncate x"
| "as_dist (Routing_Obj x) = dist_object.truncate x"
| "as_dist (Matrix_Obj x) = dist_object.truncate x"

section \<open>What comes from outside\<close>

text \<open>
  The memory an object is made in, by its address; the registry of plugins and the plugin of a view; the
  rounding of doubles; the shortest paths of the Boost library and its conversions from and to text.
\<close>

record server_env =
  se_memory :: "nat \<Rightarrow> memory"
  se_registered :: "string \<Rightarrow> bool"
  se_plugin :: opt_plugin
  se_fl :: "double \<Rightarrow> double"
  se_fl_cost :: "double \<Rightarrow> cost"
  se_paths :: shortest_paths
  se_read_double :: "string \<Rightarrow> cost option"
  se_read_uint :: "string \<Rightarrow> u32 option"
  se_read_bool :: "string \<Rightarrow> bool option"
  se_show_double :: "cost \<Rightarrow> string"
  se_show_uint :: "u32 \<Rightarrow> string"
  se_show_bool :: "bool \<Rightarrow> string"

section \<open>Construction and copies\<close>

text \<open>
  A constructor that is given the address \<open>a\<close> makes its children at the addresses that follow. \<open>block\<close> is the
  number of addresses that are set aside for an object and its first children.
\<close>

definition block :: nat where "block = 7"

definition make_global :: "u32 \<Rightarrow> nat list \<Rightarrow> dist_object result" where
  "make_global garbage cs = bindE (begin_write (DistributedObject garbage)) (\<lambda>g. bindE (set_children g 0 cs) end_write)"

text \<open>
  \<open>copy\<close>, for each class: the object after it, which changes for one of the classes, and the copy. The
  children that the constructors of the copies make are dropped.
\<close>

fun obj_copy :: "server_env \<Rightarrow> nat \<Rightarrow> server_obj \<Rightarrow> (server_obj \<times> server_obj) result" where
  "obj_copy env a (Global_Obj x) =
     mapE (\<lambda>y. (Global_Obj x, Global_Obj y)) (copy_object (\<lambda>_. make_global (se_memory env a 0) [a + 1, a + 2]) x)"
| "obj_copy env a (Net_Obj x) = mapE (\<lambda>y. (Net_Obj x, Net_Obj y)) (copy_object (ns_copy (se_memory env a 0)) x)"
| "obj_copy env a (Registry_Obj x) =
     mapE (\<lambda>y. (Registry_Obj x, Registry_Obj y)) (copy_object (\<lambda>x. Inr (reg_copy (se_memory env a 0) x)) x)"
| "obj_copy env a (View_Obj x) =
     mapE (\<lambda>y. (View_Obj x, View_Obj y)) (view_copy (se_registered env) (se_memory env a 0) [a + 1..<a + 7] x)"
| "obj_copy env a (Aggregation_Obj x) =
     mapE (\<lambda>y. (Aggregation_Obj x, Aggregation_Obj y)) (copy_object (\<lambda>x. Inr (agg_copy (se_memory env a 0) x)) x)"
| "obj_copy env a (Prefixes_Obj x) = mapE (\<lambda>y. (Prefixes_Obj x, Prefixes_Obj y)) (copy_object (sp_copy (se_memory env a 0)) x)"
| "obj_copy env a (Routing_Obj x) =
     (let (x', y) = rt_copy (se_memory env a 0) (se_memory env a 1) x
      in Inr (Routing_Obj x', Routing_Obj (y\<lparr>children := children x\<rparr>)))"
| "obj_copy env a (Matrix_Obj x) =
     mapE (\<lambda>y. (Matrix_Obj x, Matrix_Obj y)) (copy_object (\<lambda>x. Inr (mx_copy (se_memory env a 0) x)) x)"

section \<open>The state of the server\<close>

datatype txn_type = TXN_DIRECT_WRITE | TXN_COPY_ON_WRITE

text \<open>
  What an administrator asks for. \<open>Inspect\<close> is an action that only reads afterwards, with the \<open>commit\<close> of the
  base class; \<open>Prop_Get\<close> has room for the value it gets.
\<close>

datatype admin_action =
    Inspect
  | Net_Change net_op
  | View_Add string
  | View_Delete string
  | PDistance_Update string
  | Add_PID string string pid
  | Delete_PID string string
  | Add_Prefixes string string "ip_prefix list"
  | Delete_Prefixes string string "ip_prefix list"
  | Clear_Prefixes string string
  | Add_Nodes string string name_set
  | Delete_Nodes string string name_set
  | Clear_Nodes string string
  | Set_Link_Cost string string cost
  | Set_Link_Weight string string cost
  | Prop_Get string string "string option"
  | Prop_Set string string string
  | Add_Link string string string string
  | Delete_Link string string

type_synonym token = "64 word"

record admin_state =
  objs :: "nat \<rightharpoonup> server_obj"
  next_obj :: nat
  global_state :: nat
  job_q :: job_queue
  token_of :: token
  txn_type_of :: txn_type
  new_state :: "nat option"
  old_state_locks :: "nat list"
  write_locks :: "nat list"
  unapplied_changes :: "admin_action list"
  applied_changes :: "admin_action list"
  monitor_thread :: bool

definition INVALID_TOKEN :: token where "INVALID_TOKEN = 0"

text \<open>
  A method of the class: it returns a value, or throws an \<open>admin_error\<close> with a message, in a new state; any
  other error ends the program, since the methods declare that they throw nothing else.
\<close>

type_synonym 'a admin_m = "admin_state \<Rightarrow> (admin_state \<times> (string + 'a)) result"

definition ret :: "'a \<Rightarrow> 'a admin_m" where "ret x s = Inr (s, Inr x)"

definition throw :: "string \<Rightarrow> 'a admin_m" where "throw e s = Inr (s, Inl e)"

definition bindA :: "'a admin_m \<Rightarrow> ('a \<Rightarrow> 'b admin_m) \<Rightarrow> 'b admin_m" where
  "bindA m f s = bindE (m s) (\<lambda>(s', r). case r of Inl e \<Rightarrow> Inr (s', Inl e) | Inr x \<Rightarrow> f x s')"

definition liftA :: "'a result \<Rightarrow> 'a admin_m" where "liftA r s = bindE r (\<lambda>x. Inr (s, Inr x))"

definition get_obj :: "nat option \<Rightarrow> server_obj admin_m" where
  "get_obj c s =
     (case c of
        None \<Rightarrow> Inl Undefined_Behaviour
      | Some a \<Rightarrow> (case objs s a of None \<Rightarrow> Inl Undefined_Behaviour | Some x \<Rightarrow> Inr (s, Inr x)))"

definition put_obj :: "nat \<Rightarrow> server_obj \<Rightarrow> unit admin_m" where
  "put_obj a x s = Inr (s\<lparr>objs := (objs s)(a \<mapsto> x)\<rparr>, Inr ())"

text \<open>An address is set aside; nothing is there yet.\<close>

definition new_block :: "nat admin_m" where
  "new_block s = Inr (s\<lparr>next_obj := next_obj s + block\<rparr>, Inr (next_obj s))"

definition child_of :: "nat option \<Rightarrow> u32 \<Rightarrow> nat option admin_m" where
  "child_of c i = bindA (get_obj c) (\<lambda>x. ret (get_child (as_dist x) i))"

section \<open>Locks and references\<close>

text \<open>A write lock on an object, kept in \<open>write_locks_\<close>.\<close>

definition lock_write :: "nat option \<Rightarrow> nat option admin_m" where
  "lock_write c =
     bindA (get_obj c) (\<lambda>x. bindA (liftA (obj_begin_write x)) (\<lambda>x'. bindA (put_obj (the c) x') (\<lambda>_ s.
       Inr (s\<lparr>write_locks := List.insert (the c) (write_locks s)\<rparr>, Inr c))))"

definition has_write_lock :: "admin_state \<Rightarrow> nat option \<Rightarrow> bool" where
  "has_write_lock s c \<longleftrightarrow> (case c of None \<Rightarrow> False | Some a \<Rightarrow> a \<in> set (write_locks s))"

definition has_old_lock :: "admin_state \<Rightarrow> nat option \<Rightarrow> bool" where
  "has_old_lock s c \<longleftrightarrow> (case c of None \<Rightarrow> False | Some a \<Rightarrow> a \<in> set (old_state_locks s))"

text \<open>A reference is an object with a lock on it, the address here, or the empty record.\<close>

definition root_ref :: "nat option admin_m" where
  "root_ref s = Inr (s, Inr (new_state s))"

definition read_object_ref :: "nat option \<Rightarrow> nat option \<Rightarrow> nat option admin_m" where
  "read_object_ref parent c s =
     (if has_write_lock s c then ret c s
      else if has_old_lock s c then ret c s
      else bindA (get_obj parent) (\<lambda>p.
        if find_child (as_dist p) c = - 1 then ret None else lock_write c) s)"

text \<open>The copy of a child takes its place in the parent.\<close>

definition copy_child :: "server_env \<Rightarrow> nat option \<Rightarrow> u32 \<Rightarrow> nat option \<Rightarrow> nat option admin_m" where
  "copy_child env parent i c =
     bindA (get_obj c) (\<lambda>x. bindA new_block (\<lambda>a. bindA (liftA (obj_copy env a x)) (\<lambda>(x', y).
     bindA (put_obj (the c) x') (\<lambda>_. bindA (put_obj a y) (\<lambda>_.
     bindA (get_obj parent) (\<lambda>p. bindA (liftA (obj_set_child p i (Some a))) (\<lambda>p'.
     bindA (put_obj (the parent) p') (\<lambda>_. ret (Some a)))))))))"

definition write_object_ref :: "server_env \<Rightarrow> nat option \<Rightarrow> nat option \<Rightarrow> nat option admin_m" where
  "write_object_ref env parent c s =
     (if has_write_lock s c then ret c s
      else if \<not> has_old_lock s c then
        bindA (get_obj parent) (\<lambda>p. if find_child (as_dist p) c = - 1 then ret None else lock_write c) s
      else if txn_type_of s = TXN_COPY_ON_WRITE then
        bindA (get_obj parent) (\<lambda>p.
          if find_child (as_dist p) c = - 1 then ret None
          else bindA (copy_child env parent (find_child (as_dist p) c) c) lock_write) s
      else lock_write c s)"

section \<open>The objects an action works on\<close>

text \<open>
  \<open>GlobalState\<close> has the network as its child 0 and the registry as its child 1; a view has its parts at the
  positions 0 to 5. The casts of pointers to their classes come with the use of the object: a null pointer
  is not followed before that.
\<close>

definition get_net_read :: "nat option admin_m" where
  "get_net_read = bindA root_ref (\<lambda>g. bindA (child_of g 0) (read_object_ref g))"

definition get_net_write :: "server_env \<Rightarrow> nat option admin_m" where
  "get_net_write env = bindA root_ref (\<lambda>g. bindA (child_of g 0) (write_object_ref env g))"

definition get_views_read :: "nat option admin_m" where
  "get_views_read = bindA root_ref (\<lambda>g. bindA (child_of g 1) (read_object_ref g))"

definition get_views_write :: "server_env \<Rightarrow> nat option admin_m" where
  "get_views_write env = bindA root_ref (\<lambda>g. bindA (child_of g 1) (write_object_ref env g))"

definition the_registry :: "server_obj \<Rightarrow> view_registry result" where
  "the_registry x = (case x of Registry_Obj y \<Rightarrow> Inr y | _ \<Rightarrow> Inl Undefined_Behaviour)"

definition the_view :: "server_obj \<Rightarrow> view_props result" where
  "the_view x = (case x of View_Obj y \<Rightarrow> Inr y | _ \<Rightarrow> Inl Undefined_Behaviour)"

definition the_aggregation :: "server_obj \<Rightarrow> aggregation result" where
  "the_aggregation x = (case x of Aggregation_Obj y \<Rightarrow> Inr y | _ \<Rightarrow> Inl Undefined_Behaviour)"

definition the_prefixes :: "server_obj \<Rightarrow> server_pidmap result" where
  "the_prefixes x = (case x of Prefixes_Obj y \<Rightarrow> Inr y | _ \<Rightarrow> Inl Undefined_Behaviour)"

definition the_routing :: "server_obj \<Rightarrow> pid_routing result" where
  "the_routing x = (case x of Routing_Obj y \<Rightarrow> Inr y | _ \<Rightarrow> Inl Undefined_Behaviour)"

definition the_matrix :: "server_obj \<Rightarrow> server_matrix result" where
  "the_matrix x = (case x of Matrix_Obj y \<Rightarrow> Inr y | _ \<Rightarrow> Inl Undefined_Behaviour)"

definition the_net :: "server_obj \<Rightarrow> net_state result" where
  "the_net x = (case x of Net_Obj y \<Rightarrow> Inr y | _ \<Rightarrow> Inl Undefined_Behaviour)"

text \<open>Reading an object as an instance of a class, and changing one: a change says whether it was made.\<close>

definition read_as :: "(server_obj \<Rightarrow> 'a result) \<Rightarrow> nat option \<Rightarrow> 'a admin_m" where
  "read_as cast c = bindA (get_obj c) (\<lambda>x. liftA (cast x))"

definition change_as :: "(server_obj \<Rightarrow> 'a result) \<Rightarrow> ('a \<Rightarrow> server_obj) \<Rightarrow> nat option \<Rightarrow> ('a \<Rightarrow> ('a \<times> bool) result) \<Rightarrow> bool admin_m" where
  "change_as cast wrap c f =
     bindA (read_as cast c) (\<lambda>x. bindA (liftA (f x)) (\<lambda>(x', ok). bindA (put_obj (the c) (wrap x')) (\<lambda>_. ret ok)))"

definition find_view :: "nat option \<Rightarrow> string \<Rightarrow> nat option admin_m" where
  "find_view views_rec name =
     bindA (read_as the_registry views_rec) (\<lambda>g.
       case reg_get g name of None \<Rightarrow> throw ''Invalid view'' | Some v \<Rightarrow> ret (Some v))"

definition get_view_read :: "string \<Rightarrow> nat option admin_m" where
  "get_view_read name = bindA get_views_read (\<lambda>r. bindA (find_view r name) (read_object_ref r))"

definition get_view_write :: "server_env \<Rightarrow> string \<Rightarrow> nat option admin_m" where
  "get_view_write env name = bindA (get_views_write env) (\<lambda>r. bindA (find_view r name) (write_object_ref env r))"

text \<open>The parts of a view: \<open>get_aggregation_read\<close>, \<open>get_prefixes_write\<close> and so on, by the position of the part.\<close>

definition get_part_read :: "string \<Rightarrow> u32 \<Rightarrow> nat option admin_m" where
  "get_part_read name i = bindA (get_view_read name) (\<lambda>v. bindA (child_of v i) (read_object_ref v))"

definition get_part_write :: "server_env \<Rightarrow> string \<Rightarrow> u32 \<Rightarrow> nat option admin_m" where
  "get_part_write env name i = bindA (get_view_write env name) (\<lambda>v. bindA (child_of v i) (write_object_ref env v))"

definition admin_lookup_pid :: "string \<Rightarrow> string \<Rightarrow> pid admin_m" where
  "admin_lookup_pid name p =
     bindA (get_view_read name) (\<lambda>_. bindA (get_part_read name 0) (\<lambda>c. bindA (read_as the_aggregation c) (\<lambda>a.
       if is_invalid (agg_lookup a p) then throw ''Invalid PID'' else ret (agg_lookup a p))))"

text \<open>A view with the objects that are its children.\<close>

definition part_of :: "(server_obj \<Rightarrow> 'a result) \<Rightarrow> admin_state \<Rightarrow> view_props \<Rightarrow> u32 \<Rightarrow> 'a result" where
  "part_of cast s v i =
     (case get_child v i of
        None \<Rightarrow> Inl Undefined_Behaviour
      | Some a \<Rightarrow> (case objs s a of None \<Rightarrow> Inl Undefined_Behaviour | Some x \<Rightarrow> cast x))"

definition load_view :: "nat option \<Rightarrow> view admin_m" where
  "load_view c =
     bindA (read_as the_view c) (\<lambda>v s.
     bindE (part_of the_aggregation s v 0) (\<lambda>ag.
     bindE (part_of the_prefixes s v 1) (\<lambda>pf.
     bindE (part_of the_routing s v 2) (\<lambda>rt.
     bindE (part_of the_matrix s v 3) (\<lambda>lk.
     bindE (part_of the_matrix s v 4) (\<lambda>ia.
     bindE (part_of the_matrix s v 5) (\<lambda>ie.
       Inr (s, Inr (view_props.extend v
         \<lparr>v_aggregation = ag, v_prefixes = pf, v_routing = rt, v_link_pdistances = lk, v_intra_pdistances = ia, v_inter_pdistances = ie\<rparr>)))))))))"

section \<open>The actions\<close>

text \<open>Every prefix is added or removed; what the map reports is not looked at.\<close>

fun each_prefix :: "(server_pidmap \<Rightarrow> ip_prefix \<Rightarrow> (server_pidmap \<times> bool) result) \<Rightarrow> ip_prefix list \<Rightarrow> server_pidmap \<Rightarrow> (server_pidmap \<times> bool) result" where
  "each_prefix f [] m = Inr (m, True)"
| "each_prefix f (p # ps) m = bindE (f m p) (\<lambda>(m', _). each_prefix f ps m')"

text \<open>
  Adding and removing PIDs works on three parts of the view: the objects of the references, which have
  become its children.
\<close>

definition change_pids :: "server_env \<Rightarrow> string \<Rightarrow> (view \<Rightarrow> (view \<times> bool) admin_m) \<Rightarrow> bool admin_m" where
  "change_pids env name f =
     bindA (get_view_write env name) (\<lambda>v. bindA (get_part_write env name 0) (\<lambda>ag. bindA (get_part_write env name 2) (\<lambda>rt.
     bindA (get_part_write env name 3) (\<lambda>lk. bindA (load_view v) (\<lambda>x. bindA (read_as the_aggregation ag) (\<lambda>a.
     bindA (read_as the_routing rt) (\<lambda>r. bindA (read_as the_matrix lk) (\<lambda>m.
     bindA (f (x\<lparr>v_aggregation := a, v_routing := r, v_link_pdistances := m\<rparr>)) (\<lambda>(x', ok).
     bindA (put_obj (the ag) (Aggregation_Obj (v_aggregation x'))) (\<lambda>_.
     bindA (put_obj (the rt) (Routing_Obj (v_routing x'))) (\<lambda>_.
     bindA (put_obj (the lk) (Matrix_Obj (v_link_pdistances x'))) (\<lambda>_. ret ok))))))))))))"

text \<open>
  The update of distances makes its two matrices first. When they are installed, they are children of the
  view; otherwise its children are what they were.
\<close>

definition put_update :: "nat \<Rightarrow> nat option \<Rightarrow> view \<Rightarrow> view \<times> u32 \<Rightarrow> bool admin_m" where
  "put_update a v x u =
     bindA (if children (fst u) = children x then ret ()
            else bindA (put_obj a (Matrix_Obj (v_intra_pdistances (fst u)))) (\<lambda>_. put_obj (a + 1) (Matrix_Obj (v_inter_pdistances (fst u))))) (\<lambda>_.
     bindA (put_obj (the v) (View_Obj (view_props.truncate (fst u)))) (\<lambda>_. ret (snd u \<noteq> 0)))"

definition update_pdistances :: "server_env \<Rightarrow> string \<Rightarrow> bool admin_m" where
  "update_pdistances env name =
     bindA root_ref (\<lambda>_. bindA get_net_read (\<lambda>n. bindA (get_views_write env) (\<lambda>_. bindA (get_view_write env name) (\<lambda>v.
     bindA (get_part_read name 0) (\<lambda>_. bindA (get_part_read name 0) (\<lambda>_. bindA (get_part_read name 2) (\<lambda>_. bindA (get_part_read name 3) (\<lambda>_.
     bindA new_block (\<lambda>a. bindA (load_view v) (\<lambda>x. bindA (read_as the_net n) (\<lambda>net.
     bindA (liftA (do_update (se_memory env a) (a, a + 1) (se_fl env) (se_fl_cost env) (se_paths env) (se_plugin env) net x))
       (put_update a v x))))))))))))"

definition get_prop :: "server_env \<Rightarrow> view_props \<Rightarrow> string \<Rightarrow> string option" where
  "get_prop env v prop =
     (if prop = ''default_interpid'' then Some (se_show_double env (default_interpid v))
      else if prop = ''default_intrapid'' then Some (se_show_double env (default_intrapid v))
      else if prop = ''default_pidlink'' then Some (se_show_double env (default_pidlink v))
      else if prop = ''default_interdomain'' then Some (se_show_double env (default_interdomain v))
      else if prop = ''interdomain_includes_intradomain'' then Some (se_show_bool env (includes_intra v))
      else if prop = ''update_interval'' then Some (se_show_uint env (update_interval v))
      else if prop = ''pid_ttl'' then Some (se_show_uint env (pid_ttl v))
      else if prop = ''pdistance_ttl'' then Some (se_show_uint env (pdistance_ttl v))
      else None)"

text \<open>A value that cannot be read leaves the view as it is, as an unknown property does.\<close>

definition set_from :: "'b option \<Rightarrow> (view_props \<Rightarrow> 'b \<Rightarrow> view_props result) \<Rightarrow> view_props \<Rightarrow> (view_props \<times> bool) result" where
  "set_from x f v = (case x of None \<Rightarrow> Inr (v, False) | Some y \<Rightarrow> bindE (f v y) (\<lambda>v'. Inr (v', True)))"

definition set_prop :: "server_env \<Rightarrow> string \<Rightarrow> string \<Rightarrow> view_props \<Rightarrow> (view_props \<times> bool) result" where
  "set_prop env prop x v =
     (if prop = ''default_interpid'' then set_from (se_read_double env x) set_default_interpid_pdistance v
      else if prop = ''default_intrapid'' then set_from (se_read_double env x) set_default_intrapid_pdistance v
      else if prop = ''default_pidlink'' then set_from (se_read_double env x) set_default_pidlink_pdistance v
      else if prop = ''default_interdomain'' then set_from (se_read_double env x) set_default_interdomain_pdistance v
      else if prop = ''interdomain_includes_intradomain'' then set_from (se_read_bool env x) set_interdomain_includes_intradomain v
      else if prop = ''update_interval'' then set_from (se_read_uint env x) set_update_interval v
      else if prop = ''pid_ttl'' then set_from (se_read_uint env x) set_pid_ttl v
      else if prop = ''pdistance_ttl'' then set_from (se_read_uint env x) set_pdistance_ttl v
      else Inr (v, False))"

text \<open>Adding a view makes it with its children, in the first free slot of the registry.\<close>

definition put_view :: "nat \<Rightarrow> view \<Rightarrow> unit admin_m" where
  "put_view a v s =
     Inr (s\<lparr>objs := (objs s)(a \<mapsto> View_Obj (view_props.truncate v), a + 1 \<mapsto> Aggregation_Obj (v_aggregation v),
       a + 2 \<mapsto> Prefixes_Obj (v_prefixes v), a + 3 \<mapsto> Routing_Obj (v_routing v), a + 4 \<mapsto> Matrix_Obj (v_link_pdistances v),
       a + 5 \<mapsto> Matrix_Obj (v_intra_pdistances v), a + 6 \<mapsto> Matrix_Obj (v_inter_pdistances v))\<rparr>, Inr ())"

definition add_view :: "server_env \<Rightarrow> nat option \<Rightarrow> string \<Rightarrow> bool admin_m" where
  "add_view env r name =
     bindA (read_as the_registry r) (\<lambda>g.
       if free_slot g = None then ret False
       else bindA new_block (\<lambda>a.
            bindA (liftA (View (se_memory env a) [a + 1..<a + 7] name)) (\<lambda>v.
            bindA (put_view a v) (\<lambda>_. change_as the_registry Registry_Obj r (\<lambda>g. reg_add a g name)))))"

fun commit :: "server_env \<Rightarrow> admin_action \<Rightarrow> bool admin_m" where
  "commit env Inspect = ret True"
| "commit env (Net_Change op) = bindA (get_net_write env) (\<lambda>c. change_as the_net Net_Obj c (\<lambda>n. net_commit n op))"
| "commit env (View_Add name) = bindA (get_views_write env) (\<lambda>r. add_view env r name)"
| "commit env (View_Delete name) =
     bindA (get_views_write env) (\<lambda>r. change_as the_registry Registry_Obj r (\<lambda>g. reg_remove g name))"
| "commit env (PDistance_Update name) = update_pdistances env name"
| "commit env (Add_PID name n p) = change_pids env name (\<lambda>v. liftA (view_add_pid v n p))"
| "commit env (Delete_PID name n) =
     change_pids env name (\<lambda>v. bindA (admin_lookup_pid name n) (\<lambda>p. liftA (view_remove_pid (\<lambda>_. None) v p)))"
| "commit env (Add_Prefixes name n ps) =
     bindA (get_part_write env name 1) (\<lambda>c. bindA (admin_lookup_pid name n) (\<lambda>p.
       change_as the_prefixes Prefixes_Obj c (each_prefix (\<lambda>m x. sp_add m x p) ps)))"
| "commit env (Delete_Prefixes name n ps) =
     bindA (get_part_write env name 1) (\<lambda>c. bindA (admin_lookup_pid name n) (\<lambda>p.
       change_as the_prefixes Prefixes_Obj c (each_prefix (\<lambda>m x. sp_remove m x p) ps)))"
| "commit env (Clear_Prefixes name n) =
     bindA (get_part_write env name 1) (\<lambda>c. bindA (admin_lookup_pid name n) (\<lambda>p.
       change_as the_prefixes Prefixes_Obj c (\<lambda>m. sp_remove_pid m p)))"
| "commit env (Add_Nodes name n ns) =
     bindA (admin_lookup_pid name n) (\<lambda>p. bindA (get_part_write env name 0) (\<lambda>c.
       change_as the_aggregation Aggregation_Obj c (\<lambda>a. add_vertices a p ns)))"
| "commit env (Delete_Nodes name n ns) =
     bindA (get_part_write env name 0) (\<lambda>c. bindA (admin_lookup_pid name n) (\<lambda>p.
       change_as the_aggregation Aggregation_Obj c (\<lambda>a. remove_vertices a p ns)))"
| "commit env (Clear_Nodes name n) =
     bindA (get_part_write env name 0) (\<lambda>c. bindA (admin_lookup_pid name n) (\<lambda>p.
       change_as the_aggregation Aggregation_Obj c (\<lambda>a. clear_vertices a p)))"
| "commit env (Set_Link_Cost name l x) =
     bindA (get_part_read name 0) (\<lambda>c. bindA (get_part_write env name 3) (\<lambda>m. bindA (read_as the_aggregation c) (\<lambda>a.
       case get_link a l of
         None \<Rightarrow> ret False
       | Some (src, dst) \<Rightarrow> change_as the_matrix Matrix_Obj m (\<lambda>m. mx_set_by_pid m src dst x))))"
| "commit env (Set_Link_Weight name l x) =
     bindA (get_part_read name 0) (\<lambda>c. bindA (get_part_write env name 2) (\<lambda>r. bindA (read_as the_aggregation c) (\<lambda>a.
       case get_link a l of
         None \<Rightarrow> ret False
       | Some (src, dst) \<Rightarrow> change_as the_routing Routing_Obj r (\<lambda>r. set_weight r src dst x))))"
| "commit env (Prop_Get name prop _) =
     bindA (get_view_read name) (\<lambda>c. bindA (read_as the_view c) (\<lambda>v. ret (get_prop env v prop \<noteq> None)))"
| "commit env (Prop_Set name prop x) = bindA (get_view_write env name) (\<lambda>c. change_as the_view View_Obj c (set_prop env prop x))"
| "commit env (Add_Link name l src dst) =
     bindA (get_part_write env name 0) (\<lambda>c. bindA (admin_lookup_pid name src) (\<lambda>p. bindA (admin_lookup_pid name dst) (\<lambda>q.
       change_as the_aggregation Aggregation_Obj c (\<lambda>a. define_link a l p q))))"
| "commit env (Delete_Link name l) =
     bindA (get_part_write env name 0) (\<lambda>c. change_as the_aggregation Aggregation_Obj c (\<lambda>a. undefine_link a l))"

section \<open>Tokens\<close>

text \<open>\<open>strtoull(s, &end, 16)\<close>: white space, a sign, an optional prefix and digits; without digits nothing is consumed.\<close>

definition hex_digit :: "nat \<Rightarrow> char" where
  "hex_digit d = (if d < 10 then char_of (48 + d) else char_of (87 + d))"

definition hex_val :: "char \<Rightarrow> nat option" where
  "hex_val c =
     (let n = of_char c :: nat in
      if 48 \<le> n \<and> n \<le> 57 then Some (n - 48)
      else if 97 \<le> n \<and> n \<le> 102 then Some (n - 87)
      else if 65 \<le> n \<and> n \<le> 70 then Some (n - 55) else None)"

definition is_hex :: "char \<Rightarrow> bool" where "is_hex c \<longleftrightarrow> hex_val c \<noteq> None"

definition hex_value :: "string \<Rightarrow> nat" where
  "hex_value ds = foldl (\<lambda>n c. 16 * n + the (hex_val c)) 0 ds"

definition skip_0x :: "string \<Rightarrow> string" where
  "skip_0x s = (case s of z # x # d # t \<Rightarrow> if z = CHR ''0'' \<and> (x = CHR ''x'' \<or> x = CHR ''X'') \<and> is_hex d then d # t else s | _ \<Rightarrow> s)"

definition strtoull16 :: "string \<Rightarrow> token \<times> string" where
  "strtoull16 s =
     (let (neg, t) = skip_sign (dropWhile c_isspace s); t = skip_0x t; ds = takeWhile is_hex t; v = hex_value ds
      in if ds = [] then (0, s)
         else (if v > ULONG_MAX then - 1 else if neg then - of_nat v else of_nat v, dropWhile is_hex t))"

definition string_to_token :: "string \<Rightarrow> token option" where
  "string_to_token s =
     (if s = [] then None else let (t, rest) = strtoull16 (c_str s) in if rest = [] then Some t else None)"

text \<open>\<open>%016llx\<close>: sixteen digits, the most significant first.\<close>

fun hex_digits :: "nat \<Rightarrow> nat \<Rightarrow> string" where
  "hex_digits 0 n = []"
| "hex_digits (Suc k) n = hex_digits k (n div 16) @ [hex_digit (n mod 16)]"

definition token_to_string :: "token \<Rightarrow> string" where
  "token_to_string t = hex_digits 16 (unat t)"

text \<open>
  The numbers of the random device come in a list; \<open>None\<close> is a failure to read. A token is made of two
  numbers, the first in its low half, as the union lays it out on a little-endian machine.
\<close>

definition MAX_TOKEN_GENERATE_ATTEMPTS :: nat where "MAX_TOKEN_GENERATE_ATTEMPTS = 3"

definition failed_token :: "string \<Rightarrow> unit admin_m" where
  "failed_token e s = throw (''Failed to generate token: '' @ e) (s\<lparr>token_of := INVALID_TOKEN\<rparr>)"

fun generate_tokens :: "nat \<Rightarrow> string \<Rightarrow> u32 option list \<Rightarrow> unit admin_m" where
  "generate_tokens 0 e draws s = failed_token ''Generated invalid token too many times'' s"
| "generate_tokens (Suc k) e (Some lo # Some hi # draws) s =
     (let s1 = s\<lparr>token_of := ucast lo OR push_bit 32 (ucast hi)\<rparr>
      in if token_of s1 \<noteq> INVALID_TOKEN then ret () s1 else generate_tokens k e draws s1)"
| "generate_tokens (Suc k) e (None # draws) s = failed_token e s"
| "generate_tokens (Suc k) e (Some lo # None # draws) s = failed_token e s"
| "generate_tokens (Suc k) e _ s = Inl Out_Of_Draws"

definition generate_token :: "string \<Rightarrow> u32 option list \<Rightarrow> unit admin_m" where
  "generate_token = generate_tokens MAX_TOKEN_GENERATE_ATTEMPTS"

definition check_txn_token :: "token \<Rightarrow> unit admin_m" where
  "check_txn_token t s =
     (if token_of s = INVALID_TOKEN then throw ''No transaction in progress'' s
      else if token_of s \<noteq> t then throw ''Incorrect token'' s
      else ret () s)"

section \<open>Transactions\<close>

text \<open>
  The loop that locks the objects of the current state, breadth first. A lock of this kind excludes
  another one, so an object that is met twice is waited for without end. Every step locks one more of the
  objects that were ever made, so one step more than their number is enough.
\<close>

fun lock_tree :: "nat \<Rightarrow> nat list \<Rightarrow> unit admin_m" where
  "lock_tree k [] s = ret () s"
| "lock_tree 0 (a # as) s = Inl Deadlock"
| "lock_tree (Suc k) (a # as) s =
     (if a \<in> set (old_state_locks s) then Inl Deadlock
      else bindA (get_obj (Some a)) (\<lambda>x s.
             lock_tree k (as @ get_children (as_dist x)) (s\<lparr>old_state_locks := old_state_locks s @ [a]\<rparr>)) s)"

text \<open>The locks, the copy of the root with a lock of its own, and the monitor.\<close>

definition open_txn :: "server_env \<Rightarrow> token admin_m" where
  "open_txn env s =
     bindA (lock_tree (next_obj s + 1) [global_state s]) (\<lambda>_.
     bindA (get_obj (Some (global_state s))) (\<lambda>x. bindA new_block (\<lambda>a. bindA (liftA (obj_copy env a x)) (\<lambda>(_, y).
     bindA (put_obj a y) (\<lambda>_ s. bindA (lock_write (Some a)) (\<lambda>_ s.
       if monitor_thread s then Inl Assertion_Failed else ret (token_of s) (s\<lparr>monitor_thread := True\<rparr>)) (s\<lparr>new_state := Some a\<rparr>)))))) s"

definition txn_begin :: "server_env \<Rightarrow> txn_type \<Rightarrow> string \<Rightarrow> u32 option list \<Rightarrow> token admin_m" where
  "txn_begin env type e draws s =
     (if token_of s \<noteq> INVALID_TOKEN then throw ''Transaction already in progress'' s
      else bindA (generate_token e draws) (\<lambda>_ s. open_txn env (s\<lparr>txn_type_of := type\<rparr>)) s)"

text \<open>The locks end their writes; the order does not matter.\<close>

fun release_locks :: "nat list \<Rightarrow> unit admin_m" where
  "release_locks [] = ret ()"
| "release_locks (a # as) =
     bindA (get_obj (Some a)) (\<lambda>x. bindA (liftA (obj_end_write x)) (\<lambda>x'. bindA (put_obj a x') (\<lambda>_. release_locks as)))"

definition clear_txn_state :: "unit admin_m" where
  "clear_txn_state s =
     bindA (release_locks (write_locks s)) (\<lambda>_ s.
       ret () (s\<lparr>write_locks := [], old_state_locks := [], new_state := None, unapplied_changes := [], applied_changes := [],
                 token_of := INVALID_TOKEN, monitor_thread := False\<rparr>)) s"

text \<open>\<open>rollback\<close> of an action: no class overrides it.\<close>

definition action_rollback :: "admin_action \<Rightarrow> bool admin_m" where
  "action_rollback act = ret True"

fun rollback_each :: "admin_action list \<Rightarrow> unit admin_m" where
  "rollback_each [] = ret ()"
| "rollback_each (act # acts) = bindA (action_rollback act) (\<lambda>_. rollback_each acts)"

definition rollback_changes :: "unit admin_m" where
  "rollback_changes s = bindA (rollback_each (rev (applied_changes s))) (\<lambda>_ s. ret () (s\<lparr>applied_changes := []\<rparr>)) s"

text \<open>What an action holds after \<open>commit\<close>: the value of a property, when it is known.\<close>

definition committed :: "server_env \<Rightarrow> admin_state \<Rightarrow> admin_action \<Rightarrow> admin_action" where
  "committed env s act =
     (case act of
        Prop_Get name prop _ \<Rightarrow>
          (case bindA (get_view_read name) (read_as the_view) s of
             Inr (_, Inr v) \<Rightarrow> Prop_Get name prop (get_prop env v prop)
           | _ \<Rightarrow> act)
      | _ \<Rightarrow> act)"

fun process_list :: "server_env \<Rightarrow> admin_action list \<Rightarrow> bool admin_m" where
  "process_list env [] s = ret True s"
| "process_list env (act # acts) s =
     bindE (commit env act s) (\<lambda>(s', r).
       if r \<noteq> Inr True then bindA rollback_changes (\<lambda>_. ret False) s'
       else process_list env acts (s'\<lparr>applied_changes := applied_changes s' @ [committed env s act], unapplied_changes := acts\<rparr>))"

definition process_changes :: "server_env \<Rightarrow> bool admin_m" where
  "process_changes env s = process_list env (unapplied_changes s) s"

text \<open>The action is returned, or nothing when it failed and the transaction is over.\<close>

definition txn_apply :: "server_env \<Rightarrow> token \<Rightarrow> admin_action \<Rightarrow> admin_action option admin_m" where
  "txn_apply env t act =
     bindA (check_txn_token t) (\<lambda>_ s.
       let s = s\<lparr>unapplied_changes := unapplied_changes s @ [act]\<rparr>
       in if txn_type_of s = TXN_COPY_ON_WRITE
          then bindA (process_changes env) (\<lambda>ok.
                 if \<not> ok then bindA clear_txn_state (\<lambda>_. ret None)
                 else (\<lambda>s. ret (Some (last (applied_changes s))) (s\<lparr>applied_changes := []\<rparr>))) s
          else ret (Some act) s)"

text \<open>\<open>apply\<close> of the global state: the children of the new state, under the upgraded lock.\<close>

definition global_apply :: "dist_object \<Rightarrow> dist_object \<Rightarrow> dist_object result" where
  "global_apply new g =
     bindE (set_child g 0 (get_child new 0)) (\<lambda>g. bindE (set_child g 1 (get_child new 1)) changed)"

definition the_global :: "server_obj \<Rightarrow> dist_object result" where
  "the_global x = (case x of Global_Obj y \<Rightarrow> Inr y | _ \<Rightarrow> Inl Undefined_Behaviour)"

definition install_state :: "unit admin_m" where
  "install_state s =
     bindA (read_as the_global (new_state s)) (\<lambda>new.
     bindA (change_as the_global Global_Obj (Some (global_state s)) (\<lambda>g.
       bindE (begin_write g) (\<lambda>g. bindE (global_apply new g) (\<lambda>g. bindE (end_write g) (\<lambda>g. Inr (g, True)))))) (\<lambda>_. ret ())) s"

text \<open>
  \<open>updated\<close> of an object and of its children, under a lock for writing: the registry makes the default view
  when it has none, and a view has its update scheduled. An object that is its own descendant would be
  locked twice, which is an error; so the number of objects bounds the depth.
\<close>

definition on_update :: "server_env \<Rightarrow> int \<Rightarrow> nat \<Rightarrow> unit admin_m" where
  "on_update env now a =
     bindA (get_obj (Some a)) (\<lambda>x.
       case x of
         Registry_Obj g \<Rightarrow>
           if get_children_count g \<noteq> 0 then ret ()
           else bindA (add_view env (Some a) DEFAULT_VIEW_NAME) (\<lambda>ok s.
             if ok then ret () s else Inl (Runtime_Error ''Failed to register default view''))
       | View_Obj v \<Rightarrow> (\<lambda>s. bindE (view_on_update now (job_q s) v) (\<lambda>q. ret () (s\<lparr>job_q := q\<rparr>)))
       | _ \<Rightarrow> ret ())"

fun updated :: "nat \<Rightarrow> server_env \<Rightarrow> int \<Rightarrow> nat list \<Rightarrow> unit admin_m" where
  "updated k env now [] = ret ()"
| "updated 0 env now (a # as) = (\<lambda>s. Inl (Runtime_Error ''illegal state: object write already started''))"
| "updated (Suc k) env now (a # as) =
     bindA (get_obj (Some a)) (\<lambda>x. bindA (liftA (obj_begin_write x)) (\<lambda>x. bindA (put_obj a x) (\<lambda>_.
     bindA (on_update env now a) (\<lambda>_. bindA (get_obj (Some a)) (\<lambda>x. bindA (updated k env now (get_children (as_dist x))) (\<lambda>_.
     bindA (get_obj (Some a)) (\<lambda>x. bindA (liftA (obj_end_write x)) (\<lambda>x. bindA (put_obj a x) (\<lambda>_.
       updated (Suc k) env now as)))))))))"

definition txn_commit :: "server_env \<Rightarrow> int \<Rightarrow> token \<Rightarrow> bool admin_m" where
  "txn_commit env now t =
     bindA (check_txn_token t) (\<lambda>_. bindA (process_changes env) (\<lambda>ok.
       if \<not> ok then bindA clear_txn_state (\<lambda>_. ret False)
       else bindA install_state (\<lambda>_. bindA clear_txn_state (\<lambda>_ s.
            bindA (updated (next_obj s + block) env now [global_state s]) (\<lambda>_. ret True) s))))"

definition txn_rollback :: "token \<Rightarrow> unit admin_m" where
  "txn_rollback t = bindA (check_txn_token t) (\<lambda>_. clear_txn_state)"

text \<open>
  The thread that watches a transaction, when its sleep is over: it ends when it has rolled the
  transaction back, and otherwise sleeps again.
\<close>

definition monitor_wakes :: "token \<Rightarrow> bool admin_m" where
  "monitor_wakes t s =
     bindE (txn_rollback t s) (\<lambda>(s', r). Inr (s', Inr (case r of Inl e \<Rightarrow> False | Inr _ \<Rightarrow> True)))"

section \<open>The start of the server\<close>

definition GlobalState :: "server_env \<Rightarrow> nat admin_m" where
  "GlobalState env =
     bindA new_block (\<lambda>a. bindA (liftA (make_global (se_memory env a 0) [a + 1, a + 2])) (\<lambda>g.
     bindA (put_obj a (Global_Obj g)) (\<lambda>_.
     bindA (put_obj (a + 1) (Net_Obj (NetState (se_memory env a 1)))) (\<lambda>_.
     bindA (put_obj (a + 2) (Registry_Obj (ViewRegistry (se_memory env a 2)))) (\<lambda>_. ret a)))))"

definition AdminState :: "u32 \<Rightarrow> txn_type \<Rightarrow> admin_state" where
  "AdminState n garbage =
     \<lparr>objs = Map.empty, next_obj = 0, global_state = 0, job_q = JobQueue n, token_of = INVALID_TOKEN, txn_type_of = garbage,
      new_state = None, old_state_locks = [], write_locks = [], unapplied_changes = [], applied_changes = [], monitor_thread = False\<rparr>"

definition init_state :: "server_env \<Rightarrow> int \<Rightarrow> u32 \<Rightarrow> txn_type \<Rightarrow> admin_state result" where
  "init_state env now n garbage =
     bindE (GlobalState env (AdminState n garbage)) (\<lambda>(s, r).
       case r of
         Inl e \<Rightarrow> Inl (Runtime_Error e)
       | Inr a \<Rightarrow> bindE (updated (next_obj s + block) env now [a] (s\<lparr>global_state := a\<rparr>)) (\<lambda>(s', _). Inr s'))"

end
