(* ===== verification/Admin_Properties.thy ===== *)
theory Admin_Properties
  imports Admin_State
begin

text \<open>
  What holds of the transactions of an administrator: an action writes only to objects the transaction has
  locked for writing, and in a transaction that copies on write these are never objects of the state that
  is in use. So a transaction can always be rolled back, and then the state is what it was.
\<close>

section \<open>The invariant of a transaction\<close>

text \<open>
  No administrative action changes the mode of the routes, so that all routing objects compute routes from
  weights. \<open>h\<close> is the store in which the transaction began.
\<close>

definition weights_only :: "server_obj \<Rightarrow> bool" where
  "weights_only x \<longleftrightarrow> (case x of Routing_Obj r \<Rightarrow> route_mode_of r = RM_WEIGHTS | _ \<Rightarrow> True)"

definition txn_inv :: "(nat \<rightharpoonup> server_obj) \<Rightarrow> admin_state \<Rightarrow> bool" where
  "txn_inv h s \<longleftrightarrow> distinct (write_locks s) \<and>
     (\<forall>a x. objs s a = Some x \<longrightarrow> a < next_obj s \<and> weights_only x \<and> (a \<in> set (write_locks s) \<longrightarrow> writing (as_dist x))) \<and>
     set (write_locks s) \<subseteq> dom (objs s) \<and> set_option (new_state s) \<subseteq> set (write_locks s) \<and> (\<forall>a\<in>set (old_state_locks s). a < next_obj s) \<and>
     (txn_type_of s = TXN_COPY_ON_WRITE \<longrightarrow>
        set (old_state_locks s) \<inter> set (write_locks s) = {} \<and> (\<forall>a\<in>set (old_state_locks s). objs s a = h a))"

text \<open>What an action leaves alone.\<close>

definition same_txn :: "admin_state \<Rightarrow> admin_state \<Rightarrow> bool" where
  "same_txn s s' \<longleftrightarrow> old_state_locks s' = old_state_locks s \<and> txn_type_of s' = txn_type_of s \<and> token_of s' = token_of s \<and>
     new_state s' = new_state s \<and> global_state s' = global_state s \<and> unapplied_changes s' = unapplied_changes s \<and>
     applied_changes s' = applied_changes s \<and> monitor_thread s' = monitor_thread s \<and> job_q s' = job_q s \<and>
     set (write_locks s) \<subseteq> set (write_locks s') \<and> next_obj s \<le> next_obj s'"

lemma same_txn_refl [simp]: "same_txn s s"
  by (simp add: same_txn_def)

lemma same_txn_trans: "same_txn s s' \<Longrightarrow> same_txn s' s'' \<Longrightarrow> same_txn s s''"
  by (auto simp: same_txn_def)

text \<open>
  \<open>safe W m Q\<close>: when the addresses \<open>W\<close> are locked for writing, the method \<open>m\<close> keeps the invariant, whether it
  returns or throws, and for a value \<open>x\<close> it returns the addresses \<open>Q x\<close> are locked as well.
\<close>

definition safe :: "nat set \<Rightarrow> 'a admin_m \<Rightarrow> ('a \<Rightarrow> nat set) \<Rightarrow> bool" where
  "safe W m Q \<longleftrightarrow> (\<forall>h s s' r. txn_inv h s \<longrightarrow> W \<subseteq> set (write_locks s) \<longrightarrow> m s = Inr (s', r) \<longrightarrow>
     txn_inv h s' \<and> same_txn s s' \<and> (\<forall>x. r = Inr x \<longrightarrow> Q x \<subseteq> set (write_locks s')))"

named_theorems safe_rules \<open>methods that keep the invariant of a transaction\<close>

lemma safeI:
  assumes "\<And>h s s' r. txn_inv h s \<Longrightarrow> W \<subseteq> set (write_locks s) \<Longrightarrow> m s = Inr (s', r) \<Longrightarrow>
    txn_inv h s' \<and> same_txn s s' \<and> (\<forall>x. r = Inr x \<longrightarrow> Q x \<subseteq> set (write_locks s'))"
  shows "safe W m Q"
  using assms by (auto simp: safe_def)

lemma safe_ret: "Q x \<subseteq> W \<Longrightarrow> safe W (ret x) Q"
  by (auto simp: safe_def ret_def)

lemma safe_throw [safe_rules]: "safe W (throw e) Q"
  by (auto simp: safe_def throw_def)

lemma safe_liftA [safe_rules]: "safe W (liftA r) (\<lambda>_. {})"
  by (auto simp: safe_def liftA_def bindE_eq_Inr)

lemma safe_get_obj [safe_rules]: "safe W (get_obj c) (\<lambda>_. {})"
  by (auto simp: safe_def get_obj_def split: option.splits)

lemma bindA_Inr: "bindA m f s = Inr (s', r) \<longleftrightarrow>
    (\<exists>s1 x. m s = Inr (s1, Inr x) \<and> f x s1 = Inr (s', r)) \<or> (\<exists>e. m s = Inr (s', Inl e) \<and> r = Inl e)"
  by (cases "m s") (auto simp: bindA_def split: sum.splits)

lemma safe_bindA:
  assumes "safe W m Q" "\<And>x. safe (W \<union> Q x) (f x) R"
  shows "safe W (bindA m f) R"
proof (rule safeI)
  fix h s s' r
  assume *: "txn_inv h s" "W \<subseteq> set (write_locks s)" "bindA m f s = Inr (s', r)"
  let ?goal = "txn_inv h s' \<and> same_txn s s' \<and> (\<forall>x. r = Inr x \<longrightarrow> R x \<subseteq> set (write_locks s'))"
  consider s1 x where "m s = Inr (s1, Inr x)" "f x s1 = Inr (s', r)" | e where "m s = Inr (s', Inl e)" "r = Inl e"
    using *(3) by (auto simp: bindA_Inr)
  then show ?goal
  proof cases
    case 1
    have 2: "txn_inv h s1" "same_txn s s1" "Q x \<subseteq> set (write_locks s1)"
      using assms(1) 1(1) *(1,2) unfolding safe_def by blast+
    then have "W \<union> Q x \<subseteq> set (write_locks s1)" using *(2) by (auto simp: same_txn_def)
    then have "txn_inv h s' \<and> same_txn s1 s' \<and> (\<forall>x. r = Inr x \<longrightarrow> R x \<subseteq> set (write_locks s'))"
      using assms(2) [of x] 2(1) 1(2) unfolding safe_def by blast
    then show ?thesis using same_txn_trans [OF 2(2)] by blast
  next
    case 2
    then show ?thesis using assms(1) * unfolding safe_def by blast
  qed
qed

lemma safe_weaken:
  assumes "safe W m Q" "W \<subseteq> W'" "\<And>x. Q' x \<subseteq> Q x"
  shows "safe W' m Q'"
proof (rule safeI)
  fix h s s' r
  assume "txn_inv h s" "W' \<subseteq> set (write_locks s)" "m s = Inr (s', r)"
  then have "txn_inv h s' \<and> same_txn s s' \<and> (\<forall>x. r = Inr x \<longrightarrow> Q x \<subseteq> set (write_locks s'))"
    using assms(1,2) unfolding safe_def by blast
  then show "txn_inv h s' \<and> same_txn s s' \<and> (\<forall>x. r = Inr x \<longrightarrow> Q' x \<subseteq> set (write_locks s'))"
    using assms(3) by blast
qed

section \<open>Writing to the store\<close>

lemma txn_inv_put:
  assumes "txn_inv h s" "a < next_obj s" "weights_only x" "a \<in> set (write_locks s) \<Longrightarrow> writing (as_dist x)"
    "txn_type_of s = TXN_COPY_ON_WRITE \<Longrightarrow> a \<notin> set (old_state_locks s)"
  shows "txn_inv h (s\<lparr>objs := (objs s)(a \<mapsto> x)\<rparr>)"
  using assms by (auto simp: txn_inv_def)

lemma txn_inv_put_locked:
  assumes "txn_inv h s" "a \<in> set (write_locks s)" "weights_only x" "writing (as_dist x)"
  shows "txn_inv h (s\<lparr>objs := (objs s)(a \<mapsto> x)\<rparr>)"
  using assms by (intro txn_inv_put) (auto simp: txn_inv_def)

lemma txn_inv_block: "txn_inv h s \<Longrightarrow> txn_inv h (s\<lparr>next_obj := next_obj s + block\<rparr>)"
  by (auto simp: txn_inv_def trans_less_add1)

lemma txn_inv_lock:
  assumes "txn_inv h s" "objs s a = Some x" "writing (as_dist x)"
    "txn_type_of s = TXN_COPY_ON_WRITE \<Longrightarrow> a \<notin> set (old_state_locks s)"
  shows "txn_inv h (s\<lparr>write_locks := List.insert a (write_locks s)\<rparr>)"
  using assms by (auto simp: txn_inv_def)

lemma txn_invD:
  assumes "txn_inv h s"
  shows "objs s a = Some x \<Longrightarrow> a < next_obj s" "objs s a = Some x \<Longrightarrow> weights_only x"
    "objs s a = Some x \<Longrightarrow> a \<in> set (write_locks s) \<Longrightarrow> writing (as_dist x)"
    "a \<in> set (write_locks s) \<Longrightarrow> \<exists>x. objs s a = Some x" "a \<in> set (write_locks s) \<Longrightarrow> a < next_obj s"
    "a \<in> set (old_state_locks s) \<Longrightarrow> a < next_obj s"
    "txn_type_of s = TXN_COPY_ON_WRITE \<Longrightarrow> a \<in> set (write_locks s) \<Longrightarrow> a \<notin> set (old_state_locks s)"
  using assms by (auto simp: txn_inv_def)

lemma mapE_Inr [simp]: "mapE f r = Inr y \<longleftrightarrow> (\<exists>x. r = Inr x \<and> y = f x)"
  by (auto simp: mapE_def bindE_eq_Inr)

lemma writing_truncate [simp]: "writing (dist_object.truncate x) = writing x"
  by (simp add: dist_object.defs)

lemma begin_write_spec: "obj_begin_write x = Inr y \<Longrightarrow> writing (as_dist y) \<and> \<not> writing (as_dist x) \<and> weights_only y = weights_only x"
  by (cases x) (auto simp: begin_write_def weights_only_def split: if_splits)

lemma set_child_spec: "set_child x i c = Inr y \<Longrightarrow> writing y \<and> writing x"
  by (auto simp: set_child_def Let_def changed_cases split: if_splits)

lemma set_child_mode: "set_child r i c = Inr r' \<Longrightarrow> route_mode_of r' = route_mode_of r"
  by (auto simp: set_child_def Let_def changed_cases touched_def split: if_splits)

lemma obj_set_child_spec: "obj_set_child x i c = Inr y \<Longrightarrow> writing (as_dist y) \<and> weights_only y = weights_only x"
  by (cases x) (auto simp: weights_only_def dest: set_child_spec set_child_mode)

lemma rt_copy_weights: "rt_copy g g' r = (r', n) \<Longrightarrow> route_mode_of r = RM_WEIGHTS \<Longrightarrow> r' = r \<and> route_mode_of n = RM_WEIGHTS"
  by (auto simp: rt_copy_def Let_def)

text \<open>A copy leaves what it copies as it was.\<close>

lemma obj_copy_spec: "obj_copy env a x = Inr (x', y) \<Longrightarrow> weights_only x \<Longrightarrow> x' = x \<and> weights_only y"
  by (cases x) (auto simp: weights_only_def Let_def dest!: rt_copy_weights split: prod.splits)

section \<open>References\<close>

lemma get_obj_Inr: "get_obj c s = Inr (s', r) \<longleftrightarrow> (\<exists>a x. c = Some a \<and> objs s a = Some x \<and> s' = s \<and> r = Inr x)"
  by (auto simp: get_obj_def split: option.splits)

lemma liftA_Inr: "liftA m s = Inr (s', r) \<longleftrightarrow> (\<exists>x. m = Inr x \<and> s' = s \<and> r = Inr x)"
  by (auto simp: liftA_def bindE_eq_Inr)

lemma put_obj_Inr: "put_obj a x s = Inr (s', r) \<longleftrightarrow> s' = s\<lparr>objs := (objs s)(a \<mapsto> x)\<rparr> \<and> r = Inr ()"
  by (auto simp: put_obj_def)

lemma ret_Inr: "ret x s = Inr (s', r) \<longleftrightarrow> s' = s \<and> r = Inr x"
  by (auto simp: ret_def)

lemma new_block_Inr: "new_block s = Inr (s', r) \<longleftrightarrow> s' = s\<lparr>next_obj := next_obj s + block\<rparr> \<and> r = Inr (next_obj s)"
  by (auto simp: new_block_def)

lemmas method_Inr = bindA_Inr get_obj_Inr liftA_Inr put_obj_Inr ret_Inr new_block_Inr

lemma lock_write_inv:
  assumes "txn_inv h s" "txn_type_of s = TXN_COPY_ON_WRITE \<Longrightarrow> \<not> has_old_lock s c" "lock_write c s = Inr (s', r)"
  shows "txn_inv h s' \<and> same_txn s s' \<and> (\<forall>x. r = Inr x \<longrightarrow> set_option x \<subseteq> set (write_locks s'))"
proof -
  obtain a x y where c: "c = Some a" "objs s a = Some x" "obj_begin_write x = Inr y" "r = Inr c"
    and s': "s' = s\<lparr>objs := (objs s)(a \<mapsto> y), write_locks := List.insert a (write_locks s)\<rparr>"
    using assms(3) by (auto simp: lock_write_def method_Inr)
  have y: "writing (as_dist y)" "weights_only y" using begin_write_spec [OF c(3)] txn_invD(2) [OF assms(1) c(2)] by auto
  have "txn_inv h (s\<lparr>objs := (objs s)(a \<mapsto> y)\<rparr>)"
    using assms(1,2) c y txn_invD(1) [OF assms(1) c(2)] by (intro txn_inv_put) (auto simp: has_old_lock_def)
  from txn_inv_lock [OF this, of a y] have "txn_inv h s'" using y assms(2) c s' by (auto simp: has_old_lock_def)
  then show ?thesis using s' c by (auto simp: same_txn_def)
qed

lemma safe_read_object_ref [safe_rules]: "safe W (read_object_ref p c) (\<lambda>_. {})"
proof (rule safeI)
  fix h s s' r
  assume *: "txn_inv h s" "read_object_ref p c s = Inr (s', r)"
  show "txn_inv h s' \<and> same_txn s s' \<and> (\<forall>x. r = Inr x \<longrightarrow> {} \<subseteq> set (write_locks s'))"
  proof (cases "has_write_lock s c \<or> has_old_lock s c")
    case False
    with *(2) have "r = Inr None \<and> s' = s \<or> lock_write c s = Inr (s', r)"
      by (auto simp: read_object_ref_def method_Inr split: if_splits)
    then show ?thesis using lock_write_inv [of h s c s' r] * False by auto
  qed (use * in \<open>auto simp: read_object_ref_def ret_Inr split: if_splits\<close>)
qed

lemma copy_child_inv:
  assumes "txn_inv h s" "set_option p \<subseteq> set (write_locks s)" "copy_child env p i c s = Inr (s', r)"
  shows "txn_inv h s' \<and> same_txn s s' \<and> (\<forall>x. r = Inr x \<longrightarrow> (\<exists>a. x = Some a \<and> a \<notin> set (old_state_locks s')))"
proof -
  define a where "a = next_obj s"
  obtain b q x x' y z z' where c: "c = Some b" "objs s b = Some x" "obj_copy env a x = Inr (x', y)" "r = Inr (Some a)"
    and p: "p = Some q" "((objs s)(b \<mapsto> x', a \<mapsto> y)) q = Some z" "obj_set_child z i (Some a) = Inr z'"
    and s': "s' = s\<lparr>next_obj := next_obj s + block, objs := (objs s)(b \<mapsto> x', a \<mapsto> y, q \<mapsto> z')\<rparr>"
    using assms(3) by (auto simp: copy_child_def method_Inr a_def simp del: fun_upd_apply)
  note inv = txn_invD [OF assms(1)]
  have x: "x' = x" "weights_only y" using obj_copy_spec [OF c(3)] inv(2) [OF c(2)] by auto
  then have b: "(objs s)(b \<mapsto> x') = objs s" using c(2) by auto
  have a: "a \<notin> set (write_locks s)" "a \<notin> set (old_state_locks s)" using inv(5,6) by (auto simp: a_def)
  define s1 where "s1 = s\<lparr>next_obj := next_obj s + block\<rparr>"
  have 1: "txn_inv h s1" unfolding s1_def by (rule txn_inv_block) fact
  have 2: "txn_inv h (s1\<lparr>objs := (objs s1)(a \<mapsto> y)\<rparr>)"
    by (rule txn_inv_put [OF 1]) (use a x in \<open>auto simp: s1_def a_def block_def\<close>)
  have "weights_only z" using txn_invD(2) [OF 2, of q z] p(2) b by (simp add: s1_def)
  then have z': "weights_only z'" "writing (as_dist z')" using obj_set_child_spec [OF p(3)] by auto
  have "txn_inv h s'"
    using txn_inv_put_locked [OF 2, of q z'] z' assms(2) p(1) s' b by (simp add: s1_def)
  then show ?thesis using s' a c(4) by (auto simp: same_txn_def)
qed

lemma safe_write_object_ref [safe_rules]: "set_option p \<subseteq> W \<Longrightarrow> safe W (write_object_ref env p c) set_option"
proof (rule safeI)
  fix h s s' r
  assume W: "set_option p \<subseteq> W" "W \<subseteq> set (write_locks s)" and *: "txn_inv h s" "write_object_ref env p c s = Inr (s', r)"
  let ?goal = "txn_inv h s' \<and> same_txn s s' \<and> (\<forall>x. r = Inr x \<longrightarrow> set_option x \<subseteq> set (write_locks s'))"
  consider "has_write_lock s c" | "\<not> has_write_lock s c" "\<not> has_old_lock s c \<or> txn_type_of s \<noteq> TXN_COPY_ON_WRITE"
    | "\<not> has_write_lock s c" "has_old_lock s c" "txn_type_of s = TXN_COPY_ON_WRITE" by blast
  then show ?goal
  proof cases
    case 1
    then show ?thesis using * by (auto simp: write_object_ref_def ret_Inr has_write_lock_def split: option.splits)
  next
    case 2
    with *(2) have "r = Inr None \<and> s' = s \<or> lock_write c s = Inr (s', r)"
      by (auto simp: write_object_ref_def method_Inr split: if_splits)
    then show ?thesis using lock_write_inv [of h s c s' r] * 2 by auto
  next
    case 3
    with *(2) consider "r = Inr None \<and> s' = s"
      | i s1 x where "copy_child env p i c s = Inr (s1, Inr x)" "lock_write x s1 = Inr (s', r)"
      | i e where "copy_child env p i c s = Inr (s', Inl e)" "r = Inl e"
      by (auto simp: write_object_ref_def method_Inr split: if_splits)
    then show ?thesis
    proof cases
      case 2
      have 1: "txn_inv h s1" "same_txn s s1" "\<exists>a. x = Some a \<and> a \<notin> set (old_state_locks s1)"
        using copy_child_inv [OF *(1) _ 2(1)] W by auto
      have "txn_inv h s' \<and> same_txn s1 s' \<and> (\<forall>x. r = Inr x \<longrightarrow> set_option x \<subseteq> set (write_locks s'))"
        by (rule lock_write_inv [OF 1(1) _ 2(2)]) (use 1(3) in \<open>auto simp: has_old_lock_def\<close>)
      then show ?thesis using same_txn_trans [OF 1(2)] by blast
    next
      case 3
      then show ?thesis using copy_child_inv [OF *(1) _ 3(1)] W by auto
    qed (use * in auto)
  qed
qed

section \<open>The actions\<close>

text \<open>The changes of the objects keep them in the state of being written, and the mode of the routes.\<close>

definition keeps :: "('a local_object_scheme \<Rightarrow> ('a local_object_scheme \<times> bool) result) \<Rightarrow> bool" where
  "keeps f \<longleftrightarrow> (\<forall>x y b. f x = Inr (y, b) \<longrightarrow> writing x \<longrightarrow> writing y)"

lemma keepsI: "(\<And>x y b. f x = Inr (y, b) \<Longrightarrow> writing x \<Longrightarrow> writing y) \<Longrightarrow> keeps f"
  by (simp add: keeps_def)

lemma keepsD: "keeps f \<Longrightarrow> f x = Inr (y, b) \<Longrightarrow> writing x \<Longrightarrow> writing y"
  by (auto simp: keeps_def)

lemma put_writing [simp]:
  "put_vertex s v f = Inr s' \<Longrightarrow> writing s' = writing s" "put_edge s e g = Inr s' \<Longrightarrow> writing s' = writing s"
  by (auto simp: put_vertex_def put_edge_def bindE_eq_Inr)

lemma net_keeps:
  "changed s = Inr s' \<Longrightarrow> writing s'" "set_external s v b = Inr s' \<Longrightarrow> writing s'" "set_edge_name s e n = Inr s' \<Longrightarrow> writing s'"
  "add_node s n = Inr (s', w, b) \<Longrightarrow> writing s \<Longrightarrow> writing s'" "add_edge s u v = Inr (s', d, b) \<Longrightarrow> writing s \<Longrightarrow> writing s'"
  "remove_edge s e = Inr s' \<Longrightarrow> writing s \<Longrightarrow> writing s'" "remove_node s n = Inr (s', b) \<Longrightarrow> writing s \<Longrightarrow> writing s'"
proof -
  show "changed s = Inr s' \<Longrightarrow> writing s'" by (auto simp: changed_cases)
  show "set_external s v b = Inr s' \<Longrightarrow> writing s'" by (auto simp: set_external_def bindE_eq_Inr changed_cases)
  show "set_edge_name s e n = Inr s' \<Longrightarrow> writing s'" by (auto simp: set_edge_name_def bindE_eq_Inr changed_cases)
  show "add_node s n = Inr (s', w, b) \<Longrightarrow> writing s \<Longrightarrow> writing s'"
    by (auto simp: add_node_def bindE_eq_Inr changed_cases Let_def split: option.splits)
  show "add_edge s u v = Inr (s', d, b) \<Longrightarrow> writing s \<Longrightarrow> writing s'"
    by (cases "edge_between s u v") (auto simp: add_edge_def graph_add_edge_def bindE_eq_Inr changed_cases Let_def)
  show "remove_edge s e = Inr s' \<Longrightarrow> writing s \<Longrightarrow> writing s'" by (auto simp: remove_edge_def bindE_eq_Inr)
  show "remove_node s n = Inr (s', b) \<Longrightarrow> writing s \<Longrightarrow> writing s'"
    by (auto simp: remove_node_def remove_vertex_def bindE_eq_Inr changed_cases split: option.splits)
qed

lemma keeps_net: "keeps (\<lambda>n. net_commit n op)"
proof (rule keepsI, cases op)
  fix x y b n ext
  assume "net_commit x op = Inr (y, b)" "writing x" "op = Node_Add n ext"
  then show "writing y" by (auto simp: bindE_eq_Inr split: if_splits dest: net_keeps)
next
  fix x y b l m n
  assume "net_commit x op = Inr (y, b)" "writing x" "op = Link_Add l m n"
  then show "writing y" by (auto simp: bindE_eq_Inr split: if_splits option.splits dest: net_keeps)
qed (auto simp: bindE_eq_Inr split: option.splits dest: net_keeps)

lemma keeps_registry: "keeps (\<lambda>g. reg_add a g n)" "keeps (\<lambda>g. reg_remove g n)"
  by (auto intro!: keepsI simp: reg_add_def reg_remove_def bindE_eq_Inr changed_cases dest: set_child_spec split: option.splits)

lemma keeps_view: "keeps (set_prop env prop x)"
  by (rule keepsI) (auto simp: set_prop_def set_from_def bindE_eq_Inr changed_cases set_default_interpid_pdistance_def
    set_default_intrapid_pdistance_def set_default_pidlink_pdistance_def set_default_interdomain_pdistance_def
    set_interdomain_includes_intradomain_def set_update_interval_def set_pid_ttl_def set_pdistance_ttl_def split: if_splits option.splits)

lemma keeps_aggregation:
  "keeps (\<lambda>a. add_vertices a p ns)" "keeps (\<lambda>a. remove_vertices a p ns)" "keeps (\<lambda>a. clear_vertices a p)"
  "keeps (\<lambda>a. define_link a l p q)" "keeps (\<lambda>a. undefine_link a l)" "keeps (\<lambda>a. agg_add a n p vs)" "keeps (\<lambda>a. agg_remove a p)"
  by (auto intro!: keepsI simp: add_vertices_def remove_vertices_def clear_vertices_def replace_vertices_def define_link_def
    undefine_link_def agg_add_def agg_remove_def bindE_eq_Inr changed_cases split: option.splits if_splits)

lemma keeps_report: "report m r = Inr (m', b) \<Longrightarrow> writing m \<Longrightarrow> writing m'"
  by (auto simp: report_def bindE_eq_Inr changed_cases split: if_splits)

lemma keeps_prefixes: "keeps (\<lambda>m. sp_add m x p)" "keeps (\<lambda>m. sp_remove m x p)" "keeps (\<lambda>m. sp_remove_pid m p)"
  by (auto intro!: keepsI simp: sp_add_def sp_remove_def sp_remove_pid_def dest: keeps_report)

lemma keeps_each_prefix: "(\<And>x. keeps (\<lambda>m. f m x)) \<Longrightarrow> keeps (each_prefix f ps)"
proof (induction ps)
  case (Cons p ps)
  then show ?case by (fastforce simp: keeps_def bindE_eq_Inr)
qed (simp add: keeps_def)

lemma keeps_matrix: "keeps (\<lambda>m. mx_set_by_pid m p q x)" "keeps (\<lambda>m. mx_add_pid m p)" "keeps (\<lambda>m. mx_remove_pid m p)"
  by (auto intro!: keepsI simp: mx_set_by_pid_def mx_add_pid_def mx_remove_pid_def mx_set_def mx_set_pids_def Let_def bindE_eq_Inr changed_cases
    split: option.splits if_splits)

lemma routing_touched [simp]: "route_mode_of (touched r) = route_mode_of r" "writing (r\<lparr>weights := w\<rparr>) = writing r"
  by (cases r, simp add: touched_def)+

lemma keeps_routing: "set_weight r p q x = Inr (r', b) \<Longrightarrow> route_mode_of r' = route_mode_of r \<and> (writing r \<longrightarrow> writing r')"
  by (auto simp: set_weight_def bindE_eq_Inr changed_cases split: if_splits)

lemma keeps_pids:
  "rt_add_pid r p = Inr r' \<Longrightarrow> route_mode_of r' = route_mode_of r \<and> (writing r \<longrightarrow> writing r')"
  "rt_remove_pid alive r p = Inr r' \<Longrightarrow> route_mode_of r = RM_WEIGHTS \<Longrightarrow> route_mode_of r' = RM_WEIGHTS \<and> (writing r \<longrightarrow> writing r')"
  by (auto simp: rt_add_pid_def rt_remove_pid_def bindE_eq_Inr changed_cases split: route_mode.splits)

lemma safe_root_ref [safe_rules]: "safe W root_ref set_option"
  by (auto simp: safe_def root_ref_def txn_inv_def)

lemma safe_bind0: "safe W m (\<lambda>_. {}) \<Longrightarrow> (\<And>x. safe W (f x) R) \<Longrightarrow> safe W (bindA m f) R"
  by (rule safe_bindA) auto

lemma safe_none: "safe W m Q \<Longrightarrow> safe W m (\<lambda>_. {})"
  by (erule safe_weaken) auto

lemma safe_mono: "safe W m Q \<Longrightarrow> W \<subseteq> W' \<Longrightarrow> safe W' m Q"
  by (erule safe_weaken) auto

lemma safe_ret0 [safe_rules]: "safe W (ret x) (\<lambda>_. {})"
  by (rule safe_ret) simp

lemma safe_if: "(b \<Longrightarrow> safe W m Q) \<Longrightarrow> (\<not> b \<Longrightarrow> safe W n Q) \<Longrightarrow> safe W (if b then m else n) Q"
  by simp

lemma safe_child_of [safe_rules]: "safe W (child_of c i) (\<lambda>_. {})"
  unfolding child_of_def by (intro safe_bind0 safe_rules)

lemma safe_read_as [safe_rules]: "safe W (read_as cast c) (\<lambda>_. {})"
  unfolding read_as_def by (intro safe_bind0 safe_rules)

lemma safe_find_view [safe_rules]: "safe W (find_view r name) (\<lambda>_. {})"
  unfolding find_view_def by (intro safe_bind0 safe_rules) (auto split: option.splits intro: safe_rules)

lemma safe_get_read [safe_rules]:
  "safe W get_net_read (\<lambda>_. {})" "safe W get_views_read (\<lambda>_. {})" "safe W (get_view_read name) (\<lambda>_. {})"
  "safe W (get_part_read name i) (\<lambda>_. {})" "safe W (admin_lookup_pid name n) (\<lambda>_. {})"
proof -
  show net: "safe W get_net_read (\<lambda>_. {})" and vs: "safe W get_views_read (\<lambda>_. {})" for W
    unfolding get_net_read_def get_views_read_def by (rule safe_bindA [OF safe_root_ref], intro safe_bind0 safe_rules)+
  show v: "safe W (get_view_read name) (\<lambda>_. {})" for W
    unfolding get_view_read_def by (intro safe_bind0 vs safe_rules)
  show p: "safe W (get_part_read name i) (\<lambda>_. {})" for W i
    unfolding get_part_read_def by (intro safe_bind0 v safe_rules)
  show "safe W (admin_lookup_pid name n) (\<lambda>_. {})"
    unfolding admin_lookup_pid_def by (intro safe_bind0 v p safe_if safe_rules)
qed

lemma safe_get_write [safe_rules]:
  "safe W (get_net_write env) set_option" "safe W (get_views_write env) set_option" "safe W (get_view_write env name) set_option"
  "safe W (get_part_write env name i) set_option"
proof -
  show "safe W (get_net_write env) set_option" and vs: "safe W (get_views_write env) set_option" for W
    unfolding get_net_write_def get_views_write_def
    by (rule safe_bindA [OF safe_root_ref], rule safe_bind0 [OF safe_child_of], rule safe_write_object_ref, simp)+
  show v: "safe W (get_view_write env name) set_option" for W
    unfolding get_view_write_def
    by (rule safe_bindA [OF vs], rule safe_bind0 [OF safe_find_view], rule safe_write_object_ref, simp)
  show "safe W (get_part_write env name i) set_option"
    unfolding get_part_write_def
    by (rule safe_bindA [OF v], rule safe_bind0 [OF safe_child_of], rule safe_write_object_ref, simp)
qed

text \<open>
  The interface of a class to the store: its objects are recognised by the cast and wrapped into the store,
  and the write flag is that of the object. Every class gives it; changing an object through the interface is
  safe under a write lock.
\<close>

locale obj_class =
  fixes cast :: "server_obj \<Rightarrow> 'a local_object_scheme result" and wrap :: "'a local_object_scheme \<Rightarrow> server_obj"
  assumes cast_iff: "cast ob = Inr x \<longleftrightarrow> ob = wrap x" and writing_wrap: "writing (as_dist (wrap x)) = writing x"
begin

lemma wrap_eq: "wrap x = wrap y \<longleftrightarrow> x = y"
  by (metis cast_iff sum.inject(2))

lemma read_iff: "read_as cast c s = Inr (s', r) \<longleftrightarrow> (\<exists>a x. c = Some a \<and> objs s a = Some (wrap x) \<and> s' = s \<and> r = Inr x)"
  by (auto simp: read_as_def method_Inr cast_iff)

lemma change_iff: "change_as cast wrap c f s = Inr (s', r) \<longleftrightarrow>
    (\<exists>a x y b. c = Some a \<and> objs s a = Some (wrap x) \<and> f x = Inr (y, b) \<and> s' = s\<lparr>objs := (objs s)(a \<mapsto> wrap y)\<rparr> \<and> r = Inr b)"
  by (auto simp: change_as_def bindA_Inr read_iff liftA_Inr put_obj_Inr ret_Inr wrap_eq simp del: fun_upd_apply)

lemma safe_change:
  assumes c: "set_option c \<subseteq> W" and f: "keeps f" "\<And>x y b. f x = Inr (y, b) \<Longrightarrow> weights_only (wrap x) \<Longrightarrow> weights_only (wrap y)"
  shows "safe W (change_as cast wrap c f) (\<lambda>_. {})"
proof (rule safeI)
  fix h s s' r
  assume *: "txn_inv h s" "W \<subseteq> set (write_locks s)" "change_as cast wrap c f s = Inr (s', r)"
  obtain a x y b where a: "c = Some a" "objs s a = Some (wrap x)" "f x = Inr (y, b)" and s': "s' = s\<lparr>objs := (objs s)(a \<mapsto> wrap y)\<rparr>"
    using *(3) unfolding change_iff by blast
  have lock: "a \<in> set (write_locks s)" using c a(1) *(2) by auto
  have "writing y" using keepsD [OF f(1) a(3)] txn_invD(3) [OF *(1) a(2) lock] by (simp add: writing_wrap)
  moreover have "weights_only (wrap y)" using f(2) [OF a(3)] txn_invD(2) [OF *(1) a(2)] by simp
  ultimately have "txn_inv h s'" unfolding s' by (intro txn_inv_put_locked [OF *(1) lock]) (auto simp: writing_wrap)
  then show "txn_inv h s' \<and> same_txn s s' \<and> (\<forall>x. r = Inr x \<longrightarrow> {} \<subseteq> set (write_locks s'))"
    by (simp add: s' same_txn_def)
qed

end

lemmas cast_defs = the_net_def the_registry_def the_view_def the_aggregation_def the_prefixes_def the_routing_def the_matrix_def the_global_def

interpretation net_class: obj_class the_net Net_Obj
  by unfold_locales (auto simp: cast_defs split: server_obj.splits)

interpretation registry_class: obj_class the_registry Registry_Obj
  by unfold_locales (auto simp: cast_defs split: server_obj.splits)

interpretation view_class: obj_class the_view View_Obj
  by unfold_locales (auto simp: cast_defs split: server_obj.splits)

interpretation aggregation_class: obj_class the_aggregation Aggregation_Obj
  by unfold_locales (auto simp: cast_defs split: server_obj.splits)

interpretation prefixes_class: obj_class the_prefixes Prefixes_Obj
  by unfold_locales (auto simp: cast_defs split: server_obj.splits)

interpretation routing_class: obj_class the_routing Routing_Obj
  by unfold_locales (auto simp: cast_defs split: server_obj.splits)

interpretation matrix_class: obj_class the_matrix Matrix_Obj
  by unfold_locales (auto simp: cast_defs split: server_obj.splits)

interpretation global_class: obj_class the_global Global_Obj
  by unfold_locales (auto simp: cast_defs split: server_obj.splits)

lemma other_weights [simp]:
  "weights_only (Net_Obj x1)" "weights_only (Registry_Obj x2)" "weights_only (View_Obj x3)" "weights_only (Aggregation_Obj x4)"
  "weights_only (Prefixes_Obj x5)" "weights_only (Matrix_Obj x6)" "weights_only (Global_Obj x7)"
  by (simp_all add: weights_only_def)

lemma keeps_weight: "keeps (\<lambda>r. set_weight r p q x)"
  by (rule keepsI) (auto dest: keeps_routing)

lemma safe_set_weight: "set_option c \<subseteq> W \<Longrightarrow> safe W (change_as the_routing Routing_Obj c (\<lambda>r. set_weight r p q x)) (\<lambda>_. {})"
  by (rule routing_class.safe_change) (auto simp: weights_only_def keeps_weight dest: keeps_routing)

lemmas safe_changes = net_class.safe_change registry_class.safe_change view_class.safe_change aggregation_class.safe_change
  prefixes_class.safe_change matrix_class.safe_change safe_set_weight

lemma txn_inv_fresh:
  assumes "txn_inv h s" "\<And>b x. m b = Some x \<Longrightarrow> next_obj s \<le> b \<and> b < next_obj s + block \<and> weights_only x"
  shows "txn_inv h (s\<lparr>next_obj := next_obj s + block, objs := objs s ++ m\<rparr>)"
  unfolding txn_inv_def
proof (simp, intro conjI allI impI ballI)
  note inv = txn_invD [OF assms(1)]
  fix a x
  assume a: "(objs s ++ m) a = Some x"
  then show "a < next_obj s + block" using inv(1) assms(2) by (fastforce simp: map_add_Some_iff block_def)
  show "weights_only x" using a inv(2) assms(2) by (auto simp: map_add_Some_iff)
  assume "a \<in> set (write_locks s)"
  then show "writing (as_dist x)" using a inv(3,5) assms(2) by (fastforce simp: map_add_Some_iff)
next
  fix a
  assume a: "a \<in> set (old_state_locks s)"
  then have "a < next_obj s" by (rule txn_invD(6) [OF assms(1)])
  then show "a < next_obj s + block" by simp
  assume "txn_type_of s = TXN_COPY_ON_WRITE"
  moreover have "m a = None" using \<open>a < next_obj s\<close> assms(2) [of a] by (cases "m a") auto
  ultimately show "(objs s ++ m) a = h a" using assms(1) a by (simp add: txn_inv_def map_add_def)
qed (use assms(1) in \<open>auto simp: txn_inv_def map_add_def split: option.splits\<close>)

lemma View_mode: "View mem cs name = Inr v \<Longrightarrow> route_mode_of (v_routing v) = RM_WEIGHTS"
  by (auto simp: View_def bindE_eq_Inr view_props.defs PIDRouting_def dist_object.defs)

lemma safe_put_view: "safe W (bindA new_block (\<lambda>a. bindA (liftA (View (se_memory env a) [a + 1..<a + 7] name)) (\<lambda>v. bindA (put_view a v) (\<lambda>_. ret a)))) (\<lambda>_. {})"
proof (rule safeI)
  fix h s s' r
  assume *: "txn_inv h s"
    "bindA new_block (\<lambda>a. bindA (liftA (View (se_memory env a) [a + 1..<a + 7] name)) (\<lambda>v. bindA (put_view a v) (\<lambda>_. ret a))) s = Inr (s', r)"
  define a where "a = next_obj s"
  obtain v where v: "View (se_memory env a) [a + 1..<a + 7] name = Inr v" and
    s': "s' = s\<lparr>next_obj := a + block, objs := (objs s)(a \<mapsto> View_Obj (view_props.truncate v), a + 1 \<mapsto> Aggregation_Obj (v_aggregation v),
      a + 2 \<mapsto> Prefixes_Obj (v_prefixes v), a + 3 \<mapsto> Routing_Obj (v_routing v), a + 4 \<mapsto> Matrix_Obj (v_link_pdistances v),
      a + 5 \<mapsto> Matrix_Obj (v_intra_pdistances v), a + 6 \<mapsto> Matrix_Obj (v_inter_pdistances v))\<rparr>"
    using *(2) by (auto simp: method_Inr put_view_def a_def simp del: fun_upd_apply)
  define m where "m = [a \<mapsto> View_Obj (view_props.truncate v), a + 1 \<mapsto> Aggregation_Obj (v_aggregation v),
      a + 2 \<mapsto> Prefixes_Obj (v_prefixes v), a + 3 \<mapsto> Routing_Obj (v_routing v), a + 4 \<mapsto> Matrix_Obj (v_link_pdistances v),
      a + 5 \<mapsto> Matrix_Obj (v_intra_pdistances v), a + 6 \<mapsto> Matrix_Obj (v_inter_pdistances v)]"
  have "s' = s\<lparr>next_obj := next_obj s + block, objs := objs s ++ m\<rparr>"
    unfolding s' m_def by (simp add: a_def)
  moreover have "next_obj s \<le> b \<and> b < next_obj s + block \<and> weights_only x" if "m b = Some x" for b x
    using that View_mode [OF v] by (auto simp: m_def a_def block_def weights_only_def split: if_splits)
  ultimately show "txn_inv h s' \<and> same_txn s s' \<and> (\<forall>x. r = Inr x \<longrightarrow> {} \<subseteq> set (write_locks s'))"
    using txn_inv_fresh [OF *(1)] by (simp add: same_txn_def block_def)
qed

lemma bindA_assoc: "bindA (bindA m f) g = bindA m (\<lambda>x. bindA (f x) g)"
  by (rule ext) (auto simp: bindA_def bindE_def split: sum.splits prod.splits)

lemma bindA_ret [simp]: "bindA (ret x) f = f x"
  by (rule ext) (simp add: bindA_def ret_def)

lemma safe_add_view:
  assumes "set_option r \<subseteq> W"
  shows "safe W (add_view env r name) (\<lambda>_. {})"
proof -
  have "safe W (bindA (bindA new_block (\<lambda>a. bindA (liftA (View (se_memory env a) [a + 1..<a + 7] name)) (\<lambda>v. bindA (put_view a v) (\<lambda>_. ret a))))
      (\<lambda>a. change_as the_registry Registry_Obj r (\<lambda>g. reg_add a g name))) (\<lambda>_. {})"
    by (intro safe_bind0 safe_put_view registry_class.safe_change assms keeps_registry) simp
  then show ?thesis unfolding add_view_def by (intro safe_bind0 [OF safe_read_as] safe_if safe_rules) (simp add: bindA_assoc)
qed

text \<open>Changing the PIDs of a view.\<close>

lemma view_pids_keep:
  assumes "view_add_pid v n p = Inr (v', b) \<or> view_remove_pid alive v p = Inr (v', b)" "route_mode_of (v_routing v) = RM_WEIGHTS"
    "writing (v_aggregation v)" "writing (v_routing v)" "writing (v_link_pdistances v)"
  shows "route_mode_of (v_routing v') = RM_WEIGHTS \<and> writing (v_aggregation v') \<and> writing (v_routing v') \<and> writing (v_link_pdistances v')"
  using assms(1)
proof
  assume "view_add_pid v n p = Inr (v', b)"
  then obtain a ok where a: "agg_add (v_aggregation v) n p [] = Inr (a, ok)" and rest:
    "\<not> ok \<and> v' = v\<lparr>v_aggregation := a\<rparr> \<or> (\<exists>r m k. rt_add_pid (v_routing v) p = Inr r \<and> mx_add_pid (v_link_pdistances v) p = Inr (m, k) \<and>
      v' = v\<lparr>v_aggregation := a, v_routing := r, v_link_pdistances := m\<rparr>)"
    by (auto simp: view_add_pid_def bindE_eq_Inr split: if_splits)
  have "writing a" by (rule keepsD [OF keeps_aggregation(6) a assms(3)])
  from rest show ?thesis
  proof (elim disjE exE conjE)
    fix r m k
    assume "rt_add_pid (v_routing v) p = Inr r" "mx_add_pid (v_link_pdistances v) p = Inr (m, k)"
      "v' = v\<lparr>v_aggregation := a, v_routing := r, v_link_pdistances := m\<rparr>"
    then show ?thesis using keeps_pids(1) [of "v_routing v" p r] keepsD [OF keeps_matrix(2), of "v_link_pdistances v" p m k] \<open>writing a\<close> assms by simp
  qed (use \<open>writing a\<close> assms in simp)
next
  assume rem: "view_remove_pid alive v p = Inr (v', b)"
  show ?thesis
  proof (cases "has_pid v p")
    case True
    with rem obtain a ok r m k where *: "agg_remove (v_aggregation v) p = Inr (a, ok)" "rt_remove_pid alive (v_routing v) p = Inr r"
      "mx_remove_pid (v_link_pdistances v) p = Inr (m, k)" "v' = v\<lparr>v_aggregation := a, v_routing := r, v_link_pdistances := m\<rparr>"
      by (auto simp: view_remove_pid_def bindE_eq_Inr)
    then show ?thesis
      using keepsD [OF keeps_aggregation(7) *(1) assms(3)] keepsD [OF keeps_matrix(3) *(3) assms(5)] keeps_pids(2) [OF *(2) assms(2)] assms(4) by simp
  qed (use rem assms in \<open>simp add: view_remove_pid_def\<close>)
qed

definition pid_change :: "(view \<Rightarrow> (view \<times> bool) admin_m) \<Rightarrow> bool" where
  "pid_change f \<longleftrightarrow> (\<forall>v. safe {} (f v) (\<lambda>_. {})) \<and>
     (\<forall>v s s' v' b. f v s = Inr (s', Inr (v', b)) \<longrightarrow> (\<exists>n p alive. view_add_pid v n p = Inr (v', b) \<or> view_remove_pid alive v p = Inr (v', b)))"

lemma txn_inv_read:
  assumes "txn_inv h s" "a \<in> set (write_locks s)" "objs s a = Some x"
  shows "writing (as_dist x) \<and> weights_only x"
  using assms by (auto simp: txn_inv_def)

lemma safe_put_locked:
  assumes "set_option c \<subseteq> W" "c \<noteq> None" "weights_only x" "writing (as_dist x)"
  shows "safe W (put_obj (the c) x) (\<lambda>_. {})"
proof (rule safeI)
  fix h s s' r
  assume "txn_inv h s" "W \<subseteq> set (write_locks s)" "put_obj (the c) x s = Inr (s', r)"
  then show "txn_inv h s' \<and> same_txn s s' \<and> (\<forall>x. r = Inr x \<longrightarrow> {} \<subseteq> set (write_locks s'))"
    using assms txn_inv_put_locked [of h s "the c" x] by (auto simp: put_obj_Inr same_txn_def)
qed

text \<open>What is read through a write lock is being written.\<close>

lemma safe_read_locked:
  assumes "set_option c \<subseteq> W"
    and f: "\<And>x. c \<noteq> None \<Longrightarrow> (\<exists>ob. cast ob = Inr x \<and> writing (as_dist ob) \<and> weights_only ob) \<Longrightarrow> safe W (f x) Q"
  shows "safe W (bindA (read_as cast c) f) Q"
proof (rule safeI)
  fix h s s' r
  assume *: "txn_inv h s" "W \<subseteq> set (write_locks s)" "bindA (read_as cast c) f s = Inr (s', r)"
  obtain a ob x where a: "c = Some a" "objs s a = Some ob" "cast ob = Inr x" "f x s = Inr (s', r)"
    using *(3) by (auto simp: read_as_def method_Inr)
  then have "writing (as_dist ob)" "weights_only ob" using txn_inv_read [OF *(1) _ a(2)] assms(1) *(2) by auto
  then have "safe W (f x) Q" using f [of x] a by auto
  then show "txn_inv h s' \<and> same_txn s s' \<and> (\<forall>x. r = Inr x \<longrightarrow> Q x \<subseteq> set (write_locks s'))"
    using * a(4) unfolding safe_def by blast
qed

lemma safe_bind_value:
  assumes m: "safe W m (\<lambda>_. {})" and f: "\<And>s s' x. m s = Inr (s', Inr x) \<Longrightarrow> safe W (f x) Q"
  shows "safe W (bindA m f) Q"
proof (rule safeI)
  fix h s s' r
  assume *: "txn_inv h s" "W \<subseteq> set (write_locks s)" "bindA m f s = Inr (s', r)"
  let ?goal = "txn_inv h s' \<and> same_txn s s' \<and> (\<forall>x. r = Inr x \<longrightarrow> Q x \<subseteq> set (write_locks s'))"
  consider s1 x where "m s = Inr (s1, Inr x)" "f x s1 = Inr (s', r)" | e where "m s = Inr (s', Inl e)" "r = Inl e"
    using *(3) by (auto simp: bindA_Inr)
  then show ?goal
  proof cases
    case 1
    have 2: "txn_inv h s1" "same_txn s s1" using m 1(1) *(1,2) unfolding safe_def by blast+
    then have "W \<subseteq> set (write_locks s1)" using *(2) by (auto simp: same_txn_def)
    then have "txn_inv h s' \<and> same_txn s1 s' \<and> (\<forall>x. r = Inr x \<longrightarrow> Q x \<subseteq> set (write_locks s'))"
      using f [OF 1(1)] 2(1) 1(2) unfolding safe_def by blast
    then show ?thesis using same_txn_trans [OF 2(2)] by blast
  next
    case 2
    then show ?thesis using m * unfolding safe_def by blast
  qed
qed

lemma safe_load_view [safe_rules]: "safe W (load_view c) (\<lambda>_. {})"
  unfolding load_view_def by (intro safe_bind0 safe_rules) (auto simp: safe_def bindE_eq_Inr)

lemma safe_change_pids:
  assumes "pid_change f"
  shows "safe W (change_pids env name f) (\<lambda>_. {})"
  unfolding change_pids_def
proof (rule safe_bindA [OF safe_get_write(3)], rule safe_bindA [OF safe_get_write(4)], rule safe_bindA [OF safe_get_write(4)],
    rule safe_bindA [OF safe_get_write(4)], rule safe_bind0 [OF safe_load_view])
  fix v ag rt lk x
  let ?W = "W \<union> set_option v \<union> set_option ag \<union> set_option rt \<union> set_option lk"
  show "safe ?W (bindA (read_as the_aggregation ag) (\<lambda>a. bindA (read_as the_routing rt) (\<lambda>r. bindA (read_as the_matrix lk) (\<lambda>m.
     bindA (f (x\<lparr>v_aggregation := a, v_routing := r, v_link_pdistances := m\<rparr>)) (\<lambda>(x', ok).
     bindA (put_obj (the ag) (Aggregation_Obj (v_aggregation x'))) (\<lambda>_. bindA (put_obj (the rt) (Routing_Obj (v_routing x'))) (\<lambda>_.
     bindA (put_obj (the lk) (Matrix_Obj (v_link_pdistances x'))) (\<lambda>_. ret ok)))))))) (\<lambda>_. {})"
  proof (rule safe_read_locked, force, rule safe_read_locked, force, rule safe_read_locked, force)
    fix a r m
    assume *: "ag \<noteq> None" "rt \<noteq> None" "lk \<noteq> None"
      "\<exists>ob. the_aggregation ob = Inr a \<and> writing (as_dist ob) \<and> weights_only ob"
      "\<exists>ob. the_routing ob = Inr r \<and> writing (as_dist ob) \<and> weights_only ob"
      "\<exists>ob. the_matrix ob = Inr m \<and> writing (as_dist ob) \<and> weights_only ob"
    define y where "y = x\<lparr>v_aggregation := a, v_routing := r, v_link_pdistances := m\<rparr>"
    have w: "route_mode_of (v_routing y) = RM_WEIGHTS" "writing (v_aggregation y)" "writing (v_routing y)" "writing (v_link_pdistances y)"
      using * by (auto simp: y_def cast_defs weights_only_def split: server_obj.splits)
    have put: "safe ?W (bindA (put_obj (the ag) (Aggregation_Obj (v_aggregation x'))) (\<lambda>_. bindA (put_obj (the rt) (Routing_Obj (v_routing x'))) (\<lambda>_.
       bindA (put_obj (the lk) (Matrix_Obj (v_link_pdistances x'))) (\<lambda>_. ret ok)))) (\<lambda>_. {})"
      if "view_add_pid y n p = Inr (x', b) \<or> view_remove_pid alive y p = Inr (x', b)" for x' ok n p alive b
      using view_pids_keep [OF that w] *(1-3)
      by (intro safe_bind0 [OF safe_put_locked] safe_ret) (auto simp: weights_only_def)
    show "safe ?W (bindA (f (x\<lparr>v_aggregation := a, v_routing := r, v_link_pdistances := m\<rparr>)) (\<lambda>(x', ok).
       bindA (put_obj (the ag) (Aggregation_Obj (v_aggregation x'))) (\<lambda>_. bindA (put_obj (the rt) (Routing_Obj (v_routing x'))) (\<lambda>_.
       bindA (put_obj (the lk) (Matrix_Obj (v_link_pdistances x'))) (\<lambda>_. ret ok))))) (\<lambda>_. {})"
      unfolding y_def [symmetric]
    proof (rule safe_bind_value)
      show "safe ?W (f y) (\<lambda>_. {})" using assms by (auto simp: pid_change_def intro: safe_mono [of "{}"])
      fix s s' z
      assume z: "f y s = Inr (s', Inr z)"
      obtain x' ok where "z = (x', ok)" by force
      with z assms obtain n p alive where "view_add_pid y n p = Inr (x', ok) \<or> view_remove_pid alive y p = Inr (x', ok)"
        unfolding pid_change_def by blast
      from put [OF this] show "safe ?W (case z of (x', ok) \<Rightarrow> bindA (put_obj (the ag) (Aggregation_Obj (v_aggregation x'))) (\<lambda>_. bindA (put_obj (the rt) (Routing_Obj (v_routing x'))) (\<lambda>_.
        bindA (put_obj (the lk) (Matrix_Obj (v_link_pdistances x'))) (\<lambda>_. ret ok)))) (\<lambda>_. {})"
        using \<open>z = (x', ok)\<close> by simp
    qed
  qed
qed

text \<open>The update of distances installs new matrices.\<close>

lemma do_update_writing: "do_update mem as fl fl' sp plugin net v = Inr (v', i) \<Longrightarrow> writing v \<Longrightarrow> writing v'"
  by (auto simp: do_update_def bindE_eq_Inr set_intradomain_pdistances_def set_interdomain_pdistances_def
    dest: set_child_spec split: option.splits prod.splits)

lemma load_view_spec:
  assumes "load_view c s = Inr (s', Inr x)"
  shows "\<exists>a v. c = Some a \<and> objs s a = Some (View_Obj v) \<and> s' = s \<and> writing x = writing v"
  using assms
  by (auto simp: load_view_def read_as_def method_Inr bindE_eq_Inr view_class.cast_iff view_props.defs)

lemma writing_view [simp]: "writing (view_props.truncate x) = writing x"
  by (simp add: view_props.defs)

lemma put_update_inv:
  assumes "txn_inv h s" "v = Some b" "b \<in> set (write_locks s)" "writing (fst u)" "put_update a v x u s = Inr (s', r)"
    "a + 1 < next_obj s" "\<And>c. a \<le> c \<Longrightarrow> c \<notin> set (write_locks s) \<and> c \<notin> set (old_state_locks s)"
  shows "txn_inv h s' \<and> same_txn s s'"
proof -
  define y where "y = View_Obj (view_props.truncate (fst u))"
  have y: "weights_only y" "writing (as_dist y)" using assms(4) by (auto simp: y_def weights_only_def)
  define s1 where "s1 = s\<lparr>objs := (objs s)(a \<mapsto> Matrix_Obj (v_intra_pdistances (fst u)))\<rparr>"
  define s2 where "s2 = s1\<lparr>objs := (objs s1)(a + 1 \<mapsto> Matrix_Obj (v_inter_pdistances (fst u)))\<rparr>"
  have s': "s' = s\<lparr>objs := (objs s)(b \<mapsto> y)\<rparr> \<or> s' = s2\<lparr>objs := (objs s2)(b \<mapsto> y)\<rparr>"
    using assms(2,5) by (auto simp: put_update_def method_Inr s1_def s2_def y_def simp del: fun_upd_apply split: if_splits)
  have 1: "txn_inv h s1" unfolding s1_def
    by (rule txn_inv_put [OF assms(1)]) (use assms(6,7) in \<open>auto simp: weights_only_def\<close>)
  have 2: "txn_inv h s2" unfolding s2_def
    by (rule txn_inv_put [OF 1]) (use assms(6,7) in \<open>auto simp: s1_def weights_only_def\<close>)
  have "b \<in> set (write_locks s2)" using assms(3) by (simp add: s2_def s1_def)
  then have "txn_inv h s'" using s' txn_inv_put_locked [OF assms(1,3) y] txn_inv_put_locked [OF 2 _ y] by auto
  then show ?thesis using s' by (auto simp: same_txn_def s1_def s2_def)
qed

lemma load_view_Inr: "load_view v s = Inr (s', r) \<Longrightarrow> s' = s"
  by (auto simp: load_view_def read_as_def method_Inr bindE_eq_Inr)

lemma safe_update_tail:
  assumes "set_option v \<subseteq> W"
  shows "safe W (bindA new_block (\<lambda>a. bindA (load_view v) (\<lambda>x. bindA (read_as the_net n) (\<lambda>net.
     bindA (liftA (do_update (se_memory env a) (a, a + 1) (se_fl env) (se_fl_cost env) (se_paths env) (se_plugin env) net x))
       (put_update a v x))))) (\<lambda>_. {})"
    (is "safe W ?m _")
proof (rule safeI)
  fix h s s' r
  assume *: "txn_inv h s" "W \<subseteq> set (write_locks s)" "?m s = Inr (s', r)"
  define a where "a = next_obj s"
  define s1 where "s1 = s\<lparr>next_obj := a + block\<rparr>"
  have s1: "txn_inv h s1" "same_txn s s1" using txn_inv_block [OF *(1)] by (auto simp: s1_def a_def same_txn_def)
  consider "s' = s1"
    | x net u s2 where "load_view v s1 = Inr (s2, Inr x)" "put_update a v x u s2 = Inr (s', r)"
        "do_update (se_memory env a) (a, a + 1) (se_fl env) (se_fl_cost env) (se_paths env) (se_plugin env) net x = Inr u"
    using *(3) by (auto simp: method_Inr read_as_def s1_def a_def dest: load_view_Inr)
  then show "txn_inv h s' \<and> same_txn s s' \<and> (\<forall>x. r = Inr x \<longrightarrow> {} \<subseteq> set (write_locks s'))"
  proof cases
    case 1
    then show ?thesis using s1 by simp
  next
    case (2 x net u s2)
    then have "s2 = s1" by (simp add: load_view_Inr)
    note 2 = 2 [unfolded this]
    obtain b p where p: "v = Some b" "objs s1 b = Some (View_Obj p)" "writing x = writing p" using load_view_spec [OF 2(1)] by auto
    have b: "b \<in> set (write_locks s1)" using assms *(2) p(1) by (auto simp: s1_def)
    then have "writing x" using txn_inv_read [OF s1(1) _ p(2)] p(3) by auto
    then have "writing (fst u)" using do_update_writing 2(3) by (cases u) auto
    moreover have "c \<notin> set (write_locks s1) \<and> c \<notin> set (old_state_locks s1)" if "a \<le> c" for c
      using txn_invD(5,6) [OF *(1), of c] that by (auto simp: a_def s1_def)
    ultimately have "txn_inv h s' \<and> same_txn s1 s'"
      using put_update_inv [OF s1(1) p(1) b _ 2(2)] by (simp add: s1_def block_def)
    then show ?thesis using same_txn_trans [OF s1(2)] by blast
  qed
qed

lemma safe_update_pdistances: "safe W (update_pdistances env name) (\<lambda>_. {})"
  unfolding update_pdistances_def
  by (rule safe_bindA [OF safe_root_ref], rule safe_bindA [OF safe_get_read(1)], rule safe_bindA [OF safe_get_write(2)],
    rule safe_bindA [OF safe_get_write(3)], (rule safe_bind0 [OF safe_get_read(4)])+, rule safe_update_tail, simp)

text \<open>Every action works on locked objects only.\<close>

lemmas action_rules = safe_bindA [OF safe_get_write(1)] safe_bindA [OF safe_get_write(2)] safe_bindA [OF safe_get_write(3)]
  safe_bindA [OF safe_get_write(4)] safe_bind0 [OF safe_get_read(3)] safe_bind0 [OF safe_get_read(4)] safe_bind0 [OF safe_get_read(5)]
  safe_bind0 [OF safe_read_as] safe_changes safe_add_view safe_ret0 keeps_net keeps_registry keeps_view keeps_aggregation keeps_prefixes
  keeps_each_prefix keeps_matrix

lemma safe_commit: "safe W (commit env act) (\<lambda>_. {})"
proof (cases act)
  case (Add_PID name n p)
  have "pid_change (\<lambda>v. liftA (view_add_pid v n p))"
    unfolding pid_change_def liftA_Inr using safe_liftA by blast
  then show ?thesis by (simp add: Add_PID safe_change_pids)
next
  case (Delete_PID name n)
  have "pid_change (\<lambda>v. bindA (admin_lookup_pid name n) (\<lambda>p. liftA (view_remove_pid (\<lambda>_. None) v p)))"
    unfolding pid_change_def
  proof (intro conjI allI impI)
    show "safe {} (bindA (admin_lookup_pid name n) (\<lambda>p. liftA (view_remove_pid (\<lambda>_. None) v p))) (\<lambda>_. {})" for v
      by (intro safe_bind0 safe_rules)
  qed (auto simp: bindA_Inr liftA_Inr)
  then show ?thesis by (simp add: Delete_PID safe_change_pids)
qed (simp_all add: safe_rules safe_update_pdistances, (auto intro!: action_rules split: option.splits)+)

section \<open>Transactions\<close>

text \<open>A server with no transaction in progress.\<close>

definition no_txn :: "admin_state \<Rightarrow> bool" where
  "no_txn s \<longleftrightarrow> token_of s = INVALID_TOKEN \<and> write_locks s = [] \<and> old_state_locks s = [] \<and> new_state s = None \<and>
     unapplied_changes s = [] \<and> applied_changes s = [] \<and> \<not> monitor_thread s"

definition server_idle :: "admin_state \<Rightarrow> bool" where
  "server_idle s \<longleftrightarrow> no_txn s \<and> (\<forall>a x. objs s a = Some x \<longrightarrow> a < next_obj s \<and> weights_only x)"

text \<open>The objects of the state that is in use.\<close>

inductive in_use :: "admin_state \<Rightarrow> nat \<Rightarrow> bool" for s where
  root: "in_use s (global_state s)"
| child: "in_use s a \<Longrightarrow> objs s a = Some x \<Longrightarrow> b \<in> set (get_children (as_dist x)) \<Longrightarrow> in_use s b"

lemma lock_tree_spec:
  assumes "lock_tree k q s = Inr (s', r)"
  shows "r = Inr () \<and> s' = s\<lparr>old_state_locks := old_state_locks s'\<rparr> \<and> set (old_state_locks s) \<union> set q \<subseteq> set (old_state_locks s') \<and>
    set (old_state_locks s') \<subseteq> set (old_state_locks s) \<union> dom (objs s) \<and>
    (\<forall>a x b. a \<in> set (old_state_locks s') - set (old_state_locks s) \<longrightarrow> objs s a = Some x \<longrightarrow> b \<in> set (get_children (as_dist x)) \<longrightarrow> b \<in> set (old_state_locks s'))"
  using assms
proof (induction k q s rule: lock_tree.induct)
  case (3 k a as s)
  obtain x where a: "a \<notin> set (old_state_locks s)" "objs s a = Some x" and
    rec: "lock_tree k (as @ get_children (as_dist x)) (s\<lparr>old_state_locks := old_state_locks s @ [a]\<rparr>) = Inr (s', r)"
    using "3.prems" by (auto simp: method_Inr split: if_splits)
  from "3.IH" [OF a(1) rec] a show ?case by (auto 0 3)
qed (auto simp: ret_Inr)

lemma lock_tree_enough:
  assumes "next_obj s < k + length (old_state_locks s)" "distinct (old_state_locks s)" "set (old_state_locks s) \<subseteq> {..<next_obj s}"
    "\<And>a x. objs s a = Some x \<Longrightarrow> a < next_obj s"
  shows "lock_tree (k + j) q s = lock_tree k q s"
  using assms
proof (induction k q s rule: lock_tree.induct)
  case (2 a as s)
  then have "length (old_state_locks s) \<le> next_obj s"
    using card_mono [of "{..<next_obj s}" "set (old_state_locks s)"] by (simp add: distinct_card)
  then show ?case using "2.prems"(1) by simp
next
  case (3 k a as s)
  show ?case
  proof (cases "a \<in> set (old_state_locks s) \<or> objs s a = None")
    case False
    then obtain x where x: "objs s a = Some x" by auto
    show ?thesis using "3.IH" [of s x] False "3.prems" x by (simp add: bindA_def get_obj_def)
  qed (auto simp: bindA_def get_obj_def)
qed simp

text \<open>Ending a transaction ends the writes and touches nothing else.\<close>

lemma end_write_spec: "writing (as_dist x) \<Longrightarrow> \<exists>y. obj_end_write x = Inr y \<and> \<not> writing (as_dist y) \<and> weights_only y = weights_only x"
  by (cases x) (auto simp: end_write_def weights_only_def)

lemma release_locks_spec:
  assumes "distinct as" "\<forall>a\<in>set as. \<exists>x. objs s a = Some x \<and> writing (as_dist x)"
  shows "\<exists>h. release_locks as s = Inr (s\<lparr>objs := h\<rparr>, Inr ()) \<and> (\<forall>b. b \<notin> set as \<longrightarrow> h b = objs s b) \<and>
    (\<forall>a x. objs s a = Some x \<longrightarrow> (\<exists>y. h a = Some y \<and> weights_only y = weights_only x)) \<and> dom h = dom (objs s)"
  using assms
proof (induction as arbitrary: s)
  case Nil
  show ?case by (rule exI [of _ "objs s"]) (simp add: ret_def)
next
  case (Cons a as)
  obtain x y where x: "objs s a = Some x" and y: "obj_end_write x = Inr y" "weights_only y = weights_only x"
    using Cons.prems(2) end_write_spec by (meson list.set_intros(1))
  define s1 where "s1 = s\<lparr>objs := (objs s)(a \<mapsto> y)\<rparr>"
  have "\<forall>b\<in>set as. \<exists>x. objs s1 b = Some x \<and> writing (as_dist x)"
    using Cons.prems by (auto simp: s1_def)
  from Cons.IH [OF _ this] Cons.prems(1) obtain h where h: "release_locks as s1 = Inr (s1\<lparr>objs := h\<rparr>, Inr ())"
    "\<forall>b. b \<notin> set as \<longrightarrow> h b = objs s1 b" "\<forall>a x. objs s1 a = Some x \<longrightarrow> (\<exists>y. h a = Some y \<and> weights_only y = weights_only x)"
    "dom h = dom (objs s1)" by auto
  show ?case
  proof (intro exI [of _ h] conjI allI impI)
    show "release_locks (a # as) s = Inr (s\<lparr>objs := h\<rparr>, Inr ())"
      using h(1) x y(1) by (simp add: bindA_def get_obj_def liftA_def put_obj_def s1_def)
    show "h b = objs s b" if "b \<notin> set (a # as)" for b using h(2) that by (simp add: s1_def)
    show "\<exists>y. h b = Some y \<and> weights_only y = weights_only z" if "objs s b = Some z" for b z
    proof (cases "b = a")
      case True
      have "objs s1 a = Some y" by (simp add: s1_def)
      with h(3) obtain y' where "h a = Some y'" "weights_only y' = weights_only y" by blast
      then show ?thesis using that x y(2) True by auto
    next
      case False
      then have "objs s1 b = Some z" using that by (simp add: s1_def)
      then show ?thesis using h(3) by blast
    qed
    show "dom h = dom (objs s)" using h(4) x by (auto simp: s1_def)
  qed
qed

lemma clear_txn_state_spec:
  assumes "txn_inv h s"
  shows "\<exists>s'. clear_txn_state s = Inr (s', Inr ()) \<and> server_idle s' \<and> global_state s' = global_state s \<and> next_obj s' = next_obj s \<and>
    job_q s' = job_q s \<and> (\<forall>a. a \<notin> set (write_locks s) \<longrightarrow> objs s' a = objs s a)"
proof -
  have w: "\<forall>a\<in>set (write_locks s). \<exists>x. objs s a = Some x \<and> writing (as_dist x)"
    using txn_invD(3,4) [OF assms] by blast
  have "distinct (write_locks s)" using assms by (simp add: txn_inv_def)
  from release_locks_spec [OF this w] obtain h' where h': "release_locks (write_locks s) s = Inr (s\<lparr>objs := h'\<rparr>, Inr ())"
    "\<forall>b. b \<notin> set (write_locks s) \<longrightarrow> h' b = objs s b" "\<forall>a x. objs s a = Some x \<longrightarrow> (\<exists>y. h' a = Some y \<and> weights_only y = weights_only x)"
    "dom h' = dom (objs s)" by (elim exE conjE) (rule that)
  have *: "a < next_obj s \<and> weights_only y" if "h' a = Some y" for a y
  proof -
    have "a \<in> dom (objs s)" unfolding h'(4) [symmetric] using that by (rule domI)
    then obtain x where x: "objs s a = Some x" by auto
    obtain y' where "h' a = Some y'" "weights_only y' = weights_only x" using h'(3) x by blast
    then have "weights_only y = weights_only x" using that by simp
    then show ?thesis using txn_invD(1,2) [OF assms x] by simp
  qed
  show ?thesis
    using h'(1,2) * by (auto simp: clear_txn_state_def bindA_def ret_def server_idle_def no_txn_def)
qed

text \<open>Applying actions.\<close>

definition same_head :: "admin_state \<Rightarrow> admin_state \<Rightarrow> bool" where
  "same_head s s' \<longleftrightarrow> old_state_locks s' = old_state_locks s \<and> txn_type_of s' = txn_type_of s \<and> token_of s' = token_of s \<and>
     new_state s' = new_state s \<and> global_state s' = global_state s \<and> monitor_thread s' = monitor_thread s \<and> job_q s' = job_q s"

lemma txn_inv_logs [simp]:
  "txn_inv h (s\<lparr>applied_changes := as, unapplied_changes := us\<rparr>) = txn_inv h s" "txn_inv h (s\<lparr>unapplied_changes := us\<rparr>) = txn_inv h s"
  "txn_inv h (s\<lparr>applied_changes := as\<rparr>) = txn_inv h s"
  by (auto simp: txn_inv_def)

lemma rollback_changes_spec: "rollback_changes s = Inr (s\<lparr>applied_changes := []\<rparr>, Inr ())"
proof -
  have "rollback_each acts s = Inr (s, Inr ())" for acts s
    by (induction acts) (auto simp: action_rollback_def ret_def bindA_def)
  then show ?thesis by (simp add: rollback_changes_def bindA_def ret_def)
qed

lemma process_list_inv:
  assumes "txn_inv h s" "process_list env acts s = Inr (s', r)"
  shows "txn_inv h s' \<and> same_head s s' \<and> (\<exists>ok. r = Inr ok)"
  using assms
proof (induction env acts s rule: process_list.induct)
  case (2 env act acts s)
  obtain s1 r1 where c: "commit env act s = Inr (s1, r1)" and rest:
    "if r1 \<noteq> Inr True then bindA rollback_changes (\<lambda>_. ret False) s1 = Inr (s', r)
     else process_list env acts (s1\<lparr>applied_changes := applied_changes s1 @ [committed env s act], unapplied_changes := acts\<rparr>) = Inr (s', r)"
    using "2.prems"(2) by (auto simp: bindE_eq_Inr split: if_splits)
  have 1: "txn_inv h s1" "same_txn s s1" using safe_commit [of "{}" env act] c "2.prems"(1) by (auto simp: safe_def)
  show ?case
  proof (cases "r1 = Inr True")
    case True
    with "2.IH" [of r1 s1] rest 1(1) have "txn_inv h s' \<and> same_head (s1\<lparr>applied_changes := applied_changes s1 @ [committed env s act], unapplied_changes := acts\<rparr>) s' \<and> (\<exists>ok. r = Inr ok)"
      by auto
    then show ?thesis using 1(2) by (auto simp: same_head_def same_txn_def)
  next
    case False
    then show ?thesis using rest 1 by (auto simp: bindA_def rollback_changes_spec ret_def same_head_def same_txn_def)
  qed
qed (auto simp: ret_Inr same_head_def)

text \<open>
  A transaction that copies on write, seen from outside: it is open, or it is over; the objects \<open>O\<close> of the
  state in which it began are as they were.
\<close>

definition isolated :: "(nat \<rightharpoonup> server_obj) \<Rightarrow> nat set \<Rightarrow> token \<Rightarrow> admin_state \<Rightarrow> bool" where
  "isolated h D t s \<longleftrightarrow> t \<noteq> INVALID_TOKEN \<and> (\<forall>a\<in>D. objs s a = h a) \<and>
     (token_of s = t \<and> txn_inv h s \<and> txn_type_of s = TXN_COPY_ON_WRITE \<and> set (old_state_locks s) = D \<and> unapplied_changes s = [] \<or> server_idle s)"

lemma isolated_open: "isolated h D t s \<Longrightarrow> token_of s \<noteq> INVALID_TOKEN \<Longrightarrow> token_of s = t \<and> txn_inv h s \<and> txn_type_of s = TXN_COPY_ON_WRITE \<and> set (old_state_locks s) = D \<and> unapplied_changes s = []"
  by (auto simp: isolated_def server_idle_def no_txn_def)

lemma process_list_done:
  "process_list env acts s = Inr (s', Inr True) \<Longrightarrow> unapplied_changes s = acts \<Longrightarrow> unapplied_changes s' = []"
proof (induction env acts s rule: process_list.induct)
  case (2 env act acts s)
  obtain s1 r1 where c: "commit env act s = Inr (s1, r1)" and rest:
    "if r1 \<noteq> Inr True then bindA rollback_changes (\<lambda>_. ret False) s1 = Inr (s', Inr True)
     else process_list env acts (s1\<lparr>applied_changes := applied_changes s1 @ [committed env s act], unapplied_changes := acts\<rparr>) = Inr (s', Inr True)"
    using "2.prems"(1) by (auto simp: bindE_eq_Inr split: if_splits)
  then have "r1 = Inr True" by (auto simp: bindA_def rollback_changes_spec ret_def split: if_splits)
  then show ?case using "2.IH" [of r1 s1] rest by simp
qed (simp add: ret_def)

lemma clear_isolated:
  assumes "txn_inv h s" "txn_type_of s = TXN_COPY_ON_WRITE" "t \<noteq> INVALID_TOKEN"
  shows "\<exists>s'. clear_txn_state s = Inr (s', Inr ()) \<and> isolated h (set (old_state_locks s)) t s' \<and> server_idle s' \<and> global_state s' = global_state s"
proof -
  obtain s' where s': "clear_txn_state s = Inr (s', Inr ())" "server_idle s'" "global_state s' = global_state s"
    "\<forall>a. a \<notin> set (write_locks s) \<longrightarrow> objs s' a = objs s a" using clear_txn_state_spec [OF assms(1)] by blast
  have "objs s' a = h a" if "a \<in> set (old_state_locks s)" for a
    using assms(1,2) s'(4) that by (auto simp: txn_inv_def)
  then show ?thesis using s' assms(3) by (auto simp: isolated_def)
qed

lemma check_txn_token_cases:
  "check_txn_token t s = (if token_of s = INVALID_TOKEN then Inr (s, Inl ''No transaction in progress'')
    else if token_of s \<noteq> t then Inr (s, Inl ''Incorrect token'') else Inr (s, Inr ()))"
  by (simp add: check_txn_token_def throw_def ret_def)

lemma txn_apply_isolated:
  assumes "isolated h D t s" "txn_apply env t act s = Inr (s', r)"
  shows "isolated h D t s' \<and> global_state s' = global_state s"
proof (cases "token_of s = INVALID_TOKEN")
  case True
  then show ?thesis using assms by (simp add: txn_apply_def bindA_def check_txn_token_cases)
next
  case False
  have o: "token_of s = t" "txn_inv h s" "txn_type_of s = TXN_COPY_ON_WRITE" "set (old_state_locks s) = D"
    using isolated_open [OF assms(1) False] by auto
  define s1 where "s1 = s\<lparr>unapplied_changes := unapplied_changes s @ [act]\<rparr>"
  obtain s2 ok where p: "process_changes env s1 = Inr (s2, Inr ok)" and
    rest: "if ok then s' = s2\<lparr>applied_changes := []\<rparr> else bindA clear_txn_state (\<lambda>_. ret None) s2 = Inr (s', r)"
  proof -
    have "bindA (process_changes env) (\<lambda>ok. if \<not> ok then bindA clear_txn_state (\<lambda>_. ret None)
        else (\<lambda>s. ret (Some (last (applied_changes s))) (s\<lparr>applied_changes := []\<rparr>))) s1 = Inr (s', r)"
      using assms(2) o False by (simp add: txn_apply_def bindA_def check_txn_token_cases Let_def s1_def)
    moreover have "\<nexists>e. process_changes env s1 = Inr (s', Inl e)"
      using process_list_inv [of h s1 env "unapplied_changes s1" s'] o(2) by (auto simp: process_changes_def s1_def)
    ultimately show thesis using that by (auto simp: bindA_Inr ret_Inr split: if_splits)
  qed
  have 2: "txn_inv h s2" "same_head s1 s2"
    using process_list_inv [of h s1 env "unapplied_changes s1" s2] p o(2) by (auto simp: process_changes_def s1_def)
  have t: "t \<noteq> INVALID_TOKEN" using o(1) False by simp
  show ?thesis
  proof (cases ok)
    case True
    then have s': "s' = s2\<lparr>applied_changes := []\<rparr>" using rest by simp
    have "txn_type_of s2 = TXN_COPY_ON_WRITE" "set (old_state_locks s2) = D" "token_of s2 = t" "global_state s2 = global_state s"
      using 2(2) o by (auto simp: same_head_def s1_def)
    moreover have "\<forall>a\<in>D. objs s2 a = h a" using 2(1) calculation by (auto simp: txn_inv_def)
    moreover have "unapplied_changes s2 = []"
      using process_list_done [of env "unapplied_changes s1" s1 s2] p True by (simp add: process_changes_def)
    ultimately show ?thesis using 2(1) t by (simp add: s' isolated_def)
  next
    case False
    have "txn_type_of s2 = TXN_COPY_ON_WRITE" "set (old_state_locks s2) = D" "global_state s2 = global_state s"
      using 2(2) o by (auto simp: same_head_def s1_def)
    with clear_isolated [OF 2(1) _ t] rest False show ?thesis by (auto simp: bindA_def ret_def)
  qed
qed

fun apply_all :: "server_env \<Rightarrow> token \<Rightarrow> admin_action list \<Rightarrow> admin_state \<Rightarrow> admin_state result" where
  "apply_all env t [] s = Inr s"
| "apply_all env t (act # acts) s = bindE (txn_apply env t act s) (\<lambda>(s', _). apply_all env t acts s')"

lemma apply_all_isolated:
  "isolated h D t s \<Longrightarrow> apply_all env t acts s = Inr s' \<Longrightarrow> isolated h D t s' \<and> global_state s' = global_state s"
proof (induction acts arbitrary: s)
  case (Cons act acts)
  from Cons.prems(2) obtain s1 r where "txn_apply env t act s = Inr (s1, r)" "apply_all env t acts s1 = Inr s'"
    by (auto simp: bindE_eq_Inr)
  then show ?case using Cons.IH [of s1] txn_apply_isolated [OF Cons.prems(1)] by auto
qed simp

lemma generate_tokens_spec:
  "generate_tokens k e draws s = Inr (s', r) \<Longrightarrow>
    s' = s\<lparr>token_of := token_of s'\<rparr> \<and> (r = Inr () \<longrightarrow> token_of s' \<noteq> INVALID_TOKEN) \<and> (r \<noteq> Inr () \<longrightarrow> token_of s' = INVALID_TOKEN)"
  by (induction k e draws s rule: generate_tokens.induct)
    (auto simp: failed_token_def throw_def ret_def Let_def split: if_splits)

text \<open>The beginning of a transaction: its copy of the root is the only object it may write.\<close>

lemma open_txn_spec:
  assumes "write_locks s = []" "old_state_locks s = []" "\<And>a x. objs s a = Some x \<Longrightarrow> a < next_obj s \<and> weights_only x"
    "open_txn env s = Inr (s', Inr t)"
  shows "t = token_of s \<and> txn_inv (objs s) s' \<and> (\<forall>a. in_use s a \<longrightarrow> a \<in> set (old_state_locks s')) \<and>
    (\<forall>a\<in>set (old_state_locks s'). objs s' a = objs s a) \<and> unapplied_changes s' = unapplied_changes s \<and> token_of s' = token_of s \<and> txn_type_of s' = txn_type_of s \<and> global_state s' = global_state s"
proof -
  define b where "b = next_obj s"
  obtain s1 x x' y y' where l: "lock_tree (next_obj s + 1) [global_state s] s = Inr (s1, Inr ())" and x: "objs s1 (global_state s) = Some x"
    and y: "obj_copy env (next_obj s1) x = Inr (x', y)" "obj_begin_write y = Inr y'" and t: "t = token_of s1" and
    s': "s' = s1\<lparr>next_obj := next_obj s1 + block, new_state := Some (next_obj s1), objs := (objs s1)(next_obj s1 \<mapsto> y, next_obj s1 \<mapsto> y'),
      write_locks := List.insert (next_obj s1) (write_locks s1), monitor_thread := True\<rparr>"
    using assms(4) by (auto simp: open_txn_def lock_write_def method_Inr split: if_splits)
  define L where "L = old_state_locks s1"
  have L: "s1 = s\<lparr>old_state_locks := L\<rparr>" "global_state s \<in> set L" "set L \<subseteq> dom (objs s)"
    "\<And>a x b. a \<in> set L \<Longrightarrow> objs s a = Some x \<Longrightarrow> b \<in> set (get_children (as_dist x)) \<Longrightarrow> b \<in> set L"
    using lock_tree_spec [OF l] assms(2) unfolding L_def by auto
  have "weights_only x" using x assms(3) L(1) by simp
  then have w: "weights_only y'" "writing (as_dist y')" using obj_copy_spec [OF y(1)] begin_write_spec [OF y(2)] by auto
  have bound: "a < next_obj s" if "a \<in> set L" for a using L(3) that assms(3) by (auto simp: subset_iff dom_def)
  have use: "a \<in> set L" if "in_use s a" for a using that by (induction) (use L in auto)
  have f: "write_locks s' = [b]" "old_state_locks s' = L" "objs s' = (objs s)(b \<mapsto> y')" "next_obj s' = b + block" "new_state s' = Some b"
    "token_of s' = token_of s" "txn_type_of s' = txn_type_of s" "global_state s' = global_state s" "t = token_of s"
    "unapplied_changes s' = unapplied_changes s"
    using assms(1) t by (simp_all add: s' L(1) b_def)
  have "a < b + block \<and> weights_only z \<and> (a = b \<longrightarrow> writing (as_dist z))" if "objs s' a = Some z" for a z
    using that w assms(3) [of a z] by (auto simp: f b_def block_def split: if_splits)
  moreover have "a < b \<and> objs s' a = objs s a" if "a \<in> set L" for a using bound [OF that] by (simp add: f b_def)
  ultimately show ?thesis using use unfolding txn_inv_def f by (auto simp: trans_less_add1)
qed

lemma txn_begin_spec:
  assumes "server_idle s" "txn_begin env type e draws s = Inr (s', Inr t)"
  shows "t \<noteq> INVALID_TOKEN \<and> token_of s' = t \<and> txn_type_of s' = type \<and> txn_inv (objs s) s' \<and> global_state s' = global_state s \<and>
    (\<forall>a. in_use s a \<longrightarrow> a \<in> set (old_state_locks s')) \<and> (\<forall>a\<in>set (old_state_locks s'). objs s' a = objs s a) \<and> unapplied_changes s' = []"
proof -
  have idle: "no_txn s" "\<And>a x. objs s a = Some x \<Longrightarrow> a < next_obj s \<and> weights_only x" using assms(1) by (auto simp: server_idle_def)
  obtain s1 where g: "generate_tokens MAX_TOKEN_GENERATE_ATTEMPTS e draws s = Inr (s1, Inr ())" and
    o: "open_txn env (s1\<lparr>txn_type_of := type\<rparr>) = Inr (s', Inr t)"
    using assms(2) by (auto simp: txn_begin_def throw_def generate_token_def bindA_Inr split: if_splits)
  define s2 where "s2 = s1\<lparr>txn_type_of := type\<rparr>"
  define T where "T = token_of s1"
  have T: "s1 = s\<lparr>token_of := T\<rparr>" "T \<noteq> INVALID_TOKEN" using generate_tokens_spec [OF g] by (auto simp: T_def)
  then have s2: "objs s2 = objs s" "next_obj s2 = next_obj s" "global_state s2 = global_state s" "write_locks s2 = []" "old_state_locks s2 = []"
    "token_of s2 = T" "txn_type_of s2 = type" "unapplied_changes s2 = []" using idle(1) by (auto simp: s2_def no_txn_def)
  have "in_use s2 a" if "in_use s a" for a
    using that by induction (use s2 in \<open>auto intro: in_use.intros simp: s2(3) [symmetric]\<close>)
  moreover have "t = token_of s2 \<and> txn_inv (objs s2) s' \<and> (\<forall>a. in_use s2 a \<longrightarrow> a \<in> set (old_state_locks s')) \<and>
    (\<forall>a\<in>set (old_state_locks s'). objs s' a = objs s2 a) \<and> unapplied_changes s' = unapplied_changes s2 \<and> token_of s' = token_of s2 \<and> txn_type_of s' = txn_type_of s2 \<and> global_state s' = global_state s2"
    by (rule open_txn_spec) (use s2 idle(2) o in \<open>auto simp: s2_def\<close>)
  ultimately show ?thesis using s2 T(2) by auto
qed

end
