(* ===== verification/Txn_Properties.thy ===== *)
theory Txn_Properties
  imports Admin_Properties
begin

text \<open>
  The properties of transactions: rolling back restores the state, committing publishes the new one, the
  tokens can be read back, and what a copy of a view loses.
\<close>

section \<open>Rolling back\<close>

lemma txn_isolated:
  assumes "server_idle s" "txn_begin env TXN_COPY_ON_WRITE e draws s = Inr (s1, Inr t)" "apply_all env t acts s1 = Inr s2"
  shows "isolated (objs s) (set (old_state_locks s1)) t s2 \<and> global_state s2 = global_state s \<and> (\<forall>a. in_use s a \<longrightarrow> a \<in> set (old_state_locks s1))"
proof -
  have b: "isolated (objs s) (set (old_state_locks s1)) t s1" "global_state s1 = global_state s" "\<forall>a. in_use s a \<longrightarrow> a \<in> set (old_state_locks s1)"
    using txn_begin_spec [OF assms(1,2)] by (auto simp: isolated_def)
  then show ?thesis using apply_all_isolated [OF b(1) assms(3)] by simp
qed

text \<open>
  Property C15. Whatever actions are applied in a transaction that copies on write, it can be rolled back, or
  it is over because an action failed; then no lock is left, and every object of the state that was in use
  when the transaction began is what it was.
\<close>
theorem rollback_restores:
  assumes "server_idle s" "txn_begin env TXN_COPY_ON_WRITE e draws s = Inr (s1, Inr t)" "apply_all env t acts s1 = Inr s2"
  shows "\<exists>s3 r. txn_rollback t s2 = Inr (s3, r) \<and> (r = Inr () \<or> r = Inl ''No transaction in progress'') \<and>
    server_idle s3 \<and> global_state s3 = global_state s \<and> (\<forall>a. in_use s a \<longrightarrow> objs s3 a = objs s a)"
proof -
  have iso: "isolated (objs s) (set (old_state_locks s1)) t s2" "global_state s2 = global_state s" "\<forall>a. in_use s a \<longrightarrow> a \<in> set (old_state_locks s1)"
    using txn_isolated [OF assms] by auto
  show ?thesis
  proof (cases "token_of s2 = INVALID_TOKEN")
    case True
    then have "server_idle s2" "\<forall>a. in_use s a \<longrightarrow> objs s2 a = objs s a" using iso by (auto simp: isolated_def)
    then show ?thesis using iso(2) True by (simp add: txn_rollback_def bindA_def check_txn_token_cases)
  next
    case False
    have o: "token_of s2 = t" "txn_inv (objs s) s2" "txn_type_of s2 = TXN_COPY_ON_WRITE" "set (old_state_locks s2) = set (old_state_locks s1)"
      using isolated_open [OF iso(1) False] by auto
    obtain s3 where "clear_txn_state s2 = Inr (s3, Inr ())" "isolated (objs s) (set (old_state_locks s1)) t s3" "server_idle s3" "global_state s3 = global_state s2"
      using clear_isolated [OF o(2,3), of t] o(1,4) False by auto
    then show ?thesis using iso(2,3) o(1) False by (auto simp: txn_rollback_def bindA_def check_txn_token_cases isolated_def)
  qed
qed

section \<open>Committing\<close>

lemma set_child_children:
  assumes "set_child g i c = Inr g'" "i \<noteq> - 1"
  shows "get_child g' j = (if j = i then c else get_child g j)"
proof -
  have "writing g" using set_child_spec [OF assms(1)] by simp
  then show ?thesis using get_child_set_child [of g i c] assms by auto
qed

lemma global_apply_spec:
  assumes "writing g"
  shows "\<exists>g'. global_apply new g = Inr g' \<and> writing g' \<and> get_child g' 0 = get_child new 0 \<and> get_child g' 1 = get_child new 1"
proof -
  obtain g1 where 1: "set_child g 0 (get_child new 0) = Inr g1" "writing g1" "\<forall>j. get_child g1 j = (if j = 0 then get_child new 0 else get_child g j)"
    using get_child_set_child [of g 0 "get_child new 0"] assms by auto
  obtain g2 where 2: "set_child g1 1 (get_child new 1) = Inr g2" "writing g2" "\<forall>j. get_child g2 j = (if j = 1 then get_child new 1 else get_child g1 j)"
    using get_child_set_child [of g1 1 "get_child new 1"] 1(2) by auto
  have "get_child (touched g2) j = get_child g2 j" for j by (simp add: get_child_def)
  then show ?thesis using 1 2 by (simp add: global_apply_def changed_writing)
qed

text \<open>
  Property C16. Committing a transaction that copies on write: the network and the registry of the new state
  take the place of those of \<open>GLOBAL_STATE\<close>, at once and under its lock, the other objects that were in use
  are not written, and the transaction is over; what follows is that the new state is told that it is in use.
\<close>
theorem commit_publishes:
  assumes "server_idle s" "txn_begin env TXN_COPY_ON_WRITE e draws s = Inr (s1, Inr t)" "apply_all env t acts s1 = Inr s2"
    and "token_of s2 = t" "new_state s2 = Some n" "objs s2 n = Some (Global_Obj new)"
    and "objs s (global_state s) = Some (Global_Obj g)" "\<not> writing g"
  shows "\<exists>s3 g'. txn_commit env now t s2 = bindA (updated (next_obj s3 + block) env now [global_state s]) (\<lambda>_. ret True) s3 \<and>
    server_idle s3 \<and> objs s3 (global_state s) = Some (Global_Obj g') \<and> \<not> writing g' \<and>
    get_child g' 0 = get_child new 0 \<and> get_child g' 1 = get_child new 1 \<and>
    (\<forall>a. in_use s a \<and> a \<noteq> global_state s \<longrightarrow> objs s3 a = objs s a)"
proof -
  have iso: "isolated (objs s) (set (old_state_locks s1)) t s2" "global_state s2 = global_state s" "\<forall>a. in_use s a \<longrightarrow> a \<in> set (old_state_locks s1)"
    using txn_isolated [OF assms(1-3)] by auto
  have t: "t \<noteq> INVALID_TOKEN" using iso(1) by (simp add: isolated_def)
  have o: "txn_inv (objs s) s2" "txn_type_of s2 = TXN_COPY_ON_WRITE" "set (old_state_locks s2) = set (old_state_locks s1)" "unapplied_changes s2 = []"
    using isolated_open [OF iso(1)] assms(4) t by auto
  define c where "c = global_state s"
  have c: "c \<in> set (old_state_locks s2)" "objs s2 c = Some (Global_Obj g)"
    using iso(1,3) in_use.root [of s] o(3) assms(7) by (auto simp: isolated_def c_def)
  define g0 where "g0 = g\<lparr>writing := True, changed_fired := False\<rparr>"
  obtain g1 where g1: "global_apply new g0 = Inr g1" "writing g1" "get_child g1 0 = get_child new 0" "get_child g1 1 = get_child new 1"
    using global_apply_spec [of g0] by (auto simp: g0_def)
  define g' where "g' = g1\<lparr>writing := False, changed_fired := False\<rparr>"
  define s4 where "s4 = s2\<lparr>objs := (objs s2)(c \<mapsto> Global_Obj g')\<rparr>"
  have inst: "install_state s2 = Inr (s4, Inr ())"
    using assms(5,6,8) c(2) g1(1,2) iso(2)
    by (simp add: install_state_def bindA_def read_as_def change_as_def get_obj_def liftA_def the_global_def begin_write_def end_write_def
      put_obj_def ret_def g0_def g'_def s4_def c_def)
  have cw: "c \<notin> set (write_locks s2)" using txn_invD(7) [OF o(1,2)] c(1) by blast
  have "txn_inv (objs s4) s4"
    using o(1) cw txn_invD(6) [OF o(1) c(1)] by (auto simp: txn_inv_def s4_def weights_only_def)
  from clear_txn_state_spec [OF this] obtain s3 where s3: "clear_txn_state s4 = Inr (s3, Inr ())" "server_idle s3"
    "global_state s3 = c" "\<forall>a. a \<notin> set (write_locks s2) \<longrightarrow> objs s3 a = objs s4 a"
    using iso(2) by (auto simp: s4_def c_def)
  have same: "objs s3 a = objs s a" if "in_use s a" "a \<noteq> c" for a
  proof -
    have "a \<in> set (old_state_locks s2)" using iso(3) that(1) o(3) by simp
    then have "a \<notin> set (write_locks s2)" "objs s2 a = objs s a" using txn_invD(7) [OF o(1,2)] o(1,2) by (auto simp: txn_inv_def)
    then show ?thesis using s3(4) that(2) by (simp add: s4_def)
  qed
  have "txn_commit env now t s2 = bindA (updated (next_obj s3 + block) env now [c]) (\<lambda>_. ret True) s3"
    using assms(4) t o(4) inst s3(1,3)
    by (cases "updated (next_obj s3 + block) env now [c] s3")
      (auto simp: txn_commit_def bindA_def check_txn_token_cases process_changes_def ret_def split: sum.splits)
  moreover have "objs s3 c = Some (Global_Obj g')" using s3(4) cw by (simp add: s4_def)
  moreover have "get_child g' j = get_child g1 j" "\<not> writing g'" for j by (simp_all add: g'_def get_child_def)
  ultimately show ?thesis using s3(2) same g1(3,4) unfolding c_def by (intro exI [of _ s3] exI [of _ g'] conjI) auto
qed

section \<open>A small server\<close>

definition plain_env :: server_env where
  "plain_env = \<lparr>se_memory = (\<lambda>_ _. 0), se_registered = (\<lambda>_. False), se_plugin = (\<lambda>_ _ _. PIDMatrixBase 0), se_fl = id, se_fl_cost = Num,
     se_paths = (\<lambda>_ _ _. Inr id), se_read_double = (\<lambda>_. None), se_read_uint = (\<lambda>_. None), se_read_bool = (\<lambda>_. None),
     se_show_double = (\<lambda>_. []), se_show_uint = (\<lambda>_. []), se_show_bool = (\<lambda>_. [])\<rparr>"

definition small_server :: admin_state where
  "small_server = (AdminState 1 TXN_DIRECT_WRITE)\<lparr>next_obj := 7,
     objs := [0 \<mapsto> Global_Obj \<lparr>writing = False, changed_fired = False, version = 1, children = [Some 1, Some 2]\<rparr>,
              1 \<mapsto> Net_Obj (NetState 0), 2 \<mapsto> Registry_Obj (ViewRegistry 0)]\<rparr>"

lemma small_server_idle: "server_idle small_server"
  by (auto simp: server_idle_def no_txn_def small_server_def AdminState_def weights_only_def split: if_splits)

definition is_global :: "server_obj option \<Rightarrow> bool" where
  "is_global x = (case x of Some (Global_Obj _) \<Rightarrow> True | _ \<Rightarrow> False)"

lemma small_run:
  "case txn_begin plain_env TXN_COPY_ON_WRITE [] [Some 1, Some 2] small_server of
     Inr (s1, Inr t) \<Rightarrow>
       (case apply_all plain_env t [Net_Change (Node_Add ''a'' False)] s1 of
          Inr s2 \<Rightarrow> token_of s2 = t \<and> new_state s2 = Some 7 \<and> is_global (objs s2 7)
        | Inl _ \<Rightarrow> False)
   | _ \<Rightarrow> False"
  by code_simp

lemma small_run_ex: "\<exists>s1 t s2 new. txn_begin plain_env TXN_COPY_ON_WRITE [] [Some 1, Some 2] small_server = Inr (s1, Inr t) \<and>
    apply_all plain_env t [Net_Change (Node_Add ''a'' False)] s1 = Inr s2 \<and> token_of s2 = t \<and> new_state s2 = Some 7 \<and> objs s2 7 = Some (Global_Obj new)"
proof -
  have g: "is_global x \<Longrightarrow> \<exists>g. x = Some (Global_Obj g)" for x by (auto simp: is_global_def split: option.splits server_obj.splits)
  obtain s1 t where b: "txn_begin plain_env TXN_COPY_ON_WRITE [] [Some 1, Some 2] small_server = Inr (s1, Inr t)"
  proof (cases "txn_begin plain_env TXN_COPY_ON_WRITE [] [Some 1, Some 2] small_server")
    case (Inr p)
    obtain s r where p: "p = (s, r)" by force
    show thesis using small_run that unfolding Inr p by (cases r) (simp_all del: apply_all.simps)
  qed (use small_run in simp)
  obtain s2 where "apply_all plain_env t [Net_Change (Node_Add ''a'' False)] s1 = Inr s2" "token_of s2 = t" "new_state s2 = Some 7" "is_global (objs s2 7)"
    using small_run by (auto simp: b simp del: apply_all.simps split: sum.splits)
  with b g show ?thesis by blast
qed

theorem rollback_restores_witness:
  "\<exists>s1 t s2 s3 r. txn_begin plain_env TXN_COPY_ON_WRITE [] [Some 1, Some 2] small_server = Inr (s1, Inr t) \<and>
    apply_all plain_env t [Net_Change (Node_Add ''a'' False)] s1 = Inr s2 \<and> txn_rollback t s2 = Inr (s3, r) \<and> server_idle s3 \<and>
    (\<forall>a. in_use small_server a \<longrightarrow> objs s3 a = objs small_server a)"
  using small_run_ex rollback_restores [OF small_server_idle] by meson

theorem commit_publishes_witness:
  "\<exists>s1 t s2 new s3 g'. txn_begin plain_env TXN_COPY_ON_WRITE [] [Some 1, Some 2] small_server = Inr (s1, Inr t) \<and>
    apply_all plain_env t [Net_Change (Node_Add ''a'' False)] s1 = Inr s2 \<and> objs s2 7 = Some (Global_Obj new) \<and>
    txn_commit plain_env 0 t s2 = bindA (updated (next_obj s3 + block) plain_env 0 [0]) (\<lambda>_. ret True) s3 \<and>
    objs s3 0 = Some (Global_Obj g') \<and> get_child g' 0 = get_child new 0"
proof -
  obtain s1 t s2 new where r: "txn_begin plain_env TXN_COPY_ON_WRITE [] [Some 1, Some 2] small_server = Inr (s1, Inr t)"
    "apply_all plain_env t [Net_Change (Node_Add ''a'' False)] s1 = Inr s2" "token_of s2 = t" "new_state s2 = Some 7" "objs s2 7 = Some (Global_Obj new)"
    using small_run_ex by blast
  have g: "objs small_server (global_state small_server) = Some (Global_Obj \<lparr>writing = False, changed_fired = False, version = 1, children = [Some 1, Some 2]\<rparr>)"
    "global_state small_server = 0" by (simp_all add: small_server_def AdminState_def)
  show ?thesis using commit_publishes [OF small_server_idle r(1-5) g(1), of 0] r unfolding g(2) by auto
qed

section \<open>The start of the server\<close>

definition bounded :: "admin_state \<Rightarrow> bool" where
  "bounded s \<longleftrightarrow> (\<forall>a x. objs s a = Some x \<longrightarrow> a < next_obj s \<and> weights_only x)"

text \<open>\<open>quiet m\<close>: the method keeps the objects within their bounds and leaves the administrative state alone.\<close>

definition quiet :: "'a admin_m \<Rightarrow> bool" where
  "quiet m \<longleftrightarrow> (\<forall>s s' r. m s = Inr (s', r) \<longrightarrow> bounded s \<longrightarrow> bounded s' \<and> no_txn s' = no_txn s \<and> global_state s' = global_state s \<and> next_obj s \<le> next_obj s')"

lemma quietD:
  assumes "quiet m" "m s = Inr (s', r)" "bounded s"
  shows "bounded s' \<and> no_txn s' = no_txn s \<and> global_state s' = global_state s \<and> next_obj s \<le> next_obj s'"
  using assms unfolding quiet_def by blast

lemma quiet_bindA:
  assumes "quiet m" "\<And>x. quiet (f x)"
  shows "quiet (bindA m f)"
  unfolding quiet_def
proof (intro allI impI)
  fix s s' r
  assume *: "bindA m f s = Inr (s', r)" "bounded s"
  then consider s1 x where "m s = Inr (s1, Inr x)" "f x s1 = Inr (s', r)" | e where "m s = Inr (s', Inl e)" by (auto simp: bindA_Inr)
  then show "bounded s' \<and> no_txn s' = no_txn s \<and> global_state s' = global_state s \<and> next_obj s \<le> next_obj s'"
  proof cases
    case 1
    from quietD [OF assms(1) 1(1) *(2)] have "bounded s1" by simp
    then show ?thesis using quietD [OF assms(1) 1(1) *(2)] quietD [OF assms(2) 1(2)] by simp
  qed (use quietD [OF assms(1) _ *(2)] in blast)
qed

lemma quiet_basic: "quiet (ret x)" "quiet (throw e)" "quiet (liftA q)" "quiet (get_obj c)" "quiet (read_as cast c)"
  by (auto simp: quiet_def method_Inr read_as_def throw_def)

text \<open>Changing the object that is read.\<close>

lemma quiet_change:
  assumes "\<And>x y. f x = Inr y \<Longrightarrow> weights_only x \<Longrightarrow> weights_only y"
  shows "quiet (bindA (get_obj (Some a)) (\<lambda>x. bindA (liftA (f x)) (\<lambda>x. put_obj a x)))"
  using assms by (fastforce simp: quiet_def method_Inr bounded_def no_txn_def split: if_splits)

lemma quiet_put_view:
  "quiet (bindA new_block (\<lambda>a. bindA (liftA (View (se_memory env a) [a + 1..<a + 7] name)) (\<lambda>v. bindA (put_view a v) (\<lambda>_. ret a))))"
  unfolding quiet_def
proof (intro allI impI)
  fix s s' r
  assume *: "bindA new_block (\<lambda>a. bindA (liftA (View (se_memory env a) [a + 1..<a + 7] name)) (\<lambda>v. bindA (put_view a v) (\<lambda>_. ret a))) s = Inr (s', r)"
    "bounded s"
  define a where "a = next_obj s"
  obtain v where v: "View (se_memory env a) [a + 1..<a + 7] name = Inr v" and
    s': "s' = s\<lparr>next_obj := a + block, objs := (objs s)(a \<mapsto> View_Obj (view_props.truncate v), a + 1 \<mapsto> Aggregation_Obj (v_aggregation v),
      a + 2 \<mapsto> Prefixes_Obj (v_prefixes v), a + 3 \<mapsto> Routing_Obj (v_routing v), a + 4 \<mapsto> Matrix_Obj (v_link_pdistances v),
      a + 5 \<mapsto> Matrix_Obj (v_intra_pdistances v), a + 6 \<mapsto> Matrix_Obj (v_inter_pdistances v))\<rparr>"
    using *(1) by (auto simp: method_Inr put_view_def a_def simp del: fun_upd_apply)
  have "b < a + block \<and> weights_only x" if "objs s' b = Some x" for b x
    using that *(2) View_mode [OF v] by (auto simp: s' bounded_def a_def block_def weights_only_def trans_less_add1 split: if_splits)
  then show "bounded s' \<and> no_txn s' = no_txn s \<and> global_state s' = global_state s \<and> next_obj s \<le> next_obj s'"
    by (auto simp: bounded_def s' no_txn_def a_def)
qed

lemma quiet_change_registry: "quiet (change_as the_registry Registry_Obj (Some r) f)"
  by (auto simp: quiet_def registry_class.change_iff bounded_def no_txn_def split: if_splits)

lemma quiet_add_view: "quiet (add_view env (Some r) name)"
proof -
  have "quiet (bindA (bindA new_block (\<lambda>a. bindA (liftA (View (se_memory env a) [a + 1..<a + 7] name)) (\<lambda>v. bindA (put_view a v) (\<lambda>_. ret a))))
      (\<lambda>a. change_as the_registry Registry_Obj (Some r) (\<lambda>g. reg_add a g name)))"
    by (intro quiet_bindA quiet_put_view quiet_change_registry)
  then have "quiet (if free_slot g = None then ret False else bindA new_block (\<lambda>a. bindA (liftA (View (se_memory env a) [a + 1..<a + 7] name)) (\<lambda>v.
      bindA (put_view a v) (\<lambda>_. change_as the_registry Registry_Obj (Some r) (\<lambda>g. reg_add a g name)))))" for g
    by (simp add: bindA_assoc quiet_basic(1))
  then show ?thesis unfolding add_view_def by (intro quiet_bindA quiet_basic)
qed

lemma quiet_on_update: "quiet (on_update env now a)"
  unfolding on_update_def
proof (rule quiet_bindA [OF quiet_basic(4)])
  fix x
  have add: "quiet (bindA (add_view env (Some a) DEFAULT_VIEW_NAME) (\<lambda>ok s. if ok then ret () s else Inl (Runtime_Error ''Failed to register default view'')))"
    by (rule quiet_bindA [OF quiet_add_view]) (auto simp: quiet_def ret_def split: if_splits)
  have job: "quiet (\<lambda>s. bindE (view_on_update now (job_q s) v) (\<lambda>q. ret () (s\<lparr>job_q := q\<rparr>)))" for v
    by (auto simp: quiet_def bindE_eq_Inr ret_def bounded_def no_txn_def)
  show "quiet (case x of Registry_Obj g \<Rightarrow> if get_children_count g \<noteq> 0 then ret ()
      else bindA (add_view env (Some a) DEFAULT_VIEW_NAME) (\<lambda>ok s. if ok then ret () s else Inl (Runtime_Error ''Failed to register default view''))
    | View_Obj v \<Rightarrow> (\<lambda>s. bindE (view_on_update now (job_q s) v) (\<lambda>q. ret () (s\<lparr>job_q := q\<rparr>))) | _ \<Rightarrow> ret ())"
    using add job by (cases x) (simp_all add: quiet_basic(1))
qed

lemma end_write_mode: "obj_end_write x = Inr y \<Longrightarrow> weights_only y = weights_only x"
  by (cases x) (auto simp: end_write_def weights_only_def split: if_splits)

lemma quiet_updated: "quiet (updated k env now as)"
proof (induction k env now as rule: updated.induct)
  case (3 k env now a as)
  have b: "quiet (bindA (get_obj (Some a)) (\<lambda>x. bindA (liftA (obj_begin_write x)) (\<lambda>x. put_obj a x)))"
    by (rule quiet_change) (auto dest: begin_write_spec)
  have e: "quiet (bindA (get_obj (Some a)) (\<lambda>x. bindA (liftA (obj_end_write x)) (\<lambda>x. put_obj a x)))"
    by (rule quiet_change) (auto dest: end_write_mode)
  have "quiet (bindA (bindA (get_obj (Some a)) (\<lambda>x. bindA (liftA (obj_begin_write x)) (\<lambda>x. put_obj a x))) (\<lambda>_.
      bindA (on_update env now a) (\<lambda>_. bindA (get_obj (Some a)) (\<lambda>x. bindA (updated k env now (get_children (as_dist x))) (\<lambda>_.
      bindA (bindA (get_obj (Some a)) (\<lambda>x. bindA (liftA (obj_end_write x)) (\<lambda>x. put_obj a x))) (\<lambda>_. updated (Suc k) env now as))))))"
    by (intro quiet_bindA b e quiet_on_update quiet_basic 3)
  then show ?case by (simp add: bindA_assoc)
qed (auto simp: quiet_def ret_def)

definition default_view_ready :: "int \<Rightarrow> admin_state \<Rightarrow> bool" where
  "default_view_ready now s \<longleftrightarrow> jobs (job_q s) = [ViewUpdateJob (now + 300000000) DEFAULT_VIEW_NAME] \<and>
     (case objs s (global_state s) of
        Some (Global_Obj g) \<Rightarrow>
          (case get_child g 1 of
             Some r \<Rightarrow>
               (case objs s r of
                  Some (Registry_Obj w) \<Rightarrow>
                    (case reg_get w DEFAULT_VIEW_NAME of
                       Some v \<Rightarrow> (case objs s v of Some (View_Obj p) \<Rightarrow> view_name p = DEFAULT_VIEW_NAME \<and> \<not> writing p | _ \<Rightarrow> False)
                     | None \<Rightarrow> False)
                | _ \<Rightarrow> False)
           | None \<Rightarrow> False)
      | _ \<Rightarrow> False)"

lemma init_state_runs: "case init_state env now n garbage of Inr s \<Rightarrow> default_view_ready now s | Inl _ \<Rightarrow> False"
  by code_simp

lemma GlobalState_spec:
  "GlobalState env (AdminState n garbage) = Inr (s, r) \<Longrightarrow> bounded s \<and> no_txn s \<and> (\<exists>a. r = Inr a)"
  by (auto simp: GlobalState_def method_Inr AdminState_def bounded_def no_txn_def weights_only_def block_def split: if_splits)

text \<open>
  Property C29. The server starts: whatever was in memory, \<open>init_state\<close> returns, no transaction is in progress,
  the registry has the default view, which carries its name, and the update of that view is scheduled after
  its interval of five minutes.
\<close>
theorem init_state_ready: "\<exists>s. init_state env now n garbage = Inr s \<and> server_idle s \<and> default_view_ready now s"
proof (cases "init_state env now n garbage")
  case (Inr s)
  have "default_view_ready now s" using init_state_runs [where env = env and now = now and n = n and garbage = garbage] Inr by simp
  moreover obtain s0 q where q: "GlobalState env (AdminState n garbage) = Inr (s0, q)" using Inr by (auto simp: init_state_def bindE_eq_Inr)
  moreover obtain a where g: "GlobalState env (AdminState n garbage) = Inr (s0, Inr a)" using GlobalState_spec [OF q] q by auto
  moreover obtain r where u: "updated (next_obj s0 + block) env now [a] (s0\<lparr>global_state := a\<rparr>) = Inr (s, r)"
    using Inr by (auto simp: init_state_def g bindE_eq_Inr)
  moreover have "bounded (s0\<lparr>global_state := a\<rparr>)" "no_txn (s0\<lparr>global_state := a\<rparr>)"
    using GlobalState_spec [OF g] by (auto simp: bounded_def no_txn_def)
  ultimately show ?thesis using Inr quietD [OF quiet_updated u] by (auto simp: server_idle_def bounded_def)
qed (use init_state_runs [where env = env and now = now and n = n and garbage = garbage] in simp)

section \<open>What a copy of a view loses\<close>

lemma set_children_spec:
  "writing ob \<Longrightarrow> unat i + length as < UINT_MAX \<Longrightarrow> \<exists>ob'. set_children ob i as = Inr ob' \<and> writing ob'"
proof (induction ob i as rule: set_children.induct)
  case (2 ob i a as)
  have i: "i \<noteq> - 1" using "2.prems"(2) by (auto simp: unsigned_minus_1_eq_mask mask_eq_exp_minus_1)
  obtain ob1 where 1: "set_child ob i (Some a) = Inr ob1" "writing ob1" using get_child_set_child [OF "2.prems"(1) i] by blast
  have "1 + i \<noteq> 0" using i by (metis add_eq_0_iff)
  then have "unat (i + 1) = Suc (unat i)" using unatSuc [of i] by (simp add: add.commute)
  then show ?case using "2.IH" [OF 1(2)] "2.prems"(2) 1(1) by simp
qed simp

lemma view_touched [simp]:
  "view_name (touched v) = view_name v" "update_interval (touched v) = update_interval v"
  by (cases v; simp add: touched_def)+

lemma set_plugin_spec:
  "writing v \<Longrightarrow> \<exists>v' b. set_plugin registered v n = Inr (v', b) \<and> writing v' \<and> view_name v' = view_name v"
  by (auto simp: set_plugin_def changed_writing)

lemma copy_props_spec:
  assumes "\<not> writing n"
  shows "\<exists>n'. copy_props registered v n = Inr n' \<and> view_name n' = view_name n \<and> update_interval n' = update_interval v \<and> \<not> writing n'"
proof -
  define n0 where "n0 = n\<lparr>writing := True, changed_fired := False\<rparr>"
  obtain n1 b where "set_plugin registered n0 (plugin_name v) = Inr (n1, b)" "writing n1" "view_name n1 = view_name n"
    using set_plugin_spec [of n0 registered "plugin_name v"] by (auto simp: n0_def)
  then show ?thesis using assms
    by (simp add: copy_props_def begin_write_def end_write_def n0_def [symmetric] changed_writing set_update_interval_def set_extra_node_action_def
      set_default_intrapid_pdistance_def set_default_interpid_pdistance_def set_default_interdomain_pdistance_def set_default_pidlink_pdistance_def
      set_interdomain_includes_intradomain_def set_pid_ttl_def set_pdistance_ttl_def)
qed

lemma make_view_spec: "\<exists>n. make_view garbage name [a + 1..<a + 7] = Inr n \<and> view_name n = name \<and> \<not> writing n"
proof -
  define v where "v = (new_view_props garbage name)\<lparr>writing := True, changed_fired := False\<rparr>"
  have keep: "set_children x i as = Inr y \<Longrightarrow> view_name y = view_name (x :: view_props)" for x y i as
    by (induction x i as rule: set_children.induct) (auto simp: bindE_eq_Inr set_child_def Let_def changed_cases split: if_splits)
  obtain y where y: "set_children v 0 [a + 1..<a + 7] = Inr y" "writing y" using set_children_spec [of v 0 "[a + 1..<a + 7]"] by (auto simp: v_def)
  have "begin_write (new_view_props garbage name) = Inr v"
    by (simp add: begin_write_def v_def new_view_props_def dist_object.defs DistributedObject_def local_object.defs LocalObject_def)
  moreover have "view_name y = name" using keep [OF y(1)] by (simp add: v_def new_view_props_def dist_object.defs)
  ultimately show ?thesis using y by (simp add: make_view_def end_write_def)
qed

text \<open>
  A transaction that writes to a view copies it, and the copy has no name: it keeps the interval
  and the children of the view, but when it is installed the update that is scheduled is for the view with
  the empty name, which is the default view.
\<close>
theorem copied_view_updates_default:
  "\<exists>v'. obj_copy env a (View_Obj v) = Inr (View_Obj v, View_Obj v') \<and> children v' = children v \<and> update_interval v' = update_interval v \<and>
    view_on_update now q v' = schedule_view now q [] (update_interval v) \<and> reg_get g (view_name v') = reg_get g DEFAULT_VIEW_NAME"
proof -
  obtain n where n: "make_view (se_memory env a 0) [] [a + 1..<a + 7] = Inr n" "view_name n = []" "\<not> writing n"
    using make_view_spec by blast
  obtain n' where n': "copy_props (se_registered env) v n = Inr n'" "view_name n' = []" "update_interval n' = update_interval v"
    using copy_props_spec [OF n(3), of "se_registered env" v] n(2) by auto
  have "obj_copy env a (View_Obj v) = Inr (View_Obj v, View_Obj (n'\<lparr>children := children v\<rparr>))"
    using n n' by (simp add: view_copy_def mapE_def)
  then show ?thesis using n' by (simp add: view_on_update_def reg_get_def)
qed

section \<open>Tokens\<close>

lemma hex_val_digit: "d < 16 \<Longrightarrow> hex_val (hex_digit d) = Some d"
  by (auto simp: hex_val_def hex_digit_def Let_def)

lemma length_hex_digits [simp]: "length (hex_digits k n) = k"
  by (induction k n rule: hex_digits.induct) auto

lemma set_hex_digits: "c \<in> set (hex_digits k n) \<Longrightarrow> \<exists>d<16. c = hex_digit d"
proof (induction k n rule: hex_digits.induct)
  case (2 k n)
  have "\<exists>d<16. hex_digit (n mod 16) = hex_digit d" by (rule exI [of _ "n mod 16"]) simp
  then show ?case using 2 by auto
qed simp

lemma is_hex_digits: "\<forall>c\<in>set (hex_digits k n). is_hex c"
  using set_hex_digits hex_val_digit by (fastforce simp: is_hex_def)

lemma hex_value_digits: "hex_value (hex_digits k n) = n mod 16 ^ k"
proof (induction k n rule: hex_digits.induct)
  case (2 k n)
  have "hex_value (hex_digits (Suc k) n) = 16 * hex_value (hex_digits k (n div 16)) + n mod 16"
    by (simp add: hex_value_def hex_val_digit)
  then show ?case using 2 by (simp add: mod_mult2_eq)
qed (simp add: hex_value_def)

lemma hex_not_special: "is_hex c \<Longrightarrow> \<not> c_isspace c \<and> c \<noteq> CHR ''-'' \<and> c \<noteq> CHR ''+'' \<and> c \<noteq> CHR ''x'' \<and> c \<noteq> CHR ''X'' \<and> c \<noteq> CHR 0x00"
  by (auto simp: is_hex_def hex_val_def c_isspace_def Let_def)

text \<open>A string of hexadecimal digits is read as its value.\<close>

lemma strtoull16_digits:
  assumes "\<forall>c\<in>set ds. is_hex c" "ds \<noteq> []" "hex_value ds \<le> ULONG_MAX"
  shows "strtoull16 ds = (of_nat (hex_value ds), [])"
proof -
  have n: "\<And>c. c \<in> set ds \<Longrightarrow> \<not> c_isspace c \<and> c \<noteq> CHR ''-'' \<and> c \<noteq> CHR ''+'' \<and> c \<noteq> CHR ''x'' \<and> c \<noteq> CHR ''X''"
    using assms(1) hex_not_special by blast
  have "dropWhile c_isspace ds = ds" "skip_sign ds = (False, ds)"
    using n assms(2) by (auto simp: skip_sign_def split: list.splits)
  moreover have "skip_0x ds = ds" using n by (auto simp: skip_0x_def split: list.splits)
  moreover have "takeWhile is_hex ds = ds" "dropWhile is_hex ds = []" using assms(1) by (simp_all add: takeWhile_eq_all_conv)
  ultimately show ?thesis using assms(2,3) by (simp add: strtoull16_def Let_def del: takeWhile_eq_all_conv dropWhile_eq_Nil_conv)
qed

text \<open>
  The text of a token has sixteen characters and is read back as the same token.
\<close>
theorem token_roundtrip: "string_to_token (token_to_string t) = Some t \<and> length (token_to_string t) = 16"
proof -
  let ?d = "hex_digits 16 (unat t)"
  have t: "unat t < 18446744073709551616" using unsigned_less [of t, where ?'a = nat] by simp
  then have v: "hex_value ?d = unat t" by (simp add: hex_value_digits)
  have "?d \<noteq> []" using length_hex_digits [of 16 "unat t"] by (metis length_0_conv zero_neq_numeral)
  moreover have "c_str ?d = ?d" using is_hex_digits hex_not_special by (simp add: c_str_def takeWhile_eq_all_conv)
  moreover have "strtoull16 ?d = (t, [])"
    using strtoull16_digits [OF is_hex_digits] v \<open>?d \<noteq> []\<close> t by simp
  ultimately show ?thesis by (simp add: token_to_string_def string_to_token_def Let_def del: hex_digits.simps)
qed

end
