(* ===== verification/Wire_Reader.thy ===== *)
theory Wire_Reader
  imports PID_Prefixes PID_Matrix
begin

text \<open>
  \<open>common/cpp/src/lib/protocol/parsing.cpp\<close>, \<open>protocol/detail/parsing.h\<close> and \<open>protocol-portal/detail/parsing.h\<close>:
  how the client reads the reply of a portal. libcurl hands over the reply in pieces; a \<open>ResponseReader\<close> keeps
  what is not used yet in a buffer, and the method \<open>consume\<close> of its subclass reads tokens from it.

  A position in the buffer is the rest of the buffer from there, so that \<open>consume\<close> gives the rest that is kept
  instead of the number of bytes used. What a reader writes through its output iterator is a list in its state.
  A call gives \<open>None\<close> when its loop does not end.
\<close>

section \<open>Tokens\<close>

definition ParseError :: p4p_error where
  "ParseError = P4PProtocolError ''Parse error: unknown error''"

text \<open>
  \<open>read_token\<close>: white space is skipped; a token that reaches the end of the buffer counts only when the reply is
  finished, and otherwise the position is the first character of the token.
\<close>

definition read_token :: "bool \<Rightarrow> bool \<Rightarrow> string \<Rightarrow> (string \<times> string option) result" where
  "read_token finished require pos =
     (let start = dropWhile c_isspace pos; stop = dropWhile (\<lambda>c. \<not> c_isspace c) start in
      if start = [] \<or> stop = [] \<and> \<not> finished
      then (if require \<and> finished then Inl ParseError else Inr (start, None))
      else Inr (stop, Some (takeWhile (\<lambda>c. \<not> c_isspace c) start)))"

text \<open>
  \<open>p4p_token_cast\<close> from a string: what follows the value is ignored. When the stream fails, the function writes
  through a null pointer before it comes to the \<open>throw\<close>.
\<close>

definition p4p_token_cast :: "(string \<Rightarrow> ('a \<times> string) option) \<Rightarrow> string \<Rightarrow> 'a result" where
  "p4p_token_cast extract arg = (case extract arg of Some (x, _) \<Rightarrow> Inr x | None \<Rightarrow> Inl Undefined_Behaviour)"

text \<open>\<open>if (!read_token(...)) break; ...\<close>: go on with the token when there is one.\<close>

definition read_then :: "(string \<times> 'a option) result \<Rightarrow> ('a \<Rightarrow> string \<Rightarrow> (string \<times> 'b option) result) \<Rightarrow> (string \<times> 'b option) result" where
  "read_then r f = bindE r (\<lambda>(pos, t). case t of None \<Rightarrow> Inr (pos, None) | Some x \<Rightarrow> f x pos)"

definition read_token_uint :: "bool \<Rightarrow> bool \<Rightarrow> string \<Rightarrow> (string \<times> u32 option) result" where
  "read_token_uint finished require pos =
     read_then (read_token finished require pos) (\<lambda>s pos'. bindE (p4p_token_cast extract_uint s) (\<lambda>v. Inr (pos', Some v)))"

text \<open>For PIDs and prefixes an \<open>invalid_argument\<close> becomes a \<open>P4PProtocolParseError\<close>.\<close>

definition parse_error :: "'a result \<Rightarrow> 'a result" where
  "parse_error r = (case r of Inl (Invalid_Argument w) \<Rightarrow> Inl (P4PProtocolError (''Parse error: '' @ w)) | _ \<Rightarrow> r)"

definition read_token_pid :: "bool \<Rightarrow> bool \<Rightarrow> string \<Rightarrow> (string \<times> pid option) result" where
  "read_token_pid finished require pos =
     read_then (read_token finished require pos)
       (\<lambda>s pos'. bindE (parse_error (p4p_token_cast read_pid s)) (\<lambda>p. Inr (pos', Some p)))"

text \<open>The resolver and the memory the prefix is built in, for \<open>IPPrefix\<close> from text.\<close>

type_synonym text_env = "(string \<Rightarrow> (int \<times> u8 list) option) \<times> u8 list"

definition read_token_prefix :: "text_env \<Rightarrow> bool \<Rightarrow> bool \<Rightarrow> string \<Rightarrow> (string \<times> ip_prefix option) result" where
  "read_token_prefix env finished require pos =
     read_then (read_token finished require pos)
       (\<lambda>s pos'. bindE (parse_error (p4p_token_cast (read_ip_prefix (fst env) (snd env)) s)) (\<lambda>p. Inr (pos', Some p)))"

section \<open>The loop of \<open>consume\<close>\<close>

text \<open>
  One turn of the \<open>while (true)\<close> of a reader: it leaves the loop with the position that \<open>consume\<close> returns, goes on
  from a new position, or throws. What the turn wrote stays written in each case. A \<open>consume\<close> that throws has no
  position to return, and the place of it is empty.
\<close>

datatype turn = Break string | Continue string | Throw p4p_error

type_synonym 's consumer = "bool \<Rightarrow> 's \<Rightarrow> string \<Rightarrow> ('s \<times> string \<times> p4p_error option) option"

partial_function (option) consume_loop :: "('s \<Rightarrow> string \<Rightarrow> 's \<times> turn) \<Rightarrow> 's \<Rightarrow> string \<Rightarrow> ('s \<times> string \<times> p4p_error option) option" where
  [code]: "consume_loop body s pos =
     (case body s pos of
        (s', Break pos') \<Rightarrow> Some (s', pos', None)
      | (s', Continue pos') \<Rightarrow> consume_loop body s' pos'
      | (s', Throw e) \<Rightarrow> Some (s', [], Some e))"

text \<open>The turn of a reader that reads one record at \<open>cur_pos\<close> and moves \<open>pos\<close> when it is complete.\<close>

definition record_turn :: "(string \<Rightarrow> (string \<times> 'a option) result) \<Rightarrow> 'a list \<Rightarrow> string \<Rightarrow> 'a list \<times> turn" where
  "record_turn rd itr pos =
     (case rd pos of
        Inl e \<Rightarrow> (itr, Throw e)
      | Inr (cur_pos, None) \<Rightarrow> (itr, Break pos)
      | Inr (cur_pos, Some x) \<Rightarrow> (itr @ [x], Continue cur_pos))"

section \<open>The readers\<close>

text \<open>\<open>ResponseTokenReader\<close> moves its position also when there is no token.\<close>

definition token_turn :: "bool \<Rightarrow> string list \<Rightarrow> string \<Rightarrow> string list \<times> turn" where
  "token_turn finished itr pos =
     (case read_token finished False pos of
        Inl e \<Rightarrow> (itr, Throw e)
      | Inr (pos', None) \<Rightarrow> (itr, Break pos')
      | Inr (pos', Some t) \<Rightarrow> (itr @ [t], Continue pos'))"

definition consume_tokens :: "string list consumer" where
  "consume_tokens finished = consume_loop (token_turn finished)"

definition consume_single_token :: "string consumer" where
  "consume_single_token finished token pos =
     (if token \<noteq> [] then Some (token, [], None)
      else case read_token finished True pos of
             Inl e \<Rightarrow> Some (token, [], Some e)
           | Inr (pos', None) \<Rightarrow> Some (token, pos', None)
           | Inr (pos', Some t) \<Rightarrow> Some (t, pos', None))"

definition read_pid_record :: "bool \<Rightarrow> string \<Rightarrow> (string \<times> pid option) result" where
  "read_pid_record finished pos = read_token_pid finished False pos"

definition consume_pids :: "pid list consumer" where
  "consume_pids finished = consume_loop (record_turn (read_pid_record finished))"

definition read_address_pid :: "bool \<Rightarrow> string \<Rightarrow> (string \<times> (string \<times> pid) option) result" where
  "read_address_pid finished pos =
     read_then (read_token finished False pos) (\<lambda>addr pos.
     read_then (read_token_pid finished True pos) (\<lambda>pid pos. Inr (pos, Some (addr, pid))))"

definition consume_address_pids :: "(string \<times> pid) list consumer" where
  "consume_address_pids finished = consume_loop (record_turn (read_address_pid finished))"

text \<open>\<open>NetNode\<close>, \<open>NamedNetLink\<close>, \<open>NamedPID\<close> and \<open>NamedPIDLink\<close> as tuples of their members.\<close>

definition read_net_node :: "bool \<Rightarrow> string \<Rightarrow> (string \<times> (string \<times> bool) option) result" where
  "read_net_node finished pos =
     read_then (read_token finished False pos) (\<lambda>name pos.
     read_then (read_token finished True pos) (\<lambda>external pos. Inr (pos, Some (name, external = ''external''))))"

definition consume_net_nodes :: "(string \<times> bool) list consumer" where
  "consume_net_nodes finished = consume_loop (record_turn (read_net_node finished))"

definition read_named_net_link :: "bool \<Rightarrow> string \<Rightarrow> (string \<times> (string \<times> string \<times> string) option) result" where
  "read_named_net_link finished pos =
     read_then (read_token finished False pos) (\<lambda>name pos.
     read_then (read_token finished True pos) (\<lambda>src pos.
     read_then (read_token finished True pos) (\<lambda>dst pos. Inr (pos, Some (name, src, dst)))))"

definition consume_named_net_links :: "(string \<times> string \<times> string) list consumer" where
  "consume_named_net_links finished = consume_loop (record_turn (read_named_net_link finished))"

definition read_named_pid :: "bool \<Rightarrow> string \<Rightarrow> (string \<times> (string \<times> pid) option) result" where
  "read_named_pid finished pos =
     read_then (read_token finished False pos) (\<lambda>name pos.
     read_then (read_token_pid finished True pos) (\<lambda>pid pos. Inr (pos, Some (name, pid))))"

definition consume_named_pids :: "(string \<times> pid) list consumer" where
  "consume_named_pids finished = consume_loop (record_turn (read_named_pid finished))"

definition read_named_pid_link :: "bool \<Rightarrow> string \<Rightarrow> (string \<times> (string \<times> string \<times> string) option) result" where
  "read_named_pid_link finished pos =
     read_then (read_token finished False pos) (\<lambda>name pos.
     read_then (read_token finished True pos) (\<lambda>src pos.
     read_then (read_token finished True pos) (\<lambda>dst pos. Inr (pos, Some (name, src, dst)))))"

definition consume_named_pid_links :: "(string \<times> string \<times> string) list consumer" where
  "consume_named_pid_links finished = consume_loop (record_turn (read_named_pid_link finished))"

subsection \<open>The PID map\<close>

record pidmap_reader =
  pm_itr :: "pid_prefixes list"
  pid_state :: nat
  prefix_count :: u32
  cur_record :: pid_prefixes

text \<open>\<open>ResponsePIDMapReader\<close>: the state is kept between calls. \<open>cur_record_\<close> is made before the first PID is read.\<close>

definition ResponsePIDMapReader :: "pid \<Rightarrow> pidmap_reader" where
  "ResponsePIDMapReader p = \<lparr>pm_itr = [], pid_state = 0, prefix_count = 0, cur_record = PIDPrefixes p\<rparr>"

text \<open>
  One turn is one case of the \<open>switch\<close>: where a case falls through to the next, \<open>pos\<close> and \<open>cur_pos\<close> agree, as they
  do at the start of the loop. Case 2 reads one prefix, and goes through case 3 when it has all.
\<close>

definition pm_read :: "(string \<times> 'a option) result \<Rightarrow> (pidmap_reader \<Rightarrow> 'a \<Rightarrow> pidmap_reader) \<Rightarrow> pidmap_reader \<Rightarrow> string \<Rightarrow> pidmap_reader \<times> turn" where
  "pm_read r upd s pos =
     (case r of
        Inl e \<Rightarrow> (s, Throw e)
      | Inr (cur_pos, None) \<Rightarrow> (s, Break pos)
      | Inr (cur_pos, Some x) \<Rightarrow> (upd s x, Continue cur_pos))"

definition pidmap_turn :: "text_env \<Rightarrow> bool \<Rightarrow> pidmap_reader \<Rightarrow> string \<Rightarrow> pidmap_reader \<times> turn" where
  "pidmap_turn env finished s pos =
     (if pid_state s = 0 then
        pm_read (read_token_pid finished False pos) (\<lambda>s pid. s\<lparr>cur_record := PIDPrefixes pid, pid_state := 1\<rparr>) s pos
      else if pid_state s = 1 then
        pm_read (read_token_uint finished True pos) (\<lambda>s n. s\<lparr>prefix_count := n, pid_state := 2\<rparr>) s pos
      else if num_prefixes (cur_record s) < unat (prefix_count s) then
        pm_read (read_token_prefix env finished True pos) (\<lambda>s pfx. s\<lparr>cur_record := add_prefix (cur_record s) pfx\<rparr>) s pos
      else (s\<lparr>pid_state := 0, pm_itr := pm_itr s @ [cur_record s]\<rparr>, Continue pos))"

definition consume_pidmap :: "text_env \<Rightarrow> pidmap_reader consumer" where
  "consume_pidmap env finished = consume_loop (pidmap_turn env finished)"

subsection \<open>The distances\<close>

text \<open>
  \<open>ResponsePDistanceReader\<close>: the entries of a row are set as they are read. A row that is not complete is read
  again from its start with the next piece.
\<close>

fun read_dsts :: "bool \<Rightarrow> pid \<Rightarrow> bool \<Rightarrow> nat \<Rightarrow> u32 pid_matrix \<Rightarrow> string \<Rightarrow> string \<Rightarrow> u32 pid_matrix \<times> turn" where
  "read_dsts finished src reverse 0 m pos cur_pos = (m, Continue cur_pos)"
| "read_dsts finished src reverse (Suc n) m pos cur_pos =
     (case read_token_pid finished True cur_pos of
        Inl e \<Rightarrow> (m, Throw e)
      | Inr (_, None) \<Rightarrow> (m, Break pos)
      | Inr (cur_pos, Some dst) \<Rightarrow>
          (case read_token_uint finished True cur_pos of
             Inl e \<Rightarrow> (m, Throw e)
           | Inr (_, None) \<Rightarrow> (m, Break pos)
           | Inr (cur_pos, Some cost) \<Rightarrow>
               (let m = set_entry m src dst cost in
                if \<not> reverse then read_dsts finished src reverse n m pos cur_pos
                else case read_token_uint finished True cur_pos of
                       Inl e \<Rightarrow> (m, Throw e)
                     | Inr (_, None) \<Rightarrow> (m, Break pos)
                     | Inr (cur_pos, Some cost) \<Rightarrow> read_dsts finished src reverse n (set_entry m dst src cost) pos cur_pos)))"

definition read_row_head :: "bool \<Rightarrow> string \<Rightarrow> (string \<times> (pid \<times> bool \<times> u32) option) result" where
  "read_row_head finished pos =
     read_then (read_token_pid finished False pos) (\<lambda>src pos.
     read_then (read_token finished True pos) (\<lambda>reverse_str pos.
     if reverse_str = ''inc-reverse'' \<or> reverse_str = ''no-reverse''
     then read_then (read_token_uint finished True pos) (\<lambda>num_dsts pos.
            Inr (pos, Some (src, reverse_str = ''inc-reverse'', num_dsts)))
     else Inl ParseError))"

definition pdistance_turn :: "bool \<Rightarrow> u32 pid_matrix \<Rightarrow> string \<Rightarrow> u32 pid_matrix \<times> turn" where
  "pdistance_turn finished m pos =
     (case read_row_head finished pos of
        Inl e \<Rightarrow> (m, Throw e)
      | Inr (_, None) \<Rightarrow> (m, Break pos)
      | Inr (cur_pos, Some (src, reverse, num_dsts)) \<Rightarrow> read_dsts finished src reverse (unat num_dsts) m pos cur_pos)"

definition consume_pdistances :: "u32 pid_matrix consumer" where
  "consume_pdistances finished = consume_loop (pdistance_turn finished)"

section \<open>The buffer\<close>

record 's response_reader =
  has_error :: bool
  reader_error :: p4p_error
  rr_buffer :: string
  rr_state :: 's

definition ResponseReader :: "'s \<Rightarrow> 's response_reader" where
  "ResponseReader s = \<lparr>has_error = False, reader_error = P4PProtocolError ''P4P API Exception: Unknown'', rr_buffer = [], rr_state = s\<rparr>"

text \<open>
  \<open>process\<close> appends a piece to the buffer and consumes what it can. A \<open>P4PProtocolError\<close> is stored and the rest of
  the reply is ignored; nothing else is caught.
\<close>

definition process :: "'s consumer \<Rightarrow> 's response_reader \<Rightarrow> string \<Rightarrow> 's response_reader result option" where
  "process consume r buf =
     (if has_error r then Some (Inr r)
      else case consume False (rr_state r) (rr_buffer r @ buf) of
             None \<Rightarrow> None
           | Some (s, rest, None) \<Rightarrow> Some (Inr (r\<lparr>rr_state := s, rr_buffer := rest\<rparr>))
           | Some (s, rest, Some (P4PProtocolError w)) \<Rightarrow>
               Some (Inr (r\<lparr>rr_state := s, has_error := True, reader_error := P4PProtocolError w, rr_buffer := []\<rparr>))
           | Some (s, rest, Some e) \<Rightarrow> Some (Inl e))"

definition reader_finish :: "'s consumer \<Rightarrow> 's response_reader \<Rightarrow> 's response_reader result option" where
  "reader_finish consume r =
     (case consume True (rr_state r) (rr_buffer r) of
        None \<Rightarrow> None
      | Some (s, _, None) \<Rightarrow> Some (Inr (r\<lparr>rr_state := s\<rparr>))
      | Some (s, _, Some e) \<Rightarrow> Some (Inl e))"

fun process_all :: "'s consumer \<Rightarrow> 's response_reader \<Rightarrow> string list \<Rightarrow> 's response_reader result option" where
  "process_all consume r [] = Some (Inr r)"
| "process_all consume r (b # bs) =
     (case process consume r b of Some (Inr r') \<Rightarrow> process_all consume r' bs | x \<Rightarrow> x)"

text \<open>The end of \<open>make_request\<close> and of \<open>ReadResponseStream\<close>: what is left is consumed, and a stored error is thrown.\<close>

definition reader_result :: "'s consumer \<Rightarrow> 's response_reader \<Rightarrow> 's result option" where
  "reader_result consume r =
     (case reader_finish consume r of
        None \<Rightarrow> None
      | Some (Inl e) \<Rightarrow> Some (Inl e)
      | Some (Inr r') \<Rightarrow> Some (if has_error r' then Inl (reader_error r') else Inr (rr_state r')))"

definition read_response :: "'s consumer \<Rightarrow> 's \<Rightarrow> string list \<Rightarrow> 's result option" where
  "read_response consume s bs =
     (case process_all consume (ResponseReader s) bs of
        None \<Rightarrow> None
      | Some (Inl e) \<Rightarrow> Some (Inl e)
      | Some (Inr r) \<Rightarrow> reader_result consume r)"

end
