(* ===== verification/Wire_Properties.thy ===== *)
theory Wire_Properties
  imports Wire_Reader
begin

text \<open>
  The result of reading a reply does not depend on how it is cut into pieces. Reading a record is stable when a
  record that was read from a part of the reply is read in the same way when more of it is there; the loop of
  \<open>consume\<close> over stable turns can be stopped at the end of a piece and resumed with the next one. The locale
  \<open>turn_reader\<close> has the loops, and gives \<open>chunked_reader\<close>, which has what \<open>process\<close> relies on.
\<close>

section \<open>Stable readers\<close>

definition stable :: "(bool \<Rightarrow> string \<Rightarrow> (string \<times> 'a option) result) \<Rightarrow> bool" where
  "stable p \<longleftrightarrow>
     (\<forall>s r x f m. p False s = Inr (r, Some x) \<longrightarrow> p f (s @ m) = Inr (r @ m, Some x)) \<and>
     (\<forall>s e f m. p False s = Inl e \<longrightarrow> p f (s @ m) = Inl e) \<and>
     (\<forall>s r x f. p f s = Inr (r, Some x) \<longrightarrow> length r \<le> length s)"

definition consuming :: "(bool \<Rightarrow> string \<Rightarrow> (string \<times> 'a option) result) \<Rightarrow> bool" where
  "consuming p \<longleftrightarrow> (\<forall>s r x f. p f s = Inr (r, Some x) \<longrightarrow> length r < length s)"

lemma stableD:
  assumes "stable p"
  shows stable_Some: "p False s = Inr (r, Some x) \<Longrightarrow> p f (s @ m) = Inr (r @ m, Some x)"
    and stable_Inl: "p False s = Inl e \<Longrightarrow> p f (s @ m) = Inl e"
    and stable_length: "p f s = Inr (r, Some x) \<Longrightarrow> length r \<le> length s"
  using assms unfolding stable_def by blast+

lemma consumingD: "consuming p \<Longrightarrow> p f s = Inr (r, Some x) \<Longrightarrow> length r < length s"
  by (auto simp: consuming_def)

lemma dropWhile_stop_append:
  "dropWhile P s \<noteq> [] \<Longrightarrow> dropWhile P (s @ m) = dropWhile P s @ m \<and> takeWhile P (s @ m) = takeWhile P s"
  by (induction s) auto

lemma read_token_Some:
  "read_token f q s = Inr (r, Some t) \<Longrightarrow> length r < length s \<and> t \<noteq> [] \<and> (\<forall>c\<in>set t. \<not> c_isspace c)"
proof -
  assume a: "read_token f q s = Inr (r, Some t)"
  let ?w = "dropWhile c_isspace s"
  have w: "?w \<noteq> []" and r: "r = dropWhile (\<lambda>c. \<not> c_isspace c) ?w" and t: "t = takeWhile (\<lambda>c. \<not> c_isspace c) ?w"
    using a by (auto simp: read_token_def Let_def split: if_splits)
  obtain c cs where c: "?w = c # cs" using w by (cases ?w) auto
  have "\<not> c_isspace c" using hd_dropWhile [OF w] c by simp
  moreover have "length (dropWhile (\<lambda>c. \<not> c_isspace c) cs) \<le> length cs" by (rule length_dropWhile_le)
  moreover have "length ?w \<le> length s" by (rule length_dropWhile_le)
  ultimately show ?thesis using c r t set_takeWhileD by (fastforce simp: less_Suc_eq_le)
qed

lemma read_token_False:
  "read_token False q s = (let w = dropWhile c_isspace s; r = dropWhile (\<lambda>c. \<not> c_isspace c) w in
     if r = [] then Inr (w, None) else Inr (r, Some (takeWhile (\<lambda>c. \<not> c_isspace c) w)))"
  by (cases "dropWhile c_isspace s") (simp_all add: read_token_def Let_def del: dropWhile_eq_Nil_conv)

lemma stable_read_token: "stable (\<lambda>f. read_token f q)"
proof -
  have "read_token f q (s @ m) = Inr (r @ m, Some x)" if a: "read_token False q s = Inr (r, Some x)" for s r x f m
  proof -
    let ?w = "dropWhile c_isspace s"
    have r: "r = dropWhile (\<lambda>c. \<not> c_isspace c) ?w" "r \<noteq> []" and x: "x = takeWhile (\<lambda>c. \<not> c_isspace c) ?w"
      using a by (auto simp: read_token_False Let_def simp del: dropWhile_eq_Nil_conv split: if_splits)
    then have w: "?w \<noteq> []" by (metis dropWhile.simps(1))
    show ?thesis
      using dropWhile_stop_append [OF w, of m] dropWhile_stop_append [of "\<lambda>c. \<not> c_isspace c" ?w m] r x w
      by (simp add: read_token_def Let_def del: dropWhile_eq_Nil_conv)
  qed
  moreover have "read_token False q s \<noteq> Inl e" for s e by (auto simp: read_token_False Let_def)
  moreover have "length r \<le> length s" if "read_token f q s = Inr (r, Some x)" for s r x f
    using read_token_Some [OF that] by simp
  ultimately show ?thesis unfolding stable_def by blast
qed

lemma consuming_read_token: "consuming (\<lambda>f. read_token f q)"
  using read_token_Some by (fastforce simp: consuming_def)

lemma stable_done: "stable (\<lambda>f pos. Inr (pos, Some x))"
  by (simp add: stable_def)

lemma stable_raise: "stable (\<lambda>f pos. Inl e)"
  by (simp add: stable_def)

lemma stable_cast: "stable (\<lambda>f pos. bindE c (\<lambda>v. Inr (pos, Some v)))"
  by (cases c) (simp_all add: stable_def)

lemma read_then_simps [simp]:
  "read_then (Inl e) f = Inl e"
  "read_then (Inr (pos, None)) f = Inr (pos, None)"
  "read_then (Inr (pos, Some x)) f = f x pos"
  by (simp_all add: read_then_def)

lemma read_then_Some:
  "read_then r f = Inr (pos, Some y) \<longleftrightarrow> (\<exists>x pos'. r = Inr (pos', Some x) \<and> f x pos' = Inr (pos, Some y))"
  by (auto simp: read_then_def bindE_eq_Inr split: option.splits)

lemma read_then_Inl:
  "read_then r f = Inl e \<longleftrightarrow> r = Inl e \<or> (\<exists>x pos'. r = Inr (pos', Some x) \<and> f x pos' = Inl e)"
  by (cases r) (auto simp: read_then_def split: option.splits)

lemma stable_then:
  assumes p: "stable p" and q: "\<And>x. stable (q x)"
  shows "stable (\<lambda>f s. read_then (p f s) (\<lambda>x s. q x f s))"
proof -
  have "read_then (p f (s @ m)) (\<lambda>x s. q x f s) = Inr (r @ m, Some y)"
    if "read_then (p False s) (\<lambda>x s. q x False s) = Inr (r, Some y)" for s r y f m
    using that stableD(1) [OF p] stableD(1) [OF q] by (fastforce simp: read_then_Some)
  moreover have "read_then (p f (s @ m)) (\<lambda>x s. q x f s) = Inl e"
    if "read_then (p False s) (\<lambda>x s. q x False s) = Inl e" for s e f m
    using that stableD(1, 2) [OF p] stableD(2) [OF q] by (fastforce simp: read_then_Inl)
  moreover have "length r \<le> length s" if "read_then (p f s) (\<lambda>x s. q x f s) = Inr (r, Some y)" for s r y f
    using that stableD(3) [OF p] stableD(3) [OF q] by (fastforce simp: read_then_Some intro: order_trans)
  ultimately show ?thesis unfolding stable_def by blast
qed

lemma consuming_then:
  assumes p: "consuming p" and q: "\<And>x. stable (q x)"
  shows "consuming (\<lambda>f s. read_then (p f s) (\<lambda>x s. q x f s))"
  using consumingD [OF p] stableD(3) [OF q] unfolding consuming_def read_then_Some by (fastforce intro: le_less_trans)

lemma stable_if_app: "stable p \<Longrightarrow> stable q \<Longrightarrow> stable (\<lambda>f s. if b then p f s else q f s)"
  by (cases b) simp_all

lemmas stable_intros = stable_read_token stable_done stable_raise stable_cast stable_then stable_if_app
lemmas consuming_intros = consuming_read_token consuming_then

lemma stable_uint: "stable (\<lambda>f. read_token_uint f q)"
  unfolding read_token_uint_def by (intro stable_intros)

lemma stable_pid: "stable (\<lambda>f. read_token_pid f q)"
  unfolding read_token_pid_def by (intro stable_intros)

lemma stable_prefix: "stable (\<lambda>f. read_token_prefix env f q)"
  unfolding read_token_prefix_def by (intro stable_intros)

lemma consuming_uint: "consuming (\<lambda>f. read_token_uint f q)"
  unfolding read_token_uint_def by (intro consuming_intros stable_intros)

lemma consuming_pid: "consuming (\<lambda>f. read_token_pid f q)"
  unfolding read_token_pid_def by (intro consuming_intros stable_intros)

lemma consuming_prefix: "consuming (\<lambda>f. read_token_prefix env f q)"
  unfolding read_token_prefix_def by (intro consuming_intros stable_intros)

lemmas record_defs = read_pid_record_def read_address_pid_def read_net_node_def read_named_net_link_def
  read_named_pid_def read_named_pid_link_def read_row_head_def

lemma stable_records:
  "stable read_pid_record" "stable read_address_pid" "stable read_net_node" "stable read_named_net_link"
  "stable read_named_pid" "stable read_named_pid_link" "stable read_row_head"
  unfolding record_defs by (intro stable_intros stable_uint stable_pid)+

lemma consuming_records:
  "consuming read_pid_record" "consuming read_address_pid" "consuming read_net_node" "consuming read_named_net_link"
  "consuming read_named_pid" "consuming read_named_pid_link" "consuming read_row_head"
  unfolding record_defs by (intro consuming_intros consuming_pid stable_intros stable_uint stable_pid)+

section \<open>Reading in pieces\<close>

text \<open>What the caller gets: the state of the reader or the exception.\<close>

definition outcome :: "('s \<times> string \<times> p4p_error option) option \<Rightarrow> 's result option" where
  "outcome c = (case c of None \<Rightarrow> None | Some (s, _, None) \<Rightarrow> Some (Inr s) | Some (_, _, Some e) \<Rightarrow> Some (Inl e))"

lemma outcome_simps [simp]:
  "outcome (Some (s, r, None)) = Some (Inr s)"
  "outcome (Some (s, r, Some e)) = Some (Inl e)"
  by (simp_all add: outcome_def)

locale chunked_reader =
  fixes consume :: "'s consumer" and inv :: "'s \<Rightarrow> bool"
  assumes total: "inv s \<Longrightarrow> \<exists>s' r e. consume f s b = Some (s', r, e) \<and> inv s'"
    and resume: "inv s \<Longrightarrow> consume False s b = Some (s', r, None) \<Longrightarrow> outcome (consume True s' (r @ m)) = outcome (consume True s (b @ m))"
    and raise: "inv s \<Longrightarrow> consume False s b = Some (s', r, Some e) \<Longrightarrow> outcome (consume True s (b @ m)) = Some (Inl e)"
    and quiet: "inv s \<Longrightarrow> consume False s b = Some (s', r, Some (P4PProtocolError w)) \<Longrightarrow> consume True s' [] = Some (s', [], None)"
begin

lemma process_all_error: "has_error r \<Longrightarrow> process_all consume r bs = Some (Inr r)"
  by (induction bs) (simp_all add: process_def)

lemma total_inv: "inv s \<Longrightarrow> consume f s b = Some (s', r, e) \<Longrightarrow> inv s'"
  using total [of s f b] by auto

lemma pieces_from:
  assumes "\<not> has_error r" and "inv (rr_state r)"
  shows "(case process_all consume r bs of None \<Rightarrow> None | Some (Inl e) \<Rightarrow> Some (Inl e) | Some (Inr r') \<Rightarrow> reader_result consume r') =
    outcome (consume True (rr_state r) (rr_buffer r @ concat bs))"
  using assms
proof (induction bs arbitrary: r)
  case Nil
  obtain s' rest e where "consume True (rr_state r) (rr_buffer r) = Some (s', rest, e)" using total [OF Nil(2)] by blast
  with Nil show ?case by (cases e) (simp_all add: reader_result_def reader_finish_def)
next
  case (Cons b bs)
  let ?s = "rr_state r" and ?b = "rr_buffer r @ b"
  obtain s' rest e where c: "consume False ?s ?b = Some (s', rest, e)" using total [OF Cons(3)] by blast
  show ?case
  proof (cases e)
    case None
    have "outcome (consume True s' (rest @ concat bs)) = outcome (consume True ?s (?b @ concat bs))"
      using resume [OF Cons(3)] c None by blast
    with Cons.IH [of "r\<lparr>rr_state := s', rr_buffer := rest\<rparr>"] Cons.prems c None total_inv [OF Cons(3) c]
    show ?thesis by (simp add: process_def)
  next
    case (Some x)
    have o: "outcome (consume True ?s (?b @ concat bs)) = Some (Inl x)"
      using raise [OF Cons(3)] c Some by blast
    show ?thesis
    proof (cases "\<exists>w. x = P4PProtocolError w")
      case True
      then obtain w where w: "x = P4PProtocolError w" ..
      with quiet [OF Cons(3)] c Some have "consume True s' [] = Some (s', [], None)" by blast
      with o c Some w Cons.prems show ?thesis
        by (simp add: process_def process_all_error reader_result_def reader_finish_def)
    next
      case False
      with o c Some Cons.prems show ?thesis by (cases x) (simp_all add: process_def)
    qed
  qed
qed

theorem read_pieces: "inv s \<Longrightarrow> read_response consume s bs = outcome (consume True s (concat bs))"
  using pieces_from [of "ResponseReader s" bs] by (simp add: read_response_def ResponseReader_def)

lemma read_same_text: "inv s \<Longrightarrow> concat bs = concat cs \<Longrightarrow> read_response consume s bs = read_response consume s cs"
  by (simp add: read_pieces)

lemma read_returns: "inv s \<Longrightarrow> \<exists>r. read_response consume s bs = Some r"
  using total [of s True "concat bs"] by (auto simp: read_pieces outcome_def split: option.splits)

end

section \<open>Loops of turns\<close>

locale turn_reader =
  fixes turn :: "bool \<Rightarrow> 's \<Rightarrow> string \<Rightarrow> 's \<times> turn" and inv :: "'s \<Rightarrow> bool" and left :: "'s \<Rightarrow> string \<Rightarrow> nat"
  assumes goes_on: "inv s \<Longrightarrow> turn False s b = (s', Continue r) \<Longrightarrow> turn f s (b @ m) = (s', Continue (r @ m))"
    and throws: "inv s \<Longrightarrow> turn False s b = (s', Throw e) \<Longrightarrow> turn f s (b @ m) = (s', Throw e)"
    and breaks: "inv s \<Longrightarrow> turn False s b = (s', Break r) \<Longrightarrow> turn f s' (r @ m) = turn f s (b @ m)"
    and progress: "turn f s b = (s', Continue r) \<Longrightarrow> left s' r < left s b"
    and keeps: "inv s \<Longrightarrow> turn f s b = (s', t) \<Longrightarrow> inv s'"
    and silent: "inv s \<Longrightarrow> turn False s b = (s', Throw (P4PProtocolError w)) \<Longrightarrow> turn True s' [] = (s', Break [])"
begin

lemma loop_Break: "turn f s b = (s', Break r) \<Longrightarrow> consume_loop (turn f) s b = Some (s', r, None)"
  by (subst consume_loop.simps) simp

lemma loop_Throw: "turn f s b = (s', Throw e) \<Longrightarrow> consume_loop (turn f) s b = Some (s', [], Some e)"
  by (subst consume_loop.simps) simp

lemma loop_Continue: "turn f s b = (s', Continue r) \<Longrightarrow> consume_loop (turn f) s b = consume_loop (turn f) s' r"
  by (subst consume_loop.simps) simp

lemma loop_total: "inv s \<Longrightarrow> \<exists>s' r e. consume_loop (turn f) s b = Some (s', r, e) \<and> inv s'"
proof (induction "left s b" arbitrary: s b rule: less_induct)
  case less
  obtain s' t where t: "turn f s b = (s', t)" by fastforce
  show ?case
  proof (cases t)
    case (Continue r)
    with t less(1) [OF progress keeps [OF less(2)]] show ?thesis by (simp add: loop_Continue)
  qed (use t keeps [OF less(2) t] in \<open>simp_all add: loop_Break loop_Throw\<close>)
qed

lemma loop_same_turn: "turn f s b = turn f s' b' \<Longrightarrow> consume_loop (turn f) s b = consume_loop (turn f) s' b'"
  by (simp only: consume_loop.simps [of "turn f" s b] consume_loop.simps [of "turn f" s' b'])

lemma loop_resume:
  "inv s \<Longrightarrow> consume_loop (turn False) s b = Some (s', r, e) \<Longrightarrow>
     (case e of None \<Rightarrow> consume_loop (turn f) s' (r @ m) = consume_loop (turn f) s (b @ m)
      | Some x \<Rightarrow> consume_loop (turn f) s (b @ m) = Some (s', r, e) \<and>
          (\<forall>w. x = P4PProtocolError w \<longrightarrow> turn True s' [] = (s', Break [])))"
proof (induction "left s b" arbitrary: s b rule: less_induct)
  case less
  obtain s1 t where t: "turn False s b = (s1, t)" by fastforce
  show ?case
  proof (cases t)
    case (Break r1)
    with t less(3) have "s' = s1" "r = r1" "e = None" by (simp_all add: loop_Break)
    with t Break loop_same_turn [OF breaks [OF less(2)]] show ?thesis by simp
  next
    case (Throw x)
    with t less(3) throws [OF less(2), of b s1 x f m] silent [OF less(2)] show ?thesis
      by (auto simp: loop_Throw)
  next
    case (Continue r1)
    with t have t': "turn False s b = (s1, Continue r1)" by simp
    from less(1) [OF progress [OF t'] keeps [OF less(2) t']] less(3)
    have "case e of None \<Rightarrow> consume_loop (turn f) s' (r @ m) = consume_loop (turn f) s1 (r1 @ m)
      | Some x \<Rightarrow> consume_loop (turn f) s1 (r1 @ m) = Some (s', r, e) \<and>
          (\<forall>w. x = P4PProtocolError w \<longrightarrow> turn True s' [] = (s', Break []))"
      by (simp add: loop_Continue [OF t'])
    moreover have "consume_loop (turn f) s (b @ m) = consume_loop (turn f) s1 (r1 @ m)"
      using goes_on [OF less(2) t'] by (rule loop_Continue)
    ultimately show ?thesis by (cases e) simp_all
  qed
qed

end

sublocale turn_reader \<subseteq> chunks: chunked_reader "\<lambda>f. consume_loop (turn f)" inv
proof
  fix s b s' r f m
  assume "inv s"
  then show "\<exists>s' r e. consume_loop (turn f) s b = Some (s', r, e) \<and> inv s'" by (rule loop_total)
  show "outcome (consume_loop (turn True) s' (r @ m)) = outcome (consume_loop (turn True) s (b @ m))"
    if "consume_loop (turn False) s b = Some (s', r, None)"
    using loop_resume [OF \<open>inv s\<close> that] by simp
  show "outcome (consume_loop (turn True) s (b @ m)) = Some (Inl e)"
    if "consume_loop (turn False) s b = Some (s', r, Some e)" for e
    using loop_resume [OF \<open>inv s\<close> that] by simp
  show "consume_loop (turn True) s' [] = Some (s', [], None)"
    if "consume_loop (turn False) s b = Some (s', r, Some (P4PProtocolError w))" for w
    using loop_resume [OF \<open>inv s\<close> that] by (simp add: loop_Break)
qed

section \<open>The readers\<close>

text \<open>A reader of records: nothing is written until the record is complete.\<close>

lemma record_turn_simps:
  "record_turn rd itr pos = (itr', Continue r) \<longleftrightarrow> (\<exists>x. rd pos = Inr (r, Some x) \<and> itr' = itr @ [x])"
  "record_turn rd itr pos = (itr', Throw e) \<longleftrightarrow> rd pos = Inl e \<and> itr' = itr"
  "record_turn rd itr pos = (itr', Break r) \<longleftrightarrow> (\<exists>c. rd pos = Inr (c, None)) \<and> itr' = itr \<and> r = pos"
  by (auto simp: record_turn_def split: sum.splits option.splits)

lemma record_reader:
  assumes "stable rd" and "consuming rd" and "\<And>s w. rd False s \<noteq> Inl (P4PProtocolError w)"
  shows "turn_reader (\<lambda>f. record_turn (rd f)) (\<lambda>_. True) (\<lambda>_. length)"
  using stableD(1, 2) [OF assms(1)] consumingD [OF assms(2)] assms(3)
  by unfold_locales (auto simp: record_turn_simps)

text \<open>Tokens of a part of the reply are never missed, and a token that is not a value is no protocol error.\<close>

definition crashing :: "(bool \<Rightarrow> string \<Rightarrow> (string \<times> 'a option) result) \<Rightarrow> bool" where
  "crashing p \<longleftrightarrow> (\<forall>s e. p False s = Inl e \<longrightarrow> e = Undefined_Behaviour)"

lemma crashing_read_token: "crashing (\<lambda>f. read_token f q)"
  by (auto simp: crashing_def read_token_False Let_def)

lemma crashing_done: "crashing (\<lambda>f pos. Inr (pos, Some x))"
  by (simp add: crashing_def)

lemma crashing_cast:
  "crashing (\<lambda>f pos. bindE (p4p_token_cast x s) (\<lambda>v. Inr (pos, Some v)))"
  "crashing (\<lambda>f pos. bindE (parse_error (p4p_token_cast x s)) (\<lambda>v. Inr (pos, Some v)))"
  by (auto simp: crashing_def p4p_token_cast_def parse_error_def split: option.splits)

lemma crashing_then:
  assumes "crashing p" and "\<And>x. crashing (q x)"
  shows "crashing (\<lambda>f s. read_then (p f s) (\<lambda>x s. q x f s))"
  using assms unfolding crashing_def read_then_Inl by blast

lemmas crashing_intros = crashing_read_token crashing_done crashing_cast crashing_then

lemma crashing_typed:
  "crashing (\<lambda>f. read_token_uint f q)" "crashing (\<lambda>f. read_token_pid f q)" "crashing (\<lambda>f. read_token_prefix env f q)"
  unfolding read_token_uint_def read_token_pid_def read_token_prefix_def by (intro crashing_intros)+

lemma crashing_records:
  "crashing read_pid_record" "crashing read_address_pid" "crashing read_net_node" "crashing read_named_net_link"
  "crashing read_named_pid" "crashing read_named_pid_link"
  unfolding record_defs by (intro crashing_intros crashing_typed)+

lemma record_reader_crashing:
  assumes "stable rd" and "consuming rd" and "crashing rd"
  shows "turn_reader (\<lambda>f. record_turn (rd f)) (\<lambda>_. True) (\<lambda>_. length)"
  using assms by (intro record_reader) (auto simp: crashing_def)

interpretation pids: turn_reader "\<lambda>f. record_turn (read_pid_record f)" "\<lambda>_. True" "\<lambda>_. length"
  by (intro record_reader_crashing stable_records consuming_records crashing_records)

interpretation address_pids: turn_reader "\<lambda>f. record_turn (read_address_pid f)" "\<lambda>_. True" "\<lambda>_. length"
  by (intro record_reader_crashing stable_records consuming_records crashing_records)

interpretation net_nodes: turn_reader "\<lambda>f. record_turn (read_net_node f)" "\<lambda>_. True" "\<lambda>_. length"
  by (intro record_reader_crashing stable_records consuming_records crashing_records)

interpretation named_net_links: turn_reader "\<lambda>f. record_turn (read_named_net_link f)" "\<lambda>_. True" "\<lambda>_. length"
  by (intro record_reader_crashing stable_records consuming_records crashing_records)

interpretation named_pids: turn_reader "\<lambda>f. record_turn (read_named_pid f)" "\<lambda>_. True" "\<lambda>_. length"
  by (intro record_reader_crashing stable_records consuming_records crashing_records)

interpretation named_pid_links: turn_reader "\<lambda>f. record_turn (read_named_pid_link f)" "\<lambda>_. True" "\<lambda>_. length"
  by (intro record_reader_crashing stable_records consuming_records crashing_records)

text \<open>The reader of tokens skips the white space before a token that is not complete.\<close>

lemma dropWhile_twice_append: "dropWhile P (dropWhile P s @ m) = dropWhile P (s @ m)"
  by (induction s) auto

lemma read_token_dropWhile: "read_token f q (dropWhile c_isspace s @ m) = read_token f q (s @ m)"
  by (simp only: read_token_def dropWhile_twice_append)

interpretation tokens: turn_reader token_turn "\<lambda>_. True" "\<lambda>_. length"
proof
  fix s b s' r f m e w t
  show "token_turn False s b = (s', Continue r) \<Longrightarrow> token_turn f s (b @ m) = (s', Continue (r @ m))"
    using stableD(1) [OF stable_read_token] by (fastforce simp: token_turn_def split: sum.splits option.splits)
  show "token_turn False s b = (s', Throw e) \<Longrightarrow> token_turn f s (b @ m) = (s', Throw e)"
    and "token_turn False s b = (s', Throw (P4PProtocolError w)) \<Longrightarrow> token_turn True s' [] = (s', Break [])"
    using crashing_read_token by (auto simp: token_turn_def crashing_def read_token_False Let_def split: sum.splits option.splits if_splits)
  show "token_turn False s b = (s', Break r) \<Longrightarrow> token_turn f s' (r @ m) = token_turn f s (b @ m)"
    by (auto simp: token_turn_def read_token_False Let_def read_token_dropWhile split: if_splits)
  show "token_turn f s b = (s', Continue r) \<Longrightarrow> length r < length b"
    using read_token_Some by (fastforce simp: token_turn_def split: sum.splits option.splits)
qed simp

text \<open>The reader of one token ignores the rest once it has it.\<close>

lemma single_token_resume:
  assumes "consume_single_token False s b = Some (s', r, None)"
  shows "outcome (consume_single_token True s' (r @ m)) = outcome (consume_single_token True s (b @ m))"
proof (cases "s = []")
  case True
  show ?thesis
  proof (cases "read_token False True b")
    case (Inr v)
    then obtain r1 t where v: "read_token False True b = Inr (r1, t)" by (cases v) auto
    show ?thesis
    proof (cases t)
      case None
      then have "r1 = dropWhile c_isspace b" using v by (auto simp: read_token_False Let_def split: if_splits)
      with read_token_dropWhile [of True True b m] None v True assms show ?thesis by (auto simp: consume_single_token_def)
    next
      case (Some x)
      with v read_token_Some [of False True b r1 x] stableD(1) [OF stable_read_token, of True b r1 x True m] True assms
      show ?thesis by (auto simp: consume_single_token_def)
    qed
  qed (use crashing_read_token True assms in \<open>simp add: consume_single_token_def\<close>)
qed (use assms in \<open>auto simp: consume_single_token_def\<close>)

lemma single_token_quiet: "consume_single_token False s b \<noteq> Some (s', r, Some e)"
  by (auto simp: consume_single_token_def read_token_False Let_def)

interpretation single_token: chunked_reader consume_single_token "\<lambda>_. True"
proof
  fix s f b
  show "\<exists>s' r e. consume_single_token f s b = Some (s', r, e) \<and> True"
    by (auto simp: consume_single_token_def split: sum.splits option.splits)
qed (simp_all add: single_token_resume single_token_quiet)

text \<open>The reader of PID maps keeps its state between the pieces and moves on with every token.\<close>

lemma pm_read_simps:
  "pm_read r upd s pos = (s', Continue p) \<longleftrightarrow> (\<exists>x. r = Inr (p, Some x) \<and> s' = upd s x)"
  "pm_read r upd s pos = (s', Throw e) \<longleftrightarrow> r = Inl e \<and> s' = s"
  "pm_read r upd s pos = (s', Break p) \<longleftrightarrow> (\<exists>c. r = Inr (c, None)) \<and> s' = s \<and> p = pos"
  by (auto simp: pm_read_def split: sum.splits option.splits)

lemmas typed_tokens = stableD [OF stable_uint] stableD [OF stable_pid] stableD [OF stable_prefix]
lemmas typed_consuming = consumingD [OF consuming_uint] consumingD [OF consuming_pid] consumingD [OF consuming_prefix]

lemma typed_crash:
  "read_token_uint False q s = Inl e \<Longrightarrow> e = Undefined_Behaviour"
  "read_token_pid False q s = Inl e \<Longrightarrow> e = Undefined_Behaviour"
  "read_token_prefix env False q s = Inl e \<Longrightarrow> e = Undefined_Behaviour"
  using crashing_typed unfolding crashing_def by blast+

interpretation pidmap: turn_reader "pidmap_turn env" "\<lambda>_. True" "\<lambda>s b. 2 * length b + (if 2 \<le> pid_state s then 1 else 0)"
  for env
proof
  fix s b s' r f m e w
  show "pidmap_turn env False s b = (s', Continue r) \<Longrightarrow> pidmap_turn env f s (b @ m) = (s', Continue (r @ m))"
    by (auto simp: pidmap_turn_def pm_read_simps typed_tokens split: if_splits)
  show "pidmap_turn env False s b = (s', Throw e) \<Longrightarrow> pidmap_turn env f s (b @ m) = (s', Throw e)"
    by (auto simp: pidmap_turn_def pm_read_simps typed_tokens split: if_splits)
  show "pidmap_turn env False s b = (s', Break r) \<Longrightarrow> pidmap_turn env f s' (r @ m) = pidmap_turn env f s (b @ m)"
    by (auto simp: pidmap_turn_def pm_read_simps split: if_splits)
  show "pidmap_turn env f s b = (s', Continue r) \<Longrightarrow>
      2 * length r + (if 2 \<le> pid_state s' then 1 else 0) < 2 * length b + (if 2 \<le> pid_state s then 1 else (0 :: nat))"
    by (auto simp: pidmap_turn_def pm_read_simps dest!: typed_consuming split: if_splits)
  show "pidmap_turn env False s b = (s', Throw (P4PProtocolError w)) \<Longrightarrow> pidmap_turn env True s' [] = (s', Break [])"
    by (auto simp: pidmap_turn_def pm_read_simps dest!: typed_crash split: if_splits)
qed simp

section \<open>The reader of distances\<close>

text \<open>
  A row that was read in part has set some entries; when the row is read again, it sets them again. The writes of
  a row do not depend on the matrix.
\<close>

definition set_all :: "(pid \<times> pid \<times> 'v) list \<Rightarrow> 'v pid_matrix \<Rightarrow> 'v pid_matrix" where
  "set_all ws m = fold (\<lambda>(i, j, v) m. set_entry m i j v) ws m"

lemma set_all_simps [simp]:
  "set_all [] m = m"
  "set_all ((i, j, v) # ws) m = set_all ws (set_entry m i j v)"
  "set_all (us @ ws) m = set_all ws (set_all us m)"
  by (simp_all add: set_all_def)

lemma matrix_inv_set_all: "matrix_inv m \<Longrightarrow> matrix_inv (set_all ws m)"
  by (induction ws arbitrary: m) (auto simp: matrix_inv_set_entry)

definition mrow :: "'v pid_matrix \<Rightarrow> pid \<Rightarrow> 'v pid_row" where
  "mrow m i = (case smap_find m i of None \<Rightarrow> [] | Some row \<Rightarrow> row)"

lemma set_entry_mrow: "matrix_inv m \<Longrightarrow> set_entry m i j v = smap_put i (smap_put j v (mrow m i)) m"
  by (simp add: set_entry_put mrow_def)

lemma smap_inv_mrow: "matrix_inv m \<Longrightarrow> smap_inv (mrow m i)"
  by (auto simp: mrow_def dest: matrix_inv_row split: option.splits)

lemma mrow_set_entry:
  "matrix_inv m \<Longrightarrow> mrow (set_entry m i j v) i' = (if i' = i then smap_put j v (mrow m i) else mrow m i')"
  by (auto simp: set_entry_mrow mrow_def [of "smap_put _ _ _"] matrix_inv_def) (simp add: mrow_def)

lemma set_entry_twice: "matrix_inv m \<Longrightarrow> set_entry (set_entry m i j v) i j w = set_entry m i j w"
  by (simp add: set_entry_mrow [OF matrix_inv_set_entry] mrow_set_entry smap_put_put smap_inv_mrow)
    (simp add: set_entry_mrow smap_put_put matrix_inv_def)

lemma set_entry_commute:
  assumes m: "matrix_inv m" and d: "(i, j) \<noteq> (k, l)"
  shows "set_entry (set_entry m i j v) k l w = set_entry (set_entry m k l w) i j v"
proof -
  have s: "smap_inv m" using m by (simp add: matrix_inv_def)
  have e: "set_entry (set_entry m i j v) k l w =
      smap_put k (smap_put l w (if k = i then smap_put j v (mrow m i) else mrow m k)) (smap_put i (smap_put j v (mrow m i)) m)"
    for i j v k l w
    using m by (simp add: set_entry_mrow [OF matrix_inv_set_entry] mrow_set_entry) (simp add: set_entry_mrow)
  show ?thesis
  proof (cases "i = k")
    case True
    then show ?thesis
      using d s by (simp add: e smap_put_put smap_put_commute smap_inv_mrow [OF m])
  next
    case False
    then show ?thesis using s by (simp add: e smap_put_commute)
  qed
qed

lemma set_all_absorb:
  "matrix_inv m \<Longrightarrow> (i, j) \<in> (\<lambda>(i, j, v). (i, j)) ` set ws \<Longrightarrow> set_all ws (set_entry m i j v) = set_all ws m"
proof (induction ws arbitrary: m)
  case (Cons u ws)
  obtain k l w where u: "u = (k, l, w)" by (cases u)
  show ?case
  proof (cases "(i, j) = (k, l)")
    case True
    with Cons(2) u show ?thesis by (simp add: set_entry_twice)
  next
    case False
    with Cons.prems u have "(i, j) \<in> (\<lambda>(i, j, v). (i, j)) ` set ws" by auto
    with Cons.IH [OF matrix_inv_set_entry [OF Cons(2)]] False show ?thesis
      by (simp add: u set_entry_commute [OF Cons(2) False])
  qed
qed simp

lemma set_all_again: "matrix_inv m \<Longrightarrow> set_all (us @ ws) (set_all us m) = set_all (us @ ws) m"
proof -
  assume m: "matrix_inv m"
  have "set_all xs (set_all us m) = set_all xs m" if "set us \<subseteq> set xs" for xs
    using that
  proof (induction us rule: rev_induct)
    case (snoc u us)
    obtain i j v where u: "u = (i, j, v)" by (cases u)
    with snoc(2) have "(i, j) \<in> (\<lambda>(i, j, v). (i, j)) ` set xs" by force
    with snoc set_all_absorb [OF matrix_inv_set_all [OF m]] u show ?case by simp
  qed simp
  then show ?thesis by (metis Un_upper1 set_append)
qed

fun dst_writes :: "bool \<Rightarrow> pid \<Rightarrow> bool \<Rightarrow> nat \<Rightarrow> string \<Rightarrow> string \<Rightarrow> (pid \<times> pid \<times> u32) list \<times> turn" where
  "dst_writes f src rv 0 pos cur = ([], Continue cur)"
| "dst_writes f src rv (Suc n) pos cur =
     (case read_token_pid f True cur of
        Inl e \<Rightarrow> ([], Throw e)
      | Inr (_, None) \<Rightarrow> ([], Break pos)
      | Inr (cur, Some dst) \<Rightarrow>
          (case read_token_uint f True cur of
             Inl e \<Rightarrow> ([], Throw e)
           | Inr (_, None) \<Rightarrow> ([], Break pos)
           | Inr (cur, Some cost) \<Rightarrow>
               (if \<not> rv then map_prod (Cons (src, dst, cost)) id (dst_writes f src rv n pos cur)
                else case read_token_uint f True cur of
                       Inl e \<Rightarrow> ([(src, dst, cost)], Throw e)
                     | Inr (_, None) \<Rightarrow> ([(src, dst, cost)], Break pos)
                     | Inr (cur, Some cost') \<Rightarrow>
                         map_prod (\<lambda>ws. (src, dst, cost) # (dst, src, cost') # ws) id (dst_writes f src rv n pos cur))))"

lemma read_dsts_writes:
  "read_dsts f src rv n m pos cur = (set_all (fst (dst_writes f src rv n pos cur)) m, snd (dst_writes f src rv n pos cur))"
  by (induction n arbitrary: m cur) (auto simp: Let_def split: sum.splits option.splits)

lemma dst_writes_Break: "dst_writes f src rv n pos cur = (ws, Break p) \<Longrightarrow> p = pos"
  by (induction n arbitrary: cur ws) (auto simp: map_prod_def split: sum.splits option.splits if_splits prod.splits)

lemma dst_writes_length: "dst_writes f src rv n pos cur = (ws, Continue r) \<Longrightarrow> length r \<le> length cur"
  by (induction n arbitrary: cur ws)
    (fastforce simp: map_prod_def dest: typed_tokens(3, 6) split: sum.splits option.splits if_splits prod.splits)+

definition extends :: "'w list \<times> turn \<Rightarrow> 'w list \<times> turn \<Rightarrow> string \<Rightarrow> bool" where
  "extends part full x \<longleftrightarrow>
     (case snd part of
        Continue r \<Rightarrow> full = (fst part, Continue (r @ x))
      | Throw e \<Rightarrow> full = part
      | Break p \<Rightarrow> \<exists>vs. fst full = fst part @ vs)"

lemma extends_map:
  "extends part full x \<Longrightarrow> extends (map_prod (Cons w) id part) (map_prod (Cons w) id full) x"
  "extends part full x \<Longrightarrow> extends (map_prod (\<lambda>ws. v # w # ws) id part) (map_prod (\<lambda>ws. v # w # ws) id full) x"
  by (cases part; cases full; auto simp: extends_def split: turn.splits)+

text \<open>One read: \<open>g\<close> and \<open>h\<close> go on, and what is written then starts with \<open>ws\<close>.\<close>

lemma extends_read:
  assumes p: "stable p" and k: "\<And>y c. extends (g y c) (h y (c @ x)) x" and ws: "\<And>y c. \<exists>vs. fst (h y c) = ws @ vs"
  shows "extends (case p False c of Inl e \<Rightarrow> (ws, Throw e) | Inr (_, None) \<Rightarrow> (ws, Break pos) | Inr (c, Some y) \<Rightarrow> g y c)
    (case p f (c @ x) of Inl e \<Rightarrow> (ws, Throw e) | Inr (_, None) \<Rightarrow> (ws, Break pos') | Inr (c, Some y) \<Rightarrow> h y c) x"
proof (cases "p False c")
  case (Inl e)
  with stableD(2) [OF p Inl] show ?thesis by (simp add: extends_def)
next
  case (Inr v)
  then obtain c' y where v: "p False c = Inr (c', y)" by (cases v) auto
  show ?thesis
  proof (cases y)
    case None
    with v ws show ?thesis by (simp add: extends_def split: sum.splits option.splits)
  next
    case (Some z)
    with stableD(1) [OF p] v k show ?thesis by simp
  qed
qed

lemma dst_writes_stable:
  "extends (dst_writes False src rv n pos cur) (dst_writes f src rv n pos' (cur @ x)) x"
proof (induction n arbitrary: cur)
  case 0
  show ?case by (simp add: extends_def)
next
  case (Suc n)
  have two: "extends
      (case read_token_uint False True c of Inl e \<Rightarrow> ([w], Throw e) | Inr (_, None) \<Rightarrow> ([w], Break pos)
       | Inr (c, Some v) \<Rightarrow> map_prod (\<lambda>ws. w # u v # ws) id (dst_writes False src rv n pos c))
      (case read_token_uint f True (c @ x) of Inl e \<Rightarrow> ([w], Throw e) | Inr (_, None) \<Rightarrow> ([w], Break pos')
       | Inr (c, Some v) \<Rightarrow> map_prod (\<lambda>ws. w # u v # ws) id (dst_writes f src rv n pos' c)) x" for c w u
    by (rule extends_read [OF stable_uint]) (simp_all add: extends_map Suc)
  have one: "extends (map_prod (Cons w) id (dst_writes False src rv n pos c)) (map_prod (Cons w) id (dst_writes f src rv n pos' (c @ x))) x"
    for c w by (rule extends_map(1) [OF Suc])
  show ?case unfolding dst_writes.simps
    by (intro extends_read [OF stable_pid] extends_read [OF stable_uint]; cases rv) (use one two in simp_all)
qed

lemma pdistance_turn_row:
  assumes "read_row_head f pos = Inr (cur, Some (src, rv, n))"
  shows "pdistance_turn f m pos =
    (set_all (fst (dst_writes f src rv (unat n) pos cur)) m, snd (dst_writes f src rv (unat n) pos cur))"
  using assms by (simp add: pdistance_turn_def read_dsts_writes)

text \<open>What a turn does with more of the reply, and on a matrix that has the entries of an incomplete row already.\<close>

lemma pdistance_turn_more:
  assumes m: "matrix_inv m" and t: "pdistance_turn False m b = (m', t)"
  shows "(case t of Continue r \<Rightarrow> pdistance_turn f m (b @ x) = (m', Continue (r @ x))
    | Throw e \<Rightarrow> pdistance_turn f m (b @ x) = (m', Throw e)
    | Break p \<Rightarrow> p = b \<and> pdistance_turn f m' (b @ x) = pdistance_turn f m (b @ x))"
proof (cases "read_row_head False b")
  case (Inl e)
  with t stableD(2) [OF stable_records(7) Inl] show ?thesis by (auto simp: pdistance_turn_def)
next
  case (Inr v)
  then obtain cur h where v: "read_row_head False b = Inr (cur, h)" by (cases v) auto
  show ?thesis
  proof (cases h)
    case None
    with v t show ?thesis by (auto simp: pdistance_turn_def)
  next
    case (Some z)
    obtain src rv n where z: "z = (src, rv, n)" by (cases z)
    let ?part = "dst_writes False src rv (unat n) b cur" and ?full = "dst_writes f src rv (unat n) (b @ x) (cur @ x)"
    have full: "pdistance_turn f m (b @ x) = (set_all (fst ?full) m, snd ?full)" for m
      using stableD(1) [OF stable_records(7)] v Some z by (intro pdistance_turn_row) blast
    have part: "m' = set_all (fst ?part) m" "snd ?part = t"
      using t pdistance_turn_row [of False b cur src rv n m] v Some z by auto
    have ext: "extends ?part ?full x" by (rule dst_writes_stable)
    show ?thesis
    proof (cases t)
      case (Break p)
      obtain vs where "fst ?full = fst ?part @ vs" using ext part Break by (auto simp: extends_def)
      moreover have "p = b" using dst_writes_Break [of False src rv "unat n" b cur] part Break by (metis prod.collapse)
      ultimately show ?thesis using full part Break set_all_again [OF m] by simp
    qed (use ext full part in \<open>auto simp: extends_def\<close>)
  qed
qed

interpretation pdistances: turn_reader pdistance_turn matrix_inv "\<lambda>_. length"
proof
  fix m m' :: "u32 pid_matrix" and b r f x e w t
  note more = pdistance_turn_more
  show "pdistance_turn f m (b @ x) = (m', Continue (r @ x))" if "matrix_inv m" "pdistance_turn False m b = (m', Continue r)"
    using more [OF that] by simp
  show "pdistance_turn f m (b @ x) = (m', Throw e)" if "matrix_inv m" "pdistance_turn False m b = (m', Throw e)"
    using more [OF that] by simp
  show "pdistance_turn f m' (r @ x) = pdistance_turn f m (b @ x)" if "matrix_inv m" "pdistance_turn False m b = (m', Break r)"
    using more [OF that] by simp
  show "length r < length b" if a: "pdistance_turn f m b = (m', Continue r)"
  proof -
    obtain cur src rv n where h: "read_row_head f b = Inr (cur, Some (src, rv, n))"
      using a by (auto simp: pdistance_turn_def split: sum.splits option.splits)
    with a have "snd (dst_writes f src rv (unat n) b cur) = Continue r" by (simp add: pdistance_turn_row)
    then have "length r \<le> length cur" using dst_writes_length by (metis prod.collapse)
    also have "length cur < length b" using h by (rule consumingD [OF consuming_records(7)])
    finally show ?thesis .
  qed
  show "matrix_inv m'" if "matrix_inv m" "pdistance_turn f m b = (m', t)"
    using that by (auto simp: pdistance_turn_def read_dsts_writes matrix_inv_set_all split: sum.splits option.splits)
  show "pdistance_turn True m' [] = (m', Break [])"
    by (simp add: pdistance_turn_def read_row_head_def read_token_pid_def read_token_def)
qed

end
