(* ===== verification/Wire_Client.thy ===== *)
theory Wire_Client
  imports Wire_Properties
begin

text \<open>
  \<open>common/cpp/src/lib/protocol/protobase.cpp\<close>, \<open>metainfo.cpp\<close>, \<open>lib/util.cpp\<close>, \<open>lib/inet_service.cpp\<close> and the request
  writers of \<open>parsing.cpp\<close> and \<open>detail/parsing.h\<close>: the requests of a client. libcurl is an argument: what it hands to
  the callbacks of one request, and the codes it returns.
\<close>

section \<open>Headers\<close>

definition trim :: "string \<Rightarrow> string" where
  "trim s = rev (dropWhile c_isspace (rev (dropWhile c_isspace s)))"

type_synonym headers = "(string, string) smap"

text \<open>The first value of a header stays.\<close>

definition add_header :: "headers \<Rightarrow> string \<Rightarrow> string \<Rightarrow> headers" where
  "add_header h name val = fst (smap_insert name val h)"

definition get_header :: "headers \<Rightarrow> string \<Rightarrow> string" where
  "get_header h name = (case smap_find h name of Some v \<Rightarrow> v | None \<Rightarrow> [])"

text \<open>\<open>None\<close> is the result \<open>-1\<close>, which makes libcurl give up.\<close>

definition header_read :: "headers \<Rightarrow> string \<Rightarrow> headers option" where
  "header_read h buf =
     (let line = trim buf in
      if line = [] \<or> take 5 line = ''HTTP/'' then Some h
      else if CHR '':'' \<notin> set line then None
      else Some (add_header h (trim (takeWhile (\<lambda>c. c \<noteq> CHR '':'') line)) (trim (tl (dropWhile (\<lambda>c. c \<noteq> CHR '':'') line)))))"

fun header_read_all :: "headers \<Rightarrow> string list \<Rightarrow> headers option" where
  "header_read_all h [] = Some h"
| "header_read_all h (l # ls) = (case header_read h l of None \<Rightarrow> None | Some h' \<Rightarrow> header_read_all h' ls)"

text \<open>
  The handler for a number that cannot be read is there; \<open>p4p_token_cast\<close> never throws.
\<close>

definition extract_cache_maxage :: "string \<Rightarrow> u32 result" where
  "extract_cache_maxage v =
     (if CHR ''='' \<notin> set v then Inr 0
      else if takeWhile (\<lambda>c. c \<noteq> CHR ''='') v \<noteq> ''max-age'' then Inr 0
      else case p4p_token_cast extract_uint (tl (dropWhile (\<lambda>c. c \<noteq> CHR ''='') v)) of
             Inl (Invalid_Argument _) \<Rightarrow> Inr 0
           | r \<Rightarrow> r)"

text \<open>\<open>P4PPortalProtocolMetaInfo::assign\<close>: the lifetime and the version of the PID map.\<close>

definition meta_assign :: "headers \<Rightarrow> (u32 \<times> u32) result" where
  "meta_assign h =
     bindE (extract_cache_maxage (get_header h ''Cache-Control'')) (\<lambda>ttl.
     bindE (p4p_token_cast extract_uint (get_header h ''X-P4P-PIDMap'')) (\<lambda>ver. Inr (ttl, ver)))"

section \<open>The address of the portal\<close>

text \<open>\<open>InetService\<close> from text, and the constructor of \<open>P4PProtocol\<close>, which takes a port in the host name.\<close>

type_synonym inet_service = "string \<times> nat"

definition InetService_INVALID :: inet_service where "InetService_INVALID = ([], 0)"

definition InetService :: "string \<Rightarrow> inet_service" where
  "InetService s =
     (case rfind (CHR '':'') s of
        None \<Rightarrow> InetService_INVALID
      | Some sep \<Rightarrow>
          if sep = length s - 1 then InetService_INVALID
          else let (port, endptr) = strtoul (c_str (drop (sep + 1) s)) in
               if endptr \<noteq> [] \<or> port > USHRT_MAX then InetService_INVALID else (take sep s, port))"

definition read_inet_service :: "string \<Rightarrow> (inet_service \<times> string) option" where
  "read_inet_service is =
     (case extract_token is of
        None \<Rightarrow> None
      | Some (s, rest) \<Rightarrow> if InetService s = InetService_INVALID then None else Some (InetService s, rest))"

definition P4PProtocol_host :: "string \<Rightarrow> nat \<Rightarrow> inet_service result" where
  "P4PProtocol_host host port =
     (if CHR '':'' \<notin> set host then Inr (host, port)
      else case p4p_token_cast read_inet_service host of
             Inl (Invalid_Argument w) \<Rightarrow> Inl (P4PProtocolError (''Invalid format for host parameter: '' @ w))
           | r \<Rightarrow> r)"

definition request_url :: "inet_service \<Rightarrow> string \<Rightarrow> string" where
  "request_url serv path = ''http://'' @ fst serv @ '':'' @ show_nat (snd serv) @ ''/'' @ path"

text \<open>The path of a request for a view; \<open>escape\<close> is \<open>curl_easy_escape\<close>.\<close>

definition view_path :: "(string \<Rightarrow> string) \<Rightarrow> string \<Rightarrow> string \<Rightarrow> string" where
  "view_path escape base view = base @ (if view \<noteq> ''DEFAULT'' then ''?view='' @ escape view else [])"

section \<open>Writing a request\<close>

text \<open>
  \<open>produce\<close> of the two writers: an item is written when all of it fits in the buffer, and a checkpoint set after it.
  The iterator is the list of items that are left.
\<close>

fun produce :: "nat \<Rightarrow> string list \<Rightarrow> string \<Rightarrow> string list \<times> string" where
  "produce len [] buf = ([], buf)"
| "produce len (x # xs) buf = (if length buf + length x \<le> len then produce len xs (buf @ x) else (x # xs, buf))"

definition collection_items :: "string list \<Rightarrow> string list" where
  "collection_items xs = map (\<lambda>x. x @ [CHR 0x0D, CHR 0x0A]) xs @ [[CHR 0x0D, CHR 0x0A]]"

definition pdistance_row :: "bool \<Rightarrow> pid \<times> pid list \<Rightarrow> string" where
  "pdistance_row reverse r =
     print_pid (fst r) @ [CHR 0x09] @ (if reverse then ''inc-reverse'' else ''no-reverse'') @ [CHR 0x09] @
     show_nat (length (snd r)) @ concat (map (\<lambda>d. CHR 0x09 # print_pid d) (snd r)) @ [CHR 0x0D, CHR 0x0A]"

definition pdistance_items :: "bool \<Rightarrow> (pid \<times> pid list) list \<Rightarrow> string list" where
  "pdistance_items reverse rows = map (pdistance_row reverse) rows"

record request_writer =
  rw_items :: "string list"
  rw_finished :: bool

definition RequestWriter :: "string list \<Rightarrow> request_writer" where
  "RequestWriter items = \<lparr>rw_items = items, rw_finished = False\<rparr>"

definition rw_process :: "request_writer \<Rightarrow> nat \<Rightarrow> request_writer \<times> string" where
  "rw_process w len =
     (if rw_finished w then (w, [])
      else let (rest, out) = produce len (rw_items w) [] in (w\<lparr>rw_items := rest, rw_finished := rest = []\<rparr>, out))"

text \<open>libcurl asks for more until the callback gives no bytes, which ends the body of the request.\<close>

fun rw_body :: "request_writer \<Rightarrow> nat list \<Rightarrow> string" where
  "rw_body w [] = []"
| "rw_body w (len # lens) = (case rw_process w len of (w', out) \<Rightarrow> if out = [] then [] else out @ rw_body w' lens)"

section \<open>A request\<close>

record transfer =
  tr_headers :: "string list"
  tr_pieces :: "string list"
  tr_failed :: "string option"
  tr_status :: "nat option"

text \<open>The text of an \<open>std::exception\<close> of a failed connection and of a status other than 200.\<close>

definition ConnectionError :: "inet_service \<Rightarrow> string \<Rightarrow> p4p_error" where
  "ConnectionError serv w = P4PProtocolConnectionError (fst serv @ '':'' @ show_nat (snd serv) @ '' Connection error: '' @ w)"

definition HTTPError :: "nat \<Rightarrow> p4p_error" where
  "HTTPError status = P4PProtocolError (''HTTP Error '' @ show_nat status)"

definition make_request :: "'s consumer \<Rightarrow> inet_service \<Rightarrow> 's \<Rightarrow> transfer \<Rightarrow> ('s \<times> headers) result option" where
  "make_request consume serv s t =
     (case header_read_all [] (tr_headers t) of
        None \<Rightarrow> Some (Inl (ConnectionError serv ''write error''))
      | Some h \<Rightarrow>
          (case process_all consume (ResponseReader s) (tr_pieces t) of
             None \<Rightarrow> None
           | Some (Inl e) \<Rightarrow> Some (Inl e)
           | Some (Inr r) \<Rightarrow>
               (case tr_failed t of
                  Some w \<Rightarrow> Some (Inl (ConnectionError serv w))
                | None \<Rightarrow>
                    (case reader_result consume r of
                       None \<Rightarrow> None
                     | Some (Inl e) \<Rightarrow> Some (Inl e)
                     | Some (Inr s') \<Rightarrow>
                         (case tr_status t of
                            None \<Rightarrow> Some (Inl (P4PProtocolError ''Parse error: libcurl failed to retrieve HTTP response code''))
                          | Some status \<Rightarrow> if status \<noteq> 200 then Some (Inl (HTTPError status)) else Some (Inr (s', h)))))))"

text \<open>The three requests of a client: what it writes, and the data with the meta information.\<close>

definition with_meta :: "('s \<times> headers) result option \<Rightarrow> ('s \<Rightarrow> 'a) \<Rightarrow> ('a \<times> u32 \<times> u32) result option" where
  "with_meta r f =
     (case r of
        None \<Rightarrow> None
      | Some x \<Rightarrow> Some (bindE x (\<lambda>(s, h). bindE (meta_assign h) (\<lambda>meta. Inr (f s, meta)))))"

definition get_pids :: "inet_service \<Rightarrow> transfer \<Rightarrow> ((string \<times> pid) list \<times> u32 \<times> u32) result option" where
  "get_pids serv t = with_meta (make_request consume_address_pids serv [] t) id"

definition get_pidmap :: "text_env \<Rightarrow> pid \<Rightarrow> inet_service \<Rightarrow> transfer \<Rightarrow> (pid_prefixes list \<times> u32 \<times> u32) result option" where
  "get_pidmap env p serv t = with_meta (make_request (consume_pidmap env) serv (ResponsePIDMapReader p) t) pm_itr"

definition fetch_pdistances :: "inet_service \<Rightarrow> transfer \<Rightarrow> (u32 pid_matrix \<times> u32 \<times> u32) result option" where
  "fetch_pdistances serv t = with_meta (make_request consume_pdistances serv [] t) id"

end
