(* ===== verification/Portal_Writer.thy ===== *)
theory Portal_Writer
  imports Server_View
begin

text \<open>
  \<open>portal/server/src/protocol/rest/rest_request_handlers_view.cpp\<close> with \<open>common-server/src/lib/rest_request_state.cpp\<close>
  and \<open>marked_stream.h\<close>: how the portal writes the PIDs of addresses, the PID map and the distances. The HTTP server
  asks for the next part of a reply with the size of its buffer; the writer fills the buffer up to the last item that
  fits and marks how far it came. Compression is not modelled.

  An iterator is the rest of the sequence from there. The text of an address comes from \<open>getnameinfo\<close>, which is an
  argument.
\<close>

type_synonym namer = "int \<Rightarrow> u8 list \<Rightarrow> string option"

abbreviation (input) tab :: string where "tab \<equiv> [CHR 0x09]"
abbreviation (input) crlf :: string where "crlf \<equiv> [CHR 0x0D, CHR 0x0A]"

section \<open>Filling a buffer\<close>

text \<open>
  The loop of a writer. \<open>step\<close> gives \<open>None\<close> at the end of the data, and otherwise the data after the next item and
  the item, empty where the code moves on without writing. An item that does not fit in the \<open>max\<close> bytes is left for
  the next call, which starts with a new \<open>ResponseStream\<close>.
\<close>

type_synonym 'd writer = "'d \<Rightarrow> ('d \<times> string) result option"

partial_function (option) write_loop :: "'d writer \<Rightarrow> nat \<Rightarrow> 'd \<Rightarrow> string \<Rightarrow> ('d \<times> string) result option" where
  [code]: "write_loop step mx data buf =
     (case step data of
        None \<Rightarrow> Some (Inr (data, buf))
      | Some (Inl e) \<Rightarrow> Some (Inl e)
      | Some (Inr (data', item)) \<Rightarrow>
          if length buf + length item \<le> mx then write_loop step mx data' (buf @ item) else Some (Inr (data, buf)))"

text \<open>The callback: \<open>-1\<close> (here no text) when there is nothing left, and otherwise what was written.\<close>

definition write_callback :: "'d writer \<Rightarrow> nat \<Rightarrow> 'd \<Rightarrow> ('d \<times> string option) result option" where
  "write_callback step mx data =
     (if step data = None then Some (Inr (data, None))
      else case write_loop step mx data [] of
             None \<Rightarrow> None
           | Some (Inl e) \<Rightarrow> Some (Inl e)
           | Some (Inr (data', t)) \<Rightarrow> Some (Inr (data', Some t)))"

record 'd content_reader =
  callback_data :: 'd
  callback_finished :: bool
  out_buffer :: string

definition ContentReaderState :: "'d \<Rightarrow> 'd content_reader" where
  "ContentReaderState data = \<lparr>callback_data = data, callback_finished = False, out_buffer = []\<rparr>"

definition process_normal :: "nat \<Rightarrow> 'd content_reader \<Rightarrow> 'd content_reader \<times> string option" where
  "process_normal mx c =
     (if out_buffer c = [] then (c, None)
      else (c\<lparr>out_buffer := drop mx (out_buffer c)\<rparr>, Some (take mx (out_buffer c))))"

definition content_process :: "'d writer \<Rightarrow> nat \<Rightarrow> 'd content_reader \<Rightarrow> ('d content_reader \<times> string option) result option" where
  "content_process step mx c =
     (if callback_finished c then Some (Inr (process_normal mx c))
      else case write_callback step mx (callback_data c) of
             None \<Rightarrow> None
           | Some (Inl e) \<Rightarrow> Some (Inl e)
           | Some (Inr (d, None)) \<Rightarrow> Some (Inr (process_normal mx (c\<lparr>callback_data := d, callback_finished := True\<rparr>)))
           | Some (Inr (d, Some t)) \<Rightarrow> Some (Inr (process_normal mx (c\<lparr>callback_data := d, out_buffer := out_buffer c @ t\<rparr>))))"

text \<open>
  The HTTP server calls until it gets \<open>-1\<close>, with a size of its own for each call. The flag says whether it came to
  the end within the given calls.
\<close>

fun serve :: "'d writer \<Rightarrow> nat list \<Rightarrow> 'd content_reader \<Rightarrow> (string list \<times> bool) result option" where
  "serve step [] c = Some (Inr ([], False))"
| "serve step (mx # ms) c =
     (case content_process step mx c of
        None \<Rightarrow> None
      | Some (Inl e) \<Rightarrow> Some (Inl e)
      | Some (Inr (c', None)) \<Rightarrow> Some (Inr ([], True))
      | Some (Inr (c', Some t)) \<Rightarrow>
          (case serve step ms c' of Some (Inr (ts, b)) \<Rightarrow> Some (Inr (t # ts, b)) | x \<Rightarrow> x))"

section \<open>The replies\<close>

subsection \<open>PIDs of addresses\<close>

definition GetPIDsWrite :: "namer \<Rightarrow> server_pidmap \<Rightarrow> ip_prefix list writer" where
  "GetPIDsWrite gni pm ips =
     (case ips of
        [] \<Rightarrow> None
      | ip # rest \<Rightarrow> Some (
          bindE (sp_lookup pm ip) (\<lambda>l.
          bindE (print_ip_prefix gni ip) (\<lambda>s.
            Inr (rest, s @ tab @ print_pid (case l of Some p \<Rightarrow> p | None \<Rightarrow> PID_DEFAULT) @ crlf)))))"

subsection \<open>The PID map\<close>

record pidmap_state =
  ps_pids :: "(pid \<times> ip_prefix list) list"
  ps_i :: nat
  ps_j :: nat
  ps_state :: nat

definition GetPIDMapState :: "(pid \<times> ip_prefix list) list \<Rightarrow> pidmap_state" where
  "GetPIDMapState pids = \<lparr>ps_pids = pids, ps_i = 0, ps_j = 0, ps_state = 0\<rparr>"

definition GetPIDMapWrite :: "namer \<Rightarrow> pidmap_state writer" where
  "GetPIDMapWrite gni d =
     (if length (ps_pids d) \<le> ps_i d then None
      else let (p, pfxs) = ps_pids d ! ps_i d in
        if ps_state d = 0 then Some (Inr (d\<lparr>ps_state := 1\<rparr>, print_pid p @ tab @ show_nat (length pfxs)))
        else if ps_state d = 1 then
          (if ps_j d < length pfxs
           then Some (bindE (print_ip_prefix gni (pfxs ! ps_j d)) (\<lambda>s. Inr (d\<lparr>ps_j := ps_j d + 1\<rparr>, tab @ s)))
           else Some (Inr (d\<lparr>ps_j := 0, ps_state := 2\<rparr>, [])))
        else Some (Inr (d\<lparr>ps_state := 0, ps_i := ps_i d + 1\<rparr>, crlf)))"

subsection \<open>The distances\<close>

text \<open>
  \<open>round_int\<close>: the conversion to \<open>unsigned int\<close> cuts the fraction off, and is undefined when the value is not in the
  range of the type. \<open>fl\<close> rounds the sum to a double.
\<close>

definition round_int :: "(double \<Rightarrow> cost) \<Rightarrow> cost \<Rightarrow> u32 result" where
  "round_int fl x =
     (case cost_add fl x (Num (1 / 2)) of
        Num y \<Rightarrow> if - 1 < y \<and> y < 2 ^ 32 then Inr (if y < 0 then 0 else word_of_int \<lfloor>y\<rfloor>) else Inl Undefined_Behaviour
      | _ \<Rightarrow> Inl Undefined_Behaviour)"

definition clip :: "'a::ord \<Rightarrow> 'a \<Rightarrow> 'a \<Rightarrow> 'a" where
  "clip x min_val max_val = (if x < min_val then min_val else if x > max_val then max_val else x)"

definition MIN_PDISTANCE :: u32 where "MIN_PDISTANCE = 0"
definition MAX_PDISTANCE :: u32 where "MAX_PDISTANCE = push_bit 16 2 - 1"

definition wire_cost :: "(double \<Rightarrow> cost) \<Rightarrow> view \<Rightarrow> pid \<Rightarrow> pid \<Rightarrow> u32 result" where
  "wire_cost fl v src dst = bindE (round_int fl (get_pdistance v src dst)) (\<lambda>c. Inr (clip c MIN_PDISTANCE MAX_PDISTANCE))"

type_synonym cost_request = "(pid, bool \<times> pid list) smap"

record costs_state =
  need_all :: bool
  cs_pids :: cost_request
  pids_cur :: cost_request
  entry_cur :: "pid list"
  cs_state :: nat

definition GetCostsState :: costs_state where
  "GetCostsState = \<lparr>need_all = False, cs_pids = [], pids_cur = [], entry_cur = [], cs_state = 0\<rparr>"

definition cost_item :: "(double \<Rightarrow> cost) \<Rightarrow> view \<Rightarrow> pid \<Rightarrow> bool \<Rightarrow> pid \<Rightarrow> string result" where
  "cost_item fl v src reverse dst =
     bindE (wire_cost fl v src dst) (\<lambda>c.
       let s = tab @ print_pid dst @ tab @ show_nat (unat c) in
       if reverse then bindE (wire_cost fl v dst src) (\<lambda>c'. Inr (s @ tab @ show_nat (unat c'))) else Inr s)"

definition GetCostsWrite :: "(double \<Rightarrow> cost) \<Rightarrow> view \<Rightarrow> costs_state writer" where
  "GetCostsWrite fl v d =
     (case pids_cur d of
        [] \<Rightarrow> None
      | (src, reverse, dsts) # rest \<Rightarrow>
          if dsts = [] then Some (Inr (d\<lparr>pids_cur := rest\<rparr>, []))
          else if cs_state d = 0 then
            Some (Inr (d\<lparr>entry_cur := dsts, cs_state := 1\<rparr>,
              print_pid src @ tab @ (if reverse then ''inc-reverse'' else ''no-reverse'') @ tab @ show_nat (length dsts)))
          else if cs_state d = 1 then
            (case entry_cur d of
               [] \<Rightarrow> Some (Inr (d\<lparr>cs_state := 2\<rparr>, []))
             | dst # ds \<Rightarrow> Some (bindE (cost_item fl v src reverse dst) (\<lambda>s. Inr (d\<lparr>entry_cur := ds\<rparr>, s))))
          else Some (Inr (d\<lparr>cs_state := 0, pids_cur := rest\<rparr>, crlf)))"

section \<open>The end of a request\<close>

text \<open>
  The part of the \<open>Finish\<close> functions for a client that is no administrator. A view that is locked gives no response,
  and the server calls again later; an unknown view is answered with 406. The headers are the lifetime and the
  version of the PID map.
\<close>

datatype 'd finish_result = Try_Later | Empty_Response nat | Callback_Response "(string \<times> string) list" 'd

abbreviation (input) MHD_HTTP_NOT_ACCEPTABLE :: nat where "MHD_HTTP_NOT_ACCEPTABLE \<equiv> 406"
abbreviation (input) MHD_HTTP_INTERNAL_SERVER_ERROR :: nat where "MHD_HTTP_INTERNAL_SERVER_ERROR \<equiv> 500"

definition reply_headers :: "u32 \<Rightarrow> u32 \<Rightarrow> (string \<times> string) list" where
  "reply_headers ttl seqno =
     [(''Cache-Control'', ''max-age='' @ show_nat (unat ttl)), (''X-P4P-PIDMap'', show_nat (unat seqno))]"

definition GetPIDsFinish :: "bool \<Rightarrow> view option \<Rightarrow> ip_prefix option \<Rightarrow> ip_prefix list \<Rightarrow> ip_prefix list finish_result" where
  "GetPIDsFinish locked view client ips =
     (if locked then Try_Later
      else case view of
             None \<Rightarrow> Empty_Response MHD_HTTP_NOT_ACCEPTABLE
           | Some v \<Rightarrow>
               let hdrs = reply_headers (pid_ttl v) (version (v_prefixes v)) in
               if ips = [] then
                 (case client of
                    None \<Rightarrow> Empty_Response MHD_HTTP_INTERNAL_SERVER_ERROR
                  | Some sender \<Rightarrow> Callback_Response hdrs [sender])
               else Callback_Response hdrs ips)"

text \<open>
  \<open>GetPIDMapFinish\<close> catches the type of the lock in place of the exception \<open>TryLockFailed\<close>, so that the exception
  leaves the function.
\<close>

definition GetPIDMapFinish :: "bool \<Rightarrow> view option \<Rightarrow> pid list \<Rightarrow> pidmap_state finish_result result" where
  "GetPIDMapFinish locked view req =
     (if locked then Inl (Runtime_Error ''TryLockFailed'')
      else case view of
             None \<Rightarrow> Inr (Empty_Response MHD_HTTP_NOT_ACCEPTABLE)
           | Some v \<Rightarrow>
               bindE (sp_enumerate (v_prefixes v) (map (\<lambda>p. (p, [])) req)) (\<lambda>pids.
                 Inr (Callback_Response (reply_headers (pid_ttl v) (version (v_prefixes v))) (GetPIDMapState pids))))"

definition sp_enumerate_pids :: "server_pidmap \<Rightarrow> pid list" where
  "sp_enumerate_pids m = enumerate_values (sp_tree m)"

definition fill_dsts :: "server_pidmap \<Rightarrow> pid list \<Rightarrow> pid \<times> bool \<times> pid list \<Rightarrow> pid \<times> bool \<times> pid list" where
  "fill_dsts m all_pids e =
     (case e of (src, reverse, dsts) \<Rightarrow>
        if \<not> sp_has_prefixes m src then (src, reverse, [])
        else if dsts = [] then (src, reverse, all_pids) else e)"

definition GetCostsFinish :: "bool \<Rightarrow> view option \<Rightarrow> costs_state \<Rightarrow> costs_state finish_result" where
  "GetCostsFinish locked view d =
     (if locked then Try_Later
      else case view of
             None \<Rightarrow> Empty_Response MHD_HTTP_NOT_ACCEPTABLE
           | Some v \<Rightarrow>
               let m = v_prefixes v;
                   need = need_all d \<or> cs_pids d = [];
                   all_pids = (if need then map fst (pid_set_of (sp_enumerate_pids m)) else []);
                   pids = (if cs_pids d = [] then map (\<lambda>p. (p, False, [])) all_pids else cs_pids d);
                   pids' = map (fill_dsts m all_pids) pids
               in Callback_Response (reply_headers (pdistance_ttl v) (version m))
                    (d\<lparr>need_all := need, cs_pids := pids', pids_cur := pids'\<rparr>))"

end
