(* ===== verification/Wire_RoundTrip.thy ===== *)
theory Wire_RoundTrip
  imports Wire_Client Portal_Writer
begin

text \<open>
  What the portal sends is what the client gets. The locale \<open>item_writer\<close> has the writers of replies: whatever the
  sizes of the buffers of the HTTP server, as long as every item fits, the reply is the text of all items. The
  readers of the client give the data back from that text, in whatever pieces it arrives.
\<close>

section \<open>Serving a reply\<close>

text \<open>Buffers that every item fits in, as many as it takes.\<close>

definition buffers_fit :: "string list \<Rightarrow> nat list \<Rightarrow> bool" where
  "buffers_fit items ms \<longleftrightarrow> (\<forall>it\<in>set items. \<forall>mx\<in>set ms. length it \<le> mx) \<and> length items < length ms"

locale item_writer =
  fixes step :: "'d writer" and items :: "'d \<Rightarrow> string list" and valid :: "'d \<Rightarrow> bool"
  assumes step_None: "valid d \<Longrightarrow> step d = None \<Longrightarrow> items d = []"
    and step_Some: "valid d \<Longrightarrow> step d \<noteq> None \<Longrightarrow> \<exists>d' it. step d = Some (Inr (d', it)) \<and> valid d' \<and> items d = it # items d'"
begin

lemma write_loop_items:
  assumes "valid d" and "length buf \<le> mx"
  shows "\<exists>d' its. write_loop step mx d buf = Some (Inr (d', buf @ concat its)) \<and> valid d' \<and> items d = its @ items d' \<and>
    length (buf @ concat its) \<le> mx \<and>
    (items d' = [] \<and> step d' = None \<or> (\<exists>it rest. items d' = it # rest \<and> mx < length (buf @ concat its) + length it))"
  using assms
proof (induction "items d" arbitrary: d buf)
  case Nil
  then have "step d = None" using step_Some [of d] by force
  with Nil show ?case by (subst write_loop.simps) (auto intro!: exI [of _ d] exI [of _ "[]"])
next
  case (Cons it rest)
  obtain d' where d': "step d = Some (Inr (d', it))" "valid d'" "items d' = rest"
    using step_Some [OF Cons(3)] step_None [OF Cons(3)] Cons(2) by fastforce
  show ?case
  proof (cases "length buf + length it \<le> mx")
    case True
    obtain d'' its where w: "write_loop step mx d' (buf @ it) = Some (Inr (d'', (buf @ it) @ concat its))" "valid d''"
      "items d' = its @ items d''" "length ((buf @ it) @ concat its) \<le> mx" and e: "items d'' = [] \<and> step d'' = None \<or>
         (\<exists>x rest. items d'' = x # rest \<and> mx < length ((buf @ it) @ concat its) + length x)"
      using Cons(1) [of d' "buf @ it"] d' True by auto
    show ?thesis
      using w e d' Cons(2) True
      by (intro exI [of _ d''] exI [of _ "it # its"]) (subst write_loop.simps, simp)
  next
    case False
    with d' Cons(2, 3, 4) show ?thesis
      by (intro exI [of _ d] exI [of _ "[]"]) (subst write_loop.simps, simp add: Cons(2) [symmetric])
  qed
qed

lemma serve_fits:
  assumes "valid d" and "buffers_fit (items d) ms"
  shows "\<exists>ts. serve step ms (ContentReaderState d) = Some (Inr (ts, True)) \<and> concat ts = concat (items d)"
  using assms
proof (induction ms arbitrary: d)
  case (Cons mx ms)
  show ?case
  proof (cases "step d = None")
    case True
    with step_None [OF Cons(2)] show ?thesis
      by (simp add: content_process_def write_callback_def ContentReaderState_def process_normal_def)
  next
    case False
    obtain d' its where w: "write_loop step mx d [] = Some (Inr (d', concat its))" and v: "valid d'"
      and i: "items d = its @ items d'" and len: "length (concat its) \<le> mx" and e: "items d' = [] \<or> (\<exists>it rest. items d' = it # rest \<and> mx < length (concat its) + length it)"
      using write_loop_items [OF Cons(2), of "[]" mx] by auto
    show ?thesis
    proof (cases "concat its = []")
      case True
      have "\<not> mx < length (concat its) + length it" if "items d' = it # rest" for it rest
        unfolding True using that Cons(3) i by (auto simp: buffers_fit_def not_less)
      with e have "items d' = []" by blast
      with True w False i show ?thesis
        by (simp add: content_process_def write_callback_def ContentReaderState_def process_normal_def)
    next
      case nonempty: False
      then have "its \<noteq> []" by auto
      then have "buffers_fit (items d') ms" using i Cons(3) by (cases its) (auto simp: buffers_fit_def)
      with Cons.IH [OF v] obtain ts where "serve step ms (ContentReaderState d') = Some (Inr (ts, True))"
        "concat ts = concat (items d')" by auto
      with w False nonempty len i show ?thesis
        by (simp add: content_process_def write_callback_def ContentReaderState_def process_normal_def del: concat_eq_Nil_conv)
    qed
  qed
qed (simp add: buffers_fit_def)

end

section \<open>The texts of the replies\<close>

definition text_of :: "'a + string \<Rightarrow> string" where
  "text_of r = (case r of Inr s \<Rightarrow> s | Inl _ \<Rightarrow> [])"

lemma text_of_Inr [simp]: "text_of (Inr s) = s"
  by (simp add: text_of_def)

definition printable :: "('a + 'b) \<Rightarrow> bool" where
  "printable r \<longleftrightarrow> (\<exists>s. r = Inr s)"

definition pidmap_row :: "namer \<Rightarrow> pid \<times> ip_prefix list \<Rightarrow> string list" where
  "pidmap_row gni r =
     (print_pid (fst r) @ tab @ show_nat (length (snd r))) # map (\<lambda>q. tab @ text_of (print_ip_prefix gni q)) (snd r) @ [[], crlf]"

definition pidmap_left :: "namer \<Rightarrow> nat \<Rightarrow> nat \<Rightarrow> pid \<times> ip_prefix list \<Rightarrow> string list" where
  "pidmap_left gni st j r =
     (if st = 0 then pidmap_row gni r
      else if st = 1 then map (\<lambda>q. tab @ text_of (print_ip_prefix gni q)) (drop j (snd r)) @ [[], crlf]
      else [crlf])"

definition pidmap_items :: "namer \<Rightarrow> pidmap_state \<Rightarrow> string list" where
  "pidmap_items gni d =
     (case drop (ps_i d) (ps_pids d) of
        [] \<Rightarrow> []
      | r # rs \<Rightarrow> pidmap_left gni (ps_state d) (ps_j d) r @ concat (map (pidmap_row gni) rs))"

definition pidmap_valid :: "namer \<Rightarrow> pidmap_state \<Rightarrow> bool" where
  "pidmap_valid gni d \<longleftrightarrow>
     (\<forall>r\<in>set (ps_pids d). \<forall>q\<in>set (snd r). printable (print_ip_prefix gni q)) \<and> (ps_state d \<noteq> 1 \<longrightarrow> ps_j d = 0)"

interpretation pidmap_writer: item_writer "GetPIDMapWrite gni" "pidmap_items gni" "pidmap_valid gni" for gni
proof
  fix d
  assume v: "pidmap_valid gni d"
  show "pidmap_items gni d = []" if "GetPIDMapWrite gni d = None"
    using that by (auto simp: GetPIDMapWrite_def pidmap_items_def Let_def split: if_splits prod.splits)
  assume n: "GetPIDMapWrite gni d \<noteq> None"
  then have i: "ps_i d < length (ps_pids d)" by (auto simp: GetPIDMapWrite_def split: if_splits)
  obtain p qs where r: "ps_pids d ! ps_i d = (p, qs)" by fastforce
  have dr: "drop (ps_i d) (ps_pids d) = (p, qs) # drop (Suc (ps_i d)) (ps_pids d)"
    using Cons_nth_drop_Suc [OF i] r by simp
  have pr: "\<exists>s. print_ip_prefix gni (qs ! j) = Inr s" if "j < length qs" for j
  proof -
    have "(p, qs) \<in> set (ps_pids d)" using i r by (metis nth_mem)
    moreover have "qs ! j \<in> set qs" using that by simp
    ultimately show ?thesis using v by (fastforce simp: pidmap_valid_def printable_def)
  qed
  consider "ps_state d = 0" | "ps_state d = 1" "ps_j d < length qs" | "ps_state d = 1" "length qs \<le> ps_j d"
    | "ps_state d \<noteq> 0" "ps_state d \<noteq> 1" by linarith
  then show "\<exists>d' it. GetPIDMapWrite gni d = Some (Inr (d', it)) \<and> pidmap_valid gni d' \<and> pidmap_items gni d = it # pidmap_items gni d'"
  proof cases
    case 1
    with i r dr v show ?thesis by (simp add: GetPIDMapWrite_def pidmap_items_def pidmap_left_def pidmap_row_def pidmap_valid_def)
  next
    case 2
    obtain s where "print_ip_prefix gni (qs ! ps_j d) = Inr s" using pr [OF 2(2)] ..
    with 2 i r dr v Cons_nth_drop_Suc [OF 2(2)] show ?thesis
      by (simp add: GetPIDMapWrite_def pidmap_items_def pidmap_left_def pidmap_valid_def Cons_nth_drop_Suc [symmetric])
  next
    case 3
    with i r dr v show ?thesis by (simp add: GetPIDMapWrite_def pidmap_items_def pidmap_left_def pidmap_valid_def)
  next
    case 4
    with i r dr v show ?thesis
      by (cases "drop (Suc (ps_i d)) (ps_pids d)") (simp_all add: GetPIDMapWrite_def pidmap_items_def pidmap_left_def pidmap_valid_def)
  qed
qed

definition costs_row :: "(double \<Rightarrow> cost) \<Rightarrow> view \<Rightarrow> pid \<times> bool \<times> pid list \<Rightarrow> string list" where
  "costs_row fl v e =
     (case e of (src, reverse, dsts) \<Rightarrow>
        if dsts = [] then [[]]
        else (print_pid src @ tab @ (if reverse then ''inc-reverse'' else ''no-reverse'') @ tab @ show_nat (length dsts)) #
          map (\<lambda>dst. text_of (cost_item fl v src reverse dst)) dsts @ [[], crlf])"

definition costs_left :: "(double \<Rightarrow> cost) \<Rightarrow> view \<Rightarrow> nat \<Rightarrow> pid list \<Rightarrow> pid \<times> bool \<times> pid list \<Rightarrow> string list" where
  "costs_left fl v st ds e =
     (case e of (src, reverse, dsts) \<Rightarrow>
        if st = 0 then costs_row fl v e
        else if st = 1 then map (\<lambda>dst. text_of (cost_item fl v src reverse dst)) ds @ [[], crlf]
        else [crlf])"

definition costs_items :: "(double \<Rightarrow> cost) \<Rightarrow> view \<Rightarrow> costs_state \<Rightarrow> string list" where
  "costs_items fl v d =
     (case pids_cur d of
        [] \<Rightarrow> []
      | e # es \<Rightarrow> costs_left fl v (cs_state d) (entry_cur d) e @ concat (map (costs_row fl v) es))"

definition costs_valid :: "(double \<Rightarrow> cost) \<Rightarrow> view \<Rightarrow> costs_state \<Rightarrow> bool" where
  "costs_valid fl v d \<longleftrightarrow>
     (\<forall>(src, reverse, dsts)\<in>set (pids_cur d). \<forall>dst\<in>set dsts. printable (cost_item fl v src reverse dst)) \<and>
     (case pids_cur d of [] \<Rightarrow> cs_state d = 0
      | (src, reverse, dsts) # _ \<Rightarrow> if dsts = [] then cs_state d = 0 else cs_state d = 1 \<longrightarrow> set (entry_cur d) \<subseteq> set dsts)"

interpretation costs_writer: item_writer "GetCostsWrite fl v" "costs_items fl v" "costs_valid fl v" for fl v
proof
  fix d
  assume v: "costs_valid fl v d"
  show "costs_items fl v d = []" if "GetCostsWrite fl v d = None"
    using that by (auto simp: GetCostsWrite_def costs_items_def split: list.splits if_splits)
  assume "GetCostsWrite fl v d \<noteq> None"
  then obtain src rv dsts es where c: "pids_cur d = (src, rv, dsts) # es"
    by (auto simp: GetCostsWrite_def split: list.splits)
  have rest: "costs_valid fl v (d\<lparr>cs_state := 0, pids_cur := es\<rparr>)"
    using v c by (auto simp: costs_valid_def split: list.splits)
  show "\<exists>d' it. GetCostsWrite fl v d = Some (Inr (d', it)) \<and> costs_valid fl v d' \<and> costs_items fl v d = it # costs_items fl v d'"
  proof (cases "dsts = []")
    case True
    with v c have z: "cs_state d = 0" by (simp add: costs_valid_def)
    with rest have "costs_valid fl v (d\<lparr>pids_cur := es\<rparr>)" by (auto simp: costs_valid_def split: list.splits)
    with True z c show ?thesis
      by (cases es) (auto simp: GetCostsWrite_def costs_items_def costs_left_def costs_row_def [of _ _ "(src, rv, [])"] split: prod.splits)
  next
    case ne: False
    consider "cs_state d = 0" | "cs_state d = 1" "entry_cur d = []" | ds dst where "cs_state d = 1" "entry_cur d = dst # ds"
      | "cs_state d \<noteq> 0" "cs_state d \<noteq> 1" by (cases "entry_cur d") auto
    then show ?thesis
    proof cases
      case 1
      with ne c v show ?thesis by (simp add: GetCostsWrite_def costs_items_def costs_left_def costs_row_def costs_valid_def)
    next
      case 2
      with ne c v show ?thesis by (simp add: GetCostsWrite_def costs_items_def costs_left_def costs_valid_def)
    next
      case 3
      then have "printable (cost_item fl v src rv dst)" using v c ne by (auto simp: costs_valid_def)
      then obtain s where "cost_item fl v src rv dst = Inr s" by (auto simp: printable_def)
      with 3 ne c v show ?thesis
        by (simp add: GetCostsWrite_def costs_items_def costs_left_def costs_valid_def)
    next
      case 4
      with ne c rest show ?thesis
        by (cases es) (auto simp: GetCostsWrite_def costs_items_def costs_left_def split: prod.splits)
    qed
  qed
qed

definition pids_line :: "namer \<Rightarrow> server_pidmap \<Rightarrow> ip_prefix \<Rightarrow> string" where
  "pids_line gni m ip = text_of (print_ip_prefix gni ip) @ tab @
     print_pid (case sp_lookup m ip of Inr (Some p) \<Rightarrow> p | _ \<Rightarrow> PID_DEFAULT) @ crlf"

definition pids_valid :: "namer \<Rightarrow> server_pidmap \<Rightarrow> ip_prefix list \<Rightarrow> bool" where
  "pids_valid gni m ips \<longleftrightarrow> (\<forall>ip\<in>set ips. printable (print_ip_prefix gni ip) \<and> printable (sp_lookup m ip))"

interpretation pids_writer: item_writer "GetPIDsWrite gni m" "map (pids_line gni m)" "pids_valid gni m" for gni m
proof
  fix ips
  show "map (pids_line gni m) ips = []" if "GetPIDsWrite gni m ips = None"
    using that by (auto simp: GetPIDsWrite_def split: list.splits)
  assume v: "pids_valid gni m ips" and n: "GetPIDsWrite gni m ips \<noteq> None"
  then obtain ip rest s l where "ips = ip # rest" "print_ip_prefix gni ip = Inr s" "sp_lookup m ip = Inr l"
    by (cases ips) (auto simp: GetPIDsWrite_def pids_valid_def printable_def)
  with v show "\<exists>d' it. GetPIDsWrite gni m ips = Some (Inr (d', it)) \<and> pids_valid gni m d' \<and>
      map (pids_line gni m) ips = it # map (pids_line gni m) d'"
    by (simp add: GetPIDsWrite_def pids_valid_def pids_line_def split: option.splits)
qed

section \<open>Reading the texts\<close>

definition is_token :: "string \<Rightarrow> bool" where
  "is_token t \<longleftrightarrow> t \<noteq> [] \<and> (\<forall>c\<in>set t. \<not> c_isspace c)"

definition spaces :: "string \<Rightarrow> bool" where
  "spaces w \<longleftrightarrow> (\<forall>c\<in>set w. c_isspace c)"

definition ends_token :: "string \<Rightarrow> bool" where
  "ends_token rest \<longleftrightarrow> rest \<noteq> [] \<and> c_isspace (hd rest)"

lemma space_chars [simp]: "c_isspace (CHR 0x09)" "c_isspace (CHR 0x0D)" "c_isspace (CHR 0x0A)"
  by (simp_all add: c_isspace_def)

lemma ends_token_simps [simp]: "ends_token (c # rest) \<longleftrightarrow> c_isspace c"
  by (simp add: ends_token_def)

lemma spaces_simps [simp]: "spaces []" "spaces (c # w) \<longleftrightarrow> c_isspace c \<and> spaces w"
  by (simp_all add: spaces_def)

lemma read_token_at:
  assumes "spaces w" and "is_token t" and "ends_token rest"
  shows "read_token f q (w @ t @ rest) = Inr (rest, Some t)"
proof -
  obtain c cs where t: "t = c # cs" using assms(2) by (cases t) (auto simp: is_token_def)
  have "dropWhile c_isspace (w @ t @ rest) = t @ rest"
    using assms(1, 2) t by (simp add: dropWhile_append spaces_def is_token_def)
  moreover have "dropWhile (\<lambda>c. \<not> c_isspace c) (t @ rest) = rest" "takeWhile (\<lambda>c. \<not> c_isspace c) (t @ rest) = t"
    using assms(2, 3) by (cases rest; auto simp: is_token_def ends_token_def dropWhile_append takeWhile_append)+
  ultimately show ?thesis using t assms(3) by (auto simp: read_token_def Let_def ends_token_def)
qed

definition pid_ok :: "pid \<Rightarrow> bool" where
  "pid_ok p \<longleftrightarrow> is_token (get_isp p)"

lemma token_show_nat: "is_token (show_nat n)"
  using show_nat_digits digit_not_space by (auto simp: is_token_def)

lemma token_print_pid: "pid_ok p \<Longrightarrow> is_token (print_pid p)"
  using token_show_nat [of "unat (get_num p)"] by (auto simp: pid_ok_def is_token_def print_pid_def c_isspace_def)

lemma read_token_pid_at:
  assumes "spaces w" and "pid_ok p" and "ends_token rest"
  shows "read_token_pid f q (w @ print_pid p @ rest) = Inr (rest, Some p)"
  using read_token_at [OF assms(1) token_print_pid [OF assms(2)] assms(3)] read_pid_print [of p "[]"] assms(2)
  by (simp add: read_token_pid_def p4p_token_cast_def parse_error_def pid_ok_def is_token_def)

lemma read_token_uint_at:
  assumes "spaces w" and "ends_token rest"
  shows "read_token_uint f q (w @ show_nat (unat n) @ rest) = Inr (rest, Some n)"
  using read_token_at [OF assms(1) token_show_nat assms(2)] extract_uint_show [of "[]" n]
  by (simp add: read_token_uint_def p4p_token_cast_def)

text \<open>A prefix whose text the resolver of the client reads back.\<close>

definition prefix_ok :: "namer \<Rightarrow> text_env \<Rightarrow> ip_prefix \<Rightarrow> bool" where
  "prefix_ok gni env q \<longleftrightarrow>
     (\<exists>s. print_ip_prefix gni q = Inr s \<and> is_token s \<and> read_ip_prefix (fst env) (snd env) s = Some (q, []))"

lemma read_token_prefix_at:
  assumes "spaces w" and "prefix_ok gni env q" and "ends_token rest"
  shows "read_token_prefix env f r (w @ text_of (print_ip_prefix gni q) @ rest) = Inr (rest, Some q)"
proof -
  obtain s where s: "print_ip_prefix gni q = Inr s" "is_token s" "read_ip_prefix (fst env) (snd env) s = Some (q, [])"
    using assms(2) by (auto simp: prefix_ok_def)
  then show ?thesis using read_token_at [OF assms(1) s(2) assms(3)]
    by (simp add: read_token_prefix_def p4p_token_cast_def parse_error_def)
qed

subsection \<open>The PID map\<close>

definition prefix_set :: "pid \<Rightarrow> ip_prefix set \<Rightarrow> pid_prefixes" where
  "prefix_set p A = \<lparr>pp_pid = p, pp_prefixes = map (\<lambda>q. (q, ())) (sorted_list_of_set A)\<rparr>"

lemma prefix_set_sel [simp]: "pp_pid (prefix_set p A) = p" "map fst (pp_prefixes (prefix_set p A)) = sorted_list_of_set A"
  by (simp_all add: prefix_set_def comp_def)

lemma prefix_set_empty: "PIDPrefixes p = prefix_set p {}"
  by (simp add: PIDPrefixes_def prefix_set_def)

lemma num_prefix_set [simp]: "num_prefixes (prefix_set p A) = card A"
  by (simp add: num_prefixes_def prefix_set_def)

lemma unit_pairs: "map (\<lambda>q. (q, ())) (map fst xs) = xs"
  by (induction xs) auto

lemma add_prefix_sorted:
  assumes "finite A"
  shows "add_prefix (prefix_set p A) q = prefix_set p (insert q A)"
proof -
  let ?m = "map (\<lambda>p. (p, ())) (sorted_list_of_set A)"
  have inv: "smap_inv ?m" by (simp add: smap_inv_def comp_def strict_sorted_iff)
  have keys: "fst ` set ?m = A" using assms by (auto simp: image_image)
  let ?n = "fst (smap_insert q () ?m)"
  have "smap_inv ?n" using inv by simp
  then have n: "sorted (map fst ?n)" "distinct (map fst ?n)" by (simp_all add: smap_inv_def strict_sorted_iff)
  have "set (map fst ?n) = insert q A"
    using keys smap_find_None_iff [of ?m q] assms by (cases "smap_find ?m q") (auto simp: smap_insert_def)
  with n have "map fst ?n = sorted_list_of_set (insert q A)"
    by (metis sorted_list_of_set.idem_if_sorted_distinct)
  moreover have "?n = map (\<lambda>q. (q, ())) (map fst ?n)" by (simp only: unit_pairs)
  ultimately show ?thesis by (simp only: add_prefix_def prefix_set_def pid_prefixes.simps)
qed

lemma read_prefixes:
  assumes "pid_state s = 2" and "cur_record s = prefix_set p A" and "finite A" and "unat (prefix_count s) = card A + length qs"
    and "distinct qs" and "A \<inter> set qs = {}" and "\<forall>q\<in>set qs. prefix_ok gni env q" and "ends_token rest"
  shows "consume_loop (pidmap_turn env f) s (concat (map (\<lambda>q. tab @ text_of (print_ip_prefix gni q)) qs) @ rest) =
    consume_loop (pidmap_turn env f)
      (s\<lparr>cur_record := prefix_set p (A \<union> set qs), pid_state := 0, pm_itr := pm_itr s @ [prefix_set p (A \<union> set qs)]\<rparr>) rest"
  using assms
proof (induction qs arbitrary: s A)
  case Nil
  then have "pidmap_turn env f s rest = (s\<lparr>pid_state := 0, pm_itr := pm_itr s @ [cur_record s]\<rparr>, Continue rest)"
    by (simp add: pidmap_turn_def)
  from pidmap.loop_Continue [OF this] Nil show ?case by (cases s) simp
next
  case (Cons q qs)
  let ?rest = "concat (map (\<lambda>q. tab @ text_of (print_ip_prefix gni q)) qs) @ rest"
  let ?s = "s\<lparr>cur_record := prefix_set p (insert q A)\<rparr>"
  have e: "ends_token ?rest" using Cons.prems by (cases qs) simp_all
  have "read_token_prefix env f True (tab @ text_of (print_ip_prefix gni q) @ ?rest) = Inr (?rest, Some q)"
    using read_token_prefix_at [OF _ _ e, of tab gni env q f True] Cons.prems by simp
  with Cons.prems have "pidmap_turn env f s (tab @ text_of (print_ip_prefix gni q) @ ?rest) = (?s, Continue ?rest)"
    by (simp add: pidmap_turn_def pm_read_def add_prefix_sorted)
  from pidmap.loop_Continue [OF this]
  have "consume_loop (pidmap_turn env f) s (concat (map (\<lambda>q. tab @ text_of (print_ip_prefix gni q)) (q # qs)) @ rest) =
      consume_loop (pidmap_turn env f) ?s ?rest" by simp
  also have "\<dots> = consume_loop (pidmap_turn env f)
      (?s\<lparr>cur_record := prefix_set p (insert q A \<union> set qs), pid_state := 0,
         pm_itr := pm_itr ?s @ [prefix_set p (insert q A \<union> set qs)]\<rparr>) rest"
    using Cons.prems by (intro Cons.IH) auto
  finally show ?case by simp
qed

definition row_ok :: "namer \<Rightarrow> text_env \<Rightarrow> pid \<times> ip_prefix list \<Rightarrow> bool" where
  "row_ok gni env r \<longleftrightarrow>
     pid_ok (fst r) \<and> distinct (snd r) \<and> length (snd r) \<le> UINT_MAX \<and> (\<forall>q\<in>set (snd r). prefix_ok gni env q)"

definition client_row :: "pid \<times> ip_prefix list \<Rightarrow> pid_prefixes" where
  "client_row r = prefix_set (fst r) (set (snd r))"

lemma read_pidmap_row:
  assumes "pid_state s = 0" and "row_ok gni env r" and "spaces w"
  shows "\<exists>s'. pid_state s' = 0 \<and> pm_itr s' = pm_itr s @ [client_row r] \<and>
    consume_loop (pidmap_turn env f) s (w @ concat (pidmap_row gni r) @ rest) = consume_loop (pidmap_turn env f) s' (crlf @ rest)"
proof -
  obtain p qs where r: "r = (p, qs)" by (cases r)
  let ?qs = "concat (map (\<lambda>q. tab @ text_of (print_ip_prefix gni q)) qs) @ crlf @ rest"
  let ?n = "of_nat (length qs) :: u32"
  have n: "unat ?n = length qs" using assms(2) r by (simp add: row_ok_def unsigned_of_nat take_bit_nat_eq_self)
  have e: "ends_token ?qs" by (cases qs) simp_all
  let ?s1 = "s\<lparr>cur_record := prefix_set p {}, pid_state := 1\<rparr>"
  let ?s2 = "?s1\<lparr>prefix_count := ?n, pid_state := 2\<rparr>"
  have "pidmap_turn env f s (w @ print_pid p @ tab @ show_nat (length qs) @ ?qs) = (?s1, Continue (tab @ show_nat (length qs) @ ?qs))"
    using read_token_pid_at [OF assms(3), of p "tab @ show_nat (length qs) @ ?qs"] assms(1, 2) r
    by (simp add: pidmap_turn_def pm_read_def row_ok_def prefix_set_empty)
  note t1 = pidmap.loop_Continue [OF this]
  have "pidmap_turn env f ?s1 (tab @ show_nat (length qs) @ ?qs) = (?s2, Continue ?qs)"
    using read_token_uint_at [OF _ e, of tab f True ?n] by (simp add: pidmap_turn_def pm_read_def n)
  note t2 = pidmap.loop_Continue [OF this]
  have "consume_loop (pidmap_turn env f) ?s2 ?qs = consume_loop (pidmap_turn env f)
      (?s2\<lparr>cur_record := prefix_set p (set qs), pid_state := 0, pm_itr := pm_itr ?s2 @ [prefix_set p (set qs)]\<rparr>) (crlf @ rest)"
    using read_prefixes [of ?s2 p "{}" qs gni env "crlf @ rest" f] n assms(2) r by (simp add: row_ok_def)
  with t1 t2 r show ?thesis
    by (intro exI conjI) (auto simp: pidmap_row_def client_row_def)
qed

lemma read_pidmap:
  assumes "pid_state s = 0" and "\<forall>r\<in>set rs. row_ok gni env r" and "spaces w"
  shows "\<exists>s' rest. consume_pidmap env True s (w @ concat (concat (map (pidmap_row gni) rs))) = Some (s', rest, None) \<and>
    pm_itr s' = pm_itr s @ map client_row rs"
  using assms
proof (induction rs arbitrary: s w)
  case Nil
  then have "dropWhile c_isspace w = []" by (simp add: spaces_def)
  then have "pidmap_turn env True s w = (s, Break w)"
    using Nil by (simp add: pidmap_turn_def pm_read_def read_token_pid_def read_token_def)
  from pidmap.loop_Break [OF this] show ?case by (simp add: consume_pidmap_def)
next
  case (Cons r rs)
  obtain s' where "pid_state s' = 0" "pm_itr s' = pm_itr s @ [client_row r]"
    "consume_pidmap env True s (w @ concat (concat (map (pidmap_row gni) (r # rs)))) =
     consume_pidmap env True s' (crlf @ concat (concat (map (pidmap_row gni) rs)))"
    using read_pidmap_row [of s gni env r w True "concat (concat (map (pidmap_row gni) rs))"] Cons.prems
    by (auto simp: consume_pidmap_def)
  with Cons.IH [of s' crlf] Cons.prems show ?case by auto
qed

subsection \<open>The distances\<close>

definition sent_cost :: "(double \<Rightarrow> cost) \<Rightarrow> view \<Rightarrow> pid \<Rightarrow> pid \<Rightarrow> u32" where
  "sent_cost fl v src dst = (case wire_cost fl v src dst of Inr c \<Rightarrow> c | Inl _ \<Rightarrow> 0)"

definition dst_entries :: "(double \<Rightarrow> cost) \<Rightarrow> view \<Rightarrow> pid \<Rightarrow> bool \<Rightarrow> pid \<Rightarrow> (pid \<times> pid \<times> u32) list" where
  "dst_entries fl v src reverse dst =
     (src, dst, sent_cost fl v src dst) # (if reverse then [(dst, src, sent_cost fl v dst src)] else [])"

definition row_entries :: "(double \<Rightarrow> cost) \<Rightarrow> view \<Rightarrow> pid \<times> bool \<times> pid list \<Rightarrow> (pid \<times> pid \<times> u32) list" where
  "row_entries fl v e = (case e of (src, reverse, dsts) \<Rightarrow> concat (map (dst_entries fl v src reverse) dsts))"

definition dst_ok :: "(double \<Rightarrow> cost) \<Rightarrow> view \<Rightarrow> pid \<Rightarrow> bool \<Rightarrow> pid \<Rightarrow> bool" where
  "dst_ok fl v src reverse dst \<longleftrightarrow>
     pid_ok dst \<and> printable (wire_cost fl v src dst) \<and> (reverse \<longrightarrow> printable (wire_cost fl v dst src))"

definition cost_row_ok :: "(double \<Rightarrow> cost) \<Rightarrow> view \<Rightarrow> pid \<times> bool \<times> pid list \<Rightarrow> bool" where
  "cost_row_ok fl v e \<longleftrightarrow>
     (case e of (src, reverse, dsts) \<Rightarrow>
        pid_ok src \<and> length dsts \<le> UINT_MAX \<and> (\<forall>dst\<in>set dsts. dst_ok fl v src reverse dst))"

lemma cost_item_text:
  assumes "dst_ok fl v src rv dst"
  shows "cost_item fl v src rv dst = Inr (tab @ print_pid dst @ tab @ show_nat (unat (sent_cost fl v src dst)) @
    (if rv then tab @ show_nat (unat (sent_cost fl v dst src)) else []))"
  using assms by (auto simp: cost_item_def dst_ok_def printable_def sent_cost_def Let_def)

lemma read_dst_entries:
  assumes "\<forall>dst\<in>set dsts. dst_ok fl v src rv dst" and "ends_token rest"
  shows "dst_writes f src rv (length dsts) pos (concat (map (\<lambda>dst. text_of (cost_item fl v src rv dst)) dsts) @ rest) =
    (concat (map (dst_entries fl v src rv) dsts), Continue rest)"
  using assms(1)
proof (induction dsts)
  case (Cons dst dsts)
  let ?more = "concat (map (\<lambda>dst. text_of (cost_item fl v src rv dst)) dsts) @ rest"
  have e: "ends_token ?more" using Cons.prems assms(2) by (cases dsts) (simp_all add: cost_item_text)
  let ?bwd = "if rv then tab @ show_nat (unat (sent_cost fl v dst src)) else []"
  have e': "ends_token (?bwd @ ?more)" using e by (cases rv) simp_all
  have "pid_ok dst" using Cons.prems by (simp add: dst_ok_def)
  then have 1: "read_token_pid f True (tab @ print_pid dst @ tab @ show_nat (unat (sent_cost fl v src dst)) @ ?bwd @ ?more) =
      Inr (tab @ show_nat (unat (sent_cost fl v src dst)) @ ?bwd @ ?more, Some dst)"
    using read_token_pid_at [of tab dst] by simp
  have 2: "read_token_uint f True (tab @ show_nat (unat (sent_cost fl v src dst)) @ ?bwd @ ?more) =
      Inr (?bwd @ ?more, Some (sent_cost fl v src dst))"
    using read_token_uint_at [OF _ e', of tab] by simp
  have 3: "read_token_uint f True (tab @ show_nat (unat (sent_cost fl v dst src)) @ ?more) = Inr (?more, Some (sent_cost fl v dst src))"
    using read_token_uint_at [OF _ e, of tab] by simp
  show ?case
    using 1 2 3 Cons by (cases rv) (simp_all add: cost_item_text dst_entries_def)
qed simp

lemma read_costs_row:
  assumes ok: "cost_row_ok fl v (src, rv, dsts)" and ne: "dsts \<noteq> []" and w: "spaces w"
  shows "pdistance_turn f m (w @ concat (costs_row fl v (src, rv, dsts)) @ rest) =
    (set_all (row_entries fl v (src, rv, dsts)) m, Continue (crlf @ rest))"
proof -
  let ?n = "of_nat (length dsts) :: u32"
  let ?flag = "if rv then ''inc-reverse'' else ''no-reverse''"
  have n: "unat ?n = length dsts" using ok by (simp add: cost_row_ok_def unsigned_of_nat take_bit_nat_eq_self)
  have d: "\<forall>dst\<in>set dsts. dst_ok fl v src rv dst" and p: "pid_ok src" using ok by (simp_all add: cost_row_ok_def)
  let ?dsts = "concat (map (\<lambda>dst. text_of (cost_item fl v src rv dst)) dsts) @ crlf @ rest"
  have e: "ends_token ?dsts" using d by (cases dsts) (simp_all add: cost_item_text)
  have t: "is_token ?flag" by (simp add: is_token_def c_isspace_def)
  have "read_row_head f (w @ print_pid src @ tab @ ?flag @ tab @ show_nat (length dsts) @ ?dsts) = Inr (?dsts, Some (src, rv, ?n))"
    using read_token_pid_at [OF w p, of "tab @ ?flag @ tab @ show_nat (length dsts) @ ?dsts" f False]
      read_token_at [OF _ t, of tab "tab @ show_nat (length dsts) @ ?dsts" f True] read_token_uint_at [OF _ e, of tab f True ?n] n
    by (cases rv) (simp_all add: read_row_head_def)
  moreover have "w @ concat (costs_row fl v (src, rv, dsts)) @ rest = w @ print_pid src @ tab @ ?flag @ tab @ show_nat (length dsts) @ ?dsts"
    using ne by (simp add: costs_row_def)
  ultimately show ?thesis
    using read_dst_entries [OF d, of "crlf @ rest" f] n by (simp add: pdistance_turn_row row_entries_def)
qed

lemma read_costs:
  assumes "\<forall>e\<in>set es. cost_row_ok fl v e" and "spaces w"
  shows "\<exists>rest. consume_pdistances True m (w @ concat (concat (map (costs_row fl v) es))) =
    Some (set_all (concat (map (row_entries fl v) es)) m, rest, None)"
  using assms
proof (induction es arbitrary: m w)
  case Nil
  then have "pdistance_turn True m w = (m, Break w)"
    by (simp add: pdistance_turn_def read_row_head_def read_token_pid_def read_token_def spaces_def)
  from pdistances.loop_Break [OF this] show ?case by (simp add: consume_pdistances_def)
next
  case (Cons e es)
  obtain src rv dsts where e: "e = (src, rv, dsts)" by (cases e)
  show ?case
  proof (cases "dsts = []")
    case True
    with Cons e show ?thesis by (simp add: costs_row_def row_entries_def)
  next
    case False
    have "consume_pdistances True m (w @ concat (concat (map (costs_row fl v) (e # es)))) =
        consume_pdistances True (set_all (row_entries fl v e) m) (crlf @ concat (concat (map (costs_row fl v) es)))"
      using pdistances.loop_Continue [OF read_costs_row [of fl v src rv dsts w True m "concat (concat (map (costs_row fl v) es))"]] Cons.prems False e
      by (simp add: consume_pdistances_def)
    with Cons.IH [of crlf "set_all (row_entries fl v e) m"] Cons.prems show ?thesis by simp
  qed
qed

lemma set_all_value:
  assumes "matrix_inv m" and "\<forall>(i, j, c)\<in>set ws. c = g i j"
  shows "get_value (set_all ws m) i j =
    (if (i, j) \<in> (\<lambda>(i, j, c). (i, j)) ` set ws then Inr (g i j)
     else if \<not> has_row m i \<and> i \<in> fst ` set ws then Inl (Range_Error ''invalid destination PID'') else get_value m i j)"
  using assms
proof (induction ws arbitrary: m)
  case (Cons w ws)
  obtain k l c where w: "w = (k, l, c)" by (cases w)
  have r: "has_row (set_entry m k l c) i \<longleftrightarrow> i = k \<or> has_row m i"
    using Cons.prems(1) by (auto simp: has_row_def set_entry_mrow matrix_inv_def)
  show ?case
    using Cons.IH [OF matrix_inv_set_entry [OF Cons.prems(1)], of k l c] Cons.prems matrix_get_set [OF Cons.prems(1), of k l c i j] w r
    by (auto simp: has_row_def get_value_eq)
qed simp

subsection \<open>The PIDs of addresses\<close>

lemma read_pids_line:
  assumes "is_token (text_of (print_ip_prefix gni ip))" and "pid_ok p" and "spaces w"
  shows "record_turn (read_address_pid f) itr (w @ (text_of (print_ip_prefix gni ip) @ tab @ print_pid p @ crlf) @ rest) =
    (itr @ [(text_of (print_ip_prefix gni ip), p)], Continue (crlf @ rest))"
proof -
  let ?s = "text_of (print_ip_prefix gni ip)"
  have "read_token f False (w @ ?s @ tab @ print_pid p @ crlf @ rest) = Inr (tab @ print_pid p @ crlf @ rest, Some ?s)"
    using assms by (intro read_token_at) simp_all
  moreover have "read_token_pid f True (tab @ print_pid p @ crlf @ rest) = Inr (crlf @ rest, Some p)"
    using read_token_pid_at [of tab p "crlf @ rest"] assms(2) by simp
  ultimately show ?thesis by (simp add: record_turn_def read_address_pid_def)
qed

definition found_pid :: "server_pidmap \<Rightarrow> ip_prefix \<Rightarrow> pid" where
  "found_pid m ip = (case sp_lookup m ip of Inr (Some p) \<Rightarrow> p | _ \<Rightarrow> PID_DEFAULT)"

lemma read_pids_lines:
  assumes "\<forall>ip\<in>set ips. is_token (text_of (print_ip_prefix gni ip)) \<and> pid_ok (found_pid m ip)" and "spaces w"
  shows "\<exists>rest. consume_address_pids True itr (w @ concat (map (pids_line gni m) ips)) =
    Some (itr @ map (\<lambda>ip. (text_of (print_ip_prefix gni ip), found_pid m ip)) ips, rest, None)"
  using assms
proof (induction ips arbitrary: itr w)
  case Nil
  then have "record_turn (read_address_pid True) itr w = (itr, Break w)"
    by (simp add: record_turn_def read_address_pid_def read_token_def spaces_def)
  from address_pids.loop_Break [OF this] show ?case by (simp add: consume_address_pids_def)
next
  case (Cons ip ips)
  have "consume_address_pids True itr (w @ concat (map (pids_line gni m) (ip # ips))) =
      consume_address_pids True (itr @ [(text_of (print_ip_prefix gni ip), found_pid m ip)]) (crlf @ concat (map (pids_line gni m) ips))"
    using address_pids.loop_Continue [OF read_pids_line [of gni ip "found_pid m ip" w True itr "concat (map (pids_line gni m) ips)"]] Cons.prems
    by (simp add: consume_address_pids_def pids_line_def found_pid_def)
  with Cons.IH [of crlf "itr @ [(text_of (print_ip_prefix gni ip), found_pid m ip)]"] Cons.prems show ?case by simp
qed

section \<open>The headers\<close>

lemma trim_mid:
  assumes "spaces w" and "spaces w'" and "t \<noteq> []" and "\<not> c_isspace (hd t)" and "\<not> c_isspace (last t)"
  shows "trim (w @ t @ w') = t"
proof -
  have "dropWhile c_isspace (w @ t @ w') = t @ w'" using assms(1, 3, 4) by (cases t) (auto simp: spaces_def dropWhile_append)
  moreover have "dropWhile c_isspace (rev w' @ rev t) = rev t"
    using assms(2, 3, 5) by (cases t rule: rev_cases) (auto simp: spaces_def dropWhile_append)
  ultimately show ?thesis by (simp add: trim_def)
qed

definition header_line :: "string \<times> string \<Rightarrow> string" where
  "header_line h = fst h @ '': '' @ snd h @ crlf"

lemma header_read_line:
  assumes n: "is_token n" "CHR '':'' \<notin> set n" "take 5 n \<noteq> ''HTTP/''" "5 \<le> length n" and v: "is_token v"
  shows "header_read h (header_line (n, v)) = Some (add_header h n v)"
proof -
  let ?l = "n @ '': '' @ v"
  have tok: "t \<noteq> [] \<and> \<not> c_isspace (hd t) \<and> \<not> c_isspace (last t)" if "is_token t" for t
    using that by (auto simp: is_token_def)
  have 1: "trim (header_line (n, v)) = ?l"
    using trim_mid [of "[]" crlf ?l] tok [OF n(1)] tok [OF v] by (simp add: header_line_def)
  have 2: "takeWhile (\<lambda>c. c \<noteq> CHR '':'') ?l = n" "dropWhile (\<lambda>c. c \<noteq> CHR '':'') ?l = '': '' @ v"
    using n(2) by (auto simp: takeWhile_append dropWhile_append)
  have "trim n = n" using trim_mid [of "[]" "[]" n] tok [OF n(1)] by simp
  moreover have "trim ('' '' @ v) = v" using trim_mid [of "'' ''" "[]" v] tok [OF v] by (simp add: c_isspace_def)
  moreover have "take 5 ?l = take 5 n" using n(4) by simp
  ultimately show ?thesis using 1 2 n(3) by (simp add: header_read_def)
qed

text \<open>The header part of a reply: the status line, the headers and an empty line.\<close>

definition http_head :: "(string \<times> string) list \<Rightarrow> string list" where
  "http_head hdrs = (''HTTP/1.1 200 OK'' @ crlf) # map header_line hdrs @ [crlf]"

lemma header_read_status: "header_read h (''HTTP/1.1 200 OK'' @ crlf) = Some h"
  using trim_mid [of "[]" crlf "''HTTP/1.1 200 OK''"] by (simp add: header_read_def c_isspace_def)

lemma header_read_empty: "header_read h crlf = Some h"
  by (simp add: header_read_def trim_def)

lemma reply_header_names:
  "is_token ''Cache-Control''" "CHR '':'' \<notin> set ''Cache-Control''" "take 5 ''Cache-Control'' \<noteq> ''HTTP/''" "5 \<le> length ''Cache-Control''"
  "is_token ''X-P4P-PIDMap''" "CHR '':'' \<notin> set ''X-P4P-PIDMap''" "take 5 ''X-P4P-PIDMap'' \<noteq> ''HTTP/''" "5 \<le> length ''X-P4P-PIDMap''"
  by (simp_all add: is_token_def c_isspace_def)

lemma read_reply_headers:
  "\<exists>h. header_read_all [] (http_head (reply_headers ttl seqno)) = Some h \<and> meta_assign h = Inr (ttl, seqno)"
proof -
  let ?cc = "''max-age='' @ show_nat (unat ttl)" and ?sn = "show_nat (unat seqno)"
  have tok: "is_token ?cc" "is_token ?sn" using token_show_nat [of "unat ttl"] token_show_nat by (auto simp: is_token_def c_isspace_def)
  let ?h1 = "add_header [] ''Cache-Control'' ?cc"
  let ?h = "add_header ?h1 ''X-P4P-PIDMap'' ?sn"
  have r: "header_read_all [] (http_head (reply_headers ttl seqno)) = Some ?h"
    using header_read_line [OF reply_header_names(1-4) tok(1), of "[]"] header_read_line [OF reply_header_names(5-8) tok(2), of ?h1]
      header_read_status [of "[]"] header_read_empty [of ?h]
    by (simp add: http_head_def reply_headers_def)
  have inv: "smap_inv ([] :: headers)" "smap_inv ?h1" by (simp_all add: add_header_def)
  have "get_header ?h ''Cache-Control'' = ?cc" "get_header ?h ''X-P4P-PIDMap'' = ?sn"
    using inv by (simp_all add: get_header_def add_header_def smap_find_insert)
  moreover have "extract_cache_maxage ?cc = Inr ttl"
    using extract_uint_show [of "[]" ttl] by (simp add: extract_cache_maxage_def p4p_token_cast_def)
  moreover have "p4p_token_cast extract_uint ?sn = Inr seqno"
    using extract_uint_show [of "[]" seqno] by (simp add: p4p_token_cast_def)
  ultimately show ?thesis using r by (auto simp: meta_assign_def)
qed

section \<open>From the portal to the client\<close>

text \<open>A reply that arrives: the parts the portal wrote, cut into pieces in some way.\<close>

definition arrives :: "(string \<times> string) list \<Rightarrow> string list \<Rightarrow> transfer \<Rightarrow> bool" where
  "arrives hdrs ts t \<longleftrightarrow>
     tr_headers t = http_head hdrs \<and> concat (tr_pieces t) = concat ts \<and> tr_failed t = None \<and> tr_status t = Some 200"

context chunked_reader
begin

lemma make_request_ok:
  assumes "inv s" and "arrives (reply_headers ttl seqno) ts t" and "consume True s (concat ts) = Some (s', r, None)"
  shows "with_meta (make_request consume serv s t) g = Some (Inr (g s', ttl, seqno))"
proof -
  obtain h where h: "header_read_all [] (tr_headers t) = Some h" "meta_assign h = Inr (ttl, seqno)"
    using read_reply_headers assms(2) by (fastforce simp: arrives_def)
  have "read_response consume s (tr_pieces t) = Some (Inr s')"
    using read_pieces [OF assms(1)] assms(2, 3) by (simp add: arrives_def)
  then show ?thesis
    using h assms(2) by (auto simp: with_meta_def make_request_def read_response_def arrives_def split: option.splits sum.splits)
qed

end

end
