(* ===== verification/Portal_Properties.thy ===== *)
theory Portal_Properties
  imports Wire_RoundTrip
begin

text \<open>
  The properties of the exchange between portal and client: replies are read in the same way however they are cut,
  the PID map and the distances arrive as the portal has them, and what happens with a reply that is not as expected.
\<close>

section \<open>Pieces\<close>

lemma consume_as_loops:
  "consume_tokens = (\<lambda>f. consume_loop (token_turn f))"
  "consume_pids = (\<lambda>f. consume_loop (record_turn (read_pid_record f)))"
  "consume_address_pids = (\<lambda>f. consume_loop (record_turn (read_address_pid f)))"
  "consume_net_nodes = (\<lambda>f. consume_loop (record_turn (read_net_node f)))"
  "consume_named_net_links = (\<lambda>f. consume_loop (record_turn (read_named_net_link f)))"
  "consume_named_pids = (\<lambda>f. consume_loop (record_turn (read_named_pid f)))"
  "consume_named_pid_links = (\<lambda>f. consume_loop (record_turn (read_named_pid_link f)))"
  "consume_pidmap env = (\<lambda>f. consume_loop (pidmap_turn env f))"
  "consume_pdistances = (\<lambda>f. consume_loop (pdistance_turn f))"
  by (auto simp: fun_eq_iff consume_tokens_def consume_pids_def consume_address_pids_def consume_net_nodes_def
      consume_named_net_links_def consume_named_pids_def consume_named_pid_links_def consume_pidmap_def consume_pdistances_def)

lemma matrix_inv_empty [simp]: "matrix_inv []"
  by (simp add: matrix_inv_def)

text \<open>
  Property C5. However libcurl cuts the reply into pieces, each reader of the client returns, and with the result or
  the error of one look at the whole reply. In particular a row of distances that arrives in two pieces, and is read
  and entered twice, has no effect on the result.
\<close>
theorem readers_ignore_pieces:
  "read_response consume_tokens [] bs = outcome (consume_tokens True [] (concat bs)) \<and>
   read_response consume_single_token [] bs = outcome (consume_single_token True [] (concat bs)) \<and>
   read_response consume_pids [] bs = outcome (consume_pids True [] (concat bs)) \<and>
   read_response consume_address_pids [] bs = outcome (consume_address_pids True [] (concat bs)) \<and>
   read_response consume_net_nodes [] bs = outcome (consume_net_nodes True [] (concat bs)) \<and>
   read_response consume_named_net_links [] bs = outcome (consume_named_net_links True [] (concat bs)) \<and>
   read_response consume_named_pids [] bs = outcome (consume_named_pids True [] (concat bs)) \<and>
   read_response consume_named_pid_links [] bs = outcome (consume_named_pid_links True [] (concat bs)) \<and>
   read_response (consume_pidmap env) (ResponsePIDMapReader p) bs = outcome (consume_pidmap env True (ResponsePIDMapReader p) (concat bs)) \<and>
   read_response consume_pdistances [] bs = outcome (consume_pdistances True [] (concat bs)) \<and>
   (\<exists>r. read_response (consume_pidmap env) (ResponsePIDMapReader p) bs = Some r) \<and> (\<exists>r. read_response consume_pdistances [] bs = Some r)"
  unfolding consume_as_loops
  by (intro conjI tokens.chunks.read_pieces single_token.read_pieces pids.chunks.read_pieces address_pids.chunks.read_pieces
      net_nodes.chunks.read_pieces named_net_links.chunks.read_pieces named_pids.chunks.read_pieces
      named_pid_links.chunks.read_pieces pidmap.chunks.read_pieces pdistances.chunks.read_pieces
      pidmap.chunks.read_returns pdistances.chunks.read_returns) simp_all

section \<open>The PID map\<close>

lemma prefixes_count:
  assumes "trie_inv fam t" and "get_prefixes t v = Inr rs"
  shows "length rs \<le> UINT_MAX"
proof -
  let ?ns = "preorder_nodes (head (tree t))"
  have "length ?ns = size (tents t)" by (simp add: mset_preorder [symmetric])
  also have "\<dots> \<le> UINT_MAX" using trie_invD(5) [OF assms(1)] by (simp add: cache_ok_def vals_def)
  finally have n: "length ?ns \<le> UINT_MAX" .
  have "rs = val_prefixes v ?ns"
    using assms(2) trie_entry_nodes(1) [OF assms(1)] get_prefixes_loop_spec [OF trie_invD(1) [OF assms(1)] trie_entry_nodes(2) [OF assms(1)], of v]
    by (simp add: get_prefixes_def)
  then have "length rs \<le> length ?ns" by (simp add: val_prefixes_def)
  with n show ?thesis by simp
qed

lemma prefix_ok_resolves:
  assumes "wf_ip_prefix q" and "is_ip_family (get_family q)" and "resolves gni gai q"
  shows "prefix_ok gni (gai, replicate 16 0) q"
  using print_read_ip_prefix [OF assms(1) _ assms(3) refl, of "[]"] assms(2)
  by (auto simp: prefix_ok_def is_token_def is_ip_family_def)

text \<open>The prefixes of a PID in a PID map of one address family.\<close>

definition prefixes_of :: "int \<Rightarrow> server_pidmap \<Rightarrow> pid \<Rightarrow> ip_prefix set" where
  "prefixes_of fam m p = {q. wf_ip_prefix q \<and> get_family q = fam \<and> trie_map (sp_tree m) (net_bits q) = Some p}"

lemma enumerate_rows:
  assumes inv: "trie_inv fam (sp_tree m)" and pids: "\<forall>p\<in>ran (trie_map (sp_tree m)). pid_ok p"
    and res: "\<forall>p q. q \<in> prefixes_of fam m p \<longrightarrow> resolves gni gai q"
  shows "\<exists>rows. sp_enumerate m [] = Inr rows \<and> (\<forall>r\<in>set rows. row_ok gni (gai, replicate 16 0) r) \<and>
    map fst rows = sp_enumerate_pids m \<and> (\<forall>r\<in>set rows. set (snd r) = prefixes_of fam m (fst r))"
proof -
  obtain f where f: "\<forall>p. get_prefixes (sp_tree m) p = Inr (f p)"
    "trie_enumerate (sp_tree m) [] = Inr (map (\<lambda>(v, ps). (v, ps @ f v)) (map (\<lambda>v. (v, [])) (enumerate_values (sp_tree m))))"
    using trie_enumerate_spec [OF inv, of "[]"] by auto
  have p: "distinct (f p) \<and> set (f p) = prefixes_of fam m p \<and> length (f p) \<le> UINT_MAX" for p
    using get_prefixes_spec [OF inv, of p] f(1) prefixes_count [OF inv, of p] by (auto simp: prefixes_of_def)
  have "prefix_ok gni (gai, replicate 16 0) q" if "q \<in> prefixes_of fam m p" for p q
    using that res trie_invD(1) [OF inv] by (intro prefix_ok_resolves) (auto simp: prefixes_of_def)
  with p have "row_ok gni (gai, replicate 16 0) (p, f p)" if "p \<in> ran (trie_map (sp_tree m))" for p
    using that pids by (auto simp: row_ok_def)
  with f(2) p cache_keys(2) [OF inv] show ?thesis
    by (intro exI [of _ "map (\<lambda>p. (p, f p)) (sp_enumerate_pids m)"])
      (auto simp: sp_enumerate_def sp_enumerate_pids_def comp_def)
qed

text \<open>The view the witnesses use: the prefix 10.0.0.0/8 in one PID, at distance 3 from itself.\<close>

definition ex_pid :: pid where "ex_pid = PID ''isp'' 1 False"

definition ex_namer :: namer where "ex_namer f b = Some ''10.0.0.0''"
definition ex_resolver :: "string \<Rightarrow> (int \<times> u8 list) option" where "ex_resolver s = Some (AF_INET, [10, 0, 0, 0])"

definition ex_portal_view :: "pid patricia_trie \<Rightarrow> view" where
  "ex_portal_view t = view_props.extend (new_view_props 0 ''v'')
     \<lparr>v_aggregation = PIDAggregation 0, v_prefixes = dist_object.extend (DistributedObject 5) \<lparr>sp_tree = t\<rparr>,
      v_routing = PIDRouting 0 0 (Num 1), v_link_pdistances = PIDMatrixBase 0,
      v_intra_pdistances = (PIDMatrixBase 0)\<lparr>mx_pids := [ex_pid], mx_rows := [[Num 3]]\<rparr>, v_inter_pdistances = PIDMatrixBase 0\<rparr>"

lemma ex_portal_view_fields [simp]:
  "sp_tree (v_prefixes (ex_portal_view t)) = t" "v_intra_pdistances (ex_portal_view t) = (PIDMatrixBase 0)\<lparr>mx_pids := [ex_pid], mx_rows := [[Num 3]]\<rparr>"
  by (simp_all add: ex_portal_view_def view_props.defs dist_object.defs)

lemma ex_pid_trie:
  obtains t where "trie_inv AF_INET t" "trie_map t = [net_bits ex_net8 \<mapsto> ex_pid]"
proof -
  obtain t0 :: "pid patricia_trie" where t0: "trie_inv AF_INET t0" "trie_map t0 = Map.empty"
    using PatriciaTrie_spec [OF is_ip_family_v4(1)] by blast
  from trie_add_spec [OF t0(1) ex_prefix_shape(1) ex_prefix_family(1), of ex_pid] t0(2) show thesis using that by auto
qed

lemma ex_prefixes:
  assumes "trie_map (sp_tree m) = [net_bits ex_net8 \<mapsto> ex_pid]"
  shows "prefixes_of AF_INET m p = (if p = ex_pid then {ex_net8} else {})"
proof -
  have "q = ex_net8" if "wf_ip_prefix q" "get_family q = AF_INET" "net_bits q = net_bits ex_net8" for q
    using that length_net_bits [of q] length_net_bits [of ex_net8] by (intro wf_ip_prefix_eqI) auto
  then show ?thesis using assms by (auto simp: prefixes_of_def split: if_splits)
qed

lemma ex_resolves: "resolves ex_namer ex_resolver ex_net8"
  by (simp add: resolves_def ex_namer_def ex_resolver_def ex_net8_def get_addr_size_def c_isspace_def numeral_3_eq_3)

text \<open>What the client should get.\<close>

definition same_pidmap :: "int \<Rightarrow> server_pidmap \<Rightarrow> pid_prefixes list \<Rightarrow> bool" where
  "same_pidmap fam m M \<longleftrightarrow>
     distinct (map pp_pid M) \<and> pp_pid ` set M = ran (trie_map (sp_tree m)) \<and>
     (\<forall>r\<in>set M. map fst (pp_prefixes r) = sorted_list_of_set (prefixes_of fam m (pp_pid r)))"

lemma buffers_exist:
  obtains ms where "buffers_fit items ms"
proof
  show "buffers_fit items (replicate (length items + 1) (sum_list (map length items)))"
    by (auto simp: buffers_fit_def intro: member_le_sum_list)
qed

lemma arrives_exists:
  obtains t where "arrives hdrs ts t"
proof
  show "arrives hdrs ts \<lparr>tr_headers = http_head hdrs, tr_pieces = ts, tr_failed = None, tr_status = Some 200\<rparr>"
    by (simp add: arrives_def)
qed

text \<open>
  A client that asks for the whole PID map gets every PID of the map of the view with all its prefixes,
  and the lifetime and the version the portal has. The portal can write the reply in buffers of any sizes as long as
  every item fits, and the reply can arrive in any pieces. The resolver of the client has to read back the addresses
  that the portal prints, the map has one address family, and the names of the PIDs are tokens.
\<close>
lemma pidmap_delivered:
  assumes inv: "trie_inv fam (sp_tree (v_prefixes v))" and pids: "\<forall>p\<in>ran (trie_map (sp_tree (v_prefixes v))). pid_ok p"
    and res: "\<forall>p q. q \<in> prefixes_of fam (v_prefixes v) p \<longrightarrow> resolves gni gai q"
  shows "\<exists>hdrs d. GetPIDMapFinish False (Some v) [] = Inr (Callback_Response hdrs d) \<and>
    (\<forall>ms. buffers_fit (pidmap_items gni d) ms \<longrightarrow>
      (\<exists>ts. serve (GetPIDMapWrite gni) ms (ContentReaderState d) = Some (Inr (ts, True)) \<and>
        (\<forall>t. arrives hdrs ts t \<longrightarrow>
          (\<exists>M. get_pidmap (gai, replicate 16 0) p0 serv t = Some (Inr (M, pid_ttl v, version (v_prefixes v))) \<and>
            same_pidmap fam (v_prefixes v) M))))"
proof -
  let ?m = "v_prefixes v" and ?env = "(gai, replicate 16 (0 :: u8))"
  obtain rows where rows: "sp_enumerate ?m [] = Inr rows" "\<forall>r\<in>set rows. row_ok gni ?env r" "map fst rows = sp_enumerate_pids ?m"
    "\<forall>r\<in>set rows. set (snd r) = prefixes_of fam ?m (fst r)"
    using enumerate_rows [OF inv pids res] by blast
  let ?d = "GetPIDMapState rows"
  have items: "pidmap_items gni ?d = concat (map (pidmap_row gni) rows)"
    by (cases rows) (simp_all add: pidmap_items_def GetPIDMapState_def pidmap_left_def)
  have valid: "pidmap_valid gni ?d"
    using rows(2) by (fastforce simp: pidmap_valid_def GetPIDMapState_def row_ok_def prefix_ok_def printable_def)
  have ks: "map pp_pid (map client_row rows) = sp_enumerate_pids ?m" using rows(3) by (simp add: comp_def client_row_def)
  have keys: "distinct (map pp_pid (map client_row rows))" "set (map pp_pid (map client_row rows)) = ran (trie_map (sp_tree ?m))"
    using cache_keys [OF inv] unfolding ks sp_enumerate_pids_def by (simp_all add: enumerate_values_def)
  have content: "same_pidmap fam ?m (map client_row rows)"
  proof -
    have "\<forall>r\<in>set (map client_row rows). map fst (pp_prefixes r) = sorted_list_of_set (prefixes_of fam ?m (pp_pid r))"
      using rows(4) by (simp add: client_row_def)
    with keys show ?thesis unfolding same_pidmap_def list.set_map [of pp_pid] by blast
  qed
  have got: "get_pidmap ?env p0 serv t = Some (Inr (map client_row rows, pid_ttl v, version ?m))"
    if arr: "arrives (reply_headers (pid_ttl v) (version ?m)) ts t" and ts: "concat ts = concat (pidmap_items gni ?d)" for ts t
  proof -
    obtain s' rest where "consume_pidmap ?env True (ResponsePIDMapReader p0) (concat ts) = Some (s', rest, None)" "pm_itr s' = map client_row rows"
      using read_pidmap [of "ResponsePIDMapReader p0" rows gni ?env "[]"] rows(2) ts
      by (auto simp: ResponsePIDMapReader_def items)
    with pidmap.chunks.make_request_ok [OF _ arr, of ?env "ResponsePIDMapReader p0" s' rest serv pm_itr] show ?thesis
      unfolding get_pidmap_def by (simp add: consume_as_loops)
  qed
  have "GetPIDMapFinish False (Some v) [] = Inr (Callback_Response (reply_headers (pid_ttl v) (version ?m)) ?d)"
    using rows(1) by (simp add: GetPIDMapFinish_def)
  with pidmap_writer.serve_fits [OF valid] got content show ?thesis by metis
qed

section \<open>The distances\<close>

text \<open>The pairs of PIDs that a request asks for.\<close>

definition asked :: "cost_request \<Rightarrow> pid \<Rightarrow> pid \<Rightarrow> bool" where
  "asked es i j \<longleftrightarrow> (\<exists>(src, reverse, dsts)\<in>set es. src = i \<and> j \<in> set dsts \<or> reverse \<and> src = j \<and> i \<in> set dsts)"

lemma entries_asked: "(i, j) \<in> (\<lambda>(i, j, c). (i, j)) ` set (concat (map (row_entries fl v) es)) \<longleftrightarrow> asked es i j"
proof -
  have row: "(i, j) \<in> (\<lambda>(i, j, c). (i, j)) ` set (row_entries fl v (src, rv, dsts)) \<longleftrightarrow> src = i \<and> j \<in> set dsts \<or> rv \<and> src = j \<and> i \<in> set dsts"
    for src rv dsts by (force simp: row_entries_def dst_entries_def image_iff)
  have "(i, j) \<in> (\<lambda>(i, j, c). (i, j)) ` set (concat (map (row_entries fl v) es)) \<longleftrightarrow>
      (\<exists>e\<in>set es. (i, j) \<in> (\<lambda>(i, j, c). (i, j)) ` set (row_entries fl v e))" by (simp add: image_UN)
  also have "\<dots> \<longleftrightarrow> asked es i j"
    unfolding asked_def by (intro bex_cong refl) (auto simp: row split: prod.splits simp del: image_iff)
  finally show ?thesis .
qed

lemma entries_sent: "(i, j, c) \<in> set (concat (map (row_entries fl v) es)) \<Longrightarrow> c = sent_cost fl v i j"
  by (auto simp: row_entries_def dst_entries_def split: if_splits)

text \<open>The value of an entry after the rows of a reply were entered in an empty matrix.\<close>

lemma sent_values:
  assumes ok: "\<forall>e\<in>set es. cost_row_ok fl v e"
  defines "M \<equiv> set_all (concat (map (row_entries fl v) es)) []"
  shows "if asked es i j then wire_cost fl v i j = Inr (sent_cost fl v i j) \<and> get_value M i j = Inr (sent_cost fl v i j)
    else \<exists>w. get_value M i j = Inl (Range_Error w)"
proof -
  let ?ws = "concat (map (row_entries fl v) es)"
  have "\<forall>(i, j, c)\<in>set ?ws. c = sent_cost fl v i j" using entries_sent by fast
  from set_all_value [OF matrix_inv_empty this, of i j]
  have "get_value M i j = (if asked es i j then Inr (sent_cost fl v i j)
      else if i \<in> fst ` set ?ws then Inl (Range_Error ''invalid destination PID'') else get_value [] i j)"
    unfolding M_def entries_asked by (simp only: has_row_def smap_find_Nil) simp
  moreover have "wire_cost fl v i j = Inr (sent_cost fl v i j)" if "asked es i j"
    using that ok by (fastforce simp: asked_def cost_row_ok_def dst_ok_def printable_def sent_cost_def)
  ultimately show ?thesis by (simp add: get_value_eq)
qed

lemma costs_delivered:
  assumes fin: "GetCostsFinish False (Some v) d0 = Callback_Response hdrs d" and d0: "cs_state d0 = 0"
    and ok: "\<forall>e\<in>set (pids_cur d). cost_row_ok fl v e"
    and sizes: "buffers_fit (costs_items fl v d) ms"
  defines "M \<equiv> set_all (concat (map (row_entries fl v) (pids_cur d))) []"
  shows "\<exists>ts. serve (GetCostsWrite fl v) ms (ContentReaderState d) = Some (Inr (ts, True)) \<and>
    (\<forall>t. arrives hdrs ts t \<longrightarrow> fetch_pdistances serv t = Some (Inr (M, pdistance_ttl v, version (v_prefixes v))))"
proof -
  let ?es = "pids_cur d"
  have hdrs: "hdrs = reply_headers (pdistance_ttl v) (version (v_prefixes v))" and st: "cs_state d = 0"
    using fin d0 by (auto simp: GetCostsFinish_def Let_def)
  have items: "costs_items fl v d = concat (map (costs_row fl v) ?es)"
    using st by (auto simp: costs_items_def costs_left_def split: list.splits prod.splits)
  have valid: "costs_valid fl v d"
    using ok st by (fastforce simp: costs_valid_def cost_row_ok_def printable_def cost_item_text split: list.splits)
  have "fetch_pdistances serv t = Some (Inr (M, pdistance_ttl v, version (v_prefixes v)))"
    if arr: "arrives hdrs ts t" and ts: "concat ts = concat (costs_items fl v d)" for ts t
  proof -
    obtain rest where "consume_pdistances True [] (concat ts) = Some (M, rest, None)"
      using read_costs [OF ok, of "[]" "[]"] ts by (auto simp: items M_def)
    with pdistances.chunks.make_request_ok [OF _ arr [unfolded hdrs], of "[]" M rest serv id] show ?thesis
      unfolding fetch_pdistances_def by (simp add: consume_as_loops)
  qed
  with costs_writer.serve_fits [OF valid sizes] show ?thesis by blast
qed


definition ex_request :: "pid list \<Rightarrow> costs_state" where
  "ex_request dsts = GetCostsState\<lparr>cs_pids := [(ex_pid, False, dsts)]\<rparr>"

lemma ex_has_prefixes:
  assumes "trie_inv AF_INET t" "trie_map t = [net_bits ex_net8 \<mapsto> ex_pid]"
  shows "sp_has_prefixes (v_prefixes (ex_portal_view t)) p \<longleftrightarrow> p = ex_pid"
  using has_prefixes_spec [OF assms(1), of p] assms(2) by (auto simp: sp_has_prefixes_def)

lemma ex_cost:
  assumes "trie_inv AF_INET t" "trie_map t = [net_bits ex_net8 \<mapsto> ex_pid]"
  shows "wire_cost Num (ex_portal_view t) ex_pid ex_pid = Inr 3"
proof -
  have "get_pdistance (ex_portal_view t) ex_pid ex_pid = Num 3"
    using ex_has_prefixes [OF assms]
    by (simp add: get_pdistance_def ex_pid_def [THEN arg_cong [where f = get_external]] mx_get_by_pid_def mx_get_def)
  moreover have "\<lfloor>7 / 2 :: rat\<rfloor> = 3" by (simp add: floor_unique)
  ultimately show ?thesis by (simp add: wire_cost_def round_int_def clip_def MIN_PDISTANCE_def MAX_PDISTANCE_def)
qed


lemma write_loop_fits:
  "step d = Some (Inr (d', it)) \<Longrightarrow> length buf + length it \<le> mx \<Longrightarrow> write_loop step mx d buf = write_loop step mx d' (buf @ it)"
  by (subst write_loop.simps) simp

lemma write_loop_throws: "step d = Some (Inl e) \<Longrightarrow> write_loop step mx d buf = Some (Inl e)"
  by (subst write_loop.simps) simp

text \<open>
  Property C39. A request that names a destination without prefixes makes the portal convert \<open>NAN\<close> to an
  \<open>unsigned int\<close>, which is undefined, as soon as the head of the row fits in a buffer. Destinations are not checked as
  sources are.
\<close>
theorem unknown_destination_undefined:
  assumes "cs_pids d0 = [(src, reverse, [dst])]" and "cs_state d0 = 0"
    and "sp_has_prefixes (v_prefixes v) src" and "\<not> sp_has_prefixes (v_prefixes v) dst"
    and "length (print_pid src) + 14 \<le> mx"
  shows "\<exists>hdrs d. GetCostsFinish False (Some v) d0 = Callback_Response hdrs d \<and>
    serve (GetCostsWrite fl v) (mx # ms) (ContentReaderState d) = Some (Inl Undefined_Behaviour)"
proof -
  have fin: "GetCostsFinish False (Some v) d0 = Callback_Response (reply_headers (pdistance_ttl v) (version (v_prefixes v)))
      (d0\<lparr>need_all := need_all d0, cs_pids := [(src, reverse, [dst])], pids_cur := [(src, reverse, [dst])]\<rparr>)" (is "_ = Callback_Response _ ?d")
    using assms(1, 3) by (simp add: GetCostsFinish_def Let_def fill_dsts_def)
  let ?item = "print_pid src @ tab @ (if reverse then ''inc-reverse'' else ''no-reverse'') @ tab @ show_nat 1"
  have 1: "GetCostsWrite fl v ?d = Some (Inr (?d\<lparr>entry_cur := [dst], cs_state := 1\<rparr>, ?item))"
    using assms(2) by (simp add: GetCostsWrite_def)
  have len: "length ?item \<le> mx" using assms(5) by (subst show_nat.simps) simp
  have "get_pdistance v src dst = NAN" using assms(4) by (simp add: get_pdistance_def)
  then have "cost_item fl v src reverse dst = Inl Undefined_Behaviour"
    by (simp add: cost_item_def wire_cost_def round_int_def)
  then have 2: "GetCostsWrite fl v (?d\<lparr>entry_cur := [dst], cs_state := 1\<rparr>) = Some (Inl Undefined_Behaviour)"
    by (simp add: GetCostsWrite_def)
  have "write_loop (GetCostsWrite fl v) mx ?d [] = write_loop (GetCostsWrite fl v) mx (?d\<lparr>entry_cur := [dst], cs_state := 1\<rparr>) ([] @ ?item)"
    using len by (intro write_loop_fits [where step = "GetCostsWrite fl v", OF 1]) simp
  also have "\<dots> = Some (Inl Undefined_Behaviour)" using 2 by (rule write_loop_throws [where step = "GetCostsWrite fl v"])
  finally have "write_loop (GetCostsWrite fl v) mx ?d [] = Some (Inl Undefined_Behaviour)" .
  with 1 have "serve (GetCostsWrite fl v) (mx # ms) (ContentReaderState ?d) = Some (Inl Undefined_Behaviour)"
    by (simp add: content_process_def write_callback_def ContentReaderState_def)
  with fin show ?thesis by blast
qed

theorem unknown_destination_undefined_witness:
  "\<exists>v hdrs d. GetCostsFinish False (Some v) (ex_request [PID_DEFAULT]) = Callback_Response hdrs d \<and>
     serve (GetCostsWrite Num v) [4096] (ContentReaderState d) = Some (Inl Undefined_Behaviour)"
proof -
  obtain tr where t: "trie_inv AF_INET tr" "trie_map tr = [net_bits ex_net8 \<mapsto> ex_pid]" by (rule ex_pid_trie)
  have "PID_DEFAULT \<noteq> ex_pid" by (simp add: PID_DEFAULT_def ex_pid_def)
  moreover have "length (print_pid ex_pid) + 14 \<le> 4096" by (simp add: print_pid_def ex_pid_def show_nat.simps)
  ultimately show ?thesis
    using unknown_destination_undefined [of "ex_request [PID_DEFAULT]" ex_pid False PID_DEFAULT "ex_portal_view tr" 4096 Num "[]"] ex_has_prefixes [OF t]
    by (auto simp: ex_request_def GetCostsState_def)
qed

section \<open>Replies that are not as expected\<close>

text \<open>
  Property C40. A token that is not a PID, a PID map without the header with its version, or a count that is not a
  number, lets the client write through a null pointer in place of throwing \<open>P4PProtocolParseError\<close>: the handlers for
  \<open>invalid_argument\<close> are never reached.
\<close>
theorem bad_reply_undefined:
  assumes "concat bs = w @ t @ rest" and "spaces w" and "is_token t" and "ends_token rest" and "read_pid t = None"
    and "smap_find h ''X-P4P-PIDMap'' = None" and "smap_find h ''Cache-Control'' = Some ''max-age=x''"
  shows "read_response (consume_pidmap env) (ResponsePIDMapReader p) bs = Some (Inl Undefined_Behaviour) \<and>
    read_response consume_pdistances [] bs = Some (Inl Undefined_Behaviour) \<and>
    p4p_token_cast extract_uint (get_header h ''X-P4P-PIDMap'') = Inl Undefined_Behaviour \<and>
    meta_assign h = Inl Undefined_Behaviour"
proof -
  have r: "read_token_pid True False (concat bs) = Inl Undefined_Behaviour"
    using read_token_at [OF assms(2-4), of True False] assms(1, 5)
    by (simp add: read_token_pid_def p4p_token_cast_def parse_error_def)
  have "consume_pidmap env True (ResponsePIDMapReader p) (concat bs) = Some (ResponsePIDMapReader p, [], Some Undefined_Behaviour)"
    using r unfolding consume_pidmap_def
    by (intro pidmap.loop_Throw) (simp add: pidmap_turn_def pm_read_def ResponsePIDMapReader_def)
  moreover have "consume_pdistances True [] (concat bs) = Some ([], [], Some Undefined_Behaviour)"
    using r unfolding consume_pdistances_def
    by (intro pdistances.loop_Throw) (simp add: pdistance_turn_def read_row_head_def)
  moreover have "extract_uint [] = None" "extract_uint ''x'' = None"
    by (simp_all add: extract_uint_def skip_sign_def c_isdigit_def c_isspace_def Let_def)
  ultimately show ?thesis
    using pidmap.chunks.read_pieces [of env "ResponsePIDMapReader p" bs] pdistances.chunks.read_pieces [of "[]" bs] assms(6, 7)
    by (simp add: consume_as_loops get_header_def p4p_token_cast_def meta_assign_def extract_cache_maxage_def)
qed

theorem bad_reply_undefined_witness:
  "read_response (consume_pidmap (ex_resolver, [])) (ResponsePIDMapReader PID_DEFAULT) [''b'', ''ad ''] = Some (Inl Undefined_Behaviour) \<and>
   read_response consume_pdistances [] [''b'', ''ad ''] = Some (Inl Undefined_Behaviour) \<and>
   meta_assign [(''Cache-Control'', ''max-age=x'')] = Inl Undefined_Behaviour"
  using bad_reply_undefined [of "[''b'', ''ad '']" "[]" "''bad''" "'' ''" "[(''Cache-Control'', ''max-age=x'')]" "(ex_resolver, [])" PID_DEFAULT]
  by (simp add: is_token_def c_isspace_def read_pid_def extract_uint_def skip_sign_def c_isdigit_def smap_find_def Let_def)

end
