(* ===== verification/Portal_Client.thy ===== *)
theory Portal_Client
  imports ISP_Properties Portal_Properties
begin

text \<open>
  A client that loads an ISP from a portal: the replies of the portal are the data of \<open>ISPPIDMap::loadP4PInfo\<close> and
  \<open>ISPPDistanceMap::loadP4PInfo\<close>, and what the client answers afterwards is what the view of the portal has.
\<close>

section \<open>Replies as data sources\<close>

text \<open>The handlers around the two requests: what they do not catch leaves the function.\<close>

fun portal_answer :: "('a \<times> u32 \<times> u32) result \<Rightarrow> 'a portal_reply result" where
  "portal_answer (Inr (d, ttl, ver)) = Inr (Reply (unat ttl) (unat ver) d)"
| "portal_answer (Inl (P4PProtocolConnectionError w)) = Inr Connection_Error"
| "portal_answer (Inl (P4PProtocolError w)) = Inr Protocol_Error"
| "portal_answer (Inl e) = Inl e"

section \<open>The PID map of the client\<close>

lemma trie_map_prefix:
  assumes "trie_inv fam t" and "trie_map t k = Some p"
  shows "\<exists>q. wf_ip_prefix q \<and> get_family q = fam \<and> net_bits q = k"
proof -
  obtain a q where q: "(a, Some q, Some p) \<in># tents t" "pkey q = k" using assms trie_map_iff by blast
  then have "fam_prefix fam q" using trie_invD(4) [OF assms(1) q(1)] by simp
  then show ?thesis using prefix_ip_spec [OF _ trie_invD(1) [OF assms(1)], of q] q(2) by blast
qed

lemma prefixes_of_inj: "is_ip_family fam \<Longrightarrow> inj_on net_bits (\<Union>p. prefixes_of fam m p)"
proof (rule inj_onI)
  fix q r assume f: "is_ip_family fam" and q: "q \<in> (\<Union>p. prefixes_of fam m p)" and r: "r \<in> (\<Union>p. prefixes_of fam m p)" and e: "net_bits q = net_bits r"
  then have "get_length q = get_length r"
    using f length_net_bits_shape [OF wf_ip_shape, of q] length_net_bits_shape [OF wf_ip_shape, of r] by (auto simp: prefixes_of_def)
  with q r e show "q = r" by (intro wf_ip_prefix_eqI) (auto simp: prefixes_of_def)
qed

lemma finite_prefixes_of: "trie_inv fam (sp_tree m) \<Longrightarrow> finite (prefixes_of fam m p)"
  using get_prefixes_spec [of fam "sp_tree m" p] unfolding prefixes_of_def by (metis List.finite_set)

lemma same_pidmap_ok:
  assumes inv: "trie_inv fam (sp_tree m)" and M: "same_pidmap fam m M"
  shows "prefixes_ok fam M"
proof -
  let ?P = "prefixes_of fam m" and ?R = "ran (trie_map (sp_tree m))"
  note fin = finite_prefixes_of [OF inv]
  have pre: "fst ` set (pp_prefixes r) = ?P (pp_pid r)" "num_prefixes r = card (?P (pp_pid r))" if "r \<in> set M" for r
  proof -
    have e: "map fst (pp_prefixes r) = sorted_list_of_set (?P (pp_pid r))" using that M by (simp add: same_pidmap_def)
    from arg_cong [OF e, of set] show "fst ` set (pp_prefixes r) = ?P (pp_pid r)" using fin by simp
    from arg_cong [OF e, of length] show "num_prefixes r = card (?P (pp_pid r))" by (simp add: num_prefixes_def)
  qed
  have "sum_list (map num_prefixes M) = sum_list (map (\<lambda>p. card (?P p)) (map pp_pid M))"
    using pre(2) by (simp add: comp_def cong: map_cong)
  also have "\<dots> = (\<Sum>p\<in>?R. card (?P p))"
    using M sum_list_distinct_conv_sum_set [of "map pp_pid M" "\<lambda>p. card (?P p)"] by (simp add: same_pidmap_def)
  also have "\<dots> = card (\<Union>p\<in>?R. ?P p)"
    using fin cache_keys(2) [OF inv, symmetric]
    by (intro card_UN_disjoint [symmetric]) (auto simp: prefixes_of_def)
  also have "\<dots> \<le> card (dom (trie_map (sp_tree m)))"
    using prefixes_of_inj [OF trie_invD(1) [OF inv], of m]
    by (intro card_inj_on_le [where f = net_bits] finite_trie_map) (auto simp: prefixes_of_def intro: inj_on_subset)
  also have "\<dots> \<le> UINT_MAX" using trie_invD(5) [OF inv] size_tents [OF inv] by (simp add: cache_ok_def vals_def)
  finally show ?thesis using pre(1) wf_ip_shape by (auto simp: prefixes_ok_def prefixes_of_def)
qed

text \<open>The trie of the client gives the same PID for the same bits, by its index.\<close>

lemma same_pidmap_map:
  assumes inv: "trie_inv fam (sp_tree m)" and M: "same_pidmap fam m M"
  defines "tm \<equiv> map_of (map (\<lambda>(p, i). (net_bits p, i)) (pidmap_entries 0 M))"
  shows "tm k = None \<Longrightarrow> trie_map (sp_tree m) k = None"
    and "tm k = Some i \<Longrightarrow> 0 \<le> i \<and> nat i < length M \<and> trie_map (sp_tree m) k = Some (pp_pid (M ! nat i))"
proof -
  have pre: "fst ` set (pp_prefixes r) = prefixes_of fam m (pp_pid r)" if "r \<in> set M" for r
  proof -
    have "map fst (pp_prefixes r) = sorted_list_of_set (prefixes_of fam m (pp_pid r))" using that M by (simp add: same_pidmap_def)
    from arg_cong [OF this, of set] show ?thesis using finite_prefixes_of [OF inv] by simp
  qed
  show "trie_map (sp_tree m) k = None" if "tm k = None"
  proof (rule ccontr)
    assume "trie_map (sp_tree m) k \<noteq> None"
    then obtain p where p: "trie_map (sp_tree m) k = Some p" by blast
    obtain q where q: "wf_ip_prefix q" "get_family q = fam" "net_bits q = k" using trie_map_prefix [OF inv p] by blast
    have "p \<in> pp_pid ` set M" using M p by (simp add: same_pidmap_def ranI)
    then obtain n where n: "n < length M" "pp_pid (M ! n) = p" by (metis imageE in_set_conv_nth)
    have "q \<in> fst ` set (pp_prefixes (M ! n))" using pre [OF nth_mem [OF n(1)]] n(2) p q by (simp add: prefixes_of_def)
    then have "(q, int n) \<in> set (pidmap_entries 0 M)" using n(1) by (auto simp: pidmap_entries_mem)
    with that q(3) show False by (force simp: tm_def map_of_eq_None_iff)
  qed
  show "0 \<le> i \<and> nat i < length M \<and> trie_map (sp_tree m) k = Some (pp_pid (M ! nat i))" if "tm k = Some i"
  proof -
    have "(k, i) \<in> set (map (\<lambda>(p, i). (net_bits p, i)) (pidmap_entries 0 M))" using that unfolding tm_def by (rule map_of_SomeD)
    then obtain q where "(q, i) \<in> set (pidmap_entries 0 M)" "net_bits q = k" by auto
    then obtain n where n: "n < length M" "i = int n" "q \<in> fst ` set (pp_prefixes (M ! n))" "net_bits q = k"
      by (auto simp: pidmap_entries_mem)
    then have "q \<in> prefixes_of fam m (pp_pid (M ! n))" using pre [OF nth_mem [OF n(1)]] by simp
    with n show ?thesis by (simp add: prefixes_of_def)
  qed
qed

lemma lpm_related:
  assumes "\<And>k. m k = None \<Longrightarrow> m' k = None" and "\<And>k i. m k = Some i \<Longrightarrow> m' k = Some (f i)"
  shows "lpm m' A = map_option (\<lambda>(k, i). (k, f i)) (lpm m A)"
proof (cases "lpm m A")
  case None
  then show ?thesis using lpm_NoneD [OF None] assms(1) by (auto intro: lpm_None)
next
  case (Some ki)
  obtain k i where ki: "ki = (k, i)" by (cases ki)
  note b = lpm_SomeD [OF Some [unfolded ki]]
  have "lpm m' A = Some (k, f i)"
  proof (rule lpm_Some)
    show "prefix k A" by (rule b(1))
    show "m' k = Some (f i)" by (rule assms(2) [OF b(2)])
    show "length k' \<le> length k" if "prefix k' A" "m' k' \<noteq> None" for k'
    proof (rule b(3) [OF that(1)])
      show "m k' \<noteq> None" using that(2) assms(1) [of k'] by (cases "m k'") auto
    qed
  qed
  with Some ki show ?thesis by simp
qed

lemma client_lookup:
  assumes inv: "trie_inv fam (sp_tree m)" and M: "same_pidmap fam m M"
    and c: "trie_inv fam (pm_trie c)" "trie_map (pm_trie c) = map_of (map (\<lambda>(p, i). (net_bits p, i)) (pidmap_entries 0 M))"
      "pm_pids c = map pp_pid M"
    and a: "ip_shape a" "get_family a = fam" "get_length a = fam_bits fam"
  shows "\<exists>r i out. sp_lookup m a = Inr r \<and> pm_lookup c a want = Inr (i, out) \<and>
    (case r of None \<Rightarrow> i = ERR_UNKNOWN_PID | Some p \<Rightarrow> 0 \<le> i \<and> nat i < length M \<and> getPIDInfo c i = p)"
proof -
  note rel = same_pidmap_map [OF inv M, folded c(2)]
  have l: "lpm (trie_map (sp_tree m)) (net_bits a) = map_option (\<lambda>(k, i). (k, pp_pid (M ! nat i))) (lpm (trie_map (pm_trie c)) (net_bits a))"
    using rel by (intro lpm_related) blast+
  note s = trie_lookup_host [OF inv a, of False] and t = trie_lookup_host [OF c(1) a, of want]
  show ?thesis
  proof (cases "lpm (trie_map (pm_trie c)) (net_bits a)")
    case None
    with l s t show ?thesis by (simp add: sp_lookup_def pm_lookup_def)
  next
    case (Some ki)
    obtain k i where ki: "ki = (k, i)" by (cases ki)
    then have "0 \<le> i \<and> nat i < length M" using rel(2) lpm_SomeD(2) [OF Some [unfolded ki]] by blast
    with Some ki l s t c(3) show ?thesis by (auto simp: sp_lookup_def pm_lookup_def getPIDInfo_def)
  qed
qed

section \<open>The distances of the client\<close>

text \<open>A request without PIDs asks for every pair of PIDs of the map.\<close>

lemma all_costs:
  assumes inv: "trie_inv fam (sp_tree (v_prefixes v))" and pids: "\<forall>p\<in>ran (trie_map (sp_tree (v_prefixes v))). pid_ok p"
    and costs: "\<forall>p\<in>ran (trie_map (sp_tree (v_prefixes v))). \<forall>q\<in>ran (trie_map (sp_tree (v_prefixes v))). printable (wire_cost fl v p q)"
    and fin: "GetCostsFinish False (Some v) GetCostsState = Callback_Response hdrs d"
  shows "\<forall>e\<in>set (pids_cur d). cost_row_ok fl v e"
    and "asked (pids_cur d) i j \<longleftrightarrow> i \<in> ran (trie_map (sp_tree (v_prefixes v))) \<and> j \<in> ran (trie_map (sp_tree (v_prefixes v)))"
proof -
  let ?m = "v_prefixes v"
  define A where "A = map fst (pid_set_of (sp_enumerate_pids ?m))"
  have A: "set A = ran (trie_map (sp_tree ?m))" "distinct A"
    using pid_set_of_spec [of "sp_enumerate_pids ?m"] cache_keys(2) [OF inv] smap_inv_distinct
    by (auto simp: A_def sp_enumerate_pids_def)
  have "pids_cur d = map (fill_dsts ?m A) (map (\<lambda>p. (p, False, [])) A)"
    using fin by (auto simp: GetCostsFinish_def GetCostsState_def Let_def A_def)
  also have "\<dots> = map (\<lambda>p. (p, False, A)) A"
    using has_prefixes_spec [OF inv] A(1) by (auto simp: fill_dsts_def sp_has_prefixes_def)
  finally have d: "pids_cur d = map (\<lambda>p. (p, False, A)) A" .
  have "length A = card (ran (trie_map (sp_tree ?m)))" using A distinct_card by metis
  also have "ran (trie_map (sp_tree ?m)) = (\<lambda>k. the (trie_map (sp_tree ?m) k)) ` dom (trie_map (sp_tree ?m))"
    by (force simp: ran_def image_iff)
  also have "card \<dots> \<le> card (dom (trie_map (sp_tree ?m)))" by (rule card_image_le [OF finite_trie_map])
  also have "\<dots> \<le> UINT_MAX" using trie_invD(5) [OF inv] size_tents [OF inv] by (simp add: cache_ok_def vals_def)
  finally show "\<forall>e\<in>set (pids_cur d). cost_row_ok fl v e"
    using pids costs A(1) by (auto simp: d cost_row_ok_def dst_ok_def)
  show "asked (pids_cur d) i j \<longleftrightarrow> i \<in> ran (trie_map (sp_tree ?m)) \<and> j \<in> ran (trie_map (sp_tree ?m))"
    using A(1) by (auto simp: asked_def d)
qed

lemma wire_cost_small: "wire_cost fl v p q = Inr c \<Longrightarrow> sint c = uint c"
proof -
  assume "wire_cost fl v p q = Inr c"
  then obtain x where "c = clip x MIN_PDISTANCE MAX_PDISTANCE" by (auto simp: wire_cost_def bindE_eq_Inr)
  then have "c \<le> MAX_PDISTANCE" by (auto simp: clip_def MIN_PDISTANCE_def)
  then have "uint c \<le> 131071" by (simp add: MAX_PDISTANCE_def word_le_def)
  moreover have "- 2147483648 \<le> uint c" by (rule order_trans [of _ 0]) simp_all
  ultimately show ?thesis unfolding sint_uint by (intro signed_take_bit_int_eq_self) simp_all
qed

section \<open>The client after a load\<close>

text \<open>What the client knows of an ISP agrees with a view of the portal.\<close>

definition sees_view :: "(double \<Rightarrow> cost) \<Rightarrow> int \<Rightarrow> view \<Rightarrow> isp \<Rightarrow> bool" where
  "sees_view fl fam v s \<longleftrightarrow>
     (\<forall>a want. ip_shape a \<and> get_family a = fam \<and> get_length a = fam_bits fam \<longrightarrow>
        (\<exists>r i out. sp_lookup (v_prefixes v) a = Inr r \<and> pm_lookup (m_pidmap s) a want = Inr (i, out) \<and>
          (case r of None \<Rightarrow> i = ERR_UNKNOWN_PID
           | Some p \<Rightarrow> 0 \<le> i \<and> nat i < length (listPIDs (m_pidmap s)) \<and> getPIDInfo (m_pidmap s) i = p))) \<and>
     (\<forall>i j. 0 \<le> i \<and> nat i < length (listPIDs (m_pidmap s)) \<and> 0 \<le> j \<and> nat j < length (listPIDs (m_pidmap s)) \<longrightarrow>
        (\<exists>c. wire_cost fl v (getPIDInfo (m_pidmap s) i) (getPIDInfo (m_pidmap s) j) = Inr c \<and> getPDistance (m_pdistmap s) i j = uint c))"

lemma load_sees_view:
  assumes inv: "trie_inv fam (sp_tree (v_prefixes v))" and M: "same_pidmap fam (v_prefixes v) M"
    and D: "\<And>p q. p \<in> ran (trie_map (sp_tree (v_prefixes v))) \<Longrightarrow> q \<in> ran (trie_map (sp_tree (v_prefixes v))) \<Longrightarrow>
      \<exists>c. wire_cost fl v p q = Inr c \<and> get_value D p q = Inr c"
    and s: "pm_invariant fam (m_pidmap s)" "pm_proto (m_pidmap s) = Some x" "dm_proto (m_pdistmap s) = Some y"
  shows "\<exists>s'. isp_loadP4PInfo (\<lambda>_ _. Reply lt lv M) lfile (\<lambda>_ _. Reply dt dv D) dfile now s = Inr (s', 0) \<and> sees_view fl fam v s'"
proof -
  let ?R = "ran (trie_map (sp_tree (v_prefixes v)))"
  have "pm_fetch (\<lambda>_ _. Reply lt lv M) lfile PIDMAP_DEFAULT_TTL (pm_proto (m_pidmap s)) (pm_filename (m_pidmap s)) = Inr (M, int lt, show_nat lv)"
    using s(2) by (simp add: pm_fetch_def split: prod.splits)
  from pm_load_spec [OF s(1) same_pidmap_ok [OF inv M] this, of now] obtain pm where
    pm: "pm_loadP4PInfo (\<lambda>_ _. Reply lt lv M) lfile now (m_pidmap s) = Inr (pm, 0)" "pm_invariant fam pm" "pm_pids pm = map pp_pid M"
      "trie_map (pm_trie pm) = map_of (map (\<lambda>(p, i). (net_bits p, i)) (pidmap_entries 0 M))"
    by blast
  obtain dm where dm: "dm_loadP4PInfo (\<lambda>_ _. Reply dt dv D) dfile now (listPIDs pm) (m_pdistmap s) = (dm, 0)"
    "dm_pdists dm = map (\<lambda>p. map (\<lambda>q. pdist_entry D p q) (listPIDs pm)) (listPIDs pm)"
    using s(3) by (simp add: dm_loadP4PInfo_def pm_fetch_def split: prod.splits)
  let ?s = "s\<lparr>m_pidmap := pm, m_pdistmap := dm\<rparr>"
  have len: "length (listPIDs pm) = length M" using pm(3) by (simp add: listPIDs_def)
  have "\<exists>c. wire_cost fl v (getPIDInfo pm i) (getPIDInfo pm j) = Inr c \<and> getPDistance dm i j = uint c"
    if "0 \<le> i" "nat i < length M" "0 \<le> j" "nat j < length M" for i j
  proof -
    have i: "getPIDInfo pm i = pp_pid (M ! nat i)" "getPIDInfo pm j = pp_pid (M ! nat j)" using that pm(3) by (simp_all add: getPIDInfo_def)
    have r: "pp_pid (M ! nat i) \<in> ?R" "pp_pid (M ! nat j) \<in> ?R" using that M nth_mem unfolding same_pidmap_def by blast+
    obtain c where c: "wire_cost fl v (pp_pid (M ! nat i)) (pp_pid (M ! nat j)) = Inr c" "get_value D (pp_pid (M ! nat i)) (pp_pid (M ! nat j)) = Inr c"
      using D [OF r] by blast
    then have "getPDistance dm i j = uint c"
      using that pm(3) wire_cost_small [OF c(1)] by (simp add: getPDistance_def dm(2) listPIDs_def pdist_entry_def)
    with c(1) i show ?thesis by simp
  qed
  moreover have t: "trie_inv fam (pm_trie pm)" using pm(2) by (simp add: pm_invariant_def)
  have sel: "m_pidmap ?s = pm" "m_pdistmap ?s = dm" by simp_all
  ultimately have "sees_view fl fam v ?s"
    using client_lookup [OF inv M t pm(4) pm(3)] unfolding sees_view_def sel len by blast
  moreover have "isp_loadP4PInfo (\<lambda>_ _. Reply lt lv M) lfile (\<lambda>_ _. Reply dt dv D) dfile now s = Inr (?s, 0)"
    using pm(1) dm(1) by (simp add: isp_loadP4PInfo_def)
  ultimately show ?thesis by blast
qed

text \<open>
  Property C3. A client loads an ISP from a portal. The portal writes its PID map and all its distances in buffers of
  any sizes that hold every item, and both replies arrive, in any pieces. Then the load succeeds, and from
  there on the client gives for every host address the PID that the portal itself looks up, or the unknown PID where
  the portal has none, and for every two PIDs the rounded and clipped distance of the view. The map has one address
  family, its PIDs are tokens, the resolver of the client reads back what the portal prints, and the distances are numbers that
  fit in an \<open>unsigned int\<close>.
\<close>
theorem client_sees_portal:
  assumes inv: "trie_inv fam (sp_tree (v_prefixes v))" and pids: "\<forall>p\<in>ran (trie_map (sp_tree (v_prefixes v))). pid_ok p"
    and res: "\<forall>p q. q \<in> prefixes_of fam (v_prefixes v) p \<longrightarrow> resolves gni gai q"
    and costs: "\<forall>p\<in>ran (trie_map (sp_tree (v_prefixes v))). \<forall>q\<in>ran (trie_map (sp_tree (v_prefixes v))). printable (wire_cost fl v p q)"
    and map: "GetPIDMapFinish False (Some v) [] = Inr (Callback_Response lh ld)" "buffers_fit (pidmap_items gni ld) lms"
    and dist: "GetCostsFinish False (Some v) GetCostsState = Callback_Response dh dd" "buffers_fit (costs_items fl v dd) dms"
    and s: "pm_invariant fam (m_pidmap s)" "pm_proto (m_pidmap s) = Some x" "dm_proto (m_pdistmap s) = Some y"
  shows "\<exists>lts dts. serve (GetPIDMapWrite gni) lms (ContentReaderState ld) = Some (Inr (lts, True)) \<and>
    serve (GetCostsWrite fl v) dms (ContentReaderState dd) = Some (Inr (dts, True)) \<and>
    (\<forall>lt dt. arrives lh lts lt \<and> arrives dh dts dt \<longrightarrow>
      (\<exists>lr dr s'. map_option portal_answer (get_pidmap (gai, replicate 16 0) p0 x lt) = Some (Inr lr) \<and>
        map_option portal_answer (fetch_pdistances y dt) = Some (Inr dr) \<and>
        isp_loadP4PInfo (\<lambda>_ _. lr) lfile (\<lambda>_ _. dr) dfile now s = Inr (s', 0) \<and> sees_view fl fam v s'))"
proof -
  let ?R = "ran (trie_map (sp_tree (v_prefixes v)))" and ?D = "set_all (concat (map (row_entries fl v) (pids_cur dd))) []"
  note ok = all_costs(1) [OF inv pids costs dist(1)] and all = all_costs(2) [OF inv pids costs dist(1)]
  have D: "\<exists>c. wire_cost fl v p q = Inr c \<and> get_value ?D p q = Inr c" if "p \<in> ?R" "q \<in> ?R" for p q
    using sent_values [OF ok, of p q] all [of p q] that by auto
  obtain lts where lts: "serve (GetPIDMapWrite gni) lms (ContentReaderState ld) = Some (Inr (lts, True))"
    "\<And>t. arrives lh lts t \<Longrightarrow> \<exists>M. get_pidmap (gai, replicate 16 0) p0 x t = Some (Inr (M, pid_ttl v, version (v_prefixes v))) \<and>
       same_pidmap fam (v_prefixes v) M"
    using pidmap_delivered [OF inv pids res, of p0 x] map by auto
  have "cs_state GetCostsState = 0" by (simp add: GetCostsState_def)
  from costs_delivered [OF dist(1) this ok dist(2), of y] obtain dts where
    dts: "serve (GetCostsWrite fl v) dms (ContentReaderState dd) = Some (Inr (dts, True))"
      "\<And>t. arrives dh dts t \<Longrightarrow> fetch_pdistances y t = Some (Inr (?D, pdistance_ttl v, version (v_prefixes v)))"
    by blast
  have "\<exists>lr dr s'. map_option portal_answer (get_pidmap (gai, replicate 16 0) p0 x lt) = Some (Inr lr) \<and>
      map_option portal_answer (fetch_pdistances y dt) = Some (Inr dr) \<and>
      isp_loadP4PInfo (\<lambda>_ _. lr) lfile (\<lambda>_ _. dr) dfile now s = Inr (s', 0) \<and> sees_view fl fam v s'"
    if a: "arrives lh lts lt" "arrives dh dts dt" for lt dt
  proof -
    obtain M where M: "get_pidmap (gai, replicate 16 0) p0 x lt = Some (Inr (M, pid_ttl v, version (v_prefixes v)))" "same_pidmap fam (v_prefixes v) M"
      using lts(2) [OF a(1)] by blast
    let ?lr = "Reply (unat (pid_ttl v)) (unat (version (v_prefixes v))) M" and ?dr = "Reply (unat (pdistance_ttl v)) (unat (version (v_prefixes v))) ?D"
    obtain s' where "isp_loadP4PInfo (\<lambda>_ _. ?lr) lfile (\<lambda>_ _. ?dr) dfile now s = Inr (s', 0)" "sees_view fl fam v s'"
      using load_sees_view [OF inv M(2) D s] by blast
    then show ?thesis using M(1) dts(2) [OF a(2)] by (intro exI [of _ ?lr] exI [of _ ?dr] exI [of _ s']) simp
  qed
  with lts(1) dts(1) show ?thesis by blast
qed

theorem client_sees_portal_witness:
  "\<exists>v s lh ld lms dh dd dms lts dts lt dt lr dr s'.
     ran (trie_map (sp_tree (v_prefixes v))) = {ex_pid} \<and> ISP_servers ''portal'' 6671 ''portal'' 6671 = Inr s \<and>
     GetPIDMapFinish False (Some v) [] = Inr (Callback_Response lh ld) \<and> GetCostsFinish False (Some v) GetCostsState = Callback_Response dh dd \<and>
     serve (GetPIDMapWrite ex_namer) lms (ContentReaderState ld) = Some (Inr (lts, True)) \<and> arrives lh lts lt \<and>
     serve (GetCostsWrite Num v) dms (ContentReaderState dd) = Some (Inr (dts, True)) \<and> arrives dh dts dt \<and>
     map_option portal_answer (get_pidmap (ex_resolver, replicate 16 0) PID_DEFAULT (''portal'', 6671) lt) = Some (Inr lr) \<and>
     map_option portal_answer (fetch_pdistances (''portal'', 6671) dt) = Some (Inr dr) \<and>
     isp_loadP4PInfo (\<lambda>_ _. lr) (\<lambda>_. Open_Failed) (\<lambda>_ _. dr) (\<lambda>_. Open_Failed) 1000 s = Inr (s', 0) \<and> sees_view Num AF_INET v s'"
proof -
  obtain tr where t: "trie_inv AF_INET tr" "trie_map tr = [net_bits ex_net8 \<mapsto> ex_pid]" by (rule ex_pid_trie)
  let ?v = "ex_portal_view tr"
  have i: "trie_inv AF_INET (sp_tree (v_prefixes ?v))" and R: "ran (trie_map (sp_tree (v_prefixes ?v))) = {ex_pid}" using t by simp_all
  have p: "\<forall>p\<in>ran (trie_map (sp_tree (v_prefixes ?v))). pid_ok p" using R by (simp add: pid_ok_def ex_pid_def is_token_def c_isspace_def)
  have r: "\<forall>p q. q \<in> prefixes_of AF_INET (v_prefixes ?v) p \<longrightarrow> resolves ex_namer ex_resolver q"
    using ex_prefixes [of "v_prefixes ?v"] t(2) ex_resolves by (auto split: if_splits)
  have c: "\<forall>p\<in>ran (trie_map (sp_tree (v_prefixes ?v))). \<forall>q\<in>ran (trie_map (sp_tree (v_prefixes ?v))). printable (wire_cost Num ?v p q)"
    using R ex_cost [OF t] by (simp add: printable_def)
  obtain lh ld where l: "GetPIDMapFinish False (Some ?v) [] = Inr (Callback_Response lh ld)" using pidmap_delivered [OF i p r] by blast
  obtain dh dd where d: "GetCostsFinish False (Some ?v) GetCostsState = Callback_Response dh dd" by (auto simp: GetCostsFinish_def Let_def)
  obtain lms where lms: "buffers_fit (pidmap_items ex_namer ld) lms" by (rule buffers_exist)
  obtain dms where dms: "buffers_fit (costs_items Num ?v dd) dms" by (rule buffers_exist)
  obtain m where m: "ISPPIDMap_server ''portal'' 6671 = Inr m" "pm_invariant AF_INET m" "pm_proto m = Some (''portal'', 6671)"
    by (rule ex_server)
  let ?s = "\<lparr>m_pidmap = m, m_pdistmap = dm_setDataSourceServer ISPPDistanceMap ''portal'' 6671\<rparr>"
  have s: "ISP_servers ''portal'' 6671 ''portal'' 6671 = Inr ?s" by (simp add: ISP_servers_def m(1))
  have s': "pm_invariant AF_INET (m_pidmap ?s)" "pm_proto (m_pidmap ?s) = Some (''portal'', 6671)" "dm_proto (m_pdistmap ?s) = Some (''portal'', 6671)"
    using m by (simp_all add: dm_setDataSourceServer_def)
  obtain lts dts where ts: "serve (GetPIDMapWrite ex_namer) lms (ContentReaderState ld) = Some (Inr (lts, True))"
      "serve (GetCostsWrite Num ?v) dms (ContentReaderState dd) = Some (Inr (dts, True))"
    and loads: "\<And>lt dt. arrives lh lts lt \<and> arrives dh dts dt \<Longrightarrow>
      \<exists>lr dr s'. map_option portal_answer (get_pidmap (ex_resolver, replicate 16 0) PID_DEFAULT (''portal'', 6671) lt) = Some (Inr lr) \<and>
        map_option portal_answer (fetch_pdistances (''portal'', 6671) dt) = Some (Inr dr) \<and>
        isp_loadP4PInfo (\<lambda>_ _. lr) (\<lambda>_. Open_Failed) (\<lambda>_ _. dr) (\<lambda>_. Open_Failed) 1000 ?s = Inr (s', 0) \<and> sees_view Num AF_INET ?v s'"
    using client_sees_portal [OF i p r c l lms d dms s', of PID_DEFAULT "\<lambda>_. Open_Failed" "\<lambda>_. Open_Failed" 1000] by blast
  obtain lt where lt: "arrives lh lts lt" by (rule arrives_exists)
  obtain dt where dt: "arrives dh dts dt" by (rule arrives_exists)
  from loads [OF conjI [OF lt dt]] R s l d ts lt dt show ?thesis by blast
qed

end
