(* ===== verification/Spec2Isabelle.thy ===== *)
theory Spec2Isabelle
  imports Client_System Client_Selection Guidance_Properties Server_Locking Server_Matrix PID_Aggregation Job_Queue Server_PIDMap Distance_Properties View_Properties Txn_Properties Portal_Client
begin

text \<open>
  This development models two parts of the P4P/ALTO project and proves what makes them correct: the library
  that applications link against (\<open>src/common/cpp\<close>) and the portal server that provides its information
  (\<open>src/common-server\<close>, \<open>src/portal/server\<close>). The library gives a tracker or a peer the network view of Internet
  service providers: which PID (a group of addresses) an address belongs to, how far PIDs are from each
  other, and which peers a client should be told about. The portal server keeps the network of a provider,
  the PIDs an administrator groups it into, and computes the distances.

  \<^bold>\<open>The client and how its parts interact.\<close> An \<open>ISPManager\<close> holds the ISPs. Each \<open>ISP\<close> has a PID map, loaded from
  a portal server or a file into a Patricia trie, and a distance map, loaded into a matrix over the PIDs of
  the PID map. A \<open>PeerDistributionManager\<close> keeps the peers of a swarm and, for each ISP, a
  \<open>PeerDistribution\<close>: a view that groups the peers by their PID. The selection managers choose peers for a
  client, by location or by the weights of a \<open>PeeringGuidanceMatrix\<close>, which an optimisation engine computes
  from the swarm state; the matrices are shared and counted by a \<open>PeeringGuidanceMatrixManager\<close>. The
  \<open>P4PUpdateManager\<close> is the scheduler of all of this: a heap of tasks that reload maps, rebuild the views and
  compute guidance when the information is about to expire. Maps and distances come from a portal over HTTP: readers
  take the reply in the pieces in which it arrives.

  \<^bold>\<open>The server and how its parts interact.\<close> The state of the server is a tree of objects under \<open>GLOBAL_STATE\<close>: the
  network graph, and the registry with the views. A view has an aggregation (which nodes a PID stands for), a
  PID map, the routing, the costs of links and the two matrices of distances. Every object has a lock and a
  version. An administrator changes the state in transactions (\<open>AdminState\<close>), which copy the objects they write
  and install the copies when they are committed. The update of a view copies the network, merges the nodes of
  each PID, finds routes and adds up costs; the jobs that run updates wait in a queue. Clients ask for the PID map and
  the distances, and the handlers write the replies in the buffers that the HTTP server provides.

  \<^bold>\<open>The theories of the client.\<close>
  \<^item> \<open>P4P_Prelude\<close>: the result type with the errors of the program (exceptions, failed assertions, undefined
    behaviour, exhausted random numbers), the monadic bind \<open>bindE\<close>, and lemmas on lists, options and words.
    \<open>Std_Map\<close>: \<open>std::map\<close> and \<open>std::set\<close> as sorted association lists; the locale \<open>assoc_container\<close> states their
    contract and is interpreted on them as \<open>smap\<close>.
  \<^item> \<open>IP_Addr\<close> (\<open>ip_addr.cpp\<close>) and \<open>PID_Type\<close> (\<open>pid.cpp\<close>, \<open>pid.h\<close>): the values with their comparisons, printing and
    reading; equality of prefixes is equality of the network bits, and printing and reading are inverse.
  \<^item> \<open>Patricia\<close> (\<open>patricia.c\<close>), with \<open>Patricia_Bits\<close>, \<open>Patricia_Inv\<close>, \<open>Patricia_Search\<close> and \<open>Patricia_Correct\<close>: the
    tree, its invariant, and the searches and updates as operations on a multiset of entries.
    \<open>Patricia_Trie\<close> (\<open>patricia_trie.h\<close>), \<open>Trie_Spec\<close>, \<open>Trie_Ops\<close>, \<open>Trie_List\<close>: the template over it with its cache of
    values, as a map from network bits to values. \<open>Prefix_Table\<close> is the contract of such a table, the locale
    \<open>prefix_table\<close>, interpreted for the two address families as \<open>v4\<close> and \<open>v6\<close>; \<open>Trie_Properties\<close> has the
    refinement of sequences of operations.
  \<^item> \<open>PID_Matrix\<close> (\<open>pid_matrix.h\<close> of the portal protocol), \<open>ISP_Maps\<close> (\<open>isp_pidmap.cpp\<close>, \<open>isp_pdistancemap.cpp\<close>,
    \<open>isp.cpp\<close>, \<open>isp_manager.cpp\<close>) and \<open>ISP_Properties\<close>: loading, lookups, distances, and what a failed load
    leaves.
  \<^item> \<open>Random_Access_Set\<close>, \<open>Max_Heap\<close>, \<open>Heap_Queue\<close> (\<open>random_access_set.h\<close>, \<open>heap_with_delete.h\<close>): the heap with
    deletion. Its contract is the locale \<open>keyed_queue\<close>, interpreted as \<open>mh\<close>.
  \<^item> \<open>Update_Manager\<close> (\<open>update_manager.cpp\<close>), \<open>Update_Spec\<close>, \<open>Update_Run\<close>, \<open>Update_Properties\<close>: the scheduler, its
    abstraction to a map from task keys to times, and the step relation of the running program with its
    invariants.
  \<^item> \<open>Swarm_State\<close> (\<open>swarm_state.cpp\<close>), \<open>Peer_Distribution\<close> (\<open>peer_distribution.cpp\<close>) and \<open>Peer_Properties\<close>: the
    counters and the views.
  \<^item> \<open>Guidance_Options\<close>, \<open>Guidance_Matrix\<close>, \<open>Guidance_Properties\<close> (\<open>peering_guidance_matrix_opts.cpp\<close>,
    \<open>peering_guidance_matrix.cpp\<close>, \<open>peering_guidance_matrix_manager.cpp\<close>): options, computation and reference
    counts.
  \<^item> \<open>Selection_Helper\<close> (\<open>pid_peer_selection_helper.cpp\<close>), \<open>Peer_Selection\<close> and \<open>Selection_Manager\<close>
    (\<open>p4p_selection_manager.cpp\<close>, \<open>pgm_selection_manager.cpp\<close>): random choice without repetition and the two
    algorithms. The loops are proved in the locale \<open>peer_source\<close> of \<open>Selection_Spec\<close>, interpreted for one PID, for
    several PIDs and for the pool of \<open>Client_Selection\<close> (\<open>client_peer_selection_location.cpp\<close>).
    \<open>Selection_Properties\<close> says which peers are returned and how many, \<open>Selection_Safety\<close> that the weighted
    selection does not fail.
  \<^item> \<open>PID_Prefixes\<close> (\<open>pid_prefixes.h\<close>): what a PID map consists of. \<open>Wire_Reader\<close> (\<open>protocol/parsing.cpp\<close>, the two
    \<open>detail/parsing.h\<close>): tokens, and the readers of replies as loops over turns. \<open>Wire_Properties\<close> states what makes
    a reader independent of the pieces of a reply, for \<open>consume\<close> as the locale \<open>chunked_reader\<close> and for one turn of its
    loop as \<open>turn_reader\<close>, a sublocale; all ten readers are interpretations. \<open>Wire_Client\<close> (\<open>protobase.cpp\<close>,
    \<open>metainfo.cpp\<close>, \<open>location.h\<close>, \<open>pdistance.h\<close>, \<open>inet_service.cpp\<close>): headers, the writers of requests, and the requests.
  \<^item> \<open>Client_System\<close>: the update manager over the models of all the other parts, with an invariant of the
    whole client.

  \<^bold>\<open>The theories of the server.\<close>
  \<^item> \<open>Server_Objects\<close> (\<open>local_obj.cpp\<close>, \<open>dist_obj.cpp\<close>) and \<open>Server_Locking\<close> (\<open>locking.h\<close>): writes, versions and children of
    objects, and the locks as steps of threads: which locks exclude each other, and which do not.
  \<^item> \<open>Server_Matrix\<close> (\<open>pid_matrix.h\<close> of the server), \<open>PID_Aggregation\<close> (\<open>pid_aggregation.cpp\<close>) and \<open>Server_PIDMap\<close>
    (\<open>pid_map.cpp\<close>): the parts of a view as tables, with refinements of sequences of operations.
  \<^item> \<open>Net_State\<close> and \<open>Net_Properties\<close> (\<open>net_state.cpp\<close>, \<open>admin_net.cpp\<close>): the graph, the changes of an administrator, and the
    merging of nodes, which keeps traffic and capacity.
  \<^item> \<open>Job_Queue\<close> (\<open>job_queue.cpp\<close>, \<open>view_update_job.cpp\<close>): the queue of updates.
  \<^item> \<open>PID_Routing\<close> and \<open>Routing_Properties\<close> (\<open>pid_routing.cpp\<close>): static routes and routes from weights, which are paths.
  \<^item> \<open>Server_View\<close> (\<open>view.h\<close>, \<open>view.cpp\<close>, \<open>view_registry.cpp\<close>), \<open>View_Update\<close> (\<open>view_update.h\<close>, \<open>view_update.cpp\<close>): views, the
    registry and the update. \<open>Distance_Properties\<close> gives every entry of the matrices an update computes;
    \<open>View_Properties\<close> says when it throws.
  \<^item> \<open>Admin_State\<close> (\<open>admin_state.cpp\<close>, \<open>admin_view.cpp\<close>, \<open>global_state.cpp\<close>, \<open>state.cpp\<close>): the store of objects, the actions and the
    transactions. \<open>Admin_Properties\<close> proves for every action that it writes only what the transaction has locked, once for all
    classes of objects in the locale \<open>obj_class\<close>;
    \<open>Txn_Properties\<close> has what follows for rolling back and committing, the start of the server and the tokens.
  \<^item> \<open>Portal_Writer\<close> (\<open>rest_request_handlers_view.cpp\<close>, \<open>rest_request_state.cpp\<close>): the replies for PIDs, the PID map and
    distances, written item by item. \<open>Wire_RoundTrip\<close> has the locale \<open>item_writer\<close>, interpreted for the three replies, which
    says that the sizes of the buffers do not matter, and the reading of what was written. \<open>Portal_Properties\<close>: what a
    client gets from a portal, and when either side runs into undefined behaviour. \<open>Portal_Client\<close> puts the two programs
    together: a client that loads an ISP from a portal answers as the portal does.

  \<^bold>\<open>Conventions.\<close> A class is a record, an enumeration a datatype, and a method a function from the state to a
  result with the new state. Objects that are shared by pointer have an address, a natural number, in an
  explicit store. Unsigned counters are words. A \<open>double\<close> is a rational number, and the rounding of each
  operation is a function \<open>fl\<close> that the definitions take as an argument. What the program gets from outside,
  the replies of portals, files and the engine, the clock and the values of \<open>rand\<close>, is an argument as well. So are, for the server, the
  content of the memory an object is made in, what a \<open>boost::shared_mutex\<close> grants, the shortest paths of the Boost
  Graph Library with what it documents of them, the conversions of \<open>boost::lexical_cast\<close>, the resolver of addresses
  and the plugins. Containers of Boost are lists in the order in which they are read; the costs of the server are
  doubles with their special values.

  \<^bold>\<open>Bounds and fuel.\<close> The loops of the Patricia tree recurse on the tree; its explicit stack has the bound of the
  source, which the invariant shows to be enough. A loop that draws random numbers consumes a list of
  draws and fails with \<open>Out_Of_Draws\<close> when they are used up; no other error is shown as a result of this bound.
  The inner loop of \<open>run\<close> and the destructor of the update manager have fuel: for the destructor the length of
  the queue is enough, and for the loop a bound of the number of tasks times the number of managers plus three
  is proved to be enough when no time to live is zero. Tracing a route back has as many steps as the
  network has nodes, enough for the predecessors of shortest paths. A transaction locks the tree with one step
  more than there are objects, which is proved to be enough, and an object met twice is a deadlock; \<open>updated\<close> has
  the number of objects as the bound of its depth, and the start of the server is shown to stay within it.

  \<^bold>\<open>Not modelled.\<close> libcurl and libmicrohttpd: what libcurl hands over in one request is an argument, and so are the
  sizes of the buffers of the HTTP server. The parsing of requests by the server and their dispatch, the handlers for
  administrators, whose actions are modelled, the replies in JSON, compressed replies, the administration client, and the text form of
  doubles; the options of the server and its plugins; threads, except for
  the locks of the server's objects, the interleaving of its job queue and the shared locks a selection leaves
  held; what threads do to the state while a transaction of an administrator waits for locks; the persistence of
  the server's objects, which is compiled out (\<open>P4P_CLUSTER\<close>); logging, the COM bindings, the command line
  programs, the utilities, and the BitTorrent client and tracker kept in the repository.
\<close>

end
